(* ===== verification/GoPrelude.thy ===== *)
theory GoPrelude
  imports Main "HOL-Library.Finite_Map" "HOL-Library.Word"
begin

text \<open>
  The vocabulary the component theories share.

  \<^item> Go maps are finite maps (\<open>('k, 'v) fmap\<close>); \<open>fmsum\<close> adds an integer weight over
    the entries of a map and is what the accounting invariants are stated with.
  \<^item> Go strings are byte strings (\<open>string\<close>); the functions of the packages
    \<^verbatim>\<open>strings\<close> and \<^verbatim>\<open>strconv\<close> the sources call are given here.
  \<^item> Durations and instants are integers counting nanoseconds.
\<close>

named_theorems go_simps \<open>unfolding rules for the small helpers of the standard library\<close>
named_theorems fmsum_simps \<open>how a weighted sum over a map changes with the map\<close>

type_synonym ('k, 'v) gomap = "('k, 'v) fmap"
type_synonym time = int
type_synonym duration = int

abbreviation (input) millisecond :: duration where
  "millisecond \<equiv> 1000000"

abbreviation (input) second :: duration where
  "second \<equiv> 1000000000"

section \<open>Integer division\<close>

text \<open>Go divides towards zero and the remainder takes the sign of the dividend.\<close>

definition godiv :: "int \<Rightarrow> int \<Rightarrow> int" where
  "godiv a b = sgn a * sgn b * (\<bar>a\<bar> div \<bar>b\<bar>)"

definition gomod :: "int \<Rightarrow> int \<Rightarrow> int" where
  "gomod a b = a - b * godiv a b"

lemma godiv_nonneg [simp]: "0 \<le> a \<Longrightarrow> 0 < b \<Longrightarrow> godiv a b = a div b"
  by (cases "a = 0") (simp_all add: godiv_def)

lemma gomod_nonneg [simp]: "0 \<le> a \<Longrightarrow> 0 < b \<Longrightarrow> gomod a b = a mod b"
  by (simp add: gomod_def minus_mult_div_eq_mod)

section \<open>Iterating over a map\<close>

text \<open>
  A \<^verbatim>\<open>range\<close> over a Go map (and \<^verbatim>\<open>sync.Map.Range\<close>) visits every entry once, in an order the
  language leaves open. Code whose result can depend on the order takes the order as an
  argument: a function that lists the keys of a map.
\<close>

definition range_order :: "(('k, 'v) fmap \<Rightarrow> 'k list) \<Rightarrow> bool" where
  "range_order ord \<longleftrightarrow> (\<forall>m. distinct (ord m) \<and> set (ord m) = fmdom' m)"

lemma range_orderD:
  "range_order ord \<Longrightarrow> distinct (ord m)"
  "range_order ord \<Longrightarrow> set (ord m) = fmdom' m"
  by (simp_all add: range_order_def)

lemma range_order_sorted:
  "range_order (\<lambda>m :: ('k::linorder, 'v) fmap. sorted_list_of_set (fmdom' m))"
  by (simp add: range_order_def)

section \<open>Weighted sums over finite maps\<close>

definition fmsum :: "('k \<Rightarrow> 'v \<Rightarrow> int) \<Rightarrow> ('k, 'v) fmap \<Rightarrow> int" where
  "fmsum f m = (\<Sum>k\<in>fmdom' m. f k (the (fmlookup m k)))"

lemma fmsum_empty [simp]: "fmsum f fmempty = 0"
  by (simp add: fmsum_def)

text \<open>The weight an entry contributes, 0 when the key is absent.\<close>

definition weight_at :: "('k \<Rightarrow> 'v \<Rightarrow> int) \<Rightarrow> ('k, 'v) fmap \<Rightarrow> 'k \<Rightarrow> int" where
  "weight_at f m k = (case fmlookup m k of None \<Rightarrow> 0 | Some v \<Rightarrow> f k v)"

lemma weight_at_simps [simp]:
  "fmlookup m k = None \<Longrightarrow> weight_at f m k = 0"
  "fmlookup m k = Some v \<Longrightarrow> weight_at f m k = f k v"
  by (simp_all add: weight_at_def)

lemma fmsum_remove:
  "fmsum f m = weight_at f m k + (\<Sum>j\<in>fmdom' m - {k}. f j (the (fmlookup m j)))"
proof (cases "fmlookup m k")
  case None
  then have "k \<notin> fmdom' m" by (simp add: fmdom'_notI)
  then show ?thesis using None by (simp add: fmsum_def)
next
  case (Some v)
  then have "k \<in> fmdom' m" by (simp add: fmdom'I)
  then show ?thesis using Some
    by (simp add: fmsum_def sum.remove)
qed

lemma fmsum_upd [fmsum_simps]:
  "fmsum f (fmupd k v m) = fmsum f m - weight_at f m k + f k v"
proof -
  have "fmsum f (fmupd k v m) = f k v + (\<Sum>j\<in>fmdom' m - {k}. f j (the (fmlookup m j)))"
    by (subst fmsum_remove [where k = k]) (auto intro!: sum.cong split: if_splits)
  then show ?thesis
    using fmsum_remove [of f m k] by simp
qed

lemma fmsum_drop [fmsum_simps]:
  "fmsum f (fmdrop k m) = fmsum f m - weight_at f m k"
proof -
  have "fmsum f (fmdrop k m) = (\<Sum>j\<in>fmdom' m - {k}. f j (the (fmlookup m j)))"
    by (simp add: fmsum_def fmdom'_drop)
  then show ?thesis
    using fmsum_remove [of f m k] by simp
qed

lemma fmsum_cong:
  assumes "\<And>k v. fmlookup m k = Some v \<Longrightarrow> f k v = g k v"
  shows "fmsum f m = fmsum g m"
  unfolding fmsum_def by (rule sum.cong) (auto simp: fmlookup_dom'_iff assms)

lemma fmsum_zero:
  assumes "\<And>k v. fmlookup m k = Some v \<Longrightarrow> f k v = 0"
  shows "fmsum f m = 0"
  using fmsum_cong [of m f "\<lambda>_ _. 0"] assms by (simp add: fmsum_def)

lemma fmsum_nonneg:
  assumes "\<And>k v. fmlookup m k = Some v \<Longrightarrow> 0 \<le> f k v"
  shows "0 \<le> fmsum f m"
  unfolding fmsum_def by (rule sum_nonneg) (auto simp: fmlookup_dom'_iff assms)

lemma fmsum_ge_weight:
  assumes "\<And>k v. fmlookup m k = Some v \<Longrightarrow> 0 \<le> f k v"
  shows "weight_at f m k \<le> fmsum f m"
proof -
  have "0 \<le> fmsum f (fmdrop k m)"
    by (rule fmsum_nonneg) (auto simp: assms split: if_splits)
  then show ?thesis by (simp add: fmsum_drop)
qed

lemma fmsum_filter:
  "fmsum f (fmfilter P m) = fmsum (\<lambda>k v. if P k then f k v else 0) m"
proof -
  have "fmdom' (fmfilter P m) = {k \<in> fmdom' m. P k}"
    by (auto simp: fmlookup_dom'_iff)
  then show ?thesis
    by (simp add: fmsum_def sum.inter_filter)
qed

text \<open>Entries that satisfy a predicate, counted.\<close>

abbreviation fmcount :: "('k \<Rightarrow> 'v \<Rightarrow> bool) \<Rightarrow> ('k, 'v) fmap \<Rightarrow> int" where
  "fmcount P m \<equiv> fmsum (\<lambda>k v. if P k v then 1 else 0) m"

lemma fmcount_zero_iff: "fmcount P m = 0 \<longleftrightarrow> (\<forall>k v. fmlookup m k = Some v \<longrightarrow> \<not> P k v)"
proof
  assume 0: "fmcount P m = 0"
  show "\<forall>k v. fmlookup m k = Some v \<longrightarrow> \<not> P k v"
  proof (intro allI impI notI)
    fix k v assume kv: "fmlookup m k = Some v" and "P k v"
    then have "weight_at (\<lambda>k v. if P k v then 1 else 0) m k = 1" by simp
    moreover have "weight_at (\<lambda>k v. if P k v then 1 else 0) m k \<le> fmcount P m"
      by (rule fmsum_ge_weight) simp
    ultimately show False using 0 by simp
  qed
next
  assume "\<forall>k v. fmlookup m k = Some v \<longrightarrow> \<not> P k v"
  then show "fmcount P m = 0" by (intro fmsum_zero) auto
qed

text \<open>Dropping every entry whose value satisfies a predicate (a \<^verbatim>\<open>delete\<close> in a \<^verbatim>\<open>range\<close> loop).\<close>

definition fmreject :: "('k \<Rightarrow> 'v \<Rightarrow> bool) \<Rightarrow> ('k, 'v) fmap \<Rightarrow> ('k, 'v) fmap" where
  "fmreject P m = fmfilter (\<lambda>k. \<not> (case fmlookup m k of None \<Rightarrow> False | Some v \<Rightarrow> P k v)) m"

lemma fmlookup_reject [simp]:
  "fmlookup (fmreject P m) k =
     (case fmlookup m k of None \<Rightarrow> None | Some v \<Rightarrow> if P k v then None else Some v)"
  by (auto simp: fmreject_def split: option.splits)

lemma fmsum_reject:
  "fmsum f (fmreject P m) = fmsum (\<lambda>k v. if P k v then 0 else f k v) m"
  unfolding fmreject_def fmsum_filter by (rule fmsum_cong) simp

section \<open>Strings\<close>

definition hasPrefix :: "string \<Rightarrow> string \<Rightarrow> bool" where
  "hasPrefix s p \<longleftrightarrow> take (length p) s = p"

definition trimPrefix :: "string \<Rightarrow> string \<Rightarrow> string" where
  "trimPrefix s p = (if hasPrefix s p then drop (length p) s else s)"

lemma hasPrefix_append [simp]: "hasPrefix (p @ s) p"
  by (simp add: hasPrefix_def)

lemma hasPrefixE:
  assumes "hasPrefix s p" obtains r where "s = p @ r"
  using assms unfolding hasPrefix_def by (metis append_take_drop_id)

lemma trimPrefix_append [simp]: "trimPrefix (p @ s) p = s"
  by (simp add: trimPrefix_def)

text \<open>\<^verbatim>\<open>strings.SplitN(s, c, n)\<close> for a one-byte separator and \<open>n > 0\<close>.\<close>

fun splitN :: "nat \<Rightarrow> char \<Rightarrow> string \<Rightarrow> string list" where
  "splitN 0 c s = []"
| "splitN (Suc 0) c s = [s]"
| "splitN (Suc (Suc n)) c s =
     (if c \<in> set s
      then takeWhile (\<lambda>x. x \<noteq> c) s # splitN (Suc n) c (tl (dropWhile (\<lambda>x. x \<noteq> c) s))
      else [s])"

lemma splitN_cut:
  "c \<notin> set a \<Longrightarrow> splitN (Suc (Suc n)) c (a @ c # b) = a # splitN (Suc n) c b"
  by (auto simp: takeWhile_append dropWhile_append)

text \<open>\<^verbatim>\<open>strings.Split(s, c)\<close> for a one-byte separator.\<close>

fun splitAll :: "char \<Rightarrow> string \<Rightarrow> string list" where
  "splitAll c [] = [[]]"
| "splitAll c (x # xs) =
     (if x = c then [] # splitAll c xs
      else case splitAll c xs of [] \<Rightarrow> [[x]] | p # ps \<Rightarrow> (x # p) # ps)"

text \<open>\<^verbatim>\<open>strings.Join(parts, sep)\<close>.\<close>

fun joinStrings :: "string list \<Rightarrow> string \<Rightarrow> string" where
  "joinStrings [] sep = []"
| "joinStrings [p] sep = p"
| "joinStrings (p # q # ps) sep = p @ sep @ joinStrings (q # ps) sep"

section \<open>Decimal numbers\<close>

definition digit_char :: "nat \<Rightarrow> char" where
  "digit_char d = char_of (48 + d)"

definition digit_val :: "char \<Rightarrow> nat option" where
  "digit_val c = (let n = of_char c :: nat in if 48 \<le> n \<and> n \<le> 57 then Some (n - 48) else None)"

fun showNat :: "nat \<Rightarrow> string" where
  "showNat n = (if n < 10 then [digit_char n] else showNat (n div 10) @ [digit_char (n mod 10)])"

declare showNat.simps [simp del]

text \<open>\<^verbatim>\<open>%d\<close> on an \<^verbatim>\<open>int\<close>.\<close>

definition showInt :: "int \<Rightarrow> string" where
  "showInt i = (if i < 0 then CHR ''-'' # showNat (nat (- i)) else showNat (nat i))"

fun readDigits :: "nat \<Rightarrow> string \<Rightarrow> nat option" where
  "readDigits acc [] = Some acc"
| "readDigits acc (c # cs) =
     (case digit_val c of None \<Rightarrow> None | Some d \<Rightarrow> readDigits (acc * 10 + d) cs)"

definition readNat :: "string \<Rightarrow> nat option" where
  "readNat s = (if s = [] then None else readDigits 0 s)"

abbreviation in_int64 :: "int \<Rightarrow> bool" where
  "in_int64 i \<equiv> - (2 ^ 63) \<le> i \<and> i < 2 ^ 63"

definition range_int64 :: "int \<Rightarrow> int option" where
  "range_int64 i = (if in_int64 i then Some i else None)"

text \<open>\<^verbatim>\<open>strconv.Atoi\<close>: an optional sign, at least one digit, a value that fits 64 bits.\<close>

definition atoi :: "string \<Rightarrow> int option" where
  "atoi s = (case s of
       [] \<Rightarrow> None
     | c # cs \<Rightarrow>
         if c = CHR ''-'' then Option.bind (readNat cs) (\<lambda>n. range_int64 (- int n))
         else if c = CHR ''+'' then Option.bind (readNat cs) (\<lambda>n. range_int64 (int n))
         else Option.bind (readNat s) (\<lambda>n. range_int64 (int n)))"

lemma of_char_digit [simp]: "d < 10 \<Longrightarrow> of_char (digit_char d) = 48 + d"
  by (simp add: digit_char_def)

lemma digit_val_digit [simp]: "d < 10 \<Longrightarrow> digit_val (digit_char d) = Some d"
  by (simp add: digit_val_def)

lemma readDigits_append:
  "readDigits acc (xs @ ys) = Option.bind (readDigits acc xs) (\<lambda>a. readDigits a ys)"
  by (induction xs arbitrary: acc) (auto split: option.splits)

lemma showNat_nonempty [simp]: "showNat n \<noteq> []"
  by (subst showNat.simps) simp

lemma readDigits_showNat: "readDigits 0 (showNat n) = Some n"
proof (induction n rule: showNat.induct)
  case (1 n)
  show ?case
  proof (cases "n < 10")
    case True
    then show ?thesis by (simp add: showNat.simps [of n])
  next
    case False
    with 1 show ?thesis by (simp add: showNat.simps [of n] readDigits_append)
  qed
qed

lemma readNat_showNat [simp]: "readNat (showNat n) = Some n"
  by (simp add: readNat_def readDigits_showNat)

lemma showNat_digits: "c \<in> set (showNat n) \<Longrightarrow> \<exists>d<10. c = digit_char d"
proof (induction n rule: showNat.induct)
  case (1 n)
  show ?case
  proof (cases "n < 10")
    case True
    with 1(2) show ?thesis by (auto simp: showNat.simps [of n])
  next
    case False
    have "n mod 10 < 10" by simp
    with False 1 show ?thesis by (fastforce simp: showNat.simps [of n])
  qed
qed

lemma digit_char_neq:
  assumes "d < 10" and "of_char c > (57::nat) \<or> of_char c < (48::nat)"
  shows "digit_char d \<noteq> c"
proof
  assume "digit_char d = c"
  with assms(1) have "of_char c = 48 + d" by auto
  with assms show False by simp
qed

lemma showNat_avoids:
  "of_char c > (57::nat) \<or> of_char c < (48::nat) \<Longrightarrow> c \<notin> set (showNat n)"
  using showNat_digits digit_char_neq by blast

lemma showInt_no_colon [simp]: "CHR '':'' \<notin> set (showInt i)"
  by (simp add: showInt_def showNat_avoids)

lemma readDigits_chars:
  "readDigits acc s = Some n \<Longrightarrow> c \<in> set s \<Longrightarrow> digit_val c \<noteq> None"
  by (induction s arbitrary: acc) (auto split: option.splits)

text \<open>Printing then reading a 64-bit integer gives it back.\<close>

lemma showNat_head:
  obtains c cs where "showNat n = c # cs" and "c \<noteq> CHR ''-''" and "c \<noteq> CHR ''+''"
proof -
  obtain c cs where s: "showNat n = c # cs"
    by (meson neq_Nil_conv showNat_nonempty)
  have "CHR ''-'' \<notin> set (showNat n)" and "CHR ''+'' \<notin> set (showNat n)"
    by (simp_all add: showNat_avoids)
  with s that show ?thesis by auto
qed

theorem atoi_showInt: "in_int64 i \<Longrightarrow> atoi (showInt i) = Some i"
proof (cases "i < 0")
  case True
  assume "in_int64 i"
  with True show ?thesis by (simp add: atoi_def showInt_def range_int64_def)
next
  case False
  assume "in_int64 i"
  moreover obtain c cs where "showNat (nat i) = c # cs" "c \<noteq> CHR ''-''" "c \<noteq> CHR ''+''"
    by (rule showNat_head)
  moreover have "readNat (showNat (nat i)) = Some (nat i)" by simp
  ultimately show ?thesis using False
    by (simp add: atoi_def showInt_def range_int64_def)
qed

lemma atoi_no_colon:
  assumes "CHR '':'' \<in> set s" shows "atoi s = None"
proof -
  have key: "readNat t = None" if "CHR '':'' \<in> set t" for t
  proof (cases "readDigits 0 t")
    case None
    then show ?thesis by (simp add: readNat_def)
  next
    case (Some n)
    with that have "digit_val CHR '':'' \<noteq> None" using readDigits_chars by blast
    then show ?thesis by (simp add: digit_val_def)
  qed
  show ?thesis using assms key by (auto simp: atoi_def split: list.splits)
qed

end
