(* ===== verification/Contracts.thy ===== *)
theory Contracts
  imports GoPrelude
begin

text \<open>
  The interfaces between the components, as locales: what a client calls, what the provider
  promises, and what the client can conclude from the promises alone. Each locale is
  interpreted on the model of the component that provides it, in that component's theory.
\<close>

section \<open>Lease timers\<close>

text \<open>
  The interface \<^verbatim>\<open>timewheel.TimeWheel\<close> as its clients use it: tasks are added, pushed forward and
  removed; a timer accepts any interval that is at least its span. The schedulers log the error
  of a refused call and go on, which is \<open>kept\<close>.
\<close>

definition kept :: "'w \<Rightarrow> 'e + 'w \<Rightarrow> 'w" where
  "kept w r = (case r of Inl _ \<Rightarrow> w | Inr w' \<Rightarrow> w')"

lemma kept_simps [simp]: "kept w (Inl e) = w" "kept w (Inr w') = w'"
  by (simp_all add: kept_def)

locale lease_timer =
  fixes good :: "'w \<Rightarrow> bool"
    and waiting :: "'w \<Rightarrow> string \<Rightarrow> bool"
    and span :: "'w \<Rightarrow> duration"
    and add :: "'w \<Rightarrow> string \<Rightarrow> duration \<Rightarrow> int \<Rightarrow> 'e + 'w"
    and push :: "'w \<Rightarrow> string \<Rightarrow> duration \<Rightarrow> int \<Rightarrow> 'e + 'w"
    and remove :: "'w \<Rightarrow> string \<Rightarrow> 'w"
  assumes add_refused: "good w \<Longrightarrow> span w \<le> d \<Longrightarrow> add w t d n = Inl e \<Longrightarrow> waiting w t"
    and add_good: "good w \<Longrightarrow> add w t d n = Inr w' \<Longrightarrow> good w' \<and> span w' = span w"
    and add_waiting: "good w \<Longrightarrow> add w t d n = Inr w' \<Longrightarrow> waiting w' u \<longleftrightarrow> u = t \<or> waiting w u"
    and push_accepted: "good w \<Longrightarrow> span w \<le> d \<Longrightarrow> \<exists>w'. push w t d n = Inr w'"
    and push_good: "good w \<Longrightarrow> push w t d n = Inr w' \<Longrightarrow> good w' \<and> span w' = span w"
    and push_waiting: "good w \<Longrightarrow> push w t d n = Inr w' \<Longrightarrow> waiting w' u \<longleftrightarrow> u = t \<or> waiting w u"
    and remove_good: "good w \<Longrightarrow> good (remove w t) \<and> span (remove w t) = span w"
    and remove_waiting: "good w \<Longrightarrow> waiting (remove w t) u \<longleftrightarrow> u \<noteq> t \<and> waiting w u"
begin

lemma kept_add:
  assumes "good w" and "span w \<le> d"
  shows "good (kept w (add w t d n))" "span (kept w (add w t d n)) = span w"
    "waiting (kept w (add w t d n)) u \<longleftrightarrow> u = t \<or> waiting w u"
  using assms add_refused [OF assms] add_good [OF assms(1)] add_waiting [OF assms(1)]
  by (cases "add w t d n"; auto)+

lemma kept_push:
  assumes "good w" and "span w \<le> d"
  shows "good (kept w (push w t d n))" "span (kept w (push w t d n)) = span w"
    "waiting (kept w (push w t d n)) u \<longleftrightarrow> u = t \<or> waiting w u"
proof -
  obtain w' where p: "push w t d n = Inr w'" using push_accepted [OF assms] by blast
  show "good (kept w (push w t d n))" "span (kept w (push w t d n)) = span w"
    "waiting (kept w (push w t d n)) u \<longleftrightarrow> u = t \<or> waiting w u"
    using push_good [OF assms(1) p] push_waiting [OF assms(1) p] p by simp_all
qed

text \<open>
  A client that keeps one task per lease never loses one: adding or pushing the task of a new
  lease and removing the task of a dropped lease keep every remaining lease waiting.
\<close>

lemma cover_add:
  assumes "good w" "span w \<le> d" "\<forall>l\<in>leases. waiting w l"
  shows "\<forall>l\<in>insert t leases. waiting (kept w (add w t d n)) l"
  using assms kept_add(3) [OF assms(1,2)] by blast

lemma cover_push:
  assumes "good w" "span w \<le> d" "\<forall>l\<in>leases. waiting w l"
  shows "\<forall>l\<in>insert t leases. waiting (kept w (push w t d n)) l"
  using assms kept_push(3) [OF assms(1,2)] by blast

lemma cover_remove:
  assumes "good w" "\<forall>l\<in>leases. waiting w l" "dropped = {t}"
  shows "\<forall>l\<in>leases - dropped. waiting (remove w t) l"
  using assms remove_waiting by blast

lemma remove_all:
  assumes "good w"
  shows "good (foldl remove w ts) \<and> span (foldl remove w ts) = span w \<and>
    (\<forall>u. waiting (foldl remove w ts) u \<longleftrightarrow> u \<notin> set ts \<and> waiting w u)"
  using assms
proof (induction ts arbitrary: w)
  case (Cons t ts)
  have "good (remove w t)" using remove_good [OF Cons.prems] by simp
  with Cons.IH [OF this] remove_good [OF Cons.prems] remove_waiting [OF Cons.prems] show ?case
    by auto
qed simp

end

section \<open>Hash routing\<close>

text \<open>
  The part of the interface \<^verbatim>\<open>loadbalance.LoadBalance\<close> that the scheduler proxy relies on: a
  router over a set of members sends every key to one of them, and the choice depends on the
  members only.
\<close>

locale hash_router =
  fixes good :: "'r \<Rightarrow> bool"
    and members :: "'r \<Rightarrow> string set"
    and route :: "'r \<Rightarrow> string \<Rightarrow> string"
    and join :: "'r \<Rightarrow> string \<Rightarrow> 'r"
    and leave :: "'r \<Rightarrow> string \<Rightarrow> 'r"
  assumes route_member: "good r \<Longrightarrow> members r \<noteq> {} \<Longrightarrow> route r k \<in> members r"
    and route_none: "good r \<Longrightarrow> members r = {} \<Longrightarrow> route r k = []"
    and route_agree: "good r \<Longrightarrow> good s \<Longrightarrow> members r = members s \<Longrightarrow> route r k = route s k"
    and join_good: "good r \<Longrightarrow> good (join r x)"
    and join_members: "members (join r x) = insert x (members r)"
    and leave_good: "good r \<Longrightarrow> good (leave r x)"
    and leave_members: "members (leave r x) = members r - {x}"
begin

text \<open>
  Schedulers whose routers have the same members agree on the single owner of a key, so of the
  tests ``am I the owner?'' that they make under different names at most one succeeds.
\<close>

lemma single_owner:
  assumes "good r" "good s" "members r = members s" "route r k = me" "route s k = you"
  shows "me = you"
  using assms route_agree by metis

lemma some_owner:
  assumes "good r" "members r \<noteq> {}"
  shows "\<exists>!x. x \<in> members r \<and> route r k = x"
  using assms route_member by blast

lemma join_leave_route:
  assumes "good r" "x \<notin> members r"
  shows "route (leave (join r x) x) k = route r k"
  using assms by (intro route_agree) (auto simp: join_good leave_good join_members leave_members)

end

end
