(* ===== verification/TimeWheel.thy ===== *)
theory TimeWheel
  imports Contracts "HOL-Library.List_Lexorder" "HOL-Library.Char_ord"
begin

text \<open>
  The time wheel of \<^verbatim>\<open>go/pkg/common/faas_common/timewheel\<close>: the data of
  \<^verbatim>\<open>SimpleTimeWheel\<close>, its operations (\<^verbatim>\<open>AddTask\<close>, \<^verbatim>\<open>UpdateTask\<close>, \<^verbatim>\<open>DelTask\<close>, the ticker
  case of \<^verbatim>\<open>run\<close> with \<^verbatim>\<open>checkAndFireTrigger\<close>, \<^verbatim>\<open>Wait\<close>, \<^verbatim>\<open>Stop\<close>), the coherence of its two
  indexes, and when a task fires.

  A trigger is one heap object that the slot map and the record map both point to and that
  \<^verbatim>\<open>UpdateTask\<close> and \<^verbatim>\<open>checkAndFireTrigger\<close> mutate; the model keeps that heap
  (\<open>tw_heap\<close>) and the pointers. The order in which \<^verbatim>\<open>sync.Map.Range\<close> visits a slot is the
  argument \<open>ord\<close> of a tick.
\<close>

section \<open>Data\<close>

datatype tw_error =
    ErrInvalidTaskInterval
  | ErrTaskAlreadyExist string
  | NotATimeTrigger \<comment> \<open>the failed type assertion on an entry of the record\<close>
  | IndexOutOfRange \<comment> \<open>the panic of an index into \<open>slots\<close> that is out of range\<close>

record timeTrigger =
  tt_taskID :: string
  tt_times :: int
  tt_index :: int
  tt_circle :: int
  tt_circleCount :: int

record SimpleTimeWheel =
  tw_pace :: duration
  tw_perimeter :: duration
  tw_slotNum :: int
  tw_curSlot :: int
  tw_slots :: "(string, nat) gomap list"
  tw_record :: "(string, nat) gomap"
  tw_readyCh :: "string list list"
  tw_stopped :: bool
  tw_heap :: "(nat, timeTrigger) gomap"
  tw_next :: nat

abbreviation (input) minPace :: duration where "minPace \<equiv> 2 * millisecond"
abbreviation (input) minSlotNum :: int where "minSlotNum \<equiv> 1"
abbreviation (input) readyChan :: nat where "readyChan \<equiv> 10"
abbreviation (input) readyChanBlock :: nat where "readyChanBlock \<equiv> 5"

section \<open>Operations\<close>

definition NewSimpleTimeWheel :: "duration \<Rightarrow> int \<Rightarrow> SimpleTimeWheel" where
  "NewSimpleTimeWheel pace0 slotNum0 =
     (let pace = (if pace0 < minPace then minPace else pace0);
          slotNum = (if slotNum0 < minSlotNum then minSlotNum else slotNum0)
      in \<lparr>tw_pace = pace, tw_perimeter = slotNum * pace, tw_slotNum = slotNum, tw_curSlot = 0,
          tw_slots = replicate (nat slotNum) fmempty, tw_record = fmempty, tw_readyCh = [],
          tw_stopped = False, tw_heap = fmempty, tw_next = 0\<rparr>)"

text \<open>Where a task of a given interval is placed: slot index, full circles and the start count.\<close>

definition tw_ticks :: "SimpleTimeWheel \<Rightarrow> duration \<Rightarrow> int" where
  "tw_ticks w interval = godiv interval (tw_pace w)"

definition place_index :: "SimpleTimeWheel \<Rightarrow> duration \<Rightarrow> int" where
  "place_index w interval = gomod (tw_ticks w interval + tw_curSlot w + 1) (tw_slotNum w)"

definition place_circle :: "SimpleTimeWheel \<Rightarrow> duration \<Rightarrow> int" where
  "place_circle w interval = godiv (tw_ticks w interval + tw_curSlot w + 1) (tw_slotNum w)"

definition place_count :: "SimpleTimeWheel \<Rightarrow> duration \<Rightarrow> int" where
  "place_count w interval = (if place_index w interval > tw_curSlot w then 0 else 1)"

definition slot_store :: "int \<Rightarrow> string \<Rightarrow> nat \<Rightarrow> SimpleTimeWheel \<Rightarrow> SimpleTimeWheel" where
  "slot_store i taskID p w =
     w\<lparr>tw_slots := (tw_slots w)[nat i := fmupd taskID p (tw_slots w ! nat i)]\<rparr>"

definition slot_delete :: "int \<Rightarrow> string \<Rightarrow> SimpleTimeWheel \<Rightarrow> SimpleTimeWheel" where
  "slot_delete i taskID w =
     w\<lparr>tw_slots := (tw_slots w)[nat i := fmdrop taskID (tw_slots w ! nat i)]\<rparr>"

definition slot_in_range :: "SimpleTimeWheel \<Rightarrow> int \<Rightarrow> bool" where
  "slot_in_range w i \<longleftrightarrow> 0 \<le> i \<and> i < int (length (tw_slots w))"

definition AddTask :: "SimpleTimeWheel \<Rightarrow> string \<Rightarrow> duration \<Rightarrow> int \<Rightarrow> tw_error + SimpleTimeWheel" where
  "AddTask w taskID interval ntimes =
     (if interval < tw_perimeter w then Inl ErrInvalidTaskInterval
      else if fmlookup (tw_record w) taskID \<noteq> None then Inl (ErrTaskAlreadyExist taskID)
      else
        let index = place_index w interval;
            trigger = \<lparr>tt_taskID = taskID, tt_times = ntimes, tt_index = index,
                       tt_circle = place_circle w interval,
                       tt_circleCount = place_count w interval\<rparr>;
            p = tw_next w;
            w1 = w\<lparr>tw_heap := fmupd p trigger (tw_heap w), tw_next := Suc p\<rparr>
        in if \<not> slot_in_range w index then Inl IndexOutOfRange
           else
             let w2 = slot_store index taskID p w1
             in Inr (w2\<lparr>tw_record := fmupd taskID p (tw_record w2)\<rparr>))"

definition DelTask :: "SimpleTimeWheel \<Rightarrow> string \<Rightarrow> SimpleTimeWheel" where
  "DelTask w taskID =
     (case fmlookup (tw_record w) taskID of
        None \<Rightarrow> w
      | Some p \<Rightarrow>
          let w1 = w\<lparr>tw_record := fmdrop taskID (tw_record w)\<rparr>
          in case fmlookup (tw_heap w) p of
               None \<Rightarrow> w1
             | Some trigger \<Rightarrow> slot_delete (tt_index trigger) taskID w1)"

definition UpdateTask :: "SimpleTimeWheel \<Rightarrow> string \<Rightarrow> duration \<Rightarrow> int \<Rightarrow> tw_error + SimpleTimeWheel" where
  "UpdateTask w taskID interval ntimes =
     (case fmlookup (tw_record w) taskID of
        None \<Rightarrow> AddTask w taskID interval ntimes
      | Some p \<Rightarrow>
          (case fmlookup (tw_heap w) p of
             None \<Rightarrow> Inl NotATimeTrigger
           | Some trigger \<Rightarrow>
               let w1 = slot_delete (tt_index trigger) (tt_taskID trigger) w;
                   index = place_index w interval;
                   trigger' = trigger\<lparr>tt_times := ntimes, tt_circle := place_circle w interval,
                                      tt_circleCount := place_count w interval,
                                      tt_index := index\<rparr>;
                   w2 = w1\<lparr>tw_heap := fmupd p trigger' (tw_heap w1)\<rparr>
               in if \<not> slot_in_range w index then Inl IndexOutOfRange
                  else Inr (slot_store index (tt_taskID trigger) p w2)))"

text \<open>The body of the \<^verbatim>\<open>Range\<close> loop in \<^verbatim>\<open>checkAndFireTrigger\<close>, for one entry of the slot.\<close>

definition fire_trigger ::
  "int \<Rightarrow> SimpleTimeWheel \<times> string list \<Rightarrow> string \<Rightarrow> SimpleTimeWheel \<times> string list" where
  "fire_trigger currSlot st tid =
     (let (w, ready) = st in
      case fmlookup (tw_slots w ! nat currSlot) tid of
        None \<Rightarrow> (w, ready)
      | Some p \<Rightarrow>
          (case fmlookup (tw_heap w) p of
             None \<Rightarrow> (slot_delete currSlot tid w, ready)
           | Some trigger \<Rightarrow>
               if tt_circleCount trigger = tt_circle trigger then
                 let w1 = (if tt_times trigger = 0
                           then slot_delete currSlot tid
                                  (w\<lparr>tw_record := fmdrop (tt_taskID trigger) (tw_record w)\<rparr>)
                           else w);
                     trigger' = trigger\<lparr>tt_circleCount := 0 + 1,
                                        tt_times := (if tt_times trigger > 0
                                                     then tt_times trigger - 1
                                                     else tt_times trigger)\<rparr>
                 in (w1\<lparr>tw_heap := fmupd p trigger' (tw_heap w1)\<rparr>, ready @ [tt_taskID trigger])
               else
                 let trigger' = trigger\<lparr>tt_circleCount := tt_circleCount trigger + 1\<rparr>
                 in (w\<lparr>tw_heap := fmupd p trigger' (tw_heap w)\<rparr>, ready)))"

definition checkAndFireTrigger ::
  "((string, nat) gomap \<Rightarrow> string list) \<Rightarrow> SimpleTimeWheel \<Rightarrow> int \<Rightarrow> SimpleTimeWheel \<times> string list" where
  "checkAndFireTrigger ord w currSlot =
     foldl (fire_trigger currSlot) (w, []) (ord (tw_slots w ! nat currSlot))"

text \<open>One tick of \<^verbatim>\<open>run\<close>: the wheel moves one slot on and reports the tasks that are due.\<close>

definition tick ::
  "((string, nat) gomap \<Rightarrow> string list) \<Rightarrow> SimpleTimeWheel \<Rightarrow> SimpleTimeWheel \<times> string list" where
  "tick ord w =
     (let curSlot = (tw_curSlot w + 1) mod int (length (tw_slots w))
      in checkAndFireTrigger ord (w\<lparr>tw_curSlot := curSlot\<rparr>) curSlot)"

text \<open>
  The end of \<^verbatim>\<open>checkAndFireTrigger\<close>: the batch is sent on \<^verbatim>\<open>readyCh\<close>, which blocks while the
  channel is full (\<open>None\<close>) unless the wheel is stopped.
\<close>

definition send_ready :: "SimpleTimeWheel \<Rightarrow> string list \<Rightarrow> SimpleTimeWheel option" where
  "send_ready w readyList =
     (if readyList = [] then Some w
      else if length (tw_readyCh w) < readyChan
      then Some (w\<lparr>tw_readyCh := tw_readyCh w @ [readyList]\<rparr>)
      else if tw_stopped w then Some w
      else None)"

text \<open>
  \<^verbatim>\<open>Wait\<close>: the next batch and whether the backlog error is reported with it; the empty batch
  once the channel is closed; \<open>None\<close> while it blocks.
\<close>

definition Wait :: "SimpleTimeWheel \<Rightarrow> (SimpleTimeWheel \<times> string list \<times> bool) option" where
  "Wait w =
     (case tw_readyCh w of
        [] \<Rightarrow> if tw_stopped w then Some (w, [], False) else None
      | readyList # rest \<Rightarrow>
          Some (w\<lparr>tw_readyCh := rest\<rparr>, readyList, length rest > readyChanBlock))"

definition Stop :: "SimpleTimeWheel \<Rightarrow> SimpleTimeWheel" where
  "Stop w = w\<lparr>tw_stopped := True\<rparr>"

text \<open>Several ticks, each with its own iteration order; the batches in order.\<close>

fun run_ticks ::
  "((string, nat) gomap \<Rightarrow> string list) list \<Rightarrow> SimpleTimeWheel \<Rightarrow> SimpleTimeWheel \<times> string list list" where
  "run_ticks [] w = (w, [])"
| "run_ticks (ord # ords) w =
     (let (w1, ready) = tick ord w; (w2, rest) = run_ticks ords w1 in (w2, ready # rest))"

section \<open>Well-formed wheels\<close>

text \<open>The trigger of a task, found through the record.\<close>

definition trigger_of :: "SimpleTimeWheel \<Rightarrow> string \<Rightarrow> timeTrigger option" where
  "trigger_of w taskID = Option.bind (fmlookup (tw_record w) taskID) (fmlookup (tw_heap w))"

definition pending :: "SimpleTimeWheel \<Rightarrow> string \<Rightarrow> bool" where
  "pending w taskID \<longleftrightarrow> fmlookup (tw_record w) taskID \<noteq> None"

text \<open>
  The record and the slots index the same triggers: a task is recorded exactly when its trigger
  sits, under its own name, in the slot the trigger names.
\<close>

definition tw_wf :: "SimpleTimeWheel \<Rightarrow> bool" where
  "tw_wf w \<longleftrightarrow>
     0 < tw_pace w \<and> tw_slotNum w = int (length (tw_slots w)) \<and> 0 < tw_slotNum w \<and>
     tw_perimeter w = tw_slotNum w * tw_pace w \<and>
     0 \<le> tw_curSlot w \<and> tw_curSlot w < tw_slotNum w \<and>
     (\<forall>tid p. fmlookup (tw_record w) tid = Some p \<longrightarrow>
        p < tw_next w \<and>
        (\<exists>tr. fmlookup (tw_heap w) p = Some tr \<and> tt_taskID tr = tid \<and>
              slot_in_range w (tt_index tr) \<and>
              fmlookup (tw_slots w ! nat (tt_index tr)) tid = Some p)) \<and>
     (\<forall>i tid p. i < length (tw_slots w) \<longrightarrow> fmlookup (tw_slots w ! i) tid = Some p \<longrightarrow>
        fmlookup (tw_record w) tid = Some p \<and>
        (\<forall>tr. fmlookup (tw_heap w) p = Some tr \<longrightarrow> tt_index tr = int i))"

lemma NewSimpleTimeWheel_wf: "tw_wf (NewSimpleTimeWheel pace slotNum)"
  by (simp add: tw_wf_def NewSimpleTimeWheel_def Let_def)

lemma wf_params:
  assumes "tw_wf w"
  shows "0 < tw_pace w" "0 < tw_slotNum w" "tw_slotNum w = int (length (tw_slots w))"
    "tw_perimeter w = tw_slotNum w * tw_pace w" "0 \<le> tw_curSlot w" "tw_curSlot w < tw_slotNum w"
  using assms by (auto simp: tw_wf_def)

lemma wf_record:
  assumes "tw_wf w" and "fmlookup (tw_record w) tid = Some p"
  obtains tr where "p < tw_next w" "fmlookup (tw_heap w) p = Some tr" "tt_taskID tr = tid"
    "slot_in_range w (tt_index tr)" "fmlookup (tw_slots w ! nat (tt_index tr)) tid = Some p"
  using assms unfolding tw_wf_def by blast

lemma wf_slot:
  assumes "tw_wf w" and "i < length (tw_slots w)" and "fmlookup (tw_slots w ! i) tid = Some p"
  obtains tr where "fmlookup (tw_record w) tid = Some p" "fmlookup (tw_heap w) p = Some tr"
    "tt_taskID tr = tid" "tt_index tr = int i" "p < tw_next w"
proof -
  from assms have r: "fmlookup (tw_record w) tid = Some p"
    and ix: "\<forall>tr. fmlookup (tw_heap w) p = Some tr \<longrightarrow> tt_index tr = int i"
    unfolding tw_wf_def by blast+
  from wf_record [OF assms(1) r] that r ix show ?thesis by blast
qed

lemma wf_slot_lookup:
  assumes "tw_wf w" and "fmlookup (tw_record w) tid = Some p" and "fmlookup (tw_heap w) p = Some tr"
    and "i < length (tw_slots w)"
  shows "fmlookup (tw_slots w ! i) tid = (if tt_index tr = int i then Some p else None)"
proof (cases "fmlookup (tw_slots w ! i) tid")
  case None
  from wf_record [OF assms(1,2)] assms(3)
  have "fmlookup (tw_slots w ! nat (tt_index tr)) tid = Some p" by (metis option.inject)
  with None show ?thesis by auto
next
  case (Some q)
  from wf_slot [OF assms(1,4) Some] assms(2,3) Some show ?thesis by (metis option.inject)
qed

lemma wf_slot_absent:
  assumes "tw_wf w" and "fmlookup (tw_record w) tid = None" and "i < length (tw_slots w)"
  shows "fmlookup (tw_slots w ! i) tid = None"
  using assms by (metis option.exhaust option.simps(3) wf_slot)

lemma wf_pointer_inj:
  assumes "tw_wf w" and "fmlookup (tw_record w) a = Some p" and "fmlookup (tw_record w) b = Some p"
  shows "a = b"
  using assms by (metis option.inject wf_record)

text \<open>How the primitive updates act on the components of a wheel.\<close>

lemma slot_store_sel [simp]:
  "tw_record (slot_store i t p w) = tw_record w" "tw_heap (slot_store i t p w) = tw_heap w"
  "tw_next (slot_store i t p w) = tw_next w" "tw_curSlot (slot_store i t p w) = tw_curSlot w"
  "tw_pace (slot_store i t p w) = tw_pace w" "tw_slotNum (slot_store i t p w) = tw_slotNum w"
  "tw_perimeter (slot_store i t p w) = tw_perimeter w"
  "length (tw_slots (slot_store i t p w)) = length (tw_slots w)"
  by (simp_all add: slot_store_def)

lemma slot_delete_sel [simp]:
  "tw_record (slot_delete i t w) = tw_record w" "tw_heap (slot_delete i t w) = tw_heap w"
  "tw_next (slot_delete i t w) = tw_next w" "tw_curSlot (slot_delete i t w) = tw_curSlot w"
  "tw_pace (slot_delete i t w) = tw_pace w" "tw_slotNum (slot_delete i t w) = tw_slotNum w"
  "tw_perimeter (slot_delete i t w) = tw_perimeter w"
  "length (tw_slots (slot_delete i t w)) = length (tw_slots w)"
  by (simp_all add: slot_delete_def)

lemma slot_store_lookup:
  "j < length (tw_slots w) \<Longrightarrow> fmlookup (tw_slots (slot_store i t p w) ! j) u =
     (if nat i = j \<and> t = u then Some p else fmlookup (tw_slots w ! j) u)"
  by (cases "nat i = j") (auto simp: slot_store_def)

lemma slot_delete_lookup:
  "j < length (tw_slots w) \<Longrightarrow> fmlookup (tw_slots (slot_delete i t w) ! j) u =
     (if nat i = j \<and> t = u then None else fmlookup (tw_slots w ! j) u)"
  by (cases "nat i = j") (auto simp: slot_delete_def)

lemma slot_in_range_nat: "slot_in_range w i \<Longrightarrow> nat i < length (tw_slots w)"
  by (auto simp: slot_in_range_def)

lemma slot_in_range_sel [simp]:
  "slot_in_range (slot_store i t p w) j = slot_in_range w j"
  "slot_in_range (slot_delete i t w) j = slot_in_range w j"
  "slot_in_range (tw_record_update f w) j = slot_in_range w j"
  "slot_in_range (tw_heap_update g w) j = slot_in_range w j"
  "slot_in_range (tw_next_update h w) j = slot_in_range w j"
  "slot_in_range (tw_curSlot_update k w) j = slot_in_range w j"
  by (simp_all add: slot_in_range_def)

text \<open>The ways an operation touches a wheel keep it well-formed.\<close>

lemma tw_wfI:
  assumes "0 < tw_pace w" "tw_slotNum w = int (length (tw_slots w))" "0 < tw_slotNum w"
    "tw_perimeter w = tw_slotNum w * tw_pace w" "0 \<le> tw_curSlot w" "tw_curSlot w < tw_slotNum w"
    and "\<And>t p. fmlookup (tw_record w) t = Some p \<Longrightarrow>
        p < tw_next w \<and>
        (\<exists>tr. fmlookup (tw_heap w) p = Some tr \<and> tt_taskID tr = t \<and>
              slot_in_range w (tt_index tr) \<and>
              fmlookup (tw_slots w ! nat (tt_index tr)) t = Some p)"
    and "\<And>i t p. i < length (tw_slots w) \<Longrightarrow> fmlookup (tw_slots w ! i) t = Some p \<Longrightarrow>
        fmlookup (tw_record w) t = Some p \<and>
        (\<forall>tr. fmlookup (tw_heap w) p = Some tr \<longrightarrow> tt_index tr = int i)"
  shows "tw_wf w"
  using assms unfolding tw_wf_def by auto

lemma wf_remove:
  assumes wf: "tw_wf w" and r: "fmlookup (tw_record w) t = Some p"
    and h: "fmlookup (tw_heap w) p = Some tr"
  shows "tw_wf (slot_delete (tt_index tr) t (w\<lparr>tw_record := fmdrop t (tw_record w)\<rparr>))"
    (is "tw_wf ?w'")
proof (rule tw_wfI)
  fix u q
  assume "fmlookup (tw_record ?w') u = Some q"
  then have ne: "t \<noteq> u" and uq: "fmlookup (tw_record w) u = Some q"
    by (auto split: if_splits)
  obtain tr' where "q < tw_next w" "fmlookup (tw_heap w) q = Some tr'" "tt_taskID tr' = u"
      "slot_in_range w (tt_index tr')" "fmlookup (tw_slots w ! nat (tt_index tr')) u = Some q"
    by (rule wf_record [OF wf uq])
  with ne show "q < tw_next ?w' \<and> (\<exists>tr'. fmlookup (tw_heap ?w') q = Some tr' \<and> tt_taskID tr' = u \<and>
         slot_in_range ?w' (tt_index tr') \<and> fmlookup (tw_slots ?w' ! nat (tt_index tr')) u = Some q)"
    by (auto simp: slot_delete_lookup slot_in_range_nat)
next
  fix i u q
  assume i: "i < length (tw_slots ?w')" and "fmlookup (tw_slots ?w' ! i) u = Some q"
  then have ne: "\<not> (nat (tt_index tr) = i \<and> t = u)" and uq: "fmlookup (tw_slots w ! i) u = Some q"
    by (auto simp: slot_delete_lookup split: if_splits)
  from i have i': "i < length (tw_slots w)" by simp
  obtain tr' where tr': "fmlookup (tw_record w) u = Some q"
    "fmlookup (tw_heap w) q = Some tr'" "tt_index tr' = int i"
    by (rule wf_slot [OF wf i' uq])
  then have "t \<noteq> u" using ne r h by auto
  with tr' show "fmlookup (tw_record ?w') u = Some q \<and>
      (\<forall>tr. fmlookup (tw_heap ?w') q = Some tr \<longrightarrow> tt_index tr = int i)"
    by simp
qed (use wf_params [OF wf] in simp_all)

lemma wf_insert:
  assumes wf: "tw_wf w" and r: "fmlookup (tw_record w) t = None"
    and fresh: "\<And>u. fmlookup (tw_record w) u \<noteq> Some p" and n: "p < n" "tw_next w \<le> n"
    and ir: "slot_in_range w (tt_index tr)" and t: "tt_taskID tr = t"
  shows "tw_wf (slot_store (tt_index tr) t p
           (w\<lparr>tw_heap := fmupd p tr (tw_heap w), tw_next := n, tw_record := fmupd t p (tw_record w)\<rparr>))"
    (is "tw_wf ?w'")
proof (rule tw_wfI)
  fix u q
  assume uq: "fmlookup (tw_record ?w') u = Some q"
  show "q < tw_next ?w' \<and> (\<exists>tr'. fmlookup (tw_heap ?w') q = Some tr' \<and> tt_taskID tr' = u \<and>
         slot_in_range ?w' (tt_index tr') \<and> fmlookup (tw_slots ?w' ! nat (tt_index tr')) u = Some q)"
  proof (cases "t = u")
    case True
    with uq t ir n show ?thesis by (auto simp: slot_store_lookup slot_in_range_nat)
  next
    case False
    with uq have uq': "fmlookup (tw_record w) u = Some q" by simp
    obtain tr' where "q < tw_next w" "fmlookup (tw_heap w) q = Some tr'" "tt_taskID tr' = u"
      "slot_in_range w (tt_index tr')" "fmlookup (tw_slots w ! nat (tt_index tr')) u = Some q"
      by (rule wf_record [OF wf uq'])
    with False fresh uq' n show ?thesis
      by (auto simp: slot_store_lookup slot_in_range_nat)
  qed
next
  fix i u q
  assume i: "i < length (tw_slots ?w')" and uq: "fmlookup (tw_slots ?w' ! i) u = Some q"
  from i have i': "i < length (tw_slots w)" by simp
  show "fmlookup (tw_record ?w') u = Some q \<and>
      (\<forall>tr'. fmlookup (tw_heap ?w') q = Some tr' \<longrightarrow> tt_index tr' = int i)"
  proof (cases "nat (tt_index tr) = i \<and> t = u")
    case True
    with uq i' ir show ?thesis by (auto simp: slot_store_lookup slot_in_range_def)
  next
    case False
    with uq i' have sl: "fmlookup (tw_slots w ! i) u = Some q" by (auto simp: slot_store_lookup)
    from wf_slot [OF wf i' sl] obtain tr' where "fmlookup (tw_record w) u = Some q"
      "fmlookup (tw_heap w) q = Some tr'" "tt_index tr' = int i" by metis
    moreover from this r fresh have "t \<noteq> u" "q \<noteq> p" by auto
    ultimately show ?thesis by simp
  qed
qed (use wf_params [OF wf] in simp_all)

lemma wf_mutate:
  assumes wf: "tw_wf w"
    and h: "\<And>u. fmlookup (tw_record w) u = Some p \<Longrightarrow>
      \<exists>tr. fmlookup (tw_heap w) p = Some tr \<and> tt_taskID tr' = tt_taskID tr \<and> tt_index tr' = tt_index tr"
  shows "tw_wf (w\<lparr>tw_heap := fmupd p tr' (tw_heap w)\<rparr>)" (is "tw_wf ?w'")
proof (rule tw_wfI)
  fix u q
  assume "fmlookup (tw_record ?w') u = Some q"
  then have uq: "fmlookup (tw_record w) u = Some q" by simp
  obtain tr where "q < tw_next w" "fmlookup (tw_heap w) q = Some tr" "tt_taskID tr = u"
      "slot_in_range w (tt_index tr)" "fmlookup (tw_slots w ! nat (tt_index tr)) u = Some q"
    by (rule wf_record [OF wf uq])
  with h [of u] uq show "q < tw_next ?w' \<and> (\<exists>tr. fmlookup (tw_heap ?w') q = Some tr \<and> tt_taskID tr = u \<and>
         slot_in_range ?w' (tt_index tr) \<and> fmlookup (tw_slots ?w' ! nat (tt_index tr)) u = Some q)"
    by (cases "p = q") auto
next
  fix i u q
  assume "i < length (tw_slots ?w')" and "fmlookup (tw_slots ?w' ! i) u = Some q"
  then have i: "i < length (tw_slots w)" and uq: "fmlookup (tw_slots w ! i) u = Some q" by simp_all
  obtain tr where "fmlookup (tw_record w) u = Some q" "fmlookup (tw_heap w) q = Some tr"
    "tt_index tr = int i"
    by (rule wf_slot [OF wf i uq])
  with h [of u] show "fmlookup (tw_record ?w') u = Some q \<and>
      (\<forall>tr. fmlookup (tw_heap ?w') q = Some tr \<longrightarrow> tt_index tr = int i)"
    by (cases "p = q") auto
qed (use wf_params [OF wf] in simp_all)

lemma wf_turn:
  assumes "tw_wf w" and "0 \<le> c" and "c < tw_slotNum w"
  shows "tw_wf (w\<lparr>tw_curSlot := c\<rparr>)"
  using assms unfolding tw_wf_def by auto

section \<open>The operations keep the wheel well-formed\<close>

text \<open>
  \<^verbatim>\<open>UpdateTask\<close> on a recorded task is \<^verbatim>\<open>DelTask\<close> followed by an insertion of the same trigger
  object at its new place.
\<close>

lemma place_index_range:
  assumes "tw_wf w" and "0 \<le> interval"
  shows "slot_in_range w (place_index w interval)"
  using wf_params [OF assms(1)] assms(2)
  by (simp add: slot_in_range_def place_index_def tw_ticks_def pos_imp_zdiv_nonneg_iff)

lemma record_fresh: "tw_wf w \<Longrightarrow> fmlookup (tw_record w) u \<noteq> Some (tw_next w)"
  using wf_record by blast

lemma AddTask_wf:
  assumes wf: "tw_wf w" and ok: "AddTask w t interval n = Inr w'"
  shows "tw_wf w'"
proof -
  let ?tr = "\<lparr>tt_taskID = t, tt_times = n, tt_index = place_index w interval,
              tt_circle = place_circle w interval, tt_circleCount = place_count w interval\<rparr>"
  from ok have r: "fmlookup (tw_record w) t = None" and ir: "slot_in_range w (tt_index ?tr)"
    and w': "w' = slot_store (tt_index ?tr) t (tw_next w)
       (w\<lparr>tw_heap := fmupd (tw_next w) ?tr (tw_heap w), tw_next := Suc (tw_next w),
          tw_record := fmupd t (tw_next w) (tw_record w)\<rparr>)"
    by (auto simp: AddTask_def Let_def slot_store_def split: if_splits)
  show ?thesis unfolding w'
    by (rule wf_insert [OF wf r]) (use record_fresh [OF wf] ir in auto)
qed

lemma DelTask_wf:
  assumes wf: "tw_wf w"
  shows "tw_wf (DelTask w t)"
proof (cases "fmlookup (tw_record w) t")
  case None
  then show ?thesis using wf by (simp add: DelTask_def)
next
  case (Some p)
  then obtain tr where "fmlookup (tw_heap w) p = Some tr" by (rule wf_record [OF wf])
  with Some wf_remove [OF wf Some this] show ?thesis by (simp add: DelTask_def)
qed

lemma fmupd_drop_same [simp]: "fmlookup m k = Some v \<Longrightarrow> fmupd k v (fmdrop k m) = m"
  by (rule fmap_ext) auto

lemma UpdateTask_recorded:
  assumes wf: "tw_wf w" and r: "fmlookup (tw_record w) t = Some p"
    and h: "fmlookup (tw_heap w) p = Some tr" and ok: "UpdateTask w t interval n = Inr w'"
  defines "tr' \<equiv> tr\<lparr>tt_times := n, tt_circle := place_circle w interval,
                    tt_circleCount := place_count w interval, tt_index := place_index w interval\<rparr>"
  shows "slot_in_range w (place_index w interval) \<and>
    w' = slot_store (tt_index tr') t p
      ((DelTask w t)\<lparr>tw_heap := fmupd p tr' (tw_heap (DelTask w t)), tw_next := tw_next w,
         tw_record := fmupd t p (tw_record (DelTask w t))\<rparr>)"
proof -
  have "tt_taskID tr = t" using wf_record [OF wf r] h by (metis option.inject)
  then show ?thesis
    using r h ok
    by (auto simp: UpdateTask_def DelTask_def Let_def slot_store_def slot_delete_def tr'_def
        split: if_splits)
qed

lemma UpdateTask_wf:
  assumes wf: "tw_wf w" and ok: "UpdateTask w t interval n = Inr w'"
  shows "tw_wf w'"
proof (cases "fmlookup (tw_record w) t")
  case None
  with ok AddTask_wf [OF wf] show ?thesis by (simp add: UpdateTask_def)
next
  case (Some p)
  obtain tr where h: "fmlookup (tw_heap w) p = Some tr" and tid: "tt_taskID tr = t" and "p < tw_next w"
    using wf_record [OF wf Some] by blast
  have del: "fmlookup (tw_record (DelTask w t)) u = (if t = u then None else fmlookup (tw_record w) u)" for u
    using Some h by (simp add: DelTask_def)
  have nx: "tw_next (DelTask w t) = tw_next w"
    and sl: "slot_in_range (DelTask w t) = slot_in_range w"
    using Some h by (auto simp: DelTask_def fun_eq_iff)
  have "fmlookup (tw_record (DelTask w t)) u \<noteq> Some p" for u
    using wf_pointer_inj [OF wf, of u p t] Some by (auto simp: del)
  note fresh = this
  have ir: "slot_in_range w (place_index w interval)"
    and w': "w' = slot_store (place_index w interval) t p
      ((DelTask w t)\<lparr>tw_heap := fmupd p (tr\<lparr>tt_times := n, tt_circle := place_circle w interval,
           tt_circleCount := place_count w interval, tt_index := place_index w interval\<rparr>)
           (tw_heap (DelTask w t)),
         tw_next := tw_next w, tw_record := fmupd t p (tw_record (DelTask w t))\<rparr>)"
    using UpdateTask_recorded [OF wf Some h ok] by simp_all
  show ?thesis unfolding w'
    using wf_insert [OF DelTask_wf [OF wf, of t] _ fresh, of t "tw_next w"
        "tr\<lparr>tt_times := n, tt_circle := place_circle w interval,
           tt_circleCount := place_count w interval, tt_index := place_index w interval\<rparr>"]
      del nx sl ir tid \<open>p < tw_next w\<close> by simp
qed

text \<open>One entry of a slot: what firing it does to its own task and to the others.\<close>

lemma fire_trigger_recorded:
  assumes wf: "tw_wf w" and s: "slot_in_range w s"
    and r: "fmlookup (tw_slots w ! nat s) t = Some p"
  obtains tr where "fmlookup (tw_record w) t = Some p" "fmlookup (tw_heap w) p = Some tr"
    "tt_taskID tr = t" "tt_index tr = s"
  using wf_slot [OF wf slot_in_range_nat [OF s] r] s by (metis int_nat_eq slot_in_range_def)

lemma fire_trigger_wf:
  assumes wf: "tw_wf w" and s: "slot_in_range w s"
  shows "tw_wf (fst (fire_trigger s (w, rl) t))"
proof (cases "fmlookup (tw_slots w ! nat s) t")
  case None
  then show ?thesis using wf by (simp add: fire_trigger_def)
next
  case (Some p)
  obtain tr where r: "fmlookup (tw_record w) t = Some p" and h: "fmlookup (tw_heap w) p = Some tr"
    and tid: "tt_taskID tr = t" and ix: "tt_index tr = s"
    by (rule fire_trigger_recorded [OF wf s Some])
  show ?thesis
  proof (cases "tt_circleCount tr = tt_circle tr \<and> tt_times tr = 0")
    case True
    let ?w1 = "slot_delete s t (w\<lparr>tw_record := fmdrop t (tw_record w)\<rparr>)"
    have "tw_wf ?w1" using wf_remove [OF wf r h] ix by simp
    moreover have "fmlookup (tw_record ?w1) u \<noteq> Some p" for u
      using wf_pointer_inj [OF wf, of u p t] r by auto
    ultimately have "tw_wf (?w1\<lparr>tw_heap := fmupd p tr' (tw_heap ?w1)\<rparr>)" for tr'
      by (intro wf_mutate) auto
    with True Some h tid show ?thesis by (simp add: fire_trigger_def Let_def)
  next
    case False
    have "tw_wf (w\<lparr>tw_heap := fmupd p tr' (tw_heap w)\<rparr>)"
      if "tt_taskID tr' = t" "tt_index tr' = s" for tr'
      using that h tid ix by (intro wf_mutate [OF wf]) auto
    with False Some h tid ix show ?thesis by (auto simp: fire_trigger_def Let_def)
  qed
qed

section \<open>When a task fires\<close>

text \<open>What a visit of its slot does to a trigger: \<open>None\<close> when the task is removed.\<close>

definition visit :: "timeTrigger \<Rightarrow> timeTrigger option" where
  "visit tr =
     (if tt_circleCount tr = tt_circle tr then
        (if tt_times tr = 0 then None
         else Some (tr\<lparr>tt_circleCount := 1,
                       tt_times := (if tt_times tr > 0 then tt_times tr - 1 else tt_times tr)\<rparr>))
      else Some (tr\<lparr>tt_circleCount := tt_circleCount tr + 1\<rparr>))"

definition fires :: "timeTrigger \<Rightarrow> bool" where
  "fires tr \<longleftrightarrow> tt_circleCount tr = tt_circle tr"

definition in_slot :: "SimpleTimeWheel \<Rightarrow> int \<Rightarrow> string \<Rightarrow> bool" where
  "in_slot w s t \<longleftrightarrow> (\<exists>tr. trigger_of w t = Some tr \<and> tt_index tr = s)"

definition same_frame :: "SimpleTimeWheel \<Rightarrow> SimpleTimeWheel \<Rightarrow> bool" where
  "same_frame w w' \<longleftrightarrow> tw_pace w' = tw_pace w \<and> tw_perimeter w' = tw_perimeter w \<and>
     tw_slotNum w' = tw_slotNum w \<and> tw_curSlot w' = tw_curSlot w \<and>
     length (tw_slots w') = length (tw_slots w)"

lemma trigger_of_wf:
  assumes "tw_wf w"
  shows "trigger_of w t = Some tr \<longleftrightarrow>
    (\<exists>p. fmlookup (tw_record w) t = Some p \<and> fmlookup (tw_heap w) p = Some tr)"
  by (auto simp: trigger_of_def bind_eq_Some_conv)

lemma trigger_of_None:
  assumes "tw_wf w"
  shows "trigger_of w t = None \<longleftrightarrow> \<not> pending w t"
proof (cases "fmlookup (tw_record w) t")
  case None
  then show ?thesis by (simp add: trigger_of_def pending_def)
next
  case (Some p)
  then obtain tr where "fmlookup (tw_heap w) p = Some tr" by (rule wf_record [OF assms])
  with Some show ?thesis by (simp add: trigger_of_def pending_def)
qed

lemma in_slot_lookup:
  assumes wf: "tw_wf w" and s: "slot_in_range w s"
  shows "in_slot w s t \<longleftrightarrow> fmlookup (tw_slots w ! nat s) t \<noteq> None"
proof
  assume "in_slot w s t"
  then obtain tr p where "fmlookup (tw_record w) t = Some p" "fmlookup (tw_heap w) p = Some tr" "tt_index tr = s"
    by (auto simp: in_slot_def trigger_of_wf [OF wf])
  then show "fmlookup (tw_slots w ! nat s) t \<noteq> None"
    using wf_slot_lookup [OF wf _ _ slot_in_range_nat [OF s]] s by (simp add: slot_in_range_def)
next
  assume "fmlookup (tw_slots w ! nat s) t \<noteq> None"
  then obtain p where "fmlookup (tw_slots w ! nat s) t = Some p" by auto
  then show "in_slot w s t"
    by (elim fire_trigger_recorded [OF wf s]) (auto simp: in_slot_def trigger_of_wf [OF wf])
qed

lemma fire_trigger_effect:
  assumes wf: "tw_wf w" and s: "slot_in_range w s" and ft: "fire_trigger s (w, rl) t0 = (w', rl')"
  shows "tw_wf w' \<and> same_frame w w' \<and>
    (\<forall>t. trigger_of w' t = (if t = t0 \<and> in_slot w s t then Option.bind (trigger_of w t) visit
                            else trigger_of w t)) \<and>
    (\<forall>t. count_list rl' t = count_list rl t +
           (if t = t0 \<and> in_slot w s t \<and> fires (the (trigger_of w t)) then 1 else 0))"
proof (cases "fmlookup (tw_slots w ! nat s) t0")
  case None
  then have "\<not> in_slot w s t0" by (simp add: in_slot_lookup [OF wf s])
  with None ft wf show ?thesis by (auto simp: fire_trigger_def same_frame_def)
next
  case (Some p)
  obtain tr where r: "fmlookup (tw_record w) t0 = Some p" and h: "fmlookup (tw_heap w) p = Some tr"
    and tid: "tt_taskID tr = t0" and ix: "tt_index tr = s"
    by (rule fire_trigger_recorded [OF wf s Some])
  have tr0: "trigger_of w t0 = Some tr" and sl: "in_slot w s t0"
    using r h ix by (auto simp: trigger_of_def in_slot_def)
  have other: "fmlookup (tw_record w) t \<noteq> Some p" if "t \<noteq> t0" for t
    using wf_pointer_inj [OF wf, of t p t0] that r by auto
  have "tw_wf w'" using fire_trigger_wf [OF wf s, of rl t0] ft by simp
  moreover have "same_frame w w'"
    using ft Some h by (auto simp: fire_trigger_def Let_def same_frame_def split: if_splits)
  moreover have "trigger_of w' t0 = visit tr"
    using ft Some h r tid by (auto simp: fire_trigger_def Let_def trigger_of_def visit_def split: if_splits)
  moreover have "trigger_of w' t = trigger_of w t" if "t \<noteq> t0" for t
    using ft Some h tid that other [OF that]
    by (cases "fmlookup (tw_record w) t")
      (auto simp: fire_trigger_def Let_def trigger_of_def split: if_splits)
  moreover have "count_list rl' t = count_list rl t + (if t = t0 \<and> fires tr then 1 else 0)" for t
    using ft Some h tid by (auto simp: fire_trigger_def Let_def fires_def split: if_splits)
  ultimately show ?thesis using tr0 sl by auto
qed

lemma same_frame_refl [simp]: "same_frame w w"
  by (simp add: same_frame_def)

lemma same_frame_trans: "same_frame a b \<Longrightarrow> same_frame b c \<Longrightarrow> same_frame a c"
  by (simp add: same_frame_def)

lemma fire_fold_effect:
  assumes "tw_wf w" and "slot_in_range w s" and "distinct ids"
    and "foldl (fire_trigger s) (w, rl) ids = (w', rl')"
  shows "tw_wf w' \<and> same_frame w w' \<and>
    (\<forall>t. trigger_of w' t = (if t \<in> set ids \<and> in_slot w s t then Option.bind (trigger_of w t) visit
                            else trigger_of w t)) \<and>
    (\<forall>t. count_list rl' t = count_list rl t +
           (if t \<in> set ids \<and> in_slot w s t \<and> fires (the (trigger_of w t)) then 1 else 0))"
  using assms
proof (induction ids arbitrary: w rl)
  case Nil
  then show ?case by simp
next
  case (Cons t0 ids)
  obtain w1 rl1 where ft: "fire_trigger s (w, rl) t0 = (w1, rl1)" by fastforce
  note eff = fire_trigger_effect [OF Cons.prems(1,2) ft]
  have s1: "slot_in_range w1 s"
    using eff Cons.prems(2) by (simp add: same_frame_def slot_in_range_def)
  have "tw_wf w1" "distinct ids" "foldl (fire_trigger s) (w1, rl1) ids = (w', rl')"
    using eff Cons.prems(3,4) ft by auto
  note IH = Cons.IH [OF this(1) s1 this(2,3)]
  have other: "in_slot w1 s t = in_slot w s t" "trigger_of w1 t = trigger_of w t" if "t \<noteq> t0" for t
    using eff that by (auto simp: in_slot_def)
  have self: "t0 \<notin> set ids" using Cons.prems(3) by simp
  show ?case
  proof (intro conjI allI)
    show "tw_wf w'" using IH by simp
    show "same_frame w w'" using eff IH by (blast intro: same_frame_trans)
  next
    fix t
    show "trigger_of w' t = (if t \<in> set (t0 # ids) \<and> in_slot w s t then Option.bind (trigger_of w t) visit
                            else trigger_of w t)"
      by (cases "t = t0") (use IH eff self other in auto)
  next
    fix t
    show "count_list rl' t = count_list rl t +
           (if t \<in> set (t0 # ids) \<and> in_slot w s t \<and> fires (the (trigger_of w t)) then 1 else 0)"
      by (cases "t = t0") (use IH eff self other in auto)
  qed
qed

text \<open>One tick, seen from a single task.\<close>

lemma tick_effect:
  assumes wf: "tw_wf w" and ord: "range_order ord" and tk: "tick ord w = (w', rl)"
  defines "c' \<equiv> (tw_curSlot w + 1) mod tw_slotNum w"
  shows "tw_wf w'" "tw_curSlot w' = c'" "tw_slotNum w' = tw_slotNum w" "tw_pace w' = tw_pace w"
    and "trigger_of w' t = (case trigger_of w t of None \<Rightarrow> None
           | Some tr \<Rightarrow> if tt_index tr = c' then visit tr else Some tr)"
    and "count_list rl t = (case trigger_of w t of None \<Rightarrow> 0
           | Some tr \<Rightarrow> if tt_index tr = c' \<and> fires tr then 1 else 0)"
proof -
  let ?w = "w\<lparr>tw_curSlot := c'\<rparr>"
  have c': "0 \<le> c'" "c' < tw_slotNum w" using wf_params [OF wf] by (simp_all add: c'_def)
  have wf': "tw_wf ?w" using wf_turn [OF wf c'] .
  have s: "slot_in_range ?w c'" using c' wf_params [OF wf] by (simp add: slot_in_range_def)
  have fold: "foldl (fire_trigger c') (?w, []) (ord (tw_slots w ! nat c')) = (w', rl)"
    using tk wf_params(3) [OF wf] by (simp add: tick_def checkAndFireTrigger_def c'_def Let_def)
  have trg: "trigger_of ?w t = trigger_of w t" for t by (simp add: trigger_of_def)
  have mem: "t \<in> set (ord (tw_slots w ! nat c'))" if "in_slot ?w c' t" for t
    using that in_slot_lookup [OF wf' s] range_orderD(2) [OF ord] by (simp add: fmlookup_dom'_iff)
  note eff = fire_fold_effect [OF wf' s range_orderD(1) [OF ord] fold]
  show "tw_wf w'" "tw_curSlot w' = c'" "tw_slotNum w' = tw_slotNum w" "tw_pace w' = tw_pace w"
    using eff by (simp_all add: same_frame_def)
  show "trigger_of w' t = (case trigger_of w t of None \<Rightarrow> None
           | Some tr \<Rightarrow> if tt_index tr = c' then visit tr else Some tr)"
    using eff mem [of t] trg by (auto simp: in_slot_def split: option.splits)
  show "count_list rl t = (case trigger_of w t of None \<Rightarrow> 0
           | Some tr \<Rightarrow> if tt_index tr = c' \<and> fires tr then 1 else 0)"
    using eff mem [of t] trg by (auto simp: in_slot_def split: option.splits)
qed

text \<open>The ticks left until a trigger fires.\<close>

definition due :: "SimpleTimeWheel \<Rightarrow> timeTrigger \<Rightarrow> int" where
  "due w tr = (tt_index tr - tw_curSlot w - 1) mod tw_slotNum w + 1
            + tw_slotNum w * (tt_circle tr - tt_circleCount tr)"

lemma mod_wrap:
  fixes x n :: int
  assumes "- n \<le> x" and "x < n"
  shows "x mod n = (if x < 0 then x + n else x)"
proof (cases "x < 0")
  case True
  have "(x + n) mod n = x + n" by (rule mod_pos_pos_trivial) (use assms True in auto)
  with True show ?thesis by simp
qed (use assms in simp)

lemma due_arith:
  fixes i c n :: int
  assumes "0 < n" "0 \<le> i" "i < n" "0 \<le> c" "c < n"
  shows "i = (c + 1) mod n \<longleftrightarrow> (i - c - 1) mod n = 0"
    and "i \<noteq> (c + 1) mod n \<Longrightarrow> (i - (c + 1) mod n - 1) mod n = (i - c - 1) mod n - 1"
    and "(i - i - 1) mod n = n - 1"
proof -
  have c1: "(c + 1) mod n = (if c + 1 = n then 0 else c + 1)" using assms by simp
  have d: "(i - c - 1) mod n = (if i - c - 1 < 0 then i - c - 1 + n else i - c - 1)"
    by (rule mod_wrap) (use assms in auto)
  have d': "(i - (c + 1) mod n - 1) mod n =
    (if i - (c + 1) mod n - 1 < 0 then i - (c + 1) mod n - 1 + n else i - (c + 1) mod n - 1)"
    by (rule mod_wrap) (use assms c1 in \<open>auto split: if_splits\<close>)
  show "i = (c + 1) mod n \<longleftrightarrow> (i - c - 1) mod n = 0"
    unfolding d c1 using assms by auto
  show "i \<noteq> (c + 1) mod n \<Longrightarrow> (i - (c + 1) mod n - 1) mod n = (i - c - 1) mod n - 1"
    by (subst d', subst d) (use assms c1 in \<open>auto split: if_splits\<close>)
  show "(i - i - 1) mod n = n - 1"
    using mod_wrap [of n "-1"] assms by simp
qed

text \<open>A trigger counts down: every tick brings it one nearer, and it fires when one tick is left.\<close>

lemma due_bounds:
  assumes "tw_wf w" and "tt_circleCount tr \<le> tt_circle tr"
  shows "1 \<le> due w tr"
    and "due w tr = 1 \<longleftrightarrow> (tt_index tr - tw_curSlot w - 1) mod tw_slotNum w = 0 \<and> fires tr"
proof -
  let ?d = "(tt_index tr - tw_curSlot w - 1) mod tw_slotNum w"
  have n: "0 < tw_slotNum w" using wf_params [OF assms(1)] by simp
  then have d: "0 \<le> ?d" by simp
  have r: "0 \<le> tw_slotNum w * (tt_circle tr - tt_circleCount tr)" using n assms(2) by simp
  show "1 \<le> due w tr" using d r by (simp add: due_def)
  have "due w tr = 1 \<longleftrightarrow> ?d = 0 \<and> tw_slotNum w * (tt_circle tr - tt_circleCount tr) = 0"
    using d r unfolding due_def by linarith
  then show "due w tr = 1 \<longleftrightarrow> ?d = 0 \<and> fires tr" using n by (auto simp: fires_def)
qed

lemma tick_countdown:
  assumes wf: "tw_wf w" and ord: "range_order ord" and tk: "tick ord w = (w', rl)"
    and tr: "trigger_of w t = Some tr" and cc: "tt_circleCount tr \<le> tt_circle tr"
    and far: "1 < due w tr"
  obtains tr' where "count_list rl t = 0" "trigger_of w' t = Some tr'" "due w' tr' = due w tr - 1"
    "tt_circleCount tr' \<le> tt_circle tr'" "tt_circle tr' = tt_circle tr" "tt_times tr' = tt_times tr"
proof -
  note eff = tick_effect [OF wf ord tk]
  define c n where "c = tw_curSlot w" and "n = tw_slotNum w"
  have bnd: "0 < n" "0 \<le> c" "c < n" using wf_params [OF wf] by (simp_all add: c_def n_def)
  have "slot_in_range w (tt_index tr)"
    using tr wf_record [OF wf] by (auto simp: trigger_of_wf [OF wf]) (metis option.inject)
  then have ix: "0 \<le> tt_index tr" "tt_index tr < n"
    using wf_params(3) [OF wf] by (simp_all add: slot_in_range_def n_def)
  note ar = due_arith [OF bnd(1) ix bnd(2,3)]
  have nf: "\<not> ((tt_index tr - c - 1) mod n = 0 \<and> fires tr)"
    using due_bounds(2) [OF wf cc] far by (simp add: c_def n_def)
  show ?thesis
  proof (cases "tt_index tr = (c + 1) mod n")
    case True
    with nf ar(1) have "\<not> fires tr" by simp
    then have v: "visit tr = Some (tr\<lparr>tt_circleCount := tt_circleCount tr + 1\<rparr>)"
      by (simp add: visit_def fires_def)
    show ?thesis
    proof (rule that)
      show "count_list rl t = 0" using eff(6) [of t] tr \<open>\<not> fires tr\<close> by simp
      show "trigger_of w' t = Some (tr\<lparr>tt_circleCount := tt_circleCount tr + 1\<rparr>)"
        using eff(5) [of t] tr v True by (simp add: c_def n_def)
      show "due w' (tr\<lparr>tt_circleCount := tt_circleCount tr + 1\<rparr>) = due w tr - 1"
        using eff(2,3) True ar(1,3) by (simp add: due_def algebra_simps flip: c_def n_def)
    qed (use cc \<open>\<not> fires tr\<close> in \<open>auto simp: fires_def\<close>)
  next
    case False
    show ?thesis
    proof (rule that)
      show "count_list rl t = 0" using eff(6) [of t] tr False by (simp add: c_def n_def)
      show "trigger_of w' t = Some tr" using eff(5) [of t] tr False by (simp add: c_def n_def)
      show "due w' tr = due w tr - 1"
        using eff(2,3) ar(2) [OF False] by (simp add: due_def flip: c_def n_def)
    qed (use cc in auto)
  qed
qed

lemma tick_fire:
  assumes wf: "tw_wf w" and ord: "range_order ord" and tk: "tick ord w = (w', rl)"
    and tr: "trigger_of w t = Some tr" and cc: "tt_circleCount tr \<le> tt_circle tr"
    and now: "due w tr = 1"
  shows "count_list rl t = 1"
    and "trigger_of w' t = visit tr"
    and "tt_times tr \<noteq> 0 \<Longrightarrow> due w' (the (visit tr)) = tw_slotNum w * tt_circle tr"
proof -
  note eff = tick_effect [OF wf ord tk]
  define c n where "c = tw_curSlot w" and "n = tw_slotNum w"
  have bnd: "0 < n" "0 \<le> c" "c < n" using wf_params [OF wf] by (simp_all add: c_def n_def)
  have "slot_in_range w (tt_index tr)"
    using tr wf_record [OF wf] by (auto simp: trigger_of_wf [OF wf]) (metis option.inject)
  then have ix: "0 \<le> tt_index tr" "tt_index tr < n"
    using wf_params(3) [OF wf] by (simp_all add: slot_in_range_def n_def)
  note ar = due_arith [OF bnd(1) ix bnd(2,3)]
  have f: "fires tr" and i: "tt_index tr = (c + 1) mod n"
    using due_bounds(2) [OF wf cc] now ar(1) by (simp_all add: c_def n_def)
  show "count_list rl t = 1" using eff(6) [of t] tr f i by (simp add: c_def n_def)
  show "trigger_of w' t = visit tr" using eff(5) [of t] tr i by (simp add: c_def n_def)
  show "due w' (the (visit tr)) = tw_slotNum w * tt_circle tr" if "tt_times tr \<noteq> 0"
    using that f eff(2,3) i ar(3)
    by (simp add: visit_def fires_def due_def algebra_simps flip: c_def n_def)
qed

text \<open>Runs of ticks.\<close>

lemma run_ticks_wf:
  assumes "tw_wf w" and "\<forall>ord\<in>set ords. range_order ord" and "run_ticks ords w = (w', rls)"
  shows "tw_wf w' \<and> length rls = length ords \<and> tw_slotNum w' = tw_slotNum w"
  using assms
proof (induction ords arbitrary: w rls)
  case (Cons ord ords)
  obtain w1 rl rls' where tk: "tick ord w = (w1, rl)" and rest: "run_ticks ords w1 = (w', rls')"
    and rls: "rls = rl # rls'"
    using Cons.prems(3) by (auto split: prod.splits)
  have "range_order ord" using Cons.prems(2) by simp
  note eff = tick_effect [OF Cons.prems(1) this tk]
  then show ?case using Cons.IH [OF eff(1) _ rest] Cons.prems(2) rls by simp
qed simp

lemma run_ticks_append:
  "run_ticks (xs @ ys) w =
     (let (w1, r1) = run_ticks xs w; (w2, r2) = run_ticks ys w1 in (w2, r1 @ r2))"
  by (induction xs arbitrary: w) (auto split: prod.splits)

lemma run_absent:
  assumes "tw_wf w" and "\<forall>ord\<in>set ords. range_order ord" and "run_ticks ords w = (w', rls)"
    and "trigger_of w t = None"
  shows "trigger_of w' t = None \<and> t \<notin> set (concat rls)"
  using assms
proof (induction ords arbitrary: w rls)
  case (Cons ord ords)
  obtain w1 rl rls' where tk: "tick ord w = (w1, rl)" and rest: "run_ticks ords w1 = (w', rls')"
    and rls: "rls = rl # rls'"
    using Cons.prems(3) by (auto split: prod.splits)
  have ord: "range_order ord" using Cons.prems(2) by simp
  note eff = tick_effect [OF Cons.prems(1) ord tk]
  have "trigger_of w1 t = None" "t \<notin> set rl"
    using eff(5,6) [of t] Cons.prems(4) by (simp_all add: count_list_0_iff)
  then show ?case using Cons.IH [OF eff(1) _ rest] Cons.prems(2) rls by simp
qed simp

lemma run_silent:
  assumes "tw_wf w" and "\<forall>ord\<in>set ords. range_order ord" and "run_ticks ords w = (w', rls)"
    and "trigger_of w t = Some tr" and "tt_circleCount tr \<le> tt_circle tr"
    and "int (length ords) < due w tr"
  shows "t \<notin> set (concat rls) \<and>
    (\<exists>tr'. trigger_of w' t = Some tr' \<and> due w' tr' = due w tr - int (length ords) \<and>
       tt_circleCount tr' \<le> tt_circle tr' \<and> tt_circle tr' = tt_circle tr \<and> tt_times tr' = tt_times tr)"
  using assms
proof (induction ords arbitrary: w rls tr)
  case (Cons ord ords)
  obtain w1 rl rls' where tk: "tick ord w = (w1, rl)" and rest: "run_ticks ords w1 = (w', rls')"
    and rls: "rls = rl # rls'"
    using Cons.prems(3) by (auto split: prod.splits)
  have ord: "range_order ord" using Cons.prems(2) by simp
  have far: "1 < due w tr" using Cons.prems(6) by simp
  obtain tr1 where tr1: "count_list rl t = 0" "trigger_of w1 t = Some tr1" "due w1 tr1 = due w tr - 1"
    "tt_circleCount tr1 \<le> tt_circle tr1" "tt_circle tr1 = tt_circle tr" "tt_times tr1 = tt_times tr"
    by (rule tick_countdown [OF Cons.prems(1) ord tk Cons.prems(4,5) far])
  have wf1: "tw_wf w1" using tick_effect(1) [OF Cons.prems(1) ord tk] .
  have "int (length ords) < due w1 tr1" using Cons.prems(6) tr1(3) by simp
  with Cons.IH [OF wf1 _ rest tr1(2,4)] Cons.prems(2) rls tr1 show ?case
    by (auto simp: count_list_0_iff)
qed simp

lemma run_first_fire:
  assumes wf: "tw_wf w" and ords: "\<forall>ord\<in>set ords. range_order ord"
    and run: "run_ticks ords w = (w', rls)" and tr: "trigger_of w t = Some tr"
    and cc: "tt_circleCount tr \<le> tt_circle tr" and len: "int (length ords) = due w tr"
  shows "t \<notin> set (concat (butlast rls))" "count_list (last rls) t = 1" "tw_wf w'"
    "(\<exists>tr'. trigger_of w' t = visit tr' \<and> fires tr' \<and>
       tt_times tr' = tt_times tr \<and> tt_circle tr' = tt_circle tr \<and>
       (tt_times tr \<noteq> 0 \<longrightarrow> due w' (the (trigger_of w' t)) = tw_slotNum w * tt_circle tr))"
proof -
  have "ords \<noteq> []" using len due_bounds(1) [OF wf cc] by auto
  then obtain xs ord where o: "ords = xs @ [ord]" by (metis append_butlast_last_id)
  obtain w1 r1 where r1: "run_ticks xs w = (w1, r1)" by fastforce
  obtain rl where tk: "tick ord w1 = (w', rl)" and rls: "rls = r1 @ [rl]"
    using run r1 unfolding o by (auto simp: run_ticks_append split: prod.splits)
  have xs: "\<forall>ord\<in>set xs. range_order ord" and ord: "range_order ord" using ords o by auto
  have "int (length xs) < due w tr" using len o by simp
  from run_silent [OF wf xs r1 tr cc this] len o
  obtain tr1 where quiet: "t \<notin> set (concat r1)" and tr1: "trigger_of w1 t = Some tr1" "due w1 tr1 = 1"
    "tt_circleCount tr1 \<le> tt_circle tr1" "tt_circle tr1 = tt_circle tr" "tt_times tr1 = tt_times tr"
    by auto
  have wf1: "tw_wf w1" and n1: "tw_slotNum w1 = tw_slotNum w" using run_ticks_wf [OF wf xs r1] by simp_all
  note fire = tick_fire [OF wf1 ord tk tr1(1,3,2)]
  show "t \<notin> set (concat (butlast rls))" using quiet rls by simp
  show "count_list (last rls) t = 1" using fire(1) rls by simp
  show "tw_wf w'" using tick_effect(1) [OF wf1 ord tk] .
  have "fires tr1" using due_bounds(2) [OF wf1 tr1(3)] tr1(2) by simp
  then show "(\<exists>tr'. trigger_of w' t = visit tr' \<and> fires tr' \<and>
       tt_times tr' = tt_times tr \<and> tt_circle tr' = tt_circle tr \<and>
       (tt_times tr \<noteq> 0 \<longrightarrow> due w' (the (trigger_of w' t)) = tw_slotNum w * tt_circle tr))"
    using fire(2,3) tr1(4,5) n1 by metis
qed

text \<open>A trigger that \<^verbatim>\<open>AddTask\<close> or \<^verbatim>\<open>UpdateTask\<close> placed is due one tick after its interval.\<close>

lemma place_due:
  assumes wf: "tw_wf w" and iv: "0 \<le> interval" and cur: "tw_curSlot w' = tw_curSlot w"
    and num: "tw_slotNum w' = tw_slotNum w"
    and tr: "tt_index tr = place_index w interval" "tt_circle tr = place_circle w interval"
      "tt_circleCount tr = place_count w interval"
  shows "due w' tr = interval div tw_pace w + 1" "tt_circleCount tr \<le> tt_circle tr"
proof -
  define c n k where "c = tw_curSlot w" and "n = tw_slotNum w" and "k = interval div tw_pace w"
  have bnd: "0 < n" "0 \<le> c" "c < n" "0 < tw_pace w"
    using wf_params [OF wf] by (simp_all add: c_def n_def)
  have k: "0 \<le> k" using iv bnd(4) by (simp add: k_def pos_imp_zdiv_nonneg_iff)
  define x where "x = k + c + 1"
  have x: "0 \<le> x" "tt_index tr = x mod n" "tt_circle tr = x div n"
    "tt_circleCount tr = (if x mod n > c then 0 else 1)"
    using tr k bnd iv
    by (simp_all add: x_def place_index_def place_circle_def place_count_def tw_ticks_def
        c_def n_def k_def)
  have dm: "x = n * (x div n) + x mod n" by simp
  have m: "0 \<le> x mod n" "x mod n < n" using bnd(1) by simp_all
  have wrap: "(x mod n - c - 1) mod n = (if x mod n - c - 1 < 0 then x mod n - c - 1 + n else x mod n - c - 1)"
    by (rule mod_wrap) (use m bnd in linarith)+
  have "due w' tr = (x mod n - c - 1) mod n + 1 + n * (x div n - (if x mod n > c then 0 else 1))"
    using x(2-4) by (simp add: due_def cur num c_def n_def)
  also have "\<dots> = n * (x div n) + x mod n - c"
    by (subst wrap) (simp add: right_diff_distrib)
  finally show "due w' tr = interval div tw_pace w + 1"
    using dm by (simp add: x_def k_def)
  show "tt_circleCount tr \<le> tt_circle tr"
  proof (cases "x mod n > c")
    case True
    with x bnd show ?thesis by (simp add: pos_imp_zdiv_nonneg_iff)
  next
    case False
    have "x div n \<noteq> 0"
    proof
      assume "x div n = 0"
      with dm have "x = x mod n" by simp
      with False k show False by (simp add: x_def)
    qed
    moreover have "0 \<le> x div n" using x(1) bnd(1) by (simp add: pos_imp_zdiv_nonneg_iff)
    ultimately show ?thesis using x False by simp
  qed
qed

lemma AddTask_trigger:
  assumes wf: "tw_wf w" and ok: "AddTask w t interval n = Inr w'"
  obtains tr where "trigger_of w' t = Some tr" "due w' tr = interval div tw_pace w + 1"
    "tt_circleCount tr \<le> tt_circle tr" "tt_times tr = n" "1 \<le> tt_circle tr" "tw_pace w' = tw_pace w"
    "tw_slotNum w' = tw_slotNum w" "tt_circle tr = place_circle w interval"
proof -
  let ?tr = "\<lparr>tt_taskID = t, tt_times = n, tt_index = place_index w interval,
              tt_circle = place_circle w interval, tt_circleCount = place_count w interval\<rparr>"
  have p: "tw_perimeter w \<le> interval" and trg: "trigger_of w' t = Some ?tr"
    and fr: "tw_pace w' = tw_pace w" "tw_slotNum w' = tw_slotNum w" "tw_curSlot w' = tw_curSlot w"
    using ok by (auto simp: AddTask_def Let_def trigger_of_def split: if_splits)
  have pos: "0 < tw_pace w" "0 < tw_slotNum w" using wf_params [OF wf] by simp_all
  have iv: "tw_slotNum w * tw_pace w \<le> interval" "0 \<le> interval"
    using p wf_params(4) [OF wf] pos mult_pos_pos [OF pos(2,1)] by linarith+
  have "tw_slotNum w \<le> interval div tw_pace w"
    using zdiv_mono1 [OF iv(1) pos(1)] pos by simp
  then have "1 \<le> (interval div tw_pace w + tw_curSlot w + 1) div tw_slotNum w"
    using pos wf_params(5) [OF wf] by (simp add: pos_imp_zdiv_pos_iff int_one_le_iff_zero_less)
  then have "1 \<le> place_circle w interval"
    using pos iv wf_params(5) [OF wf]
    by (simp add: place_circle_def tw_ticks_def pos_imp_zdiv_nonneg_iff)
  with that [OF trg] place_due [OF wf iv(2) fr(3,2), of ?tr] fr show ?thesis by simp
qed

lemma UpdateTask_trigger:
  assumes wf: "tw_wf w" and iv: "0 \<le> interval" and ok: "UpdateTask w t interval n = Inr w'"
  obtains tr where "trigger_of w' t = Some tr" "due w' tr = interval div tw_pace w + 1"
    "tt_circleCount tr \<le> tt_circle tr" "tt_times tr = n"
proof (cases "fmlookup (tw_record w) t")
  case None
  then have "AddTask w t interval n = Inr w'" using ok by (simp add: UpdateTask_def)
  then show ?thesis using that by (rule AddTask_trigger [OF wf])
next
  case (Some p)
  then obtain tr where h: "fmlookup (tw_heap w) p = Some tr" by (rule wf_record [OF wf])
  let ?tr = "tr\<lparr>tt_times := n, tt_circle := place_circle w interval,
                    tt_circleCount := place_count w interval, tt_index := place_index w interval\<rparr>"
  have "trigger_of w' t = Some ?tr" "tw_slotNum w' = tw_slotNum w" "tw_curSlot w' = tw_curSlot w"
    using UpdateTask_recorded [OF wf Some h ok] Some h by (auto simp: trigger_of_def DelTask_def)
  with that place_due [OF wf iv, of w' ?tr] show ?thesis by simp
qed

lemma run_fire_total:
  assumes "tw_wf w" and "\<forall>ord\<in>set ords. range_order ord" and "run_ticks ords w = (w', rls)"
    and "trigger_of w t = Some tr" and "tt_circleCount tr \<le> tt_circle tr" and "1 \<le> tt_circle tr"
    and "tt_times tr = int m"
    and "length ords = nat (due w tr) + m * nat (tw_slotNum w * tt_circle tr)"
  shows "count_list (concat rls) t = m + 1 \<and> \<not> pending w' t"
  using assms
proof (induction m arbitrary: w tr ords rls)
  case 0
  have len: "int (length ords) = due w tr" using 0 due_bounds(1) [OF 0(1,5)] by simp
  note ff = run_first_fire [OF 0(1-5) len]
  have "rls \<noteq> []" using run_ticks_wf [OF 0(1-3)] len due_bounds(1) [OF 0(1,5)] by auto
  then have "concat rls = concat (butlast rls) @ last rls"
    by (metis append_butlast_last_id concat.simps(2) concat_append concat.simps(1) append.right_neutral)
  then have "count_list (concat rls) t = 1" using ff(1,2) by (simp add: count_list_append)
  moreover have "trigger_of w' t = None" using ff(4) 0(7) by (auto simp: visit_def fires_def)
  ultimately show ?case using trigger_of_None [OF ff(3)] by simp
next
  case (Suc m)
  let ?d = "nat (due w tr)" and ?period = "nat (tw_slotNum w * tt_circle tr)"
  define xs ys where "xs = take ?d ords" and "ys = drop ?d ords"
  have o: "ords = xs @ ys" and lx: "length xs = ?d" and ly: "length ys = Suc m * ?period"
    using Suc.prems(8) by (simp_all add: xs_def ys_def)
  obtain w1 r1 where r1: "run_ticks xs w = (w1, r1)" by fastforce
  obtain r2 where r2: "run_ticks ys w1 = (w', r2)" and rls: "rls = r1 @ r2"
    using Suc.prems(3) r1 unfolding o by (auto simp: run_ticks_append split: prod.splits)
  have ox: "\<forall>ord\<in>set xs. range_order ord" and oy: "\<forall>ord\<in>set ys. range_order ord"
    using Suc.prems(2) unfolding o by auto
  have len: "int (length xs) = due w tr" using lx due_bounds(1) [OF Suc.prems(1,5)] by simp
  note ff = run_first_fire [OF Suc.prems(1) ox r1 Suc.prems(4,5) len]
  have "r1 \<noteq> []" using run_ticks_wf [OF Suc.prems(1) ox r1] len due_bounds(1) [OF Suc.prems(1,5)] by auto
  then have "concat r1 = concat (butlast r1) @ last r1"
    by (metis append_butlast_last_id concat.simps(2) concat_append concat.simps(1) append.right_neutral)
  then have one: "count_list (concat r1) t = 1" using ff(1,2) by (simp add: count_list_append)
  obtain tr1 where tr1: "trigger_of w1 t = Some tr1" "tt_times tr1 = int m"
    "tt_circle tr1 = tt_circle tr" "tt_circleCount tr1 \<le> tt_circle tr1"
    "due w1 tr1 = tw_slotNum w * tt_circle tr"
    using ff(4) Suc.prems(6,7) by (auto simp: visit_def fires_def)
  have n1: "tw_slotNum w1 = tw_slotNum w" using run_ticks_wf [OF Suc.prems(1) ox r1] by simp
  have "length ys = nat (due w1 tr1) + m * nat (tw_slotNum w1 * tt_circle tr1)"
    using ly tr1(3,5) n1 by simp
  from Suc.IH [OF ff(3) oy r2 tr1(1,4) _ tr1(2) this] Suc.prems(6) tr1(3) one rls
  show ?case by (simp add: count_list_append)
qed

lemma AddTask_first_fire:
  assumes "tw_wf w" and "AddTask w taskID interval n = Inr w0"
    and "\<forall>ord\<in>set ords. range_order ord" and "length ords = nat (interval div tw_pace w) + 1"
    and "run_ticks ords w0 = (w', rls)"
  shows "taskID \<notin> set (concat (butlast rls)) \<and> taskID \<in> set (last rls)"
proof -
  have wf0: "tw_wf w0" using assms(1,2) by (rule AddTask_wf)
  obtain tr where tr: "trigger_of w0 taskID = Some tr" "due w0 tr = interval div tw_pace w + 1"
    "tt_circleCount tr \<le> tt_circle tr"
    by (rule AddTask_trigger [OF assms(1,2)])
  then have "int (length ords) = due w0 tr"
    using due_bounds(1) [OF wf0 tr(3)] assms(4) by simp
  from run_first_fire(1,2) [OF wf0 assms(3,5) tr(1,3) this] show ?thesis
    by (metis count_list_0_iff zero_neq_one)
qed

lemma UpdateTask_first_fire:
  assumes "tw_wf w" and "0 \<le> interval" and "UpdateTask w taskID interval n = Inr w0"
    and "\<forall>ord\<in>set ords. range_order ord" and "length ords = nat (interval div tw_pace w) + 1"
    and "run_ticks ords w0 = (w', rls)"
  shows "taskID \<notin> set (concat (butlast rls)) \<and> taskID \<in> set (last rls)"
proof -
  have wf0: "tw_wf w0" using assms(1,3) by (rule UpdateTask_wf)
  obtain tr where tr: "trigger_of w0 taskID = Some tr" "due w0 tr = interval div tw_pace w + 1"
    "tt_circleCount tr \<le> tt_circle tr"
    by (rule UpdateTask_trigger [OF assms(1-3)])
  then have "int (length ords) = due w0 tr"
    using due_bounds(1) [OF wf0 tr(3)] assms(5) by simp
  from run_first_fire(1,2) [OF wf0 assms(4,6) tr(1,3) this] show ?thesis
    by (metis count_list_0_iff zero_neq_one)
qed

section \<open>The wheel is a lease timer\<close>

lemma AddTask_pending:
  assumes "AddTask w t d n = Inr w'"
  shows "pending w' u \<longleftrightarrow> u = t \<or> pending w u" "tw_perimeter w' = tw_perimeter w"
  using assms by (auto simp: AddTask_def Let_def pending_def split: if_splits)

lemma AddTask_refused:
  assumes "tw_wf w" and "tw_perimeter w \<le> d" and "AddTask w t d n = Inl e"
  shows "pending w t"
proof -
  have "0 \<le> d" using assms(2) wf_params [OF assms(1)]
    by (smt (verit) mult_pos_pos)
  with assms show ?thesis
    using place_index_range [OF assms(1)]
    by (auto simp: AddTask_def Let_def pending_def split: if_splits)
qed

lemma DelTask_pending:
  assumes "tw_wf w"
  shows "pending (DelTask w t) u \<longleftrightarrow> u \<noteq> t \<and> pending w u"
    "tw_perimeter (DelTask w t) = tw_perimeter w"
  by (auto simp: DelTask_def pending_def Let_def split: option.splits)

lemma UpdateTask_accepted:
  assumes wf: "tw_wf w" and d: "tw_perimeter w \<le> d"
  shows "\<exists>w'. UpdateTask w t d n = Inr w'"
proof (cases "fmlookup (tw_record w) t")
  case None
  with AddTask_refused [OF wf d, of t n] show ?thesis
    by (cases "AddTask w t d n") (simp_all add: UpdateTask_def pending_def)
next
  case (Some p)
  then obtain tr where "fmlookup (tw_heap w) p = Some tr" by (rule wf_record [OF wf])
  moreover have "0 \<le> d" using d wf_params [OF wf] by (smt (verit) mult_pos_pos)
  ultimately show ?thesis
    using Some place_index_range [OF wf] by (simp add: UpdateTask_def Let_def)
qed

lemma UpdateTask_pending:
  assumes wf: "tw_wf w" and ok: "UpdateTask w t d n = Inr w'"
  shows "pending w' u \<longleftrightarrow> u = t \<or> pending w u" "tw_perimeter w' = tw_perimeter w"
proof -
  have "(pending w' u \<longleftrightarrow> u = t \<or> pending w u) \<and> tw_perimeter w' = tw_perimeter w"
  proof (cases "fmlookup (tw_record w) t")
    case None
    with ok AddTask_pending show ?thesis by (simp add: UpdateTask_def)
  next
    case (Some p)
    with ok show ?thesis
      by (auto simp: UpdateTask_def Let_def pending_def split: option.splits if_splits)
  qed
  then show "pending w' u \<longleftrightarrow> u = t \<or> pending w u" "tw_perimeter w' = tw_perimeter w" by simp_all
qed

interpretation wheel: lease_timer tw_wf pending tw_perimeter AddTask UpdateTask DelTask
proof (unfold_locales, goal_cases)
  case 1 then show ?case by (rule AddTask_refused)
next
  case 2 then show ?case using AddTask_wf AddTask_pending(2) by blast
next
  case 3 then show ?case using AddTask_pending(1) by blast
next
  case 4 then show ?case by (rule UpdateTask_accepted)
next
  case 5 then show ?case using UpdateTask_wf UpdateTask_pending(2) by blast
next
  case 6 then show ?case using UpdateTask_pending(1) by blast
next
  case 7 then show ?case using DelTask_wf DelTask_pending(2) by blast
next
  case 8 then show ?case by (rule DelTask_pending(1))
qed

section \<open>Properties\<close>

text \<open>
  C15: A task accepted by \<^verbatim>\<open>AddTask\<close> first fires exactly one tick after its interval has
  elapsed: it is in none of the \<open>interval / pace\<close> batches before and in the next one, whatever
  order the slots are visited in and whatever else the wheel holds.
\<close>

theorem AddTask_fires_on_time:
  assumes "tw_wf w" and "AddTask w taskID interval n = Inr w0"
    and "\<forall>ord\<in>set ords. range_order ord" and "length ords = nat (interval div tw_pace w) + 1"
    and "run_ticks ords w0 = (w', rls)"
  shows "taskID \<notin> set (concat (butlast rls)) \<and> taskID \<in> set (last rls)"
  using assms by (rule AddTask_first_fire)

text \<open>
  \<^verbatim>\<open>UpdateTask\<close> restarts the countdown: whatever was left of a recorded task's
  interval, it next fires exactly one tick after the new interval.
\<close>

theorem UpdateTask_restarts_countdown:
  assumes "tw_wf w" and "0 \<le> interval" and "UpdateTask w taskID interval n = Inr w0"
    and "\<forall>ord\<in>set ords. range_order ord" and "length ords = nat (interval div tw_pace w) + 1"
    and "run_ticks ords w0 = (w', rls)"
  shows "taskID \<notin> set (concat (butlast rls)) \<and> taskID \<in> set (last rls)"
  using assms by (rule UpdateTask_first_fire)

text \<open>
  A task added with a count \<open>m \<ge> 0\<close> is reported \<open>m + 1\<close> times before the wheel
  forgets it, so a task added with the count 1 that the schedulers use fires twice.
\<close>

theorem AddTask_fire_count:
  assumes "tw_wf w" and "AddTask w taskID interval (int m) = Inr w0"
    and "\<forall>ord\<in>set ords. range_order ord"
    and "length ords = nat (interval div tw_pace w + 1) + m * nat (tw_slotNum w * place_circle w interval)"
    and "run_ticks ords w0 = (w', rls)"
  shows "count_list (concat rls) taskID = m + 1 \<and> \<not> pending w' taskID"
proof -
  have wf0: "tw_wf w0" using assms(1,2) by (rule AddTask_wf)
  obtain tr where tr: "trigger_of w0 taskID = Some tr" "due w0 tr = interval div tw_pace w + 1"
    "tt_circleCount tr \<le> tt_circle tr" "tt_times tr = int m" "1 \<le> tt_circle tr"
    "tw_slotNum w0 = tw_slotNum w" "tt_circle tr = place_circle w interval"
    by (rule AddTask_trigger [OF assms(1,2)])
  then show ?thesis using run_fire_total [OF wf0 assms(3,5) tr(1,3,5,4)] assms(4) by simp
qed

text \<open>After \<^verbatim>\<open>DelTask\<close> a task is not pending and is in no later batch.\<close>

theorem DelTask_silences:
  assumes "tw_wf w" and "\<forall>ord\<in>set ords. range_order ord"
    and "run_ticks ords (DelTask w taskID) = (w', rls)"
  shows "\<not> pending (DelTask w taskID) taskID \<and> taskID \<notin> set (concat rls) \<and> \<not> pending w' taskID"
proof -
  have wf: "tw_wf (DelTask w taskID)" using assms(1) by (rule DelTask_wf)
  have np: "\<not> pending (DelTask w taskID) taskID"
    by (auto simp: DelTask_def pending_def Let_def split: option.splits)
  then have "trigger_of (DelTask w taskID) taskID = None" using trigger_of_None [OF wf] by simp
  from run_absent [OF wf assms(2,3) this] run_ticks_wf [OF wf assms(2,3)] np trigger_of_None
  show ?thesis by blast
qed

section \<open>Witnesses\<close>

abbreviation (input) key_order :: "(string, nat) gomap \<Rightarrow> string list" where
  "key_order \<equiv> (\<lambda>m. sorted_list_of_set (fmdom' m))"

lemma key_orders: "\<forall>ord\<in>set (replicate k key_order). range_order ord"
  by (simp add: range_order_sorted)

lemma small_wheel_add:
  "\<exists>w0. AddTask (NewSimpleTimeWheel (2 * millisecond) 2) ''a'' (4 * millisecond) 1 = Inr w0"
  by (simp add: AddTask_def NewSimpleTimeWheel_def Let_def place_index_def tw_ticks_def slot_in_range_def)

theorem AddTask_fires_on_time_witness:
  "\<exists>w0 w' rls. AddTask (NewSimpleTimeWheel (2 * millisecond) 2) ''a'' (4 * millisecond) 1 = Inr w0 \<and>
     run_ticks (replicate 3 key_order) w0 = (w', rls) \<and>
     ''a'' \<notin> set (concat (butlast rls)) \<and> ''a'' \<in> set (last rls)"
proof -
  obtain w0 where w0: "AddTask (NewSimpleTimeWheel (2 * millisecond) 2) ''a'' (4 * millisecond) 1 = Inr w0"
    using small_wheel_add by blast
  obtain w' rls where r: "run_ticks (replicate 3 key_order) w0 = (w', rls)" by fastforce
  have "length (replicate 3 key_order) =
      nat (4 * millisecond div tw_pace (NewSimpleTimeWheel (2 * millisecond) 2)) + 1"
    by (simp add: NewSimpleTimeWheel_def)
  from AddTask_fires_on_time [OF NewSimpleTimeWheel_wf w0 key_orders this r] w0 r show ?thesis by blast
qed

theorem UpdateTask_restarts_countdown_witness:
  "\<exists>w0 w1 w' rls. AddTask (NewSimpleTimeWheel (2 * millisecond) 2) ''a'' (4 * millisecond) 1 = Inr w0 \<and>
     UpdateTask w0 ''a'' (6 * millisecond) 1 = Inr w1 \<and>
     run_ticks (replicate 4 key_order) w1 = (w', rls) \<and>
     ''a'' \<notin> set (concat (butlast rls)) \<and> ''a'' \<in> set (last rls)"
proof -
  obtain w0 where w0: "AddTask (NewSimpleTimeWheel (2 * millisecond) 2) ''a'' (4 * millisecond) 1 = Inr w0"
    using small_wheel_add by blast
  have wf0: "tw_wf w0" by (rule AddTask_wf [OF NewSimpleTimeWheel_wf w0])
  have p: "tw_pace w0 = 2 * millisecond" "tw_perimeter w0 = 4 * millisecond"
    using w0 by (auto simp: AddTask_def Let_def NewSimpleTimeWheel_def split: if_splits)
  obtain w1 where w1: "UpdateTask w0 ''a'' (6 * millisecond) 1 = Inr w1"
    using UpdateTask_accepted [OF wf0, of "6 * millisecond"] p by auto
  obtain w' rls where r: "run_ticks (replicate 4 key_order) w1 = (w', rls)" by fastforce
  have "length (replicate 4 key_order) = nat (6 * millisecond div tw_pace w0) + 1" by (simp add: p)
  from UpdateTask_restarts_countdown [OF wf0 _ w1 key_orders this r] w0 w1 r show ?thesis by auto
qed

theorem AddTask_fire_count_witness:
  "\<exists>w0 w' rls. AddTask (NewSimpleTimeWheel (2 * millisecond) 2) ''a'' (4 * millisecond) (int 1) = Inr w0 \<and>
     run_ticks (replicate 5 key_order) w0 = (w', rls) \<and>
     count_list (concat rls) ''a'' = 1 + 1 \<and> \<not> pending w' ''a''"
proof -
  obtain w0 where w0: "AddTask (NewSimpleTimeWheel (2 * millisecond) 2) ''a'' (4 * millisecond) (int 1) = Inr w0"
    using small_wheel_add by auto
  obtain w' rls where r: "run_ticks (replicate 5 key_order) w0 = (w', rls)" by fastforce
  have "length (replicate 5 key_order) =
      nat (4 * millisecond div tw_pace (NewSimpleTimeWheel (2 * millisecond) 2) + 1) +
      1 * nat (tw_slotNum (NewSimpleTimeWheel (2 * millisecond) 2) *
        place_circle (NewSimpleTimeWheel (2 * millisecond) 2) (4 * millisecond))"
    by (simp add: NewSimpleTimeWheel_def place_circle_def tw_ticks_def)
  from AddTask_fire_count [OF NewSimpleTimeWheel_wf w0 key_orders this r] w0 r show ?thesis by blast
qed

theorem DelTask_silences_witness:
  "\<exists>w0 w' rls. AddTask (NewSimpleTimeWheel (2 * millisecond) 2) ''a'' (4 * millisecond) 1 = Inr w0 \<and>
     pending w0 ''a'' \<and> run_ticks (replicate 9 key_order) (DelTask w0 ''a'') = (w', rls) \<and>
     \<not> pending (DelTask w0 ''a'') ''a'' \<and> ''a'' \<notin> set (concat rls) \<and> \<not> pending w' ''a''"
proof -
  obtain w0 where w0: "AddTask (NewSimpleTimeWheel (2 * millisecond) 2) ''a'' (4 * millisecond) 1 = Inr w0"
    using small_wheel_add by blast
  have wf0: "tw_wf w0" by (rule AddTask_wf [OF NewSimpleTimeWheel_wf w0])
  obtain w' rls where r: "run_ticks (replicate 9 key_order) (DelTask w0 ''a'') = (w', rls)" by fastforce
  from DelTask_silences [OF wf0 key_orders r] w0 r AddTask_pending(1) [OF w0, of "''a''"]
  show ?thesis by blast
qed

end
