(* ===== verification/GoHash.thy ===== *)
theory GoHash
  imports GoPrelude
begin

unbundle bit_operations_syntax

text \<open>
  The hash functions of Go's standard library that the sources use: \<^verbatim>\<open>crypto/sha256\<close>
  (session hashes, virtual nodes of the hash ring, physical keys of the session store),
  \<^verbatim>\<open>hash/crc32\<close> with the IEEE polynomial (keys looked up on the ring) and
  \<^verbatim>\<open>encoding/hex\<close>. The components need of them only the shape of the result: 32 bytes,
  two lower-case hexadecimal characters per byte.
\<close>

type_synonym byte = "8 word"
type_synonym word32 = "32 word"

definition bytes_of :: "string \<Rightarrow> byte list" where
  "bytes_of s = map of_char s"

section \<open>SHA-256\<close>

text \<open>
  The constants of SHA-256 are by definition the first 32 bits of the fractional parts of the cube
  roots (round constants) and square roots (initial state) of the first primes; they are computed
  here from that definition. \<open>iroot k n b\<close> is the largest number with at most \<open>b\<close> bits whose
  \<open>k\<close>-th power is at most \<open>n\<close>.
\<close>

fun iroot_from :: "nat \<Rightarrow> int \<Rightarrow> nat \<Rightarrow> int \<Rightarrow> int" where
  "iroot_from k n 0 r = r"
| "iroot_from k n (Suc b) r =
     iroot_from k n b (if (r + 2 ^ b) ^ k \<le> n then r + 2 ^ b else r)"

definition iroot :: "nat \<Rightarrow> int \<Rightarrow> nat \<Rightarrow> int" where
  "iroot k n b = iroot_from k n b 0"

fun first_primes :: "nat \<Rightarrow> nat list \<Rightarrow> nat list" where
  "first_primes 0 cs = []"
| "first_primes (Suc n) [] = []"
| "first_primes (Suc n) (c # cs) = c # first_primes n (filter (\<lambda>x. x mod c \<noteq> 0) cs)"

definition root_bits :: "nat \<Rightarrow> nat \<Rightarrow> word32" where
  "root_bits k p = word_of_int (iroot k (int p * 2 ^ (32 * k)) 40)"

definition sha256_k :: "word32 list" where
  "sha256_k = map (root_bits 3) (first_primes 64 [2..<312])"

type_synonym sha256_state =
  "word32 \<times> word32 \<times> word32 \<times> word32 \<times> word32 \<times> word32 \<times> word32 \<times> word32"

definition sha256_init :: sha256_state where
  "sha256_init = (root_bits 2 2, root_bits 2 3, root_bits 2 5, root_bits 2 7,
                  root_bits 2 11, root_bits 2 13, root_bits 2 17, root_bits 2 19)"

definition be32 :: "byte list \<Rightarrow> word32" where
  "be32 bs = foldl (\<lambda>acc b. push_bit 8 acc OR ucast b) 0 bs"

definition bytes32 :: "word32 \<Rightarrow> byte list" where
  "bytes32 w = [ucast (drop_bit 24 w), ucast (drop_bit 16 w), ucast (drop_bit 8 w), ucast w]"

fun chunks :: "nat \<Rightarrow> nat \<Rightarrow> 'a list \<Rightarrow> 'a list list" where
  "chunks 0 k xs = []"
| "chunks (Suc n) k xs = take k xs # chunks n k (drop k xs)"

definition sha256_pad :: "byte list \<Rightarrow> byte list" where
  "sha256_pad m =
     m @ [0x80] @ replicate ((119 - length m mod 64) mod 64) 0 @
     rev (map (\<lambda>i. word_of_int (take_bit 8 (drop_bit (8 * i) (8 * int (length m))))) [0..<8])"

fun sha256_schedule :: "nat \<Rightarrow> word32 list \<Rightarrow> word32 list" where
  "sha256_schedule 0 ws = rev ws"
| "sha256_schedule (Suc n) ws =
     (let w15 = ws ! 14; w2 = ws ! 1;
          s0 = word_rotr 7 w15 XOR word_rotr 18 w15 XOR drop_bit 3 w15;
          s1 = word_rotr 17 w2 XOR word_rotr 19 w2 XOR drop_bit 10 w2
      in sha256_schedule n ((ws ! 15 + s0 + ws ! 6 + s1) # ws))"

fun sha256_round :: "sha256_state \<Rightarrow> word32 \<times> word32 \<Rightarrow> sha256_state" where
  "sha256_round (a, b, c, d, e, f, g, h) (k, w) =
     (let s1 = word_rotr 6 e XOR word_rotr 11 e XOR word_rotr 25 e;
          ch = (e AND f) XOR (NOT e AND g);
          t1 = h + s1 + ch + k + w;
          s0 = word_rotr 2 a XOR word_rotr 13 a XOR word_rotr 22 a;
          maj = (a AND b) XOR (a AND c) XOR (b AND c);
          t2 = s0 + maj
      in (t1 + t2, a, b, c, d + t1, e, f, g))"

definition sha256_block :: "sha256_state \<Rightarrow> byte list \<Rightarrow> sha256_state" where
  "sha256_block st blk =
     (case st of (a, b, c, d, e, f, g, h) \<Rightarrow>
       case foldl sha256_round st
              (zip sha256_k (sha256_schedule 48 (rev (map be32 (chunks 16 4 blk))))) of
         (a', b', c', d', e', f', g', h') \<Rightarrow>
           (a + a', b + b', c + c', d + d', e + e', f + f', g + g', h + h'))"

definition sha256 :: "byte list \<Rightarrow> byte list" where
  "sha256 m =
     (let p = sha256_pad m in
      case foldl sha256_block sha256_init (chunks (length p div 64) 64 p) of
        (a, b, c, d, e, f, g, h) \<Rightarrow> concat (map bytes32 [a, b, c, d, e, f, g, h]))"

lemma length_sha256 [simp]: "length (sha256 m) = 32"
  by (simp add: sha256_def Let_def bytes32_def split: prod.splits)

section \<open>CRC-32 (IEEE)\<close>

definition crc32_bit :: "word32 \<Rightarrow> word32" where
  "crc32_bit c = (if bit c 0 then drop_bit 1 c XOR 0xEDB88320 else drop_bit 1 c)"

definition crc32_byte :: "word32 \<Rightarrow> byte \<Rightarrow> word32" where
  "crc32_byte c b = (crc32_bit ^^ 8) (c XOR ucast b)"

definition crc32_ieee :: "byte list \<Rightarrow> word32" where
  "crc32_ieee bs = NOT (foldl crc32_byte (- 1) bs)"

section \<open>Hexadecimal encoding\<close>

definition hexDigit :: "nat \<Rightarrow> char" where
  "hexDigit n = (if n < 10 then char_of (48 + n) else char_of (87 + n))"

definition hexByte :: "byte \<Rightarrow> string" where
  "hexByte b = [hexDigit (unat b div 16), hexDigit (unat b mod 16)]"

definition hexEncode :: "byte list \<Rightarrow> string" where
  "hexEncode bs = concat (map hexByte bs)"

lemma length_hexEncode [simp]: "length (hexEncode bs) = 2 * length bs"
  by (induction bs) (simp_all add: hexEncode_def hexByte_def)

lemma hexDigit_class:
  assumes "n < 16"
  shows "of_char (hexDigit n) \<in> {48..57::nat} \<union> {97..102}"
  using assms by (auto simp: hexDigit_def)

lemma hexEncode_chars:
  assumes "c \<in> set (hexEncode bs)"
  shows "of_char c \<in> {48..57::nat} \<union> {97..102}"
proof -
  from assms obtain b where "c \<in> set (hexByte b)"
    by (auto simp: hexEncode_def)
  moreover have "unat b div 16 < 16"
    using unsigned_less [of b, where ?'a = nat] by (simp add: less_mult_imp_div_less)
  ultimately show ?thesis
    using hexDigit_class [of "unat b div 16"] hexDigit_class [of "unat b mod 16"]
    by (auto simp: hexByte_def)
qed

end
