(* ===== verification/HashRing.thy ===== *)
theory HashRing
  imports GoHash Contracts "HOL-Library.List_Lexorder" "HOL-Library.Char_ord" "HOL-Library.Product_Lexorder"
    "HOL-Library.Multiset"
begin

text \<open>
  The consistent-hash ring of \<^verbatim>\<open>go/pkg/common/faas_common/loadbalance/hash.go\<close> that decides which
  scheduler owns a key (\<^verbatim>\<open>SimpleCHGeneric\<close>): every node is spread over 256 virtual points placed
  by SHA-256, a key is looked up by CRC-32 and belongs to the next point clockwise. Shown: the
  ring depends only on the set of its nodes, a lookup returns a node of the ring, and adding or
  removing a node moves only the keys it has to move.
\<close>

section \<open>Data and operations\<close>

record virtualNode =
  vn_hash :: word32
  vn_owner :: string
  vn_index :: int

record SimpleCHGeneric =
  ch_nodes :: "virtualNode list"
  ch_owners :: "(string, unit) gomap"

abbreviation (input) virtualNodeCount :: nat where "virtualNodeCount \<equiv> 256"

definition NewSimpleCHGeneric :: SimpleCHGeneric where
  "NewSimpleCHGeneric = \<lparr>ch_nodes = [], ch_owners = fmempty\<rparr>"

definition buildVirtualNodes :: "string \<Rightarrow> virtualNode list" where
  "buildVirtualNodes name =
     map (\<lambda>i. \<lparr>vn_hash = be32 (take 4 (sha256 (bytes_of (name @ ''#'' @ showInt (int i))))),
               vn_owner = name, vn_index = int i\<rparr>) [0..<virtualNodeCount]"

definition vn_key :: "virtualNode \<Rightarrow> word32 \<times> string \<times> int" where
  "vn_key n = (vn_hash n, vn_owner n, vn_index n)"

text \<open>
  \<^verbatim>\<open>sort.Slice\<close> with the comparison by (hash, owner, index): the comparison is a total order that
  tells different points apart, so every sorting algorithm gives this list.
\<close>

definition sortVirtualNodes :: "virtualNode list \<Rightarrow> virtualNode list" where
  "sortVirtualNodes nodes = sort_key vn_key nodes"

definition getHashKeyCRC32 :: "string \<Rightarrow> word32" where
  "getHashKeyCRC32 key = crc32_ieee (bytes_of key)"

text \<open>\<^verbatim>\<open>sort.Search\<close>: the binary search of the standard library on the interval \<open>[i, j)\<close>.\<close>

function sortSearch :: "(nat \<Rightarrow> bool) \<Rightarrow> nat \<Rightarrow> nat \<Rightarrow> nat" where
  "sortSearch f i j =
     (if i < j then
        let h = (i + j) div 2
        in if \<not> f h then sortSearch f (h + 1) j else sortSearch f i h
      else i)"
  by pat_completeness auto
termination
  by (relation "measure (\<lambda>(f, i, j). j - i)") auto

declare sortSearch.simps [simp del]

definition ch_Next :: "SimpleCHGeneric \<Rightarrow> string \<Rightarrow> string" where
  "ch_Next c name =
     (let hashKey = getHashKeyCRC32 name; n = length (ch_nodes c) in
      if n = 0 then []
      else let i = sortSearch (\<lambda>i. vn_hash (ch_nodes c ! i) > hashKey) 0 n;
               i' = (if i = n then 0 else i)
           in vn_owner (ch_nodes c ! i'))"

definition ch_Add :: "SimpleCHGeneric \<Rightarrow> string \<Rightarrow> SimpleCHGeneric" where
  "ch_Add c name =
     (if fmlookup (ch_owners c) name \<noteq> None then c
      else \<lparr>ch_nodes = sortVirtualNodes (ch_nodes c @ buildVirtualNodes name),
            ch_owners = fmupd name () (ch_owners c)\<rparr>)"

definition ch_Remove :: "SimpleCHGeneric \<Rightarrow> string \<Rightarrow> SimpleCHGeneric" where
  "ch_Remove c name =
     (if fmlookup (ch_owners c) name = None then c
      else \<lparr>ch_nodes = filter (\<lambda>n. vn_owner n \<noteq> name) (ch_nodes c),
            ch_owners = fmdrop name (ch_owners c)\<rparr>)"

definition ch_RemoveAll :: "SimpleCHGeneric \<Rightarrow> SimpleCHGeneric" where
  "ch_RemoveAll c = NewSimpleCHGeneric"

definition ch_Reset :: "SimpleCHGeneric \<Rightarrow> SimpleCHGeneric" where
  "ch_Reset c = c"

section \<open>Binary search\<close>

lemma sortSearch_spec:
  assumes "\<forall>a b. i \<le> a \<longrightarrow> a \<le> b \<longrightarrow> b < j \<longrightarrow> f a \<longrightarrow> f b" and "i \<le> j"
  shows "i \<le> sortSearch f i j \<and> sortSearch f i j \<le> j \<and>
    (\<forall>k. i \<le> k \<longrightarrow> k < sortSearch f i j \<longrightarrow> \<not> f k) \<and>
    (\<forall>k. sortSearch f i j \<le> k \<longrightarrow> k < j \<longrightarrow> f k)"
  using assms
proof (induction f i j rule: sortSearch.induct)
  case (1 f i j)
  show ?case
  proof (cases "i < j")
    case False
    then have "sortSearch f i j = i" by (simp add: sortSearch.simps [of f i j])
    with 1(4) False show ?thesis by simp
  next
    case True
    define h where "h = (i + j) div 2"
    have h: "i \<le> h" "h < j" using True by (auto simp: h_def)
    show ?thesis
    proof (cases "f h")
      case False
      have e: "sortSearch f i j = sortSearch f (h + 1) j"
        using True False by (simp add: sortSearch.simps [of f i j] h_def Let_def)
      have low: "\<not> f k" if "i \<le> k" "k \<le> h" for k using 1(3) [rule_format, of k h] that h False by blast
      have "\<forall>a b. h + 1 \<le> a \<longrightarrow> a \<le> b \<longrightarrow> b < j \<longrightarrow> f a \<longrightarrow> f b"
        using 1(3) h by (meson add_leD1 le_trans)
      from 1(1) [OF True h_def _ this] False h
      have ih: "h + 1 \<le> sortSearch f (h + 1) j" "sortSearch f (h + 1) j \<le> j"
        "\<And>k. h + 1 \<le> k \<Longrightarrow> k < sortSearch f (h + 1) j \<Longrightarrow> \<not> f k"
        "\<And>k. sortSearch f (h + 1) j \<le> k \<Longrightarrow> k < j \<Longrightarrow> f k"
        by auto
      have "\<not> f k" if "i \<le> k" "k < sortSearch f (h + 1) j" for k
        using low [of k] ih(3) [of k] that by (cases "k \<le> h") auto
      with ih h show ?thesis unfolding e by auto
    next
      case fh: True
      have e: "sortSearch f i j = sortSearch f i h"
        using True fh by (simp add: sortSearch.simps [of f i j] h_def Let_def)
      have up: "f k" if "h \<le> k" "k < j" for k using 1(3) [rule_format, of h k] that h fh by blast
      have "\<forall>a b. i \<le> a \<longrightarrow> a \<le> b \<longrightarrow> b < h \<longrightarrow> f a \<longrightarrow> f b"
        using 1(3) h by (meson less_trans)
      from 1(2) [OF True h_def _ this] fh h
      have ih: "i \<le> sortSearch f i h" "sortSearch f i h \<le> h"
        "\<And>k. i \<le> k \<Longrightarrow> k < sortSearch f i h \<Longrightarrow> \<not> f k"
        "\<And>k. sortSearch f i h \<le> k \<Longrightarrow> k < h \<Longrightarrow> f k"
        by auto
      have "f k" if "sortSearch f i h \<le> k" "k < j" for k
        using up [of k] ih(4) [of k] that by (cases "h \<le> k") auto
      with ih h show ?thesis unfolding e by auto
    qed
  qed
qed

section \<open>The ring as a function of its nodes\<close>

text \<open>The specification of a lookup: the first point after the key's hash, else the first point.\<close>

definition ring_succ :: "virtualNode list \<Rightarrow> word32 \<Rightarrow> string" where
  "ring_succ nodes h =
     (case find (\<lambda>n. vn_hash n > h) nodes of
        Some n \<Rightarrow> vn_owner n
      | None \<Rightarrow> (case nodes of [] \<Rightarrow> [] | n # _ \<Rightarrow> vn_owner n))"

text \<open>A well-formed ring: sorted, and holding exactly the points of its owners.\<close>

definition ring_wf :: "SimpleCHGeneric \<Rightarrow> bool" where
  "ring_wf c \<longleftrightarrow> sorted (map vn_key (ch_nodes c)) \<and>
     mset (ch_nodes c) = (\<Sum>x\<in>fmdom' (ch_owners c). mset (buildVirtualNodes x))"

lemma inj_vn_key: "inj vn_key"
  by (rule injI) (simp add: vn_key_def)

lemma buildVirtualNodes_owner: "n \<in> set (buildVirtualNodes x) \<Longrightarrow> vn_owner n = x"
  by (auto simp: buildVirtualNodes_def)

lemma in_sum_mset:
  "finite A \<Longrightarrow> n \<in># (\<Sum>x\<in>A. g x) \<longleftrightarrow> (\<exists>x\<in>A. n \<in># g x)"
  by (induction A rule: finite_induct) auto

lemma buildVirtualNodes_nonempty: "buildVirtualNodes x \<noteq> []"
  by (simp add: buildVirtualNodes_def)

lemma ring_points:
  assumes "ring_wf c"
  shows "n \<in> set (ch_nodes c) \<longleftrightarrow>
    vn_owner n \<in> fmdom' (ch_owners c) \<and> n \<in> set (buildVirtualNodes (vn_owner n))"
proof -
  have "n \<in> set (ch_nodes c) \<longleftrightarrow> n \<in># (\<Sum>x\<in>fmdom' (ch_owners c). mset (buildVirtualNodes x))"
    using assms unfolding ring_wf_def by (metis set_mset_mset)
  also have "\<dots> \<longleftrightarrow> (\<exists>x\<in>fmdom' (ch_owners c). n \<in> set (buildVirtualNodes x))"
    by (simp add: in_sum_mset)
  finally show ?thesis using buildVirtualNodes_owner by metis
qed

lemma ring_owner:
  assumes "ring_wf c" and "n \<in> set (ch_nodes c)"
  shows "vn_owner n \<in> fmdom' (ch_owners c)"
  using assms ring_points by blast

lemma ring_nonempty:
  assumes "ring_wf c" and "x \<in> fmdom' (ch_owners c)"
  shows "ch_nodes c \<noteq> []"
proof -
  obtain n where "n \<in> set (buildVirtualNodes x)"
    using buildVirtualNodes_nonempty [of x] by (cases "buildVirtualNodes x") auto
  then have "n \<in> set (ch_nodes c)"
    using assms ring_points [OF assms(1), of n] by (simp add: buildVirtualNodes_owner)
  then show ?thesis by auto
qed

lemma ch_Next_spec:
  assumes "ring_wf c"
  shows "ch_Next c name = ring_succ (ch_nodes c) (getHashKeyCRC32 name)"
proof (cases "ch_nodes c")
  case Nil
  then show ?thesis by (simp add: ch_Next_def ring_succ_def)
next
  case (Cons n0 rest)
  define ns h where "ns = ch_nodes c" and "h = getHashKeyCRC32 name"
  let ?f = "\<lambda>i. vn_hash (ns ! i) > h"
  have srt: "vn_hash (ns ! a) \<le> vn_hash (ns ! b)" if "a \<le> b" "b < length ns" for a b
  proof -
    have "vn_key (ns ! a) \<le> vn_key (ns ! b)"
      using sorted_nth_mono [of "map vn_key ns" a b] assms that by (simp add: ring_wf_def ns_def)
    then show ?thesis by (auto simp: vn_key_def less_eq_prod_def)
  qed
  define r where "r = sortSearch ?f 0 (length ns)"
  have r: "r \<le> length ns" "\<forall>k<r. \<not> ?f k" "\<forall>k. r \<le> k \<longrightarrow> k < length ns \<longrightarrow> ?f k"
    using sortSearch_spec [of 0 "length ns" ?f] srt unfolding r_def
    by (meson le0 order_less_le_trans)+
  have "find (\<lambda>n. vn_hash n > h) ns = (if r = length ns then None else Some (ns ! r))"
  proof (cases "r = length ns")
    case True
    with r(2) show ?thesis by (auto simp: find_None_iff in_set_conv_nth)
  next
    case False
    with r have "r < length ns" "?f r" by auto
    with r(2) False show ?thesis by (auto simp: find_Some_iff intro!: exI [of _ r])
  qed
  with Cons show ?thesis
    by (auto simp: ch_Next_def ring_succ_def Let_def r_def ns_def h_def split: if_splits)
qed

lemma NewSimpleCHGeneric_wf: "ring_wf NewSimpleCHGeneric"
  by (simp add: ring_wf_def NewSimpleCHGeneric_def)

lemma ch_Add_wf:
  assumes "ring_wf c"
  shows "ring_wf (ch_Add c name)"
proof (cases "fmlookup (ch_owners c) name")
  case None
  then have "name \<notin> fmdom' (ch_owners c)" by (simp add: fmdom'_notI)
  with assms None show ?thesis
    by (simp add: ch_Add_def ring_wf_def sortVirtualNodes_def add.commute)
next
  case (Some u)
  with assms show ?thesis by (simp add: ch_Add_def)
qed

lemma filter_mset_sum:
  "finite A \<Longrightarrow> filter_mset P (\<Sum>x\<in>A. g x) = (\<Sum>x\<in>A. filter_mset P (g x))"
  by (induction A rule: finite_induct) simp_all

lemma filter_buildVirtualNodes:
  "filter_mset (\<lambda>n. vn_owner n \<noteq> name) (mset (buildVirtualNodes x)) =
     (if x = name then {#} else mset (buildVirtualNodes x))"
proof -
  have "filter (\<lambda>n. vn_owner n \<noteq> name) (buildVirtualNodes x) =
      (if x = name then [] else buildVirtualNodes x)"
    by (auto simp: filter_empty_conv buildVirtualNodes_owner intro!: filter_True)
  then show ?thesis by (metis mset_filter mset_zero_iff_right mset.simps(1))
qed

lemma ch_Remove_wf:
  assumes "ring_wf c"
  shows "ring_wf (ch_Remove c name)"
proof (cases "fmlookup (ch_owners c) name")
  case None
  with assms show ?thesis by (simp add: ch_Remove_def)
next
  case (Some u)
  let ?P = "\<lambda>n. vn_owner n \<noteq> name" and ?O = "fmdom' (ch_owners c)"
  have "mset (filter ?P (ch_nodes c)) = filter_mset ?P (\<Sum>x\<in>?O. mset (buildVirtualNodes x))"
    using assms by (simp add: ring_wf_def)
  also have "\<dots> = (\<Sum>x\<in>?O. if x = name then {#} else mset (buildVirtualNodes x))"
    by (simp add: filter_mset_sum filter_buildVirtualNodes)
  also have "\<dots> = (\<Sum>x\<in>?O - {name}. mset (buildVirtualNodes x))"
    by (rule sum.mono_neutral_cong_right) auto
  finally show ?thesis
    using assms Some sorted_filter [of vn_key "ch_nodes c"] by (simp add: ch_Remove_def ring_wf_def)
qed

lemma sorted_points_eq:
  assumes "mset xs = mset ys" and "sorted (map vn_key xs)" and "sorted (map vn_key ys)"
  shows "xs = ys"
proof -
  have "mset (map vn_key xs) = mset (map vn_key ys)" using assms(1) by simp
  with assms(2,3) have "map vn_key xs = map vn_key ys"
    using properties_for_sort [of "map vn_key xs" "map vn_key ys"] by (simp add: sorted_sort_id)
  then show ?thesis by (rule inj_map_eq_map [OF inj_vn_key, THEN iffD1])
qed

lemma ring_canonical:
  assumes "ring_wf c" and "ring_wf d" and "fmdom' (ch_owners c) = fmdom' (ch_owners d)"
  shows "ch_nodes c = ch_nodes d"
  using assms by (intro sorted_points_eq) (simp_all add: ring_wf_def)

lemma ring_succ_filter:
  assumes "vn_owner ` set nodes \<noteq> {}" "ring_succ nodes h \<noteq> name"
  shows "ring_succ (filter (\<lambda>n. vn_owner n \<noteq> name) nodes) h = ring_succ nodes h"
proof (cases "find (\<lambda>n. vn_hash n > h) nodes")
  case None
  then have "find (\<lambda>n. vn_hash n > h) (filter (\<lambda>n. vn_owner n \<noteq> name) nodes) = None"
    by (simp add: find_None_iff)
  with None assms show ?thesis by (auto simp: ring_succ_def split: list.splits)
next
  case (Some n)
  then have "vn_owner n \<noteq> name" using assms(2) by (simp add: ring_succ_def)
  have "find (\<lambda>n. vn_hash n > h) (filter (\<lambda>n. vn_owner n \<noteq> name) nodes) = Some n"
    using Some \<open>vn_owner n \<noteq> name\<close> by (induction nodes) (auto split: if_splits)
  with Some show ?thesis by (simp add: ring_succ_def)
qed

lemma ch_Next_nodes: "ch_nodes c = ch_nodes d \<Longrightarrow> ch_Next c key = ch_Next d key"
  unfolding ch_Next_def by (elim ssubst) (rule refl)

lemma ring_succ_owner: "nodes \<noteq> [] \<Longrightarrow> \<exists>n\<in>set nodes. ring_succ nodes h = vn_owner n"
proof (cases "find (\<lambda>n. vn_hash n > h) nodes")
  case (Some n)
  then have "n \<in> set nodes" by (auto simp: find_Some_iff)
  with Some show ?thesis by (auto simp: ring_succ_def)
qed (auto simp: ring_succ_def split: list.splits)

lemma ch_Next_owner:
  assumes "ring_wf c" and "ch_owners c \<noteq> fmempty"
  shows "ch_Next c key \<in> fmdom' (ch_owners c)"
proof -
  obtain x where "x \<in> fmdom' (ch_owners c)" using assms(2)
    by (metis all_not_in_conv fmdom'_notD fmap_ext fmempty_lookup)
  then have "ch_nodes c \<noteq> []" by (rule ring_nonempty [OF assms(1)])
  then show ?thesis
    using ring_succ_owner [of "ch_nodes c"] ring_owner [OF assms(1)] ch_Next_spec [OF assms(1)]
    by metis
qed

lemma ch_Next_remove:
  assumes "ring_wf c" and "ch_Next c key \<noteq> name"
  shows "ch_Next (ch_Remove c name) key = ch_Next c key"
proof (cases "fmlookup (ch_owners c) name")
  case None
  then show ?thesis by (simp add: ch_Remove_def)
next
  case (Some u)
  then have ne: "ch_nodes c \<noteq> []" by (intro ring_nonempty [OF assms(1)] fmdom'I)
  have "ch_nodes (ch_Remove c name) = filter (\<lambda>n. vn_owner n \<noteq> name) (ch_nodes c)"
    using Some by (simp add: ch_Remove_def)
  with ne assms ring_succ_filter [of "ch_nodes c"] show ?thesis
    by (simp add: ch_Next_spec ch_Remove_wf)
qed

lemma ch_Remove_Add:
  assumes "ring_wf c" and "name \<notin> fmdom' (ch_owners c)"
  shows "ch_nodes (ch_Remove (ch_Add c name) name) = ch_nodes c"
proof (rule ring_canonical)
  show "ring_wf (ch_Remove (ch_Add c name) name)" "ring_wf c"
    using assms by (simp_all add: ch_Remove_wf ch_Add_wf)
  show "fmdom' (ch_owners (ch_Remove (ch_Add c name) name)) = fmdom' (ch_owners c)"
    using assms by (auto simp: ch_Remove_def ch_Add_def fmdom'_notD)
qed

section \<open>Rings a scheduler can build\<close>

text \<open>The rings reached from the empty one by the mutating methods, in any order.\<close>

inductive ring_reach :: "SimpleCHGeneric \<Rightarrow> bool" where
  ring_new: "ring_reach NewSimpleCHGeneric"
| ring_add: "ring_reach c \<Longrightarrow> ring_reach (ch_Add c name)"
| ring_remove: "ring_reach c \<Longrightarrow> ring_reach (ch_Remove c name)"
| ring_removeAll: "ring_reach c \<Longrightarrow> ring_reach (ch_RemoveAll c)"
| ring_reset: "ring_reach c \<Longrightarrow> ring_reach (ch_Reset c)"

lemma ring_reach_wf: "ring_reach c \<Longrightarrow> ring_wf c"
  by (induction rule: ring_reach.induct)
    (simp_all add: NewSimpleCHGeneric_wf ch_Add_wf ch_Remove_wf ch_RemoveAll_def ch_Reset_def)

text \<open>The set of owners, and what each method does to it.\<close>

lemma owners_simps [simp]:
  "fmdom' (ch_owners NewSimpleCHGeneric) = {}"
  "fmdom' (ch_owners (ch_Add c name)) = insert name (fmdom' (ch_owners c))"
  "fmdom' (ch_owners (ch_Remove c name)) = fmdom' (ch_owners c) - {name}"
  "fmdom' (ch_owners (ch_RemoveAll c)) = {}"
  by (auto simp: NewSimpleCHGeneric_def ch_Add_def ch_Remove_def ch_RemoveAll_def fmlookup_dom'_iff)

lemma ch_Next_empty: "ring_wf c \<Longrightarrow> fmdom' (ch_owners c) = {} \<Longrightarrow> ch_Next c key = []"
  by (simp add: ring_wf_def ch_Next_def)

interpretation ring: hash_router ring_reach "\<lambda>c. fmdom' (ch_owners c)" ch_Next ch_Add ch_Remove
proof (unfold_locales, goal_cases)
  case (1 r k)
  then show ?case by (intro ch_Next_owner ring_reach_wf) auto
next
  case (2 r k)
  then show ?case by (simp add: ch_Next_empty ring_reach_wf)
next
  case (3 r s k)
  then show ?case by (intro ch_Next_nodes ring_canonical ring_reach_wf)
qed (simp_all add: ring_add ring_remove)

text \<open>
  C14: The owner of a key depends only on the set of nodes in the ring, never on the order in which
  they were added and removed or on nodes that have left again: two schedulers that have seen the
  same members agree on the owner of every key.
\<close>

theorem ring_history_independent:
  assumes "ring_reach c" and "ring_reach d"
    and "fmdom' (ch_owners c) = fmdom' (ch_owners d)"
  shows "ch_Next c key = ch_Next d key"
  using assms by (rule ring.route_agree)

theorem ring_history_independent_witness:
  "ch_Next (ch_Remove (ch_Add (ch_Add (ch_Add NewSimpleCHGeneric ''a'') ''b'') ''c'') ''a'') ''key'' =
   ch_Next (ch_Add (ch_Add NewSimpleCHGeneric ''c'') ''b'') ''key''"
  by (rule ring_history_independent) (auto intro!: ring_reach.intros)

text \<open>
  The reference lookup: build the points of all members from scratch, sort them, and scan for the
  first one above the hash of the key.
\<close>

definition reference_owner :: "string list \<Rightarrow> string \<Rightarrow> string" where
  "reference_owner members key =
     ring_succ (sort_key vn_key (concat (map buildVirtualNodes members))) (getHashKeyCRC32 key)"

lemma mset_concat_points:
  "distinct xs \<Longrightarrow> mset (concat (map f xs)) = (\<Sum>x\<in>set xs. mset (f x))"
  by (induction xs) auto

text \<open>
  C24: The ring kept up to date by \<^verbatim>\<open>Add\<close> and \<^verbatim>\<open>Remove\<close> and searched by bisection gives, for every key,
  the owner that a ring built from scratch out of the members, in whatever order they are listed,
  and scanned point by point gives.
\<close>

theorem ch_Next_reference:
  assumes "ring_reach c" and "distinct members" and "set members = fmdom' (ch_owners c)"
  shows "ch_Next c key = reference_owner members key"
proof -
  note wf = ring_reach_wf [OF assms(1)]
  let ?scratch = "sort_key vn_key (concat (map buildVirtualNodes members))"
  have "mset ?scratch = mset (ch_nodes c)"
    using wf assms(2,3) by (simp add: ring_wf_def mset_concat_points)
  then have "ch_nodes c = ?scratch"
    using wf by (intro sorted_points_eq) (simp_all add: ring_wf_def)
  with ch_Next_spec [OF wf] show ?thesis by (simp add: reference_owner_def)
qed

theorem ch_Next_reference_witness:
  "ch_Next (ch_Remove (ch_Add (ch_Add (ch_Add NewSimpleCHGeneric ''a'') ''b'') ''c'') ''a'') ''key'' =
   reference_owner [''c'', ''b''] ''key''"
  by (rule ch_Next_reference) (auto intro!: ring_reach.intros)

text \<open>
  A lookup in a ring with at least one node returns one of its nodes, and a lookup in a ring
  without nodes returns the empty string.
\<close>

theorem ch_Next_total:
  assumes "ring_reach c"
  shows "if fmdom' (ch_owners c) = {} then ch_Next c key = []
         else ch_Next c key \<in> fmdom' (ch_owners c)"
  using ring.route_member [OF assms] ring.route_none [OF assms] by simp

theorem ch_Next_total_witness:
  "ch_Next (ch_Add NewSimpleCHGeneric ''a'') ''key'' = ''a''"
  using ch_Next_total [of "ch_Add NewSimpleCHGeneric ''a''" "''key''"]
  by (simp add: ring_new ring_add)

text \<open>
  Membership changes disturb only the keys they must: removing a node changes the owner only of
  keys that node owned, and adding a node changes the owner of a key only to the added node.
\<close>

theorem ring_minimal_disruption:
  assumes "ring_reach c"
  shows "(ch_Next c key \<noteq> name \<longrightarrow> ch_Next (ch_Remove c name) key = ch_Next c key) \<and>
    (ch_Next (ch_Add c name) key = name \<or> ch_Next (ch_Add c name) key = ch_Next c key)"
proof (cases "name \<in> fmdom' (ch_owners c)")
  case True
  then have "ch_Add c name = c" by (auto simp: ch_Add_def fmlookup_dom'_iff)
  with ch_Next_remove [OF ring_reach_wf [OF assms]] show ?thesis by simp
next
  case False
  have wf: "ring_wf (ch_Add c name)" using ring_reach_wf [OF assms] by (rule ch_Add_wf)
  have "ch_Next (ch_Remove (ch_Add c name) name) key = ch_Next c key"
    by (rule ch_Next_nodes [OF ch_Remove_Add [OF ring_reach_wf [OF assms] False]])
  then have "ch_Next (ch_Add c name) key = name \<or> ch_Next (ch_Add c name) key = ch_Next c key"
    using ch_Next_remove [OF wf, of key name] by metis
  with ch_Next_remove [OF ring_reach_wf [OF assms]] show ?thesis by simp
qed

theorem ring_minimal_disruption_witness:
  "ch_Next (ch_Add (ch_Add NewSimpleCHGeneric ''a'') ''b'') ''key'' = ''b'' \<or>
   ch_Next (ch_Add (ch_Add NewSimpleCHGeneric ''a'') ''b'') ''key'' = ch_Next (ch_Add NewSimpleCHGeneric ''a'') ''key''"
  using ring_minimal_disruption [of "ch_Add NewSimpleCHGeneric ''a''" "''key''" "''b''"]
  by (simp add: ring_new ring_add)

end
