(* ===== verification/SchedulerProxy.thy ===== *)
theory SchedulerProxy
  imports HashRing
begin

text \<open>
  Which scheduler owns a key: \<^verbatim>\<open>go/pkg/functionscaler/selfregister/proxy.go\<close>. The proxy keeps
  the registered schedulers (all of the current version, and the green and blue ones) and the hash
  ring of \<open>HashRing\<close>; a scheduler serves a key when the ring sends the key to its own name.
  Shown: under one view of the ring a key has exactly one owner.
\<close>

section \<open>Data\<close>

record InstanceInfo =
  ii_TenantID :: string
  ii_FunctionName :: string
  ii_Version :: string
  ii_InstanceName :: string
  ii_InstanceID :: string
  ii_Exclusivity :: string
  ii_Address :: string

record SchedulerProxy =
  sp_FaaSSchedulers :: "(string, InstanceInfo) gomap"
  sp_GreenFaaSSchedulers :: "(string, InstanceInfo) gomap"
  sp_BlueFaaSSchedulers :: "(string, InstanceInfo) gomap"
  sp_loadBalance :: SimpleCHGeneric

text \<open>The names a process goes by, and the discovery setting that selects one of them.\<close>

record selfIdentity =
  si_SelfInstanceID :: string
  si_SelfInstanceName :: string
  si_KeyPrefixType :: "string option" \<comment> \<open>\<^verbatim>\<open>None\<close> when \<^verbatim>\<open>SchedulerDiscovery\<close> is nil\<close>

abbreviation (input) GreenTokenType :: string where "GreenTokenType \<equiv> ''green''"
abbreviation (input) BlueTokenType :: string where "BlueTokenType \<equiv> ''blue''"
abbreviation (input) SchedulerKeyTypeModule :: string where "SchedulerKeyTypeModule \<equiv> ''module''"

section \<open>Operations\<close>

definition GetSchedulerProxyName :: "selfIdentity \<Rightarrow> string" where
  "GetSchedulerProxyName self =
     (if si_KeyPrefixType self = Some SchedulerKeyTypeModule then si_SelfInstanceName self
      else si_SelfInstanceID self)"

definition NewSchedulerProxy :: "SimpleCHGeneric \<Rightarrow> SchedulerProxy" where
  "NewSchedulerProxy lb =
     \<lparr>sp_FaaSSchedulers = fmempty, sp_GreenFaaSSchedulers = fmempty,
      sp_BlueFaaSSchedulers = fmempty, sp_loadBalance = lb\<rparr>"

definition sp_Add :: "SchedulerProxy \<Rightarrow> InstanceInfo \<Rightarrow> string \<Rightarrow> string \<Rightarrow> bool \<Rightarrow> SchedulerProxy" where
  "sp_Add sp info exclusivity tokenType currentVersionFlag =
     (let name = ii_InstanceName info;
          sp1 = (if tokenType = GreenTokenType
                 then sp\<lparr>sp_GreenFaaSSchedulers := fmupd name info (sp_GreenFaaSSchedulers sp)\<rparr>
                 else if tokenType = BlueTokenType
                 then sp\<lparr>sp_BlueFaaSSchedulers := fmupd name info (sp_BlueFaaSSchedulers sp)\<rparr>
                 else sp)
      in if \<not> currentVersionFlag then sp1
         else
           let sp2 = sp1\<lparr>sp_FaaSSchedulers := fmupd name info (sp_FaaSSchedulers sp1)\<rparr>
           in if exclusivity \<noteq> [] then sp2
              else sp2\<lparr>sp_loadBalance := ch_Add (sp_loadBalance sp2) name\<rparr>)"

definition sp_Remove :: "SchedulerProxy \<Rightarrow> string \<Rightarrow> string \<Rightarrow> bool \<Rightarrow> SchedulerProxy" where
  "sp_Remove sp instanceName tokenType versionFlag =
     (let sp1 = (if versionFlag
                 then sp\<lparr>sp_loadBalance := ch_Remove (sp_loadBalance sp) instanceName,
                         sp_FaaSSchedulers := fmdrop instanceName (sp_FaaSSchedulers sp)\<rparr>
                 else sp)
      in if tokenType = GreenTokenType
         then sp1\<lparr>sp_GreenFaaSSchedulers := fmdrop instanceName (sp_GreenFaaSSchedulers sp1)\<rparr>
         else if tokenType = BlueTokenType
         then sp1\<lparr>sp_BlueFaaSSchedulers := fmdrop instanceName (sp_BlueFaaSSchedulers sp1)\<rparr>
         else sp1)"

definition sp_Reset :: "SchedulerProxy \<Rightarrow> SchedulerProxy" where
  "sp_Reset sp = sp\<lparr>sp_loadBalance := ch_Reset (sp_loadBalance sp)\<rparr>"

definition sp_Contains :: "SchedulerProxy \<Rightarrow> string \<Rightarrow> bool" where
  "sp_Contains sp name \<longleftrightarrow> fmlookup (sp_FaaSSchedulers sp) name \<noteq> None"

text \<open>
  \<^verbatim>\<open>strings.TrimSpace(s) == ""\<close>: the string holds only white space. Go looks at runes, so the
  multi-byte encodings of the Unicode spaces are listed.
\<close>

definition byte_of :: "char \<Rightarrow> nat" where
  "byte_of c = of_char c"

fun onlySpace :: "nat list \<Rightarrow> bool" where
  "onlySpace [] = True"
| "onlySpace (a # s) =
     (if a \<in> {9, 10, 11, 12, 13, 32} then onlySpace s
      else case s of
        b # t \<Rightarrow>
          if a = 0xC2 \<and> b \<in> {0x85, 0xA0} then onlySpace t
          else (case t of
            c # u \<Rightarrow>
              if a = 0xE1 \<and> b = 0x9A \<and> c = 0x80 \<or>
                 a = 0xE2 \<and> b = 0x80 \<and> (0x80 \<le> c \<and> c \<le> 0x8A \<or> c \<in> {0xA8, 0xA9, 0xAF}) \<or>
                 a = 0xE2 \<and> b = 0x81 \<and> c = 0x9F \<or>
                 a = 0xE3 \<and> b = 0x80 \<and> c = 0x80
              then onlySpace u else False
          | [] \<Rightarrow> False)
      | [] \<Rightarrow> False)"

definition trimsToEmpty :: "string \<Rightarrow> bool" where
  "trimsToEmpty s \<longleftrightarrow> onlySpace (map byte_of s)"

definition selectHashOwner :: "SchedulerProxy \<Rightarrow> string \<Rightarrow> InstanceInfo option" where
  "selectHashOwner sp hashKey =
     (let name = ch_Next (sp_loadBalance sp) hashKey
      in if trimsToEmpty name then None
         else fmlookup (sp_FaaSSchedulers sp) name)"

definition CheckHashOwner :: "selfIdentity \<Rightarrow> SchedulerProxy \<Rightarrow> string \<Rightarrow> string \<times> bool" where
  "CheckHashOwner self sp hashKey =
     (case selectHashOwner sp hashKey of
        None \<Rightarrow> ([], False)
      | Some info \<Rightarrow>
          if ii_InstanceName info \<noteq> GetSchedulerProxyName self then (ii_InstanceID info, False)
          else (ii_InstanceID info, True))"

definition CheckFuncOwner :: "selfIdentity \<Rightarrow> SchedulerProxy \<Rightarrow> string \<Rightarrow> string \<times> bool" where
  "CheckFuncOwner self sp funcKey = CheckHashOwner self sp funcKey"

definition IsFuncOwner :: "selfIdentity \<Rightarrow> SchedulerProxy \<Rightarrow> string \<Rightarrow> bool" where
  "IsFuncOwner self sp funcKey = snd (CheckFuncOwner self sp funcKey)"

definition FindHashOwner :: "selfIdentity \<Rightarrow> SchedulerProxy \<Rightarrow> string \<Rightarrow> InstanceInfo option \<times> bool" where
  "FindHashOwner self sp hashKey =
     (case selectHashOwner sp hashKey of
        None \<Rightarrow> (None, False)
      | Some info \<Rightarrow> (Some info, ii_InstanceName info = GetSchedulerProxyName self))"

definition FindByInstanceID ::
  "((string, InstanceInfo) gomap \<Rightarrow> string list) \<Rightarrow> SchedulerProxy \<Rightarrow> string \<Rightarrow> InstanceInfo option" where
  "FindByInstanceID ord sp instanceID =
     find (\<lambda>info. ii_InstanceID info = instanceID)
       (map (\<lambda>k. the (fmlookup (sp_FaaSSchedulers sp) k)) (ord (sp_FaaSSchedulers sp)))"

text \<open>
  One pass of the polling loop of \<^verbatim>\<open>WaitForHash\<close>: whether enough schedulers are registered for the
  loop to return.
\<close>

definition WaitForHash_done :: "SchedulerProxy \<Rightarrow> int \<Rightarrow> bool" where
  "WaitForHash_done sp num \<longleftrightarrow> num = 0 \<or> \<not> int (card (fmdom' (sp_FaaSSchedulers sp))) < num"

section \<open>Reachable proxies\<close>

inductive sp_reach :: "SchedulerProxy \<Rightarrow> bool" where
  sp_new: "sp_reach (NewSchedulerProxy NewSimpleCHGeneric)"
| sp_add: "sp_reach sp \<Longrightarrow> sp_reach (sp_Add sp info exclusivity tokenType current)"
| sp_remove: "sp_reach sp \<Longrightarrow> sp_reach (sp_Remove sp name tokenType versionFlag)"
| sp_reset: "sp_reach sp \<Longrightarrow> sp_reach (sp_Reset sp)"

abbreviation ring_members :: "SchedulerProxy \<Rightarrow> string set" where
  "ring_members sp \<equiv> fmdom' (ch_owners (sp_loadBalance sp))"

text \<open>
  The invariant: the ring is well formed, every node of the ring is a registered scheduler, and
  a scheduler is registered under its own name.
\<close>

definition sp_inv :: "SchedulerProxy \<Rightarrow> bool" where
  "sp_inv sp \<longleftrightarrow> ring_reach (sp_loadBalance sp) \<and>
     ring_members sp \<subseteq> fmdom' (sp_FaaSSchedulers sp) \<and>
     (\<forall>name info. fmlookup (sp_FaaSSchedulers sp) name = Some info \<longrightarrow> ii_InstanceName info = name)"

lemma sp_inv_new: "sp_inv (NewSchedulerProxy NewSimpleCHGeneric)"
  by (simp add: sp_inv_def NewSchedulerProxy_def ring_new)

lemma sp_inv_add: "sp_inv sp \<Longrightarrow> sp_inv (sp_Add sp info exclusivity tokenType current)"
  by (auto simp: sp_inv_def sp_Add_def Let_def ring_add)

lemma sp_inv_remove: "sp_inv sp \<Longrightarrow> sp_inv (sp_Remove sp name tokenType versionFlag)"
  by (auto simp: sp_inv_def sp_Remove_def Let_def ring_remove split: if_splits)

lemma sp_inv_reset: "sp_inv sp \<Longrightarrow> sp_inv (sp_Reset sp)"
  by (auto simp: sp_inv_def sp_Reset_def ring_reset ch_Reset_def)

lemma sp_reach_inv: "sp_reach sp \<Longrightarrow> sp_inv sp"
  by (induction rule: sp_reach.induct)
    (simp_all add: sp_inv_new sp_inv_add sp_inv_remove sp_inv_reset)

lemma selectHashOwner_name:
  assumes "sp_inv sp" and "selectHashOwner sp k = Some info"
  shows "ii_InstanceName info = ch_Next (sp_loadBalance sp) k"
  using assms by (auto simp: sp_inv_def selectHashOwner_def Let_def split: if_splits)

lemma selectHashOwner_defined:
  assumes "sp_inv sp" and "ring_members sp \<noteq> {}" and "\<forall>name\<in>ring_members sp. \<not> trimsToEmpty name"
  shows "\<exists>info. selectHashOwner sp k = Some info"
proof -
  have "ch_Next (sp_loadBalance sp) k \<in> ring_members sp"
    using assms by (intro ring.route_member) (auto simp: sp_inv_def)
  with assms show ?thesis
    by (auto simp: sp_inv_def selectHashOwner_def Let_def fmlookup_dom'_iff)
qed

lemma CheckHashOwner_owned:
  "sp_inv sp \<Longrightarrow> snd (CheckHashOwner self sp k) \<Longrightarrow>
     ch_Next (sp_loadBalance sp) k = GetSchedulerProxyName self"
  using selectHashOwner_name by (auto simp: CheckHashOwner_def split: option.splits if_splits)

text \<open>
  Two schedulers whose proxies hold the same ring members never both consider themselves the
  owner of a key, whatever the order in which each of them learned of the members.
\<close>

theorem hash_owner_unique:
  assumes "sp_reach sp1" and "sp_reach sp2" and "ring_members sp1 = ring_members sp2"
    and "snd (CheckHashOwner self1 sp1 key)" and "snd (CheckHashOwner self2 sp2 key)"
  shows "GetSchedulerProxyName self1 = GetSchedulerProxyName self2"
proof (rule ring.single_owner)
  show "ring_reach (sp_loadBalance sp1)" "ring_reach (sp_loadBalance sp2)"
    using assms(1,2) [THEN sp_reach_inv] by (simp_all add: sp_inv_def)
  show "ring_members sp1 = ring_members sp2" by fact
  show "ch_Next (sp_loadBalance sp1) key = GetSchedulerProxyName self1"
    "ch_Next (sp_loadBalance sp2) key = GetSchedulerProxyName self2"
    using assms by (auto intro: CheckHashOwner_owned sp_reach_inv)
qed

text \<open>
  When the ring has members and none of them has a blank name, every key has an owner: it is
  a registered scheduler whose name is in the ring, a scheduler with that name recognises itself
  as the owner, and every other scheduler is told the identifier of that owner.
\<close>

theorem hash_owner_exists:
  assumes "sp_reach sp" and "ring_members sp \<noteq> {}"
    and "\<forall>name\<in>ring_members sp. \<not> trimsToEmpty name"
  shows "\<exists>info. fmlookup (sp_FaaSSchedulers sp) (ii_InstanceName info) = Some info \<and>
    ii_InstanceName info \<in> ring_members sp \<and>
    (\<forall>self. CheckHashOwner self sp key =
       (ii_InstanceID info, GetSchedulerProxyName self = ii_InstanceName info))"
proof -
  have inv: "sp_inv sp" using assms(1) by (rule sp_reach_inv)
  obtain info where info: "selectHashOwner sp key = Some info"
    using selectHashOwner_defined [OF inv assms(2,3)] by blast
  have name: "ii_InstanceName info = ch_Next (sp_loadBalance sp) key"
    by (rule selectHashOwner_name [OF inv info])
  have "ch_Next (sp_loadBalance sp) key \<in> ring_members sp"
    using inv assms(2) by (intro ring.route_member) (auto simp: sp_inv_def)
  moreover have "fmlookup (sp_FaaSSchedulers sp) (ii_InstanceName info) = Some info"
    using info name by (auto simp: selectHashOwner_def Let_def split: if_splits)
  ultimately show ?thesis using info name by (intro exI [of _ info]) (auto simp: CheckHashOwner_def)
qed

section \<open>Witnesses\<close>

definition sample_info :: "string \<Rightarrow> InstanceInfo" where
  "sample_info name =
     \<lparr>ii_TenantID = ''t'', ii_FunctionName = ''faasscheduler'', ii_Version = ''1'',
      ii_InstanceName = name, ii_InstanceID = name @ ''-id'', ii_Exclusivity = [],
      ii_Address = name @ '':80''\<rparr>"

definition sample_proxy :: SchedulerProxy where
  "sample_proxy =
     sp_Add (NewSchedulerProxy NewSimpleCHGeneric) (sample_info ''s1'') [] GreenTokenType True"

definition sample_self :: "string \<Rightarrow> selfIdentity" where
  "sample_self name =
     \<lparr>si_SelfInstanceID = name, si_SelfInstanceName = [], si_KeyPrefixType = None\<rparr>"

lemma sample_proxy_reach: "sp_reach sample_proxy"
  unfolding sample_proxy_def by (rule sp_add [OF sp_new])

lemma sample_proxy_members: "ring_members sample_proxy = {''s1''}"
  by (simp add: sample_proxy_def sp_Add_def NewSchedulerProxy_def sample_info_def Let_def)

lemma sample_proxy_next: "ch_Next (sp_loadBalance sample_proxy) key = ''s1''"
  using ring.route_member [of "sp_loadBalance sample_proxy" key] sample_proxy_members
    sp_reach_inv [OF sample_proxy_reach] by (simp add: sp_inv_def)

lemma sample_name_visible: "\<not> trimsToEmpty ''s1''"
  by (simp add: trimsToEmpty_def byte_of_def)

lemma sample_proxy_owner:
  "CheckHashOwner (sample_self me) sample_proxy key = (''s1-id'', me = ''s1'')"
proof -
  have "selectHashOwner sample_proxy key = Some (sample_info ''s1'')"
    using sample_name_visible
    by (simp add: selectHashOwner_def sample_proxy_next)
      (simp add: sample_proxy_def sp_Add_def NewSchedulerProxy_def sample_info_def Let_def)
  then show ?thesis
    by (auto simp: CheckHashOwner_def sample_self_def GetSchedulerProxyName_def sample_info_def)
qed

theorem hash_owner_unique_witness:
  "snd (CheckHashOwner (sample_self ''s1'') sample_proxy ''key'') \<and>
   GetSchedulerProxyName (sample_self ''s1'') = GetSchedulerProxyName (sample_self ''s1'')"
  using hash_owner_unique [OF sample_proxy_reach sample_proxy_reach refl,
      of "sample_self ''s1''" "''key''" "sample_self ''s1''"] sample_proxy_owner
  by simp

theorem hash_owner_exists_witness:
  "\<exists>info. fmlookup (sp_FaaSSchedulers sample_proxy) (ii_InstanceName info) = Some info \<and>
    ii_InstanceName info = ''s1''"
  using hash_owner_exists [OF sample_proxy_reach, of "''key''"] sample_proxy_members sample_name_visible
  by auto

end
