(* ===== verification/SessionCoord.thy ===== *)
theory SessionCoord
  imports GoHash "HOL-Library.Sublist"
begin

text \<open>
  The external session store and its coordinator
  (\<^verbatim>\<open>go/pkg/functionscaler/session/{sessionstore,factory,coord,singleflight}.go\<close>): where a session
  record is stored, what the two backends do with it, the bounded asynchronous write queue with its
  single worker, and the de-duplicated reads. The key-value services behind the backends (the Redis
  and data-system clients) and the JSON encoding of a record are parameters.

  The worker runs beside the callers, so the queue is a step relation: what is enqueued is written
  in order and at most once, and nothing is written any more once \<^verbatim>\<open>stop\<close> has returned.
\<close>

section \<open>Data\<close>

record StoreRecord =
  sr_InstanceID :: string
  sr_SchedulerID :: string
  sr_SessionID :: string
  sr_SessionCtxID :: string
  sr_SessionTTL :: int
  sr_Concurrency :: int
  sr_UpdatedAtUnixNs :: int

record DSOptionConfig =
  ds_TenantID :: string
  ds_NodeIP :: string
  ds_Cluster :: string
  ds_WriteMode :: int
  ds_TTLSecond :: "32 word"

record Config =
  cf_Backend :: string
  cf_Cluster :: string
  cf_FuncCacheKey :: string
  cf_SchedulerID :: string
  cf_BackendTTLSeconds :: int
  cf_DSOption :: DSOptionConfig

datatype Store =
    redisStore Config duration
  | dataSystemStore Config
  | NoopStore

datatype store_error =
    ErrStoreDisabled
  | SessionKeyEmpty
  | InvalidBackend string
  | MarshalFailed
  | BackendFailed string

abbreviation (input) BackendNoop :: string where "BackendNoop \<equiv> ''noop''"
abbreviation (input) BackendDataSystem :: string where "BackendDataSystem \<equiv> ''datasystem''"
abbreviation (input) BackendRedis :: string where "BackendRedis \<equiv> ''redis''"
abbreviation (input) defaultRecoveryWindowSeconds :: int where "defaultRecoveryWindowSeconds \<equiv> 86400"
abbreviation (input) hashMaxLength :: nat where "hashMaxLength \<equiv> 16"

text \<open>
  A key-value service: whether its client is set up, and writing, reading and deleting a key of the
  service's state \<open>'w\<close>. A reply is a value, a miss, or an error.
\<close>

datatype kv_reply = KVValue string | KVNil | KVError string

record 'w kvClient =
  kv_ready :: "'w \<Rightarrow> bool"
  kv_set :: "'w \<Rightarrow> string \<Rightarrow> string \<Rightarrow> duration \<Rightarrow> string option \<times> 'w"
  kv_get :: "'w \<Rightarrow> string \<Rightarrow> kv_reply"
  kv_delete :: "'w \<Rightarrow> string \<Rightarrow> string option \<times> 'w"

text \<open>The JSON encoding of a record: \<^verbatim>\<open>json.Marshal\<close> and \<^verbatim>\<open>json.Unmarshal\<close>.\<close>

record recordCodec =
  rc_marshal :: "StoreRecord \<Rightarrow> string option"
  rc_unmarshal :: "string \<Rightarrow> StoreRecord option"

section \<open>Stores\<close>

definition session_New :: "Config \<Rightarrow> store_error + Store" where
  "session_New cfg =
     (if cf_Backend cfg = BackendDataSystem then
        Inr (dataSystemStore
          (if ds_TTLSecond (cf_DSOption cfg) \<le> 0
           then cfg\<lparr>cf_DSOption := (cf_DSOption cfg)\<lparr>ds_TTLSecond := word_of_int defaultRecoveryWindowSeconds\<rparr>\<rparr>
           else cfg))
      else if cf_Backend cfg = BackendRedis then
        let ttl = (if cf_BackendTTLSeconds cfg \<le> 0 then defaultRecoveryWindowSeconds
                   else cf_BackendTTLSeconds cfg)
        in Inr (redisStore cfg (ttl * second))
      else Inl (InvalidBackend (cf_Backend cfg)))"

definition IsRedisBackend :: "string \<Rightarrow> store_error + bool" where
  "IsRedisBackend backend =
     (if backend = BackendDataSystem then Inr False
      else if backend = BackendRedis then Inr True
      else Inl (InvalidBackend backend))"

text \<open>\<^verbatim>\<open>MakeStore\<close>: the configuration is the global one; a failed construction falls back to the no-op store.\<close>

record storeSettings =
  st_Backend :: string
  st_BackendTTLSeconds :: int
  st_CurrentCluster :: string
  st_UploadWriteMode :: int
  st_PodIP :: string
  st_HostIP :: string

definition MakeStore :: "storeSettings \<Rightarrow> string \<Rightarrow> Store" where
  "MakeStore g funcCacheKey =
     (case session_New
        \<lparr>cf_Backend = st_Backend g, cf_Cluster = st_CurrentCluster g, cf_FuncCacheKey = funcCacheKey,
         cf_SchedulerID = st_PodIP g, cf_BackendTTLSeconds = st_BackendTTLSeconds g,
         cf_DSOption = \<lparr>ds_TenantID = ''0'', ds_NodeIP = st_HostIP g, ds_Cluster = st_CurrentCluster g,
                        ds_WriteMode = st_UploadWriteMode g,
                        ds_TTLSecond = word_of_int (st_BackendTTLSeconds g)\<rparr>\<rparr> of
        Inl _ \<Rightarrow> NoopStore
      | Inr store \<Rightarrow> store)"

fun store_Backend :: "Store \<Rightarrow> string" where
  "store_Backend (redisStore _ _) = BackendRedis"
| "store_Backend (dataSystemStore _) = BackendDataSystem"
| "store_Backend NoopStore = BackendNoop"

definition hash16 :: "string \<Rightarrow> string" where
  "hash16 s = take hashMaxLength (hexEncode (sha256 (bytes_of s)))"

definition physicalKey :: "Config \<Rightarrow> string \<Rightarrow> string" where
  "physicalKey cfg sessionKey =
     ''faasscheduler:session:'' @ hash16 (cf_FuncCacheKey cfg) @ '':'' @ hash16 (cf_Cluster cfg) @
     '':'' @ hash16 sessionKey"

definition fillRecord :: "Config \<Rightarrow> time \<Rightarrow> StoreRecord \<Rightarrow> StoreRecord" where
  "fillRecord cfg now rec =
     (let r1 = (if sr_SchedulerID rec = [] then rec\<lparr>sr_SchedulerID := cf_SchedulerID cfg\<rparr> else rec)
      in r1\<lparr>sr_UpdatedAtUnixNs := now\<rparr>)"

definition ds_ttl :: "Config \<Rightarrow> duration" where
  "ds_ttl cfg = uint (ds_TTLSecond (cf_DSOption cfg)) * second"

definition kv_write ::
  "'w kvClient \<Rightarrow> 'w \<Rightarrow> string \<Rightarrow> string \<Rightarrow> duration \<Rightarrow> store_error option \<times> 'w" where
  "kv_write kv w key value ttl =
     (case kv_set kv w key value ttl of (e, w') \<Rightarrow> (map_option BackendFailed e, w'))"

definition kv_erase :: "'w kvClient \<Rightarrow> 'w \<Rightarrow> string \<Rightarrow> store_error option \<times> 'w" where
  "kv_erase kv w key = (case kv_delete kv w key of (e, w') \<Rightarrow> (map_option BackendFailed e, w'))"

fun store_Save ::
  "'w kvClient \<Rightarrow> recordCodec \<Rightarrow> time \<Rightarrow> Store \<Rightarrow> 'w \<Rightarrow> string \<Rightarrow> StoreRecord \<Rightarrow> store_error option \<times> 'w"
where
  "store_Save kv codec now (redisStore cfg ttl) w sessionKey rec =
     (if \<not> kv_ready kv w then (Some ErrStoreDisabled, w)
      else if sessionKey = [] then (Some SessionKeyEmpty, w)
      else case rc_marshal codec (fillRecord cfg now rec) of
             None \<Rightarrow> (Some MarshalFailed, w)
           | Some value \<Rightarrow> kv_write kv w (physicalKey cfg sessionKey) value ttl)"
| "store_Save kv codec now (dataSystemStore cfg) w sessionKey rec =
     (if sessionKey = [] then (Some SessionKeyEmpty, w)
      else case rc_marshal codec (fillRecord cfg now rec) of
             None \<Rightarrow> (Some MarshalFailed, w)
           | Some value \<Rightarrow> kv_write kv w (physicalKey cfg sessionKey) value (ds_ttl cfg))"
| "store_Save kv codec now NoopStore w sessionKey rec = (None, w)"

text \<open>A reply decoded: a miss and an undecodable value are both ``no record''.\<close>

definition decode_reply :: "recordCodec \<Rightarrow> kv_reply \<Rightarrow> store_error + StoreRecord option" where
  "decode_reply codec r =
     (case r of KVNil \<Rightarrow> Inr None
      | KVError e \<Rightarrow> Inl (BackendFailed e)
      | KVValue v \<Rightarrow> Inr (rc_unmarshal codec v))"

fun store_Get ::
  "'w kvClient \<Rightarrow> recordCodec \<Rightarrow> Store \<Rightarrow> 'w \<Rightarrow> string \<Rightarrow> store_error + StoreRecord option"
where
  "store_Get kv codec (redisStore cfg ttl) w sessionKey =
     (if \<not> kv_ready kv w then Inl ErrStoreDisabled
      else if sessionKey = [] then Inl SessionKeyEmpty
      else decode_reply codec (kv_get kv w (physicalKey cfg sessionKey)))"
| "store_Get kv codec (dataSystemStore cfg) w sessionKey =
     (if sessionKey = [] then Inl SessionKeyEmpty
      else case kv_get kv w (physicalKey cfg sessionKey) of
             KVValue v \<Rightarrow> if v = [] then Inr None else decode_reply codec (KVValue v)
           | r \<Rightarrow> decode_reply codec r)"
| "store_Get kv codec NoopStore w sessionKey = Inr None"

fun store_Delete :: "'w kvClient \<Rightarrow> Store \<Rightarrow> 'w \<Rightarrow> string \<Rightarrow> store_error option \<times> 'w" where
  "store_Delete kv (redisStore cfg ttl) w sessionKey =
     (if \<not> kv_ready kv w then (Some ErrStoreDisabled, w)
      else if sessionKey = [] then (Some SessionKeyEmpty, w)
      else kv_erase kv w (physicalKey cfg sessionKey))"
| "store_Delete kv (dataSystemStore cfg) w sessionKey =
     (if sessionKey = [] then (Some SessionKeyEmpty, w)
      else kv_erase kv w (physicalKey cfg sessionKey))"
| "store_Delete kv NoopStore w sessionKey = (None, w)"

lemma length_hash16 [simp]: "length (hash16 s) = 16"
  by (simp add: hash16_def)

lemma hash16_chars: "c \<in> set (hash16 s) \<Longrightarrow> of_char c \<in> {48..57::nat} \<union> {97..102}"
  unfolding hash16_def by (rule hexEncode_chars [of c "sha256 (bytes_of s)"]) (meson in_set_takeD)

text \<open>The characters a data-system key may hold: \<^verbatim>\<open>^[a-zA-Z0-9\-_!@#%\^\*\(\)\+\=\:;]*$\<close>.\<close>

definition ds_key_char :: "char \<Rightarrow> bool" where
  "ds_key_char c \<longleftrightarrow>
     (let n = of_char c :: nat in
      48 \<le> n \<and> n \<le> 57 \<or> 65 \<le> n \<and> n \<le> 90 \<or> 97 \<le> n \<and> n \<le> 122) \<or>
     c \<in> set ''-_!@#%^*()+=:;''"

lemma hash16_key_char: "c \<in> set (hash16 s) \<Longrightarrow> ds_key_char c"
  using hash16_chars [of c s] by (auto simp: ds_key_char_def)

text \<open>
  C26: Every physical key has exactly 72 bytes and only characters the data system accepts, whatever
  bytes the function key, the cluster name and the session key contain.
\<close>

theorem physicalKey_wellformed:
  "length (physicalKey cfg sessionKey) = 72 \<and> list_all ds_key_char (physicalKey cfg sessionKey)"
proof
  show "length (physicalKey cfg sessionKey) = 72" by (simp add: physicalKey_def)
  have "list_all ds_key_char ''faasscheduler:session:''" "ds_key_char CHR '':''"
    by (simp_all add: ds_key_char_def)
  moreover have "list_all ds_key_char (hash16 s)" for s
    by (simp add: list_all_iff hash16_key_char)
  ultimately show "list_all ds_key_char (physicalKey cfg sessionKey)"
    unfolding physicalKey_def list_all_append by simp
qed

lemma MakeStore_noop_iff:
  "MakeStore g fk = NoopStore \<longleftrightarrow> st_Backend g \<notin> {BackendRedis, BackendDataSystem}"
  by (auto simp: MakeStore_def session_New_def Let_def)

text \<open>What the coordinator relies on of a key-value service, and of the JSON encoding.\<close>

definition kv_lawful :: "'w kvClient \<Rightarrow> bool" where
  "kv_lawful kv \<longleftrightarrow>
     (\<forall>w k v t w'. kv_set kv w k v t = (None, w') \<longrightarrow>
        kv_get kv w' k = KVValue v \<and> (\<forall>j. j \<noteq> k \<longrightarrow> kv_get kv w' j = kv_get kv w j) \<and>
        kv_ready kv w' = kv_ready kv w) \<and>
     (\<forall>w k w'. kv_delete kv w k = (None, w') \<longrightarrow>
        kv_get kv w' k = KVNil \<and> (\<forall>j. j \<noteq> k \<longrightarrow> kv_get kv w' j = kv_get kv w j) \<and>
        kv_ready kv w' = kv_ready kv w)"

definition codec_lawful :: "recordCodec \<Rightarrow> bool" where
  "codec_lawful codec \<longleftrightarrow>
     (\<forall>r v. rc_marshal codec r = Some v \<longrightarrow> v \<noteq> [] \<and> rc_unmarshal codec v = Some r)"

text \<open>
  On a lawful key-value service and encoding, a record saved without error is what a later Get
  of the same session key returns, with the scheduler and the time filled in; Delete without error
  makes Get miss. Both hold for the Redis and for the data-system backend.
\<close>

theorem store_roundtrip:
  assumes "kv_lawful kv" and "codec_lawful codec" and "store \<noteq> NoopStore"
  shows "(store_Save kv codec now store w key rec = (None, w') \<longrightarrow>
            (\<exists>cfg. store_Get kv codec store w' key = Inr (Some (fillRecord cfg now rec)))) \<and>
         (store_Delete kv store w key = (None, w') \<longrightarrow> store_Get kv codec store w' key = Inr None)"
proof (cases store)
  case (redisStore cfg ttl)
  with assms show ?thesis
    by (auto simp: kv_lawful_def codec_lawful_def kv_write_def kv_erase_def decode_reply_def
        split: if_splits option.splits prod.splits intro!: exI [of _ cfg])
next
  case (dataSystemStore cfg)
  with assms show ?thesis
    by (auto simp: kv_lawful_def codec_lawful_def kv_write_def kv_erase_def decode_reply_def
        split: if_splits option.splits prod.splits intro!: exI [of _ cfg])
qed (use assms in simp)

definition sample_record :: StoreRecord where
  "sample_record = \<lparr>sr_InstanceID = ''i1'', sr_SchedulerID = ''10.0.0.1'', sr_SessionID = ''s'',
     sr_SessionCtxID = [], sr_SessionTTL = 60, sr_Concurrency = 1, sr_UpdatedAtUnixNs = 7\<rparr>"

definition sample_codec :: recordCodec where
  "sample_codec = \<lparr>rc_marshal = (\<lambda>r. if r = sample_record then Some ''{}'' else None),
     rc_unmarshal = (\<lambda>v. if v = ''{}'' then Some sample_record else None)\<rparr>"

definition sample_kv :: "(string, string) gomap kvClient" where
  "sample_kv = \<lparr>kv_ready = (\<lambda>_. True), kv_set = (\<lambda>w k v t. (None, fmupd k v w)),
     kv_get = (\<lambda>w k. case fmlookup w k of None \<Rightarrow> KVNil | Some v \<Rightarrow> KVValue v),
     kv_delete = (\<lambda>w k. (None, fmdrop k w))\<rparr>"

definition sample_config :: Config where
  "sample_config = \<lparr>cf_Backend = BackendRedis, cf_Cluster = ''c'', cf_FuncCacheKey = ''t/f/1'',
     cf_SchedulerID = ''10.0.0.1'', cf_BackendTTLSeconds = 0,
     cf_DSOption = \<lparr>ds_TenantID = ''0'', ds_NodeIP = [], ds_Cluster = ''c'', ds_WriteMode = 0,
                    ds_TTLSecond = 0\<rparr>\<rparr>"

theorem store_roundtrip_witness:
  "let store = redisStore sample_config (86400 * second);
       saved = store_Save sample_kv sample_codec 7 store fmempty ''s'' sample_record in
   fst saved = None \<and>
   (\<exists>cfg. store_Get sample_kv sample_codec store (snd saved) ''s'' =
      Inr (Some (fillRecord cfg 7 sample_record))) \<and>
   store_Get sample_kv sample_codec store (snd (store_Delete sample_kv store (snd saved) ''s'')) ''s'' =
      Inr None"
proof -
  let ?st = "redisStore sample_config (86400 * second)"
  have laws: "kv_lawful sample_kv" "codec_lawful sample_codec" "?st \<noteq> NoopStore"
    by (auto simp: kv_lawful_def codec_lawful_def sample_kv_def sample_codec_def split: if_splits)
  have save: "store_Save sample_kv sample_codec 7 ?st fmempty ''s'' sample_record =
      (None, fmupd (physicalKey sample_config ''s'') ''{}'' fmempty)"
    by (simp add: sample_kv_def sample_codec_def kv_write_def fillRecord_def sample_record_def Let_def)
  have del: "store_Delete sample_kv ?st w ''s'' = (None, fmdrop (physicalKey sample_config ''s'') w)" for w
    by (simp add: sample_kv_def kv_erase_def)
  show ?thesis
    using store_roundtrip [OF laws, THEN conjunct1, rule_format, OF save]
      store_roundtrip [OF laws, THEN conjunct2, rule_format, OF del]
    by (simp only: Let_def save del fst_conv snd_conv simp_thms)
qed

section \<open>The asynchronous write queue\<close>

datatype asyncStoreOp = SaveOp string StoreRecord | DeleteOp string

fun op_key :: "asyncStoreOp \<Rightarrow> string" where
  "op_key (SaveOp k _) = k"
| "op_key (DeleteOp k) = k"

text \<open>
  The queue with its worker. \<open>q_inflight\<close> is the operation the worker has received and not
  finished; \<open>q_log\<close> lists the operations the worker has carried out on the store, oldest first, and
  \<open>q_accepted\<close> the operations \<^verbatim>\<open>enqueue\<close> has accepted.
\<close>

record asyncStoreQueue =
  q_queue :: "asyncStoreOp list"
  q_cancelled :: bool
  q_started :: bool
  q_done :: bool
  q_inflight :: "asyncStoreOp option"
  q_enqueued :: int
  q_processed :: int
  q_dropped :: "asyncStoreOp list"
  q_log :: "asyncStoreOp list"
  q_accepted :: "asyncStoreOp list"

abbreviation (input) asyncQueueSize :: nat where "asyncQueueSize \<equiv> 1024"

definition newAsyncStoreQueue :: asyncStoreQueue where
  "newAsyncStoreQueue =
     \<lparr>q_queue = [], q_cancelled = False, q_started = False, q_done = False, q_inflight = None,
      q_enqueued = 0, q_processed = 0, q_dropped = [], q_log = [], q_accepted = []\<rparr>"

text \<open>\<^verbatim>\<open>enqueue\<close>: launching the worker on first use, then the part under the mutex.\<close>

definition launch_worker :: "asyncStoreQueue \<Rightarrow> asyncStoreQueue" where
  "launch_worker q = q\<lparr>q_started := True\<rparr>"

definition enqueue_locked :: "asyncStoreOp \<Rightarrow> asyncStoreQueue \<Rightarrow> asyncStoreQueue" where
  "enqueue_locked op q =
     (if q_cancelled q then q
      else if length (q_queue q) < asyncQueueSize
      then q\<lparr>q_queue := q_queue q @ [op], q_enqueued := q_enqueued q + 1,
             q_accepted := q_accepted q @ [op]\<rparr>
      else q\<lparr>q_dropped := q_dropped q @ [op]\<rparr>)"

definition enqueue :: "asyncStoreOp \<Rightarrow> asyncStoreQueue \<Rightarrow> asyncStoreQueue" where
  "enqueue op q = enqueue_locked op (launch_worker q)"

text \<open>The worker: receive an operation, finish it (\<^verbatim>\<open>process\<close>), exit.\<close>

definition worker_take :: "asyncStoreQueue \<Rightarrow> asyncStoreQueue" where
  "worker_take q = (case q_queue q of [] \<Rightarrow> q | op # rest \<Rightarrow> q\<lparr>q_queue := rest, q_inflight := Some op\<rparr>)"

definition process :: "asyncStoreQueue \<Rightarrow> asyncStoreQueue" where
  "process q =
     (case q_inflight q of
        None \<Rightarrow> q
      | Some op \<Rightarrow> q\<lparr>q_inflight := None, q_log := q_log q @ [op], q_processed := q_processed q + 1\<rparr>)"

definition worker_exit :: "asyncStoreQueue \<Rightarrow> asyncStoreQueue" where
  "worker_exit q = q\<lparr>q_done := True\<rparr>"

definition queue_cancel :: "asyncStoreQueue \<Rightarrow> asyncStoreQueue" where
  "queue_cancel q = q\<lparr>q_cancelled := True\<rparr>"

text \<open>\<^verbatim>\<open>stop\<close> returns when no worker was started or the worker has closed \<^verbatim>\<open>done\<close>.\<close>

definition stop_returned :: "asyncStoreQueue \<Rightarrow> bool" where
  "stop_returned q \<longleftrightarrow> q_cancelled q \<and> (q_started q \<longrightarrow> q_done q)"

text \<open>\<^verbatim>\<open>drainRemaining\<close>: the worker finishes what is still queued.\<close>

fun drain_ops :: "asyncStoreOp list \<Rightarrow> asyncStoreQueue \<Rightarrow> asyncStoreQueue" where
  "drain_ops [] q = q"
| "drain_ops (_ # rest) q = drain_ops rest (process (worker_take q))"

definition drainRemaining :: "asyncStoreQueue \<Rightarrow> asyncStoreQueue" where
  "drainRemaining q = drain_ops (q_queue q) q"

text \<open>
  \<^verbatim>\<open>stop\<close> as its caller sees it: cancel, and, when a worker runs, let it finish the operation it
  is in, drain the queue and exit.
\<close>

definition queue_stop :: "asyncStoreQueue \<Rightarrow> asyncStoreQueue" where
  "queue_stop q =
     (let q1 = queue_cancel q
      in if q_started q1 \<and> \<not> q_done q1 then worker_exit (drainRemaining (process q1)) else q1)"

text \<open>Callers and worker interleaved.\<close>

inductive queue_step :: "asyncStoreQueue \<Rightarrow> asyncStoreQueue \<Rightarrow> bool" where
  qs_launch: "queue_step q (launch_worker q)"
| qs_send: "q_started q \<Longrightarrow> queue_step q (enqueue_locked op q)"
| qs_take: "q_started q \<Longrightarrow> \<not> q_done q \<Longrightarrow> q_inflight q = None \<Longrightarrow> q_queue q \<noteq> [] \<Longrightarrow>
    queue_step q (worker_take q)"
| qs_process: "q_inflight q \<noteq> None \<Longrightarrow> queue_step q (process q)"
| qs_exit: "q_started q \<Longrightarrow> q_cancelled q \<Longrightarrow> q_inflight q = None \<Longrightarrow> q_queue q = [] \<Longrightarrow>
    queue_step q (worker_exit q)"
| qs_cancel: "queue_step q (queue_cancel q)"

inductive_simps queue_step_simps: "queue_step q q'"

definition queue_reach :: "asyncStoreQueue \<Rightarrow> bool" where
  "queue_reach q \<longleftrightarrow> queue_step\<^sup>*\<^sup>* newAsyncStoreQueue q"

lemmas queue_defs = launch_worker_def enqueue_locked_def worker_take_def process_def worker_exit_def
  queue_cancel_def

text \<open>
  The invariant: accepted operations are, in order, the written ones, the one in flight and the
  queued ones; the counters count them; the bound holds; an unstarted or finished worker holds
  nothing.
\<close>

definition pending_ops :: "asyncStoreQueue \<Rightarrow> asyncStoreOp list" where
  "pending_ops q = (case q_inflight q of None \<Rightarrow> [] | Some op \<Rightarrow> [op]) @ q_queue q"

definition queue_inv :: "asyncStoreQueue \<Rightarrow> bool" where
  "queue_inv q \<longleftrightarrow> q_accepted q = q_log q @ pending_ops q \<and>
     q_enqueued q = int (length (q_accepted q)) \<and> q_processed q = int (length (q_log q)) \<and>
     length (q_queue q) \<le> asyncQueueSize \<and>
     (\<not> q_started q \<longrightarrow> pending_ops q = []) \<and> (q_done q \<longrightarrow> q_cancelled q \<and> pending_ops q = [])"

lemma queue_inv_new: "queue_inv newAsyncStoreQueue"
  by (simp add: queue_inv_def newAsyncStoreQueue_def pending_ops_def)

lemma queue_inv_step: "queue_step q q' \<Longrightarrow> queue_inv q \<Longrightarrow> queue_inv q'"
  by (induction rule: queue_step.induct)
    (auto simp: queue_inv_def pending_ops_def queue_defs split: option.splits list.splits)

lemma queue_reach_inv: "queue_reach q \<Longrightarrow> queue_inv q"
  unfolding queue_reach_def
  by (induction rule: rtranclp_induct) (auto intro: queue_inv_new queue_inv_step)

text \<open>After stop has returned, no step writes.\<close>

lemma stopped_step:
  assumes "queue_step q q'" "queue_inv q" "q_cancelled q" "pending_ops q = []"
  shows "q_cancelled q' \<and> pending_ops q' = [] \<and> q_log q' = q_log q"
  using assms
  by (induction rule: queue_step.induct)
    (auto simp: queue_inv_def pending_ops_def queue_defs split: option.splits list.splits)

lemma stopped_steps:
  assumes "queue_step\<^sup>*\<^sup>* q q'" "queue_inv q" "q_cancelled q" "pending_ops q = []"
  shows "queue_inv q' \<and> q_cancelled q' \<and> pending_ops q' = [] \<and> q_log q' = q_log q"
  using assms
proof (induction rule: rtranclp_induct)
  case (step y z)
  then have y: "queue_inv y" "q_cancelled y" "pending_ops y = []" "q_log y = q_log q" by auto
  with stopped_step [OF step.hyps(2)] queue_inv_step [OF step.hyps(2)] show ?case by simp
qed simp

text \<open>
  The shutdown contract of the asynchronous store queue: once stop has returned, no step of any
  caller or of the worker writes to the store any more, so a record that the caller then deletes
  synchronously stays deleted.
\<close>

theorem no_write_after_stop:
  assumes "queue_reach q" and "stop_returned q" and "queue_step\<^sup>*\<^sup>* q q'"
  shows "q_log q' = q_log q"
proof -
  have inv: "queue_inv q" using assms(1) by (rule queue_reach_inv)
  with assms(2) have "q_cancelled q" "pending_ops q = []"
    by (auto simp: stop_returned_def queue_inv_def)
  with stopped_steps [OF assms(3) inv] show ?thesis by simp
qed

text \<open>
  The queue is first-in first-out and loses nothing it accepted: at every moment the operations
  carried out on the store are a prefix of the accepted ones, in order; the rest is in flight or
  queued; the two counters differ by exactly what is pending.
\<close>

theorem queue_fifo:
  assumes "queue_reach q"
  shows "prefix (q_log q) (q_accepted q) \<and> q_accepted q = q_log q @ pending_ops q \<and>
    q_enqueued q - q_processed q = int (length (pending_ops q)) \<and> length (q_queue q) \<le> 1024"
  using queue_reach_inv [OF assms] by (auto simp: queue_inv_def)

text \<open>
  What \<^verbatim>\<open>drain\<close> waits for is enough: when the processed counter has reached the value the
  enqueued counter had at an earlier moment, every operation accepted by that moment has been
  carried out on the store.
\<close>

lemma queue_step_log: "queue_step q q' \<Longrightarrow> prefix (q_accepted q) (q_accepted q')"
  by (induction rule: queue_step.induct) (auto simp: queue_defs split: option.splits list.splits)

theorem drain_sound:
  assumes "queue_reach q" and "queue_step\<^sup>*\<^sup>* q q'" and "q_processed q' \<ge> q_enqueued q"
  shows "prefix (q_accepted q) (q_log q')"
proof -
  have "queue_reach q'" using assms(1,2) unfolding queue_reach_def by (rule rtranclp_trans)
  then have inv: "queue_inv q" "queue_inv q'" using assms(1) by (auto intro: queue_reach_inv)
  have "prefix (q_accepted q) (q_accepted q')"
    using assms(2)
    by (induction rule: rtranclp_induct) (auto intro: prefix_order.trans queue_step_log)
  moreover have "prefix (q_log q') (q_accepted q')" using inv(2) by (auto simp: queue_inv_def)
  moreover have "length (q_accepted q) \<le> length (q_log q')"
    using inv assms(3) by (simp add: queue_inv_def)
  ultimately show ?thesis by (rule prefix_length_prefix)
qed

text \<open>Stopping as one call is a run of the step relation that ends with stop returned.\<close>

lemma take_process:
  "q_inflight q = None \<Longrightarrow> q_queue q = op # rest \<Longrightarrow> process (worker_take q) =
     q\<lparr>q_queue := rest, q_inflight := None, q_log := q_log q @ [op], q_processed := q_processed q + 1\<rparr>"
  by (simp add: worker_take_def process_def)

lemma drain_ops_effect:
  "q_inflight q = None \<Longrightarrow> q_queue q = xs \<Longrightarrow> drain_ops xs q =
     q\<lparr>q_queue := [], q_inflight := None, q_log := q_log q @ xs, q_processed := q_processed q + int (length xs)\<rparr>"
  by (induction xs arbitrary: q) (simp_all add: take_process)

lemma drain_ops_steps:
  "q_inflight q = None \<Longrightarrow> q_queue q = xs \<Longrightarrow> q_started q \<Longrightarrow> \<not> q_done q \<Longrightarrow>
     queue_step\<^sup>*\<^sup>* q (drain_ops xs q)"
proof (induction xs arbitrary: q)
  case (Cons op rest)
  have "queue_step q (worker_take q)" using Cons.prems by (intro qs_take) auto
  moreover have "queue_step (worker_take q) (process (worker_take q))"
    using Cons.prems by (intro qs_process) (simp add: worker_take_def)
  moreover have "queue_step\<^sup>*\<^sup>* (process (worker_take q)) (drain_ops rest (process (worker_take q)))"
    using Cons.prems by (intro Cons.IH) (simp_all add: take_process)
  ultimately show ?case by (simp add: converse_rtranclp_into_rtranclp)
qed simp

lemma process_step: "queue_step\<^sup>*\<^sup>* q (process q)"
  using qs_process [of q] by (cases "q_inflight q") (auto simp: process_def)

lemma queue_stop_steps: "queue_step\<^sup>*\<^sup>* q (queue_stop q)"
proof (cases "q_started q \<and> \<not> q_done q")
  case True
  define q1 where "q1 = process (queue_cancel q)"
  have q1: "q_inflight q1 = None" "q_started q1" "\<not> q_done q1" "q_cancelled q1"
    using True by (auto simp: q1_def process_def queue_cancel_def split: option.splits)
  have "queue_step\<^sup>*\<^sup>* q q1"
    unfolding q1_def using qs_cancel process_step by (rule converse_rtranclp_into_rtranclp)
  also have "queue_step\<^sup>*\<^sup>* q1 (drainRemaining q1)"
    unfolding drainRemaining_def using q1 by (intro drain_ops_steps) auto
  also have "queue_step (drainRemaining q1) (worker_exit (drainRemaining q1))"
    using q1 by (intro qs_exit) (simp_all add: drainRemaining_def drain_ops_effect)
  finally show ?thesis using True by (simp add: queue_stop_def Let_def q1_def queue_cancel_def)
next
  case False
  then show ?thesis using qs_cancel [of q] by (auto simp: queue_stop_def Let_def queue_cancel_def)
qed

lemma stop_effect:
  assumes "queue_reach q"
  shows "queue_step\<^sup>*\<^sup>* q (queue_stop q) \<and> stop_returned (queue_stop q) \<and> q_log (queue_stop q) = q_accepted q"
proof -
  have ret: "stop_returned (queue_stop q)"
    by (auto simp: queue_stop_def Let_def stop_returned_def queue_cancel_def worker_exit_def
        drainRemaining_def drain_ops_effect process_def split: option.splits)
  have "queue_reach (queue_stop q)"
    using assms queue_stop_steps unfolding queue_reach_def by (rule rtranclp_trans)
  then have inv: "queue_inv (queue_stop q)" by (rule queue_reach_inv)
  moreover have "q_accepted (queue_stop q) = q_accepted q"
    by (auto simp: queue_stop_def Let_def queue_cancel_def worker_exit_def
        drainRemaining_def drain_ops_effect process_def split: option.splits)
  ultimately show ?thesis using ret queue_stop_steps by (auto simp: queue_inv_def stop_returned_def)
qed

text \<open>
  C25: Stopping terminates and flushes: from every reachable state the stop call comes to return,
  through steps of the worker only, and then every operation ever accepted has been carried out on
  the store, in order.
\<close>

theorem stop_flushes:
  assumes "queue_reach q"
  shows "queue_step\<^sup>*\<^sup>* q (queue_stop q) \<and> stop_returned (queue_stop q) \<and>
    q_log (queue_stop q) = q_accepted q"
  using stop_effect [OF assms] .

section \<open>Coordinator\<close>

text \<open>
  \<^verbatim>\<open>Coordinator\<close>; \<^verbatim>\<open>None\<close> is the nil receiver, on which every method does nothing.
  \<^verbatim>\<open>CleanRecords\<close> deletes synchronously: it appends to the operations asked of the store. What these
  operations do is \<open>store_run\<close> below, which runs them on the backend, where each of them may fail.
\<close>

record Coordinator =
  co_store :: Store
  co_queue :: asyncStoreQueue

definition NewCoordinator :: "Store \<Rightarrow> Coordinator" where
  "NewCoordinator store = \<lparr>co_store = store, co_queue = newAsyncStoreQueue\<rparr>"

definition co_enqueue :: "asyncStoreOp \<Rightarrow> Coordinator \<Rightarrow> Coordinator" where
  "co_enqueue op c = c\<lparr>co_queue := enqueue op (co_queue c)\<rparr>"

definition SaveRecord :: "string \<Rightarrow> StoreRecord \<Rightarrow> Coordinator option \<Rightarrow> Coordinator option" where
  "SaveRecord key rec c =
     (case c of None \<Rightarrow> None | Some c' \<Rightarrow> if key = [] then c else Some (co_enqueue (SaveOp key rec) c'))"

definition DeleteRecord :: "string \<Rightarrow> Coordinator option \<Rightarrow> Coordinator option" where
  "DeleteRecord key c =
     (case c of None \<Rightarrow> None | Some c' \<Rightarrow> if key = [] then c else Some (co_enqueue (DeleteOp key) c'))"

definition GetRecord ::
  "'w kvClient \<Rightarrow> recordCodec \<Rightarrow> 'w \<Rightarrow> string \<Rightarrow> Coordinator option \<Rightarrow> store_error + StoreRecord option"
where
  "GetRecord kv codec w key c =
     (case c of
        None \<Rightarrow> Inr None
      | Some c' \<Rightarrow> if key = [] then Inl SessionKeyEmpty else store_Get kv codec (co_store c') w key)"

definition CleanRecords :: "string list \<Rightarrow> Coordinator option \<Rightarrow> Coordinator option" where
  "CleanRecords keys c =
     map_option (\<lambda>c'. let q = co_queue c' in c'\<lparr>co_queue := q\<lparr>q_log := q_log q @ map DeleteOp keys\<rparr>\<rparr>) c"

definition co_Stop :: "Coordinator option \<Rightarrow> Coordinator option" where
  "co_Stop c = map_option (\<lambda>c'. c'\<lparr>co_queue := queue_stop (co_queue c')\<rparr>) c"

definition co_Backend :: "Coordinator option \<Rightarrow> string" where
  "co_Backend c = (case c of None \<Rightarrow> BackendNoop | Some c' \<Rightarrow> store_Backend (co_store c'))"

text \<open>
  The operations asked of the store, run on the key-value service behind it: an operation that fails is
  logged and the next one goes on. The results are kept with the operations; \<open>clock\<close> gives the time of
  each of them.
\<close>

fun store_op ::
  "'w kvClient \<Rightarrow> recordCodec \<Rightarrow> time \<Rightarrow> Store \<Rightarrow> asyncStoreOp \<Rightarrow> 'w \<Rightarrow> store_error option \<times> 'w" where
  "store_op kv codec now store (SaveOp k rec) w = store_Save kv codec now store w k rec"
| "store_op kv codec now store (DeleteOp k) w = store_Delete kv store w k"

fun store_run ::
  "'w kvClient \<Rightarrow> recordCodec \<Rightarrow> (nat \<Rightarrow> time) \<Rightarrow> Store \<Rightarrow> asyncStoreOp list \<Rightarrow> 'w \<Rightarrow>
     (asyncStoreOp \<times> store_error option) list \<times> 'w"
where
  "store_run kv codec clock store [] w = ([], w)"
| "store_run kv codec clock store (op # ops) w =
     (case store_op kv codec (clock (length ops)) store op w of
        (e, w1) \<Rightarrow> (case store_run kv codec clock store ops w1 of (rs, w2) \<Rightarrow> ((op, e) # rs, w2)))"

text \<open>No record of the session key can be read back.\<close>

definition no_record :: "'w kvClient \<Rightarrow> recordCodec \<Rightarrow> Store \<Rightarrow> 'w \<Rightarrow> string \<Rightarrow> bool" where
  "no_record kv codec store w k \<longleftrightarrow> (\<forall>rec. store_Get kv codec store w k \<noteq> Inr (Some rec))"

text \<open>A delete, failed or not, makes no value appear.\<close>

definition deletes_only_remove :: "'w kvClient \<Rightarrow> bool" where
  "deletes_only_remove kv \<longleftrightarrow>
     (\<forall>w k e w' j v. kv_delete kv w k = (e, w') \<longrightarrow> kv_get kv w' j = KVValue v \<longrightarrow> kv_get kv w j = KVValue v) \<and>
     (\<forall>w k e w'. kv_delete kv w k = (e, w') \<longrightarrow> kv_ready kv w' = kv_ready kv w)"

lemma store_run_append:
  "store_run kv codec (\<lambda>n. clock (n + length ys)) store xs w = (rs, w1) \<Longrightarrow>
   store_run kv codec clock store ys w1 = (rs', w2) \<Longrightarrow>
   store_run kv codec clock store (xs @ ys) w = (rs @ rs', w2)"
  by (induction xs arbitrary: w rs) (auto split: prod.splits)

lemma store_run_length: "store_run kv codec clock store ops w = (rs, w') \<Longrightarrow> length rs = length ops"
  by (induction ops arbitrary: w rs) (auto split: prod.splits)

lemma get_None_store:
  assumes "store_Get kv codec store w' k = Inr (Some rec)" and "store_Delete kv store w j = (e, w')"
    and "deletes_only_remove kv"
  shows "store_Get kv codec store w k = Inr (Some rec)"
proof (cases store)
  case (redisStore cfg ttl)
  let ?g = "\<lambda>w. kv_get kv w (physicalKey cfg k)"
  have "?g w' = KVValue v \<Longrightarrow> ?g w = KVValue v" "kv_ready kv w' = kv_ready kv w" for v
    using assms(2,3) redisStore
    by (auto simp: deletes_only_remove_def kv_erase_def split: if_splits prod.splits)
  with assms(1) redisStore show ?thesis
    by (cases "?g w'") (auto simp: decode_reply_def split: if_splits)
next
  case (dataSystemStore cfg)
  let ?g = "\<lambda>w. kv_get kv w (physicalKey cfg k)"
  have "?g w' = KVValue v \<Longrightarrow> ?g w = KVValue v" for v
    using assms(2,3) dataSystemStore
    by (auto simp: deletes_only_remove_def kv_erase_def split: if_splits prod.splits)
  with assms(1) dataSystemStore show ?thesis
    by (cases "?g w'") (auto simp: decode_reply_def split: if_splits)
qed (use assms in simp)

lemma deletes_keep_gone:
  assumes "deletes_only_remove kv" and "no_record kv codec store w k"
    and "store_run kv codec clock store (map DeleteOp keys) w = (rs, w')"
  shows "no_record kv codec store w' k"
  using assms(2,3)
proof (induction keys arbitrary: w rs)
  case (Cons j keys)
  obtain e w1 where d: "store_Delete kv store w j = (e, w1)" by fastforce
  have "no_record kv codec store w1 k"
    using Cons.prems(1) get_None_store [OF _ d assms(1)] unfolding no_record_def by blast
  with Cons d show ?case by (auto split: prod.splits)
qed simp

lemma deleted_gone:
  assumes "kv_lawful kv" and "store_Delete kv store w k = (None, w')"
  shows "no_record kv codec store w' k"
proof (cases store)
  case (redisStore cfg ttl)
  with assms show ?thesis
    by (auto simp: no_record_def kv_lawful_def kv_erase_def decode_reply_def split: if_splits prod.splits)
next
  case (dataSystemStore cfg)
  with assms show ?thesis
    by (auto simp: no_record_def kv_lawful_def kv_erase_def decode_reply_def split: if_splits prod.splits)
qed (simp add: no_record_def)

lemma deletes_clear:
  assumes "kv_lawful kv" and "deletes_only_remove kv"
    and "store_run kv codec clock store (map DeleteOp keys) w = (rs, w')" and "(DeleteOp k, None) \<in> set rs"
  shows "no_record kv codec store w' k"
  using assms(3,4)
proof (induction keys arbitrary: w rs)
  case (Cons j keys)
  obtain e w1 where d: "store_Delete kv store w j = (e, w1)" by fastforce
  obtain rs1 where r: "store_run kv codec clock store (map DeleteOp keys) w1 = (rs1, w')" "rs = (DeleteOp j, e) # rs1"
    using Cons.prems(1) d by (auto split: prod.splits)
  show ?case
  proof (cases "(DeleteOp k, None) \<in> set rs1")
    case True
    with Cons.IH r(1) show ?thesis by blast
  next
    case False
    with Cons.prems(2) r(2) d have "store_Delete kv store w k = (None, w1)" by auto
    from deletes_keep_gone [OF assms(2) deleted_gone [OF assms(1) this] r(1)] show ?thesis .
  qed
qed simp

lemma clean_after_stop:
  assumes "queue_reach (co_queue c)" and "CleanRecords keys (co_Stop (Some c)) = Some c'"
  shows "co_store c' = co_store c" "q_log (co_queue c') = q_accepted (co_queue c) @ map DeleteOp keys"
  using assms(2) stop_effect [OF assms(1)] by (auto simp: CleanRecords_def co_Stop_def Let_def)

lemma cleaned_no_record:
  assumes "queue_reach (co_queue c)" and "CleanRecords keys (co_Stop (Some c)) = Some c'"
    and "kv_lawful kv" and "deletes_only_remove kv"
    and "store_run kv codec clock (co_store c') (q_log (co_queue c')) w = (rs, w')"
    and "(DeleteOp k, None) \<in> set (drop (length (q_accepted (co_queue c))) rs)"
  shows "no_record kv codec (co_store c') w' k"
proof -
  let ?acc = "q_accepted (co_queue c)" and ?st = "co_store c'"
  obtain rs1 w1 where r1: "store_run kv codec (\<lambda>n. clock (n + length (map DeleteOp keys))) ?st ?acc w = (rs1, w1)"
    by fastforce
  obtain rs2 w2 where r2: "store_run kv codec clock ?st (map DeleteOp keys) w1 = (rs2, w2)" by fastforce
  have "rs = rs1 @ rs2" "w' = w2"
    using assms(5) store_run_append [OF r1 r2] by (simp_all add: clean_after_stop [OF assms(1,2)])
  with assms(6) store_run_length [OF r1] deletes_clear [OF assms(3,4) r2] show ?thesis by simp
qed

text \<open>
  C16: Destroying a pool's store, Stop followed by CleanRecords, asks the store for every write that was
  accepted, in order, and then for a delete of every cleaned session key. Any of these may fail: on a
  backend whose deletes do what they report, no record of a key can be read back whose own delete among
  these last ones succeeded, whatever else failed. No queued save comes back after the deletes.
\<close>

theorem stop_clean_no_record:
  assumes "queue_reach (co_queue c)" and "CleanRecords keys (co_Stop (Some c)) = Some c'"
    and "kv_lawful kv" and "deletes_only_remove kv"
    and "store_run kv codec clock (co_store c') (q_log (co_queue c')) w = (rs, w')"
    and "(DeleteOp k, None) \<in> set (drop (length (q_accepted (co_queue c))) rs)"
  shows "q_log (co_queue c') = q_accepted (co_queue c) @ map DeleteOp keys \<and>
    no_record kv codec (co_store c') w' k"
  using clean_after_stop(2) [OF assms(1,2)] cleaned_no_record [OF assms] by simp

section \<open>De-duplicated reads\<close>

text \<open>
  \<^verbatim>\<open>StoreCallGroup\<close>: \<open>sf_calls\<close> is the map of the group, \<open>sf_results\<close> the finished calls (their
  \<^verbatim>\<open>done\<close> channel is closed), \<open>sf_running\<close> the calls whose function is being executed, with its
  key, \<open>sf_waiting\<close> which call each waiting goroutine shares.
\<close>

record 'r StoreCallGroup =
  sf_calls :: "(string, nat) gomap"
  sf_results :: "(nat, 'r) gomap"
  sf_running :: "(nat, string) gomap"
  sf_waiting :: "(nat, nat) gomap"
  sf_next :: nat

definition NewStoreCallGroup :: "'r StoreCallGroup" where
  "NewStoreCallGroup = \<lparr>sf_calls = fmempty, sf_results = fmempty, sf_running = fmempty,
     sf_waiting = fmempty, sf_next = 0\<rparr>"

text \<open>Entering \<^verbatim>\<open>Do\<close>: share the call in flight, or become its leader.\<close>

definition sf_enter :: "nat \<Rightarrow> string \<Rightarrow> 'r StoreCallGroup \<Rightarrow> 'r StoreCallGroup" where
  "sf_enter caller key g =
     (case fmlookup (sf_calls g) key of
        Some c \<Rightarrow> g\<lparr>sf_waiting := fmupd caller c (sf_waiting g)\<rparr>
      | None \<Rightarrow>
          g\<lparr>sf_calls := fmupd key (sf_next g) (sf_calls g),
            sf_running := fmupd (sf_next g) key (sf_running g),
            sf_waiting := fmupd caller (sf_next g) (sf_waiting g), sf_next := Suc (sf_next g)\<rparr>)"

text \<open>The leader's function returns and \<^verbatim>\<open>done\<close> is closed; then the entry is deleted.\<close>

definition sf_finish :: "nat \<Rightarrow> 'r \<Rightarrow> 'r StoreCallGroup \<Rightarrow> 'r StoreCallGroup" where
  "sf_finish c r g =
     g\<lparr>sf_results := fmupd c r (sf_results g), sf_running := fmdrop c (sf_running g)\<rparr>"

definition sf_forget :: "string \<Rightarrow> 'r StoreCallGroup \<Rightarrow> 'r StoreCallGroup" where
  "sf_forget key g = g\<lparr>sf_calls := fmdrop key (sf_calls g)\<rparr>"

inductive sf_step :: "'r StoreCallGroup \<Rightarrow> 'r StoreCallGroup \<Rightarrow> bool" where
  sf_step_enter: "sf_step g (sf_enter caller key g)"
| sf_step_finish: "fmlookup (sf_running g) c = Some key \<Longrightarrow> sf_step g (sf_finish c r g)"
| sf_step_forget: "fmlookup (sf_calls g) key = Some c \<Longrightarrow> fmlookup (sf_results g) c = Some r \<Longrightarrow>
    sf_step g (sf_forget key g)"

definition sf_inv :: "'r StoreCallGroup \<Rightarrow> bool" where
  "sf_inv g \<longleftrightarrow>
     (\<forall>c key. fmlookup (sf_running g) c = Some key \<longrightarrow> fmlookup (sf_calls g) key = Some c) \<and>
     (\<forall>key c. fmlookup (sf_calls g) key = Some c \<longrightarrow> c < sf_next g) \<and>
     (\<forall>c r. fmlookup (sf_results g) c = Some r \<longrightarrow> c < sf_next g \<and> fmlookup (sf_running g) c = None)"

lemma sf_inv_new: "sf_inv NewStoreCallGroup"
  by (simp add: sf_inv_def NewStoreCallGroup_def)

lemma sf_inv_step: "sf_step g g' \<Longrightarrow> sf_inv g \<Longrightarrow> sf_inv g'"
proof (induction rule: sf_step.induct)
  case (sf_step_enter g caller key)
  then show ?case by (fastforce simp: sf_inv_def sf_enter_def less_Suc_eq split: option.splits if_splits)
next
  case (sf_step_finish g c key r)
  then show ?case by (fastforce simp: sf_inv_def sf_finish_def split: if_splits)
next
  case (sf_step_forget g key c r)
  then show ?case by (fastforce simp: sf_inv_def sf_forget_def split: if_splits)
qed

lemma sf_inv_steps: "sf_step\<^sup>*\<^sup>* g g' \<Longrightarrow> sf_inv g \<Longrightarrow> sf_inv g'"
  by (induction rule: rtranclp_induct) (auto intro: sf_inv_step)

text \<open>
  Reads are de-duplicated: for each key at most one execution of the lookup function is running
  at any moment, and a caller that enters while one runs shares that call.
\<close>

theorem singleflight_once:
  assumes "sf_step\<^sup>*\<^sup>* NewStoreCallGroup g"
    and "fmlookup (sf_running g) c = Some key" and "fmlookup (sf_running g) d = Some key"
  shows "c = d \<and> sf_running (sf_enter caller key g) = sf_running g \<and>
    fmlookup (sf_waiting (sf_enter caller key g)) caller = Some c"
proof -
  have inv: "sf_inv g" using sf_inv_steps [OF assms(1) sf_inv_new] .
  have c: "fmlookup (sf_calls g) key = Some c" using inv assms(2) unfolding sf_inv_def by blast
  have d: "fmlookup (sf_calls g) key = Some d" using inv assms(3) unfolding sf_inv_def by blast
  from c d show ?thesis by (simp add: sf_enter_def)
qed

section \<open>Witnesses\<close>

definition sample_queue :: asyncStoreQueue where
  "sample_queue = enqueue (DeleteOp ''k'') (enqueue (SaveOp ''k'' sample_record) newAsyncStoreQueue)"

lemma queue_reach_enqueue: "queue_reach q \<Longrightarrow> queue_reach (enqueue op q)"
proof -
  have "queue_step q (launch_worker q)" by (rule qs_launch)
  moreover have "queue_step (launch_worker q) (enqueue op q)"
    unfolding enqueue_def by (rule qs_send) (simp add: launch_worker_def)
  ultimately show "queue_reach q \<Longrightarrow> queue_reach (enqueue op q)"
    unfolding queue_reach_def by (meson rtranclp.rtrancl_into_rtrancl)
qed

lemma queue_reach_new: "queue_reach newAsyncStoreQueue"
  by (simp add: queue_reach_def)

lemma sample_queue_reach: "queue_reach sample_queue"
  unfolding sample_queue_def by (intro queue_reach_enqueue queue_reach_new)

lemmas queue_eval = sample_queue_def enqueue_def launch_worker_def enqueue_locked_def
  newAsyncStoreQueue_def queue_stop_def queue_cancel_def process_def drainRemaining_def
  worker_take_def worker_exit_def stop_returned_def

lemma sample_queue_stop_reach: "queue_reach (queue_stop sample_queue)"
  using sample_queue_reach queue_stop_steps unfolding queue_reach_def by (rule rtranclp_trans)

lemma sample_queue_stopped: "stop_returned (queue_stop sample_queue)"
  by (simp add: queue_eval)

theorem no_write_after_stop_witness:
  "q_log (enqueue_locked (SaveOp ''k'' sample_record) (queue_stop sample_queue)) =
     [SaveOp ''k'' sample_record, DeleteOp ''k'']"
proof -
  have "queue_step\<^sup>*\<^sup>* (queue_stop sample_queue)
      (enqueue_locked (SaveOp ''k'' sample_record) (queue_stop sample_queue))"
    by (rule r_into_rtranclp, rule qs_send) (simp add: queue_eval)
  from no_write_after_stop [OF sample_queue_stop_reach sample_queue_stopped this]
  show ?thesis by (simp add: queue_eval)
qed

theorem queue_fifo_witness:
  "prefix (q_log (queue_stop sample_queue)) (q_accepted (queue_stop sample_queue)) \<and>
   q_log (queue_stop sample_queue) = [SaveOp ''k'' sample_record, DeleteOp ''k'']"
  using queue_fifo [OF sample_queue_stop_reach] by (simp add: queue_eval)

theorem drain_sound_witness:
  "prefix [SaveOp ''k'' sample_record, DeleteOp ''k''] (q_log (queue_stop sample_queue))"
proof -
  have "q_processed (queue_stop sample_queue) \<ge> q_enqueued sample_queue" by (simp add: queue_eval)
  from drain_sound [OF sample_queue_reach queue_stop_steps this]
  show ?thesis by (simp add: queue_eval)
qed

theorem stop_flushes_witness:
  "stop_returned (queue_stop sample_queue) \<and>
   q_log (queue_stop sample_queue) = [SaveOp ''k'' sample_record, DeleteOp ''k'']"
  using stop_flushes [OF sample_queue_reach] by (simp add: queue_eval)

text \<open>A service whose first delete fails: the flag of its state says whether one is still to fail.\<close>

definition flaky_kv :: "(bool \<times> (string, string) gomap) kvClient" where
  "flaky_kv = \<lparr>kv_ready = (\<lambda>_. True), kv_set = (\<lambda>(b, w) k v t. (None, (b, fmupd k v w))),
     kv_get = (\<lambda>(b, w) k. case fmlookup w k of None \<Rightarrow> KVNil | Some v \<Rightarrow> KVValue v),
     kv_delete = (\<lambda>(b, w) k. if b then (Some ''timeout'', (False, w)) else (None, (False, fmdrop k w)))\<rparr>"

lemma flaky_kv_laws: "kv_lawful flaky_kv" "deletes_only_remove flaky_kv"
  by (auto simp: kv_lawful_def deletes_only_remove_def flaky_kv_def split: if_splits option.splits)

lemma sample_kv_laws: "kv_lawful sample_kv" "deletes_only_remove sample_kv"
  by (auto simp: kv_lawful_def deletes_only_remove_def sample_kv_def split: if_splits option.splits)

lemma sample_kv_deletes:
  "[] \<notin> set keys \<Longrightarrow> \<exists>w'. store_run sample_kv codec clock store (map DeleteOp keys) w = (map (\<lambda>k. (DeleteOp k, None)) keys, w')"
proof (induction keys arbitrary: w)
  case (Cons k keys)
  have "\<exists>w1. store_Delete sample_kv store w k = (None, w1)"
    using Cons.prems by (cases store) (auto simp: sample_kv_def kv_erase_def)
  then obtain w1 where "store_Delete sample_kv store w k = (None, w1)" by blast
  with Cons.IH [of w1] Cons.prems show ?case by auto
qed simp

definition sample_saves :: asyncStoreQueue where
  "sample_saves = enqueue (SaveOp ''k'' sample_record) newAsyncStoreQueue"

lemma sample_saves_reach: "queue_reach sample_saves"
  unfolding sample_saves_def by (intro queue_reach_enqueue queue_reach_new)

definition sample_coord :: Coordinator where
  "sample_coord = \<lparr>co_store = redisStore sample_config (86400 * second), co_queue = sample_saves\<rparr>"

theorem stop_clean_no_record_witness:
  "\<exists>c' rs w'. CleanRecords [''j'', ''k''] (co_Stop (Some sample_coord)) = Some c' \<and>
     store_run flaky_kv sample_codec (\<lambda>_. 7) (co_store c') (q_log (co_queue c')) (True, fmempty) = (rs, w') \<and>
     map snd rs = [None, Some (BackendFailed ''timeout''), None] \<and>
     q_log (co_queue c') = [SaveOp ''k'' sample_record, DeleteOp ''j'', DeleteOp ''k''] \<and>
     no_record flaky_kv sample_codec (co_store c') w' ''k''"
proof -
  obtain c' where c': "CleanRecords [''j'', ''k''] (co_Stop (Some sample_coord)) = Some c'"
    by (simp add: CleanRecords_def co_Stop_def)
  have reach: "queue_reach (co_queue sample_coord)" by (simp add: sample_coord_def sample_saves_reach)
  have acc: "q_accepted (co_queue sample_coord) = [SaveOp ''k'' sample_record]"
    by (simp add: sample_coord_def sample_saves_def queue_eval)
  note log = clean_after_stop [OF reach c', unfolded acc]
  obtain rs w' where r: "store_run flaky_kv sample_codec (\<lambda>_. 7) (co_store c') (q_log (co_queue c')) (True, fmempty) = (rs, w')"
    by (metis surj_pair)
  then have rs: "rs = [(SaveOp ''k'' sample_record, None), (DeleteOp ''j'', Some (BackendFailed ''timeout'')), (DeleteOp ''k'', None)]"
    by (auto simp: log sample_coord_def flaky_kv_def sample_codec_def kv_write_def kv_erase_def fillRecord_def sample_record_def)
  have "(DeleteOp ''k'', None) \<in> set (drop (length (q_accepted (co_queue sample_coord))) rs)" by (simp add: acc rs)
  from stop_clean_no_record [OF reach c' flaky_kv_laws r this]
  show ?thesis by (intro exI [of _ c'] exI [of _ rs] exI [of _ w']) (use c' r in \<open>simp add: rs acc\<close>)
qed

definition sample_group :: "nat StoreCallGroup" where
  "sample_group = sf_enter 1 ''k'' NewStoreCallGroup"

theorem singleflight_once_witness:
  "fmlookup (sf_running sample_group) 0 = Some ''k'' \<and>
   fmlookup (sf_waiting (sf_enter 2 ''k'' sample_group)) 2 = Some 0"
proof -
  have "sf_step\<^sup>*\<^sup>* NewStoreCallGroup sample_group"
    unfolding sample_group_def by (rule r_into_rtranclp) (rule sf_step_enter)
  moreover have "fmlookup (sf_running sample_group) 0 = Some ''k''"
    by (simp add: sample_group_def sf_enter_def NewStoreCallGroup_def)
  ultimately show ?thesis using singleflight_once [of sample_group 0 "''k''" 0 2] by simp
qed

end
