(* ===== verification/LiteAlloc.thy ===== *)
theory LiteAlloc
  imports GoHash
begin

text \<open>
  Identifiers of the session scheduler: allocation IDs
  (\<^verbatim>\<open>go/pkg/functionscaler/litescheduler/allocation.go\<close>), function keys and owner keys
  (\<^verbatim>\<open>litescheduler.go\<close>), the joined session key (\<^verbatim>\<open>functionscaler/types/sessioncontext.go\<close>) and
  the white list that decides which functions the scheduler serves.
\<close>

section \<open>Allocations\<close>

record Allocation =
  al_AllocationID :: string
  al_SessionID :: string
  al_SessionCtxID :: string
  al_SessionTTL :: int
  al_TenantID :: string
  al_InstanceID :: string
  al_FuncKey :: string
  al_ExpireAt :: time
  al_CreatedAt :: time

abbreviation (input) liteAllocPrefix :: string where "liteAllocPrefix \<equiv> ''lite''"

definition sessionHash :: "string \<Rightarrow> string" where
  "sessionHash sessionID = take 16 (hexEncode (sha256 (bytes_of sessionID)))"

definition allocationSessionID :: "string \<Rightarrow> string \<Rightarrow> string" where
  "allocationSessionID sessionID sessionCtxID = (if sessionID \<noteq> [] then sessionID else sessionCtxID)"

definition genAllocationID :: "string \<Rightarrow> string \<Rightarrow> int \<Rightarrow> string" where
  "genAllocationID sessionID instanceID seq =
     liteAllocPrefix @ '':'' @ sessionHash sessionID @ '':'' @ instanceID @ '':thread:'' @ showInt seq"

definition parseLiteAllocationID :: "string \<Rightarrow> bool \<times> string \<times> string \<times> int" where
  "parseLiteAllocationID allocID =
     (if \<not> hasPrefix allocID (liteAllocPrefix @ '':'') then (False, [], [], 0)
      else
        case splitN 3 CHR '':'' (trimPrefix allocID (liteAllocPrefix @ '':'')) of
          [sessHash, instanceID, threadPart] \<Rightarrow>
            if \<not> hasPrefix threadPart ''thread:'' then (False, [], [], 0)
            else (case atoi (trimPrefix threadPart ''thread:'') of
                    None \<Rightarrow> (False, [], [], 0)
                  | Some n \<Rightarrow> (True, sessHash, instanceID, n))
        | _ \<Rightarrow> (False, [], [], 0))"

definition IsLiteAllocationID :: "string \<Rightarrow> bool" where
  "IsLiteAllocationID allocID = fst (parseLiteAllocationID allocID)"

lemma length_sessionHash [simp]: "length (sessionHash s) = 16"
  by (simp add: sessionHash_def)

lemma sessionHash_no_colon [simp]: "CHR '':'' \<notin> set (sessionHash s)"
proof
  assume "CHR '':'' \<in> set (sessionHash s)"
  then have "CHR '':'' \<in> set (hexEncode (sha256 (bytes_of s)))"
    unfolding sessionHash_def by (rule in_set_takeD)
  from hexEncode_chars [OF this] show False by simp
qed

lemma splitN3: "splitN 3 = splitN (Suc (Suc (Suc 0)))"
  by (simp add: numeral_3_eq_3)

lemma parse_gen_split:
  "trimPrefix (genAllocationID s i n) (liteAllocPrefix @ '':'') =
     sessionHash s @ CHR '':'' # i @ '':thread:'' @ showInt n"
  "hasPrefix (genAllocationID s i n) (liteAllocPrefix @ '':'')"
  using trimPrefix_append [of "liteAllocPrefix @ '':''"] hasPrefix_append [of "liteAllocPrefix @ '':''"]
  by (simp_all add: genAllocationID_def)

lemma thread_part:
  "hasPrefix (''thread:'' @ t) ''thread:''" "trimPrefix (''thread:'' @ t) ''thread:'' = t"
  by (rule hasPrefix_append trimPrefix_append)+

lemma parse_gen_clean:
  assumes "CHR '':'' \<notin> set i" and "in_int64 n"
  shows "parseLiteAllocationID (genAllocationID s i n) = (True, sessionHash s, i, n)"
proof -
  have "splitN 3 CHR '':'' (sessionHash s @ CHR '':'' # i @ '':thread:'' @ showInt n) =
      [sessionHash s, i, ''thread:'' @ showInt n]"
    unfolding splitN3 splitN_cut [OF sessionHash_no_colon] using splitN_cut [OF assms(1), of 0]
    by simp
  then show ?thesis
    unfolding parseLiteAllocationID_def parse_gen_split(1)
    using parse_gen_split(2) [of s i n] thread_part [of "showInt n"] atoi_showInt [OF assms(2)]
    by simp
qed

lemma colon_split:
  assumes "CHR '':'' \<in> set i"
  obtains a b where "i = a @ CHR '':'' # b" and "CHR '':'' \<notin> set a"
  using split_list_first [OF assms] by blast

lemma parse_gen_colon:
  assumes "CHR '':'' \<in> set i"
  shows "parseLiteAllocationID (genAllocationID s i n) = (False, [], [], 0)"
proof -
  obtain a b where i: "i = a @ CHR '':'' # b" and a: "CHR '':'' \<notin> set a"
    using assms by (rule colon_split)
  let ?t = "b @ '':thread:'' @ showInt n"
  have split: "splitN 3 CHR '':'' (sessionHash s @ CHR '':'' # i @ '':thread:'' @ showInt n) =
      [sessionHash s, a, ?t]"
    unfolding splitN3 splitN_cut [OF sessionHash_no_colon] i using splitN_cut [OF a, of 0 ?t] by simp
  have "atoi (trimPrefix ?t ''thread:'') = None" if "hasPrefix ?t ''thread:''"
  proof -
    from that obtain r where r: "?t = ''thread:'' @ r" by (rule hasPrefixE)
    have "CHR '':'' \<in> set r"
    proof (rule ccontr)
      assume "CHR '':'' \<notin> set r"
      then have "length (filter (\<lambda>c. c = CHR '':'') (''thread:'' @ r)) = 1" by (auto simp: filter_empty_conv)
      moreover have "length (filter (\<lambda>c. c = CHR '':'') ?t) \<ge> 2" by simp
      ultimately show False unfolding r by simp
    qed
    then show ?thesis unfolding r using thread_part(2) [of r] by (simp add: atoi_no_colon)
  qed
  then show ?thesis
    unfolding parseLiteAllocationID_def parse_gen_split(1) split using parse_gen_split(2) [of s i n]
    by simp
qed

text \<open>
  C20: Reading back a generated allocation ID gives the session hash, instance and sequence number it
  was made from exactly when the instance ID has no colon; with a colon in the instance ID the
  allocation ID is not recognised at all.
\<close>

theorem allocationID_roundtrip:
  assumes "in_int64 seq"
  shows "parseLiteAllocationID (genAllocationID sessionID instanceID seq) =
    (if CHR '':'' \<in> set instanceID then (False, [], [], 0)
     else (True, sessionHash sessionID, instanceID, seq))"
  using assms parse_gen_clean parse_gen_colon by simp

theorem allocationID_roundtrip_witness:
  "parseLiteAllocationID (genAllocationID ''s'' ''ins-1'' 42) = (True, sessionHash ''s'', ''ins-1'', 42) \<and>
   parseLiteAllocationID (genAllocationID ''s'' ''ins:1'' 42) = (False, [], [], 0)"
  using allocationID_roundtrip [of 42 "''s''" "''ins-1''"] allocationID_roundtrip [of 42 "''s''" "''ins:1''"]
  by simp

lemma genAllocationID_inj:
  assumes "genAllocationID s i n = genAllocationID t j m" and "CHR '':'' \<notin> set i"
    and "CHR '':'' \<notin> set j" and "in_int64 n" and "in_int64 m"
  shows "sessionHash s = sessionHash t \<and> i = j \<and> n = m"
  using assms parse_gen_clean [of i n s] parse_gen_clean [of j m t] by simp

section \<open>Keys\<close>

text \<open>\<^verbatim>\<open>types.JoinKey\<close>: the parts joined by a zero byte.\<close>

definition JoinKey :: "string list \<Rightarrow> string" where
  "JoinKey parts = joinStrings parts [CHR 0x00]"

lemma JoinKey2: "JoinKey [a, b] = a @ CHR 0x00 # b"
  by (simp add: JoinKey_def)

record funcKeyParts =
  fk_tenantID :: string
  fk_funcName :: string
  fk_version :: string

definition splitFuncKey :: "string \<Rightarrow> funcKeyParts" where
  "splitFuncKey funcKey =
     (let parts = splitN 3 CHR ''/'' funcKey in
      \<lparr>fk_tenantID = parts ! 0,
       fk_funcName = (if length parts > 1 then parts ! 1 else []),
       fk_version = (if length parts > 2 then parts ! 2 else [])\<rparr>)"

definition schedulerOwnerKey :: "string \<Rightarrow> string \<Rightarrow> string \<Rightarrow> string \<Rightarrow> string" where
  "schedulerOwnerKey tenantID funcKey sessionID sessionCtxID =
     (if sessionCtxID \<noteq> [] then tenantID @ ''/'' @ funcKey @ ''/'' @ sessionCtxID
      else if sessionID \<noteq> [] then tenantID @ ''/'' @ sessionID
      else funcKey)"

definition sessionContextRoutingKey :: "string \<Rightarrow> string \<Rightarrow> string" where
  "sessionContextRoutingKey funcKey sessionCtxID =
     schedulerOwnerKey (fk_tenantID (splitFuncKey funcKey)) funcKey [] sessionCtxID"

section \<open>Configuration\<close>

text \<open>The settings of \<^verbatim>\<open>config.GlobalConfig\<close> the scheduler reads.\<close>

record LiteConfig =
  lc_Enable :: bool
  lc_EnableAllTenants :: bool
  lc_EnabledTenants :: "string list"
  lc_EnabledFunctions :: "string list"
  lc_AcquireWaitTimeoutMs :: int
  lc_LeaseSpan :: int

fun lite_contains :: "string list \<Rightarrow> string \<Rightarrow> bool" where
  "lite_contains [] s = False"
| "lite_contains (x # xs) s = (if x = s then True else lite_contains xs s)"

lemma lite_contains_iff [simp]: "lite_contains xs s \<longleftrightarrow> s \<in> set xs"
  by (induction xs) auto

definition isFuncEnabled :: "LiteConfig \<Rightarrow> string \<Rightarrow> bool" where
  "isFuncEnabled cfg funcKey =
     (if \<not> lc_Enable cfg then False
      else if lc_EnableAllTenants cfg then True
      else if lite_contains (lc_EnabledTenants cfg) (fk_tenantID (splitFuncKey funcKey)) then True
      else if lite_contains (lc_EnabledFunctions cfg) funcKey then True
      else False)"

lemma splitFuncKey_three:
  assumes "CHR ''/'' \<notin> set t" and "CHR ''/'' \<notin> set f"
  shows "splitFuncKey (t @ CHR ''/'' # f @ CHR ''/'' # v) =
    \<lparr>fk_tenantID = t, fk_funcName = f, fk_version = v\<rparr>"
  unfolding splitFuncKey_def Let_def splitN3 splitN_cut [OF assms(1)] splitN_cut [OF assms(2)] by simp

text \<open>
  The white list: a function ``tenant/name/version'' is served exactly when the scheduler is
  enabled and all tenants are, or its tenant is listed, or the function itself is listed.
\<close>

theorem isFuncEnabled_whitelist:
  assumes "CHR ''/'' \<notin> set tenant" and "CHR ''/'' \<notin> set name"
  shows "isFuncEnabled cfg (tenant @ CHR ''/'' # name @ CHR ''/'' # version) \<longleftrightarrow>
    lc_Enable cfg \<and> (lc_EnableAllTenants cfg \<or> tenant \<in> set (lc_EnabledTenants cfg) \<or>
      tenant @ CHR ''/'' # name @ CHR ''/'' # version \<in> set (lc_EnabledFunctions cfg))"
  by (simp add: isFuncEnabled_def splitFuncKey_three [OF assms])

theorem isFuncEnabled_whitelist_witness:
  "isFuncEnabled \<lparr>lc_Enable = True, lc_EnableAllTenants = False, lc_EnabledTenants = [''t1''],
      lc_EnabledFunctions = [], lc_AcquireWaitTimeoutMs = 100, lc_LeaseSpan = 1000\<rparr> ''t1/f/1'' \<and>
   \<not> isFuncEnabled \<lparr>lc_Enable = True, lc_EnableAllTenants = False, lc_EnabledTenants = [''t1''],
      lc_EnabledFunctions = [], lc_AcquireWaitTimeoutMs = 100, lc_LeaseSpan = 1000\<rparr> ''t2/f/1''"
  using isFuncEnabled_whitelist [of "''t1''" "''f''"
      "\<lparr>lc_Enable = True, lc_EnableAllTenants = False, lc_EnabledTenants = [''t1''],
      lc_EnabledFunctions = [], lc_AcquireWaitTimeoutMs = 100, lc_LeaseSpan = 1000\<rparr>" "''1''"]
    isFuncEnabled_whitelist [of "''t2''" "''f''"
      "\<lparr>lc_Enable = True, lc_EnableAllTenants = False, lc_EnabledTenants = [''t1''],
      lc_EnabledFunctions = [], lc_AcquireWaitTimeoutMs = 100, lc_LeaseSpan = 1000\<rparr>" "''1''"]
  by simp

end
