(* ===== verification/LiteDispatch.thy ===== *)
theory LiteDispatch
  imports GoPrelude Complex_Main
begin

text \<open>
  The dispatchers of the session scheduler (\<^verbatim>\<open>litescheduler/dispatcher.go\<close>): the slots they choose
  from, the two policies, and the contract that the rest of the scheduler relies on.
\<close>

section \<open>Slots\<close>

datatype InstanceStatus = InstanceStatusUnavailable | InstanceStatusRunning | InstanceStatusSubHealth

record LiteInstance =
  li_InstanceID :: string
  li_FuncKey :: string
  li_Capacity :: int
  li_InUse :: int
  li_Status :: InstanceStatus
  li_InstanceIP :: string
  li_InstancePort :: string
  li_NodeIP :: string
  li_NodePort :: string
  li_FuncSig :: string
  li_FunctionProxyID :: string
  li_RouteAddress :: string
  li_AZ :: string
  li_SessionCtxID :: string
  li_IdleSince :: "time option" \<comment> \<open>\<^verbatim>\<open>None\<close> is the zero time\<close>
  li_Reclaiming :: bool

definition schedulable :: "LiteInstance \<Rightarrow> bool" where
  "schedulable ins \<longleftrightarrow> li_Status ins = InstanceStatusRunning \<or> li_Status ins = InstanceStatusSubHealth"

definition has_room :: "int \<Rightarrow> LiteInstance \<Rightarrow> bool" where
  "has_room concurrency ins \<longleftrightarrow> concurrency \<le> li_Capacity ins - li_InUse ins"

section \<open>Lowest load first\<close>

text \<open>
  The score is a quotient of two integers, plus a penalty. The model computes it exactly; the code
  computes it in double precision, whose rounding cannot merge or swap two different scores while
  the capacities stay below \<open>2 ^ 25\<close>. \<^verbatim>\<open>math.MaxFloat64\<close> as the first best score is no score yet.
\<close>

abbreviation (input) subHealthPenalty :: rat where "subHealthPenalty \<equiv> 1"

definition load_score :: "LiteInstance \<Rightarrow> rat" where
  "load_score ins =
     (let score = of_int (li_InUse ins) / of_int (li_Capacity ins)
      in if li_Status ins = InstanceStatusSubHealth then score + subHealthPenalty else score)"

fun conc_scan :: "int \<Rightarrow> (rat \<times> LiteInstance) option \<Rightarrow> LiteInstance list \<Rightarrow> LiteInstance option" where
  "conc_scan concurrency best [] = map_option snd best"
| "conc_scan concurrency best (ins # rest) =
     (if li_Capacity ins \<le> 0 \<or> li_Capacity ins - li_InUse ins < concurrency
      then conc_scan concurrency best rest
      else
        let score = load_score ins in
        if (case best of None \<Rightarrow> True | Some (bestScore, _) \<Rightarrow> score < bestScore)
        then conc_scan concurrency (Some (score, ins)) rest
        else conc_scan concurrency best rest)"

definition concurrency_Select :: "LiteInstance list \<Rightarrow> int \<Rightarrow> LiteInstance option" where
  "concurrency_Select slots concurrency =
     (if concurrency \<le> 0 then None else conc_scan concurrency None slots)"

section \<open>Round robin\<close>

text \<open>
  One pass of the cursor over the slots: the first index, counted from the cursor, whose slot has
  the given status and room.
\<close>

definition rr_scan :: "LiteInstance list \<Rightarrow> nat \<Rightarrow> InstanceStatus \<Rightarrow> int \<Rightarrow> nat option" where
  "rr_scan slots cur status concurrency =
     find (\<lambda>idx. li_Status (slots ! idx) = status \<and>
                 li_Capacity (slots ! idx) - li_InUse (slots ! idx) \<ge> concurrency)
       (map (\<lambda>off. (cur + off) mod length slots) [0..<length slots])"

definition roundRobin_Select :: "nat \<Rightarrow> LiteInstance list \<Rightarrow> int \<Rightarrow> LiteInstance option \<times> nat" where
  "roundRobin_Select curIndex slots concurrency =
     (let n = length slots in
      if n = 0 then (None, curIndex)
      else if concurrency \<le> 0 then (None, curIndex)
      else
        let cur = (if curIndex \<ge> n then curIndex mod n else curIndex) in
        case rr_scan slots cur InstanceStatusRunning concurrency of
          Some idx \<Rightarrow> (Some (slots ! idx), (idx + 1) mod n)
        | None \<Rightarrow>
            (case rr_scan slots cur InstanceStatusSubHealth concurrency of
               Some idx \<Rightarrow> (Some (slots ! idx), (idx + 1) mod n)
             | None \<Rightarrow> (None, cur)))"

section \<open>Dispatchers\<close>

datatype Dispatcher = concurrencyDispatcher | roundRobinDispatcher nat

abbreviation (input) InstanceSchedulePolicyConcurrency :: string where
  "InstanceSchedulePolicyConcurrency \<equiv> ''concurrency''"
abbreviation (input) InstanceSchedulePolicyRoundRobin :: string where
  "InstanceSchedulePolicyRoundRobin \<equiv> ''round-robin''"

fun dispatcher_Select :: "Dispatcher \<Rightarrow> LiteInstance list \<Rightarrow> int \<Rightarrow> LiteInstance option \<times> Dispatcher" where
  "dispatcher_Select concurrencyDispatcher slots concurrency =
     (concurrency_Select slots concurrency, concurrencyDispatcher)"
| "dispatcher_Select (roundRobinDispatcher cur) slots concurrency =
     (case roundRobin_Select cur slots concurrency of (r, cur') \<Rightarrow> (r, roundRobinDispatcher cur'))"

fun dispatcher_Policy :: "Dispatcher \<Rightarrow> string" where
  "dispatcher_Policy concurrencyDispatcher = InstanceSchedulePolicyConcurrency"
| "dispatcher_Policy (roundRobinDispatcher _) = InstanceSchedulePolicyRoundRobin"

text \<open>\<^verbatim>\<open>newDispatcher\<close> on the schedule policy of the function specification (\<^verbatim>\<open>None\<close>: no specification).\<close>

definition newDispatcher :: "string option \<Rightarrow> Dispatcher" where
  "newDispatcher policy =
     (case policy of
        None \<Rightarrow> concurrencyDispatcher
      | Some p \<Rightarrow> if p = [] then concurrencyDispatcher
                  else if p = InstanceSchedulePolicyRoundRobin then roundRobinDispatcher 0
                  else concurrencyDispatcher)"

section \<open>The contract of a dispatcher\<close>

text \<open>
  What the scheduler relies on: a selected slot is one of the offered slots and has room; on
  schedulable slots nothing is selected only if no slot has room; nothing is selected for a
  concurrency below one.
\<close>

locale slot_selector =
  fixes select :: "'d \<Rightarrow> LiteInstance list \<Rightarrow> int \<Rightarrow> LiteInstance option \<times> 'd"
  assumes select_sound: "fst (select d slots c) = Some ins \<Longrightarrow> ins \<in> set slots \<and> has_room c ins \<and> 0 < c"
    and select_complete: "fst (select d slots c) = None \<Longrightarrow> 0 < c \<Longrightarrow> ins \<in> set slots \<Longrightarrow>
      schedulable ins \<Longrightarrow> 0 \<le> li_InUse ins \<Longrightarrow> \<not> has_room c ins"
begin

lemma select_none_iff:
  assumes "0 < c" "\<forall>ins\<in>set slots. schedulable ins \<and> 0 \<le> li_InUse ins"
  shows "fst (select d slots c) = None \<longleftrightarrow> (\<forall>ins\<in>set slots. \<not> has_room c ins)"
  using assms select_complete select_sound by (metis not_Some_eq)

lemma select_within_capacity:
  assumes "fst (select d slots c) = Some ins" "1 \<le> k" "k \<le> c"
  shows "li_InUse ins + k \<le> li_Capacity ins"
  using select_sound [OF assms(1)] assms by (simp add: has_room_def)

end

section \<open>The load policy keeps the contract\<close>

lemma conc_scan_cases:
  "conc_scan c best slots = Some ins \<Longrightarrow>
     best = Some (s, ins) \<or> (\<exists>s. best = Some (s, ins)) \<or>
     ins \<in> set slots \<and> 0 < li_Capacity ins \<and> has_room c ins"
  by (induction c best slots rule: conc_scan.induct)
    (auto simp: Let_def has_room_def split: if_splits option.splits)

lemma conc_scan_some:
  assumes "best \<noteq> None \<or> (\<exists>ins\<in>set slots. 0 < li_Capacity ins \<and> has_room c ins)"
  shows "\<exists>ins. conc_scan c best slots = Some ins"
  using assms
  by (induction c best slots rule: conc_scan.induct)
    (auto simp: Let_def has_room_def split: if_splits option.splits prod.splits)

lemma conc_scan_least:
  assumes "conc_scan c best slots = Some ins" "case best of None \<Rightarrow> True | Some (s, b) \<Rightarrow> s = load_score b"
  shows "(\<forall>b. best = Some b \<longrightarrow> load_score ins \<le> fst b) \<and>
    (\<forall>x\<in>set slots. 0 < li_Capacity x \<and> has_room c x \<longrightarrow> load_score ins \<le> load_score x)"
  using assms
proof (induction c best slots rule: conc_scan.induct)
  case (1 c best)
  then show ?case by auto
next
  case (2 c best x rest)
  show ?case
  proof (cases "li_Capacity x \<le> 0 \<or> li_Capacity x - li_InUse x < c")
    case True
    then have "\<not> (0 < li_Capacity x \<and> has_room c x)" by (auto simp: has_room_def)
    with 2(1) [OF True] 2(4,5) True show ?thesis by auto
  next
    case False
    show ?thesis
    proof (cases "case best of None \<Rightarrow> True | Some (bs, _) \<Rightarrow> load_score x < bs")
      case better: True
      with False 2(4) have "conc_scan c (Some (load_score x, x)) rest = Some ins" by (simp add: Let_def)
      from 2(2) [OF False refl better this] better show ?thesis by (auto split: option.splits)
    next
      case worse: False
      with False 2(4) have "conc_scan c best rest = Some ins" by (simp add: Let_def)
      from 2(3) [OF False refl worse this 2(5)] worse show ?thesis by (fastforce split: option.splits)
    qed
  qed
qed

lemma concurrency_Select_sound:
  "concurrency_Select slots c = Some ins \<Longrightarrow> ins \<in> set slots \<and> 0 < li_Capacity ins \<and> has_room c ins \<and> 0 < c"
  using conc_scan_cases [of c None slots ins] by (auto simp: concurrency_Select_def split: if_splits)

lemma concurrency_Select_complete:
  assumes "concurrency_Select slots c = None" "0 < c" "ins \<in> set slots" "0 \<le> li_InUse ins"
  shows "\<not> has_room c ins"
proof
  assume "has_room c ins"
  then have "0 < li_Capacity ins" using assms by (simp add: has_room_def)
  with \<open>has_room c ins\<close> assms conc_scan_some [of None slots c] show False
    by (auto simp: concurrency_Select_def split: if_splits)
qed

section \<open>The round-robin policy keeps the contract\<close>

lemma rr_indices: "n \<noteq> 0 \<Longrightarrow> set (map (\<lambda>off. (cur + off) mod n) [0..<n]) = {0..<n}"
proof -
  assume n: "n \<noteq> 0"
  have "\<exists>off<n. (cur + off) mod n = i" if "i < n" for i
  proof (intro exI conjI)
    show "(i + n - cur mod n) mod n < n" using n by simp
    have "cur mod n \<le> i + n" using n by (simp add: less_imp_le trans_le_add2)
    then have "(cur mod n + (i + n - cur mod n)) mod n = (i + n) mod n" by simp
    then show "(cur + (i + n - cur mod n) mod n) mod n = i"
      using that by (metis mod_add_left_eq mod_add_right_eq mod_add_self2 mod_less)
  qed
  then show ?thesis using n by (auto simp: image_iff) (metis atLeastLessThan_iff le0)
qed

lemma rr_scan_Some:
  "rr_scan slots cur st c = Some idx \<Longrightarrow>
     idx < length slots \<and> li_Status (slots ! idx) = st \<and> has_room c (slots ! idx)"
  by (auto simp: rr_scan_def find_Some_iff has_room_def intro!: mod_less_divisor)

lemma rr_scan_None:
  assumes "rr_scan slots cur st c = None" "ins \<in> set slots" "li_Status ins = st"
  shows "\<not> has_room c ins"
proof -
  have ne: "length slots \<noteq> 0" using assms(2) by auto
  obtain i where i: "i < length slots" "ins = slots ! i" using assms(2) by (metis in_set_conv_nth)
  then have "i \<in> set (map (\<lambda>off. (cur + off) mod length slots) [0..<length slots])"
    unfolding rr_indices [OF ne] by simp
  with assms(1,3) i show ?thesis by (auto simp: rr_scan_def find_None_iff has_room_def)
qed

lemma roundRobin_Select_sound:
  "fst (roundRobin_Select cur slots c) = Some ins \<Longrightarrow> ins \<in> set slots \<and> schedulable ins \<and> has_room c ins \<and> 0 < c"
  by (auto simp: roundRobin_Select_def Let_def schedulable_def dest!: rr_scan_Some
      split: if_splits option.splits)

lemma roundRobin_Select_complete:
  assumes "fst (roundRobin_Select cur slots c) = None" "0 < c" "ins \<in> set slots" "schedulable ins"
  shows "\<not> has_room c ins"
  using assms rr_scan_None [of slots _ _ c ins]
  by (auto simp: roundRobin_Select_def Let_def schedulable_def split: if_splits option.splits)

interpretation load: slot_selector "\<lambda>_::unit. \<lambda>slots c. (concurrency_Select slots c, ())"
  by unfold_locales (auto dest: concurrency_Select_sound concurrency_Select_complete)

interpretation rr: slot_selector roundRobin_Select
  by unfold_locales (auto dest: roundRobin_Select_sound roundRobin_Select_complete)

lemma fst_dispatcher_Select:
  "fst (dispatcher_Select (roundRobinDispatcher cur) slots c) = fst (roundRobin_Select cur slots c)"
  by (simp split: prod.splits)

interpretation dispatch: slot_selector dispatcher_Select
proof (unfold_locales, goal_cases)
  case (1 d slots c ins)
  then show ?case
  proof (cases d)
    case (roundRobinDispatcher cur)
    with 1 show ?thesis using rr.select_sound by (simp only: fst_dispatcher_Select)
  qed (use 1 load.select_sound in simp)
next
  case (2 d slots c ins)
  then show ?case
  proof (cases d)
    case (roundRobinDispatcher cur)
    with 2 have "fst (roundRobin_Select cur slots c) = None" by (simp only: fst_dispatcher_Select)
    with 2 show ?thesis by (intro rr.select_complete) auto
  qed (use 2 load.select_complete in simp)
qed

section \<open>Properties\<close>

lemma load_score_running:
  "has_room c ins \<Longrightarrow> 0 < c \<Longrightarrow> 0 < li_Capacity ins \<Longrightarrow> li_Status ins = InstanceStatusRunning \<Longrightarrow> load_score ins < 1"
  by (simp add: load_score_def has_room_def)

lemma load_score_subhealth:
  "0 \<le> li_InUse ins \<Longrightarrow> 0 < li_Capacity ins \<Longrightarrow> li_Status ins = InstanceStatusSubHealth \<Longrightarrow> 1 \<le> load_score ins"
  by (simp add: load_score_def)

text \<open>
  The load dispatcher returns a slot with room for the request and the least score among the
  slots with room, and never a sub-healthy slot while a running one has room; it returns nothing
  exactly when the request asks for no unit or no slot has room.
\<close>

theorem concurrency_Select_optimal:
  assumes "\<forall>x\<in>set slots. 0 \<le> li_InUse x"
  shows "case concurrency_Select slots c of
      Some ins \<Rightarrow> ins \<in> set slots \<and> has_room c ins \<and>
        (\<forall>x\<in>set slots. has_room c x \<longrightarrow> load_score ins \<le> load_score x) \<and>
        (li_Status ins = InstanceStatusSubHealth \<longrightarrow>
          (\<forall>x\<in>set slots. li_Status x = InstanceStatusRunning \<longrightarrow> \<not> has_room c x))
    | None \<Rightarrow> c \<le> 0 \<or> (\<forall>x\<in>set slots. \<not> has_room c x)"
proof (cases "concurrency_Select slots c")
  case None
  with assms concurrency_Select_complete show ?thesis by (fastforce split: option.splits)
next
  case (Some ins)
  have s: "ins \<in> set slots" "0 < li_Capacity ins" "has_room c ins" "0 < c"
    using concurrency_Select_sound [OF Some] by auto
  have cap: "0 < li_Capacity x" if "x \<in> set slots" "has_room c x" for x
    using that assms s(4) by (fastforce simp: has_room_def)
  have least: "load_score ins \<le> load_score x" if "x \<in> set slots" "has_room c x" for x
    using conc_scan_least [of c None slots ins] Some cap that
    by (auto simp: concurrency_Select_def split: if_splits)
  have "\<not> has_room c x"
    if "li_Status ins = InstanceStatusSubHealth" "x \<in> set slots" "li_Status x = InstanceStatusRunning" for x
    using that least [of x] load_score_running [of c x] load_score_subhealth [of ins] s cap assms
    by fastforce
  with s least Some show ?thesis by simp
qed

text \<open>
  The round-robin dispatcher is fair: on a stable list of running slots that all have room, as
  many consecutive selections as there are slots hand out every slot exactly once, in cyclic order
  from the cursor, and leave the cursor where it was.
\<close>

fun rr_run :: "nat \<Rightarrow> nat \<Rightarrow> LiteInstance list \<Rightarrow> int \<Rightarrow> LiteInstance option list \<times> nat" where
  "rr_run 0 cur slots c = ([], cur)"
| "rr_run (Suc k) cur slots c =
     (case roundRobin_Select cur slots c of
        (r, cur') \<Rightarrow> (case rr_run k cur' slots c of (rs, cur'') \<Rightarrow> (r # rs, cur'')))"

lemma rr_scan_first:
  assumes "cur < length slots" "\<forall>x\<in>set slots. li_Status x = InstanceStatusRunning \<and> has_room c x"
  shows "rr_scan slots cur InstanceStatusRunning c = Some cur"
proof -
  have "[0..<length slots] = 0 # [1..<length slots]" using assms(1) upt_conv_Cons [of 0 "length slots"] by (cases slots) auto
  with assms show ?thesis by (simp add: rr_scan_def has_room_def)
qed

lemma roundRobin_Select_next:
  assumes "cur < length slots" "0 < c" "\<forall>x\<in>set slots. li_Status x = InstanceStatusRunning \<and> has_room c x"
  shows "roundRobin_Select cur slots c = (Some (slots ! cur), (cur + 1) mod length slots)"
  using assms rr_scan_first [OF assms(1,3)] by (auto simp: roundRobin_Select_def Let_def)

lemma rr_run_cycle:
  assumes "cur < length slots" "0 < c" "\<forall>x\<in>set slots. li_Status x = InstanceStatusRunning \<and> has_room c x"
  shows "rr_run k cur slots c =
    (map (\<lambda>j. Some (slots ! ((cur + j) mod length slots))) [0..<k], (cur + k) mod length slots)"
  using assms(1)
proof (induction k arbitrary: cur)
  case (Suc k)
  let ?n = "length slots"
  have "Suc cur mod ?n < ?n" using Suc.prems by (intro mod_less_divisor) auto
  note ih = Suc.IH [OF this]
  have shift: "(Suc cur mod ?n + j) mod ?n = (cur + Suc j) mod ?n" for j by (simp add: mod_add_left_eq)
  have "[0..<Suc k] = 0 # map Suc [0..<k]" by (simp add: map_Suc_upt upt_conv_Cons)
  then show ?case
    using roundRobin_Select_next [OF Suc.prems assms(2,3)] ih Suc.prems
    by (simp add: shift del: upt_Suc)
qed simp

theorem roundRobin_fair:
  assumes "cur < length slots" "0 < c" "\<forall>x\<in>set slots. li_Status x = InstanceStatusRunning \<and> has_room c x"
  shows "rr_run (length slots) cur slots c = (map Some (rotate cur slots), cur)"
proof -
  have "map (\<lambda>j. Some (slots ! ((cur + j) mod length slots))) [0..<length slots] = map Some (rotate cur slots)"
    by (rule nth_equalityI) (simp_all add: nth_rotate)
  then show ?thesis using rr_run_cycle [OF assms, of "length slots"] assms(1) by simp
qed

section \<open>Witnesses\<close>

definition sample_slot :: "string \<Rightarrow> int \<Rightarrow> int \<Rightarrow> InstanceStatus \<Rightarrow> LiteInstance" where
  "sample_slot i cap used st =
     \<lparr>li_InstanceID = i, li_FuncKey = ''t/f/1'', li_Capacity = cap, li_InUse = used, li_Status = st,
      li_InstanceIP = [], li_InstancePort = [], li_NodeIP = [], li_NodePort = [], li_FuncSig = [],
      li_FunctionProxyID = [], li_RouteAddress = [], li_AZ = [], li_SessionCtxID = [],
      li_IdleSince = None, li_Reclaiming = False\<rparr>"

theorem concurrency_Select_optimal_witness:
  "concurrency_Select [sample_slot ''a'' 10 0 InstanceStatusSubHealth,
      sample_slot ''b'' 10 9 InstanceStatusRunning, sample_slot ''c'' 10 5 InstanceStatusRunning] 1
   = Some (sample_slot ''c'' 10 5 InstanceStatusRunning) \<and>
   load_score (sample_slot ''c'' 10 5 InstanceStatusRunning) \<le>
     load_score (sample_slot ''b'' 10 9 InstanceStatusRunning)"
proof -
  let ?s = "[sample_slot ''a'' 10 0 InstanceStatusSubHealth,
      sample_slot ''b'' 10 9 InstanceStatusRunning, sample_slot ''c'' 10 5 InstanceStatusRunning]"
  have sel: "concurrency_Select ?s 1 = Some (sample_slot ''c'' 10 5 InstanceStatusRunning)"
    by (simp add: concurrency_Select_def load_score_def sample_slot_def)
  have "\<forall>x\<in>set ?s. 0 \<le> li_InUse x" by (simp add: sample_slot_def)
  from concurrency_Select_optimal [OF this, of 1] show ?thesis
    unfolding sel by (simp add: has_room_def sample_slot_def)
qed

theorem roundRobin_fair_witness:
  "rr_run 3 1 [sample_slot ''a'' 2 0 InstanceStatusRunning, sample_slot ''b'' 2 0 InstanceStatusRunning,
      sample_slot ''c'' 2 0 InstanceStatusRunning] 1 =
   ([Some (sample_slot ''b'' 2 0 InstanceStatusRunning), Some (sample_slot ''c'' 2 0 InstanceStatusRunning),
     Some (sample_slot ''a'' 2 0 InstanceStatusRunning)], 1)"
  using roundRobin_fair [of 1 "[sample_slot ''a'' 2 0 InstanceStatusRunning,
      sample_slot ''b'' 2 0 InstanceStatusRunning, sample_slot ''c'' 2 0 InstanceStatusRunning]" 1]
  by (simp add: sample_slot_def has_room_def numeral_3_eq_3)

end
