(* ===== verification/LitePool.thy ===== *)
theory LitePool
  imports LiteAlloc LiteDispatch SessionCoord
begin

text \<open>
  The function pool of the session scheduler (\<^verbatim>\<open>litescheduler/pool.go\<close>) and its wrapper of the
  session store (\<^verbatim>\<open>litescheduler/sessionstore.go\<close>): slots, session bindings with their reserved
  and handed-out units, and the operations the callers run under the pool's lock.

  A pool holds pointers to bindings and slots. A binding is only reached through its map entry and
  through the closure of its idle timer, which compares pointers, so a binding carries its identity
  (\<open>sb_ptr\<close>). A slot is only mutated through the map entry of its instance ID.
\<close>

section \<open>Data\<close>

record FunctionSpecification =
  fs_FuncKey :: string
  fs_EnableSessionCtx :: bool
  fs_ConcurrentNum :: int
  fs_SchedulePolicy :: string

text \<open>The fields of \<^verbatim>\<open>types.Instance\<close> that the pool reads.\<close>

record Instance =
  in_InstanceID :: string
  in_FuncKey :: string
  in_ConcurrentNum :: int
  in_Code :: int
  in_InstanceIP :: string
  in_InstancePort :: string
  in_NodeIP :: string
  in_NodePort :: string
  in_FuncSig :: string
  in_FunctionProxyID :: string
  in_RouteAddress :: string
  in_AZ :: string
  in_SessionCtxID :: "string option"

record sessionBinding =
  sb_ptr :: nat
  sb_instanceID :: string
  sb_reserved :: int
  sb_activeAllocs :: int
  sb_timer :: "nat option"
  sb_expiring :: bool

record liteSessionStore =
  ss_coord :: Coordinator
  ss_schedulerID :: string

record LiteFunctionPool =
  lp_funcKey :: string
  lp_funcSpec :: "FunctionSpecification option"
  lp_instances :: "(string, LiteInstance) gomap"
  lp_sessions :: "(string, sessionBinding) gomap"
  lp_dispatcher :: Dispatcher
  lp_sessionStore :: "liteSessionStore option"
  lp_seqCounter :: "64 word"
  lp_nextPtr :: nat

record PoolStats =
  ps_FuncKey :: string
  ps_TenantID :: string
  ps_InstanceCount :: int
  ps_Capacity :: int
  ps_InUse :: int
  ps_SessionCount :: int
  ps_Policy :: string

datatype stickyResult = stickyMiss | stickyHit | stickyFull

text \<open>The request of \<^verbatim>\<open>litescheduler/request.go\<close>; its logger is left out.\<close>

record LiteRequest =
  rq_Op :: string
  rq_FuncKey :: string
  rq_TenantID :: string
  rq_SessionID :: string
  rq_SessionCtxID :: string
  rq_SessionTTL :: int
  rq_Concurrency :: int
  rq_AllocationIDs :: "string list"
  rq_ExtraData :: string
  rq_MetricsData :: string
  rq_TraceID :: string
  rq_NeedReverseLookup :: bool
  rq_startTime :: time
  rq_bindingKey :: string

section \<open>The session store of a pool\<close>

definition newLiteSessionStore :: "storeSettings \<Rightarrow> string \<Rightarrow> liteSessionStore" where
  "newLiteSessionStore g funcKey =
     \<lparr>ss_coord = NewCoordinator (MakeStore g funcKey), ss_schedulerID = st_PodIP g\<rparr>"

definition saveSessionToStore ::
  "string \<Rightarrow> string \<Rightarrow> LiteRequest \<Rightarrow> liteSessionStore option \<Rightarrow> liteSessionStore option" where
  "saveSessionToStore sessionKey instanceID req s =
     (case s of
        None \<Rightarrow> None
      | Some s' \<Rightarrow>
          map_option (\<lambda>c. s'\<lparr>ss_coord := c\<rparr>)
            (SaveRecord sessionKey
               \<lparr>sr_InstanceID = instanceID, sr_SchedulerID = ss_schedulerID s',
                sr_SessionID = rq_SessionID req, sr_SessionCtxID = rq_SessionCtxID req,
                sr_SessionTTL = rq_SessionTTL req, sr_Concurrency = rq_Concurrency req,
                sr_UpdatedAtUnixNs = 0\<rparr> (Some (ss_coord s'))))"

definition deleteSessionFromStore :: "string \<Rightarrow> liteSessionStore option \<Rightarrow> liteSessionStore option" where
  "deleteSessionFromStore sessionID s =
     (case s of
        None \<Rightarrow> None
      | Some s' \<Rightarrow> map_option (\<lambda>c. s'\<lparr>ss_coord := c\<rparr>) (DeleteRecord sessionID (Some (ss_coord s'))))"

definition getSessionFromStore ::
  "'w kvClient \<Rightarrow> recordCodec \<Rightarrow> 'w \<Rightarrow> string \<Rightarrow> liteSessionStore option \<Rightarrow> store_error + StoreRecord option"
where
  "getSessionFromStore kv codec w sessionID s =
     (case s of None \<Rightarrow> Inr None | Some s' \<Rightarrow> GetRecord kv codec w sessionID (Some (ss_coord s')))"

definition cleanExternalRecords :: "string list \<Rightarrow> liteSessionStore option \<Rightarrow> liteSessionStore option" where
  "cleanExternalRecords sessionIDs s =
     (case s of
        None \<Rightarrow> None
      | Some s' \<Rightarrow> map_option (\<lambda>c. s'\<lparr>ss_coord := c\<rparr>) (CleanRecords sessionIDs (Some (ss_coord s'))))"

definition ss_stop :: "liteSessionStore option \<Rightarrow> liteSessionStore option" where
  "ss_stop s =
     (case s of
        None \<Rightarrow> None
      | Some s' \<Rightarrow> map_option (\<lambda>c. s'\<lparr>ss_coord := c\<rparr>) (co_Stop (Some (ss_coord s'))))"

section \<open>Slots of a pool\<close>

definition mapStatus :: "int \<Rightarrow> InstanceStatus" where
  "mapStatus code =
     (if code = 3 then InstanceStatusRunning
      else if code = 11 then InstanceStatusSubHealth
      else InstanceStatusUnavailable)"

definition instanceSessionCtxID :: "Instance option \<Rightarrow> string" where
  "instanceSessionCtxID ins =
     (case ins of
        None \<Rightarrow> []
      | Some i \<Rightarrow> (case in_SessionCtxID i of None \<Rightarrow> [] | Some c \<Rightarrow> c))"

definition buildLiteInstanceFromInstance :: "Instance option \<Rightarrow> LiteInstance option" where
  "buildLiteInstanceFromInstance ins =
     (case ins of
        None \<Rightarrow> None
      | Some i \<Rightarrow> Some
          \<lparr>li_InstanceID = in_InstanceID i, li_FuncKey = in_FuncKey i,
           li_Capacity = in_ConcurrentNum i, li_InUse = 0, li_Status = mapStatus (in_Code i),
           li_InstanceIP = in_InstanceIP i, li_InstancePort = in_InstancePort i,
           li_NodeIP = in_NodeIP i, li_NodePort = in_NodePort i, li_FuncSig = in_FuncSig i,
           li_FunctionProxyID = in_FunctionProxyID i, li_RouteAddress = in_RouteAddress i,
           li_AZ = in_AZ i, li_SessionCtxID = instanceSessionCtxID (Some i),
           li_IdleSince = None, li_Reclaiming = False\<rparr>)"

definition candidateSlotsLocked ::
  "((string, LiteInstance) gomap \<Rightarrow> string list) \<Rightarrow> LiteFunctionPool \<Rightarrow> string \<Rightarrow> int \<Rightarrow> LiteInstance list"
where
  "candidateSlotsLocked ord p sessionCtxID concurrency =
     filter (\<lambda>ins. li_SessionCtxID ins = sessionCtxID \<and> \<not> li_Reclaiming ins \<and>
              (li_Status ins = InstanceStatusRunning \<or> li_Status ins = InstanceStatusSubHealth) \<and>
              li_Capacity ins - li_InUse ins \<ge> concurrency)
       (map (\<lambda>i. the (fmlookup (lp_instances p) i)) (ord (lp_instances p)))"

definition sessionBindingKey :: "LiteFunctionPool \<Rightarrow> string \<Rightarrow> string \<Rightarrow> string" where
  "sessionBindingKey p sessionID sessionCtxID =
     (case lp_funcSpec p of
        None \<Rightarrow> sessionID
      | Some spec \<Rightarrow>
          if \<not> fs_EnableSessionCtx spec then sessionID else JoinKey [sessionID, sessionCtxID])"

definition instanceConcurrentNum :: "LiteFunctionPool \<Rightarrow> int" where
  "instanceConcurrentNum p = (case lp_funcSpec p of None \<Rightarrow> 0 | Some spec \<Rightarrow> fs_ConcurrentNum spec)"

definition currentInUse :: "LiteFunctionPool \<Rightarrow> int" where
  "currentInUse p = fmsum (\<lambda>_. li_InUse) (lp_instances p)"

definition currentCapacity :: "LiteFunctionPool \<Rightarrow> int" where
  "currentCapacity p = fmsum (\<lambda>_. li_Capacity) (lp_instances p)"

definition instanceByID :: "LiteFunctionPool \<Rightarrow> string \<Rightarrow> LiteInstance option" where
  "instanceByID p i = fmlookup (lp_instances p) i"

definition lite_Stats :: "LiteFunctionPool \<Rightarrow> PoolStats" where
  "lite_Stats p =
     \<lparr>ps_FuncKey = lp_funcKey p, ps_TenantID = fk_tenantID (splitFuncKey (lp_funcKey p)),
      ps_InstanceCount = fmcount (\<lambda>_. schedulable) (lp_instances p),
      ps_Capacity = fmsum (\<lambda>_ ins. if schedulable ins then li_Capacity ins else 0) (lp_instances p),
      ps_InUse = fmsum (\<lambda>_ ins. if schedulable ins then li_InUse ins else 0) (lp_instances p),
      ps_SessionCount = int (card (fmdom' (lp_sessions p))),
      ps_Policy = dispatcher_Policy (lp_dispatcher p)\<rparr>"

definition sessionTTLFor :: "int \<Rightarrow> duration" where
  "sessionTTLFor reqTTL = (if reqTTL \<le> 0 then 0 else reqTTL * second)"

section \<open>Session bindings\<close>

definition set_inUse :: "string \<Rightarrow> int \<Rightarrow> LiteFunctionPool \<Rightarrow> LiteFunctionPool" where
  "set_inUse i n p =
     (case fmlookup (lp_instances p) i of
        None \<Rightarrow> p
      | Some slot \<Rightarrow> p\<lparr>lp_instances := fmupd i (slot\<lparr>li_InUse := n\<rparr>) (lp_instances p)\<rparr>)"

definition set_binding :: "string \<Rightarrow> sessionBinding \<Rightarrow> LiteFunctionPool \<Rightarrow> LiteFunctionPool" where
  "set_binding k b p = p\<lparr>lp_sessions := fmupd k b (lp_sessions p)\<rparr>"

definition stopTimer :: "sessionBinding \<Rightarrow> sessionBinding" where
  "stopTimer b = b\<lparr>sb_timer := None\<rparr>"

definition processInstanceInUse :: "sessionBinding \<Rightarrow> LiteFunctionPool \<Rightarrow> LiteFunctionPool" where
  "processInstanceInUse b p =
     (case fmlookup (lp_instances p) (sb_instanceID b) of
        None \<Rightarrow> p
      | Some slot \<Rightarrow>
          let held = sb_reserved b + sb_activeAllocs b
          in if held > 0 then
               if li_InUse slot \<ge> held then set_inUse (sb_instanceID b) (li_InUse slot - held) p
               else set_inUse (sb_instanceID b) 0 p
             else p)"

definition removeSessionBinding :: "string \<Rightarrow> LiteFunctionPool \<Rightarrow> LiteFunctionPool" where
  "removeSessionBinding sessionID p =
     (let p1 = (case fmlookup (lp_sessions p) sessionID of
                  None \<Rightarrow> p
                | Some b \<Rightarrow> processInstanceInUse (stopTimer b) p)
      in p1\<lparr>lp_sessions := fmdrop sessionID (lp_sessions p1),
            lp_sessionStore := deleteSessionFromStore sessionID (lp_sessionStore p1)\<rparr>)"

definition cancelSessionUnbind :: "string \<Rightarrow> LiteFunctionPool \<Rightarrow> LiteFunctionPool" where
  "cancelSessionUnbind sessionID p =
     (case fmlookup (lp_sessions p) sessionID of
        None \<Rightarrow> p
      | Some b \<Rightarrow> if \<not> sb_expiring b then p
                  else set_binding sessionID ((stopTimer b)\<lparr>sb_expiring := False\<rparr>) p)"

text \<open>
  The result of a sticky lookup; the slot and the binding it returns are the entries of the returned
  pool.
\<close>

definition tryLocalStickyLocked ::
  "string \<Rightarrow> LiteFunctionPool \<Rightarrow> LiteFunctionPool \<times> LiteInstance option \<times> sessionBinding option \<times> stickyResult"
where
  "tryLocalStickyLocked bindingKey p =
     (case fmlookup (lp_sessions p) bindingKey of
        None \<Rightarrow> (p, None, None, stickyMiss)
      | Some binding \<Rightarrow>
          (case fmlookup (lp_instances p) (sb_instanceID binding) of
             None \<Rightarrow> (removeSessionBinding bindingKey p, None, None, stickyMiss)
           | Some slot \<Rightarrow>
               if li_Status slot \<noteq> InstanceStatusRunning \<and> li_Status slot \<noteq> InstanceStatusSubHealth
               then (removeSessionBinding bindingKey p, None, None, stickyMiss)
               else if sb_reserved binding > 0 \<or> li_InUse slot < li_Capacity slot
               then (let p1 = cancelSessionUnbind bindingKey p
                     in (p1, Some slot, fmlookup (lp_sessions p1) bindingKey, stickyHit))
               else (p, Some slot, Some binding, stickyFull)))"

definition bindSessionFreshLocked :: "string \<Rightarrow> string \<Rightarrow> int \<Rightarrow> LiteFunctionPool \<Rightarrow> LiteFunctionPool" where
  "bindSessionFreshLocked bindingKey instanceID concurrency p =
     set_binding bindingKey
       \<lparr>sb_ptr = lp_nextPtr p, sb_instanceID = instanceID, sb_reserved = concurrency - 1,
        sb_activeAllocs = 1, sb_timer = None, sb_expiring = False\<rparr>
       (p\<lparr>lp_nextPtr := Suc (lp_nextPtr p)\<rparr>)"

definition bindSessionStickyTakeLocked :: "sessionBinding \<Rightarrow> sessionBinding \<times> int" where
  "bindSessionStickyTakeLocked b =
     (if sb_reserved b > 0
      then (b\<lparr>sb_reserved := sb_reserved b - 1, sb_activeAllocs := sb_activeAllocs b + 1\<rparr>, 0)
      else (b\<lparr>sb_activeAllocs := sb_activeAllocs b + 1\<rparr>, 1))"

definition release_unit :: "sessionBinding \<Rightarrow> sessionBinding" where
  "release_unit b =
     (if sb_activeAllocs b > 0
      then b\<lparr>sb_activeAllocs := sb_activeAllocs b - 1, sb_reserved := sb_reserved b + 1\<rparr> else b)"

definition unbindSessionOnRelease :: "string \<Rightarrow> LiteFunctionPool \<Rightarrow> LiteFunctionPool \<times> bool" where
  "unbindSessionOnRelease sessionID p =
     (case fmlookup (lp_sessions p) sessionID of
        None \<Rightarrow> (p, False)
      | Some binding \<Rightarrow>
          let b1 = release_unit binding
          in if sb_activeAllocs b1 > 0 \<or> sb_expiring b1 then (set_binding sessionID b1 p, False)
             else (set_binding sessionID (b1\<lparr>sb_expiring := True\<rparr>) p, True))"

section \<open>Frame lemmas\<close>

lemma set_inUse_frame [simp]:
  "lp_funcKey (set_inUse i n p) = lp_funcKey p" "lp_funcSpec (set_inUse i n p) = lp_funcSpec p"
  "lp_sessions (set_inUse i n p) = lp_sessions p" "lp_dispatcher (set_inUse i n p) = lp_dispatcher p"
  "lp_sessionStore (set_inUse i n p) = lp_sessionStore p"
  "lp_seqCounter (set_inUse i n p) = lp_seqCounter p" "lp_nextPtr (set_inUse i n p) = lp_nextPtr p"
  by (simp_all add: set_inUse_def split: option.splits)

lemma set_inUse_instances [simp]:
  "fmlookup (lp_instances (set_inUse i n p)) j =
     (if j = i then map_option (\<lambda>s. s\<lparr>li_InUse := n\<rparr>) (fmlookup (lp_instances p) i)
      else fmlookup (lp_instances p) j)"
  by (simp add: set_inUse_def split: option.splits)

lemma set_binding_frame [simp]:
  "lp_funcKey (set_binding k b p) = lp_funcKey p" "lp_funcSpec (set_binding k b p) = lp_funcSpec p"
  "lp_instances (set_binding k b p) = lp_instances p" "lp_dispatcher (set_binding k b p) = lp_dispatcher p"
  "lp_sessionStore (set_binding k b p) = lp_sessionStore p"
  "lp_seqCounter (set_binding k b p) = lp_seqCounter p" "lp_nextPtr (set_binding k b p) = lp_nextPtr p"
  "lp_sessions (set_binding k b p) = fmupd k b (lp_sessions p)"
  by (simp_all add: set_binding_def)

lemma sessionBindingKey_cong: "lp_funcSpec p = lp_funcSpec q \<Longrightarrow> sessionBindingKey p = sessionBindingKey q"
  by (intro ext) (simp add: sessionBindingKey_def)

lemma candidateSlots_sound:
  assumes "range_order ord" "ins \<in> set (candidateSlotsLocked ord p ctx c)"
  shows "\<exists>i. fmlookup (lp_instances p) i = Some ins \<and> schedulable ins \<and> has_room c ins \<and>
    li_SessionCtxID ins = ctx \<and> \<not> li_Reclaiming ins"
  using assms range_orderD(2) [OF assms(1), of "lp_instances p"]
  by (auto simp: candidateSlotsLocked_def schedulable_def has_room_def fmlookup_dom'_iff)

lemma candidateSlots_complete:
  assumes "range_order ord" "fmlookup (lp_instances p) i = Some ins" "schedulable ins" "has_room c ins"
    "li_SessionCtxID ins = ctx" "\<not> li_Reclaiming ins"
  shows "ins \<in> set (candidateSlotsLocked ord p ctx c)"
  using assms range_orderD(2) [OF assms(1), of "lp_instances p"]
  by (force simp: candidateSlotsLocked_def schedulable_def has_room_def fmlookup_dom'_iff image_iff)

text \<open>The units a binding holds on its instance.\<close>

definition held :: "sessionBinding \<Rightarrow> int" where
  "held b = sb_reserved b + sb_activeAllocs b"

lemma held_stopTimer [simp]: "held (stopTimer b) = held b" "held (b\<lparr>sb_expiring := e\<rparr>) = held b"
  "sb_instanceID (stopTimer b) = sb_instanceID b" "sb_activeAllocs (stopTimer b) = sb_activeAllocs b"
  "sb_reserved (stopTimer b) = sb_reserved b" "sb_timer (stopTimer b) = None"
  by (simp_all add: held_def stopTimer_def)

lemma held_take:
  "bindSessionStickyTakeLocked b = (b', d) \<Longrightarrow>
     held b' = held b + d \<and> sb_activeAllocs b' = sb_activeAllocs b + 1 \<and>
     sb_instanceID b' = sb_instanceID b \<and> sb_expiring b' = sb_expiring b \<and> (d = 0 \<or> d = 1 \<and> sb_reserved b \<le> 0)"
  by (auto simp: bindSessionStickyTakeLocked_def held_def split: if_splits)

lemma take_reserved: "bindSessionStickyTakeLocked b = (b', d) \<Longrightarrow> 0 \<le> sb_reserved b \<Longrightarrow> 0 \<le> sb_reserved b'"
  by (auto simp: bindSessionStickyTakeLocked_def split: if_splits)

lemma held_release [simp]: "held (release_unit b) = held b" "sb_instanceID (release_unit b) = sb_instanceID b"
  by (simp_all add: release_unit_def held_def)

end
