(* ===== verification/LiteSched.thy ===== *)
theory LiteSched
  imports LitePool TimeWheel SchedulerProxy
begin

text \<open>
  The state of the session scheduler (\<^verbatim>\<open>litescheduler/litescheduler.go\<close>), the lease timers
  (\<^verbatim>\<open>expiry.go\<close>) and the request handlers (\<^verbatim>\<open>operation.go\<close>): acquire with its phases, release,
  the idle unbinding of sessions, retain with the recovery of lost allocations, batch retain, and the
  entry point \<^verbatim>\<open>Process\<close>.

  Every function below that takes a state is one critical section of the code, or the composition of
  the sections a handler goes through. The clock, the configuration, the iteration order of maps, the
  JSON decoders and the scale-hint sender are fields of the environment \<open>liteEnv\<close>.
\<close>

section \<open>State\<close>

text \<open>An idle timer: the arguments of its callback \<^verbatim>\<open>fireSessionUnbind\<close> and its duration.\<close>

record idleTimer =
  it_pool :: nat
  it_session :: string
  it_binding :: nat
  it_ttl :: duration

datatype metricEvent =
    incAcquire string string string string
  | incRelease string string string string
  | incRetain string string string string
  | incScaleHint string string string

text \<open>
  The scheduler. Pools are heap objects: \<open>ls_pools\<close> maps function keys to pointers into \<open>ls_heap\<close>,
  because a waiting acquire and an idle timer keep the pointer of a pool that may have been deleted.
\<close>

record LiteScheduler =
  ls_pools :: "(string, nat) gomap"
  ls_heap :: "(nat, LiteFunctionPool) gomap"
  ls_nextPool :: nat
  ls_allocations :: "(string, Allocation) gomap"
  ls_ownerProxy :: "SchedulerProxy option"
  ls_metrics :: "metricEvent list option"
  ls_stopped :: bool
  ls_insSynced :: bool
  ls_funcSpecSynced :: bool
  ls_expiryWheel :: "SimpleTimeWheel option"
  ls_timers :: "(nat, idleTimer) gomap"
  ls_nextTimer :: nat

record InstanceThreadMetrics =
  itm_FunctionKey :: string
  itm_ReacquireData :: string

record InstanceSessionConfig =
  isc_SessionID :: string
  isc_SessionTTL :: int
  isc_Concurrency :: int

record ScaleHint =
  sh_FuncKey :: string
  sh_TenantID :: string
  sh_SessionID :: string
  sh_SessionCtxID :: string
  sh_Reason :: string
  sh_RequestedConcurrency :: int
  sh_CurrentLocalConcurrency :: int
  sh_CurrentLocalCapacity :: int
  sh_SchedulerID :: string
  sh_TraceID :: string
  sh_RequestID :: string

record ScaleHintResponse =
  shr_ErrorCode :: int
  shr_ErrorMessage :: string

text \<open>The JSON decoders: of the outer extra data, of a session configuration, of retain metrics.\<close>

record liteCodec =
  cd_extra :: "string \<Rightarrow> (string, string) gomap option"
  cd_session :: "string \<Rightarrow> InstanceSessionConfig option"
  cd_metrics :: "string \<Rightarrow> InstanceThreadMetrics option"
  cd_batch :: "string \<Rightarrow> (string, InstanceThreadMetrics option) gomap"

record liteEnv =
  ev_cfg :: LiteConfig
  ev_self :: selfIdentity
  ev_now :: time
  ev_store :: storeSettings
  ev_codec :: liteCodec
  ev_instances :: "(string, LiteInstance) gomap \<Rightarrow> string list"
  ev_sessions :: "(string, sessionBinding) gomap \<Rightarrow> string list"
  ev_allocs :: "(string, Allocation) gomap \<Rightarrow> string list"
  ev_pools :: "(string, nat) gomap \<Rightarrow> string list"
  ev_sender :: "(ScaleHint \<Rightarrow> ScaleHintResponse option) option"

definition lite_New :: "SchedulerProxy option \<Rightarrow> LiteScheduler" where
  "lite_New ownerProxy =
     \<lparr>ls_pools = fmempty, ls_heap = fmempty, ls_nextPool = 0, ls_allocations = fmempty,
      ls_ownerProxy = ownerProxy, ls_metrics = Some [], ls_stopped = False, ls_insSynced = False,
      ls_funcSpecSynced = False, ls_expiryWheel = Some (NewSimpleTimeWheel (5 * millisecond) 100),
      ls_timers = fmempty, ls_nextTimer = 0\<rparr>"

definition getPool :: "LiteScheduler \<Rightarrow> string \<Rightarrow> nat option" where
  "getPool s funcKey = fmlookup (ls_pools s) funcKey"

definition pool_at :: "LiteScheduler \<Rightarrow> nat \<Rightarrow> LiteFunctionPool option" where
  "pool_at s pp = fmlookup (ls_heap s) pp"

definition put_pool :: "nat \<Rightarrow> LiteFunctionPool \<Rightarrow> LiteScheduler \<Rightarrow> LiteScheduler" where
  "put_pool pp p s = s\<lparr>ls_heap := fmupd pp p (ls_heap s)\<rparr>"

definition count_metric :: "metricEvent \<Rightarrow> LiteScheduler \<Rightarrow> LiteScheduler" where
  "count_metric e s = s\<lparr>ls_metrics := map_option (\<lambda>es. es @ [e]) (ls_metrics s)\<rparr>"

section \<open>Responses\<close>

record InstanceResponse =
  ir_FuncKey :: string
  ir_FuncSig :: string
  ir_InstanceID :: string
  ir_ThreadID :: string
  ir_InstanceIP :: string
  ir_InstancePort :: string
  ir_NodeIP :: string
  ir_NodePort :: string
  ir_FunctionProxyID :: string
  ir_RouteAddress :: string
  ir_LeaseInterval :: int
  ir_ErrorCode :: int
  ir_ErrorMessage :: string
  ir_SchedulerTime :: duration

abbreviation (input) InsReqSuccessCode :: int where "InsReqSuccessCode \<equiv> 6030"
abbreviation (input) LeaseExpireOrDeletedErrorCode :: int where "LeaseExpireOrDeletedErrorCode \<equiv> 6036"
abbreviation (input) InternalErrorCode :: int where "InternalErrorCode \<equiv> 330404"
abbreviation (input) InstanceSessionInvalidErrCode :: int where "InstanceSessionInvalidErrCode \<equiv> 4037"
abbreviation (input) FuncMetaNotFoundErrCode :: int where "FuncMetaNotFoundErrCode \<equiv> 150424"
abbreviation (input) InstanceNotFoundErrCode :: int where "InstanceNotFoundErrCode \<equiv> 150425"
abbreviation (input) InstanceStatusAbnormalCode :: int where "InstanceStatusAbnormalCode \<equiv> 150427"
abbreviation (input) NoInstanceAvailableErrCode :: int where "NoInstanceAvailableErrCode \<equiv> 150431"
abbreviation (input) LeaseIDIllegalCode :: int where "LeaseIDIllegalCode \<equiv> 150462"
abbreviation (input) LeaseIDNotFoundCode :: int where "LeaseIDNotFoundCode \<equiv> 150463"
abbreviation (input) AcquireNonOwnerSchedulerErrorCode :: int where
  "AcquireNonOwnerSchedulerErrorCode \<equiv> 150464"

abbreviation (input) FuncMetaNotFoundErrMsg :: string where
  "FuncMetaNotFoundErrMsg \<equiv> ''function metadata not found''"
abbreviation (input) InstanceNotFoundErrMsg :: string where "InstanceNotFoundErrMsg \<equiv> ''instance not exist''"
abbreviation (input) LeaseIDIllegalMsg :: string where "LeaseIDIllegalMsg \<equiv> ''lease id is illegal''"
abbreviation (input) LeaseIDNotFoundMsg :: string where "LeaseIDNotFoundMsg \<equiv> ''lease id is not found''"
abbreviation (input) LeaseErrorInstanceIsAbnormalMessage :: string where
  "LeaseErrorInstanceIsAbnormalMessage \<equiv> ''lease op failed, instance is abnormal''"

definition liteTTL :: "LiteConfig \<Rightarrow> duration" where
  "liteTTL cfg =
     (let ttl = lc_LeaseSpan cfg * millisecond
      in if ttl < 500 * millisecond then 500 * millisecond else ttl)"

definition liteErrResp :: "liteEnv \<Rightarrow> int \<Rightarrow> string \<Rightarrow> time \<Rightarrow> InstanceResponse" where
  "liteErrResp env code msg startTime =
     \<lparr>ir_FuncKey = [], ir_FuncSig = [], ir_InstanceID = [], ir_ThreadID = [], ir_InstanceIP = [],
      ir_InstancePort = [], ir_NodeIP = [], ir_NodePort = [], ir_FunctionProxyID = [],
      ir_RouteAddress = [], ir_LeaseInterval = 0, ir_ErrorCode = code, ir_ErrorMessage = msg,
      ir_SchedulerTime = ev_now env - startTime\<rparr>"

definition liteSuccessResp ::
  "liteEnv \<Rightarrow> LiteInstance option \<Rightarrow> string \<Rightarrow> string \<Rightarrow> time \<Rightarrow> InstanceResponse" where
  "liteSuccessResp env slot allocID funcKey startTime =
     (let resp = (liteErrResp env InsReqSuccessCode ''instance request successfully'' startTime)
                   \<lparr>ir_ThreadID := allocID, ir_LeaseInterval := godiv (liteTTL (ev_cfg env)) millisecond\<rparr>
      in case slot of
           None \<Rightarrow> resp
         | Some sl \<Rightarrow>
             resp\<lparr>ir_FuncKey := funcKey, ir_FuncSig := li_FuncSig sl, ir_InstanceID := li_InstanceID sl,
                  ir_InstanceIP := li_InstanceIP sl, ir_InstancePort := li_InstancePort sl,
                  ir_NodeIP := li_NodeIP sl, ir_NodePort := li_NodePort sl,
                  ir_FunctionProxyID := li_FunctionProxyID sl, ir_RouteAddress := li_RouteAddress sl\<rparr>)"

abbreviation granted :: "InstanceResponse \<Rightarrow> bool" where
  "granted r \<equiv> ir_ErrorCode r = InsReqSuccessCode"

section \<open>Lease timers\<close>

text \<open>The errors of the wheel are logged and the call goes on.\<close>

definition registerExpiryTask :: "liteEnv \<Rightarrow> string \<Rightarrow> LiteScheduler \<Rightarrow> LiteScheduler" where
  "registerExpiryTask env allocID s =
     s\<lparr>ls_expiryWheel := map_option (\<lambda>w. kept w (AddTask w allocID (liteTTL (ev_cfg env)) 1)) (ls_expiryWheel s)\<rparr>"

definition updateExpiryTask :: "liteEnv \<Rightarrow> string \<Rightarrow> LiteScheduler \<Rightarrow> LiteScheduler" where
  "updateExpiryTask env allocID s =
     s\<lparr>ls_expiryWheel := map_option (\<lambda>w. kept w (UpdateTask w allocID (liteTTL (ev_cfg env)) 1)) (ls_expiryWheel s)\<rparr>"

definition removeExpiryTask :: "string \<Rightarrow> LiteScheduler \<Rightarrow> LiteScheduler" where
  "removeExpiryTask allocID s =
     s\<lparr>ls_expiryWheel := map_option (\<lambda>w. DelTask w allocID) (ls_expiryWheel s)\<rparr>"

section \<open>Acquire\<close>

definition checkConcurrencyLimit ::
  "liteEnv \<Rightarrow> LiteRequest \<Rightarrow> LiteFunctionPool \<Rightarrow> int \<Rightarrow> InstanceResponse option" where
  "checkConcurrencyLimit env req p concurrency =
     (let limit = instanceConcurrentNum p in
      if limit > 0 \<and> concurrency > limit
      then Some (liteErrResp env InstanceSessionInvalidErrCode
                   ''concurrency exceeds function concurrentNum'' (rq_startTime req))
      else if concurrency < 1
      then Some (liteErrResp env InstanceSessionInvalidErrCode
                   ''concurrency less than minimum value'' (rq_startTime req))
      else None)"

text \<open>\<open>Inl\<close> is the early response, \<open>Inr\<close> the pool.\<close>

definition checkHandleAcquireReq :: "liteEnv \<Rightarrow> LiteRequest \<Rightarrow> LiteScheduler \<Rightarrow> InstanceResponse + nat" where
  "checkHandleAcquireReq env req s =
     (if rq_SessionTTL req < 0
      then Inl (liteErrResp env InstanceSessionInvalidErrCode ''sessionTTL must not be negative'' (rq_startTime req))
      else case getPool s (rq_FuncKey req) of
        None \<Rightarrow> Inl (liteErrResp env FuncMetaNotFoundErrCode FuncMetaNotFoundErrMsg (rq_startTime req))
      | Some pp \<Rightarrow>
          (case pool_at s pp of
             None \<Rightarrow> Inl (liteErrResp env FuncMetaNotFoundErrCode FuncMetaNotFoundErrMsg (rq_startTime req))
           | Some p \<Rightarrow>
               (case checkConcurrencyLimit env req p (rq_Concurrency req) of
                  Some resp \<Rightarrow> Inl resp
                | None \<Rightarrow> Inr pp)))"

definition applySlotBinding ::
  "LiteRequest \<Rightarrow> LiteInstance \<Rightarrow> sessionBinding option \<Rightarrow> LiteFunctionPool \<Rightarrow> LiteFunctionPool" where
  "applySlotBinding req slot binding p =
     (case binding of
        Some b \<Rightarrow>
          (case bindSessionStickyTakeLocked b of
             (b', d) \<Rightarrow> set_inUse (li_InstanceID slot) (li_InUse slot + d) (set_binding (rq_bindingKey req) b' p))
      | None \<Rightarrow>
          if rq_SessionID req \<noteq> [] then
            let p1 = set_inUse (li_InstanceID slot) (li_InUse slot + rq_Concurrency req) p;
                p2 = bindSessionFreshLocked (rq_bindingKey req) (li_InstanceID slot) (rq_Concurrency req) p1
            in p2\<lparr>lp_sessionStore := saveSessionToStore (rq_bindingKey req) (li_InstanceID slot) req (lp_sessionStore p2)\<rparr>
          else set_inUse (li_InstanceID slot) (li_InUse slot + 1) p)"

definition next_seq :: "LiteFunctionPool \<Rightarrow> int" where
  "next_seq p = sint (lp_seqCounter p + 1)"

definition new_allocation :: "liteEnv \<Rightarrow> LiteRequest \<Rightarrow> LiteInstance \<Rightarrow> string \<Rightarrow> Allocation" where
  "new_allocation env req slot allocID =
     \<lparr>al_AllocationID = allocID, al_SessionID = rq_SessionID req, al_SessionCtxID = rq_SessionCtxID req,
      al_SessionTTL = rq_SessionTTL req, al_TenantID = rq_TenantID req,
      al_InstanceID = li_InstanceID slot, al_FuncKey = rq_FuncKey req,
      al_ExpireAt = ev_now env + liteTTL (ev_cfg env), al_CreatedAt = ev_now env\<rparr>"

definition recordAcquireMetrics :: "LiteFunctionPool \<Rightarrow> LiteRequest \<Rightarrow> LiteScheduler \<Rightarrow> LiteScheduler" where
  "recordAcquireMetrics p req s =
     count_metric (incAcquire (rq_FuncKey req) (rq_TenantID req) (dispatcher_Policy (lp_dispatcher p)) ''success'') s"

text \<open>\<open>p\<close> is the value of the pool \<open>pp\<close> under the caller's lock.\<close>

definition assignInstance ::
  "liteEnv \<Rightarrow> nat \<Rightarrow> LiteFunctionPool \<Rightarrow> LiteRequest \<Rightarrow> LiteInstance \<Rightarrow> sessionBinding option \<Rightarrow>
     LiteScheduler \<Rightarrow> LiteScheduler \<times> InstanceResponse" where
  "assignInstance env pp p req slot binding s =
     (let allocID = genAllocationID (rq_bindingKey req) (li_InstanceID slot) (next_seq p);
          p1 = applySlotBinding req slot binding (p\<lparr>lp_seqCounter := lp_seqCounter p + 1\<rparr>);
          s1 = put_pool pp p1 s;
          s2 = s1\<lparr>ls_allocations := fmupd allocID (new_allocation env req slot allocID) (ls_allocations s1)\<rparr>;
          s3 = registerExpiryTask env allocID s2;
          s4 = recordAcquireMetrics p1 req s3
      in (s4, liteSuccessResp env (Some slot) allocID (rq_FuncKey req) (rq_startTime req)))"

definition no_instance :: "liteEnv \<Rightarrow> LiteRequest \<Rightarrow> InstanceResponse" where
  "no_instance env req = liteErrResp env NoInstanceAvailableErrCode ''no available instance'' (rq_startTime req)"

text \<open>
  A sticky attempt under the pool's lock, as in \<^verbatim>\<open>tryLocalSticky\<close> and again at the start of
  \<^verbatim>\<open>acquireDispatchOrColdStart\<close>; no response means the next phase goes on.
\<close>

definition tryLocalSticky ::
  "liteEnv \<Rightarrow> nat \<Rightarrow> LiteRequest \<Rightarrow> LiteScheduler \<Rightarrow> LiteScheduler \<times> InstanceResponse option" where
  "tryLocalSticky env pp req s =
     (case pool_at s pp of
        None \<Rightarrow> (s, None)
      | Some p \<Rightarrow>
          (case tryLocalStickyLocked (rq_bindingKey req) p of
             (p1, Some slot, Some binding, stickyHit) \<Rightarrow>
               (case assignInstance env pp p1 req slot (Some binding) s of (s1, resp) \<Rightarrow> (s1, Some resp))
           | (p1, _, _, stickyFull) \<Rightarrow> (put_pool pp p1 s, Some (no_instance env req))
           | (p1, _) \<Rightarrow> (put_pool pp p1 s, None)))"

definition tryStoreRecoveryLocked ::
  "liteEnv \<Rightarrow> nat \<Rightarrow> LiteRequest \<Rightarrow> StoreRecord option \<Rightarrow> LiteScheduler \<Rightarrow>
     LiteScheduler \<times> InstanceResponse option" where
  "tryStoreRecoveryLocked env pp req storeRec s =
     (case pool_at s pp of
        None \<Rightarrow> (s, None)
      | Some p \<Rightarrow>
          (case storeRec of
             None \<Rightarrow> (s, None)
           | Some rec \<Rightarrow>
               if sr_InstanceID rec = [] then (s, None)
               else
                 let p' = p\<lparr>lp_sessionStore := deleteSessionFromStore (rq_bindingKey req) (lp_sessionStore p)\<rparr> in
                 case fmlookup (lp_instances p) (sr_InstanceID rec) of
                   None \<Rightarrow> (put_pool pp p' s, None)
                 | Some slot \<Rightarrow>
                     if (li_Status slot = InstanceStatusRunning \<or> li_Status slot = InstanceStatusSubHealth) \<and>
                        li_Capacity slot - li_InUse slot \<ge> rq_Concurrency req \<and>
                        li_SessionCtxID slot = rq_SessionCtxID req
                     then (case assignInstance env pp p req slot None s of (s1, resp) \<Rightarrow> (s1, Some resp))
                     else (put_pool pp p' s, None)))"

text \<open>\<^verbatim>\<open>tryDispatchLocked\<close>, and with the same body \<^verbatim>\<open>tryPollDispatch\<close> of the waiting loop.\<close>

definition tryDispatchLocked ::
  "liteEnv \<Rightarrow> nat \<Rightarrow> LiteRequest \<Rightarrow> LiteScheduler \<Rightarrow> LiteScheduler \<times> InstanceResponse option" where
  "tryDispatchLocked env pp req s =
     (case pool_at s pp of
        None \<Rightarrow> (s, None)
      | Some p \<Rightarrow>
          (case dispatcher_Select (lp_dispatcher p)
                  (candidateSlotsLocked (ev_instances env) p (rq_SessionCtxID req) (rq_Concurrency req))
                  (rq_Concurrency req) of
             (chosen, d') \<Rightarrow>
               let p1 = p\<lparr>lp_dispatcher := d'\<rparr> in
               (case chosen of
                  None \<Rightarrow> (put_pool pp p1 s, None)
                | Some slot \<Rightarrow>
                    (case assignInstance env pp p1 req slot None s of (s1, resp) \<Rightarrow> (s1, Some resp)))))"

definition tryPollDispatch ::
  "liteEnv \<Rightarrow> nat \<Rightarrow> LiteRequest \<Rightarrow> LiteScheduler \<Rightarrow> LiteScheduler \<times> InstanceResponse option" where
  "tryPollDispatch env pp req s = tryDispatchLocked env pp req s"

text \<open>Phase 3 of an acquire, one critical section: no response means cold start.\<close>

definition acquireDispatch ::
  "liteEnv \<Rightarrow> nat \<Rightarrow> LiteRequest \<Rightarrow> StoreRecord option \<Rightarrow> LiteScheduler \<Rightarrow>
     LiteScheduler \<times> InstanceResponse option" where
  "acquireDispatch env pp req storeRec s =
     (case tryLocalSticky env pp req s of
        (s1, Some resp) \<Rightarrow> (s1, Some resp)
      | (s1, None) \<Rightarrow>
          (case tryStoreRecoveryLocked env pp req storeRec s1 of
             (s2, Some resp) \<Rightarrow> (s2, Some resp)
           | (s2, None) \<Rightarrow> tryDispatchLocked env pp req s2))"

definition sendScaleHint :: "liteEnv \<Rightarrow> nat \<Rightarrow> LiteRequest \<Rightarrow> LiteScheduler \<Rightarrow> InstanceResponse option" where
  "sendScaleHint env pp req s =
     (case (ev_sender env, pool_at s pp) of
        (Some send, Some p) \<Rightarrow>
          (case send \<lparr>sh_FuncKey = rq_FuncKey req, sh_TenantID = rq_TenantID req,
                      sh_SessionID = rq_SessionID req, sh_SessionCtxID = rq_SessionCtxID req,
                      sh_Reason = ''cold_start'', sh_RequestedConcurrency = rq_Concurrency req,
                      sh_CurrentLocalConcurrency = currentInUse p,
                      sh_CurrentLocalCapacity = currentCapacity p,
                      sh_SchedulerID = si_SelfInstanceID (ev_self env), sh_TraceID = rq_TraceID req,
                      sh_RequestID = rq_TraceID req\<rparr> of
             Some response \<Rightarrow>
               if shr_ErrorCode response \<noteq> 0
               then Some (liteErrResp env (shr_ErrorCode response) (shr_ErrorMessage response) (rq_startTime req))
               else None
           | None \<Rightarrow> None)
      | _ \<Rightarrow> None)"

text \<open>
  The waiting loop. Each tick is a reading of the clock at the poll, whether the select then sees
  the stop channel, and what the other goroutines do to the state until the next poll. \<open>None\<close>: the
  given ticks were not enough for the loop to return.
\<close>

record pollTick =
  pt_now :: time
  pt_stop :: bool
  pt_others :: "LiteScheduler \<Rightarrow> LiteScheduler"

fun wait_loop ::
  "liteEnv \<Rightarrow> time \<Rightarrow> nat \<Rightarrow> LiteRequest \<Rightarrow> pollTick list \<Rightarrow> LiteScheduler \<Rightarrow>
     LiteScheduler \<times> InstanceResponse option" where
  "wait_loop env deadline pp req [] s = (s, None)"
| "wait_loop env deadline pp req (t # ts) s =
     (let env1 = env\<lparr>ev_now := pt_now t\<rparr> in
      case tryPollDispatch env1 pp req s of
        (s1, Some resp) \<Rightarrow> (s1, Some resp)
      | (s1, None) \<Rightarrow>
          if pt_now t > deadline then (s1, Some (no_instance env1 req))
          else if pt_stop t then (s1, Some (no_instance env1 req))
          else wait_loop env deadline pp req ts (pt_others t s1))"

definition waitForInstance ::
  "liteEnv \<Rightarrow> nat \<Rightarrow> LiteRequest \<Rightarrow> pollTick list \<Rightarrow> LiteScheduler \<Rightarrow> LiteScheduler \<times> InstanceResponse option" where
  "waitForInstance env pp req ticks s =
     (let timeout = lc_AcquireWaitTimeoutMs (ev_cfg env) * millisecond in
      if timeout \<le> 0 then (s, Some (no_instance env req))
      else wait_loop env (ev_now env + timeout) pp req ticks s)"

definition handleColdStart ::
  "liteEnv \<Rightarrow> nat \<Rightarrow> LiteRequest \<Rightarrow> pollTick list \<Rightarrow> LiteScheduler \<Rightarrow> LiteScheduler \<times> InstanceResponse option" where
  "handleColdStart env pp req ticks s =
     (case sendScaleHint env pp req s of
        Some resp \<Rightarrow> (s, Some resp)
      | None \<Rightarrow>
          waitForInstance env pp req ticks
            (count_metric (incScaleHint (rq_FuncKey req) (rq_TenantID req) ''cold_start'') s))"

text \<open>
  \<^verbatim>\<open>handleAcquire\<close>: \<open>stored\<close> is what the session store answers to the lookup of a key (an error of
  the store counts as no record), \<open>others\<close> what the other goroutines do meanwhile.
\<close>

definition handleAcquire ::
  "liteEnv \<Rightarrow> (string \<Rightarrow> StoreRecord option) \<Rightarrow> (LiteScheduler \<Rightarrow> LiteScheduler) \<Rightarrow> pollTick list \<Rightarrow>
     LiteRequest \<Rightarrow> LiteScheduler \<Rightarrow> LiteScheduler \<times> InstanceResponse option" where
  "handleAcquire env stored others ticks req s =
     (case checkHandleAcquireReq env req s of
        Inl resp \<Rightarrow> (s, Some resp)
      | Inr pp \<Rightarrow>
          (case pool_at s pp of
             None \<Rightarrow> (s, None)
           | Some p \<Rightarrow>
               let req1 = req\<lparr>rq_bindingKey := sessionBindingKey p (rq_SessionID req) (rq_SessionCtxID req)\<rparr> in
               case tryLocalSticky env pp req1 s of
                 (s1, Some resp) \<Rightarrow> (s1, Some resp)
               | (s1, None) \<Rightarrow>
                   let storeRec = (case lp_sessionStore p of None \<Rightarrow> None | Some _ \<Rightarrow> stored (rq_bindingKey req1)) in
                   (case acquireDispatch env pp req1 storeRec (others s1) of
                      (s2, Some resp) \<Rightarrow> (s2, Some resp)
                    | (s2, None) \<Rightarrow> handleColdStart env pp req1 ticks s2)))"

section \<open>Release\<close>

definition startSessionUnbindTimer :: "nat \<Rightarrow> string \<Rightarrow> int \<Rightarrow> LiteScheduler \<Rightarrow> LiteScheduler" where
  "startSessionUnbindTimer pp sessionID sessionTTL s =
     (case pool_at s pp of
        None \<Rightarrow> s
      | Some p \<Rightarrow>
          (case fmlookup (lp_sessions p) sessionID of
             None \<Rightarrow> s
           | Some b \<Rightarrow>
               if \<not> sb_expiring b \<or> sb_activeAllocs b \<noteq> 0 then s
               else
                 let t = ls_nextTimer s;
                     s1 = put_pool pp (set_binding sessionID ((stopTimer b)\<lparr>sb_timer := Some t\<rparr>) p) s
                 in s1\<lparr>ls_timers := fmupd t \<lparr>it_pool = pp, it_session = sessionID, it_binding = sb_ptr b,
                                            it_ttl = sessionTTLFor sessionTTL\<rparr> (ls_timers s1),
                       ls_nextTimer := Suc t\<rparr>))"

definition fireSessionUnbind :: "nat \<Rightarrow> string \<Rightarrow> nat \<Rightarrow> nat \<Rightarrow> LiteScheduler \<Rightarrow> LiteScheduler" where
  "fireSessionUnbind pp sessionID bptr timer s =
     (case pool_at s pp of
        None \<Rightarrow> s
      | Some p \<Rightarrow>
          (case fmlookup (lp_sessions p) sessionID of
             None \<Rightarrow> s
           | Some current \<Rightarrow>
               if sb_ptr current \<noteq> bptr \<or> sb_timer current \<noteq> Some timer \<or> \<not> sb_expiring current \<or>
                  sb_activeAllocs current \<noteq> 0
               then s
               else put_pool pp (removeSessionBinding sessionID p) s))"

definition releaseSlotLocked :: "Allocation \<Rightarrow> LiteFunctionPool \<Rightarrow> LiteFunctionPool \<times> bool \<times> string" where
  "releaseSlotLocked alloc p =
     (case fmlookup (lp_instances p) (al_InstanceID alloc) of
        None \<Rightarrow> (p, False, [])
      | Some slot \<Rightarrow>
          if al_SessionID alloc \<noteq> [] then
            let sessionKey = sessionBindingKey p (al_SessionID alloc) (al_SessionCtxID alloc) in
            case unbindSessionOnRelease sessionKey p of (p1, needTimer) \<Rightarrow> (p1, needTimer, sessionKey)
          else if li_InUse slot > 0
          then (set_inUse (al_InstanceID alloc) (li_InUse slot - 1) p, False, [])
          else (p, False, []))"

text \<open>Returns the slot of the response and the pool of the metric.\<close>

definition releaseInPool ::
  "Allocation \<Rightarrow> LiteScheduler \<Rightarrow> LiteScheduler \<times> LiteInstance option \<times> LiteFunctionPool option" where
  "releaseInPool alloc s =
     (case getPool s (al_FuncKey alloc) of
        None \<Rightarrow> (s, None, None)
      | Some pp \<Rightarrow>
          (case pool_at s pp of
             None \<Rightarrow> (s, None, None)
           | Some p \<Rightarrow>
               (case releaseSlotLocked alloc p of
                  (p1, needTimer, sessionKey) \<Rightarrow>
                    let s1 = put_pool pp p1 s;
                        slot = fmlookup (lp_instances p1) (al_InstanceID alloc);
                        s2 = (if needTimer then startSessionUnbindTimer pp sessionKey (al_SessionTTL alloc) s1 else s1)
                    in (s2, slot, Some p1))))"

definition handleRelease :: "liteEnv \<Rightarrow> string \<Rightarrow> LiteRequest \<Rightarrow> LiteScheduler \<Rightarrow> LiteScheduler \<times> InstanceResponse" where
  "handleRelease env allocID req s =
     (case fmlookup (ls_allocations s) allocID of
        None \<Rightarrow> (s, liteErrResp env InstanceNotFoundErrCode InstanceNotFoundErrMsg (rq_startTime req))
      | Some alloc \<Rightarrow>
          let s1 = removeExpiryTask allocID (s\<lparr>ls_allocations := fmdrop allocID (ls_allocations s)\<rparr>) in
          (case releaseInPool alloc s1 of
             (s2, slot, p) \<Rightarrow>
               let policy = (case p of None \<Rightarrow> ''unknown'' | Some p' \<Rightarrow> dispatcher_Policy (lp_dispatcher p'));
                   s3 = count_metric (incRelease (al_FuncKey alloc) (al_TenantID alloc) policy ''success'') s2
               in (s3, liteSuccessResp env slot (al_AllocationID alloc) (al_FuncKey alloc) (rq_startTime req))))"

section \<open>Lease expiry\<close>

definition reapExpiredAllocation :: "string \<Rightarrow> LiteScheduler \<Rightarrow> LiteScheduler" where
  "reapExpiredAllocation allocID s =
     (case fmlookup (ls_allocations s) allocID of
        None \<Rightarrow> s
      | Some alloc \<Rightarrow>
          let s1 = s\<lparr>ls_allocations := fmdrop allocID (ls_allocations s)\<rparr> in
          (case getPool s1 (al_FuncKey alloc) of
             None \<Rightarrow> s1
           | Some pp \<Rightarrow>
               (case pool_at s1 pp of
                  None \<Rightarrow> s1
                | Some p \<Rightarrow>
                    if al_SessionID alloc \<noteq> [] then
                      let bindingKey = sessionBindingKey p (al_SessionID alloc) (al_SessionCtxID alloc) in
                      (case unbindSessionOnRelease bindingKey p of
                         (p1, needTimer) \<Rightarrow>
                           let s2 = put_pool pp p1 s1
                           in if needTimer then startSessionUnbindTimer pp bindingKey (al_SessionTTL alloc) s2 else s2)
                    else
                      (case fmlookup (lp_instances p) (al_InstanceID alloc) of
                         None \<Rightarrow> s1
                       | Some slot \<Rightarrow>
                           if li_InUse slot > 0
                           then put_pool pp (set_inUse (al_InstanceID alloc) (li_InUse slot - 1) p) s1
                           else s1))))"

text \<open>One batch of the expiry loop: the allocation IDs that \<^verbatim>\<open>Wait\<close> returned, reaped in order.\<close>

definition reapBatch :: "string list \<Rightarrow> LiteScheduler \<Rightarrow> LiteScheduler" where
  "reapBatch ready s = fold reapExpiredAllocation ready s"

section \<open>Retain\<close>

definition extractSessionDetails :: "liteCodec \<Rightarrow> string \<Rightarrow> string \<times> string \<times> int \<times> int" where
  "extractSessionDetails codec extraData =
     (if extraData = [] then ([], [], 0, 0)
      else case cd_extra codec extraData of
        None \<Rightarrow> ([], [], 0, 0)
      | Some m \<Rightarrow>
          let ctx = (case fmlookup m ''sessionCtxID'' of None \<Rightarrow> [] | Some v \<Rightarrow> v) in
          (case fmlookup m ''instanceSessionConfig'' of
             None \<Rightarrow> ([], ctx, 0, 0)
           | Some raw \<Rightarrow>
               (case cd_session codec raw of
                  None \<Rightarrow> ([], ctx, 0, 0)
                | Some sess \<Rightarrow> (isc_SessionID sess, ctx, isc_SessionTTL sess, isc_Concurrency sess))))"

record reacquireParams =
  rp_allocID :: string
  rp_sessionID :: string
  rp_sessionCtxID :: string
  rp_sessionTTL :: int
  rp_concurrency :: int
  rp_funcKey :: string
  rp_tenantID :: string
  rp_instanceID :: string

definition recordRetainSuccess :: "LiteFunctionPool option \<Rightarrow> Allocation \<Rightarrow> LiteScheduler \<Rightarrow> LiteScheduler" where
  "recordRetainSuccess p alloc s =
     (let policy = (case p of None \<Rightarrow> ''unknown'' | Some p' \<Rightarrow> dispatcher_Policy (lp_dispatcher p'))
      in count_metric (incRetain (al_FuncKey alloc) (al_TenantID alloc) policy ''success'') s)"

definition validateSessionAndOwner ::
  "liteEnv \<Rightarrow> LiteRequest \<Rightarrow> string \<Rightarrow> string \<Rightarrow> int \<Rightarrow> string \<Rightarrow> string \<Rightarrow> LiteScheduler \<Rightarrow> InstanceResponse option" where
  "validateSessionAndOwner env req sessionID sessionCtxID sessionTTL expectedHash funcKey s =
     (if sessionID = [] \<and> sessionCtxID = [] \<or> sessionTTL < 0
      then Some (liteErrResp env InstanceSessionInvalidErrCode ''session config invalid'' (rq_startTime req))
      else if sessionHash (allocationSessionID sessionID sessionCtxID) \<noteq> expectedHash
      then Some (liteErrResp env LeaseIDIllegalCode LeaseIDIllegalMsg (rq_startTime req))
      else if funcKey = [] \<or> \<not> isFuncEnabled (ev_cfg env) funcKey
      then Some (liteErrResp env FuncMetaNotFoundErrCode FuncMetaNotFoundErrMsg (rq_startTime req))
      else case ls_ownerProxy s of
        None \<Rightarrow> None
      | Some proxy \<Rightarrow>
          (case CheckHashOwner (ev_self env) proxy
                  (schedulerOwnerKey (fk_tenantID (splitFuncKey funcKey)) funcKey sessionID sessionCtxID) of
             (ownerID, owned) \<Rightarrow>
               if \<not> owned then Some (liteErrResp env AcquireNonOwnerSchedulerErrorCode ownerID (rq_startTime req))
               else None))"

definition validateReacquireRequest ::
  "liteEnv \<Rightarrow> string \<Rightarrow> LiteRequest \<Rightarrow> InstanceThreadMetrics option \<Rightarrow> LiteScheduler \<Rightarrow> InstanceResponse + reacquireParams" where
  "validateReacquireRequest env allocID req metrics s =
     (case metrics of
        None \<Rightarrow> Inl (liteErrResp env LeaseIDNotFoundCode LeaseIDNotFoundMsg (rq_startTime req))
      | Some m \<Rightarrow>
          if itm_ReacquireData m = []
          then Inl (liteErrResp env LeaseIDNotFoundCode LeaseIDNotFoundMsg (rq_startTime req))
          else (case parseLiteAllocationID allocID of
            (isLite, expectedHash, instanceID, _) \<Rightarrow>
              if \<not> isLite then Inl (liteErrResp env LeaseIDIllegalCode LeaseIDIllegalMsg (rq_startTime req))
              else (case extractSessionDetails (ev_codec env) (itm_ReacquireData m) of
                (sessionID, sessionCtxID, sessionTTL, concurrency) \<Rightarrow>
                  (case validateSessionAndOwner env req sessionID sessionCtxID sessionTTL expectedHash (itm_FunctionKey m) s of
                     Some resp \<Rightarrow> Inl resp
                   | None \<Rightarrow> Inr
                       \<lparr>rp_allocID = allocID, rp_sessionID = sessionID, rp_sessionCtxID = sessionCtxID,
                        rp_sessionTTL = sessionTTL, rp_concurrency = concurrency,
                        rp_funcKey = itm_FunctionKey m,
                        rp_tenantID = fk_tenantID (splitFuncKey (itm_FunctionKey m)),
                        rp_instanceID = instanceID\<rparr>))))"

definition checkReacquireSlotLocked ::
  "liteEnv \<Rightarrow> LiteRequest \<Rightarrow> LiteFunctionPool \<Rightarrow> reacquireParams \<Rightarrow>
     InstanceResponse + LiteInstance \<times> string \<times> sessionBinding option" where
  "checkReacquireSlotLocked env req p params =
     (case fmlookup (lp_instances p) (rp_instanceID params) of
        None \<Rightarrow> Inl (liteErrResp env InstanceNotFoundErrCode InstanceNotFoundErrMsg (rq_startTime req))
      | Some slot \<Rightarrow>
          if li_FuncKey slot \<noteq> [] \<and> li_FuncKey slot \<noteq> rp_funcKey params
          then Inl (liteErrResp env InstanceNotFoundErrCode InstanceNotFoundErrMsg (rq_startTime req))
          else if li_Status slot = InstanceStatusUnavailable
          then Inl (liteErrResp env InstanceStatusAbnormalCode LeaseErrorInstanceIsAbnormalMessage (rq_startTime req))
          else
            let key = sessionBindingKey p (rp_sessionID params) (rp_sessionCtxID params);
                binding = fmlookup (lp_sessions p) key
            in if rp_sessionID params \<noteq> [] \<and>
                  (case binding of None \<Rightarrow> False | Some b \<Rightarrow> sb_instanceID b \<noteq> rp_instanceID params)
               then Inl (liteErrResp env InstanceSessionInvalidErrCode
                           ''session is bound to a different instance'' (rq_startTime req))
               else Inr (slot, key, binding))"

definition reacquired_alloc :: "liteEnv \<Rightarrow> reacquireParams \<Rightarrow> Allocation" where
  "reacquired_alloc env params =
     \<lparr>al_AllocationID = rp_allocID params, al_SessionID = rp_sessionID params,
      al_SessionCtxID = rp_sessionCtxID params, al_SessionTTL = rp_sessionTTL params,
      al_TenantID = rp_tenantID params, al_InstanceID = rp_instanceID params,
      al_FuncKey = rp_funcKey params, al_ExpireAt = ev_now env + liteTTL (ev_cfg env),
      al_CreatedAt = ev_now env\<rparr>"

definition reacquire_request :: "reacquireParams \<Rightarrow> LiteRequest" where
  "reacquire_request params =
     \<lparr>rq_Op = [], rq_FuncKey = [], rq_TenantID = [], rq_SessionID = rp_sessionID params,
      rq_SessionCtxID = rp_sessionCtxID params, rq_SessionTTL = rp_sessionTTL params,
      rq_Concurrency = rp_concurrency params, rq_AllocationIDs = [], rq_ExtraData = [],
      rq_MetricsData = [], rq_TraceID = [], rq_NeedReverseLookup = False, rq_startTime = 0,
      rq_bindingKey = []\<rparr>"

text \<open>The pool after \<^verbatim>\<open>buildReacquiredAlloc\<close>; the allocation it adds is \<open>reacquired_alloc\<close>.\<close>

definition buildReacquiredAlloc ::
  "reacquireParams \<Rightarrow> LiteInstance \<Rightarrow> string \<Rightarrow> sessionBinding option \<Rightarrow> LiteFunctionPool \<Rightarrow> LiteFunctionPool" where
  "buildReacquiredAlloc params slot key binding p =
     (if rp_sessionID params \<noteq> [] then
        (case binding of
           Some b \<Rightarrow>
             (case bindSessionStickyTakeLocked b of
                (b', d) \<Rightarrow> set_inUse (rp_instanceID params) (li_InUse slot + d) (set_binding key b' p))
         | None \<Rightarrow>
             let p1 = set_inUse (rp_instanceID params) (li_InUse slot + rp_concurrency params) p;
                 p2 = bindSessionFreshLocked key (rp_instanceID params) (rp_concurrency params) p1
             in p2\<lparr>lp_sessionStore := saveSessionToStore key (rp_instanceID params) (reacquire_request params) (lp_sessionStore p2)\<rparr>)
      else set_inUse (rp_instanceID params) (li_InUse slot + 1) p)"

definition reacquireAllocation ::
  "liteEnv \<Rightarrow> string \<Rightarrow> LiteRequest \<Rightarrow> InstanceThreadMetrics option \<Rightarrow> LiteScheduler \<Rightarrow> LiteScheduler \<times> InstanceResponse" where
  "reacquireAllocation env allocID req metrics s =
     (case validateReacquireRequest env allocID req metrics s of
        Inl resp \<Rightarrow> (s, resp)
      | Inr params \<Rightarrow>
          (case Option.bind (getPool s (rp_funcKey params)) (\<lambda>pp. map_option (Pair pp) (pool_at s pp)) of
             None \<Rightarrow> (s, liteErrResp env FuncMetaNotFoundErrCode FuncMetaNotFoundErrMsg (rq_startTime req))
           | Some (pp, p) \<Rightarrow>
               (case checkConcurrencyLimit env req p (rp_concurrency params) of
                  Some resp \<Rightarrow> (s, resp)
                | None \<Rightarrow>
                    (case checkReacquireSlotLocked env req p params of
                       Inl resp \<Rightarrow> (s, resp)
                     | Inr (slot, key, binding) \<Rightarrow>
                         (case fmlookup (ls_allocations s) (rp_allocID params) of
                            Some alloc \<Rightarrow>
                              let alloc' = alloc\<lparr>al_ExpireAt := ev_now env + liteTTL (ev_cfg env)\<rparr>;
                                  s1 = s\<lparr>ls_allocations := fmupd (rp_allocID params) alloc' (ls_allocations s)\<rparr>;
                                  s2 = recordRetainSuccess (Some p) alloc' (updateExpiryTask env (rp_allocID params) s1)
                              in (s2, liteSuccessResp env (Some slot) (al_AllocationID alloc') (al_FuncKey alloc') (rq_startTime req))
                          | None \<Rightarrow>
                              let alloc = reacquired_alloc env params;
                                  p1 = buildReacquiredAlloc params slot key binding p;
                                  s1 = put_pool pp p1 (s\<lparr>ls_allocations := fmupd (rp_allocID params) alloc (ls_allocations s)\<rparr>);
                                  s2 = recordRetainSuccess (Some p1) alloc (updateExpiryTask env (rp_allocID params) s1)
                              in (s2, liteSuccessResp env (Some slot) (rp_allocID params) (rp_funcKey params) (rq_startTime req)))))))"

definition deleteAllocAndExpiry :: "string \<Rightarrow> LiteScheduler \<Rightarrow> LiteScheduler" where
  "deleteAllocAndExpiry allocID s =
     removeExpiryTask allocID (s\<lparr>ls_allocations := fmdrop allocID (ls_allocations s)\<rparr>)"

definition refreshRetainTTL ::
  "liteEnv \<Rightarrow> LiteRequest \<Rightarrow> string \<Rightarrow> LiteFunctionPool \<Rightarrow> LiteInstance \<Rightarrow> LiteScheduler \<Rightarrow> LiteScheduler \<times> InstanceResponse" where
  "refreshRetainTTL env req allocID p slot s =
     (case fmlookup (ls_allocations s) allocID of
        None \<Rightarrow> (s, liteErrResp env LeaseIDNotFoundCode LeaseIDNotFoundMsg (rq_startTime req))
      | Some alloc \<Rightarrow>
          let alloc' = alloc\<lparr>al_ExpireAt := ev_now env + liteTTL (ev_cfg env)\<rparr>;
              s1 = s\<lparr>ls_allocations := fmupd allocID alloc' (ls_allocations s)\<rparr>;
              s2 = recordRetainSuccess (Some p) alloc' (updateExpiryTask env allocID s1)
          in (s2, liteSuccessResp env (Some slot) (al_AllocationID alloc') (al_FuncKey alloc') (rq_startTime req)))"

text \<open>\<open>Inl\<close> is the error response, the allocation then having been dropped.\<close>

definition validateRetainTarget ::
  "liteEnv \<Rightarrow> LiteRequest \<Rightarrow> string \<Rightarrow> string \<Rightarrow> string \<Rightarrow> LiteScheduler \<Rightarrow>
     LiteScheduler \<times> (InstanceResponse + LiteFunctionPool \<times> LiteInstance)" where
  "validateRetainTarget env req allocID funcKey instanceID s =
     (case Option.bind (getPool s funcKey) (pool_at s) of
        None \<Rightarrow>
          (deleteAllocAndExpiry allocID s,
           Inl (liteErrResp env LeaseExpireOrDeletedErrorCode ''lease expires or deleted'' (rq_startTime req)))
      | Some p \<Rightarrow>
          (case fmlookup (lp_instances p) instanceID of
             None \<Rightarrow>
               (deleteAllocAndExpiry allocID s,
                Inl (liteErrResp env InstanceStatusAbnormalCode LeaseErrorInstanceIsAbnormalMessage (rq_startTime req)))
           | Some slot \<Rightarrow>
               if li_Status slot = InstanceStatusUnavailable
               then (deleteAllocAndExpiry allocID s,
                     Inl (liteErrResp env InstanceStatusAbnormalCode LeaseErrorInstanceIsAbnormalMessage (rq_startTime req)))
               else (s, Inr (p, slot))))"

definition handleRetainWithMetrics ::
  "liteEnv \<Rightarrow> string \<Rightarrow> LiteRequest \<Rightarrow> InstanceThreadMetrics option \<Rightarrow> LiteScheduler \<Rightarrow> LiteScheduler \<times> InstanceResponse" where
  "handleRetainWithMetrics env allocID req metrics s =
     (case fmlookup (ls_allocations s) allocID of
        None \<Rightarrow> reacquireAllocation env allocID req metrics s
      | Some alloc \<Rightarrow>
          if rq_NeedReverseLookup req \<and> \<not> isFuncEnabled (ev_cfg env) (al_FuncKey alloc)
          then (s, liteErrResp env FuncMetaNotFoundErrCode FuncMetaNotFoundErrMsg (rq_startTime req))
          else (case validateRetainTarget env req allocID (al_FuncKey alloc) (al_InstanceID alloc) s of
            (s1, Inl resp) \<Rightarrow> (s1, resp)
          | (s1, Inr (p, slot)) \<Rightarrow> refreshRetainTTL env req allocID p slot s1))"

definition handleRetain :: "liteEnv \<Rightarrow> string \<Rightarrow> LiteRequest \<Rightarrow> LiteScheduler \<Rightarrow> LiteScheduler \<times> InstanceResponse" where
  "handleRetain env allocID req s =
     handleRetainWithMetrics env allocID req
       (if rq_MetricsData req = [] then None else cd_metrics (ev_codec env) (rq_MetricsData req)) s"

record InstanceAllocationSucceedInfo =
  asi_FuncKey :: string
  asi_FuncSig :: string
  asi_InstanceID :: string
  asi_ThreadID :: string

record BatchInstanceResponse =
  br_Succeed :: "(string, InstanceAllocationSucceedInfo) gomap"
  br_Failed :: "(string, int \<times> string) gomap"
  br_LeaseInterval :: int
  br_SchedulerTime :: duration

definition batch_sub :: "LiteRequest \<Rightarrow> string \<Rightarrow> LiteRequest" where
  "batch_sub req allocID =
     \<lparr>rq_Op = ''retain'', rq_FuncKey = [], rq_TenantID = [], rq_SessionID = [], rq_SessionCtxID = [],
      rq_SessionTTL = 0, rq_Concurrency = 0, rq_AllocationIDs = [allocID], rq_ExtraData = [],
      rq_MetricsData = [], rq_TraceID = rq_TraceID req, rq_NeedReverseLookup = True,
      rq_startTime = rq_startTime req, rq_bindingKey = []\<rparr>"

definition batch_retain_one ::
  "liteEnv \<Rightarrow> LiteRequest \<Rightarrow> (string, InstanceThreadMetrics option) gomap \<Rightarrow> string \<Rightarrow>
     LiteScheduler \<times> BatchInstanceResponse \<Rightarrow> LiteScheduler \<times> BatchInstanceResponse" where
  "batch_retain_one env req metricsBy allocID st =
     (case st of (s, resp) \<Rightarrow>
        (case handleRetainWithMetrics env allocID (batch_sub req allocID)
                (Option.bind (fmlookup metricsBy allocID) id) s of
           (s1, ir) \<Rightarrow>
             if granted ir
             then (s1, resp\<lparr>br_Succeed := fmupd allocID
                     \<lparr>asi_FuncKey = ir_FuncKey ir, asi_FuncSig = ir_FuncSig ir,
                      asi_InstanceID = ir_InstanceID ir, asi_ThreadID = allocID\<rparr> (br_Succeed resp)\<rparr>)
             else (s1, resp\<lparr>br_Failed := fmupd allocID (ir_ErrorCode ir, ir_ErrorMessage ir) (br_Failed resp)\<rparr>)))"

definition handleBatchRetain :: "liteEnv \<Rightarrow> LiteRequest \<Rightarrow> LiteScheduler \<Rightarrow> LiteScheduler \<times> BatchInstanceResponse" where
  "handleBatchRetain env req s =
     (let metricsBy = (if rq_MetricsData req = [] then fmempty else cd_batch (ev_codec env) (rq_MetricsData req));
          resp0 = \<lparr>br_Succeed = fmempty, br_Failed = fmempty,
                   br_LeaseInterval = godiv (liteTTL (ev_cfg env)) millisecond, br_SchedulerTime = 0\<rparr>
      in case fold (batch_retain_one env req metricsBy) (rq_AllocationIDs req) (s, resp0) of
           (s1, resp) \<Rightarrow> (s1, resp\<lparr>br_SchedulerTime := ev_now env - rq_startTime req\<rparr>))"

section \<open>Entry points\<close>

datatype liteReply = SingleReply InstanceResponse | BatchReply BatchInstanceResponse

text \<open>\<^verbatim>\<open>reverseLookup\<close>: the fields of the last allocation named, or the error of the first one missing.\<close>

fun reverseLookup :: "LiteScheduler \<Rightarrow> string list \<Rightarrow> LiteRequest \<Rightarrow> (int \<times> string) + LiteRequest" where
  "reverseLookup s [] req = Inr req"
| "reverseLookup s (allocID # rest) req =
     (case fmlookup (ls_allocations s) allocID of
        None \<Rightarrow> Inl (LeaseIDNotFoundCode, LeaseIDNotFoundMsg)
      | Some alloc \<Rightarrow>
          reverseLookup s rest
            (req\<lparr>rq_SessionID := al_SessionID alloc, rq_SessionCtxID := al_SessionCtxID alloc,
                 rq_SessionTTL := al_SessionTTL alloc, rq_TenantID := al_TenantID alloc,
                 rq_FuncKey := al_FuncKey alloc\<rparr>))"

definition lite_dispatch_op ::
  "liteEnv \<Rightarrow> (string \<Rightarrow> StoreRecord option) \<Rightarrow> (LiteScheduler \<Rightarrow> LiteScheduler) \<Rightarrow> pollTick list \<Rightarrow>
     LiteRequest \<Rightarrow> LiteScheduler \<Rightarrow> LiteScheduler \<times> liteReply option" where
  "lite_dispatch_op env stored others ticks req s =
     (let panic = SingleReply (liteErrResp env InternalErrorCode ''lite process panic recovered'' (rq_startTime req)) in
      if rq_Op req = ''acquire'' then
        (case handleAcquire env stored others ticks req s of (s1, r) \<Rightarrow> (s1, map_option SingleReply r))
      else if rq_Op req = ''release'' then
        (case rq_AllocationIDs req of
           [] \<Rightarrow> (s, Some panic)
         | allocID # _ \<Rightarrow> (case handleRelease env allocID req s of (s1, r) \<Rightarrow> (s1, Some (SingleReply r))))
      else if rq_Op req = ''retain'' then
        (case rq_AllocationIDs req of
           [] \<Rightarrow> (s, Some panic)
         | allocID # _ \<Rightarrow> (case handleRetain env allocID req s of (s1, r) \<Rightarrow> (s1, Some (SingleReply r))))
      else if rq_Op req = ''batchRetain'' then
        (case handleBatchRetain env req s of (s1, r) \<Rightarrow> (s1, Some (BatchReply r)))
      else (s, Some (SingleReply (liteErrResp env FuncMetaNotFoundErrCode
                  (''unsupported operation: '' @ rq_Op req) (rq_startTime req)))))"

text \<open>\<^verbatim>\<open>Process\<close>; a request of \<^verbatim>\<open>ParseRequest\<close> goes through reverse lookup and the owner check.\<close>

definition lite_Process ::
  "liteEnv \<Rightarrow> (string \<Rightarrow> StoreRecord option) \<Rightarrow> (LiteScheduler \<Rightarrow> LiteScheduler) \<Rightarrow> pollTick list \<Rightarrow>
     LiteRequest \<Rightarrow> LiteScheduler \<Rightarrow> LiteScheduler \<times> liteReply option" where
  "lite_Process env stored others ticks req0 s =
     (let req = req0\<lparr>rq_startTime := ev_now env\<rparr>;
          err = (\<lambda>code msg. (s, Some (SingleReply (liteErrResp env code msg (rq_startTime req)))));
          looked = (if rq_NeedReverseLookup req then
                      (case reverseLookup s (rq_AllocationIDs req) req of
                         Inl e \<Rightarrow> if rq_Op req \<noteq> ''retain'' \<and> rq_Op req \<noteq> ''batchRetain'' then Inl e else Inr req
                       | Inr req1 \<Rightarrow>
                           if \<not> isFuncEnabled (ev_cfg env) (rq_FuncKey req1)
                           then Inl (FuncMetaNotFoundErrCode, FuncMetaNotFoundErrMsg) else Inr req1)
                    else Inr req)
      in case looked of
           Inl (code, msg) \<Rightarrow> err code msg
         | Inr req1 \<Rightarrow>
             (case (if rq_Op req1 = ''acquire'' then ls_ownerProxy s else None) of
                None \<Rightarrow> lite_dispatch_op env stored others ticks req1 s
              | Some proxy \<Rightarrow>
                  (case CheckHashOwner (ev_self env) proxy
                          (schedulerOwnerKey (rq_TenantID req1) (rq_FuncKey req1) (rq_SessionID req1) (rq_SessionCtxID req1)) of
                     (ownerID, owned) \<Rightarrow>
                       if \<not> owned then err AcquireNonOwnerSchedulerErrorCode ownerID
                       else lite_dispatch_op env stored others ticks req1 s)))"

definition blank_request :: LiteRequest where
  "blank_request =
     \<lparr>rq_Op = [], rq_FuncKey = [], rq_TenantID = [], rq_SessionID = [], rq_SessionCtxID = [],
      rq_SessionTTL = 0, rq_Concurrency = 0, rq_AllocationIDs = [], rq_ExtraData = [],
      rq_MetricsData = [], rq_TraceID = [], rq_NeedReverseLookup = False, rq_startTime = 0,
      rq_bindingKey = []\<rparr>"

text \<open>
  \<^verbatim>\<open>ParseRequest\<close>: \<open>None\<close> sends the request to the legacy scheduler. \<open>specs\<close> is the
  function-specification getter.
\<close>

definition ParseRequest ::
  "liteEnv \<Rightarrow> (string \<Rightarrow> FunctionSpecification option) option \<Rightarrow> string \<Rightarrow> string \<Rightarrow> string \<Rightarrow> string \<Rightarrow> LiteRequest option" where
  "ParseRequest env specs op targetName extraData traceID =
     (if op \<notin> {''acquire'', ''release'', ''retain'', ''batchRetain''} then None
      else if \<not> lc_Enable (ev_cfg env) then None
      else if op = ''acquire'' then
        (case extractSessionDetails (ev_codec env) extraData of
           (sessionID, sessionCtxID, sessionTTL, concurrency) \<Rightarrow>
             if \<not> isFuncEnabled (ev_cfg env) targetName then None
             else
               let ctxEnabled = (if sessionCtxID \<noteq> []
                                 then (case specs of
                                         None \<Rightarrow> False
                                       | Some getter \<Rightarrow>
                                           (case getter targetName of None \<Rightarrow> False | Some sp \<Rightarrow> fs_EnableSessionCtx sp))
                                 else False)
               in if sessionID = [] \<and> \<not> ctxEnabled then None
                  else Some (blank_request\<lparr>rq_Op := op, rq_FuncKey := targetName, rq_SessionID := sessionID,
                         rq_SessionCtxID := sessionCtxID, rq_SessionTTL := sessionTTL,
                         rq_Concurrency := concurrency,
                         rq_TenantID := fk_tenantID (splitFuncKey targetName),
                         rq_ExtraData := extraData, rq_TraceID := traceID\<rparr>))
      else if op = ''release'' \<or> op = ''retain'' then
        (if \<not> IsLiteAllocationID targetName then None
         else Some (blank_request\<lparr>rq_Op := op, rq_AllocationIDs := [targetName], rq_ExtraData := extraData,
                      rq_MetricsData := extraData, rq_TraceID := traceID, rq_NeedReverseLookup := True\<rparr>))
      else
        (let ids = splitAll CHR '','' targetName;
             liteCount = length (filter IsLiteAllocationID ids)
         in if liteCount = 0 then None
            else if liteCount \<noteq> length ids then None
            else Some (blank_request\<lparr>rq_Op := op, rq_AllocationIDs := ids, rq_MetricsData := extraData,
                         rq_TraceID := traceID, rq_NeedReverseLookup := True\<rparr>)))"

end
