(* ===== verification/LiteEvents.thy ===== *)
theory LiteEvents
  imports LiteSched
begin

text \<open>
  What happens to the session scheduler outside of requests (\<^verbatim>\<open>litescheduler/event.go\<close> and
  \<^verbatim>\<open>idle.go\<close>): function specifications and instances that come and go, changes of the scheduler
  ring, and the scan for idle session contexts. An event handler is one iteration of the loop that
  receives the event.
\<close>

section \<open>Instances from their specification\<close>

record InstanceSpecification =
  is_InstanceID :: string
  is_Function :: string
  is_RuntimeAddress :: string
  is_FunctionProxyID :: string
  is_CreateOptions :: "(string, string) gomap"
  is_Code :: int
  is_AZ :: string
  is_SessionCtxID :: "string option"

definition option_note :: "InstanceSpecification \<Rightarrow> string \<Rightarrow> string" where
  "option_note spec key = (case fmlookup (is_CreateOptions spec) key of None \<Rightarrow> [] | Some v \<Rightarrow> v)"

definition parseIPAndPort :: "string \<Rightarrow> string \<times> string" where
  "parseIPAndPort address =
     (case splitAll CHR '':'' address of [ip, port] \<Rightarrow> (ip, port) | _ \<Rightarrow> ([], []))"

text \<open>\<^verbatim>\<open>utils.BuildInstanceFromInsSpec\<close>, the fields the session scheduler reads.\<close>

definition BuildInstanceFromInsSpec :: "InstanceSpecification \<Rightarrow> Instance" where
  "BuildInstanceFromInsSpec spec =
     (let concurrentNote = option_note spec ''ConcurrentNum'';
          concurrentNum = (if concurrentNote = [] then 0
                           else case atoi concurrentNote of None \<Rightarrow> 100 | Some n \<Rightarrow> n)
      in \<lparr>in_InstanceID = is_InstanceID spec, in_FuncKey = is_Function spec,
          in_ConcurrentNum = concurrentNum, in_Code = is_Code spec,
          in_InstanceIP = fst (parseIPAndPort (is_RuntimeAddress spec)),
          in_InstancePort = snd (parseIPAndPort (is_RuntimeAddress spec)),
          in_NodeIP = fst (parseIPAndPort (is_FunctionProxyID spec)),
          in_NodePort = snd (parseIPAndPort (is_FunctionProxyID spec)),
          in_FuncSig = option_note spec ''FUNCTION_SIGNATURE'',
          in_FunctionProxyID = is_FunctionProxyID spec, in_RouteAddress = [],
          in_AZ = is_AZ spec, in_SessionCtxID = is_SessionCtxID spec\<rparr>)"

section \<open>Pools\<close>

definition upsertPool :: "liteEnv \<Rightarrow> FunctionSpecification \<Rightarrow> LiteScheduler \<Rightarrow> LiteScheduler" where
  "upsertPool env spec s =
     (case Option.bind (getPool s (fs_FuncKey spec)) (\<lambda>pp. map_option (Pair pp) (pool_at s pp)) of
        None \<Rightarrow>
          let pp = ls_nextPool s in
          s\<lparr>ls_heap := fmupd pp
              \<lparr>lp_funcKey = fs_FuncKey spec, lp_funcSpec = Some spec, lp_instances = fmempty,
               lp_sessions = fmempty, lp_dispatcher = newDispatcher (Some (fs_SchedulePolicy spec)),
               lp_sessionStore = Some (newLiteSessionStore (ev_store env) (fs_FuncKey spec)),
               lp_seqCounter = 0, lp_nextPtr = 0\<rparr> (ls_heap s),
            ls_pools := fmupd (fs_FuncKey spec) pp (ls_pools s), ls_nextPool := Suc pp\<rparr>
      | Some (pp, p) \<Rightarrow> put_pool pp (p\<lparr>lp_funcSpec := Some spec\<rparr>) s)"

text \<open>Dropping a set of allocations with their lease timers, in the order of the map.\<close>

definition drop_allocs :: "string list \<Rightarrow> LiteScheduler \<Rightarrow> LiteScheduler" where
  "drop_allocs ids s =
     fold (\<lambda>allocID st. removeExpiryTask allocID (st\<lparr>ls_allocations := fmdrop allocID (ls_allocations st)\<rparr>)) ids s"

definition allocs_where :: "liteEnv \<Rightarrow> (Allocation \<Rightarrow> bool) \<Rightarrow> LiteScheduler \<Rightarrow> string list" where
  "allocs_where env P s =
     filter (\<lambda>allocID. P (the (fmlookup (ls_allocations s) allocID))) (ev_allocs env (ls_allocations s))"

definition deletePool :: "liteEnv \<Rightarrow> string \<Rightarrow> LiteScheduler \<Rightarrow> LiteScheduler" where
  "deletePool env funcKey s =
     (case Option.bind (getPool s funcKey) (\<lambda>pp. map_option (Pair pp) (pool_at s pp)) of
        None \<Rightarrow> s
      | Some (pp, p) \<Rightarrow>
          let sessionIDs = ev_sessions env (lp_sessions p);
              p1 = p\<lparr>lp_sessions := fmempty,
                     lp_sessionStore := cleanExternalRecords sessionIDs (ss_stop (lp_sessionStore p))\<rparr>;
              s1 = put_pool pp p1 (s\<lparr>ls_pools := fmdrop funcKey (ls_pools s)\<rparr>)
          in drop_allocs (allocs_where env (\<lambda>a. al_FuncKey a = funcKey) s1) s1)"

definition removeInstanceLocked :: "liteEnv \<Rightarrow> nat \<Rightarrow> string \<Rightarrow> LiteScheduler \<Rightarrow> LiteScheduler" where
  "removeInstanceLocked env pp instanceID s =
     (case pool_at s pp of
        None \<Rightarrow> s
      | Some p \<Rightarrow>
          let p1 = p\<lparr>lp_instances := fmdrop instanceID (lp_instances p)\<rparr>;
              bound = filter (\<lambda>sid. case fmlookup (lp_sessions p1) sid of
                                       None \<Rightarrow> False | Some b \<Rightarrow> sb_instanceID b = instanceID)
                        (ev_sessions env (lp_sessions p1));
              p2 = fold removeSessionBinding bound p1;
              s1 = put_pool pp p2 s
          in drop_allocs
               (allocs_where env (\<lambda>a. al_InstanceID a = instanceID \<and> al_FuncKey a = lp_funcKey p) s1) s1)"

definition handleInstanceUpdate :: "liteEnv \<Rightarrow> nat \<Rightarrow> Instance \<Rightarrow> LiteScheduler \<Rightarrow> LiteScheduler" where
  "handleInstanceUpdate env pp ins s =
     (case pool_at s pp of
        None \<Rightarrow> s
      | Some p \<Rightarrow>
          (case mapStatus (in_Code ins) of
             InstanceStatusUnavailable \<Rightarrow> removeInstanceLocked env pp (in_InstanceID ins) s
           | _ \<Rightarrow>
               (case buildLiteInstanceFromInstance (Some ins) of
                  None \<Rightarrow> s
                | Some next0 \<Rightarrow>
                    let next1 = (case fmlookup (lp_instances p) (in_InstanceID ins) of
                                   None \<Rightarrow> next0
                                 | Some current \<Rightarrow> next0\<lparr>li_InUse := li_InUse current,
                                                         li_IdleSince := li_IdleSince current,
                                                         li_Reclaiming := li_Reclaiming current\<rparr>)
                    in put_pool pp (p\<lparr>lp_instances := fmupd (in_InstanceID ins) next1 (lp_instances p)\<rparr>) s)))"

definition handleInstanceDelete :: "liteEnv \<Rightarrow> nat \<Rightarrow> Instance \<Rightarrow> LiteScheduler \<Rightarrow> LiteScheduler" where
  "handleInstanceDelete env pp ins s = removeInstanceLocked env pp (in_InstanceID ins) s"

section \<open>Event loops\<close>

datatype SubEventType = SubEventTypeUpdate | SubEventTypeDelete | SubEventTypeSynced | SubEventTypeOther

text \<open>
  One event of each loop; the message is \<open>None\<close> when its type assertion fails.
\<close>

definition processFuncSpecEvent ::
  "liteEnv \<Rightarrow> SubEventType \<Rightarrow> FunctionSpecification option \<Rightarrow> LiteScheduler \<Rightarrow> LiteScheduler" where
  "processFuncSpecEvent env ty msg s =
     (if ty = SubEventTypeSynced then s\<lparr>ls_funcSpecSynced := True\<rparr>
      else case msg of
        None \<Rightarrow> s
      | Some spec \<Rightarrow>
          if \<not> isFuncEnabled (ev_cfg env) (fs_FuncKey spec) then s
          else if ty = SubEventTypeUpdate then upsertPool env spec s
          else if ty = SubEventTypeDelete then deletePool env (fs_FuncKey spec) s
          else s)"

definition processInstanceEvent ::
  "liteEnv \<Rightarrow> SubEventType \<Rightarrow> InstanceSpecification option \<Rightarrow> LiteScheduler \<Rightarrow> LiteScheduler" where
  "processInstanceEvent env ty msg s =
     (if ty = SubEventTypeSynced then s\<lparr>ls_insSynced := True\<rparr>
      else case msg of
        None \<Rightarrow> s
      | Some spec \<Rightarrow>
          let funcKey = option_note spec ''FUNCTION_KEY_NOTE'' in
          if funcKey = [] then s
          else if \<not> isFuncEnabled (ev_cfg env) funcKey then s
          else (case getPool s funcKey of
             None \<Rightarrow> s
           | Some pp \<Rightarrow>
               if ty = SubEventTypeUpdate then handleInstanceUpdate env pp (BuildInstanceFromInsSpec spec) s
               else if ty = SubEventTypeDelete then handleInstanceDelete env pp (BuildInstanceFromInsSpec spec) s
               else s))"

text \<open>
  The two loops that start at boot, as a queue of events each: instance events are consumed only
  after the function specifications have been synchronised, the barrier has timed out, or the
  specification loop has exited (which closes the barrier too).
\<close>

definition instance_loop_ready :: "LiteScheduler \<Rightarrow> bool \<Rightarrow> bool" where
  "instance_loop_ready s timed_out \<longleftrightarrow> ls_funcSpecSynced s \<or> timed_out"

definition on_pools :: "liteEnv \<Rightarrow> (LiteFunctionPool \<Rightarrow> LiteFunctionPool) \<Rightarrow> LiteScheduler \<Rightarrow> LiteScheduler" where
  "on_pools env f s =
     fold (\<lambda>fk st. case Option.bind (getPool s fk) (\<lambda>pp. map_option (Pair pp) (pool_at st pp)) of
                       None \<Rightarrow> st | Some (pp, p) \<Rightarrow> put_pool pp (f p) st)
       (ev_pools env (ls_pools s)) s"

definition context_owned :: "liteEnv \<Rightarrow> SchedulerProxy option \<Rightarrow> string \<Rightarrow> LiteInstance \<Rightarrow> bool" where
  "context_owned env proxy funcKey ins =
     (case proxy of
        None \<Rightarrow> False
      | Some sp \<Rightarrow> snd (CheckHashOwner (ev_self env) sp (sessionContextRoutingKey funcKey (li_SessionCtxID ins))))"

definition ring_change_slot :: "liteEnv \<Rightarrow> SchedulerProxy option \<Rightarrow> string \<Rightarrow> LiteInstance \<Rightarrow> LiteInstance" where
  "ring_change_slot env proxy funcKey ins =
     (if li_SessionCtxID ins = [] then ins
      else if context_owned env proxy funcKey ins then ins
      else ins\<lparr>li_IdleSince := None, li_Reclaiming := False\<rparr>)"

definition processSchedulerEvent :: "liteEnv \<Rightarrow> LiteScheduler \<Rightarrow> LiteScheduler" where
  "processSchedulerEvent env s =
     on_pools env (\<lambda>p. p\<lparr>lp_instances := fmmap (ring_change_slot env (ls_ownerProxy s) (lp_funcKey p)) (lp_instances p)\<rparr>) s"

section \<open>Idle session contexts\<close>

record IdleInstance =
  ii_idle_FuncKey :: string
  ii_idle_SessionCtxID :: string
  ii_idle_InstanceID :: string
  ii_idle_IdleSince :: time

record IdleReport =
  idr_SchedulerID :: string
  idr_Instances :: "IdleInstance list"

abbreviation (input) defaultSessionContextIdleTTL :: duration where
  "defaultSessionContextIdleTTL \<equiv> 5 * second"

text \<open>
  The body of the scan for one slot: the slot afterwards, and the report entry with its destination.
\<close>

definition scan_slot ::
  "liteEnv \<Rightarrow> SchedulerProxy \<Rightarrow> string \<Rightarrow> time \<Rightarrow> LiteInstance \<Rightarrow> LiteInstance \<times> (InstanceInfo \<times> IdleInstance) option" where
  "scan_slot env proxy funcKey now ins =
     (if li_SessionCtxID ins = [] then (ins, None)
      else if \<not> snd (CheckHashOwner (ev_self env) proxy (sessionContextRoutingKey funcKey (li_SessionCtxID ins)))
      then (ins\<lparr>li_IdleSince := None\<rparr>, None)
      else if li_InUse ins > 0 then (ins\<lparr>li_IdleSince := None, li_Reclaiming := False\<rparr>, None)
      else if li_Reclaiming ins then (ins, None)
      else case li_IdleSince ins of
        None \<Rightarrow> (ins\<lparr>li_IdleSince := Some now\<rparr>, None)
      | Some since \<Rightarrow>
          if now - since < defaultSessionContextIdleTTL then (ins, None)
          else (case fst (FindHashOwner (ev_self env) proxy funcKey) of
                  None \<Rightarrow> (ins, None)
                | Some owner \<Rightarrow>
                    (ins\<lparr>li_Reclaiming := True\<rparr>,
                     Some (owner, \<lparr>ii_idle_FuncKey = funcKey, ii_idle_SessionCtxID = li_SessionCtxID ins,
                                   ii_idle_InstanceID = li_InstanceID ins, ii_idle_IdleSince = since\<rparr>))))"

text \<open>The entries of one pool in iteration order, and the reports grouped by the owner's name.\<close>

definition scan_entries ::
  "liteEnv \<Rightarrow> SchedulerProxy \<Rightarrow> time \<Rightarrow> LiteFunctionPool \<Rightarrow> (InstanceInfo \<times> IdleInstance) list" where
  "scan_entries env proxy now p =
     List.map_filter (\<lambda>i. snd (scan_slot env proxy (lp_funcKey p) now (the (fmlookup (lp_instances p) i))))
       (ev_instances env (lp_instances p))"

definition add_entry ::
  "liteEnv \<Rightarrow> InstanceInfo \<times> IdleInstance \<Rightarrow> (string, InstanceInfo \<times> IdleReport) gomap \<Rightarrow>
     (string, InstanceInfo \<times> IdleReport) gomap" where
  "add_entry env e g =
     (case e of (owner, item) \<Rightarrow>
        (case fmlookup g (ii_InstanceName owner) of
           None \<Rightarrow> fmupd (ii_InstanceName owner)
                     (owner, \<lparr>idr_SchedulerID = GetSchedulerProxyName (ev_self env), idr_Instances = [item]\<rparr>) g
         | Some (ow, rep) \<Rightarrow>
             fmupd (ii_InstanceName owner) (ow, rep\<lparr>idr_Instances := idr_Instances rep @ [item]\<rparr>) g))"

definition resetReclaiming_one :: "IdleInstance \<Rightarrow> LiteScheduler \<Rightarrow> LiteScheduler" where
  "resetReclaiming_one item s =
     (case Option.bind (getPool s (ii_idle_FuncKey item)) (\<lambda>pp. map_option (Pair pp) (pool_at s pp)) of
        None \<Rightarrow> s
      | Some (pp, p) \<Rightarrow>
          (case fmlookup (lp_instances p) (ii_idle_InstanceID item) of
             None \<Rightarrow> s
           | Some ins \<Rightarrow>
               put_pool pp (p\<lparr>lp_instances := fmupd (ii_idle_InstanceID item) (ins\<lparr>li_Reclaiming := False\<rparr>) (lp_instances p)\<rparr>) s))"

definition resetReclaiming :: "IdleReport \<Rightarrow> LiteScheduler \<Rightarrow> LiteScheduler" where
  "resetReclaiming report s = fold resetReclaiming_one (idr_Instances report) s"

text \<open>
  The whole scan. \<open>send\<close> is the HTTP call of \<^verbatim>\<open>sendIdleReport\<close> (whether the owner answered 204);
  an owner without address is a failure. \<open>order\<close> is the order in which the reports are sent.
\<close>

definition sendIdleReport :: "(InstanceInfo \<Rightarrow> IdleReport \<Rightarrow> bool) \<Rightarrow> InstanceInfo \<Rightarrow> IdleReport \<Rightarrow> bool" where
  "sendIdleReport post owner report = (if ii_Address owner = [] then False else post owner report)"

definition scanSessionContextIdle ::
  "liteEnv \<Rightarrow> (InstanceInfo \<Rightarrow> IdleReport \<Rightarrow> bool) \<Rightarrow>
     ((string, InstanceInfo \<times> IdleReport) gomap \<Rightarrow> string list) \<Rightarrow> time \<Rightarrow> LiteScheduler \<Rightarrow> LiteScheduler" where
  "scanSessionContextIdle env post order now s =
     (case ls_ownerProxy s of
        None \<Rightarrow> s
      | Some proxy \<Rightarrow>
          let pools = List.map_filter (\<lambda>fk. Option.bind (getPool s fk) (pool_at s)) (ev_pools env (ls_pools s));
              grouped = fold (add_entry env) (concat (map (scan_entries env proxy now) pools)) fmempty;
              s1 = on_pools env (\<lambda>p. p\<lparr>lp_instances :=
                     fmmap (\<lambda>ins. fst (scan_slot env proxy (lp_funcKey p) now ins)) (lp_instances p)\<rparr>) s
          in fold (\<lambda>name st. case fmlookup grouped name of
                      None \<Rightarrow> st
                    | Some (owner, report) \<Rightarrow>
                        if sendIdleReport post owner report then st else resetReclaiming report st)
               (order grouped) s1)"

end
