(* ===== verification/Ledger.thy ===== *)
theory Ledger
  imports GoPrelude
begin

text \<open>
  The abstract specification of capacity accounting in a function pool: a ledger of used units per
  instance, of sessions that hold units on an instance (reserved and handed out), and of outstanding
  allocations. Its steps are what the scheduler may do to the ledger, its invariant is the accounting
  identity. The theories of the scheduler show that every operation implements steps of the ledger.
\<close>

section \<open>The ledger\<close>

text \<open>A session entry is (instance, reserved, handed out); an allocation (instance, session).\<close>

record ledger =
  lg_used :: "(string, int) gomap"
  lg_bound :: "(string, string \<times> int \<times> int) gomap"
  lg_out :: "(string, string \<times> string option) gomap"

definition bound_units :: "ledger \<Rightarrow> string \<Rightarrow> int" where
  "bound_units g i = fmsum (\<lambda>_ (j, r, n). if j = i then r + n else 0) (lg_bound g)"

definition single_units :: "ledger \<Rightarrow> string \<Rightarrow> int" where
  "single_units g i = fmcount (\<lambda>_ (j, k). j = i \<and> k = None) (lg_out g)"

definition session_units :: "ledger \<Rightarrow> string \<Rightarrow> int" where
  "session_units g s = fmcount (\<lambda>_ (j, k). k = Some s) (lg_out g)"

text \<open>
  The accounting identity: the used units of an instance are what the sessions bound to it hold plus
  its session-less allocations; a session's handed-out units are its outstanding allocations; nothing
  refers to an unknown instance, and a session's allocations are on the instance it is bound to.
\<close>

definition used_ok :: "ledger \<Rightarrow> bool" where
  "used_ok g \<longleftrightarrow> (\<forall>i u. fmlookup (lg_used g) i = Some u \<longrightarrow> u = bound_units g i + single_units g i)"

definition bound_ok :: "ledger \<Rightarrow> bool" where
  "bound_ok g \<longleftrightarrow> (\<forall>k i r n. fmlookup (lg_bound g) k = Some (i, r, n) \<longrightarrow>
     fmlookup (lg_used g) i \<noteq> None \<and> 0 \<le> r \<and> 1 \<le> r + n \<and> n = session_units g k)"

definition out_ok :: "ledger \<Rightarrow> bool" where
  "out_ok g \<longleftrightarrow> (\<forall>a i ko. fmlookup (lg_out g) a = Some (i, ko) \<longrightarrow>
     fmlookup (lg_used g) i \<noteq> None \<and>
     (\<forall>k. ko = Some k \<longrightarrow> (\<exists>r n. fmlookup (lg_bound g) k = Some (i, r, n))))"

definition ledger_ok :: "ledger \<Rightarrow> bool" where
  "ledger_ok g \<longleftrightarrow> used_ok g \<and> bound_ok g \<and> out_ok g"

lemma used_okD: "ledger_ok g \<Longrightarrow> fmlookup (lg_used g) i = Some u \<Longrightarrow> u = bound_units g i + single_units g i"
  by (simp add: ledger_ok_def used_ok_def)

lemma bound_okD:
  assumes "ledger_ok g" "fmlookup (lg_bound g) k = Some (i, r, n)"
  shows "fmlookup (lg_used g) i \<noteq> None" "0 \<le> r" "1 \<le> r + n" "n = session_units g k"
  using assms unfolding ledger_ok_def bound_ok_def by blast+

lemma out_okD:
  assumes "ledger_ok g" "fmlookup (lg_out g) a = Some (i, ko)"
  shows "fmlookup (lg_used g) i \<noteq> None" "ko = Some k \<Longrightarrow> \<exists>r n. fmlookup (lg_bound g) k = Some (i, r, n)"
  using assms unfolding ledger_ok_def out_ok_def by blast+

lemma out_bound_same:
  assumes "ledger_ok g" "fmlookup (lg_out g) a = Some (j, Some k)" "fmlookup (lg_bound g) k = Some (i, r, n)"
  shows "j = i"
  using out_okD(2) [OF assms(1,2) refl] assms(3) by auto

section \<open>Steps\<close>

inductive ledger_step :: "ledger \<Rightarrow> ledger \<Rightarrow> bool" where
  lg_take: "fmlookup (lg_bound g) k = Some (i, r, n) \<Longrightarrow> fmlookup (lg_used g) i = Some u \<Longrightarrow>
    fmlookup (lg_out g) a = None \<Longrightarrow>
    ledger_step g (g\<lparr>lg_used := fmupd i (if r > 0 then u else u + 1) (lg_used g),
      lg_bound := fmupd k (i, if r > 0 then r - 1 else r, n + 1) (lg_bound g),
      lg_out := fmupd a (i, Some k) (lg_out g)\<rparr>)"
| lg_bind: "fmlookup (lg_bound g) k = None \<Longrightarrow> fmlookup (lg_used g) i = Some u \<Longrightarrow>
    fmlookup (lg_out g) a = None \<Longrightarrow> 1 \<le> c \<Longrightarrow>
    ledger_step g (g\<lparr>lg_used := fmupd i (u + c) (lg_used g),
      lg_bound := fmupd k (i, c - 1, 1) (lg_bound g), lg_out := fmupd a (i, Some k) (lg_out g)\<rparr>)"
| lg_single: "fmlookup (lg_used g) i = Some u \<Longrightarrow> fmlookup (lg_out g) a = None \<Longrightarrow>
    ledger_step g (g\<lparr>lg_used := fmupd i (u + 1) (lg_used g), lg_out := fmupd a (i, None) (lg_out g)\<rparr>)"
| lg_giveback: "fmlookup (lg_out g) a = Some (i, Some k) \<Longrightarrow> fmlookup (lg_bound g) k = Some (i, r, n) \<Longrightarrow>
    ledger_step g (g\<lparr>lg_bound := fmupd k (i, r + 1, n - 1) (lg_bound g), lg_out := fmdrop a (lg_out g)\<rparr>)"
| lg_return: "fmlookup (lg_out g) a = Some (i, None) \<Longrightarrow> fmlookup (lg_used g) i = Some u \<Longrightarrow>
    ledger_step g (g\<lparr>lg_used := fmupd i (u - 1) (lg_used g), lg_out := fmdrop a (lg_out g)\<rparr>)"
| lg_unbind: "fmlookup (lg_bound g) k = Some (i, r, 0) \<Longrightarrow> fmlookup (lg_used g) i = Some u \<Longrightarrow>
    ledger_step g (g\<lparr>lg_used := fmupd i (u - r) (lg_used g), lg_bound := fmdrop k (lg_bound g)\<rparr>)"
| lg_retire: "ledger_step g (g\<lparr>lg_used := fmdrop i (lg_used g),
      lg_bound := fmreject (\<lambda>_ (j, _). j = i) (lg_bound g),
      lg_out := fmreject (\<lambda>_ (j, _). j = i) (lg_out g)\<rparr>)"
| lg_enlist: "fmlookup (lg_used g) i = None \<Longrightarrow>
    ledger_step g (g\<lparr>lg_used := fmupd i 0 (lg_used g)\<rparr>)"

section \<open>The invariant is kept\<close>

lemmas units_defs = bound_units_def single_units_def session_units_def

lemma session_units_nonneg: "0 \<le> session_units g k"
  by (simp add: session_units_def fmsum_nonneg)

lemma single_units_nonneg: "0 \<le> single_units g k"
  by (simp add: single_units_def fmsum_nonneg split: prod.splits)

lemma bound_units_nonneg: "bound_ok g \<Longrightarrow> 0 \<le> bound_units g i"
  unfolding bound_units_def by (rule fmsum_nonneg) (fastforce simp: bound_ok_def split: prod.splits)

lemma bound_units_ge:
  assumes "bound_ok g" "fmlookup (lg_bound g) k = Some (i, r, n)"
  shows "r + n \<le> bound_units g i"
proof -
  have "weight_at (\<lambda>_ (j, r, n). if j = i then r + n else 0) (lg_bound g) k \<le> bound_units g i"
    unfolding bound_units_def
    by (rule fmsum_ge_weight) (use assms(1) in \<open>fastforce simp: bound_ok_def split: prod.splits\<close>)
  with assms(2) show ?thesis by simp
qed

lemma session_units_pos:
  assumes "fmlookup (lg_out g) a = Some (i, Some k)" shows "1 \<le> session_units g k"
proof -
  have "weight_at (\<lambda>_ (j, ko). if ko = Some k then 1 else 0) (lg_out g) a \<le> session_units g k"
    unfolding session_units_def
    using fmsum_ge_weight [of "lg_out g" "\<lambda>_ (j, ko). if ko = Some k then 1 else 0" a]
    by (simp add: case_prod_unfold)
  with assms show ?thesis by simp
qed

lemma single_units_pos:
  assumes "fmlookup (lg_out g) a = Some (i, None)" shows "1 \<le> single_units g i"
proof -
  have "weight_at (\<lambda>_ (j, ko). if j = i \<and> ko = None then 1 else 0) (lg_out g) a \<le> single_units g i"
    unfolding single_units_def
    using fmsum_ge_weight [of "lg_out g" "\<lambda>_ (j, ko). if j = i \<and> ko = None then 1 else 0" a]
    by (simp add: case_prod_unfold)
  with assms show ?thesis by simp
qed

text \<open>No units on an instance the ledger does not know.\<close>

lemma no_units_unknown:
  assumes "bound_ok g" "out_ok g" "fmlookup (lg_used g) i = None"
  shows "bound_units g i = 0" "single_units g i = 0"
proof -
  show "bound_units g i = 0" unfolding bound_units_def
    by (rule fmsum_zero) (use assms in \<open>fastforce simp: bound_ok_def split: prod.splits\<close>)
  show "single_units g i = 0" unfolding single_units_def
    by (rule fmsum_zero) (use assms in \<open>fastforce simp: out_ok_def split: prod.splits\<close>)
qed

lemma no_units_unbound:
  assumes "out_ok g" "fmlookup (lg_bound g) k = None"
  shows "session_units g k = 0"
  unfolding session_units_def
  by (rule fmsum_zero) (use assms in \<open>fastforce simp: out_ok_def split: prod.splits\<close>)

lemma ledger_step_used: "ledger_step g g' \<Longrightarrow> ledger_ok g \<Longrightarrow> used_ok g'"
proof (induction rule: ledger_step.induct)
  case (lg_retire g i)
  have "bound_units (g\<lparr>lg_used := fmdrop i (lg_used g), lg_bound := fmreject (\<lambda>_ (j, _). j = i) (lg_bound g),
      lg_out := fmreject (\<lambda>_ (j, _). j = i) (lg_out g)\<rparr>) j = bound_units g j" if "j \<noteq> i" for j
    using that by (auto simp: bound_units_def fmsum_reject intro!: fmsum_cong split: prod.splits)
  moreover have "single_units (g\<lparr>lg_used := fmdrop i (lg_used g), lg_bound := fmreject (\<lambda>_ (j, _). j = i) (lg_bound g),
      lg_out := fmreject (\<lambda>_ (j, _). j = i) (lg_out g)\<rparr>) j = single_units g j" if "j \<noteq> i" for j
    using that by (auto simp: single_units_def fmsum_reject intro!: fmsum_cong split: prod.splits)
  ultimately show ?case using lg_retire by (auto simp: ledger_ok_def used_ok_def split: if_splits)
next
  case (lg_enlist g i)
  then show ?case
    using no_units_unknown [of g i] by (auto simp: ledger_ok_def used_ok_def units_defs)
qed (auto simp: ledger_ok_def used_ok_def units_defs fmsum_simps split: if_splits)

lemma ledger_step_bound: "ledger_step g g' \<Longrightarrow> ledger_ok g \<Longrightarrow> bound_ok g'"
proof (induction rule: ledger_step.induct)
  case (lg_take g k i r n u a)
  then have "0 \<le> n" using bound_okD(4) [of g k i r n] session_units_nonneg [of g k] by simp
  with lg_take show ?case
    by (auto simp: ledger_ok_def bound_ok_def session_units_def fmsum_simps split: if_splits)
next
  case (lg_bind g k i u a c)
  then show ?case using no_units_unbound [of g k]
    by (auto simp: ledger_ok_def bound_ok_def session_units_def fmsum_simps split: if_splits)
next
  case (lg_giveback g a i k r n)
  then show ?case
    by (auto simp: ledger_ok_def bound_ok_def session_units_def fmsum_simps split: if_splits)
next
  case (lg_unbind g k i r u)
  then show ?case by (auto simp: ledger_ok_def bound_ok_def session_units_def split: if_splits)
next
  case (lg_retire g i)
  have "session_units (g\<lparr>lg_used := fmdrop i (lg_used g), lg_bound := fmreject (\<lambda>_ (j, _). j = i) (lg_bound g),
      lg_out := fmreject (\<lambda>_ (j, _). j = i) (lg_out g)\<rparr>) k = session_units g k"
    if "fmlookup (lg_bound g) k = Some (j, r, n)" "j \<noteq> i" for k j r n
  proof -
    have "j' = j" if "fmlookup (lg_out g) a = Some (j', Some k)" for a j'
      using that lg_retire \<open>fmlookup (lg_bound g) k = Some (j, r, n)\<close>
      by (fastforce simp: ledger_ok_def out_ok_def)
    with \<open>j \<noteq> i\<close> show ?thesis
      by (auto simp: session_units_def fmsum_reject intro!: fmsum_cong split: prod.splits)
  qed
  with lg_retire show ?case
    by (auto simp: ledger_ok_def bound_ok_def split: if_splits option.splits)
qed (auto simp: ledger_ok_def bound_ok_def session_units_def fmsum_simps split: if_splits)

lemma out_okI:
  assumes "\<And>a i ko. fmlookup (lg_out g) a = Some (i, ko) \<Longrightarrow> fmlookup (lg_used g) i \<noteq> None"
    and "\<And>a i k. fmlookup (lg_out g) a = Some (i, Some k) \<Longrightarrow> \<exists>r n. fmlookup (lg_bound g) k = Some (i, r, n)"
  shows "out_ok g"
  using assms unfolding out_ok_def by blast

lemma ledger_step_out: "ledger_step g g' \<Longrightarrow> ledger_ok g \<Longrightarrow> out_ok g'"
proof (induction rule: ledger_step.induct)
  case (lg_unbind g k i r u)
  then have "session_units g k = 0" using bound_okD(4) by fastforce
  then have none: "fmlookup (lg_out g) a \<noteq> Some (j, Some k)" for a j
    using session_units_pos [of g a j k] by auto
  show ?case
    by (rule out_okI) (use lg_unbind none out_okD in \<open>fastforce split: if_splits\<close>)+
next
  case (lg_retire g i)
  show ?case
    by (rule out_okI) (use lg_retire out_okD in \<open>fastforce split: if_splits option.splits prod.splits\<close>)+
next
  case (lg_take g k i r n u a)
  show ?case
  proof (rule out_okI, goal_cases)
    case (1 a' j ko)
    then show ?case using lg_take out_okD(1) [of g a' j ko] by (auto split: if_splits)
  next
    case (2 a' j k')
    then show ?case
      using lg_take out_okD(2) [of g a' j "Some k'" k'] out_bound_same [of g a' j k' i r n]
      by (auto split: if_splits)
  qed
next
  case (lg_giveback g a i k r n)
  show ?case
  proof (rule out_okI, goal_cases)
    case (1 a' j ko)
    then show ?case using lg_giveback out_okD(1) [of g a' j ko] by (auto split: if_splits)
  next
    case (2 a' j k')
    then show ?case
      using lg_giveback out_okD(2) [of g a' j "Some k'" k'] out_bound_same [of g a' j k' i r n]
      by (auto split: if_splits)
  qed
next
  case (lg_bind g k i u a c)
  show ?case
    by (rule out_okI) (use lg_bind out_okD in \<open>fastforce split: if_splits\<close>)+
next
  case (lg_single g i u a)
  show ?case
    by (rule out_okI) (use lg_single out_okD in \<open>fastforce split: if_splits\<close>)+
next
  case (lg_return g a i u)
  show ?case
    by (rule out_okI) (use lg_return out_okD in \<open>fastforce split: if_splits\<close>)+
next
  case (lg_enlist g i)
  show ?case
    by (rule out_okI) (use lg_enlist out_okD in \<open>fastforce split: if_splits\<close>)+
qed

lemma ledger_step_ok: "ledger_step g g' \<Longrightarrow> ledger_ok g \<Longrightarrow> ledger_ok g'"
  using ledger_step_used ledger_step_bound ledger_step_out unfolding ledger_ok_def by blast

lemma ledger_steps_ok: "ledger_step\<^sup>*\<^sup>* g g' \<Longrightarrow> ledger_ok g \<Longrightarrow> ledger_ok g'"
  by (induction rule: rtranclp_induct) (auto intro: ledger_step_ok)

text \<open>In an accounted ledger no instance is used a negative number of times.\<close>

lemma ledger_used_nonneg:
  "ledger_ok g \<Longrightarrow> fmlookup (lg_used g) i = Some u \<Longrightarrow> 0 \<le> u"
  using bound_units_nonneg [of g i] single_units_nonneg [of g i] used_okD [of g i u]
  by (simp add: ledger_ok_def)

text \<open>A session's units fit in what its instance uses, so giving them back never underflows.\<close>

lemma ledger_held_le:
  assumes "ledger_ok g" "fmlookup (lg_bound g) k = Some (i, r, n)" "fmlookup (lg_used g) i = Some u"
  shows "r + n \<le> u"
  using assms bound_units_ge [of g k i r n] single_units_nonneg [of g i] used_okD [of g i u]
  by (simp add: ledger_ok_def)

lemma ledger_single_le:
  assumes "ledger_ok g" "fmlookup (lg_out g) a = Some (i, None)" "fmlookup (lg_used g) i = Some u"
  shows "1 \<le> u"
  using assms bound_units_nonneg [of g i] single_units_pos [of g a i] used_okD [of g i u]
  by (simp add: ledger_ok_def)

lemma ledger_empty_ok: "ledger_ok \<lparr>lg_used = fmempty, lg_bound = fmempty, lg_out = fmempty\<rparr>"
  by (simp add: ledger_ok_def used_ok_def bound_ok_def out_ok_def)

end
