(* ===== verification/LiteAccounting.thy ===== *)
theory LiteAccounting
  imports LiteEvents Ledger
begin

text \<open>
  Capacity accounting of the session scheduler: the ledger that a pool and the allocations amount to,
  the invariant of the whole scheduler, and that every handler and event keeps it by going through
  steps of the ledger.
\<close>

section \<open>The ledger of a pool\<close>

definition alloc_view :: "LiteFunctionPool \<Rightarrow> Allocation \<Rightarrow> string \<times> string option" where
  "alloc_view p a =
     (al_InstanceID a,
      if al_SessionID a = [] then None else Some (sessionBindingKey p (al_SessionID a) (al_SessionCtxID a)))"

definition binding_view :: "sessionBinding \<Rightarrow> string \<times> int \<times> int" where
  "binding_view b = (sb_instanceID b, sb_reserved b, sb_activeAllocs b)"

definition pool_allocs :: "string \<Rightarrow> (string, Allocation) gomap \<Rightarrow> (string, Allocation) gomap" where
  "pool_allocs fk A = fmreject (\<lambda>_ a. al_FuncKey a \<noteq> fk) A"

definition other_allocs :: "string \<Rightarrow> (string, Allocation) gomap \<Rightarrow> (string, Allocation) gomap" where
  "other_allocs fk A = fmreject (\<lambda>_ a. al_FuncKey a = fk) A"

definition ledger_of :: "LiteFunctionPool \<Rightarrow> (string, Allocation) gomap \<Rightarrow> ledger" where
  "ledger_of p A =
     \<lparr>lg_used = fmmap li_InUse (lp_instances p), lg_bound = fmmap binding_view (lp_sessions p),
      lg_out = fmmap (alloc_view p) (pool_allocs (lp_funcKey p) A)\<rparr>"

lemma lookup_pool_allocs:
  "fmlookup (pool_allocs fk A) i =
     (case fmlookup A i of None \<Rightarrow> None | Some a \<Rightarrow> if al_FuncKey a = fk then Some a else None)"
  by (simp add: pool_allocs_def split: option.splits)

lemma lookup_other_allocs:
  "fmlookup (other_allocs fk A) i =
     (case fmlookup A i of None \<Rightarrow> None | Some a \<Rightarrow> if al_FuncKey a = fk then None else Some a)"
  by (simp add: other_allocs_def split: option.splits)

lemma ledger_of_sel [simp]:
  "fmlookup (lg_used (ledger_of p A)) i = map_option li_InUse (fmlookup (lp_instances p) i)"
  "fmlookup (lg_bound (ledger_of p A)) k = map_option binding_view (fmlookup (lp_sessions p) k)"
  "fmlookup (lg_out (ledger_of p A)) x = map_option (alloc_view p) (fmlookup (pool_allocs (lp_funcKey p) A) x)"
  by (simp_all add: ledger_of_def)

lemma alloc_view_cong: "lp_funcSpec p = lp_funcSpec q \<Longrightarrow> alloc_view p = alloc_view q"
  by (intro ext) (simp add: alloc_view_def sessionBindingKey_cong [of p q])

lemma alloc_view_frame [simp]:
  "alloc_view (set_inUse i n p) = alloc_view p" "alloc_view (set_binding k b p) = alloc_view p"
  "alloc_view (p\<lparr>lp_sessions := m\<rparr>) = alloc_view p" "alloc_view (p\<lparr>lp_instances := im\<rparr>) = alloc_view p"
  "alloc_view (p\<lparr>lp_sessionStore := st\<rparr>) = alloc_view p" "alloc_view (p\<lparr>lp_seqCounter := c\<rparr>) = alloc_view p"
  "alloc_view (p\<lparr>lp_dispatcher := d\<rparr>) = alloc_view p" "alloc_view (p\<lparr>lp_nextPtr := np\<rparr>) = alloc_view p"
  by (rule alloc_view_cong; simp)+

text \<open>How the ledger follows the updates of a pool and of the allocations.\<close>

lemma ledger_eqI:
  assumes "\<And>i. fmlookup (lg_used g) i = fmlookup (lg_used h) i"
    and "\<And>k. fmlookup (lg_bound g) k = fmlookup (lg_bound h) k"
    and "\<And>a. fmlookup (lg_out g) a = fmlookup (lg_out h) a"
  shows "g = (h :: ledger)"
  using assms by (cases g, cases h) (auto intro!: fmap_ext)

lemma ledger_set_inUse:
  assumes "fmlookup (lp_instances p) i \<noteq> None"
  shows "ledger_of (set_inUse i n p) A = (ledger_of p A)\<lparr>lg_used := fmupd i n (lg_used (ledger_of p A))\<rparr>"
  using assms by (intro ledger_eqI) auto

lemma ledger_set_binding:
  "ledger_of (set_binding k b p) A =
     (ledger_of p A)\<lparr>lg_bound := fmupd k (binding_view b) (lg_bound (ledger_of p A))\<rparr>"
  by (intro ledger_eqI) auto

lemma ledger_add_alloc:
  assumes "al_FuncKey a = lp_funcKey p"
  shows "ledger_of p (fmupd x a A) =
    (ledger_of p A)\<lparr>lg_out := fmupd x (alloc_view p a) (lg_out (ledger_of p A))\<rparr>"
  using assms by (intro ledger_eqI) (auto simp: lookup_pool_allocs)

lemma ledger_drop_alloc:
  "ledger_of p (fmdrop x A) = (ledger_of p A)\<lparr>lg_out := fmdrop x (lg_out (ledger_of p A))\<rparr>"
  by (intro ledger_eqI) (auto simp: lookup_pool_allocs)

lemma ledger_frame [simp]:
  "ledger_of (p\<lparr>lp_seqCounter := c\<rparr>) A = ledger_of p A"
  "ledger_of (p\<lparr>lp_sessionStore := st\<rparr>) A = ledger_of p A"
  "ledger_of (p\<lparr>lp_dispatcher := d\<rparr>) A = ledger_of p A"
  "ledger_of (p\<lparr>lp_nextPtr := n\<rparr>) A = ledger_of p A"
  by (simp_all add: ledger_of_def)

lemma ledger_same_binding:
  assumes "fmlookup (lp_sessions p) k = Some b" "binding_view b' = binding_view b"
  shows "ledger_of (set_binding k b' p) A = ledger_of p A"
  using assms by (intro ledger_eqI) auto

section \<open>The invariant\<close>

definition slots_ok :: "LiteFunctionPool \<Rightarrow> bool" where
  "slots_ok p \<longleftrightarrow> (\<forall>i ins. fmlookup (lp_instances p) i = Some ins \<longrightarrow> li_InstanceID ins = i \<and> schedulable ins)"

definition pool_inv :: "string \<Rightarrow> LiteFunctionPool \<Rightarrow> (string, Allocation) gomap \<Rightarrow> bool" where
  "pool_inv fk p A \<longleftrightarrow> lp_funcKey p = fk \<and> slots_ok p \<and> ledger_ok (ledger_of p A)"

definition sched_inv :: "LiteScheduler \<Rightarrow> bool" where
  "sched_inv s \<longleftrightarrow>
     (\<forall>fk pp. getPool s fk = Some pp \<longrightarrow>
        pp < ls_nextPool s \<and> (\<exists>p. pool_at s pp = Some p \<and> pool_inv fk p (ls_allocations s))) \<and>
     (\<forall>x a. fmlookup (ls_allocations s) x = Some a \<longrightarrow>
        al_AllocationID a = x \<and> getPool s (al_FuncKey a) \<noteq> None)"

lemma sched_inv_cong:
  assumes "ls_pools s' = ls_pools s" "ls_heap s' = ls_heap s" "ls_nextPool s' = ls_nextPool s"
    "ls_allocations s' = ls_allocations s"
  shows "sched_inv s' = sched_inv s"
  using assms by (simp add: sched_inv_def getPool_def pool_at_def)

lemma sched_inv_pool:
  assumes "sched_inv s" "getPool s fk = Some pp"
  obtains p where "pool_at s pp = Some p" "lp_funcKey p = fk" "slots_ok p"
    "ledger_ok (ledger_of p (ls_allocations s))"
  using assms unfolding sched_inv_def pool_inv_def by blast

lemma sched_inv_alloc:
  assumes "sched_inv s" "fmlookup (ls_allocations s) x = Some a"
  obtains pp where "al_AllocationID a = x" "getPool s (al_FuncKey a) = Some pp"
  using assms unfolding sched_inv_def by blast

text \<open>
  The one lemma behind all operations on a pool: the pool's ledger moves by ledger steps, the
  allocations of other functions do not change.
\<close>

lemma ledger_other:
  assumes "other_allocs fk A = other_allocs fk A'" "lp_funcKey q \<noteq> fk"
  shows "ledger_of q A = ledger_of q A'"
proof (rule ledger_eqI)
  fix x
  have "fmlookup (other_allocs fk A) x = fmlookup (other_allocs fk A') x" using assms(1) by simp
  then show "fmlookup (lg_out (ledger_of q A)) x = fmlookup (lg_out (ledger_of q A')) x"
    using assms(2) by (auto simp: lookup_pool_allocs lookup_other_allocs split: option.splits if_splits)
qed simp_all

text \<open>
  \<open>accounted s s'\<close>: the scheduler went from \<open>s\<close> to \<open>s'\<close> with the same pools, the invariant
  holds afterwards, and every pool's ledger moved by ledger steps.
\<close>

definition pool_of :: "LiteScheduler \<Rightarrow> string \<Rightarrow> LiteFunctionPool option" where
  "pool_of s fk = Option.bind (getPool s fk) (pool_at s)"

definition accounted :: "LiteScheduler \<Rightarrow> LiteScheduler \<Rightarrow> bool" where
  "accounted s s' \<longleftrightarrow> sched_inv s' \<and> ls_pools s' = ls_pools s \<and>
     (\<forall>fk p p'. pool_of s fk = Some p \<longrightarrow> pool_of s' fk = Some p' \<longrightarrow>
        ledger_step\<^sup>*\<^sup>* (ledger_of p (ls_allocations s)) (ledger_of p' (ls_allocations s')))"

lemma accounted_refl: "sched_inv s \<Longrightarrow> accounted s s"
  by (auto simp: accounted_def)

lemma accountedD: "accounted s s' \<Longrightarrow> sched_inv s'" "accounted s s' \<Longrightarrow> ls_pools s' = ls_pools s"
  by (simp_all add: accounted_def)

lemma accounted_trans:
  assumes "accounted s s1" "accounted s1 s2" shows "accounted s s2"
proof -
  have "ledger_step\<^sup>*\<^sup>* (ledger_of p (ls_allocations s)) (ledger_of p2 (ls_allocations s2))"
    if p: "pool_of s fk = Some p" and p2: "pool_of s2 fk = Some p2" for fk p p2
  proof -
    obtain pp where "getPool s fk = Some pp" using p by (auto simp: pool_of_def bind_eq_Some_conv)
    then have "getPool s1 fk = Some pp" using assms(1) by (simp add: accounted_def getPool_def)
    then obtain p1 where "pool_of s1 fk = Some p1"
      using assms(1) sched_inv_pool [of s1 fk pp] by (auto simp: accounted_def pool_of_def)
    with p p2 assms show ?thesis unfolding accounted_def by (meson rtranclp_trans)
  qed
  with assms show ?thesis by (auto simp: accounted_def)
qed

lemma accounted_cong:
  assumes "accounted s s1" "ls_pools s' = ls_pools s1" "ls_heap s' = ls_heap s1" "ls_nextPool s' = ls_nextPool s1"
    "ls_allocations s' = ls_allocations s1"
  shows "accounted s s'"
proof -
  have "pool_of s' fk = pool_of s1 fk" for fk
    using assms by (simp add: pool_of_def getPool_def pool_at_def [abs_def])
  then show ?thesis using assms sched_inv_cong [of s' s1] by (simp add: accounted_def)
qed

lemma accounted_step:
  assumes inv: "sched_inv s" and pp: "getPool s fk = Some pp" "pool_at s pp = Some p"
    and p': "lp_funcKey p' = fk" "slots_ok p'" "ledger_step\<^sup>*\<^sup>* (ledger_of p (ls_allocations s)) (ledger_of p' A')"
    and oth: "other_allocs fk (ls_allocations s) = other_allocs fk A'"
    and ids: "\<And>x a. fmlookup A' x = Some a \<Longrightarrow> al_FuncKey a = fk \<Longrightarrow> al_AllocationID a = x"
    and s': "ls_pools s' = ls_pools s" "ls_heap s' = fmupd pp p' (ls_heap s)" "ls_nextPool s' = ls_nextPool s"
      "ls_allocations s' = A'"
  shows "accounted s s'"
proof -
  have good: "ledger_ok (ledger_of p' A')"
    using sched_inv_pool [OF inv pp(1)] pp(2) p'(3) by (metis ledger_steps_ok option.inject)
  have fkp: "lp_funcKey p = fk" using sched_inv_pool [OF inv pp(1)] pp(2) by (metis option.inject)
  have others: "pp' \<noteq> pp \<and> (\<exists>q. pool_at s pp' = Some q \<and> pool_at s' pp' = Some q \<and>
      ledger_of q A' = ledger_of q (ls_allocations s) \<and> pool_inv fk' q A')"
    if g: "getPool s fk' = Some pp'" and ne: "fk' \<noteq> fk" for fk' pp'
  proof -
    obtain q where q: "pool_at s pp' = Some q" "lp_funcKey q = fk'" "slots_ok q"
      "ledger_ok (ledger_of q (ls_allocations s))" using sched_inv_pool [OF inv g] by metis
    with fkp pp ne have "pp' \<noteq> pp" by auto
    with q ne s' ledger_other [OF oth] show ?thesis by (auto simp: pool_inv_def pool_at_def)
  qed
  have mine: "pool_at s' pp = Some p'" using s' by (simp add: pool_at_def)
  have same: "getPool s' = getPool s" using s' by (simp add: getPool_def fun_eq_iff)
  have "pp' < ls_nextPool s' \<and> (\<exists>q. pool_at s' pp' = Some q \<and> pool_inv fk' q A')"
    if g: "getPool s' fk' = Some pp'" for fk' pp'
  proof -
    have "pp' < ls_nextPool s'" using inv g same s' by (auto simp: sched_inv_def)
    then show ?thesis
      using others [of fk' pp'] mine good p' pp g same by (cases "fk' = fk") (auto simp: pool_inv_def)
  qed
  moreover have "al_AllocationID a = x \<and> getPool s' (al_FuncKey a) \<noteq> None"
    if a: "fmlookup A' x = Some a" for x a
  proof (cases "al_FuncKey a = fk")
    case True
    with ids a pp same show ?thesis by simp
  next
    case False
    with a have "fmlookup (other_allocs fk A') x = Some a" by (simp add: lookup_other_allocs)
    then have "fmlookup (ls_allocations s) x = Some a"
      unfolding oth [symmetric] by (auto simp: lookup_other_allocs split: option.splits if_splits)
    with inv same show ?thesis by (auto simp: sched_inv_def)
  qed
  ultimately have "sched_inv s'" using s'(4) by (auto simp: sched_inv_def)
  moreover have "ledger_step\<^sup>*\<^sup>* (ledger_of q (ls_allocations s)) (ledger_of q' (ls_allocations s'))"
    if q: "pool_of s fk' = Some q" "pool_of s' fk' = Some q'" for fk' q q'
  proof -
    obtain pp' where "getPool s fk' = Some pp'" using q by (auto simp: pool_of_def bind_eq_Some_conv)
    then show ?thesis
      using q others [of fk' pp'] mine pp p'(3) same s'(4) by (cases "fk' = fk") (auto simp: pool_of_def)
  qed
  ultimately show ?thesis using s'(1) by (simp add: accounted_def)
qed

lemma other_allocs_upd:
  assumes "al_FuncKey a = fk" "\<And>b. fmlookup A x = Some b \<Longrightarrow> al_FuncKey b = fk"
  shows "other_allocs fk (fmupd x a A) = other_allocs fk A"
  using assms by (intro fmap_ext) (auto simp: lookup_other_allocs split: option.splits)

lemma other_allocs_drop:
  assumes "\<And>b. fmlookup A x = Some b \<Longrightarrow> al_FuncKey b = fk"
  shows "other_allocs fk (fmdrop x A) = other_allocs fk A"
  using assms by (intro fmap_ext) (auto simp: lookup_other_allocs split: option.splits)

lemma out_slot:
  assumes "ledger_ok (ledger_of p A)" "fmlookup A x = Some a" "al_FuncKey a = lp_funcKey p"
  obtains slot where "fmlookup (lp_instances p) (al_InstanceID a) = Some slot"
proof -
  have "fmlookup (lg_out (ledger_of p A)) x = Some (al_InstanceID a, snd (alloc_view p a))"
    using assms by (simp add: lookup_pool_allocs alloc_view_def)
  from out_okD(1) [OF assms(1) this] that show ?thesis by auto
qed

section \<open>Handing out a unit\<close>

text \<open>What a request must satisfy for the pool it is served from.\<close>

definition req_ok :: "LiteFunctionPool \<Rightarrow> (string, Allocation) gomap \<Rightarrow> LiteRequest \<Rightarrow> bool" where
  "req_ok p A req \<longleftrightarrow>
     rq_FuncKey req = lp_funcKey p \<and> 1 \<le> rq_Concurrency req \<and>
     rq_bindingKey req = sessionBindingKey p (rq_SessionID req) (rq_SessionCtxID req) \<and>
     (rq_SessionID req = [] \<longrightarrow> fmlookup (lp_sessions p) (rq_bindingKey req) = None) \<and>
     (\<forall>i. fmlookup (lp_instances p) i \<noteq> None \<longrightarrow>
        fmlookup A (genAllocationID (rq_bindingKey req) i (next_seq p)) = None)"

lemma assignInstance_state:
  assumes "assignInstance env pp p req slot binding s = (s', resp)"
  shows "ls_pools s' = ls_pools s" "ls_nextPool s' = ls_nextPool s"
    "ls_heap s' = fmupd pp (applySlotBinding req slot binding (p\<lparr>lp_seqCounter := lp_seqCounter p + 1\<rparr>)) (ls_heap s)"
    "ls_allocations s' =
       (let x = genAllocationID (rq_bindingKey req) (li_InstanceID slot) (next_seq p)
        in fmupd x (new_allocation env req slot x) (ls_allocations s))"
    "ls_ownerProxy s' = ls_ownerProxy s" "ls_timers s' = ls_timers s" "ls_nextTimer s' = ls_nextTimer s"
    "granted resp" "ir_InstanceID resp = li_InstanceID slot"
    "ir_ThreadID resp = genAllocationID (rq_bindingKey req) (li_InstanceID slot) (next_seq p)"
  using assms
  by (auto simp: assignInstance_def Let_def put_pool_def registerExpiryTask_def recordAcquireMetrics_def
      count_metric_def liteSuccessResp_def liteErrResp_def)

lemma applySlotBinding_frame [simp]:
  "lp_funcKey (applySlotBinding req slot binding p) = lp_funcKey p"
  "lp_funcSpec (applySlotBinding req slot binding p) = lp_funcSpec p"
  "lp_dispatcher (applySlotBinding req slot binding p) = lp_dispatcher p"
  "lp_seqCounter (applySlotBinding req slot binding p) = lp_seqCounter p"
  by (auto simp: applySlotBinding_def Let_def bindSessionFreshLocked_def split: option.splits prod.splits)

lemma slots_ok_set_inUse [simp]: "slots_ok p \<Longrightarrow> slots_ok (set_inUse i n p)"
  by (fastforce simp: slots_ok_def schedulable_def split: if_splits)

lemma slots_ok_frame [simp]:
  "slots_ok (set_binding k b p) = slots_ok p" "slots_ok (p\<lparr>lp_seqCounter := c\<rparr>) = slots_ok p"
  "slots_ok (p\<lparr>lp_sessionStore := st\<rparr>) = slots_ok p" "slots_ok (p\<lparr>lp_dispatcher := d\<rparr>) = slots_ok p"
  "slots_ok (p\<lparr>lp_nextPtr := n\<rparr>) = slots_ok p" "slots_ok (p\<lparr>lp_sessions := m\<rparr>) = slots_ok p"
  by (simp_all add: slots_ok_def)

lemma slots_ok_apply [simp]: "slots_ok p \<Longrightarrow> slots_ok (applySlotBinding req slot binding p)"
  by (auto simp: applySlotBinding_def Let_def bindSessionFreshLocked_def split: option.splits prod.splits)

text \<open>The ledger step of an assignment, for a sticky and for a fresh one.\<close>

lemma assign_ledger_take:
  assumes "fmlookup (lp_sessions p) (rq_bindingKey req) = Some b"
    and "fmlookup (lp_instances p) (sb_instanceID b) = Some slot" and "li_InstanceID slot = sb_instanceID b"
    and "rq_SessionID req \<noteq> []" and "req_ok p A req"
    and x: "x = genAllocationID (rq_bindingKey req) (li_InstanceID slot) (next_seq p)"
  shows "ledger_step (ledger_of p A)
    (ledger_of (applySlotBinding req slot (Some b) (p\<lparr>lp_seqCounter := c\<rparr>)) (fmupd x (new_allocation env req slot x) A))"
proof -
  let ?a = "new_allocation env req slot x" and ?q = "p\<lparr>lp_seqCounter := c\<rparr>"
  obtain b' d where bd: "bindSessionStickyTakeLocked b = (b', d)" by fastforce
  have key: "rq_bindingKey req = sessionBindingKey p (rq_SessionID req) (rq_SessionCtxID req)"
    and fk: "rq_FuncKey req = lp_funcKey p" and fresh: "fmlookup A x = None"
    using assms by (auto simp: req_ok_def)
  let ?r = "set_inUse (li_InstanceID slot) (li_InUse slot + d) (set_binding (rq_bindingKey req) b' ?q)"
  have view: "alloc_view ?r ?a = (sb_instanceID b, Some (rq_bindingKey req))"
    using assms key by (simp add: alloc_view_def new_allocation_def sessionBindingKey_def)
  have "ledger_of ?r (fmupd x ?a A) =
    (ledger_of p A)\<lparr>lg_used := fmupd (sb_instanceID b) (if sb_reserved b > 0 then li_InUse slot else li_InUse slot + 1) (lg_used (ledger_of p A)),
      lg_bound := fmupd (rq_bindingKey req) (sb_instanceID b, if sb_reserved b > 0 then sb_reserved b - 1 else sb_reserved b, sb_activeAllocs b + 1) (lg_bound (ledger_of p A)),
      lg_out := fmupd x (sb_instanceID b, Some (rq_bindingKey req)) (lg_out (ledger_of p A))\<rparr>"
    using bd assms(2,3) fk view
    by (subst ledger_add_alloc)
      (auto simp: new_allocation_def ledger_set_inUse ledger_set_binding bindSessionStickyTakeLocked_def
        binding_view_def split: if_splits)
  moreover have "ledger_step (ledger_of p A) \<dots>"
    using assms(1,2) fresh
    by (intro lg_take [of "ledger_of p A"]) (auto simp: binding_view_def lookup_pool_allocs)
  ultimately show ?thesis using bd by (simp add: applySlotBinding_def)
qed

lemma assign_ledger_fresh:
  assumes "fmlookup (lp_instances p) (li_InstanceID slot) = Some slot"
    and "fmlookup (lp_sessions p) (rq_bindingKey req) = None" and "req_ok p A req"
    and x: "x = genAllocationID (rq_bindingKey req) (li_InstanceID slot) (next_seq p)"
  shows "ledger_step (ledger_of p A)
    (ledger_of (applySlotBinding req slot None (p\<lparr>lp_seqCounter := c\<rparr>)) (fmupd x (new_allocation env req slot x) A))"
proof -
  let ?a = "new_allocation env req slot x" and ?i = "li_InstanceID slot" and ?k = "rq_bindingKey req"
  have key: "?k = sessionBindingKey p (rq_SessionID req) (rq_SessionCtxID req)"
    and fk: "rq_FuncKey req = lp_funcKey p" and fresh: "fmlookup A x = None" and c1: "1 \<le> rq_Concurrency req"
    using assms by (auto simp: req_ok_def)
  define q where "q = applySlotBinding req slot None (p\<lparr>lp_seqCounter := c\<rparr>)"
  have view: "alloc_view q ?a = (?i, if rq_SessionID req = [] then None else Some ?k)"
    using key sessionBindingKey_cong [of q p]
    by (simp add: alloc_view_def new_allocation_def q_def)
  have out: "ledger_of q (fmupd x ?a A) =
      (ledger_of q A)\<lparr>lg_out := fmupd x (?i, if rq_SessionID req = [] then None else Some ?k) (lg_out (ledger_of q A))\<rparr>"
    using fk view by (subst ledger_add_alloc) (simp_all add: new_allocation_def q_def)
  show ?thesis
  proof (cases "rq_SessionID req = []")
    case True
    then have "ledger_of q A = (ledger_of p A)\<lparr>lg_used := fmupd ?i (li_InUse slot + 1) (lg_used (ledger_of p A))\<rparr>"
      using assms(1) by (simp add: q_def applySlotBinding_def ledger_set_inUse)
    then show ?thesis
      using lg_single [of "ledger_of p A" ?i "li_InUse slot" x] True out assms(1) fresh
      by (simp add: q_def lookup_pool_allocs)
  next
    case False
    then have "ledger_of q A = (ledger_of p A)\<lparr>lg_used := fmupd ?i (li_InUse slot + rq_Concurrency req) (lg_used (ledger_of p A)),
        lg_bound := fmupd ?k (?i, rq_Concurrency req - 1, 1) (lg_bound (ledger_of p A))\<rparr>"
      using assms(1)
      by (simp add: q_def applySlotBinding_def Let_def bindSessionFreshLocked_def ledger_set_inUse
          ledger_set_binding binding_view_def)
    then show ?thesis
      using lg_bind [of "ledger_of p A" ?k ?i "li_InUse slot" x "rq_Concurrency req"] False out assms(1,2) fresh c1
      by (simp add: q_def lookup_pool_allocs)
  qed
qed

lemma new_allocation_sel [simp]:
  "al_FuncKey (new_allocation env req slot x) = rq_FuncKey req"
  "al_AllocationID (new_allocation env req slot x) = x"
  "al_InstanceID (new_allocation env req slot x) = li_InstanceID slot"
  by (simp_all add: new_allocation_def)

text \<open>\<open>p\<close> is the pool as the caller has it under the lock: its ledger is that of the pool in the heap.\<close>

lemma assignInstance_accounted:
  assumes inv: "sched_inv s" and pp: "getPool s fk = Some pp" "pool_at s pp = Some p0"
    and p: "lp_funcKey p = fk" "slots_ok p" "ledger_of p (ls_allocations s) = ledger_of p0 (ls_allocations s)"
    and req: "req_ok p (ls_allocations s) req"
    and slot: "fmlookup (lp_instances p) (li_InstanceID slot) = Some slot"
    and binding: "fmlookup (lp_sessions p) (rq_bindingKey req) = binding"
      "\<And>b. binding = Some b \<Longrightarrow> sb_instanceID b = li_InstanceID slot \<and> rq_SessionID req \<noteq> []"
    and res: "assignInstance env pp p req slot binding s = (s', resp)"
  shows "accounted s s'"
proof -
  let ?A = "ls_allocations s"
  define x where "x = genAllocationID (rq_bindingKey req) (li_InstanceID slot) (next_seq p)"
  define p' where "p' = applySlotBinding req slot binding (p\<lparr>lp_seqCounter := lp_seqCounter p + 1\<rparr>)"
  have fresh: "fmlookup ?A x = None" using req slot by (auto simp: req_ok_def x_def)
  have fkr: "rq_FuncKey req = fk" using req p by (simp add: req_ok_def)
  have "ledger_step (ledger_of p ?A) (ledger_of p' (fmupd x (new_allocation env req slot x) ?A))"
  proof (cases binding)
    case None
    with binding slot req show ?thesis unfolding p'_def
      by (simp add: assign_ledger_fresh x_def)
  next
    case (Some b)
    with binding slot req show ?thesis unfolding p'_def Some
      by (intro assign_ledger_take) (auto simp: x_def)
  qed
  then have step: "ledger_step\<^sup>*\<^sup>* (ledger_of p0 ?A) (ledger_of p' (fmupd x (new_allocation env req slot x) ?A))"
    using p(3) by auto
  show ?thesis
  proof (rule accounted_step [OF inv pp _ _ step])
    show "lp_funcKey p' = fk" "slots_ok p'" using p by (simp_all add: p'_def)
    show "other_allocs fk ?A = other_allocs fk (fmupd x (new_allocation env req slot x) ?A)"
      using fresh fkr by (intro other_allocs_upd [symmetric]) auto
    show "al_AllocationID a = y"
      if "fmlookup (fmupd x (new_allocation env req slot x) ?A) y = Some a" "al_FuncKey a = fk" for y a
      using that inv by (auto simp: sched_inv_def split: if_splits)
  qed (use assignInstance_state [OF res] in \<open>simp_all add: p'_def x_def Let_def\<close>)
qed

section \<open>Acquire\<close>

lemma put_pool_same: "pool_at s pp = Some p \<Longrightarrow> put_pool pp p s = s"
proof -
  assume "pool_at s pp = Some p"
  then have "fmupd pp p (ls_heap s) = ls_heap s" by (intro fmap_ext) (auto simp: pool_at_def)
  then show ?thesis by (simp add: put_pool_def)
qed

lemma put_pool_sel [simp]:
  "ls_pools (put_pool pp p s) = ls_pools s" "ls_heap (put_pool pp p s) = fmupd pp p (ls_heap s)"
  "ls_nextPool (put_pool pp p s) = ls_nextPool s" "ls_allocations (put_pool pp p s) = ls_allocations s"
  "ls_expiryWheel (put_pool pp p s) = ls_expiryWheel s" "ls_timers (put_pool pp p s) = ls_timers s"
  "ls_nextTimer (put_pool pp p s) = ls_nextTimer s" "ls_ownerProxy (put_pool pp p s) = ls_ownerProxy s"
  "pool_at (put_pool pp p s) pp = Some p" "getPool (put_pool pp p s) fk = getPool s fk"
  by (simp_all add: put_pool_def pool_at_def getPool_def)

text \<open>Storing a pool whose ledger is unchanged.\<close>

lemma accounted_put_same:
  assumes "sched_inv s" "getPool s fk = Some pp" "pool_at s pp = Some p"
    "lp_funcKey p' = fk" "slots_ok p'" "ledger_of p' (ls_allocations s) = ledger_of p (ls_allocations s)"
  shows "accounted s (put_pool pp p' s)"
  using assms
  by (intro accounted_step [OF assms(1-3), where p' = p' and A' = "ls_allocations s"])
    (auto simp: sched_inv_def)

lemma cancel_ledger: "ledger_of (cancelSessionUnbind k p) A = ledger_of p A"
  by (auto simp: cancelSessionUnbind_def binding_view_def intro!: ledger_same_binding split: option.splits)

lemma cancel_frame [simp]:
  "lp_funcKey (cancelSessionUnbind k p) = lp_funcKey p" "lp_funcSpec (cancelSessionUnbind k p) = lp_funcSpec p"
  "lp_instances (cancelSessionUnbind k p) = lp_instances p" "lp_seqCounter (cancelSessionUnbind k p) = lp_seqCounter p"
  "slots_ok (cancelSessionUnbind k p) = slots_ok p"
  by (auto simp: cancelSessionUnbind_def split: option.splits)

lemma cancel_lookup:
  assumes "fmlookup (lp_sessions p) k = Some b"
  obtains b' where "fmlookup (lp_sessions (cancelSessionUnbind k p)) k = Some b'" "binding_view b' = binding_view b"
    "sb_ptr b' = sb_ptr b" "\<not> sb_expiring b'"
proof (cases "sb_expiring b")
  case True
  with assms that [of "(stopTimer b)\<lparr>sb_expiring := False\<rparr>"] show ?thesis
    by (simp add: cancelSessionUnbind_def binding_view_def stopTimer_def)
next
  case False
  with assms that [of b] show ?thesis by (simp add: cancelSessionUnbind_def)
qed

lemma req_ok_frame:
  assumes "lp_funcKey q = lp_funcKey p" "lp_funcSpec q = lp_funcSpec p" "lp_instances q = lp_instances p"
    "lp_seqCounter q = lp_seqCounter p"
    "fmlookup (lp_sessions q) (rq_bindingKey req) = None \<longleftrightarrow> fmlookup (lp_sessions p) (rq_bindingKey req) = None"
  shows "req_ok q A req = req_ok p A req"
  using assms by (simp add: req_ok_def sessionBindingKey_cong [of q p] next_seq_def)

text \<open>
  In an accounted pool a bound session's instance is in the pool and schedulable, so a sticky lookup
  misses only when there is no binding.
\<close>

lemma bound_slot:
  assumes "ledger_ok (ledger_of p A)" "slots_ok p" "fmlookup (lp_sessions p) k = Some b"
  obtains slot where "fmlookup (lp_instances p) (sb_instanceID b) = Some slot"
    "li_InstanceID slot = sb_instanceID b" "schedulable slot"
proof -
  have "fmlookup (lg_bound (ledger_of p A)) k = Some (sb_instanceID b, sb_reserved b, sb_activeAllocs b)"
    using assms(3) by (simp add: binding_view_def)
  from bound_okD(1) [OF assms(1) this] show ?thesis using that assms(2) by (auto simp: slots_ok_def)
qed

lemma tryLocalSticky_cases:
  assumes inv: "sched_inv s" and pp: "getPool s fk = Some pp" "pool_at s pp = Some p"
  obtains
    (unbound) "fmlookup (lp_sessions p) (rq_bindingKey req) = None" "tryLocalSticky env pp req s = (s, None)"
  | (full) b slot where "fmlookup (lp_sessions p) (rq_bindingKey req) = Some b"
      "fmlookup (lp_instances p) (sb_instanceID b) = Some slot" "\<not> sb_reserved b > 0"
      "\<not> li_InUse slot < li_Capacity slot"
      "tryLocalSticky env pp req s = (s, Some (no_instance env req))"
  | (hit) b slot b' s' resp where "fmlookup (lp_sessions p) (rq_bindingKey req) = Some b"
      "fmlookup (lp_instances p) (sb_instanceID b) = Some slot" "li_InstanceID slot = sb_instanceID b"
      "sb_reserved b > 0 \<or> li_InUse slot < li_Capacity slot"
      "fmlookup (lp_sessions (cancelSessionUnbind (rq_bindingKey req) p)) (rq_bindingKey req) = Some b'"
      "binding_view b' = binding_view b"
      "assignInstance env pp (cancelSessionUnbind (rq_bindingKey req) p) req slot (Some b') s = (s', resp)"
      "tryLocalSticky env pp req s = (s', Some resp)"
proof (cases "fmlookup (lp_sessions p) (rq_bindingKey req)")
  case None
  with that(1) pp show ?thesis by (simp add: tryLocalSticky_def tryLocalStickyLocked_def put_pool_same)
next
  case (Some b)
  obtain slot where slot: "fmlookup (lp_instances p) (sb_instanceID b) = Some slot"
    "li_InstanceID slot = sb_instanceID b" "schedulable slot"
    using sched_inv_pool [OF inv pp(1)] pp(2) bound_slot [OF _ _ Some] by (metis option.inject)
  obtain b' where b': "fmlookup (lp_sessions (cancelSessionUnbind (rq_bindingKey req) p)) (rq_bindingKey req) = Some b'"
    "binding_view b' = binding_view b" using cancel_lookup [OF Some] by metis
  obtain s' resp where as: "assignInstance env pp (cancelSessionUnbind (rq_bindingKey req) p) req slot (Some b') s = (s', resp)"
    by fastforce
  show ?thesis
  proof (cases "sb_reserved b > 0 \<or> li_InUse slot < li_Capacity slot")
    case True
    have "tryLocalSticky env pp req s = (s', Some resp)"
      using Some slot True pp b' as
      by (auto simp: tryLocalSticky_def tryLocalStickyLocked_def schedulable_def Let_def)
    with that(3) Some slot True b' as show ?thesis by blast
  next
    case False
    have "tryLocalSticky env pp req s = (s, Some (no_instance env req))"
      using Some slot False pp
      by (auto simp: tryLocalSticky_def tryLocalStickyLocked_def schedulable_def Let_def put_pool_same)
    with that(2) Some slot False show ?thesis by blast
  qed
qed

lemma tryLocalSticky_accounted:
  assumes inv: "sched_inv s" and pp: "getPool s fk = Some pp" "pool_at s pp = Some p"
    and req: "req_ok p (ls_allocations s) req" and res: "tryLocalSticky env pp req s = (s', r)"
  shows "accounted s s'"
  using inv pp
proof (cases rule: tryLocalSticky_cases [where req = req and env = env])
  case unbound
  with res inv show ?thesis by (simp add: accounted_refl)
next
  case (full b slot)
  with res inv show ?thesis by (simp add: accounted_refl)
next
  case (hit b slot b' s1 resp)
  let ?q = "cancelSessionUnbind (rq_bindingKey req) p"
  have ok: "lp_funcKey p = fk" "slots_ok p" using sched_inv_pool [OF inv pp(1)] pp(2) by (metis option.inject)+
  have "rq_SessionID req \<noteq> []" using req hit(1) by (auto simp: req_ok_def)
  moreover have "sb_instanceID b' = sb_instanceID b" using hit(6) by (simp add: binding_view_def)
  moreover have "req_ok ?q (ls_allocations s) req"
    using req hit(1,5) by (subst req_ok_frame [of ?q p]) auto
  ultimately have "accounted s s1"
    using ok hit by (intro assignInstance_accounted [OF inv pp _ _ cancel_ledger _ _ _ _ hit(7)]) auto
  with hit res show ?thesis by simp
qed

lemma tryStoreRecovery_accounted:
  assumes inv: "sched_inv s" and pp: "getPool s fk = Some pp" "pool_at s pp = Some p"
    and req: "req_ok p (ls_allocations s) req"
    and unbound: "fmlookup (lp_sessions p) (rq_bindingKey req) = None"
    and res: "tryStoreRecoveryLocked env pp req storeRec s = (s', r)"
  shows "accounted s s' \<and> (r = None \<longrightarrow> (\<exists>st. s' = put_pool pp (p\<lparr>lp_sessionStore := st\<rparr>) s))"
proof -
  have ok: "lp_funcKey p = fk" "slots_ok p" using sched_inv_pool [OF inv pp(1)] pp(2) by (metis option.inject)+
  have same: "\<exists>st. s = put_pool pp (p\<lparr>lp_sessionStore := st\<rparr>) s"
    using pp by (intro exI [of _ "lp_sessionStore p"]) (simp add: put_pool_same)
  have store: "accounted s (put_pool pp (p\<lparr>lp_sessionStore := st\<rparr>) s)" for st
    using ok by (intro accounted_put_same [OF inv pp]) auto
  show ?thesis
  proof (cases r)
    case None
    with res pp store same accounted_refl [OF inv] show ?thesis
      by (auto simp: tryStoreRecoveryLocked_def Let_def split: option.splits if_splits prod.splits)
  next
    case (Some resp)
    then obtain i slot where slot: "fmlookup (lp_instances p) i = Some slot"
      "assignInstance env pp p req slot None s = (s', resp)"
      using res pp by (auto simp: tryStoreRecoveryLocked_def Let_def split: option.splits if_splits prod.splits)
    then have "fmlookup (lp_instances p) (li_InstanceID slot) = Some slot" using ok by (auto simp: slots_ok_def)
    then have "accounted s s'"
      using slot unbound ok by (intro assignInstance_accounted [OF inv pp _ _ refl req _ _ _ slot(2)]) auto
    with Some show ?thesis by simp
  qed
qed

lemma tryDispatch_accounted:
  assumes inv: "sched_inv s" and pp: "getPool s fk = Some pp" "pool_at s pp = Some p"
    and req: "req_ok p (ls_allocations s) req" and ord: "range_order (ev_instances env)"
    and unbound: "fmlookup (lp_sessions p) (rq_bindingKey req) = None"
    and res: "tryDispatchLocked env pp req s = (s', r)"
  shows "accounted s s'"
proof -
  have ok: "lp_funcKey p = fk" "slots_ok p" using sched_inv_pool [OF inv pp(1)] pp(2) by (metis option.inject)+
  obtain chosen d where sel: "dispatcher_Select (lp_dispatcher p)
      (candidateSlotsLocked (ev_instances env) p (rq_SessionCtxID req) (rq_Concurrency req)) (rq_Concurrency req) = (chosen, d)"
    by fastforce
  let ?q = "p\<lparr>lp_dispatcher := d\<rparr>"
  show ?thesis
  proof (cases chosen)
    case None
    then have "s' = put_pool pp ?q s" using res pp sel by (simp add: tryDispatchLocked_def Let_def)
    moreover have "accounted s (put_pool pp ?q s)" using ok by (intro accounted_put_same [OF inv pp]) auto
    ultimately show ?thesis by simp
  next
    case (Some slot)
    then have "slot \<in> set (candidateSlotsLocked (ev_instances env) p (rq_SessionCtxID req) (rq_Concurrency req))"
      using dispatch.select_sound [of "lp_dispatcher p" _ _ slot] sel by (metis fst_conv)
    then obtain i where "fmlookup (lp_instances p) i = Some slot" using candidateSlots_sound [OF ord] by blast
    then have slot: "fmlookup (lp_instances ?q) (li_InstanceID slot) = Some slot" using ok by (auto simp: slots_ok_def)
    obtain resp where as: "assignInstance env pp ?q req slot None s = (s', resp)"
      using res pp sel Some by (auto simp: tryDispatchLocked_def Let_def split: prod.splits)
    have "req_ok ?q (ls_allocations s) req" using req by (subst req_ok_frame [of ?q p]) auto
    with ok slot unbound show ?thesis
      by (intro assignInstance_accounted [OF inv pp _ _ _ _ slot _ _ as]) auto
  qed
qed

lemma acquireDispatch_accounted:
  assumes inv: "sched_inv s" and pp: "getPool s fk = Some pp" "pool_at s pp = Some p"
    and req: "req_ok p (ls_allocations s) req" and ord: "range_order (ev_instances env)"
    and res: "acquireDispatch env pp req storeRec s = (s', r)"
  shows "accounted s s'"
  using inv pp
proof (cases rule: tryLocalSticky_cases [where req = req and env = env])
  case unbound
  obtain s2 r2 where rec: "tryStoreRecoveryLocked env pp req storeRec s = (s2, r2)" by fastforce
  note a = tryStoreRecovery_accounted [OF inv pp req unbound(1) rec]
  show ?thesis
  proof (cases r2)
    case None
    then obtain st where s2: "s2 = put_pool pp (p\<lparr>lp_sessionStore := st\<rparr>) s" using a by auto
    have "accounted s2 s'"
    proof (rule tryDispatch_accounted [of s2 fk pp "p\<lparr>lp_sessionStore := st\<rparr>"])
      show "sched_inv s2" using a by (simp add: accounted_def)
      show "getPool s2 fk = Some pp" "pool_at s2 pp = Some (p\<lparr>lp_sessionStore := st\<rparr>)" using pp s2 by simp_all
      show "req_ok (p\<lparr>lp_sessionStore := st\<rparr>) (ls_allocations s2) req"
        using req s2 by (simp add: req_ok_frame [of "p\<lparr>lp_sessionStore := st\<rparr>" p])
      show "tryDispatchLocked env pp req s2 = (s', r)"
        using res unbound(2) rec None by (simp add: acquireDispatch_def)
    qed (use ord unbound in simp_all)
    with a show ?thesis using accounted_trans by blast
  next
    case (Some resp)
    with res unbound(2) rec a show ?thesis by (simp add: acquireDispatch_def)
  qed
next
  case (full b slot)
  with res inv show ?thesis by (simp add: acquireDispatch_def accounted_refl)
next
  case (hit b slot b' s1 resp)
  with tryLocalSticky_accounted [OF inv pp req hit(8)] res show ?thesis by (simp add: acquireDispatch_def)
qed

section \<open>Release, expiry and idle unbinding\<close>

lemma unbind_release_ledger:
  assumes "fmlookup (lp_sessions p) k = Some b" "0 < sb_activeAllocs b"
    "unbindSessionOnRelease k p = (p', t)"
  shows "ledger_of p' A = (ledger_of p A)\<lparr>lg_bound :=
      fmupd k (sb_instanceID b, sb_reserved b + 1, sb_activeAllocs b - 1) (lg_bound (ledger_of p A))\<rparr>"
    "lp_funcKey p' = lp_funcKey p" "lp_funcSpec p' = lp_funcSpec p" "lp_instances p' = lp_instances p"
    "slots_ok p' = slots_ok p"
  using assms
  by (auto simp: unbindSessionOnRelease_def Let_def release_unit_def ledger_set_binding binding_view_def
      split: if_splits)

text \<open>Taking an allocation out of the map and giving its unit back to where it came from.\<close>

lemma give_back_session:
  assumes led: "ledger_ok (ledger_of p A)" and a: "fmlookup A x = Some a" "al_FuncKey a = lp_funcKey p"
    and sess: "al_SessionID a \<noteq> []" "k = sessionBindingKey p (al_SessionID a) (al_SessionCtxID a)"
    and res: "unbindSessionOnRelease k p = (p', t)"
  shows "ledger_step (ledger_of p A) (ledger_of p' (fmdrop x A)) \<and> lp_funcKey p' = lp_funcKey p \<and>
    slots_ok p' = slots_ok p \<and> lp_instances p' = lp_instances p"
proof -
  have out: "fmlookup (lg_out (ledger_of p A)) x = Some (al_InstanceID a, Some k)"
    using a sess by (simp add: lookup_pool_allocs alloc_view_def)
  then obtain b where b: "fmlookup (lp_sessions p) k = Some b" "sb_instanceID b = al_InstanceID a"
    using out_okD(2) [OF led out refl] by (auto simp: binding_view_def)
  have bd: "fmlookup (lg_bound (ledger_of p A)) k = Some (sb_instanceID b, sb_reserved b, sb_activeAllocs b)"
    using b by (simp add: binding_view_def)
  have "0 < sb_activeAllocs b" using bound_okD(4) [OF led bd] session_units_pos [OF out] by simp
  note u = unbind_release_ledger [OF b(1) this res]
  have "ledger_of p' (fmdrop x A) = (ledger_of p A)\<lparr>lg_bound :=
      fmupd k (sb_instanceID b, sb_reserved b + 1, sb_activeAllocs b - 1) (lg_bound (ledger_of p A)),
      lg_out := fmdrop x (lg_out (ledger_of p A))\<rparr>"
    by (simp add: ledger_drop_alloc u(1))
  with lg_giveback [OF out] bd b u show ?thesis by auto
qed

lemma give_back_single:
  assumes led: "ledger_ok (ledger_of p A)" and a: "fmlookup A x = Some a" "al_FuncKey a = lp_funcKey p"
    "al_SessionID a = []"
  obtains slot where "fmlookup (lp_instances p) (al_InstanceID a) = Some slot" "li_InUse slot > 0"
    "ledger_step (ledger_of p A) (ledger_of (set_inUse (al_InstanceID a) (li_InUse slot - 1) p) (fmdrop x A))"
proof -
  have out: "fmlookup (lg_out (ledger_of p A)) x = Some (al_InstanceID a, None)"
    using a by (simp add: lookup_pool_allocs alloc_view_def)
  obtain slot where slot: "fmlookup (lp_instances p) (al_InstanceID a) = Some slot"
    using out_okD(1) [OF led out] by auto
  then have used: "fmlookup (lg_used (ledger_of p A)) (al_InstanceID a) = Some (li_InUse slot)" by simp
  have "li_InUse slot > 0" using ledger_single_le [OF led out used] by simp
  moreover have "ledger_step (ledger_of p A) (ledger_of (set_inUse (al_InstanceID a) (li_InUse slot - 1) p) (fmdrop x A))"
    using lg_return [OF out used] slot by (simp add: ledger_drop_alloc ledger_set_inUse)
  ultimately show ?thesis using that slot by blast
qed

text \<open>The idle timer does not touch the ledger; when it fires it gives back the session's units.\<close>

lemma startTimer_accounted:
  assumes inv: "sched_inv s" and pp: "getPool s fk = Some pp"
  shows "accounted s (startSessionUnbindTimer pp k ttl s)"
proof -
  obtain p where p: "pool_at s pp = Some p" "lp_funcKey p = fk" "slots_ok p"
    using sched_inv_pool [OF inv pp] by metis
  show ?thesis
  proof (cases "fmlookup (lp_sessions p) k")
    case None
    with p inv show ?thesis by (simp add: startSessionUnbindTimer_def accounted_refl)
  next
    case (Some b)
    let ?p = "set_binding k ((stopTimer b)\<lparr>sb_timer := Some (ls_nextTimer s)\<rparr>) p"
    have "accounted s (put_pool pp ?p s)"
      using p Some by (intro accounted_put_same [OF inv pp p(1)])
        (auto intro!: ledger_same_binding simp: binding_view_def stopTimer_def)
    then have "accounted s (startSessionUnbindTimer pp k ttl s)"
      if "\<not> (\<not> sb_expiring b \<or> sb_activeAllocs b \<noteq> 0)"
      using that p Some by (auto simp: startSessionUnbindTimer_def Let_def elim!: accounted_cong)
    then show ?thesis using p Some inv by (auto simp: startSessionUnbindTimer_def accounted_refl)
  qed
qed

lemma processInUse_frame [simp]:
  "lp_funcKey (processInstanceInUse b p) = lp_funcKey p" "lp_funcSpec (processInstanceInUse b p) = lp_funcSpec p"
  "lp_sessions (processInstanceInUse b p) = lp_sessions p" "lp_sessionStore (processInstanceInUse b p) = lp_sessionStore p"
  "lp_seqCounter (processInstanceInUse b p) = lp_seqCounter p"
  "slots_ok p \<Longrightarrow> slots_ok (processInstanceInUse b p)"
  by (auto simp: processInstanceInUse_def Let_def split: option.splits)

lemma removeSessionBinding_frame [simp]:
  "lp_funcKey (removeSessionBinding k p) = lp_funcKey p" "lp_funcSpec (removeSessionBinding k p) = lp_funcSpec p"
  "lp_sessions (removeSessionBinding k p) = fmdrop k (lp_sessions p)"
  by (auto simp: removeSessionBinding_def Let_def split: option.splits)

lemma slots_ok_removeSession [simp]: "slots_ok p \<Longrightarrow> slots_ok (removeSessionBinding k p)"
  by (auto simp: removeSessionBinding_def Let_def split: option.splits)

lemma removeSession_ledger:
  assumes led: "ledger_ok (ledger_of p A)" and b: "fmlookup (lp_sessions p) k = Some b" "sb_activeAllocs b = 0"
  shows "ledger_step (ledger_of p A) (ledger_of (removeSessionBinding k p) A)"
proof -
  have bd: "fmlookup (lg_bound (ledger_of p A)) k = Some (sb_instanceID b, sb_reserved b, 0)"
    using b by (simp add: binding_view_def)
  obtain slot where slot: "fmlookup (lp_instances p) (sb_instanceID b) = Some slot"
    using bound_okD(1) [OF led bd] by auto
  then have used: "fmlookup (lg_used (ledger_of p A)) (sb_instanceID b) = Some (li_InUse slot)" by simp
  have le: "sb_reserved b \<le> li_InUse slot" "1 \<le> sb_reserved b"
    using ledger_held_le [OF led bd used] bound_okD(3) [OF led bd] by simp_all
  have "ledger_of (removeSessionBinding k p) A =
    (ledger_of p A)\<lparr>lg_used := fmupd (sb_instanceID b) (li_InUse slot - sb_reserved b) (lg_used (ledger_of p A)),
      lg_bound := fmdrop k (lg_bound (ledger_of p A))\<rparr>"
    using b slot le
    by (intro ledger_eqI)
      (auto simp: removeSessionBinding_def processInstanceInUse_def Let_def)
  with lg_unbind [OF bd used] show ?thesis by simp
qed

lemma fireSessionUnbind_accounted:
  assumes inv: "sched_inv s" and pp: "getPool s fk = Some pp"
  shows "accounted s (fireSessionUnbind pp k bptr t s)"
proof -
  obtain p where p: "pool_at s pp = Some p" "lp_funcKey p = fk" "slots_ok p" "ledger_ok (ledger_of p (ls_allocations s))"
    using sched_inv_pool [OF inv pp] by metis
  show ?thesis
  proof (cases "fireSessionUnbind pp k bptr t s = s")
    case True
    with inv show ?thesis by (simp add: accounted_refl)
  next
    case False
    then obtain b where b: "fmlookup (lp_sessions p) k = Some b" "sb_activeAllocs b = 0"
      and s': "fireSessionUnbind pp k bptr t s = put_pool pp (removeSessionBinding k p) s"
      using p(1) by (auto simp: fireSessionUnbind_def split: option.splits if_splits)
    show ?thesis unfolding s'
      using p removeSession_ledger [OF p(4) b] inv
      by (intro accounted_step [OF inv pp p(1), where p' = "removeSessionBinding k p" and A' = "ls_allocations s"])
        (auto simp: sched_inv_def)
  qed
qed

lemma wheel_metric_frame [simp]:
  "ls_pools (removeExpiryTask x s) = ls_pools s" "ls_heap (removeExpiryTask x s) = ls_heap s"
  "ls_nextPool (removeExpiryTask x s) = ls_nextPool s" "ls_allocations (removeExpiryTask x s) = ls_allocations s"
  "ls_pools (updateExpiryTask env x s) = ls_pools s" "ls_heap (updateExpiryTask env x s) = ls_heap s"
  "ls_nextPool (updateExpiryTask env x s) = ls_nextPool s" "ls_allocations (updateExpiryTask env x s) = ls_allocations s"
  "ls_pools (count_metric m s) = ls_pools s" "ls_heap (count_metric m s) = ls_heap s"
  "ls_nextPool (count_metric m s) = ls_nextPool s" "ls_allocations (count_metric m s) = ls_allocations s"
  "getPool (removeExpiryTask x s) = getPool s" "pool_at (removeExpiryTask x s) = pool_at s"
  "getPool (count_metric m s) = getPool s" "pool_at (count_metric m s) = pool_at s"
  "getPool (s\<lparr>ls_allocations := A\<rparr>) = getPool s" "pool_at (s\<lparr>ls_allocations := A\<rparr>) = pool_at s"
  by (simp_all add: removeExpiryTask_def updateExpiryTask_def count_metric_def getPool_def pool_at_def fun_eq_iff)

lemma give_back_accounted:
  assumes inv: "sched_inv s" and a: "fmlookup (ls_allocations s) x = Some a"
    and pp: "getPool s (al_FuncKey a) = Some pp" "pool_at s pp = Some p"
    and p': "lp_funcKey p' = lp_funcKey p" "slots_ok p'"
      "ledger_step (ledger_of p (ls_allocations s)) (ledger_of p' (fmdrop x (ls_allocations s)))"
    and s': "ls_pools s' = ls_pools s" "ls_heap s' = fmupd pp p' (ls_heap s)" "ls_nextPool s' = ls_nextPool s"
      "ls_allocations s' = fmdrop x (ls_allocations s)"
  shows "accounted s s'"
proof (rule accounted_step [OF inv pp _ _ r_into_rtranclp [where r = ledger_step, OF p'(3)]])
  show "lp_funcKey p' = al_FuncKey a" using sched_inv_pool [OF inv pp(1)] pp(2) p'(1) by (metis option.inject)
  show "other_allocs (al_FuncKey a) (ls_allocations s) = other_allocs (al_FuncKey a) (fmdrop x (ls_allocations s))"
    using a by (intro other_allocs_drop [symmetric]) auto
  show "al_AllocationID b = y" if "fmlookup (fmdrop x (ls_allocations s)) y = Some b" for y b
    using that inv by (auto simp: sched_inv_def split: if_splits)
qed (use p' s' in auto)

lemma handleRelease_accounted:
  assumes inv: "sched_inv s" and res: "handleRelease env x req s = (s', r)"
  shows "accounted s s'"
proof (cases "fmlookup (ls_allocations s) x")
  case None
  with res inv show ?thesis by (simp add: handleRelease_def accounted_refl)
next
  case (Some a)
  let ?A' = "fmdrop x (ls_allocations s)"
  obtain pp where pp: "getPool s (al_FuncKey a) = Some pp" using sched_inv_alloc [OF inv Some] by metis
  obtain p where p: "pool_at s pp = Some p" "lp_funcKey p = al_FuncKey a" "slots_ok p"
    "ledger_ok (ledger_of p (ls_allocations s))" using sched_inv_pool [OF inv pp] by metis
  define s1 where "s1 = removeExpiryTask x (s\<lparr>ls_allocations := ?A'\<rparr>)"
  have g1: "getPool s1 (al_FuncKey a) = Some pp" "pool_at s1 pp = Some p" using pp p by (simp_all add: s1_def)
  obtain p1 t k where rel: "releaseSlotLocked a p = (p1, t, k)" by (metis prod_cases3)
  obtain slot where slot: "fmlookup (lp_instances p) (al_InstanceID a) = Some slot"
    using out_slot [OF p(4) Some] p(2) by metis
  have step: "lp_funcKey p1 = lp_funcKey p \<and> slots_ok p1 \<and> ledger_step (ledger_of p (ls_allocations s)) (ledger_of p1 ?A')"
  proof (cases "al_SessionID a = []")
    case True
    obtain sl where "fmlookup (lp_instances p) (al_InstanceID a) = Some sl" "li_InUse sl > 0"
      "ledger_step (ledger_of p (ls_allocations s)) (ledger_of (set_inUse (al_InstanceID a) (li_InUse sl - 1) p) ?A')"
      using give_back_single [OF p(4) Some p(2) [symmetric] True] by metis
    with rel p True show ?thesis by (auto simp: releaseSlotLocked_def)
  next
    case False
    define kk where "kk = sessionBindingKey p (al_SessionID a) (al_SessionCtxID a)"
    have "unbindSessionOnRelease kk p = (p1, t)"
      using rel slot False by (auto simp: releaseSlotLocked_def Let_def kk_def split: prod.splits)
    from give_back_session [OF p(4) Some p(2) [symmetric] False kk_def this] p show ?thesis by simp
  qed
  then have acc1: "accounted s (put_pool pp p1 s1)"
    by (intro give_back_accounted [OF inv Some pp p(1)]) (simp_all add: s1_def)
  define s2 where "s2 = (if t then startSessionUnbindTimer pp k (al_SessionTTL a) (put_pool pp p1 s1) else put_pool pp p1 s1)"
  have "accounted (put_pool pp p1 s1) (startSessionUnbindTimer pp k (al_SessionTTL a) (put_pool pp p1 s1))"
    using acc1 g1 by (intro startTimer_accounted [of _ "al_FuncKey a"]) (simp_all add: accounted_def)
  then have acc2: "accounted s s2" using acc1 accounted_trans by (auto simp: s2_def)
  have "\<exists>m. s' = count_metric m s2"
    using res Some g1 rel by (auto simp: handleRelease_def releaseInPool_def Let_def s1_def s2_def split: prod.splits)
  then show ?thesis using acc2 by (auto elim!: accounted_cong)
qed

lemma reap_accounted:
  assumes inv: "sched_inv s" shows "accounted s (reapExpiredAllocation x s)"
proof (cases "fmlookup (ls_allocations s) x")
  case None
  with inv show ?thesis by (simp add: reapExpiredAllocation_def accounted_refl)
next
  case (Some a)
  let ?A' = "fmdrop x (ls_allocations s)"
  obtain pp where pp: "getPool s (al_FuncKey a) = Some pp" using sched_inv_alloc [OF inv Some] by metis
  obtain p where p: "pool_at s pp = Some p" "lp_funcKey p = al_FuncKey a" "slots_ok p"
    "ledger_ok (ledger_of p (ls_allocations s))" using sched_inv_pool [OF inv pp] by metis
  define s1 where "s1 = s\<lparr>ls_allocations := ?A'\<rparr>"
  show ?thesis
  proof (cases "al_SessionID a = []")
    case True
    obtain sl where "fmlookup (lp_instances p) (al_InstanceID a) = Some sl" "li_InUse sl > 0"
      "ledger_step (ledger_of p (ls_allocations s)) (ledger_of (set_inUse (al_InstanceID a) (li_InUse sl - 1) p) ?A')"
      using give_back_single [OF p(4) Some p(2) [symmetric] True] by metis
    with Some pp p True show ?thesis
      by (intro give_back_accounted [OF inv Some pp p(1), where p' = "set_inUse (al_InstanceID a) (li_InUse sl - 1) p"])
        (simp_all add: reapExpiredAllocation_def Let_def)
  next
    case False
    define k where "k = sessionBindingKey p (al_SessionID a) (al_SessionCtxID a)"
    obtain p1 t where u: "unbindSessionOnRelease k p = (p1, t)" by fastforce
    have acc: "accounted s (put_pool pp p1 s1)"
      using give_back_session [OF p(4) Some p(2) [symmetric] False k_def u] p
      by (intro give_back_accounted [OF inv Some pp p(1)]) (simp_all add: s1_def)
    have "accounted (put_pool pp p1 s1) (startSessionUnbindTimer pp k (al_SessionTTL a) (put_pool pp p1 s1))"
      using acc pp by (intro startTimer_accounted [of _ "al_FuncKey a"]) (simp_all add: accounted_def s1_def)
    with acc have "accounted s (startSessionUnbindTimer pp k (al_SessionTTL a) (put_pool pp p1 s1))"
      using accounted_trans by blast
    with acc Some pp p False u show ?thesis
      by (simp add: reapExpiredAllocation_def Let_def k_def s1_def)
  qed
qed

lemma reapBatch_accounted: "sched_inv s \<Longrightarrow> accounted s (reapBatch ready s)"
  unfolding reapBatch_def
proof (induction ready arbitrary: s)
  case (Cons x xs)
  have "accounted s (reapExpiredAllocation x s)" using Cons.prems by (rule reap_accounted)
  with Cons.IH [of "reapExpiredAllocation x s"] accountedD accounted_trans show ?case by fastforce
qed (simp add: accounted_refl)

section \<open>Retain\<close>

lemma live_alloc:
  assumes inv: "sched_inv s" and a: "fmlookup (ls_allocations s) x = Some a"
  obtains pp p slot where "getPool s (al_FuncKey a) = Some pp" "pool_at s pp = Some p" "lp_funcKey p = al_FuncKey a"
    "fmlookup (lp_instances p) (al_InstanceID a) = Some slot" "schedulable slot" "al_AllocationID a = x"
    "li_InstanceID slot = al_InstanceID a"
proof -
  obtain pp where pp: "getPool s (al_FuncKey a) = Some pp" "al_AllocationID a = x" using sched_inv_alloc [OF inv a] by metis
  obtain p where p: "pool_at s pp = Some p" "lp_funcKey p = al_FuncKey a" "slots_ok p"
    "ledger_ok (ledger_of p (ls_allocations s))" using sched_inv_pool [OF inv pp(1)] by metis
  obtain slot where "fmlookup (lp_instances p) (al_InstanceID a) = Some slot"
    using out_slot [OF p(4) a] p(2) by metis
  with pp p that show ?thesis by (auto simp: slots_ok_def)
qed

lemma refresh_accounted:
  assumes inv: "sched_inv s" and a: "fmlookup (ls_allocations s) x = Some a"
    and s': "ls_pools s' = ls_pools s" "ls_heap s' = ls_heap s" "ls_nextPool s' = ls_nextPool s"
      "ls_allocations s' = fmupd x (a\<lparr>al_ExpireAt := t\<rparr>) (ls_allocations s)"
  shows "accounted s s'"
proof -
  obtain pp p where pp: "getPool s (al_FuncKey a) = Some pp" "pool_at s pp = Some p" "lp_funcKey p = al_FuncKey a"
    and id: "al_AllocationID a = x" using live_alloc [OF inv a] by metis
  have ok: "slots_ok p" using sched_inv_pool [OF inv pp(1)] pp(2) by (metis option.inject)
  have "ledger_of p (fmupd x (a\<lparr>al_ExpireAt := t\<rparr>) (ls_allocations s)) = ledger_of p (ls_allocations s)"
    using a pp by (intro ledger_eqI) (auto simp: lookup_pool_allocs alloc_view_def)
  then show ?thesis
    using s' pp ok a id inv put_pool_same [OF pp(2)]
    by (intro accounted_step [OF inv pp(1,2), where p' = p])
      (auto intro!: other_allocs_upd [symmetric] simp: sched_inv_def put_pool_def split: if_splits
        dest!: arg_cong [of _ _ ls_heap])
qed

text \<open>
  Retaining a live allocation: its pool and instance are there, so it is refreshed.
\<close>

lemma retain_live:
  assumes inv: "sched_inv s" and a: "fmlookup (ls_allocations s) x = Some a"
    and en: "rq_NeedReverseLookup req \<longrightarrow> isFuncEnabled (ev_cfg env) (al_FuncKey a)"
    and res: "handleRetainWithMetrics env x req m s = (s', r)"
  shows "accounted s s' \<and> granted r \<and> ir_InstanceID r = al_InstanceID a \<and> ir_ThreadID r = x \<and>
    ls_allocations s' = fmupd x (a\<lparr>al_ExpireAt := ev_now env + liteTTL (ev_cfg env)\<rparr>) (ls_allocations s) \<and>
    ls_heap s' = ls_heap s"
proof -
  obtain pp p slot where pp: "getPool s (al_FuncKey a) = Some pp" "pool_at s pp = Some p"
    "fmlookup (lp_instances p) (al_InstanceID a) = Some slot" "schedulable slot" "al_AllocationID a = x"
    "li_InstanceID slot = al_InstanceID a"
    using live_alloc [OF inv a] by metis
  have "validateRetainTarget env req x (al_FuncKey a) (al_InstanceID a) s = (s, Inr (p, slot))"
    using pp by (auto simp: validateRetainTarget_def schedulable_def)
  with res a en have r: "refreshRetainTTL env req x p slot s = (s', r)"
    by (auto simp: handleRetainWithMetrics_def split: if_splits)
  have "accounted s s'"
    using r a by (intro refresh_accounted [OF inv a, where t = "ev_now env + liteTTL (ev_cfg env)"])
      (auto simp: refreshRetainTTL_def Let_def recordRetainSuccess_def)
  with r a pp show ?thesis
    by (auto simp: refreshRetainTTL_def Let_def recordRetainSuccess_def liteSuccessResp_def liteErrResp_def)
qed

lemma checkConcurrency_min: "checkConcurrencyLimit env req p c = None \<Longrightarrow> 1 \<le> c"
  by (auto simp: checkConcurrencyLimit_def Let_def split: if_splits)

lemma build_ledger:
  assumes slot: "fmlookup (lp_instances p) (rp_instanceID params) = Some slot"
    and b: "binding = fmlookup (lp_sessions p) key" "\<And>b. rp_sessionID params \<noteq> [] \<Longrightarrow> binding = Some b \<Longrightarrow> sb_instanceID b = rp_instanceID params"
    and key: "key = sessionBindingKey p (rp_sessionID params) (rp_sessionCtxID params)"
    and c: "1 \<le> rp_concurrency params" and fk: "rp_funcKey params = lp_funcKey p"
    and fresh: "fmlookup A (rp_allocID params) = None"
  shows "ledger_step (ledger_of p A)
    (ledger_of (buildReacquiredAlloc params slot key binding p) (fmupd (rp_allocID params) (reacquired_alloc env params) A))"
proof -
  let ?q = "buildReacquiredAlloc params slot key binding p" and ?a = "reacquired_alloc env params"
  let ?x = "rp_allocID params" and ?i = "rp_instanceID params" and ?g = "ledger_of p A"
  have frame: "lp_funcKey ?q = lp_funcKey p" "lp_funcSpec ?q = lp_funcSpec p"
    by (auto simp: buildReacquiredAlloc_def Let_def bindSessionFreshLocked_def split: option.splits prod.splits)
  have view: "alloc_view ?q ?a = (?i, if rp_sessionID params = [] then None else Some key)"
    using key sessionBindingKey_cong [OF frame(2)] by (simp add: alloc_view_def reacquired_alloc_def)
  have out: "ledger_of ?q (fmupd ?x ?a A) = (ledger_of ?q A)\<lparr>lg_out :=
      fmupd ?x (?i, if rp_sessionID params = [] then None else Some key) (lg_out (ledger_of ?q A))\<rparr>"
    using fk frame view by (subst ledger_add_alloc) (simp_all add: reacquired_alloc_def)
  have free: "fmlookup (lg_out ?g) ?x = None" using fresh by (simp add: lookup_pool_allocs)
  have used: "fmlookup (lg_used ?g) ?i = Some (li_InUse slot)" using slot by simp
  show ?thesis
  proof (cases "rp_sessionID params = []")
    case True
    then have "ledger_of ?q A = ?g\<lparr>lg_used := fmupd ?i (li_InUse slot + 1) (lg_used ?g)\<rparr>"
      using slot by (simp add: buildReacquiredAlloc_def ledger_set_inUse)
    with lg_single [OF used free] True out show ?thesis by simp
  next
    case False
    show ?thesis
    proof (cases binding)
      case None
      then have "ledger_of ?q A = ?g\<lparr>lg_used := fmupd ?i (li_InUse slot + rp_concurrency params) (lg_used ?g),
          lg_bound := fmupd key (?i, rp_concurrency params - 1, 1) (lg_bound ?g)\<rparr>"
        using slot False
        by (simp add: buildReacquiredAlloc_def Let_def bindSessionFreshLocked_def ledger_set_inUse
            ledger_set_binding binding_view_def)
      moreover have "fmlookup (lg_bound ?g) key = None" using None b by simp
      ultimately show ?thesis using lg_bind [OF _ used free c] False out by simp
    next
      case (Some bb)
      have bi: "sb_instanceID bb = ?i" using b(2) [OF False Some] .
      have "ledger_of ?q A = ?g\<lparr>lg_used := fmupd ?i (if sb_reserved bb > 0 then li_InUse slot else li_InUse slot + 1) (lg_used ?g),
          lg_bound := fmupd key (?i, if sb_reserved bb > 0 then sb_reserved bb - 1 else sb_reserved bb, sb_activeAllocs bb + 1) (lg_bound ?g)\<rparr>"
        using slot False Some bi
        by (simp add: buildReacquiredAlloc_def bindSessionStickyTakeLocked_def ledger_set_inUse
            ledger_set_binding binding_view_def)
      moreover have "fmlookup (lg_bound ?g) key = Some (?i, sb_reserved bb, sb_activeAllocs bb)"
        using Some b bi by (simp add: binding_view_def)
      ultimately show ?thesis using lg_take [OF _ used free] False out by simp
    qed
  qed
qed

lemma slots_ok_build [simp]: "slots_ok p \<Longrightarrow> slots_ok (buildReacquiredAlloc params slot key binding p)"
  "lp_funcKey (buildReacquiredAlloc params slot key binding p) = lp_funcKey p"
  by (auto simp: buildReacquiredAlloc_def Let_def bindSessionFreshLocked_def split: option.splits prod.splits)

lemma reacquire_accounted:
  assumes inv: "sched_inv s" and res: "reacquireAllocation env x req m s = (s', r)"
  shows "accounted s s'"
proof (cases "s' = s")
  case True
  with inv show ?thesis by (simp add: accounted_refl)
next
  case False
  then obtain params pp p slot key binding where
    v: "validateReacquireRequest env x req m s = Inr params"
    and pp: "getPool s (rp_funcKey params) = Some pp" "pool_at s pp = Some p"
    and c: "checkConcurrencyLimit env req p (rp_concurrency params) = None"
    and chk: "checkReacquireSlotLocked env req p params = Inr (slot, key, binding)"
    using res
    by (auto simp: reacquireAllocation_def bind_eq_Some_conv split: sum.splits option.splits prod.splits)
  have ok: "lp_funcKey p = rp_funcKey params" "slots_ok p"
    using sched_inv_pool [OF inv pp(1)] pp(2) by (metis option.inject)+
  have slot: "fmlookup (lp_instances p) (rp_instanceID params) = Some slot"
    and key: "key = sessionBindingKey p (rp_sessionID params) (rp_sessionCtxID params)"
    and b: "binding = fmlookup (lp_sessions p) key"
      "\<And>b. rp_sessionID params \<noteq> [] \<Longrightarrow> binding = Some b \<Longrightarrow> sb_instanceID b = rp_instanceID params"
    using chk by (auto simp: checkReacquireSlotLocked_def Let_def split: option.splits if_splits)
  let ?x = "rp_allocID params" and ?a = "reacquired_alloc env params"
  show ?thesis
  proof (cases "fmlookup (ls_allocations s) ?x")
    case (Some a)
    have "ls_pools s' = ls_pools s \<and> ls_heap s' = ls_heap s \<and> ls_nextPool s' = ls_nextPool s \<and>
        ls_allocations s' = fmupd ?x (a\<lparr>al_ExpireAt := ev_now env + liteTTL (ev_cfg env)\<rparr>) (ls_allocations s)"
      using res v pp c chk Some
      by (auto simp: reacquireAllocation_def Let_def recordRetainSuccess_def)
    then show ?thesis by (intro refresh_accounted [OF inv Some]) auto
  next
    case None
    let ?q = "buildReacquiredAlloc params slot key binding p"
    have s': "ls_pools s' = ls_pools s" "ls_heap s' = fmupd pp ?q (ls_heap s)" "ls_nextPool s' = ls_nextPool s"
        "ls_allocations s' = fmupd ?x ?a (ls_allocations s)"
      using res v pp c chk None
      by (auto simp: reacquireAllocation_def Let_def recordRetainSuccess_def)
    have step: "ledger_step (ledger_of p (ls_allocations s)) (ledger_of ?q (fmupd ?x ?a (ls_allocations s)))"
      using build_ledger [OF slot b key checkConcurrency_min [OF c] ok(1) [symmetric] None] .
    show ?thesis
    proof (rule accounted_step [OF inv pp _ _ r_into_rtranclp [where r = ledger_step, OF step] _ _ s'])
      show "other_allocs (rp_funcKey params) (ls_allocations s) =
          other_allocs (rp_funcKey params) (fmupd ?x ?a (ls_allocations s))"
        using None by (intro other_allocs_upd [symmetric]) (auto simp: reacquired_alloc_def)
      show "al_AllocationID a = y" if "fmlookup (fmupd ?x ?a (ls_allocations s)) y = Some a" for y a
        using that inv by (auto simp: sched_inv_def reacquired_alloc_def split: if_splits)
    qed (use ok in simp_all)
  qed
qed

lemma handleRetainWithMetrics_accounted:
  assumes inv: "sched_inv s" and res: "handleRetainWithMetrics env x req m s = (s', r)"
  shows "accounted s s'"
proof (cases "fmlookup (ls_allocations s) x")
  case None
  with res show ?thesis by (intro reacquire_accounted [OF inv]) (simp add: handleRetainWithMetrics_def)
next
  case (Some a)
  show ?thesis
  proof (cases "rq_NeedReverseLookup req \<and> \<not> isFuncEnabled (ev_cfg env) (al_FuncKey a)")
    case True
    with res Some inv show ?thesis by (auto simp: handleRetainWithMetrics_def accounted_refl)
  next
    case False
    with retain_live [OF inv Some _ res] show ?thesis by blast
  qed
qed

lemma handleRetain_accounted:
  "sched_inv s \<Longrightarrow> handleRetain env x req s = (s', r) \<Longrightarrow> accounted s s'"
  unfolding handleRetain_def by (rule handleRetainWithMetrics_accounted)

lemma batch_accounted:
  "sched_inv s \<Longrightarrow> accounted s (fst (fold (batch_retain_one env req mb) ids (s, resp)))"
proof (induction ids arbitrary: s resp)
  case (Cons x xs)
  obtain s1 resp1 where one: "batch_retain_one env req mb x (s, resp) = (s1, resp1)" by fastforce
  then have acc: "accounted s s1"
    by (auto simp: batch_retain_one_def split: prod.splits if_splits
        intro: handleRetainWithMetrics_accounted [OF Cons.prems])
  from Cons.IH [OF accountedD(1) [OF acc], of resp1] accounted_trans [OF acc] one show ?case by simp
qed (simp add: accounted_refl)

lemma handleBatchRetain_accounted:
  assumes "sched_inv s" "handleBatchRetain env req s = (s', r)" shows "accounted s s'"
  using assms batch_accounted [OF assms(1)]
  by (auto simp: handleBatchRetain_def Let_def split: prod.splits) (metis fst_conv)+

section \<open>Instances\<close>

lemma drop_allocs_state:
  "ls_pools (drop_allocs ids s) = ls_pools s" "ls_heap (drop_allocs ids s) = ls_heap s"
  "ls_nextPool (drop_allocs ids s) = ls_nextPool s"
  "fmlookup (ls_allocations (drop_allocs ids s)) x = (if x \<in> set ids then None else fmlookup (ls_allocations s) x)"
  unfolding drop_allocs_def by (induction ids arbitrary: s) auto

lemma allocs_where_set:
  assumes "range_order (ev_allocs env)"
  shows "x \<in> set (allocs_where env P s) \<longleftrightarrow> (\<exists>a. fmlookup (ls_allocations s) x = Some a \<and> P a)"
  using range_orderD(2) [OF assms, of "ls_allocations s"] by (auto simp: allocs_where_def fmlookup_dom'_iff)

lemma dropped_allocs:
  assumes "range_order (ev_allocs env)"
  shows "ls_allocations (drop_allocs (allocs_where env P s) s) = fmreject (\<lambda>_. P) (ls_allocations s)"
  by (rule fmap_ext) (auto simp: drop_allocs_state allocs_where_set [OF assms] split: option.splits)

lemma removeSession_gone:
  assumes "fmlookup (lp_instances p) i = None" "\<And>b. fmlookup (lp_sessions p) k = Some b \<Longrightarrow> sb_instanceID b = i"
  shows "lp_instances (removeSessionBinding k p) = lp_instances p"
  using assms by (auto simp: removeSessionBinding_def processInstanceInUse_def Let_def split: option.splits)

lemma fold_removeSession:
  assumes "fmlookup (lp_instances p) i = None"
    "\<And>k b. k \<in> set ks \<Longrightarrow> fmlookup (lp_sessions p) k = Some b \<Longrightarrow> sb_instanceID b = i"
  shows "lp_instances (fold removeSessionBinding ks p) = lp_instances p \<and>
    lp_funcKey (fold removeSessionBinding ks p) = lp_funcKey p \<and>
    lp_funcSpec (fold removeSessionBinding ks p) = lp_funcSpec p \<and>
    (\<forall>k. fmlookup (lp_sessions (fold removeSessionBinding ks p)) k =
       (if k \<in> set ks then None else fmlookup (lp_sessions p) k))"
  using assms
proof (induction ks arbitrary: p)
  case (Cons k ks)
  have same: "lp_instances (removeSessionBinding k p) = lp_instances p"
    using Cons.prems by (intro removeSession_gone [of p i k]) auto
  have "lp_instances (fold removeSessionBinding ks (removeSessionBinding k p)) = lp_instances (removeSessionBinding k p) \<and>
    lp_funcKey (fold removeSessionBinding ks (removeSessionBinding k p)) = lp_funcKey (removeSessionBinding k p) \<and>
    lp_funcSpec (fold removeSessionBinding ks (removeSessionBinding k p)) = lp_funcSpec (removeSessionBinding k p) \<and>
    (\<forall>j. fmlookup (lp_sessions (fold removeSessionBinding ks (removeSessionBinding k p))) j =
       (if j \<in> set ks then None else fmlookup (lp_sessions (removeSessionBinding k p)) j))"
    using Cons.prems same by (intro Cons.IH) (auto split: if_splits)
  with same show ?case by auto
qed simp

lemma removeInstance_accounted:
  assumes inv: "sched_inv s" and pp: "getPool s fk = Some pp"
    and ord: "range_order (ev_allocs env)" "range_order (ev_sessions env)"
  shows "accounted s (removeInstanceLocked env pp i s)"
proof -
  obtain p where p: "pool_at s pp = Some p" "lp_funcKey p = fk" "slots_ok p" using sched_inv_pool [OF inv pp] by metis
  let ?A = "ls_allocations s"
  define p1 where "p1 = p\<lparr>lp_instances := fmdrop i (lp_instances p)\<rparr>"
  define ks where "ks = filter (\<lambda>k. case fmlookup (lp_sessions p1) k of None \<Rightarrow> False | Some b \<Rightarrow> sb_instanceID b = i)
      (ev_sessions env (lp_sessions p1))"
  define p2 where "p2 = fold removeSessionBinding ks p1"
  define A' where "A' = fmreject (\<lambda>_ a. al_InstanceID a = i \<and> al_FuncKey a = fk) ?A"
  have ks: "k \<in> set ks \<longleftrightarrow> (\<exists>b. fmlookup (lp_sessions p) k = Some b \<and> sb_instanceID b = i)" for k
    using range_orderD(2) [OF ord(2), of "lp_sessions p1"]
    by (auto simp: ks_def p1_def fmlookup_dom'_iff split: option.splits)
  have p2: "lp_instances p2 = fmdrop i (lp_instances p)" "lp_funcKey p2 = fk" "lp_funcSpec p2 = lp_funcSpec p"
    "\<And>k. fmlookup (lp_sessions p2) k = (if k \<in> set ks then None else fmlookup (lp_sessions p) k)"
    using fold_removeSession [of p1 i ks] ks p by (auto simp: p1_def p2_def)
  have led: "ledger_of p2 A' = (ledger_of p ?A)\<lparr>lg_used := fmdrop i (lg_used (ledger_of p ?A)),
      lg_bound := fmreject (\<lambda>_ (j, _). j = i) (lg_bound (ledger_of p ?A)),
      lg_out := fmreject (\<lambda>_ (j, _). j = i) (lg_out (ledger_of p ?A))\<rparr>"
    using p2 p(2) alloc_view_cong [OF p2(3)]
    by (intro ledger_eqI)
      (auto simp: ks binding_view_def alloc_view_def lookup_pool_allocs A'_def split: option.splits if_splits)
  have s': "removeInstanceLocked env pp i s = drop_allocs
      (allocs_where env (\<lambda>a. al_InstanceID a = i \<and> al_FuncKey a = lp_funcKey p) (put_pool pp p2 s)) (put_pool pp p2 s)"
    using p by (simp add: removeInstanceLocked_def Let_def p1_def ks_def p2_def)
  show ?thesis unfolding s'
  proof (rule accounted_step [OF inv pp p(1), where p' = p2 and A' = A'])
    show "lp_funcKey p2 = fk" by (rule p2)
    show "slots_ok p2" using p p2 by (auto simp: slots_ok_def split: if_splits)
    show "ledger_step\<^sup>*\<^sup>* (ledger_of p ?A) (ledger_of p2 A')"
      unfolding led by (rule r_into_rtranclp) (rule lg_retire)
    show "other_allocs fk ?A = other_allocs fk A'"
      by (rule fmap_ext) (auto simp: A'_def lookup_other_allocs split: option.splits)
    show "al_AllocationID a = x" if "fmlookup A' x = Some a" for x a
      using that inv by (auto simp: A'_def sched_inv_def split: option.splits if_splits)
    show "ls_allocations (drop_allocs (allocs_where env (\<lambda>a. al_InstanceID a = i \<and> al_FuncKey a = lp_funcKey p)
        (put_pool pp p2 s)) (put_pool pp p2 s)) = A'"
      using p by (simp add: dropped_allocs [OF ord(1)] A'_def)
  qed (simp_all add: drop_allocs_state)
qed

lemma handleInstanceUpdate_accounted:
  assumes inv: "sched_inv s" and pp: "getPool s fk = Some pp"
    and ord: "range_order (ev_allocs env)" "range_order (ev_sessions env)"
  shows "accounted s (handleInstanceUpdate env pp ins s)"
proof -
  obtain p where p: "pool_at s pp = Some p" "lp_funcKey p = fk" "slots_ok p" "ledger_ok (ledger_of p (ls_allocations s))"
    using sched_inv_pool [OF inv pp] by metis
  show ?thesis
  proof (cases "mapStatus (in_Code ins) = InstanceStatusUnavailable")
    case True
    with p removeInstance_accounted [OF inv pp ord] show ?thesis by (simp add: handleInstanceUpdate_def)
  next
    case False
    let ?i = "in_InstanceID ins" and ?A = "ls_allocations s"
    obtain n0 where n0: "buildLiteInstanceFromInstance (Some ins) = Some n0" "li_InstanceID n0 = ?i"
      "li_InUse n0 = 0" "li_Status n0 = mapStatus (in_Code ins)"
      by (simp add: buildLiteInstanceFromInstance_def)
    define nx where "nx = (case fmlookup (lp_instances p) ?i of None \<Rightarrow> n0
      | Some c \<Rightarrow> n0\<lparr>li_InUse := li_InUse c, li_IdleSince := li_IdleSince c, li_Reclaiming := li_Reclaiming c\<rparr>)"
    have nx: "handleInstanceUpdate env pp ins s =
        put_pool pp (p\<lparr>lp_instances := fmupd ?i nx (lp_instances p)\<rparr>) s"
      using p(1) False n0(1) by (cases "mapStatus (in_Code ins)") (simp_all add: handleInstanceUpdate_def Let_def nx_def)
    have nx_ok: "li_InstanceID nx = ?i" "schedulable nx"
        "li_InUse nx = (case fmlookup (lp_instances p) ?i of None \<Rightarrow> 0 | Some c \<Rightarrow> li_InUse c)"
      using n0 False by (cases "mapStatus (in_Code ins)"; simp add: nx_def schedulable_def split: option.splits)+
    let ?q = "p\<lparr>lp_instances := fmupd ?i nx (lp_instances p)\<rparr>"
    have led: "ledger_of ?q ?A = (ledger_of p ?A)\<lparr>lg_used := fmupd ?i (li_InUse nx) (lg_used (ledger_of p ?A))\<rparr>"
      by (intro ledger_eqI) auto
    have step: "ledger_step\<^sup>*\<^sup>* (ledger_of p ?A) (ledger_of ?q ?A)"
    proof (cases "fmlookup (lp_instances p) ?i")
      case None
      then have "ledger_step (ledger_of p ?A) (ledger_of ?q ?A)"
        unfolding led using nx_ok by (simp add: lg_enlist)
      then show ?thesis by blast
    next
      case (Some c)
      then have "ledger_of ?q ?A = ledger_of p ?A" unfolding led using nx_ok by (intro ledger_eqI) auto
      then show ?thesis by simp
    qed
    have "slots_ok ?q" using p(3) nx_ok by (auto simp: slots_ok_def)
    then show ?thesis unfolding nx
      using p(2) inv step by (intro accounted_step [OF inv pp p(1), where p' = ?q and A' = ?A]) (auto simp: sched_inv_def)
  qed
qed

section \<open>Pools\<close>

lemma sched_inv_upsert:
  assumes inv: "sched_inv s"
    and same: "\<And>p. pool_of s (fs_FuncKey spec) = Some p \<Longrightarrow>
      (case lp_funcSpec p of None \<Rightarrow> False | Some old \<Rightarrow> fs_EnableSessionCtx old) = fs_EnableSessionCtx spec"
  shows "sched_inv (upsertPool env spec s)"
proof (cases "getPool s (fs_FuncKey spec)")
  case (Some pp)
  obtain p where p: "pool_at s pp = Some p" "lp_funcKey p = fs_FuncKey spec" "slots_ok p"
    using sched_inv_pool [OF inv Some] by metis
  let ?q = "p\<lparr>lp_funcSpec := Some spec\<rparr>"
  have "sessionBindingKey ?q = sessionBindingKey p"
    using same [of p] Some p by (auto simp: fun_eq_iff sessionBindingKey_def pool_of_def split: option.splits)
  then have "alloc_view ?q = alloc_view p" by (intro ext) (simp add: alloc_view_def)
  then have "ledger_of ?q (ls_allocations s) = ledger_of p (ls_allocations s)"
    by (intro ledger_eqI) simp_all
  moreover have "slots_ok ?q" using p by (simp add: slots_ok_def)
  ultimately have "accounted s (put_pool pp ?q s)" using p by (intro accounted_put_same [OF inv Some p(1)]) auto
  with Some p show ?thesis by (simp add: upsertPool_def accountedD)
next
  case None
  let ?s = "upsertPool env spec s" and ?fk = "fs_FuncKey spec"
  have pools: "ls_pools ?s = fmupd ?fk (ls_nextPool s) (ls_pools s)" "ls_nextPool ?s = Suc (ls_nextPool s)"
    "ls_allocations ?s = ls_allocations s"
    using None by (simp_all add: upsertPool_def Let_def)
  obtain q where q: "ls_heap ?s = fmupd (ls_nextPool s) q (ls_heap s)" "lp_funcKey q = ?fk"
      "lp_instances q = fmempty" "lp_sessions q = fmempty"
    using None by (simp add: upsertPool_def Let_def)
  have "al_FuncKey a \<noteq> ?fk" if a: "fmlookup (ls_allocations s) x = Some a" for x a
  proof -
    obtain pp where "getPool s (al_FuncKey a) = Some pp" using sched_inv_alloc [OF inv a] by blast
    with None show ?thesis by (metis option.distinct(1))
  qed
  then have "fmlookup (pool_allocs ?fk (ls_allocations s)) x = None" for x
    by (cases "fmlookup (ls_allocations s) x") (simp_all add: lookup_pool_allocs)
  then have "ledger_of q (ls_allocations s) = \<lparr>lg_used = fmempty, lg_bound = fmempty, lg_out = fmempty\<rparr>"
    using q by (intro ledger_eqI) simp_all
  then have inv_q: "pool_inv ?fk q (ls_allocations s)"
    using q ledger_empty_ok by (simp add: pool_inv_def slots_ok_def)
  have "pp < ls_nextPool ?s \<and> (\<exists>r. pool_at ?s pp = Some r \<and> pool_inv fk r (ls_allocations ?s))"
    if g: "getPool ?s fk = Some pp" for fk pp
  proof (cases "fk = ?fk")
    case True
    with g inv_q pools q show ?thesis by (simp add: getPool_def pool_at_def)
  next
    case False
    then have "getPool s fk = Some pp" using g pools by (simp add: getPool_def)
    with inv have "pp < ls_nextPool s \<and> (\<exists>r. pool_at s pp = Some r \<and> pool_inv fk r (ls_allocations s))"
      by (simp add: sched_inv_def)
    with pools q show ?thesis by (auto simp: pool_at_def)
  qed
  moreover have "al_AllocationID a = x \<and> getPool ?s (al_FuncKey a) \<noteq> None"
    if "fmlookup (ls_allocations ?s) x = Some a" for x a
    using that inv pools by (auto simp: sched_inv_def getPool_def)
  ultimately show ?thesis by (auto simp: sched_inv_def)
qed

lemma sched_inv_deletePool:
  assumes inv: "sched_inv s" and ord: "range_order (ev_allocs env)"
  shows "sched_inv (deletePool env fk s) \<and>
    (\<forall>x a. fmlookup (ls_allocations (deletePool env fk s)) x = Some a \<longrightarrow> al_FuncKey a \<noteq> fk) \<and>
    getPool (deletePool env fk s) fk = None"
proof (cases "getPool s fk")
  case None
  then have "deletePool env fk s = s" by (simp add: deletePool_def)
  moreover have "al_FuncKey a \<noteq> fk" if "fmlookup (ls_allocations s) x = Some a" for x a
    using that None inv unfolding sched_inv_def by blast
  ultimately show ?thesis using None inv by simp
next
  case (Some pp)
  obtain p where p: "pool_at s pp = Some p" "lp_funcKey p = fk" using sched_inv_pool [OF inv Some] by metis
  let ?s = "deletePool env fk s"
  obtain q where s': "ls_pools ?s = fmdrop fk (ls_pools s)" "ls_heap ?s = fmupd pp q (ls_heap s)"
    "ls_nextPool ?s = ls_nextPool s" "ls_allocations ?s = other_allocs fk (ls_allocations s)"
    using Some p by (simp add: deletePool_def Let_def drop_allocs_state dropped_allocs [OF ord] other_allocs_def)
  have "pp' < ls_nextPool ?s \<and> (\<exists>r. pool_at ?s pp' = Some r \<and> pool_inv fk' r (ls_allocations ?s))"
    if g: "getPool ?s fk' = Some pp'" for fk' pp'
  proof -
    have ne: "fk' \<noteq> fk" and g': "getPool s fk' = Some pp'" using g s' by (auto simp: getPool_def split: if_splits)
    obtain r where r: "pool_at s pp' = Some r" "lp_funcKey r = fk'" "slots_ok r"
      "ledger_ok (ledger_of r (ls_allocations s))" using sched_inv_pool [OF inv g'] by metis
    have "pp' \<noteq> pp" using r p ne by auto
    moreover have "other_allocs fk (ls_allocations s) = other_allocs fk (other_allocs fk (ls_allocations s))"
      by (rule fmap_ext) (auto simp: lookup_other_allocs split: option.splits)
    then have "ledger_of r (ls_allocations s) = ledger_of r (other_allocs fk (ls_allocations s))"
      using ne r by (intro ledger_other) auto
    ultimately show ?thesis using r s' inv g' by (auto simp: pool_at_def pool_inv_def sched_inv_def)
  qed
  moreover have "al_AllocationID a = x \<and> getPool ?s (al_FuncKey a) \<noteq> None \<and> al_FuncKey a \<noteq> fk"
    if "fmlookup (ls_allocations ?s) x = Some a" for x a
    using that inv s' by (auto simp: sched_inv_def getPool_def lookup_other_allocs split: option.splits if_splits)
  moreover have "getPool ?s fk = None" using s'(1) by (simp add: getPool_def)
  ultimately show ?thesis unfolding sched_inv_def by blast
qed

section \<open>Idle marks\<close>

text \<open>Changes of the idle marks of slots leave the ledger alone.\<close>

definition marks_only :: "(LiteInstance \<Rightarrow> LiteInstance) \<Rightarrow> bool" where
  "marks_only f \<longleftrightarrow> (\<forall>ins. li_InUse (f ins) = li_InUse ins \<and> li_InstanceID (f ins) = li_InstanceID ins \<and>
     li_Status (f ins) = li_Status ins \<and> li_Capacity (f ins) = li_Capacity ins)"

lemma marks_ledger:
  assumes "marks_only f"
  shows "ledger_of (p\<lparr>lp_instances := fmmap f (lp_instances p)\<rparr>) A = ledger_of p A"
    "slots_ok p \<Longrightarrow> slots_ok (p\<lparr>lp_instances := fmmap f (lp_instances p)\<rparr>)"
proof -
  show "ledger_of (p\<lparr>lp_instances := fmmap f (lp_instances p)\<rparr>) A = ledger_of p A"
    using assms by (intro ledger_eqI) (auto simp: marks_only_def option.map_comp comp_def)
  show "slots_ok (p\<lparr>lp_instances := fmmap f (lp_instances p)\<rparr>)" if "slots_ok p"
    using that assms by (fastforce simp: slots_ok_def marks_only_def schedulable_def)
qed

lemma on_pools_accounted:
  assumes inv: "sched_inv s" and f: "\<And>p A. lp_funcKey (f p) = lp_funcKey p \<and> (slots_ok p \<longrightarrow> slots_ok (f p)) \<and> ledger_of (f p) A = ledger_of p A"
  shows "accounted s (on_pools env f s)"
proof -
  define step where "step = (\<lambda>fk st. case Option.bind (getPool s fk) (\<lambda>pp. map_option (Pair pp) (pool_at st pp)) of
      None \<Rightarrow> st | Some (pp, p) \<Rightarrow> put_pool pp (f p) st)"
  have one: "accounted st (step fk st)" if st: "sched_inv st" "ls_pools st = ls_pools s" for fk st
  proof (cases "getPool s fk")
    case None
    with st show ?thesis by (simp add: step_def accounted_refl)
  next
    case (Some pp)
    then have g: "getPool st fk = Some pp" using st by (simp add: getPool_def)
    obtain p where p: "pool_at st pp = Some p" "lp_funcKey p = fk" "slots_ok p" using sched_inv_pool [OF st(1) g] by metis
    then have "accounted st (put_pool pp (f p) st)" using f by (intro accounted_put_same [OF st(1) g p(1)]) auto
    with Some p show ?thesis by (simp add: step_def)
  qed
  have "accounted s st \<longrightarrow> accounted s (fold step fks st)" for fks st
  proof (induction fks arbitrary: st)
    case (Cons fk fks)
    show ?case
    proof
      assume "accounted s st"
      with one [of st fk] have "accounted s (step fk st)" using accountedD accounted_trans by metis
      with Cons.IH show "accounted s (fold step (fk # fks) st)" by simp
    qed
  qed simp
  with accounted_refl [OF inv] show ?thesis unfolding on_pools_def step_def by blast
qed

lemma processSchedulerEvent_accounted:
  assumes "sched_inv s" shows "accounted s (processSchedulerEvent env s)"
  unfolding processSchedulerEvent_def
  by (rule on_pools_accounted [OF assms])
    (simp add: marks_ledger marks_only_def ring_change_slot_def)

lemma resetReclaiming_accounted:
  "sched_inv s \<Longrightarrow> accounted s (resetReclaiming report s)"
proof -
  have one: "accounted s (resetReclaiming_one item s)" if inv: "sched_inv s" for item s
  proof (cases "getPool s (ii_idle_FuncKey item)")
    case None
    with inv show ?thesis by (simp add: resetReclaiming_one_def accounted_refl)
  next
    case (Some pp)
    obtain p where p: "pool_at s pp = Some p" "lp_funcKey p = ii_idle_FuncKey item" "slots_ok p"
      using sched_inv_pool [OF inv Some] by metis
    show ?thesis
    proof (cases "fmlookup (lp_instances p) (ii_idle_InstanceID item)")
      case None
      with Some p inv show ?thesis by (simp add: resetReclaiming_one_def accounted_refl)
    next
      case i: (Some ins)
      let ?q = "p\<lparr>lp_instances := fmupd (ii_idle_InstanceID item) (ins\<lparr>li_Reclaiming := False\<rparr>) (lp_instances p)\<rparr>"
      have "ledger_of ?q (ls_allocations s) = ledger_of p (ls_allocations s)"
        using i by (intro ledger_eqI) auto
      moreover have "slots_ok ?q" using p(3) i by (auto simp: slots_ok_def schedulable_def)
      ultimately show ?thesis
        using Some p i accounted_put_same [OF inv Some p(1), of ?q] by (simp add: resetReclaiming_one_def)
    qed
  qed
  have "sched_inv s \<Longrightarrow> accounted s (fold resetReclaiming_one items s)" for items
  proof (induction items arbitrary: s)
    case (Cons x xs)
    have "accounted s (resetReclaiming_one x s)" using one Cons.prems by blast
    with Cons.IH [OF accountedD(1)] show ?case using accounted_trans by (metis fold_simps(2))
  qed (simp add: accounted_refl)
  then show "sched_inv s \<Longrightarrow> accounted s (resetReclaiming report s)" by (simp add: resetReclaiming_def)
qed

lemma scanSessionContextIdle_accounted:
  assumes inv: "sched_inv s" shows "accounted s (scanSessionContextIdle env post order now s)"
proof (cases "ls_ownerProxy s")
  case None
  with inv show ?thesis by (simp add: scanSessionContextIdle_def accounted_refl)
next
  case (Some proxy)
  define grouped where "grouped = fold (add_entry env) (concat (map (scan_entries env proxy now)
    (List.map_filter (\<lambda>fk. Option.bind (getPool s fk) (pool_at s)) (ev_pools env (ls_pools s))))) fmempty"
  define s1 where "s1 = on_pools env (\<lambda>p. p\<lparr>lp_instances :=
    fmmap (\<lambda>ins. fst (scan_slot env proxy (lp_funcKey p) now ins)) (lp_instances p)\<rparr>) s"
  define reply where "reply = (\<lambda>name st. case fmlookup grouped name of None \<Rightarrow> st
    | Some (owner, report) \<Rightarrow> if sendIdleReport post owner report then st else resetReclaiming report st)"
  have marks: "marks_only (\<lambda>ins. fst (scan_slot env proxy fk now ins))" for fk
    by (simp add: marks_only_def scan_slot_def split: option.splits)
  have s1: "accounted s s1" unfolding s1_def
    by (rule on_pools_accounted [OF inv]) (use marks in \<open>auto simp: marks_ledger\<close>)
  have one: "accounted st (reply name st)" if "sched_inv st" for name st
    using that by (auto simp: reply_def resetReclaiming_accounted accounted_refl split: option.splits)
  have "accounted s st \<Longrightarrow> accounted s (fold reply names st)" for names st
  proof (induction names arbitrary: st)
    case (Cons n ns)
    then have "accounted s (reply n st)" using one accountedD(1) accounted_trans by metis
    with Cons.IH show ?case by simp
  qed simp
  with s1 have "accounted s (fold reply (order grouped) s1)" by blast
  with Some show ?thesis
    by (simp add: scanSessionContextIdle_def Let_def grouped_def s1_def reply_def)
qed

end
