(* ===== verification/LiteSystem.thy ===== *)
theory LiteSystem
  imports LiteAccounting
begin

text \<open>
  The session scheduler as a transition system: one step per request phase, timer, lease expiry or
  event, in any interleaving. Reachable states keep the accounting identities, and every step is a
  run of the abstract ledger on each pool that survives it.

  A handler that locks the allocation map and the pool one after the other (release, expiry,
  instance removal) is one step here: the states between its two critical sections are not states of
  the relation.
\<close>

section \<open>Steps\<close>

definition env_ok :: "liteEnv \<Rightarrow> bool" where
  "env_ok env \<longleftrightarrow> range_order (ev_instances env) \<and> range_order (ev_sessions env) \<and>
     range_order (ev_allocs env) \<and> range_order (ev_pools env)"

text \<open>
  A request that passed the checks of \<^verbatim>\<open>handleAcquire\<close> for the pool \<open>pp\<close>, which is still the pool
  of the function, and whose next allocation ID is not in use. The waiting loop (\<open>st_poll\<close>) has the
  further guard that the session has not been bound meanwhile. The code checks neither: the steps that
  these guards leave out are the clashes below.
\<close>

definition serves :: "LiteScheduler \<Rightarrow> nat \<Rightarrow> LiteFunctionPool \<Rightarrow> LiteRequest \<Rightarrow> bool" where
  "serves s pp p req \<longleftrightarrow>
     getPool s (rq_FuncKey req) = Some pp \<and> pool_at s pp = Some p \<and> req_ok p (ls_allocations s) req"

definition same_ctx_mode :: "LiteScheduler \<Rightarrow> FunctionSpecification \<Rightarrow> bool" where
  "same_ctx_mode s spec \<longleftrightarrow>
     (case pool_of s (fs_FuncKey spec) of
        None \<Rightarrow> True
      | Some p \<Rightarrow>
          (case lp_funcSpec p of None \<Rightarrow> False | Some old \<Rightarrow> fs_EnableSessionCtx old) = fs_EnableSessionCtx spec)"

inductive lite_step :: "LiteScheduler \<Rightarrow> LiteScheduler \<Rightarrow> bool" where
  st_sticky: "serves s pp p req \<Longrightarrow> tryLocalSticky env pp req s = (s', r) \<Longrightarrow> lite_step s s'"
| st_dispatch: "env_ok env \<Longrightarrow> serves s pp p req \<Longrightarrow> acquireDispatch env pp req rec s = (s', r) \<Longrightarrow> lite_step s s'"
| st_poll: "env_ok env \<Longrightarrow> serves s pp p req \<Longrightarrow> fmlookup (lp_sessions p) (rq_bindingKey req) = None \<Longrightarrow>
    tryPollDispatch env pp req s = (s', r) \<Longrightarrow> lite_step s s'"
| st_release: "handleRelease env x req s = (s', r) \<Longrightarrow> lite_step s s'"
| st_retain: "handleRetain env x req s = (s', r) \<Longrightarrow> lite_step s s'"
| st_batch: "handleBatchRetain env req s = (s', br) \<Longrightarrow> lite_step s s'"
| st_idle_timer: "lite_step s (fireSessionUnbind pp k b t s)"
| st_reap: "lite_step s (reapBatch ready s)"
| st_instance: "env_ok env \<Longrightarrow> lite_step s (processInstanceEvent env ty msg s)"
| st_funcspec: "env_ok env \<Longrightarrow> (\<And>spec. msg' = Some spec \<Longrightarrow> same_ctx_mode s spec) \<Longrightarrow>
    lite_step s (processFuncSpecEvent env ty' msg' s)"
| st_ring: "env_ok env \<Longrightarrow> lite_step s (processSchedulerEvent env s)"
| st_idle_scan: "env_ok env \<Longrightarrow> lite_step s (scanSessionContextIdle env post order now s)"
| st_wheel: "lite_step s (s\<lparr>ls_expiryWheel := w, ls_timers := ts\<rparr>)"

inductive lite_reach :: "LiteScheduler \<Rightarrow> bool" where
  lr_init: "lite_reach (lite_New proxy)"
| lr_step: "lite_reach s \<Longrightarrow> lite_step s s' \<Longrightarrow> lite_reach s'"

text \<open>
  The guards of \<open>lite_step\<close> are not checks of the code. A request keeps the pool and the binding key it
  was admitted with, and by the time it is dispatched or polled the pool may be deleted, the context
  mode of the function changed, its session bound by another request, or its next allocation ID in use
  (one recovered from an earlier numbering). The code goes on in each of these cases; such a step is a
  \<open>clash\<close>, and so is a specification event that changes the context mode. \<open>lite_move\<close> has all steps,
  labelled with whether they clash, and \<open>lite_run\<close> keeps the labels of a run.
\<close>

definition admitted :: "LiteScheduler \<Rightarrow> nat \<Rightarrow> LiteFunctionPool \<Rightarrow> LiteRequest \<Rightarrow> bool" where
  "admitted s pp p req \<longleftrightarrow> pool_at s pp = Some p \<and> rq_FuncKey req = lp_funcKey p \<and> 1 \<le> rq_Concurrency req"

definition clash :: "bool \<Rightarrow> LiteScheduler \<Rightarrow> nat \<Rightarrow> LiteFunctionPool \<Rightarrow> LiteRequest \<Rightarrow> bool" where
  "clash polling s pp p req \<longleftrightarrow>
     getPool s (rq_FuncKey req) \<noteq> Some pp \<or>
     rq_bindingKey req \<noteq> sessionBindingKey p (rq_SessionID req) (rq_SessionCtxID req) \<or>
     (polling \<or> rq_SessionID req = []) \<and> fmlookup (lp_sessions p) (rq_bindingKey req) \<noteq> None \<or>
     (\<exists>i. fmlookup (lp_instances p) i \<noteq> None \<and>
        fmlookup (ls_allocations s) (genAllocationID (rq_bindingKey req) i (next_seq p)) \<noteq> None)"

inductive lite_move :: "bool \<Rightarrow> LiteScheduler \<Rightarrow> LiteScheduler \<Rightarrow> bool" where
  mv_step: "lite_step s s' \<Longrightarrow> lite_move False s s'"
| mv_sticky: "admitted s pp p req \<Longrightarrow> clash False s pp p req \<Longrightarrow> tryLocalSticky env pp req s = (s', r) \<Longrightarrow>
    lite_move True s s'"
| mv_dispatch: "env_ok env \<Longrightarrow> admitted s pp p req \<Longrightarrow> clash False s pp p req \<Longrightarrow>
    acquireDispatch env pp req rec s = (s', r) \<Longrightarrow> lite_move True s s'"
| mv_poll: "env_ok env \<Longrightarrow> admitted s pp p req \<Longrightarrow> clash True s pp p req \<Longrightarrow>
    tryPollDispatch env pp req s = (s', r) \<Longrightarrow> lite_move True s s'"
| mv_funcspec: "env_ok env \<Longrightarrow> \<not> same_ctx_mode s spec \<Longrightarrow>
    lite_move True s (processFuncSpecEvent env ty (Some spec) s)"

inductive_simps lite_move_False: "lite_move False s s'"

inductive lite_run :: "bool list \<Rightarrow> LiteScheduler \<Rightarrow> bool" where
  run_init: "lite_run [] (lite_New proxy)"
| run_move: "lite_run cs s \<Longrightarrow> lite_move c s s' \<Longrightarrow> lite_run (c # cs) s'"

lemma clash_free_serves:
  assumes "admitted s pp p req" "\<not> clash polling s pp p req"
  shows "serves s pp p req" "polling \<Longrightarrow> fmlookup (lp_sessions p) (rq_bindingKey req) = None"
  using assms unfolding admitted_def clash_def serves_def req_ok_def by metis+

text \<open>No request phase and no event is left out: each is a move, clash or not.\<close>

lemma every_phase_moves:
  assumes "env_ok env"
  shows "admitted s pp p req \<Longrightarrow> \<exists>c. lite_move c s (fst (tryLocalSticky env pp req s))"
    "admitted s pp p req \<Longrightarrow> \<exists>c. lite_move c s (fst (acquireDispatch env pp req rec s))"
    "admitted s pp p req \<Longrightarrow> \<exists>c. lite_move c s (fst (tryPollDispatch env pp req s))"
    "\<exists>c. lite_move c s (processFuncSpecEvent env ty msg s)"
proof -
  note pairs = prod.collapse [symmetric]
  show "\<exists>c. lite_move c s (fst (tryLocalSticky env pp req s))" if a: "admitted s pp p req"
    using mv_sticky [OF a _ pairs] mv_step [OF st_sticky [OF clash_free_serves(1) [OF a] pairs]] by blast
  show "\<exists>c. lite_move c s (fst (acquireDispatch env pp req rec s))" if a: "admitted s pp p req"
    using mv_dispatch [OF assms a _ pairs] mv_step [OF st_dispatch [OF assms clash_free_serves(1) [OF a] pairs]] by blast
  show "\<exists>c. lite_move c s (fst (tryPollDispatch env pp req s))" if a: "admitted s pp p req"
    using mv_poll [OF assms a _ pairs] mv_step [OF st_poll [OF assms clash_free_serves [OF a] pairs]] by blast
  show "\<exists>c. lite_move c s (processFuncSpecEvent env ty msg s)"
    using mv_funcspec [OF assms] mv_step [OF st_funcspec [OF assms]] by (metis option.exhaust option.inject)
qed

text \<open>A run without a clash is a run of \<open>lite_step\<close>.\<close>

lemma lite_run_reach: "lite_run cs s \<Longrightarrow> True \<notin> set cs \<Longrightarrow> lite_reach s"
proof (induction rule: lite_run.induct)
  case (run_init proxy)
  show ?case by (rule lr_init)
next
  case (run_move cs s c s')
  then have "lite_step s s'" by (simp add: lite_move_False)
  with run_move show ?case by (auto intro: lr_step)
qed

section \<open>Every step is accounted\<close>

lemma serves_D:
  assumes "serves s pp p req"
  shows "getPool s (rq_FuncKey req) = Some pp" "pool_at s pp = Some p" "req_ok p (ls_allocations s) req"
  using assms by (simp_all add: serves_def)

lemma env_okD:
  assumes "env_ok env"
  shows "range_order (ev_instances env)" "range_order (ev_sessions env)" "range_order (ev_allocs env)"
    "range_order (ev_pools env)"
  using assms by (simp_all add: env_ok_def)

text \<open>A change of a pool that no function key points to any more.\<close>

lemma accounted_stale:
  assumes inv: "sched_inv s" and stale: "\<And>fk. getPool s fk \<noteq> Some pp"
  shows "accounted s (put_pool pp q s)"
proof -
  have at: "pool_at (put_pool pp q s) pp' = pool_at s pp'" if "getPool s fk = Some pp'" for fk pp'
    using that stale [of fk] by (auto simp: pool_at_def put_pool_def)
  have "sched_inv (put_pool pp q s)"
    using inv at unfolding sched_inv_def by simp
  moreover have "pool_of (put_pool pp q s) fk = pool_of s fk" for fk
    using at by (cases "getPool s fk") (simp_all add: pool_of_def)
  ultimately show ?thesis by (simp add: accounted_def)
qed

lemma fire_accounted: "sched_inv s \<Longrightarrow> accounted s (fireSessionUnbind pp k b t s)"
proof (cases "\<exists>fk. getPool s fk = Some pp")
  case True
  then show "sched_inv s \<Longrightarrow> ?thesis" using fireSessionUnbind_accounted by blast
next
  case False
  then show "sched_inv s \<Longrightarrow> ?thesis"
    by (auto simp: fireSessionUnbind_def accounted_refl intro!: accounted_stale split: option.splits)
qed

lemma processInstanceEvent_accounted:
  assumes inv: "sched_inv s" and env: "env_ok env"
  shows "accounted s (processInstanceEvent env ty msg s)"
proof -
  have frame: "accounted s (s\<lparr>ls_insSynced := True\<rparr>)"
    by (rule accounted_cong [OF accounted_refl [OF inv]]) simp_all
  show ?thesis
    using inv frame handleInstanceUpdate_accounted [OF inv _ env_okD(3,2) [OF env]]
      removeInstance_accounted [OF inv _ env_okD(3,2) [OF env]]
    by (simp add: processInstanceEvent_def Let_def accounted_refl handleInstanceDelete_def split: option.split)
qed

lemma processFuncSpecEvent_inv:
  assumes inv: "sched_inv s" and env: "env_ok env" and mode: "\<And>spec. msg = Some spec \<Longrightarrow> same_ctx_mode s spec"
  shows "sched_inv (processFuncSpecEvent env ty msg s)"
proof -
  have "sched_inv (s\<lparr>ls_funcSpecSynced := True\<rparr>)" using inv by (rule iffD2 [OF sched_inv_cong, rotated -1]) simp_all
  moreover have "sched_inv (upsertPool env spec s)" if "msg = Some spec" for spec
    by (rule sched_inv_upsert [OF inv]) (use mode [OF that] in \<open>simp add: same_ctx_mode_def\<close>)
  moreover have "sched_inv (deletePool env fk s)" for fk
    using sched_inv_deletePool [OF inv env_okD(3) [OF env]] by blast
  ultimately show ?thesis using inv by (simp add: processFuncSpecEvent_def split: option.split)
qed

text \<open>Specification events apart, a step keeps the pools.\<close>

definition spec_event :: "LiteScheduler \<Rightarrow> LiteScheduler \<Rightarrow> bool" where
  "spec_event s s' \<longleftrightarrow> (\<exists>env ty msg. env_ok env \<and> (\<forall>spec. msg = Some spec \<longrightarrow> same_ctx_mode s spec) \<and>
     s' = processFuncSpecEvent env ty msg s)"

lemma lite_step_cases: "lite_step s s' \<Longrightarrow> sched_inv s \<Longrightarrow> accounted s s' \<or> spec_event s s'"
proof (induction rule: lite_step.induct)
  case (st_sticky s pp p req env s' r)
  then show ?case using tryLocalSticky_accounted [OF _ serves_D] by blast
next
  case (st_dispatch env s pp p req rec s' r)
  then show ?case using acquireDispatch_accounted [OF _ serves_D env_okD(1)] by blast
next
  case (st_poll env s pp p req s' r)
  then show ?case using tryDispatch_accounted [OF _ serves_D env_okD(1)]
    unfolding tryPollDispatch_def by blast
next
  case (st_funcspec env msg' s ty')
  then show ?case unfolding spec_event_def by blast
next
  case (st_wheel s ts w)
  have "accounted s (s\<lparr>ls_expiryWheel := w, ls_timers := ts\<rparr>)"
    by (rule accounted_cong [OF accounted_refl [OF st_wheel]]) simp_all
  then show ?case ..
qed (simp_all add: handleRelease_accounted handleRetain_accounted handleBatchRetain_accounted fire_accounted
      reapBatch_accounted processInstanceEvent_accounted processSchedulerEvent_accounted
      scanSessionContextIdle_accounted)

lemma lite_step_inv: "lite_step s s' \<Longrightarrow> sched_inv s \<Longrightarrow> sched_inv s'"
  using lite_step_cases [of s s'] accountedD(1) processFuncSpecEvent_inv unfolding spec_event_def by blast

lemma lite_New_inv: "sched_inv (lite_New proxy)"
  by (simp add: sched_inv_def lite_New_def getPool_def)

lemma lite_reach_inv: "lite_reach s \<Longrightarrow> sched_inv s"
  by (induction rule: lite_reach.induct) (auto intro: lite_New_inv lite_step_inv)

text \<open>A specification event leaves the ledgers of the pools it does not delete.\<close>

lemma upsert_ledger:
  assumes inv: "sched_inv s" and mode: "same_ctx_mode s spec"
    and p: "pool_of s fk = Some p" "pool_of (upsertPool env spec s) fk = Some p'"
  shows "ledger_of p' (ls_allocations (upsertPool env spec s)) = ledger_of p (ls_allocations s)"
proof -
  obtain pp where pp: "getPool s fk = Some pp" "pool_at s pp = Some p"
    using p(1) by (auto simp: pool_of_def Option.bind_eq_Some_conv)
  have lt: "pp < ls_nextPool s" using inv pp by (simp add: sched_inv_def)
  show ?thesis
  proof (cases "pool_of s (fs_FuncKey spec)")
    case None
    then have "Option.bind (getPool s (fs_FuncKey spec)) (\<lambda>pp. map_option (Pair pp) (pool_at s pp)) = None"
      by (cases "getPool s (fs_FuncKey spec)") (simp_all add: pool_of_def)
    moreover have "fk \<noteq> fs_FuncKey spec" using None p by auto
    ultimately have "p' = p" using p(2) pp lt
      by (auto simp: upsertPool_def Let_def pool_of_def getPool_def pool_at_def)
    with None show ?thesis by (simp add: upsertPool_def Let_def split: option.split)
  next
    case (Some q)
    then obtain qq where qq: "getPool s (fs_FuncKey spec) = Some qq" "pool_at s qq = Some q"
      by (auto simp: pool_of_def Option.bind_eq_Some_conv)
    let ?q = "q\<lparr>lp_funcSpec := Some spec\<rparr>"
    have s': "upsertPool env spec s = put_pool qq ?q s" using qq by (simp add: upsertPool_def)
    have "sessionBindingKey ?q = sessionBindingKey q"
      using mode Some by (auto simp: fun_eq_iff same_ctx_mode_def sessionBindingKey_def split: option.splits)
    then have "alloc_view ?q = alloc_view q" by (intro ext) (simp add: alloc_view_def)
    then have "ledger_of ?q (ls_allocations s) = ledger_of q (ls_allocations s)" by (intro ledger_eqI) simp_all
    moreover have "p' = (if pp = qq then ?q else p)"
      using p(2) pp unfolding s' by (auto simp: pool_of_def pool_at_def)
    ultimately show ?thesis using pp qq unfolding s' by (auto split: if_splits)
  qed
qed

lemma delete_ledger:
  assumes inv: "sched_inv s" and env: "env_ok env"
    and p: "pool_of s fk = Some p" "pool_of (deletePool env fd s) fk = Some p'"
  shows "ledger_of p' (ls_allocations (deletePool env fd s)) = ledger_of p (ls_allocations s)"
proof (cases "getPool s fd")
  case None
  with p show ?thesis by (simp add: deletePool_def)
next
  case (Some dd)
  obtain d where d: "pool_at s dd = Some d" "lp_funcKey d = fd" using sched_inv_pool [OF inv Some] by metis
  let ?s = "deletePool env fd s"
  obtain q where s': "ls_pools ?s = fmdrop fd (ls_pools s)" "ls_heap ?s = fmupd dd q (ls_heap s)"
    "ls_allocations ?s = other_allocs fd (ls_allocations s)"
    using Some d by (simp add: deletePool_def Let_def drop_allocs_state dropped_allocs [OF env_okD(3) [OF env]] other_allocs_def)
  obtain pp where pp: "getPool s fk = Some pp" "pool_at s pp = Some p"
    using p(1) by (auto simp: pool_of_def Option.bind_eq_Some_conv)
  have fk: "lp_funcKey p = fk" using sched_inv_pool [OF inv pp(1)] pp(2) by (metis option.inject)
  have ne: "fk \<noteq> fd" using p(2) s'(1) by (auto simp: pool_of_def getPool_def)
  then have "pp \<noteq> dd" using d pp fk by auto
  then have "p' = p" using p(2) pp s' ne by (auto simp: pool_of_def getPool_def pool_at_def)
  moreover have "other_allocs fd (ls_allocations s) = other_allocs fd (other_allocs fd (ls_allocations s))"
    by (rule fmap_ext) (auto simp: lookup_other_allocs split: option.splits)
  ultimately show ?thesis using ledger_other [of fd _ _ p] ne fk s'(3) by metis
qed

lemma spec_event_ledger:
  assumes "spec_event s s'" and inv: "sched_inv s" and p: "pool_of s fk = Some p" "pool_of s' fk = Some p'"
  shows "ledger_of p' (ls_allocations s') = ledger_of p (ls_allocations s)"
proof -
  obtain env ty msg where ev: "env_ok env" "\<And>spec. msg = Some spec \<Longrightarrow> same_ctx_mode s spec"
    and s': "s' = processFuncSpecEvent env ty msg s"
    using assms(1) unfolding spec_event_def by blast
  have sync: "pool_of (s\<lparr>ls_funcSpecSynced := True\<rparr>) fk = pool_of s fk"
    by (cases "getPool s fk") (simp_all add: pool_of_def getPool_def pool_at_def)
  show ?thesis
  proof (cases msg)
    case None
    then show ?thesis using p sync unfolding s' by (auto simp: processFuncSpecEvent_def split: if_splits)
  next
    case (Some spec)
    show ?thesis
      using p sync upsert_ledger [OF inv ev(2) [OF Some] p(1)] delete_ledger [OF inv ev(1) p(1)]
      unfolding s' Some by (auto simp: processFuncSpecEvent_def split: if_splits)
  qed
qed

end
