(* ===== verification/LiteSample.thy ===== *)
theory LiteSample
  imports LiteSystem "HOL-Library.Char_ord" "HOL-Library.List_Lexorder"
begin

text \<open>
  A concrete run of the session scheduler that the witnesses evaluate: one function, one instance of
  capacity four, one session that asks for two units.
\<close>

definition sample_key :: string where "sample_key = ''t/f/1''"

definition sample_spec :: FunctionSpecification where
  "sample_spec = \<lparr>fs_FuncKey = sample_key, fs_EnableSessionCtx = False, fs_ConcurrentNum = 4, fs_SchedulePolicy = []\<rparr>"

definition sample_ins :: InstanceSpecification where
  "sample_ins =
     \<lparr>is_InstanceID = ''i1'', is_Function = sample_key, is_RuntimeAddress = ''10.0.0.1:80'',
      is_FunctionProxyID = ''n1'',
      is_CreateOptions = fmupd ''ConcurrentNum'' ''4'' (fmupd ''FUNCTION_KEY_NOTE'' sample_key fmempty),
      is_Code = 3, is_AZ = [], is_SessionCtxID = None\<rparr>"

definition sample_env :: liteEnv where
  "sample_env =
     \<lparr>ev_cfg = \<lparr>lc_Enable = True, lc_EnableAllTenants = True, lc_EnabledTenants = [], lc_EnabledFunctions = [],
                lc_AcquireWaitTimeoutMs = 1000, lc_LeaseSpan = 1000\<rparr>,
      ev_self = sample_self ''s1'', ev_now = 0,
      ev_store = \<lparr>st_Backend = [], st_BackendTTLSeconds = 60, st_CurrentCluster = [], st_UploadWriteMode = 0,
                  st_PodIP = [], st_HostIP = []\<rparr>,
      ev_codec = \<lparr>cd_extra = (\<lambda>_. None), cd_session = (\<lambda>_. None), cd_metrics = (\<lambda>_. None), cd_batch = (\<lambda>_. fmempty)\<rparr>,
      ev_instances = (\<lambda>m. sorted_list_of_set (fmdom' m)), ev_sessions = (\<lambda>m. sorted_list_of_set (fmdom' m)),
      ev_allocs = (\<lambda>m. sorted_list_of_set (fmdom' m)), ev_pools = (\<lambda>m. sorted_list_of_set (fmdom' m)),
      ev_sender = None\<rparr>"

definition sample_req :: "string \<Rightarrow> int \<Rightarrow> LiteRequest" where
  "sample_req sid c = blank_request\<lparr>rq_Op := ''acquire'', rq_FuncKey := sample_key, rq_TenantID := ''t'',
     rq_SessionID := sid, rq_Concurrency := c, rq_bindingKey := sid\<rparr>"

definition sample_booted :: LiteScheduler where
  "sample_booted = processInstanceEvent sample_env SubEventTypeUpdate (Some sample_ins)
     (processFuncSpecEvent sample_env SubEventTypeUpdate (Some sample_spec) (lite_New None))"

definition sample_leased :: LiteScheduler where
  "sample_leased = fst (acquireDispatch sample_env 0 (sample_req ''s'' 2) None sample_booted)"

lemma sample_env_ok: "env_ok sample_env"
  by (simp add: env_ok_def sample_env_def range_order_sorted)

lemma sample_cfg [simp]: "isFuncEnabled (ev_cfg sample_env) fk" "ev_now sample_env = 0"
  by (simp_all add: sample_env_def isFuncEnabled_def)

lemma sample_order [simp]: "ev_instances sample_env (fmupd i x fmempty) = [i]"
  by (simp add: sample_env_def)

definition sample_slot_i1 :: "int \<Rightarrow> LiteInstance" where
  "sample_slot_i1 used =
     \<lparr>li_InstanceID = ''i1'', li_FuncKey = sample_key, li_Capacity = 4, li_InUse = used,
      li_Status = InstanceStatusRunning, li_InstanceIP = ''10.0.0.1'', li_InstancePort = ''80'',
      li_NodeIP = [], li_NodePort = [], li_FuncSig = [], li_FunctionProxyID = ''n1'', li_RouteAddress = [],
      li_AZ = [], li_SessionCtxID = [], li_IdleSince = None, li_Reclaiming = False\<rparr>"

definition sample_pool :: LiteFunctionPool where
  "sample_pool =
     \<lparr>lp_funcKey = sample_key, lp_funcSpec = Some sample_spec,
      lp_instances = fmupd ''i1'' (sample_slot_i1 0) fmempty,
      lp_sessions = fmempty, lp_dispatcher = concurrencyDispatcher,
      lp_sessionStore = Some (newLiteSessionStore (ev_store sample_env) sample_key),
      lp_seqCounter = 0, lp_nextPtr = 0\<rparr>"

lemma sample_address: "splitAll CHR '':'' ''10.0.0.1:80'' = [''10.0.0.1'', ''80'']" "splitAll CHR '':'' ''n1'' = [''n1'']"
  "atoi ''4'' = Some 4"
  by code_simp+

lemma sample_upsert:
  "getPool (processFuncSpecEvent sample_env SubEventTypeUpdate (Some sample_spec) (lite_New None)) sample_key = Some 0"
  "pool_at (processFuncSpecEvent sample_env SubEventTypeUpdate (Some sample_spec) (lite_New None)) 0 =
     Some (sample_pool\<lparr>lp_instances := fmempty\<rparr>)"
  "ls_allocations (processFuncSpecEvent sample_env SubEventTypeUpdate (Some sample_spec) (lite_New None)) = fmempty"
  "ls_ownerProxy (processFuncSpecEvent sample_env SubEventTypeUpdate (Some sample_spec) (lite_New None)) = None"
  by (simp_all add: processFuncSpecEvent_def upsertPool_def getPool_def lite_New_def sample_spec_def pool_at_def
      sample_pool_def newDispatcher_def Let_def)

lemma sample_booted_state:
  "getPool sample_booted sample_key = Some 0" "pool_at sample_booted 0 = Some sample_pool"
  "ls_allocations sample_booted = fmempty" "ls_ownerProxy sample_booted = None"
proof -
  define s where "s = processFuncSpecEvent sample_env SubEventTypeUpdate (Some sample_spec) (lite_New None)"
  have s: "getPool s sample_key = Some 0" "pool_at s 0 = Some (sample_pool\<lparr>lp_instances := fmempty\<rparr>)"
    "ls_allocations s = fmempty" "ls_ownerProxy s = None" using sample_upsert by (simp_all add: s_def)
  have e: "sample_booted = put_pool 0 sample_pool s"
    unfolding sample_booted_def s_def [symmetric] using s(1,2)
    by (simp add: processInstanceEvent_def option_note_def sample_ins_def Let_def handleInstanceUpdate_def
        BuildInstanceFromInsSpec_def parseIPAndPort_def sample_address mapStatus_def sample_key_def
        buildLiteInstanceFromInstance_def instanceSessionCtxID_def sample_pool_def sample_slot_i1_def)
  show "getPool sample_booted sample_key = Some 0" "pool_at sample_booted 0 = Some sample_pool"
    "ls_allocations sample_booted = fmempty" "ls_ownerProxy sample_booted = None"
    using s unfolding e by (simp_all only: put_pool_sel)
qed

lemma sample_booted_reach: "lite_reach sample_booted"
  unfolding sample_booted_def
proof (rule lr_step [OF lr_step [OF lr_init]])
  show "lite_step (lite_New None) (processFuncSpecEvent sample_env SubEventTypeUpdate (Some sample_spec) (lite_New None))"
    by (rule st_funcspec [OF sample_env_ok]) (simp add: same_ctx_mode_def pool_of_def getPool_def lite_New_def)
qed (rule st_instance [OF sample_env_ok])

lemma sample_req_sel [simp]:
  "rq_FuncKey (sample_req sid c) = sample_key" "rq_SessionID (sample_req sid c) = sid"
  "rq_bindingKey (sample_req sid c) = sid" "rq_Concurrency (sample_req sid c) = c"
  "rq_SessionCtxID (sample_req sid c) = []"
  by (simp_all add: sample_req_def blank_request_def)

lemma sample_serves: "sid \<noteq> [] \<Longrightarrow> 1 \<le> c \<Longrightarrow> serves sample_booted 0 sample_pool (sample_req sid c)"
  by (simp add: serves_def sample_booted_state req_ok_def sample_pool_def sessionBindingKey_def sample_spec_def)

lemma sample_lease_step: "lite_step sample_booted sample_leased"
  unfolding sample_leased_def
  by (rule st_dispatch [OF sample_env_ok sample_serves prod.collapse [symmetric]]) simp_all

lemma sample_leased_reach: "lite_reach sample_leased"
  by (rule lr_step [OF sample_booted_reach sample_lease_step])

lemma sample_booted_run: "lite_run [False, False] sample_booted"
  unfolding sample_booted_def
proof (rule run_move [OF run_move [OF run_init]])
  show "lite_move False (lite_New None) (processFuncSpecEvent sample_env SubEventTypeUpdate (Some sample_spec) (lite_New None))"
    by (rule mv_step, rule st_funcspec [OF sample_env_ok]) (simp add: same_ctx_mode_def pool_of_def getPool_def lite_New_def)
qed (rule mv_step, rule st_instance [OF sample_env_ok])

lemma sample_leased_run: "lite_run [False, False, False] sample_leased"
  by (rule run_move [OF sample_booted_run mv_step [OF sample_lease_step]])

abbreviation (input) sample_wheel :: SimpleTimeWheel where
  "sample_wheel \<equiv> NewSimpleTimeWheel (5 * millisecond) 100"

lemma sample_booted_wheel: "ls_expiryWheel sample_booted = Some sample_wheel"
  by (simp add: sample_booted_def processInstanceEvent_def option_note_def sample_ins_def Let_def handleInstanceUpdate_def
      BuildInstanceFromInsSpec_def parseIPAndPort_def sample_address mapStatus_def buildLiteInstanceFromInstance_def
      instanceSessionCtxID_def processFuncSpecEvent_def upsertPool_def getPool_def lite_New_def sample_spec_def pool_at_def
      newDispatcher_def sample_key_def put_pool_def)

definition sample_binding :: sessionBinding where
  "sample_binding = \<lparr>sb_ptr = 0, sb_instanceID = ''i1'', sb_reserved = 1, sb_activeAllocs = 1, sb_timer = None, sb_expiring = False\<rparr>"

definition sample_id :: string where
  "sample_id = genAllocationID ''s'' ''i1'' 1"

lemma sint_one64: "sint (1 :: 64 word) = 1"
  by code_simp

lemma sample_acquire:
  "\<exists>p s'. acquireDispatch sample_env 0 (sample_req ''s'' 2) None sample_booted =
      (s', Some (liteSuccessResp sample_env (Some (sample_slot_i1 0)) sample_id sample_key 0)) \<and>
     getPool s' sample_key = Some 0 \<and> pool_at s' 0 = Some p \<and>
     lp_instances p = fmupd ''i1'' (sample_slot_i1 2) fmempty \<and>
     lp_sessions p = fmupd ''s'' sample_binding fmempty \<and> lp_funcKey p = sample_key \<and>
     lp_funcSpec p = Some sample_spec \<and> lp_seqCounter p = 1 \<and> lp_dispatcher p = concurrencyDispatcher \<and>
     (\<exists>st. lp_sessionStore p = Some st \<and> queue_reach (co_queue (ss_coord st))) \<and>
     ls_allocations s' = fmupd sample_id (new_allocation sample_env (sample_req ''s'' 2) (sample_slot_i1 0) sample_id) fmempty \<and>
     ls_expiryWheel s' = Some (kept sample_wheel (AddTask sample_wheel sample_id (1000 * millisecond) 1))"
proof -
  have sel: "dispatcher_Select (lp_dispatcher sample_pool)
      (candidateSlotsLocked (ev_instances sample_env) sample_pool [] 2) 2 = (Some (sample_slot_i1 0), concurrencyDispatcher)"
    by (simp add: sample_pool_def candidateSlotsLocked_def sample_slot_i1_def concurrency_Select_def)
  have sticky: "tryLocalSticky sample_env 0 (sample_req ''s'' 2) sample_booted = (sample_booted, None)"
    using sample_booted_state put_pool_same
    by (simp add: tryLocalSticky_def tryLocalStickyLocked_def sample_pool_def)
  let ?q = "sample_pool\<lparr>lp_dispatcher := concurrencyDispatcher\<rparr>" and ?req = "sample_req ''s'' 2"
  let ?p = "applySlotBinding ?req (sample_slot_i1 0) None (?q\<lparr>lp_seqCounter := lp_seqCounter ?q + 1\<rparr>)"
  obtain s' resp where r: "assignInstance sample_env 0 ?q ?req (sample_slot_i1 0) None sample_booted = (s', resp)"
    by (cases "assignInstance sample_env 0 ?q ?req (sample_slot_i1 0) None sample_booted") simp
  have seq: "next_seq ?q = 1" using sint_one64 by (simp add: next_seq_def sample_pool_def)
  have "acquireDispatch sample_env 0 ?req None sample_booted = (s', Some resp)"
    using sample_booted_state r
    by (simp add: acquireDispatch_def sticky tryStoreRecoveryLocked_def tryDispatchLocked_def sel)
  moreover have "resp = liteSuccessResp sample_env (Some (sample_slot_i1 0)) sample_id sample_key 0"
    using r seq by (auto simp: assignInstance_def Let_def sample_id_def sample_slot_i1_def sample_req_def blank_request_def)
  moreover have "getPool s' sample_key = Some 0" "pool_at s' 0 = Some ?p"
      "ls_allocations s' = fmupd sample_id (new_allocation sample_env ?req (sample_slot_i1 0) sample_id) fmempty"
    using assignInstance_state [OF r] sample_booted_state seq
    by (simp_all add: getPool_def pool_at_def Let_def sample_id_def sample_slot_i1_def)
  moreover have "lp_instances ?p = fmupd ''i1'' (sample_slot_i1 2) fmempty"
    by (rule fmap_ext) (simp add: applySlotBinding_def Let_def bindSessionFreshLocked_def sample_pool_def sample_slot_i1_def)
  moreover have "lp_sessions ?p = fmupd ''s'' sample_binding fmempty"
    by (rule fmap_ext) (simp add: applySlotBinding_def Let_def bindSessionFreshLocked_def sample_pool_def
      sample_slot_i1_def sample_binding_def)
  moreover have "lp_funcKey ?p = sample_key \<and> lp_funcSpec ?p = Some sample_spec \<and> lp_seqCounter ?p = 1 \<and>
      lp_dispatcher ?p = concurrencyDispatcher"
    by (simp add: sample_pool_def)
  moreover have "\<exists>st. lp_sessionStore ?p = Some st \<and> queue_reach (co_queue (ss_coord st))"
    by (simp add: applySlotBinding_def Let_def bindSessionFreshLocked_def sample_pool_def saveSessionToStore_def
        SaveRecord_def co_enqueue_def newLiteSessionStore_def NewCoordinator_def queue_reach_enqueue queue_reach_new)
  moreover have "ls_expiryWheel s' = Some (kept sample_wheel (AddTask sample_wheel sample_id (1000 * millisecond) 1))"
    using r seq sample_booted_wheel
    by (auto simp: assignInstance_def Let_def sample_id_def sample_slot_i1_def registerExpiryTask_def recordAcquireMetrics_def
        count_metric_def liteTTL_def sample_env_def)
  ultimately show ?thesis by blast
qed

lemma sample_leased_wheel:
  obtains w where "ls_expiryWheel sample_leased = Some w" "tw_wf w" "tw_perimeter w = 500 * millisecond"
    "tw_pace w = 5 * millisecond"
proof -
  obtain w0 where w0: "AddTask sample_wheel sample_id (1000 * millisecond) 1 = Inr w0"
    by (simp add: AddTask_def NewSimpleTimeWheel_def Let_def place_index_def tw_ticks_def slot_in_range_def)
  have "ls_expiryWheel sample_leased = Some w0"
    using sample_acquire w0 by (auto simp: sample_leased_def kept_def)
  moreover have "tw_perimeter w0 = 500 * millisecond" "tw_pace w0 = 5 * millisecond"
    using w0 by (auto simp: AddTask_def Let_def NewSimpleTimeWheel_def split: if_splits)
  ultimately show ?thesis using that AddTask_wf [OF NewSimpleTimeWheel_wf w0] by blast
qed

lemma sint_two64: "sint (2 :: 64 word) = 2"
  by code_simp

lemma sample_leased_state:
  obtains p where "pool_of sample_leased sample_key = Some p" "getPool sample_leased sample_key = Some 0"
    "pool_at sample_leased 0 = Some p"
    "lp_instances p = fmupd ''i1'' (sample_slot_i1 2) fmempty" "lp_sessions p = fmupd ''s'' sample_binding fmempty"
    "lp_funcKey p = sample_key" "lp_funcSpec p = Some sample_spec"
    "ls_allocations sample_leased =
       fmupd sample_id (new_allocation sample_env (sample_req ''s'' 2) (sample_slot_i1 0) sample_id) fmempty"
    "serves sample_leased 0 p (sample_req ''s'' 2)" "lp_dispatcher p = concurrencyDispatcher"
    "\<exists>st. lp_sessionStore p = Some st \<and> queue_reach (co_queue (ss_coord st))"
proof -
  obtain p where p: "getPool sample_leased sample_key = Some 0" "pool_at sample_leased 0 = Some p"
    "lp_instances p = fmupd ''i1'' (sample_slot_i1 2) fmempty" "lp_sessions p = fmupd ''s'' sample_binding fmempty"
    "lp_funcKey p = sample_key" "lp_funcSpec p = Some sample_spec" "lp_seqCounter p = 1" "lp_dispatcher p = concurrencyDispatcher"
    "ls_allocations sample_leased =
       fmupd sample_id (new_allocation sample_env (sample_req ''s'' 2) (sample_slot_i1 0) sample_id) fmempty"
    "\<exists>st. lp_sessionStore p = Some st \<and> queue_reach (co_queue (ss_coord st))"
    using sample_acquire by (auto simp: sample_leased_def)
  have "next_seq p = 2" using p(7) sint_two64 by (simp add: next_seq_def)
  moreover have "genAllocationID ''s'' ''i1'' 2 \<noteq> sample_id"
    unfolding sample_id_def using genAllocationID_inj [of "''s''" "''i1''" 2 "''s''" "''i1''" 1] by (auto simp: range_int64_def)
  ultimately have "serves sample_leased 0 p (sample_req ''s'' 2)"
    using p by (simp add: serves_def req_ok_def sessionBindingKey_def sample_spec_def split: if_splits)
  with p that show ?thesis by (simp add: pool_of_def)
qed

end
