(* ===== verification/LiteProps.thy ===== *)
theory LiteProps
  imports LiteSample
begin

text \<open>
  What the session scheduler guarantees in every reachable state: the accounting identities, the
  refinement of the ledger, the bounds of an acquire, session affinity, and the effects of release,
  retain, idle unbinding, instance removal and pool deletion.
\<close>

section \<open>Reading the ledger of a pool\<close>

lemma fmsum_fmmap: "fmsum f (fmmap g m) = fmsum (\<lambda>k v. f k (g v)) m"
proof -
  have "fmdom' (fmmap g m) = fmdom' m" by (auto simp: fmlookup_dom'_iff)
  then show ?thesis unfolding fmsum_def by (intro sum.cong) (auto simp: fmlookup_dom'_iff)
qed

lemma ledger_bound_units:
  "bound_units (ledger_of p A) i = fmsum (\<lambda>_ b. if sb_instanceID b = i then held b else 0) (lp_sessions p)"
  unfolding bound_units_def ledger_of_def
  by (simp add: fmsum_fmmap) (rule fmsum_cong, simp add: binding_view_def held_def)

lemma ledger_single_units:
  "single_units (ledger_of p A) i =
     fmcount (\<lambda>_ a. al_FuncKey a = lp_funcKey p \<and> al_InstanceID a = i \<and> al_SessionID a = []) A"
  unfolding single_units_def ledger_of_def pool_allocs_def
  by (simp add: fmsum_fmmap fmsum_reject) (rule fmsum_cong, simp add: alloc_view_def)

lemma ledger_session_units:
  "session_units (ledger_of p A) k =
     fmcount (\<lambda>_ a. al_FuncKey a = lp_funcKey p \<and> al_SessionID a \<noteq> [] \<and>
                sessionBindingKey p (al_SessionID a) (al_SessionCtxID a) = k) A"
  unfolding session_units_def ledger_of_def pool_allocs_def
  by (simp add: fmsum_fmmap fmsum_reject) (rule fmsum_cong, simp add: alloc_view_def)

lemma reach_pool:
  assumes "lite_reach s" "pool_of s fk = Some p"
  shows "lp_funcKey p = fk" "slots_ok p" "ledger_ok (ledger_of p (ls_allocations s))"
proof -
  obtain pp where pp: "getPool s fk = Some pp" "pool_at s pp = Some p"
    using assms(2) by (auto simp: pool_of_def Option.bind_eq_Some_conv)
  with sched_inv_pool [OF lite_reach_inv [OF assms(1)] pp(1)]
  show "lp_funcKey p = fk" "slots_ok p" "ledger_ok (ledger_of p (ls_allocations s))" by (metis option.inject)+
qed

section \<open>Accounting\<close>

text \<open>
  C1: After every run in which no step clashes (no request is dispatched or polled after its pool was
  deleted, its binding key changed, its session was bound by another poll, or with an allocation ID that
  is in use, and no specification event changes the context mode), between handlers, the used units of an
  instance are exactly the units held by the sessions bound to it (reserved and handed out) plus its
  session-less allocations: no unit is lost or counted twice. \<open>poll_overwrites_binding\<close> and
  \<open>reacquired_id_reused\<close> show what a clash does.
\<close>

theorem inUse_identity:
  assumes "lite_run cs s" and "True \<notin> set cs"
    and "pool_of s fk = Some p" and "fmlookup (lp_instances p) i = Some slot"
  shows "li_InUse slot =
    fmsum (\<lambda>_ b. if sb_instanceID b = i then held b else 0) (lp_sessions p) +
    fmcount (\<lambda>_ a. al_FuncKey a = fk \<and> al_InstanceID a = i \<and> al_SessionID a = []) (ls_allocations s)"
proof -
  note ok = reach_pool [OF lite_run_reach [OF assms(1,2)] assms(3)]
  show ?thesis
    using used_okD [OF ok(3), of i "li_InUse slot"] assms(4) ok(1) by (simp add: ledger_bound_units ledger_single_units)
qed

theorem inUse_identity_witness:
  "\<exists>p. pool_of sample_leased sample_key = Some p \<and> lp_instances p = fmupd ''i1'' (sample_slot_i1 2) fmempty \<and>
     2 = fmsum (\<lambda>_ b. if sb_instanceID b = ''i1'' then held b else 0) (lp_sessions p) +
       fmcount (\<lambda>_ a. al_FuncKey a = sample_key \<and> al_InstanceID a = ''i1'' \<and> al_SessionID a = []) (ls_allocations sample_leased)"
proof -
  obtain p where p: "pool_of sample_leased sample_key = Some p" "lp_instances p = fmupd ''i1'' (sample_slot_i1 2) fmempty"
    by (rule sample_leased_state)
  with inUse_identity [OF sample_leased_run _ p(1), of "''i1''" "sample_slot_i1 2"]
  show ?thesis by (simp add: sample_slot_i1_def)
qed

text \<open>
  C2: After every run in which no step clashes (see C1), between handlers, a session is bound to an
  instance of the pool, its reserve is not negative, it holds at least one unit, and the units it has
  handed out are exactly the allocations outstanding for it, all on the instance it is bound to.
\<close>

theorem session_identity:
  assumes "lite_run cs s" and "True \<notin> set cs"
    and "pool_of s fk = Some p" and "fmlookup (lp_sessions p) k = Some b"
  shows "fmlookup (lp_instances p) (sb_instanceID b) \<noteq> None \<and> 0 \<le> sb_reserved b \<and> 1 \<le> held b \<and>
    sb_activeAllocs b = fmcount (\<lambda>_ a. al_FuncKey a = fk \<and> al_SessionID a \<noteq> [] \<and>
      sessionBindingKey p (al_SessionID a) (al_SessionCtxID a) = k) (ls_allocations s) \<and>
    fmcount (\<lambda>_ a. al_FuncKey a = fk \<and> al_SessionID a \<noteq> [] \<and> al_InstanceID a \<noteq> sb_instanceID b \<and>
      sessionBindingKey p (al_SessionID a) (al_SessionCtxID a) = k) (ls_allocations s) = 0"
proof -
  note reach = lite_run_reach [OF assms(1,2)]
  note led = reach_pool(3) [OF reach assms(3)] and fk = reach_pool(1) [OF reach assms(3)]
  have b: "fmlookup (lg_bound (ledger_of p (ls_allocations s))) k = Some (sb_instanceID b, sb_reserved b, sb_activeAllocs b)"
    using assms(4) by (simp add: binding_view_def)
  have "al_InstanceID a = sb_instanceID b"
    if "fmlookup (ls_allocations s) x = Some a" "al_FuncKey a = fk" "al_SessionID a \<noteq> []"
      "sessionBindingKey p (al_SessionID a) (al_SessionCtxID a) = k" for x a
    using out_bound_same [OF led _ b, of x "al_InstanceID a"] that fk by (simp add: lookup_pool_allocs alloc_view_def)
  then have none: "fmcount (\<lambda>_ a. al_FuncKey a = fk \<and> al_SessionID a \<noteq> [] \<and> al_InstanceID a \<noteq> sb_instanceID b \<and>
      sessionBindingKey p (al_SessionID a) (al_SessionCtxID a) = k) (ls_allocations s) = 0"
    by (subst fmcount_zero_iff) blast
  have "sb_activeAllocs b = fmcount (\<lambda>_ a. al_FuncKey a = fk \<and> al_SessionID a \<noteq> [] \<and>
      sessionBindingKey p (al_SessionID a) (al_SessionCtxID a) = k) (ls_allocations s)"
    using bound_okD(4) [OF led b] fk by (simp only: ledger_session_units)
  with none bound_okD(1-3) [OF led b] show ?thesis by (simp add: held_def)
qed

theorem session_identity_witness:
  "\<exists>p. pool_of sample_leased sample_key = Some p \<and> fmlookup (lp_sessions p) ''s'' = Some sample_binding \<and>
     1 = fmcount (\<lambda>_ a. al_FuncKey a = sample_key \<and> al_SessionID a \<noteq> [] \<and>
       sessionBindingKey p (al_SessionID a) (al_SessionCtxID a) = ''s'') (ls_allocations sample_leased)"
proof -
  obtain p where p: "pool_of sample_leased sample_key = Some p" "lp_sessions p = fmupd ''s'' sample_binding fmempty"
    by (rule sample_leased_state)
  with session_identity [OF sample_leased_run _ p(1), of "''s''" sample_binding]
  show ?thesis by (simp add: sample_binding_def)
qed

text \<open>
  C3: After a run in which no step clashes (see C1), every further step that does not clash refines
  the abstract ledger: on each pool that exists before and after the step, the ledger moves by a run of
  ledger steps (take, bind, give back, return, unbind, retire, enlist), and the accounting identities
  hold afterwards. A poll for a session that was bound meanwhile is no such step.
\<close>

theorem lite_refines_ledger:
  assumes "lite_run cs s" and "True \<notin> set cs" and "lite_move False s s'"
    and "pool_of s fk = Some p" and "pool_of s' fk = Some p'"
  shows "ledger_step\<^sup>*\<^sup>* (ledger_of p (ls_allocations s)) (ledger_of p' (ls_allocations s')) \<and>
    ledger_ok (ledger_of p' (ls_allocations s'))"
proof -
  note reach = lite_run_reach [OF assms(1,2)]
  have step: "lite_step s s'" using assms(3) by (simp add: lite_move_False)
  have inv: "sched_inv s" by (rule lite_reach_inv [OF reach])
  have "ledger_step\<^sup>*\<^sup>* (ledger_of p (ls_allocations s)) (ledger_of p' (ls_allocations s'))"
    using lite_step_cases [OF step inv]
  proof
    assume "accounted s s'"
    then show ?thesis using assms(4,5) by (simp add: accounted_def)
  next
    assume "spec_event s s'"
    then have "ledger_of p' (ls_allocations s') = ledger_of p (ls_allocations s)"
      using spec_event_ledger [OF _ inv assms(4,5)] by blast
    then show ?thesis by simp
  qed
  with reach_pool(3) [OF lr_step [OF reach step] assms(5)] show ?thesis by blast
qed

theorem lite_refines_ledger_witness:
  "\<exists>p'. pool_of sample_leased sample_key = Some p' \<and>
     ledger_step\<^sup>*\<^sup>* (ledger_of sample_pool fmempty) (ledger_of p' (ls_allocations sample_leased)) \<and>
     ledger_of sample_pool fmempty \<noteq> ledger_of p' (ls_allocations sample_leased)"
proof -
  obtain p where p: "pool_of sample_leased sample_key = Some p" "lp_sessions p = fmupd ''s'' sample_binding fmempty"
    by (rule sample_leased_state)
  have "fmlookup (lg_bound (ledger_of sample_pool fmempty)) ''s'' \<noteq> fmlookup (lg_bound (ledger_of p (ls_allocations sample_leased))) ''s''"
    using p(2) by (simp add: sample_pool_def)
  then have "ledger_of sample_pool fmempty \<noteq> ledger_of p (ls_allocations sample_leased)" by metis
  moreover have "pool_of sample_booted sample_key = Some sample_pool" by (simp add: pool_of_def sample_booted_state)
  ultimately show ?thesis
    using p lite_refines_ledger [OF sample_booted_run _ mv_step [OF sample_lease_step] _ p(1), of sample_pool] sample_booted_state(3)
    by auto
qed

section \<open>Outcomes of an acquire\<close>

definition eligible :: "LiteRequest \<Rightarrow> LiteInstance \<Rightarrow> bool" where
  "eligible req slot \<longleftrightarrow> schedulable slot \<and> \<not> li_Reclaiming slot \<and>
     li_SessionCtxID slot = rq_SessionCtxID req \<and> has_room (rq_Concurrency req) slot"

lemma tryDispatch_outcome:
  assumes pp: "pool_at s pp = Some p" and ord: "range_order (ev_instances env)"
    and nonneg: "\<And>i slot. fmlookup (lp_instances p) i = Some slot \<Longrightarrow> 0 \<le> li_InUse slot"
    and pos: "0 < rq_Concurrency req" and res: "tryDispatchLocked env pp req s = (s', r)"
  obtains (none) d' where "r = None" "s' = put_pool pp (p\<lparr>lp_dispatcher := d'\<rparr>) s"
      "\<not> (\<exists>i slot. fmlookup (lp_instances p) i = Some slot \<and> eligible req slot)"
  | (some) slot i q resp where "r = Some resp" "fmlookup (lp_instances p) i = Some slot" "eligible req slot"
      "\<exists>d'. q = p\<lparr>lp_dispatcher := d'\<rparr>" "assignInstance env pp q req slot None s = (s', resp)"
proof -
  let ?slots = "candidateSlotsLocked (ev_instances env) p (rq_SessionCtxID req) (rq_Concurrency req)"
  obtain ch d' where sel: "dispatcher_Select (lp_dispatcher p) ?slots (rq_Concurrency req) = (ch, d')"
    by (cases "dispatcher_Select (lp_dispatcher p) ?slots (rq_Concurrency req)")
  show ?thesis
  proof (cases ch)
    case None
    show ?thesis
    proof (rule none)
      show "r = None" "s' = put_pool pp (p\<lparr>lp_dispatcher := d'\<rparr>) s"
        using res pp sel None by (auto simp: tryDispatchLocked_def Let_def)
      show "\<not> (\<exists>i slot. fmlookup (lp_instances p) i = Some slot \<and> eligible req slot)"
      proof
        assume "\<exists>i slot. fmlookup (lp_instances p) i = Some slot \<and> eligible req slot"
        then obtain i slot where i: "fmlookup (lp_instances p) i = Some slot" "eligible req slot" by blast
        then have "slot \<in> set ?slots"
          using candidateSlots_complete [OF ord i(1)] by (simp add: eligible_def)
        with i show False
          using dispatch.select_complete [of "lp_dispatcher p" ?slots "rq_Concurrency req" slot] sel None nonneg [OF i(1)] pos
          by (simp add: eligible_def)
      qed
    qed
  next
    case (Some slot)
    obtain resp where a: "assignInstance env pp (p\<lparr>lp_dispatcher := d'\<rparr>) req slot None s = (s', resp)" "r = Some resp"
      using res pp sel Some by (auto simp: tryDispatchLocked_def Let_def split: prod.splits)
    have "slot \<in> set ?slots"
      using dispatch.select_sound [of "lp_dispatcher p" ?slots "rq_Concurrency req" slot] sel Some by simp
    from candidateSlots_sound [OF ord this] obtain i where "fmlookup (lp_instances p) i = Some slot" "eligible req slot"
      by (auto simp: eligible_def)
    then show ?thesis by (rule some [OF a(2) _ _ _ a(1)]) blast
  qed
qed

text \<open>The three ways phase 3 of an acquire ends in an accounted state.\<close>

definition fresh_room :: "LiteRequest \<Rightarrow> LiteInstance \<Rightarrow> bool" where
  "fresh_room req slot \<longleftrightarrow> schedulable slot \<and> li_SessionCtxID slot = rq_SessionCtxID req \<and>
     has_room (rq_Concurrency req) slot"

lemma recovery_outcome:
  assumes pp: "pool_at s pp = Some p" and slots: "slots_ok p"
    and res: "tryStoreRecoveryLocked env pp req storeRec s = (t, Some resp)"
  obtains slot where "fmlookup (lp_instances p) (li_InstanceID slot) = Some slot" "fresh_room req slot"
    "assignInstance env pp p req slot None s = (t, resp)"
proof -
  obtain rec where rec: "storeRec = Some rec" "sr_InstanceID rec \<noteq> []"
    using res pp by (auto simp: tryStoreRecoveryLocked_def split: option.splits if_splits)
  obtain slot where slot: "fmlookup (lp_instances p) (sr_InstanceID rec) = Some slot"
    using res pp rec by (auto simp: tryStoreRecoveryLocked_def Let_def split: option.splits)
  then have "fresh_room req slot" "assignInstance env pp p req slot None s = (t, resp)"
    using res pp rec
    by (auto simp: tryStoreRecoveryLocked_def Let_def fresh_room_def schedulable_def has_room_def split: if_splits prod.splits)
  moreover have "li_InstanceID slot = sr_InstanceID rec" using slots slot by (simp add: slots_ok_def)
  ultimately show ?thesis using slot that [of slot] by metis
qed

lemma acquire_outcome:
  assumes inv: "sched_inv s" and srv: "serves s pp p req" and env: "env_ok env"
    and res: "acquireDispatch env pp req rec s = (s', r)"
  obtains
    (full) b slot where "fmlookup (lp_sessions p) (rq_bindingKey req) = Some b"
      "fmlookup (lp_instances p) (sb_instanceID b) = Some slot" "\<not> 0 < sb_reserved b"
      "li_Capacity slot \<le> li_InUse slot" "s' = s" "r = Some (no_instance env req)"
  | (sticky) b b' slot q resp where "fmlookup (lp_sessions p) (rq_bindingKey req) = Some b"
      "fmlookup (lp_instances p) (sb_instanceID b) = Some slot" "li_InstanceID slot = sb_instanceID b"
      "0 < sb_reserved b \<or> li_InUse slot < li_Capacity slot" "binding_view b' = binding_view b"
      "lp_instances q = lp_instances p" "assignInstance env pp q req slot (Some b') s = (s', resp)" "r = Some resp"
  | (fresh) slot q resp t where "fmlookup (lp_sessions p) (rq_bindingKey req) = None"
      "fmlookup (lp_instances p) (li_InstanceID slot) = Some slot" "fresh_room req slot"
      "lp_instances q = lp_instances p" "assignInstance env pp q req slot None t = (s', resp)" "r = Some resp"
  | (none) q where "fmlookup (lp_sessions p) (rq_bindingKey req) = None"
      "\<not> (\<exists>i slot. fmlookup (lp_instances p) i = Some slot \<and> eligible req slot)"
      "lp_instances q = lp_instances p" "pool_at s' pp = Some q" "r = None"
proof -
  note pp = serves_D(1,2) [OF srv] and rq = serves_D(3) [OF srv]
  obtain led: "slots_ok p" "ledger_ok (ledger_of p (ls_allocations s))"
    using sched_inv_pool [OF inv pp(1)] pp(2) by (metis option.inject)
  have nonneg: "0 \<le> li_InUse slot" if "fmlookup (lp_instances p) i = Some slot" for i slot
    using ledger_used_nonneg [OF led(2), of i] that by simp
  have pos: "0 < rq_Concurrency req" using rq by (simp add: req_ok_def)
  show ?thesis
  proof (rule tryLocalSticky_cases [OF inv pp, of req env])
    fix b slot b' t resp
    assume a: "fmlookup (lp_sessions p) (rq_bindingKey req) = Some b"
      "fmlookup (lp_instances p) (sb_instanceID b) = Some slot" "li_InstanceID slot = sb_instanceID b"
      "0 < sb_reserved b \<or> li_InUse slot < li_Capacity slot" "binding_view b' = binding_view b"
      "assignInstance env pp (cancelSessionUnbind (rq_bindingKey req) p) req slot (Some b') s = (t, resp)"
      "tryLocalSticky env pp req s = (t, Some resp)"
    then have "t = s'" "r = Some resp" using res by (simp_all add: acquireDispatch_def)
    with a show ?thesis by (intro sticky) auto
  next
    fix b slot
    assume "fmlookup (lp_sessions p) (rq_bindingKey req) = Some b" "\<not> 0 < sb_reserved b"
      "fmlookup (lp_instances p) (sb_instanceID b) = Some slot" "\<not> li_InUse slot < li_Capacity slot"
      "tryLocalSticky env pp req s = (s, Some (no_instance env req))"
    with res show ?thesis by (intro full) (auto simp: acquireDispatch_def)
  next
    assume un: "fmlookup (lp_sessions p) (rq_bindingKey req) = None" "tryLocalSticky env pp req s = (s, None)"
    obtain t rr where rec: "tryStoreRecoveryLocked env pp req rec s = (t, rr)" by fastforce
    show ?thesis
    proof (cases rr)
      case (Some resp)
      obtain slot where "fmlookup (lp_instances p) (li_InstanceID slot) = Some slot" "fresh_room req slot"
        "assignInstance env pp p req slot None s = (t, resp)"
        using recovery_outcome [OF pp(2) led(1)] rec Some by metis
      moreover have "t = s'" "r = Some resp" using res un(2) rec Some by (simp_all add: acquireDispatch_def)
      ultimately show ?thesis using un by (intro fresh) auto
    next
      case None
      then obtain st where t: "t = put_pool pp (p\<lparr>lp_sessionStore := st\<rparr>) s"
        using tryStoreRecovery_accounted [OF inv pp rq un(1) rec] by blast
      have d: "tryDispatchLocked env pp req t = (s', r)" using res un(2) rec None by (simp add: acquireDispatch_def)
      have at: "pool_at t pp = Some (p\<lparr>lp_sessionStore := st\<rparr>)" by (simp add: t)
      show ?thesis
      proof (rule tryDispatch_outcome [OF at env_okD(1) [OF env] _ pos d])
        show "0 \<le> li_InUse slot" if "fmlookup (lp_instances (p\<lparr>lp_sessionStore := st\<rparr>)) i = Some slot" for i slot
          using that nonneg by simp
      next
        fix d'
        assume "r = None" "s' = put_pool pp (p\<lparr>lp_sessionStore := st, lp_dispatcher := d'\<rparr>) t"
          "\<not> (\<exists>i slot. fmlookup (lp_instances (p\<lparr>lp_sessionStore := st\<rparr>)) i = Some slot \<and> eligible req slot)"
        then show ?thesis using un by (intro none) auto
      next
        fix slot i q resp
        assume "r = Some resp" "fmlookup (lp_instances (p\<lparr>lp_sessionStore := st\<rparr>)) i = Some slot" "eligible req slot"
          "\<exists>d'. q = p\<lparr>lp_sessionStore := st, lp_dispatcher := d'\<rparr>" "assignInstance env pp q req slot None t = (s', resp)"
        then show ?thesis using un led(1)
          by (intro fresh [of slot q t resp]) (auto simp: slots_ok_def fresh_room_def eligible_def)
      qed
    qed
  qed
qed

text \<open>What an assignment does to the slots of the pool.\<close>

definition granted_units :: "LiteRequest \<Rightarrow> sessionBinding option \<Rightarrow> int" where
  "granted_units req binding =
     (case binding of
        Some b \<Rightarrow> if 0 < sb_reserved b then 0 else 1
      | None \<Rightarrow> if rq_SessionID req \<noteq> [] then rq_Concurrency req else 1)"

lemma assign_slots:
  assumes res: "assignInstance env pp q req slot binding t = (s', resp)"
    and slot: "fmlookup (lp_instances q) (li_InstanceID slot) = Some slot" and at: "pool_at s' pp = Some p'"
  shows "fmlookup (lp_instances p') i =
    (if i = li_InstanceID slot then Some (slot\<lparr>li_InUse := li_InUse slot + granted_units req binding\<rparr>)
     else fmlookup (lp_instances q) i)"
proof -
  have "p' = applySlotBinding req slot binding (q\<lparr>lp_seqCounter := lp_seqCounter q + 1\<rparr>)"
    using at assignInstance_state(3) [OF res] by (simp add: pool_at_def)
  with slot show ?thesis
    by (auto simp: applySlotBinding_def granted_units_def bindSessionStickyTakeLocked_def bindSessionFreshLocked_def Let_def
        split: option.splits)
qed

lemma assign_within:
  assumes "assignInstance env pp q req slot binding t = (s', resp)"
    and "fmlookup (lp_instances q) (li_InstanceID slot) = Some slot" and "pool_at s' pp = Some p'"
    and "fmlookup (lp_instances p') i = Some slot'"
    and "0 \<le> granted_units req binding"
    and "granted_units req binding = 0 \<or> li_InUse slot + granted_units req binding \<le> li_Capacity slot"
  shows "\<exists>old. fmlookup (lp_instances q) i = Some old \<and> li_Capacity slot' = li_Capacity old \<and>
    li_InUse old \<le> li_InUse slot' \<and> (li_InUse slot' = li_InUse old \<or> li_InUse slot' \<le> li_Capacity slot')"
proof (cases "i = li_InstanceID slot")
  case True
  then have "slot' = slot\<lparr>li_InUse := li_InUse slot + granted_units req binding\<rparr>"
    using assign_slots [OF assms(1-3), of i] assms(4) by simp
  with True assms(2,5,6) show ?thesis by auto
next
  case False
  then have "fmlookup (lp_instances q) i = Some slot'" using assign_slots [OF assms(1-3), of i] assms(4) by simp
  then show ?thesis by simp
qed

text \<open>
  C4: An acquire never oversells an instance. Whatever phase 3 of an acquire does, every slot of the
  pool keeps its capacity and either its used units, or gains units only up to its capacity.
\<close>

theorem acquire_within_capacity:
  assumes "lite_reach s" and "env_ok env" and "serves s pp p req"
    and "acquireDispatch env pp req rec s = (s', r)" and "pool_at s' pp = Some p'"
    and "fmlookup (lp_instances p') i = Some slot'"
  shows "\<exists>slot. fmlookup (lp_instances p) i = Some slot \<and> li_Capacity slot' = li_Capacity slot \<and>
    li_InUse slot \<le> li_InUse slot' \<and> (li_InUse slot' = li_InUse slot \<or> li_InUse slot' \<le> li_Capacity slot')"
  using lite_reach_inv [OF assms(1)] assms(3,2,4)
proof (cases rule: acquire_outcome)
  case (full b slot)
  then show ?thesis using assms(5,6) serves_D(2) [OF assms(3)] by auto
next
  case (none q)
  then show ?thesis using assms(5,6) by auto
next
  case (sticky b b' slot q resp)
  have "sb_reserved b' = sb_reserved b" using sticky(5) by (simp add: binding_view_def)
  then have "granted_units req (Some b') = 0 \<or> li_InUse slot + granted_units req (Some b') \<le> li_Capacity slot"
    "0 \<le> granted_units req (Some b')" using sticky(4) by (auto simp: granted_units_def)
  then show ?thesis
    using assign_within [OF sticky(7) _ assms(5,6)] sticky(2,3,6) by simp
next
  case (fresh slot q resp t)
  have "1 \<le> rq_Concurrency req" using serves_D(3) [OF assms(3)] by (simp add: req_ok_def)
  then have "li_InUse slot + granted_units req None \<le> li_Capacity slot" "0 \<le> granted_units req None"
    using fresh(3) by (auto simp: granted_units_def fresh_room_def has_room_def)
  then show ?thesis using assign_within [OF fresh(5) _ assms(5,6)] fresh(2,4) by simp
qed

theorem acquire_within_capacity_witness:
  "\<exists>p'. pool_at sample_leased 0 = Some p' \<and> fmlookup (lp_instances p') ''i1'' = Some (sample_slot_i1 2) \<and>
     (\<exists>slot. fmlookup (lp_instances sample_pool) ''i1'' = Some slot \<and> (2 = li_InUse slot \<or> 2 \<le> li_Capacity (sample_slot_i1 2)))"
proof -
  obtain p where p: "pool_at sample_leased 0 = Some p" "lp_instances p = fmupd ''i1'' (sample_slot_i1 2) fmempty"
    by (rule sample_leased_state)
  obtain r where r: "acquireDispatch sample_env 0 (sample_req ''s'' 2) None sample_booted = (sample_leased, r)"
    by (metis sample_leased_def prod.collapse)
  have srv: "serves sample_booted 0 sample_pool (sample_req ''s'' 2)" by (rule sample_serves) simp_all
  show ?thesis
    using p acquire_within_capacity [OF sample_booted_reach sample_env_ok srv r p(1), of "''i1''" "sample_slot_i1 2"]
    by (auto simp: sample_slot_i1_def)
qed

text \<open>
  C5: Session affinity of the dispatch phase. When the session of an acquire is bound to an instance at
  the moment the acquire is dispatched (and its allocation ID is not in use), the dispatch either hands
  out a unit on that very instance or is refused because the session has no reserve and the instance is
  full; it never moves the session to another instance and never goes on to the waiting phase. The polls
  of an acquire that waits do not look for a binding: \<open>poll_overwrites_binding\<close>.
\<close>

theorem session_affinity:
  assumes "lite_reach s" and "env_ok env" and "serves s pp p req"
    and "fmlookup (lp_sessions p) (rq_bindingKey req) = Some b"
    and "acquireDispatch env pp req rec s = (s', r)"
  shows "\<exists>resp slot. r = Some resp \<and> fmlookup (lp_instances p) (sb_instanceID b) = Some slot \<and>
    (granted resp \<and> ir_InstanceID resp = sb_instanceID b \<or>
     resp = no_instance env req \<and> s' = s \<and> sb_reserved b = 0 \<and> li_Capacity slot \<le> li_InUse slot)"
  using lite_reach_inv [OF assms(1)] assms(3,2,5)
proof (cases rule: acquire_outcome)
  case (full b' slot)
  have "pool_of s (rq_FuncKey req) = Some p" using serves_D(1,2) [OF assms(3)] by (simp add: pool_of_def)
  then have "0 \<le> sb_reserved b"
    using bound_okD(2) [OF reach_pool(3) [OF assms(1)], of "rq_FuncKey req" p] assms(4) by (force simp: binding_view_def)
  with full assms(4) show ?thesis by auto
next
  case (sticky b0 b' slot q resp)
  then have "granted resp" "ir_InstanceID resp = sb_instanceID b" using assignInstance_state(8,9) [OF sticky(7)] assms(4) by simp_all
  with sticky assms(4) show ?thesis by simp
next
  case (fresh slot q resp t)
  with assms(4) show ?thesis by simp
next
  case (none q)
  with assms(4) show ?thesis by simp
qed

theorem session_affinity_witness:
  "\<exists>p resp. pool_at sample_leased 0 = Some p \<and> fmlookup (lp_sessions p) ''s'' = Some sample_binding \<and>
     snd (acquireDispatch sample_env 0 (sample_req ''s'' 2) None sample_leased) = Some resp \<and>
     granted resp \<and> ir_InstanceID resp = ''i1''"
proof -
  obtain p where p: "pool_at sample_leased 0 = Some p" "lp_sessions p = fmupd ''s'' sample_binding fmempty"
    "serves sample_leased 0 p (sample_req ''s'' 2)" by (rule sample_leased_state)
  obtain s' r where r: "acquireDispatch sample_env 0 (sample_req ''s'' 2) None sample_leased = (s', r)" by fastforce
  show ?thesis
    using p r session_affinity [OF sample_leased_reach sample_env_ok p(3) _ r, of sample_binding]
    by (auto simp: sample_binding_def)
qed

text \<open>
  An acquire falls through to a cold start only when it has to: its session is not bound, and no
  instance of its session context that is schedulable and not being reclaimed has room for the
  requested concurrency.
\<close>

theorem cold_start_only_when_full:
  assumes "lite_reach s" and "env_ok env" and "serves s pp p req"
    and "acquireDispatch env pp req rec s = (s', None)"
  shows "fmlookup (lp_sessions p) (rq_bindingKey req) = None \<and>
    (\<forall>i slot. fmlookup (lp_instances p) i = Some slot \<longrightarrow> li_SessionCtxID slot = rq_SessionCtxID req \<longrightarrow>
       \<not> li_Reclaiming slot \<longrightarrow> schedulable slot \<longrightarrow> li_Capacity slot - li_InUse slot < rq_Concurrency req)"
  using lite_reach_inv [OF assms(1)] assms(3,2,4)
  by (cases rule: acquire_outcome) (auto simp: eligible_def has_room_def not_le)

theorem cold_start_only_when_full_witness:
  "snd (acquireDispatch sample_env 0 (sample_req ''s'' 5) None sample_booted) = None \<and>
   li_Capacity (sample_slot_i1 0) - li_InUse (sample_slot_i1 0) < 5"
proof -
  have srv: "serves sample_booted 0 sample_pool (sample_req ''s'' 5)" by (rule sample_serves) simp_all
  obtain s' r where r: "acquireDispatch sample_env 0 (sample_req ''s'' 5) None sample_booted = (s', r)" by fastforce
  have "dispatcher_Select (lp_dispatcher sample_pool)
      (candidateSlotsLocked (ev_instances sample_env) sample_pool [] 5) 5 = (None, concurrencyDispatcher)"
    by (simp add: sample_pool_def candidateSlotsLocked_def sample_slot_i1_def concurrency_Select_def)
  moreover have "tryLocalSticky sample_env 0 (sample_req ''s'' 5) sample_booted = (sample_booted, None)"
    using sample_booted_state put_pool_same by (simp add: tryLocalSticky_def tryLocalStickyLocked_def sample_pool_def)
  ultimately have "r = None" using r sample_booted_state
    by (simp add: acquireDispatch_def tryStoreRecoveryLocked_def tryDispatchLocked_def Let_def)
  with cold_start_only_when_full [OF sample_booted_reach sample_env_ok srv] r
  show ?thesis by (auto simp: sample_pool_def sample_slot_i1_def schedulable_def)
qed




section \<open>Giving units back\<close>

lemma session_of_alloc:
  assumes "lite_reach s" "fmlookup (ls_allocations s) x = Some a" "al_SessionID a \<noteq> []"
  obtains pp p slot b where "getPool s (al_FuncKey a) = Some pp" "pool_at s pp = Some p"
    "fmlookup (lp_instances p) (al_InstanceID a) = Some slot"
    "fmlookup (lp_sessions p) (sessionBindingKey p (al_SessionID a) (al_SessionCtxID a)) = Some b"
    "sb_instanceID b = al_InstanceID a" "1 \<le> sb_activeAllocs b"
proof -
  have inv: "sched_inv s" by (rule lite_reach_inv [OF assms(1)])
  obtain pp p slot where p: "getPool s (al_FuncKey a) = Some pp" "pool_at s pp = Some p" "lp_funcKey p = al_FuncKey a"
    "fmlookup (lp_instances p) (al_InstanceID a) = Some slot" using live_alloc [OF inv assms(2)] by metis
  have led: "ledger_ok (ledger_of p (ls_allocations s))"
    using sched_inv_pool [OF inv p(1)] p(2) by (metis option.inject)
  let ?k = "sessionBindingKey p (al_SessionID a) (al_SessionCtxID a)"
  have out: "fmlookup (lg_out (ledger_of p (ls_allocations s))) x = Some (al_InstanceID a, Some ?k)"
    using assms(2,3) p(3) by (simp add: lookup_pool_allocs alloc_view_def)
  then obtain b where b: "fmlookup (lp_sessions p) ?k = Some b" "sb_instanceID b = al_InstanceID a"
    using out_okD(2) [OF led out refl] by (auto simp: binding_view_def)
  then have "sb_activeAllocs b = session_units (ledger_of p (ls_allocations s)) ?k"
    using bound_okD(4) [OF led, of ?k] by (simp add: binding_view_def)
  with session_units_pos [OF out] p b that show ?thesis by simp
qed

text \<open>The binding a release leaves behind; the idle timer is armed with the last unit.\<close>

definition released_binding :: "LiteScheduler \<Rightarrow> sessionBinding \<Rightarrow> sessionBinding" where
  "released_binding s b =
     (let b1 = b\<lparr>sb_activeAllocs := sb_activeAllocs b - 1, sb_reserved := sb_reserved b + 1\<rparr>
      in if sb_activeAllocs b1 > 0 \<or> sb_expiring b1 then b1
         else b1\<lparr>sb_expiring := True, sb_timer := Some (ls_nextTimer s)\<rparr>)"

lemma release_session_pool:
  assumes "getPool s (al_FuncKey a) = Some pp" "pool_at s pp = Some p"
    "fmlookup (lp_instances p) (al_InstanceID a) = Some slot"
    "k = sessionBindingKey p (al_SessionID a) (al_SessionCtxID a)" "fmlookup (lp_sessions p) k = Some b"
    "1 \<le> sb_activeAllocs b" "al_SessionID a \<noteq> []" "releaseInPool a s = (s', rest)"
  shows "\<exists>p'. pool_at s' pp = Some p' \<and> lp_instances p' = lp_instances p \<and>
    lp_sessions p' = fmupd k (released_binding s b) (lp_sessions p) \<and> ls_allocations s' = ls_allocations s"
  using assms
  by (auto simp: releaseInPool_def releaseSlotLocked_def unbindSessionOnRelease_def release_unit_def Let_def
      startSessionUnbindTimer_def released_binding_def stopTimer_def pool_at_def put_pool_def split: if_splits)

lemma release_effect:
  assumes "lite_reach s" and "fmlookup (ls_allocations s) x = Some a" and "al_SessionID a \<noteq> []"
    and "handleRelease env x req s = (s', r)"
  shows "granted r \<and> ls_allocations s' = fmdrop x (ls_allocations s) \<and>
    (\<exists>pp p p' b. getPool s (al_FuncKey a) = Some pp \<and> pool_at s pp = Some p \<and> pool_at s' pp = Some p' \<and>
       lp_instances p' = lp_instances p \<and>
       fmlookup (lp_sessions p) (sessionBindingKey p (al_SessionID a) (al_SessionCtxID a)) = Some b \<and>
       lp_sessions p' = fmupd (sessionBindingKey p (al_SessionID a) (al_SessionCtxID a)) (released_binding s b) (lp_sessions p) \<and>
       held (released_binding s b) = held b \<and>
       (sb_activeAllocs (released_binding s b) = 0 \<longrightarrow> sb_expiring (released_binding s b))) \<and>
    handleRelease env x req s' = (s', liteErrResp env InstanceNotFoundErrCode InstanceNotFoundErrMsg (rq_startTime req))"
proof -
  obtain pp p slot b where p: "getPool s (al_FuncKey a) = Some pp" "pool_at s pp = Some p"
    "fmlookup (lp_instances p) (al_InstanceID a) = Some slot"
    "fmlookup (lp_sessions p) (sessionBindingKey p (al_SessionID a) (al_SessionCtxID a)) = Some b"
    "sb_instanceID b = al_InstanceID a" "1 \<le> sb_activeAllocs b"
    by (rule session_of_alloc [OF assms(1-3)])
  define s1 where "s1 = removeExpiryTask x (s\<lparr>ls_allocations := fmdrop x (ls_allocations s)\<rparr>)"
  obtain s2 sl pl where rel: "releaseInPool a s1 = (s2, sl, pl)" by (metis prod_cases3)
  obtain m where s': "s' = count_metric m s2" and r: "r = liteSuccessResp env sl (al_AllocationID a) (al_FuncKey a) (rq_startTime req)"
    using assms(2,4) rel by (auto simp: handleRelease_def Let_def s1_def)
  have "released_binding s1 b = released_binding s b"
    by (simp add: released_binding_def s1_def removeExpiryTask_def Let_def)
  then obtain p' where p': "pool_at s2 pp = Some p'" "lp_instances p' = lp_instances p"
      "lp_sessions p' = fmupd (sessionBindingKey p (al_SessionID a) (al_SessionCtxID a)) (released_binding s b) (lp_sessions p)"
      "ls_allocations s2 = ls_allocations s1"
    using release_session_pool [OF _ _ p(3) refl p(4,6) assms(3) rel] p(1,2) by (auto simp: s1_def)
  have "granted r" by (simp add: r liteSuccessResp_def liteErrResp_def Let_def split: option.split)
  moreover have al: "ls_allocations s' = fmdrop x (ls_allocations s)" using s' p'(4) by (simp add: s1_def)
  moreover have "held (released_binding s b) = held b \<and>
      (sb_activeAllocs (released_binding s b) = 0 \<longrightarrow> sb_expiring (released_binding s b))"
    using p(6) by (auto simp: released_binding_def held_def Let_def)
  moreover have "handleRelease env x req s' = (s', liteErrResp env InstanceNotFoundErrCode InstanceNotFoundErrMsg (rq_startTime req))"
    by (simp add: handleRelease_def al)
  ultimately show ?thesis using p p' s' by auto
qed



text \<open>
  When the idle timer of an expiring session fires, the session is unbound and exactly the units
  it held on its instance become free again; every other slot and session keeps what it has, and the
  used units stay non-negative.
\<close>

theorem idle_unbind_frees:
  assumes "lite_reach s" and "pool_of s fk = Some p" and "getPool s fk = Some pp"
    and "fmlookup (lp_sessions p) k = Some b" and "sb_expiring b" and "sb_activeAllocs b = 0"
    and "sb_timer b = Some t" and "s' = fireSessionUnbind pp k (sb_ptr b) t s"
  shows "\<exists>p' slot. pool_of s' fk = Some p' \<and> lp_sessions p' = fmdrop k (lp_sessions p) \<and>
    fmlookup (lp_instances p) (sb_instanceID b) = Some slot \<and> held b \<le> li_InUse slot \<and>
    fmlookup (lp_instances p') (sb_instanceID b) = Some (slot\<lparr>li_InUse := li_InUse slot - held b\<rparr>) \<and>
    (\<forall>i. i = sb_instanceID b \<or> fmlookup (lp_instances p') i = fmlookup (lp_instances p) i) \<and>
    ls_allocations s' = ls_allocations s"
proof -
  note ok = reach_pool [OF assms(1,2)]
  have at: "pool_at s pp = Some p" using assms(2,3) by (simp add: pool_of_def)
  obtain slot where slot: "fmlookup (lp_instances p) (sb_instanceID b) = Some slot"
    using bound_slot [OF ok(3,2) assms(4)] by metis
  have bd: "fmlookup (lg_bound (ledger_of p (ls_allocations s))) k = Some (sb_instanceID b, sb_reserved b, sb_activeAllocs b)"
    using assms(4) by (simp add: binding_view_def)
  have le: "held b \<le> li_InUse slot" and pos: "1 \<le> held b"
    using ledger_held_le [OF ok(3) bd, of "li_InUse slot"] bound_okD(3) [OF ok(3) bd] slot by (simp_all add: held_def)
  have s': "s' = put_pool pp (removeSessionBinding k p) s"
    using assms at by (simp add: fireSessionUnbind_def)
  then have "pool_of s' fk = Some (removeSessionBinding k p)" "ls_allocations s' = ls_allocations s"
    using assms(3) by (simp_all add: pool_of_def)
  moreover have "fmlookup (lp_instances (removeSessionBinding k p)) i =
      (if i = sb_instanceID b then Some (slot\<lparr>li_InUse := li_InUse slot - held b\<rparr>) else fmlookup (lp_instances p) i)" for i
    using assms(4) slot le pos by (simp add: removeSessionBinding_def processInstanceInUse_def held_def)
  ultimately show ?thesis using slot le by (intro exI [of _ "removeSessionBinding k p"] exI [of _ slot]) simp
qed

section \<open>Instances and pools that go away\<close>

text \<open>
  C18: When an instance is removed, its slot, every session bound to it and every allocation of the
  function on it are gone; the other slots of the pool and the other allocations are untouched.
\<close>

theorem instance_removal_purges:
  assumes "lite_reach s" and "env_ok env" and "getPool s fk = Some pp"
    and "s' = removeInstanceLocked env pp i s"
  shows "\<exists>p p'. pool_at s pp = Some p \<and> pool_at s' pp = Some p' \<and>
    lp_instances p' = fmdrop i (lp_instances p) \<and>
    lp_sessions p' = fmreject (\<lambda>_ b. sb_instanceID b = i) (lp_sessions p) \<and>
    ls_allocations s' = fmreject (\<lambda>_ a. al_InstanceID a = i \<and> al_FuncKey a = fk) (ls_allocations s)"
proof -
  have inv: "sched_inv s" by (rule lite_reach_inv [OF assms(1)])
  note ord = env_okD [OF assms(2)]
  obtain p where p: "pool_at s pp = Some p" "lp_funcKey p = fk" using sched_inv_pool [OF inv assms(3)] by metis
  define p1 where "p1 = p\<lparr>lp_instances := fmdrop i (lp_instances p)\<rparr>"
  define ks where "ks = filter (\<lambda>sid. case fmlookup (lp_sessions p1) sid of None \<Rightarrow> False | Some b \<Rightarrow> sb_instanceID b = i)
    (ev_sessions env (lp_sessions p1))"
  define p2 where "p2 = fold removeSessionBinding ks p1"
  have ks: "k \<in> set ks \<longleftrightarrow> (\<exists>b. fmlookup (lp_sessions p) k = Some b \<and> sb_instanceID b = i)" for k
    using range_orderD(2) [OF ord(2)] by (auto simp: ks_def p1_def fmlookup_dom'_iff split: option.splits)
  have p2: "lp_instances p2 = fmdrop i (lp_instances p)"
    "\<And>k. fmlookup (lp_sessions p2) k = (if k \<in> set ks then None else fmlookup (lp_sessions p) k)"
    using fold_removeSession [of p1 i ks] ks by (auto simp: p1_def p2_def)
  have s': "s' = drop_allocs
      (allocs_where env (\<lambda>a. al_InstanceID a = i \<and> al_FuncKey a = fk) (put_pool pp p2 s)) (put_pool pp p2 s)"
    using p assms(4) by (simp add: removeInstanceLocked_def Let_def p1_def ks_def p2_def)
  have "lp_sessions p2 = fmreject (\<lambda>_ b. sb_instanceID b = i) (lp_sessions p)"
    by (rule fmap_ext) (auto simp: p2 ks split: option.splits)
  moreover have "ls_allocations s' = fmreject (\<lambda>_ a. al_InstanceID a = i \<and> al_FuncKey a = fk) (ls_allocations s)"
    by (simp add: s' dropped_allocs [OF ord(3)])
  moreover have "pool_at s' pp = Some p2" by (simp add: s' pool_at_def drop_allocs_state)
  ultimately show ?thesis using p p2(1) by blast
qed

theorem instance_removal_purges_witness:
  "\<exists>p'. pool_at (removeInstanceLocked sample_env 0 ''i1'' sample_leased) 0 = Some p' \<and>
     lp_instances p' = fmempty \<and> lp_sessions p' = fmempty \<and>
     ls_allocations (removeInstanceLocked sample_env 0 ''i1'' sample_leased) = fmempty"
proof -
  let ?a = "new_allocation sample_env (sample_req ''s'' 2) (sample_slot_i1 0) sample_id"
  obtain p where p: "getPool sample_leased sample_key = Some 0" "pool_at sample_leased 0 = Some p"
    "lp_instances p = fmupd ''i1'' (sample_slot_i1 2) fmempty" "lp_sessions p = fmupd ''s'' sample_binding fmempty"
    "ls_allocations sample_leased = fmupd sample_id ?a fmempty" by (rule sample_leased_state)
  have e: "fmdrop ''i1'' (lp_instances p) = fmempty" "fmreject (\<lambda>_ b. sb_instanceID b = ''i1'') (lp_sessions p) = fmempty"
    "fmreject (\<lambda>_ a. al_InstanceID a = ''i1'' \<and> al_FuncKey a = sample_key) (ls_allocations sample_leased) = fmempty"
    by (rule fmap_ext, simp add: p sample_binding_def sample_slot_i1_def)+
  from instance_removal_purges [OF sample_leased_reach sample_env_ok p(1) refl, of "''i1''"] p(2)
  show ?thesis by (auto simp: e)
qed

text \<open>
  C17: Deleting a function drops its pool, exactly its allocations and all its session bindings, and asks
  the store for a delete of the record of every session that was bound at that moment, after every write
  that was accepted before. When the delete of such a session succeeds (a failed one is only logged, and
  deletes of sessions unbound earlier may have been dropped on a full queue), no record of the session can
  be read back, whatever saves were still queued and whatever else failed.
\<close>

theorem pool_deletion_purges:
  assumes "lite_reach s" and "env_ok env" and "getPool s fk = Some pp" and "pool_at s pp = Some p"
    and "lp_sessionStore p = Some st" and "queue_reach (co_queue (ss_coord st))"
    and "s' = deletePool env fk s" and "kv_lawful kv" and "deletes_only_remove kv"
  shows "getPool s' fk = None \<and> ls_allocations s' = fmreject (\<lambda>_ a. al_FuncKey a = fk) (ls_allocations s) \<and>
    (\<exists>p' st' ids. pool_at s' pp = Some p' \<and> lp_sessions p' = fmempty \<and> lp_sessionStore p' = Some st' \<and>
       set ids = fmdom' (lp_sessions p) \<and>
       q_log (co_queue (ss_coord st')) = q_accepted (co_queue (ss_coord st)) @ map DeleteOp ids \<and>
       (\<forall>codec clock w rs w' k. store_run kv codec clock (co_store (ss_coord st')) (q_log (co_queue (ss_coord st'))) w = (rs, w') \<longrightarrow>
          (DeleteOp k, None) \<in> set (drop (length (q_accepted (co_queue (ss_coord st)))) rs) \<longrightarrow>
          no_record kv codec (co_store (ss_coord st')) w' k))"
proof -
  note ord = env_okD [OF assms(2)]
  let ?ids = "ev_sessions env (lp_sessions p)"
  obtain c' where c': "CleanRecords ?ids (co_Stop (Some (ss_coord st))) = Some c'"
    by (simp add: CleanRecords_def co_Stop_def)
  define p' where "p' = p\<lparr>lp_sessions := fmempty, lp_sessionStore := Some (st\<lparr>ss_coord := c'\<rparr>)\<rparr>"
  have store: "cleanExternalRecords ?ids (ss_stop (lp_sessionStore p)) = Some (st\<lparr>ss_coord := c'\<rparr>)"
    using c' assms(5) by (auto simp: cleanExternalRecords_def ss_stop_def co_Stop_def CleanRecords_def)
  define s1 where "s1 = put_pool pp p' (s\<lparr>ls_pools := fmdrop fk (ls_pools s)\<rparr>)"
  have s': "s' = drop_allocs (allocs_where env (\<lambda>a. al_FuncKey a = fk) s1) s1"
    using assms(3,4,7) by (simp add: deletePool_def Let_def store p'_def s1_def)
  have "getPool s' fk = None" by (simp add: s' getPool_def drop_allocs_state s1_def)
  moreover have "ls_allocations s' = fmreject (\<lambda>_ a. al_FuncKey a = fk) (ls_allocations s)"
    by (simp add: s' dropped_allocs [OF ord(3)] s1_def)
  moreover have "pool_at s' pp = Some p'" by (simp add: s' pool_at_def drop_allocs_state s1_def)
  moreover have "set ?ids = fmdom' (lp_sessions p)" by (rule range_orderD(2) [OF ord(2)])
  moreover note clean_after_stop(2) [OF assms(6) c'] cleaned_no_record [OF assms(6) c' assms(8,9)]
  ultimately show ?thesis
    by (intro conjI exI [of _ p'] exI [of _ "st\<lparr>ss_coord := c'\<rparr>"] exI [of _ ?ids]) (auto simp: p'_def)
qed

theorem pool_deletion_purges_witness:
  "getPool (deletePool sample_env sample_key sample_leased) sample_key = None \<and>
   (\<exists>p' st' rs w'. pool_at (deletePool sample_env sample_key sample_leased) 0 = Some p' \<and>
      lp_sessions p' = fmempty \<and> lp_sessionStore p' = Some st' \<and>
      store_run sample_kv sample_codec (\<lambda>_. 0) (co_store (ss_coord st')) (q_log (co_queue (ss_coord st'))) fmempty = (rs, w') \<and>
      (DeleteOp ''s'', None) \<in> set rs \<and> no_record sample_kv sample_codec (co_store (ss_coord st')) w' ''s'')"
proof -
  let ?run = "\<lambda>st' ops w. store_run sample_kv sample_codec (\<lambda>_. 0) (co_store (ss_coord st')) ops w"
  obtain p where p: "getPool sample_leased sample_key = Some 0" "pool_at sample_leased 0 = Some p"
    "lp_sessions p = fmupd ''s'' sample_binding fmempty"
    "\<exists>st. lp_sessionStore p = Some st \<and> queue_reach (co_queue (ss_coord st))" by (rule sample_leased_state)
  then obtain st where st: "lp_sessionStore p = Some st" "queue_reach (co_queue (ss_coord st))" by blast
  let ?acc = "q_accepted (co_queue (ss_coord st))"
  from pool_deletion_purges [OF sample_leased_reach sample_env_ok p(1,2) st refl sample_kv_laws]
  obtain p' st' ids where d: "getPool (deletePool sample_env sample_key sample_leased) sample_key = None"
    "pool_at (deletePool sample_env sample_key sample_leased) 0 = Some p'" "lp_sessions p' = fmempty"
    "lp_sessionStore p' = Some st'" "set ids = fmdom' (lp_sessions p)"
    "q_log (co_queue (ss_coord st')) = ?acc @ map DeleteOp ids"
    and gone: "\<forall>codec clock w rs w' k.
      store_run sample_kv codec clock (co_store (ss_coord st')) (q_log (co_queue (ss_coord st'))) w = (rs, w') \<longrightarrow>
      (DeleteOp k, None) \<in> set (drop (length ?acc) rs) \<longrightarrow> no_record sample_kv codec (co_store (ss_coord st')) w' k"
    by (elim conjE exE) (rule that)
  have ids: "set ids = {''s''}" using d(5) p(3) by simp
  obtain rs1 w1 where r1: "?run st' ?acc fmempty = (rs1, w1)" by fastforce
  have "[] \<notin> set ids" using ids by simp
  from sample_kv_deletes [OF this] obtain w2 where
    r2: "?run st' (map DeleteOp ids) w1 = (map (\<lambda>k. (DeleteOp k, None)) ids, w2)" by blast
  have r: "?run st' (q_log (co_queue (ss_coord st'))) fmempty = (rs1 @ map (\<lambda>k. (DeleteOp k, None)) ids, w2)"
    unfolding d(6) by (rule store_run_append [OF r1 r2])
  moreover have "no_record sample_kv sample_codec (co_store (ss_coord st')) w2 ''s''"
    by (rule gone [rule_format, OF r]) (simp add: store_run_length [OF r1] ids)
  ultimately show ?thesis using d(1-4) ids by auto
qed

theorem idle_unbind_frees_witness:
  "\<exists>s t p'. lite_reach s \<and> pool_of (fireSessionUnbind 0 ''s'' 0 t s) sample_key = Some p' \<and>
     fmlookup (lp_instances p') ''i1'' = Some (sample_slot_i1 0)"
proof -
  let ?a = "new_allocation sample_env (sample_req ''s'' 2) (sample_slot_i1 0) sample_id"
  let ?s = "fst (handleRelease sample_env sample_id blank_request sample_leased)"
  let ?b = "released_binding sample_leased sample_binding"
  obtain p where p: "ls_allocations sample_leased = fmupd sample_id ?a fmempty" "lp_funcSpec p = Some sample_spec"
    "getPool sample_leased sample_key = Some 0" "pool_at sample_leased 0 = Some p"
    "lp_instances p = fmupd ''i1'' (sample_slot_i1 2) fmempty" "lp_sessions p = fmupd ''s'' sample_binding fmempty"
    by (rule sample_leased_state)
  have a: "al_SessionID ?a \<noteq> []" "al_FuncKey ?a = sample_key" "sessionBindingKey p (al_SessionID ?a) (al_SessionCtxID ?a) = ''s''"
    using p(2) by (simp_all add: new_allocation_def sessionBindingKey_def sample_spec_def)
  obtain p' where p': "pool_at ?s 0 = Some p'" "lp_instances p' = lp_instances p" "lp_sessions p' = fmupd ''s'' ?b (lp_sessions p)"
    using release_effect [OF sample_leased_reach _ a(1) prod.collapse [symmetric], of sample_id sample_env blank_request] p a by auto
  have step: "lite_step sample_leased ?s" by (rule st_release [OF prod.collapse [symmetric]])
  then have reach: "lite_reach ?s" by (rule lr_step [OF sample_leased_reach])
  have "ls_pools ?s = ls_pools sample_leased"
    using handleRelease_accounted [OF lite_reach_inv [OF sample_leased_reach] prod.collapse [symmetric]] accountedD(2) by blast
  then have g: "getPool ?s sample_key = Some 0" "pool_of ?s sample_key = Some p'"
    using p(3) p'(1) by (simp_all add: getPool_def pool_of_def)
  have b: "sb_expiring ?b" "sb_activeAllocs ?b = 0" "sb_timer ?b = Some (ls_nextTimer sample_leased)" "sb_ptr ?b = 0"
    "sb_instanceID ?b = ''i1''" "held ?b = 2"
    by (simp_all add: released_binding_def sample_binding_def held_def)
  have "fmlookup (lp_sessions p') ''s'' = Some ?b" using p' by simp
  from idle_unbind_frees [OF reach g(2,1) this b(1-3) refl] b p'(2) p(5) reach
  show ?thesis by (auto simp: sample_slot_i1_def)
qed

end
