(* ===== verification/LiteRequests.thy ===== *)
theory LiteRequests
  imports LiteProps
begin

text \<open>
  Properties of the request entry points of the session scheduler (parsing, owner check, waiting,
  batch retain), of the idle scan, and of the places where the handlers leave the accounting.
\<close>

section \<open>Routing\<close>

text \<open>
  C13: Two schedulers that see the same ring never both serve an acquire: at least one of them answers
  with the non-owner code and leaves its state as it was.
\<close>

theorem acquire_single_scheduler:
  assumes "sp_reach sp1" and "sp_reach sp2" and "ring_members sp1 = ring_members sp2"
    and "ls_ownerProxy s1 = Some sp1" and "ls_ownerProxy s2 = Some sp2"
    and "GetSchedulerProxyName (ev_self env1) \<noteq> GetSchedulerProxyName (ev_self env2)"
    and "rq_Op req = ''acquire''" and "\<not> rq_NeedReverseLookup req"
  shows "(\<exists>e. lite_Process env1 st1 o1 ts1 req s1 = (s1, Some (SingleReply e)) \<and> ir_ErrorCode e = AcquireNonOwnerSchedulerErrorCode) \<or>
    (\<exists>e. lite_Process env2 st2 o2 ts2 req s2 = (s2, Some (SingleReply e)) \<and> ir_ErrorCode e = AcquireNonOwnerSchedulerErrorCode)"
proof -
  let ?key = "schedulerOwnerKey (rq_TenantID req) (rq_FuncKey req) (rq_SessionID req) (rq_SessionCtxID req)"
  have refuse: "\<exists>e. lite_Process env st ot ts req s = (s, Some (SingleReply e)) \<and> ir_ErrorCode e = AcquireNonOwnerSchedulerErrorCode"
    if "ls_ownerProxy s = Some sp" "\<not> snd (CheckHashOwner (ev_self env) sp ?key)" for env st ot ts s sp
    using that assms(7,8) by (cases "CheckHashOwner (ev_self env) sp ?key") (simp add: lite_Process_def Let_def liteErrResp_def)
  have inv: "sp_inv sp1" "sp_inv sp2" using assms(1,2) by (simp_all add: sp_reach_inv)
  have "\<not> (snd (CheckHashOwner (ev_self env1) sp1 ?key) \<and> snd (CheckHashOwner (ev_self env2) sp2 ?key))"
  proof
    assume both: "snd (CheckHashOwner (ev_self env1) sp1 ?key) \<and> snd (CheckHashOwner (ev_self env2) sp2 ?key)"
    have reach: "ring_reach (sp_loadBalance sp1)" "ring_reach (sp_loadBalance sp2)" using inv by (simp_all add: sp_inv_def)
    have "ch_Next (sp_loadBalance sp1) ?key = GetSchedulerProxyName (ev_self env1)"
      "ch_Next (sp_loadBalance sp2) ?key = GetSchedulerProxyName (ev_self env2)"
      using both inv by (simp_all add: CheckHashOwner_owned)
    from ring.single_owner [OF reach assms(3) this] assms(6) show False by simp
  qed
  with refuse [OF assms(4)] refuse [OF assms(5)] show ?thesis by blast
qed

theorem acquire_single_scheduler_witness:
  "\<exists>e. lite_Process (sample_env\<lparr>ev_self := sample_self ''s2''\<rparr>) (\<lambda>_. None) id [] (sample_req ''s'' 1) (lite_New (Some sample_proxy)) =
     (lite_New (Some sample_proxy), Some (SingleReply e)) \<and> ir_ErrorCode e = AcquireNonOwnerSchedulerErrorCode"
proof -
  have "\<not> (\<exists>e. lite_Process sample_env (\<lambda>_. None) id [] (sample_req ''s'' 1) (lite_New (Some sample_proxy)) =
     (lite_New (Some sample_proxy), Some (SingleReply e)) \<and> ir_ErrorCode e = AcquireNonOwnerSchedulerErrorCode)"
    by (auto simp: lite_Process_def Let_def sample_req_def blank_request_def lite_New_def sample_env_def
        sample_proxy_owner lite_dispatch_op_def handleAcquire_def checkHandleAcquireReq_def getPool_def liteErrResp_def)
  moreover have names: "GetSchedulerProxyName (ev_self sample_env) \<noteq>
      GetSchedulerProxyName (ev_self (sample_env\<lparr>ev_self := sample_self ''s2''\<rparr>))"
    by (simp add: GetSchedulerProxyName_def sample_self_def sample_env_def)
  moreover have proxy: "ls_ownerProxy (lite_New (Some sample_proxy)) = Some sample_proxy" by (simp add: lite_New_def)
  moreover have "rq_Op (sample_req ''s'' 1) = ''acquire''" "\<not> rq_NeedReverseLookup (sample_req ''s'' 1)"
    by (simp_all add: sample_req_def blank_request_def)
  ultimately show ?thesis
    using acquire_single_scheduler [OF sample_proxy_reach sample_proxy_reach refl proxy proxy names, of "sample_req ''s'' 1"]
    by blast
qed

text \<open>
  An acquire is taken over by the session scheduler exactly when the feature is on, the function
  is enabled, and the request names a session, or a session context of a function that supports it.
\<close>

theorem ParseRequest_acquire_iff:
  assumes "extractSessionDetails (ev_codec env) extra = (sid, ctx, ttl, conc)"
  shows "(\<exists>req. ParseRequest env specs ''acquire'' fk extra trace = Some req) \<longleftrightarrow>
    lc_Enable (ev_cfg env) \<and> isFuncEnabled (ev_cfg env) fk \<and>
    (sid \<noteq> [] \<or> ctx \<noteq> [] \<and> (\<exists>getter sp. specs = Some getter \<and> getter fk = Some sp \<and> fs_EnableSessionCtx sp))"
  using assms by (auto simp: ParseRequest_def Let_def split: option.splits)

text \<open>An environment whose decoders read every extra data as session \<^verbatim>\<open>s\<close> with two units.\<close>

definition sample_session_env :: liteEnv where
  "sample_session_env = sample_env\<lparr>ev_codec :=
     \<lparr>cd_extra = (\<lambda>_. Some (fmupd ''instanceSessionConfig'' ''c'' fmempty)),
      cd_session = (\<lambda>_. Some \<lparr>isc_SessionID = ''s'', isc_SessionTTL = 0, isc_Concurrency = 2\<rparr>),
      cd_metrics = (\<lambda>_. None), cd_batch = (\<lambda>_. fmempty)\<rparr>\<rparr>"

lemma sample_session_details: "extractSessionDetails (ev_codec sample_session_env) ''x'' = (''s'', [], 0, 2)"
  by (simp add: extractSessionDetails_def sample_session_env_def)

theorem ParseRequest_acquire_iff_witness:
  "\<exists>req. ParseRequest sample_session_env None ''acquire'' sample_key ''x'' [] = Some req"
  using ParseRequest_acquire_iff [OF sample_session_details, of None sample_key "[]"]
  by (simp add: sample_session_env_def sample_env_def isFuncEnabled_def)

text \<open>
  A batch retain is taken over only when every lease in it is one of the session scheduler's;
  a batch of mixed leases goes to the legacy scheduler as a whole.
\<close>

theorem ParseRequest_batch_iff:
  "(\<exists>req. ParseRequest env specs ''batchRetain'' target extra trace = Some req) \<longleftrightarrow>
    lc_Enable (ev_cfg env) \<and> list_all IsLiteAllocationID (splitAll CHR '','' target)"
proof -
  have ne: "splitAll CHR '','' target \<noteq> []" by (induction target) (auto split: list.splits)
  have "length (filter IsLiteAllocationID xs) = length xs \<longleftrightarrow> list_all IsLiteAllocationID xs" for xs
    by (metis Ball_set filter_True filter_id_conv length_filter_less linorder_neq_iff)
  moreover have "list_all IsLiteAllocationID xs \<Longrightarrow> filter IsLiteAllocationID xs = xs" for xs
    by (simp add: list_all_iff filter_id_conv)
  ultimately show ?thesis using ne by (auto simp: ParseRequest_def Let_def)
qed

section \<open>Waiting\<close>

lemma wait_loop_returns:
  assumes "\<exists>t\<in>set ts. deadline < pt_now t"
  shows "\<exists>s' resp. wait_loop env deadline pp req ts s = (s', Some resp) \<and>
    (granted resp \<or> ir_ErrorCode resp = NoInstanceAvailableErrCode)"
  using assms
proof (induction ts arbitrary: s)
  case (Cons t ts)
  let ?env = "env\<lparr>ev_now := pt_now t\<rparr>"
  obtain s1 r where d: "tryPollDispatch ?env pp req s = (s1, r)" by fastforce
  show ?case
  proof (cases r)
    case (Some resp)
    then have "granted resp"
      using d by (auto simp: tryPollDispatch_def tryDispatchLocked_def assignInstance_def liteSuccessResp_def liteErrResp_def Let_def
          split: option.splits prod.splits)
    with d Some show ?thesis by simp
  next
    case None
    show ?thesis
    proof (cases "deadline < pt_now t \<or> pt_stop t")
      case True
      with d None show ?thesis by (auto simp: Let_def no_instance_def liteErrResp_def)
    next
      case False
      with Cons.prems have "\<exists>t\<in>set ts. deadline < pt_now t" by auto
      from Cons.IH [OF this] False d None show ?thesis by (simp add: Let_def)
    qed
  qed
qed simp

text \<open>
  C19: An acquire that waits for capacity always returns: as soon as the polls go past the configured
  wait timeout it has an answer, a grant or the no-instance error, whatever other requests do meanwhile.
\<close>

theorem waitForInstance_returns:
  assumes "\<exists>t\<in>set ticks. ev_now env + lc_AcquireWaitTimeoutMs (ev_cfg env) * millisecond < pt_now t"
  shows "\<exists>s' resp. waitForInstance env pp req ticks s = (s', Some resp) \<and>
    (granted resp \<or> ir_ErrorCode resp = NoInstanceAvailableErrCode)"
  using wait_loop_returns [OF assms] by (auto simp: waitForInstance_def Let_def no_instance_def liteErrResp_def)

theorem waitForInstance_returns_witness:
  "\<exists>s' resp. waitForInstance sample_env 0 (sample_req ''s'' 5)
       [\<lparr>pt_now = 1, pt_stop = False, pt_others = id\<rparr>, \<lparr>pt_now = 2 * second, pt_stop = False, pt_others = id\<rparr>] sample_booted =
     (s', Some resp) \<and> (granted resp \<or> ir_ErrorCode resp = NoInstanceAvailableErrCode)"
  by (rule waitForInstance_returns) (simp add: sample_env_def)

section \<open>Batch retain\<close>

lemma retain_others:
  assumes "handleRetainWithMetrics env y req m s = (s', r)" "x \<noteq> y"
  shows "fmlookup (ls_allocations s') x = fmlookup (ls_allocations s) x"
proof -
  have rp: "rp_allocID params = y" if "validateReacquireRequest env y req m s = Inr params" for params
    using that by (auto simp: validateReacquireRequest_def split: option.splits if_splits prod.splits)
  show ?thesis
    using assms rp
    by (auto simp: handleRetainWithMetrics_def validateRetainTarget_def refreshRetainTTL_def deleteAllocAndExpiry_def
        recordRetainSuccess_def reacquireAllocation_def Let_def split: option.splits if_splits prod.splits sum.splits)
qed

lemma retain_refusals:
  "validateReacquireRequest env y req m s = Inl resp \<Longrightarrow> \<not> granted resp"
  "checkConcurrencyLimit env req p c = Some resp \<Longrightarrow> \<not> granted resp"
  "checkReacquireSlotLocked env req p params = Inl resp \<Longrightarrow> \<not> granted resp"
  "validateRetainTarget env req y fk i s = (t, Inl resp) \<Longrightarrow> \<not> granted resp"
proof -
  have owner: "validateSessionAndOwner env req sid ctx ttl h fk s = Some resp \<Longrightarrow> \<not> granted resp" for sid ctx ttl h fk
    by (auto simp: validateSessionAndOwner_def liteErrResp_def split: if_splits option.splits prod.splits)
  show "validateReacquireRequest env y req m s = Inl resp \<Longrightarrow> \<not> granted resp"
    by (auto simp: validateReacquireRequest_def liteErrResp_def dest!: owner split: option.splits if_splits prod.splits)
  show "checkConcurrencyLimit env req p c = Some resp \<Longrightarrow> \<not> granted resp"
    by (auto simp: checkConcurrencyLimit_def liteErrResp_def Let_def split: if_splits)
  show "checkReacquireSlotLocked env req p params = Inl resp \<Longrightarrow> \<not> granted resp"
    by (auto simp: checkReacquireSlotLocked_def liteErrResp_def Let_def split: if_splits option.splits)
  show "validateRetainTarget env req y fk i s = (t, Inl resp) \<Longrightarrow> \<not> granted resp"
    by (auto simp: validateRetainTarget_def liteErrResp_def split: if_splits option.splits)
qed

lemma reacquire_grants:
  assumes "reacquireAllocation env y req m s = (s', r)" "granted r"
  shows "\<exists>a. fmlookup (ls_allocations s') y = Some a \<and> al_ExpireAt a = ev_now env + liteTTL (ev_cfg env)"
proof -
  have rp: "rp_allocID params = y" if "validateReacquireRequest env y req m s = Inr params" for params
    using that by (auto simp: validateReacquireRequest_def split: option.splits if_splits prod.splits)
  show ?thesis
  proof (cases "validateReacquireRequest env y req m s")
    case (Inl resp)
    with assms retain_refusals(1) show ?thesis by (auto simp: reacquireAllocation_def)
  next
    case (Inr params)
    show ?thesis
      using assms Inr rp [OF Inr] retain_refusals(2,3)
      by (auto simp: reacquireAllocation_def Let_def liteErrResp_def recordRetainSuccess_def reacquired_alloc_def
          split: option.splits sum.splits)
  qed
qed

lemma retain_grants:
  assumes "handleRetainWithMetrics env y req m s = (s', r)" "granted r"
  shows "\<exists>a. fmlookup (ls_allocations s') y = Some a \<and> al_ExpireAt a = ev_now env + liteTTL (ev_cfg env)"
proof (cases "fmlookup (ls_allocations s) y")
  case None
  with assms reacquire_grants show ?thesis by (simp add: handleRetainWithMetrics_def)
next
  case (Some a)
  then have off: "\<not> (rq_NeedReverseLookup req \<and> \<not> isFuncEnabled (ev_cfg env) (al_FuncKey a))"
    using assms by (auto simp: handleRetainWithMetrics_def liteErrResp_def split: if_splits)
  obtain t v where v: "validateRetainTarget env req y (al_FuncKey a) (al_InstanceID a) s = (t, v)" by fastforce
  obtain p slot where "v = Inr (p, slot)"
    using assms Some off v retain_refusals(4) by (cases v) (auto simp: handleRetainWithMetrics_def)
  moreover from this v have "t = s" by (auto simp: validateRetainTarget_def split: option.splits if_splits)
  ultimately show ?thesis
    using assms Some off v by (auto simp: handleRetainWithMetrics_def refreshRetainTTL_def recordRetainSuccess_def Let_def)
qed

definition lease_renewed :: "liteEnv \<Rightarrow> LiteScheduler \<Rightarrow> string \<Rightarrow> bool" where
  "lease_renewed env s x \<longleftrightarrow> (\<exists>a. fmlookup (ls_allocations s) x = Some a \<and>
     al_ExpireAt a = ev_now env + liteTTL (ev_cfg env))"

lemma batch_invariant:
  assumes "distinct ids" and "set ids \<inter> (fmdom' (br_Succeed resp) \<union> fmdom' (br_Failed resp)) = {}"
    and "fmdom' (br_Succeed resp) \<inter> fmdom' (br_Failed resp) = {}"
    and "\<forall>x\<in>fmdom' (br_Succeed resp). lease_renewed env s x"
    and "fold (batch_retain_one env req mb) ids (s, resp) = (s', resp')"
  shows "fmdom' (br_Succeed resp') \<union> fmdom' (br_Failed resp') = fmdom' (br_Succeed resp) \<union> fmdom' (br_Failed resp) \<union> set ids \<and>
    fmdom' (br_Succeed resp') \<inter> fmdom' (br_Failed resp') = {} \<and>
    (\<forall>x\<in>fmdom' (br_Succeed resp'). lease_renewed env s' x)"
  using assms
proof (induction ids arbitrary: s resp)
  case Nil
  then show ?case by simp
next
  case (Cons y ids)
  obtain t ir where h: "handleRetainWithMetrics env y (batch_sub req y) (Option.bind (fmlookup mb y) id) s = (t, ir)" by fastforce
  define resp1 where "resp1 = snd (batch_retain_one env req mb y (s, resp))"
  have one: "batch_retain_one env req mb y (s, resp) = (t, resp1)" by (simp add: batch_retain_one_def h resp1_def)
  have fld: "fold (batch_retain_one env req mb) ids (t, resp1) = (s', resp')" using Cons.prems(5) one by simp
  have r1: "fmdom' (br_Succeed resp1) = (if granted ir then insert y (fmdom' (br_Succeed resp)) else fmdom' (br_Succeed resp))"
    "fmdom' (br_Failed resp1) = (if granted ir then fmdom' (br_Failed resp) else insert y (fmdom' (br_Failed resp)))"
    by (simp_all add: resp1_def batch_retain_one_def h)
  have "lease_renewed env t x" if "x \<in> fmdom' (br_Succeed resp1)" for x
    using that Cons.prems(2,4) r1(1) retain_grants [OF h] retain_others [OF h, of x]
    by (cases "x = y") (auto simp: lease_renewed_def split: if_splits)
  then have a1: "\<forall>x\<in>fmdom' (br_Succeed resp1). lease_renewed env t x" by blast
  have d: "distinct ids" "set ids \<inter> (fmdom' (br_Succeed resp1) \<union> fmdom' (br_Failed resp1)) = {}"
    "fmdom' (br_Succeed resp1) \<inter> fmdom' (br_Failed resp1) = {}"
    using Cons.prems(1-3) by (auto simp: r1)
  from Cons.IH [OF d a1 fld] show ?case by (auto simp: r1 split: if_splits)
qed

text \<open>
  A batch retain answers for every lease exactly once: the leases of the batch are split into
  succeeded and failed ones, no lease is in both, and after the batch every lease reported as
  succeeded is outstanding with a lease that ends a full lease span from now.
\<close>

theorem batch_retain_partition:
  assumes "distinct (rq_AllocationIDs req)" and "handleBatchRetain env req s = (s', resp)"
  shows "fmdom' (br_Succeed resp) \<union> fmdom' (br_Failed resp) = set (rq_AllocationIDs req) \<and>
    fmdom' (br_Succeed resp) \<inter> fmdom' (br_Failed resp) = {} \<and>
    (\<forall>x\<in>fmdom' (br_Succeed resp). lease_renewed env s' x)"
proof -
  let ?mb = "if rq_MetricsData req = [] then fmempty else cd_batch (ev_codec env) (rq_MetricsData req)"
  let ?r = "\<lparr>br_Succeed = fmempty, br_Failed = fmempty,
                   br_LeaseInterval = godiv (liteTTL (ev_cfg env)) millisecond, br_SchedulerTime = 0\<rparr>"
  obtain t r1 where f: "fold (batch_retain_one env req ?mb) (rq_AllocationIDs req) (s, ?r) = (t, r1)" by fastforce
  then have "s' = t" "br_Succeed resp = br_Succeed r1" "br_Failed resp = br_Failed r1"
    using assms(2) by (auto simp: handleBatchRetain_def Let_def)
  with batch_invariant [OF assms(1) _ _ _ f] show ?thesis by simp
qed

theorem batch_retain_partition_witness:
  "fmdom' (br_Succeed (snd (handleBatchRetain sample_env (blank_request\<lparr>rq_AllocationIDs := [''a'', ''b'']\<rparr>) sample_booted))) \<union>
   fmdom' (br_Failed (snd (handleBatchRetain sample_env (blank_request\<lparr>rq_AllocationIDs := [''a'', ''b'']\<rparr>) sample_booted))) =
     {''a'', ''b''}"
  using batch_retain_partition [of "blank_request\<lparr>rq_AllocationIDs := [''a'', ''b'']\<rparr>" sample_env sample_booted,
    OF _ prod.collapse [symmetric]] by (simp add: blank_request_def)

section \<open>Idle session contexts\<close>

text \<open>
  The idle scan reports an instance for reclamation only if this scheduler owns its session
  context, no unit of it is used and it has been idle for the full five seconds; the reported instance
  is marked, and from then on the dispatcher is not offered it.
\<close>

theorem idle_report_sound:
  assumes "scan_slot env proxy fk now ins = (ins', Some (owner, item))" and "range_order ord"
    and "fmlookup (lp_instances p) i = Some ins'"
  shows "li_InUse ins \<le> 0 \<and> snd (CheckHashOwner (ev_self env) proxy (sessionContextRoutingKey fk (li_SessionCtxID ins))) \<and>
    (\<exists>since. li_IdleSince ins = Some since \<and> 5 * second \<le> now - since \<and> ii_idle_IdleSince item = since) \<and>
    ii_idle_InstanceID item = li_InstanceID ins \<and> li_InUse ins' = li_InUse ins \<and>
    ins' \<notin> set (candidateSlotsLocked ord p ctx c)"
proof -
  have s: "li_InUse ins \<le> 0 \<and> snd (CheckHashOwner (ev_self env) proxy (sessionContextRoutingKey fk (li_SessionCtxID ins))) \<and>
    (\<exists>since. li_IdleSince ins = Some since \<and> 5 * second \<le> now - since \<and> ii_idle_IdleSince item = since) \<and>
    ii_idle_InstanceID item = li_InstanceID ins \<and> li_InUse ins' = li_InUse ins \<and> li_Reclaiming ins'"
    using assms(1) by (auto simp: scan_slot_def split: if_splits option.splits)
  then show ?thesis using candidateSlots_sound [OF assms(2), of ins' p ctx c] by blast
qed

definition sample_idle :: LiteInstance where
  "sample_idle = (sample_slot_i1 0)\<lparr>li_SessionCtxID := ''c'', li_IdleSince := Some 0\<rparr>"

theorem idle_report_sound_witness:
  "\<exists>ins' owner item. scan_slot sample_env sample_proxy sample_key (6 * second) sample_idle = (ins', Some (owner, item)) \<and>
     ii_idle_InstanceID item = ''i1'' \<and>
     ins' \<notin> set (candidateSlotsLocked (ev_instances sample_env) (sample_pool\<lparr>lp_instances := fmupd ''i1'' ins' fmempty\<rparr>) ''c'' 1)"
proof -
  have own: "CheckHashOwner (ev_self sample_env) sample_proxy k = (''s1-id'', True)" for k
    by (simp add: sample_env_def sample_proxy_owner)
  have "\<exists>info. selectHashOwner sample_proxy sample_key = Some info"
    using sample_proxy_owner [of "''s1''" sample_key] by (auto simp: CheckHashOwner_def split: option.splits)
  then obtain info where info: "selectHashOwner sample_proxy sample_key = Some info" ..
  define ins' where "ins' = sample_idle\<lparr>li_Reclaiming := True\<rparr>"
  obtain item where sc: "scan_slot sample_env sample_proxy sample_key (6 * second) sample_idle = (ins', Some (info, item))"
    using own info by (simp add: scan_slot_def sample_idle_def sample_slot_i1_def FindHashOwner_def ins'_def)
  let ?p = "sample_pool\<lparr>lp_instances := fmupd ''i1'' ins' fmempty\<rparr>"
  have "fmlookup (lp_instances ?p) ''i1'' = Some ins'" by simp
  from idle_report_sound [OF sc env_okD(1) [OF sample_env_ok] this] sc show ?thesis
    by (auto simp: sample_idle_def sample_slot_i1_def)
qed

section \<open>Where the accounting is left\<close>

text \<open>
  The waiting loop of an acquire does not look at the session's binding again. When two requests
  of one new session wait for capacity, the second grant replaces the binding of the first: in this
  run the instance uses four units while its only session holds two, and nothing will free the others.
\<close>

theorem poll_overwrites_binding:
  "\<exists>p' b'. pool_at (fst (tryPollDispatch sample_env 0 (sample_req ''s'' 2) sample_leased)) 0 = Some p' \<and>
     lp_sessions p' = fmupd ''s'' b' fmempty \<and> held b' = 2 \<and> sb_activeAllocs b' = 1 \<and>
     fmlookup (lp_instances p') ''i1'' = Some (sample_slot_i1 4) \<and>
     fmcount (\<lambda>_ a. al_SessionID a = []) (ls_allocations (fst (tryPollDispatch sample_env 0 (sample_req ''s'' 2) sample_leased))) = 0"
proof -
  let ?req = "sample_req ''s'' 2"
  obtain p where p: "pool_at sample_leased 0 = Some p" "lp_instances p = fmupd ''i1'' (sample_slot_i1 2) fmempty"
    "lp_sessions p = fmupd ''s'' sample_binding fmempty" "lp_dispatcher p = concurrencyDispatcher"
    "ls_allocations sample_leased = fmupd sample_id (new_allocation sample_env ?req (sample_slot_i1 0) sample_id) fmempty"
    by (rule sample_leased_state)
  have "dispatcher_Select (lp_dispatcher p) (candidateSlotsLocked (ev_instances sample_env) p [] 2) 2 =
      (Some (sample_slot_i1 2), concurrencyDispatcher)"
    by (simp add: p candidateSlotsLocked_def) (simp add: sample_slot_i1_def concurrency_Select_def)
  moreover obtain s' resp where as: "assignInstance sample_env 0 (p\<lparr>lp_dispatcher := concurrencyDispatcher\<rparr>) ?req (sample_slot_i1 2) None sample_leased = (s', resp)"
    by fastforce
  ultimately have "fst (tryPollDispatch sample_env 0 ?req sample_leased) = s'"
    using p(1) by (simp add: tryPollDispatch_def tryDispatchLocked_def)
  moreover let ?p = "applySlotBinding ?req (sample_slot_i1 2) None (p\<lparr>lp_dispatcher := concurrencyDispatcher, lp_seqCounter := lp_seqCounter p + 1\<rparr>)"
  have "pool_at s' 0 = Some ?p" using assignInstance_state(3) [OF as] by (simp add: pool_at_def)
  moreover define b' where "b' = \<lparr>sb_ptr = lp_nextPtr p, sb_instanceID = ''i1'', sb_reserved = 1, sb_activeAllocs = 1, sb_timer = None, sb_expiring = False\<rparr>"
  have "lp_sessions ?p = fmupd ''s'' b' fmempty"
    by (rule fmap_ext) (simp add: p applySlotBinding_def bindSessionFreshLocked_def Let_def b'_def sample_slot_i1_def)
  moreover have "fmlookup (lp_instances ?p) ''i1'' = Some (sample_slot_i1 4)"
    by (simp add: p applySlotBinding_def bindSessionFreshLocked_def Let_def sample_slot_i1_def)
  moreover have "fmcount (\<lambda>_ a. al_SessionID a = []) (ls_allocations s') = 0"
    unfolding fmcount_zero_iff
    using assignInstance_state(4) [OF as] p(5) by (auto simp: Let_def new_allocation_def split: if_splits)
  moreover have "held b' = 2" "sb_activeAllocs b' = 1" by (simp_all add: b'_def held_def)
  ultimately show ?thesis by auto
qed

text \<open>
  Recovering a lost allocation for a session that is already expiring leaves the session marked
  as expiring. The pending idle timer then does nothing when it fires, and the release of the
  recovered unit arms no new one: the session keeps its units until a later acquire.
\<close>

theorem reacquire_strands_session:
  assumes "fmlookup (lp_sessions p) key = Some b" and "sb_expiring b" and "sb_activeAllocs b = 0"
    and "rp_sessionID params \<noteq> []" and "p' = buildReacquiredAlloc params slot key (Some b) p"
  shows "(\<forall>s pp t. pool_at s pp = Some p' \<longrightarrow> fireSessionUnbind pp key (sb_ptr b) t s = s) \<and>
    snd (unbindSessionOnRelease key p') = False \<and>
    (\<exists>b'. fmlookup (lp_sessions (fst (unbindSessionOnRelease key p'))) key = Some b' \<and>
       sb_activeAllocs b' = 0 \<and> sb_expiring b')"
proof -
  obtain b1 d where tk: "bindSessionStickyTakeLocked b = (b1, d)" by fastforce
  then have b1: "sb_activeAllocs b1 = 1" "sb_expiring b1"
    using assms(2,3) by (auto simp: bindSessionStickyTakeLocked_def split: if_splits)
  have look: "fmlookup (lp_sessions p') key = Some b1"
    using assms(4,5) tk by (simp add: buildReacquiredAlloc_def)
  with b1 show ?thesis
    by (auto simp: fireSessionUnbind_def unbindSessionOnRelease_def release_unit_def)
qed

theorem reacquire_strands_session_witness:
  "snd (unbindSessionOnRelease ''s'' (buildReacquiredAlloc
     \<lparr>rp_allocID = ''x'', rp_sessionID = ''s'', rp_sessionCtxID = [], rp_sessionTTL = 1, rp_concurrency = 1,
      rp_funcKey = sample_key, rp_tenantID = ''t'', rp_instanceID = ''i1''\<rparr> (sample_slot_i1 1) ''s''
     (Some (sample_binding\<lparr>sb_reserved := 1, sb_activeAllocs := 0, sb_expiring := True\<rparr>))
     (sample_pool\<lparr>lp_sessions := fmupd ''s'' (sample_binding\<lparr>sb_reserved := 1, sb_activeAllocs := 0, sb_expiring := True\<rparr>) fmempty\<rparr>))) = False"
  using reacquire_strands_session [of "sample_pool\<lparr>lp_sessions := fmupd ''s'' (sample_binding\<lparr>sb_reserved := 1, sb_activeAllocs := 0, sb_expiring := True\<rparr>) fmempty\<rparr>"
    "''s''" "sample_binding\<lparr>sb_reserved := 1, sb_activeAllocs := 0, sb_expiring := True\<rparr>"
    "\<lparr>rp_allocID = ''x'', rp_sessionID = ''s'', rp_sessionCtxID = [], rp_sessionTTL = 1, rp_concurrency = 1,
      rp_funcKey = sample_key, rp_tenantID = ''t'', rp_instanceID = ''i1''\<rparr>" _ "sample_slot_i1 1"] by simp

text \<open>A client's report of the lease \<open>sample_id\<close> it got before the scheduler restarted.\<close>

definition sample_metrics :: InstanceThreadMetrics where
  "sample_metrics = \<lparr>itm_FunctionKey = sample_key, itm_ReacquireData = ''x''\<rparr>"

definition sample_recovered :: LiteScheduler where
  "sample_recovered = fst (reacquireAllocation sample_session_env sample_id blank_request (Some sample_metrics) sample_booted)"

lemma sample_recovery_params:
  "validateReacquireRequest sample_session_env sample_id blank_request (Some sample_metrics) sample_booted =
     Inr \<lparr>rp_allocID = sample_id, rp_sessionID = ''s'', rp_sessionCtxID = [], rp_sessionTTL = 0, rp_concurrency = 2,
          rp_funcKey = sample_key, rp_tenantID = fk_tenantID (splitFuncKey sample_key), rp_instanceID = ''i1''\<rparr>"
proof -
  have "parseLiteAllocationID sample_id = (True, sessionHash ''s'', ''i1'', 1)"
    unfolding sample_id_def using parse_gen_clean [of "''i1''" 1 "''s''"] by (simp add: range_int64_def)
  moreover have "isFuncEnabled (ev_cfg sample_session_env) sample_key" "sample_key \<noteq> []"
    by (simp_all add: sample_session_env_def sample_key_def)
  ultimately show ?thesis
    using sample_booted_state(4)
    by (simp add: validateReacquireRequest_def validateSessionAndOwner_def sample_metrics_def sample_session_details allocationSessionID_def)
qed

text \<open>
  A scheduler that restarts numbers its allocations from one again, also when a client has
  recovered a lease of the earlier numbering. In this run the next acquire of the session gets the
  ID of the recovered lease and overwrites its entry: two units are handed out, one allocation is known.
\<close>

theorem reacquired_id_reused:
  "\<exists>s2 resp p b. tryLocalSticky sample_session_env 0 (sample_req ''s'' 2) sample_recovered = (s2, Some resp) \<and>
     granted resp \<and> ir_ThreadID resp = sample_id \<and> fmdom' (ls_allocations sample_recovered) = {sample_id} \<and>
     fmdom' (ls_allocations s2) = {sample_id} \<and> pool_at s2 0 = Some p \<and>
     fmlookup (lp_sessions p) ''s'' = Some b \<and> sb_activeAllocs b = 2"
proof -
  let ?params = "\<lparr>rp_allocID = sample_id, rp_sessionID = ''s'', rp_sessionCtxID = [], rp_sessionTTL = 0, rp_concurrency = 2,
          rp_funcKey = sample_key, rp_tenantID = fk_tenantID (splitFuncKey sample_key), rp_instanceID = ''i1''\<rparr>"
  define p1 where "p1 = buildReacquiredAlloc ?params (sample_slot_i1 0) ''s'' None sample_pool"
  have chk: "checkReacquireSlotLocked sample_session_env blank_request sample_pool ?params = Inr (sample_slot_i1 0, ''s'', None)"
    by (simp add: checkReacquireSlotLocked_def sample_pool_def sessionBindingKey_def sample_spec_def) (simp add: sample_slot_i1_def)
  have lim: "checkConcurrencyLimit sample_session_env blank_request sample_pool 2 = None"
    by (simp add: checkConcurrencyLimit_def instanceConcurrentNum_def sample_pool_def sample_spec_def)
  have "\<exists>m. sample_recovered = count_metric m (updateExpiryTask sample_session_env sample_id
      (put_pool 0 p1 (sample_booted\<lparr>ls_allocations := fmupd sample_id (reacquired_alloc sample_session_env ?params) fmempty\<rparr>)))"
    unfolding sample_recovered_def reacquireAllocation_def sample_recovery_params
    by (simp add: chk lim sample_booted_state recordRetainSuccess_def Let_def p1_def) blast
  then obtain m where e: "sample_recovered = count_metric m (updateExpiryTask sample_session_env sample_id
      (put_pool 0 p1 (sample_booted\<lparr>ls_allocations := fmupd sample_id (reacquired_alloc sample_session_env ?params) fmempty\<rparr>)))" ..
  have rec: "fmdom' (ls_allocations sample_recovered) = {sample_id}" "pool_at sample_recovered 0 = Some p1"
    unfolding e by (simp_all add: pool_at_def)
  have p1: "fmlookup (lp_sessions p1) ''s'' = Some sample_binding" "fmlookup (lp_instances p1) ''i1'' = Some (sample_slot_i1 2)"
    "lp_seqCounter p1 = 0"
    by (simp_all add: p1_def buildReacquiredAlloc_def bindSessionFreshLocked_def sample_pool_def Let_def sample_binding_def sample_slot_i1_def)
  let ?b = "sample_binding\<lparr>sb_reserved := 0, sb_activeAllocs := 2\<rparr>"
  have try1: "tryLocalStickyLocked ''s'' p1 = (p1, Some (sample_slot_i1 2), Some sample_binding, stickyHit)"
    using p1 by (simp add: tryLocalStickyLocked_def cancelSessionUnbind_def sample_binding_def sample_slot_i1_def)
  obtain s2 resp where as: "assignInstance sample_session_env 0 p1 (sample_req ''s'' 2) (sample_slot_i1 2) (Some sample_binding) sample_recovered = (s2, resp)"
    by fastforce
  have seq: "next_seq p1 = 1" using p1(3) sint_one64 by (simp add: next_seq_def)
  note st = assignInstance_state [OF as]
  have ID: "genAllocationID ''s'' (li_InstanceID (sample_slot_i1 2)) 1 = sample_id" by (simp add: sample_id_def sample_slot_i1_def)
  have "tryLocalSticky sample_session_env 0 (sample_req ''s'' 2) sample_recovered = (s2, Some resp)"
    using rec(2) as by (simp add: tryLocalSticky_def try1)
  moreover have "granted resp" "ir_ThreadID resp = sample_id" using st seq ID by simp_all
  moreover have "fmdom' (ls_allocations s2) = {sample_id}" using st(4) seq ID rec(1) by (simp add: Let_def)
  moreover let ?p = "applySlotBinding (sample_req ''s'' 2) (sample_slot_i1 2) (Some sample_binding) (p1\<lparr>lp_seqCounter := lp_seqCounter p1 + 1\<rparr>)"
  have "pool_at s2 0 = Some ?p" using st(3) by (simp add: pool_at_def)
  moreover have "fmlookup (lp_sessions ?p) ''s'' = Some ?b"
    by (simp add: applySlotBinding_def bindSessionStickyTakeLocked_def sample_binding_def)
  ultimately show ?thesis using rec(1) by (intro exI [of _ s2] exI [of _ resp] exI [of _ ?p] exI [of _ ?b]) simp
qed

end
