(* ===== verification/ScaleHints.thy ===== *)
theory ScaleHints
  imports LiteSched
begin

text \<open>
  Scale hints (\<^verbatim>\<open>litescheduler/scalehint.go\<close>): the sender that tells the owner of a function about
  missing capacity, at most once per window, and follows a bounded number of redirects; and the map
  with expiring entries (\<^verbatim>\<open>utils/timeoutmap.go\<close>) that remembers the claims.
\<close>

section \<open>A map with expiring entries\<close>

record 'v item =
  im_value :: 'v
  im_expireTime :: time

record 'v TimeoutMap =
  tm_m :: "(string, 'v item) gomap"

definition NewTimeoutMap :: "'v TimeoutMap" where
  "NewTimeoutMap = \<lparr>tm_m = fmempty\<rparr>"

definition tm_Set :: "time \<Rightarrow> string \<Rightarrow> 'v \<Rightarrow> duration \<Rightarrow> 'v TimeoutMap \<Rightarrow> 'v TimeoutMap" where
  "tm_Set now key value ttl tm =
     tm\<lparr>tm_m := fmupd key \<lparr>im_value = value, im_expireTime = now + ttl\<rparr> (tm_m tm)\<rparr>"

definition tm_Delete :: "string \<Rightarrow> 'v TimeoutMap \<Rightarrow> 'v TimeoutMap" where
  "tm_Delete key tm = tm\<lparr>tm_m := fmdrop key (tm_m tm)\<rparr>"

text \<open>
  \<^verbatim>\<open>Get\<close> reads the entry under the read lock and, when it has expired, deletes the key under the
  write lock; in between another goroutine (\<open>others\<close>) may run.
\<close>

definition tm_Get_between ::
  "('v TimeoutMap \<Rightarrow> 'v TimeoutMap) \<Rightarrow> time \<Rightarrow> string \<Rightarrow> 'v TimeoutMap \<Rightarrow> 'v option \<times> 'v TimeoutMap" where
  "tm_Get_between others now key tm =
     (case fmlookup (tm_m tm) key of
        None \<Rightarrow> (None, others tm)
      | Some it \<Rightarrow>
          if now > im_expireTime it then (None, tm_Delete key (others tm))
          else (Some (im_value it), others tm))"

definition tm_Get :: "time \<Rightarrow> string \<Rightarrow> 'v TimeoutMap \<Rightarrow> 'v option \<times> 'v TimeoutMap" where
  "tm_Get now key tm = tm_Get_between id now key tm"

definition tm_cleanup :: "time \<Rightarrow> 'v TimeoutMap \<Rightarrow> 'v TimeoutMap" where
  "tm_cleanup now tm = tm\<lparr>tm_m := fmreject (\<lambda>_ it. now > im_expireTime it) (tm_m tm)\<rparr>"

text \<open>What a reader sees at a time: the value of an entry that has not expired.\<close>

definition alive :: "time \<Rightarrow> string \<Rightarrow> 'v TimeoutMap \<Rightarrow> 'v option" where
  "alive now key tm =
     (case fmlookup (tm_m tm) key of
        None \<Rightarrow> None
      | Some it \<Rightarrow> if now > im_expireTime it then None else Some (im_value it))"

lemma Get_alive: "fst (tm_Get now key tm) = alive now key tm"
  by (simp add: tm_Get_def tm_Get_between_def alive_def split: option.split)

lemma alive_Set: "alive t k (tm_Set now key v ttl tm) = (if k = key then (if t > now + ttl then None else Some v) else alive t k tm)"
  by (simp add: alive_def tm_Set_def)

lemma alive_Delete: "alive t k (tm_Delete key tm) = (if k = key then None else alive t k tm)"
  by (simp add: alive_def tm_Delete_def)

text \<open>Reading and cleaning up at a time change nothing for readers at that time or later.\<close>

lemma alive_Get: "now \<le> t \<Longrightarrow> alive t k (snd (tm_Get now key tm)) = alive t k tm"
  by (auto simp: tm_Get_def tm_Get_between_def alive_def tm_Delete_def split: option.splits)

lemma alive_cleanup: "now \<le> t \<Longrightarrow> alive t k (tm_cleanup now tm) = alive t k tm"
  by (auto simp: tm_cleanup_def alive_def split: option.splits)

section \<open>The sender\<close>

text \<open>A claim is a pointer; its identity is the number of the allocation.\<close>

record dedupToken =
  dt_ptr :: nat
  dt_createdAt :: time

record httpSender =
  hs_proxy :: SchedulerProxy
  hs_clientTimeout :: "duration option" \<comment> \<open>\<^verbatim>\<open>None\<close> when the client is nil\<close>
  hs_dedup :: "dedupToken TimeoutMap"
  hs_dedupTTL :: duration
  hs_maxRetries :: int
  hs_nextToken :: nat

abbreviation (input) scaleHintHTTPTimeout :: duration where "scaleHintHTTPTimeout \<equiv> second"
abbreviation (input) scaleHintMaxRetries :: int where "scaleHintMaxRetries \<equiv> 2"

definition NewHTTPSender :: "LiteConfig \<Rightarrow> SchedulerProxy \<Rightarrow> httpSender" where
  "NewHTTPSender cfg proxy =
     (let ttl = lc_AcquireWaitTimeoutMs cfg * millisecond in
      \<lparr>hs_proxy = proxy, hs_clientTimeout = Some scaleHintHTTPTimeout, hs_dedup = NewTimeoutMap,
       hs_dedupTTL = (if ttl \<le> 0 then second else ttl), hs_maxRetries = scaleHintMaxRetries,
       hs_nextToken = 0\<rparr>)"

definition inFlightTTL :: "httpSender \<Rightarrow> duration" where
  "inFlightTTL s =
     (case hs_clientTimeout s of
        None \<Rightarrow> hs_dedupTTL s
      | Some timeout \<Rightarrow>
          if timeout > 0
          then let attempts = hs_maxRetries s + 1
               in hs_dedupTTL s + (if attempts < 1 then 1 else attempts) * timeout
          else hs_dedupTTL s)"

definition reserveDedup :: "time \<Rightarrow> string \<Rightarrow> httpSender \<Rightarrow> dedupToken option \<times> httpSender" where
  "reserveDedup now funcKey s =
     (case tm_Get now funcKey (hs_dedup s) of
        (Some _, m) \<Rightarrow> (None, s\<lparr>hs_dedup := m\<rparr>)
      | (None, m) \<Rightarrow>
          let token = \<lparr>dt_ptr = hs_nextToken s, dt_createdAt = now\<rparr>
          in (Some token,
              s\<lparr>hs_dedup := tm_Set now funcKey token (inFlightTTL s) m, hs_nextToken := Suc (hs_nextToken s)\<rparr>))"

definition finishDedup :: "time \<Rightarrow> string \<Rightarrow> dedupToken \<Rightarrow> bool \<Rightarrow> httpSender \<Rightarrow> httpSender" where
  "finishDedup now funcKey token accepted s =
     (case tm_Get now funcKey (hs_dedup s) of
        (None, m) \<Rightarrow> s\<lparr>hs_dedup := m\<rparr>
      | (Some current, m) \<Rightarrow>
          if dt_ptr current \<noteq> dt_ptr token then s\<lparr>hs_dedup := m\<rparr>
          else if accepted then s\<lparr>hs_dedup := tm_Set now funcKey token (hs_dedupTTL s) m\<rparr>
          else s\<lparr>hs_dedup := tm_Delete funcKey m\<rparr>)"

text \<open>
  The answers of the network: what the n-th POST of a dispatch returns for an address, as status,
  body and whether an error came with it. \<open>decode\<close> is the JSON decoder of a response body.
\<close>

record postReply =
  pr_status :: int
  pr_body :: string
  pr_err :: bool

datatype sendError = PostError | HttpStatusError int | RetriesExhausted | RedirectUnavailable
  | MarshalError | OwnerNotFound | OwnerAddressEmpty

definition parseNonOwnerRedirect :: "(string \<Rightarrow> ScaleHintResponse option) \<Rightarrow> int \<Rightarrow> string \<Rightarrow> string" where
  "parseNonOwnerRedirect decode statusCode body =
     (if statusCode \<noteq> 200 then []
      else case decode body of
        None \<Rightarrow> []
      | Some hintResp \<Rightarrow>
          if shr_ErrorCode hintResp = AcquireNonOwnerSchedulerErrorCode then shr_ErrorMessage hintResp else [])"

text \<open>The loop also returns the addresses it has posted to.\<close>

function sendWithRetry ::
  "(string \<Rightarrow> ScaleHintResponse option) \<Rightarrow> ((string, InstanceInfo) gomap \<Rightarrow> string list) \<Rightarrow>
     (nat \<Rightarrow> string \<Rightarrow> postReply) \<Rightarrow> httpSender \<Rightarrow> nat \<Rightarrow> InstanceInfo \<Rightarrow>
     string list \<times> (sendError + ScaleHintResponse)" where
  "sendWithRetry decode ord post s attempt owner =
     (let reply = post attempt (ii_Address owner) in
      if \<not> pr_err reply \<and> pr_status reply = 202
      then ([ii_Address owner], Inr \<lparr>shr_ErrorCode = 0, shr_ErrorMessage = []\<rparr>)
      else
        let newOwnerID = parseNonOwnerRedirect decode (pr_status reply) (pr_body reply) in
        if newOwnerID = [] then
          ([ii_Address owner],
           case (if pr_body reply \<noteq> [] then decode (pr_body reply) else None) of
             Some response \<Rightarrow> Inr response
           | None \<Rightarrow> if pr_err reply then Inl PostError else Inl (HttpStatusError (pr_status reply)))
        else if int attempt \<ge> hs_maxRetries s then ([ii_Address owner], Inl RetriesExhausted)
        else (case FindByInstanceID ord (hs_proxy s) newOwnerID of
                None \<Rightarrow> ([ii_Address owner], Inl RedirectUnavailable)
              | Some next \<Rightarrow>
                  if ii_Address next = [] then ([ii_Address owner], Inl RedirectUnavailable)
                  else (case sendWithRetry decode ord post s (Suc attempt) next of
                          (posted, result) \<Rightarrow> (ii_Address owner # posted, result))))"
  by pat_completeness auto

termination
  by (relation "measure (\<lambda>(_, _, _, s, attempt, _). nat (hs_maxRetries s) - attempt)") auto

declare sendWithRetry.simps [simp del]

text \<open>
  \<^verbatim>\<open>Send\<close>, with the claim taken at \<open>t0\<close> and given up at \<open>t1\<close>; \<open>Inr None\<close> is the nil response of a
  hint that was left out. \<open>marshal\<close> is the JSON encoder.
\<close>

definition dedup_key :: "ScaleHint \<Rightarrow> string" where
  "dedup_key hint =
     (if sh_SessionCtxID hint \<noteq> [] then JoinKey [sh_FuncKey hint, sh_SessionCtxID hint] else sh_FuncKey hint)"

definition hint_dispatch ::
  "(string \<Rightarrow> ScaleHintResponse option) \<Rightarrow> (ScaleHint \<Rightarrow> string option) \<Rightarrow> selfIdentity \<Rightarrow>
     ((string, InstanceInfo) gomap \<Rightarrow> string list) \<Rightarrow> (string \<Rightarrow> nat \<Rightarrow> string \<Rightarrow> postReply) \<Rightarrow>
     ScaleHint \<Rightarrow> httpSender \<Rightarrow> string list \<times> (sendError + ScaleHintResponse)" where
  "hint_dispatch decode marshal self ord post hint s =
     (case marshal (hint\<lparr>sh_SchedulerID := GetSchedulerProxyName self\<rparr>) of
        None \<Rightarrow> ([], Inl MarshalError)
      | Some body \<Rightarrow>
          (case fst (FindHashOwner self (hs_proxy s) (sh_FuncKey hint)) of
             None \<Rightarrow> ([], Inl OwnerNotFound)
           | Some owner \<Rightarrow>
               if ii_Address owner = [] then ([], Inl OwnerAddressEmpty)
               else sendWithRetry decode ord (post body) s 0 owner))"

definition hint_accepted :: "sendError + ScaleHintResponse \<Rightarrow> bool" where
  "hint_accepted r = (case r of Inl _ \<Rightarrow> False | Inr response \<Rightarrow> shr_ErrorCode response = 0)"

definition http_Send ::
  "(string \<Rightarrow> ScaleHintResponse option) \<Rightarrow> (ScaleHint \<Rightarrow> string option) \<Rightarrow> selfIdentity \<Rightarrow>
     ((string, InstanceInfo) gomap \<Rightarrow> string list) \<Rightarrow> (string \<Rightarrow> nat \<Rightarrow> string \<Rightarrow> postReply) \<Rightarrow>
     (httpSender \<Rightarrow> httpSender) \<Rightarrow> time \<Rightarrow> time \<Rightarrow> ScaleHint option \<Rightarrow> httpSender \<Rightarrow>
     httpSender \<times> (sendError + ScaleHintResponse option)" where
  "http_Send decode marshal self ord post others t0 t1 hint s =
     (case hint of
        None \<Rightarrow> (s, Inr None)
      | Some h \<Rightarrow>
          (case reserveDedup t0 (dedup_key h) s of
             (None, s1) \<Rightarrow> (s1, Inr None)
           | (Some token, s1) \<Rightarrow>
               let result = snd (hint_dispatch decode marshal self ord post h s1)
               in (finishDedup t1 (dedup_key h) token (hint_accepted result) (others s1),
                   map_sum id Some result)))"

definition noop_Send :: "ScaleHint option \<Rightarrow> sendError + ScaleHintResponse option" where
  "noop_Send hint = Inr None"

section \<open>Properties\<close>

lemma reserve_cases:
  "reserveDedup now k s =
     (case alive now k (hs_dedup s) of
        Some _ \<Rightarrow> (None, s\<lparr>hs_dedup := snd (tm_Get now k (hs_dedup s))\<rparr>)
      | None \<Rightarrow>
          (Some \<lparr>dt_ptr = hs_nextToken s, dt_createdAt = now\<rparr>,
           s\<lparr>hs_dedup := tm_Set now k \<lparr>dt_ptr = hs_nextToken s, dt_createdAt = now\<rparr> (inFlightTTL s)
                           (snd (tm_Get now k (hs_dedup s))), hs_nextToken := Suc (hs_nextToken s)\<rparr>))"
  using Get_alive [of now k "hs_dedup s"]
  by (cases "tm_Get now k (hs_dedup s)") (auto simp: reserveDedup_def Let_def split: option.splits)

lemma finish_alive:
  assumes "alive now k (hs_dedup s) = Some token"
  shows "alive t k (hs_dedup (finishDedup now k token accepted s)) =
    (if accepted then (if t > now + hs_dedupTTL s then None else Some token) else None)"
  using assms Get_alive [of now k "hs_dedup s"]
  by (cases "tm_Get now k (hs_dedup s)") (auto simp: finishDedup_def alive_Set alive_Delete)

text \<open>
  One hint per window. While a claim is in flight no other hint for the same key gets through;
  a hint that was accepted blocks further ones for the configured window, counted from its end; a
  hint that failed blocks none.
\<close>

theorem one_hint_per_window:
  assumes "reserveDedup t0 k s = (Some token, s1)" and "t0 \<le> t1" and "t1 \<le> t0 + inFlightTTL s"
    and "s2 = finishDedup t1 k token accepted s1"
  shows "(\<forall>t. t0 \<le> t \<and> t \<le> t0 + inFlightTTL s \<longrightarrow> fst (reserveDedup t k s1) = None) \<and>
    (accepted \<longrightarrow> (\<forall>t. t1 \<le> t \<longrightarrow> (fst (reserveDedup t k s2) = None \<longleftrightarrow> t \<le> t1 + hs_dedupTTL s))) \<and>
    (\<not> accepted \<longrightarrow> (\<forall>t. t1 \<le> t \<longrightarrow> fst (reserveDedup t k s2) \<noteq> None))"
proof -
  have s1: "alive t k (hs_dedup s1) = (if t > t0 + inFlightTTL s then None else Some token)" "hs_dedupTTL s1 = hs_dedupTTL s" for t
    using assms(1) by (auto simp: reserve_cases alive_Set split: option.splits)
  have "alive t1 k (hs_dedup s1) = Some token" using s1(1) [of t1] assms(3) by simp
  from finish_alive [OF this] have s2: "alive t k (hs_dedup s2) =
      (if accepted then (if t > t1 + hs_dedupTTL s then None else Some token) else None)" for t
    by (simp add: assms(4) s1)
  show ?thesis using s1(1) s2 by (auto simp: reserve_cases split: option.splits)
qed

text \<open>
  A sender whose claim has expired and been replaced cannot take the newer claim away.
\<close>

theorem stale_finish_keeps_claim:
  assumes "alive t1 k (hs_dedup s) = Some newer" and "dt_ptr newer \<noteq> dt_ptr token" and "t1 \<le> t"
  shows "alive t k (hs_dedup (finishDedup t1 k token accepted s)) = alive t k (hs_dedup s)"
  using assms Get_alive [of t1 k "hs_dedup s"] alive_Get [of t1 t k k "hs_dedup s"]
  by (cases "tm_Get t1 k (hs_dedup s)") (auto simp: finishDedup_def)

lemma sendWithRetry_bound:
  "length (fst (sendWithRetry decode ord post s attempt owner)) \<le> Suc (nat (hs_maxRetries s) - attempt)"
proof (induction decode ord post s attempt owner rule: sendWithRetry.induct)
  case (1 decode ord post s attempt owner)
  let ?new = "parseNonOwnerRedirect decode (pr_status (post attempt (ii_Address owner))) (pr_body (post attempt (ii_Address owner)))"
  show ?case
  proof (cases "\<not> pr_err (post attempt (ii_Address owner)) \<and> pr_status (post attempt (ii_Address owner)) = 202 \<or>
      ?new = [] \<or> int attempt \<ge> hs_maxRetries s")
    case True
    then show ?thesis by (subst sendWithRetry.simps) (auto simp: Let_def)
  next
    case False
    then have c: "\<not> (\<not> pr_err (post attempt (ii_Address owner)) \<and> pr_status (post attempt (ii_Address owner)) = 202)"
      "?new \<noteq> []" "\<not> hs_maxRetries s \<le> int attempt" by auto
    show ?thesis
    proof (cases "FindByInstanceID ord (hs_proxy s) ?new")
      case None
      with c show ?thesis by (subst sendWithRetry.simps) (simp add: Let_def)
    next
      case (Some nxt)
      show ?thesis
      proof (cases "ii_Address nxt = []")
        case True
        with c Some show ?thesis by (subst sendWithRetry.simps) (simp add: Let_def)
      next
        case False
        from 1 [OF refl c(1) refl c(2,3) Some False]
        have "length (fst (sendWithRetry decode ord post s (Suc attempt) nxt)) \<le> Suc (nat (hs_maxRetries s) - Suc attempt)" .
        moreover have "nat (hs_maxRetries s) - attempt = Suc (nat (hs_maxRetries s) - Suc attempt)" using c(3) by linarith
        moreover obtain posted result where "sendWithRetry decode ord post s (Suc attempt) nxt = (posted, result)" by fastforce
        ultimately show ?thesis using c Some False
          by (subst sendWithRetry.simps) (simp add: Let_def)
      qed
    qed
  qed
qed

text \<open>
  A dispatch makes at most one POST more than the retry limit, so when every POST keeps the client
  timeout, the claim of the dispatch is still its own when it finishes: no second hint overtakes it.
\<close>

theorem claim_outlives_dispatch:
  assumes "reserveDedup t0 k s = (Some token, s1)" and "hs_clientTimeout s = Some timeout" and "0 < timeout"
    and "0 \<le> hs_dedupTTL s" and "0 \<le> hs_maxRetries s"
    and "posted = fst (sendWithRetry decode ord post s1 0 owner)"
    and "t0 \<le> t1" and "t1 \<le> t0 + int (length posted) * timeout"
  shows "length posted \<le> nat (hs_maxRetries s) + 1 \<and> alive t1 k (hs_dedup s1) = Some token"
proof -
  have s1: "alive t1 k (hs_dedup s1) = (if t1 > t0 + inFlightTTL s then None else Some token)" "hs_maxRetries s1 = hs_maxRetries s"
    using assms(1) by (auto simp: reserve_cases alive_Set split: option.splits)
  have len: "length posted \<le> nat (hs_maxRetries s) + 1"
    using sendWithRetry_bound [of decode ord post s1 0 owner] assms(6) s1(2) by simp
  then have "int (length posted) * timeout \<le> (hs_maxRetries s + 1) * timeout"
    using assms(3,5) by (intro mult_right_mono) auto
  moreover have "inFlightTTL s = hs_dedupTTL s + (hs_maxRetries s + 1) * timeout"
    using assms(2,3,5) by (simp add: inFlightTTL_def Let_def)
  ultimately have "t1 \<le> t0 + inFlightTTL s" using assms(4,8) by linarith
  with s1 len show ?thesis by simp
qed

section \<open>Witnesses\<close>

definition sample_sender :: httpSender where
  "sample_sender =
     \<lparr>hs_proxy = sample_proxy, hs_clientTimeout = Some second, hs_dedup = NewTimeoutMap, hs_dedupTTL = 2 * second,
      hs_maxRetries = 2, hs_nextToken = 0\<rparr>"

definition sample_token :: dedupToken where
  "sample_token = \<lparr>dt_ptr = 0, dt_createdAt = 0\<rparr>"

definition sample_claimed :: httpSender where
  "sample_claimed = sample_sender\<lparr>hs_dedup := tm_Set 0 ''f'' sample_token (5 * second) NewTimeoutMap, hs_nextToken := 1\<rparr>"

lemma sample_reserve: "reserveDedup 0 ''f'' sample_sender = (Some sample_token, sample_claimed)"
  by (simp add: reserveDedup_def sample_sender_def sample_claimed_def sample_token_def tm_Get_def tm_Get_between_def NewTimeoutMap_def
      inFlightTTL_def Let_def)

theorem one_hint_per_window_witness:
  "fst (reserveDedup second ''f'' sample_claimed) = None \<and>
   fst (reserveDedup (4 * second) ''f'' (finishDedup (3 * second) ''f'' sample_token True sample_claimed)) = None \<and>
   fst (reserveDedup (6 * second) ''f'' (finishDedup (3 * second) ''f'' sample_token True sample_claimed)) \<noteq> None"
  using one_hint_per_window [OF sample_reserve _ _ refl, of "3 * second" True]
  by (simp add: inFlightTTL_def sample_sender_def Let_def)

theorem stale_finish_keeps_claim_witness:
  "alive second ''f'' (hs_dedup (finishDedup second ''f'' \<lparr>dt_ptr = 7, dt_createdAt = 0\<rparr> False sample_claimed)) = Some sample_token"
  using stale_finish_keeps_claim [of second "''f''" sample_claimed sample_token "\<lparr>dt_ptr = 7, dt_createdAt = 0\<rparr>" second False]
  by (simp add: sample_claimed_def alive_Set sample_token_def)

theorem claim_outlives_dispatch_witness:
  "length (fst (sendWithRetry (\<lambda>_. None) (\<lambda>_. []) (\<lambda>_ _. \<lparr>pr_status = 202, pr_body = [], pr_err = False\<rparr>) sample_claimed 0 (sample_info ''s1''))) \<le> 3 \<and>
   alive second ''f'' (hs_dedup sample_claimed) = Some sample_token"
proof -
  have "fst (sendWithRetry (\<lambda>_. None) (\<lambda>_. []) (\<lambda>_ _. \<lparr>pr_status = 202, pr_body = [], pr_err = False\<rparr>) sample_claimed 0 (sample_info ''s1'')) = [''s1:80'']"
    by (subst sendWithRetry.simps) (simp add: sample_info_def)
  with claim_outlives_dispatch [OF sample_reserve _ _ _ _ refl, where timeout = second and decode = "\<lambda>_. None" and ord = "\<lambda>_. []"
      and post = "\<lambda>_ _. \<lparr>pr_status = 202, pr_body = [], pr_err = False\<rparr>" and owner = "sample_info ''s1''" and ?t1.0 = second]
  show ?thesis by (simp add: sample_sender_def)
qed

end
