(* ===== verification/PriorityQueue.thy ===== *)
theory PriorityQueue
  imports GoPrelude "HOL-Library.Multiset"
begin

text \<open>
  The two-ended priority queue (\<^verbatim>\<open>faas_common/queue/priorityqueue.go\<close>): a max-min heap, whose even
  levels are ordered from the top and whose odd levels from the bottom, and the queue built on it.
\<close>

section \<open>Indices\<close>

fun bits_Len :: "nat \<Rightarrow> nat" where
  "bits_Len n = (if n = 0 then 0 else Suc (bits_Len (n div 2)))"

declare bits_Len.simps [simp del]

definition isMaxLevel :: "nat \<Rightarrow> bool" where
  "isMaxLevel i \<longleftrightarrow> (bits_Len (i + 1) - 1) mod 2 = 0"

text \<open>Go rounds \<^verbatim>\<open>(0 - 1) / 2\<close> to 0; the grandparent of the first three nodes is -1.\<close>

definition parent :: "nat \<Rightarrow> nat" where "parent i = (i - 1) div 2"
definition grandparent :: "nat \<Rightarrow> int" where "grandparent i = (int i + 1) div 4 - 1"
definition leftChild :: "nat \<Rightarrow> nat" where "leftChild i = i * 2 + 1"
definition rightChild :: "nat \<Rightarrow> nat" where "rightChild i = i * 2 + 2"

lemma grandparent_neg: "grandparent i < 0 \<longleftrightarrow> i \<le> 2"
  by (auto simp: grandparent_def)

lemma grandparent_parent: "2 < i \<Longrightarrow> nat (grandparent i) = parent (parent i)"
  unfolding grandparent_def parent_def by linarith

lemma parent_less: "0 < i \<Longrightarrow> parent i < i"
  unfolding parent_def by linarith

lemma bits_Len_Suc: "0 < n \<Longrightarrow> bits_Len n = Suc (bits_Len (n div 2))"
  by (simp add: bits_Len.simps [of n])

lemma isMaxLevel_parent: "0 < i \<Longrightarrow> isMaxLevel (parent i) \<longleftrightarrow> \<not> isMaxLevel i"
proof -
  assume "0 < i"
  then have "(i + 1) div 2 = parent i + 1" unfolding parent_def by linarith
  then have "bits_Len (i + 1) = Suc (bits_Len (parent i + 1))" using bits_Len_Suc [of "i + 1"] by simp
  moreover have "0 < bits_Len (parent i + 1)" by (simp add: bits_Len_Suc)
  ultimately show ?thesis by (simp add: isMaxLevel_def) presburger
qed

section \<open>The heap\<close>

record 'a Item =
  it_ObjID :: string
  it_Obj :: 'a
  it_Priority :: int

record 'a DeHeap =
  dh_items :: "'a Item list"
  dh_count :: int

definition NewDeHeap :: "'a DeHeap" where
  "NewDeHeap = \<lparr>dh_items = [], dh_count = 0\<rparr>"

definition dh_Len :: "'a DeHeap \<Rightarrow> nat" where
  "dh_Len h = length (dh_items h)"

definition heap_Compare :: "'a Item list \<Rightarrow> nat \<Rightarrow> nat \<Rightarrow> bool" where
  "heap_Compare xs i j =
     (if i \<ge> length xs \<or> j \<ge> length xs then False else it_Priority (xs ! i) > it_Priority (xs ! j))"

definition heap_Swap :: "nat \<Rightarrow> nat \<Rightarrow> 'a Item list \<Rightarrow> 'a Item list" where
  "heap_Swap i j xs = (if i \<ge> length xs \<or> j \<ge> length xs then xs else xs[i := xs ! j, j := xs ! i])"

lemma length_Swap [simp]: "length (heap_Swap i j xs) = length xs"
  by (simp add: heap_Swap_def)

text \<open>The loops return the items and the final index.\<close>

function up_loop :: "bool \<Rightarrow> nat \<Rightarrow> 'a Item list \<Rightarrow> 'a Item list \<times> nat" where
  "up_loop isMax i xs =
     (let g = grandparent i in
      if g < 0 then (xs, i)
      else if heap_Compare xs (nat g) i = isMax then (xs, i)
      else up_loop isMax (nat g) (heap_Swap (nat g) i xs))"
  by pat_completeness auto

termination
  by (relation "measure (\<lambda>(_, i, _). i)") (auto simp: grandparent_def)

definition shiftUp :: "nat \<Rightarrow> 'a Item list \<Rightarrow> 'a Item list \<times> nat" where
  "shiftUp i xs =
     (let isMax = isMaxLevel i; p = parent i in
      if heap_Compare xs p i = isMax then up_loop (\<not> isMax) p (heap_Swap p i xs)
      else up_loop isMax i xs)"

text \<open>The node that has to move up to \<open>i\<close>: among \<open>i\<close>, its children and its grandchildren.\<close>

definition down_pick :: "nat \<Rightarrow> 'a Item list \<Rightarrow> nat" where
  "down_pick i xs =
     (let n = length xs; isMax = isMaxLevel i; lc = leftChild i; rc = rightChild i;
          t1 = (if heap_Compare xs lc i = isMax then lc else i);
          t2 = (if rc < n \<and> heap_Compare xs rc t1 = isMax then rc else t1)
      in fold (\<lambda>gc t. if heap_Compare xs gc t = isMax then gc else t)
           [leftChild lc ..< min n (rightChild rc + 1)] t2)"

lemma down_pick_range:
  "down_pick i xs \<in> {i, leftChild i, rightChild i} \<or>
     leftChild (leftChild i) \<le> down_pick i xs \<and> down_pick i xs < length xs"
proof -
  have gen: "fold (\<lambda>gc t. if heap_Compare xs gc t = m then gc else t) gcs t \<in> insert t (set gcs)" for gcs t m
    by (induction gcs arbitrary: t) auto
  show ?thesis
    unfolding down_pick_def Let_def
    using gen [of "isMaxLevel i" "[leftChild (leftChild i)..<min (length xs) (rightChild (rightChild i) + 1)]"]
    by (smt (verit) atLeastLessThan_iff insert_iff min_less_iff_conj set_upt)
qed

function shiftDown :: "nat \<Rightarrow> 'a Item list \<Rightarrow> 'a Item list \<times> nat" where
  "shiftDown i xs =
     (if \<not> i < length xs then (xs, i)
      else if leftChild i \<ge> length xs then (xs, i)
      else
        let t = down_pick i xs in
        if t = i then (xs, i)
        else
          let xs1 = heap_Swap i t xs in
          if t = leftChild i \<or> t = rightChild i then (xs1, t)
          else if heap_Compare xs1 (parent t) t = isMaxLevel i
          then shiftDown (parent t) (heap_Swap (parent t) t xs1)
          else shiftDown t xs1)"
  by pat_completeness auto

termination
proof (relation "measure (\<lambda>(i, xs). length xs - i)", goal_cases)
  case 1
  then show ?case by simp
next
  case (2 i xs t xs1)
  then have "leftChild (leftChild i) \<le> t" using down_pick_range [of i xs] by auto
  then have "i < parent t" unfolding leftChild_def parent_def by presburger
  with 2 show ?case by simp
next
  case (3 i xs t xs1)
  then have "leftChild (leftChild i) \<le> t" using down_pick_range [of i xs] by auto
  then have "i < t" unfolding leftChild_def by presburger
  with 3 show ?case by simp
qed

declare up_loop.simps [simp del] shiftDown.simps [simp del]

definition dh_Push :: "'a Item \<Rightarrow> 'a DeHeap \<Rightarrow> 'a DeHeap" where
  "dh_Push item h = h\<lparr>dh_items := fst (shiftUp (dh_Len h) (dh_items h @ [item]))\<rparr>"

definition dh_Fix :: "nat \<Rightarrow> 'a DeHeap \<Rightarrow> 'a DeHeap" where
  "dh_Fix i h =
     (case shiftDown i (dh_items h) of
        (xs, j) \<Rightarrow> h\<lparr>dh_items := (if j > 0 then fst (shiftUp j xs) else xs)\<rparr>)"

definition dh_Remove :: "nat \<Rightarrow> 'a DeHeap \<Rightarrow> 'a DeHeap" where
  "dh_Remove i h =
     (if i \<ge> dh_Len h then h
      else h\<lparr>dh_items := fst (shiftDown i (butlast (heap_Swap i (dh_Len h - 1) (dh_items h))))\<rparr>)"

definition dh_GetMax :: "'a DeHeap \<Rightarrow> 'a Item option" where
  "dh_GetMax h = (if dh_Len h < 1 then None else Some (dh_items h ! 0))"

definition dh_min_index :: "'a DeHeap \<Rightarrow> nat" where
  "dh_min_index h =
     (if dh_Len h \<le> 1 then 0
      else if 2 < dh_Len h \<and> heap_Compare (dh_items h) 1 2 then 2 else 1)"

definition dh_GetMin :: "'a DeHeap \<Rightarrow> 'a Item option" where
  "dh_GetMin h = (if dh_Len h = 0 then None else Some (dh_items h ! dh_min_index h))"

definition dh_PopMax :: "'a DeHeap \<Rightarrow> 'a Item option \<times> 'a DeHeap" where
  "dh_PopMax h =
     (if dh_Len h = 0 then (None, h)
      else (Some (dh_items h ! 0),
            h\<lparr>dh_items := fst (shiftDown 0 (butlast (heap_Swap 0 (dh_Len h - 1) (dh_items h))))\<rparr>))"

definition dh_PopMin :: "'a DeHeap \<Rightarrow> 'a Item option \<times> 'a DeHeap" where
  "dh_PopMin h =
     (if dh_Len h = 0 then (None, h)
      else if dh_Len h = 1 then (Some (dh_items h ! 0), h\<lparr>dh_items := []\<rparr>)
      else let t = dh_min_index h in
           (Some (dh_items h ! t),
            h\<lparr>dh_items := fst (shiftDown t (butlast (heap_Swap t (dh_Len h - 1) (dh_items h))))\<rparr>))"

section \<open>The queue\<close>

datatype queue_error = ErrObjectNotFound | ErrMethodUnsupported | ErrPriority

record 'a PriorityQueue =
  pq_deHeap :: "'a DeHeap"
  pq_identityFunc :: "'a \<Rightarrow> string"
  pq_priorityFunc :: "'a \<Rightarrow> int \<times> queue_error option"

definition NewPriorityQueue :: "('a \<Rightarrow> string) \<Rightarrow> ('a \<Rightarrow> int \<times> queue_error option) \<Rightarrow> 'a PriorityQueue" where
  "NewPriorityQueue idFunc priorityFunc =
     \<lparr>pq_deHeap = NewDeHeap, pq_identityFunc = idFunc, pq_priorityFunc = priorityFunc\<rparr>"

definition pq_Front :: "'a PriorityQueue \<Rightarrow> 'a option" where
  "pq_Front q = map_option it_Obj (dh_GetMax (pq_deHeap q))"

definition pq_Back :: "'a PriorityQueue \<Rightarrow> 'a option" where
  "pq_Back q = map_option it_Obj (dh_GetMin (pq_deHeap q))"

definition pq_PopFront :: "'a PriorityQueue \<Rightarrow> 'a option \<times> 'a PriorityQueue" where
  "pq_PopFront q = (case dh_PopMax (pq_deHeap q) of (r, h) \<Rightarrow> (map_option it_Obj r, q\<lparr>pq_deHeap := h\<rparr>))"

definition pq_PopBack :: "'a PriorityQueue \<Rightarrow> 'a option \<times> 'a PriorityQueue" where
  "pq_PopBack q = (case dh_PopMin (pq_deHeap q) of (r, h) \<Rightarrow> (map_option it_Obj r, q\<lparr>pq_deHeap := h\<rparr>))"

definition pq_PushBack :: "'a \<Rightarrow> 'a PriorityQueue \<Rightarrow> queue_error option \<times> 'a PriorityQueue" where
  "pq_PushBack obj q =
     (case pq_priorityFunc q obj of
        (_, Some err) \<Rightarrow> (Some err, q)
      | (priority, None) \<Rightarrow>
          (None, q\<lparr>pq_deHeap := dh_Push \<lparr>it_ObjID = pq_identityFunc q obj, it_Obj = obj, it_Priority = priority\<rparr> (pq_deHeap q)\<rparr>))"

fun index_of_id :: "string \<Rightarrow> nat \<Rightarrow> 'a Item list \<Rightarrow> nat option" where
  "index_of_id objID i [] = None"
| "index_of_id objID i (x # xs) = (if it_ObjID x = objID then Some i else index_of_id objID (Suc i) xs)"

definition getIndexAndItemByObjID :: "string \<Rightarrow> 'a PriorityQueue \<Rightarrow> (nat \<times> 'a Item) option" where
  "getIndexAndItemByObjID objID q =
     map_option (\<lambda>i. (i, dh_items (pq_deHeap q) ! i)) (index_of_id objID 0 (dh_items (pq_deHeap q)))"

definition pq_GetByID :: "string \<Rightarrow> 'a PriorityQueue \<Rightarrow> 'a option" where
  "pq_GetByID objID q = map_option (\<lambda>(_, item). it_Obj item) (getIndexAndItemByObjID objID q)"

definition pq_DelByID :: "string \<Rightarrow> 'a PriorityQueue \<Rightarrow> queue_error option \<times> 'a PriorityQueue" where
  "pq_DelByID objID q =
     (case getIndexAndItemByObjID objID q of
        Some (index, _) \<Rightarrow> (None, q\<lparr>pq_deHeap := dh_Remove index (pq_deHeap q)\<rparr>)
      | None \<Rightarrow> (Some ErrObjectNotFound, q))"

definition pq_Len :: "'a PriorityQueue \<Rightarrow> nat" where
  "pq_Len q = dh_Len (pq_deHeap q)"

text \<open>When the priority function fails, the item already has the new object and what was returned with the error.\<close>

definition pq_UpdateObjByID :: "string \<Rightarrow> 'a \<Rightarrow> 'a PriorityQueue \<Rightarrow> queue_error option \<times> 'a PriorityQueue" where
  "pq_UpdateObjByID objID obj q =
     (case getIndexAndItemByObjID objID q of
        None \<Rightarrow> (Some ErrObjectNotFound, q)
      | Some (index, item) \<Rightarrow>
          (case pq_priorityFunc q obj of
             (priority, err) \<Rightarrow>
               let h = pq_deHeap q;
                   h1 = h\<lparr>dh_items := (dh_items h)[index := item\<lparr>it_Obj := obj, it_Priority := priority\<rparr>]\<rparr>
               in (err, q\<lparr>pq_deHeap := (if err = None then dh_Fix index h1 else h1)\<rparr>)))"

definition pq_UpdatePriorityFunc :: "('a \<Rightarrow> int \<times> queue_error option) \<Rightarrow> 'a PriorityQueue \<Rightarrow> 'a PriorityQueue" where
  "pq_UpdatePriorityFunc f q = q\<lparr>pq_priorityFunc := f\<rparr>"

text \<open>\<^verbatim>\<open>Range\<close> in storage order, \<^verbatim>\<open>SortedRange\<close> by popping a copy: the objects visited until the callback stops.\<close>

definition pq_Range :: "('a \<Rightarrow> bool) \<Rightarrow> 'a PriorityQueue \<Rightarrow> bool" where
  "pq_Range f q = list_all (\<lambda>item. f (it_Obj item)) (dh_items (pq_deHeap q))"

fun pop_all :: "nat \<Rightarrow> 'a DeHeap \<Rightarrow> 'a Item list" where
  "pop_all 0 h = []"
| "pop_all (Suc n) h = (case dh_PopMax h of (None, _) \<Rightarrow> [] | (Some x, h') \<Rightarrow> x # pop_all n h')"

definition pq_SortedRange :: "('a \<Rightarrow> bool) \<Rightarrow> 'a PriorityQueue \<Rightarrow> bool" where
  "pq_SortedRange f q = list_all (\<lambda>item. f (it_Obj item)) (pop_all (dh_Len (pq_deHeap q)) (pq_deHeap q))"

section \<open>Nothing is lost\<close>

lemma mset_Swap [simp]: "mset (heap_Swap i j xs) = mset xs"
  by (simp add: heap_Swap_def mset_swap)

lemma mset_up_loop [simp]: "mset (fst (up_loop m i xs)) = mset xs"
  by (induction m i xs rule: up_loop.induct) (subst up_loop.simps, simp add: Let_def)

lemma mset_shiftUp [simp]: "mset (fst (shiftUp i xs)) = mset xs"
  by (simp add: shiftUp_def Let_def)

lemma mset_shiftDown [simp]: "mset (fst (shiftDown i xs)) = mset xs"
  by (induction i xs rule: shiftDown.induct) (subst shiftDown.simps, simp add: Let_def)

lemma mset_swap_last:
  assumes "i < length xs"
  shows "mset xs = add_mset (xs ! i) (mset (butlast (heap_Swap i (length xs - 1) xs)))"
proof -
  let ?ys = "heap_Swap i (length xs - 1) xs"
  have ne: "?ys \<noteq> []" using assms by (auto simp: heap_Swap_def)
  have "last ?ys = xs ! i" using assms ne by (simp add: last_conv_nth) (simp add: heap_Swap_def nth_list_update)
  then have "mset ?ys = add_mset (xs ! i) (mset (butlast ?ys))"
    using append_butlast_last_id [OF ne] by (metis mset.simps(2) mset_append union_mset_add_mset_right mset.simps(1) add.right_neutral)
  then show ?thesis by simp
qed

abbreviation heap_mset :: "'a DeHeap \<Rightarrow> 'a Item multiset" where
  "heap_mset h \<equiv> mset (dh_items h)"

lemma push_mset: "heap_mset (dh_Push x h) = add_mset x (heap_mset h)"
  by (simp add: dh_Push_def)

lemma PopMax_mset: "dh_PopMax h = (Some y, h') \<Longrightarrow> heap_mset h = add_mset y (heap_mset h')"
  using mset_swap_last [of 0 "dh_items h"] by (auto simp: dh_PopMax_def dh_Len_def split: if_splits)

lemma PopMax_none: "dh_PopMax h = (None, h') \<Longrightarrow> h' = h \<and> heap_mset h = {#}"
  by (auto simp: dh_PopMax_def dh_Len_def split: if_splits)

lemma PopMin_mset: "dh_PopMin h = (Some y, h') \<Longrightarrow> heap_mset h = add_mset y (heap_mset h')"
proof (cases "dh_Len h \<le> 1")
  case True
  then show "dh_PopMin h = (Some y, h') \<Longrightarrow> ?thesis" by (cases "dh_items h") (auto simp: dh_PopMin_def dh_Len_def split: if_splits)
next
  case False
  then have "dh_min_index h < length (dh_items h)" by (auto simp: dh_min_index_def dh_Len_def)
  from mset_swap_last [OF this] False show "dh_PopMin h = (Some y, h') \<Longrightarrow> ?thesis"
    by (auto simp: dh_PopMin_def dh_Len_def Let_def split: if_splits)
qed

lemma PopMin_none: "dh_PopMin h = (None, h') \<Longrightarrow> h' = h \<and> heap_mset h = {#}"
  by (auto simp: dh_PopMin_def dh_Len_def Let_def split: if_splits)

lemma remove_mset: "i < dh_Len h \<Longrightarrow> heap_mset h = add_mset (dh_items h ! i) (heap_mset (dh_Remove i h))"
  using mset_swap_last [of i "dh_items h"] by (simp add: dh_Remove_def dh_Len_def)

lemma pop_all_mset: "n = dh_Len h \<Longrightarrow> mset (pop_all n h) = heap_mset h"
proof (induction n arbitrary: h)
  case 0
  then show ?case by (simp add: dh_Len_def)
next
  case (Suc n)
  obtain y h' where p: "dh_PopMax h = (Some y, h')" using Suc.prems by (auto simp: dh_PopMax_def)
  have "heap_mset h = add_mset y (heap_mset h')" by (rule PopMax_mset [OF p])
  then have "n = dh_Len h'" using Suc.prems by (metis Suc_inject dh_Len_def size_add_mset size_mset)
  with Suc.IH [OF this] p PopMax_mset [OF p] show ?case by simp
qed

text \<open>
  The heap neither loses nor duplicates an item: a push adds exactly the item, a pop at either end
  takes out exactly the item it returns and returns one whenever there is one, a removal takes out
  exactly the item at the index, and a fix keeps the items.
\<close>

theorem heap_keeps_items:
  "heap_mset (dh_Push x h) = add_mset x (heap_mset h) \<and>
   (case dh_PopMax h of (None, h') \<Rightarrow> h' = h \<and> heap_mset h = {#} | (Some y, h') \<Rightarrow> heap_mset h = add_mset y (heap_mset h')) \<and>
   (case dh_PopMin h of (None, h') \<Rightarrow> h' = h \<and> heap_mset h = {#} | (Some y, h') \<Rightarrow> heap_mset h = add_mset y (heap_mset h')) \<and>
   (if i < dh_Len h then heap_mset h = add_mset (dh_items h ! i) (heap_mset (dh_Remove i h)) else dh_Remove i h = h) \<and>
   heap_mset (dh_Fix i h) = heap_mset h"
proof -
  have "heap_mset (dh_Push x h) = add_mset x (heap_mset h)" by (rule push_mset)
  moreover have "case dh_PopMax h of (None, h') \<Rightarrow> h' = h \<and> heap_mset h = {#} | (Some y, h') \<Rightarrow> heap_mset h = add_mset y (heap_mset h')"
    by (auto split: prod.split option.split dest: PopMax_mset PopMax_none)
  moreover have "case dh_PopMin h of (None, h') \<Rightarrow> h' = h \<and> heap_mset h = {#} | (Some y, h') \<Rightarrow> heap_mset h = add_mset y (heap_mset h')"
    by (auto split: prod.split option.split dest: PopMin_mset PopMin_none)
  moreover have "if i < dh_Len h then heap_mset h = add_mset (dh_items h ! i) (heap_mset (dh_Remove i h)) else dh_Remove i h = h"
    by (simp add: remove_mset) (simp add: dh_Remove_def)
  moreover have "heap_mset (dh_Fix i h) = heap_mset h"
    using mset_shiftDown [of i "dh_items h"] by (cases "shiftDown i (dh_items h)") (simp add: dh_Fix_def)
  ultimately show ?thesis by blast
qed

section \<open>Order\<close>

text \<open>
  \<open>below m a b\<close>: on a level of kind \<open>m\<close> the value \<open>a\<close> may stand below \<open>b\<close>. A heap is ordered when
  every node may stand below its parent and its grandparent.
\<close>

definition below :: "bool \<Rightarrow> int \<Rightarrow> int \<Rightarrow> bool" where
  "below m a b = (if m then a \<le> b else b \<le> a)"

lemma below_refl [simp]: "below m a a" by (simp add: below_def)
lemma below_trans: "below m a b \<Longrightarrow> below m b c \<Longrightarrow> below m a c" by (auto simp: below_def split: if_splits)
lemma below_flip: "below (\<not> m) a b = below m b a" by (simp add: below_def)

definition prio_at :: "'a Item list \<Rightarrow> nat \<Rightarrow> int" where
  "prio_at xs i = it_Priority (xs ! i)"

definition parents_ok :: "nat \<Rightarrow> (nat \<Rightarrow> int) \<Rightarrow> bool" where
  "parents_ok n f \<longleftrightarrow> (\<forall>j<n. 0 < j \<longrightarrow> below (isMaxLevel (parent j)) (f j) (f (parent j)))"

definition grandparents_ok :: "nat set \<Rightarrow> nat \<Rightarrow> (nat \<Rightarrow> int) \<Rightarrow> bool" where
  "grandparents_ok E n f \<longleftrightarrow>
     (\<forall>j<n. 2 < j \<longrightarrow> j \<notin> E \<longrightarrow> below (isMaxLevel j) (f j) (f (parent (parent j))))"

definition heap_ok :: "'a Item list \<Rightarrow> bool" where
  "heap_ok xs \<longleftrightarrow> parents_ok (length xs) (prio_at xs) \<and> grandparents_ok {} (length xs) (prio_at xs)"

lemma level_grandparent: "2 < j \<Longrightarrow> isMaxLevel (parent (parent j)) = isMaxLevel j"
  using isMaxLevel_parent [of j] isMaxLevel_parent [of "parent j"] by (simp add: parent_def)

lemma root_level: "isMaxLevel 0" "\<not> isMaxLevel 1" "\<not> isMaxLevel 2"
  by code_simp+

lemma heap_root_max:
  assumes "heap_ok xs" "j < length xs" shows "prio_at xs j \<le> prio_at xs 0"
  using assms(2)
proof (induction j rule: less_induct)
  case (less j)
  consider "j = 0" | "0 < j" "isMaxLevel (parent j)" | "0 < j" "\<not> isMaxLevel (parent j)" by auto
  then show ?case
  proof cases
    case 2
    then have "prio_at xs j \<le> prio_at xs (parent j)"
      using assms(1) less.prems by (auto simp: heap_ok_def parents_ok_def below_def)
    with less.IH [of "parent j"] less.prems parent_less [OF 2(1)] show ?thesis by fastforce
  next
    case 3
    then have m: "isMaxLevel j" using isMaxLevel_parent by blast
    then have "2 < j" using 3(1) root_level by (metis One_nat_def less_2_cases not_less_eq less_antisym numeral_2_eq_2)
    then have "prio_at xs j \<le> prio_at xs (parent (parent j))" "parent (parent j) < j"
      using assms(1) less.prems m by (auto simp: heap_ok_def grandparents_ok_def below_def parent_def)
    with less.IH [of "parent (parent j)"] less.prems show ?thesis by fastforce
  qed simp
qed

text \<open>
  The loop of \<^verbatim>\<open>shiftUp\<close>: everything is in order except the node \<open>i\<close> with its grandparent, and what
  stands below \<open>i\<close> may also stand below that grandparent.
\<close>

definition up_inv :: "bool \<Rightarrow> nat \<Rightarrow> nat \<Rightarrow> (nat \<Rightarrow> int) \<Rightarrow> bool" where
  "up_inv m i n f \<longleftrightarrow> i < n \<and> isMaxLevel i = m \<and> parents_ok n f \<and> grandparents_ok {i} n f \<and>
     (2 < i \<longrightarrow> (\<forall>j<n. (0 < j \<and> parent j = i \<or> 2 < j \<and> parent (parent j) = i) \<longrightarrow>
        below m (f j) (f (parent (parent i)))))"

lemma parents_okD: "parents_ok n f \<Longrightarrow> j < n \<Longrightarrow> 0 < j \<Longrightarrow> below (isMaxLevel (parent j)) (f j) (f (parent j))"
  by (simp add: parents_ok_def)

lemma grandparents_okD:
  "grandparents_ok E n f \<Longrightarrow> j < n \<Longrightarrow> 2 < j \<Longrightarrow> j \<notin> E \<Longrightarrow> below (isMaxLevel j) (f j) (f (parent (parent j)))"
  by (simp add: grandparents_ok_def)

text \<open>One step upwards exchanges node \<open>i\<close> with its grandparent \<open>g\<close>; \<open>p\<close> is the parent between them.\<close>

lemma up_step_facts:
  assumes inv: "up_inv m i n f" and i: "2 < i" and p: "p = parent i" and g: "g = parent p"
  shows "g < p" "p < i" "0 < p" "i < n" "p < n" "g < n" "isMaxLevel i = m" "isMaxLevel g = m" "isMaxLevel p = (\<not> m)"
    "parents_ok n f" "grandparents_ok {i} n f"
    "\<And>j. j < n \<Longrightarrow> 0 < j \<and> parent j = i \<or> 2 < j \<and> parent (parent j) = i \<Longrightarrow> below m (f j) (f g)"
proof -
  show ix: "g < p" "p < i" "0 < p" using i by (auto simp: g p parent_def)
  show n: "i < n" "p < n" "g < n" and mi: "isMaxLevel i = m" and "parents_ok n f" "grandparents_ok {i} n f"
    and "\<And>j. j < n \<Longrightarrow> 0 < j \<and> parent j = i \<or> 2 < j \<and> parent (parent j) = i \<Longrightarrow> below m (f j) (f g)"
    using inv ix i by (auto simp: up_inv_def g p)
  show "isMaxLevel g = m" "isMaxLevel p = (\<not> m)"
    using level_grandparent [OF i] isMaxLevel_parent [of i] i mi by (auto simp: g p)
qed

lemma up_step_parents:
  assumes inv: "up_inv m i n f" and i: "2 < i" and p: "p = parent i" and g: "g = parent p" and le: "below m (f g) (f i)"
  shows "parents_ok n (f(i := f g, g := f i))"
  unfolding parents_ok_def
proof (intro allI impI)
  note F = up_step_facts [OF inv i p g]
  let ?f = "f(i := f g, g := f i)"
  fix j assume j: "j < n" "0 < j"
  consider "j = i" | "j = g" | "j \<noteq> i" "j \<noteq> g" "parent j = i" | "j \<noteq> i" "j \<noteq> g" "parent j = g"
    | "j \<noteq> i" "j \<noteq> g" "parent j \<noteq> i" "parent j \<noteq> g" by blast
  then show "below (isMaxLevel (parent j)) (?f j) (?f (parent j))"
  proof cases
    case 1
    have "below m (f p) (f g)" using parents_okD [OF F(10,5,3)] F(8) g by simp
    then show ?thesis using 1 F(1,2,9) by (simp add: p [symmetric] below_flip)
  next
    case 2
    have lv: "isMaxLevel (parent g) = (\<not> m)" using isMaxLevel_parent [of g] 2 j F(8) by blast
    then have "below m (f (parent g)) (f g)" using parents_okD [OF F(10,6)] 2 j by (simp add: below_flip)
    then have "below m (f (parent g)) (f i)" using le by (rule below_trans)
    then show ?thesis using 2 F(1,2) lv parent_less [of g] j by (simp add: below_flip)
  next
    case 3
    then show ?thesis using F(12) [OF j(1)] j F(1,2,7) by simp
  next
    case 4
    have "below m (f j) (f g)" using parents_okD [OF F(10) j] 4 F(8) by simp
    then show ?thesis using 4 F(1,2,8) le below_trans by auto
  next
    case 5
    then show ?thesis using parents_okD [OF F(10) j] by simp
  qed
qed

lemma up_step_grandparents:
  assumes inv: "up_inv m i n f" and i: "2 < i" and p: "p = parent i" and g: "g = parent p" and le: "below m (f g) (f i)"
  shows "grandparents_ok {g} n (f(i := f g, g := f i))"
  unfolding grandparents_ok_def
proof (intro allI impI)
  note F = up_step_facts [OF inv i p g]
  let ?f = "f(i := f g, g := f i)"
  fix j assume j: "j < n" "2 < j" "j \<notin> {g}"
  consider "j = i" | "j \<noteq> i" "parent (parent j) = i" | "j \<noteq> i" "parent (parent j) = g"
    | "j \<noteq> i" "parent (parent j) \<noteq> i" "parent (parent j) \<noteq> g" by blast
  then show "below (isMaxLevel j) (?f j) (?f (parent (parent j)))"
  proof cases
    case 1
    then show ?thesis using le F(1,2,7) by (simp add: g [symmetric] p [symmetric])
  next
    case 2
    then have "isMaxLevel j = m" using level_grandparent [OF j(2)] F(7) by simp
    then show ?thesis using 2 F(12) [OF j(1)] j F(1,2) by simp
  next
    case 3
    then have mj: "isMaxLevel j = m" using level_grandparent [OF j(2)] F(8) by simp
    have "below m (f j) (f g)" using grandparents_okD [OF F(11) j(1,2)] 3 mj by simp
    then show ?thesis using 3 mj j F(1,2) le below_trans by auto
  next
    case 4
    then show ?thesis using grandparents_okD [OF F(11) j(1,2)] j by simp
  qed
qed

lemma up_step_down:
  assumes inv: "up_inv m i n f" and i: "2 < i" and p: "p = parent i" and g: "g = parent p"
    and g2: "2 < g" and j: "j < n" "0 < j \<and> parent j = g \<or> 2 < j \<and> parent (parent j) = g"
  shows "below m ((f(i := f g, g := f i)) j) ((f(i := f g, g := f i)) (parent (parent g)))"
proof -
  note F = up_step_facts [OF inv i p g]
  have gg: "parent (parent g) < g" using g2 by (simp add: parent_def)
  have up: "below m (f g) (f (parent (parent g)))" using grandparents_okD [OF F(11,6) g2] F(1,2,8) by simp
  have jg: "j \<noteq> g" using j(2) parent_less [of g] gg by auto
  show ?thesis
  proof (cases "j = i")
    case True
    then show ?thesis using up gg F(1,2) by simp
  next
    case False
    have "below m (f j) (f g)"
      using j(2)
    proof
      assume "0 < j \<and> parent j = g" then show ?thesis using parents_okD [OF F(10) j(1)] F(8) by auto
    next
      assume gp: "2 < j \<and> parent (parent j) = g"
      then have "isMaxLevel j = m" using level_grandparent [of j] F(8) by simp
      then show ?thesis using grandparents_okD [OF F(11) j(1)] gp False by auto
    qed
    then show ?thesis using False jg gg F(1,2) below_trans [OF _ up] by simp
  qed
qed

lemma up_inv_step:
  assumes inv: "up_inv m i n f" and i: "2 < i" and g: "g = parent (parent i)" and le: "below m (f g) (f i)"
  shows "up_inv m g n (f(i := f g, g := f i))"
  using up_step_parents [OF inv i refl g le] up_step_grandparents [OF inv i refl g le]
    up_step_down [OF inv i refl g] up_step_facts(6,8) [OF inv i refl g]
  unfolding up_inv_def by blast

lemma prio_Swap:
  assumes "i < length xs" "j < length xs"
  shows "prio_at (heap_Swap i j xs) = (prio_at xs)(j := prio_at xs i, i := prio_at xs j)"
  using assms by (auto simp: fun_eq_iff prio_at_def heap_Swap_def nth_list_update)

lemma Compare_prio:
  "i < length xs \<Longrightarrow> j < length xs \<Longrightarrow> heap_Compare xs i j \<longleftrightarrow> prio_at xs j < prio_at xs i"
  by (simp add: heap_Compare_def prio_at_def)

lemma up_loop_ok: "up_inv m i (length xs) (prio_at xs) \<Longrightarrow> heap_ok (fst (up_loop m i xs))"
proof (induction m i xs rule: up_loop.induct)
  case (1 m i xs)
  let ?g = "nat (grandparent i)"
  show ?case
  proof (cases "grandparent i < 0")
    case True
    then have "heap_ok xs" using 1(2) grandparent_neg [of i] by (auto simp: up_inv_def heap_ok_def grandparents_ok_def)
    with True show ?thesis by (subst up_loop.simps) simp
  next
    case False
    then have i: "2 < i" "i < length xs" using grandparent_neg [of i] 1(2) by (auto simp: up_inv_def)
    then have g: "?g = parent (parent i)" "?g < length xs" using grandparent_parent [of i] by (auto simp: parent_def)
    show ?thesis
    proof (cases "heap_Compare xs ?g i = m")
      case True
      then have "below m (prio_at xs i) (prio_at xs ?g)" using Compare_prio [OF g(2) i(2)] by (auto simp: below_def)
      then have "heap_ok xs" using 1(2) g by (auto simp: up_inv_def heap_ok_def grandparents_ok_def)
      with False True show ?thesis by (subst up_loop.simps) (simp add: Let_def)
    next
      case ne: False
      then have "below m (prio_at xs ?g) (prio_at xs i)" using Compare_prio [OF g(2) i(2)] by (auto simp: below_def)
      from up_inv_step [OF 1(2) i(1) g(1) this]
      have "up_inv m ?g (length xs) (prio_at (heap_Swap ?g i xs))" using i g by (simp add: prio_Swap)
      with 1(1) [OF refl False ne] False ne show ?thesis by (subst up_loop.simps) (simp add: Let_def)
    qed
  qed
qed

text \<open>The first move of \<^verbatim>\<open>shiftUp\<close>, for a new last node \<open>i\<close>.\<close>

lemma up_inv_leaf:
  assumes pa: "parents_ok i f" and ga: "grandparents_ok {} i f" and p: "0 < i \<Longrightarrow> below (isMaxLevel (parent i)) (f i) (f (parent i))"
  shows "up_inv (isMaxLevel i) i (Suc i) f"
proof -
  have "below (isMaxLevel (parent j)) (f j) (f (parent j))" if "j < Suc i" "0 < j" for j
    using that pa p by (cases "j = i") (auto simp: parents_ok_def)
  moreover have "parent j \<noteq> i" "parent (parent j) \<noteq> i" if "j < Suc i" "0 < j" for j
    using that by (auto simp: parent_def)
  ultimately show ?thesis using ga by (auto simp: up_inv_def parents_ok_def grandparents_ok_def less_Suc_eq)
qed

lemma up_inv_parent:
  assumes pa: "parents_ok i f" and ga: "grandparents_ok {} i f" and i: "0 < i" and p: "p = parent i"
    and le: "below (isMaxLevel p) (f p) (f i)"
  shows "up_inv (isMaxLevel p) p (Suc i) (f(i := f p, p := f i))"
proof -
  let ?f = "f(i := f p, p := f i)" and ?m = "isMaxLevel p"
  have pi: "p < i" using i p parent_less by blast
  have out: "parent j \<noteq> i" "parent (parent j) \<noteq> i" if "j < Suc i" "0 < j" for j using that by (auto simp: parent_def)
  have child: "below ?m (f j) (f i)" "below ?m (f j) (f p)" if "j < i" "0 < j \<and> parent j = p \<or> 2 < j \<and> parent (parent j) = p" for j
  proof -
    show "below ?m (f j) (f p)" using that(2)
    proof
      assume "0 < j \<and> parent j = p" then show ?thesis using parents_okD [OF pa that(1)] by auto
    next
      assume gp: "2 < j \<and> parent (parent j) = p"
      then show ?thesis using grandparents_okD [OF ga that(1)] level_grandparent [of j] by auto
    qed
    then show "below ?m (f j) (f i)" using le by (rule below_trans)
  qed
  have above: "below ?m (f (parent p)) (f p)" "below ?m (f (parent p)) (f i)" "isMaxLevel (parent p) = (\<not> ?m)" if "0 < p"
  proof -
    show lv: "isMaxLevel (parent p) = (\<not> ?m)" by (rule isMaxLevel_parent [OF that])
    then show "below ?m (f (parent p)) (f p)" using parents_okD [OF pa pi that] by (simp add: below_flip)
    then show "below ?m (f (parent p)) (f i)" using le by (rule below_trans)
  qed
  have "below (isMaxLevel (parent j)) (?f j) (?f (parent j))" if j: "j < Suc i" "0 < j" for j
  proof -
    consider "j = i" | "j = p" | "j < i" "j \<noteq> p" using j by linarith
    then show ?thesis
    proof cases
      case 1 then show ?thesis using le pi p by simp
    next
      case 2 then show ?thesis using above j pi parent_less [of p] by (simp add: below_flip)
    next
      case 3 then show ?thesis using child(1) [of j] parents_okD [OF pa 3(1)] j out [of j] by auto
    qed
  qed
  moreover have "below (isMaxLevel j) (?f j) (?f (parent (parent j)))" if j: "j < Suc i" "2 < j" "j \<noteq> p" for j
  proof (cases "j = i")
    case True
    then have "0 < p" "isMaxLevel j = (\<not> ?m)" using j p isMaxLevel_parent [of i] i by (auto simp: parent_def)
    then show ?thesis using above True p pi parent_less [of p] by (simp add: below_flip)
  next
    case False
    then have "j < i" using j by simp
    then show ?thesis using child(1) [of j] grandparents_okD [OF ga, of j] level_grandparent [of j] out [of j] False j by auto
  qed
  moreover have "below ?m (?f j) (?f (parent (parent p)))"
    if "2 < p" "j < Suc i" "0 < j \<and> parent j = p \<or> 2 < j \<and> parent (parent j) = p" for j
  proof -
    have gg: "parent (parent p) < p" using that(1) by (simp add: parent_def)
    have up: "below ?m (f p) (f (parent (parent p)))" using grandparents_okD [OF ga pi that(1)] by simp
    have "j \<noteq> p" using that(3) parent_less [of p] gg by auto
    then show ?thesis using gg pi up child(2) [of j] that below_trans [OF _ up] by (cases "j = i") auto
  qed
  ultimately show ?thesis using pi unfolding up_inv_def parents_ok_def grandparents_ok_def by auto
qed

lemma shiftUp_ok:
  assumes "heap_ok ys" shows "heap_ok (fst (shiftUp (length ys) (ys @ [x])))"
proof -
  let ?xs = "ys @ [x]" and ?i = "length ys"
  let ?f = "prio_at ?xs" and ?p = "parent ?i"
  have same: "?f j = prio_at ys j" if "j < ?i" for j using that by (simp add: prio_at_def nth_append)
  have lt: "parent j < ?i" "parent (parent j) < ?i" if "j < ?i" for j using that by (auto simp: parent_def)
  have pa: "parents_ok ?i ?f" and ga: "grandparents_ok {} ?i ?f"
    using assms by (auto simp: heap_ok_def parents_ok_def grandparents_ok_def same lt)
  have pn: "?p < length ?xs" by (simp add: parent_def)
  show ?thesis
  proof (cases "heap_Compare ?xs ?p ?i = isMaxLevel ?i")
    case True
    have i: "0 < ?i"
    proof (rule ccontr)
      assume "\<not> 0 < ?i"
      with True show False using root_level(1) by (simp add: heap_Compare_def parent_def)
    qed
    have "below (isMaxLevel ?p) (?f ?p) (?f ?i)"
      using True Compare_prio [OF pn, of ?i] isMaxLevel_parent [OF i] by (auto simp: below_def)
    from up_inv_parent [OF pa ga i refl this] have "up_inv (isMaxLevel ?p) ?p (length (heap_Swap ?p ?i ?xs)) (prio_at (heap_Swap ?p ?i ?xs))"
      using pn by (simp add: prio_Swap)
    from up_loop_ok [OF this] True show ?thesis using isMaxLevel_parent [OF i] by (simp add: shiftUp_def Let_def)
  next
    case False
    have "below (isMaxLevel ?p) (?f ?i) (?f ?p)" if i: "0 < ?i"
      using False Compare_prio [OF pn, of ?i] isMaxLevel_parent [OF i] by (auto simp: below_def)
    from up_inv_leaf [OF pa ga this] have "up_inv (isMaxLevel ?i) ?i (length ?xs) ?f" by simp
    from up_loop_ok [OF this] False show ?thesis by (simp add: shiftUp_def Let_def)
  qed
qed

lemma heap_second_min:
  assumes "heap_ok xs" "j < length xs" "0 < j"
  shows "\<exists>k\<in>{1, 2}. k < length xs \<and> prio_at xs k \<le> prio_at xs j"
  using assms(2,3)
proof (induction j rule: less_induct)
  case (less j)
  consider "j \<le> 2" | "2 < j" "isMaxLevel j" | "2 < j" "\<not> isMaxLevel j" by linarith
  then show ?case
  proof cases
    case 1
    then have "j \<in> {1, 2}" using less.prems by auto
    with less.prems show ?thesis by blast
  next
    case 2
    then have "prio_at xs (parent j) \<le> prio_at xs j" "0 < parent j" "parent j < j"
      using assms(1) less.prems isMaxLevel_parent [of j]
      by (auto simp: heap_ok_def parents_ok_def below_def parent_def split: if_splits)
    with less.IH [of "parent j"] less.prems show ?thesis by fastforce
  next
    case 3
    then have gp: "prio_at xs (parent (parent j)) \<le> prio_at xs j" "parent (parent j) < j"
      using assms(1) less.prems by (auto simp: heap_ok_def grandparents_ok_def below_def parent_def split: if_splits)
    have "0 < parent (parent j)" using 3 root_level(1) level_grandparent [OF 3(1)] by (metis gr0I)
    with gp less.IH [of "parent (parent j)"] less.prems show ?thesis by fastforce
  qed
qed

text \<open>
  A heap built by pushes is ordered, and in an ordered heap the front item has the greatest
  priority of all and the back item the least.
\<close>

theorem push_keeps_order:
  assumes "heap_ok (dh_items h)"
  shows "heap_ok (dh_items (dh_Push x h)) \<and>
    (\<forall>top bot y. dh_GetMax h = Some top \<longrightarrow> dh_GetMin h = Some bot \<longrightarrow> y \<in> set (dh_items h) \<longrightarrow>
       it_Priority bot \<le> it_Priority y \<and> it_Priority y \<le> it_Priority top)"
proof -
  let ?xs = "dh_items h"
  have "it_Priority (?xs ! dh_min_index h) \<le> it_Priority y \<and> it_Priority y \<le> it_Priority (?xs ! 0)"
    if y: "y \<in> set ?xs" for y
  proof -
    obtain j where j: "j < length ?xs" "y = ?xs ! j" using y by (metis in_set_conv_nth)
    have top: "prio_at ?xs j \<le> prio_at ?xs 0" by (rule heap_root_max [OF assms j(1)])
    have min: "prio_at ?xs (dh_min_index h) \<le> prio_at ?xs k" if "k \<in> {1, 2}" "k < length ?xs" for k
      using that by (auto simp: dh_min_index_def dh_Len_def heap_Compare_def prio_at_def)
    have "prio_at ?xs (dh_min_index h) \<le> prio_at ?xs j"
    proof (cases "j = 0")
      case True
      have "1 < length ?xs \<Longrightarrow> prio_at ?xs 1 \<le> prio_at ?xs 0" by (rule heap_root_max [OF assms])
      with True min [of 1] show ?thesis by (cases "1 < length ?xs") (auto simp: dh_min_index_def dh_Len_def)
    next
      case False
      with heap_second_min [OF assms j(1)] min show ?thesis by fastforce
    qed
    with top j show ?thesis by (simp add: prio_at_def)
  qed
  moreover have "heap_ok (dh_items (dh_Push x h))" using shiftUp_ok [OF assms] by (simp add: dh_Push_def dh_Len_def)
  ultimately show ?thesis by (auto simp: dh_GetMax_def dh_GetMin_def split: if_splits)
qed

definition sample_heap :: "int list \<Rightarrow> unit DeHeap" where
  "sample_heap = foldl (\<lambda>h p. dh_Push \<lparr>it_ObjID = [], it_Obj = (), it_Priority = p\<rparr> h) NewDeHeap"

theorem push_keeps_order_witness:
  "heap_ok (dh_items (dh_Push \<lparr>it_ObjID = [], it_Obj = (), it_Priority = 3\<rparr> (NewDeHeap :: unit DeHeap)))"
  using push_keeps_order [of "NewDeHeap :: unit DeHeap"]
  by (simp add: NewDeHeap_def heap_ok_def parents_ok_def grandparents_ok_def)

text \<open>
  Removals do not keep the order. After these twelve pushes the fourth item popped from the front
  has priority 8 while items of priority 10 are still in the queue: \<^verbatim>\<open>shiftDown\<close> goes on at the parent it
  swapped with and leaves the old parent's item above its own descendants.
\<close>

theorem pop_order_broken:
  "map it_Priority (pop_all 12 (sample_heap [8, 10, 8, 12, 6, 9, 3, 10, 12, 8, 7, 1])) =
     [12, 12, 9, 8, 10, 10, 8, 8, 7, 6, 3, 1]"
  by code_simp

end
