(* ===== verification/InstanceQueue.thy ===== *)
theory InstanceQueue
  imports LitePool PriorityQueue
begin

text \<open>
  The instance queues of the concurrency schedulers
  (\<^verbatim>\<open>concurrencyscheduler/basic_concurrency_scheduler.go\<close>, \<^verbatim>\<open>scaled_concurrency_scheduler.go\<close>): instances with
  the threads they have to give, the priority queue of the reserved scheduler, the queue with a buffer
  for busy instances of the scaled scheduler, the records of sub-healthy and evicting instances around
  them, and the observer that publishes every change of the numbers of threads.
\<close>

section \<open>Instances and their threads\<close>

text \<open>The status codes of the kernel, and the errors of the schedulers.\<close>

abbreviation (input) statusRunning :: int where "statusRunning \<equiv> 3"
abbreviation (input) statusEvicting :: int where "statusEvicting \<equiv> 9"
abbreviation (input) statusSubHealth :: int where "statusSubHealth \<equiv> 11"

datatype sched_error =
    ErrUnsupported | ErrInternal | ErrTypeConvertFail | ErrInsNotExist | ErrInsAlreadyExist | ErrInsSubHealthy
  | ErrNoInsAvailable | ErrDesignateInsNotAvailable | ErrInsReqTimeout | ErrInvalidSession | ErrFuncSigMismatch
  | ErrFunctionDeleted | ErrSessionNotFound | ErrOverAcqLimitExceeded | ErrInsThdNotExist | ErrNoInsThdAvail
  | ErrQueue queue_error

text \<open>The fields of \<^verbatim>\<open>types.Instance\<close> that these schedulers read beside those of the session scheduler.\<close>

record SchedInstance = Instance +
  in_CreateSchedulerID :: string
  in_Permanent :: bool

record instanceElement =
  ie_instance :: SchedInstance
  ie_threadIndex :: int
  ie_threadIDPrefix :: string
  ie_isNewInstance :: bool
  ie_isPriorityAZ :: bool
  ie_threadMap :: "string fset"

abbreviation ie_ID :: "instanceElement \<Rightarrow> string" where "ie_ID e \<equiv> in_InstanceID (ie_instance e)"
abbreviation ie_ConcurrentNum :: "instanceElement \<Rightarrow> int" where "ie_ConcurrentNum e \<equiv> in_ConcurrentNum (ie_instance e)"
abbreviation ie_Code :: "instanceElement \<Rightarrow> int" where "ie_Code e \<equiv> in_Code (ie_instance e)"
abbreviation ie_avail :: "instanceElement \<Rightarrow> int" where "ie_avail e \<equiv> int (fcard (ie_threadMap e))"

definition getInstancePriorityBonus :: "instanceElement \<Rightarrow> int" where
  "getInstancePriorityBonus insElem =
     (if ie_isNewInstance insElem \<and> ie_avail insElem > 0 then ie_ConcurrentNum insElem else 0) +
     (if ie_isPriorityAZ insElem \<and> ie_avail insElem > 0 then ie_ConcurrentNum insElem else 0)"

definition thread_id :: "instanceElement \<Rightarrow> int \<Rightarrow> string" where
  "thread_id i n = ie_ID i @ ''-thread'' @ ie_threadIDPrefix i @ ''-'' @ showInt n"

definition PutThreadToThreadMap :: "string \<Rightarrow> instanceElement \<Rightarrow> instanceElement" where
  "PutThreadToThreadMap threadID i =
     (if threadID |\<in>| ie_threadMap i then i
      else if ie_avail i \<ge> ie_ConcurrentNum i then i
      else i\<lparr>ie_threadMap := finsert (thread_id i (ie_threadIndex i)) (ie_threadMap i),
             ie_threadIndex := ie_threadIndex i + 1\<rparr>)"

text \<open>A \<^verbatim>\<open>range\<close> that stops at once takes some key of the map: \<open>pick\<close> says which one.\<close>

definition picks :: "(string fset \<Rightarrow> string) \<Rightarrow> bool" where
  "picks pick \<longleftrightarrow> (\<forall>m. m \<noteq> {||} \<longrightarrow> pick m |\<in>| m)"

definition take_key :: "(string fset \<Rightarrow> string) \<Rightarrow> string fset \<Rightarrow> string \<times> string fset" where
  "take_key pick m = (if m = {||} then ([], m) else (pick m, m |-| {|pick m|}))"

definition GetThreadFromThreadMap :: "(string fset \<Rightarrow> string) \<Rightarrow> instanceElement \<Rightarrow> string \<times> instanceElement" where
  "GetThreadFromThreadMap pick i =
     (case take_key pick (ie_threadMap i) of (threadID, m) \<Rightarrow> (threadID, i\<lparr>ie_threadMap := m\<rparr>))"

definition initThreadMap :: "string \<Rightarrow> instanceElement \<Rightarrow> instanceElement" where
  "initThreadMap idPrefix i =
     (let i1 = i\<lparr>ie_threadIDPrefix := idPrefix\<rparr>; n = ie_ConcurrentNum i
      in i1\<lparr>ie_threadMap := fset_of_list (map (thread_id i1) [1..n]),
            ie_threadIndex := (if n < 1 then 1 else n + 1)\<rparr>)"

text \<open>
  Elements are shared by queues and sessions, so they live behind pointers. \<open>ew_updating\<close> is what
  \<^verbatim>\<open>rollout.GetGlobalRolloutConfig().IsUpdating()\<close> answers. Pointers in the queues always point to an
  element; \<open>elem\<close> reads through one.
\<close>

record elemWorld =
  ew_elems :: "(nat, instanceElement) gomap"
  ew_updating :: bool

definition nil_element :: instanceElement where
  "nil_element =
     \<lparr>ie_instance = \<lparr>in_InstanceID = [], in_FuncKey = [], in_ConcurrentNum = 0, in_Code = 0, in_InstanceIP = [],
        in_InstancePort = [], in_NodeIP = [], in_NodePort = [], in_FuncSig = [], in_FunctionProxyID = [],
        in_RouteAddress = [], in_AZ = [], in_SessionCtxID = None, in_CreateSchedulerID = [], in_Permanent = False\<rparr>,
      ie_threadIndex = 0, ie_threadIDPrefix = [], ie_isNewInstance = False, ie_isPriorityAZ = False,
      ie_threadMap = {||}\<rparr>"

definition elem :: "elemWorld \<Rightarrow> nat \<Rightarrow> instanceElement" where
  "elem w p = (case fmlookup (ew_elems w) p of None \<Rightarrow> nil_element | Some e \<Rightarrow> e)"

definition getInstanceID :: "elemWorld \<Rightarrow> nat \<Rightarrow> string" where
  "getInstanceID w p = ie_ID (elem w p)"

section \<open>Priorities\<close>

definition priorityFuncForReservedInstance :: "elemWorld \<Rightarrow> nat \<Rightarrow> int \<times> queue_error option" where
  "priorityFuncForReservedInstance w p =
     (let insElem = elem w p in (ie_avail insElem + getInstancePriorityBonus insElem, None))"

definition priorityFuncForScaledInstance :: "int \<Rightarrow> elemWorld \<Rightarrow> nat \<Rightarrow> int \<times> queue_error option" where
  "priorityFuncForScaledInstance concurrency w p =
     (let insElem = elem w p in
      if ew_updating w then
        let weight = concurrency - ie_avail insElem
        in (if \<not> ie_isNewInstance insElem then - concurrency - weight else weight, None)
      else (concurrency - ie_avail insElem + getInstancePriorityBonus insElem, None))"

definition shouldPopScaledInstance :: "elemWorld \<Rightarrow> nat \<Rightarrow> bool" where
  "shouldPopScaledInstance w p \<longleftrightarrow> ie_avail (elem w p) = ie_ConcurrentNum (elem w p)"

section \<open>The inner queues\<close>

text \<open>
  The closures of a priority queue read the elements at the time of the call: \<open>at_world\<close> gives a queue
  the closures of the current elements. \<open>prioFunc\<close> is which of the two functions was handed over.
\<close>

datatype prioFunc = ForReserved | ForScaled int

definition prio_of :: "prioFunc \<Rightarrow> elemWorld \<Rightarrow> nat \<Rightarrow> int \<times> queue_error option" where
  "prio_of f = (case f of ForReserved \<Rightarrow> priorityFuncForReservedInstance | ForScaled n \<Rightarrow> priorityFuncForScaledInstance n)"

definition at_world :: "prioFunc \<Rightarrow> elemWorld \<Rightarrow> nat PriorityQueue \<Rightarrow> nat PriorityQueue" where
  "at_world f w q = q\<lparr>pq_identityFunc := getInstanceID w, pq_priorityFunc := prio_of f w\<rparr>"

record instanceQueueWithBuffer =
  bq_queue :: "nat PriorityQueue"
  bq_buffer :: "nat list"

definition bq_Front :: "instanceQueueWithBuffer \<Rightarrow> nat option" where
  "bq_Front p =
     (if pq_Len (bq_queue p) \<noteq> 0 then pq_Front (bq_queue p)
      else case bq_buffer p of [] \<Rightarrow> None | x # _ \<Rightarrow> Some x)"

definition bq_Back :: "instanceQueueWithBuffer \<Rightarrow> nat option" where
  "bq_Back p =
     (if pq_Len (bq_queue p) \<noteq> 0 then pq_Back (bq_queue p)
      else if bq_buffer p = [] then None else Some (last (bq_buffer p)))"

definition bq_PopFront :: "instanceQueueWithBuffer \<Rightarrow> nat option \<times> instanceQueueWithBuffer" where
  "bq_PopFront p =
     (if pq_Len (bq_queue p) \<noteq> 0
      then (case pq_PopFront (bq_queue p) of (r, q) \<Rightarrow> (r, p\<lparr>bq_queue := q\<rparr>))
      else case bq_buffer p of [] \<Rightarrow> (None, p) | x # rest \<Rightarrow> (Some x, p\<lparr>bq_buffer := rest\<rparr>))"

definition bq_PopBack :: "instanceQueueWithBuffer \<Rightarrow> nat option \<times> instanceQueueWithBuffer" where
  "bq_PopBack p =
     (if pq_Len (bq_queue p) \<noteq> 0
      then (case pq_PopBack (bq_queue p) of (r, q) \<Rightarrow> (r, p\<lparr>bq_queue := q\<rparr>))
      else if bq_buffer p = [] then (None, p)
      else (Some (last (bq_buffer p)), p\<lparr>bq_buffer := butlast (bq_buffer p)\<rparr>))"

definition bq_PushBack :: "elemWorld \<Rightarrow> nat \<Rightarrow> instanceQueueWithBuffer \<Rightarrow> queue_error option \<times> instanceQueueWithBuffer" where
  "bq_PushBack w obj p =
     (if ie_threadMap (elem w obj) = {||} then (None, p\<lparr>bq_buffer := bq_buffer p @ [obj]\<rparr>)
      else case pq_PushBack obj (bq_queue p) of (err, q) \<Rightarrow> (err, p\<lparr>bq_queue := q\<rparr>))"

definition bq_GetByID :: "elemWorld \<Rightarrow> string \<Rightarrow> instanceQueueWithBuffer \<Rightarrow> nat option" where
  "bq_GetByID w objID p =
     (case pq_GetByID objID (bq_queue p) of
        Some get \<Rightarrow> Some get
      | None \<Rightarrow> find (\<lambda>item. getInstanceID w item = objID) (bq_buffer p))"

text \<open>\<open>remove_first P xs\<close> cuts the first element that satisfies \<open>P\<close> out of a slice.\<close>

fun remove_first :: "('a \<Rightarrow> bool) \<Rightarrow> 'a list \<Rightarrow> 'a list" where
  "remove_first P [] = []"
| "remove_first P (x # xs) = (if P x then xs else x # remove_first P xs)"

definition bq_DelByID :: "elemWorld \<Rightarrow> string \<Rightarrow> instanceQueueWithBuffer \<Rightarrow> queue_error option \<times> instanceQueueWithBuffer" where
  "bq_DelByID w objID p =
     (case pq_DelByID objID (bq_queue p) of
        (None, q) \<Rightarrow> (None, p\<lparr>bq_queue := q\<rparr>)
      | (Some err, q) \<Rightarrow>
          if err \<noteq> ErrObjectNotFound then (Some err, p\<lparr>bq_queue := q\<rparr>)
          else if find (\<lambda>item. getInstanceID w item = objID) (bq_buffer p) = None
          then (Some ErrObjectNotFound, p)
          else (None, p\<lparr>bq_buffer := remove_first (\<lambda>item. getInstanceID w item = objID) (bq_buffer p)\<rparr>))"

text \<open>
  The loop of \<^verbatim>\<open>UpdateObjByID\<close> over the buffer overwrites every item with the ID and remembers the last
  index; \<open>remove_last\<close> cuts that one out.
\<close>

definition remove_last :: "('a \<Rightarrow> bool) \<Rightarrow> 'a list \<Rightarrow> 'a list" where
  "remove_last P xs = rev (remove_first P (rev xs))"

definition bq_UpdateObjByID ::
  "elemWorld \<Rightarrow> string \<Rightarrow> nat \<Rightarrow> instanceQueueWithBuffer \<Rightarrow> queue_error option \<times> instanceQueueWithBuffer" where
  "bq_UpdateObjByID w objID obj p =
     (case pq_UpdateObjByID objID obj (bq_queue p) of
        (updateErr, q1) \<Rightarrow>
          if updateErr = None \<and> ie_threadMap (elem w obj) = {||} then
            (case pq_DelByID (getInstanceID w obj) q1 of
               (Some err, q2) \<Rightarrow> (Some err, p\<lparr>bq_queue := q2\<rparr>)
             | (None, q2) \<Rightarrow> (None, p\<lparr>bq_queue := q2, bq_buffer := bq_buffer p @ [obj]\<rparr>))
          else if updateErr = Some ErrObjectNotFound then
            (if find (\<lambda>item. getInstanceID w item = objID) (bq_buffer p) = None
             then (Some ErrObjectNotFound, p\<lparr>bq_queue := q1\<rparr>)
             else
               if ie_threadMap (elem w obj) \<noteq> {||} then
                 (case pq_PushBack obj q1 of
                    (err, q2) \<Rightarrow>
                      (err, p\<lparr>bq_queue := q2,
                              bq_buffer := map (\<lambda>item. if getInstanceID w item = objID then obj else item)
                                             (remove_last (\<lambda>item. getInstanceID w item = objID) (bq_buffer p))\<rparr>))
               else (None, p\<lparr>bq_queue := q1,
                             bq_buffer := map (\<lambda>item. if getInstanceID w item = objID then obj else item) (bq_buffer p)\<rparr>))
          else (updateErr, p\<lparr>bq_queue := q1\<rparr>))"

definition bq_Len :: "instanceQueueWithBuffer \<Rightarrow> nat" where
  "bq_Len p = pq_Len (bq_queue p) + length (bq_buffer p)"

text \<open>What \<^verbatim>\<open>Range\<close> and \<^verbatim>\<open>SortedRange\<close> visit, in order, as long as the callback goes on.\<close>

definition pq_visits :: "nat PriorityQueue \<Rightarrow> nat list" where
  "pq_visits q = map it_Obj (dh_items (pq_deHeap q))"

definition pq_sorted_visits :: "nat PriorityQueue \<Rightarrow> nat list" where
  "pq_sorted_visits q = map it_Obj (pop_all (dh_Len (pq_deHeap q)) (pq_deHeap q))"

definition bq_visits :: "instanceQueueWithBuffer \<Rightarrow> nat list" where
  "bq_visits p = pq_visits (bq_queue p) @ bq_buffer p"

definition bq_sorted_visits :: "instanceQueueWithBuffer \<Rightarrow> nat list" where
  "bq_sorted_visits p = pq_sorted_visits (bq_queue p) @ bq_buffer p"

text \<open>The interface \<^verbatim>\<open>queue.Queue\<close> over the two implementations.\<close>

datatype innerQueue = PlainQueue prioFunc "nat PriorityQueue" | BufferQueue prioFunc instanceQueueWithBuffer

definition iq_Front :: "innerQueue \<Rightarrow> nat option" where
  "iq_Front q = (case q of PlainQueue _ p \<Rightarrow> pq_Front p | BufferQueue _ b \<Rightarrow> bq_Front b)"

definition iq_Back :: "innerQueue \<Rightarrow> nat option" where
  "iq_Back q = (case q of PlainQueue _ p \<Rightarrow> pq_Back p | BufferQueue _ b \<Rightarrow> bq_Back b)"

definition iq_PopFront :: "innerQueue \<Rightarrow> nat option \<times> innerQueue" where
  "iq_PopFront q = (case q of PlainQueue f p \<Rightarrow> map_prod id (PlainQueue f) (pq_PopFront p)
                            | BufferQueue f b \<Rightarrow> map_prod id (BufferQueue f) (bq_PopFront b))"

definition iq_PopBack :: "innerQueue \<Rightarrow> nat option \<times> innerQueue" where
  "iq_PopBack q = (case q of PlainQueue f p \<Rightarrow> map_prod id (PlainQueue f) (pq_PopBack p)
                           | BufferQueue f b \<Rightarrow> map_prod id (BufferQueue f) (bq_PopBack b))"

definition bq_at :: "prioFunc \<Rightarrow> elemWorld \<Rightarrow> instanceQueueWithBuffer \<Rightarrow> instanceQueueWithBuffer" where
  "bq_at f w b = b\<lparr>bq_queue := at_world f w (bq_queue b)\<rparr>"

definition iq_PushBack :: "elemWorld \<Rightarrow> nat \<Rightarrow> innerQueue \<Rightarrow> queue_error option \<times> innerQueue" where
  "iq_PushBack w obj q =
     (case q of PlainQueue f p \<Rightarrow> map_prod id (PlainQueue f) (pq_PushBack obj (at_world f w p))
              | BufferQueue f b \<Rightarrow> map_prod id (BufferQueue f) (bq_PushBack w obj (bq_at f w b)))"

definition iq_GetByID :: "elemWorld \<Rightarrow> string \<Rightarrow> innerQueue \<Rightarrow> nat option" where
  "iq_GetByID w objID q = (case q of PlainQueue f p \<Rightarrow> pq_GetByID objID p | BufferQueue f b \<Rightarrow> bq_GetByID w objID b)"

definition iq_DelByID :: "elemWorld \<Rightarrow> string \<Rightarrow> innerQueue \<Rightarrow> queue_error option \<times> innerQueue" where
  "iq_DelByID w objID q =
     (case q of PlainQueue f p \<Rightarrow> map_prod id (PlainQueue f) (pq_DelByID objID p)
              | BufferQueue f b \<Rightarrow> map_prod id (BufferQueue f) (bq_DelByID w objID b))"

definition iq_UpdateObjByID :: "elemWorld \<Rightarrow> string \<Rightarrow> nat \<Rightarrow> innerQueue \<Rightarrow> queue_error option \<times> innerQueue" where
  "iq_UpdateObjByID w objID obj q =
     (case q of PlainQueue f p \<Rightarrow> map_prod id (PlainQueue f) (pq_UpdateObjByID objID obj (at_world f w p))
              | BufferQueue f b \<Rightarrow> map_prod id (BufferQueue f) (bq_UpdateObjByID w objID obj (bq_at f w b)))"

definition iq_Len :: "innerQueue \<Rightarrow> nat" where
  "iq_Len q = (case q of PlainQueue _ p \<Rightarrow> pq_Len p | BufferQueue _ b \<Rightarrow> bq_Len b)"

definition iq_visits :: "innerQueue \<Rightarrow> nat list" where
  "iq_visits q = (case q of PlainQueue _ p \<Rightarrow> pq_visits p | BufferQueue _ b \<Rightarrow> bq_visits b)"

definition iq_sorted_visits :: "innerQueue \<Rightarrow> nat list" where
  "iq_sorted_visits q = (case q of PlainQueue _ p \<Rightarrow> pq_sorted_visits p | BufferQueue _ b \<Rightarrow> bq_sorted_visits b)"

section \<open>Sub-healthy and evicting instances\<close>

record instanceQueueWithSubHealthAndEvictingRecord =
  sq_instanceQueue :: innerQueue
  sq_subHealthRecord :: "(string, nat) gomap"
  sq_evictingRecord :: "(string, nat) gomap"

definition new_sq :: "innerQueue \<Rightarrow> instanceQueueWithSubHealthAndEvictingRecord" where
  "new_sq q = \<lparr>sq_instanceQueue = q, sq_subHealthRecord = fmempty, sq_evictingRecord = fmempty\<rparr>"

definition sq_Front :: "instanceQueueWithSubHealthAndEvictingRecord \<Rightarrow> nat option" where
  "sq_Front i = iq_Front (sq_instanceQueue i)"

definition sq_Back :: "instanceQueueWithSubHealthAndEvictingRecord \<Rightarrow> nat option" where
  "sq_Back i = iq_Back (sq_instanceQueue i)"

definition sq_PopFront ::
  "instanceQueueWithSubHealthAndEvictingRecord \<Rightarrow> nat option \<times> instanceQueueWithSubHealthAndEvictingRecord" where
  "sq_PopFront i = (case iq_PopFront (sq_instanceQueue i) of (r, q) \<Rightarrow> (r, i\<lparr>sq_instanceQueue := q\<rparr>))"

definition sq_PopBack ::
  "instanceQueueWithSubHealthAndEvictingRecord \<Rightarrow> nat option \<times> instanceQueueWithSubHealthAndEvictingRecord" where
  "sq_PopBack i = (case iq_PopBack (sq_instanceQueue i) of (r, q) \<Rightarrow> (r, i\<lparr>sq_instanceQueue := q\<rparr>))"

text \<open>The order in which a \<^verbatim>\<open>range\<close> visits a record is the argument \<open>ord\<close>.\<close>

type_synonym recordOrder = "(string, nat) gomap \<Rightarrow> string list"

definition record_visits :: "recordOrder \<Rightarrow> (string, nat) gomap \<Rightarrow> nat list" where
  "record_visits ord m = map (\<lambda>k. the (fmlookup m k)) (ord m)"

definition getSubHealthInstanceFromRecord :: "elemWorld \<Rightarrow> recordOrder \<Rightarrow> (string, nat) gomap \<Rightarrow> nat option" where
  "getSubHealthInstanceFromRecord w ord m =
     foldl (\<lambda>ins v. case ins of
                      None \<Rightarrow> Some v
                    | Some x \<Rightarrow> if ie_avail (elem w x) \<ge> ie_avail (elem w v) then Some v else Some x)
       None (record_visits ord m)"

definition sq_PopSubHealth ::
  "elemWorld \<Rightarrow> recordOrder \<Rightarrow> instanceQueueWithSubHealthAndEvictingRecord \<Rightarrow>
     nat option \<times> instanceQueueWithSubHealthAndEvictingRecord" where
  "sq_PopSubHealth w ord i =
     (case getSubHealthInstanceFromRecord w ord (sq_subHealthRecord i) of
        None \<Rightarrow> (None, i)
      | Some p \<Rightarrow> (Some p, i\<lparr>sq_subHealthRecord := fmdrop (getInstanceID w p) (sq_subHealthRecord i)\<rparr>))"

definition sq_GetByID :: "elemWorld \<Rightarrow> string \<Rightarrow> instanceQueueWithSubHealthAndEvictingRecord \<Rightarrow> nat option" where
  "sq_GetByID w objID i =
     (case fmlookup (sq_subHealthRecord i) objID of
        Some p \<Rightarrow> Some p
      | None \<Rightarrow> (case fmlookup (sq_evictingRecord i) objID of
                   Some p \<Rightarrow> Some p
                 | None \<Rightarrow> iq_GetByID w objID (sq_instanceQueue i)))"

definition sq_exists :: "elemWorld \<Rightarrow> string \<Rightarrow> instanceQueueWithSubHealthAndEvictingRecord \<Rightarrow> bool" where
  "sq_exists w objID i \<longleftrightarrow>
     fmlookup (sq_subHealthRecord i) objID \<noteq> None \<or> iq_GetByID w objID (sq_instanceQueue i) \<noteq> None \<or>
     fmlookup (sq_evictingRecord i) objID \<noteq> None"

text \<open>The switch on the status code that \<^verbatim>\<open>PushBack\<close> and \<^verbatim>\<open>UpdateObjByID\<close> end with.\<close>

definition sq_place ::
  "elemWorld \<Rightarrow> string \<Rightarrow> nat \<Rightarrow> instanceQueueWithSubHealthAndEvictingRecord \<Rightarrow>
     sched_error option \<times> instanceQueueWithSubHealthAndEvictingRecord" where
  "sq_place w objID p i =
     (if ie_Code (elem w p) = statusRunning then
        (case iq_PushBack w p (sq_instanceQueue i) of
           (err, q) \<Rightarrow> (map_option ErrQueue err, i\<lparr>sq_instanceQueue := q\<rparr>))
      else if ie_Code (elem w p) = statusSubHealth
      then (None, i\<lparr>sq_subHealthRecord := fmupd objID p (sq_subHealthRecord i)\<rparr>)
      else if ie_Code (elem w p) = statusEvicting
      then (None, i\<lparr>sq_evictingRecord := fmupd objID p (sq_evictingRecord i)\<rparr>)
      else (Some ErrInternal, i))"

definition sq_PushBack ::
  "elemWorld \<Rightarrow> nat \<Rightarrow> instanceQueueWithSubHealthAndEvictingRecord \<Rightarrow>
     sched_error option \<times> instanceQueueWithSubHealthAndEvictingRecord" where
  "sq_PushBack w p i =
     (if sq_exists w (getInstanceID w p) i then (Some ErrInsAlreadyExist, i)
      else sq_place w (getInstanceID w p) p i)"

definition sq_forget ::
  "elemWorld \<Rightarrow> string \<Rightarrow> instanceQueueWithSubHealthAndEvictingRecord \<Rightarrow> instanceQueueWithSubHealthAndEvictingRecord" where
  "sq_forget w objID i =
     i\<lparr>sq_evictingRecord := fmdrop objID (sq_evictingRecord i),
       sq_subHealthRecord := fmdrop objID (sq_subHealthRecord i),
       sq_instanceQueue := snd (iq_DelByID w objID (sq_instanceQueue i))\<rparr>"

definition sq_DelByID ::
  "elemWorld \<Rightarrow> string \<Rightarrow> instanceQueueWithSubHealthAndEvictingRecord \<Rightarrow>
     sched_error option \<times> instanceQueueWithSubHealthAndEvictingRecord" where
  "sq_DelByID w objID i =
     (if \<not> sq_exists w objID i then (Some ErrInsNotExist, i) else (None, sq_forget w objID i))"

definition sq_UpdateObjByID ::
  "elemWorld \<Rightarrow> string \<Rightarrow> nat \<Rightarrow> instanceQueueWithSubHealthAndEvictingRecord \<Rightarrow>
     sched_error option \<times> instanceQueueWithSubHealthAndEvictingRecord" where
  "sq_UpdateObjByID w objID p i =
     (if \<not> sq_exists w objID i then (Some ErrInsNotExist, i)
      else sq_place w objID p (sq_forget w objID i))"

definition sq_Len :: "instanceQueueWithSubHealthAndEvictingRecord \<Rightarrow> nat" where
  "sq_Len i = iq_Len (sq_instanceQueue i) + fcard (fmdom (sq_subHealthRecord i))"

definition sq_Range :: "recordOrder \<Rightarrow> instanceQueueWithSubHealthAndEvictingRecord \<Rightarrow> nat list" where
  "sq_Range ord i =
     iq_visits (sq_instanceQueue i) @ record_visits ord (sq_subHealthRecord i) @ record_visits ord (sq_evictingRecord i)"

definition sq_SortedRange :: "recordOrder \<Rightarrow> instanceQueueWithSubHealthAndEvictingRecord \<Rightarrow> nat list" where
  "sq_SortedRange ord i =
     iq_sorted_visits (sq_instanceQueue i) @ record_visits ord (sq_subHealthRecord i) @ record_visits ord (sq_evictingRecord i)"

section \<open>Observed queues\<close>

text \<open>
  The observer publishes differences of three numbers: threads that are available, in use and in
  total. A call returns what it publishes, in order.
\<close>

datatype pubEvent = PubAvail int | PubInUse int | PubTotal int

record instanceQueueWithObserver =
  oq_queue :: instanceQueueWithSubHealthAndEvictingRecord
  oq_insAvailThdCount :: "(string, int) gomap"

definition new_oq :: "innerQueue \<Rightarrow> instanceQueueWithObserver" where
  "new_oq q = \<lparr>oq_queue = new_sq q, oq_insAvailThdCount = fmempty\<rparr>"

definition oq_forget_count :: "string \<Rightarrow> instanceQueueWithObserver \<Rightarrow> instanceQueueWithObserver" where
  "oq_forget_count objID i = i\<lparr>oq_insAvailThdCount := fmdrop objID (oq_insAvailThdCount i)\<rparr>"

definition pub_gone :: "instanceElement \<Rightarrow> pubEvent list" where
  "pub_gone e = [PubAvail (- ie_avail e), PubInUse (- (ie_ConcurrentNum e - ie_avail e)), PubTotal (- ie_ConcurrentNum e)]"

definition oq_PopFront ::
  "elemWorld \<Rightarrow> instanceQueueWithObserver \<Rightarrow> nat option \<times> instanceQueueWithObserver \<times> pubEvent list" where
  "oq_PopFront w i =
     (case sq_PopFront (oq_queue i) of
        (None, q) \<Rightarrow> (None, i\<lparr>oq_queue := q\<rparr>, [])
      | (Some p, q) \<Rightarrow> (Some p, oq_forget_count (getInstanceID w p) (i\<lparr>oq_queue := q\<rparr>), pub_gone (elem w p)))"

definition oq_PopBack ::
  "elemWorld \<Rightarrow> instanceQueueWithObserver \<Rightarrow> nat option \<times> instanceQueueWithObserver \<times> pubEvent list" where
  "oq_PopBack w i =
     (case sq_PopBack (oq_queue i) of
        (None, q) \<Rightarrow> (None, i\<lparr>oq_queue := q\<rparr>, [])
      | (Some p, q) \<Rightarrow> (Some p, oq_forget_count (getInstanceID w p) (i\<lparr>oq_queue := q\<rparr>), pub_gone (elem w p)))"

definition oq_PopSubHealth ::
  "elemWorld \<Rightarrow> recordOrder \<Rightarrow> instanceQueueWithObserver \<Rightarrow> nat option \<times> instanceQueueWithObserver \<times> pubEvent list" where
  "oq_PopSubHealth w ord i =
     (case sq_PopSubHealth w ord (oq_queue i) of
        (None, q) \<Rightarrow> (None, i\<lparr>oq_queue := q\<rparr>, [])
      | (Some p, q) \<Rightarrow>
          (Some p, oq_forget_count (getInstanceID w p) (i\<lparr>oq_queue := q\<rparr>),
           [PubInUse (- (ie_ConcurrentNum (elem w p) - ie_avail (elem w p))), PubTotal (- ie_ConcurrentNum (elem w p))]))"

definition oq_PushBack ::
  "elemWorld \<Rightarrow> nat \<Rightarrow> instanceQueueWithObserver \<Rightarrow> sched_error option \<times> instanceQueueWithObserver \<times> pubEvent list" where
  "oq_PushBack w p i =
     (case sq_PushBack w p (oq_queue i) of
        (Some err, q) \<Rightarrow> (Some err, i\<lparr>oq_queue := q\<rparr>, [])
      | (None, q) \<Rightarrow>
          let e = elem w p
          in (None,
              i\<lparr>oq_queue := q, oq_insAvailThdCount := fmupd (ie_ID e) (ie_avail e) (oq_insAvailThdCount i)\<rparr>,
              if ie_Code e = statusRunning then [PubAvail (ie_avail e), PubTotal (ie_ConcurrentNum e)]
              else if ie_Code e = statusSubHealth then [PubTotal (ie_ConcurrentNum e)]
              else []))"

definition oq_DelByID ::
  "elemWorld \<Rightarrow> string \<Rightarrow> instanceQueueWithObserver \<Rightarrow> sched_error option \<times> instanceQueueWithObserver \<times> pubEvent list" where
  "oq_DelByID w objID i =
     (if fmlookup (sq_evictingRecord (oq_queue i)) objID \<noteq> None
      then (None, i\<lparr>oq_queue := (oq_queue i)\<lparr>sq_evictingRecord := fmdrop objID (sq_evictingRecord (oq_queue i))\<rparr>\<rparr>, [])
      else case sq_GetByID w objID (oq_queue i) of
             None \<Rightarrow> (Some ErrInsNotExist, i, [])
           | Some p \<Rightarrow>
               (case sq_DelByID w objID (oq_queue i) of
                  (Some err, q) \<Rightarrow> (Some err, i\<lparr>oq_queue := q\<rparr>, [])
                | (None, q) \<Rightarrow>
                    let e = elem w p
                    in (None, oq_forget_count (ie_ID e) (i\<lparr>oq_queue := q\<rparr>),
                        if ie_Code e = statusRunning then pub_gone e
                        else if ie_Code e = statusSubHealth
                        then [PubInUse (- (ie_ConcurrentNum e - ie_avail e)), PubTotal (- ie_ConcurrentNum e)]
                        else [])))"

definition handleHealthInstanceUpdateMetrics :: "int \<Rightarrow> instanceElement \<Rightarrow> pubEvent list" where
  "handleHealthInstanceUpdateMetrics oldInsAvailThdCount insElem =
     (let availInsThdDiff = ie_avail insElem - oldInsAvailThdCount in
      if ie_Code insElem = statusRunning then [PubInUse (- availInsThdDiff), PubAvail availInsThdDiff]
      else if ie_Code insElem = statusSubHealth then [PubAvail (- ie_avail insElem)]
      else if ie_Code insElem = statusEvicting
      then [PubTotal (- ie_ConcurrentNum insElem), PubAvail (- ie_avail insElem),
            PubInUse (- (ie_ConcurrentNum insElem - ie_avail insElem))]
      else [])"

definition handleSubHealthInstanceUpdateMetrics :: "int \<Rightarrow> instanceElement \<Rightarrow> pubEvent list" where
  "handleSubHealthInstanceUpdateMetrics oldInsAvailThdCount insElem =
     (let availInsThdDiff = ie_avail insElem - oldInsAvailThdCount in
      if ie_Code insElem = statusRunning then [PubInUse (- availInsThdDiff), PubAvail (ie_avail insElem)]
      else if ie_Code insElem = statusEvicting
      then [PubTotal (- ie_ConcurrentNum insElem), PubInUse (- (ie_ConcurrentNum insElem - ie_avail insElem))]
      else [])"

definition oq_old_status :: "string \<Rightarrow> instanceQueueWithObserver \<Rightarrow> int" where
  "oq_old_status objID i =
     (if fmlookup (sq_evictingRecord (oq_queue i)) objID \<noteq> None then statusEvicting
      else if fmlookup (sq_subHealthRecord (oq_queue i)) objID \<noteq> None then statusSubHealth
      else statusRunning)"

definition oq_UpdateObjByID ::
  "elemWorld \<Rightarrow> string \<Rightarrow> nat \<Rightarrow> instanceQueueWithObserver \<Rightarrow>
     sched_error option \<times> instanceQueueWithObserver \<times> pubEvent list" where
  "oq_UpdateObjByID w objID p i =
     (case sq_UpdateObjByID w objID p (oq_queue i) of
        (Some err, q) \<Rightarrow> (Some err, i\<lparr>oq_queue := q\<rparr>, [])
      | (None, q) \<Rightarrow>
          (case fmlookup (oq_insAvailThdCount i) objID of
             None \<Rightarrow> (Some ErrInternal, i\<lparr>oq_queue := q\<rparr>, [])
           | Some oldInsAvailThdCount \<Rightarrow>
               (None,
                i\<lparr>oq_queue := q,
                  oq_insAvailThdCount := fmupd objID (ie_avail (elem w p)) (oq_insAvailThdCount i)\<rparr>,
                if oq_old_status objID i = statusRunning
                then handleHealthInstanceUpdateMetrics oldInsAvailThdCount (elem w p)
                else if oq_old_status objID i = statusSubHealth
                then handleSubHealthInstanceUpdateMetrics oldInsAvailThdCount (elem w p)
                else [])))"

end
