(* ===== verification/InstanceQueueLaws.thy ===== *)
theory InstanceQueueLaws
  imports InstanceQueue
begin

text \<open>
  What the scheduler relies on when it uses an instance queue: whatever the implementation does with
  priorities and buffers, a queue is a map from instance IDs to elements. The laws are stated once, as
  an interface, and shown for the priority queue, the queue with a buffer and the queue with the records
  of sub-healthy and evicting instances.
\<close>

section \<open>The interface\<close>

locale id_queue =
  fixes ok :: "'q \<Rightarrow> bool"
    and get :: "'q \<Rightarrow> string \<Rightarrow> 'a option"
    and ident :: "'a \<Rightarrow> string"
    and accepts :: "'a \<Rightarrow> bool"
    and push :: "'a \<Rightarrow> 'q \<Rightarrow> 'q"
    and del :: "string \<Rightarrow> 'q \<Rightarrow> 'q"
  assumes get_ident: "ok q \<Longrightarrow> get q i = Some x \<Longrightarrow> ident x = i"
    and push_get: "ok q \<Longrightarrow> accepts x \<Longrightarrow> get q (ident x) = None \<Longrightarrow> get (push x q) = (get q)(ident x \<mapsto> x)"
    and push_ok: "ok q \<Longrightarrow> accepts x \<Longrightarrow> get q (ident x) = None \<Longrightarrow> ok (push x q)"
    and del_get: "ok q \<Longrightarrow> get (del i q) = (get q)(i := None)"
    and del_ok: "ok q \<Longrightarrow> ok (del i q)"
begin

text \<open>Taking an element out and putting one with the same ID back replaces it.\<close>

lemma replace_get: "ok q \<Longrightarrow> accepts x \<Longrightarrow> get (push x (del (ident x) q)) = (get q)(ident x \<mapsto> x)"
  using push_get [of "del (ident x) q" x] del_ok [of q "ident x"] del_get [of q "ident x"] by simp

lemma replace_ok: "ok q \<Longrightarrow> accepts x \<Longrightarrow> ok (push x (del (ident x) q))"
  using push_ok [of "del (ident x) q" x] del_ok [of q "ident x"] del_get [of q "ident x"] by simp

end

section \<open>The priority queue as a map\<close>

definition item_pairs :: "'a PriorityQueue \<Rightarrow> (string \<times> 'a) list" where
  "item_pairs q = map (\<lambda>it. (it_ObjID it, it_Obj it)) (dh_items (pq_deHeap q))"

lemma index_of_id_some:
  "index_of_id objID k xs = Some i \<Longrightarrow> k \<le> i \<and> i - k < length xs \<and> it_ObjID (xs ! (i - k)) = objID"
proof (induction xs arbitrary: k)
  case (Cons x xs)
  show ?case
  proof (cases "it_ObjID x = objID")
    case True
    then show ?thesis using Cons.prems by auto
  next
    case False
    then have "Suc k \<le> i \<and> i - Suc k < length xs \<and> it_ObjID (xs ! (i - Suc k)) = objID"
      using Cons by simp
    then show ?thesis by (simp add: nth_Cons') (metis Suc_diff_Suc Suc_le_lessD diff_Suc_1 less_Suc_eq_0_disj zero_less_diff)
  qed
qed simp

lemma index_of_id_get:
  "map_option (\<lambda>i. it_Obj (xs ! (i - k))) (index_of_id objID k xs) = map_of (map (\<lambda>it. (it_ObjID it, it_Obj it)) xs) objID"
proof (induction xs arbitrary: k)
  case (Cons x xs)
  have eq: "map_option (\<lambda>i. it_Obj ((x # xs) ! (i - k))) (index_of_id objID (Suc k) xs) =
      map_option (\<lambda>i. it_Obj (xs ! (i - Suc k))) (index_of_id objID (Suc k) xs)"
  proof (cases "index_of_id objID (Suc k) xs")
    case (Some i)
    then have "i - k = Suc (i - Suc k)" using index_of_id_some [OF Some] by linarith
    with Some show ?thesis by simp
  qed simp
  show ?case
  proof (cases "it_ObjID x = objID")
    case False
    then have "index_of_id objID k (x # xs) = index_of_id objID (Suc k) xs" by simp
    then show ?thesis using eq Cons.IH [of "Suc k"] False by (simp only: list.map map_of.simps fst_conv snd_conv fun_upd_other)
  qed simp
qed simp

lemma pq_GetByID_map: "pq_GetByID objID q = map_of (item_pairs q) objID"
  using index_of_id_get [of "dh_items (pq_deHeap q)" 0 objID]
  by (simp add: pq_GetByID_def getIndexAndItemByObjID_def item_pairs_def option.map_comp comp_def)

definition pq_ok :: "('a \<Rightarrow> string) \<Rightarrow> 'a PriorityQueue \<Rightarrow> bool" where
  "pq_ok ident q \<longleftrightarrow> distinct (map fst (item_pairs q)) \<and> (\<forall>(i, x)\<in>set (item_pairs q). ident x = i)"

lemma pairs_eqI:
  assumes "mset (item_pairs q') = mset xs" and "distinct (map fst xs)"
  shows "map_of (item_pairs q') = map_of xs" "set (item_pairs q') = set xs" "distinct (map fst (item_pairs q'))"
proof -
  show s: "set (item_pairs q') = set xs" using assms(1) by (metis set_mset_mset)
  have "mset (map fst (item_pairs q')) = mset (map fst xs)" using assms(1) by (simp add: mset_map)
  then show d: "distinct (map fst (item_pairs q'))" using assms(2) by (metis mset_eq_imp_distinct_iff)
  show "map_of (item_pairs q') = map_of xs" using map_of_inject_set [OF d assms(2)] s by simp
qed

lemma mset_pairs:
  "mset (item_pairs q) = image_mset (\<lambda>it. (it_ObjID it, it_Obj it)) (heap_mset (pq_deHeap q))"
  by (simp add: item_pairs_def mset_map)

lemma pq_push_pairs:
  assumes "pq_PushBack x q = (None, q')"
  shows "mset (item_pairs q') = mset ((pq_identityFunc q x, x) # item_pairs q)"
  using assms by (auto simp: pq_PushBack_def mset_pairs push_mset split: prod.splits option.splits)

lemma pq_del_pairs:
  assumes ok: "pq_ok ident q" and d: "pq_DelByID objID q = (err, q')"
  shows "mset (item_pairs q') = mset (filter (\<lambda>p. fst p \<noteq> objID) (item_pairs q))"
    and "err = (if pq_GetByID objID q = None then Some ErrObjectNotFound else None)"
proof -
  have "mset (item_pairs q') = mset (filter (\<lambda>p. fst p \<noteq> objID) (item_pairs q)) \<and>
      err = (if pq_GetByID objID q = None then Some ErrObjectNotFound else None)"
  proof (cases "index_of_id objID 0 (dh_items (pq_deHeap q))")
    case None
    then have "map_of (item_pairs q) objID = None"
      using index_of_id_get [of "dh_items (pq_deHeap q)" 0 objID] by (simp add: item_pairs_def)
    then have "filter (\<lambda>p. fst p \<noteq> objID) (item_pairs q) = item_pairs q"
      by (auto simp: map_of_eq_None_iff filter_id_conv)
    moreover have "pq_GetByID objID q = None" using None by (simp add: pq_GetByID_def getIndexAndItemByObjID_def)
    ultimately show ?thesis using d None by (simp add: pq_DelByID_def getIndexAndItemByObjID_def)
  next
    case (Some i)
    let ?h = "pq_deHeap q"
    let ?f = "\<lambda>it. (it_ObjID it, it_Obj it)"
    have i: "i < dh_Len ?h" "it_ObjID (dh_items ?h ! i) = objID"
      using index_of_id_some [OF Some] by (simp_all add: dh_Len_def)
    have q': "q' = q\<lparr>pq_deHeap := dh_Remove i ?h\<rparr>" "err = None"
      using d Some by (auto simp: pq_DelByID_def getIndexAndItemByObjID_def)
    have eq: "mset (item_pairs q) = add_mset (?f (dh_items ?h ! i)) (mset (item_pairs q'))"
      using remove_mset [OF i(1)] by (simp add: mset_pairs q' image_mset_add_mset)
    have "distinct (map fst (?f (dh_items ?h ! i) # item_pairs q'))"
      using ok eq unfolding pq_ok_def
      by (metis (no_types, lifting) mset.simps(2) mset_eq_imp_distinct_iff mset_map)
    then have no: "objID \<notin> fst ` set (item_pairs q')" using i(2) by simp
    have "filter_mset (\<lambda>p. fst p \<noteq> objID) (mset (item_pairs q)) = filter_mset (\<lambda>p. fst p \<noteq> objID) (mset (item_pairs q'))"
      using eq i(2) by simp
    also have "\<dots> = mset (item_pairs q')" using no by (auto simp: filter_mset_eq_conv image_iff)
    finally have "mset (filter (\<lambda>p. fst p \<noteq> objID) (item_pairs q)) = mset (item_pairs q')" by (simp add: mset_filter)
    moreover have "pq_GetByID objID q \<noteq> None" using Some by (simp add: pq_GetByID_def getIndexAndItemByObjID_def)
    ultimately show ?thesis using q' by simp
  qed
  then show "mset (item_pairs q') = mset (filter (\<lambda>p. fst p \<noteq> objID) (item_pairs q))"
    "err = (if pq_GetByID objID q = None then Some ErrObjectNotFound else None)" by simp_all
qed

lemma pq_ident: "pq_ok ident q \<Longrightarrow> pq_GetByID i q = Some x \<Longrightarrow> ident x = i"
  by (auto simp: pq_ok_def pq_GetByID_map dest!: map_of_SomeD)

lemma pq_push_law:
  assumes ok: "pq_ok (pq_identityFunc q) q" and new: "pq_GetByID (pq_identityFunc q x) q = None"
    and push: "pq_PushBack x q = (None, q')"
  shows "pq_ok (pq_identityFunc q) q'" "pq_GetByID i q' = (if i = pq_identityFunc q x then Some x else pq_GetByID i q)"
proof -
  have "distinct (map fst ((pq_identityFunc q x, x) # item_pairs q))"
    using ok new by (auto simp: pq_ok_def pq_GetByID_map map_of_eq_None_iff)
  note eq = pairs_eqI [OF pq_push_pairs [OF push] this]
  show "pq_ok (pq_identityFunc q) q'" using ok eq(2,3) by (auto simp: pq_ok_def)
  show "pq_GetByID i q' = (if i = pq_identityFunc q x then Some x else pq_GetByID i q)"
    by (simp add: pq_GetByID_map eq(1))
qed

lemma pq_del_law:
  assumes ok: "pq_ok ident q" and d: "pq_DelByID objID q = (err, q')"
  shows "pq_ok ident q'" "pq_GetByID i q' = (if i = objID then None else pq_GetByID i q)"
proof -
  have "distinct (map fst (filter (\<lambda>p. fst p \<noteq> objID) (item_pairs q)))"
    using ok by (simp add: pq_ok_def distinct_map_filter)
  note eq = pairs_eqI [OF pq_del_pairs(1) [OF ok d] this]
  show "pq_ok ident q'" using ok eq(2,3) by (auto simp: pq_ok_def)
  have "map_of (filter (\<lambda>p. fst p \<noteq> objID) xs) i = (if i = objID then None else map_of xs i)" for xs :: "(string \<times> 'a) list"
    by (induction xs) auto
  then show "pq_GetByID i q' = (if i = objID then None else pq_GetByID i q)" by (simp add: pq_GetByID_map eq(1))
qed

section \<open>The inner queues as maps\<close>

text \<open>What the laws need of two worlds: that they give the elements the same instance IDs.\<close>

definition same_ids :: "elemWorld \<Rightarrow> elemWorld \<Rightarrow> bool" where
  "same_ids w w' \<longleftrightarrow> (\<forall>p. getInstanceID w' p = getInstanceID w p)"

lemma prio_total: "snd (prio_of f w p) = None"
  by (simp add: prio_of_def priorityFuncForReservedInstance_def priorityFuncForScaledInstance_def Let_def split: prioFunc.split)

lemma at_world_sel [simp]:
  "pq_identityFunc (at_world f w q) = getInstanceID w" "pq_priorityFunc (at_world f w q) = prio_of f w"
  "pq_deHeap (at_world f w q) = pq_deHeap q"
  by (simp_all add: at_world_def)

lemma at_world_map [simp]: "pq_GetByID i (at_world f w q) = pq_GetByID i q" "pq_ok g (at_world f w q) = pq_ok g q"
  by (simp_all add: pq_GetByID_map item_pairs_def pq_ok_def)

lemma push_at_world: "fst (pq_PushBack x (at_world f w q)) = None"
  using prio_total [of f w x] by (cases "prio_of f w x") (simp add: pq_PushBack_def)

fun iq_ok :: "elemWorld \<Rightarrow> innerQueue \<Rightarrow> bool" where
  "iq_ok w (PlainQueue f p) \<longleftrightarrow> pq_ok (getInstanceID w) p"
| "iq_ok w (BufferQueue f b) \<longleftrightarrow> pq_ok (getInstanceID w) (bq_queue b) \<and> distinct (map (getInstanceID w) (bq_buffer b)) \<and>
     (\<forall>x\<in>set (bq_buffer b). pq_GetByID (getInstanceID w x) (bq_queue b) = None)"

lemma find_id:
  assumes "distinct (map ident xs)"
  shows "find (\<lambda>x. ident x = i) xs = Some y \<longleftrightarrow> y \<in> set xs \<and> ident y = i"
proof
  assume "find (\<lambda>x. ident x = i) xs = Some y"
  then show "y \<in> set xs \<and> ident y = i" by (auto simp: find_Some_iff)
next
  assume y: "y \<in> set xs \<and> ident y = i"
  then obtain z where z: "find (\<lambda>x. ident x = i) xs = Some z" by (cases "find (\<lambda>x. ident x = i) xs") (auto simp: find_None_iff)
  then have "z \<in> set xs" "ident z = i" by (auto simp: find_Some_iff)
  with y assms have "z = y" by (auto simp: distinct_map inj_on_def)
  with z show "find (\<lambda>x. ident x = i) xs = Some y" by simp
qed

lemma remove_first_id:
  "distinct (map ident xs) \<Longrightarrow> remove_first (\<lambda>x. ident x = i) xs = filter (\<lambda>x. ident x \<noteq> i) xs"
proof (induction xs)
  case (Cons x xs)
  then have "\<forall>y\<in>set xs. ident y \<noteq> ident x" by (auto simp: image_iff)
  then have "filter (\<lambda>y. ident y \<noteq> ident x) xs = xs" by (simp add: filter_id_conv)
  with Cons show ?case by (cases "ident x = i") auto
qed simp

lemma find_snoc: "find P (xs @ [x]) = (case find P xs of Some y \<Rightarrow> Some y | None \<Rightarrow> if P x then Some x else None)"
  by (induction xs) auto

lemma iq_ident: "iq_ok w q \<Longrightarrow> iq_GetByID w i q = Some x \<Longrightarrow> getInstanceID w x = i"
  by (cases q) (auto simp: iq_GetByID_def bq_GetByID_def find_Some_iff dest: pq_ident split: option.splits)

lemma bq_get_iff:
  assumes "iq_ok w (BufferQueue f b)"
  shows "bq_GetByID w i b = Some y \<longleftrightarrow> pq_GetByID i (bq_queue b) = Some y \<or> y \<in> set (bq_buffer b) \<and> getInstanceID w y = i"
  using assms by (auto simp: bq_GetByID_def find_id split: option.splits)

lemma iq_push_law:
  assumes ok: "iq_ok w q" and new: "iq_GetByID w (getInstanceID w x) q = None" and p: "iq_PushBack w x q = (err, q')"
  shows "err = None" "iq_ok w q'" "iq_GetByID w i q' = (if i = getInstanceID w x then Some x else iq_GetByID w i q)"
proof -
  have "err = None \<and> iq_ok w q' \<and> iq_GetByID w i q' = (if i = getInstanceID w x then Some x else iq_GetByID w i q)"
  proof (cases q)
    case (PlainQueue f r)
    obtain r' where r': "pq_PushBack x (at_world f w r) = (None, r')"
      using push_at_world [of x f w r] by (cases "pq_PushBack x (at_world f w r)") simp
    have "pq_ok (pq_identityFunc (at_world f w r)) (at_world f w r)" "pq_GetByID (pq_identityFunc (at_world f w r) x) (at_world f w r) = None"
      using ok new PlainQueue by (simp_all add: iq_GetByID_def)
    from pq_push_law [OF this r'] p r' PlainQueue show ?thesis by (auto simp: iq_PushBack_def iq_GetByID_def)
  next
    case (BufferQueue f b)
    note iff = bq_get_iff [of w f b]
    show ?thesis
    proof (cases "ie_threadMap (elem w x) = {||}")
      case True
      have "getInstanceID w x \<notin> getInstanceID w ` set (bq_buffer b)" "pq_GetByID (getInstanceID w x) (bq_queue b) = None"
        using new ok BufferQueue by (auto simp: iq_GetByID_def bq_GetByID_def find_None_iff split: option.splits)
      moreover from this(1) have "find (\<lambda>item. getInstanceID w item = getInstanceID w x) (bq_buffer b) = None"
        by (simp add: find_None_iff image_iff) metis
      moreover have "q' = BufferQueue f (b\<lparr>bq_queue := at_world f w (bq_queue b), bq_buffer := bq_buffer b @ [x]\<rparr>)" "err = None"
        using p True BufferQueue by (auto simp: iq_PushBack_def bq_PushBack_def bq_at_def)
      ultimately show ?thesis using ok BufferQueue
        by (auto simp: iq_GetByID_def bq_GetByID_def find_snoc split: option.splits)
    next
      case False
      obtain r' where r': "pq_PushBack x (at_world f w (bq_queue b)) = (None, r')"
        using push_at_world [of x f w "bq_queue b"] by (cases "pq_PushBack x (at_world f w (bq_queue b))") simp
      have n: "pq_GetByID (getInstanceID w x) (bq_queue b) = None" "\<forall>y\<in>set (bq_buffer b). getInstanceID w y \<noteq> getInstanceID w x"
        using new BufferQueue by (auto simp: iq_GetByID_def bq_GetByID_def find_None_iff split: option.splits)
      have "pq_ok (pq_identityFunc (at_world f w (bq_queue b))) (at_world f w (bq_queue b))"
        "pq_GetByID (pq_identityFunc (at_world f w (bq_queue b)) x) (at_world f w (bq_queue b)) = None"
        using ok n BufferQueue by simp_all
      note law = pq_push_law [OF this r']
      have "q' = BufferQueue f (b\<lparr>bq_queue := r'\<rparr>)" "err = None"
        using p False r' BufferQueue by (auto simp: iq_PushBack_def bq_PushBack_def bq_at_def)
      then show ?thesis using ok n law BufferQueue
        by (auto simp: iq_GetByID_def bq_GetByID_def split: option.splits if_splits)
    qed
  qed
  then show "err = None" "iq_ok w q'" "iq_GetByID w i q' = (if i = getInstanceID w x then Some x else iq_GetByID w i q)" by simp_all
qed

lemma iq_del_law:
  assumes ok: "iq_ok w q" and d: "iq_DelByID w objID q = (err, q')"
  shows "iq_ok w q'" "iq_GetByID w i q' = (if i = objID then None else iq_GetByID w i q)"
proof -
  have "iq_ok w q' \<and> iq_GetByID w i q' = (if i = objID then None else iq_GetByID w i q)"
  proof (cases q)
    case (PlainQueue f r)
    then show ?thesis using ok d pq_del_law [of "getInstanceID w" r objID]
      by (cases "pq_DelByID objID r") (auto simp: iq_DelByID_def iq_GetByID_def)
  next
    case (BufferQueue f b)
    obtain e r where r: "pq_DelByID objID (bq_queue b) = (e, r)" by fastforce
    have pok: "pq_ok (getInstanceID w) (bq_queue b)" using ok BufferQueue by simp
    note law = pq_del_law [OF pok r] and err = pq_del_pairs(2) [OF pok r]
    show ?thesis
    proof (cases "pq_GetByID objID (bq_queue b)")
      case None
      let ?P = "\<lambda>item. getInstanceID w item = objID"
      have "q' = BufferQueue f (if find ?P (bq_buffer b) = None then b else b\<lparr>bq_buffer := remove_first ?P (bq_buffer b)\<rparr>)"
        using d r err None BufferQueue by (auto simp: iq_DelByID_def bq_DelByID_def split: if_splits)
      moreover have "remove_first ?P (bq_buffer b) = filter (\<lambda>item. getInstanceID w item \<noteq> objID) (bq_buffer b)"
        using ok BufferQueue by (simp add: remove_first_id)
      ultimately have q': "q' = BufferQueue f (b\<lparr>bq_buffer := filter (\<lambda>item. getInstanceID w item \<noteq> objID) (bq_buffer b)\<rparr>)"
        by (auto simp: find_None_iff filter_id_conv split: if_splits)
      have "find (\<lambda>x. getInstanceID w x = i) (filter (\<lambda>item. getInstanceID w item \<noteq> objID) xs) =
          (if i = objID then None else find (\<lambda>x. getInstanceID w x = i) xs)" for xs by (induction xs) auto
      then show ?thesis using ok None q' BufferQueue
        by (auto simp: iq_GetByID_def bq_GetByID_def distinct_map_filter split: option.splits)
    next
      case (Some y)
      then have "q' = BufferQueue f (b\<lparr>bq_queue := r\<rparr>)" using d r err BufferQueue by (auto simp: iq_DelByID_def bq_DelByID_def)
      moreover have "objID \<notin> getInstanceID w ` set (bq_buffer b)" using ok Some BufferQueue by auto
      ultimately show ?thesis using ok law BufferQueue
        by (auto simp: iq_GetByID_def bq_GetByID_def find_None_iff split: option.splits)
    qed
  qed
  then show "iq_ok w q'" "iq_GetByID w i q' = (if i = objID then None else iq_GetByID w i q)" by simp_all
qed

interpretation iq: id_queue "iq_ok w" "\<lambda>q i. iq_GetByID w i q" "getInstanceID w" "\<lambda>_. True"
  "\<lambda>x q. snd (iq_PushBack w x q)" "\<lambda>i q. snd (iq_DelByID w i q)" for w
proof (unfold_locales, goal_cases)
  case (1 q i x) then show ?case by (rule iq_ident)
next
  case (2 q x) then show ?case using iq_push_law(3) [OF 2(1,3) surjective_pairing] by (simp add: fun_eq_iff)
next
  case (3 q x) then show ?case using iq_push_law(2) [OF 3(1,3) surjective_pairing] by simp
next
  case (4 q i) then show ?case using iq_del_law(2) [OF 4 surjective_pairing] by (simp add: fun_eq_iff)
next
  case (5 q i) then show ?case by (rule iq_del_law(1) [OF _ surjective_pairing])
qed

section \<open>The whole queue as a map\<close>

text \<open>Every instance is in one of the three places only, under its own ID.\<close>

definition sq_ok :: "elemWorld \<Rightarrow> instanceQueueWithSubHealthAndEvictingRecord \<Rightarrow> bool" where
  "sq_ok w i \<longleftrightarrow> iq_ok w (sq_instanceQueue i) \<and>
     (\<forall>k p. fmlookup (sq_subHealthRecord i) k = Some p \<longrightarrow>
        getInstanceID w p = k \<and> fmlookup (sq_evictingRecord i) k = None \<and> iq_GetByID w k (sq_instanceQueue i) = None) \<and>
     (\<forall>k p. fmlookup (sq_evictingRecord i) k = Some p \<longrightarrow> getInstanceID w p = k \<and> iq_GetByID w k (sq_instanceQueue i) = None)"

lemma sq_exists_get: "sq_exists w k i \<longleftrightarrow> sq_GetByID w k i \<noteq> None"
  by (auto simp: sq_exists_def sq_GetByID_def split: option.splits)

lemma sq_ident: "sq_ok w i \<Longrightarrow> sq_GetByID w k i = Some p \<Longrightarrow> getInstanceID w p = k"
  by (auto simp: sq_ok_def sq_GetByID_def dest: iq_ident split: option.splits)

lemma sq_forget_law:
  assumes "sq_ok w i"
  shows "sq_ok w (sq_forget w k i)" "sq_GetByID w j (sq_forget w k i) = (if j = k then None else sq_GetByID w j i)"
proof -
  obtain e q where q: "iq_DelByID w k (sq_instanceQueue i) = (e, q)" by fastforce
  have "iq_ok w (sq_instanceQueue i)" using assms by (simp add: sq_ok_def)
  note law = iq_del_law [OF this q]
  show "sq_ok w (sq_forget w k i)" using assms q law by (simp add: sq_ok_def sq_forget_def)
  show "sq_GetByID w j (sq_forget w k i) = (if j = k then None else sq_GetByID w j i)"
    using q law by (simp add: sq_GetByID_def sq_forget_def split: option.split)
qed

abbreviation placed :: "instanceElement \<Rightarrow> bool" where
  "placed e \<equiv> ie_Code e = statusRunning \<or> ie_Code e = statusSubHealth \<or> ie_Code e = statusEvicting"

lemma sq_place_law:
  assumes ok: "sq_ok w i" and new: "sq_GetByID w k i = None" and id: "getInstanceID w p = k"
    and pl: "placed (elem w p)" and r: "sq_place w k p i = (err, i')"
  shows "err = None" "sq_ok w i'" "sq_GetByID w j i' = (if j = k then Some p else sq_GetByID w j i)"
proof -
  obtain e q where q: "iq_PushBack w p (sq_instanceQueue i) = (e, q)" by fastforce
  have n: "fmlookup (sq_subHealthRecord i) k = None" "fmlookup (sq_evictingRecord i) k = None"
    "iq_GetByID w (getInstanceID w p) (sq_instanceQueue i) = None"
    using new id by (auto simp: sq_GetByID_def split: option.splits)
  have "iq_ok w (sq_instanceQueue i)" using ok by (simp add: sq_ok_def)
  note law = iq_push_law [OF this n(3) q]
  consider (r) "ie_Code (elem w p) = statusRunning" | (s) "ie_Code (elem w p) = statusSubHealth"
    | (e) "ie_Code (elem w p) = statusEvicting" using pl by blast
  then have "err = None \<and> sq_ok w i' \<and> sq_GetByID w j i' = (if j = k then Some p else sq_GetByID w j i)"
  proof cases
    case r
    then have i': "i' = i\<lparr>sq_instanceQueue := q\<rparr>" "err = None" using assms(5) q law(1) by (auto simp: sq_place_def)
    have "sq_ok w i'" using ok law id n by (auto simp: i' sq_ok_def)
    moreover have "sq_GetByID w j i' = (if j = k then Some p else sq_GetByID w j i)"
      using law(3) id n by (auto simp: i' sq_GetByID_def split: option.split)
    ultimately show ?thesis using i' by simp
  next
    case s
    then have i': "i' = i\<lparr>sq_subHealthRecord := fmupd k p (sq_subHealthRecord i)\<rparr>" "err = None"
      using assms(5) by (auto simp: sq_place_def)
    show ?thesis using ok id n by (auto simp: i' sq_ok_def sq_GetByID_def split: option.split)
  next
    case e
    then have i': "i' = i\<lparr>sq_evictingRecord := fmupd k p (sq_evictingRecord i)\<rparr>" "err = None"
      using assms(5) by (auto simp: sq_place_def)
    show ?thesis using ok id n by (auto simp: i' sq_ok_def sq_GetByID_def split: option.split)
  qed
  then show "err = None" "sq_ok w i'" "sq_GetByID w j i' = (if j = k then Some p else sq_GetByID w j i)" by simp_all
qed

lemma sq_place_refused: "\<not> placed (elem w p) \<Longrightarrow> sq_place w k p i = (Some ErrInternal, i)"
  by (simp add: sq_place_def)

lemma sq_push_law:
  assumes ok: "sq_ok w i" and r: "sq_PushBack w p i = (err, i')"
  shows "sq_ok w i'"
    and "err = (if sq_GetByID w (getInstanceID w p) i \<noteq> None then Some ErrInsAlreadyExist
                else if placed (elem w p) then None else Some ErrInternal)"
    and "sq_GetByID w j i' = (if err = None \<and> j = getInstanceID w p then Some p else sq_GetByID w j i)"
proof -
  let ?k = "getInstanceID w p"
  consider (old) "sq_GetByID w ?k i \<noteq> None" | (new) "sq_GetByID w ?k i = None" "placed (elem w p)"
    | (bad) "sq_GetByID w ?k i = None" "\<not> placed (elem w p)" by blast
  then have "sq_ok w i' \<and> err = (if sq_GetByID w ?k i \<noteq> None then Some ErrInsAlreadyExist
      else if placed (elem w p) then None else Some ErrInternal) \<and>
      sq_GetByID w j i' = (if err = None \<and> j = ?k then Some p else sq_GetByID w j i)"
  proof cases
    case old
    then show ?thesis using ok r by (auto simp: sq_PushBack_def sq_exists_get)
  next
    case new
    then have "sq_place w ?k p i = (err, i')" using r by (simp add: sq_PushBack_def sq_exists_get)
    from sq_place_law [OF ok new(1) refl new(2) this] new show ?thesis by simp
  next
    case bad
    then show ?thesis using ok r by (auto simp: sq_PushBack_def sq_exists_get sq_place_refused)
  qed
  then show "sq_ok w i'" "err = (if sq_GetByID w ?k i \<noteq> None then Some ErrInsAlreadyExist
      else if placed (elem w p) then None else Some ErrInternal)"
    "sq_GetByID w j i' = (if err = None \<and> j = ?k then Some p else sq_GetByID w j i)" by blast+
qed

lemma sq_del_law:
  assumes ok: "sq_ok w i" and r: "sq_DelByID w k i = (err, i')"
  shows "sq_ok w i'" "err = (if sq_GetByID w k i = None then Some ErrInsNotExist else None)"
    "sq_GetByID w j i' = (if j = k then None else sq_GetByID w j i)"
  using r sq_forget_law [OF ok] ok by (auto simp: sq_DelByID_def sq_exists_get split: if_splits)

text \<open>An update replaces the element, or takes it out when its status is none of the three.\<close>

lemma sq_update_law:
  assumes ok: "sq_ok w i" and id: "getInstanceID w p = k" and r: "sq_UpdateObjByID w k p i = (err, i')"
  shows "sq_ok w i'"
    and "err = (if sq_GetByID w k i = None then Some ErrInsNotExist else if placed (elem w p) then None else Some ErrInternal)"
    and "sq_GetByID w j i' = (if j = k \<and> sq_GetByID w k i \<noteq> None then if placed (elem w p) then Some p else None
                              else sq_GetByID w j i)"
proof -
  let ?f = "sq_forget w k i"
  note fl = sq_forget_law [OF ok]
  consider (none) "sq_GetByID w k i = None" | (ok) "sq_GetByID w k i \<noteq> None" "placed (elem w p)"
    | (bad) "sq_GetByID w k i \<noteq> None" "\<not> placed (elem w p)" by blast
  then have "sq_ok w i' \<and>
      err = (if sq_GetByID w k i = None then Some ErrInsNotExist else if placed (elem w p) then None else Some ErrInternal) \<and>
      sq_GetByID w j i' = (if j = k \<and> sq_GetByID w k i \<noteq> None then if placed (elem w p) then Some p else None
                              else sq_GetByID w j i)"
  proof cases
    case none
    then show ?thesis using ok r by (auto simp: sq_UpdateObjByID_def sq_exists_get)
  next
    case ok
    then have "sq_place w k p ?f = (err, i')" using r by (simp add: sq_UpdateObjByID_def sq_exists_get)
    from sq_place_law [OF fl(1) _ id ok(2) this] fl(2) ok show ?thesis by simp
  next
    case bad
    then show ?thesis using r fl by (auto simp: sq_UpdateObjByID_def sq_exists_get sq_place_refused)
  qed
  then show "sq_ok w i'"
    "err = (if sq_GetByID w k i = None then Some ErrInsNotExist else if placed (elem w p) then None else Some ErrInternal)"
    "sq_GetByID w j i' = (if j = k \<and> sq_GetByID w k i \<noteq> None then if placed (elem w p) then Some p else None
                              else sq_GetByID w j i)" by blast+
qed

interpretation sq: id_queue "sq_ok w" "\<lambda>q i. sq_GetByID w i q" "getInstanceID w" "\<lambda>x. placed (elem w x)"
  "\<lambda>x q. snd (sq_PushBack w x q)" "\<lambda>i q. snd (sq_DelByID w i q)" for w
proof (unfold_locales, goal_cases)
  case (1 q i x) then show ?case by (rule sq_ident)
next
  case (2 q x) then show ?case using sq_push_law(2,3) [OF 2(1) surjective_pairing] by (simp add: fun_eq_iff)
next
  case (3 q x) then show ?case using sq_push_law(1) [OF 3(1) surjective_pairing] by simp
next
  case (4 q i) then show ?case using sq_del_law(3) [OF 4 surjective_pairing] by (simp add: fun_eq_iff)
next
  case (5 q i) then show ?case by (rule sq_del_law(1) [OF _ surjective_pairing])
qed

section \<open>Ends and iteration\<close>

lemma pq_visits_iff: "pq_ok ident q \<Longrightarrow> p \<in> set (pq_visits q) \<longleftrightarrow> pq_GetByID (ident p) q = Some p"
proof -
  assume ok: "pq_ok ident q"
  have "pq_visits q = map snd (item_pairs q)" by (simp add: pq_visits_def item_pairs_def)
  then show ?thesis using ok unfolding pq_ok_def pq_GetByID_map by (force simp: map_of_eq_Some_iff)
qed

lemma set_sorted_visits: "set (pq_sorted_visits q) = set (pq_visits q)"
proof -
  have "set (pop_all (dh_Len (pq_deHeap q)) (pq_deHeap q)) = set (dh_items (pq_deHeap q))"
    using pop_all_mset [OF refl, of "pq_deHeap q"] by (metis set_mset_mset)
  then show ?thesis by (simp add: pq_sorted_visits_def pq_visits_def)
qed

lemma iq_visits_iff:
  assumes "iq_ok w q"
  shows "p \<in> set (iq_visits q) \<longleftrightarrow> iq_GetByID w (getInstanceID w p) q = Some p"
    "p \<in> set (iq_sorted_visits q) \<longleftrightarrow> iq_GetByID w (getInstanceID w p) q = Some p"
proof -
  have "p \<in> set (iq_visits q) \<longleftrightarrow> iq_GetByID w (getInstanceID w p) q = Some p"
  proof (cases q)
    case (PlainQueue f r)
    then show ?thesis using assms pq_visits_iff [of "getInstanceID w" r p] by (simp add: iq_visits_def iq_GetByID_def)
  next
    case (BufferQueue f b)
    have "pq_ok (getInstanceID w) (bq_queue b)" "iq_ok w (BufferQueue f b)" using assms BufferQueue by simp_all
    then show ?thesis using BufferQueue pq_visits_iff [of "getInstanceID w" "bq_queue b" p] bq_get_iff [of w f b "getInstanceID w p" p]
      by (auto simp: iq_visits_def iq_GetByID_def bq_visits_def)
  qed
  moreover have "set (iq_sorted_visits q) = set (iq_visits q)"
    by (cases q) (simp_all add: iq_sorted_visits_def iq_visits_def bq_sorted_visits_def bq_visits_def set_sorted_visits)
  ultimately show "p \<in> set (iq_visits q) \<longleftrightarrow> iq_GetByID w (getInstanceID w p) q = Some p"
    "p \<in> set (iq_sorted_visits q) \<longleftrightarrow> iq_GetByID w (getInstanceID w p) q = Some p" by simp_all
qed

lemma record_visits_iff: "range_order ord \<Longrightarrow> p \<in> set (record_visits ord m) \<longleftrightarrow> (\<exists>k. fmlookup m k = Some p)"
  by (auto simp: record_visits_def range_orderD fmlookup_dom'_iff image_iff) (metis fmdom'I option.sel)

lemma sq_Range_iff:
  assumes "sq_ok w i" and "range_order ord"
  shows "p \<in> set (sq_Range ord i) \<longleftrightarrow> sq_GetByID w (getInstanceID w p) i = Some p"
    "p \<in> set (sq_SortedRange ord i) \<longleftrightarrow> sq_GetByID w (getInstanceID w p) i = Some p"
proof -
  have iq: "iq_ok w (sq_instanceQueue i)" using assms(1) by (simp add: sq_ok_def)
  have "(\<exists>k. fmlookup (sq_subHealthRecord i) k = Some p) \<longleftrightarrow> fmlookup (sq_subHealthRecord i) (getInstanceID w p) = Some p"
    "(\<exists>k. fmlookup (sq_evictingRecord i) k = Some p) \<longleftrightarrow> fmlookup (sq_evictingRecord i) (getInstanceID w p) = Some p"
    using assms(1) by (auto simp: sq_ok_def)
  then show "p \<in> set (sq_Range ord i) \<longleftrightarrow> sq_GetByID w (getInstanceID w p) i = Some p"
    "p \<in> set (sq_SortedRange ord i) \<longleftrightarrow> sq_GetByID w (getInstanceID w p) i = Some p"
    using assms(1) by (auto simp: sq_Range_def sq_SortedRange_def iq_visits_iff [OF iq] record_visits_iff [OF assms(2)]
        sq_GetByID_def sq_ok_def split: option.splits)
qed

lemma pq_end_law:
  assumes ok: "pq_ok ident q" and m: "heap_mset (pq_deHeap q) = add_mset it (heap_mset h)"
  shows "pq_ok ident (q\<lparr>pq_deHeap := h\<rparr>)" "pq_GetByID (ident (it_Obj it)) q = Some (it_Obj it)"
    "pq_GetByID i (q\<lparr>pq_deHeap := h\<rparr>) = (if i = ident (it_Obj it) then None else pq_GetByID i q)"
proof -
  let ?q = "q\<lparr>pq_deHeap := h\<rparr>"
  let ?e = "(it_ObjID it, it_Obj it)"
  have eq: "mset (item_pairs q) = mset (?e # item_pairs ?q)" using m by (simp add: mset_pairs)
  have d: "distinct (map fst (?e # item_pairs ?q))"
    using ok eq unfolding pq_ok_def by (metis mset_eq_imp_distinct_iff mset_map)
  note pe = pairs_eqI [OF eq d]
  have id: "ident (it_Obj it) = it_ObjID it" using ok pe(2) by (auto simp: pq_ok_def)
  have "map_of (item_pairs ?q) (it_ObjID it) = None" using d by (simp add: map_of_eq_None_iff)
  then show "pq_ok ident ?q" "pq_GetByID (ident (it_Obj it)) q = Some (it_Obj it)"
    "pq_GetByID i ?q = (if i = ident (it_Obj it) then None else pq_GetByID i q)"
    using ok pe d id by (auto simp: pq_ok_def pq_GetByID_map)
qed

lemma pq_pop_law:
  assumes "pq_ok ident q" and "pq_PopFront q = (Some p, q') \<or> pq_PopBack q = (Some p, q')"
  shows "pq_ok ident q'" "pq_GetByID (ident p) q = Some p" "pq_GetByID i q' = (if i = ident p then None else pq_GetByID i q)"
proof -
  obtain it h where it: "p = it_Obj it" "q' = q\<lparr>pq_deHeap := h\<rparr>" "heap_mset (pq_deHeap q) = add_mset it (heap_mset h)"
    using assms(2)
    by (auto simp: pq_PopFront_def pq_PopBack_def split: prod.splits dest!: PopMax_mset PopMin_mset)
  from pq_end_law [OF assms(1) it(3)] show "pq_ok ident q'" "pq_GetByID (ident p) q = Some p"
    "pq_GetByID i q' = (if i = ident p then None else pq_GetByID i q)" by (simp_all add: it)
qed

lemma buffer_cut:
  assumes ok: "iq_ok w (BufferQueue f b)" and cut: "mset (bq_buffer b) = add_mset p (mset xs)" and e: "pq_Len (bq_queue b) = 0"
  shows "iq_ok w (BufferQueue f (b\<lparr>bq_buffer := xs\<rparr>)) \<and> bq_GetByID w (getInstanceID w p) b = Some p \<and>
    bq_GetByID w i (b\<lparr>bq_buffer := xs\<rparr>) = (if i = getInstanceID w p then None else bq_GetByID w i b)"
proof -
  have none: "pq_GetByID j (bq_queue b) = None" for j using e by (simp add: pq_GetByID_map item_pairs_def pq_Len_def dh_Len_def)
  have "mset (map (getInstanceID w) (bq_buffer b)) = mset (map (getInstanceID w) (p # xs))" using cut by (simp add: mset_map)
  then have d: "distinct (map (getInstanceID w) (p # xs))" using ok by (metis iq_ok.simps(2) mset_eq_imp_distinct_iff)
  have s: "set (bq_buffer b) = insert p (set xs)" using cut by (metis set_mset_add_mset_insert set_mset_mset)
  have ok': "iq_ok w (BufferQueue f (b\<lparr>bq_buffer := xs\<rparr>))" using ok d none by simp
  have "bq_GetByID w i (b\<lparr>bq_buffer := xs\<rparr>) = Some y \<longleftrightarrow> i \<noteq> getInstanceID w p \<and> bq_GetByID w i b = Some y" for y
  proof -
    have ne: "\<forall>x\<in>set xs. getInstanceID w x \<noteq> getInstanceID w p" using d by (auto simp: image_iff)
    have "y \<in> set xs \<and> getInstanceID w y = i \<longleftrightarrow> i \<noteq> getInstanceID w p \<and> y \<in> insert p (set xs) \<and> getInstanceID w y = i"
      using ne by blast
    then show ?thesis by (simp add: bq_get_iff [OF ok'] bq_get_iff [OF ok] none s)
  qed
  then have "bq_GetByID w i (b\<lparr>bq_buffer := xs\<rparr>) = (if i = getInstanceID w p then None else bq_GetByID w i b)"
    by (metis not_None_eq)
  then show ?thesis using ok' bq_get_iff [OF ok, of "getInstanceID w p" p] s by simp
qed

lemma map_prod_eq: "map_prod id g x = (a, b) \<longleftrightarrow> (\<exists>c. x = (a, c) \<and> b = g c)"
  by (cases x) auto

lemma iq_pop_law:
  assumes ok: "iq_ok w q" and p: "iq_PopFront q = (Some p, q') \<or> iq_PopBack q = (Some p, q')"
  shows "iq_ok w q'" "iq_GetByID w (getInstanceID w p) q = Some p"
    "iq_GetByID w i q' = (if i = getInstanceID w p then None else iq_GetByID w i q)"
proof -
  have "iq_ok w q' \<and> iq_GetByID w (getInstanceID w p) q = Some p \<and>
    iq_GetByID w i q' = (if i = getInstanceID w p then None else iq_GetByID w i q)"
  proof (cases q)
    case (PlainQueue f r)
    then obtain r' where r': "q' = PlainQueue f r'" "pq_PopFront r = (Some p, r') \<or> pq_PopBack r = (Some p, r')"
      using p by (auto simp: iq_PopFront_def iq_PopBack_def map_prod_eq)
    from pq_pop_law [OF _ r'(2), of "getInstanceID w"] ok r'(1) PlainQueue show ?thesis by (simp add: iq_GetByID_def)
  next
    case (BufferQueue f b)
    show ?thesis
    proof (cases "pq_Len (bq_queue b) = 0")
      case False
      then obtain r' where r': "q' = BufferQueue f (b\<lparr>bq_queue := r'\<rparr>)"
        "pq_PopFront (bq_queue b) = (Some p, r') \<or> pq_PopBack (bq_queue b) = (Some p, r')"
        using p BufferQueue by (auto simp: iq_PopFront_def iq_PopBack_def bq_PopFront_def bq_PopBack_def map_prod_eq split: prod.splits)
      have "pq_ok (getInstanceID w) (bq_queue b)" using ok BufferQueue by simp
      note law = pq_pop_law [OF this r'(2)]
      have "getInstanceID w x \<noteq> getInstanceID w p" if "x \<in> set (bq_buffer b)" for x using ok BufferQueue that law(2) by auto
      then show ?thesis using ok law r'(1) BufferQueue
        by (auto simp: iq_GetByID_def bq_GetByID_def find_None_iff split: option.splits)
    next
      case True
      then obtain xs where "q' = BufferQueue f (b\<lparr>bq_buffer := xs\<rparr>)" "bq_buffer b = p # xs \<or> bq_buffer b = xs @ [p]"
        using p BufferQueue append_butlast_last_id [of "bq_buffer b"]
        by (auto simp: iq_PopFront_def iq_PopBack_def bq_PopFront_def bq_PopBack_def map_prod_eq split: list.split_asm if_split_asm)
      moreover from this(2) have "mset (bq_buffer b) = add_mset p (mset xs)" by auto
      ultimately show ?thesis using buffer_cut [of w f b p xs i] ok True BufferQueue by (simp add: iq_GetByID_def)
    qed
  qed
  then show "iq_ok w q'" "iq_GetByID w (getInstanceID w p) q = Some p"
    "iq_GetByID w i q' = (if i = getInstanceID w p then None else iq_GetByID w i q)" by simp_all
qed

lemma pq_ends_visited: "pq_Front q = Some p \<or> pq_Back q = Some p \<Longrightarrow> p \<in> set (pq_visits q)"
proof -
  assume a: "pq_Front q = Some p \<or> pq_Back q = Some p"
  have "dh_Len (pq_deHeap q) \<noteq> 0 \<Longrightarrow> dh_min_index (pq_deHeap q) < length (dh_items (pq_deHeap q))"
    by (auto simp: dh_min_index_def dh_Len_def)
  with a show ?thesis
    by (auto simp: pq_Front_def pq_Back_def dh_GetMax_def dh_GetMin_def pq_visits_def dh_Len_def split: if_splits)
qed

lemma iq_ends_visited: "iq_Front q = Some p \<or> iq_Back q = Some p \<Longrightarrow> p \<in> set (iq_visits q)"
  using pq_ends_visited
  by (cases q) (auto simp: iq_Front_def iq_Back_def iq_visits_def bq_visits_def bq_Front_def bq_Back_def split: if_splits list.splits)

lemma sq_ends: "sq_ok w i \<Longrightarrow> sq_Front i = Some p \<or> sq_Back i = Some p \<Longrightarrow> sq_GetByID w (getInstanceID w p) i = Some p"
proof -
  assume ok: "sq_ok w i" and e: "sq_Front i = Some p \<or> sq_Back i = Some p"
  have iq: "iq_ok w (sq_instanceQueue i)" using ok by (simp add: sq_ok_def)
  have "iq_GetByID w (getInstanceID w p) (sq_instanceQueue i) = Some p"
    using e iq_ends_visited iq_visits_iff(1) [OF iq] by (auto simp: sq_Front_def sq_Back_def)
  then show ?thesis using ok by (auto simp: sq_GetByID_def sq_ok_def split: option.split)
qed

lemma sq_pop_law:
  assumes ok: "sq_ok w i" and p: "sq_PopFront i = (Some p, i') \<or> sq_PopBack i = (Some p, i')"
  shows "sq_ok w i'" "sq_GetByID w (getInstanceID w p) i = Some p"
    "sq_GetByID w k i' = (if k = getInstanceID w p then None else sq_GetByID w k i)"
proof -
  obtain q where q: "i' = i\<lparr>sq_instanceQueue := q\<rparr>"
    "iq_PopFront (sq_instanceQueue i) = (Some p, q) \<or> iq_PopBack (sq_instanceQueue i) = (Some p, q)"
    using p by (auto simp: sq_PopFront_def sq_PopBack_def split: prod.splits)
  have iq: "iq_ok w (sq_instanceQueue i)" using ok by (simp add: sq_ok_def)
  note law = iq_pop_law [OF iq q(2)]
  show "sq_ok w i'" using ok law by (auto simp: sq_ok_def q)
  have none: "fmlookup (sq_subHealthRecord i) (getInstanceID w p) = None" "fmlookup (sq_evictingRecord i) (getInstanceID w p) = None"
    using ok law(2) by (auto simp: sq_ok_def) (metis not_None_eq)+
  show "sq_GetByID w (getInstanceID w p) i = Some p" using none law(2) by (simp add: sq_GetByID_def)
  show "sq_GetByID w k i' = (if k = getInstanceID w p then None else sq_GetByID w k i)"
    using none law(3) by (auto simp: sq_GetByID_def q split: option.split)
qed

lemma subhealth_pick:
  assumes "range_order ord" and "getSubHealthInstanceFromRecord w ord m = Some p"
  shows "\<exists>k. fmlookup m k = Some p"
proof -
  let ?f = "\<lambda>ins v. case ins of None \<Rightarrow> Some v | Some x \<Rightarrow> if ie_avail (elem w x) \<ge> ie_avail (elem w v) then Some v else Some x"
  have "foldl ?f a xs = Some p \<Longrightarrow> a = Some p \<or> p \<in> set xs" for a xs
    by (induction xs arbitrary: a) (auto split: option.splits if_splits)
  then have "p \<in> set (record_visits ord m)" using assms(2) unfolding getSubHealthInstanceFromRecord_def by blast
  then show ?thesis using record_visits_iff [OF assms(1)] by blast
qed

lemma sq_pop_sub_law:
  assumes ok: "sq_ok w i" and ord: "range_order ord" and p: "sq_PopSubHealth w ord i = (Some p, i')"
  shows "sq_ok w i'" "sq_GetByID w (getInstanceID w p) i = Some p"
    "sq_GetByID w k i' = (if k = getInstanceID w p then None else sq_GetByID w k i)"
    "fmlookup (sq_subHealthRecord i) (getInstanceID w p) = Some p"
proof -
  have i': "i' = i\<lparr>sq_subHealthRecord := fmdrop (getInstanceID w p) (sq_subHealthRecord i)\<rparr>"
    and g: "getSubHealthInstanceFromRecord w ord (sq_subHealthRecord i) = Some p"
    using p by (auto simp: sq_PopSubHealth_def split: option.splits)
  obtain k0 where "fmlookup (sq_subHealthRecord i) k0 = Some p" using subhealth_pick [OF ord g] by blast
  moreover from this have "getInstanceID w p = k0" using ok unfolding sq_ok_def by blast
  ultimately show l: "fmlookup (sq_subHealthRecord i) (getInstanceID w p) = Some p" by simp
  have n: "fmlookup (sq_evictingRecord i) (getInstanceID w p) = None" "iq_GetByID w (getInstanceID w p) (sq_instanceQueue i) = None"
    using ok l unfolding sq_ok_def by blast+
  show "sq_ok w i'" using ok by (auto simp: sq_ok_def i')
  show "sq_GetByID w (getInstanceID w p) i = Some p" using l by (simp add: sq_GetByID_def)
  show "sq_GetByID w k i' = (if k = getInstanceID w p then None else sq_GetByID w k i)"
    using n by (auto simp: sq_GetByID_def i' split: option.split)
qed

section \<open>Worlds that agree on the IDs\<close>

lemma same_ids_cong:
  assumes "same_ids w w'"
  shows "getInstanceID w' = getInstanceID w" "iq_GetByID w' = iq_GetByID w" "sq_GetByID w' = sq_GetByID w"
    "iq_ok w' q = iq_ok w q" "sq_ok w' i = sq_ok w i"
proof -
  show id: "getInstanceID w' = getInstanceID w" using assms by (auto simp: same_ids_def)
  show g: "iq_GetByID w' = iq_GetByID w"
    by (intro ext) (simp add: iq_GetByID_def bq_GetByID_def id split: innerQueue.split option.split)
  then show "sq_GetByID w' = sq_GetByID w" by (intro ext) (simp add: sq_GetByID_def split: option.split)
  show o: "iq_ok w' q = iq_ok w q" for q by (cases q) (simp_all add: id)
  show "sq_ok w' i = sq_ok w i" by (simp add: sq_ok_def o id g)
qed

end
