(* ===== verification/SessionManager.thy ===== *)
theory SessionManager
  imports InstanceQueue LiteSched
begin

text \<open>
  The sessions of the concurrency schedulers (\<^verbatim>\<open>concurrencyscheduler/sessionmanager.go\<close>): the threads a
  session has bound, the local map of sessions, its copy in the session store, and the reader of the
  records that schedulers of an earlier release left behind.
\<close>

section \<open>Session records\<close>

text \<open>
  \<open>sn_expireCancelCh\<close> tells whether the channel of capacity one holds a token, \<open>sn_cancelled\<close> whether the
  context has been cancelled; \<open>sn_insElem\<close> is a pointer.
\<close>

record sessionRecord =
  sn_availThdMap :: "string fset"
  sn_allocThdMap :: "string fset"
  sn_overAcqThdMap :: "string fset"
  sn_expiring :: bool
  sn_ttl :: duration
  sn_concurrency :: int
  sn_sessionID :: string
  sn_sessionCtxID :: string
  sn_expireCancelCh :: bool
  sn_cancelled :: bool
  sn_insElem :: "nat option"

datatype thread_error = ThreadNotOfSession | ThreadAlreadyAcquired

definition MarkThreadAsAvailable :: "string \<Rightarrow> sessionRecord \<Rightarrow> thread_error + sessionRecord" where
  "MarkThreadAsAvailable threadID s =
     (if threadID |\<notin>| sn_allocThdMap s then Inl ThreadNotOfSession
      else Inr (s\<lparr>sn_availThdMap := finsert threadID (sn_availThdMap s)\<rparr>))"

definition PutThreadToAllocThdMap :: "string \<Rightarrow> sessionRecord \<Rightarrow> sessionRecord" where
  "PutThreadToAllocThdMap threadID s = s\<lparr>sn_allocThdMap := finsert threadID (sn_allocThdMap s)\<rparr>"

definition GetThreadFromAvailThdMap :: "(string fset \<Rightarrow> string) \<Rightarrow> sessionRecord \<Rightarrow> string \<times> sessionRecord" where
  "GetThreadFromAvailThdMap pick s =
     (case take_key pick (sn_availThdMap s) of (threadID, m) \<Rightarrow> (threadID, s\<lparr>sn_availThdMap := m\<rparr>))"

definition GetOrReplaceDesignateThreadFromAvailThdMap ::
  "(string fset \<Rightarrow> string) \<Rightarrow> string \<Rightarrow> sessionRecord \<Rightarrow> thread_error + string \<times> sessionRecord" where
  "GetOrReplaceDesignateThreadFromAvailThdMap pick designateThreadID s =
     (if designateThreadID = [] then Inr (GetThreadFromAvailThdMap pick s)
      else if designateThreadID |\<in>| sn_availThdMap s
      then Inr (designateThreadID, s\<lparr>sn_availThdMap := sn_availThdMap s |-| {|designateThreadID|}\<rparr>)
      else if designateThreadID |\<in>| sn_allocThdMap s then Inl ThreadAlreadyAcquired
      else case GetThreadFromAvailThdMap pick s of
             (threadID, s1) \<Rightarrow>
               Inr (designateThreadID,
                    s1\<lparr>sn_allocThdMap := finsert designateThreadID (sn_allocThdMap s1 |-| {|threadID|})\<rparr>))"

section \<open>The manager\<close>

record legacySessionInDS =
  lg_SchedulerID :: string
  lg_SessionCtxID :: string
  lg_SessionID :: string
  lg_SessionTTL :: int
  lg_Concurrency :: int

type_synonym legacyBulk = "(string, legacySessionInDS list) gomap"

text \<open>Records are shared with the goroutines that unbind sessions: \<open>sm_records\<close> is the heap of records.\<close>

record sessionManager =
  sm_currentSchedulerID :: string
  sm_sessionMap :: "(string, nat) gomap"
  sm_records :: "(nat, sessionRecord) gomap"
  sm_nextRecord :: nat
  sm_funcKeyWithLabel :: string
  sm_coord :: Coordinator
  sm_isFuncOwner :: bool
  sm_bulkCache :: "legacyBulk option"
  sm_bulkLoadedAt :: time

definition makeSessionManager :: "storeSettings \<Rightarrow> string \<Rightarrow> Store \<Rightarrow> sessionManager" where
  "makeSessionManager g funcKeyWithLabel store =
     \<lparr>sm_currentSchedulerID = st_PodIP g, sm_sessionMap = fmempty, sm_records = fmempty, sm_nextRecord = 0,
      sm_funcKeyWithLabel = funcKeyWithLabel, sm_coord = NewCoordinator store, sm_isFuncOwner = False,
      sm_bulkCache = None, sm_bulkLoadedAt = 0\<rparr>"

definition makeSessionCacheKey :: "string \<Rightarrow> string \<Rightarrow> string" where
  "makeSessionCacheKey funcName funcKeyWithRes = ''sessioncache-'' @ funcName @ ''-'' @ hash16 funcKeyWithRes"

definition setFuncOwner :: "bool \<Rightarrow> sessionManager \<Rightarrow> sessionManager" where
  "setFuncOwner isFuncOwner sm = sm\<lparr>sm_isFuncOwner := isFuncOwner\<rparr>"

definition getSession :: "string \<Rightarrow> sessionManager \<Rightarrow> (nat \<times> sessionRecord) option" where
  "getSession sessionID sm =
     (case fmlookup (sm_sessionMap sm) sessionID of
        None \<Rightarrow> None
      | Some r \<Rightarrow>
          (case fmlookup (sm_records sm) r of
             None \<Rightarrow> None
           | Some record \<Rightarrow> if sn_insElem record = None then None else Some (r, record)))"

definition sm_saveSessionToStore :: "elemWorld \<Rightarrow> string \<Rightarrow> sessionRecord \<Rightarrow> sessionManager \<Rightarrow> sessionManager" where
  "sm_saveSessionToStore w sessionKey record sm =
     (case sn_insElem record of
        None \<Rightarrow> sm
      | Some p \<Rightarrow>
          (case SaveRecord sessionKey
                  \<lparr>sr_InstanceID = getInstanceID w p, sr_SchedulerID = sm_currentSchedulerID sm,
                   sr_SessionID = sn_sessionID record, sr_SessionCtxID = sn_sessionCtxID record,
                   sr_SessionTTL = godiv (sn_ttl record) second, sr_Concurrency = sn_concurrency record,
                   sr_UpdatedAtUnixNs = 0\<rparr> (Some (sm_coord sm)) of
             None \<Rightarrow> sm
           | Some c \<Rightarrow> sm\<lparr>sm_coord := c\<rparr>))"

definition sm_deleteSessionFromStore :: "string \<Rightarrow> sessionManager \<Rightarrow> sessionManager" where
  "sm_deleteSessionFromStore sessionKey sm =
     (case DeleteRecord sessionKey (Some (sm_coord sm)) of None \<Rightarrow> sm | Some c \<Rightarrow> sm\<lparr>sm_coord := c\<rparr>)"

definition addSession :: "elemWorld \<Rightarrow> string \<Rightarrow> nat \<Rightarrow> sessionManager \<Rightarrow> sessionManager" where
  "addSession w sessionID r sm =
     (let sm1 = sm\<lparr>sm_sessionMap := fmupd sessionID r (sm_sessionMap sm)\<rparr>
      in case fmlookup (sm_records sm) r of
           None \<Rightarrow> sm1
         | Some record \<Rightarrow> sm_saveSessionToStore w sessionID record sm1)"

definition deleteLocalSession :: "string \<Rightarrow> sessionManager \<Rightarrow> sessionManager" where
  "deleteLocalSession sessionID sm = sm\<lparr>sm_sessionMap := fmdrop sessionID (sm_sessionMap sm)\<rparr>"

definition delSession :: "string \<Rightarrow> sessionManager \<Rightarrow> sessionManager" where
  "delSession sessionID sm = sm_deleteSessionFromStore sessionID (deleteLocalSession sessionID sm)"

definition stopAndClean :: "sessionManager \<Rightarrow> sessionManager" where
  "stopAndClean sm = (case co_Stop (Some (sm_coord sm)) of None \<Rightarrow> sm | Some c \<Rightarrow> sm\<lparr>sm_coord := c\<rparr>)"

definition sm_cleanExternalRecords :: "recordOrder \<Rightarrow> sessionManager \<Rightarrow> sessionManager" where
  "sm_cleanExternalRecords ord sm =
     (case CleanRecords (ord (sm_sessionMap sm)) (Some (sm_coord sm)) of None \<Rightarrow> sm | Some c \<Rightarrow> sm\<lparr>sm_coord := c\<rparr>)"

section \<open>Records of an earlier release\<close>

text \<open>
  \<open>fetched\<close> is the answer of the data system to the GET of the bulk package of the function and \<open>decode\<close> the
  JSON decoder; an answer is used for two seconds.
\<close>

datatype bulk_error = BulkGetError | BulkDecodeError

abbreviation (input) bulkCacheTTL :: duration where "bulkCacheTTL \<equiv> 2 * second"

definition loadLegacyBulk ::
  "time \<Rightarrow> string option \<Rightarrow> (string \<Rightarrow> legacyBulk option) \<Rightarrow> sessionManager \<Rightarrow>
     (bulk_error + legacyBulk) \<times> sessionManager" where
  "loadLegacyBulk now fetched decode sm =
     (case (if now - sm_bulkLoadedAt sm < bulkCacheTTL then sm_bulkCache sm else None) of
        Some bulk \<Rightarrow> (Inr bulk, sm)
      | None \<Rightarrow>
          (case fetched of
             None \<Rightarrow> (Inl BulkGetError, sm)
           | Some resp \<Rightarrow>
               (case (if resp = [] then Some fmempty else decode resp) of
                  None \<Rightarrow> (Inl BulkDecodeError, sm)
                | Some bulk \<Rightarrow> (Inr bulk, sm\<lparr>sm_bulkCache := Some bulk, sm_bulkLoadedAt := now\<rparr>))))"

definition splitSessionKey :: "string \<Rightarrow> string \<times> string" where
  "splitSessionKey sessionKey =
     (if CHR 0x00 \<in> set sessionKey
      then (takeWhile (\<lambda>c. c \<noteq> CHR 0x00) sessionKey, tl (dropWhile (\<lambda>c. c \<noteq> CHR 0x00) sessionKey))
      else (sessionKey, []))"

definition legacy_match :: "string \<Rightarrow> string \<Rightarrow> legacySessionInDS \<Rightarrow> bool" where
  "legacy_match sessionID sessionCtxID s \<longleftrightarrow>
     lg_SessionID s = sessionID \<and> (sessionCtxID = [] \<or> lg_SessionCtxID s = sessionCtxID)"

text \<open>The search visits the instances in the order \<open>ord\<close> of the map.\<close>

definition legacy_entries :: "(legacyBulk \<Rightarrow> string list) \<Rightarrow> legacyBulk \<Rightarrow> (string \<times> legacySessionInDS) list" where
  "legacy_entries ord bulk = concat (map (\<lambda>i. map (Pair i) (the (fmlookup bulk i))) (ord bulk))"

definition getRecordFromLegacyBulk ::
  "(legacyBulk \<Rightarrow> string list) \<Rightarrow> time \<Rightarrow> string option \<Rightarrow> (string \<Rightarrow> legacyBulk option) \<Rightarrow> string \<Rightarrow> sessionManager \<Rightarrow>
     (bulk_error + StoreRecord option) \<times> sessionManager" where
  "getRecordFromLegacyBulk ord now fetched decode sessionKey sm =
     (case loadLegacyBulk now fetched decode sm of
        (Inl err, sm') \<Rightarrow> (Inl err, sm')
      | (Inr bulk, sm') \<Rightarrow>
          (case splitSessionKey sessionKey of
             (sessionID, sessionCtxID) \<Rightarrow>
               (Inr (map_option (\<lambda>(instanceID, s).
                       \<lparr>sr_InstanceID = instanceID, sr_SchedulerID = lg_SchedulerID s, sr_SessionID = lg_SessionID s,
                        sr_SessionCtxID = lg_SessionCtxID s, sr_SessionTTL = lg_SessionTTL s,
                        sr_Concurrency = lg_Concurrency s, sr_UpdatedAtUnixNs = 0\<rparr>)
                     (find (\<lambda>(_, s). legacy_match sessionID sessionCtxID s) (legacy_entries ord bulk))), sm')))"

datatype lookup_error = FromStore store_error | FromBulk bulk_error

definition sm_getSessionFromStore ::
  "'w kvClient \<Rightarrow> recordCodec \<Rightarrow> 'w \<Rightarrow> bool \<Rightarrow> (legacyBulk \<Rightarrow> string list) \<Rightarrow> time \<Rightarrow> string option \<Rightarrow>
     (string \<Rightarrow> legacyBulk option) \<Rightarrow> string \<Rightarrow> sessionManager \<Rightarrow> (lookup_error + StoreRecord option) \<times> sessionManager" where
  "sm_getSessionFromStore kv codec kvs updating ord now fetched decode sessionKey sm =
     (case GetRecord kv codec kvs sessionKey (Some (sm_coord sm)) of
        Inl err \<Rightarrow> (Inl (FromStore err), sm)
      | Inr (Some rec) \<Rightarrow> (Inr (Some rec), sm)
      | Inr None \<Rightarrow>
          if updating then
            (case getRecordFromLegacyBulk ord now fetched decode sessionKey sm of
               (Inl err, sm') \<Rightarrow> (Inl (FromBulk err), sm')
             | (Inr r, sm') \<Rightarrow> (Inr r, sm'))
          else (Inr None, sm))"

lemma splitSessionKey_JoinKey: "CHR 0x00 \<notin> set sessionID \<Longrightarrow> splitSessionKey (JoinKey [sessionID, ctx]) = (sessionID, ctx)"
  by (simp add: splitSessionKey_def JoinKey2 takeWhile_append dropWhile_append)

end
