(* ===== verification/LeaseManager.thy ===== *)
theory LeaseManager
  imports TimeWheel "HOL-Library.Multiset"
begin

text \<open>
  Leases of instance threads (\<^verbatim>\<open>functionscaler/lease/generic_lease_manager.go\<close>). Every instance has a
  holder with a time wheel of its own; a lease is a task of the wheel together with a callback that
  is run when the lease is released or expires. The callbacks are a parameter of the types: the
  concurrency scheduler stores the allocation to give back.
\<close>

section \<open>The holder of one instance\<close>

abbreviation (input) defaultTimeWheelPace :: duration where "defaultTimeWheelPace \<equiv> 5 * millisecond"
abbreviation (input) defaultTimeWheelSlots :: int where "defaultTimeWheelSlots \<equiv> 100"

datatype lease_error =
    ErrInstanceLeaseHolderNotEnable
  | ErrLeaseNotExist
  | ErrInvalidAllocation
  | ErrInstanceNotFound
  | ErrManagerNotExist
  | ErrTimeWheel tw_error

record 'c instanceLeaseHolder =
  lh_instance :: string
  lh_timeWheel :: SimpleTimeWheel
  lh_intervalMap :: "(string, duration) gomap"
  lh_callbackMap :: "(string, 'c) gomap"
  lh_enable :: bool

definition newInstanceLeaseHolder :: "string \<Rightarrow> 'c instanceLeaseHolder" where
  "newInstanceLeaseHolder instance =
     \<lparr>lh_instance = instance,
      lh_timeWheel = NewSimpleTimeWheel defaultTimeWheelPace defaultTimeWheelSlots,
      lh_intervalMap = fmempty, lh_callbackMap = fmempty, lh_enable = True\<rparr>"

definition lh_stop :: "'c instanceLeaseHolder \<Rightarrow> 'c instanceLeaseHolder" where
  "lh_stop il =
     (let il' = il\<lparr>lh_enable := False\<rparr>
      in if lh_enable il then il'\<lparr>lh_timeWheel := Stop (lh_timeWheel il)\<rparr> else il')"

definition createLease ::
  "string \<Rightarrow> duration \<Rightarrow> 'c \<Rightarrow> 'c instanceLeaseHolder \<Rightarrow> lease_error + 'c instanceLeaseHolder" where
  "createLease allocationID interval callback il =
     (if \<not> lh_enable il then Inl ErrInstanceLeaseHolderNotEnable
      else case AddTask (lh_timeWheel il) allocationID interval 1 of
             Inl err \<Rightarrow> Inl (ErrTimeWheel err)
           | Inr w \<Rightarrow>
               Inr (il\<lparr>lh_timeWheel := w,
                       lh_intervalMap := fmupd allocationID interval (lh_intervalMap il),
                       lh_callbackMap := fmupd allocationID callback (lh_callbackMap il)\<rparr>))"

definition extendLease :: "string \<Rightarrow> 'c instanceLeaseHolder \<Rightarrow> lease_error + 'c instanceLeaseHolder" where
  "extendLease allocationID il =
     (if \<not> lh_enable il then Inl ErrInstanceLeaseHolderNotEnable
      else case fmlookup (lh_intervalMap il) allocationID of
             None \<Rightarrow> Inl ErrLeaseNotExist
           | Some interval \<Rightarrow>
               (case UpdateTask (lh_timeWheel il) allocationID interval 1 of
                  Inl err \<Rightarrow> Inl (ErrTimeWheel err)
                | Inr w \<Rightarrow> Inr (il\<lparr>lh_timeWheel := w\<rparr>)))"

text \<open>Taking a lease out of the holder, and the callback it had.\<close>

definition drop_lease :: "string \<Rightarrow> 'c instanceLeaseHolder \<Rightarrow> 'c option \<times> 'c instanceLeaseHolder" where
  "drop_lease allocationID il =
     (fmlookup (lh_callbackMap il) allocationID,
      il\<lparr>lh_timeWheel := DelTask (lh_timeWheel il) allocationID,
         lh_intervalMap := fmdrop allocationID (lh_intervalMap il),
         lh_callbackMap := fmdrop allocationID (lh_callbackMap il)\<rparr>)"

text \<open>The result has the callback that is run after the lock has been given back, if there is one.\<close>

definition releaseLease ::
  "string \<Rightarrow> 'c instanceLeaseHolder \<Rightarrow> lease_error + 'c option \<times> 'c instanceLeaseHolder" where
  "releaseLease allocationID il =
     (if \<not> lh_enable il then Inl ErrInstanceLeaseHolderNotEnable
      else Inr (drop_lease allocationID il))"

text \<open>
  One round of \<^verbatim>\<open>pollLease\<close>: \<open>None\<close> while \<^verbatim>\<open>Wait\<close> blocks, otherwise the batch that is handed to a new
  goroutine (the empty one starts none); a stopped holder ends the loop. \<open>expireLease\<close> is what that
  goroutine does with one entry of the batch.
\<close>

definition pollLease :: "'c instanceLeaseHolder \<Rightarrow> ('c instanceLeaseHolder \<times> string list) option" where
  "pollLease il =
     (if \<not> lh_enable il then Some (il, [])
      else case Wait (lh_timeWheel il) of
             None \<Rightarrow> None
           | Some (w, readyList, _) \<Rightarrow> Some (il\<lparr>lh_timeWheel := w\<rparr>, readyList))"

definition expireLease :: "string \<Rightarrow> 'c instanceLeaseHolder \<Rightarrow> 'c option \<times> 'c instanceLeaseHolder" where
  "expireLease allocationID il = drop_lease allocationID il"

section \<open>The manager of one function\<close>

text \<open>Holders are shared with their goroutines, so they live behind pointers.\<close>

record 'c GenericInstanceLeaseManager =
  gm_leaseHolders :: "(string, nat) gomap"
  gm_holders :: "(nat, 'c instanceLeaseHolder) gomap"
  gm_next :: nat
  gm_funcKey :: string

definition NewGenericLeaseManager :: "string \<Rightarrow> 'c GenericInstanceLeaseManager" where
  "NewGenericLeaseManager funcKey =
     \<lparr>gm_leaseHolders = fmempty, gm_holders = fmempty, gm_next = 0, gm_funcKey = funcKey\<rparr>"

definition holder_of :: "string \<Rightarrow> 'c GenericInstanceLeaseManager \<Rightarrow> (nat \<times> 'c instanceLeaseHolder) option" where
  "holder_of instanceID gm =
     Option.bind (fmlookup (gm_leaseHolders gm) instanceID)
       (\<lambda>p. map_option (Pair p) (fmlookup (gm_holders gm) p))"

definition put_holder :: "nat \<Rightarrow> 'c instanceLeaseHolder \<Rightarrow> 'c GenericInstanceLeaseManager \<Rightarrow> 'c GenericInstanceLeaseManager" where
  "put_holder p il gm = gm\<lparr>gm_holders := fmupd p il (gm_holders gm)\<rparr>"

definition ensure_holder :: "string \<Rightarrow> 'c GenericInstanceLeaseManager \<Rightarrow> nat \<times> 'c instanceLeaseHolder \<times> 'c GenericInstanceLeaseManager" where
  "ensure_holder instanceID gm =
     (case holder_of instanceID gm of
        Some (p, il) \<Rightarrow> (p, il, gm)
      | None \<Rightarrow>
          let p = gm_next gm; il = newInstanceLeaseHolder instanceID
          in (p, il, put_holder p il (gm\<lparr>gm_leaseHolders := fmupd instanceID p (gm_leaseHolders gm),
                                         gm_next := Suc p\<rparr>)))"

text \<open>The allocation is given by the instance and the allocation ID, \<open>None\<close> when one of them is nil.\<close>

definition CreateInstanceLease ::
  "(string \<times> string) option \<Rightarrow> duration \<Rightarrow> 'c \<Rightarrow> 'c GenericInstanceLeaseManager \<Rightarrow>
     lease_error option \<times> 'c GenericInstanceLeaseManager" where
  "CreateInstanceLease insAlloc interval callback gm =
     (case insAlloc of
        None \<Rightarrow> (Some ErrInvalidAllocation, gm)
      | Some (instanceID, allocationID) \<Rightarrow>
          (case ensure_holder instanceID gm of
             (p, il, gm1) \<Rightarrow>
               (case createLease allocationID interval callback il of
                  Inl err \<Rightarrow> (Some err, gm1)
                | Inr il' \<Rightarrow> (None, put_holder p il' gm1))))"

definition gm_HandleInstanceDelete :: "string \<Rightarrow> 'c GenericInstanceLeaseManager \<Rightarrow> 'c GenericInstanceLeaseManager" where
  "gm_HandleInstanceDelete instanceID gm =
     (let gm1 = gm\<lparr>gm_leaseHolders := fmdrop instanceID (gm_leaseHolders gm)\<rparr>
      in case holder_of instanceID gm of
           None \<Rightarrow> gm1
         | Some (p, il) \<Rightarrow> put_holder p (lh_stop il) gm1)"

definition CleanAllLeases :: "'c GenericInstanceLeaseManager \<Rightarrow> 'c GenericInstanceLeaseManager" where
  "CleanAllLeases gm =
     gm\<lparr>gm_holders := fmmap_keys (\<lambda>p il. if p \<in> fmran' (gm_leaseHolders gm) then lh_stop il else il) (gm_holders gm),
        gm_leaseHolders := fmempty\<rparr>"

definition gm_extendLease :: "string \<Rightarrow> string \<Rightarrow> 'c GenericInstanceLeaseManager \<Rightarrow> lease_error option \<times> 'c GenericInstanceLeaseManager" where
  "gm_extendLease instanceID allocationID gm =
     (case holder_of instanceID gm of
        None \<Rightarrow> (Some ErrInstanceNotFound, gm)
      | Some (p, il) \<Rightarrow>
          (case extendLease allocationID il of
             Inl err \<Rightarrow> (Some err, gm)
           | Inr il' \<Rightarrow> (None, put_holder p il' gm)))"

definition gm_releaseLease ::
  "string \<Rightarrow> string \<Rightarrow> 'c GenericInstanceLeaseManager \<Rightarrow> (lease_error + 'c option) \<times> 'c GenericInstanceLeaseManager" where
  "gm_releaseLease instanceID allocationID gm =
     (case holder_of instanceID gm of
        None \<Rightarrow> (Inl ErrInstanceNotFound, gm)
      | Some (p, il) \<Rightarrow>
          (case releaseLease allocationID il of
             Inl err \<Rightarrow> (Inl err, gm)
           | Inr (callback, il') \<Rightarrow> (Inr callback, put_holder p il' gm)))"

text \<open>A lease as its client holds it; the manager is nil in a lease that was not made by one.\<close>

record GenericInstanceLease =
  gl_instanceID :: string
  gl_allocationID :: string
  gl_hasManager :: bool
  gl_interval :: duration

definition gl_Extend :: "GenericInstanceLease \<Rightarrow> 'c GenericInstanceLeaseManager \<Rightarrow> lease_error option \<times> 'c GenericInstanceLeaseManager" where
  "gl_Extend gl gm =
     (if \<not> gl_hasManager gl then (Some ErrManagerNotExist, gm)
      else gm_extendLease (gl_instanceID gl) (gl_allocationID gl) gm)"

definition gl_Release :: "GenericInstanceLease \<Rightarrow> 'c GenericInstanceLeaseManager \<Rightarrow> (lease_error + 'c option) \<times> 'c GenericInstanceLeaseManager" where
  "gl_Release gl gm =
     (if \<not> gl_hasManager gl then (Inl ErrManagerNotExist, gm)
      else gm_releaseLease (gl_instanceID gl) (gl_allocationID gl) gm)"

definition GetInterval :: "GenericInstanceLease \<Rightarrow> duration" where
  "GetInterval gl = gl_interval gl"

section \<open>A holder and its goroutines\<close>

text \<open>
  What can happen to a holder, one lock section at a time: calls of its clients, a tick of the wheel
  (with the batch going into the channel), the polling goroutine taking a batch, and the goroutines
  that work through the batches taken. \<open>lr_created\<close> and \<open>lr_run\<close> are the leases made and the callbacks
  run so far. A lease is made under an allocation ID that has no lease at the moment.
\<close>

record 'c lease_run =
  lr_holder :: "'c instanceLeaseHolder"
  lr_inflight :: "string list"
  lr_created :: "(string \<times> 'c) list"
  lr_run :: "(string \<times> 'c) list"

definition run_callback :: "string \<Rightarrow> 'c option \<Rightarrow> (string \<times> 'c) list" where
  "run_callback allocationID callback = (case callback of None \<Rightarrow> [] | Some c \<Rightarrow> [(allocationID, c)])"

inductive lease_step :: "'c lease_run \<Rightarrow> 'c lease_run \<Rightarrow> bool" where
  create: "fmlookup (lh_callbackMap (lr_holder s)) a = None \<Longrightarrow> createLease a d c (lr_holder s) = Inr il \<Longrightarrow>
    lease_step s (s\<lparr>lr_holder := il, lr_created := lr_created s @ [(a, c)]\<rparr>)"
| extend: "extendLease a (lr_holder s) = Inr il \<Longrightarrow> lease_step s (s\<lparr>lr_holder := il\<rparr>)"
| release: "releaseLease a (lr_holder s) = Inr (c, il) \<Longrightarrow>
    lease_step s (s\<lparr>lr_holder := il, lr_run := lr_run s @ run_callback a c\<rparr>)"
| tick: "range_order ord \<Longrightarrow> \<not> tw_stopped (lh_timeWheel (lr_holder s)) \<Longrightarrow> tick ord (lh_timeWheel (lr_holder s)) = (w, ready) \<Longrightarrow>
    send_ready w ready = Some w' \<Longrightarrow> lease_step s (s\<lparr>lr_holder := (lr_holder s)\<lparr>lh_timeWheel := w'\<rparr>\<rparr>)"
| poll: "pollLease (lr_holder s) = Some (il, ready) \<Longrightarrow>
    lease_step s (s\<lparr>lr_holder := il, lr_inflight := lr_inflight s @ ready\<rparr>)"
| expire: "lr_inflight s = xs @ a # ys \<Longrightarrow> expireLease a (lr_holder s) = (c, il) \<Longrightarrow>
    lease_step s (s\<lparr>lr_holder := il, lr_inflight := xs @ ys, lr_run := lr_run s @ run_callback a c\<rparr>)"
| stop: "lease_step s (s\<lparr>lr_holder := lh_stop (lr_holder s)\<rparr>)"

inductive_cases lease_stepE: "lease_step s s'"

definition lease_init :: "string \<Rightarrow> 'c lease_run" where
  "lease_init instance =
     \<lparr>lr_holder = newInstanceLeaseHolder instance, lr_inflight = [], lr_created = [], lr_run = []\<rparr>"

abbreviation lease_reach :: "string \<Rightarrow> 'c lease_run \<Rightarrow> bool" where
  "lease_reach instance \<equiv> lease_step\<^sup>*\<^sup>* (lease_init instance)"

section \<open>Invariants\<close>

text \<open>The leases that are on: what the callback map has.\<close>

definition live :: "'c instanceLeaseHolder \<Rightarrow> string \<Rightarrow> 'c \<Rightarrow> nat" where
  "live il a c = (if fmlookup (lh_callbackMap il) a = Some c then 1 else 0)"

definition accounted :: "'c lease_run \<Rightarrow> bool" where
  "accounted s \<longleftrightarrow> (\<forall>a c. count_list (lr_created s) (a, c) = count_list (lr_run s) (a, c) + live (lr_holder s) a c)"

lemma count_run_callback: "count_list (run_callback a c) (b, d) = (if b = a \<and> c = Some d then 1 else 0)"
  by (cases c) (auto simp: run_callback_def)

lemma live_drop:
  "drop_lease a il = (c, il') \<Longrightarrow> live il b d = live il' b d + (if b = a \<and> c = Some d then 1 else 0)"
  by (auto simp: drop_lease_def live_def split: if_splits)

lemma create_maps:
  "createLease a d c il = Inr il' \<Longrightarrow>
     lh_callbackMap il' = fmupd a c (lh_callbackMap il) \<and> lh_intervalMap il' = fmupd a d (lh_intervalMap il) \<and>
     lh_enable il \<and> lh_enable il' \<and> AddTask (lh_timeWheel il) a d 1 = Inr (lh_timeWheel il')"
  by (auto simp: createLease_def split: if_splits sum.splits)

lemma extend_maps:
  "extendLease a il = Inr il' \<Longrightarrow>
     lh_callbackMap il' = lh_callbackMap il \<and> lh_intervalMap il' = lh_intervalMap il \<and> lh_enable il' \<and> lh_enable il \<and>
     (\<exists>d. fmlookup (lh_intervalMap il) a = Some d \<and> UpdateTask (lh_timeWheel il) a d 1 = Inr (lh_timeWheel il'))"
  by (auto simp: extendLease_def split: if_splits sum.splits option.splits)

lemma poll_maps:
  "pollLease il = Some (il', ready) \<Longrightarrow>
     lh_callbackMap il' = lh_callbackMap il \<and> lh_intervalMap il' = lh_intervalMap il \<and> lh_enable il' = lh_enable il \<and>
     (\<not> lh_enable il \<and> il' = il \<and> ready = [] \<or>
      (\<exists>b. lh_enable il \<and> Wait (lh_timeWheel il) = Some (lh_timeWheel il', ready, b)))"
  by (auto simp: pollLease_def split: if_splits option.splits)

lemma stop_maps [simp]:
  "lh_callbackMap (lh_stop il) = lh_callbackMap il" "lh_intervalMap (lh_stop il) = lh_intervalMap il" "\<not> lh_enable (lh_stop il)"
  by (simp_all add: lh_stop_def Let_def)

lemma step_accounted:
  assumes "lease_step s s'" and "accounted s"
  shows "accounted s'"
  using assms
proof (cases rule: lease_step.cases)
  case (create a d c il)
  then show ?thesis using assms(2) create_maps [OF create(3)] by (auto simp: accounted_def live_def)
next
  case (release a c il)
  then have "drop_lease a (lr_holder s) = (c, il)" by (simp add: releaseLease_def split: if_splits)
  with release assms(2) live_drop [OF this] show ?thesis by (simp add: accounted_def count_run_callback)
next
  case (expire xs a ys c il)
  then have "drop_lease a (lr_holder s) = (c, il)" by (simp add: expireLease_def)
  with expire assms(2) live_drop [OF this] show ?thesis by (simp add: accounted_def count_run_callback)
next
  case (extend a il)
  then show ?thesis using assms(2) extend_maps [OF extend(2)] by (simp add: accounted_def live_def)
next
  case (poll il ready)
  then show ?thesis using assms(2) poll_maps [OF poll(2)] by (simp add: accounted_def live_def)
qed (use assms(2) in \<open>simp_all add: accounted_def live_def\<close>)

lemma reach_accounted: "lease_reach instance s \<Longrightarrow> accounted s"
  by (induction rule: rtranclp_induct)
    (auto simp: accounted_def lease_init_def newInstanceLeaseHolder_def live_def dest: step_accounted [unfolded accounted_def live_def])

text \<open>
  No lease is forgotten: while the holder is enabled, a lease is waiting in the wheel or on its way to
  the goroutine that expires it.
\<close>

definition on_the_way :: "'c lease_run \<Rightarrow> string \<Rightarrow> bool" where
  "on_the_way s a \<longleftrightarrow> pending (lh_timeWheel (lr_holder s)) a \<or>
     a \<in> set (concat (tw_readyCh (lh_timeWheel (lr_holder s)))) \<or> a \<in> set (lr_inflight s)"

definition lease_inv :: "'c lease_run \<Rightarrow> bool" where
  "lease_inv s \<longleftrightarrow> tw_wf (lh_timeWheel (lr_holder s)) \<and>
     fmdom (lh_intervalMap (lr_holder s)) = fmdom (lh_callbackMap (lr_holder s)) \<and>
     tw_stopped (lh_timeWheel (lr_holder s)) = (\<not> lh_enable (lr_holder s)) \<and>
     (lh_enable (lr_holder s) \<longrightarrow> (\<forall>a. a |\<in>| fmdom (lh_callbackMap (lr_holder s)) \<longrightarrow> on_the_way s a))"

lemma slot_ops_channel [simp]:
  "tw_readyCh (slot_store i t p w) = tw_readyCh w" "tw_stopped (slot_store i t p w) = tw_stopped w"
  "tw_readyCh (slot_delete i t w) = tw_readyCh w" "tw_stopped (slot_delete i t w) = tw_stopped w"
  by (simp_all add: slot_store_def slot_delete_def)

lemma AddTask_channel:
  "AddTask w t d n = Inr w' \<Longrightarrow> tw_readyCh w' = tw_readyCh w \<and> tw_stopped w' = tw_stopped w"
  by (auto simp: AddTask_def Let_def split: if_splits)

lemma UpdateTask_channel:
  "UpdateTask w t d n = Inr w' \<Longrightarrow> tw_readyCh w' = tw_readyCh w \<and> tw_stopped w' = tw_stopped w"
  by (auto simp: UpdateTask_def Let_def dest: AddTask_channel split: if_splits option.splits)

lemma DelTask_channel [simp]:
  "tw_readyCh (DelTask w t) = tw_readyCh w" "tw_stopped (DelTask w t) = tw_stopped w"
  by (simp_all add: DelTask_def Let_def split: option.split)

lemma fire_channel:
  "fire_trigger s (w, rl) t = (w', rl') \<Longrightarrow> tw_readyCh w' = tw_readyCh w \<and> tw_stopped w' = tw_stopped w"
  by (auto simp: fire_trigger_def Let_def split: option.splits if_splits)

lemma fire_fold_channel:
  "foldl (fire_trigger s) (w, rl) ts = (w', rl') \<Longrightarrow> tw_readyCh w' = tw_readyCh w \<and> tw_stopped w' = tw_stopped w"
proof (induction ts arbitrary: w rl)
  case (Cons t ts)
  obtain w1 rl1 where "fire_trigger s (w, rl) t = (w1, rl1)" by fastforce
  with Cons fire_channel [OF this] show ?case by (metis foldl_Cons)
qed simp

lemma tick_channel:
  "tick ord w = (w', rl) \<Longrightarrow> tw_readyCh w' = tw_readyCh w \<and> tw_stopped w' = tw_stopped w"
  unfolding tick_def checkAndFireTrigger_def Let_def by (drule fire_fold_channel) simp

text \<open>A task that a tick takes out of the wheel is in the batch of that tick.\<close>

lemma tick_pending:
  assumes wf: "tw_wf w" and ord: "range_order ord" and tk: "tick ord w = (w', rl)" and p: "pending w a"
  shows "pending w' a \<or> a \<in> set rl"
proof -
  note eff = tick_effect [OF wf ord tk]
  obtain tr where tr: "trigger_of w a = Some tr" using p trigger_of_None [OF wf] by fastforce
  show ?thesis
  proof (cases "visit tr")
    case None
    then have "fires tr" by (auto simp: visit_def fires_def split: if_splits)
    then show ?thesis using eff(5,6) [of a] tr trigger_of_None [OF eff(1), of a]
      by (cases "tt_index tr = (tw_curSlot w + 1) mod tw_slotNum w") (auto simp: count_list_0_iff)
  next
    case (Some tr')
    then show ?thesis using eff(5) [of a] tr trigger_of_None [OF eff(1), of a] by (auto split: if_splits)
  qed
qed

lemma send_ready_effect:
  assumes "send_ready w ready = Some w'" and "\<not> tw_stopped w"
  shows "tw_wf w' = tw_wf w \<and> pending w' a = pending w a \<and> tw_stopped w' = tw_stopped w \<and>
    set (concat (tw_readyCh w')) = set (concat (tw_readyCh w)) \<union> set ready"
  using assms by (auto simp: send_ready_def tw_wf_def pending_def slot_in_range_def split: if_splits)

lemma Wait_effect:
  assumes "Wait w = Some (w', ready, b)" and "\<not> tw_stopped w"
  shows "tw_wf w' = tw_wf w \<and> pending w' a = pending w a \<and> tw_stopped w' = tw_stopped w \<and>
    set (concat (tw_readyCh w)) = set (concat (tw_readyCh w')) \<union> set ready"
  using assms by (auto simp: Wait_def tw_wf_def pending_def slot_in_range_def split: list.splits if_splits)

text \<open>Dropping a lease keeps the others on their way.\<close>

lemma drop_inv:
  assumes inv: "lease_inv s" and d: "drop_lease a (lr_holder s) = (c, il)"
    and fl: "set (lr_inflight s) \<subseteq> insert a (set xs)"
  shows "lease_inv (s\<lparr>lr_holder := il, lr_inflight := xs, lr_run := r\<rparr>)"
proof -
  let ?w = "lh_timeWheel (lr_holder s)"
  have il: "lh_timeWheel il = DelTask ?w a" "lh_enable il = lh_enable (lr_holder s)"
    "lh_intervalMap il = fmdrop a (lh_intervalMap (lr_holder s))" "lh_callbackMap il = fmdrop a (lh_callbackMap (lr_holder s))"
    using d by (auto simp: drop_lease_def)
  have wf: "tw_wf ?w" using inv by (simp add: lease_inv_def)
  have "on_the_way (s\<lparr>lr_holder := il, lr_inflight := xs, lr_run := r\<rparr>) b"
    if "lh_enable (lr_holder s)" "b |\<in>| fmdom (lh_callbackMap (lr_holder s))" "b \<noteq> a" for b
  proof -
    have "on_the_way s b" using inv that by (simp add: lease_inv_def)
    then show ?thesis using that(3) fl wf by (auto simp: on_the_way_def il DelTask_pending)
  qed
  then show ?thesis using inv DelTask_wf [OF wf] by (auto simp: lease_inv_def il)
qed

lemma step_inv:
  assumes st: "lease_step s s'" and inv: "lease_inv s"
  shows "lease_inv s'"
  using st
proof (cases rule: lease_step.cases)
  case (create a d c il)
  let ?w = "lh_timeWheel (lr_holder s)"
  note m = create_maps [OF create(3)]
  have wf: "tw_wf ?w" using inv by (simp add: lease_inv_def)
  have ad: "AddTask ?w a d 1 = Inr (lh_timeWheel il)" using m by simp
  show ?thesis using inv create(1) m AddTask_wf [OF wf ad] AddTask_pending(1) [OF ad] AddTask_channel [OF ad]
    by (auto simp: lease_inv_def on_the_way_def)
next
  case (extend a il)
  note m = extend_maps [OF extend(2)]
  then obtain d where d: "UpdateTask (lh_timeWheel (lr_holder s)) a d 1 = Inr (lh_timeWheel il)" by blast
  have wf: "tw_wf (lh_timeWheel (lr_holder s))" using inv by (simp add: lease_inv_def)
  show ?thesis using inv extend(1) m UpdateTask_wf [OF wf d] UpdateTask_pending(1) [OF wf d] UpdateTask_channel [OF d]
    by (auto simp: lease_inv_def on_the_way_def)
next
  case (release a c il)
  then have "drop_lease a (lr_holder s) = (c, il)" by (simp add: releaseLease_def split: if_splits)
  from drop_inv [OF inv this, of "lr_inflight s"] release show ?thesis by auto
next
  case (expire xs a ys c il)
  then have "drop_lease a (lr_holder s) = (c, il)" by (simp add: expireLease_def)
  from drop_inv [OF inv this, of "xs @ ys"] expire show ?thesis by auto
next
  case (tick ord w ready w')
  have wf: "tw_wf (lh_timeWheel (lr_holder s))" using inv by (simp add: lease_inv_def)
  note ch = tick_channel [OF tick(4)]
  have ns: "\<not> tw_stopped w" using tick(3) ch by simp
  note sr = send_ready_effect [OF tick(5) ns]
  have "tw_wf w" using tick_effect(1) [OF wf tick(2,4)] .
  moreover have "on_the_way s' b" if "on_the_way s b" for b
    using that tick(1) ch sr [of b] tick_pending [OF wf tick(2,4), of b] by (auto simp: on_the_way_def)
  ultimately show ?thesis using inv tick(1) ch sr by (simp add: lease_inv_def)
next
  case (poll il ready)
  note m = poll_maps [OF poll(2)]
  then show ?thesis
  proof (elim conjE disjE exE)
    assume "il = lr_holder s" "ready = []"
    then show ?thesis using inv poll(1) by (simp add: lease_inv_def on_the_way_def)
  next
    fix b assume en: "lh_enable (lr_holder s)" and w: "Wait (lh_timeWheel (lr_holder s)) = Some (lh_timeWheel il, ready, b)"
    have "\<not> tw_stopped (lh_timeWheel (lr_holder s))" using inv en by (simp add: lease_inv_def)
    note we = Wait_effect [OF w this]
    then show ?thesis using inv poll(1) m by (auto simp: lease_inv_def on_the_way_def)
  qed
next
  case stop
  have "tw_wf (Stop w) = tw_wf w" for w by (simp add: Stop_def tw_wf_def slot_in_range_def)
  then show ?thesis using inv stop by (simp add: lease_inv_def lh_stop_def Let_def Stop_def)
qed

lemma reach_lease_inv: "lease_reach instance s \<Longrightarrow> lease_inv s"
proof (induction rule: rtranclp_induct)
  case base
  show ?case by (simp add: lease_inv_def lease_init_def newInstanceLeaseHolder_def NewSimpleTimeWheel_wf)
      (simp add: NewSimpleTimeWheel_def Let_def)
qed (rule step_inv)

text \<open>An extension does not save a lease whose expiry is already in the hands of a goroutine.\<close>

lemma extension_does_not_save:
  assumes "extendLease a (lr_holder s) = Inr il" and "fmlookup (lh_callbackMap (lr_holder s)) a = Some c"
    and "lr_inflight s = xs @ a # ys"
  shows "\<exists>s'. lease_step (s\<lparr>lr_holder := il\<rparr>) s' \<and> lr_run s' = lr_run s @ [(a, c)] \<and>
    fmlookup (lh_callbackMap (lr_holder s')) a = None"
proof -
  have "fmlookup (lh_callbackMap il) a = Some c" using assms(2) extend_maps [OF assms(1)] by simp
  then have e: "expireLease a il = (Some c, snd (drop_lease a il))" by (simp add: expireLease_def drop_lease_def)
  have "lr_inflight (s\<lparr>lr_holder := il\<rparr>) = xs @ a # ys" using assms(3) by simp
  from lease_step.expire [OF this, of "Some c" "snd (drop_lease a il)"] e show ?thesis
    by (auto simp: run_callback_def drop_lease_def)
qed

section \<open>Properties\<close>

text \<open>
  C11: The callback of a lease runs exactly once. In every reachable state, with any interleaving of clients,
  wheel, polling and expiring goroutines, each lease made is either still on or its callback has run
  once; and while the holder is enabled, no lease that is on is forgotten: it waits in the wheel or is
  on its way to be expired.
\<close>

theorem lease_exactly_once:
  assumes "lease_reach instance s"
  shows "count_list (lr_created s) (a, c) =
      count_list (lr_run s) (a, c) + (if fmlookup (lh_callbackMap (lr_holder s)) a = Some c then 1 else 0) \<and>
    (lh_enable (lr_holder s) \<and> fmlookup (lh_callbackMap (lr_holder s)) a = Some c \<longrightarrow>
       pending (lh_timeWheel (lr_holder s)) a \<or>
       a \<in> set (concat (tw_readyCh (lh_timeWheel (lr_holder s)))) \<or> a \<in> set (lr_inflight s))"
  using reach_accounted [OF assms] reach_lease_inv [OF assms]
  by (auto simp: accounted_def live_def lease_inv_def on_the_way_def fmdomI)

text \<open>
  C22: A lease that its client abandons is reclaimed on time: counted from its creation or its last
  extension, it is in none of the \<open>interval / pace\<close> next batches of the wheel and in the one after them,
  and handling that batch runs its callback and ends it.
\<close>

theorem lease_reclaimed:
  assumes "tw_wf (lh_timeWheel il)" and "0 \<le> d"
    and "createLease a d c il = Inr il0 \<or>
         extendLease a il = Inr il0 \<and> fmlookup (lh_intervalMap il) a = Some d \<and> fmlookup (lh_callbackMap il) a = Some c"
    and "\<forall>ord\<in>set ords. range_order ord" and "length ords = nat (d div tw_pace (lh_timeWheel il)) + 1"
    and "run_ticks ords (lh_timeWheel il0) = (w', batches)"
  shows "a \<notin> set (concat (butlast batches)) \<and> a \<in> set (last batches) \<and>
    (\<exists>il1. expireLease a (il0\<lparr>lh_timeWheel := w'\<rparr>) = (Some c, il1) \<and>
       fmlookup (lh_callbackMap il1) a = None \<and> fmlookup (lh_intervalMap il1) a = None \<and> \<not> pending (lh_timeWheel il1) a)"
proof -
  let ?w = "lh_timeWheel il"
  have cb: "fmlookup (lh_callbackMap il0) a = Some c" and
    task: "AddTask ?w a d 1 = Inr (lh_timeWheel il0) \<or> UpdateTask ?w a d 1 = Inr (lh_timeWheel il0)"
    using assms(3) by (auto dest: create_maps extend_maps)
  have "a \<notin> set (concat (butlast batches)) \<and> a \<in> set (last batches)"
    using task AddTask_first_fire [OF assms(1) _ assms(4-6)] UpdateTask_first_fire [OF assms(1,2) _ assms(4-6)] by blast
  moreover have "tw_wf (lh_timeWheel il0)" using task AddTask_wf [OF assms(1)] UpdateTask_wf [OF assms(1)] by blast
  then have "tw_wf w'" using run_ticks_wf [OF _ assms(4,6)] by blast
  ultimately show ?thesis using cb by (simp add: expireLease_def drop_lease_def DelTask_pending)
qed

section \<open>Witnesses\<close>

lemma sample_create: "\<exists>il. createLease ''t'' (500 * millisecond) (7 :: nat) (newInstanceLeaseHolder ''i'') = Inr il"
  by (simp add: createLease_def newInstanceLeaseHolder_def AddTask_def NewSimpleTimeWheel_def Let_def place_index_def
      tw_ticks_def slot_in_range_def)

theorem lease_exactly_once_witness:
  "\<exists>s. lease_reach ''i'' s \<and> lr_created s = [(''t'', 7 :: nat)] \<and> count_list (lr_run s) (''t'', 7) = 1"
proof -
  obtain il where il: "createLease ''t'' (500 * millisecond) (7 :: nat) (newInstanceLeaseHolder ''i'') = Inr il"
    using sample_create by blast
  let ?s0 = "lease_init ''i'' :: nat lease_run"
  let ?s1 = "?s0\<lparr>lr_holder := il, lr_created := lr_created ?s0 @ [(''t'', 7)]\<rparr>"
  let ?s2 = "?s1\<lparr>lr_holder := snd (drop_lease ''t'' il), lr_run := lr_run ?s1 @ run_callback ''t'' (fst (drop_lease ''t'' il))\<rparr>"
  have "lease_step ?s0 ?s1"
    by (rule lease_step.create [where d = "500 * millisecond"]) (use il in \<open>simp_all add: lease_init_def newInstanceLeaseHolder_def\<close>)
  moreover have "lease_step ?s1 ?s2"
    by (rule lease_step.release) (use create_maps [OF il] in \<open>simp add: releaseLease_def\<close>)
  ultimately have r: "lease_reach ''i'' ?s2" by (meson rtranclp.rtrancl_refl rtranclp.rtrancl_into_rtrancl)
  have "lr_created ?s2 = [(''t'', 7)]" "fmlookup (lh_callbackMap (lr_holder ?s2)) ''t'' = None"
    by (simp_all add: lease_init_def drop_lease_def)
  with lease_exactly_once [OF r, of "''t''" 7] r show ?thesis by (intro exI [of _ ?s2]) simp
qed

theorem lease_reclaimed_witness:
  "\<exists>il0 w' batches. createLease ''t'' (500 * millisecond) (7 :: nat) (newInstanceLeaseHolder ''i'') = Inr il0 \<and>
     run_ticks (replicate 101 key_order) (lh_timeWheel il0) = (w', batches) \<and>
     ''t'' \<notin> set (concat (butlast batches)) \<and> ''t'' \<in> set (last batches) \<and>
     fst (expireLease ''t'' (il0\<lparr>lh_timeWheel := w'\<rparr>)) = Some 7"
proof -
  obtain il0 where il0: "createLease ''t'' (500 * millisecond) (7 :: nat) (newInstanceLeaseHolder ''i'') = Inr il0"
    using sample_create by blast
  obtain w' batches where r: "run_ticks (replicate 101 key_order) (lh_timeWheel il0) = (w', batches)" by fastforce
  have "length (replicate 101 key_order) = nat (500 * millisecond div tw_pace (lh_timeWheel (newInstanceLeaseHolder ''i'' :: nat instanceLeaseHolder))) + 1"
    by (simp add: newInstanceLeaseHolder_def NewSimpleTimeWheel_def)
  from lease_reclaimed [OF _ _ disjI1 [OF il0] key_orders this r] show ?thesis
    using il0 r by (fastforce simp: newInstanceLeaseHolder_def NewSimpleTimeWheel_wf)
qed

end
