(* ===== verification/ConcurrencyScheduler.thy ===== *)
theory ConcurrencyScheduler
  imports InstanceQueueLaws SessionManager LeaseManager
begin

text \<open>
  The concurrency scheduler (\<^verbatim>\<open>concurrencyscheduler/basic_concurrency_scheduler.go\<close>), the base of the
  schedulers for reserved and for scaled instances: it hands out the threads of instances under leases,
  binds threads to sessions, moves instances between the queue of the owner and the queue of the others,
  and publishes the numbers of threads to the scalers.
\<close>

section \<open>State\<close>

text \<open>The fields of the function specification these schedulers read beside those of the session scheduler.\<close>

record SchedFuncSpec = FunctionSpecification +
  fs_FuncMetaSignature :: string
  fs_PriorityAZ :: string
  fs_EnableAgentSession :: bool

record InstanceAcquireRequest =
  aq_InstanceSession :: InstanceSessionConfig
  aq_DesignateInstanceID :: string
  aq_DesignateThreadID :: string
  aq_TraceID :: string
  aq_TraceParent :: string
  aq_TrafficLimited :: bool
  aq_SessionCtxID :: string
  aq_SkipWaitPending :: bool

abbreviation aq_SessionID :: "InstanceAcquireRequest \<Rightarrow> string" where
  "aq_SessionID req \<equiv> isc_SessionID (aq_InstanceSession req)"

text \<open>\<open>ia_SessionCtx\<close> is the record whose context the allocation carries.\<close>

record InstanceAllocation =
  ia_Instance :: SchedInstance
  ia_AllocationID :: string
  ia_SessionID :: string
  ia_SessionCtx :: "nat option"

datatype queueRef = SelfQueue | OtherQueue

text \<open>
  The goroutines that wait for the end of a session: for each record the queue they were started with
  and whether they have already taken a cancel token. \<open>bc_published\<close> is what the observers were told.
\<close>

record coldStartTrace =
  ct_TraceID :: string
  ct_TraceParent :: string
  ct_createdAt :: time

record basicConcurrencyScheduler =
  bc_funcSpec :: SchedFuncSpec
  bc_leaseManager :: "InstanceAllocation GenericInstanceLeaseManager"
  bc_selfInstanceQueue :: instanceQueueWithObserver
  bc_otherInstanceQueue :: instanceQueueWithSubHealthAndEvictingRecord
  bc_sessionManager :: sessionManager
  bc_funcKeyWithRes :: string
  bc_concurrentNum :: int
  bc_isFuncOwner :: bool
  bc_stopped :: bool
  bc_leaseInterval :: duration
  bc_elems :: "(nat, instanceElement) gomap"
  bc_nextElem :: nat
  bc_waiters :: "(nat, queueRef \<times> bool) gomap"
  bc_published :: "pubEvent list"
  bc_coldStartTraceQueue :: "coldStartTrace list"

text \<open>
  What the code reads from outside at a call: its identity and the scheduler ring, the rollout flag, the
  clock, a random thread prefix, and the orders in which maps are visited.
\<close>

record schedEnv =
  se_self :: selfIdentity
  se_proxy :: SchedulerProxy
  se_updating :: bool
  se_now :: time
  se_prefix :: string
  se_pick :: "string fset \<Rightarrow> string"
  se_threads :: "string fset \<Rightarrow> string list"
  se_order :: recordOrder

definition env_lawful :: "schedEnv \<Rightarrow> bool" where
  "env_lawful env \<longleftrightarrow> picks (se_pick env) \<and> range_order (se_order env) \<and>
     (\<forall>m. distinct (se_threads env m) \<and> set (se_threads env m) = fset m)"

abbreviation (input) MinLeaseInterval :: duration where "MinLeaseInterval \<equiv> 500 * millisecond"
abbreviation (input) maxColdStartTraceQueue :: nat where "maxColdStartTraceQueue \<equiv> 1024"

definition GetConcurrentNum :: "int \<Rightarrow> int" where
  "GetConcurrentNum concurrentNum = (if concurrentNum = 0 then 1 else concurrentNum)"

definition newBasicConcurrencyScheduler ::
  "schedEnv \<Rightarrow> storeSettings \<Rightarrow> int \<Rightarrow> SchedFuncSpec \<Rightarrow> string \<Rightarrow> string \<Rightarrow> innerQueue \<Rightarrow> innerQueue \<Rightarrow> basicConcurrencyScheduler"
where
  "newBasicConcurrencyScheduler env g leaseSpan funcSpec funcName resKey selfInstanceQueue otherInstanceQueue =
     (let leaseInterval = leaseSpan * millisecond;
          funcKeyWithRes = fs_FuncKey funcSpec @ ''-'' @ resKey;
          isFuncOwner = IsFuncOwner (se_self env) (se_proxy env) (fs_FuncKey funcSpec)
      in \<lparr>bc_funcSpec = funcSpec, bc_leaseManager = NewGenericLeaseManager funcKeyWithRes,
          bc_selfInstanceQueue = new_oq selfInstanceQueue, bc_otherInstanceQueue = new_sq otherInstanceQueue,
          bc_sessionManager = setFuncOwner isFuncOwner
            (makeSessionManager g (makeSessionCacheKey funcName funcKeyWithRes) (MakeStore g (fs_FuncKey funcSpec))),
          bc_funcKeyWithRes = funcKeyWithRes, bc_concurrentNum = GetConcurrentNum (fs_ConcurrentNum funcSpec),
          bc_isFuncOwner = isFuncOwner, bc_stopped = False,
          bc_leaseInterval = (if leaseInterval < MinLeaseInterval then MinLeaseInterval else leaseInterval),
          bc_elems = fmempty, bc_nextElem = 0, bc_waiters = fmempty, bc_published = [],
          bc_coldStartTraceQueue = []\<rparr>)"

section \<open>Elements, queues and events\<close>

definition world :: "schedEnv \<Rightarrow> basicConcurrencyScheduler \<Rightarrow> elemWorld" where
  "world env bcs = \<lparr>ew_elems = bc_elems bcs, ew_updating = se_updating env\<rparr>"

definition elem_at :: "basicConcurrencyScheduler \<Rightarrow> nat \<Rightarrow> instanceElement" where
  "elem_at bcs p = (case fmlookup (bc_elems bcs) p of None \<Rightarrow> nil_element | Some e \<Rightarrow> e)"

definition put_elem :: "nat \<Rightarrow> instanceElement \<Rightarrow> basicConcurrencyScheduler \<Rightarrow> basicConcurrencyScheduler" where
  "put_elem p e bcs = bcs\<lparr>bc_elems := fmupd p e (bc_elems bcs)\<rparr>"

definition publishInsThdEvent :: "pubEvent list \<Rightarrow> basicConcurrencyScheduler \<Rightarrow> basicConcurrencyScheduler" where
  "publishInsThdEvent evs bcs = (if bc_stopped bcs then bcs else bcs\<lparr>bc_published := bc_published bcs @ evs\<rparr>)"

definition queue_GetByID :: "schedEnv \<Rightarrow> queueRef \<Rightarrow> string \<Rightarrow> basicConcurrencyScheduler \<Rightarrow> nat option" where
  "queue_GetByID env qr objID bcs =
     (case qr of SelfQueue \<Rightarrow> sq_GetByID (world env bcs) objID (oq_queue (bc_selfInstanceQueue bcs))
               | OtherQueue \<Rightarrow> sq_GetByID (world env bcs) objID (bc_otherInstanceQueue bcs))"

definition queue_Front :: "queueRef \<Rightarrow> basicConcurrencyScheduler \<Rightarrow> nat option" where
  "queue_Front qr bcs =
     (case qr of SelfQueue \<Rightarrow> sq_Front (oq_queue (bc_selfInstanceQueue bcs)) | OtherQueue \<Rightarrow> sq_Front (bc_otherInstanceQueue bcs))"

definition queue_PushBack ::
  "schedEnv \<Rightarrow> queueRef \<Rightarrow> nat \<Rightarrow> basicConcurrencyScheduler \<Rightarrow> sched_error option \<times> basicConcurrencyScheduler" where
  "queue_PushBack env qr p bcs =
     (case qr of
        SelfQueue \<Rightarrow>
          (case oq_PushBack (world env bcs) p (bc_selfInstanceQueue bcs) of
             (err, q, evs) \<Rightarrow> (err, publishInsThdEvent evs (bcs\<lparr>bc_selfInstanceQueue := q\<rparr>)))
      | OtherQueue \<Rightarrow>
          (case sq_PushBack (world env bcs) p (bc_otherInstanceQueue bcs) of
             (err, q) \<Rightarrow> (err, bcs\<lparr>bc_otherInstanceQueue := q\<rparr>)))"

definition queue_DelByID ::
  "schedEnv \<Rightarrow> queueRef \<Rightarrow> string \<Rightarrow> basicConcurrencyScheduler \<Rightarrow> sched_error option \<times> basicConcurrencyScheduler" where
  "queue_DelByID env qr objID bcs =
     (case qr of
        SelfQueue \<Rightarrow>
          (case oq_DelByID (world env bcs) objID (bc_selfInstanceQueue bcs) of
             (err, q, evs) \<Rightarrow> (err, publishInsThdEvent evs (bcs\<lparr>bc_selfInstanceQueue := q\<rparr>)))
      | OtherQueue \<Rightarrow>
          (case sq_DelByID (world env bcs) objID (bc_otherInstanceQueue bcs) of
             (err, q) \<Rightarrow> (err, bcs\<lparr>bc_otherInstanceQueue := q\<rparr>)))"

definition queue_UpdateObjByID ::
  "schedEnv \<Rightarrow> queueRef \<Rightarrow> string \<Rightarrow> nat \<Rightarrow> basicConcurrencyScheduler \<Rightarrow> sched_error option \<times> basicConcurrencyScheduler" where
  "queue_UpdateObjByID env qr objID p bcs =
     (case qr of
        SelfQueue \<Rightarrow>
          (case oq_UpdateObjByID (world env bcs) objID p (bc_selfInstanceQueue bcs) of
             (err, q, evs) \<Rightarrow> (err, publishInsThdEvent evs (bcs\<lparr>bc_selfInstanceQueue := q\<rparr>)))
      | OtherQueue \<Rightarrow>
          (case sq_UpdateObjByID (world env bcs) objID p (bc_otherInstanceQueue bcs) of
             (err, q) \<Rightarrow> (err, bcs\<lparr>bc_otherInstanceQueue := q\<rparr>)))"

definition queue_Range :: "schedEnv \<Rightarrow> queueRef \<Rightarrow> basicConcurrencyScheduler \<Rightarrow> nat list" where
  "queue_Range env qr bcs =
     (case qr of SelfQueue \<Rightarrow> sq_Range (se_order env) (oq_queue (bc_selfInstanceQueue bcs))
               | OtherQueue \<Rightarrow> sq_Range (se_order env) (bc_otherInstanceQueue bcs))"

definition queue_SortedRange :: "schedEnv \<Rightarrow> queueRef \<Rightarrow> basicConcurrencyScheduler \<Rightarrow> nat list" where
  "queue_SortedRange env qr bcs =
     (case qr of SelfQueue \<Rightarrow> sq_SortedRange (se_order env) (oq_queue (bc_selfInstanceQueue bcs))
               | OtherQueue \<Rightarrow> sq_SortedRange (se_order env) (bc_otherInstanceQueue bcs))"

definition queue_Len :: "queueRef \<Rightarrow> basicConcurrencyScheduler \<Rightarrow> nat" where
  "queue_Len qr bcs =
     (case qr of SelfQueue \<Rightarrow> sq_Len (oq_queue (bc_selfInstanceQueue bcs)) | OtherQueue \<Rightarrow> sq_Len (bc_otherInstanceQueue bcs))"

definition with_sessions :: "(sessionManager \<Rightarrow> sessionManager) \<Rightarrow> basicConcurrencyScheduler \<Rightarrow> basicConcurrencyScheduler" where
  "with_sessions f bcs = bcs\<lparr>bc_sessionManager := f (bc_sessionManager bcs)\<rparr>"

definition put_record :: "nat \<Rightarrow> sessionRecord \<Rightarrow> basicConcurrencyScheduler \<Rightarrow> basicConcurrencyScheduler" where
  "put_record r record = with_sessions (\<lambda>sm. sm\<lparr>sm_records := fmupd r record (sm_records sm)\<rparr>)"

section \<open>Ownership\<close>

definition checkInstancePriorityAZ :: "SchedInstance \<Rightarrow> SchedFuncSpec \<Rightarrow> bool" where
  "checkInstancePriorityAZ instance funcSpec \<longleftrightarrow> fs_PriorityAZ funcSpec \<noteq> [] \<and> fs_PriorityAZ funcSpec = in_AZ instance"

definition checkSelfInstanceInternal :: "schedEnv \<Rightarrow> basicConcurrencyScheduler \<Rightarrow> SchedInstance \<Rightarrow> bool" where
  "checkSelfInstanceInternal env bcs instance =
     (if in_Permanent instance then
        if in_CreateSchedulerID instance = GetSchedulerProxyName (se_self env) then True
        else \<not> sp_Contains (se_proxy env) (in_CreateSchedulerID instance) \<and> bc_isFuncOwner bcs
      else bc_isFuncOwner bcs)"

definition queue_of :: "bool \<Rightarrow> queueRef" where
  "queue_of isSelfInstance = (if isSelfInstance then SelfQueue else OtherQueue)"

definition GetInstanceNumber :: "bool \<Rightarrow> basicConcurrencyScheduler \<Rightarrow> nat" where
  "GetInstanceNumber onlySelf bcs = queue_Len SelfQueue bcs + (if onlySelf then 0 else queue_Len OtherQueue bcs)"

section \<open>Acquiring\<close>

definition getSessionCacheKey :: "basicConcurrencyScheduler \<Rightarrow> string \<Rightarrow> string \<Rightarrow> string" where
  "getSessionCacheKey bcs sessionID sessionCtxID =
     (if \<not> fs_EnableSessionCtx (bc_funcSpec bcs) then sessionID else JoinKey [sessionID, sessionCtxID])"

definition getRecordCacheKey :: "basicConcurrencyScheduler \<Rightarrow> sessionRecord \<Rightarrow> string" where
  "getRecordCacheKey bcs record = getSessionCacheKey bcs (sn_sessionID record) (sn_sessionCtxID record)"

definition isAgentSession :: "basicConcurrencyScheduler \<Rightarrow> InstanceAcquireRequest \<Rightarrow> bool" where
  "isAgentSession bcs insAcqReq \<longleftrightarrow> fs_EnableAgentSession (bc_funcSpec bcs) \<and> aq_SessionID insAcqReq \<noteq> []"

definition acquireInstanceThread ::
  "schedEnv \<Rightarrow> string \<Rightarrow> queueRef \<Rightarrow> nat \<Rightarrow> basicConcurrencyScheduler \<Rightarrow>
     (sched_error + InstanceAllocation) \<times> basicConcurrencyScheduler" where
  "acquireInstanceThread env designateThreadID qr p bcs =
     (let insElem = elem_at bcs p in
      if ie_threadMap insElem = {||} \<and> designateThreadID = [] then (Inl ErrNoInsAvailable, bcs)
      else case GetThreadFromThreadMap (se_pick env) insElem of
        (threadID, insElem1) \<Rightarrow>
          (case queue_UpdateObjByID env qr (ie_ID insElem1) p (put_elem p insElem1 bcs) of
             (Some err, bcs1) \<Rightarrow> (Inl err, bcs1)
           | (None, bcs1) \<Rightarrow>
               (Inr \<lparr>ia_Instance = ie_instance insElem1,
                     ia_AllocationID = (if designateThreadID \<noteq> [] then designateThreadID else threadID),
                     ia_SessionID = [], ia_SessionCtx = None\<rparr>, bcs1)))"

definition acquireDefaultInstance ::
  "schedEnv \<Rightarrow> queueRef \<Rightarrow> InstanceAcquireRequest \<Rightarrow> basicConcurrencyScheduler \<Rightarrow>
     (sched_error + InstanceAllocation) \<times> basicConcurrencyScheduler" where
  "acquireDefaultInstance env qr insAcqReq bcs =
     (case queue_Front qr bcs of
        None \<Rightarrow> (Inl ErrNoInsAvailable, bcs)
      | Some p \<Rightarrow> acquireInstanceThread env (aq_DesignateThreadID insAcqReq) qr p bcs)"

text \<open>The loop that moves threads of the instance to the session.\<close>

fun bind_threads ::
  "(string fset \<Rightarrow> string) \<Rightarrow> nat \<Rightarrow> instanceElement \<Rightarrow> sessionRecord \<Rightarrow> instanceElement \<times> sessionRecord" where
  "bind_threads pick 0 insElem record = (insElem, record)"
| "bind_threads pick (Suc n) insElem record =
     (case GetThreadFromThreadMap pick insElem of
        (threadID, insElem1) \<Rightarrow>
          let record1 = PutThreadToAllocThdMap threadID record;
              record2 = (case MarkThreadAsAvailable threadID record1 of Inl _ \<Rightarrow> record1 | Inr record' \<Rightarrow> record')
          in bind_threads pick n insElem1 record2)"

definition bindThdWithSession ::
  "schedEnv \<Rightarrow> queueRef \<Rightarrow> nat \<Rightarrow> InstanceSessionConfig \<Rightarrow> basicConcurrencyScheduler \<Rightarrow>
     (sched_error + nat) \<times> basicConcurrencyScheduler" where
  "bindThdWithSession env qr p session bcs =
     (let insElem = elem_at bcs p;
          concurrency = (if isc_Concurrency session = -1 then ie_ConcurrentNum insElem else isc_Concurrency session)
      in if isc_Concurrency session = -1 \<and> ie_avail insElem \<noteq> ie_ConcurrentNum insElem then (Inl ErrNoInsAvailable, bcs)
         else if ie_avail insElem < concurrency then (Inl ErrNoInsAvailable, bcs)
         else
           let record =
                 \<lparr>sn_availThdMap = {||}, sn_allocThdMap = {||}, sn_overAcqThdMap = {||}, sn_expiring = False,
                  sn_ttl = isc_SessionTTL session * second, sn_concurrency = concurrency,
                  sn_sessionID = isc_SessionID session,
                  sn_sessionCtxID = (case in_SessionCtxID (ie_instance insElem) of
                                       Some ctx \<Rightarrow> if fs_EnableSessionCtx (bc_funcSpec bcs) then ctx else []
                                     | None \<Rightarrow> []),
                  sn_expireCancelCh = False, sn_cancelled = False, sn_insElem = Some p\<rparr>;
               r = sm_nextRecord (bc_sessionManager bcs)
           in case bind_threads (se_pick env) (nat concurrency) insElem record of
                (insElem1, record1) \<Rightarrow>
                  let bcs1 = with_sessions (\<lambda>sm. sm\<lparr>sm_nextRecord := Suc r\<rparr>) (put_record r record1 (put_elem p insElem1 bcs))
                  in case queue_UpdateObjByID env qr (ie_ID insElem1) p bcs1 of
                       (Some err, bcs2) \<Rightarrow> (Inl err, bcs2)
                     | (None, bcs2) \<Rightarrow> (Inr r, bcs2))"

definition acquireSessionThread ::
  "schedEnv \<Rightarrow> string \<Rightarrow> InstanceSessionConfig \<Rightarrow> string \<Rightarrow> basicConcurrencyScheduler \<Rightarrow>
     (sched_error + InstanceAllocation) \<times> basicConcurrencyScheduler" where
  "acquireSessionThread env designateThreadID sessionConfig sessionCtxID bcs =
     (case getSession (getSessionCacheKey bcs (isc_SessionID sessionConfig) sessionCtxID) (bc_sessionManager bcs) of
        None \<Rightarrow> (Inl ErrInternal, bcs)
      | Some (r, record) \<Rightarrow>
          let record1 = (if sn_expiring record then record\<lparr>sn_expireCancelCh := True\<rparr> else record);
              record2 = record1\<lparr>sn_ttl := isc_SessionTTL sessionConfig * second\<rparr>;
              bcs1 = put_record r record2 bcs;
              bcs2 = (if sn_ttl record2 \<noteq> sn_ttl record
                      then with_sessions (sm_saveSessionToStore (world env bcs1) (getRecordCacheKey bcs1 record2) record2) bcs1
                      else bcs1)
          in if sn_availThdMap record2 = {||} then (Inl ErrNoInsThdAvail, bcs2)
             else case GetOrReplaceDesignateThreadFromAvailThdMap (se_pick env) designateThreadID record2 of
                    Inl _ \<Rightarrow> (Inl ErrInternal, bcs2)
                  | Inr (threadID, record3) \<Rightarrow>
                      (Inr \<lparr>ia_Instance = ie_instance (elem_at bcs2 (the (sn_insElem record3))),
                            ia_AllocationID = threadID, ia_SessionID = isc_SessionID sessionConfig,
                            ia_SessionCtx = Some r\<rparr>, put_record r record3 bcs2))"

definition createOverAcqThread ::
  "schedEnv \<Rightarrow> nat \<Rightarrow> sessionRecord \<Rightarrow> InstanceAcquireRequest \<Rightarrow> basicConcurrencyScheduler \<Rightarrow>
     (sched_error + InstanceAllocation) \<times> basicConcurrencyScheduler" where
  "createOverAcqThread env r record insAcqReq bcs =
     (let threadID = ''overacq-'' @ sn_sessionID record @ ''-'' @ showInt (se_now env)
      in (Inr \<lparr>ia_Instance = ie_instance (elem_at bcs (the (sn_insElem record))), ia_AllocationID = threadID,
               ia_SessionID = aq_SessionID insAcqReq, ia_SessionCtx = Some r\<rparr>,
          put_record r (record\<lparr>sn_overAcqThdMap := finsert threadID (sn_overAcqThdMap record)\<rparr>) bcs))"

definition record_at :: "basicConcurrencyScheduler \<Rightarrow> nat \<Rightarrow> sessionRecord option" where
  "record_at bcs r = fmlookup (sm_records (bc_sessionManager bcs)) r"

definition acquireInstanceWithOverAcqSession ::
  "schedEnv \<Rightarrow> queueRef \<Rightarrow> nat \<Rightarrow> InstanceAcquireRequest \<Rightarrow> basicConcurrencyScheduler \<Rightarrow>
     (sched_error + InstanceAllocation) \<times> basicConcurrencyScheduler" where
  "acquireInstanceWithOverAcqSession env qr r insAcqReq bcs =
     (case record_at bcs r of
        None \<Rightarrow> (Inl ErrInternal, bcs)
      | Some record \<Rightarrow>
          if isAgentSession bcs insAcqReq then
            if fcard (sn_overAcqThdMap record) \<ge> 1 then (Inl ErrOverAcqLimitExceeded, bcs)
            else createOverAcqThread env r record insAcqReq bcs
          else
            (case acquireInstanceThread env (aq_DesignateThreadID insAcqReq) qr (the (sn_insElem record)) bcs of
               (Inl err, bcs1) \<Rightarrow> (Inl err, bcs1)
             | (Inr insAlloc, bcs1) \<Rightarrow>
                 (Inr (insAlloc\<lparr>ia_SessionID := aq_SessionID insAcqReq, ia_SessionCtx := Some r\<rparr>),
                  put_record r (record\<lparr>sn_overAcqThdMap := finsert (ia_AllocationID insAlloc) (sn_overAcqThdMap record)\<rparr>) bcs1)))"

definition isSessionExist ::
  "schedEnv \<Rightarrow> queueRef \<Rightarrow> InstanceAcquireRequest \<Rightarrow> basicConcurrencyScheduler \<Rightarrow> bool \<times> basicConcurrencyScheduler" where
  "isSessionExist env qr insAcqReq bcs =
     (let cacheKey = getSessionCacheKey bcs (aq_SessionID insAcqReq) (aq_SessionCtxID insAcqReq) in
      case getSession cacheKey (bc_sessionManager bcs) of
        None \<Rightarrow> (False, bcs)
      | Some (_, record) \<Rightarrow>
          if queue_GetByID env qr (ie_ID (elem_at bcs (the (sn_insElem record)))) bcs = None
          then (False, with_sessions (deleteLocalSession cacheKey) bcs)
          else (True, bcs))"

abbreviation instanceCtxID :: "instanceElement \<Rightarrow> string" where
  "instanceCtxID e \<equiv> (case in_SessionCtxID (ie_instance e) of None \<Rightarrow> [] | Some ctx \<Rightarrow> ctx)"

text \<open>The element at which \<^verbatim>\<open>SortedRange\<close> stops in the search for an instance to bind.\<close>

definition stops_at :: "basicConcurrencyScheduler \<Rightarrow> InstanceAcquireRequest \<Rightarrow> nat \<Rightarrow> bool" where
  "stops_at bcs insAcqReq p =
     (let insElem = elem_at bcs p; concurrency = isc_Concurrency (aq_InstanceSession insAcqReq) in
      if ie_Code insElem \<noteq> statusRunning then False
      else if fs_EnableSessionCtx (bc_funcSpec bcs) \<and> aq_SessionCtxID insAcqReq \<noteq> [] \<and>
              instanceCtxID insElem \<noteq> aq_SessionCtxID insAcqReq then False
      else if concurrency = -1 then ie_avail insElem = ie_ConcurrentNum insElem
      else ie_avail insElem \<ge> concurrency)"

definition bind_new_session ::
  "schedEnv \<Rightarrow> queueRef \<Rightarrow> InstanceAcquireRequest \<Rightarrow> basicConcurrencyScheduler \<Rightarrow> sched_error option \<times> basicConcurrencyScheduler" where
  "bind_new_session env qr insAcqReq bcs =
     (case find (stops_at bcs insAcqReq) (queue_SortedRange env qr bcs) of
        None \<Rightarrow> (Some ErrNoInsAvailable, bcs)
      | Some p \<Rightarrow>
          (case bindThdWithSession env qr p (aq_InstanceSession insAcqReq) bcs of
             (Inl err, bcs1) \<Rightarrow> (Some err, bcs1)
           | (Inr r, bcs1) \<Rightarrow>
               (None, with_sessions (addSession (world env bcs1) (getRecordCacheKey bcs1 (the (record_at bcs1 r))) r) bcs1)))"

definition agent_session :: "InstanceAcquireRequest \<Rightarrow> InstanceAcquireRequest" where
  "agent_session insAcqReq =
     insAcqReq\<lparr>aq_InstanceSession := (aq_InstanceSession insAcqReq)\<lparr>isc_SessionTTL := 0, isc_Concurrency := 1\<rparr>\<rparr>"

definition session_thread ::
  "schedEnv \<Rightarrow> queueRef \<Rightarrow> InstanceAcquireRequest \<Rightarrow> basicConcurrencyScheduler \<Rightarrow>
     (sched_error + InstanceAllocation) \<times> basicConcurrencyScheduler" where
  "session_thread env qr insAcqReq bcs =
     (case acquireSessionThread env (aq_DesignateThreadID insAcqReq) (aq_InstanceSession insAcqReq) (aq_SessionCtxID insAcqReq) bcs of
        (Inl ErrNoInsThdAvail, bcs1) \<Rightarrow>
          (case getSession (getSessionCacheKey bcs1 (aq_SessionID insAcqReq) (aq_SessionCtxID insAcqReq)) (bc_sessionManager bcs1) of
             None \<Rightarrow> (Inl ErrNoInsThdAvail, bcs1)
           | Some (r, _) \<Rightarrow> acquireInstanceWithOverAcqSession env qr r insAcqReq bcs1)
      | result \<Rightarrow> result)"

definition acquireSessionInstance ::
  "schedEnv \<Rightarrow> queueRef \<Rightarrow> InstanceAcquireRequest \<Rightarrow> basicConcurrencyScheduler \<Rightarrow>
     (sched_error + InstanceAllocation) \<times> InstanceAcquireRequest \<times> basicConcurrencyScheduler" where
  "acquireSessionInstance env qr insAcqReq0 bcs =
     (let insAcqReq = (if isAgentSession bcs insAcqReq0 then agent_session insAcqReq0 else insAcqReq0) in
      if isc_Concurrency (aq_InstanceSession insAcqReq) > bc_concurrentNum bcs then (Inl ErrInvalidSession, insAcqReq, bcs)
      else case isSessionExist env qr insAcqReq bcs of
             (True, bcs1) \<Rightarrow>
               (case session_thread env qr insAcqReq bcs1 of (res, bcs2) \<Rightarrow> (res, insAcqReq, bcs2))
           | (False, bcs1) \<Rightarrow>
               (case bind_new_session env qr insAcqReq bcs1 of
                  (Some err, bcs2) \<Rightarrow> (Inl err, insAcqReq, bcs2)
                | (None, bcs2) \<Rightarrow>
                    (case session_thread env qr insAcqReq bcs2 of (res, bcs3) \<Rightarrow> (res, insAcqReq, bcs3))))"

definition ctx_mismatch :: "basicConcurrencyScheduler \<Rightarrow> InstanceAcquireRequest \<Rightarrow> instanceElement \<Rightarrow> bool" where
  "ctx_mismatch bcs insAcqReq insElem \<longleftrightarrow>
     fs_EnableSessionCtx (bc_funcSpec bcs) \<and> aq_SessionCtxID insAcqReq \<noteq> [] \<and> instanceCtxID insElem \<noteq> aq_SessionCtxID insAcqReq"

text \<open>
  The tail of \<^verbatim>\<open>acquireDesignateInstance\<close> for a session: \<open>r\<close> is the record found or just bound. When the record is
  bound to another instance the session ID of the request is cleared, and the call goes on.
\<close>

definition designate_thread ::
  "schedEnv \<Rightarrow> queueRef \<Rightarrow> nat \<Rightarrow> InstanceAcquireRequest \<Rightarrow> basicConcurrencyScheduler \<Rightarrow>
     (sched_error + InstanceAllocation) \<times> InstanceAcquireRequest \<times> basicConcurrencyScheduler" where
  "designate_thread env qr r insAcqReq bcs =
     (case acquireSessionThread env (aq_DesignateThreadID insAcqReq) (aq_InstanceSession insAcqReq) (aq_SessionCtxID insAcqReq) bcs of
        (Inl ErrNoInsThdAvail, bcs1) \<Rightarrow>
          (case acquireInstanceWithOverAcqSession env qr r insAcqReq bcs1 of (res, bcs2) \<Rightarrow> (res, insAcqReq, bcs2))
      | (res, bcs1) \<Rightarrow> (res, insAcqReq, bcs1))"

definition clear_session :: "InstanceAcquireRequest \<Rightarrow> InstanceAcquireRequest" where
  "clear_session insAcqReq =
     insAcqReq\<lparr>aq_InstanceSession := (aq_InstanceSession insAcqReq)\<lparr>isc_SessionID := []\<rparr>\<rparr>"

definition acquireDesignateInstance ::
  "schedEnv \<Rightarrow> queueRef \<Rightarrow> InstanceAcquireRequest \<Rightarrow> basicConcurrencyScheduler \<Rightarrow>
     (sched_error + InstanceAllocation) \<times> InstanceAcquireRequest \<times> basicConcurrencyScheduler" where
  "acquireDesignateInstance env qr insAcqReq bcs =
     (case queue_GetByID env qr (aq_DesignateInstanceID insAcqReq) bcs of
        None \<Rightarrow> (Inl ErrInsNotExist, insAcqReq, bcs)
      | Some p \<Rightarrow>
          let insElem = elem_at bcs p;
              cacheKey = getSessionCacheKey bcs (aq_SessionID insAcqReq) (aq_SessionCtxID insAcqReq) in
          if ie_Code insElem = statusSubHealth then (Inl ErrInsSubHealthy, insAcqReq, bcs)
          else if aq_SessionID insAcqReq \<noteq> [] then
            if ctx_mismatch bcs insAcqReq insElem
            then (Inl ErrInsNotExist, insAcqReq, with_sessions (delSession cacheKey) bcs)
            else
              (case getSession cacheKey (bc_sessionManager bcs) of
                 Some (r, record) \<Rightarrow>
                   let req1 = (if ie_ID (elem_at bcs (the (sn_insElem record))) \<noteq> aq_DesignateInstanceID insAcqReq
                               then clear_session insAcqReq else insAcqReq)
                   in designate_thread env qr r req1 bcs
               | None \<Rightarrow>
                   (case bindThdWithSession env qr p (aq_InstanceSession insAcqReq) bcs of
                      (Inl _, bcs1) \<Rightarrow> (Inl ErrInternal, insAcqReq, bcs1)
                    | (Inr r, bcs1) \<Rightarrow>
                        designate_thread env qr r insAcqReq
                          (with_sessions (addSession (world env bcs1) (getRecordCacheKey bcs1 (the (record_at bcs1 r))) r) bcs1)))
          else if ie_Code insElem \<noteq> statusRunning then (Inl ErrDesignateInsNotAvailable, insAcqReq, bcs)
          else (case acquireInstanceThread env (aq_DesignateThreadID insAcqReq) qr p bcs of
                  (res, bcs1) \<Rightarrow> (res, insAcqReq, bcs1)))"

section \<open>Releasing\<close>

definition startUnbindInstanceSession :: "queueRef \<Rightarrow> nat \<Rightarrow> basicConcurrencyScheduler \<Rightarrow> basicConcurrencyScheduler" where
  "startUnbindInstanceSession qr r bcs =
     (case record_at bcs r of
        None \<Rightarrow> bcs
      | Some record \<Rightarrow>
          if sn_overAcqThdMap record = {||} \<and> fcard (sn_availThdMap record) = fcard (sn_allocThdMap record) \<and>
             \<not> sn_expiring record
          then (put_record r (record\<lparr>sn_expiring := True\<rparr>) bcs)\<lparr>bc_waiters := fmupd r (qr, False) (bc_waiters bcs)\<rparr>
          else bcs)"

definition releaseInstanceThreadWithSession ::
  "schedEnv \<Rightarrow> queueRef \<Rightarrow> InstanceAllocation \<Rightarrow> basicConcurrencyScheduler \<Rightarrow> sched_error option \<times> basicConcurrencyScheduler" where
  "releaseInstanceThreadWithSession env qr insAlloc bcs =
     (let sessionCtxID = (case in_SessionCtxID (ia_Instance insAlloc) of
                            Some ctx \<Rightarrow> if fs_EnableSessionCtx (bc_funcSpec bcs) then ctx else []
                          | None \<Rightarrow> [])
      in case getSession (getSessionCacheKey bcs (ia_SessionID insAlloc) sessionCtxID) (bc_sessionManager bcs) of
           None \<Rightarrow> (Some ErrInternal, bcs)
         | Some (r, record) \<Rightarrow>
             if ia_AllocationID insAlloc |\<in>| sn_overAcqThdMap record then
               (if \<not> fs_EnableAgentSession (bc_funcSpec bcs) then Some ErrInsThdNotExist else None,
                startUnbindInstanceSession qr r
                  (put_record r (record\<lparr>sn_overAcqThdMap := sn_overAcqThdMap record |-| {|ia_AllocationID insAlloc|}\<rparr>) bcs))
             else
               (case MarkThreadAsAvailable (ia_AllocationID insAlloc) record of
                  Inl _ \<Rightarrow> (Some ErrInsThdNotExist, bcs)
                | Inr record1 \<Rightarrow> (None, startUnbindInstanceSession qr r (put_record r record1 bcs))))"

definition finish_release ::
  "schedEnv \<Rightarrow> queueRef \<Rightarrow> nat \<Rightarrow> InstanceAllocation \<Rightarrow> bool \<Rightarrow> basicConcurrencyScheduler \<Rightarrow> sched_error option \<times> basicConcurrencyScheduler" where
  "finish_release env qr p insAlloc releaseInSession bcs =
     (let bcs1 = (if releaseInSession then bcs
                  else put_elem p (PutThreadToThreadMap (ia_AllocationID insAlloc) (elem_at bcs p)) bcs)
      in queue_UpdateObjByID env qr (in_InstanceID (ia_Instance insAlloc)) p bcs1)"

definition releaseInstanceInternal ::
  "schedEnv \<Rightarrow> queueRef \<Rightarrow> InstanceAllocation \<Rightarrow> basicConcurrencyScheduler \<Rightarrow> sched_error option \<times> basicConcurrencyScheduler" where
  "releaseInstanceInternal env qr insAlloc bcs =
     (case queue_GetByID env qr (in_InstanceID (ia_Instance insAlloc)) bcs of
        None \<Rightarrow> (Some ErrInsNotExist, bcs)
      | Some p \<Rightarrow>
          if ia_SessionID insAlloc \<noteq> [] then
            (case releaseInstanceThreadWithSession env qr insAlloc bcs of
               (None, bcs1) \<Rightarrow> finish_release env qr p insAlloc True bcs1
             | (Some ErrInsThdNotExist, bcs1) \<Rightarrow> finish_release env qr p insAlloc False bcs1
             | (Some err, bcs1) \<Rightarrow> (Some err, bcs1))
          else finish_release env qr p insAlloc False bcs)"

definition ReleaseInstance ::
  "schedEnv \<Rightarrow> InstanceAllocation \<Rightarrow> basicConcurrencyScheduler \<Rightarrow> sched_error option \<times> basicConcurrencyScheduler" where
  "ReleaseInstance env insAlloc bcs =
     releaseInstanceInternal env (queue_of (checkSelfInstanceInternal env bcs (ia_Instance insAlloc))) insAlloc bcs"

section \<open>The whole acquire\<close>

datatype acquire_error = SchedError sched_error | LeaseError lease_error

definition with_lease ::
  "schedEnv \<Rightarrow> queueRef \<Rightarrow> InstanceAllocation \<Rightarrow> basicConcurrencyScheduler \<Rightarrow>
     (acquire_error + InstanceAllocation) \<times> basicConcurrencyScheduler" where
  "with_lease env qr insAlloc bcs =
     (case CreateInstanceLease (Some (in_InstanceID (ia_Instance insAlloc), ia_AllocationID insAlloc))
             (bc_leaseInterval bcs) insAlloc (bc_leaseManager bcs) of
        (None, gm) \<Rightarrow> (Inr insAlloc, bcs\<lparr>bc_leaseManager := gm\<rparr>)
      | (Some err, gm) \<Rightarrow>
          (Inl (LeaseError err), snd (releaseInstanceInternal env qr insAlloc (bcs\<lparr>bc_leaseManager := gm\<rparr>))))"

definition acquire_by_kind ::
  "schedEnv \<Rightarrow> queueRef \<Rightarrow> InstanceAcquireRequest \<Rightarrow> basicConcurrencyScheduler \<Rightarrow>
     (sched_error + InstanceAllocation) \<times> InstanceAcquireRequest \<times> basicConcurrencyScheduler" where
  "acquire_by_kind env qr insAcqReq bcs =
     (if aq_DesignateInstanceID insAcqReq \<noteq> [] then
        (case acquireDesignateInstance env qr insAcqReq bcs of
           (Inl ErrInsNotExist, req1, bcs1) \<Rightarrow>
             if aq_SessionID req1 \<noteq> []
             then acquireSessionInstance env qr (req1\<lparr>aq_DesignateInstanceID := []\<rparr>) bcs1
             else (Inl ErrInsNotExist, req1, bcs1)
         | result \<Rightarrow> result)
      else if aq_SessionID insAcqReq \<noteq> [] then acquireSessionInstance env qr insAcqReq bcs
      else (case acquireDefaultInstance env qr insAcqReq bcs of (res, bcs1) \<Rightarrow> (res, insAcqReq, bcs1)))"

definition acquireInstanceInternal ::
  "schedEnv \<Rightarrow> queueRef \<Rightarrow> InstanceAcquireRequest \<Rightarrow> basicConcurrencyScheduler \<Rightarrow>
     (acquire_error + InstanceAllocation) \<times> InstanceAcquireRequest \<times> basicConcurrencyScheduler" where
  "acquireInstanceInternal env qr insAcqReq bcs =
     (case acquire_by_kind env qr insAcqReq bcs of
        (Inl err, req1, bcs1) \<Rightarrow> (Inl (SchedError err), req1, bcs1)
      | (Inr insAlloc, req1, bcs1) \<Rightarrow>
          (case with_lease env qr insAlloc bcs1 of (res, bcs2) \<Rightarrow> (res, req1, bcs2)))"

definition noNeedQuerySession :: "InstanceAcquireRequest \<Rightarrow> bool" where
  "noNeedQuerySession insAcqReq \<longleftrightarrow> aq_DesignateInstanceID insAcqReq \<noteq> [] \<or> aq_SessionID insAcqReq = []"

definition peekLocalSession ::
  "string \<Rightarrow> InstanceAcquireRequest \<Rightarrow> basicConcurrencyScheduler \<Rightarrow> bool \<times> InstanceAcquireRequest" where
  "peekLocalSession sessionKey insAcqReq bcs =
     (case getSession sessionKey (bc_sessionManager bcs) of
        None \<Rightarrow> (False, insAcqReq)
      | Some (_, record) \<Rightarrow>
          (True, insAcqReq\<lparr>aq_DesignateInstanceID := ie_ID (elem_at bcs (the (sn_insElem record)))\<rparr>))"

definition applyStoreDesignate ::
  "InstanceAcquireRequest \<Rightarrow> string \<Rightarrow> StoreRecord option \<Rightarrow> basicConcurrencyScheduler \<Rightarrow> InstanceAcquireRequest" where
  "applyStoreDesignate insAcqReq sessionKey storeRecord bcs =
     (case peekLocalSession sessionKey insAcqReq bcs of
        (True, req1) \<Rightarrow> req1
      | (False, _) \<Rightarrow>
          (case storeRecord of
             None \<Rightarrow> insAcqReq
           | Some rec \<Rightarrow>
               insAcqReq\<lparr>aq_DesignateInstanceID := sr_InstanceID rec,
                         aq_InstanceSession := (aq_InstanceSession insAcqReq)\<lparr>isc_Concurrency := sr_Concurrency rec\<rparr>\<rparr>))"

definition routeDesignateInstance :: "schedEnv \<Rightarrow> InstanceAcquireRequest \<Rightarrow> bool \<Rightarrow> basicConcurrencyScheduler \<Rightarrow> bool" where
  "routeDesignateInstance env insAcqReq useSelfInstance bcs =
     (if aq_DesignateInstanceID insAcqReq = [] then useSelfInstance
      else if queue_GetByID env SelfQueue (aq_DesignateInstanceID insAcqReq) bcs \<noteq> None then True
      else if queue_GetByID env OtherQueue (aq_DesignateInstanceID insAcqReq) bcs \<noteq> None then False
      else useSelfInstance)"

text \<open>
  The two lock sections of an acquire: the first looks the session up locally, the second gets the
  record the store gave in between and does the rest. Other calls may run between them.
\<close>

definition acquire_phase1 ::
  "InstanceAcquireRequest \<Rightarrow> basicConcurrencyScheduler \<Rightarrow> (string \<times> bool) \<times> InstanceAcquireRequest" where
  "acquire_phase1 insAcqReq bcs =
     (if noNeedQuerySession insAcqReq then (([], True), insAcqReq)
      else let sessionKey = getSessionCacheKey bcs (aq_SessionID insAcqReq) (aq_SessionCtxID insAcqReq)
           in case peekLocalSession sessionKey insAcqReq bcs of (hit, req1) \<Rightarrow> ((sessionKey, hit), req1))"

definition acquire_phase3 ::
  "schedEnv \<Rightarrow> string \<times> bool \<Rightarrow> StoreRecord option \<Rightarrow> InstanceAcquireRequest \<Rightarrow> basicConcurrencyScheduler \<Rightarrow>
     (acquire_error + InstanceAllocation) \<times> InstanceAcquireRequest \<times> basicConcurrencyScheduler" where
  "acquire_phase3 env looked storeRecord insAcqReq bcs =
     (let req1 = (if \<not> snd looked then applyStoreDesignate insAcqReq (fst looked) storeRecord bcs else insAcqReq);
          useSelfInstance = routeDesignateInstance env req1 (bc_isFuncOwner bcs \<or> aq_TrafficLimited req1) bcs
      in acquireInstanceInternal env (queue_of useSelfInstance) req1 bcs)"

definition acquireWithSessionResolve ::
  "schedEnv \<Rightarrow> (string \<Rightarrow> StoreRecord option) \<Rightarrow> InstanceAcquireRequest \<Rightarrow> basicConcurrencyScheduler \<Rightarrow>
     (acquire_error + InstanceAllocation) \<times> InstanceAcquireRequest \<times> basicConcurrencyScheduler" where
  "acquireWithSessionResolve env fromStore insAcqReq bcs =
     (case acquire_phase1 insAcqReq bcs of
        (looked, req1) \<Rightarrow> acquire_phase3 env looked (if snd looked then None else fromStore (fst looked)) req1 bcs)"

section \<open>The end of a session\<close>

text \<open>
  The goroutine of \<^verbatim>\<open>unbindInstanceSession\<close> selects between its timer and the cancel channel. When the timer
  wins it takes the lock; \<open>None\<close> is the wait for a cancel token with the lock held.
\<close>

definition give_back :: "schedEnv \<Rightarrow> sessionRecord \<Rightarrow> instanceElement \<Rightarrow> instanceElement" where
  "give_back env record insElem = fold PutThreadToThreadMap (se_threads env (sn_allocThdMap record)) insElem"

definition stop_waiting :: "nat \<Rightarrow> basicConcurrencyScheduler \<Rightarrow> basicConcurrencyScheduler" where
  "stop_waiting r bcs = bcs\<lparr>bc_waiters := fmdrop r (bc_waiters bcs)\<rparr>"

definition unbind_on_timer ::
  "schedEnv \<Rightarrow> nat \<Rightarrow> queueRef \<Rightarrow> basicConcurrencyScheduler \<Rightarrow> basicConcurrencyScheduler option" where
  "unbind_on_timer env r insQue bcs =
     (case record_at bcs r of
        None \<Rightarrow> Some bcs
      | Some record \<Rightarrow>
          if fcard (sn_availThdMap record) \<noteq> fcard (sn_allocThdMap record) \<or> sn_overAcqThdMap record \<noteq> {||} then
            if sn_expireCancelCh record
            then Some (stop_waiting r (put_record r (record\<lparr>sn_expireCancelCh := False, sn_expiring := False\<rparr>) bcs))
            else None
          else
            (case sn_insElem record of
               None \<Rightarrow> None \<comment> \<open>returns without giving the lock back\<close>
             | Some p \<Rightarrow>
                 let bcs1 = put_record r (record\<lparr>sn_cancelled := True\<rparr>) bcs;
                     insElem = elem_at bcs1 p;
                     bcs2 = (if queue_GetByID env insQue (ie_ID insElem) bcs1 \<noteq> None
                             then put_elem p (give_back env record insElem) bcs1 else bcs1);
                     bcs3 = with_sessions (delSession (getRecordCacheKey bcs2 record)) bcs2
                 in Some (stop_waiting r (snd (queue_UpdateObjByID env insQue (ie_ID insElem) p bcs3)))))"

text \<open>When the channel wins the goroutine stores false in \<^verbatim>\<open>expiring\<close> later, without the lock.\<close>

definition unbind_take_cancel :: "nat \<Rightarrow> queueRef \<Rightarrow> basicConcurrencyScheduler \<Rightarrow> basicConcurrencyScheduler" where
  "unbind_take_cancel r insQue bcs =
     (case record_at bcs r of
        None \<Rightarrow> bcs
      | Some record \<Rightarrow>
          (put_record r (record\<lparr>sn_expireCancelCh := False\<rparr>) bcs)\<lparr>bc_waiters := fmupd r (insQue, True) (bc_waiters bcs)\<rparr>)"

definition unbind_end_cancel :: "nat \<Rightarrow> basicConcurrencyScheduler \<Rightarrow> basicConcurrencyScheduler" where
  "unbind_end_cancel r bcs =
     (case record_at bcs r of
        None \<Rightarrow> bcs
      | Some record \<Rightarrow> stop_waiting r (put_record r (record\<lparr>sn_expiring := False\<rparr>) bcs))"

section \<open>Instances\<close>

definition new_element :: "schedEnv \<Rightarrow> SchedInstance \<Rightarrow> basicConcurrencyScheduler \<Rightarrow> instanceElement" where
  "new_element env instance bcs =
     initThreadMap (se_prefix env)
       \<lparr>ie_instance = instance, ie_threadIndex = 0, ie_threadIDPrefix = [],
        ie_isNewInstance = (in_FuncSig instance = fs_FuncMetaSignature (bc_funcSpec bcs)),
        ie_isPriorityAZ = checkInstancePriorityAZ instance (bc_funcSpec bcs), ie_threadMap = {||}\<rparr>"

definition push_new ::
  "schedEnv \<Rightarrow> queueRef \<Rightarrow> SchedInstance \<Rightarrow> basicConcurrencyScheduler \<Rightarrow> sched_error option \<times> basicConcurrencyScheduler" where
  "push_new env qr instance bcs =
     (let p = bc_nextElem bcs
      in queue_PushBack env qr p ((put_elem p (new_element env instance bcs) bcs)\<lparr>bc_nextElem := Suc p\<rparr>))"

definition AddInstance ::
  "schedEnv \<Rightarrow> SchedInstance \<Rightarrow> basicConcurrencyScheduler \<Rightarrow> sched_error option \<times> basicConcurrencyScheduler" where
  "AddInstance env instance bcs = push_new env (queue_of (checkSelfInstanceInternal env bcs instance)) instance bcs"

definition DelInstance ::
  "schedEnv \<Rightarrow> SchedInstance \<Rightarrow> basicConcurrencyScheduler \<Rightarrow> sched_error option \<times> basicConcurrencyScheduler" where
  "DelInstance env instance bcs =
     (case queue_DelByID env (queue_of (checkSelfInstanceInternal env bcs instance)) (in_InstanceID instance) bcs of
        (err, bcs1) \<Rightarrow> (err, bcs1\<lparr>bc_leaseManager := gm_HandleInstanceDelete (in_InstanceID instance) (bc_leaseManager bcs1)\<rparr>))"

definition cs_HandleInstanceUpdate :: "schedEnv \<Rightarrow> SchedInstance \<Rightarrow> basicConcurrencyScheduler \<Rightarrow> basicConcurrencyScheduler" where
  "cs_HandleInstanceUpdate env instance bcs =
     (let qr = queue_of (checkSelfInstanceInternal env bcs instance) in
      case queue_GetByID env qr (in_InstanceID instance) bcs of
        None \<Rightarrow> snd (push_new env qr instance bcs)
      | Some p \<Rightarrow>
          snd (queue_UpdateObjByID env qr (in_InstanceID instance) p
                 (put_elem p ((elem_at bcs p)\<lparr>ie_instance := instance,
                                ie_isNewInstance := (in_FuncSig instance = fs_FuncMetaSignature (bc_funcSpec bcs)),
                                ie_isPriorityAZ := checkInstancePriorityAZ instance (bc_funcSpec bcs)\<rparr>) bcs)))"

definition SignalAllInstances :: "schedEnv \<Rightarrow> basicConcurrencyScheduler \<Rightarrow> SchedInstance list" where
  "SignalAllInstances env bcs =
     map (\<lambda>p. ie_instance (elem_at bcs p)) (queue_Range env SelfQueue bcs @ queue_Range env OtherQueue bcs)"

text \<open>Taking an instance out for scaling down; \<open>None\<close> is the wait on the condition variable.\<close>

definition pop_now ::
  "schedEnv \<Rightarrow> bool \<Rightarrow> (nat \<Rightarrow> bool) option \<Rightarrow> basicConcurrencyScheduler \<Rightarrow> nat option \<times> basicConcurrencyScheduler" where
  "pop_now env forward shouldPop bcs =
     (case oq_PopSubHealth (world env bcs) (se_order env) (bc_selfInstanceQueue bcs) of
        (Some p, q, evs) \<Rightarrow> (Some p, publishInsThdEvent evs (bcs\<lparr>bc_selfInstanceQueue := q\<rparr>))
      | (None, _, _) \<Rightarrow>
          (case (if forward then sq_Front (oq_queue (bc_selfInstanceQueue bcs)) else sq_Back (oq_queue (bc_selfInstanceQueue bcs))) of
             None \<Rightarrow> (None, bcs)
           | Some p \<Rightarrow>
               if (case shouldPop of None \<Rightarrow> False | Some f \<Rightarrow> \<not> f p) then (None, bcs)
               else (case (if forward then oq_PopFront (world env bcs) (bc_selfInstanceQueue bcs)
                           else oq_PopBack (world env bcs) (bc_selfInstanceQueue bcs)) of
                       (_, q, evs) \<Rightarrow> (Some p, publishInsThdEvent evs (bcs\<lparr>bc_selfInstanceQueue := q\<rparr>)))))"

definition popInstanceElement ::
  "schedEnv \<Rightarrow> bool \<Rightarrow> (nat \<Rightarrow> bool) option \<Rightarrow> bool \<Rightarrow> basicConcurrencyScheduler \<Rightarrow> (nat option \<times> basicConcurrencyScheduler) option" where
  "popInstanceElement env forward shouldPop wait bcs =
     (if wait \<and> queue_Len SelfQueue bcs = 0 then None else Some (pop_now env forward shouldPop bcs))"

section \<open>Changes of the function and of its owner\<close>

definition refresh_flags :: "SchedFuncSpec \<Rightarrow> instanceElement \<Rightarrow> instanceElement" where
  "refresh_flags funcSpec e =
     e\<lparr>ie_isNewInstance := (in_FuncSig (ie_instance e) = fs_FuncMetaSignature funcSpec),
       ie_isPriorityAZ := checkInstancePriorityAZ (ie_instance e) funcSpec\<rparr>"

definition handleFuncSpecUpdate ::
  "schedEnv \<Rightarrow> queueRef \<Rightarrow> SchedFuncSpec \<Rightarrow> basicConcurrencyScheduler \<Rightarrow> basicConcurrencyScheduler" where
  "handleFuncSpecUpdate env qr funcSpec bcs =
     (let needUpdate = filter (\<lambda>p. refresh_flags funcSpec (elem_at bcs p) \<noteq> elem_at bcs p) (queue_Range env qr bcs);
          bcs1 = fold (\<lambda>p b. put_elem p (refresh_flags funcSpec (elem_at b p)) b) needUpdate bcs
      in fold (\<lambda>p b. snd (queue_UpdateObjByID env qr (ie_ID (elem_at b p)) p b)) needUpdate bcs1)"

definition bc_HandleFuncSpecUpdate :: "schedEnv \<Rightarrow> SchedFuncSpec \<Rightarrow> basicConcurrencyScheduler \<Rightarrow> basicConcurrencyScheduler" where
  "bc_HandleFuncSpecUpdate env funcSpec bcs =
     handleFuncSpecUpdate env OtherQueue funcSpec
       (handleFuncSpecUpdate env SelfQueue funcSpec (bcs\<lparr>bc_funcSpec := funcSpec\<rparr>))"

definition reassign_one ::
  "schedEnv \<Rightarrow> queueRef \<Rightarrow> bool \<Rightarrow> nat \<Rightarrow> string list \<times> basicConcurrencyScheduler \<Rightarrow> string list \<times> basicConcurrencyScheduler" where
  "reassign_one env dst becomeOwner p acc =
     (let insElem = elem_at (snd acc) p; isSelf = checkSelfInstanceInternal env (snd acc) (ie_instance insElem) in
      if ie_Code insElem = statusEvicting then (fst acc, snd (queue_PushBack env dst p (snd acc)))
      else if becomeOwner \<and> \<not> isSelf \<or> \<not> becomeOwner \<and> isSelf then acc
      else (fst acc @ [ie_ID insElem], snd (queue_PushBack env dst p (snd acc))))"

definition reassignQueues ::
  "schedEnv \<Rightarrow> queueRef \<Rightarrow> queueRef \<Rightarrow> bool \<Rightarrow> basicConcurrencyScheduler \<Rightarrow> string list \<times> basicConcurrencyScheduler" where
  "reassignQueues env src dst becomeOwner bcs =
     (case fold (reassign_one env dst becomeOwner) (queue_Range env src bcs) ([], bcs) of
        (reassignList, bcs1) \<Rightarrow> (reassignList, fold (\<lambda>i b. snd (queue_DelByID env src i b)) reassignList bcs1))"

definition HandleFuncOwnerUpdate :: "schedEnv \<Rightarrow> bool \<Rightarrow> basicConcurrencyScheduler \<Rightarrow> basicConcurrencyScheduler" where
  "HandleFuncOwnerUpdate env isFuncOwner bcs =
     (let isOwnerBefore = bc_isFuncOwner bcs;
          bcs1 = with_sessions (setFuncOwner isFuncOwner) (bcs\<lparr>bc_isFuncOwner := isFuncOwner\<rparr>)
      in if \<not> isOwnerBefore \<and> isFuncOwner then snd (reassignQueues env OtherQueue SelfQueue True bcs1)
         else if isOwnerBefore \<and> \<not> isFuncOwner then snd (reassignQueues env SelfQueue OtherQueue False bcs1)
         else bcs1)"

definition bc_Destroy :: "basicConcurrencyScheduler \<Rightarrow> basicConcurrencyScheduler" where
  "bc_Destroy bcs =
     (let bcs1 = with_sessions stopAndClean (bcs\<lparr>bc_stopped := True\<rparr>)
      in bcs1\<lparr>bc_leaseManager := CleanAllLeases (bc_leaseManager bcs1)\<rparr>)"

definition CleanExternalSessionRecords :: "schedEnv \<Rightarrow> basicConcurrencyScheduler \<Rightarrow> basicConcurrencyScheduler" where
  "CleanExternalSessionRecords env = with_sessions (sm_cleanExternalRecords (se_order env))"

section \<open>Traces of cold starts\<close>

definition recordColdStartTrace :: "schedEnv \<Rightarrow> string \<Rightarrow> string \<Rightarrow> basicConcurrencyScheduler \<Rightarrow> basicConcurrencyScheduler" where
  "recordColdStartTrace env traceID traceParent bcs =
     (if traceID = [] \<and> traceParent = [] then bcs
      else let q = bc_coldStartTraceQueue bcs;
               q1 = (if length q \<ge> maxColdStartTraceQueue then tl q else q)
           in bcs\<lparr>bc_coldStartTraceQueue :=
                    q1 @ [\<lparr>ct_TraceID = traceID, ct_TraceParent = traceParent, ct_createdAt = se_now env\<rparr>]\<rparr>)"

definition PopColdStartTrace :: "schedEnv \<Rightarrow> basicConcurrencyScheduler \<Rightarrow> coldStartTrace option \<times> basicConcurrencyScheduler" where
  "PopColdStartTrace env bcs =
     (case dropWhile (\<lambda>t. ct_createdAt t < se_now env - bc_leaseInterval bcs) (bc_coldStartTraceQueue bcs) of
        [] \<Rightarrow> (None, bcs\<lparr>bc_coldStartTraceQueue := []\<rparr>)
      | t # rest \<Rightarrow> (Some t, bcs\<lparr>bc_coldStartTraceQueue := rest\<rparr>))"

section \<open>Leases\<close>

text \<open>
  A client gives a thread back by releasing its lease; the callback of the lease is the release of the
  allocation. A lease that expires runs the same callback.
\<close>

definition release_lease ::
  "schedEnv \<Rightarrow> string \<Rightarrow> string \<Rightarrow> basicConcurrencyScheduler \<Rightarrow> lease_error option \<times> basicConcurrencyScheduler" where
  "release_lease env instanceID allocationID bcs =
     (case gm_releaseLease instanceID allocationID (bc_leaseManager bcs) of
        (Inl err, gm) \<Rightarrow> (Some err, bcs\<lparr>bc_leaseManager := gm\<rparr>)
      | (Inr None, gm) \<Rightarrow> (None, bcs\<lparr>bc_leaseManager := gm\<rparr>)
      | (Inr (Some insAlloc), gm) \<Rightarrow> (None, snd (ReleaseInstance env insAlloc (bcs\<lparr>bc_leaseManager := gm\<rparr>))))"

definition expire_lease :: "schedEnv \<Rightarrow> nat \<Rightarrow> string \<Rightarrow> basicConcurrencyScheduler \<Rightarrow> basicConcurrencyScheduler" where
  "expire_lease env h allocationID bcs =
     (case fmlookup (gm_holders (bc_leaseManager bcs)) h of
        None \<Rightarrow> bcs
      | Some il \<Rightarrow>
          (case expireLease allocationID il of
             (callback, il1) \<Rightarrow>
               let bcs1 = bcs\<lparr>bc_leaseManager := put_holder h il1 (bc_leaseManager bcs)\<rparr>
               in case callback of None \<Rightarrow> bcs1 | Some insAlloc \<Rightarrow> snd (ReleaseInstance env insAlloc bcs1)))"

section \<open>The schedulers for reserved and for scaled instances\<close>

text \<open>
  Both are the basic scheduler over a queue of their own: reserved instances are used evenly, scaled ones one
  after the other, with a buffer for those without a thread to give. \<open>no_elements\<close> stands for the world in
  which the closures of an empty queue are made.
\<close>

definition no_elements :: elemWorld where
  "no_elements = \<lparr>ew_elems = fmempty, ew_updating = False\<rparr>"

definition reserved_queue :: innerQueue where
  "reserved_queue = PlainQueue ForReserved (NewPriorityQueue (getInstanceID no_elements) (prio_of ForReserved no_elements))"

definition scaled_queue :: "int \<Rightarrow> innerQueue" where
  "scaled_queue concurrentNum =
     BufferQueue (ForScaled concurrentNum)
       \<lparr>bq_queue = NewPriorityQueue (getInstanceID no_elements) (prio_of (ForScaled concurrentNum) no_elements), bq_buffer = []\<rparr>"

definition NewReservedConcurrencyScheduler ::
  "schedEnv \<Rightarrow> storeSettings \<Rightarrow> int \<Rightarrow> SchedFuncSpec \<Rightarrow> string \<Rightarrow> string \<Rightarrow> basicConcurrencyScheduler" where
  "NewReservedConcurrencyScheduler env g leaseSpan funcSpec funcName resKey =
     newBasicConcurrencyScheduler env g leaseSpan funcSpec funcName resKey reserved_queue reserved_queue"

definition NewScaledConcurrencyScheduler ::
  "schedEnv \<Rightarrow> storeSettings \<Rightarrow> int \<Rightarrow> SchedFuncSpec \<Rightarrow> string \<Rightarrow> string \<Rightarrow> basicConcurrencyScheduler" where
  "NewScaledConcurrencyScheduler env g leaseSpan funcSpec funcName resKey =
     (let concurrentNum = GetConcurrentNum (fs_ConcurrentNum funcSpec)
      in newBasicConcurrencyScheduler env g leaseSpan funcSpec funcName resKey (scaled_queue concurrentNum) (scaled_queue concurrentNum))"

text \<open>\<open>scaling\<close> is what \<^verbatim>\<open>instanceScaler.CheckScaling\<close> answers.\<close>

definition rcs_PopInstance ::
  "schedEnv \<Rightarrow> bool \<Rightarrow> bool \<Rightarrow> basicConcurrencyScheduler \<Rightarrow> (nat option \<times> basicConcurrencyScheduler) option" where
  "rcs_PopInstance env scaling force rcs = popInstanceElement env True None (if force then False else scaling) rcs"

definition scs_PopInstance ::
  "schedEnv \<Rightarrow> bool \<Rightarrow> basicConcurrencyScheduler \<Rightarrow> (nat option \<times> basicConcurrencyScheduler) option" where
  "scs_PopInstance env force scs =
     popInstanceElement env False (if force then None else Some (shouldPopScaledInstance (world env scs))) False scs"

definition rcs_HandleFuncSpecUpdate :: "schedEnv \<Rightarrow> SchedFuncSpec \<Rightarrow> basicConcurrencyScheduler \<Rightarrow> basicConcurrencyScheduler" where
  "rcs_HandleFuncSpecUpdate env funcSpec rcs =
     bc_HandleFuncSpecUpdate env funcSpec (rcs\<lparr>bc_concurrentNum := GetConcurrentNum (fs_ConcurrentNum funcSpec)\<rparr>)"

definition scs_HandleFuncSpecUpdate :: "schedEnv \<Rightarrow> SchedFuncSpec \<Rightarrow> basicConcurrencyScheduler \<Rightarrow> basicConcurrencyScheduler" where
  "scs_HandleFuncSpecUpdate env funcSpec scs =
     (let concurrentNum = GetConcurrentNum (fs_ConcurrentNum funcSpec);
          scs1 = (if bc_concurrentNum scs \<noteq> concurrentNum
                  then scs\<lparr>bc_concurrentNum := concurrentNum, bc_selfInstanceQueue := new_oq (scaled_queue concurrentNum),
                           bc_otherInstanceQueue := new_sq (scaled_queue concurrentNum)\<rparr>
                  else scs)
      in bc_HandleFuncSpecUpdate env funcSpec scs1)"

end
