(* ===== verification/ConcurrencyInvariant.thy ===== *)
theory ConcurrencyInvariant
  imports ConcurrencyScheduler
begin

text \<open>
  What the operations of the concurrency scheduler keep, whatever the order in which they run: both
  instance queues are well formed, no instance offers more threads than its concurrency, and what the
  observers were told adds up to the threads the own queue holds.
\<close>

section \<open>The shelf of an instance\<close>

text \<open>Where a queue keeps an instance tells its status.\<close>

definition shelf :: "instanceQueueWithSubHealthAndEvictingRecord \<Rightarrow> string \<Rightarrow> int" where
  "shelf i k = (if fmlookup (sq_evictingRecord i) k \<noteq> None then statusEvicting
                else if fmlookup (sq_subHealthRecord i) k \<noteq> None then statusSubHealth else statusRunning)"

lemma old_status_shelf: "oq_old_status k i = shelf (oq_queue i) k"
  by (simp add: oq_old_status_def shelf_def)

lemma shelf_forget: "shelf (sq_forget w k i) j = (if j = k then statusRunning else shelf i j)"
  by (simp add: shelf_def sq_forget_def)

lemma shelf_place:
  assumes "sq_GetByID w k i = None" and "placed (elem w p)" and "sq_place w k p i = (err, i')"
  shows "shelf i' j = (if j = k then ie_Code (elem w p) else shelf i j)"
proof -
  have "fmlookup (sq_subHealthRecord i) k = None" "fmlookup (sq_evictingRecord i) k = None"
    using assms(1) by (auto simp: sq_GetByID_def split: option.splits)
  then show ?thesis using assms(2,3)
    by (cases "iq_PushBack w p (sq_instanceQueue i)") (auto simp: shelf_def sq_place_def split: if_splits)
qed

lemma shelf_update:
  assumes "sq_ok w i" and "sq_GetByID w k i \<noteq> None" and "placed (elem w p)" and "sq_UpdateObjByID w k p i = (err, i')"
  shows "shelf i' j = (if j = k then ie_Code (elem w p) else shelf i j)"
proof -
  have "sq_place w k p (sq_forget w k i) = (err, i')" using assms by (simp add: sq_UpdateObjByID_def sq_exists_get)
  moreover have "sq_GetByID w k (sq_forget w k i) = None" using sq_forget_law(2) [OF assms(1)] by simp
  ultimately show ?thesis using shelf_place assms(3) by (simp add: shelf_forget)
qed

lemma shelf_push:
  assumes "sq_PushBack w p i = (None, i')"
  shows "shelf i' j = (if j = getInstanceID w p then ie_Code (elem w p) else shelf i j)"
proof -
  have n: "sq_GetByID w (getInstanceID w p) i = None" and pl: "sq_place w (getInstanceID w p) p i = (None, i')"
    using assms by (auto simp: sq_PushBack_def sq_exists_get split: if_splits)
  moreover have "placed (elem w p)" using pl by (auto simp: sq_place_def split: if_splits)
  ultimately show ?thesis using shelf_place by metis
qed

lemma shelf_del: "sq_DelByID w k i = (err, i') \<Longrightarrow> j \<noteq> k \<Longrightarrow> shelf i' j = shelf i j"
  using shelf_forget by (auto simp: sq_DelByID_def split: if_splits)

lemma shelf_pop: "sq_PopFront i = (Some p, i') \<or> sq_PopBack i = (Some p, i') \<Longrightarrow> shelf i' j = shelf i j"
  by (auto simp: sq_PopFront_def sq_PopBack_def shelf_def split: prod.splits)

lemma shelf_pop_sub: "sq_PopSubHealth w ord i = (Some p, i') \<Longrightarrow> j \<noteq> getInstanceID w p \<Longrightarrow> shelf i' j = shelf i j"
  by (auto simp: sq_PopSubHealth_def shelf_def split: option.splits)

section \<open>The invariant\<close>

definition base_world :: "basicConcurrencyScheduler \<Rightarrow> elemWorld" where
  "base_world bcs = \<lparr>ew_elems = bc_elems bcs, ew_updating = False\<rparr>"

definition inner_queue :: "queueRef \<Rightarrow> basicConcurrencyScheduler \<Rightarrow> instanceQueueWithSubHealthAndEvictingRecord" where
  "inner_queue qr bcs = (case qr of SelfQueue \<Rightarrow> oq_queue (bc_selfInstanceQueue bcs) | OtherQueue \<Rightarrow> bc_otherInstanceQueue bcs)"

definition queued :: "queueRef \<Rightarrow> basicConcurrencyScheduler \<Rightarrow> string \<Rightarrow> nat option" where
  "queued qr bcs k = sq_GetByID (base_world bcs) k (inner_queue qr bcs)"

lemma world_elem: "elem (world env bcs) p = elem_at bcs p" "elem (base_world bcs) p = elem_at bcs p"
  by (simp_all add: elem_def world_def base_world_def elem_at_def)

lemma world_ids:
  "getInstanceID (world env bcs) = getInstanceID (base_world bcs)" "sq_GetByID (world env bcs) = sq_GetByID (base_world bcs)"
  "sq_ok (world env bcs) i = sq_ok (base_world bcs) i"
proof -
  have s: "same_ids (base_world bcs) (world env bcs)" by (simp add: same_ids_def getInstanceID_def world_elem)
  show "getInstanceID (world env bcs) = getInstanceID (base_world bcs)" "sq_GetByID (world env bcs) = sq_GetByID (base_world bcs)"
    "sq_ok (world env bcs) i = sq_ok (base_world bcs) i" by (rule same_ids_cong [OF s])+
qed

lemma queue_GetByID_queued: "queue_GetByID env qr k bcs = queued qr bcs k"
  by (simp add: queue_GetByID_def queued_def inner_queue_def world_ids split: queueRef.split)

text \<open>What an instance contributes to the numbers of threads of the own queue.\<close>

definition avail_part :: "basicConcurrencyScheduler \<Rightarrow> nat \<Rightarrow> int" where
  "avail_part bcs p = (let e = elem_at bcs p in
     if queued SelfQueue bcs (ie_ID e) = Some p \<and> ie_Code e = statusRunning then ie_avail e else 0)"

definition total_part :: "basicConcurrencyScheduler \<Rightarrow> nat \<Rightarrow> int" where
  "total_part bcs p = (let e = elem_at bcs p in
     if queued SelfQueue bcs (ie_ID e) = Some p \<and> ie_Code e \<noteq> statusEvicting then ie_ConcurrentNum e else 0)"

definition offered :: "basicConcurrencyScheduler \<Rightarrow> int" where
  "offered bcs = (\<Sum>p\<in>fset (fmdom (bc_elems bcs)). avail_part bcs p)"

definition capacity :: "basicConcurrencyScheduler \<Rightarrow> int" where
  "capacity bcs = (\<Sum>p\<in>fset (fmdom (bc_elems bcs)). total_part bcs p)"

fun pub_avail :: "pubEvent \<Rightarrow> int" where
  "pub_avail (PubAvail n) = n" | "pub_avail (PubInUse n) = 0" | "pub_avail (PubTotal n) = 0"

fun pub_total :: "pubEvent \<Rightarrow> int" where
  "pub_total (PubAvail n) = 0" | "pub_total (PubInUse n) = 0" | "pub_total (PubTotal n) = n"

definition told_avail :: "basicConcurrencyScheduler \<Rightarrow> int" where
  "told_avail bcs = sum_list (map pub_avail (bc_published bcs))"

definition told_total :: "basicConcurrencyScheduler \<Rightarrow> int" where
  "told_total bcs = sum_list (map pub_total (bc_published bcs))"

definition heap_inv :: "basicConcurrencyScheduler \<Rightarrow> bool" where
  "heap_inv bcs \<longleftrightarrow>
     (\<forall>p q e f. fmlookup (bc_elems bcs) p = Some e \<longrightarrow> fmlookup (bc_elems bcs) q = Some f \<longrightarrow> ie_ID e = ie_ID f \<longrightarrow> p = q) \<and>
     (\<forall>p e. fmlookup (bc_elems bcs) p = Some e \<longrightarrow> p < bc_nextElem bcs \<and> ie_avail e \<le> max 0 (ie_ConcurrentNum e))"

definition queue_inv :: "queueRef \<Rightarrow> basicConcurrencyScheduler \<Rightarrow> bool" where
  "queue_inv qr bcs \<longleftrightarrow> sq_ok (base_world bcs) (inner_queue qr bcs) \<and>
     (\<forall>k p. queued qr bcs k = Some p \<longrightarrow> p |\<in>| fmdom (bc_elems bcs) \<and> shelf (inner_queue qr bcs) k = ie_Code (elem_at bcs p))"

definition observer_inv :: "basicConcurrencyScheduler \<Rightarrow> bool" where
  "observer_inv bcs \<longleftrightarrow>
     (\<forall>k p. queued SelfQueue bcs k = Some p \<longrightarrow>
        (\<exists>n. fmlookup (oq_insAvailThdCount (bc_selfInstanceQueue bcs)) k = Some n \<and>
             (ie_Code (elem_at bcs p) \<noteq> statusEvicting \<longrightarrow> n = ie_avail (elem_at bcs p)))) \<and>
     (\<not> bc_stopped bcs \<longrightarrow> told_avail bcs = offered bcs \<and> told_total bcs = capacity bcs)"

text \<open>Only evicting instances are in both queues.\<close>

definition both_inv :: "basicConcurrencyScheduler \<Rightarrow> bool" where
  "both_inv bcs \<longleftrightarrow>
     (\<forall>k p. queued SelfQueue bcs k = Some p \<longrightarrow> queued OtherQueue bcs k = Some p \<longrightarrow> ie_Code (elem_at bcs p) = statusEvicting)"

definition core_inv :: "basicConcurrencyScheduler \<Rightarrow> bool" where
  "core_inv bcs \<longleftrightarrow> heap_inv bcs \<and> queue_inv SelfQueue bcs \<and> queue_inv OtherQueue bcs \<and> observer_inv bcs"

text \<open>
  Every session record is bound to an element, and the keys of the sessions begin with a session ID: with
  a first character that is not the separator of the keys.
\<close>

definition key_ok :: "string \<Rightarrow> bool" where
  "key_ok k \<longleftrightarrow> (case k of [] \<Rightarrow> False | c # _ \<Rightarrow> c \<noteq> CHR 0x00)"

definition sess_inv :: "basicConcurrencyScheduler \<Rightarrow> bool" where
  "sess_inv bcs \<longleftrightarrow>
     (\<forall>r record. record_at bcs r = Some record \<longrightarrow> r < sm_nextRecord (bc_sessionManager bcs) \<and>
        (\<exists>p. sn_insElem record = Some p \<and> p |\<in>| fmdom (bc_elems bcs))) \<and>
     (\<forall>k r. fmlookup (sm_sessionMap (bc_sessionManager bcs)) k = Some r \<longrightarrow> key_ok k \<and> record_at bcs r \<noteq> None)"

definition sched_inv :: "basicConcurrencyScheduler \<Rightarrow> bool" where
  "sched_inv bcs \<longleftrightarrow> core_inv bcs \<and> both_inv bcs \<and> sess_inv bcs"

section \<open>Steps that do not touch the queues\<close>

definition sched_view ::
  "basicConcurrencyScheduler \<Rightarrow> (nat, instanceElement) gomap \<times> nat \<times> instanceQueueWithObserver \<times>
     instanceQueueWithSubHealthAndEvictingRecord \<times> bool \<times> pubEvent list" where
  "sched_view bcs = (bc_elems bcs, bc_nextElem bcs, bc_selfInstanceQueue bcs, bc_otherInstanceQueue bcs, bc_stopped bcs, bc_published bcs)"

lemma view_cong:
  assumes "sched_view b' = sched_view b"
  shows "queued qr b' = queued qr b" "elem_at b' = elem_at b" "core_inv b' = core_inv b" "both_inv b' = both_inv b"
    "heap_inv b' = heap_inv b" "offered b' = offered b" "capacity b' = capacity b" "bc_elems b' = bc_elems b"
proof -
  have f: "bc_elems b' = bc_elems b" "bc_nextElem b' = bc_nextElem b" "bc_selfInstanceQueue b' = bc_selfInstanceQueue b"
    "bc_otherInstanceQueue b' = bc_otherInstanceQueue b" "bc_stopped b' = bc_stopped b" "bc_published b' = bc_published b"
    using assms by (simp_all add: sched_view_def)
  have w: "base_world b' = base_world b" "inner_queue qr b' = inner_queue qr b" for qr
    by (simp_all add: base_world_def inner_queue_def f split: queueRef.split)
  show h: "queued qr b' = queued qr b" for qr by (simp add: queued_def w fun_eq_iff)
  show e: "elem_at b' = elem_at b" by (simp add: elem_at_def f fun_eq_iff)
  show o: "offered b' = offered b" "capacity b' = capacity b"
    by (simp_all add: offered_def capacity_def avail_part_def total_part_def h e f)
  show i: "heap_inv b' = heap_inv b" "both_inv b' = both_inv b" by (simp_all add: heap_inv_def both_inv_def h e f)
  have "queue_inv qr b' = queue_inv qr b" for qr by (simp add: queue_inv_def w h e f)
  moreover have "observer_inv b' = observer_inv b" by (simp add: observer_inv_def told_avail_def told_total_def o h e f)
  ultimately show "core_inv b' = core_inv b" by (simp add: core_inv_def i)
qed (use assms in \<open>simp add: sched_view_def\<close>)

lemma sum_single:
  fixes f g :: "'a \<Rightarrow> int"
  assumes "finite A" and "p \<in> A" and "\<And>q. q \<in> A \<Longrightarrow> q \<noteq> p \<Longrightarrow> f q = g q"
  shows "sum f A = sum g A + (f p - g p)"
proof -
  have "sum f (A - {p}) = sum g (A - {p})" using assms(3) by (intro sum.cong) auto
  then show ?thesis using sum.remove [OF assms(1,2), of f] sum.remove [OF assms(1,2), of g] by simp
qed

lemma sq_del_world: "sq_DelByID (world env bcs) k i = sq_DelByID (base_world bcs) k i"
  unfolding sq_DelByID_def sq_exists_get sq_forget_def iq_DelByID_def bq_DelByID_def world_ids ..

section \<open>Changing an element\<close>

lemma elem_put: "elem_at (put_elem p e b) q = (if q = p then e else elem_at b q)"
  by (simp add: elem_at_def put_elem_def)

lemma put_elem_sel [simp]:
  "bc_selfInstanceQueue (put_elem p e b) = bc_selfInstanceQueue b" "bc_otherInstanceQueue (put_elem p e b) = bc_otherInstanceQueue b"
  "bc_stopped (put_elem p e b) = bc_stopped b" "bc_published (put_elem p e b) = bc_published b"
  "bc_nextElem (put_elem p e b) = bc_nextElem b" "bc_elems (put_elem p e b) = fmupd p e (bc_elems b)"
  "bc_sessionManager (put_elem p e b) = bc_sessionManager b" "bc_funcSpec (put_elem p e b) = bc_funcSpec b"
  "bc_isFuncOwner (put_elem p e b) = bc_isFuncOwner b" "inner_queue qr (put_elem p e b) = inner_queue qr b"
  by (simp_all add: put_elem_def inner_queue_def split: queueRef.split)

lemma put_elem_ids:
  assumes "ie_ID e = ie_ID (elem_at b p)"
  shows "getInstanceID (base_world (put_elem p e b)) = getInstanceID (base_world b)"
    "sq_GetByID (base_world (put_elem p e b)) = sq_GetByID (base_world b)" "queued qr (put_elem p e b) = queued qr b"
    "sq_ok (base_world (put_elem p e b)) i = sq_ok (base_world b) i"
proof -
  have s: "same_ids (base_world b) (base_world (put_elem p e b))"
    using assms by (simp add: same_ids_def getInstanceID_def world_elem elem_put)
  show "getInstanceID (base_world (put_elem p e b)) = getInstanceID (base_world b)"
    "sq_GetByID (base_world (put_elem p e b)) = sq_GetByID (base_world b)"
    "sq_ok (base_world (put_elem p e b)) i = sq_ok (base_world b) i" by (rule same_ids_cong [OF s])+
  then show "queued qr (put_elem p e b) = queued qr b" by (simp add: queued_def fun_eq_iff)
qed

text \<open>
  How an element changes: calls take and give threads within the concurrency, updates of the instance
  keep its threads and its concurrency, and an evicting instance stays evicting.
\<close>

definition evolves :: "instanceElement \<Rightarrow> instanceElement \<Rightarrow> bool" where
  "evolves e e' \<longleftrightarrow> ie_ID e' = ie_ID e \<and> ie_ConcurrentNum e' = ie_ConcurrentNum e \<and>
     ie_avail e' \<le> max 0 (ie_ConcurrentNum e) \<and>
     (ie_Code e' = ie_Code e \<or> placed e' \<and> ie_Code e \<noteq> statusEvicting \<and> ie_threadMap e' = ie_threadMap e)"

lemma queued_facts:
  assumes "core_inv b" and "queued qr b k = Some p"
  shows "p |\<in>| fmdom (bc_elems b)" "ie_ID (elem_at b p) = k" "shelf (inner_queue qr b) k = ie_Code (elem_at b p)"
    "placed (elem_at b p)" "sq_ok (base_world b) (inner_queue qr b)"
proof -
  have q: "queue_inv qr b" using assms(1) by (cases qr) (simp_all add: core_inv_def)
  then show d: "p |\<in>| fmdom (bc_elems b)" and s: "shelf (inner_queue qr b) k = ie_Code (elem_at b p)"
    and o: "sq_ok (base_world b) (inner_queue qr b)" using assms(2) by (auto simp: queue_inv_def)
  show "ie_ID (elem_at b p) = k" using sq_ident [OF o] assms(2) by (simp add: queued_def getInstanceID_def world_elem)
  show "placed (elem_at b p)" using s by (auto simp: shelf_def split: if_splits)
qed

lemma queued_iff: "core_inv b \<Longrightarrow> queued qr b k = Some p \<Longrightarrow> queued qr b j = Some p' \<Longrightarrow> j = k \<longleftrightarrow> p' = p"
  using queued_facts(2) by (metis option.inject)

lemma heap_distinct:
  assumes "heap_inv b" and "p |\<in>| fmdom (bc_elems b)" and "q |\<in>| fmdom (bc_elems b)" and "ie_ID (elem_at b p) = ie_ID (elem_at b q)"
  shows "p = q"
proof -
  obtain e f where "fmlookup (bc_elems b) p = Some e" "fmlookup (bc_elems b) q = Some f" using assms(2,3) by (meson fmlookup_dom_iff)
  then show ?thesis using assms(1,4) unfolding heap_inv_def elem_at_def by (metis option.simps(5))
qed

lemma queued_inj:
  "core_inv b \<Longrightarrow> queued qr b (ie_ID (elem_at b q)) = Some p \<Longrightarrow> q |\<in>| fmdom (bc_elems b) \<Longrightarrow> p = q"
  using queued_facts(1,2) [of b qr _ p] heap_distinct [of b p q] by (simp add: core_inv_def)

lemma heap_put:
  assumes "heap_inv b" and "p |\<in>| fmdom (bc_elems b)" and "evolves (elem_at b p) e"
  shows "heap_inv (put_elem p e b)"
proof -
  obtain e0 where e0: "fmlookup (bc_elems b) p = Some e0" using assms(2) by (meson fmlookup_dom_iff)
  then have "ie_ID e = ie_ID e0" "ie_avail e \<le> max 0 (ie_ConcurrentNum e)" using assms(3) by (auto simp: evolves_def elem_at_def)
  then show ?thesis using assms(1) e0 unfolding heap_inv_def by (auto split: if_splits)
qed

lemma publish_sel [simp]:
  "bc_elems (publishInsThdEvent evs b) = bc_elems b" "bc_nextElem (publishInsThdEvent evs b) = bc_nextElem b"
  "bc_selfInstanceQueue (publishInsThdEvent evs b) = bc_selfInstanceQueue b"
  "bc_otherInstanceQueue (publishInsThdEvent evs b) = bc_otherInstanceQueue b" "bc_stopped (publishInsThdEvent evs b) = bc_stopped b"
  "bc_sessionManager (publishInsThdEvent evs b) = bc_sessionManager b" "bc_funcSpec (publishInsThdEvent evs b) = bc_funcSpec b"
  "bc_isFuncOwner (publishInsThdEvent evs b) = bc_isFuncOwner b"
  by (simp_all add: publishInsThdEvent_def)

lemma told_publish:
  assumes "\<not> bc_stopped b"
  shows "told_avail (publishInsThdEvent evs b) = told_avail b + sum_list (map pub_avail evs)"
    "told_total (publishInsThdEvent evs b) = told_total b + sum_list (map pub_total evs)"
  using assms by (simp_all add: publishInsThdEvent_def told_avail_def told_total_def)

text \<open>The effect of storing a queue and publishing, in terms of the old state.\<close>

lemma set_self_sel [simp]:
  "inner_queue SelfQueue (publishInsThdEvent evs (b\<lparr>bc_selfInstanceQueue := oq\<rparr>)) = oq_queue oq"
  "inner_queue OtherQueue (publishInsThdEvent evs (b\<lparr>bc_selfInstanceQueue := oq\<rparr>)) = inner_queue OtherQueue b"
  "elem_at (publishInsThdEvent evs (b\<lparr>bc_selfInstanceQueue := oq\<rparr>)) = elem_at b"
  "base_world (publishInsThdEvent evs (b\<lparr>bc_selfInstanceQueue := oq\<rparr>)) = base_world b"
  "queued OtherQueue (publishInsThdEvent evs (b\<lparr>bc_selfInstanceQueue := oq\<rparr>)) = queued OtherQueue b"
  "told_avail (b\<lparr>bc_selfInstanceQueue := oq\<rparr>) = told_avail b" "told_total (b\<lparr>bc_selfInstanceQueue := oq\<rparr>) = told_total b"
  "heap_inv (publishInsThdEvent evs (b\<lparr>bc_selfInstanceQueue := oq\<rparr>)) = heap_inv b"
  by (simp_all add: inner_queue_def elem_at_def base_world_def queued_def fun_eq_iff told_avail_def told_total_def heap_inv_def)

lemma set_other_sel [simp]:
  "inner_queue OtherQueue (b\<lparr>bc_otherInstanceQueue := q\<rparr>) = q" "inner_queue SelfQueue (b\<lparr>bc_otherInstanceQueue := q\<rparr>) = inner_queue SelfQueue b"
  "elem_at (b\<lparr>bc_otherInstanceQueue := q\<rparr>) = elem_at b" "base_world (b\<lparr>bc_otherInstanceQueue := q\<rparr>) = base_world b"
  "queued SelfQueue (b\<lparr>bc_otherInstanceQueue := q\<rparr>) = queued SelfQueue b" "heap_inv (b\<lparr>bc_otherInstanceQueue := q\<rparr>) = heap_inv b"
  "told_avail (b\<lparr>bc_otherInstanceQueue := q\<rparr>) = told_avail b" "told_total (b\<lparr>bc_otherInstanceQueue := q\<rparr>) = told_total b"
  "offered (b\<lparr>bc_otherInstanceQueue := q\<rparr>) = offered b" "capacity (b\<lparr>bc_otherInstanceQueue := q\<rparr>) = capacity b"
  by (simp_all add: inner_queue_def elem_at_def base_world_def queued_def fun_eq_iff heap_inv_def told_avail_def told_total_def
      offered_def capacity_def avail_part_def total_part_def)

text \<open>What the sums of an observed queue gain when one instance changes.\<close>

lemma sums_change:
  assumes "fmdom (bc_elems b') = fmdom (bc_elems b)" and "p |\<in>| fmdom (bc_elems b)"
    and "\<And>q. q \<noteq> p \<Longrightarrow> q |\<in>| fmdom (bc_elems b) \<Longrightarrow> avail_part b' q = avail_part b q \<and> total_part b' q = total_part b q"
  shows "offered b' = offered b + (avail_part b' p - avail_part b p)" "capacity b' = capacity b + (total_part b' p - total_part b p)"
  unfolding offered_def capacity_def assms(1) using assms(2,3) by (auto intro!: sum_single)

text \<open>What an update of the own queue leaves: the element changed, its shelf and its count adjusted, the difference published.\<close>

definition touch_events :: "int \<Rightarrow> instanceElement \<Rightarrow> instanceElement \<Rightarrow> pubEvent list" where
  "touch_events n e0 e =
     (if ie_Code e0 = statusRunning then handleHealthInstanceUpdateMetrics n e
      else if ie_Code e0 = statusSubHealth then handleSubHealthInstanceUpdateMetrics n e else [])"

definition touched_self :: "basicConcurrencyScheduler \<Rightarrow> string \<Rightarrow> nat \<Rightarrow> instanceElement \<Rightarrow> basicConcurrencyScheduler \<Rightarrow> bool" where
  "touched_self b k p e b' \<longleftrightarrow>
     (\<exists>oq n. fmlookup (oq_insAvailThdCount (bc_selfInstanceQueue b)) k = Some n \<and> sq_ok (base_world b) (oq_queue oq) \<and>
        (\<forall>j. sq_GetByID (base_world b) j (oq_queue oq) = queued SelfQueue b j) \<and>
        (\<forall>j. shelf (oq_queue oq) j = (if j = k then ie_Code e else shelf (inner_queue SelfQueue b) j)) \<and>
        oq_insAvailThdCount oq = fmupd k (ie_avail e) (oq_insAvailThdCount (bc_selfInstanceQueue b)) \<and>
        b' = publishInsThdEvent (touch_events n (elem_at b p) e) ((put_elem p e b)\<lparr>bc_selfInstanceQueue := oq\<rparr>))"

lemma update_inner:
  assumes inv: "core_inv b" and h: "queued qr b k = Some p" and ev: "evolves (elem_at b p) e"
  obtains q where "sq_UpdateObjByID (world env (put_elem p e b)) k p (inner_queue qr b) = (None, q)" "sq_ok (base_world b) q"
    "\<forall>j. sq_GetByID (base_world b) j q = queued qr b j"
    "\<forall>j. shelf q j = (if j = k then ie_Code e else shelf (inner_queue qr b) j)"
proof -
  let ?w = "world env (put_elem p e b)" and ?i = "inner_queue qr b"
  note hf = queued_facts [OF inv h]
  have id: "ie_ID e = ie_ID (elem_at b p)" and pl: "placed e" using ev hf(4) by (auto simp: evolves_def)
  have w: "getInstanceID ?w p = k" "elem ?w p = e" "sq_GetByID ?w = sq_GetByID (base_world b)" "sq_ok ?w i = sq_ok (base_world b) i" for i
    using hf(2) by (simp_all add: world_ids put_elem_ids [OF id] world_elem elem_put getInstanceID_def)
  obtain err q where q: "sq_UpdateObjByID ?w k p ?i = (err, q)" by fastforce
  have ok: "sq_ok ?w ?i" using hf(5) w(4) by simp
  have some: "sq_GetByID ?w k ?i = Some p" using h w(3) by (simp add: queued_def)
  note law = sq_update_law [OF ok w(1) q]
  have "err = None" using law(2) some pl w(2) by simp
  moreover have "\<forall>j. shelf q j = (if j = k then ie_Code e else shelf ?i j)" using shelf_update [OF ok _ _ q] some pl w(2) by auto
  moreover have "\<forall>j. sq_GetByID (base_world b) j q = queued qr b j" using law(3) some pl w(2,3) h by (auto simp: queued_def)
  ultimately show thesis using that q law(1) w(4) by blast
qed

lemma touch_self_queue:
  assumes inv: "core_inv b" and h: "queued SelfQueue b k = Some p" and ev: "evolves (elem_at b p) e"
    and u: "queue_UpdateObjByID env SelfQueue k p (put_elem p e b) = (err, b')"
  shows "err = None" "touched_self b k p e b'"
proof -
  let ?w = "world env (put_elem p e b)" and ?c = "oq_insAvailThdCount (bc_selfInstanceQueue b)"
  obtain q where q: "sq_UpdateObjByID ?w k p (inner_queue SelfQueue b) = (None, q)" "sq_ok (base_world b) q"
    "\<forall>j. sq_GetByID (base_world b) j q = queued SelfQueue b j"
    "\<forall>j. shelf q j = (if j = k then ie_Code e else shelf (inner_queue SelfQueue b) j)"
    using update_inner [OF inv h ev] by metis
  let ?oq = "(bc_selfInstanceQueue b)\<lparr>oq_queue := q, oq_insAvailThdCount := fmupd k (ie_avail e) ?c\<rparr>"
  obtain n where n: "fmlookup ?c k = Some n" using inv h unfolding core_inv_def observer_inv_def by blast
  have old: "oq_old_status k (bc_selfInstanceQueue b) = ie_Code (elem_at b p)"
    using queued_facts(3) [OF inv h] by (simp add: old_status_shelf inner_queue_def)
  have "oq_UpdateObjByID ?w k p (bc_selfInstanceQueue b) = (None, ?oq, touch_events n (elem_at b p) e)"
    using q(1) n old by (simp add: oq_UpdateObjByID_def inner_queue_def touch_events_def world_elem elem_put)
  then have r: "err = None" "b' = publishInsThdEvent (touch_events n (elem_at b p) e) ((put_elem p e b)\<lparr>bc_selfInstanceQueue := ?oq\<rparr>)"
    using u by (simp_all add: queue_UpdateObjByID_def)
  show "err = None" by (rule r)
  show "touched_self b k p e b'" unfolding touched_self_def using q n r(2) by (intro exI [of _ ?oq] exI [of _ n]) simp
qed

lemma other_queue_put:
  assumes inv: "core_inv b" and ev: "evolves (elem_at b p) e" and both: "both_inv b" and h: "queued qr b k = Some p"
    and d: "qr' \<noteq> qr" "queued qr' b j = Some q"
  shows "shelf (inner_queue qr' b) j = ie_Code (if q = p then e else elem_at b q)"
proof -
  note hf = queued_facts [OF inv h] and hf' = queued_facts [OF inv d(2)]
  show ?thesis
  proof (cases "q = p")
    case True
    then have "j = k" using hf(2) hf'(2) by simp
    then have "ie_Code (elem_at b p) = statusEvicting" using both h d True unfolding both_inv_def by (cases qr; cases qr') auto
    then show ?thesis using hf'(3) True ev by (auto simp: evolves_def)
  next
    case False
    then show ?thesis using hf'(3) by simp
  qed
qed

lemma touched_self_frame:
  assumes inv: "core_inv b" and h: "queued SelfQueue b k = Some p" and ev: "evolves (elem_at b p) e" and t: "touched_self b k p e b'"
  shows "queued qr b' = queued qr b" "elem_at b' = (elem_at b)(p := e)" "fmdom (bc_elems b') = fmdom (bc_elems b)"
    "bc_sessionManager b' = bc_sessionManager b" "heap_inv b'"
proof -
  note hf = queued_facts [OF inv h]
  have id: "ie_ID e = ie_ID (elem_at b p)" using ev by (simp add: evolves_def)
  obtain q oq evs where q: "\<forall>j. sq_GetByID (base_world b) j q = queued SelfQueue b j" "oq_queue oq = q"
    and b': "b' = publishInsThdEvent evs ((put_elem p e b)\<lparr>bc_selfInstanceQueue := oq\<rparr>)"
    using t unfolding touched_self_def by blast
  show "fmdom (bc_elems b') = fmdom (bc_elems b)" using hf(1) by (simp add: b' finsert_absorb)
  show "elem_at b' = (elem_at b)(p := e)" by (simp add: b' elem_put fun_eq_iff)
  show "bc_sessionManager b' = bc_sessionManager b" by (simp add: b')
  have "queued SelfQueue b' = queued SelfQueue b" using q by (simp add: queued_def fun_eq_iff put_elem_ids [OF id] b')
  moreover have "queued OtherQueue b' = queued OtherQueue b" by (simp add: b' put_elem_ids [OF id])
  ultimately show "queued qr b' = queued qr b" by (cases qr) simp_all
  have "heap_inv (put_elem p e b)" using inv heap_put hf(1) ev unfolding core_inv_def by blast
  then show "heap_inv b'" by (simp add: b')
qed

lemma touched_self_queues:
  assumes inv: "core_inv b" and both: "both_inv b" and h: "queued SelfQueue b k = Some p" and ev: "evolves (elem_at b p) e"
    and t: "touched_self b k p e b'"
  shows "queue_inv qr b'"
proof -
  note fr = touched_self_frame [OF inv h ev t] and hf = queued_facts [OF inv h]
  have id: "ie_ID e = ie_ID (elem_at b p)" using ev by (simp add: evolves_def)
  obtain q oq evs where q: "sq_ok (base_world b) q" "\<forall>j. shelf q j = (if j = k then ie_Code e else shelf (inner_queue SelfQueue b) j)"
      "oq_queue oq = q" and b': "b' = publishInsThdEvent evs ((put_elem p e b)\<lparr>bc_selfInstanceQueue := oq\<rparr>)"
    using t unfolding touched_self_def by blast
  have ok: "sq_ok (base_world b') (inner_queue qr b')"
    using q inv by (cases qr) (simp_all add: b' put_elem_ids [OF id] core_inv_def queue_inv_def)
  have "shelf (inner_queue qr b') j = ie_Code (elem_at b' p')" if "queued qr b j = Some p'" for j p'
  proof (cases qr)
    case SelfQueue
    note hj = queued_facts [OF inv that]
    have "j = k \<longleftrightarrow> p' = p" using queued_iff [OF inv h] that SelfQueue by simp
    moreover have "inner_queue qr b' = q" using q(3) SelfQueue by (simp add: b')
    ultimately show ?thesis using hj(3) q(2) SelfQueue unfolding fr(2) by simp
  next
    case OtherQueue
    then have "inner_queue qr b' = inner_queue qr b" by (simp add: b')
    then show ?thesis using other_queue_put [OF inv ev both h _ that] OtherQueue unfolding fr(2) by simp
  qed
  then show ?thesis using ok queued_facts(1) [OF inv] by (auto simp: queue_inv_def fr(1,3))
qed

lemma touch_events_sums:
  assumes "evolves e0 e" and "placed e" and "placed e0" and "ie_Code e0 \<noteq> statusEvicting \<Longrightarrow> n = ie_avail e0"
  shows "sum_list (map pub_avail (touch_events n e0 e)) =
      (if ie_Code e = statusRunning then ie_avail e else 0) - (if ie_Code e0 = statusRunning then ie_avail e0 else 0)"
    "sum_list (map pub_total (touch_events n e0 e)) =
      (if ie_Code e \<noteq> statusEvicting then ie_ConcurrentNum e else 0) - (if ie_Code e0 \<noteq> statusEvicting then ie_ConcurrentNum e0 else 0)"
  using assms by (auto simp: touch_events_def handleHealthInstanceUpdateMetrics_def handleSubHealthInstanceUpdateMetrics_def evolves_def Let_def)

lemma touched_self_observer:
  assumes inv: "core_inv b" and h: "queued SelfQueue b k = Some p" and ev: "evolves (elem_at b p) e" and t: "touched_self b k p e b'"
  shows "observer_inv b'"
proof -
  note fr = touched_self_frame [OF inv h ev t] and hf = queued_facts [OF inv h]
  have on: "observer_inv b" using inv by (simp add: core_inv_def)
  have id: "ie_ID e = ie_ID (elem_at b p)" and pl: "placed e" using ev hf(4) by (auto simp: evolves_def)
  obtain n oq where n: "fmlookup (oq_insAvailThdCount (bc_selfInstanceQueue b)) k = Some n"
      "oq_insAvailThdCount oq = fmupd k (ie_avail e) (oq_insAvailThdCount (bc_selfInstanceQueue b))"
    and b': "b' = publishInsThdEvent (touch_events n (elem_at b p) e) ((put_elem p e b)\<lparr>bc_selfInstanceQueue := oq\<rparr>)"
    using t unfolding touched_self_def by blast
  have nn: "n = ie_avail (elem_at b p)" if "ie_Code (elem_at b p) \<noteq> statusEvicting"
    using on h n(1) that unfolding observer_inv_def by fastforce
  note ts = touch_events_sums [OF ev pl hf(4) nn]
  have parts: "avail_part b' q = avail_part b q \<and> total_part b' q = total_part b q" if "q \<noteq> p" for q
    using that by (simp add: avail_part_def total_part_def fr(1,2))
  have at: "avail_part b' p = (if ie_Code e = statusRunning then ie_avail e else 0)"
    "avail_part b p = (if ie_Code (elem_at b p) = statusRunning then ie_avail (elem_at b p) else 0)"
    "total_part b' p = (if ie_Code e \<noteq> statusEvicting then ie_ConcurrentNum e else 0)"
    "total_part b p = (if ie_Code (elem_at b p) \<noteq> statusEvicting then ie_ConcurrentNum (elem_at b p) else 0)"
    using h hf(2) id by (simp_all add: avail_part_def total_part_def fr(1,2))
  note sums = sums_change [OF fr(3) hf(1) parts]
  have "told_avail b' = offered b' \<and> told_total b' = capacity b'" if "\<not> bc_stopped b'"
  proof -
    have st: "\<not> bc_stopped b" using that by (simp add: b')
    then have "told_avail b' = told_avail b + sum_list (map pub_avail (touch_events n (elem_at b p) e))"
      "told_total b' = told_total b + sum_list (map pub_total (touch_events n (elem_at b p) e))"
      by (simp_all add: b' told_publish) (simp_all add: told_avail_def told_total_def)
    moreover have "told_avail b = offered b" "told_total b = capacity b" using on st by (simp_all add: observer_inv_def)
    ultimately show ?thesis using sums at ts by presburger
  qed
  moreover have "\<exists>m. fmlookup (oq_insAvailThdCount oq) j = Some m \<and>
             (ie_Code (elem_at b' p') \<noteq> statusEvicting \<longrightarrow> m = ie_avail (elem_at b' p'))" if "queued SelfQueue b j = Some p'" for j p'
  proof -
    have "j = k \<longleftrightarrow> p' = p" by (rule queued_iff [OF inv h that])
    then show ?thesis using on that n(2) unfolding observer_inv_def fr(2) by (cases "p' = p") simp_all
  qed
  ultimately show ?thesis by (simp add: observer_inv_def fr(1)) (simp add: b')
qed

lemma touch_self:
  assumes "core_inv b" and "both_inv b" and "queued SelfQueue b k = Some p" and "evolves (elem_at b p) e"
    and "queue_UpdateObjByID env SelfQueue k p (put_elem p e b) = (err, b')"
  shows "err = None" "core_inv b'" "queued qr b' = queued qr b" "elem_at b' = (elem_at b)(p := e)"
    "bc_sessionManager b' = bc_sessionManager b" "fmdom (bc_elems b') = fmdom (bc_elems b)"
  using touch_self_queue [OF assms(1,3-5)] touched_self_frame [OF assms(1,3,4)] touched_self_queues [OF assms(1-4)]
    touched_self_observer [OF assms(1,3,4)] by (simp_all add: core_inv_def)

lemma touch_other:
  assumes inv: "core_inv b" and both: "both_inv b" and h: "queued OtherQueue b k = Some p" and ev: "evolves (elem_at b p) e"
    and u: "queue_UpdateObjByID env OtherQueue k p (put_elem p e b) = (err, b')"
  shows "err = None" "core_inv b'" "queued qr b' = queued qr b" "elem_at b' = (elem_at b)(p := e)"
    "bc_sessionManager b' = bc_sessionManager b" "fmdom (bc_elems b') = fmdom (bc_elems b)"
proof -
  obtain q where err: "err = None" and b': "b' = (put_elem p e b)\<lparr>bc_otherInstanceQueue := q\<rparr>" and ok: "sq_ok (base_world b) q"
    and g: "\<forall>j. sq_GetByID (base_world b) j q = queued OtherQueue b j"
    and sh: "\<forall>j. shelf q j = (if j = k then ie_Code e else shelf (inner_queue OtherQueue b) j)"
  proof -
    obtain q where q: "sq_UpdateObjByID (world env (put_elem p e b)) k p (inner_queue OtherQueue b) = (None, q)" "sq_ok (base_world b) q"
      "\<forall>j. sq_GetByID (base_world b) j q = queued OtherQueue b j"
      "\<forall>j. shelf q j = (if j = k then ie_Code e else shelf (inner_queue OtherQueue b) j)"
      using update_inner [OF inv h ev] by metis
    have "err = None" "b' = (put_elem p e b)\<lparr>bc_otherInstanceQueue := q\<rparr>"
      using u q(1) by (auto simp: queue_UpdateObjByID_def inner_queue_def)
    then show thesis using that q by blast
  qed
  note hf = queued_facts [OF inv h]
  have id: "ie_ID e = ie_ID (elem_at b p)" using ev by (simp add: evolves_def)
  show "err = None" by (rule err)
  show el: "elem_at b' = (elem_at b)(p := e)" by (simp add: b' elem_put fun_eq_iff)
  show "bc_sessionManager b' = bc_sessionManager b" by (simp add: b')
  show dom: "fmdom (bc_elems b') = fmdom (bc_elems b)" using hf(1) by (simp add: b' finsert_absorb)
  have "queued OtherQueue b' = queued OtherQueue b" using g by (simp add: queued_def fun_eq_iff b' put_elem_ids [OF id])
  moreover have "queued SelfQueue b' = queued SelfQueue b" by (simp add: b' put_elem_ids [OF id])
  ultimately show hq: "queued qr b' = queued qr b" for qr by (cases qr) simp_all
  have "queue_inv qr b'" for qr
  proof -
    have "sq_ok (base_world b') (inner_queue qr b')"
      using ok inv by (cases qr) (simp_all add: b' put_elem_ids [OF id] core_inv_def queue_inv_def)
    moreover have "shelf (inner_queue qr b') j = ie_Code (elem_at b' p')" if "queued qr b j = Some p'" for j p'
    proof (cases qr)
      case OtherQueue
      have "j = k \<longleftrightarrow> p' = p" using queued_iff [OF inv h] that OtherQueue by simp
      moreover have "inner_queue qr b' = q" using OtherQueue by (simp add: b')
      ultimately show ?thesis using queued_facts(3) [OF inv that] sh OtherQueue unfolding el by simp
    next
      case SelfQueue
      then have "inner_queue qr b' = inner_queue qr b" by (simp add: b')
      then show ?thesis using other_queue_put [OF inv ev both h _ that] SelfQueue unfolding el by simp
    qed
    ultimately show ?thesis using queued_facts(1) [OF inv] by (auto simp: queue_inv_def hq dom)
  qed
  moreover have "observer_inv b'"
  proof -
    have evict: "ie_Code (elem_at b p) = statusEvicting \<and> ie_Code e = statusEvicting" if "queued SelfQueue b j = Some p" for j
    proof -
      have "j = k" using queued_facts(2) [OF inv that] hf(2) by simp
      then show ?thesis using both h that ev by (auto simp: both_inv_def evolves_def)
    qed
    then have "avail_part b' x = avail_part b x \<and> total_part b' x = total_part b x" for x
      using id evict [of "ie_ID (elem_at b p)"]
      by (cases "queued SelfQueue b (ie_ID (elem_at b p)) = Some p") (auto simp: avail_part_def total_part_def hq el Let_def)
    then have "offered b' = offered b" "capacity b' = capacity b" by (simp_all add: offered_def capacity_def dom)
    moreover have "told_avail b' = told_avail b" "told_total b' = told_total b" "bc_stopped b' = bc_stopped b"
      "bc_selfInstanceQueue b' = bc_selfInstanceQueue b" by (simp_all add: b') (simp_all add: told_avail_def told_total_def)
    ultimately show ?thesis using inv evict unfolding core_inv_def observer_inv_def hq el by (metis fun_upd_apply)
  qed
  moreover have "heap_inv b'" using inv heap_put [OF _ hf(1) ev] by (simp add: b' core_inv_def)
  ultimately show "core_inv b'" by (simp add: core_inv_def)
qed

lemma touch:
  assumes "core_inv b" and "both_inv b" and "queued qr b k = Some p" and "evolves (elem_at b p) e"
    and "queue_UpdateObjByID env qr k p (put_elem p e b) = (err, b')"
  shows "err = None" "core_inv b'" "both_inv b'" "queued qr' b' = queued qr' b" "elem_at b' = (elem_at b)(p := e)"
    "bc_sessionManager b' = bc_sessionManager b" "fmdom (bc_elems b') = fmdom (bc_elems b)"
proof -
  have "err = None \<and> core_inv b' \<and> (\<forall>qr'. queued qr' b' = queued qr' b) \<and> elem_at b' = (elem_at b)(p := e) \<and>
      bc_sessionManager b' = bc_sessionManager b \<and> fmdom (bc_elems b') = fmdom (bc_elems b)"
    using touch_self [OF assms(1,2) _ assms(4)] touch_other [OF assms(1,2) _ assms(4)] assms(3,5) by (cases qr) metis+
  then show "err = None" "core_inv b'" and q: "queued qr' b' = queued qr' b" and e: "elem_at b' = (elem_at b)(p := e)"
    and "bc_sessionManager b' = bc_sessionManager b" "fmdom (bc_elems b') = fmdom (bc_elems b)" for qr' by simp_all
  have "ie_Code e = statusEvicting" if "ie_Code (elem_at b p) = statusEvicting" using assms(4) that by (auto simp: evolves_def)
  then show "both_inv b'" using assms(2) by (auto simp: both_inv_def q e)
qed

section \<open>Putting instances in and taking them out\<close>

text \<open>A state whose own queue differs in one key only, with what was published for it.\<close>

lemma core_self_change:
  assumes inv: "core_inv b" and ok: "sq_ok (base_world b) (oq_queue oq)" and d: "p |\<in>| fmdom (bc_elems b)" and k: "k = ie_ID (elem_at b p)"
    and b': "b' = publishInsThdEvent evs (b\<lparr>bc_selfInstanceQueue := oq\<rparr>)"
    and other: "\<And>j. j \<noteq> k \<Longrightarrow> sq_GetByID (base_world b) j (oq_queue oq) = queued SelfQueue b j \<and>
        shelf (oq_queue oq) j = shelf (inner_queue SelfQueue b) j \<and>
        fmlookup (oq_insAvailThdCount oq) j = fmlookup (oq_insAvailThdCount (bc_selfInstanceQueue b)) j"
    and at: "sq_GetByID (base_world b) k (oq_queue oq) = None \<or>
        sq_GetByID (base_world b) k (oq_queue oq) = Some p \<and> shelf (oq_queue oq) k = ie_Code (elem_at b p) \<and>
        fmlookup (oq_insAvailThdCount oq) k = Some (ie_avail (elem_at b p))"
    and ev: "sum_list (map pub_avail evs) = avail_part b' p - avail_part b p" "sum_list (map pub_total evs) = total_part b' p - total_part b p"
  shows "core_inv b'"
proof -
  have hs: "queued SelfQueue b' j = sq_GetByID (base_world b) j (oq_queue oq)" for j by (simp add: queued_def b')
  have el: "elem_at b' = elem_at b" and inn: "inner_queue SelfQueue b' = oq_queue oq" by (simp_all add: b')
  have dom: "fmdom (bc_elems b') = fmdom (bc_elems b)" by (simp add: b')
  have qo: "queue_inv OtherQueue b'" using inv by (simp add: core_inv_def queue_inv_def b')
  have here: "queued SelfQueue b' j = Some q \<Longrightarrow> (j = k \<and> q = p) \<or> (j \<noteq> k \<and> queued SelfQueue b j = Some q)" for j q
    using at other [of j] by (cases "j = k") (auto simp: hs)
  have qs: "queue_inv SelfQueue b'"
  proof -
    have "q |\<in>| fmdom (bc_elems b) \<and> shelf (oq_queue oq) j = ie_Code (elem_at b q)" if "queued SelfQueue b' j = Some q" for j q
    proof (cases "j = k")
      case True
      then show ?thesis using at d that unfolding hs by fastforce
    next
      case False
      then have "queued SelfQueue b j = Some q" using here [OF that] by simp
      then show ?thesis using queued_facts(1,3) [OF inv] other [OF False] by simp
    qed
    then show ?thesis using ok by (simp add: queue_inv_def el inn dom) (simp add: b')
  qed
  have parts: "avail_part b' q = avail_part b q \<and> total_part b' q = total_part b q" if "q \<noteq> p" "q |\<in>| fmdom (bc_elems b)" for q
  proof -
    have "ie_ID (elem_at b q) \<noteq> k"
      using heap_distinct [of b q p] inv that d by (auto simp: core_inv_def k)
    then show ?thesis using other by (simp add: avail_part_def total_part_def el hs)
  qed
  note sums = sums_change [OF dom d parts]
  have on: "observer_inv b" using inv by (simp add: core_inv_def)
  have "\<exists>n. fmlookup (oq_insAvailThdCount oq) j = Some n \<and> (ie_Code (elem_at b q) \<noteq> statusEvicting \<longrightarrow> n = ie_avail (elem_at b q))"
    if "queued SelfQueue b' j = Some q" for j q
    using here [OF that]
  proof (elim disjE conjE)
    assume "j \<noteq> k" "queued SelfQueue b j = Some q"
    then show ?thesis using on other [of j] unfolding observer_inv_def by simp
  qed (use at that in \<open>auto simp: hs\<close>)
  moreover have "told_avail b' = offered b' \<and> told_total b' = capacity b'" if "\<not> bc_stopped b'"
    using on that ev sums by (simp add: b' told_publish observer_inv_def)
  ultimately have "observer_inv b'" by (simp add: observer_inv_def el) (simp add: b')
  moreover have "heap_inv b'" using inv by (simp add: core_inv_def b')
  ultimately show ?thesis using qs qo by (simp add: core_inv_def)
qed

lemma core_other_change:
  assumes inv: "core_inv b" and ok: "sq_ok (base_world b) q" and d: "p |\<in>| fmdom (bc_elems b)"
    and other: "\<And>j. j \<noteq> k \<Longrightarrow> sq_GetByID (base_world b) j q = queued OtherQueue b j \<and> shelf q j = shelf (inner_queue OtherQueue b) j"
    and at: "sq_GetByID (base_world b) k q = None \<or> sq_GetByID (base_world b) k q = Some p \<and> shelf q k = ie_Code (elem_at b p)"
  shows "core_inv (b\<lparr>bc_otherInstanceQueue := q\<rparr>)"
proof -
  let ?b = "b\<lparr>bc_otherInstanceQueue := q\<rparr>"
  have ho: "queued OtherQueue ?b j = sq_GetByID (base_world b) j q" for j by (simp add: queued_def)
  have "p' |\<in>| fmdom (bc_elems b) \<and> shelf q j = ie_Code (elem_at b p')" if "queued OtherQueue ?b j = Some p'" for j p'
    using that at d other [of j] queued_facts(1,3) [OF inv, of OtherQueue j p'] by (cases "j = k") (auto simp: ho)
  then have "queue_inv OtherQueue ?b" using ok by (simp add: queue_inv_def)
  moreover have "queue_inv SelfQueue ?b" "observer_inv ?b" "heap_inv ?b" using inv by (simp_all add: core_inv_def queue_inv_def observer_inv_def)
  ultimately show ?thesis by (simp add: core_inv_def)
qed

lemma publish_nothing: "publishInsThdEvent [] b = b"
  by (simp add: publishInsThdEvent_def)

lemma parts_when:
  assumes "p |\<in>| fmdom (bc_elems b)"
  shows "avail_part b p = (if queued SelfQueue b (ie_ID (elem_at b p)) = Some p \<and> ie_Code (elem_at b p) = statusRunning then ie_avail (elem_at b p) else 0)"
    "total_part b p = (if queued SelfQueue b (ie_ID (elem_at b p)) = Some p \<and> ie_Code (elem_at b p) \<noteq> statusEvicting then ie_ConcurrentNum (elem_at b p) else 0)"
  by (simp_all add: avail_part_def total_part_def Let_def)

lemma push_inner:
  assumes inv: "core_inv b" and q: "sq_PushBack (world env b) p (inner_queue qr b) = (err, q)" and k: "k = ie_ID (elem_at b p)"
  shows "sq_ok (base_world b) q" "err = None \<longleftrightarrow> queued qr b k = None \<and> placed (elem_at b p)"
    "sq_GetByID (base_world b) j q = (if err = None \<and> j = k then Some p else queued qr b j)"
    "err = None \<Longrightarrow> shelf q j = (if j = k then ie_Code (elem_at b p) else shelf (inner_queue qr b) j)"
    "err \<noteq> None \<Longrightarrow> q = inner_queue qr b"
proof -
  let ?w = "world env b"
  have gid: "getInstanceID ?w p = k" by (simp add: getInstanceID_def world_elem k)
  have iok: "sq_ok ?w (inner_queue qr b)" using inv by (cases qr) (simp_all add: core_inv_def queue_inv_def world_ids)
  note law = sq_push_law [OF iok q, unfolded gid world_elem]
  show "sq_ok (base_world b) q" using law(1) by (simp add: world_ids)
  show e: "err = None \<longleftrightarrow> queued qr b k = None \<and> placed (elem_at b p)" using law(2) by (simp add: world_ids queued_def)
  show "sq_GetByID (base_world b) j q = (if err = None \<and> j = k then Some p else queued qr b j)"
    using law(3) [of j] by (simp add: world_ids queued_def)
  show "err = None \<Longrightarrow> shelf q j = (if j = k then ie_Code (elem_at b p) else shelf (inner_queue qr b) j)"
    using shelf_push q gid world_elem(1) by metis
  show "err \<noteq> None \<Longrightarrow> q = inner_queue qr b"
    using q law(2) by (auto simp: sq_PushBack_def sq_exists_get sq_place_refused gid world_elem split: if_splits)
qed

lemma push_self:
  assumes inv: "core_inv b" and d: "p |\<in>| fmdom (bc_elems b)" and u: "queue_PushBack env SelfQueue p b = (err, b')"
    and k: "k = ie_ID (elem_at b p)"
  shows "core_inv b' \<and> (err = None \<longleftrightarrow> queued SelfQueue b k = None \<and> placed (elem_at b p)) \<and>
    queued SelfQueue b' = (if err = None then (queued SelfQueue b)(k \<mapsto> p) else queued SelfQueue b) \<and>
    queued OtherQueue b' = queued OtherQueue b \<and> elem_at b' = elem_at b \<and> bc_elems b' = bc_elems b \<and> bc_sessionManager b' = bc_sessionManager b"
proof -
  let ?e = "elem_at b p" and ?s = "bc_selfInstanceQueue b"
  obtain err0 q where q: "sq_PushBack (world env b) p (inner_queue SelfQueue b) = (err0, q)" by fastforce
  have q': "sq_PushBack (world env b) p (oq_queue ?s) = (err0, q)" using q by (simp add: inner_queue_def)
  note law = push_inner [OF inv q k]
  show ?thesis
  proof (cases "err0 = None")
    case False
    then have "b' = b" "err = err0"
      using u q' law(5) by (auto simp: queue_PushBack_def oq_PushBack_def publish_nothing inner_queue_def)
    then show ?thesis using inv law(2) False by auto
  next
    case True
    then have new: "queued SelfQueue b k = None" and pl: "placed ?e" using law(2) by auto
    define evs where "evs = (if ie_Code ?e = statusRunning then [PubAvail (ie_avail ?e), PubTotal (ie_ConcurrentNum ?e)]
              else if ie_Code ?e = statusSubHealth then [PubTotal (ie_ConcurrentNum ?e)] else [])"
    let ?oq = "?s\<lparr>oq_queue := q, oq_insAvailThdCount := fmupd k (ie_avail ?e) (oq_insAvailThdCount ?s)\<rparr>"
    have r: "err = None" "b' = publishInsThdEvent evs (b\<lparr>bc_selfInstanceQueue := ?oq\<rparr>)"
      using u q' True by (auto simp: queue_PushBack_def oq_PushBack_def world_elem Let_def k evs_def)
    have hs: "queued SelfQueue b' = (queued SelfQueue b)(k \<mapsto> p)" using law(3) True by (simp add: r(2) queued_def fun_eq_iff)
    have "core_inv b'"
    proof (rule core_self_change [OF inv _ d k r(2)], goal_cases)
      case 1 then show ?case using law(1) by simp
    next
      case (2 j) then show ?case using law(3,4) True by simp
    next
      case 3 then show ?case using law(3,4) True by simp
    qed (use pl new hs d in \<open>auto simp: parts_when k [symmetric] r(2) evs_def\<close>)
    then show ?thesis using r hs new pl by simp
  qed
qed

lemma push_other:
  assumes inv: "core_inv b" and d: "p |\<in>| fmdom (bc_elems b)" and u: "queue_PushBack env OtherQueue p b = (err, b')"
    and k: "k = ie_ID (elem_at b p)"
  shows "core_inv b' \<and> (err = None \<longleftrightarrow> queued OtherQueue b k = None \<and> placed (elem_at b p)) \<and>
    queued OtherQueue b' = (if err = None then (queued OtherQueue b)(k \<mapsto> p) else queued OtherQueue b) \<and>
    queued SelfQueue b' = queued SelfQueue b \<and> elem_at b' = elem_at b \<and> bc_elems b' = bc_elems b \<and> bc_sessionManager b' = bc_sessionManager b"
proof -
  obtain q where q: "sq_PushBack (world env b) p (inner_queue OtherQueue b) = (err, q)" and b': "b' = b\<lparr>bc_otherInstanceQueue := q\<rparr>"
    using u by (auto simp: queue_PushBack_def inner_queue_def split: prod.splits)
  note law = push_inner [OF inv q k]
  have "core_inv b'" unfolding b'
  proof (cases "err = None")
    case True
    show "core_inv (b\<lparr>bc_otherInstanceQueue := q\<rparr>)" by (rule core_other_change [OF inv law(1) d, of k]) (use law(3,4) True in simp_all)
  next
    case False
    then have "b\<lparr>bc_otherInstanceQueue := q\<rparr> = b" using law(5) by (simp add: inner_queue_def)
    then show "core_inv (b\<lparr>bc_otherInstanceQueue := q\<rparr>)" using inv by simp
  qed
  then show ?thesis using law(2,3) by (auto simp: b' queued_def fun_eq_iff)
qed

lemma other_ref: "(\<forall>q. q \<noteq> SelfQueue \<longrightarrow> P q) \<longleftrightarrow> P OtherQueue" "(\<forall>q. q \<noteq> OtherQueue \<longrightarrow> P q) \<longleftrightarrow> P SelfQueue"
  by (metis queueRef.exhaust queueRef.distinct)+

lemma push:
  assumes inv: "core_inv b" and d: "p |\<in>| fmdom (bc_elems b)" and u: "queue_PushBack env qr p b = (err, b')"
    and k: "k = ie_ID (elem_at b p)"
  shows "core_inv b'" "err = None \<longleftrightarrow> queued qr b k = None \<and> placed (elem_at b p)"
    "queued qr b' = (if err = None then (queued qr b)(k \<mapsto> p) else queued qr b)" "qr' \<noteq> qr \<Longrightarrow> queued qr' b' = queued qr' b"
    "elem_at b' = elem_at b" "bc_elems b' = bc_elems b" "bc_sessionManager b' = bc_sessionManager b"
proof -
  have "core_inv b' \<and> (err = None \<longleftrightarrow> queued qr b k = None \<and> placed (elem_at b p)) \<and>
    queued qr b' = (if err = None then (queued qr b)(k \<mapsto> p) else queued qr b) \<and> (\<forall>qr'. qr' \<noteq> qr \<longrightarrow> queued qr' b' = queued qr' b) \<and>
    elem_at b' = elem_at b \<and> bc_elems b' = bc_elems b \<and> bc_sessionManager b' = bc_sessionManager b"
  proof (cases qr)
    case SelfQueue
    show ?thesis unfolding SelfQueue other_ref using push_self [OF inv d u [unfolded SelfQueue] k] by blast
  next
    case OtherQueue
    show ?thesis unfolding OtherQueue other_ref using push_other [OF inv d u [unfolded OtherQueue] k] by blast
  qed
  then show "core_inv b'" "err = None \<longleftrightarrow> queued qr b k = None \<and> placed (elem_at b p)"
    "queued qr b' = (if err = None then (queued qr b)(k \<mapsto> p) else queued qr b)" "qr' \<noteq> qr \<Longrightarrow> queued qr' b' = queued qr' b"
    "elem_at b' = elem_at b" "bc_elems b' = bc_elems b" "bc_sessionManager b' = bc_sessionManager b" by blast+
qed

text \<open>Taking the instance with the pointer \<open>p\<close> out of the own queue and telling the observers what went away.\<close>

definition gone_events :: "instanceElement \<Rightarrow> pubEvent list" where
  "gone_events e = (if ie_Code e = statusRunning then pub_gone e
     else if ie_Code e = statusSubHealth then [PubInUse (- (ie_ConcurrentNum e - ie_avail e)), PubTotal (- ie_ConcurrentNum e)] else [])"

lemma gone_self:
  assumes inv: "core_inv b" and h: "queued SelfQueue b k = Some p" and ok: "sq_ok (base_world b) (oq_queue oq)"
    and g: "\<And>j. sq_GetByID (base_world b) j (oq_queue oq) = (if j = k then None else queued SelfQueue b j)"
    and sh: "\<And>j. j \<noteq> k \<Longrightarrow> shelf (oq_queue oq) j = shelf (inner_queue SelfQueue b) j"
    and c: "\<And>j. j \<noteq> k \<Longrightarrow> fmlookup (oq_insAvailThdCount oq) j = fmlookup (oq_insAvailThdCount (bc_selfInstanceQueue b)) j"
    and b': "b' = publishInsThdEvent (gone_events (elem_at b p)) (b\<lparr>bc_selfInstanceQueue := oq\<rparr>)"
  shows "core_inv b'" "queued SelfQueue b' = (queued SelfQueue b)(k := None)"
proof -
  note hf = queued_facts [OF inv h]
  show hs: "queued SelfQueue b' = (queued SelfQueue b)(k := None)" using g by (simp add: b' queued_def fun_eq_iff)
  have el: "elem_at b' = elem_at b" by (simp add: b')
  have "avail_part b' p = 0" "total_part b' p = 0" by (simp_all add: avail_part_def total_part_def el hf(2) hs)
  moreover have "avail_part b p = (if ie_Code (elem_at b p) = statusRunning then ie_avail (elem_at b p) else 0)"
    "total_part b p = (if ie_Code (elem_at b p) \<noteq> statusEvicting then ie_ConcurrentNum (elem_at b p) else 0)"
    by (simp_all add: avail_part_def total_part_def hf(2) h)
  ultimately have ev: "sum_list (map pub_avail (gone_events (elem_at b p))) = avail_part b' p - avail_part b p"
    "sum_list (map pub_total (gone_events (elem_at b p))) = total_part b' p - total_part b p"
    using hf(4) by (auto simp: gone_events_def pub_gone_def)
  show "core_inv b'" by (rule core_self_change [OF inv ok hf(1) hf(2) [symmetric] b' _ _ ev]) (use g sh c in simp_all)
qed

lemma del_self:
  assumes inv: "core_inv b" and u: "queue_DelByID env SelfQueue k b = (err, b')"
  shows "core_inv b' \<and> queued SelfQueue b' = (queued SelfQueue b)(k := None) \<and> queued OtherQueue b' = queued OtherQueue b \<and>
    elem_at b' = elem_at b \<and> bc_elems b' = bc_elems b \<and> bc_sessionManager b' = bc_sessionManager b"
proof (cases "queued SelfQueue b k")
  case None
  then have "fmlookup (sq_evictingRecord (oq_queue (bc_selfInstanceQueue b))) k = None"
    by (auto simp: queued_def inner_queue_def sq_GetByID_def split: option.splits)
  then have "b' = b" using u None
    by (auto simp: queue_DelByID_def oq_DelByID_def queued_def inner_queue_def world_ids publish_nothing)
  then show ?thesis using inv None by (auto simp: fun_upd_idem)
next
  case (Some p)
  note hf = queued_facts [OF inv Some]
  let ?s = "bc_selfInstanceQueue b" and ?i = "oq_queue (bc_selfInstanceQueue b)"
  have ok: "sq_ok (base_world b) ?i" using hf(5) by (simp add: inner_queue_def)
  obtain oq where b': "b' = publishInsThdEvent (gone_events (elem_at b p)) (b\<lparr>bc_selfInstanceQueue := oq\<rparr>)"
    and oq: "sq_ok (base_world b) (oq_queue oq)" "\<And>j. sq_GetByID (base_world b) j (oq_queue oq) = (if j = k then None else queued SelfQueue b j)"
      "\<And>j. j \<noteq> k \<Longrightarrow> shelf (oq_queue oq) j = shelf ?i j"
      "\<And>j. j \<noteq> k \<Longrightarrow> fmlookup (oq_insAvailThdCount oq) j = fmlookup (oq_insAvailThdCount ?s) j"
  proof (cases "fmlookup (sq_evictingRecord ?i) k")
    case (Some p')
    let ?oq = "?s\<lparr>oq_queue := ?i\<lparr>sq_evictingRecord := fmdrop k (sq_evictingRecord ?i)\<rparr>\<rparr>"
    have n: "fmlookup (sq_subHealthRecord ?i) k = None" "iq_GetByID (base_world b) k (sq_instanceQueue ?i) = None"
      using ok Some unfolding sq_ok_def by (metis not_None_eq)+
    have "ie_Code (elem_at b p) = statusEvicting" using hf(3) Some by (simp add: shelf_def inner_queue_def)
    then have "b' = publishInsThdEvent (gone_events (elem_at b p)) (b\<lparr>bc_selfInstanceQueue := ?oq\<rparr>)"
      using u Some by (auto simp: queue_DelByID_def oq_DelByID_def gone_events_def)
    moreover have "sq_ok (base_world b) (oq_queue ?oq)" using ok by (auto simp: sq_ok_def)
    moreover have "sq_GetByID (base_world b) j (oq_queue ?oq) = (if j = k then None else queued SelfQueue b j)" for j
      using n by (auto simp: sq_GetByID_def queued_def inner_queue_def split: option.split)
    ultimately show thesis by (intro that [of ?oq]) (simp_all add: shelf_def)
  next
    case None
    obtain err0 q where q: "sq_DelByID (base_world b) k ?i = (err0, q)" by fastforce
    note law = sq_del_law [OF ok q]
    have g: "sq_GetByID (base_world b) k ?i = Some p" using Some by (simp add: queued_def inner_queue_def)
    have q': "sq_DelByID (world env b) k ?i = (None, q)" using sq_del_world q law(2) g by simp
    have "b' = publishInsThdEvent (gone_events (elem_at b p)) (b\<lparr>bc_selfInstanceQueue := oq_forget_count k (?s\<lparr>oq_queue := q\<rparr>)\<rparr>)"
      using u None g q' hf(2) by (auto simp: queue_DelByID_def oq_DelByID_def world_ids world_elem gone_events_def Let_def)
    then show thesis using law(1,3) shelf_del [OF q]
      by (intro that [of "oq_forget_count k (?s\<lparr>oq_queue := q\<rparr>)"]) (simp_all add: oq_forget_count_def queued_def inner_queue_def)
  qed
  have sh: "\<And>j. j \<noteq> k \<Longrightarrow> shelf (oq_queue oq) j = shelf (inner_queue SelfQueue b) j" using oq(3) by (simp add: inner_queue_def)
  show ?thesis using gone_self [OF inv Some oq(1,2) sh oq(4) b'] by (simp add: b')
qed

lemma del_other:
  assumes inv: "core_inv b" and u: "queue_DelByID env OtherQueue k b = (err, b')"
  shows "core_inv b' \<and> queued OtherQueue b' = (queued OtherQueue b)(k := None) \<and> queued SelfQueue b' = queued SelfQueue b \<and>
    elem_at b' = elem_at b \<and> bc_elems b' = bc_elems b \<and> bc_sessionManager b' = bc_sessionManager b"
proof -
  obtain q where q: "sq_DelByID (base_world b) k (bc_otherInstanceQueue b) = (err, q)" and b': "b' = b\<lparr>bc_otherInstanceQueue := q\<rparr>"
    using u by (auto simp: queue_DelByID_def sq_del_world split: prod.splits)
  have ok: "sq_ok (base_world b) (bc_otherInstanceQueue b)" using inv by (simp add: core_inv_def queue_inv_def inner_queue_def)
  note law = sq_del_law [OF ok q]
  have "core_inv b'"
  proof (cases "queued OtherQueue b k")
    case None
    then have "q = bc_otherInstanceQueue b" using q by (auto simp: sq_DelByID_def sq_exists_get queued_def inner_queue_def)
    then show ?thesis using inv by (simp add: b')
  next
    case (Some p)
    show ?thesis unfolding b'
      by (rule core_other_change [OF inv law(1) queued_facts(1) [OF inv Some], of k])
         (use law(3) shelf_del [OF q] in \<open>simp_all add: queued_def inner_queue_def\<close>)
  qed
  then show ?thesis using law(3) by (auto simp: b' queued_def inner_queue_def fun_eq_iff)
qed

lemma del:
  assumes inv: "core_inv b" and u: "queue_DelByID env qr k b = (err, b')"
  shows "core_inv b'" "queued qr b' = (queued qr b)(k := None)" "qr' \<noteq> qr \<Longrightarrow> queued qr' b' = queued qr' b"
    "elem_at b' = elem_at b" "bc_elems b' = bc_elems b" "bc_sessionManager b' = bc_sessionManager b"
proof -
  have "core_inv b' \<and> queued qr b' = (queued qr b)(k := None) \<and> (\<forall>qr'. qr' \<noteq> qr \<longrightarrow> queued qr' b' = queued qr' b) \<and>
    elem_at b' = elem_at b \<and> bc_elems b' = bc_elems b \<and> bc_sessionManager b' = bc_sessionManager b"
  proof (cases qr)
    case SelfQueue
    show ?thesis unfolding SelfQueue other_ref using del_self [OF inv u [unfolded SelfQueue]] by blast
  next
    case OtherQueue
    show ?thesis unfolding OtherQueue other_ref using del_other [OF inv u [unfolded OtherQueue]] by blast
  qed
  then show "core_inv b'" "queued qr b' = (queued qr b)(k := None)" "qr' \<noteq> qr \<Longrightarrow> queued qr' b' = queued qr' b"
    "elem_at b' = elem_at b" "bc_elems b' = bc_elems b" "bc_sessionManager b' = bc_sessionManager b" by blast+
qed

text \<open>Popping for a scale-down.\<close>

lemma pop_event:
  assumes inv: "core_inv b" and h: "queued SelfQueue b k = Some p" and ok: "sq_ok (base_world b) q"
    and g: "\<And>j. sq_GetByID (base_world b) j q = (if j = k then None else queued SelfQueue b j)"
    and sh: "\<And>j. j \<noteq> k \<Longrightarrow> shelf q j = shelf (inner_queue SelfQueue b) j"
    and b': "b' = publishInsThdEvent (gone_events (elem_at b p))
               (b\<lparr>bc_selfInstanceQueue := oq_forget_count k ((bc_selfInstanceQueue b)\<lparr>oq_queue := q\<rparr>)\<rparr>)"
  shows "core_inv b'" "queued SelfQueue b' = (queued SelfQueue b)(k := None)" "queued OtherQueue b' = queued OtherQueue b"
    "elem_at b' = elem_at b" "bc_elems b' = bc_elems b" "bc_sessionManager b' = bc_sessionManager b"
proof -
  let ?oq = "oq_forget_count k ((bc_selfInstanceQueue b)\<lparr>oq_queue := q\<rparr>)"
  have oq: "oq_queue ?oq = q" "oq_insAvailThdCount ?oq = fmdrop k (oq_insAvailThdCount (bc_selfInstanceQueue b))"
    by (simp_all add: oq_forget_count_def)
  have "sq_ok (base_world b) (oq_queue ?oq)" "\<And>j. sq_GetByID (base_world b) j (oq_queue ?oq) = (if j = k then None else queued SelfQueue b j)"
    "\<And>j. j \<noteq> k \<Longrightarrow> shelf (oq_queue ?oq) j = shelf (inner_queue SelfQueue b) j"
    "\<And>j. j \<noteq> k \<Longrightarrow> fmlookup (oq_insAvailThdCount ?oq) j = fmlookup (oq_insAvailThdCount (bc_selfInstanceQueue b)) j"
    using ok g sh by (simp_all add: oq)
  note gone = gone_self [OF inv h this b']
  show "core_inv b'" "queued SelfQueue b' = (queued SelfQueue b)(k := None)" by (rule gone; assumption)+
  show "queued OtherQueue b' = queued OtherQueue b" "elem_at b' = elem_at b" "bc_elems b' = bc_elems b" "bc_sessionManager b' = bc_sessionManager b"
    by (simp_all add: b')
qed

lemma end_on_shelf:
  assumes inv: "core_inv b" and e: "sq_Front (oq_queue (bc_selfInstanceQueue b)) = Some p \<or> sq_Back (oq_queue (bc_selfInstanceQueue b)) = Some p"
  shows "queued SelfQueue b (ie_ID (elem_at b p)) = Some p" "ie_Code (elem_at b p) = statusRunning"
proof -
  let ?i = "oq_queue (bc_selfInstanceQueue b)"
  have ok: "sq_ok (base_world b) ?i" using inv by (simp add: core_inv_def queue_inv_def inner_queue_def)
  have gid: "getInstanceID (base_world b) p = ie_ID (elem_at b p)" by (simp add: getInstanceID_def world_elem)
  show h: "queued SelfQueue b (ie_ID (elem_at b p)) = Some p" using sq_ends [OF ok e] by (simp add: gid queued_def inner_queue_def)
  have iok: "iq_ok (base_world b) (sq_instanceQueue ?i)" using ok by (simp add: sq_ok_def)
  have "iq_GetByID (base_world b) (ie_ID (elem_at b p)) (sq_instanceQueue ?i) = Some p"
    using e iq_ends_visited iq_visits_iff(1) [OF iok, of p] by (auto simp: sq_Front_def sq_Back_def gid)
  then have "fmlookup (sq_subHealthRecord ?i) (ie_ID (elem_at b p)) = None" "fmlookup (sq_evictingRecord ?i) (ie_ID (elem_at b p)) = None"
    using ok by (auto simp: sq_ok_def) (metis not_None_eq option.distinct(1))+
  then show "ie_Code (elem_at b p) = statusRunning" using queued_facts(3) [OF inv h] by (simp add: shelf_def inner_queue_def)
qed

lemma pop_is_end: "fst (sq_PopFront i) = sq_Front i" "fst (sq_PopBack i) = sq_Back i"
proof -
  have pq: "fst (pq_PopFront q) = pq_Front q" "fst (pq_PopBack q) = pq_Back q" for q :: "nat PriorityQueue"
    by (simp_all add: pq_PopFront_def pq_PopBack_def pq_Front_def pq_Back_def dh_PopMax_def dh_PopMin_def dh_GetMax_def dh_GetMin_def
        dh_min_index_def Let_def)
  have bq: "fst (bq_PopFront b) = bq_Front b" "fst (bq_PopBack b) = bq_Back b" for b
    using pq [of "bq_queue b"] by (cases "pq_PopFront (bq_queue b)"; cases "pq_PopBack (bq_queue b)";
        simp add: bq_PopFront_def bq_Front_def bq_PopBack_def bq_Back_def split: list.split)+
  have iq: "fst (iq_PopFront q) = iq_Front q" "fst (iq_PopBack q) = iq_Back q" for q
    by (cases q; simp add: iq_PopFront_def iq_Front_def iq_PopBack_def iq_Back_def pq bq fst_map_prod)+
  show "fst (sq_PopFront i) = sq_Front i" "fst (sq_PopBack i) = sq_Back i"
    using iq [of "sq_instanceQueue i"] by (cases "iq_PopFront (sq_instanceQueue i)"; cases "iq_PopBack (sq_instanceQueue i)";
        simp add: sq_PopFront_def sq_PopBack_def sq_Front_def sq_Back_def)+
qed

lemma pop_end:
  assumes inv: "core_inv b" and p: "sq_PopFront (oq_queue (bc_selfInstanceQueue b)) = (Some p, q) \<or> sq_PopBack (oq_queue (bc_selfInstanceQueue b)) = (Some p, q)"
    and b': "b' = publishInsThdEvent (pub_gone (elem_at b p))
               (b\<lparr>bc_selfInstanceQueue := oq_forget_count (ie_ID (elem_at b p)) ((bc_selfInstanceQueue b)\<lparr>oq_queue := q\<rparr>)\<rparr>)"
  shows "core_inv b'" "queued SelfQueue b' = (queued SelfQueue b)(ie_ID (elem_at b p) := None)" "queued OtherQueue b' = queued OtherQueue b"
    "elem_at b' = elem_at b" "bc_elems b' = bc_elems b" "bc_sessionManager b' = bc_sessionManager b"
proof -
  let ?k = "ie_ID (elem_at b p)" and ?i = "oq_queue (bc_selfInstanceQueue b)"
  have ok: "sq_ok (base_world b) ?i" using inv by (simp add: core_inv_def queue_inv_def inner_queue_def)
  have gid: "getInstanceID (base_world b) p = ?k" by (simp add: getInstanceID_def world_elem)
  note law = sq_pop_law [OF ok p, unfolded gid]
  have e: "sq_Front ?i = Some p \<or> sq_Back ?i = Some p" using p pop_is_end [of ?i] by (metis fst_conv)
  note on = end_on_shelf [OF inv e]
  have ev: "pub_gone (elem_at b p) = gone_events (elem_at b p)" using on(2) by (simp add: gone_events_def)
  have g: "sq_GetByID (base_world b) j q = (if j = ?k then None else queued SelfQueue b j)" for j
    using law(3) by (simp add: queued_def inner_queue_def)
  have sh: "shelf q j = shelf (inner_queue SelfQueue b) j" for j using shelf_pop [OF p] by (simp add: inner_queue_def)
  show "core_inv b'" "queued SelfQueue b' = (queued SelfQueue b)(?k := None)" "queued OtherQueue b' = queued OtherQueue b"
    "elem_at b' = elem_at b" "bc_elems b' = bc_elems b" "bc_sessionManager b' = bc_sessionManager b"
    by (rule pop_event [OF inv on(1) law(1) g sh b' [unfolded ev]]; assumption)+
qed

lemma pop_sub_health:
  assumes inv: "core_inv b" and ord: "range_order ord" and p: "sq_PopSubHealth (base_world b) ord (oq_queue (bc_selfInstanceQueue b)) = (Some p, q)"
    and b': "b' = publishInsThdEvent [PubInUse (- (ie_ConcurrentNum (elem_at b p) - ie_avail (elem_at b p))), PubTotal (- ie_ConcurrentNum (elem_at b p))]
               (b\<lparr>bc_selfInstanceQueue := oq_forget_count (ie_ID (elem_at b p)) ((bc_selfInstanceQueue b)\<lparr>oq_queue := q\<rparr>)\<rparr>)"
  shows "core_inv b'" "queued SelfQueue b' = (queued SelfQueue b)(ie_ID (elem_at b p) := None)" "queued OtherQueue b' = queued OtherQueue b"
    "elem_at b' = elem_at b" "bc_elems b' = bc_elems b" "bc_sessionManager b' = bc_sessionManager b"
proof -
  let ?k = "ie_ID (elem_at b p)" and ?i = "oq_queue (bc_selfInstanceQueue b)"
  have ok: "sq_ok (base_world b) ?i" using inv by (simp add: core_inv_def queue_inv_def inner_queue_def)
  have gid: "getInstanceID (base_world b) p = ?k" by (simp add: getInstanceID_def world_elem)
  note law = sq_pop_sub_law [OF ok ord p, unfolded gid]
  have h: "queued SelfQueue b ?k = Some p" using law(2) by (simp add: queued_def inner_queue_def)
  have "fmlookup (sq_evictingRecord ?i) ?k = None" using ok law(4) by (auto simp: sq_ok_def)
  then have "ie_Code (elem_at b p) = statusSubHealth" using queued_facts(3) [OF inv h] law(4) by (simp add: shelf_def inner_queue_def)
  then have ev: "[PubInUse (- (ie_ConcurrentNum (elem_at b p) - ie_avail (elem_at b p))), PubTotal (- ie_ConcurrentNum (elem_at b p))] = gone_events (elem_at b p)"
    by (simp add: gone_events_def)
  have g: "sq_GetByID (base_world b) j q = (if j = ?k then None else queued SelfQueue b j)" for j
    using law(3) by (simp add: queued_def inner_queue_def)
  have sh: "shelf q j = shelf (inner_queue SelfQueue b) j" if "j \<noteq> ?k" for j using shelf_pop_sub [OF p] that by (simp add: inner_queue_def gid)
  show "core_inv b'" "queued SelfQueue b' = (queued SelfQueue b)(?k := None)" "queued OtherQueue b' = queued OtherQueue b"
    "elem_at b' = elem_at b" "bc_elems b' = bc_elems b" "bc_sessionManager b' = bc_sessionManager b"
    by (rule pop_event [OF inv h law(1) g sh b' [unfolded ev]]; assumption)+
qed

end
