(* ===== verification/ConcurrencySteps.thy ===== *)
theory ConcurrencySteps
  imports ConcurrencyInvariant
begin

text \<open>
  Every operation of the concurrency scheduler keeps the invariant of \<open>ConcurrencyInvariant\<close>; the step
  relation lets them run in any order, as the goroutines of the callers do.
\<close>

section \<open>Calls that leave the queues as they are\<close>

text \<open>Acquiring and releasing changes threads and sessions, but neither which instances there are nor where they are.\<close>

definition calm :: "basicConcurrencyScheduler \<Rightarrow> basicConcurrencyScheduler \<Rightarrow> bool" where
  "calm b b' \<longleftrightarrow> sched_inv b' \<and> (\<forall>qr. queued qr b' = queued qr b) \<and> fmdom (bc_elems b') = fmdom (bc_elems b) \<and>
     (\<forall>p. ie_instance (elem_at b' p) = ie_instance (elem_at b p)) \<and> bc_funcSpec b' = bc_funcSpec b \<and>
     (\<forall>r record. record_at b r = Some record \<longrightarrow> (\<exists>record'. record_at b' r = Some record' \<and> sn_insElem record' = sn_insElem record))"

lemma calm_refl: "sched_inv b \<Longrightarrow> calm b b"
  by (simp add: calm_def)

lemma calm_trans [trans]: "calm a b \<Longrightarrow> calm b c \<Longrightarrow> calm a c"
  unfolding calm_def by (auto, metis)

lemma calmD:
  "calm b b' \<Longrightarrow> sched_inv b'" "calm b b' \<Longrightarrow> queued qr b' = queued qr b" "calm b b' \<Longrightarrow> ie_instance (elem_at b' p) = ie_instance (elem_at b p)"
  "calm b b' \<Longrightarrow> bc_funcSpec b' = bc_funcSpec b"
  by (simp_all add: calm_def)

lemma view_sessions [simp]:
  "sched_view (with_sessions f b) = sched_view b" "sched_view (put_record r rec b) = sched_view b"
  "bc_funcSpec (with_sessions f b) = bc_funcSpec b" "bc_funcSpec (put_record r rec b) = bc_funcSpec b"
  "record_at (put_record r rec b) r' = (if r' = r then Some rec else record_at b r')"
  "bc_sessionManager (with_sessions f b) = f (bc_sessionManager b)"
  "sm_sessionMap (bc_sessionManager (put_record r rec b)) = sm_sessionMap (bc_sessionManager b)"
  "sm_nextRecord (bc_sessionManager (put_record r rec b)) = sm_nextRecord (bc_sessionManager b)"
  by (simp_all add: sched_view_def with_sessions_def put_record_def record_at_def)

lemmas view_facts = view_cong [OF view_sessions(1)] view_cong [OF view_sessions(2)]

text \<open>Changing a record that exists and keeping its element is calm; so are writes to the session store.\<close>

lemma calm_record:
  assumes "sched_inv b" and "record_at b r = Some rec" and "sn_insElem rec' = sn_insElem rec"
  shows "calm b (put_record r rec' b)"
proof -
  have "sess_inv (put_record r rec' b)"
    using assms unfolding sched_inv_def sess_inv_def by (auto simp: view_facts split: if_splits)
  then have "sched_inv (put_record r rec' b)" using assms(1) by (simp add: sched_inv_def view_facts)
  then show ?thesis using assms(2,3) by (auto simp: calm_def view_facts)
qed

definition keeps_sessions :: "(sessionManager \<Rightarrow> sessionManager) \<Rightarrow> bool" where
  "keeps_sessions f \<longleftrightarrow> (\<forall>sm. sm_records (f sm) = sm_records sm \<and> sm_nextRecord (f sm) = sm_nextRecord sm \<and>
     fmlookup (sm_sessionMap (f sm)) \<subseteq>\<^sub>m fmlookup (sm_sessionMap sm))"

lemma calm_sessions:
  assumes "sched_inv b" and "keeps_sessions f"
  shows "calm b (with_sessions f b)"
proof -
  have r: "record_at (with_sessions f b) r = record_at b r" for r using assms(2) by (simp add: record_at_def keeps_sessions_def)
  have "fmlookup (sm_sessionMap (bc_sessionManager b)) k = Some r" if "fmlookup (sm_sessionMap (f (bc_sessionManager b))) k = Some r" for k r
    using assms(2) that unfolding keeps_sessions_def map_le_def by (metis domI)
  moreover have "sm_nextRecord (f (bc_sessionManager b)) = sm_nextRecord (bc_sessionManager b)" using assms(2) by (simp add: keeps_sessions_def)
  ultimately have "sess_inv (with_sessions f b)"
    using assms(1) unfolding sched_inv_def sess_inv_def r view_facts view_sessions by (simp, blast)
  then have "sched_inv (with_sessions f b)" using assms(1) by (simp add: sched_inv_def view_facts)
  then show ?thesis by (simp add: calm_def view_facts r)
qed

lemma keeps_store [simp]:
  "keeps_sessions (sm_saveSessionToStore w k record)" "keeps_sessions (sm_deleteSessionFromStore k)" "keeps_sessions (deleteLocalSession k)"
  "keeps_sessions (delSession k)" "keeps_sessions (setFuncOwner o')" "keeps_sessions stopAndClean" "keeps_sessions (sm_cleanExternalRecords ord)"
  by (simp_all add: keeps_sessions_def sm_saveSessionToStore_def sm_deleteSessionFromStore_def deleteLocalSession_def delSession_def
      setFuncOwner_def stopAndClean_def sm_cleanExternalRecords_def map_le_def split: option.split)

lemma getSession_iff:
  assumes "sched_inv b"
  shows "getSession k (bc_sessionManager b) = Some (r, rec) \<longleftrightarrow>
      fmlookup (sm_sessionMap (bc_sessionManager b)) k = Some r \<and> record_at b r = Some rec"
    "getSession k (bc_sessionManager b) = None \<longleftrightarrow> fmlookup (sm_sessionMap (bc_sessionManager b)) k = None"
  using assms unfolding sched_inv_def sess_inv_def record_at_def
  by (auto simp: getSession_def split: option.splits) (metis option.distinct(1))+

lemma record_elem:
  assumes "sched_inv b" and "record_at b r = Some rec"
  obtains p where "sn_insElem rec = Some p" "p |\<in>| fmdom (bc_elems b)"
  using assms unfolding sched_inv_def sess_inv_def by blast

lemma queued_record:
  assumes inv: "sched_inv b" and "record_at b r = Some rec" and "queued qr b (ie_ID (elem_at b (the (sn_insElem rec)))) \<noteq> None"
  shows "queued qr b (ie_ID (elem_at b (the (sn_insElem rec)))) = Some (the (sn_insElem rec))"
proof -
  obtain p where p: "sn_insElem rec = Some p" "p |\<in>| fmdom (bc_elems b)" by (rule record_elem [OF assms(1,2)])
  moreover have "core_inv b" using inv by (simp add: sched_inv_def)
  ultimately show ?thesis using queued_inj assms(3) by fastforce
qed

section \<open>Threads\<close>

definition thread_move :: "instanceElement \<Rightarrow> instanceElement \<Rightarrow> bool" where
  "thread_move e e' \<longleftrightarrow> ie_instance e' = ie_instance e \<and>
     (ie_avail e \<le> max 0 (ie_ConcurrentNum e) \<longrightarrow> ie_avail e' \<le> max 0 (ie_ConcurrentNum e))"

lemma thread_move_refl: "thread_move e e"
  by (simp add: thread_move_def)

lemma thread_move_trans: "thread_move a b \<Longrightarrow> thread_move b c \<Longrightarrow> thread_move a c"
  by (simp add: thread_move_def)

lemma get_thread_move: "GetThreadFromThreadMap pick e = (t, e') \<Longrightarrow> thread_move e e'"
proof -
  assume "GetThreadFromThreadMap pick e = (t, e')"
  then have e': "ie_instance e' = ie_instance e" "ie_threadMap e' |\<subseteq>| ie_threadMap e"
    by (auto simp: GetThreadFromThreadMap_def take_key_def split: if_splits)
  from fcard_mono [OF e'(2)] have "ie_avail e' \<le> ie_avail e" by simp
  then show ?thesis using e'(1) by (simp add: thread_move_def)
qed

lemma put_thread_move: "thread_move e (PutThreadToThreadMap t e)"
proof -
  have "fcard (finsert x m) \<le> Suc (fcard m)" for x :: string and m
    by (cases "x |\<in>| m") (simp_all add: finsert_absorb fcard_finsert_disjoint)
  from this [of "thread_id e (ie_threadIndex e)" "ie_threadMap e"] show ?thesis
    by (auto simp: thread_move_def PutThreadToThreadMap_def)
qed

lemma bind_threads_facts:
  "bind_threads pick n e rec = (e', rec') \<Longrightarrow> thread_move e e' \<and> sn_insElem rec' = sn_insElem rec \<and> sn_sessionID rec' = sn_sessionID rec \<and>
     sn_sessionCtxID rec' = sn_sessionCtxID rec"
proof (induction n arbitrary: e rec)
  case 0
  then show ?case by (simp add: thread_move_refl)
next
  case (Suc n)
  obtain t e1 where t: "GetThreadFromThreadMap pick e = (t, e1)" by fastforce
  let ?r = "case MarkThreadAsAvailable t (PutThreadToAllocThdMap t rec) of Inl _ \<Rightarrow> PutThreadToAllocThdMap t rec | Inr record' \<Rightarrow> record'"
  have "bind_threads pick n e1 ?r = (e', rec')" using Suc.prems t by (simp add: Let_def)
  moreover have "sn_insElem ?r = sn_insElem rec \<and> sn_sessionID ?r = sn_sessionID rec \<and> sn_sessionCtxID ?r = sn_sessionCtxID rec"
    by (simp add: PutThreadToAllocThdMap_def MarkThreadAsAvailable_def)
  ultimately show ?case using Suc.IH get_thread_move [OF t] thread_move_trans by fastforce
qed

lemma fold_put_move: "thread_move e (fold PutThreadToThreadMap ts e)"
  by (induction ts arbitrary: e) (auto intro: thread_move_refl thread_move_trans put_thread_move)

lemma evolves_move:
  assumes "sched_inv b" and "queued qr b k = Some p" and "thread_move (elem_at b p) e"
  shows "evolves (elem_at b p) e"
proof -
  have inv: "core_inv b" using assms(1) by (simp add: sched_inv_def)
  obtain e0 where "fmlookup (bc_elems b) p = Some e0" using queued_facts(1) [OF inv assms(2)] by (meson fmlookup_dom_iff)
  then have "ie_avail (elem_at b p) \<le> max 0 (ie_ConcurrentNum (elem_at b p))"
    using inv unfolding core_inv_def heap_inv_def by (auto simp: elem_at_def)
  then show ?thesis using assms(3) by (simp add: evolves_def thread_move_def)
qed

lemma queue_update_sel [simp]: "bc_funcSpec (snd (queue_UpdateObjByID env qr k p b)) = bc_funcSpec b"
  by (simp add: queue_UpdateObjByID_def split: queueRef.split prod.split)

lemma calm_threads:
  assumes inv: "sched_inv b" and h: "queued qr b k = Some p" and m: "thread_move (elem_at b p) e"
    and u: "queue_UpdateObjByID env qr k p (put_elem p e b) = (err, b')"
  shows "calm b b'" "err = None" "elem_at b' = (elem_at b)(p := e)"
proof -
  have i: "core_inv b" "both_inv b" "sess_inv b" using inv by (simp_all add: sched_inv_def)
  note t = touch [OF i(1,2) h evolves_move [OF inv h m] u]
  have r: "record_at b' = record_at b" by (simp add: record_at_def fun_eq_iff t(6))
  have "sess_inv b'" using i(3) by (simp add: sess_inv_def r t(6,7))
  then have "sched_inv b'" using t(2,3) by (simp add: sched_inv_def)
  moreover have "bc_funcSpec b' = bc_funcSpec b" using queue_update_sel [of env qr k p "put_elem p e b"] u by simp
  ultimately show "calm b b'" using t(4,5,7) m by (simp add: calm_def r thread_move_def)
  show "err = None" "elem_at b' = (elem_at b)(p := e)" by (rule t)+
qed

lemma put_same: "p |\<in>| fmdom (bc_elems b) \<Longrightarrow> put_elem p (elem_at b p) b = b"
proof -
  assume "p |\<in>| fmdom (bc_elems b)"
  then have "fmupd p (elem_at b p) (bc_elems b) = bc_elems b" by (auto intro!: fmap_ext simp: elem_at_def fmlookup_dom_iff)
  then show ?thesis by (simp add: put_elem_def)
qed

section \<open>Acquiring\<close>

lemma acquireInstanceThread_calm:
  assumes inv: "sched_inv b" and h: "queued qr b (ie_ID (elem_at b p)) = Some p" and a: "acquireInstanceThread env t qr p b = (res, b')"
  shows "calm b b'" "res = Inr al \<Longrightarrow> ia_Instance al = ie_instance (elem_at b p) \<and> ia_SessionID al = []"
proof -
  obtain tid e where g: "GetThreadFromThreadMap (se_pick env) (elem_at b p) = (tid, e)" by fastforce
  obtain err b1 where u: "queue_UpdateObjByID env qr (ie_ID e) p (put_elem p e b) = (err, b1)" by fastforce
  note m = get_thread_move [OF g]
  have inst: "ie_instance e = ie_instance (elem_at b p)" using m by (simp add: thread_move_def)
  note c = calm_threads [OF inv h m, of env err b1] u
  show "calm b b'" "res = Inr al \<Longrightarrow> ia_Instance al = ie_instance (elem_at b p) \<and> ia_SessionID al = []"
    using a c u g inst calm_refl [OF inv] by (auto simp: acquireInstanceThread_def Let_def split: if_splits)
qed

lemma acquireSessionThread_calm:
  assumes inv: "sched_inv b" and a: "acquireSessionThread env t cfg ctx b = (res, b')"
  shows "calm b b'" "sm_sessionMap (bc_sessionManager b') = sm_sessionMap (bc_sessionManager b)"
    "res = Inr al \<Longrightarrow> \<exists>r rec. getSession (getSessionCacheKey b (isc_SessionID cfg) ctx) (bc_sessionManager b) = Some (r, rec) \<and>
        ia_Instance al = ie_instance (elem_at b (the (sn_insElem rec))) \<and> ia_SessionID al = isc_SessionID cfg"
    "res = Inl ErrNoInsThdAvail \<Longrightarrow> getSession (getSessionCacheKey b (isc_SessionID cfg) ctx) (bc_sessionManager b) \<noteq> None"
proof -
  let ?key = "getSessionCacheKey b (isc_SessionID cfg) ctx"
  have "calm b b' \<and> sm_sessionMap (bc_sessionManager b') = sm_sessionMap (bc_sessionManager b) \<and>
    (res = Inr al \<longrightarrow> (\<exists>r rec. getSession ?key (bc_sessionManager b) = Some (r, rec) \<and>
        ia_Instance al = ie_instance (elem_at b (the (sn_insElem rec))) \<and> ia_SessionID al = isc_SessionID cfg)) \<and>
    (res = Inl ErrNoInsThdAvail \<longrightarrow> getSession ?key (bc_sessionManager b) \<noteq> None)"
  proof (cases "getSession ?key (bc_sessionManager b)")
    case None
    then show ?thesis using a calm_refl [OF inv] by (auto simp: acquireSessionThread_def)
  next
    case (Some rr)
    obtain r rec where g: "getSession ?key (bc_sessionManager b) = Some (r, rec)" using Some by (cases rr) simp
    then have rec: "record_at b r = Some rec" using getSession_iff [OF inv] by blast
    define rec2 where "rec2 = (if sn_expiring rec then rec\<lparr>sn_expireCancelCh := True\<rparr> else rec)\<lparr>sn_ttl := isc_SessionTTL cfg * second\<rparr>"
    define b1 where "b1 = put_record r rec2 b"
    define b2 where "b2 = (if sn_ttl rec2 \<noteq> sn_ttl rec
        then with_sessions (sm_saveSessionToStore (world env b1) (getRecordCacheKey b1 rec2) rec2) b1 else b1)"
    have r2: "sn_insElem rec2 = sn_insElem rec" by (simp add: rec2_def)
    have c1: "calm b b1" unfolding b1_def by (rule calm_record [OF inv rec r2])
    have c2: "calm b1 b2" unfolding b2_def using calm_sessions [OF calmD(1) [OF c1] keeps_store(1)] calm_refl [OF calmD(1) [OF c1]] by simp
    have c: "calm b b2" by (rule calm_trans [OF c1 c2])
    have rec2: "record_at b2 r = Some rec2"
      by (simp add: b2_def b1_def record_at_def sm_saveSessionToStore_def put_record_def with_sessions_def split: option.split)
    have m: "sm_sessionMap (bc_sessionManager b2) = sm_sessionMap (bc_sessionManager b)"
      by (simp add: b2_def b1_def sm_saveSessionToStore_def split: option.split)
    have r3: "sn_insElem rec3 = sn_insElem rec" if "GetOrReplaceDesignateThreadFromAvailThdMap (se_pick env) t rec2 = Inr (tid, rec3)" for tid rec3
      using that r2 by (auto simp: GetOrReplaceDesignateThreadFromAvailThdMap_def GetThreadFromAvailThdMap_def split: if_splits prod.splits)
    have c3: "calm b (put_record r rec3 b2)" if "sn_insElem rec3 = sn_insElem rec" for rec3
      using calm_trans [OF c calm_record [OF calmD(1) [OF c] rec2]] that r2 by simp
    have el: "elem_at b2 = elem_at b" by (simp add: b2_def b1_def view_facts)
    have a': "(res, b') = (if sn_availThdMap rec2 = {||} then (Inl ErrNoInsThdAvail, b2)
             else case GetOrReplaceDesignateThreadFromAvailThdMap (se_pick env) t rec2 of
                    Inl _ \<Rightarrow> (Inl ErrInternal, b2)
                  | Inr (threadID, record3) \<Rightarrow>
                      (Inr \<lparr>ia_Instance = ie_instance (elem_at b2 (the (sn_insElem record3))),
                            ia_AllocationID = threadID, ia_SessionID = isc_SessionID cfg,
                            ia_SessionCtx = Some r\<rparr>, put_record r record3 b2))"
      using a g unfolding acquireSessionThread_def b2_def b1_def rec2_def by (simp add: Let_def)
    show ?thesis using a' c c3 r3 m g el by (auto split: if_splits sum.splits)
  qed
  then show "calm b b'" "sm_sessionMap (bc_sessionManager b') = sm_sessionMap (bc_sessionManager b)"
    "res = Inr al \<Longrightarrow> \<exists>r rec. getSession ?key (bc_sessionManager b) = Some (r, rec) \<and>
        ia_Instance al = ie_instance (elem_at b (the (sn_insElem rec))) \<and> ia_SessionID al = isc_SessionID cfg"
    "res = Inl ErrNoInsThdAvail \<Longrightarrow> getSession ?key (bc_sessionManager b) \<noteq> None" by blast+
qed

lemma overAcq_calm:
  assumes inv: "sched_inv b" and rec: "record_at b r = Some rec" and a: "acquireInstanceWithOverAcqSession env qr r req b = (res, b')"
    and h: "queued qr b (ie_ID (elem_at b (the (sn_insElem rec)))) \<noteq> None"
  shows "calm b b'" "res = Inr al \<Longrightarrow> ia_Instance al = ie_instance (elem_at b (the (sn_insElem rec))) \<and> ia_SessionID al = aq_SessionID req"
proof -
  note p = queued_record [OF inv rec h]
  obtain res1 b1 where t: "acquireInstanceThread env (aq_DesignateThreadID req) qr (the (sn_insElem rec)) b = (res1, b1)" by fastforce
  note c = acquireInstanceThread_calm [OF inv p t]
  obtain rec1 where r1: "record_at b1 r = Some rec1" "sn_insElem rec1 = sn_insElem rec" using c(1) rec unfolding calm_def by blast
  have c2: "calm b (put_record r rec' b1)" if "sn_insElem rec' = sn_insElem rec" for rec'
    using calm_trans [OF c(1) calm_record [OF calmD(1) [OF c(1)] r1(1)]] that r1(2) by simp
  have c0: "calm b (put_record r rec' b)" if "sn_insElem rec' = sn_insElem rec" for rec' by (rule calm_record [OF inv rec that])
  show "calm b b'" using a rec t c(1) c2 c0 calm_refl [OF inv]
    by (auto simp: acquireInstanceWithOverAcqSession_def createOverAcqThread_def Let_def split: if_splits sum.splits)
  show "res = Inr al \<Longrightarrow> ia_Instance al = ie_instance (elem_at b (the (sn_insElem rec))) \<and> ia_SessionID al = aq_SessionID req"
    using a rec t c(2) by (auto simp: acquireInstanceWithOverAcqSession_def createOverAcqThread_def Let_def split: if_splits sum.splits)
qed

text \<open>A new record, and its entry in the map of sessions.\<close>

definition add_record :: "sessionRecord \<Rightarrow> basicConcurrencyScheduler \<Rightarrow> basicConcurrencyScheduler" where
  "add_record rec b = (let r = sm_nextRecord (bc_sessionManager b)
     in with_sessions (\<lambda>sm. sm\<lparr>sm_nextRecord := Suc r\<rparr>) (put_record r rec b))"

lemma add_record_calm:
  assumes inv: "sched_inv b" and p: "sn_insElem rec = Some p" "p |\<in>| fmdom (bc_elems b)"
  shows "calm b (add_record rec b)" "record_at (add_record rec b) (sm_nextRecord (bc_sessionManager b)) = Some rec"
    "sm_sessionMap (bc_sessionManager (add_record rec b)) = sm_sessionMap (bc_sessionManager b)"
    "elem_at (add_record rec b) = elem_at b"
proof -
  let ?r = "sm_nextRecord (bc_sessionManager b)" and ?b = "add_record rec b"
  have at: "record_at ?b r' = (if r' = ?r then Some rec else record_at b r')" for r'
    by (simp add: add_record_def record_at_def put_record_def with_sessions_def Let_def)
  show m: "sm_sessionMap (bc_sessionManager ?b) = sm_sessionMap (bc_sessionManager b)"
    by (simp add: add_record_def put_record_def with_sessions_def Let_def)
  have n: "sm_nextRecord (bc_sessionManager ?b) = Suc ?r" by (simp add: add_record_def Let_def)
  have v: "sched_view ?b = sched_view b" by (simp add: add_record_def Let_def)
  show "elem_at ?b = elem_at b" by (rule view_cong [OF v])
  have fresh: "record_at b ?r = None" using inv unfolding sched_inv_def sess_inv_def by (metis less_irrefl not_None_eq)
  have "sess_inv ?b" using inv p unfolding sched_inv_def sess_inv_def at m n view_cong(8) [OF v] by (auto simp: less_Suc_eq)
  then have "sched_inv ?b" using inv by (simp add: sched_inv_def view_cong [OF v])
  then show "calm b ?b" using fresh by (auto simp: calm_def view_cong [OF v] at) (simp_all add: add_record_def Let_def)
  show "record_at ?b ?r = Some rec" by (simp add: at)
qed

lemma addSession_calm:
  assumes inv: "sched_inv b" and r: "record_at b r = Some rec" and k: "key_ok k"
  shows "calm b (with_sessions (addSession w k r) b)"
    "sm_sessionMap (bc_sessionManager (with_sessions (addSession w k r) b)) = fmupd k r (sm_sessionMap (bc_sessionManager b))"
    "record_at (with_sessions (addSession w k r) b) = record_at b"
proof -
  let ?b = "with_sessions (addSession w k r) b"
  show at: "record_at ?b = record_at b"
    by (simp add: record_at_def fun_eq_iff addSession_def sm_saveSessionToStore_def Let_def split: option.split)
  show m: "sm_sessionMap (bc_sessionManager ?b) = fmupd k r (sm_sessionMap (bc_sessionManager b))"
    by (simp add: addSession_def sm_saveSessionToStore_def Let_def split: option.split)
  have n: "sm_nextRecord (bc_sessionManager ?b) = sm_nextRecord (bc_sessionManager b)"
    by (simp add: addSession_def sm_saveSessionToStore_def Let_def split: option.split)
  have "sess_inv ?b" using inv r k unfolding sched_inv_def sess_inv_def at m n view_facts by auto
  then have "sched_inv ?b" using inv by (simp add: sched_inv_def view_facts)
  then show "calm b ?b" by (simp add: calm_def view_facts at)
qed

lemma bind_calm:
  assumes inv: "sched_inv b" and h: "queued qr b (ie_ID (elem_at b p)) = Some p" and a: "bindThdWithSession env qr p cfg b = (res, b')"
  shows "calm b b'" "sm_sessionMap (bc_sessionManager b') = sm_sessionMap (bc_sessionManager b)"
    "res = Inr r \<Longrightarrow> \<exists>rec. record_at b' r = Some rec \<and> sn_insElem rec = Some p \<and> sn_sessionID rec = isc_SessionID cfg"
proof -
  let ?e = "elem_at b p"
  let ?conc = "if isc_Concurrency cfg = -1 then ie_ConcurrentNum ?e else isc_Concurrency cfg"
  let ?rec = "\<lparr>sn_availThdMap = {||}, sn_allocThdMap = {||}, sn_overAcqThdMap = {||}, sn_expiring = False,
                  sn_ttl = isc_SessionTTL cfg * second, sn_concurrency = ?conc,
                  sn_sessionID = isc_SessionID cfg,
                  sn_sessionCtxID = (case in_SessionCtxID (ie_instance ?e) of
                                       Some ctx \<Rightarrow> if fs_EnableSessionCtx (bc_funcSpec b) then ctx else []
                                     | None \<Rightarrow> []),
                  sn_expireCancelCh = False, sn_cancelled = False, sn_insElem = Some p\<rparr>"
  obtain e' rec where t: "bind_threads (se_pick env) (nat ?conc) ?e ?rec = (e', rec)" by fastforce
  note bt = bind_threads_facts [OF t]
  have d: "p |\<in>| fmdom (bc_elems b)" using queued_facts(1) [OF _ h] inv by (simp add: sched_inv_def)
  have ip: "sn_insElem rec = Some p" using bt by simp
  note ar = add_record_calm [OF inv ip d]
  let ?b0 = "add_record rec b"
  have m: "thread_move (elem_at ?b0 p) e'" using bt by (simp add: ar(4))
  have idk: "ie_ID e' = ie_ID ?e" using bt by (simp add: thread_move_def)
  have h0: "queued qr ?b0 (ie_ID e') = Some p" using h calmD(2) [OF ar(1)] by (simp add: idk)
  obtain err b1 where u: "queue_UpdateObjByID env qr (ie_ID e') p (put_elem p e' ?b0) = (err, b1)" by fastforce
  note c = calm_threads [OF calmD(1) [OF ar(1)] h0 m u]
  have c1: "calm b b1" by (rule calm_trans [OF ar(1) c(1)])
  have i0: "core_inv ?b0" "both_inv ?b0" using calmD(1) [OF ar(1)] by (simp_all add: sched_inv_def)
  have sm: "bc_sessionManager b1 = bc_sessionManager ?b0" by (rule touch(6) [OF i0 h0 evolves_move [OF calmD(1) [OF ar(1)] h0 m] u])
  have eq: "with_sessions (\<lambda>sm. sm\<lparr>sm_nextRecord := Suc (sm_nextRecord (bc_sessionManager b))\<rparr>)
      (put_record (sm_nextRecord (bc_sessionManager b)) rec (put_elem p e' b)) = put_elem p e' ?b0"
    by (simp add: add_record_def put_elem_def put_record_def with_sessions_def Let_def)
  have res: "(res, b') = (if isc_Concurrency cfg = -1 \<and> ie_avail ?e \<noteq> ie_ConcurrentNum ?e then (Inl ErrNoInsAvailable, b)
         else if ie_avail ?e < ?conc then (Inl ErrNoInsAvailable, b) else (Inr (sm_nextRecord (bc_sessionManager b)), b1))"
    using a t u c(2) unfolding bindThdWithSession_def Let_def by (auto simp: eq split: if_splits)
  show "calm b b'" using res c1 calm_refl [OF inv] by (auto split: if_splits)
  show "sm_sessionMap (bc_sessionManager b') = sm_sessionMap (bc_sessionManager b)" using res ar(3) sm by (auto split: if_splits)
  have "record_at b1 = record_at ?b0" by (simp add: record_at_def fun_eq_iff sm)
  then show "res = Inr r \<Longrightarrow> \<exists>rec. record_at b' r = Some rec \<and> sn_insElem rec = Some p \<and> sn_sessionID rec = isc_SessionID cfg"
    using res ar(2) bt by (auto split: if_splits)
qed

lemma key_ok_cacheKey: "key_ok s \<Longrightarrow> key_ok (getSessionCacheKey b s ctx)"
  by (auto simp: key_ok_def getSessionCacheKey_def JoinKey2 split: list.splits)

lemma key_ok_empty: "\<not> key_ok (getSessionCacheKey b [] ctx)"
  by (auto simp: key_ok_def getSessionCacheKey_def JoinKey2)

lemma cacheKey_calm: "bc_funcSpec b' = bc_funcSpec b \<Longrightarrow> getSessionCacheKey b' s ctx = getSessionCacheKey b s ctx"
  by (simp add: getSessionCacheKey_def)

definition session_here :: "queueRef \<Rightarrow> InstanceAcquireRequest \<Rightarrow> basicConcurrencyScheduler \<Rightarrow> bool" where
  "session_here qr req b \<longleftrightarrow>
     (\<forall>r rec. getSession (getSessionCacheKey b (aq_SessionID req) (aq_SessionCtxID req)) (bc_sessionManager b) = Some (r, rec) \<longrightarrow>
        queued qr b (ie_ID (elem_at b (the (sn_insElem rec)))) \<noteq> None)"

lemma session_thread_calm:
  assumes inv: "sched_inv b" and here: "session_here qr req b" and a: "session_thread env qr req b = (res, b')"
  shows "calm b b'"
proof -
  let ?key = "\<lambda>b. getSessionCacheKey b (aq_SessionID req) (aq_SessionCtxID req)"
  obtain res1 b1 where t: "acquireSessionThread env (aq_DesignateThreadID req) (aq_InstanceSession req) (aq_SessionCtxID req) b = (res1, b1)"
    by fastforce
  note c = acquireSessionThread_calm [OF inv t]
  have k: "?key b1 = ?key b" by (rule cacheKey_calm [OF calmD(4) [OF c(1)]])
  show ?thesis
  proof (cases "res1 = Inl ErrNoInsThdAvail")
    case False
    then show ?thesis using a t c(1) by (auto simp: session_thread_def split: sum.splits sched_error.splits)
  next
    case True
    then obtain r rec where g: "getSession (?key b) (bc_sessionManager b) = Some (r, rec)" using c(4) by fastforce
    then obtain rec1 where r1: "record_at b1 r = Some rec1" "sn_insElem rec1 = sn_insElem rec"
      using c(1) getSession_iff(1) [OF inv] unfolding calm_def by blast
    have "fmlookup (sm_sessionMap (bc_sessionManager b1)) (?key b1) = Some r" using g getSession_iff(1) [OF inv] by (simp add: k c(2))
    then have g1: "getSession (?key b1) (bc_sessionManager b1) = Some (r, rec1)" using getSession_iff(1) [OF calmD(1) [OF c(1)]] r1(1) by blast
    have h: "queued qr b1 (ie_ID (elem_at b1 (the (sn_insElem rec1)))) \<noteq> None"
      using here g by (simp add: session_here_def calmD [OF c(1)] r1(2))
    have "acquireInstanceWithOverAcqSession env qr r req b1 = (res, b')" using a t True g1 by (simp add: session_thread_def)
    then show ?thesis using overAcq_calm(1) [OF calmD(1) [OF c(1)] r1(1) _ h] calm_trans [OF c(1)] by blast
  qed
qed

lemma isSessionExist_calm:
  assumes inv: "sched_inv b" and a: "isSessionExist env qr req b = (ex, b')"
  shows "calm b b'" "ex \<Longrightarrow> b' = b \<and> session_here qr req b"
    "\<not> ex \<Longrightarrow> getSession (getSessionCacheKey b' (aq_SessionID req) (aq_SessionCtxID req)) (bc_sessionManager b') = None"
proof -
  let ?key = "getSessionCacheKey b (aq_SessionID req) (aq_SessionCtxID req)"
  note d = calm_sessions [OF inv keeps_store(3)]
  show "calm b b'" using a d calm_refl [OF inv] by (auto simp: isSessionExist_def Let_def split: option.splits if_splits)
  show "ex \<Longrightarrow> b' = b \<and> session_here qr req b"
    using a by (auto simp: isSessionExist_def Let_def session_here_def queue_GetByID_queued split: option.splits if_splits)
  have "fmlookup (sm_sessionMap (bc_sessionManager (with_sessions (deleteLocalSession ?key) b))) ?key = None" by (simp add: deleteLocalSession_def)
  then have "getSession ?key (bc_sessionManager (with_sessions (deleteLocalSession ?key) b)) = None" by (simp add: getSession_def)
  moreover have "getSessionCacheKey (with_sessions f b) s ctx = getSessionCacheKey b s ctx" for f s ctx by (simp add: getSessionCacheKey_def)
  ultimately show "\<not> ex \<Longrightarrow> getSession (getSessionCacheKey b' (aq_SessionID req) (aq_SessionCtxID req)) (bc_sessionManager b') = None"
    using a by (auto simp: isSessionExist_def Let_def split: option.splits if_splits)
qed

text \<open>Binding a session and entering it: afterwards the session of the request, if there is one, is the new one.\<close>

lemma bind_and_add:
  assumes inv: "sched_inv b" and h: "queued qr b (ie_ID (elem_at b p)) = Some p" and key: "key_ok (isc_SessionID cfg)"
    and a: "bindThdWithSession env qr p cfg b = (Inr r, b1)"
    and b2: "b2 = with_sessions (addSession (world env b1) (getRecordCacheKey b1 (the (record_at b1 r))) r) b1"
  obtains rec k where "calm b b2" "record_at b2 r = Some rec" "sn_insElem rec = Some p"
    "sm_sessionMap (bc_sessionManager b2) = fmupd k r (sm_sessionMap (bc_sessionManager b))"
proof -
  note c = bind_calm [OF inv h a]
  obtain rec where rec: "record_at b1 r = Some rec" "sn_insElem rec = Some p" "sn_sessionID rec = isc_SessionID cfg" using c(3) by blast
  have "key_ok (getRecordCacheKey b1 rec)" unfolding getRecordCacheKey_def rec(3) by (rule key_ok_cacheKey [OF key])
  note d = addSession_calm [OF calmD(1) [OF c(1)] rec(1) this]
  have eq: "b2 = with_sessions (addSession (world env b1) (getRecordCacheKey b1 rec) r) b1" by (simp add: b2 rec(1))
  have "calm b b2" unfolding eq by (rule calm_trans [OF c(1) d(1)])
  then show thesis using that [of rec "getRecordCacheKey b1 rec"] rec(1,2) c(2) d(2,3) by (simp add: eq)
qed

lemma bind_new_session_calm:
  assumes inv: "sched_inv b" and env: "env_lawful env" and key: "key_ok (aq_SessionID req)"
    and none: "getSession (getSessionCacheKey b (aq_SessionID req) (aq_SessionCtxID req)) (bc_sessionManager b) = None"
    and a: "bind_new_session env qr req b = (err, b')"
  shows "calm b b'" "err = None \<Longrightarrow> session_here qr req b'"
proof -
  have ci: "core_inv b" using inv by (simp add: sched_inv_def)
  have ord: "range_order (se_order env)" using env by (simp add: env_lawful_def)
  show "calm b b'" "err = None \<Longrightarrow> session_here qr req b'"
  proof (atomize (full), cases "find (stops_at b req) (queue_SortedRange env qr b)")
    case None
    then show "calm b b' \<and> (err = None \<longrightarrow> session_here qr req b')" using a calm_refl [OF inv] by (auto simp: bind_new_session_def)
  next
    case (Some p)
    then have "p \<in> set (queue_SortedRange env qr b)" by (metis find_Some_iff nth_mem)
    then have p: "p \<in> set (sq_SortedRange (se_order env) (inner_queue qr b))"
      by (simp add: queue_SortedRange_def inner_queue_def split: queueRef.splits)
    have "sq_ok (base_world b) (inner_queue qr b)" using ci by (cases qr) (simp_all add: core_inv_def queue_inv_def)
    from sq_Range_iff(2) [OF this ord, of p] p have h: "queued qr b (ie_ID (elem_at b p)) = Some p"
      by (simp add: queued_def getInstanceID_def world_elem)
    obtain res b1 where bd: "bindThdWithSession env qr p (aq_InstanceSession req) b = (res, b1)" by fastforce
    show "calm b b' \<and> (err = None \<longrightarrow> session_here qr req b')"
    proof (cases res)
      case (Inl e)
      then show ?thesis using a Some bd bind_calm(1) [OF inv h bd] by (auto simp: bind_new_session_def)
    next
      case (Inr r)
      have b': "b' = with_sessions (addSession (world env b1) (getRecordCacheKey b1 (the (record_at b1 r))) r) b1"
        using a Some bd Inr by (simp add: bind_new_session_def)
      obtain rec k where c: "calm b b'" "record_at b' r = Some rec" "sn_insElem rec = Some p"
        "sm_sessionMap (bc_sessionManager b') = fmupd k r (sm_sessionMap (bc_sessionManager b))"
        using bind_and_add [OF inv h key bd [unfolded Inr] b'] by metis
      have "session_here qr req b'" unfolding session_here_def
      proof (intro allI impI)
        fix r' rec' assume g: "getSession (getSessionCacheKey b' (aq_SessionID req) (aq_SessionCtxID req)) (bc_sessionManager b') = Some (r', rec')"
        have "fmlookup (sm_sessionMap (bc_sessionManager b)) (getSessionCacheKey b' (aq_SessionID req) (aq_SessionCtxID req)) = None"
          using none getSession_iff(2) [OF inv] cacheKey_calm [OF calmD(4) [OF c(1)]] by metis
        then have "r' = r" "rec' = rec" using g getSession_iff(1) [OF calmD(1) [OF c(1)]] c(2,4) by (auto split: if_splits)
        then show "queued qr b' (ie_ID (elem_at b' (the (sn_insElem rec')))) \<noteq> None" using h c(3) by (simp add: calmD [OF c(1)])
      qed
      then show ?thesis using c(1) by blast
    qed
  qed
qed

lemma agent_session_sel [simp]:
  "aq_SessionID (agent_session req) = aq_SessionID req" "aq_SessionCtxID (agent_session req) = aq_SessionCtxID req"
  by (simp_all add: agent_session_def)

lemma acquireSessionInstance_calm:
  assumes inv: "sched_inv b" and env: "env_lawful env" and key: "key_ok (aq_SessionID req0)"
    and a: "acquireSessionInstance env qr req0 b = (res, req', b')"
  shows "calm b b'"
proof -
  define req where "req = (if isAgentSession b req0 then agent_session req0 else req0)"
  have k: "key_ok (aq_SessionID req)" using key by (simp add: req_def)
  obtain ex b1 where e: "isSessionExist env qr req b = (ex, b1)" by fastforce
  note c1 = isSessionExist_calm [OF inv e]
  obtain res2 b2 where t2: "session_thread env qr req b1 = (res2, b2)" by fastforce
  obtain err b3 where bn: "bind_new_session env qr req b1 = (err, b3)" by fastforce
  obtain res4 b4 where t4: "session_thread env qr req b3 = (res4, b4)" by fastforce
  have "calm b b2" if ex using c1(2) that t2 session_thread_calm [OF inv, of qr req env res2 b2] by simp
  moreover have "calm b b3 \<and> (err = None \<longrightarrow> calm b b4)" if "\<not> ex"
  proof -
    note c3 = bind_new_session_calm [OF calmD(1) [OF c1(1)] env k c1(3) [OF that] bn]
    have "calm b3 b4" if "err = None" by (rule session_thread_calm [OF calmD(1) [OF c3(1)] c3(2) [OF that] t4])
    then show ?thesis using calm_trans [OF c1(1) c3(1)] calm_trans by blast
  qed
  ultimately show ?thesis using a e t2 bn t4 calm_refl [OF inv] unfolding acquireSessionInstance_def req_def [symmetric] Let_def
    by (auto split: if_splits bool.splits option.splits)
qed

lemma acquireDefaultInstance_calm:
  assumes inv: "sched_inv b" and a: "acquireDefaultInstance env qr req b = (res, b')"
  shows "calm b b'"
proof (cases "queue_Front qr b")
  case None
  then show ?thesis using a calm_refl [OF inv] by (simp add: acquireDefaultInstance_def)
next
  case (Some p)
  have "sq_ok (base_world b) (inner_queue qr b)" using inv by (cases qr) (simp_all add: sched_inv_def core_inv_def queue_inv_def)
  from sq_ends [OF this, of p] have "queued qr b (ie_ID (elem_at b p)) = Some p"
    using Some by (cases qr) (simp_all add: queue_Front_def queued_def inner_queue_def getInstanceID_def world_elem)
  then show ?thesis using acquireInstanceThread_calm(1) [OF inv] a Some by (simp add: acquireDefaultInstance_def)
qed

lemma designate_thread_calm:
  assumes inv: "sched_inv b" and rec: "record_at b r = Some rec" and h: "queued qr b (ie_ID (elem_at b (the (sn_insElem rec)))) \<noteq> None"
    and a: "designate_thread env qr r req b = (res, req', b')"
  shows "calm b b'"
proof -
  obtain res1 b1 where t: "acquireSessionThread env (aq_DesignateThreadID req) (aq_InstanceSession req) (aq_SessionCtxID req) b = (res1, b1)"
    by fastforce
  note c = acquireSessionThread_calm [OF inv t]
  obtain rec1 where r1: "record_at b1 r = Some rec1" "sn_insElem rec1 = sn_insElem rec" using c(1) rec unfolding calm_def by blast
  have h1: "queued qr b1 (ie_ID (elem_at b1 (the (sn_insElem rec1)))) \<noteq> None" using h by (simp add: calmD [OF c(1)] r1(2))
  obtain res2 b2 where o: "acquireInstanceWithOverAcqSession env qr r req b1 = (res2, b2)" by fastforce
  have "calm b b2" by (rule calm_trans [OF c(1) overAcq_calm(1) [OF calmD(1) [OF c(1)] r1(1) o h1]])
  then show ?thesis using a t o c(1) by (auto simp: designate_thread_def split: sum.splits sched_error.splits)
qed

text \<open>A request whose session ID has been cleared finds no session.\<close>

lemma designate_cleared:
  assumes inv: "sched_inv b" shows "designate_thread env qr r (clear_session req) b = (Inl ErrInternal, clear_session req, b)"
proof -
  have "\<not> key_ok (getSessionCacheKey b [] (aq_SessionCtxID req))" by (rule key_ok_empty)
  then have "fmlookup (sm_sessionMap (bc_sessionManager b)) (getSessionCacheKey b [] (aq_SessionCtxID req)) = None"
    using inv unfolding sched_inv_def sess_inv_def by (metis not_None_eq)
  then show ?thesis by (simp add: designate_thread_def acquireSessionThread_def clear_session_def getSession_def)
qed

lemma acquireDesignateInstance_calm:
  assumes inv: "sched_inv b" and key: "aq_SessionID req = [] \<or> key_ok (aq_SessionID req)"
    and a: "acquireDesignateInstance env qr req b = (res, req', b')"
  shows "calm b b'" "res = Inl ErrInsNotExist \<Longrightarrow> aq_SessionID req' = [] \<or> key_ok (aq_SessionID req')"
proof -
  have ci: "core_inv b" using inv by (simp add: sched_inv_def)
  note r = calm_refl [OF inv]
  have "calm b b' \<and> (res = Inl ErrInsNotExist \<longrightarrow> aq_SessionID req' = [] \<or> key_ok (aq_SessionID req'))"
  proof (cases "queue_GetByID env qr (aq_DesignateInstanceID req) b")
    case None
    then show ?thesis using a r key by (auto simp: acquireDesignateInstance_def)
  next
    case (Some p)
    then have h: "queued qr b (aq_DesignateInstanceID req) = Some p" by (simp add: queue_GetByID_queued)
    note hf = queued_facts [OF ci h]
    have hp: "queued qr b (ie_ID (elem_at b p)) = Some p" using h hf(2) by simp
    let ?key = "getSessionCacheKey b (aq_SessionID req) (aq_SessionCtxID req)"
    consider (sub) "ie_Code (elem_at b p) = statusSubHealth"
      | (ctx) "ie_Code (elem_at b p) \<noteq> statusSubHealth" "aq_SessionID req \<noteq> []" "ctx_mismatch b req (elem_at b p)"
      | (old) r rec where "ie_Code (elem_at b p) \<noteq> statusSubHealth" "aq_SessionID req \<noteq> []" "\<not> ctx_mismatch b req (elem_at b p)"
          "getSession ?key (bc_sessionManager b) = Some (r, rec)"
      | (new) "ie_Code (elem_at b p) \<noteq> statusSubHealth" "aq_SessionID req \<noteq> []" "\<not> ctx_mismatch b req (elem_at b p)"
          "getSession ?key (bc_sessionManager b) = None"
      | (plain) "ie_Code (elem_at b p) \<noteq> statusSubHealth" "aq_SessionID req = []"
      by (cases "getSession ?key (bc_sessionManager b)") fastforce+
    then show ?thesis
    proof cases
      case sub
      then show ?thesis using a r Some by (auto simp: acquireDesignateInstance_def)
    next
      case ctx
      then have "b' = with_sessions (delSession ?key) b" "req' = req" using a Some by (auto simp: acquireDesignateInstance_def)
      then show ?thesis using calm_sessions [OF inv keeps_store(4)] key by simp
    next
      case old
      have rec: "record_at b r = Some rec" using old(4) getSession_iff(1) [OF inv] by blast
      show ?thesis
      proof (cases "ie_ID (elem_at b (the (sn_insElem rec))) = aq_DesignateInstanceID req")
        case True
        then have "designate_thread env qr r req b = (res, req', b')" using a Some old by (simp add: acquireDesignateInstance_def)
        moreover from this have "req' = req" by (auto simp: designate_thread_def split: prod.splits sum.splits sched_error.splits)
        moreover have "queued qr b (ie_ID (elem_at b (the (sn_insElem rec)))) \<noteq> None" using h True by simp
        ultimately show ?thesis using designate_thread_calm [OF inv rec] key by blast
      next
        case False
        then show ?thesis using a Some old r designate_cleared [OF inv] by (auto simp: acquireDesignateInstance_def)
      qed
    next
      case new
      obtain res1 b1 where bd: "bindThdWithSession env qr p (aq_InstanceSession req) b = (res1, b1)" by fastforce
      show ?thesis
      proof (cases res1)
        case (Inl e)
        then show ?thesis using a Some new bd bind_calm(1) [OF inv hp bd] by (auto simp: acquireDesignateInstance_def)
      next
        case (Inr r)
        let ?b2 = "with_sessions (addSession (world env b1) (getRecordCacheKey b1 (the (record_at b1 r))) r) b1"
        have k: "key_ok (isc_SessionID (aq_InstanceSession req))" using key new(2) by simp
        obtain rec where c: "calm b ?b2" "record_at ?b2 r = Some rec" "sn_insElem rec = Some p"
          using bind_and_add [OF inv hp k bd [unfolded Inr] refl] by metis
        have d: "designate_thread env qr r req ?b2 = (res, req', b')" using a Some new bd Inr by (simp add: acquireDesignateInstance_def)
        moreover from d have "req' = req" by (auto simp: designate_thread_def split: prod.splits sum.splits sched_error.splits)
        moreover have "queued qr ?b2 (ie_ID (elem_at ?b2 (the (sn_insElem rec)))) \<noteq> None" using hp c(3) by (simp add: calmD [OF c(1)])
        ultimately show ?thesis using designate_thread_calm [OF calmD(1) [OF c(1)] c(2)] calm_trans [OF c(1)] key by blast
      qed
    next
      case plain
      then show ?thesis using a Some r acquireInstanceThread_calm(1) [OF inv hp]
        by (auto simp: acquireDesignateInstance_def split: if_splits prod.splits)
    qed
  qed
  then show "calm b b'" "res = Inl ErrInsNotExist \<Longrightarrow> aq_SessionID req' = [] \<or> key_ok (aq_SessionID req')" by blast+
qed

section \<open>Releasing\<close>

lemma calm_bookkeeping:
  assumes "sched_inv b"
  shows "calm b (b\<lparr>bc_leaseManager := gm\<rparr>)" "calm b (b\<lparr>bc_waiters := ws\<rparr>)" "calm b (b\<lparr>bc_coldStartTraceQueue := ts\<rparr>)"
proof -
  have v: "sched_view (b\<lparr>bc_leaseManager := gm\<rparr>) = sched_view b" "sched_view (b\<lparr>bc_waiters := ws\<rparr>) = sched_view b"
    "sched_view (b\<lparr>bc_coldStartTraceQueue := ts\<rparr>) = sched_view b" by (simp_all add: sched_view_def)
  have s: "record_at (b\<lparr>bc_leaseManager := gm\<rparr>) = record_at b" "record_at (b\<lparr>bc_waiters := ws\<rparr>) = record_at b"
    "record_at (b\<lparr>bc_coldStartTraceQueue := ts\<rparr>) = record_at b" by (simp_all add: record_at_def fun_eq_iff)
  show "calm b (b\<lparr>bc_leaseManager := gm\<rparr>)" "calm b (b\<lparr>bc_waiters := ws\<rparr>)" "calm b (b\<lparr>bc_coldStartTraceQueue := ts\<rparr>)"
    using assms by (simp_all add: calm_def sched_inv_def sess_inv_def s view_cong [OF v(1)] view_cong [OF v(2)] view_cong [OF v(3)])
qed

lemma startUnbind_calm: "sched_inv b \<Longrightarrow> calm b (startUnbindInstanceSession qr r b)"
proof (cases "record_at b r")
  case (Some rec)
  assume inv: "sched_inv b"
  have c: "calm b (put_record r (rec\<lparr>sn_expiring := True\<rparr>) b)" by (rule calm_record [OF inv Some]) simp
  show ?thesis using calm_trans [OF c calm_bookkeeping(2) [OF calmD(1) [OF c]]] calm_refl [OF inv] Some
    by (simp add: startUnbindInstanceSession_def)
qed (simp add: startUnbindInstanceSession_def calm_refl)

lemma releaseInSession_calm:
  assumes inv: "sched_inv b" and a: "releaseInstanceThreadWithSession env qr al b = (err, b')"
  shows "calm b b'"
proof -
  have put: "calm b (startUnbindInstanceSession qr r (put_record r rec' b))"
    if "getSession k (bc_sessionManager b) = Some (r, rec)" "sn_insElem rec' = sn_insElem rec" for k r rec rec'
  proof -
    have "record_at b r = Some rec" using that(1) getSession_iff(1) [OF inv] by blast
    from calm_record [OF inv this that(2)] have c: "calm b (put_record r rec' b)" .
    show ?thesis by (rule calm_trans [OF c startUnbind_calm [OF calmD(1) [OF c]]])
  qed
  have mark: "sn_insElem rec' = sn_insElem rec" if "MarkThreadAsAvailable t rec = Inr rec'" for t rec rec'
    using that by (auto simp: MarkThreadAsAvailable_def split: if_splits)
  let ?ctx = "case in_SessionCtxID (ia_Instance al) of Some ctx \<Rightarrow> if fs_EnableSessionCtx (bc_funcSpec b) then ctx else [] | None \<Rightarrow> []"
  show ?thesis
  proof (cases "getSession (getSessionCacheKey b (ia_SessionID al) ?ctx) (bc_sessionManager b)")
    case None
    then show ?thesis using a calm_refl [OF inv] by (simp add: releaseInstanceThreadWithSession_def Let_def)
  next
    case (Some rr)
    obtain r rec where g: "rr = (r, rec)" by fastforce
    note p = put [OF Some [unfolded g]]
    show ?thesis using a Some g calm_refl [OF inv] p mark
      by (auto simp: releaseInstanceThreadWithSession_def Let_def split: if_splits sum.splits)
  qed
qed

lemma finish_release_calm:
  assumes inv: "sched_inv b" and h: "queued qr b (in_InstanceID (ia_Instance al)) = Some p" and a: "finish_release env qr p al inSession b = (err, b')"
  shows "calm b b'" "err = None"
proof -
  let ?e = "if inSession then elem_at b p else PutThreadToThreadMap (ia_AllocationID al) (elem_at b p)"
  have d: "p |\<in>| fmdom (bc_elems b)" using queued_facts(1) [OF _ h] inv by (simp add: sched_inv_def)
  have m: "thread_move (elem_at b p) ?e" by (simp add: thread_move_refl put_thread_move)
  have "queue_UpdateObjByID env qr (in_InstanceID (ia_Instance al)) p (put_elem p ?e b) = (err, b')"
    using a put_same [OF d] by (simp add: finish_release_def split: if_splits)
  from calm_threads(1,2) [OF inv h m this] show "calm b b'" "err = None" .
qed

lemma releaseInstanceInternal_calm:
  assumes inv: "sched_inv b" and a: "releaseInstanceInternal env qr al b = (err, b')"
  shows "calm b b'"
proof (cases "queue_GetByID env qr (in_InstanceID (ia_Instance al)) b")
  case None
  then show ?thesis using a calm_refl [OF inv] by (simp add: releaseInstanceInternal_def)
next
  case (Some p)
  then have h: "queued qr b (in_InstanceID (ia_Instance al)) = Some p" by (simp add: queue_GetByID_queued)
  obtain e1 b1 where s: "releaseInstanceThreadWithSession env qr al b = (e1, b1)" by fastforce
  note c = releaseInSession_calm [OF inv s]
  have f1: "calm b (snd (finish_release env qr p al x b1))" for x
    using calm_trans [OF c finish_release_calm(1) [OF calmD(1) [OF c] _ surjective_pairing]] h by (simp add: calmD(2) [OF c])
  have f: "calm b (snd (finish_release env qr p al x b))" for x
    by (rule finish_release_calm(1) [OF inv h surjective_pairing])
  show ?thesis
  proof (cases "ia_SessionID al = []")
    case True
    then show ?thesis using a Some f [of False] by (simp add: releaseInstanceInternal_def)
  next
    case False
    then show ?thesis using a Some s c f1 [of True] f1 [of False]
      by (auto simp: releaseInstanceInternal_def split: option.splits sched_error.splits)
  qed
qed

lemma ReleaseInstance_calm: "sched_inv b \<Longrightarrow> calm b (snd (ReleaseInstance env al b))"
  unfolding ReleaseInstance_def by (rule releaseInstanceInternal_calm [OF _ surjective_pairing])

section \<open>The whole acquire\<close>

lemma with_lease_calm:
  assumes inv: "sched_inv b" and a: "with_lease env qr al b = (res, b')" shows "calm b b'"
proof -
  obtain err gm where g: "CreateInstanceLease (Some (in_InstanceID (ia_Instance al), ia_AllocationID al)) (bc_leaseInterval b) al (bc_leaseManager b) = (err, gm)"
    by fastforce
  have c: "calm b (b\<lparr>bc_leaseManager := gm\<rparr>)" by (rule calm_bookkeeping [OF inv])
  have "calm b (snd (releaseInstanceInternal env qr al (b\<lparr>bc_leaseManager := gm\<rparr>)))"
    by (rule calm_trans [OF c releaseInstanceInternal_calm [OF calmD(1) [OF c] surjective_pairing]])
  then show ?thesis using a g c by (auto simp: with_lease_def split: option.splits)
qed

lemma acquire_by_kind_calm:
  assumes inv: "sched_inv b" and env: "env_lawful env" and key: "aq_SessionID req = [] \<or> key_ok (aq_SessionID req)"
    and a: "acquire_by_kind env qr req b = (res, req', b')"
  shows "calm b b'"
proof (cases "aq_DesignateInstanceID req = []")
  case True
  then show ?thesis using a key acquireSessionInstance_calm [OF inv env] acquireDefaultInstance_calm [OF inv]
    by (auto simp: acquire_by_kind_def split: if_splits prod.splits)
next
  case False
  obtain res1 req1 b1 where d: "acquireDesignateInstance env qr req b = (res1, req1, b1)" by (metis prod_cases3)
  note c = acquireDesignateInstance_calm [OF inv key d]
  show ?thesis
  proof (cases "res1 = Inl ErrInsNotExist \<and> aq_SessionID req1 \<noteq> []")
    case True
    let ?req = "req1\<lparr>aq_DesignateInstanceID := []\<rparr>"
    have k: "key_ok (aq_SessionID ?req)" using c(2) True by simp
    have "acquireSessionInstance env qr ?req b1 = (res, req', b')" using a d True False by (simp add: acquire_by_kind_def)
    from calm_trans [OF c(1) acquireSessionInstance_calm [OF calmD(1) [OF c(1)] env k this]] show ?thesis .
  next
    case no: False
    then have "b' = b1" using a d False by (auto simp: acquire_by_kind_def split: sum.splits sched_error.splits if_splits)
    then show ?thesis using c(1) by simp
  qed
qed

lemma acquireInstanceInternal_calm:
  assumes inv: "sched_inv b" and env: "env_lawful env" and key: "aq_SessionID req = [] \<or> key_ok (aq_SessionID req)"
    and a: "acquireInstanceInternal env qr req b = (res, req', b')"
  shows "calm b b'"
proof -
  obtain res1 req1 b1 where k: "acquire_by_kind env qr req b = (res1, req1, b1)" by (metis prod_cases3)
  note c = acquire_by_kind_calm [OF inv env key k]
  have "calm b (snd (with_lease env qr al b1))" for al
    by (rule calm_trans [OF c with_lease_calm [OF calmD(1) [OF c] surjective_pairing]])
  then show ?thesis using a k c by (auto simp: acquireInstanceInternal_def split: sum.splits prod.splits) (metis snd_conv)
qed

lemma applyStore_session: "aq_SessionID (applyStoreDesignate req k rec b) = aq_SessionID req"
  by (simp add: applyStoreDesignate_def peekLocalSession_def split: option.split prod.split bool.split)

lemma acquire_phase3_calm:
  assumes "sched_inv b" and "env_lawful env" and "aq_SessionID req = [] \<or> key_ok (aq_SessionID req)"
    and a: "acquire_phase3 env looked rec req b = (res, req', b')"
  shows "calm b b'"
  using acquireInstanceInternal_calm [OF assms(1,2) _ a [unfolded acquire_phase3_def Let_def]] assms(3)
  by (simp add: applyStore_session)

end
