(* ===== verification/ConcurrencySystem.thy ===== *)
theory ConcurrencySystem
  imports ConcurrencySteps
begin

text \<open>
  The remaining operations of the concurrency scheduler, the step relation that interleaves all of them,
  and what holds in every state the scheduler can reach.
\<close>

section \<open>A new element\<close>

text \<open>A queue does not notice changes of elements it does not hold.\<close>

lemma iq_world_cong:
  assumes ok: "iq_ok w q" and same: "\<And>p. p \<in> set (iq_visits q) \<Longrightarrow> getInstanceID w' p = getInstanceID w p"
  shows "iq_ok w' q" "iq_GetByID w' k q = iq_GetByID w k q"
proof -
  have items: "pq_ok (getInstanceID w') r = pq_ok (getInstanceID w) r" if "\<And>p. p \<in> set (pq_visits r) \<Longrightarrow> getInstanceID w' p = getInstanceID w p" for r
    using that by (fastforce simp: pq_ok_def pq_visits_def item_pairs_def)
  have find: "find (\<lambda>x. getInstanceID w' x = k) xs = find (\<lambda>x. getInstanceID w x = k) xs"
    if "\<And>p. p \<in> set xs \<Longrightarrow> getInstanceID w' p = getInstanceID w p" for xs using that by (induction xs) auto
  show "iq_ok w' q" "iq_GetByID w' k q = iq_GetByID w k q"
  proof (atomize (full), cases q)
    case (PlainQueue f r)
    then show "iq_ok w' q \<and> iq_GetByID w' k q = iq_GetByID w k q" using ok same items [of r] by (simp add: iq_visits_def iq_GetByID_def)
  next
    case (BufferQueue f c)
    have "\<And>p. p \<in> set (bq_buffer c) \<Longrightarrow> getInstanceID w' p = getInstanceID w p" "\<And>p. p \<in> set (pq_visits (bq_queue c)) \<Longrightarrow> getInstanceID w' p = getInstanceID w p"
      using same BufferQueue by (simp_all add: iq_visits_def bq_visits_def)
    moreover from this(1) have "map (getInstanceID w') (bq_buffer c) = map (getInstanceID w) (bq_buffer c)" by simp
    then have "distinct (map (getInstanceID w') (bq_buffer c))" using ok BufferQueue by (metis iq_ok.simps(2))
    ultimately show "iq_ok w' q \<and> iq_GetByID w' k q = iq_GetByID w k q"
      using ok items [of "bq_queue c"] find [of "bq_buffer c"] BufferQueue by (simp add: iq_GetByID_def bq_GetByID_def split: option.split)
  qed
qed

lemma sq_world_cong:
  assumes ok: "sq_ok w i" and same: "\<And>p k. sq_GetByID w k i = Some p \<Longrightarrow> getInstanceID w' p = getInstanceID w p"
  shows "sq_ok w' i" "sq_GetByID w' k i = sq_GetByID w k i"
proof -
  have iq: "iq_ok w (sq_instanceQueue i)" using ok by (simp add: sq_ok_def)
  have "getInstanceID w' p = getInstanceID w p" if "p \<in> set (iq_visits (sq_instanceQueue i))" for p
  proof -
    have g: "iq_GetByID w (getInstanceID w p) (sq_instanceQueue i) = Some p" using iq_visits_iff(1) [OF iq] that by simp
    then have "sq_GetByID w (getInstanceID w p) i = Some p" using ok by (auto simp: sq_GetByID_def sq_ok_def split: option.split)
    then show ?thesis by (rule same)
  qed
  note c = iq_world_cong [OF iq this]
  show "sq_GetByID w' k i = sq_GetByID w k i" by (simp add: sq_GetByID_def c(2) split: option.split)
  have "getInstanceID w' p = k" if "fmlookup (sq_subHealthRecord i) k = Some p \<or> fmlookup (sq_evictingRecord i) k = Some p" for k p
  proof -
    have "sq_GetByID w k i = Some p" using that ok by (auto simp: sq_GetByID_def sq_ok_def split: option.split)
    then show ?thesis using same ok that by (auto simp: sq_ok_def)
  qed
  then show "sq_ok w' i" using ok c by (simp add: sq_ok_def)
qed

definition fresh_id :: "string \<Rightarrow> basicConcurrencyScheduler \<Rightarrow> bool" where
  "fresh_id k b \<longleftrightarrow> (\<forall>p. p |\<in>| fmdom (bc_elems b) \<longrightarrow> ie_ID (elem_at b p) \<noteq> k)"

lemma new_elem:
  assumes inv: "sched_inv b" and fresh: "fresh_id (ie_ID e) b" and bound: "ie_avail e \<le> max 0 (ie_ConcurrentNum e)"
    and b': "b' = (put_elem (bc_nextElem b) e b)\<lparr>bc_nextElem := Suc (bc_nextElem b)\<rparr>"
  shows "sched_inv b'" "queued qr b' = queued qr b" "elem_at b' = (elem_at b)(bc_nextElem b := e)"
    "queued qr b (ie_ID e) = None"
proof -
  let ?p = "bc_nextElem b"
  have ci: "core_inv b" and hi: "heap_inv b" using inv by (simp_all add: sched_inv_def core_inv_def)
  have np: "?p |\<notin>| fmdom (bc_elems b)" using hi unfolding heap_inv_def by (metis fmlookup_dom_iff less_irrefl)
  have el: "elem_at b' = (elem_at b)(?p := e)" by (simp add: b' elem_at_def fun_eq_iff)
  then show "elem_at b' = (elem_at b)(?p := e)" .
  have ne: "p \<noteq> ?p" if "queued qr b k = Some p" for qr k p using queued_facts(1) [OF ci that] np by auto
  have inn: "inner_queue qr b' = inner_queue qr b" for qr by (simp add: b' inner_queue_def split: queueRef.split)
  have ids: "getInstanceID (base_world b') p = getInstanceID (base_world b) p" if "sq_GetByID (base_world b) k (inner_queue qr b) = Some p" for qr k p
    using ne that by (simp add: getInstanceID_def world_elem el queued_def)
  have ok: "sq_ok (base_world b) (inner_queue qr b)" for qr using ci by (cases qr) (simp_all add: core_inv_def queue_inv_def)
  note wc = sq_world_cong [OF ok ids]
  show qd: "queued qr b' = queued qr b" for qr by (simp add: queued_def fun_eq_iff inn wc(2))
  show none: "queued qr b (ie_ID e) = None" for qr
    using queued_facts(1,2) [OF ci] fresh unfolding fresh_id_def by (metis not_None_eq)
  have dom: "fmdom (bc_elems b') = finsert ?p (fmdom (bc_elems b))" by (simp add: b')
  have "heap_inv b'"
  proof -
    have old: "ie_ID f \<noteq> ie_ID e" if "fmlookup (bc_elems b) p = Some f" for p f
      using fresh that by (auto simp: fresh_id_def elem_at_def fmlookup_dom_iff)
    have lk: "fmlookup (bc_elems b') p = (if p = ?p then Some e else fmlookup (bc_elems b) p)" for p by (simp add: b')
    have nx: "bc_nextElem b' = Suc ?p" by (simp add: b')
    show ?thesis unfolding heap_inv_def nx
    proof (intro conjI allI impI)
      fix p q f g assume a: "fmlookup (bc_elems b') p = Some f" "fmlookup (bc_elems b') q = Some g" "ie_ID f = ie_ID g"
      show "p = q"
      proof (cases "p = ?p \<or> q = ?p")
        case True
        then show ?thesis using a old unfolding lk by (metis option.inject)
      next
        case False
        then show ?thesis using a hi unfolding lk heap_inv_def by auto
      qed
    next
      fix p f assume a: "fmlookup (bc_elems b') p = Some f"
      show "p < Suc ?p" using a hi unfolding lk heap_inv_def by (metis less_Suc_eq)
      show "ie_avail f \<le> max 0 (ie_ConcurrentNum f)" using a hi bound unfolding lk heap_inv_def by (metis option.inject)
    qed
  qed
  moreover have "queue_inv qr b'" for qr
    unfolding queue_inv_def qd inn dom el
  proof (intro conjI allI impI)
    show "sq_ok (base_world b') (inner_queue qr b)" by (rule wc(1))
    fix k p assume h: "queued qr b k = Some p"
    show "p |\<in>| finsert ?p (fmdom (bc_elems b))" using queued_facts(1) [OF ci h] by simp
    show "shelf (inner_queue qr b) k = ie_Code (((elem_at b)(?p := e)) p)" using queued_facts(3) [OF ci h] ne [OF h] by simp
  qed
  moreover have "observer_inv b'"
  proof -
    have parts: "avail_part b' p = avail_part b p" "total_part b' p = total_part b p" if "p |\<in>| fmdom (bc_elems b)" for p
      using that np by (auto simp: avail_part_def total_part_def qd el)
    have "avail_part b' ?p = 0" "total_part b' ?p = 0" using none by (simp_all add: avail_part_def total_part_def qd el)
    then have "offered b' = offered b" "capacity b' = capacity b"
      using np parts by (simp_all add: offered_def capacity_def dom sum.insert)
    moreover have "told_avail b' = told_avail b" "told_total b' = told_total b" "bc_stopped b' = bc_stopped b"
      "bc_selfInstanceQueue b' = bc_selfInstanceQueue b" by (simp_all add: b' told_avail_def told_total_def)
    moreover have "((elem_at b)(?p := e)) p = elem_at b p" if "queued SelfQueue b k = Some p" for k p using ne [OF that] by simp
    ultimately show ?thesis using ci unfolding core_inv_def observer_inv_def qd el by metis
  qed
  moreover have "both_inv b'" using inv ne [of SelfQueue] unfolding sched_inv_def both_inv_def qd el by simp
  moreover have "sess_inv b'" using inv unfolding sched_inv_def sess_inv_def by (auto simp: b' record_at_def) blast+
  ultimately show "sched_inv b'" by (simp add: sched_inv_def core_inv_def)
qed

lemma init_bound: "ie_avail (initThreadMap pre e) \<le> max 0 (ie_ConcurrentNum (initThreadMap pre e))"
proof -
  have "fcard (fset_of_list xs) \<le> length xs" for xs :: "string list"
    by (simp add: fcard.rep_eq fset_of_list.rep_eq card_length)
  from this [of "map (thread_id (e\<lparr>ie_threadIDPrefix := pre\<rparr>)) [1..ie_ConcurrentNum e]"]
  show ?thesis by (simp add: initThreadMap_def Let_def)
qed

lemma push_new_facts:
  assumes inv: "sched_inv b" and fresh: "fresh_id (in_InstanceID instance) b"
  shows "sched_inv (snd (push_new env qr instance b))"
    "in_Code instance \<in> {statusRunning, statusSubHealth, statusEvicting} \<Longrightarrow>
       queued qr (snd (push_new env qr instance b)) = (queued qr b)(in_InstanceID instance \<mapsto> bc_nextElem b)"
    "elem_at (snd (push_new env qr instance b)) = (elem_at b)(bc_nextElem b := new_element env instance b)"
proof -
  let ?p = "bc_nextElem b" and ?e = "new_element env instance b"
  let ?b = "(put_elem ?p ?e b)\<lparr>bc_nextElem := Suc ?p\<rparr>"
  have id: "ie_ID ?e = in_InstanceID instance" by (simp add: new_element_def initThreadMap_def Let_def)
  have "ie_avail ?e \<le> max 0 (ie_ConcurrentNum ?e)" unfolding new_element_def by (rule init_bound)
  note n = new_elem [OF inv _ this refl, unfolded id, OF fresh]
  have ci: "core_inv ?b" "both_inv ?b" "sess_inv ?b" using n(1) by (simp_all add: sched_inv_def)
  have d: "?p |\<in>| fmdom (bc_elems ?b)" by simp
  have k: "in_InstanceID instance = ie_ID (elem_at ?b ?p)" using n(3) id by simp
  obtain err b' where u: "queue_PushBack env qr ?p ?b = (err, b')" by fastforce
  note p = push [OF ci(1) d u k]
  have "both_inv b'" unfolding both_inv_def
  proof (intro allI impI)
    fix j q assume s: "queued SelfQueue b' j = Some q" "queued OtherQueue b' j = Some q"
    have "queued SelfQueue b (in_InstanceID instance) = None" "queued OtherQueue b (in_InstanceID instance) = None" by (rule n(4))+
    then have "queued SelfQueue ?b j = Some q \<and> queued OtherQueue ?b j = Some q"
      using s p(3) p(4) [of SelfQueue] p(4) [of OtherQueue] n(2) by (cases qr) (auto split: if_splits)
    then show "ie_Code (elem_at b' q) = statusEvicting" using ci(2) unfolding both_inv_def p(5) by blast
  qed
  moreover have "record_at b' = record_at ?b" by (simp add: record_at_def fun_eq_iff p(7))
  then have "sess_inv b'" using ci(3) by (simp add: sess_inv_def p(6,7))
  ultimately show "sched_inv (snd (push_new env qr instance b))" using p(1) u by (simp add: sched_inv_def push_new_def Let_def)
  show "elem_at (snd (push_new env qr instance b)) = (elem_at b)(?p := ?e)" using p(5) n(3) u by (simp add: push_new_def Let_def)
  have "in_Code instance = ie_Code ?e" by (simp add: new_element_def initThreadMap_def Let_def)
  then show "queued qr (snd (push_new env qr instance b)) = (queued qr b)(in_InstanceID instance \<mapsto> ?p)"
    if "in_Code instance \<in> {statusRunning, statusSubHealth, statusEvicting}"
    using that p(2,3) n(2-4) u by (auto simp: push_new_def Let_def)
qed

lemmas push_new_inv = push_new_facts(1)

section \<open>The other operations\<close>

lemma update_missing:
  assumes "queued qr b k = None" shows "snd (queue_UpdateObjByID env qr k p b) = b"
  using assms by (cases qr) (auto simp: queue_UpdateObjByID_def oq_UpdateObjByID_def sq_UpdateObjByID_def sq_exists_get queued_def
      inner_queue_def world_ids publish_nothing)

lemma update_same_calm:
  assumes inv: "sched_inv b" and p: "p |\<in>| fmdom (bc_elems b)"
  shows "calm b (snd (queue_UpdateObjByID env qr (ie_ID (elem_at b p)) p b))"
proof (cases "queued qr b (ie_ID (elem_at b p))")
  case None
  then show ?thesis using calm_refl [OF inv] by (simp add: update_missing)
next
  case (Some q)
  then have h: "queued qr b (ie_ID (elem_at b p)) = Some p" using queued_inj [OF _ Some p] inv by (simp add: sched_inv_def)
  have "queue_UpdateObjByID env qr (ie_ID (elem_at b p)) p (put_elem p (elem_at b p) b) =
      (fst (queue_UpdateObjByID env qr (ie_ID (elem_at b p)) p b), snd (queue_UpdateObjByID env qr (ie_ID (elem_at b p)) p b))"
    by (simp add: put_same [OF p])
  from calm_threads(1) [OF inv h thread_move_refl this] show ?thesis .
qed

lemma unbind_calm:
  assumes inv: "sched_inv b" and u: "unbind_on_timer env r q b = Some b'"
  shows "calm b b'"
proof (cases "record_at b r")
  case None
  then show ?thesis using u calm_refl [OF inv] by (simp add: unbind_on_timer_def)
next
  case (Some rec)
  obtain p where p: "sn_insElem rec = Some p" "p |\<in>| fmdom (bc_elems b)" by (rule record_elem [OF inv Some])
  have stop: "calm b (stop_waiting r c)" if "calm b c" for c
    using calm_trans [OF that calm_bookkeeping(2) [OF calmD(1) [OF that]]] by (simp add: stop_waiting_def)
  have cr: "calm b (put_record r rec' b)" if "sn_insElem rec' = sn_insElem rec" for rec' by (rule calm_record [OF inv Some that])
  let ?b1 = "put_record r (rec\<lparr>sn_cancelled := True\<rparr>) b"
  have c1: "calm b ?b1" by (rule cr) simp
  have el: "elem_at ?b1 = elem_at b" by (simp add: view_facts)
  let ?e = "if queued q ?b1 (ie_ID (elem_at b p)) \<noteq> None then give_back env rec (elem_at b p) else elem_at b p"
  let ?k = "getRecordCacheKey ?b1 rec"
  let ?b3 = "with_sessions (delSession ?k) ?b1"
  have c3: "calm b ?b3" by (rule calm_trans [OF c1 calm_sessions [OF calmD(1) [OF c1] keeps_store(4)]])
  have el3: "elem_at ?b3 = elem_at b" "p |\<in>| fmdom (bc_elems ?b3)" using p(2) by (simp_all add: view_facts)
  have m: "thread_move (elem_at ?b3 p) ?e" by (simp add: el3 give_back_def thread_move_refl fold_put_move)
  have fin: "calm b (snd (queue_UpdateObjByID env q (ie_ID (elem_at b p)) p (put_elem p ?e ?b3)))"
  proof (cases "queued q ?b1 (ie_ID (elem_at b p))")
    case None
    then show ?thesis using calm_trans [OF c3 update_same_calm [OF calmD(1) [OF c3] el3(2)]] put_same [OF el3(2)] by (simp add: el3(1))
  next
    case (Some y)
    then have "queued q ?b3 (ie_ID (elem_at b p)) = Some y" by (simp add: view_facts)
    moreover from this have "y = p" using queued_inj [OF _ _ el3(2)] calmD(1) [OF c3] by (simp add: el3 sched_inv_def)
    ultimately show ?thesis using calm_trans [OF c3 calm_threads(1) [OF calmD(1) [OF c3] _ m surjective_pairing]] by simp
  qed
  have k: "getRecordCacheKey (put_elem x y z) rec = getRecordCacheKey z rec" for x y z by (simp add: getRecordCacheKey_def getSessionCacheKey_def)
  have sw: "with_sessions f (put_elem x y z) = put_elem x y (with_sessions f z)" for f x y z by (simp add: with_sessions_def put_elem_def)
  have "b' = stop_waiting r (snd (queue_UpdateObjByID env q (ie_ID (elem_at b p)) p (put_elem p ?e ?b3)))"
    if "fcard (sn_availThdMap rec) = fcard (sn_allocThdMap rec)" "sn_overAcqThdMap rec = {||}"
    using u Some p(1) that put_same [of p ?b3] el3
    by (auto simp: unbind_on_timer_def Let_def queue_GetByID_queued el elem_put k sw split: if_splits)
  then show ?thesis using u Some fin stop cr
    by (cases "fcard (sn_availThdMap rec) = fcard (sn_allocThdMap rec) \<and> sn_overAcqThdMap rec = {||}")
       (auto simp: unbind_on_timer_def split: if_splits)
qed

lemma cancel_calm:
  assumes inv: "sched_inv b" shows "calm b (unbind_take_cancel r q b)" "calm b (unbind_end_cancel r b)"
proof -
  have w: "calm b ((put_record r rec' b)\<lparr>bc_waiters := ws\<rparr>)" if "record_at b r = Some rec" "sn_insElem rec' = sn_insElem rec" for rec rec' ws
    using calm_trans [OF calm_record [OF inv that] calm_bookkeeping(2) [OF calmD(1) [OF calm_record [OF inv that]]]] .
  show "calm b (unbind_take_cancel r q b)" "calm b (unbind_end_cancel r b)"
    using calm_refl [OF inv] w by (auto simp: unbind_take_cancel_def unbind_end_cancel_def stop_waiting_def split: option.split)
qed

lemma inv_shrink:
  assumes inv: "sched_inv b" and c: "core_inv b'" and q: "\<And>qr k p. queued qr b' k = Some p \<Longrightarrow> queued qr b k = Some p"
    and e: "elem_at b' = elem_at b" "bc_elems b' = bc_elems b" "bc_sessionManager b' = bc_sessionManager b"
  shows "sched_inv b'"
proof -
  have "both_inv b'" using inv q unfolding sched_inv_def both_inv_def e by blast
  moreover have "record_at b' = record_at b" by (simp add: record_at_def fun_eq_iff e)
  then have "sess_inv b'" using inv by (simp add: sched_inv_def sess_inv_def e)
  ultimately show ?thesis using c by (simp add: sched_inv_def)
qed

lemma del_inv:
  assumes inv: "sched_inv b" and u: "queue_DelByID env qr k b = (err, b')" shows "sched_inv b'"
proof -
  have c: "core_inv b" using inv by (simp add: sched_inv_def)
  note d = del [OF c u]
  show ?thesis
  proof (rule inv_shrink [OF inv d(1) _ d(4-6)])
    fix qr' j p assume "queued qr' b' j = Some p"
    then show "queued qr' b j = Some p" using d(2) d(3) [of qr'] by (cases "qr' = qr") (auto split: if_splits)
  qed
qed

lemma DelInstance_inv:
  assumes "sched_inv b" shows "sched_inv (snd (DelInstance env instance b))"
proof -
  obtain err b' where u: "queue_DelByID env (queue_of (checkSelfInstanceInternal env b instance)) (in_InstanceID instance) b = (err, b')" by fastforce
  from calmD(1) [OF calm_bookkeeping(1) [OF del_inv [OF assms u]]] show ?thesis by (simp add: DelInstance_def u)
qed

definition update_ok :: "SchedInstance \<Rightarrow> instanceElement \<Rightarrow> bool" where
  "update_ok instance e \<longleftrightarrow> in_ConcurrentNum instance = ie_ConcurrentNum e \<and>
     in_Code instance \<in> {statusRunning, statusSubHealth, statusEvicting} \<and> (ie_Code e = statusEvicting \<longrightarrow> in_Code instance = statusEvicting)"

lemma HandleInstanceUpdate_inv:
  assumes inv: "sched_inv b" and h: "queued (queue_of (checkSelfInstanceInternal env b instance)) b (in_InstanceID instance) = Some p"
    and ok: "update_ok instance (elem_at b p)"
  shows "sched_inv (cs_HandleInstanceUpdate env instance b)"
proof -
  let ?qr = "queue_of (checkSelfInstanceInternal env b instance)"
  let ?e = "(elem_at b p)\<lparr>ie_instance := instance, ie_isNewInstance := (in_FuncSig instance = fs_FuncMetaSignature (bc_funcSpec b)),
      ie_isPriorityAZ := checkInstancePriorityAZ instance (bc_funcSpec b)\<rparr>"
  have i: "core_inv b" "both_inv b" "sess_inv b" using inv by (simp_all add: sched_inv_def)
  note hf = queued_facts [OF i(1) h]
  have "evolves (elem_at b p) (elem_at b p)" by (rule evolves_move [OF inv h thread_move_refl])
  then have ev: "evolves (elem_at b p) ?e" using ok hf(2) by (auto simp: evolves_def update_ok_def)
  obtain err b' where u: "queue_UpdateObjByID env ?qr (in_InstanceID instance) p (put_elem p ?e b) = (err, b')" by fastforce
  note t = touch [OF i(1,2) h ev u]
  have "record_at b' = record_at b" by (simp add: record_at_def fun_eq_iff t(6))
  then have "sess_inv b'" using i(3) by (simp add: sess_inv_def t(6,7))
  then have "sched_inv b'" using t(2,3) by (simp add: sched_inv_def)
  then show ?thesis using h u by (simp add: cs_HandleInstanceUpdate_def queue_GetByID_queued Let_def)
qed

lemma sq_pop_none: "sq_PopFront i = (None, i') \<or> sq_PopBack i = (None, i') \<Longrightarrow> i' = i"
proof -
  have pq: "q' = q" if "pq_PopFront q = (None, q') \<or> pq_PopBack q = (None, q')" for q q' :: "nat PriorityQueue"
    using that by (auto simp: pq_PopFront_def pq_PopBack_def split: prod.splits dest: PopMax_none PopMin_none)
  have bq: "b' = b" if "bq_PopFront b = (None, b') \<or> bq_PopBack b = (None, b')" for b b'
    using that pq [of "bq_queue b"]
    by (cases "pq_PopFront (bq_queue b)"; cases "pq_PopBack (bq_queue b)") (auto simp: bq_PopFront_def bq_PopBack_def split: if_splits list.splits)
  have iq: "q' = q" if "iq_PopFront q = (None, q') \<or> iq_PopBack q = (None, q')" for q q'
    using that by (cases q) (auto simp: iq_PopFront_def iq_PopBack_def map_prod_eq intro: pq bq)
  assume "sq_PopFront i = (None, i') \<or> sq_PopBack i = (None, i')"
  then show ?thesis by (auto simp: sq_PopFront_def sq_PopBack_def split: prod.splits dest: iq [OF disjI1] iq [OF disjI2])
qed

lemma shrink_one:
  assumes "sched_inv b" and "core_inv b'" and "queued SelfQueue b' = (queued SelfQueue b)(k := None)" and "queued OtherQueue b' = queued OtherQueue b"
    and "elem_at b' = elem_at b" "bc_elems b' = bc_elems b" "bc_sessionManager b' = bc_sessionManager b"
  shows "sched_inv b'"
proof (rule inv_shrink [OF assms(1,2) _ assms(5-7)])
  fix qr j p assume "queued qr b' j = Some p"
  then show "queued qr b j = Some p" using assms(3,4) by (cases qr) (auto split: if_splits)
qed

lemma pop_now_inv:
  assumes inv: "sched_inv b" and env: "env_lawful env" and u: "pop_now env forward shouldPop b = (res, b')"
  shows "sched_inv b'"
proof -
  let ?s = "bc_selfInstanceQueue b"
  have ci: "core_inv b" using inv by (simp add: sched_inv_def)
  have ord: "range_order (se_order env)" using env by (simp add: env_lawful_def)
  have gid: "getInstanceID (world env b) p = ie_ID (elem_at b p)" for p by (simp add: getInstanceID_def world_elem)
  have psw: "sq_PopSubHealth (world env b) (se_order env) i = sq_PopSubHealth (base_world b) (se_order env) i" for i
    unfolding sq_PopSubHealth_def getSubHealthInstanceFromRecord_def world_elem world_ids ..
  have ends: "sched_inv (publishInsThdEvent evs (b\<lparr>bc_selfInstanceQueue := q\<rparr>))"
    if e: "oq_PopFront (world env b) ?s = (r, q, evs) \<or> oq_PopBack (world env b) ?s = (r, q, evs)" for r q evs
  proof -
    let ?R = "\<lambda>(x, i). (case x of None \<Rightarrow> (None, ?s\<lparr>oq_queue := i\<rparr>, [])
         | Some p \<Rightarrow> (Some p, oq_forget_count (ie_ID (elem_at b p)) (?s\<lparr>oq_queue := i\<rparr>), pub_gone (elem_at b p)))"
    have "oq_PopFront (world env b) ?s = ?R (sq_PopFront (oq_queue ?s))" "oq_PopBack (world env b) ?s = ?R (sq_PopBack (oq_queue ?s))"
      by (simp_all add: oq_PopFront_def oq_PopBack_def gid world_elem split: prod.split option.split)
    then obtain x i where x: "sq_PopFront (oq_queue ?s) = (x, i) \<or> sq_PopBack (oq_queue ?s) = (x, i)" "(r, q, evs) = ?R (x, i)"
      using e by (metis surj_pair)
    show ?thesis
    proof (cases x)
      case None
      then have "i = oq_queue ?s" using x(1) sq_pop_none by auto
      then have "publishInsThdEvent evs (b\<lparr>bc_selfInstanceQueue := q\<rparr>) = b" using x(2) None by (simp add: publish_nothing)
      then show ?thesis using inv by simp
    next
      case (Some p)
      show ?thesis by (rule shrink_one [OF inv], (rule pop_end [OF ci x(1) [unfolded Some]], use x(2) Some in simp)+)
    qed
  qed
  show ?thesis
  proof (cases "sq_PopSubHealth (base_world b) (se_order env) (oq_queue ?s)")
    case (Pair x i)
    show ?thesis
    proof (cases x)
      case (Some p)
      have "b' = publishInsThdEvent [PubInUse (- (ie_ConcurrentNum (elem_at b p) - ie_avail (elem_at b p))), PubTotal (- ie_ConcurrentNum (elem_at b p))]
               (b\<lparr>bc_selfInstanceQueue := oq_forget_count (ie_ID (elem_at b p)) (?s\<lparr>oq_queue := i\<rparr>)\<rparr>)"
        using u Pair Some by (simp add: pop_now_def oq_PopSubHealth_def psw gid world_elem)
      note c = pop_sub_health [OF ci ord Pair [unfolded Some] this]
      show ?thesis by (rule shrink_one [OF inv c])
    next
      case None
      then show ?thesis using u Pair inv ends
        by (auto simp: pop_now_def oq_PopSubHealth_def psw split: option.splits if_splits prod.splits)
    qed
  qed
qed

section \<open>Changes of the function and of its owner\<close>

text \<open>The flags of an element count for priorities only.\<close>

lemma flags_calm:
  assumes inv: "sched_inv b" and d: "p |\<in>| fmdom (bc_elems b)"
    and e: "ie_instance e = ie_instance (elem_at b p)" "ie_threadMap e = ie_threadMap (elem_at b p)"
  shows "calm b (put_elem p e b)"
proof -
  let ?b = "put_elem p e b"
  have id: "ie_ID e = ie_ID (elem_at b p)" using e by simp
  have same: "ie_instance (elem_at ?b q) = ie_instance (elem_at b q)" "ie_threadMap (elem_at ?b q) = ie_threadMap (elem_at b q)" for q
    by (simp_all add: elem_put e)
  have dom: "fmdom (bc_elems ?b) = fmdom (bc_elems b)" using d by (simp add: finsert_absorb)
  have told: "told_avail ?b = told_avail b" "told_total ?b = told_total b" by (simp_all add: told_avail_def told_total_def)
  have part: "avail_part ?b q = avail_part b q" "total_part ?b q = total_part b q" for q
    by (simp_all add: avail_part_def total_part_def put_elem_ids [OF id] same Let_def)
  have sums: "offered ?b = offered b" "capacity ?b = capacity b" unfolding offered_def capacity_def part dom by simp_all
  have i: "heap_inv b" "queue_inv SelfQueue b" "queue_inv OtherQueue b" "observer_inv b" "both_inv b" "sess_inv b"
    using inv by (simp_all add: sched_inv_def core_inv_def)
  obtain e0 where e0: "fmlookup (bc_elems b) p = Some e0" using d by (meson fmlookup_dom_iff)
  have "evolves (elem_at b p) e" using i(1) e e0 unfolding heap_inv_def evolves_def elem_at_def by auto
  from heap_put [OF i(1) d this] have "heap_inv ?b" .
  moreover have "queue_inv qr ?b" if "queue_inv qr b" for qr using that unfolding queue_inv_def put_elem_ids [OF id] put_elem_sel(10) dom same .
  moreover have "observer_inv ?b" using i(4) by (simp only: observer_inv_def put_elem_ids [OF id] put_elem_sel same told sums)
  moreover have "both_inv ?b" using i(5) by (simp only: both_inv_def put_elem_ids [OF id] same)
  moreover have r: "record_at ?b = record_at b" by (simp add: record_at_def fun_eq_iff)
  then have "sess_inv ?b" using i(6) by (simp only: sess_inv_def r put_elem_sel(7) dom)
  ultimately have "sched_inv ?b" using i(2,3) by (simp add: sched_inv_def core_inv_def)
  then show ?thesis using dom same by (simp add: calm_def put_elem_ids [OF id] r)
qed

lemma refresh_sel [simp]: "ie_instance (refresh_flags fs e) = ie_instance e" "ie_threadMap (refresh_flags fs e) = ie_threadMap e"
  by (simp_all add: refresh_flags_def)

lemma calm_dom: "calm b b' \<Longrightarrow> fmdom (bc_elems b') = fmdom (bc_elems b)"
  by (simp add: calm_def)

lemma fold_flags_calm:
  "sched_inv b \<Longrightarrow> (\<forall>p\<in>set ps. p |\<in>| fmdom (bc_elems b)) \<Longrightarrow> calm b (fold (\<lambda>p b. put_elem p (refresh_flags fs (elem_at b p)) b) ps b)"
proof (induction ps arbitrary: b)
  case (Cons p ps)
  have c: "calm b (put_elem p (refresh_flags fs (elem_at b p)) b)" using Cons.prems by (intro flags_calm) simp_all
  show ?case using calm_trans [OF c Cons.IH [OF calmD(1) [OF c]]] Cons.prems(2) calm_dom [OF c] by simp
qed (simp add: calm_refl)

lemma fold_update_calm:
  "sched_inv b \<Longrightarrow> (\<forall>p\<in>set ps. p |\<in>| fmdom (bc_elems b)) \<Longrightarrow>
   calm b (fold (\<lambda>p b. snd (queue_UpdateObjByID env qr (ie_ID (elem_at b p)) p b)) ps b)"
proof (induction ps arbitrary: b)
  case (Cons p ps)
  have c: "calm b (snd (queue_UpdateObjByID env qr (ie_ID (elem_at b p)) p b))" using Cons.prems by (intro update_same_calm) simp_all
  show ?case using calm_trans [OF c Cons.IH [OF calmD(1) [OF c]]] Cons.prems(2) calm_dom [OF c] by simp
qed (simp add: calm_refl)

lemma range_queued:
  assumes inv: "core_inv b" and env: "env_lawful env"
  shows "p \<in> set (queue_Range env qr b) \<longleftrightarrow> queued qr b (ie_ID (elem_at b p)) = Some p"
proof -
  have ok: "sq_ok (base_world b) (inner_queue qr b)" using inv by (cases qr) (simp_all add: core_inv_def queue_inv_def)
  have ord: "range_order (se_order env)" using env by (simp add: env_lawful_def)
  have "p \<in> set (queue_Range env qr b) \<longleftrightarrow> p \<in> set (sq_Range (se_order env) (inner_queue qr b))"
    by (simp add: queue_Range_def inner_queue_def split: queueRef.split)
  then show ?thesis using sq_Range_iff(1) [OF ok ord, of p] by (simp add: queued_def getInstanceID_def world_elem)
qed

lemma handleFuncSpecUpdate_inv:
  assumes inv: "sched_inv b" and env: "env_lawful env"
  shows "sched_inv (handleFuncSpecUpdate env qr fs b)"
proof -
  have ci: "core_inv b" using inv by (simp add: sched_inv_def)
  let ?ps = "filter (\<lambda>p. refresh_flags fs (elem_at b p) \<noteq> elem_at b p) (queue_Range env qr b)"
  have d: "\<forall>p\<in>set ?ps. p |\<in>| fmdom (bc_elems b)" using queued_facts(1) [OF ci] range_queued [OF ci env] by auto
  note c = fold_flags_calm [OF inv d, of fs]
  have d': "\<forall>p\<in>set ?ps. p |\<in>| fmdom (bc_elems (fold (\<lambda>p b. put_elem p (refresh_flags fs (elem_at b p)) b) ?ps b))" using d calm_dom [OF c] by simp
  show ?thesis using calmD(1) [OF fold_update_calm [OF calmD(1) [OF c] d']] by (simp add: handleFuncSpecUpdate_def Let_def)
qed

lemma funcSpec_inv: "sched_inv (b\<lparr>bc_funcSpec := fs\<rparr>) = sched_inv b" "sched_inv (b\<lparr>bc_isFuncOwner := o'\<rparr>) = sched_inv b"
  "sched_inv (b\<lparr>bc_concurrentNum := n\<rparr>) = sched_inv b"
proof -
  have v: "sched_view (b\<lparr>bc_funcSpec := fs\<rparr>) = sched_view b" "sched_view (b\<lparr>bc_isFuncOwner := o'\<rparr>) = sched_view b"
    "sched_view (b\<lparr>bc_concurrentNum := n\<rparr>) = sched_view b" by (simp_all add: sched_view_def)
  have r: "record_at (b\<lparr>bc_funcSpec := fs\<rparr>) = record_at b" "record_at (b\<lparr>bc_isFuncOwner := o'\<rparr>) = record_at b"
    "record_at (b\<lparr>bc_concurrentNum := n\<rparr>) = record_at b" by (simp_all add: record_at_def fun_eq_iff)
  show "sched_inv (b\<lparr>bc_funcSpec := fs\<rparr>) = sched_inv b" "sched_inv (b\<lparr>bc_isFuncOwner := o'\<rparr>) = sched_inv b"
    "sched_inv (b\<lparr>bc_concurrentNum := n\<rparr>) = sched_inv b"
    by (simp_all add: sched_inv_def sess_inv_def r view_cong [OF v(1)] view_cong [OF v(2)] view_cong [OF v(3)])
qed

lemma empty_queues:
  "sq_ok w (new_sq reserved_queue)" "sq_ok w (new_sq (scaled_queue n))"
  "sq_GetByID w k (new_sq reserved_queue) = None" "sq_GetByID w k (new_sq (scaled_queue n)) = None"
  by (simp_all add: sq_ok_def new_sq_def reserved_queue_def scaled_queue_def sq_GetByID_def iq_GetByID_def bq_GetByID_def pq_ok_def
      pq_GetByID_map item_pairs_def NewPriorityQueue_def NewDeHeap_def)

text \<open>Starting over with empty queues when the own queue is empty.\<close>

lemma restart_inv:
  assumes inv: "sched_inv b" and e: "\<forall>k. queued SelfQueue b k = None"
    and b': "b' = b\<lparr>bc_concurrentNum := n, bc_selfInstanceQueue := new_oq (scaled_queue n), bc_otherInstanceQueue := new_sq (scaled_queue n)\<rparr>"
  shows "sched_inv b'"
proof -
  have q: "queued qr b' k = None" for qr k by (cases qr) (simp_all add: b' queued_def inner_queue_def new_oq_def empty_queues)
  have el: "elem_at b' = elem_at b" "bc_elems b' = bc_elems b" "record_at b' = record_at b" by (simp_all add: b' elem_at_def record_at_def fun_eq_iff)
  have parts: "avail_part b' p = 0" "total_part b' p = 0" "avail_part b p = 0" "total_part b p = 0" for p
    using e by (simp_all add: avail_part_def total_part_def q)
  have "heap_inv b'" using inv by (simp add: sched_inv_def core_inv_def heap_inv_def b')
  moreover have "queue_inv qr b'" for qr by (cases qr) (simp_all add: queue_inv_def q, simp_all add: b' inner_queue_def new_oq_def empty_queues)
  moreover have "observer_inv b'"
  proof -
    have "observer_inv b" using inv by (simp add: sched_inv_def core_inv_def)
    moreover have "bc_stopped b' = bc_stopped b" "told_avail b' = told_avail b" "told_total b' = told_total b"
      by (simp_all add: b' told_avail_def told_total_def)
    ultimately show ?thesis by (simp add: observer_inv_def q offered_def capacity_def parts el)
  qed
  moreover have "both_inv b'" by (simp add: both_inv_def q)
  moreover have "sess_inv b'" using inv unfolding sched_inv_def sess_inv_def el by (simp add: b')
  ultimately show ?thesis by (simp add: sched_inv_def core_inv_def)
qed

lemma HandleFuncSpecUpdate_inv: "sched_inv b \<Longrightarrow> env_lawful env \<Longrightarrow> sched_inv (bc_HandleFuncSpecUpdate env fs b)"
  by (simp add: bc_HandleFuncSpecUpdate_def handleFuncSpecUpdate_inv funcSpec_inv)

text \<open>
  Reassigning: every visited instance is pushed to the other queue; those that are not evicting are on the
  list of instances to delete from their old queue.
\<close>

definition moved :: "queueRef \<Rightarrow> queueRef \<Rightarrow> basicConcurrencyScheduler \<Rightarrow> string list \<times> basicConcurrencyScheduler \<Rightarrow> bool" where
  "moved src dst b acc \<longleftrightarrow> core_inv (snd acc) \<and> queued src (snd acc) = queued src b \<and> elem_at (snd acc) = elem_at b \<and>
     bc_elems (snd acc) = bc_elems b \<and> bc_sessionManager (snd acc) = bc_sessionManager b \<and>
     (\<forall>k p. queued dst (snd acc) k = Some p \<longrightarrow> queued src b k = Some p \<longrightarrow> ie_Code (elem_at b p) = statusEvicting \<or> k \<in> set (fst acc))"

lemma reassign_one_moved:
  assumes m: "moved src dst b acc" and ne: "src \<noteq> dst" and d: "p |\<in>| fmdom (bc_elems b)"
  shows "moved src dst b (reassign_one env dst becomeOwner p acc)"
proof -
  obtain l c where acc: "acc = (l, c)" by fastforce
  have c: "core_inv c" "queued src c = queued src b" "elem_at c = elem_at b" "bc_elems c = bc_elems b" "bc_sessionManager c = bc_sessionManager b"
    "\<And>k p. queued dst c k = Some p \<Longrightarrow> queued src b k = Some p \<Longrightarrow> ie_Code (elem_at b p) = statusEvicting \<or> k \<in> set l"
    using m by (auto simp: moved_def acc)
  obtain err c' where u: "queue_PushBack env dst p c = (err, c')" by fastforce
  have d': "p |\<in>| fmdom (bc_elems c)" using d c(4) by simp
  note pu = push [OF c(1) d' u refl]
  have common: "core_inv c' \<and> queued src c' = queued src b \<and> elem_at c' = elem_at b \<and> bc_elems c' = bc_elems b \<and> bc_sessionManager c' = bc_sessionManager b"
    using pu ne c by simp
  have dst: "ie_Code (elem_at b q) = statusEvicting \<or> k \<in> set l \<or> k = ie_ID (elem_at b p) \<and> q = p"
    if "queued dst c' k = Some q" "queued src b k = Some q" for k q
    using that pu(3) c(3,6) by (auto split: if_splits)
  show ?thesis
  proof (cases "ie_Code (elem_at b p) = statusEvicting")
    case True
    then have "reassign_one env dst becomeOwner p acc = (l, c')" using u by (simp add: reassign_one_def acc c(3))
    then show ?thesis using common dst True unfolding moved_def by fastforce
  next
    case False
    then have "reassign_one env dst becomeOwner p acc \<in> {acc, (l @ [ie_ID (elem_at b p)], c')}" using u by (simp add: reassign_one_def acc c(3) Let_def)
    moreover have "moved src dst b (l @ [ie_ID (elem_at b p)], c')" using common dst unfolding moved_def by fastforce
    ultimately show ?thesis using m by fastforce
  qed
qed

lemma fold_reassign_moved:
  "moved src dst b acc \<Longrightarrow> src \<noteq> dst \<Longrightarrow> (\<forall>p\<in>set ps. p |\<in>| fmdom (bc_elems b)) \<Longrightarrow>
   moved src dst b (fold (reassign_one env dst becomeOwner) ps acc)"
  by (induction ps arbitrary: acc) (simp_all add: reassign_one_moved)

lemma fold_del:
  "core_inv b \<Longrightarrow> src \<noteq> dst \<Longrightarrow> b' = fold (\<lambda>i b. snd (queue_DelByID env src i b)) l b \<Longrightarrow>
   core_inv b' \<and> (\<forall>k. queued src b' k = (if k \<in> set l then None else queued src b k)) \<and> queued dst b' = queued dst b \<and>
   elem_at b' = elem_at b \<and> bc_elems b' = bc_elems b \<and> bc_sessionManager b' = bc_sessionManager b"
proof (induction l arbitrary: b)
  case (Cons i l)
  obtain err c where u: "queue_DelByID env src i b = (err, c)" by fastforce
  note d = del [OF Cons.prems(1) u]
  show ?case using Cons.IH [OF d(1) Cons.prems(2)] Cons.prems(2,3) d(2-6) u by simp
qed simp

lemma reassign_inv:
  assumes inv: "sched_inv b" and env: "env_lawful env" and ne: "src \<noteq> dst"
  shows "sched_inv (snd (reassignQueues env src dst becomeOwner b))"
proof -
  have ci: "core_inv b" using inv by (simp add: sched_inv_def)
  let ?ps = "queue_Range env src b"
  have "moved src dst b ([], b)" using inv ne ci unfolding moved_def sched_inv_def both_inv_def by (cases src; cases dst) auto
  moreover have "\<forall>p\<in>set ?ps. p |\<in>| fmdom (bc_elems b)" using queued_facts(1) [OF ci] range_queued [OF ci env] by auto
  ultimately have m: "moved src dst b (fold (reassign_one env dst becomeOwner) ?ps ([], b))" by (rule fold_reassign_moved [OF _ ne])
  obtain l c where f: "fold (reassign_one env dst becomeOwner) ?ps ([], b) = (l, c)" by fastforce
  define b' where "b' = fold (\<lambda>i b. snd (queue_DelByID env src i b)) l c"
  have mc: "core_inv c" "queued src c = queued src b" "elem_at c = elem_at b" "bc_elems c = bc_elems b" "bc_sessionManager c = bc_sessionManager b"
    "\<And>k p. queued dst c k = Some p \<Longrightarrow> queued src b k = Some p \<Longrightarrow> ie_Code (elem_at b p) = statusEvicting \<or> k \<in> set l"
    using m unfolding f moved_def by auto
  note d = fold_del [OF mc(1) ne b'_def]
  have "ie_Code (elem_at b' p) = statusEvicting" if "queued src b' k = Some p" "queued dst b' k = Some p" for k p
    using that d mc by (metis option.distinct(1))
  then have "both_inv b'" using ne unfolding both_inv_def by (cases src; cases dst) auto
  moreover have "record_at b' = record_at b" using d mc(5) by (simp add: record_at_def fun_eq_iff)
  then have "sess_inv b'" using inv d mc(4,5) by (simp add: sched_inv_def sess_inv_def)
  ultimately have "sched_inv b'" using d by (simp add: sched_inv_def)
  then show ?thesis by (simp add: reassignQueues_def f b'_def)
qed

lemma HandleFuncOwnerUpdate_inv:
  assumes "sched_inv b" and env: "env_lawful env" shows "sched_inv (HandleFuncOwnerUpdate env o' b)"
proof -
  have "sched_inv (b\<lparr>bc_isFuncOwner := o'\<rparr>)" using assms(1) by (simp add: funcSpec_inv)
  from calmD(1) [OF calm_sessions [OF this keeps_store(5)]]
  have "sched_inv (with_sessions (setFuncOwner o') (b\<lparr>bc_isFuncOwner := o'\<rparr>))" .
  then show ?thesis using reassign_inv [OF _ env] by (cases o') (simp_all add: HandleFuncOwnerUpdate_def Let_def)
qed

lemma Destroy_inv:
  assumes inv: "sched_inv b" shows "sched_inv (bc_Destroy b)"
proof -
  let ?b = "b\<lparr>bc_stopped := True\<rparr>"
  have h: "queued qr ?b = queued qr b" "inner_queue qr ?b = inner_queue qr b" for qr
    by (simp_all add: queued_def inner_queue_def base_world_def fun_eq_iff split: queueRef.split)
  have e: "elem_at ?b = elem_at b" "base_world ?b = base_world b" "record_at ?b = record_at b"
    by (simp_all add: elem_at_def base_world_def record_at_def fun_eq_iff)
  have "sched_inv ?b" using inv
    unfolding sched_inv_def core_inv_def heap_inv_def queue_inv_def observer_inv_def both_inv_def sess_inv_def h e by simp
  from calmD(1) [OF calm_sessions [OF this keeps_store(6)]] have "sched_inv (with_sessions stopAndClean ?b)" .
  from calmD(1) [OF calm_bookkeeping(1) [OF this]] show ?thesis by (simp add: bc_Destroy_def Let_def)
qed

lemma spec_updates_inv:
  assumes inv: "sched_inv b" and env: "env_lawful env"
  shows "sched_inv (rcs_HandleFuncSpecUpdate env fs b)"
    "bc_concurrentNum b = GetConcurrentNum (fs_ConcurrentNum fs) \<or> (\<forall>k. queued SelfQueue b k = None) \<Longrightarrow> sched_inv (scs_HandleFuncSpecUpdate env fs b)"
proof -
  show "sched_inv (rcs_HandleFuncSpecUpdate env fs b)"
    unfolding rcs_HandleFuncSpecUpdate_def by (rule HandleFuncSpecUpdate_inv [OF _ env]) (simp add: funcSpec_inv inv)
  assume "bc_concurrentNum b = GetConcurrentNum (fs_ConcurrentNum fs) \<or> (\<forall>k. queued SelfQueue b k = None)"
  then show "sched_inv (scs_HandleFuncSpecUpdate env fs b)"
    unfolding scs_HandleFuncSpecUpdate_def Let_def
    using HandleFuncSpecUpdate_inv [OF _ env] inv restart_inv [OF inv _ refl] by auto
qed

section \<open>The system\<close>

text \<open>
  One step is one call that holds the lock of the scheduler, or one wake-up of a goroutine. The second lock
  section of an acquire takes any result of the look-up before it, so that other calls may have run in
  between. The guards state what the environment guarantees: an instance that is new to the scheduler has an
  ID of its own and is not used again after it has gone, an update finds the instance in the queue the ring
  assigns it to and keeps its concurrency, an evicting instance does not come back, and session IDs do not
  begin with the separator of the session keys. A scaled scheduler starts over with empty queues when the
  concurrency of the function changes; its own queue has been emptied before.
\<close>

inductive conc_step :: "basicConcurrencyScheduler \<Rightarrow> basicConcurrencyScheduler \<Rightarrow> bool" where
  acquire: "env_lawful env \<Longrightarrow> aq_SessionID req = [] \<or> key_ok (aq_SessionID req) \<Longrightarrow>
    acquire_phase3 env looked rec req b = (res, req', b') \<Longrightarrow> conc_step b b'"
| release: "conc_step b (snd (ReleaseInstance env al b))"
| lease_end: "conc_step b (snd (release_lease env i a b))"
| lease_expiry: "conc_step b (expire_lease env h a b)"
| timer: "unbind_on_timer env r q b = Some b' \<Longrightarrow> conc_step b b'"
| take_cancel: "conc_step b (unbind_take_cancel r q b)"
| end_cancel: "conc_step b (unbind_end_cancel r b)"
| add: "fresh_id (in_InstanceID instance) b \<Longrightarrow> conc_step b (snd (AddInstance env instance b))"
| del: "conc_step b (snd (DelInstance env instance b))"
| update_new: "fresh_id (in_InstanceID instance) b \<Longrightarrow> conc_step b (cs_HandleInstanceUpdate env instance b)"
| update: "queued (queue_of (checkSelfInstanceInternal env b instance)) b (in_InstanceID instance) = Some p \<Longrightarrow>
    update_ok instance (elem_at b p) \<Longrightarrow> conc_step b (cs_HandleInstanceUpdate env instance b)"
| pop: "env_lawful env \<Longrightarrow> popInstanceElement env forward shouldPop wait b = Some (res, b') \<Longrightarrow> conc_step b b'"
| reserved_spec: "env_lawful env \<Longrightarrow> conc_step b (rcs_HandleFuncSpecUpdate env fs b)"
| scaled_spec: "env_lawful env \<Longrightarrow> bc_concurrentNum b = GetConcurrentNum (fs_ConcurrentNum fs) \<or> (\<forall>k. queued SelfQueue b k = None) \<Longrightarrow>
    conc_step b (scs_HandleFuncSpecUpdate env fs b)"
| owner: "env_lawful env \<Longrightarrow> conc_step b (HandleFuncOwnerUpdate env isOwner b)"
| destroy: "conc_step b (bc_Destroy b)"
| clean: "conc_step b (CleanExternalSessionRecords env b)"
| trace: "conc_step b (recordColdStartTrace env t tp b)"
| pop_trace: "conc_step b (snd (PopColdStartTrace env b))"

inductive_cases conc_stepE: "conc_step b b'"

lemma lease_steps:
  assumes inv: "sched_inv b" shows "calm b (snd (release_lease env i a b))" "calm b (expire_lease env h a b)"
proof -
  have g: "calm b (b\<lparr>bc_leaseManager := gm\<rparr>)" for gm by (rule calm_bookkeeping [OF inv])
  have r: "calm b (snd (ReleaseInstance env al (b\<lparr>bc_leaseManager := gm\<rparr>)))" for al gm
    by (rule calm_trans [OF g ReleaseInstance_calm [OF calmD(1) [OF g]]])
  show "calm b (snd (release_lease env i a b))" "calm b (expire_lease env h a b)"
    using g r calm_refl [OF inv] by (simp_all add: release_lease_def expire_lease_def Let_def split: prod.split sum.split option.split)
qed

lemma conc_step_inv: "conc_step b b' \<Longrightarrow> sched_inv b \<Longrightarrow> sched_inv b'"
proof (induction rule: conc_step.induct)
  case (acquire env req looked rec b res req' b')
  then show ?case using acquire_phase3_calm calmD(1) by blast
next
  case (update_new ins b env)
  have "queued qr b (in_InstanceID ins) = None" for qr
    using update_new queued_facts(1,2) unfolding sched_inv_def fresh_id_def by (metis not_None_eq)
  then show ?case using push_new_inv [OF update_new(2,1)] by (simp add: cs_HandleInstanceUpdate_def queue_GetByID_queued Let_def)
next
  case (pop env forward shouldPop wait b res b')
  then show ?case using pop_now_inv by (auto simp: popInstanceElement_def split: if_splits)
next
  case (trace b env t tp)
  then show ?case using calmD(1) [OF calm_bookkeeping(3)] by (simp add: recordColdStartTrace_def Let_def)
next
  case (pop_trace b env)
  then show ?case using calmD(1) [OF calm_bookkeeping(3)] by (simp add: PopColdStartTrace_def split: list.split)
next
  case (release b env al)
  then show ?case by (rule calmD(1) [OF ReleaseInstance_calm])
next
  case (lease_end b env i a)
  then show ?case by (rule calmD(1) [OF lease_steps(1)])
next
  case (lease_expiry b env h a)
  then show ?case by (rule calmD(1) [OF lease_steps(2)])
next
  case (timer env r q b b')
  then show ?case using unbind_calm calmD(1) by blast
next
  case (add ins b env)
  then show ?case using push_new_inv by (simp add: AddInstance_def)
next
  case (clean b env)
  then show ?case using calmD(1) [OF calm_sessions [OF _ keeps_store(7)]] by (simp add: CleanExternalSessionRecords_def)
qed (simp_all add: calmD(1) [OF cancel_calm(1)] calmD(1) [OF cancel_calm(2)] DelInstance_inv HandleInstanceUpdate_inv spec_updates_inv
    HandleFuncOwnerUpdate_inv Destroy_inv)

text \<open>The states a scheduler can reach from its construction.\<close>

definition sched_start :: "basicConcurrencyScheduler \<Rightarrow> bool" where
  "sched_start b \<longleftrightarrow> (\<exists>env g leaseSpan fs name resKey.
     b = NewReservedConcurrencyScheduler env g leaseSpan fs name resKey \<or> b = NewScaledConcurrencyScheduler env g leaseSpan fs name resKey)"

definition conc_reach :: "basicConcurrencyScheduler \<Rightarrow> bool" where
  "conc_reach b \<longleftrightarrow> (\<exists>b0. sched_start b0 \<and> conc_step\<^sup>*\<^sup>* b0 b)"

lemma new_inv:
  assumes "q = reserved_queue \<or> (\<exists>n. q = scaled_queue n)"
  shows "sched_inv (newBasicConcurrencyScheduler env g leaseSpan fs name resKey q q)"
proof -
  let ?b = "newBasicConcurrencyScheduler env g leaseSpan fs name resKey q q"
  have f: "bc_elems ?b = fmempty" "bc_published ?b = []" "bc_selfInstanceQueue ?b = new_oq q" "bc_otherInstanceQueue ?b = new_sq q"
    "sm_sessionMap (bc_sessionManager ?b) = fmempty" "sm_records (bc_sessionManager ?b) = fmempty"
    by (simp_all add: newBasicConcurrencyScheduler_def Let_def makeSessionManager_def setFuncOwner_def)
  have q: "queued qr ?b k = None" for qr k
    using assms by (cases qr) (auto simp: queued_def inner_queue_def f new_oq_def empty_queues)
  have "queue_inv qr ?b" for qr
    using assms by (cases qr) (auto simp: queue_inv_def q inner_queue_def f new_oq_def empty_queues)
  then show ?thesis
    by (simp add: sched_inv_def core_inv_def heap_inv_def observer_inv_def both_inv_def sess_inv_def q f told_avail_def told_total_def
        offered_def capacity_def record_at_def)
qed

text \<open>
  Four guards of \<open>conc_step\<close> are not checks of the code: a session ID does not begin with the separator of
  the session keys, an instance ID is not used again for another instance, an update keeps the concurrency
  of an instance and does not bring an evicting one back, and the concurrency of a function is not changed
  while it has instances. The code takes such a step too; \<open>conc_move\<close> has all steps, labelled with whether
  they are irregular in one of these ways.
\<close>

inductive conc_move :: "bool \<Rightarrow> basicConcurrencyScheduler \<Rightarrow> basicConcurrencyScheduler \<Rightarrow> bool" where
  regular: "conc_step b b' \<Longrightarrow> conc_move False b b'"
| odd_session: "env_lawful env \<Longrightarrow> \<not> (aq_SessionID req = [] \<or> key_ok (aq_SessionID req)) \<Longrightarrow>
    acquire_phase3 env looked rec req b = (res, req', b') \<Longrightarrow> conc_move True b b'"
| reused_id: "\<not> fresh_id (in_InstanceID instance) b \<Longrightarrow> conc_move True b (snd (AddInstance env instance b))"
| odd_update: "\<not> fresh_id (in_InstanceID instance) b \<Longrightarrow>
    \<not> (\<exists>p. queued (queue_of (checkSelfInstanceInternal env b instance)) b (in_InstanceID instance) = Some p \<and>
          update_ok instance (elem_at b p)) \<Longrightarrow> conc_move True b (cs_HandleInstanceUpdate env instance b)"
| changed_concurrency: "env_lawful env \<Longrightarrow> bc_concurrentNum b \<noteq> GetConcurrentNum (fs_ConcurrentNum fs) \<Longrightarrow>
    queued SelfQueue b k \<noteq> None \<Longrightarrow> conc_move True b (scs_HandleFuncSpecUpdate env fs b)"

inductive_simps conc_move_False: "conc_move False b b'"

inductive conc_run :: "bool list \<Rightarrow> basicConcurrencyScheduler \<Rightarrow> bool" where
  conc_run_start: "sched_start b \<Longrightarrow> conc_run [] b"
| conc_run_move: "conc_run cs b \<Longrightarrow> conc_move c b b' \<Longrightarrow> conc_run (c # cs) b'"

lemma every_event_moves:
  "\<exists>c. conc_move c b (snd (AddInstance env instance b))"
  "\<exists>c. conc_move c b (cs_HandleInstanceUpdate env instance b)"
  "env_lawful env \<Longrightarrow> \<exists>c. conc_move c b (scs_HandleFuncSpecUpdate env fs b)"
  "env_lawful env \<Longrightarrow> acquire_phase3 env looked rec req b = (res, req', b') \<Longrightarrow> \<exists>c. conc_move c b b'"
  by (meson regular reused_id conc_step.add,
      meson regular odd_update conc_step.update conc_step.update_new,
      meson regular changed_concurrency conc_step.scaled_spec,
      meson regular odd_session conc_step.acquire)

lemma conc_run_reach: "conc_run cs b \<Longrightarrow> True \<notin> set cs \<Longrightarrow> conc_reach b"
proof (induction rule: conc_run.induct)
  case (conc_run_start b)
  then show ?case by (auto simp: conc_reach_def)
next
  case (conc_run_move cs b c b')
  then have "conc_step b b'" by (simp add: conc_move_False)
  with conc_run_move show ?case by (auto simp: conc_reach_def intro: rtranclp.rtrancl_into_rtrancl)
qed

lemma conc_reach_run:
  assumes "conc_reach b" obtains cs where "conc_run cs b" "True \<notin> set cs"
proof -
  obtain b0 where b0: "sched_start b0" "conc_step\<^sup>*\<^sup>* b0 b" using assms unfolding conc_reach_def by blast
  from b0(2) have "\<exists>cs. conc_run cs b \<and> True \<notin> set cs"
  proof (induction rule: rtranclp_induct)
    case base
    then show ?case using conc_run_start [OF b0(1)] by force
  next
    case (step y z)
    then show ?case using conc_run_move [OF _ regular] by (metis set_ConsD)
  qed
  with that show ?thesis by blast
qed

lemma reach_inv: "conc_reach b \<Longrightarrow> sched_inv b"
proof -
  assume "conc_reach b"
  then obtain b0 where s: "sched_start b0" and r: "conc_step\<^sup>*\<^sup>* b0 b" unfolding conc_reach_def by blast
  have "sched_inv b0" using s
    by (auto simp: sched_start_def NewReservedConcurrencyScheduler_def NewScaledConcurrencyScheduler_def Let_def intro!: new_inv)
  with r show ?thesis by (induction rule: rtranclp_induct) (auto intro: conc_step_inv)
qed

end
