(* ===== verification/ConcurrencyProps.thy ===== *)
theory ConcurrencyProps
  imports ConcurrencySystem
begin

text \<open>
  What the concurrency schedulers promise their callers, in every state they can reach: how many threads an
  instance offers, what the scalers are told, where the requests of a session go, and what happens when a
  request names another instance than the one its session is bound to.
\<close>

section \<open>A small scheduler for the witnesses\<close>

definition env1 :: schedEnv where
  "env1 = \<lparr>se_self = \<lparr>si_SelfInstanceID = ''s1'', si_SelfInstanceName = ''s1'', si_KeyPrefixType = None\<rparr>,
     se_proxy = NewSchedulerProxy NewSimpleCHGeneric, se_updating = False,
     se_now = 0, se_prefix = ''x'', se_pick = (\<lambda>m. hd (sorted_list_of_set (fset m))), se_threads = (\<lambda>m. sorted_list_of_set (fset m)),
     se_order = (\<lambda>m. sorted_list_of_set (fmdom' m))\<rparr>"

definition spec1 :: SchedFuncSpec where
  "spec1 = \<lparr>fs_FuncKey = ''f'', fs_EnableSessionCtx = False, fs_ConcurrentNum = 3, fs_SchedulePolicy = [], fs_FuncMetaSignature = ''v1'',
     fs_PriorityAZ = [], fs_EnableAgentSession = False\<rparr>"

definition instance1 :: "string \<Rightarrow> SchedInstance" where
  "instance1 i = \<lparr>in_InstanceID = i, in_FuncKey = ''f'', in_ConcurrentNum = 3, in_Code = statusRunning, in_InstanceIP = [],
        in_InstancePort = [], in_NodeIP = [], in_NodePort = [], in_FuncSig = ''v1'', in_FunctionProxyID = [],
        in_RouteAddress = [], in_AZ = [], in_SessionCtxID = None, in_CreateSchedulerID = ''s1'', in_Permanent = True\<rparr>"

definition settings1 :: storeSettings where
  "settings1 = \<lparr>st_Backend = [], st_BackendTTLSeconds = 0, st_CurrentCluster = [], st_UploadWriteMode = 0, st_PodIP = [], st_HostIP = []\<rparr>"

text \<open>A fresh scheduler, its session label left open.\<close>

definition fresh1 :: "string \<Rightarrow> basicConcurrencyScheduler" where
  "fresh1 label =
     \<lparr>bc_funcSpec = spec1, bc_leaseManager = NewGenericLeaseManager ''f-r'',
      bc_selfInstanceQueue = new_oq (scaled_queue 3), bc_otherInstanceQueue = new_sq (scaled_queue 3),
      bc_sessionManager = setFuncOwner False (makeSessionManager settings1 label NoopStore),
      bc_funcKeyWithRes = ''f-r'', bc_concurrentNum = 3, bc_isFuncOwner = False, bc_stopped = False,
      bc_leaseInterval = 500 * millisecond, bc_elems = fmempty, bc_nextElem = 0, bc_waiters = fmempty, bc_published = [],
      bc_coldStartTraceQueue = []\<rparr>"

definition one_instance :: "string \<Rightarrow> basicConcurrencyScheduler" where
  "one_instance label = snd (AddInstance env1 (instance1 ''i1'') (fresh1 label))"

definition req1 :: InstanceAcquireRequest where
  "req1 = \<lparr>aq_InstanceSession = \<lparr>isc_SessionID = ''a'', isc_SessionTTL = 1, isc_Concurrency = 2\<rparr>, aq_DesignateInstanceID = [],
     aq_DesignateThreadID = [], aq_TraceID = [], aq_TraceParent = [], aq_TrafficLimited = True, aq_SessionCtxID = [], aq_SkipWaitPending = False\<rparr>"

definition bound1 :: "string \<Rightarrow> basicConcurrencyScheduler" where
  "bound1 label = snd (snd (acquire_phase3 env1 ([], True) None req1 (one_instance label)))"

definition two_instances :: "string \<Rightarrow> basicConcurrencyScheduler" where
  "two_instances label = snd (AddInstance env1 (instance1 ''i2'') (bound1 label))"

lemma env1_lawful: "env_lawful env1"
proof -
  have "hd (sorted_list_of_set (fset m)) |\<in>| m" if "m \<noteq> {||}" for m :: "string fset"
  proof -
    have "sorted_list_of_set (fset m) \<noteq> []" using that by (auto simp: sorted_list_of_set_eq_Nil_iff)
    from hd_in_set [OF this] show ?thesis by simp
  qed
  then show ?thesis by (simp add: env_lawful_def env1_def picks_def range_order_sorted)
qed

lemma store1: "MakeStore settings1 ''f'' = NoopStore"
  by code_simp

lemma fresh1_start: "\<exists>label. sched_start (fresh1 label)"
proof -
  have not_owner: "\<not> IsFuncOwner (se_self env1) (se_proxy env1) ''f''"
    by (simp add: IsFuncOwner_def CheckFuncOwner_def CheckHashOwner_def selectHashOwner_def env1_def NewSchedulerProxy_def Let_def)
  have "NewScaledConcurrencyScheduler env1 settings1 0 spec1 ''f'' ''r'' =
      fresh1 (makeSessionCacheKey ''f'' ''f-r'')"
    by (simp add: NewScaledConcurrencyScheduler_def newBasicConcurrencyScheduler_def fresh1_def spec1_def GetConcurrentNum_def Let_def
        store1 not_owner)
  then show ?thesis unfolding sched_start_def by metis
qed

lemma reach1:
  obtains label where "conc_reach (fresh1 label)" "conc_reach (one_instance label)" "conc_reach (bound1 label)"
    "conc_reach (two_instances label)"
proof -
  obtain label where f: "sched_start (fresh1 label)" using fresh1_start by blast
  let ?f = "fresh1 label" and ?o = "one_instance label" and ?b = "bound1 label"
  have "fresh_id ''i1'' ?f" by (simp add: fresh_id_def fresh1_def)
  then have s1: "conc_step ?f ?o" unfolding one_instance_def by (intro conc_step.add) (simp add: instance1_def)
  have k: "aq_SessionID req1 = [] \<or> key_ok (aq_SessionID req1)" by (simp add: req1_def key_ok_def)
  obtain res req' where "acquire_phase3 env1 ([], True) None req1 ?o = (res, req', ?b)" unfolding bound1_def by (metis prod.collapse)
  then have s2: "conc_step ?o ?b" by (rule conc_step.acquire [OF env1_lawful k])
  have "fBall (fmdom (bc_elems ?b)) (\<lambda>p. ie_ID (elem_at ?b p) \<noteq> ''i2'')" by code_simp
  then have "fresh_id ''i2'' ?b" by (auto simp: fresh_id_def)
  then have s3: "conc_step ?b (two_instances label)" unfolding two_instances_def by (intro conc_step.add) (simp add: instance1_def)
  have "conc_reach ?f" "conc_reach ?o" "conc_reach ?b" "conc_reach (two_instances label)"
    using f s1 s2 s3 unfolding conc_reach_def by (blast intro: rtranclp.rtrancl_into_rtrancl)+
  then show thesis by (rule that)
qed

section \<open>Threads and what is told of them\<close>

text \<open>
  C8: An instance that a queue gives for an ID has that ID, has one of the three statuses the queues know, and
  never offers more threads than its concurrency.
\<close>

theorem threads_bounded:
  assumes "conc_reach b" and "queue_GetByID env qr k b = Some p"
  shows "ie_ID (elem_at b p) = k \<and> placed (elem_at b p) \<and> ie_avail (elem_at b p) \<le> max 0 (ie_ConcurrentNum (elem_at b p))"
proof -
  have inv: "core_inv b" using reach_inv [OF assms(1)] by (simp add: sched_inv_def)
  have q: "queued qr b k = Some p" using assms(2) by (simp add: queue_GetByID_queued)
  note hf = queued_facts [OF inv q]
  obtain e where "fmlookup (bc_elems b) p = Some e" using hf(1) by (meson fmlookup_dom_iff)
  then have "ie_avail (elem_at b p) \<le> max 0 (ie_ConcurrentNum (elem_at b p))"
    using inv unfolding core_inv_def heap_inv_def by (auto simp: elem_at_def)
  then show ?thesis using hf(2,4) by blast
qed

theorem threads_bounded_witness:
  "\<exists>b. conc_reach b \<and> queue_GetByID env1 SelfQueue ''i1'' b = Some 0 \<and> ie_avail (elem_at b 0) \<le> 3"
proof -
  obtain label where r: "conc_reach (one_instance label)" by (rule reach1)
  have q: "queue_GetByID env1 SelfQueue ''i1'' (one_instance label) = Some 0" by code_simp
  have "ie_ConcurrentNum (elem_at (one_instance label) 0) = 3" by code_simp
  then show ?thesis using threads_bounded [OF r q] r q by auto
qed

text \<open>
  C9: After every run of the scheduler in which no step is irregular (in particular the concurrency of the
  function is not changed while it has instances: such a change replaces the queue and publishes nothing),
  and as long as the scheduler is not stopped, the numbers it has published add up to what its own queue
  holds: the available threads of the running instances, and the concurrency of the running and the
  sub-healthy ones. Instances being evicted are not counted.
\<close>

theorem observers_exact:
  assumes "conc_run cs b" and "True \<notin> set cs" and "env_lawful env" and "\<not> bc_stopped b"
  shows "sum_list (map pub_avail (bc_published b)) =
      (\<Sum>p\<in>set (queue_Range env SelfQueue b). if ie_Code (elem_at b p) = statusRunning then ie_avail (elem_at b p) else 0) \<and>
    sum_list (map pub_total (bc_published b)) =
      (\<Sum>p\<in>set (queue_Range env SelfQueue b). if ie_Code (elem_at b p) \<noteq> statusEvicting then ie_ConcurrentNum (elem_at b p) else 0)"
proof -
  have inv: "core_inv b" using reach_inv [OF conc_run_reach [OF assms(1,2)]] by (simp add: sched_inv_def)
  let ?D = "fset (fmdom (bc_elems b))" and ?R = "set (queue_Range env SelfQueue b)"
  have sub: "?R \<subseteq> ?D" using range_queued [OF inv assms(3)] queued_facts(1) [OF inv] by blast
  have part: "avail_part b p = (if p \<in> ?R then if ie_Code (elem_at b p) = statusRunning then ie_avail (elem_at b p) else 0 else 0)"
    "total_part b p = (if p \<in> ?R then if ie_Code (elem_at b p) \<noteq> statusEvicting then ie_ConcurrentNum (elem_at b p) else 0 else 0)" for p
    by (simp_all add: avail_part_def total_part_def range_queued [OF inv assms(3)])
  have cut: "(\<Sum>p\<in>?D. if p \<in> ?R then f p else 0) = sum f ?R" for f :: "nat \<Rightarrow> int"
    using sum.inter_restrict [of ?D f ?R] sub by (simp add: Int_absorb1)
  have "observer_inv b" using inv by (simp add: core_inv_def)
  then have "told_avail b = offered b" "told_total b = capacity b" using assms(4) by (simp_all add: observer_inv_def)
  then show ?thesis unfolding told_avail_def told_total_def offered_def capacity_def part cut by simp
qed

theorem observers_exact_witness:
  "\<exists>cs b. conc_run cs b \<and> True \<notin> set cs \<and> \<not> bc_stopped b \<and> set (queue_Range env1 SelfQueue b) = {0} \<and>
     sum_list (map pub_avail (bc_published b)) = 1 \<and> sum_list (map pub_total (bc_published b)) = 3"
proof -
  obtain label where "conc_reach (bound1 label)" by (rule reach1)
  then obtain cs where r: "conc_run cs (bound1 label)" "True \<notin> set cs" by (rule conc_reach_run)
  let ?facts = "\<lambda>b. (bc_stopped b, queue_Range env1 SelfQueue b, ie_avail (elem_at b 0), ie_ConcurrentNum (elem_at b 0), ie_Code (elem_at b 0))"
  have "(let b = bound1 label in ?facts b) = (False, [0], 1, 3, statusRunning)" by code_simp
  then have f: "\<not> bc_stopped (bound1 label)" "set (queue_Range env1 SelfQueue (bound1 label)) = {0}"
    "ie_avail (elem_at (bound1 label) 0) = 1" "ie_ConcurrentNum (elem_at (bound1 label) 0) = 3"
    "ie_Code (elem_at (bound1 label) 0) = statusRunning" by (simp_all add: Let_def)
  then show ?thesis using observers_exact [OF r env1_lawful f(1)] r by (intro exI [of _ cs] exI [of _ "bound1 label"]) simp
qed

section \<open>Where the requests of a session go\<close>

lemma acquireInstanceThread_err:
  assumes "sched_inv b" and "queued qr b (ie_ID (elem_at b p)) = Some p" and "acquireInstanceThread env t qr p b = (Inl e, b')"
  shows "e = ErrNoInsAvailable"
proof -
  obtain tid e' where g: "GetThreadFromThreadMap (se_pick env) (elem_at b p) = (tid, e')" by fastforce
  have k: "ie_ID e' = ie_ID (elem_at b p)" using get_thread_move [OF g] by (simp add: thread_move_def)
  obtain err b1 where u: "queue_UpdateObjByID env qr (ie_ID (elem_at b p)) p (put_elem p e' b) = (err, b1)" by fastforce
  then show ?thesis using calm_threads(2) [OF assms(1,2) get_thread_move [OF g] u] assms(3) g
    by (auto simp: acquireInstanceThread_def Let_def k split: if_splits)
qed

lemma overAcq_err:
  assumes "sched_inv b" and "record_at b r = Some rec" and "queued qr b (ie_ID (elem_at b (the (sn_insElem rec)))) \<noteq> None"
    and "acquireInstanceWithOverAcqSession env qr r req b = (Inl e, b')"
  shows "e \<noteq> ErrInsNotExist"
  using assms(2,4) acquireInstanceThread_err [OF assms(1) queued_record [OF assms(1-3)]]
  by (auto simp: acquireInstanceWithOverAcqSession_def createOverAcqThread_def Let_def split: if_splits sum.splits prod.splits)

lemma sessionThread_err: "acquireSessionThread env t cfg ctx b = (Inl e, b') \<Longrightarrow> e = ErrInternal \<or> e = ErrNoInsThdAvail"
  by (auto simp: acquireSessionThread_def Let_def split: option.splits if_splits sum.splits)

lemma designate_thread_result:
  assumes inv: "sched_inv b" and s: "getSession (getSessionCacheKey b (aq_SessionID req) (aq_SessionCtxID req)) (bc_sessionManager b) = Some (r, rec)"
    and h: "queued qr b (ie_ID (elem_at b (the (sn_insElem rec)))) \<noteq> None" and d: "designate_thread env qr r req b = (res, req', b')"
  shows "req' = req" "res = Inr al \<Longrightarrow> ia_Instance al = ie_instance (elem_at b (the (sn_insElem rec)))" "res \<noteq> Inl ErrInsNotExist"
    "sn_availThdMap rec \<noteq> {||} \<Longrightarrow> aq_DesignateThreadID req = [] \<Longrightarrow> \<exists>al. res = Inr al"
proof -
  obtain res1 b1 where t: "acquireSessionThread env (aq_DesignateThreadID req) (aq_InstanceSession req) (aq_SessionCtxID req) b = (res1, b1)"
    by fastforce
  note c = acquireSessionThread_calm [OF inv t]
  have rec: "record_at b r = Some rec" using s getSession_iff(1) [OF inv] by blast
  obtain rec1 where r1: "record_at b1 r = Some rec1" "sn_insElem rec1 = sn_insElem rec" using c(1) rec unfolding calm_def by blast
  have h1: "queued qr b1 (ie_ID (elem_at b1 (the (sn_insElem rec1)))) \<noteq> None" using h by (simp add: calmD [OF c(1)] r1(2))
  obtain res2 b2 where o: "acquireInstanceWithOverAcqSession env qr r req b1 = (res2, b2)" by fastforce
  note oc = overAcq_calm(2) [OF calmD(1) [OF c(1)] r1(1) o h1] overAcq_err [OF calmD(1) [OF c(1)] r1(1) h1]
  show "req' = req" using d by (auto simp: designate_thread_def split: prod.splits sum.splits sched_error.splits)
  have res: "res = (if res1 = Inl ErrNoInsThdAvail then res2 else res1)"
    using d t o by (auto simp: designate_thread_def split: sum.splits sched_error.splits)
  show "ia_Instance al = ie_instance (elem_at b (the (sn_insElem rec)))" if "res = Inr al"
  proof (cases "res1 = Inl ErrNoInsThdAvail")
    case True
    then show ?thesis using oc(1) [of al] res that by (simp add: calmD(3) [OF c(1)] r1(2))
  next
    case False
    then have "res1 = Inr al" using res that by simp
    from c(3) [OF this] s show ?thesis by auto
  qed
  have "res1 \<noteq> Inl ErrInsNotExist" using sessionThread_err t by blast
  then show "res \<noteq> Inl ErrInsNotExist" using res oc(2) o by auto
  show "\<exists>al. res = Inr al" if "sn_availThdMap rec \<noteq> {||}" "aq_DesignateThreadID req = []"
  proof -
    have "\<exists>al. res1 = Inr al" using t s that
      by (auto simp: acquireSessionThread_def Let_def GetOrReplaceDesignateThreadFromAvailThdMap_def split: if_splits prod.splits)
    then show ?thesis using res by auto
  qed
qed

lemma with_lease_result: "with_lease env qr al b = (res, b') \<Longrightarrow> res = Inr al \<or> (\<exists>e. res = Inl (LeaseError e))"
  by (auto simp: with_lease_def split: prod.splits option.splits)

text \<open>
  C10: An acquire that names a session and no instance, whose session is bound to an instance of this
  scheduler that is in one of the queues and serves the session context of the request, gives a thread of
  that instance or none, whatever the store says. When moreover the request names no thread, the session has
  a thread to spare and the instance is not sub-healthy, the acquire does not fail with a scheduling error:
  it gives the thread, or its lease cannot be created.
\<close>

theorem session_sticks:
  assumes reach: "conc_reach b" and key: "aq_SessionID req \<noteq> []" and des: "aq_DesignateInstanceID req = []"
    and s: "getSession (getSessionCacheKey b (aq_SessionID req) (aq_SessionCtxID req)) (bc_sessionManager b) = Some (r, rec)"
    and p: "sn_insElem rec = Some p" and id: "ie_ID (elem_at b p) \<noteq> []"
    and here: "queue_GetByID env qr (ie_ID (elem_at b p)) b \<noteq> None" and ctx: "\<not> ctx_mismatch b req (elem_at b p)"
    and a: "acquireWithSessionResolve env fromStore req b = (res, req', b')"
  shows "(\<forall>al. res = Inr al \<longrightarrow> ia_Instance al = ie_instance (elem_at b p)) \<and>
    (sn_availThdMap rec \<noteq> {||} \<and> aq_DesignateThreadID req = [] \<and> ie_Code (elem_at b p) \<noteq> statusSubHealth \<longrightarrow>
      (\<forall>e. res \<noteq> Inl (SchedError e)))"
proof -
  have inv: "sched_inv b" by (rule reach_inv [OF reach])
  have rec: "record_at b r = Some rec" using s getSession_iff(1) [OF inv] by blast
  let ?req = "req\<lparr>aq_DesignateInstanceID := ie_ID (elem_at b p)\<rparr>"
  let ?qr = "queue_of (routeDesignateInstance env ?req (bc_isFuncOwner b \<or> aq_TrafficLimited req) b)"
  have "acquire_phase1 req b = ((getSessionCacheKey b (aq_SessionID req) (aq_SessionCtxID req), True), ?req)"
    using key des s p by (simp add: acquire_phase1_def noNeedQuerySession_def peekLocalSession_def)
  then have ai: "acquireInstanceInternal env ?qr ?req b = (res, req', b')"
    using a by (simp add: acquireWithSessionResolve_def acquire_phase3_def)
  have "queued ?qr b (ie_ID (elem_at b p)) \<noteq> None"
    using here id by (cases qr) (auto simp: routeDesignateInstance_def queue_GetByID_queued queue_of_def)
  then have q: "queued ?qr b (ie_ID (elem_at b (the (sn_insElem rec)))) \<noteq> None" by (simp add: p)
  have get: "queue_GetByID env ?qr (ie_ID (elem_at b p)) b = Some p"
    using queued_record [OF inv rec q] by (simp add: p queue_GetByID_queued)
  obtain dres dreq db where d: "designate_thread env ?qr r ?req b = (dres, dreq, db)" by (metis prod_cases3)
  have s': "getSession (getSessionCacheKey b (aq_SessionID ?req) (aq_SessionCtxID ?req)) (bc_sessionManager b) = Some (r, rec)" using s by simp
  note dr = designate_thread_result [OF inv s' q d]
  have ctx': "\<not> ctx_mismatch b ?req (elem_at b p)" using ctx by (simp add: ctx_mismatch_def)
  have ad: "acquireDesignateInstance env ?qr ?req b = (if ie_Code (elem_at b p) = statusSubHealth then (Inl ErrInsSubHealthy, ?req, b) else (dres, dreq, db))"
    using get key ctx' s p d by (simp add: acquireDesignateInstance_def Let_def)
  have bk: "acquire_by_kind env ?qr ?req b = (if ie_Code (elem_at b p) = statusSubHealth then (Inl ErrInsSubHealthy, ?req, b) else (dres, dreq, db))"
    using ad id dr(3) by (auto simp: acquire_by_kind_def split: sum.split sched_error.split)
  show ?thesis
  proof (cases "ie_Code (elem_at b p) = statusSubHealth")
    case True
    then show ?thesis using ai bk by (auto simp: acquireInstanceInternal_def)
  next
    case False
    then show ?thesis using ai bk dr(2,4) with_lease_result p
      by (auto simp: acquireInstanceInternal_def split: sum.splits prod.splits) blast+
  qed
qed

theorem session_sticks_witness:
  "\<exists>b al. conc_reach b \<and> fst (acquireWithSessionResolve env1 (\<lambda>_. None) req1 b) = Inr al \<and> ia_Instance al = instance1 ''i1''"
proof -
  obtain label where r: "conc_reach (bound1 label)" by (rule reach1)
  let ?b = "bound1 label" and ?key = "getSessionCacheKey (bound1 label) ''a'' []"
  have "map_option (\<lambda>(r, rec). (r, sn_insElem rec, sn_availThdMap rec = {||})) (getSession ?key (bc_sessionManager ?b)) = Some (0, Some 0, False)"
    by code_simp
  then obtain rec where rec: "getSession ?key (bc_sessionManager ?b) = Some (0, rec)" "sn_insElem rec = Some 0" "sn_availThdMap rec \<noteq> {||}" by auto
  have e: "ie_instance (elem_at ?b 0) = instance1 ''i1''" by code_simp
  have q: "queue_GetByID env1 SelfQueue ''i1'' ?b \<noteq> None" by code_simp
  have m: "\<not> ctx_mismatch ?b req1 (elem_at ?b 0)" by (simp add: ctx_mismatch_def req1_def)
  obtain res req' b' where a: "acquireWithSessionResolve env1 (\<lambda>_. None) req1 ?b = (res, req', b')" by (metis prod_cases3)
  have "case fst (acquireWithSessionResolve env1 (\<lambda>_. None) req1 ?b) of Inl (LeaseError _) \<Rightarrow> False | _ \<Rightarrow> True"
    by code_simp
  then have nl: "\<And>e. res \<noteq> Inl (LeaseError e)" by (auto simp: a)
  from session_sticks [OF r _ _ _ rec(2) _ _ m a, where qr = SelfQueue] rec e q
  have "(\<forall>al. res = Inr al \<longrightarrow> ia_Instance al = instance1 ''i1'') \<and> (\<forall>e. res \<noteq> Inl (SchedError e))"
    by (simp add: req1_def instance1_def)
  moreover have "\<exists>al. res = Inr al \<or> (\<exists>e. res = Inl (SchedError e))" using nl by (metis acquire_error.exhaust sumE)
  ultimately show ?thesis using r a by auto
qed

text \<open>
  A session that is bound to one instance and names another one in its request is refused with an internal
  error and nothing changes, although the session ID is cleared so that the named instance should be used.
\<close>

theorem designated_conflict_refused:
  assumes reach: "conc_reach b" and key: "aq_SessionID req \<noteq> []" and des: "aq_DesignateInstanceID req = d" "d \<noteq> []"
    and get: "queue_GetByID env (queue_of (routeDesignateInstance env req (bc_isFuncOwner b \<or> aq_TrafficLimited req) b)) d b = Some q"
    and ok: "ie_Code (elem_at b q) \<noteq> statusSubHealth" "\<not> ctx_mismatch b req (elem_at b q)"
    and s: "getSession (getSessionCacheKey b (aq_SessionID req) (aq_SessionCtxID req)) (bc_sessionManager b) = Some (r, rec)"
    and other: "ie_ID (elem_at b (the (sn_insElem rec))) \<noteq> d"
  shows "acquireWithSessionResolve env fromStore req b = (Inl (SchedError ErrInternal), clear_session req, b)"
proof -
  have inv: "sched_inv b" by (rule reach_inv [OF reach])
  have "acquire_phase1 req b = (([], True), req)" using des by (simp add: acquire_phase1_def noNeedQuerySession_def)
  moreover have "acquireDesignateInstance env (queue_of (routeDesignateInstance env req (bc_isFuncOwner b \<or> aq_TrafficLimited req) b)) req b =
      (Inl ErrInternal, clear_session req, b)"
    using get ok s other key des designate_cleared [OF inv] by (simp add: acquireDesignateInstance_def Let_def)
  ultimately show ?thesis using des by (simp add: acquireWithSessionResolve_def acquire_phase3_def acquireInstanceInternal_def acquire_by_kind_def)
qed

definition req2 :: InstanceAcquireRequest where
  "req2 = req1\<lparr>aq_DesignateInstanceID := ''i2''\<rparr>"

theorem designated_conflict_refused_witness:
  "\<exists>b. conc_reach b \<and> acquireWithSessionResolve env1 (\<lambda>_. None) req2 b = (Inl (SchedError ErrInternal), clear_session req2, b)"
proof -
  obtain label where r: "conc_reach (two_instances label)" by (rule reach1)
  let ?b = "two_instances label" and ?key = "getSessionCacheKey (two_instances label) ''a'' []"
  have "map_option (\<lambda>(r, rec). (r, sn_insElem rec)) (getSession ?key (bc_sessionManager ?b)) = Some (0, Some 0)" by code_simp
  then obtain rec where rec: "getSession ?key (bc_sessionManager ?b) = Some (0, rec)" "sn_insElem rec = Some 0" by auto
  have q: "queue_GetByID env1 (queue_of (routeDesignateInstance env1 req2 (bc_isFuncOwner ?b \<or> aq_TrafficLimited req2) ?b)) ''i2'' ?b = Some 1"
    by code_simp
  have e: "ie_instance (elem_at ?b 0) = instance1 ''i1''" "ie_instance (elem_at ?b 1) = instance1 ''i2''" by code_simp+
  have m: "\<not> ctx_mismatch ?b req2 (elem_at ?b 1)" by (simp add: ctx_mismatch_def req1_def req2_def)
  from designated_conflict_refused [OF r _ _ _ q _ m, where r = 0 and rec = rec and fromStore = "\<lambda>_. None"] rec e r show ?thesis
    by (auto simp: req1_def req2_def instance1_def)
qed

end
