(* ===== verification/FifoQueue.thy ===== *)
theory FifoQueue
  imports PriorityQueue
begin

text \<open>
  The first-in first-out queue (\<^verbatim>\<open>faas_common/queue/fifoqueue.go\<close>), and what both queues of the package
  promise to a client that pushes and pops.
\<close>

section \<open>The queue\<close>

text \<open>
  The linked list of \<^verbatim>\<open>container/list\<close> as a list of elements, an element being a pointer and its value;
  \<open>fq_identityFunc\<close> is \<^verbatim>\<open>None\<close> when it is nil.
\<close>

record 'a FifoQueue =
  fq_queue :: "(nat \<times> 'a) list"
  fq_identityFunc :: "('a \<Rightarrow> string) option"
  fq_elementRecord :: "(string, nat) gomap"
  fq_next :: nat

definition NewFifoQueue :: "('a \<Rightarrow> string) option \<Rightarrow> 'a FifoQueue" where
  "NewFifoQueue identityFunc =
     \<lparr>fq_queue = [], fq_identityFunc = identityFunc, fq_elementRecord = fmempty, fq_next = 0\<rparr>"

definition fq_Front :: "'a FifoQueue \<Rightarrow> 'a option" where
  "fq_Front q = (case fq_queue q of [] \<Rightarrow> None | e # _ \<Rightarrow> Some (snd e))"

definition fq_Back :: "'a FifoQueue \<Rightarrow> 'a option" where
  "fq_Back q = (if fq_queue q = [] then None else Some (snd (last (fq_queue q))))"

definition forget_id :: "'a \<Rightarrow> 'a FifoQueue \<Rightarrow> 'a FifoQueue" where
  "forget_id obj q =
     (case fq_identityFunc q of
        None \<Rightarrow> q
      | Some ident \<Rightarrow> q\<lparr>fq_elementRecord := fmdrop (ident obj) (fq_elementRecord q)\<rparr>)"

definition list_Remove :: "nat \<Rightarrow> 'a FifoQueue \<Rightarrow> 'a FifoQueue" where
  "list_Remove elem q = q\<lparr>fq_queue := filter (\<lambda>e. fst e \<noteq> elem) (fq_queue q)\<rparr>"

definition fq_PopFront :: "'a FifoQueue \<Rightarrow> 'a option \<times> 'a FifoQueue" where
  "fq_PopFront q =
     (case fq_queue q of
        [] \<Rightarrow> (None, q)
      | (elem, obj) # _ \<Rightarrow> (Some obj, list_Remove elem (forget_id obj q)))"

definition fq_PopBack :: "'a FifoQueue \<Rightarrow> 'a option \<times> 'a FifoQueue" where
  "fq_PopBack q =
     (if fq_queue q = [] then (None, q)
      else (case last (fq_queue q) of
              (elem, obj) \<Rightarrow> (Some obj, list_Remove elem (forget_id obj q))))"

definition fq_PushBack :: "'a \<Rightarrow> 'a FifoQueue \<Rightarrow> 'a FifoQueue" where
  "fq_PushBack obj q =
     (let q1 = q\<lparr>fq_queue := fq_queue q @ [(fq_next q, obj)], fq_next := Suc (fq_next q)\<rparr>
      in case fq_identityFunc q of
           Some ident \<Rightarrow> q1\<lparr>fq_elementRecord := fmupd (ident obj) (fq_next q) (fq_elementRecord q1)\<rparr>
         | None \<Rightarrow> q1)"

definition fq_GetByID :: "string \<Rightarrow> 'a FifoQueue \<Rightarrow> 'a option" where
  "fq_GetByID objID q =
     (case fmlookup (fq_elementRecord q) objID of
        None \<Rightarrow> None
      | Some elem \<Rightarrow> map_of (fq_queue q) elem)"

definition fq_DelByID :: "string \<Rightarrow> 'a FifoQueue \<Rightarrow> queue_error option \<times> 'a FifoQueue" where
  "fq_DelByID objID q =
     (case fmlookup (fq_elementRecord q) objID of
        None \<Rightarrow> (Some ErrObjectNotFound, q)
      | Some elem \<Rightarrow>
          (None, list_Remove elem (q\<lparr>fq_elementRecord := fmdrop objID (fq_elementRecord q)\<rparr>)))"

definition fq_Len :: "'a FifoQueue \<Rightarrow> nat" where
  "fq_Len q = length (fq_queue q)"

definition fq_UpdateObjByID :: "string \<Rightarrow> 'a \<Rightarrow> 'a FifoQueue \<Rightarrow> queue_error" where
  "fq_UpdateObjByID objID obj q = ErrMethodUnsupported"

text \<open>
  \<^verbatim>\<open>Range\<close> and \<^verbatim>\<open>SortedRange\<close> hand the list elements themselves to the callback, not their values, and
  return true even when the callback stops the iteration: what is visited, and the result.
\<close>

fun visited :: "('e \<Rightarrow> bool) \<Rightarrow> 'e list \<Rightarrow> 'e list" where
  "visited f [] = []"
| "visited f (e # es) = (if f e then e # visited f es else [e])"

definition fq_Range :: "(nat \<times> 'a \<Rightarrow> bool) \<Rightarrow> 'a FifoQueue \<Rightarrow> (nat \<times> 'a) list \<times> bool" where
  "fq_Range f q = (visited f (fq_queue q), True)"

definition fq_SortedRange :: "(nat \<times> 'a \<Rightarrow> bool) \<Rightarrow> 'a FifoQueue \<Rightarrow> (nat \<times> 'a) list \<times> bool" where
  "fq_SortedRange f q = (visited f (fq_queue q), True)"

section \<open>Well-formed queues\<close>

text \<open>Elements have distinct pointers; with an identity function, the record has exactly the elements.\<close>

definition fifo_ok :: "'a FifoQueue \<Rightarrow> bool" where
  "fifo_ok q \<longleftrightarrow> distinct (map fst (fq_queue q)) \<and> (\<forall>e\<in>set (fq_queue q). fst e < fq_next q) \<and>
     (\<forall>ident. fq_identityFunc q = Some ident \<longrightarrow>
        (\<forall>k p. fmlookup (fq_elementRecord q) k = Some p \<longleftrightarrow> (\<exists>x. (p, x) \<in> set (fq_queue q) \<and> ident x = k)))"

lemma fifo_ok_new: "fifo_ok (NewFifoQueue ident)"
  by (simp add: fifo_ok_def NewFifoQueue_def)

text \<open>The identifier of a new object must not be in use.\<close>

definition fresh_id :: "'a \<Rightarrow> 'a FifoQueue \<Rightarrow> bool" where
  "fresh_id x q \<longleftrightarrow> (\<forall>ident p y. fq_identityFunc q = Some ident \<longrightarrow> (p, y) \<in> set (fq_queue q) \<longrightarrow> ident y \<noteq> ident x)"

lemma fifo_ok_push: "fifo_ok q \<Longrightarrow> fresh_id x q \<Longrightarrow> fifo_ok (fq_PushBack x q)"
proof (cases "fq_identityFunc q")
  case None
  then show "fifo_ok q \<Longrightarrow> ?thesis" by (fastforce simp: fifo_ok_def fq_PushBack_def)
next
  case (Some ident)
  assume ok: "fifo_ok q" and fresh: "fresh_id x q"
  let ?q = "fq_PushBack x q"
  have rec: "fmlookup (fq_elementRecord q) k = Some p \<longleftrightarrow> (\<exists>y. (p, y) \<in> set (fq_queue q) \<and> ident y = k)" for k p
    using ok Some unfolding fifo_ok_def by blast
  have no: "\<not> (\<exists>p y. (p, y) \<in> set (fq_queue q) \<and> ident y = ident x)" using fresh Some unfolding fresh_id_def by blast
  have "fmlookup (fq_elementRecord ?q) k = Some p \<longleftrightarrow> (\<exists>y. (p, y) \<in> set (fq_queue ?q) \<and> ident y = k)" for k p
    using rec no Some by (auto simp: fq_PushBack_def)
  moreover have "distinct (map fst (fq_queue ?q))" "\<forall>e\<in>set (fq_queue ?q). fst e < fq_next ?q" "fq_identityFunc ?q = Some ident"
    using ok Some by (auto simp: fifo_ok_def fq_PushBack_def)
  ultimately show ?thesis by (simp add: fifo_ok_def)
qed

lemma same_pointer: "fifo_ok q \<Longrightarrow> (p, x) \<in> set (fq_queue q) \<Longrightarrow> (p, y) \<in> set (fq_queue q) \<Longrightarrow> x = y"
  unfolding fifo_ok_def by (metis eq_key_imp_eq_value)

lemma same_id:
  assumes "fifo_ok q" "fq_identityFunc q = Some ident" "(p, x) \<in> set (fq_queue q)" "(r, y) \<in> set (fq_queue q)" "ident x = ident y"
  shows "p = r"
proof -
  have "fmlookup (fq_elementRecord q) (ident x) = Some p" "fmlookup (fq_elementRecord q) (ident x) = Some r"
    using assms unfolding fifo_ok_def by metis+
  then show ?thesis by simp
qed

text \<open>Taking an element out together with its entry in the record.\<close>

lemma fifo_ok_remove:
  assumes ok: "fifo_ok q" and e: "(p, x) \<in> set (fq_queue q)"
    and rec: "\<And>ident. fq_identityFunc q = Some ident \<Longrightarrow> r = fmdrop (ident x) (fq_elementRecord q)"
  shows "fifo_ok (list_Remove p (q\<lparr>fq_elementRecord := r\<rparr>))"
proof -
  have "fmlookup r k = Some s \<longleftrightarrow> (\<exists>y. (s, y) \<in> set (filter (\<lambda>e. fst e \<noteq> p) (fq_queue q)) \<and> ident y = k)"
    if i: "fq_identityFunc q = Some ident" for ident k s
  proof -
    have lk: "fmlookup (fq_elementRecord q) k = Some s \<longleftrightarrow> (\<exists>y. (s, y) \<in> set (fq_queue q) \<and> ident y = k)"
      using ok i unfolding fifo_ok_def by blast
    show ?thesis
    proof (cases "k = ident x")
      case True
      then have "\<not> (\<exists>y. (s, y) \<in> set (filter (\<lambda>e. fst e \<noteq> p) (fq_queue q)) \<and> ident y = k)"
        using same_id [OF ok i e] by fastforce
      with True rec [OF i] show ?thesis by simp
    next
      case False
      then have "y \<noteq> x" if "ident y = k" for y using that by auto
      then show ?thesis using False rec [OF i] lk same_pointer [OF ok e] by auto
    qed
  qed
  moreover have "distinct (map fst (filter (\<lambda>e. fst e \<noteq> p) (fq_queue q)))"
    using ok by (simp add: fifo_ok_def distinct_map_filter)
  moreover have "\<forall>e\<in>set (filter (\<lambda>e. fst e \<noteq> p) (fq_queue q)). fst e < fq_next q" using ok by (simp add: fifo_ok_def)
  ultimately show ?thesis by (simp add: fifo_ok_def list_Remove_def)
qed

lemma forget_eq: "\<exists>r. forget_id x q = q\<lparr>fq_elementRecord := r\<rparr> \<and>
    (\<forall>ident. fq_identityFunc q = Some ident \<longrightarrow> r = fmdrop (ident x) (fq_elementRecord q))"
  by (cases "fq_identityFunc q") (auto simp: forget_id_def intro: exI [of _ "fq_elementRecord q"])

lemma PopFront_effect:
  assumes ok: "fifo_ok q" and q: "fq_queue q = (p, x) # es"
  shows "fst (fq_PopFront q) = Some x" "fq_queue (snd (fq_PopFront q)) = es" "fifo_ok (snd (fq_PopFront q))"
    "fq_identityFunc (snd (fq_PopFront q)) = fq_identityFunc q"
proof -
  obtain r where r: "forget_id x q = q\<lparr>fq_elementRecord := r\<rparr>"
    "\<And>ident. fq_identityFunc q = Some ident \<Longrightarrow> r = fmdrop (ident x) (fq_elementRecord q)"
    using forget_eq [of x q] by auto
  have "filter (\<lambda>e. fst e \<noteq> p) es = es"
    using ok q by (auto simp: fifo_ok_def filter_id_conv)
  then show "fst (fq_PopFront q) = Some x" "fq_queue (snd (fq_PopFront q)) = es"
      "fq_identityFunc (snd (fq_PopFront q)) = fq_identityFunc q"
    using q r(1) by (simp_all add: fq_PopFront_def list_Remove_def)
  show "fifo_ok (snd (fq_PopFront q))"
    using fifo_ok_remove [of q p x r] ok q r by (simp add: fq_PopFront_def)
qed

section \<open>Properties\<close>

text \<open>
  The queue is first in, first out: a pop returns the oldest object and leaves the others in their
  order, a push goes to the end, and a deletion by identifier takes out exactly the object that has
  it, keeping the order of the rest; afterwards the identifier is unknown.
\<close>

theorem fifo_order:
  assumes "fifo_ok q" and "fresh_id x q"
  shows "map snd (fq_queue (fq_PushBack x q)) = map snd (fq_queue q) @ [x] \<and> fifo_ok (fq_PushBack x q) \<and>
    (case fq_PopFront q of
       (None, q') \<Rightarrow> fq_queue q = [] \<and> q' = q
     | (Some y, q') \<Rightarrow> map snd (fq_queue q) = y # map snd (fq_queue q') \<and> fifo_ok q') \<and>
    (\<forall>ident k y. fq_identityFunc q = Some ident \<longrightarrow> fq_GetByID k q = Some y \<longrightarrow>
       ident y = k \<and> fst (fq_DelByID k q) = None \<and> fq_GetByID k (snd (fq_DelByID k q)) = None \<and>
       map snd (fq_queue (snd (fq_DelByID k q))) = filter (\<lambda>z. ident z \<noteq> k) (map snd (fq_queue q)))"
proof (intro conjI allI impI)
  show "map snd (fq_queue (fq_PushBack x q)) = map snd (fq_queue q) @ [x]"
    by (simp add: fq_PushBack_def Let_def split: option.split)
  show "fifo_ok (fq_PushBack x q)" by (rule fifo_ok_push [OF assms])
  show "case fq_PopFront q of
       (None, q') \<Rightarrow> fq_queue q = [] \<and> q' = q
     | (Some y, q') \<Rightarrow> map snd (fq_queue q) = y # map snd (fq_queue q') \<and> fifo_ok q'"
  proof (cases "fq_queue q")
    case Nil
    then show ?thesis by (simp add: fq_PopFront_def)
  next
    case (Cons e es)
    obtain p y where "e = (p, y)" by fastforce
    with PopFront_effect [OF assms(1), of p y es] Cons show ?thesis by (cases "fq_PopFront q") simp
  qed
next
  fix ident k y assume i: "fq_identityFunc q = Some ident" and g: "fq_GetByID k q = Some y"
  then obtain p where p: "fmlookup (fq_elementRecord q) k = Some p" "(p, y) \<in> set (fq_queue q)"
    by (auto simp: fq_GetByID_def dest: map_of_SomeD split: option.splits)
  then have k: "ident y = k" using assms(1) i same_pointer [OF assms(1)] unfolding fifo_ok_def by metis
  then show "ident y = k" "fst (fq_DelByID k q) = None" "fq_GetByID k (snd (fq_DelByID k q)) = None"
    using p by (simp_all add: fq_DelByID_def fq_GetByID_def list_Remove_def)
  have "r \<noteq> p \<longleftrightarrow> ident z \<noteq> k" if "(r, z) \<in> set (fq_queue q)" for r z
    using same_id [OF assms(1) i p(2) that] same_pointer [OF assms(1) p(2), of z] that k by metis
  then have "filter (\<lambda>e. fst e \<noteq> p) (fq_queue q) = filter (\<lambda>e. ident (snd e) \<noteq> k) (fq_queue q)" by (intro filter_cong) auto
  then show "map snd (fq_queue (snd (fq_DelByID k q))) = filter (\<lambda>z. ident z \<noteq> k) (map snd (fq_queue q))"
    using p by (simp add: fq_DelByID_def list_Remove_def filter_map comp_def)
qed

theorem fifo_order_witness:
  "map snd (fq_queue (fq_PushBack ''b'' (fq_PushBack ''a'' (NewFifoQueue (Some id))))) = [''a'', ''b''] \<and>
   fifo_ok (fq_PushBack ''b'' (fq_PushBack ''a'' (NewFifoQueue (Some id))))"
proof -
  have "fifo_ok (fq_PushBack ''a'' (NewFifoQueue (Some id)))"
    by (rule fifo_ok_push [OF fifo_ok_new]) (simp add: fresh_id_def NewFifoQueue_def)
  moreover have "fresh_id ''b'' (fq_PushBack ''a'' (NewFifoQueue (Some id)))"
    by (simp add: fresh_id_def fq_PushBack_def NewFifoQueue_def)
  ultimately show ?thesis using fifo_order [of "fq_PushBack ''a'' (NewFifoQueue (Some id))" "''b''"]
    by (simp add: fq_PushBack_def NewFifoQueue_def)
qed

section \<open>What both queues promise\<close>

text \<open>A queue as a bag: pushing adds an object, popping takes out the object it returns.\<close>

locale bag_queue =
  fixes ok :: "'q \<Rightarrow> bool" and push :: "'a \<Rightarrow> 'q \<Rightarrow> 'q" and pop :: "'q \<Rightarrow> 'a option \<times> 'q" and bag :: "'q \<Rightarrow> 'a multiset"
  assumes push_bag: "ok q \<Longrightarrow> bag (push x q) = add_mset x (bag q)"
    and pop_some: "ok q \<Longrightarrow> pop q = (Some x, q') \<Longrightarrow> bag q = add_mset x (bag q')"
    and pop_none: "ok q \<Longrightarrow> pop q = (None, q') \<Longrightarrow> bag q = {#}"
    and pop_ok: "ok q \<Longrightarrow> ok (snd (pop q))"
begin

lemma pop_returns: "ok q \<Longrightarrow> bag q \<noteq> {#} \<Longrightarrow> \<exists>x. fst (pop q) = Some x \<and> x \<in># bag q"
  using pop_some [of q] pop_none [of q] by (cases "pop q"; cases "fst (pop q)") auto

lemma pop_size: "ok q \<Longrightarrow> size (bag (snd (pop q))) = size (bag q) - 1 \<or> fst (pop q) = None"
  using pop_some [of q] by (cases "pop q"; cases "fst (pop q)") auto

end

interpretation fifo: bag_queue fifo_ok fq_PushBack fq_PopFront "\<lambda>q. mset (map snd (fq_queue q))"
proof (unfold_locales, goal_cases)
  case (1 q x)
  then show ?case by (simp add: fq_PushBack_def Let_def split: option.split)
next
  case (2 q x q')
  then show ?case using PopFront_effect [OF 2(1)] by (cases "fq_queue q") (auto simp: fq_PopFront_def)
next
  case (3 q q')
  then show ?case by (auto simp: fq_PopFront_def split: list.splits)
next
  case (4 q)
  then show ?case using PopFront_effect(3) [OF 4] by (cases "fq_queue q") (auto simp: fq_PopFront_def)
qed

text \<open>The double-ended heap as well, whatever the order of its items.\<close>

interpretation heap: bag_queue "\<lambda>_. True" dh_Push dh_PopMax heap_mset
  by unfold_locales (auto simp: push_mset dest: PopMax_mset PopMax_none)

end
