(* ===== verification/RequestSystem.thy ===== *)
theory RequestSystem
  imports RequestQueue
begin

text \<open>
  The request queue with everything that runs on it: clients that add and cancel requests, one scheduling
  goroutine per registered function, the timeout loop with its timer, and the callbacks of the scheduler. A step
  is one lock section, so that all interleavings of the goroutines are runs.
\<close>

section \<open>States and steps\<close>

text \<open>
  A scheduling goroutine waits for a token, is between two requests, or runs the schedule function on a
  request without the lock.
\<close>

datatype 'r goroutine = Idle | Scanning | Trying "'r PendingInsAcqReq"

text \<open>
  \<open>rs_timer\<close> is the instant at which the timer the loop listens to fires (\<^verbatim>\<open>None\<close>: it has fired or none was
  started), \<open>rs_looping\<close> is true until the loop has returned. \<open>rs_accepted\<close> and \<open>rs_cancelled\<close> record the
  addresses of the requests that were accepted and that were cancelled in the queue.
\<close>

record ('r, 'a) req_sys =
  rs_iq :: "('r, 'a) InsAcqReqQueue"
  rs_workers :: "'r goroutine list"
  rs_timer :: "time option"
  rs_looping :: bool
  rs_now :: time
  rs_accepted :: "nat list"
  rs_cancelled :: "nat list"

definition req_start :: "int \<Rightarrow> duration \<Rightarrow> time \<Rightarrow> ('r, 'a) req_sys" where
  "req_start burstScaleNum requestTimeout now =
     \<lparr>rs_iq = NewInsAcqReqQueue burstScaleNum requestTimeout, rs_workers = [], rs_timer = None, rs_looping = True,
      rs_now = now, rs_accepted = [], rs_cancelled = []\<rparr>"

text \<open>One iteration of \<^verbatim>\<open>TimeoutReqHandleLoop\<close> after \<^verbatim>\<open>select\<close>; a new timer is started when requests are left.\<close>

definition loop_pass :: "time \<Rightarrow> ('r, 'a) req_sys \<Rightarrow> ('r, 'a) req_sys" where
  "loop_pass currentTime s =
     (case timeout_pass currentTime (rs_iq s) of
        (None, iq) \<Rightarrow> s\<lparr>rs_iq := iq\<rparr>
      | (Some nextReqTimeout, iq) \<Rightarrow> s\<lparr>rs_iq := iq, rs_timer := Some (rs_now s + nextReqTimeout)\<rparr>)"

definition loop_on_trigger :: "time \<Rightarrow> ('r, 'a) req_sys \<Rightarrow> ('r, 'a) req_sys" where
  "loop_on_trigger currentTime s =
     loop_pass currentTime (s\<lparr>rs_iq := (rs_iq s)\<lparr>iq_triggerCh := iq_triggerCh (rs_iq s) - 1\<rparr>\<rparr>)"

definition loop_on_timer :: "time \<Rightarrow> ('r, 'a) req_sys \<Rightarrow> ('r, 'a) req_sys" where
  "loop_on_timer currentTime s = loop_pass currentTime (s\<lparr>rs_timer := None\<rparr>)"

definition loop_on_stop :: "('r, 'a) req_sys \<Rightarrow> ('r, 'a) req_sys" where
  "loop_on_stop s = s\<lparr>rs_iq := ClearReqQueueWithError funcMetaNotFound (rs_iq s), rs_looping := False\<rparr>"

text \<open>The steps of the goroutine that \<^verbatim>\<open>RegisterSchFunc\<close> starts.\<close>

definition sched_wake :: "nat \<Rightarrow> ('r, 'a) req_sys \<Rightarrow> ('r, 'a) req_sys" where
  "sched_wake g s =
     s\<lparr>rs_iq := (rs_iq s)\<lparr>iq_scheCh := (iq_scheCh (rs_iq s))[g := iq_scheCh (rs_iq s) ! g - 1]\<rparr>,
       rs_workers := (rs_workers s)[g := Scanning]\<rparr>"

definition sched_take :: "nat \<Rightarrow> ('r, 'a) req_sys \<Rightarrow> ('r, 'a) req_sys" where
  "sched_take g s =
     (case schedule_take (rs_iq s) of
        (None, iq) \<Rightarrow> s\<lparr>rs_iq := iq, rs_workers := (rs_workers s)[g := Idle]\<rparr>
      | (Some req, iq) \<Rightarrow> s\<lparr>rs_iq := iq, rs_workers := (rs_workers s)[g := Trying req]\<rparr>)"

definition sched_finish :: "nat \<Rightarrow> 'r PendingInsAcqReq \<Rightarrow> 'a option \<Rightarrow> ('r, 'a) req_sys \<Rightarrow> ('r, 'a) req_sys" where
  "sched_finish g req result s =
     (case schedule_finish req result (rs_iq s) of
        (again, iq) \<Rightarrow> s\<lparr>rs_iq := iq, rs_workers := (rs_workers s)[g := if again then Scanning else Idle]\<rparr>)"

text \<open>
  What the scheduler and the clients call; \<open>Worker_error\<close> is the second lock section of
  \<^verbatim>\<open>handlerWorkMangerError\<close>, which acts on a number of instances read earlier.
\<close>

datatype callback =
  Create_error bool "go_error option" | Worker_error int go_error | Ins_num int | Schedule string | Request_timeout duration | Stop_queue

fun call_queue :: "callback \<Rightarrow> ('r, 'a) InsAcqReqQueue \<Rightarrow> ('r, 'a) InsAcqReqQueue" where
  "call_queue (Create_error backendFG err) iq = HandleCreateError backendFG err iq"
| "call_queue (Worker_error num err) iq = handlerWorkMangerError num err iq"
| "call_queue (Ins_num diff) iq = HandleInsNumUpdate diff iq"
| "call_queue (Schedule key) iq = ScheduleRequest key iq"
| "call_queue (Request_timeout timeout) iq = UpdateRequestTimeout timeout iq"
| "call_queue Stop_queue iq = iq_Stop iq"

inductive req_step :: "('r, 'a) req_sys \<Rightarrow> ('r, 'a) req_sys \<Rightarrow> bool" where
  time_passes: "rs_now s \<le> t \<Longrightarrow> req_step s (s\<lparr>rs_now := t\<rparr>)"
| add: "pd_ptr req \<notin> set (rs_accepted s) \<Longrightarrow> AddRequest req (rs_iq s) = (None, iq) \<Longrightarrow>
    req_step s (s\<lparr>rs_iq := iq, rs_accepted := rs_accepted s @ [pd_ptr req]\<rparr>)"
| cancel: "CancelRequest (Some req) (rs_iq s) = (removed, iq) \<Longrightarrow>
    req_step s (s\<lparr>rs_iq := iq, rs_cancelled := rs_cancelled s @ (if removed then [pd_ptr req] else [])\<rparr>)"
| register: "req_step s (s\<lparr>rs_iq := RegisterSchFunc key (rs_iq s), rs_workers := rs_workers s @ [Idle]\<rparr>)"
| wake: "g < length (rs_workers s) \<Longrightarrow> rs_workers s ! g = Idle \<Longrightarrow> 0 < iq_scheCh (rs_iq s) ! g \<Longrightarrow>
    req_step s (sched_wake g s)"
| take: "g < length (rs_workers s) \<Longrightarrow> rs_workers s ! g = Scanning \<Longrightarrow> req_step s (sched_take g s)"
| finish: "g < length (rs_workers s) \<Longrightarrow> rs_workers s ! g = Trying req \<Longrightarrow> req_step s (sched_finish g req result s)"
| trigger: "rs_looping s \<Longrightarrow> 0 < iq_triggerCh (rs_iq s) \<Longrightarrow> currentTime \<le> rs_now s \<Longrightarrow>
    req_step s (loop_on_trigger currentTime s)"
| timer: "rs_looping s \<Longrightarrow> rs_timer s = Some t \<Longrightarrow> t \<le> currentTime \<Longrightarrow> currentTime \<le> rs_now s \<Longrightarrow>
    req_step s (loop_on_timer currentTime s)"
| stop: "rs_looping s \<Longrightarrow> iq_stopped (rs_iq s) \<Longrightarrow> req_step s (loop_on_stop s)"
| callback: "req_step s (s\<lparr>rs_iq := call_queue c (rs_iq s)\<rparr>)"

definition req_reach :: "int \<Rightarrow> ('r, 'a) req_sys \<Rightarrow> bool" where
  "req_reach burst s \<longleftrightarrow> (\<exists>timeout now. req_step\<^sup>*\<^sup>* (req_start burst timeout now) s)"

section \<open>Where a request is\<close>

definition trying :: "nat \<Rightarrow> 'r goroutine \<Rightarrow> nat" where
  "trying p g = (case g of Trying req \<Rightarrow> if pd_ptr req = p then 1 else 0 | _ \<Rightarrow> 0)"

definition busy :: "'r goroutine \<Rightarrow> nat" where
  "busy g = (case g of Trying _ \<Rightarrow> 1 | _ \<Rightarrow> 0)"

text \<open>How often the request at an address is in the queue, held by a goroutine, answered, and cancelled.\<close>

definition places :: "nat \<Rightarrow> ('r, 'a) req_sys \<Rightarrow> nat" where
  "places p s =
     count_list (map pd_ptr (waiting (rs_iq s))) p + sum_list (map (trying p) (rs_workers s)) +
     count_list (map fst (iq_sent (rs_iq s))) p + count_list (rs_cancelled s) p"

definition req_inv :: "int \<Rightarrow> ('r, 'a) req_sys \<Rightarrow> bool" where
  "req_inv burst s \<longleftrightarrow> plain_fifo (iq_queue (rs_iq s)) \<and> iq_maxQueueLen (rs_iq s) = burst \<and>
     length (iq_scheCh (rs_iq s)) = length (rs_workers s) \<and>
     (\<forall>p. places p s = (if p \<in> set (rs_accepted s) then 1 else 0)) \<and>
     length (waiting (rs_iq s)) + sum_list (map busy (rs_workers s)) \<le> nat burst + length (rs_workers s)"

lemma sum_list_replaced:
  "g < length xs \<Longrightarrow> sum_list (map f (xs[g := y])) + f (xs ! g) = sum_list (map f xs) + (f y :: nat)"
proof (induction xs arbitrary: g)
  case (Cons x xs)
  then show ?case by (cases g) auto
qed simp

lemma busy_le: "sum_list (map busy xs) \<le> length xs"
proof (induction xs)
  case (Cons x xs)
  then show ?case by (cases x) (auto simp: busy_def)
qed simp

lemma count_without:
  "count_list (map pd_ptr rs) p = count_list (map pd_ptr (without q rs)) p + (if q = p \<and> q \<in> pd_ptr ` set rs then 1 else 0)"
  by (induction rs) auto

lemma length_without: "length (without q rs) \<le> length rs"
  by (induction rs) auto

lemma count_refusals: "count_list (map fst (refusals err rs)) p = count_list (map pd_ptr rs) p"
  by (induction rs) (auto simp: refusals_def)

lemma count_split: "count_list (map f (dropWhile P xs)) p + count_list (map f (takeWhile P xs)) p = count_list (map f xs) p"
  by (metis add.commute count_list_append map_append takeWhile_dropWhile_id)

text \<open>What the invariant depends on: an operation that keeps or moves the requests of one queue.\<close>

definition moves :: "('r, 'a) InsAcqReqQueue \<Rightarrow> ('r, 'a) InsAcqReqQueue \<Rightarrow> bool" where
  "moves iq iq' \<longleftrightarrow> (plain_fifo (iq_queue iq) \<longrightarrow> plain_fifo (iq_queue iq') \<and> iq_maxQueueLen iq' = iq_maxQueueLen iq \<and>
     length (iq_scheCh iq') = length (iq_scheCh iq) \<and>
     (\<forall>p. count_list (map pd_ptr (waiting iq')) p + count_list (map fst (iq_sent iq')) p =
          count_list (map pd_ptr (waiting iq)) p + count_list (map fst (iq_sent iq)) p) \<and>
     length (waiting iq') \<le> length (waiting iq))"

lemma moves_refl: "moves iq iq" by (simp add: moves_def)

lemma moves_same:
  "iq_queue iq' = iq_queue iq \<Longrightarrow> iq_maxQueueLen iq' = iq_maxQueueLen iq \<Longrightarrow> iq_sent iq' = iq_sent iq \<Longrightarrow>
    length (iq_scheCh iq') = length (iq_scheCh iq) \<Longrightarrow> moves iq iq'"
  by (simp add: moves_def waiting_def)

lemma moves_trans: "moves a b \<Longrightarrow> moves b c \<Longrightarrow> moves a c"
  by (fastforce simp: moves_def)

lemma moves_Clear: "moves iq (ClearReqQueueWithError err iq)"
proof (unfold moves_def, rule impI)
  let ?iq = "ClearReqQueueWithError err iq"
  assume "plain_fifo (iq_queue iq)"
  then have c: "waiting ?iq = []" "plain_fifo (iq_queue ?iq)"
    "?iq = iq\<lparr>iq_queue := iq_queue ?iq, iq_sent := iq_sent iq @ refusals err (waiting iq)\<rparr>"
    using Clear_effect [of iq err] by blast+
  have s: "iq_sent ?iq = iq_sent iq @ refusals err (waiting iq)" "iq_maxQueueLen ?iq = iq_maxQueueLen iq"
    "iq_scheCh ?iq = iq_scheCh iq" by (subst c(3), simp)+
  show "plain_fifo (iq_queue ?iq) \<and> iq_maxQueueLen ?iq = iq_maxQueueLen iq \<and>
     length (iq_scheCh ?iq) = length (iq_scheCh iq) \<and>
     (\<forall>p. count_list (map pd_ptr (waiting ?iq)) p + count_list (map fst (iq_sent ?iq)) p =
          count_list (map pd_ptr (waiting iq)) p + count_list (map fst (iq_sent iq)) p) \<and>
     length (waiting ?iq) \<le> length (waiting iq)"
    using c(1,2) s by (simp add: count_refusals)
qed

lemma moves_pass:
  assumes "timeout_pass t iq = (next, iq')"
  shows "moves iq iq'"
proof (unfold moves_def, rule impI)
  let ?late = "has_timed_out t (iq_requestTimeout iq)"
  assume "plain_fifo (iq_queue iq)"
  from timeout_pass_effect [OF this assms]
  have c: "waiting iq' = dropWhile ?late (waiting iq)" "plain_fifo (iq_queue iq')"
    "iq' = iq\<lparr>iq_queue := iq_queue iq', iq_sent := iq_sent iq @ refusals (timeout_error iq) (takeWhile ?late (waiting iq))\<rparr>"
    unfolding Let_def by blast+
  have s: "iq_sent iq' = iq_sent iq @ refusals (timeout_error iq) (takeWhile ?late (waiting iq))"
    "iq_maxQueueLen iq' = iq_maxQueueLen iq" "iq_scheCh iq' = iq_scheCh iq" by (subst c(3), simp)+
  show "plain_fifo (iq_queue iq') \<and> iq_maxQueueLen iq' = iq_maxQueueLen iq \<and>
     length (iq_scheCh iq') = length (iq_scheCh iq) \<and>
     (\<forall>p. count_list (map pd_ptr (waiting iq')) p + count_list (map fst (iq_sent iq')) p =
          count_list (map pd_ptr (waiting iq)) p + count_list (map fst (iq_sent iq)) p) \<and>
     length (waiting iq') \<le> length (waiting iq)"
    using c(1,2) s count_split [of pd_ptr ?late "waiting iq"] by (simp add: count_refusals length_dropWhile_le)
qed

lemma moves_callback: "moves iq (call_queue c iq)"
  by (cases c)
    (auto simp: HandleCreateError_def handlerWorkMangerError_def HandleInsNumUpdate_def ScheduleRequest_def
      UpdateRequestTimeout_def iq_Stop_def Let_def moves_refl moves_Clear
      intro!: moves_same moves_trans [OF moves_same moves_Clear] split: option.split)

lemma inv_moves:
  assumes "req_inv burst s" and "moves (rs_iq s) iq" and "rs_iq s' = iq" "rs_workers s' = rs_workers s"
    "rs_accepted s' = rs_accepted s" "rs_cancelled s' = rs_cancelled s"
  shows "req_inv burst s'"
proof -
  have "plain_fifo (iq_queue (rs_iq s))" using assms(1) by (simp add: req_inv_def)
  with assms(2) have m: "plain_fifo (iq_queue iq)" "iq_maxQueueLen iq = iq_maxQueueLen (rs_iq s)"
    "length (iq_scheCh iq) = length (iq_scheCh (rs_iq s))"
    "\<And>p. count_list (map pd_ptr (waiting iq)) p + count_list (map fst (iq_sent iq)) p =
          count_list (map pd_ptr (waiting (rs_iq s))) p + count_list (map fst (iq_sent (rs_iq s))) p"
    "length (waiting iq) \<le> length (waiting (rs_iq s))" by (auto simp: moves_def)
  have "places p s' = places p s" for p using m(4) [of p] assms(3-6) by (simp add: places_def)
  with assms m show ?thesis by (auto simp: req_inv_def)
qed

lemma inv_pass: "req_inv burst s \<Longrightarrow> req_inv burst (loop_pass t s)"
  by (rule inv_moves [of burst s "rs_iq (loop_pass t s)"])
    (auto simp: loop_pass_def moves_pass split: prod.split option.split)


lemma AddRequest_outcome:
  assumes "plain_fifo (iq_queue iq)" and "AddRequest req iq = (err, iq')"
  shows "err = None \<longleftrightarrow> iq_unrecoverableError iq = None \<and> int (length (waiting iq)) < iq_maxQueueLen iq"
    "err = None \<Longrightarrow> waiting iq' = waiting iq @ [req]" "err \<noteq> None \<Longrightarrow> iq' = iq"
  using assms plain_fifo_ops(3) [OF assms(1), of req]
  by (auto simp: AddRequest_def TriggerSchedule_def Let_def iq_Len_waiting waiting_def split: option.splits if_splits)

lemma inv_add:
  assumes inv: "req_inv burst s" and new: "pd_ptr req \<notin> set (rs_accepted s)" and a: "AddRequest req (rs_iq s) = (None, iq)"
  shows "req_inv burst (s\<lparr>rs_iq := iq, rs_accepted := rs_accepted s @ [pd_ptr req]\<rparr>)"
proof -
  have q: "plain_fifo (iq_queue (rs_iq s))" using inv by (simp add: req_inv_def)
  have iq: "iq_queue iq = fq_PushBack req (iq_queue (rs_iq s))" "iq_sent iq = iq_sent (rs_iq s)"
    "iq_maxQueueLen iq = iq_maxQueueLen (rs_iq s)" "iq_scheCh iq = iq_scheCh (rs_iq s)" "int (length (waiting (rs_iq s))) < iq_maxQueueLen (rs_iq s)"
    using a by (auto simp: AddRequest_def TriggerSchedule_def Let_def iq_Len_waiting split: option.splits if_splits)
  have w: "waiting iq = waiting (rs_iq s) @ [req]" using plain_fifo_ops(3) [OF q] iq(1) by (simp add: waiting_def)
  then show ?thesis
    using inv new iq plain_fifo_ops(1) [OF q] busy_le [of "rs_workers s"] by (auto simp: req_inv_def places_def)
qed

lemma inv_cancel:
  assumes inv: "req_inv burst s" and c: "CancelRequest (Some req) (rs_iq s) = (removed, iq)"
  shows "req_inv burst (s\<lparr>rs_iq := iq, rs_cancelled := rs_cancelled s @ (if removed then [pd_ptr req] else [])\<rparr>)"
    (is "req_inv burst ?s")
proof -
  have q: "plain_fifo (iq_queue (rs_iq s))" using inv by (simp add: req_inv_def)
  note e = Cancel_effect [OF q c]
  have s: "iq_sent iq = iq_sent (rs_iq s)" "iq_maxQueueLen iq = iq_maxQueueLen (rs_iq s)" "iq_scheCh iq = iq_scheCh (rs_iq s)"
    by (subst e(4), simp)+
  have "places p ?s = places p s" for p
    using count_without [of "waiting (rs_iq s)" p "pd_ptr req"] e(1,2) s by (auto simp: places_def)
  with inv e(2,3) s length_without [of "pd_ptr req" "waiting (rs_iq s)"] show ?thesis by (auto simp: req_inv_def)
qed

text \<open>A step of a goroutine that hands the request it holds, if any, to the queue or the client.\<close>

lemma inv_worker:
  assumes inv: "req_inv burst s" and g: "g < length (rs_workers s)"
    and s': "s' = s\<lparr>rs_iq := iq, rs_workers := (rs_workers s)[g := w]\<rparr>"
    and ok: "plain_fifo (iq_queue iq)" "iq_maxQueueLen iq = iq_maxQueueLen (rs_iq s)"
      "length (iq_scheCh iq) = length (iq_scheCh (rs_iq s))"
    and moved: "\<And>p. count_list (map pd_ptr (waiting iq)) p + count_list (map fst (iq_sent iq)) p + trying p w =
      count_list (map pd_ptr (waiting (rs_iq s))) p + count_list (map fst (iq_sent (rs_iq s))) p + trying p (rs_workers s ! g)"
    and len: "length (waiting iq) + busy w \<le> length (waiting (rs_iq s)) + busy (rs_workers s ! g)"
  shows "req_inv burst s'"
proof -
  have "places p s' = places p s" for p
    using moved [of p] sum_list_replaced [OF g, of "trying p" w] s' by (simp add: places_def)
  moreover have "sum_list (map busy (rs_workers s')) + busy (rs_workers s ! g) = sum_list (map busy (rs_workers s)) + busy w"
    using sum_list_replaced [OF g, of busy w] s' by simp
  ultimately show ?thesis using inv ok len s' by (simp add: req_inv_def)
qed

lemma inv_take:
  assumes inv: "req_inv burst s" and g: "g < length (rs_workers s)" "rs_workers s ! g = Scanning"
  shows "req_inv burst (sched_take g s)"
proof -
  have q: "plain_fifo (iq_queue (rs_iq s))" using inv by (simp add: req_inv_def)
  obtain obj q1 where pop: "fq_PopFront (iq_queue (rs_iq s)) = (obj, q1)" by fastforce
  note e = plain_fifo_ops(2,4,5) [OF q, unfolded pop fst_conv snd_conv]
  let ?iq = "(rs_iq s)\<lparr>iq_queue := q1\<rparr>"
  have t: "sched_take g s = s\<lparr>rs_iq := ?iq, rs_workers := (rs_workers s)[g := case obj of None \<Rightarrow> Idle | Some req \<Rightarrow> Trying req]\<rparr>"
    by (simp add: sched_take_def schedule_take_def pop split: option.split)
  have w: "waiting (rs_iq s) = (case obj of None \<Rightarrow> [] | Some req \<Rightarrow> req # waiting ?iq)"
    "obj = None \<Longrightarrow> waiting ?iq = []"
    using e(2,3) by (auto simp: waiting_def split: list.splits option.splits)
  show ?thesis
    by (rule inv_worker [OF inv g(1) t]) (use e(1) w g(2) in \<open>auto simp: trying_def busy_def split: option.splits\<close>)
qed

lemma waiting_push: "plain_fifo (iq_queue iq) \<Longrightarrow> waiting (iq\<lparr>iq_queue := fq_PushBack req (iq_queue iq)\<rparr>) = waiting iq @ [req]"
  by (simp add: waiting_def plain_fifo_ops(3))

lemma waiting_frame [simp]:
  "waiting (iq\<lparr>iq_sent := x\<rparr>) = waiting iq" "waiting (iq\<lparr>iq_scheCh := y\<rparr>) = waiting iq" "waiting (iq\<lparr>iq_triggerCh := z\<rparr>) = waiting iq"
  by (simp_all add: waiting_def)

lemma inv_finish:
  assumes inv: "req_inv burst s" and g: "g < length (rs_workers s)" "rs_workers s ! g = Trying req"
  shows "req_inv burst (sched_finish g req result s)"
proof -
  have q: "plain_fifo (iq_queue (rs_iq s))" using inv by (simp add: req_inv_def)
  obtain again iq where f: "schedule_finish req result (rs_iq s) = (again, iq)" by fastforce
  have t: "sched_finish g req result s = s\<lparr>rs_iq := iq, rs_workers := (rs_workers s)[g := if again then Scanning else Idle]\<rparr>"
    by (simp add: sched_finish_def f)
  show ?thesis
    by (rule inv_worker [OF inv g(1) t])
      (use f g(2) q plain_fifo_ops(1) [OF q, of req] waiting_push [OF q, of req] in
        \<open>auto simp: schedule_finish_def send_result_def trying_def busy_def split: option.splits\<close>)
qed

lemma req_step_inv: "req_step s s' \<Longrightarrow> req_inv burst s \<Longrightarrow> req_inv burst s'"
proof (induction rule: req_step.induct)
  case (time_passes s t)
  then show ?case by (simp add: req_inv_def places_def)
next
  case (add req s iq)
  then show ?case by (intro inv_add)
next
  case (cancel req s removed iq)
  then show ?case by (intro inv_cancel)
next
  case (register s key)
  then show ?case by (simp add: req_inv_def places_def RegisterSchFunc_def waiting_def trying_def busy_def)
next
  case (wake g s)
  then show ?case
    by (intro inv_worker [OF _ wake(1) sched_wake_def])
      (auto simp: req_inv_def waiting_def trying_def busy_def)
next
  case (take g s)
  then show ?case by (intro inv_take)
next
  case (finish g s req result)
  then show ?case by (intro inv_finish)
next
  case (trigger s t)
  have "req_inv burst (s\<lparr>rs_iq := (rs_iq s)\<lparr>iq_triggerCh := iq_triggerCh (rs_iq s) - 1\<rparr>\<rparr>)"
    by (rule inv_moves [OF trigger(4)]) (auto intro: moves_same)
  then show ?case unfolding loop_on_trigger_def by (rule inv_pass)
next
  case (timer s t now)
  have "req_inv burst (s\<lparr>rs_timer := None\<rparr>)" by (rule inv_moves [OF timer(5) moves_refl]) auto
  then show ?case unfolding loop_on_timer_def by (rule inv_pass)
next
  case (stop s)
  show ?case by (rule inv_moves [OF stop(3) moves_Clear]) (auto simp: loop_on_stop_def)
next
  case (callback s c)
  show ?case by (rule inv_moves [OF callback moves_callback]) auto
qed

lemma req_start_inv: "req_inv burst (req_start burst timeout now)"
  by (simp add: req_inv_def req_start_def NewInsAcqReqQueue_def places_def waiting_def plain_fifo_new)
    (simp add: NewFifoQueue_def)

lemma req_reach_inv: "req_reach burst s \<Longrightarrow> req_inv burst s"
proof -
  assume "req_reach burst s"
  then obtain timeout now where "req_step\<^sup>*\<^sup>* (req_start burst timeout now) s" by (auto simp: req_reach_def)
  then show ?thesis by (induction) (auto intro: req_start_inv req_step_inv)
qed

end
