(* ===== verification/RequestProps.thy ===== *)
theory RequestProps
  imports RequestSystem
begin

text \<open>Properties of the request queue, with runs on small queues.\<close>

section \<open>Samples\<close>

type_synonym sample_sys = "(string, string) req_sys"

definition request_at :: "nat \<Rightarrow> time \<Rightarrow> string PendingInsAcqReq" where
  "request_at p t = \<lparr>pd_ptr = p, pd_CreatedTime = t, pd_InsAcqReq = ''r''\<rparr>"

definition start2 :: sample_sys where
  "start2 = req_start 2 (30 * second) 0"

definition add_step :: "string PendingInsAcqReq \<Rightarrow> sample_sys \<Rightarrow> sample_sys" where
  "add_step req s = s\<lparr>rs_iq := snd (AddRequest req (rs_iq s)), rs_accepted := rs_accepted s @ [pd_ptr req]\<rparr>"

text \<open>Two waiting requests, the second one ten seconds younger.\<close>

definition two_waiting :: sample_sys where
  "two_waiting = add_step (request_at 2 (10 * second)) (add_step (request_at 1 0) start2)"

lemma two_waiting_reach: "req_reach 2 two_waiting"
proof -
  have "fst (AddRequest (request_at 1 0) (rs_iq start2)) = None"
    "fst (AddRequest (request_at 2 (10 * second)) (rs_iq (add_step (request_at 1 0) start2))) = None"
    "rs_accepted start2 = []" "rs_accepted (add_step (request_at 1 0) start2) = [1]" by code_simp+
  note facts = this
  have "req_step start2 (add_step (request_at 1 0) start2)"
    unfolding add_step_def by (rule req_step.add) (use facts in \<open>simp_all add: prod_eq_iff\<close>)
  moreover have "req_step (add_step (request_at 1 0) start2) two_waiting"
    unfolding two_waiting_def add_step_def [of "request_at 2 _"]
    by (rule req_step.add) (use facts in \<open>simp_all add: prod_eq_iff request_at_def\<close>)
  ultimately have "req_step\<^sup>*\<^sup>* start2 two_waiting" by (meson rtranclp.rtrancl_refl rtranclp.rtrancl_into_rtrancl)
  then show ?thesis unfolding req_reach_def start2_def by blast
qed

section \<open>Requests are neither lost nor answered twice\<close>

text \<open>
  C12: Every request that was accepted is at exactly one place: it waits in the queue, a goroutine is trying to schedule
  it, it has been answered, or it was cancelled; a request that was not accepted is at none. So a request is
  answered at most once, and the send on its result channel, which is done with the lock held, never blocks.
\<close>

theorem request_at_one_place:
  assumes "req_reach burst s"
  shows "places p s = (if p \<in> set (rs_accepted s) then 1 else 0) \<and>
    length (filter (\<lambda>(q, _). q = p) (iq_sent (rs_iq s))) \<le> 1"
proof -
  have places: "places p s = (if p \<in> set (rs_accepted s) then 1 else 0)"
    using req_reach_inv [OF assms] by (simp add: req_inv_def)
  have "length (filter (\<lambda>(q, _). q = p) xs) = count_list (map fst xs) p" for xs :: "(nat \<times> 'b PendingInsAcqRsp) list"
    by (induction xs) auto
  with places show ?thesis by (auto simp: places_def split: if_splits)
qed

theorem request_at_one_place_witness:
  "req_reach 2 two_waiting \<and> places 1 two_waiting = 1 \<and> places 3 two_waiting = 0"
proof -
  have "rs_accepted two_waiting = [1, 2]" by code_simp
  with request_at_one_place [OF two_waiting_reach, of 1] request_at_one_place [OF two_waiting_reach, of 3] two_waiting_reach
  show ?thesis by simp
qed

text \<open>
  The queue is bounded: the waiting requests and those being tried are together at most the configured limit plus
  one for each scheduling goroutine, since a goroutine puts back what it could not schedule.
\<close>

theorem waiting_bounded:
  assumes "req_reach burst s"
  shows "length (waiting (rs_iq s)) + sum_list (map busy (rs_workers s)) \<le> nat burst + length (rs_workers s)"
  using req_reach_inv [OF assms] by (simp add: req_inv_def)

theorem waiting_bounded_witness:
  "length (waiting (rs_iq two_waiting)) = 2 \<and> length (waiting (rs_iq two_waiting)) \<le> 2"
proof -
  have "rs_workers two_waiting = []" "length (waiting (rs_iq two_waiting)) = 2" by code_simp+
  with waiting_bounded [OF two_waiting_reach] show ?thesis by simp
qed

section \<open>Timeouts\<close>

lemma godiv_mono: "0 < b \<Longrightarrow> a \<le> c \<Longrightarrow> godiv a b \<le> godiv c b"
proof -
  assume b: "0 < b" and ac: "a \<le> c"
  have sign: "godiv x b = (if 0 \<le> x then x div b else - ((- x) div b))" for x
    using b by (cases "x = 0") (auto simp: godiv_def sgn_if)
  have "- ((- x) div b) \<le> 0" "0 \<le> y \<Longrightarrow> 0 \<le> y div b" if "x < 0" for x y
    using b that by (simp_all add: pos_imp_zdiv_nonneg_iff)
  then show ?thesis using b ac by (simp add: sign zdiv_mono1) (smt (verit) pos_imp_zdiv_nonneg_iff)
qed

lemma timed_out_older:
  "has_timed_out t timeout r \<Longrightarrow> pd_CreatedTime r' \<le> pd_CreatedTime r \<Longrightarrow> has_timed_out t timeout r'"
  unfolding has_timed_out_def by (rule order_trans, assumption) (auto intro: godiv_mono)

lemma takeWhile_sorted:
  assumes "sorted (map f xs)" and "\<And>x y. P y \<Longrightarrow> f x \<le> f y \<Longrightarrow> P x"
  shows "takeWhile P xs = filter P xs" "dropWhile P xs = filter (\<lambda>x. \<not> P x) xs"
proof -
  have "takeWhile P xs = filter P xs \<and> dropWhile P xs = filter (\<lambda>x. \<not> P x) xs"
    using assms(1)
  proof (induction xs)
    case (Cons x xs)
    show ?case
    proof (cases "P x")
      case False
      then have "\<not> P y" if "y \<in> set xs" for y using assms(2) [of y x] Cons.prems that by auto
      with False show ?thesis by (simp add: filter_False filter_True)
    qed (use Cons in simp)
  qed simp
  then show "takeWhile P xs = filter P xs" "dropWhile P xs = filter (\<lambda>x. \<not> P x) xs" by blast+
qed

text \<open>
  When the waiting requests are in the order of their creation, a pass of the loop answers exactly those that have
  timed out, oldest first, with the recorded creation error or else the timeout error; the others keep waiting,
  and if there are any, the timer is set to the instant at which the oldest of them times out.
\<close>

theorem timeouts_answered:
  assumes "req_reach burst s" and "sorted (map pd_CreatedTime (waiting (rs_iq s)))"
    and "late = has_timed_out (rs_now s) (iq_requestTimeout (rs_iq s))" and "s' = loop_pass (rs_now s) s"
  shows "iq_sent (rs_iq s') = iq_sent (rs_iq s) @ refusals (timeout_error (rs_iq s)) (filter late (waiting (rs_iq s))) \<and>
    waiting (rs_iq s') = filter (\<lambda>r. \<not> late r) (waiting (rs_iq s)) \<and>
    (waiting (rs_iq s') \<noteq> [] \<longrightarrow>
      rs_timer s' = Some (pd_CreatedTime (hd (waiting (rs_iq s'))) + iq_requestTimeout (rs_iq s)))"
proof -
  have q: "plain_fifo (iq_queue (rs_iq s))" using req_reach_inv [OF assms(1)] by (simp add: req_inv_def)
  obtain next' iq where t: "timeout_pass (rs_now s) (rs_iq s) = (next', iq)" by fastforce
  from timeout_pass_effect [OF q t]
  have e: "waiting iq = dropWhile late (waiting (rs_iq s))"
    "next' = (case dropWhile late (waiting (rs_iq s)) of [] \<Rightarrow> None
        | r # _ \<Rightarrow> Some (iq_requestTimeout (rs_iq s) - (rs_now s - pd_CreatedTime r)))"
    "iq = (rs_iq s)\<lparr>iq_queue := iq_queue iq,
        iq_sent := iq_sent (rs_iq s) @ refusals (timeout_error (rs_iq s)) (takeWhile late (waiting (rs_iq s)))\<rparr>"
    unfolding assms(3) Let_def by blast+
  have sent: "iq_sent iq = iq_sent (rs_iq s) @ refusals (timeout_error (rs_iq s)) (takeWhile late (waiting (rs_iq s)))"
    by (subst e(3)) simp
  have older: "late x" if "late y" "pd_CreatedTime x \<le> pd_CreatedTime y" for x y
    using that timed_out_older unfolding assms(3) by blast
  have sorted: "takeWhile late (waiting (rs_iq s)) = filter late (waiting (rs_iq s))"
    "dropWhile late (waiting (rs_iq s)) = filter (\<lambda>r. \<not> late r) (waiting (rs_iq s))"
    using takeWhile_sorted [OF assms(2), of late] older by blast+
  have s': "rs_iq s' = iq" using assms(4) t by (simp add: loop_pass_def split: option.split)
  have "rs_timer s' = Some (pd_CreatedTime (hd (waiting iq)) + iq_requestTimeout (rs_iq s))" if "waiting iq \<noteq> []"
  proof -
    from that obtain r rs where w: "waiting iq = r # rs" by (meson neq_Nil_conv)
    then have "next' = Some (iq_requestTimeout (rs_iq s) - (rs_now s - pd_CreatedTime r))" using e(1,2) by simp
    with w assms(4) t show ?thesis by (simp add: loop_pass_def)
  qed
  then show ?thesis unfolding s' sent e(1) by (simp add: sorted)
qed

definition later :: sample_sys where
  "later = two_waiting\<lparr>rs_now := 35 * second\<rparr>"

lemma later_reach: "req_reach 2 later"
proof -
  have "rs_now two_waiting = 0" by code_simp
  then have "req_step two_waiting later"
    unfolding later_def by (intro req_step.time_passes) simp
  with two_waiting_reach show ?thesis
    unfolding req_reach_def by (meson rtranclp.rtrancl_into_rtrancl)
qed

theorem timeouts_answered_witness:
  "map fst (iq_sent (rs_iq (loop_pass (35 * second) later))) = [1] \<and>
   rs_timer (loop_pass (35 * second) later) = Some (40 * second)"
proof -
  have w: "waiting (rs_iq later) = [request_at 1 0, request_at 2 (10 * second)]" "iq_sent (rs_iq later) = []" "rs_now later = 35 * second"
    "iq_requestTimeout (rs_iq later) = 30 * second"
    by code_simp+
  have late: "has_timed_out (35 * second) (30 * second) (request_at 1 0)" "\<not> has_timed_out (35 * second) (30 * second) (request_at 2 (10 * second))"
    by code_simp+
  have "sorted (map pd_CreatedTime (waiting (rs_iq later)))" by (simp add: w request_at_def)
  from timeouts_answered [OF later_reach this refl refl] late
  show ?thesis unfolding w by (simp add: refusals_def request_at_def)
qed

section \<open>Creation errors\<close>

lemma Clear_keeps_error [simp]: "iq_unrecoverableError (ClearReqQueueWithError err iq) = iq_unrecoverableError iq"
  by (induction err iq rule: ClearReqQueueWithError.induct)
    (subst ClearReqQueueWithError.simps, auto simp: send_result_def Let_def split: option.split)

lemma pass_keeps_error: "timeout_pass t iq = (next, iq') \<Longrightarrow> iq_unrecoverableError iq' = iq_unrecoverableError iq"
proof (induction t iq arbitrary: "next" iq' rule: timeout_pass.induct)
  case (1 t iq)
  from 1(2) show ?case
    by (subst (asm) timeout_pass.simps) (auto simp: send_result_def Let_def split: option.splits if_splits dest!: 1(1))
qed

lemma loop_pass_keeps_error [simp]: "iq_unrecoverableError (rs_iq (loop_pass t s)) = iq_unrecoverableError (rs_iq s)"
  by (auto simp: loop_pass_def dest: pass_keeps_error split: prod.split option.split)

text \<open>Only a reported success takes the error away.\<close>

definition report_success :: "bool \<Rightarrow> ('r, 'a) req_sys \<Rightarrow> ('r, 'a) req_sys" where
  "report_success backendFG s = s\<lparr>rs_iq := HandleCreateError backendFG None (rs_iq s)\<rparr>"

definition shut :: "('r, 'a) req_sys \<Rightarrow> bool" where
  "shut s \<longleftrightarrow> (\<exists>e. IsUnrecoverableError e \<and> iq_unrecoverableError (rs_iq s) = Some e)"

lemma step_keeps_shut:
  assumes "req_step s s'" and "shut s"
  shows "shut s' \<or> (\<exists>fg. s' = report_success fg s)"
  using assms
proof (induction rule: req_step.induct)
  case (callback s c)
  show ?case
  proof (cases "\<exists>fg. c = Create_error fg None")
    case True
    then show ?thesis by (auto simp: report_success_def)
  next
    case False
    with callback show ?thesis
      by (cases c) (auto simp: shut_def HandleCreateError_def handlerWorkMangerError_def HandleInsNumUpdate_def ScheduleRequest_def
          UpdateRequestTimeout_def iq_Stop_def Let_def split: option.splits)
  qed
qed (auto simp: shut_def AddRequest_def CancelRequest_def RegisterSchFunc_def sched_wake_def sched_take_def sched_finish_def
    schedule_take_def schedule_finish_def send_result_def loop_on_trigger_def loop_on_timer_def loop_on_stop_def
    split: option.splits prod.splits)

text \<open>A step that does not report a successful creation.\<close>

definition quiet_step :: "('r, 'a) req_sys \<Rightarrow> ('r, 'a) req_sys \<Rightarrow> bool" where
  "quiet_step s s' \<longleftrightarrow> req_step s s' \<and> (\<forall>fg. s' \<noteq> report_success fg s)"

lemma quiet_run_shut: "quiet_step\<^sup>*\<^sup>* s t \<Longrightarrow> shut s \<Longrightarrow> shut t"
  by (induction rule: rtranclp_induct) (auto simp: quiet_step_def dest: step_keeps_shut)

text \<open>
  C34: An error that no retry will mend is reported to a queue that is not stopped, by a backend that is not the
  worker manager. When the function has no instance, all requests waiting in the queue are answered with
  that error at once; when it has one, they go on waiting. After every run from there in which no creation
  is reported as successful, every request that comes is refused with such an error and does not enter the
  queue; and after a success an empty queue that can hold a request takes one.
\<close>

theorem unrecoverable_refuses_all:
  assumes "req_reach burst s" and "\<not> iq_stopped (rs_iq s)" and "IsUnrecoverableError err"
    and "s1 = s\<lparr>rs_iq := HandleCreateError False (Some err) (rs_iq s)\<rparr>"
  shows "(if iq_insNum (rs_iq s) = 0
      then waiting (rs_iq s1) = [] \<and> iq_sent (rs_iq s1) = iq_sent (rs_iq s) @ refusals err (waiting (rs_iq s))
      else waiting (rs_iq s1) = waiting (rs_iq s) \<and> iq_sent (rs_iq s1) = iq_sent (rs_iq s)) \<and>
    (\<forall>t. quiet_step\<^sup>*\<^sup>* s1 t \<longrightarrow>
       (\<exists>e. IsUnrecoverableError e \<and> (\<forall>req. AddRequest req (rs_iq t) = (Some e, rs_iq t)))) \<and>
    (0 < burst \<and> iq_insNum (rs_iq s) = 0 \<longrightarrow>
       (\<forall>req. \<exists>iq'. AddRequest req (HandleCreateError False None (rs_iq s1)) = (None, iq') \<and> waiting iq' = [req]))"
proof -
  have q: "plain_fifo (iq_queue (rs_iq s))" "iq_maxQueueLen (rs_iq s) = burst"
    using req_reach_inv [OF assms(1)] by (simp_all add: req_inv_def)
  let ?iq1 = "(rs_iq s)\<lparr>iq_unrecoverableError := Some err\<rparr>"
  have iq: "rs_iq s1 = (if iq_insNum (rs_iq s) = 0 then ClearReqQueueWithError err ?iq1 else ?iq1)"
    using assms(2-4) by (simp add: HandleCreateError_def Let_def)
  have "plain_fifo (iq_queue ?iq1)" using q by simp
  note c = Clear_effect [OF this, of err]
  let ?cl = "ClearReqQueueWithError err ?iq1"
  have cl: "waiting ?cl = []" "plain_fifo (iq_queue ?cl)"
    "?cl = ?iq1\<lparr>iq_queue := iq_queue ?cl, iq_sent := iq_sent (rs_iq s) @ refusals err (waiting (rs_iq s))\<rparr>"
    using c by (simp_all add: waiting_def)
  have f: "iq_sent ?cl = iq_sent (rs_iq s) @ refusals err (waiting (rs_iq s))" "iq_maxQueueLen ?cl = burst" "iq_stopped ?cl = False"
    using assms(2) q(2) by (subst cl(3), simp)+
  have again: "\<exists>iq'. AddRequest req (HandleCreateError False None ?cl) = (None, iq') \<and> waiting iq' = [req]" if "0 < burst" for req
    using that cl(1) f waiting_push [OF cl(2), of req]
    by (auto simp: HandleCreateError_def AddRequest_def TriggerSchedule_def Let_def iq_Len_waiting waiting_def)
  have "shut s1" using assms(3) by (simp add: shut_def iq)
  then have later: "\<exists>e. IsUnrecoverableError e \<and> (\<forall>req. AddRequest req (rs_iq t) = (Some e, rs_iq t))"
    if "quiet_step\<^sup>*\<^sup>* s1 t" for t
    using quiet_run_shut [OF that] by (auto simp: shut_def AddRequest_def)
  have now: "if iq_insNum (rs_iq s) = 0
      then waiting (rs_iq s1) = [] \<and> iq_sent (rs_iq s1) = iq_sent (rs_iq s) @ refusals err (waiting (rs_iq s))
      else waiting (rs_iq s1) = waiting (rs_iq s) \<and> iq_sent (rs_iq s1) = iq_sent (rs_iq s)"
    using cl(1) f(1) by (simp add: iq waiting_def)
  show ?thesis using now later again by (auto simp: iq)
qed

theorem unrecoverable_refuses_all_witness:
  "let s1 = two_waiting\<lparr>rs_iq := HandleCreateError False (Some (SNError 4001 ''entry'')) (rs_iq two_waiting)\<rparr>;
       t = s1\<lparr>rs_now := 60 * second\<rparr>
   in waiting (rs_iq s1) = [] \<and> map fst (iq_sent (rs_iq s1)) = [1, 2] \<and> quiet_step\<^sup>*\<^sup>* s1 t \<and>
      (\<exists>e. AddRequest (request_at 3 0) (rs_iq t) = (Some e, rs_iq t)) \<and>
      (\<exists>iq'. AddRequest (request_at 3 0) (HandleCreateError False None (rs_iq s1)) = (None, iq') \<and> waiting iq' = [request_at 3 0])"
proof -
  let ?s1 = "two_waiting\<lparr>rs_iq := HandleCreateError False (Some (SNError 4001 ''entry'')) (rs_iq two_waiting)\<rparr>"
  let ?t = "?s1\<lparr>rs_now := 60 * second\<rparr>"
  have w: "waiting (rs_iq two_waiting) = [request_at 1 0, request_at 2 (10 * second)]" "iq_sent (rs_iq two_waiting) = []"
    "\<not> iq_stopped (rs_iq two_waiting)" "iq_insNum (rs_iq two_waiting) = 0" "IsUnrecoverableError (SNError 4001 ''entry'')"
    "rs_now two_waiting = 0" by code_simp+
  have "req_step ?s1 ?t" by (rule req_step.time_passes) (simp add: w(6))
  moreover have "rs_now (report_success fg ?s1) = 0" for fg by (simp add: report_success_def w(6))
  then have "?t \<noteq> report_success fg ?s1" for fg by (metis (no_types, lifting) req_sys.select_convs(5) req_sys.surjective req_sys.update_convs(5) zero_neq_numeral mult_eq_0_iff)
  ultimately have q: "quiet_step\<^sup>*\<^sup>* ?s1 ?t" by (simp add: quiet_step_def r_into_rtranclp)
  note u = unrecoverable_refuses_all [OF two_waiting_reach w(3,5) refl]
  from u q have "\<exists>e. AddRequest (request_at 3 0) (rs_iq ?t) = (Some e, rs_iq ?t)" by blast
  with u q w(1,2,4) show ?thesis by (simp add: Let_def refusals_def request_at_def)
qed

section \<open>Requests that nobody answers\<close>

text \<open>
  The loop is woken by a token of the trigger channel, by its timer, or by the stop channel, and starts the timer only when
  it finds a request in the queue. A request that is being tried while the loop looks is put back without
  waking it: no timer runs, no token is left, and requests added behind it send no token because the queue is not
  empty. It never times out.
\<close>

definition registered :: sample_sys where
  "registered = start2\<lparr>rs_iq := ScheduleRequest ''f'' (RegisterSchFunc ''f'' (rs_iq start2)), rs_workers := [Idle]\<rparr>"

definition missed :: sample_sys where
  "missed =
     (let s1 = add_step (request_at 1 0) registered;
          s2 = sched_take 0 (sched_wake 0 s1);
          s3 = loop_on_trigger 0 s2
      in sched_finish 0 (request_at 1 0) None s3)"

theorem requeued_request_never_times_out:
  "(let s = missed; s' = add_step (request_at 2 0) s
    in (map pd_ptr (waiting (rs_iq s)), rs_timer s, iq_triggerCh (rs_iq s), rs_looping s, iq_stopped (rs_iq s), rs_workers s,
        map pd_ptr (waiting (rs_iq s')), rs_timer s', iq_triggerCh (rs_iq s'))) =
   ([1], None, 0, True, False, [Idle], [1, 2], None, 0)"
  by code_simp

text \<open>
  When the queue is stopped the loop answers the waiting requests and ends. A request that is being tried at that
  time is put back afterwards, and requests are still accepted: nobody is left to answer them.
\<close>

definition after_stop :: sample_sys where
  "after_stop =
     (let s1 = sched_take 0 (sched_wake 0 (add_step (request_at 1 0) registered));
          s2 = loop_on_stop (s1\<lparr>rs_iq := iq_Stop (rs_iq s1)\<rparr>)
      in add_step (request_at 2 0) (sched_finish 0 (request_at 1 0) None s2))"

theorem stopped_queue_keeps_requests:
  "(let s = after_stop
    in (map pd_ptr (waiting (rs_iq s)), iq_sent (rs_iq s), rs_looping s))
    = ([1, 2], [], False)"
  by code_simp

end
