(* ===== verification/ConcurrencyWaiting.thy ===== *)
theory ConcurrencyWaiting
  imports ConcurrencyProps RequestProps
begin

text \<open>
  The reserved and the scaled scheduler on top of the concurrency scheduler and the request queue
  (\<^verbatim>\<open>reserved_concurrency_scheduler.go\<close>, \<^verbatim>\<open>scaled_concurrency_scheduler.go\<close>): when there is no thread
  to give, an acquire waits. Shown: who may wait, what waiting does to the two components, what the polling loop of
  the reserved scheduler returns, and that a thread that comes free reaches the request at the front.
\<close>

section \<open>Waiting in the queue\<close>

type_synonym req_queue = "(InstanceAcquireRequest, InstanceAllocation) InsAcqReqQueue"
type_synonym pending_req = "InstanceAcquireRequest PendingInsAcqReq"

datatype wait_error = AcquireErr acquire_error | QueueErr go_error

text \<open>
  An acquire returns at once, or it has put its request into the queue and waits for the response. \<open>acq_scale\<close>
  counts the events published on \<^verbatim>\<open>TriggerScaleTopic\<close>.
\<close>

datatype acquire_state = Returned "wait_error + InstanceAllocation" | Parked pending_req

record acquire_out =
  acq_state :: acquire_state
  acq_scale :: nat
  acq_sched :: basicConcurrencyScheduler
  acq_queue :: req_queue

definition trigger_scale :: "basicConcurrencyScheduler \<Rightarrow> nat" where
  "trigger_scale bcs = (if bc_stopped bcs then 0 else 1)"

text \<open>
  The part of \<^verbatim>\<open>ScaledConcurrencyScheduler.AcquireInstance\<close> after the first attempt; \<open>ptr\<close> is the address of
  the new pending request. Other calls may run before it, so that it acts on the state it finds.
\<close>

definition scs_wait ::
  "schedEnv \<Rightarrow> nat \<Rightarrow> acquire_error + InstanceAllocation \<Rightarrow> InstanceAcquireRequest \<Rightarrow>
     basicConcurrencyScheduler \<Rightarrow> req_queue \<Rightarrow> acquire_out" where
  "scs_wait env ptr res req bcs iq =
     (let leave = (\<lambda>r. \<lparr>acq_state = Returned r, acq_scale = 0, acq_sched = bcs, acq_queue = iq\<rparr>)
      in case res of
           Inr insAlloc \<Rightarrow> leave (Inr insAlloc)
         | Inl err \<Rightarrow>
             if err \<noteq> SchedError ErrNoInsAvailable then leave (Inl (AcquireErr err))
             else if aq_SkipWaitPending req then leave (Inl (AcquireErr err))
             else if \<not> bc_isFuncOwner bcs \<and> \<not> aq_TrafficLimited req then leave (Inl (AcquireErr err))
             else let pendingRequest = \<lparr>pd_ptr = ptr, pd_CreatedTime = se_now env, pd_InsAcqReq = req\<rparr>
                  in case AddRequest pendingRequest iq of
                       (Some qerr, iq1) \<Rightarrow>
                         \<lparr>acq_state = Returned (Inl (QueueErr qerr)), acq_scale = 0, acq_sched = bcs, acq_queue = iq1\<rparr>
                     | (None, iq1) \<Rightarrow>
                         let bcs' = recordColdStartTrace env (aq_TraceID req) (aq_TraceParent req) bcs
                         in \<lparr>acq_state = Parked pendingRequest, acq_scale = trigger_scale bcs', acq_sched = bcs',
                             acq_queue = iq1\<rparr>)"

definition scs_AcquireInstance ::
  "schedEnv \<Rightarrow> (string \<Rightarrow> StoreRecord option) \<Rightarrow> nat \<Rightarrow> InstanceAcquireRequest \<Rightarrow>
     basicConcurrencyScheduler \<Rightarrow> req_queue \<Rightarrow> acquire_out" where
  "scs_AcquireInstance env fromStore ptr req bcs iq =
     (case acquireWithSessionResolve env fromStore req bcs of (res, req', bcs') \<Rightarrow> scs_wait env ptr res req' bcs' iq)"

text \<open>The response that ends the wait.\<close>

definition wait_result :: "InstanceAllocation PendingInsAcqRsp \<Rightarrow> wait_error + InstanceAllocation" where
  "wait_result rsp =
     (case (rsp_InsAlloc rsp, rsp_Error rsp) of
        (Some insAlloc, None) \<Rightarrow> Inr insAlloc
      | (_, Some err) \<Rightarrow> Inl (QueueErr err)
      | (None, None) \<Rightarrow> Inl (AcquireErr (SchedError ErrNoInsAvailable)))"

section \<open>The reserved scheduler\<close>

text \<open>
  A request that names an instance waits in the queue, at most for \<open>designate_timeout\<close>; when the timer fires the
  request is cancelled. Other requests poll while the scaler has not created all reserved instances.
\<close>

datatype reserved_state = RReturned "wait_error + InstanceAllocation" | RParked pending_req duration | RPolling

definition designate_timeout :: "duration \<Rightarrow> duration" where
  "designate_timeout checkScalingTimeout = (if checkScalingTimeout \<le> 0 then 30 * second else checkScalingTimeout)"

definition rcs_wait ::
  "schedEnv \<Rightarrow> duration \<Rightarrow> bool \<Rightarrow> int \<Rightarrow> nat \<Rightarrow> acquire_error + InstanceAllocation \<Rightarrow> InstanceAcquireRequest \<Rightarrow>
     basicConcurrencyScheduler \<Rightarrow> req_queue \<Rightarrow> reserved_state \<times> nat \<times> basicConcurrencyScheduler \<times> req_queue" where
  "rcs_wait env checkScalingTimeout disableReplicaScaler expect ptr res req bcs iq =
     (case res of
        Inr insAlloc \<Rightarrow> (RReturned (Inr insAlloc), 0, bcs, iq)
      | Inl err \<Rightarrow>
          if err \<noteq> SchedError ErrNoInsAvailable then (RReturned (Inl (AcquireErr err)), 0, bcs, iq)
          else let bcs' = recordColdStartTrace env (aq_TraceID req) (aq_TraceParent req) bcs; n = trigger_scale bcs'
               in if aq_DesignateInstanceID req \<noteq> [] then
                    let pendingRequest = \<lparr>pd_ptr = ptr, pd_CreatedTime = se_now env, pd_InsAcqReq = req\<rparr>
                    in case AddRequest pendingRequest iq of
                         (Some qerr, iq1) \<Rightarrow> (RReturned (Inl (QueueErr qerr)), n, bcs', iq1)
                       | (None, iq1) \<Rightarrow> (RParked pendingRequest (designate_timeout checkScalingTimeout), n, bcs', iq1)
                  else if disableReplicaScaler then (RReturned (Inl (AcquireErr err)), n, bcs', iq)
                  else if int (GetInstanceNumber True bcs') \<ge> expect then (RReturned (Inl (AcquireErr err)), n, bcs', iq)
                  else (RPolling, n, bcs', iq))"

definition rcs_wait_timeout :: "pending_req \<Rightarrow> req_queue \<Rightarrow> (wait_error + InstanceAllocation) \<times> req_queue" where
  "rcs_wait_timeout pendingRequest iq =
     (Inl (AcquireErr (SchedError ErrNoInsAvailable)), snd (CancelRequest (Some pendingRequest) iq))"

text \<open>
  One tick of the polling loop: what the scaler expects, the last creation error, and what the attempt returns. The
  state of the scheduler at the tick is the one other calls have left.
\<close>

record poll_tick =
  pt_env :: schedEnv
  pt_fromStore :: "string \<Rightarrow> StoreRecord option"
  pt_expect :: int
  pt_createErr :: "go_error option"
  pt_others :: "basicConcurrencyScheduler \<Rightarrow> basicConcurrencyScheduler"

definition poll_once ::
  "poll_tick \<Rightarrow> InstanceAcquireRequest \<Rightarrow> basicConcurrencyScheduler \<Rightarrow>
     (wait_error + InstanceAllocation) option \<times> InstanceAcquireRequest \<times> basicConcurrencyScheduler" where
  "poll_once pt req bcs =
     (case acquireWithSessionResolve (pt_env pt) (pt_fromStore pt) req (pt_others pt bcs) of
        (Inr insAlloc, req', bcs') \<Rightarrow> (Some (Inr insAlloc), req', bcs')
      | (Inl _, req', bcs') \<Rightarrow>
          if int (GetInstanceNumber True bcs') = pt_expect pt then
            (Some (Inl (AcquireErr (SchedError ErrNoInsAvailable))), req', bcs')
          else (case pt_createErr pt of
                  Some (SNError code msg) \<Rightarrow>
                    if IsUserError code then (Some (Inl (QueueErr (SNError code msg))), req', bcs') else (None, req', bcs')
                | _ \<Rightarrow> (None, req', bcs')))"

text \<open>The loop over the ticks before the timer fires; then the last creation error seen is returned, if any.\<close>

fun rcs_poll_loop ::
  "poll_tick list \<Rightarrow> go_error option \<Rightarrow> InstanceAcquireRequest \<Rightarrow> basicConcurrencyScheduler \<Rightarrow>
     (wait_error + InstanceAllocation) \<times> basicConcurrencyScheduler" where
  "rcs_poll_loop [] recordErr req bcs =
     (Inl (case recordErr of None \<Rightarrow> AcquireErr (SchedError ErrNoInsAvailable) | Some err \<Rightarrow> QueueErr err), bcs)"
| "rcs_poll_loop (pt # ticks) recordErr req bcs =
     (case poll_once pt req bcs of
        (Some res, _, bcs') \<Rightarrow> (res, bcs')
      | (None, req', bcs') \<Rightarrow>
          rcs_poll_loop ticks (case pt_createErr pt of None \<Rightarrow> recordErr | Some err \<Rightarrow> Some err) req' bcs')"

section \<open>Observers\<close>

text \<open>
  What the schedulers have registered with the queue for the events of the concurrency scheduler: threads that
  become available wake the scheduling goroutine, the number of threads is turned into a number of instances.
\<close>

definition observe :: "string \<Rightarrow> int \<Rightarrow> pubEvent \<Rightarrow> req_queue \<Rightarrow> req_queue" where
  "observe schFuncKey concurrentNum ev iq =
     (case ev of
        PubAvail availInsThdDiff \<Rightarrow> if availInsThdDiff < 0 then iq else ScheduleRequest schFuncKey iq
      | PubInUse _ \<Rightarrow> iq
      | PubTotal totalInsThdDiff \<Rightarrow> HandleInsNumUpdate (godiv totalInsThdDiff concurrentNum) iq)"

definition scs_HandleCreateError :: "bool \<Rightarrow> bool \<Rightarrow> go_error option \<Rightarrow> req_queue \<Rightarrow> req_queue" where
  "scs_HandleCreateError stopped backendFG createErr iq = (if stopped then iq else HandleCreateError backendFG createErr iq)"

text \<open>\<^verbatim>\<open>scheduleRequest\<close>, the schedule function of both: the error of a failed attempt is dropped by the queue.\<close>

definition scheduleRequest ::
  "schedEnv \<Rightarrow> (string \<Rightarrow> StoreRecord option) \<Rightarrow> InstanceAcquireRequest \<Rightarrow> basicConcurrencyScheduler \<Rightarrow>
     (acquire_error + InstanceAllocation) \<times> InstanceAcquireRequest \<times> basicConcurrencyScheduler" where
  "scheduleRequest env fromStore req bcs = acquireWithSessionResolve env fromStore req bcs"


section \<open>Properties\<close>

text \<open>
  An acquire of the scaled scheduler waits exactly when the first attempt found no instance available, the caller agrees to
  wait, this scheduler owns the function or takes over its traffic, and the queue has room and no lasting creation
  error. Then the request is the last of the queue, a cold start is noted and a scale-up is asked for. In all
  other cases the queue is left alone and no scale-up is asked for.
\<close>

theorem scaled_waits_iff:
  assumes first: "acquireWithSessionResolve env fromStore req bcs = (res, req', bcs')"
    and queue: "plain_fifo (iq_queue iq)" and out: "out = scs_AcquireInstance env fromStore ptr req bcs iq"
  shows "((\<exists>p. acq_state out = Parked p) \<longleftrightarrow>
      res = Inl (SchedError ErrNoInsAvailable) \<and> \<not> aq_SkipWaitPending req' \<and> (bc_isFuncOwner bcs' \<or> aq_TrafficLimited req') \<and>
      iq_unrecoverableError iq = None \<and> int (length (waiting iq)) < iq_maxQueueLen iq) \<and>
    (\<forall>p. acq_state out = Parked p \<longrightarrow>
      p = \<lparr>pd_ptr = ptr, pd_CreatedTime = se_now env, pd_InsAcqReq = req'\<rparr> \<and> waiting (acq_queue out) = waiting iq @ [p] \<and>
      acq_scale out = (if bc_stopped bcs' then 0 else 1) \<and>
      acq_sched out = recordColdStartTrace env (aq_TraceID req') (aq_TraceParent req') bcs') \<and>
    (\<forall>r. acq_state out = Returned r \<longrightarrow> acq_queue out = iq \<and> acq_scale out = 0 \<and> acq_sched out = bcs')"
proof -
  have o: "out = scs_wait env ptr res req' bcs' iq" using first out by (simp add: scs_AcquireInstance_def)
  have stopped: "bc_stopped (recordColdStartTrace env a b bcs') = bc_stopped bcs'" for a b
    by (simp add: recordColdStartTrace_def Let_def)
  define pending where "pending = \<lparr>pd_ptr = ptr, pd_CreatedTime = se_now env, pd_InsAcqReq = req'\<rparr>"
  obtain err iq' where a: "AddRequest pending iq = (err, iq')" by fastforce
  note add = AddRequest_outcome [OF queue a]
  show ?thesis
  proof (cases "res = Inl (SchedError ErrNoInsAvailable) \<and> \<not> aq_SkipWaitPending req' \<and> (bc_isFuncOwner bcs' \<or> aq_TrafficLimited req')")
    case True
    then have "out = (case err of
        Some e \<Rightarrow> \<lparr>acq_state = Returned (Inl (QueueErr e)), acq_scale = 0, acq_sched = bcs', acq_queue = iq'\<rparr>
      | None \<Rightarrow> \<lparr>acq_state = Parked pending, acq_scale = (if bc_stopped bcs' then 0 else 1),
          acq_sched = recordColdStartTrace env (aq_TraceID req') (aq_TraceParent req') bcs', acq_queue = iq'\<rparr>)"
      using a by (auto simp: o scs_wait_def pending_def trigger_scale_def stopped Let_def split: option.split)
    with True add show ?thesis by (cases err) (simp_all add: pending_def)
  next
    case False
    then have "(\<exists>r. acq_state out = Returned r) \<and> acq_queue out = iq \<and> acq_scale out = 0 \<and> acq_sched out = bcs'"
      by (auto simp: o scs_wait_def Let_def split: sum.split)
    with False show ?thesis by auto
  qed
qed

text \<open>
  A thread that becomes available reaches the request at the front: after the event the scheduling goroutine, if it
  is idle, can take the request; when the schedule function has an allocation for it, the client gets it; otherwise
  the request goes to the end of the queue.
\<close>

theorem freed_thread_reaches_front:
  fixes s :: "(InstanceAcquireRequest, InstanceAllocation) req_sys"
  assumes reach: "req_reach burst s" and key: "fmlookup (iq_schFuncMap (rs_iq s)) key = Some g"
    and g: "g < length (rs_workers s)" "rs_workers s ! g = Idle"
    and front: "waiting (rs_iq s) = r # rs" and n: "0 \<le> n"
    and s1: "s1 = s\<lparr>rs_iq := observe key concurrentNum (PubAvail n) (rs_iq s)\<rparr>"
  shows "\<exists>s'. req_step\<^sup>*\<^sup>* s1 s' \<and>
    (case result of
       Some al \<Rightarrow> iq_sent (rs_iq s') = iq_sent (rs_iq s) @ [(pd_ptr r, \<lparr>rsp_InsAlloc = Some al, rsp_Error = None\<rparr>)] \<and> waiting (rs_iq s') = rs
     | None \<Rightarrow> iq_sent (rs_iq s') = iq_sent (rs_iq s) \<and> waiting (rs_iq s') = rs @ [r])"
proof -
  have inv: "req_inv burst s" by (rule req_reach_inv [OF reach])
  then have q: "plain_fifo (iq_queue (rs_iq s))" and len: "length (iq_scheCh (rs_iq s)) = length (rs_workers s)"
    by (simp_all add: req_inv_def)
  have e: "rs_workers s1 = rs_workers s" "iq_queue (rs_iq s1) = iq_queue (rs_iq s)" "iq_sent (rs_iq s1) = iq_sent (rs_iq s)"
    "0 < iq_scheCh (rs_iq s1) ! g"
    using s1 n key g len by (auto simp: observe_def ScheduleRequest_def)
  let ?s2 = "sched_wake g s1" and ?s3 = "sched_take g (sched_wake g s1)"
  let ?s4 = "sched_finish g r result (sched_take g (sched_wake g s1))"
  have w2: "rs_workers ?s2 = (rs_workers s)[g := Scanning]" "iq_queue (rs_iq ?s2) = iq_queue (rs_iq s)" "iq_sent (rs_iq ?s2) = iq_sent (rs_iq s)"
    using e by (simp_all add: sched_wake_def)
  obtain q1 where pop: "fq_PopFront (iq_queue (rs_iq s)) = (Some r, q1)"
    using plain_fifo_ops(4) [OF q] front by (cases "fq_PopFront (iq_queue (rs_iq s))") (simp add: waiting_def)
  have q1: "plain_fifo q1" "map snd (fq_queue q1) = rs"
    using plain_fifo_ops(2,5) [OF q] pop front by (simp_all add: waiting_def)
  have w3: "rs_workers ?s3 = (rs_workers s)[g := Trying r]" "iq_queue (rs_iq ?s3) = q1" "iq_sent (rs_iq ?s3) = iq_sent (rs_iq s)"
    using w2 pop by (simp_all add: sched_take_def schedule_take_def)
  have "req_step s1 ?s2" by (rule req_step.wake) (use e g in simp_all)
  moreover have "req_step ?s2 ?s3" by (rule req_step.take) (use w2 g in simp_all)
  moreover have "req_step ?s3 ?s4" by (rule req_step.finish) (use w3 g in simp_all)
  ultimately have "req_step\<^sup>*\<^sup>* s1 ?s4" by (meson rtranclp.rtrancl_refl rtranclp.rtrancl_into_rtrancl)
  moreover have "case result of
       Some al \<Rightarrow> iq_sent (rs_iq ?s4) = iq_sent (rs_iq s) @ [(pd_ptr r, \<lparr>rsp_InsAlloc = Some al, rsp_Error = None\<rparr>)] \<and> waiting (rs_iq ?s4) = rs
     | None \<Rightarrow> iq_sent (rs_iq ?s4) = iq_sent (rs_iq s) \<and> waiting (rs_iq ?s4) = rs @ [r]"
    using w3 q1 plain_fifo_ops(3) [OF q1(1), of r]
    by (cases result) (simp_all add: sched_finish_def schedule_finish_def send_result_def waiting_def)
  ultimately show ?thesis by blast
qed


section \<open>Witnesses\<close>

definition empty_owner :: "string \<Rightarrow> basicConcurrencyScheduler" where
  "empty_owner label = HandleFuncOwnerUpdate env1 True (fresh1 label)"

definition queue_of2 :: req_queue where
  "queue_of2 = NewInsAcqReqQueue 2 0"

theorem scaled_waits_iff_witness:
  "\<exists>p. acq_state (scs_AcquireInstance env1 (\<lambda>_. None) 7 ConcurrencyProps.req1 (empty_owner ''f'') queue_of2) = Parked p \<and> pd_ptr p = 7"
proof -
  obtain res req' bcs' where a:
    "acquireWithSessionResolve env1 (\<lambda>_. None) ConcurrencyProps.req1 (empty_owner ''f'') = (res, req', bcs')" by (metis prod_cases3)
  have "(let r = acquireWithSessionResolve env1 (\<lambda>_. None) ConcurrencyProps.req1 (empty_owner ''f'')
         in (fst r, aq_SkipWaitPending (fst (snd r)), bc_isFuncOwner (snd (snd r)))) = (Inl (SchedError ErrNoInsAvailable), False, True)"
    by code_simp
  then have r: "res = Inl (SchedError ErrNoInsAvailable)" "\<not> aq_SkipWaitPending req'" "bc_isFuncOwner bcs'"
    by (simp_all add: a)
  have q: "plain_fifo (iq_queue queue_of2)" by (simp add: queue_of2_def NewInsAcqReqQueue_def plain_fifo_new)
  have "iq_unrecoverableError queue_of2 = None" "int (length (waiting queue_of2)) < iq_maxQueueLen queue_of2" by code_simp+
  with scaled_waits_iff [OF a q refl, of 7] r show ?thesis by auto
qed

definition parked_req :: pending_req where
  "parked_req = \<lparr>pd_ptr = 7, pd_CreatedTime = 0, pd_InsAcqReq = ConcurrencyProps.req1\<rparr>"

definition with_key :: "(InstanceAcquireRequest, InstanceAllocation) req_sys" where
  "with_key = (req_start 2 0 0)\<lparr>rs_iq := RegisterSchFunc ''k'' (rs_iq (req_start 2 0 0)), rs_workers := [Idle]\<rparr>"

definition with_parked :: "(InstanceAcquireRequest, InstanceAllocation) req_sys" where
  "with_parked = with_key\<lparr>rs_iq := snd (AddRequest parked_req (rs_iq with_key)), rs_accepted := [7]\<rparr>"

lemma with_parked_reach: "req_reach 2 with_parked"
proof -
  have w: "rs_workers (req_start 2 0 0) = []" by (simp add: req_start_def)
  have "req_step (req_start 2 0 0) with_key"
    using req_step.register [of "req_start 2 0 0" "''k''"] unfolding with_key_def w by simp
  moreover have "fst (AddRequest parked_req (rs_iq with_key)) = None" "rs_accepted with_key = []" by code_simp+
  then have "req_step with_key with_parked"
    using req_step.add [of parked_req with_key "snd (AddRequest parked_req (rs_iq with_key))"]
    by (simp add: with_parked_def prod_eq_iff parked_req_def)
  ultimately show ?thesis unfolding req_reach_def by (meson rtranclp.rtrancl_refl rtranclp.rtrancl_into_rtrancl)
qed

theorem freed_thread_reaches_front_witness:
  "\<exists>s'. req_step\<^sup>*\<^sup>* (with_parked\<lparr>rs_iq := observe ''k'' 1 (PubAvail 1) (rs_iq with_parked)\<rparr>) s' \<and> waiting (rs_iq s') = [parked_req]"
proof -
  have f: "fmlookup (iq_schFuncMap (rs_iq with_parked)) ''k'' = Some 0" "rs_workers with_parked = [Idle]"
    "waiting (rs_iq with_parked) = [parked_req]" by code_simp+
  from freed_thread_reaches_front [OF with_parked_reach f(1) _ _ f(3), where n = 1 and result = None] f(2)
  show ?thesis by auto
qed

end
