(* ===== verification/ConcurrencyFindings.thy ===== *)
theory ConcurrencyFindings
  imports ConcurrencyProps
begin

text \<open>
  Runs of the concurrency scheduler in which it does not do what it means to, each evaluated step by step
  on a small function: three threads per instance, one or two instances.
\<close>

definition owner1 :: "string \<Rightarrow> basicConcurrencyScheduler" where
  "owner1 label = HandleFuncOwnerUpdate env1 True (fresh1 label)"

section \<open>An instance in both queues\<close>

text \<open>
  A permanent instance of another scheduler is kept in the queue of the others. When its scheduler leaves the
  ring while this one stays the owner of the function, no instances are reassigned; the next update of the
  instance is looked up in the own queue, is not found there, and enters it a second time with all its threads.
\<close>

definition env2 :: schedEnv where
  "env2 = env1\<lparr>se_proxy := (se_proxy env1)\<lparr>sp_FaaSSchedulers := fmupd ''s2'' (sample_info ''s2'') fmempty\<rparr>\<rparr>"

definition foreign1 :: SchedInstance where
  "foreign1 = (instance1 ''i3'')\<lparr>in_CreateSchedulerID := ''s2''\<rparr>"

theorem ring_change_duplicates_instance:
  "(let b1 = snd (AddInstance env2 foreign1 (owner1 label)); b2 = cs_HandleInstanceUpdate env1 foreign1 b1
    in (queue_GetByID env1 SelfQueue ''i3'' b2, queue_GetByID env1 OtherQueue ''i3'' b2, ie_avail (elem_at b2 0), ie_avail (elem_at b2 1))) =
   (Some 1, Some 0, 3, 3)"
  by code_simp

section \<open>Threads that a session keeps for ever\<close>

text \<open>
  The goroutine that waits for the end of a session remembers the queue it was started with. When the scheduler
  loses the function meanwhile, the instance has moved to the other queue: the session is deleted, its threads
  do not go back to the instance. In the run the instance has three threads, a session had bound two of
  them, no lease and no session is left, and the instance offers one thread.
\<close>

definition local1 :: SchedInstance where
  "local1 = (instance1 ''i1'')\<lparr>in_Permanent := False\<rparr>"

definition first_alloc :: "(acquire_error + InstanceAllocation) \<Rightarrow> string" where
  "first_alloc res = (case res of Inr al \<Rightarrow> ia_AllocationID al | Inl _ \<Rightarrow> [])"

definition released1 :: "string \<Rightarrow> basicConcurrencyScheduler" where
  "released1 label =
     (case acquire_phase3 env1 ([], True) None req1 (snd (AddInstance env1 local1 (owner1 label))) of
        (res, _, b) \<Rightarrow> snd (release_lease env1 ''i1'' (first_alloc res) b))"

theorem owner_change_leaks_threads:
  "(let b1 = HandleFuncOwnerUpdate env1 False (released1 label);
        b2 = (case unbind_on_timer env1 0 SelfQueue b1 of None \<Rightarrow> b1 | Some b \<Rightarrow> b)
    in (queue_GetByID env1 OtherQueue ''i1'' b2, ie_avail (elem_at b2 0), ie_ConcurrentNum (elem_at b2 0), fmlookup (bc_waiters b1) 0,
        getSession ''a'' (bc_sessionManager b2) = None)) =
   (Some 0, 1, 3, Some (SelfQueue, False), True)"
  by code_simp

section \<open>A session that never ends\<close>

text \<open>
  The goroutine stores false in \<^verbatim>\<open>expiring\<close> some time after it has taken the cancel token, without the lock. A
  release in between finds the session still marked as expiring and starts no goroutine: the session has all
  its threads back, nobody waits for its end, and it keeps them for ever.
\<close>

theorem cancelled_session_stays:
  "(let b1 = released1 label;
        r = acquire_phase3 env1 ([], True) None req1 b1;
        b2 = unbind_take_cancel 0 SelfQueue (snd (snd r));
        b3 = snd (release_lease env1 ''i1'' (first_alloc (fst r)) b2);
        b4 = unbind_end_cancel 0 b3
    in (fmlookup (bc_waiters b4) 0,
        map_option (\<lambda>rec. (sn_expiring rec, fcard (sn_availThdMap rec), fcard (sn_allocThdMap rec))) (record_at b4 0),
        ie_avail (elem_at b4 0))) =
   (None, Some (False, 2, 2), 1)"
  by code_simp

section \<open>Threads in use that are counted for ever\<close>

text \<open>
  A thread that is released while its instance is sub-healthy is not taken off the number of threads in use:
  after the instance has recovered, all its threads are available and one of them is still told to be in use.
\<close>

fun pub_inuse :: "pubEvent \<Rightarrow> int" where
  "pub_inuse (PubInUse n) = n" | "pub_inuse (PubAvail n) = 0" | "pub_inuse (PubTotal n) = 0"

definition plain_req1 :: InstanceAcquireRequest where
  "plain_req1 = clear_session req1"

theorem in_use_drifts:
  "(let b0 = snd (AddInstance env1 (instance1 ''i1'') (owner1 label));
        r = acquire_phase3 env1 ([], True) None plain_req1 b0;
        b1 = cs_HandleInstanceUpdate env1 ((instance1 ''i1'')\<lparr>in_Code := statusSubHealth\<rparr>) (snd (snd r));
        b2 = snd (release_lease env1 ''i1'' (first_alloc (fst r)) b1);
        b3 = cs_HandleInstanceUpdate env1 (instance1 ''i1'') b2
    in (ie_avail (elem_at b3 0), ie_ConcurrentNum (elem_at b3 0), sum_list (map pub_avail (bc_published b3)), sum_list (map pub_inuse (bc_published b3)))) =
   (3, 3, 3, 1)"
  by code_simp

end
