(* ===== verification/GoFloat.thy ===== *)
theory GoFloat
  imports GoPrelude "HOL-Library.Log_Nat"
begin

text \<open>
  The arithmetic of \<^verbatim>\<open>float64\<close>: a number is a rational, and every operation rounds its exact result to the
  nearest number with 53 binary digits, to the even one of two nearest. The range of the exponent is left out: the
  sources compute with counts and times far inside of it, and check a divisor for zero before they divide.
  Shown: rounding is monotone, keeps whole numbers up to \<open>2 ^ 53\<close>, and errs by at most the factor \<open>2 ^ 53\<close>.
\<close>

section \<open>Rounding\<close>

text \<open>The exponent of the leading binary digit of a positive number.\<close>

definition expo :: "rat \<Rightarrow> int" where
  "expo x =
     (case quotient_of x of (p, q) \<Rightarrow>
        let g = bitlen p - bitlen q in if 2 powi g \<le> x then g else g - 1)"

definition rne :: "rat \<Rightarrow> int" where
  "rne x =
     (let f = \<lfloor>x\<rfloor>; d = x - of_int f
      in if d < 1 / 2 then f else if 1 / 2 < d then f + 1 else if even f then f else f + 1)"

definition f64_pos :: "rat \<Rightarrow> rat" where
  "f64_pos x = (let u = 2 powi (expo x - 52) in of_int (rne (x / u)) * u)"

definition f64 :: "rat \<Rightarrow> rat" where
  "f64 x = (if x = 0 then 0 else if x < 0 then - f64_pos (- x) else f64_pos x)"

definition fadd :: "rat \<Rightarrow> rat \<Rightarrow> rat" where "fadd x y = f64 (x + y)"
definition fsub :: "rat \<Rightarrow> rat \<Rightarrow> rat" where "fsub x y = f64 (x - y)"
definition fmul :: "rat \<Rightarrow> rat \<Rightarrow> rat" where "fmul x y = f64 (x * y)"
definition fdiv :: "rat \<Rightarrow> rat \<Rightarrow> rat" where "fdiv x y = f64 (x / y)"

text \<open>\<^verbatim>\<open>float64(n)\<close>, and \<^verbatim>\<open>time.Duration.Seconds\<close>.\<close>

definition f64_of :: "int \<Rightarrow> rat" where "f64_of n = f64 (of_int n)"

definition seconds :: "duration \<Rightarrow> rat" where
  "seconds d = fadd (f64_of (godiv d 1000000000)) (fdiv (f64_of (gomod d 1000000000)) 1000000000)"

section \<open>Laws\<close>

lemma expo_bounds:
  assumes "0 < x"
  shows "2 powi expo x \<le> x" "x < 2 powi (expo x + 1)"
proof -
  obtain p q where pq: "quotient_of x = (p, q)" by fastforce
  have q: "0 < q" and x: "x = of_int p / of_int q"
    using quotient_of_denom_pos [OF pq] quotient_of_div [OF pq] by auto
  have p: "0 < p" using assms q unfolding x by (simp add: zero_less_divide_iff)
  define a b where "a = bitlen p" and "b = bitlen q"
  have pos: "0 < a" "0 < b" using p q bitlen_nonneg [of p] bitlen_nonneg [of q] bitlen_eq_zero_iff [of p] bitlen_eq_zero_iff [of q]
    unfolding a_def b_def by linarith+
  have "2 ^ nat (a - 1) \<le> p" "p < 2 ^ nat a" "2 ^ nat (b - 1) \<le> q" "q < 2 ^ nat b"
    using bitlen_bounds [OF p] bitlen_bounds [OF q] by (simp_all add: a_def b_def)
  then have "(of_int (2 ^ nat (a - 1)) :: rat) \<le> of_int p" "(of_int p :: rat) < of_int (2 ^ nat a)"
    "(of_int (2 ^ nat (b - 1)) :: rat) \<le> of_int q" "(of_int q :: rat) < of_int (2 ^ nat b)"
    by (simp_all only: of_int_le_iff of_int_less_iff)
  then have bounds: "2 powi (a - 1) \<le> (of_int p :: rat)" "(of_int p :: rat) < 2 powi a"
    "2 powi (b - 1) \<le> (of_int q :: rat)" "(of_int q :: rat) < 2 powi b"
    using pos by (simp_all add: power_int_def)
  have "x \<le> of_int p / 2 powi (b - 1)" unfolding x using bounds(3) p q by (intro divide_left_mono) auto
  also have "\<dots> < 2 powi a / 2 powi (b - 1)" using bounds(2) by (intro divide_strict_right_mono) auto
  finally have up: "x < 2 powi (a - b + 1)" by (simp add: power_int_diff power_int_add field_simps)
  have "2 powi (a - 1) / 2 powi b \<le> (of_int p / 2 powi b :: rat)" using bounds(1) by (intro divide_right_mono) auto
  also have "\<dots> \<le> x" unfolding x using bounds(4) p q by (intro divide_left_mono) auto
  finally have low: "2 powi (a - b - 1) \<le> x" by (simp add: power_int_diff power_int_add field_simps)
  show "2 powi expo x \<le> x" "x < 2 powi (expo x + 1)"
    using up low by (auto simp: expo_def pq Let_def a_def b_def)
qed

lemma expo_mono: "0 < x \<Longrightarrow> x \<le> y \<Longrightarrow> expo x \<le> expo y"
proof (rule ccontr)
  assume x: "0 < x" "x \<le> y" and "\<not> expo x \<le> expo y"
  then have "2 powi (expo y + 1) \<le> (2 :: rat) powi expo x" by (intro power_int_increasing) auto
  with expo_bounds [of x] expo_bounds [of y] x show False by simp
qed

lemma rne_of_int [simp]: "rne (of_int n) = n"
  by (simp add: rne_def Let_def)

lemma rne_near: "\<bar>of_int (rne x) - x\<bar> \<le> 1 / 2"
proof -
  have "of_int \<lfloor>x\<rfloor> \<le> x" "x < of_int \<lfloor>x\<rfloor> + 1" by linarith+
  then show ?thesis unfolding rne_def Let_def abs_if by (simp split: if_split) linarith
qed

lemma rne_floor: "rne x = \<lfloor>x\<rfloor> \<or> rne x = \<lfloor>x\<rfloor> + 1"
  by (simp add: rne_def Let_def)

lemma rne_mono: "x \<le> y \<Longrightarrow> rne x \<le> rne y"
proof (cases "\<lfloor>x\<rfloor> = \<lfloor>y\<rfloor>")
  case True
  assume "x \<le> y"
  with True show ?thesis by (auto simp: rne_def Let_def)
next
  case False
  assume "x \<le> y"
  with False have "\<lfloor>x\<rfloor> + 1 \<le> \<lfloor>y\<rfloor>" using floor_mono [of x y] by linarith
  then show ?thesis using rne_floor [of x] rne_floor [of y] by auto
qed

lemma rne_ge: "of_int n \<le> x \<Longrightarrow> n \<le> rne x"
  using rne_mono [of "of_int n" x] by simp

lemma rne_le: "x \<le> of_int n \<Longrightarrow> rne x \<le> n"
  using rne_mono [of x "of_int n"] by simp

lemma f64_pos_bounds:
  assumes "0 < x"
  shows "2 powi expo x \<le> f64_pos x" "f64_pos x \<le> 2 powi (expo x + 1)"
proof -
  let ?u = "2 powi (expo x - 52) :: rat"
  have u: "0 < ?u" by simp
  have "2 powi expo x = 2 ^ 52 * ?u" "2 powi (expo x + 1) = 2 ^ 53 * ?u"
    by (simp_all add: power_int_diff power_int_add field_simps)
  note e = this
  have "2 ^ 52 \<le> x / ?u" "x / ?u \<le> 2 ^ 53"
    using expo_bounds [OF assms] unfolding e using u by (simp_all add: pos_le_divide_eq pos_divide_le_eq)
  then have "2 ^ 52 \<le> rne (x / ?u)" "rne (x / ?u) \<le> 2 ^ 53" using rne_ge [of "2 ^ 52"] rne_le [of _ "2 ^ 53"] by auto
  then have "(2 ^ 52 :: rat) \<le> of_int (rne (x / ?u))" "of_int (rne (x / ?u)) \<le> (2 ^ 53 :: rat)"
    by (metis of_int_le_iff of_int_numeral of_int_power)+
  then show "2 powi expo x \<le> f64_pos x" "f64_pos x \<le> 2 powi (expo x + 1)"
    unfolding e f64_pos_def Let_def using u by (simp_all add: mult_right_mono)
qed

lemma f64_pos_mono:
  assumes "0 < x" "x \<le> y"
  shows "f64_pos x \<le> f64_pos y"
proof (cases "expo x = expo y")
  case True
  have "rne (x / 2 powi (expo x - 52)) \<le> rne (y / 2 powi (expo x - 52))"
    using assms by (intro rne_mono divide_right_mono) auto
  then show ?thesis unfolding f64_pos_def Let_def True by (intro mult_right_mono) auto
next
  case False
  then have "expo x + 1 \<le> expo y" using expo_mono [OF assms] by linarith
  then have "(2 :: rat) powi (expo x + 1) \<le> 2 powi expo y" by (intro power_int_increasing) auto
  with f64_pos_bounds [of x] f64_pos_bounds [of y] assms show ?thesis by simp
qed

lemma f64_pos_positive: "0 < x \<Longrightarrow> 0 < f64_pos x"
  using f64_pos_bounds(1) [of x] zero_less_power_int [of "2 :: rat"] by (meson less_le_trans zero_less_numeral)

lemma f64_mono: "x \<le> y \<Longrightarrow> f64 x \<le> f64 y"
proof -
  assume xy: "x \<le> y"
  consider "x < 0" "y < 0" | "x < 0" "0 \<le> y" | "x = 0" | "0 < x" by linarith
  then show ?thesis
  proof cases
    case 1
    then show ?thesis using f64_pos_mono [of "- y" "- x"] xy by (simp add: f64_def)
  next
    case 2
    then show ?thesis using f64_pos_positive [of "- x"] f64_pos_positive [of y] by (auto simp: f64_def)
  next
    case 3
    then show ?thesis using f64_pos_positive [of y] xy by (auto simp: f64_def)
  next
    case 4
    then show ?thesis using f64_pos_mono [of x y] xy by (simp add: f64_def)
  qed
qed

lemma f64_zero [simp]: "f64 0 = 0" by (simp add: f64_def)

lemma f64_minus: "f64 (- x) = - f64 x" by (simp add: f64_def)

lemma f64_nonneg: "0 \<le> x \<Longrightarrow> 0 \<le> f64 x"
  using f64_mono [of 0 x] by simp

lemma f64_pos_int:
  assumes "0 < n" "n \<le> 2 ^ 53"
  shows "f64_pos (of_int n) = of_int n"
proof -
  let ?x = "of_int n :: rat"
  have x: "0 < ?x" using assms(1) by simp
  have "\<exists>k. ?x / 2 powi (expo ?x - 52) = of_int k"
  proof (cases "expo ?x \<le> 52")
    case True
    then have "(2 :: rat) powi (expo ?x - 52) = inverse (2 ^ nat (52 - expo ?x))"
      by (auto simp: power_int_def power_inverse [symmetric])
    then have "?x / 2 powi (expo ?x - 52) = of_int (n * 2 ^ nat (52 - expo ?x))" by (simp add: field_simps)
    then show ?thesis by blast
  next
    case False
    then have "(2 :: rat) powi 53 \<le> 2 powi expo ?x" by (intro power_int_increasing) auto
    then have "(2 ^ 53 :: rat) \<le> ?x" using expo_bounds(1) [OF x] by (simp add: power_int_numeral)
    then have n: "n = 2 ^ 53" using assms(2) by (metis antisym of_int_le_iff of_int_numeral of_int_power)
    have "(2 :: rat) powi expo ?x < 2 powi 54"
      using expo_bounds(1) [OF x] unfolding n by (simp add: power_int_numeral)
    then have "expo ?x = 53" using False power_int_increasing [of 54 "expo ?x" "2 :: rat"] by linarith
    then have "?x / 2 powi (expo ?x - 52) = of_int (2 ^ 52)" unfolding n by simp
    then show ?thesis by blast
  qed
  then show ?thesis by (auto simp: f64_pos_def Let_def) (metis nonzero_eq_divide_eq power_int_not_zero zero_neq_numeral)
qed

lemma f64_int: "\<bar>n\<bar> \<le> 2 ^ 53 \<Longrightarrow> f64 (of_int n) = of_int n"
  using f64_pos_int [of n] f64_pos_int [of "- n"] by (auto simp: f64_def abs_if split: if_splits)

lemma f64_of_int: "\<bar>n\<bar> \<le> 2 ^ 53 \<Longrightarrow> f64_of n = of_int n"
  by (simp add: f64_of_def f64_int)

lemma f64_error:
  assumes "0 \<le> x"
  shows "\<bar>f64 x - x\<bar> \<le> x / 2 ^ 53"
proof (cases "x = 0")
  case False
  then have x: "0 < x" using assms by simp
  let ?u = "2 powi (expo x - 52) :: rat"
  have u: "0 < ?u" by simp
  have "f64 x - x = (of_int (rne (x / ?u)) - x / ?u) * ?u" using x u by (simp add: f64_def f64_pos_def Let_def algebra_simps)
  then have "\<bar>f64 x - x\<bar> = \<bar>of_int (rne (x / ?u)) - x / ?u\<bar> * ?u" using u by (simp add: abs_mult)
  also have "\<dots> \<le> 1 / 2 * ?u" using rne_near [of "x / ?u"] u by (intro mult_right_mono) auto
  also have "\<dots> = 2 powi expo x / 2 ^ 53" by (simp add: power_int_diff)
  also have "\<dots> \<le> x / 2 ^ 53" using expo_bounds(1) [OF x] by (intro divide_right_mono) auto
  finally show ?thesis .
qed simp

text \<open>
  Rounding a quotient of whole numbers changes neither the whole number below nor the one above it, if the
  dividend is not too large: the error is smaller than the distance to the next whole number.
\<close>

lemma fdiv_error:
  assumes "0 \<le> a" "a < 2 ^ 53" "0 < c"
  shows "\<bar>fdiv (of_int a) (of_int c) - of_int a / of_int c\<bar> < 1 / of_int c"
proof -
  have "(of_int a :: rat) < of_int (2 ^ 53)" using assms(2) by (simp only: of_int_less_iff)
  then have "of_int a / 2 ^ 53 < (1 :: rat)" by simp
  then have "of_int a / 2 ^ 53 / of_int c < 1 / (of_int c :: rat)" using assms(3) by (intro divide_strict_right_mono) auto
  moreover have "\<bar>fdiv (of_int a) (of_int c) - of_int a / of_int c\<bar> \<le> of_int a / of_int c / (2 ^ 53 :: rat)"
    unfolding fdiv_def using assms by (intro f64_error) simp
  ultimately show ?thesis by (simp add: field_simps)
qed

lemma quotient_gap:
  assumes "(0 :: int) < c"
  shows "of_int n < (of_int a / of_int c :: rat) \<Longrightarrow> of_int n + 1 / of_int c \<le> (of_int a / of_int c :: rat)"
    and "(of_int a / of_int c :: rat) < of_int n \<Longrightarrow> (of_int a / of_int c :: rat) + 1 / of_int c \<le> of_int n"
proof -
  have q: "(of_int n :: rat) = of_int (n * c) / of_int c" using assms by simp
  {
    assume "of_int n < (of_int a / of_int c :: rat)"
    then have "n * c + 1 \<le> a" using assms unfolding q by (simp add: divide_less_cancel flip: of_int_mult)
    then have "of_int (n * c + 1) / of_int c \<le> (of_int a / of_int c :: rat)"
      using assms by (intro divide_right_mono) (simp_all only: of_int_le_iff of_int_0_le_iff order_less_imp_le)
    then show "of_int n + 1 / of_int c \<le> (of_int a / of_int c :: rat)" using assms by (simp add: add_divide_distrib)
  next
    assume "(of_int a / of_int c :: rat) < of_int n"
    then have "a + 1 \<le> n * c" using assms unfolding q by (simp add: divide_less_cancel flip: of_int_mult)
    then have "of_int (a + 1) / of_int c \<le> (of_int (n * c) / of_int c :: rat)"
      using assms by (intro divide_right_mono) (simp_all only: of_int_le_iff of_int_0_le_iff order_less_imp_le)
    then show "(of_int a / of_int c :: rat) + 1 / of_int c \<le> of_int n" using assms by (simp add: add_divide_distrib)
  }
qed

lemma fdiv_near_int:
  assumes "0 \<le> a" "a < 2 ^ 53" "0 < c" and "\<bar>n\<bar> \<le> 2 ^ 53"
  shows "fdiv (of_int a) (of_int c) \<le> of_int n \<longleftrightarrow> (of_int a / of_int c :: rat) \<le> of_int n"
    and "of_int n \<le> fdiv (of_int a) (of_int c) \<longleftrightarrow> of_int n \<le> (of_int a / of_int c :: rat)"
proof -
  let ?x = "of_int a / of_int c :: rat"
  have e: "\<bar>fdiv (of_int a) (of_int c) - ?x\<bar> < 1 / of_int c" by (rule fdiv_error [OF assms(1-3)])
  have up: "fdiv (of_int a) (of_int c) \<le> of_int n" if "?x \<le> of_int n"
    using f64_mono [OF that] f64_int [OF assms(4)] by (simp add: fdiv_def)
  have down: "of_int n \<le> fdiv (of_int a) (of_int c)" if "of_int n \<le> ?x"
    using f64_mono [OF that] f64_int [OF assms(4)] by (simp add: fdiv_def)
  show "fdiv (of_int a) (of_int c) \<le> of_int n \<longleftrightarrow> ?x \<le> of_int n"
    using up quotient_gap(1) [OF assms(3), of n a] e by (auto simp: abs_less_iff not_le [symmetric]) linarith
  show "of_int n \<le> fdiv (of_int a) (of_int c) \<longleftrightarrow> of_int n \<le> ?x"
    using down quotient_gap(2) [OF assms(3), of a n] e by (auto simp: abs_less_iff not_le [symmetric]) linarith
qed

lemma quotient_range:
  assumes "0 \<le> a" "a < 2 ^ 53" "(0 :: int) < c"
  shows "0 \<le> (of_int a / of_int c :: rat)" "(of_int a / of_int c :: rat) \<le> of_int a"
proof -
  have "1 \<le> (of_int c :: rat)" using assms(3) by simp
  then show "(of_int a / of_int c :: rat) \<le> of_int a"
    using assms by (simp add: divide_le_eq mult_left_mono [of 1 "of_int c" "of_int a :: rat", simplified])
qed (use assms in simp)

lemma ceil_fdiv:
  assumes "0 \<le> a" "a < 2 ^ 53" "0 < c"
  shows "\<lceil>fdiv (of_int a) (of_int c)\<rceil> = \<lceil>(of_int a / of_int c :: rat)\<rceil>"
proof -
  let ?x = "of_int a / of_int c :: rat"
  have "\<lceil>?x\<rceil> \<le> a" "0 \<le> \<lceil>?x\<rceil>" using quotient_range [OF assms] by (simp_all add: ceiling_le_iff le_ceiling_iff)
  then have n: "\<bar>\<lceil>?x\<rceil>\<bar> \<le> 2 ^ 53" "\<bar>\<lceil>?x\<rceil> - 1\<bar> \<le> 2 ^ 53" using assms(2) by linarith+
  have "fdiv (of_int a) (of_int c) \<le> of_int \<lceil>?x\<rceil>" using fdiv_near_int(1) [OF assms n(1)] le_of_int_ceiling [of ?x] by simp
  moreover have "\<not> fdiv (of_int a) (of_int c) \<le> of_int (\<lceil>?x\<rceil> - 1)"
    unfolding fdiv_near_int(1) [OF assms n(2)] by linarith
  ultimately show ?thesis by (intro ceiling_unique) auto
qed

lemma floor_fdiv:
  assumes "0 \<le> a" "a < 2 ^ 53" "0 < c"
  shows "\<lfloor>fdiv (of_int a) (of_int c)\<rfloor> = a div c"
proof -
  let ?x = "of_int a / of_int c :: rat"
  have "0 \<le> \<lfloor>?x\<rfloor>" "\<lfloor>?x\<rfloor> \<le> a" using quotient_range [OF assms] by (simp_all add: le_floor_iff floor_le_iff)
  then have n: "\<bar>\<lfloor>?x\<rfloor>\<bar> \<le> 2 ^ 53" "\<bar>\<lfloor>?x\<rfloor> + 1\<bar> \<le> 2 ^ 53" using assms(2) by linarith+
  have "of_int \<lfloor>?x\<rfloor> \<le> fdiv (of_int a) (of_int c)" using fdiv_near_int(2) [OF assms n(1)] by simp
  moreover have "\<not> of_int (\<lfloor>?x\<rfloor> + 1) \<le> fdiv (of_int a) (of_int c)"
    unfolding fdiv_near_int(2) [OF assms n(2)] by linarith
  ultimately have "\<lfloor>fdiv (of_int a) (of_int c)\<rfloor> = \<lfloor>?x\<rfloor>" by (intro floor_unique) auto
  then show ?thesis by (simp add: floor_divide_of_int_eq)
qed

end
