(* ===== verification/ReplicaScaler.thy ===== *)
theory ReplicaScaler
  imports RequestQueue
begin

text \<open>
  Two of the scalers (\<^verbatim>\<open>functionscaler/scaler\<close>): the one that keeps a given number of reserved instances
  (\<^verbatim>\<open>replicascaler.go\<close>), and the one that only cold-starts a function without instances
  (\<^verbatim>\<open>wisecloudscaler.go\<close>). The calls of the handlers that create and delete instances are values: an operation
  returns the calls it makes.
\<close>

datatype scale_call = ScaleUp int | ScaleDown int

section \<open>Reserved instances\<close>

record ReplicaScaler =
  rep_concurrentNum :: int
  rep_pendingRsvInsNum :: int
  rep_targetRsvInsNum :: int
  rep_currentRsvInsNum :: int
  rep_createError :: "go_error option"
  rep_enable :: bool

definition NewReplicaScaler :: ReplicaScaler where
  "NewReplicaScaler =
     \<lparr>rep_concurrentNum = 0, rep_pendingRsvInsNum = 0, rep_targetRsvInsNum = 0, rep_currentRsvInsNum = 0,
      rep_createError = None, rep_enable = False\<rparr>"

text \<open>
  \<^verbatim>\<open>handleScale\<close> computes the difference in one lock section and acts on it in a second one; \<open>disable\<close> is
  \<^verbatim>\<open>config.GlobalConfig.DisableReplicaScaler\<close>.
\<close>

definition scale_read :: "bool \<Rightarrow> ReplicaScaler \<Rightarrow> int option" where
  "scale_read disable rs =
     (let scaleNum = rep_targetRsvInsNum rs - rep_currentRsvInsNum rs
      in if scaleNum \<ge> 0 \<and> (\<not> rep_enable rs \<or> disable) then None else Some scaleNum)"

definition scale_act :: "int \<Rightarrow> ReplicaScaler \<Rightarrow> scale_call list \<times> ReplicaScaler" where
  "scale_act scaleNum rs =
     (if scaleNum > 0 then
        let scaleNum' = (if rep_pendingRsvInsNum rs \<ge> 0 then scaleNum - rep_pendingRsvInsNum rs else scaleNum)
        in if rep_pendingRsvInsNum rs \<ge> 0 \<and> scaleNum' \<le> 0 then ([], rs)
           else ([ScaleUp scaleNum'], rs\<lparr>rep_pendingRsvInsNum := rep_pendingRsvInsNum rs + scaleNum'\<rparr>)
      else if scaleNum < 0 then
        let scaleNum' = (if rep_pendingRsvInsNum rs \<le> 0 then scaleNum - rep_pendingRsvInsNum rs else scaleNum)
        in if rep_pendingRsvInsNum rs \<le> 0 \<and> scaleNum' \<ge> 0 then ([], rs)
           else ([ScaleDown (- scaleNum')], rs\<lparr>rep_pendingRsvInsNum := rep_pendingRsvInsNum rs + scaleNum'\<rparr>)
      else ([], rs))"

definition rep_handleScale :: "bool \<Rightarrow> ReplicaScaler \<Rightarrow> scale_call list \<times> ReplicaScaler" where
  "rep_handleScale disable rs = (case scale_read disable rs of None \<Rightarrow> ([], rs) | Some scaleNum \<Rightarrow> scale_act scaleNum rs)"

definition rep_handlePendingInsNumIncrease :: "int \<Rightarrow> ReplicaScaler \<Rightarrow> ReplicaScaler" where
  "rep_handlePendingInsNumIncrease insDiff rs = rs\<lparr>rep_pendingRsvInsNum := rep_pendingRsvInsNum rs + insDiff\<rparr>"

definition rep_handlePendingInsNumDecrease :: "int \<Rightarrow> ReplicaScaler \<Rightarrow> ReplicaScaler" where
  "rep_handlePendingInsNumDecrease insDiff rs = rs\<lparr>rep_pendingRsvInsNum := rep_pendingRsvInsNum rs - insDiff\<rparr>"

text \<open>
  The operations, in two parts: the change under the lock, with whether \<^verbatim>\<open>handleScale\<close> is called afterwards.
  \<^verbatim>\<open>HandleInsThdUpdate\<close> divides by \<^verbatim>\<open>concurrentNum\<close>, which is zero until the first \<^verbatim>\<open>HandleFuncSpecUpdate\<close>:
  \<^verbatim>\<open>None\<close> is the panic.
\<close>

definition rep_SetEnable :: "bool \<Rightarrow> ReplicaScaler \<Rightarrow> bool \<times> ReplicaScaler" where
  "rep_SetEnable enable rs = (if enable = rep_enable rs then (False, rs) else (enable, rs\<lparr>rep_enable := enable\<rparr>))"

definition rep_TriggerScale :: "ReplicaScaler \<Rightarrow> bool \<times> ReplicaScaler" where
  "rep_TriggerScale rs = (rep_enable rs, rs)"

definition rep_CheckScaling :: "ReplicaScaler \<Rightarrow> bool" where
  "rep_CheckScaling rs \<longleftrightarrow> rep_currentRsvInsNum rs \<noteq> rep_targetRsvInsNum rs"

definition rep_HandleInsThdUpdate :: "int \<Rightarrow> ReplicaScaler \<Rightarrow> (bool \<times> ReplicaScaler) option" where
  "rep_HandleInsThdUpdate totalInsThdDiff rs =
     (if totalInsThdDiff = 0 then Some (False, rs)
      else if rep_concurrentNum rs = 0 then None
      else Some (True, rs\<lparr>rep_currentRsvInsNum := rep_currentRsvInsNum rs + godiv totalInsThdDiff (rep_concurrentNum rs)\<rparr>))"

definition rep_HandleFuncSpecUpdate :: "int \<Rightarrow> ReplicaScaler \<Rightarrow> bool \<times> ReplicaScaler" where
  "rep_HandleFuncSpecUpdate concurrentNum rs = (True, rs\<lparr>rep_concurrentNum := (if concurrentNum = 0 then 1 else concurrentNum)\<rparr>)"

definition rep_HandleInsConfigUpdate :: "int \<Rightarrow> ReplicaScaler \<Rightarrow> bool \<times> ReplicaScaler" where
  "rep_HandleInsConfigUpdate minInstance rs =
     (rep_enable rs, rs\<lparr>rep_targetRsvInsNum := (if minInstance < 0 then 0 else minInstance)\<rparr>)"

definition IsNoNeedToRePullError :: "go_error option \<Rightarrow> bool" where
  "IsNoNeedToRePullError err = (case err of Some (SNError code _) \<Rightarrow> code = 4036 | _ \<Rightarrow> False)"

definition rep_HandleCreateError :: "go_error option \<Rightarrow> ReplicaScaler \<Rightarrow> bool \<times> ReplicaScaler" where
  "rep_HandleCreateError createError rs =
     (if (case createError of None \<Rightarrow> False | Some err \<Rightarrow> IsUnrecoverableError err) \<and> IsNoNeedToRePullError createError
      then (False, rs\<lparr>rep_enable := False, rep_createError := createError\<rparr>)
      else (\<not> (rep_createError rs = None \<and> createError = None), rs\<lparr>rep_createError := createError\<rparr>))"

definition rep_GetExpectInstanceNumber :: "ReplicaScaler \<Rightarrow> int" where
  "rep_GetExpectInstanceNumber rs = (if rep_enable rs then rep_targetRsvInsNum rs else 0)"

definition rep_Destroy :: "ReplicaScaler \<Rightarrow> ReplicaScaler" where
  "rep_Destroy rs = rs\<lparr>rep_enable := False, rep_targetRsvInsNum := 0\<rparr>"

text \<open>What one decision asks for, and what it adds to the pending number.\<close>

fun call_sum :: "scale_call \<Rightarrow> int" where
  "call_sum (ScaleUp n) = n"
| "call_sum (ScaleDown n) = - n"

lemma scale_act_pending:
  "scale_act n rs = (calls, rs') \<Longrightarrow> rs' = rs\<lparr>rep_pendingRsvInsNum := rep_pendingRsvInsNum rs + sum_list (map call_sum calls)\<rparr>"
  by (auto simp: scale_act_def Let_def split: if_splits)

lemma scale_act_calls:
  assumes "scale_act n rs = (calls, rs')"
  shows "calls = [] \<or> (\<exists>k. calls = [ScaleUp k] \<and> 0 < k \<and> 0 < n) \<or> (\<exists>k. calls = [ScaleDown k] \<and> 0 < k \<and> n < 0)"
  using assms by (auto simp: scale_act_def Let_def split: if_splits)

lemma NoNeedToRePull_unrecoverable: "IsNoNeedToRePullError (Some err) \<Longrightarrow> IsUnrecoverableError err"
  by (auto simp: IsNoNeedToRePullError_def IsUnrecoverableError_def IsUserError_def split: go_error.splits)

section \<open>Cold starts\<close>

text \<open>
  The state and the one-place trigger channel. \<open>pod_coldStart\<close> is the result of \<^verbatim>\<open>ColdStart\<close>, an external call;
  what the loop reports to \<^verbatim>\<open>CreateCallback\<close> is returned, at once and after \<^verbatim>\<open>errorExpireTime\<close>.
\<close>

record WiseCloudScaler =
  ws_totalInsThdNum :: int
  ws_concurrentNum :: int
  ws_isReserve :: bool
  ws_enableScale :: bool
  ws_trigger :: bool
  ws_hasRuntimeInfo :: bool
  ws_stopped :: bool

definition NewWiseCloudScaler :: "bool \<Rightarrow> WiseCloudScaler" where
  "NewWiseCloudScaler isReserve =
     \<lparr>ws_totalInsThdNum = 0, ws_concurrentNum = 1, ws_isReserve = isReserve, ws_enableScale = False, ws_trigger = False,
      ws_hasRuntimeInfo = False, ws_stopped = False\<rparr>"

definition ws_SetEnable :: "bool \<Rightarrow> WiseCloudScaler \<Rightarrow> WiseCloudScaler" where
  "ws_SetEnable enable ws = (if ws_isReserve ws then ws\<lparr>ws_enableScale := enable\<rparr> else ws)"

definition ws_TriggerScale :: "WiseCloudScaler \<Rightarrow> WiseCloudScaler" where
  "ws_TriggerScale ws = (if ws_enableScale ws \<and> ws_totalInsThdNum ws = 0 then ws\<lparr>ws_trigger := True\<rparr> else ws)"

definition ws_GetExpectInstanceNumber :: "WiseCloudScaler \<Rightarrow> int" where
  "ws_GetExpectInstanceNumber ws = godiv (ws_totalInsThdNum ws) (ws_concurrentNum ws)"

definition ws_HandleInsThdUpdate :: "int \<Rightarrow> WiseCloudScaler \<Rightarrow> WiseCloudScaler" where
  "ws_HandleInsThdUpdate totalInsThdDiff ws = ws\<lparr>ws_totalInsThdNum := ws_totalInsThdNum ws + totalInsThdDiff\<rparr>"

definition ws_HandleFuncSpecUpdate :: "int \<Rightarrow> WiseCloudScaler \<Rightarrow> WiseCloudScaler" where
  "ws_HandleFuncSpecUpdate concurrentNum ws = ws\<lparr>ws_concurrentNum := (if concurrentNum = 0 then 1 else concurrentNum)\<rparr>"

definition ws_HandleInsConfigUpdate :: "string option \<Rightarrow> WiseCloudScaler \<Rightarrow> WiseCloudScaler" where
  "ws_HandleInsConfigUpdate runtimeId ws =
     (if runtimeId = None \<or> runtimeId = Some [] then ws else ws\<lparr>ws_hasRuntimeInfo := True\<rparr>)"

text \<open>One token of \<^verbatim>\<open>coldStartLoop\<close>: whether a cold start is made, and the reports that follow.\<close>

record cold_start =
  cs_made :: bool
  cs_reports :: "go_error option list"
  cs_later :: "go_error option list"

definition coldStartLoop :: "string option \<Rightarrow> WiseCloudScaler \<Rightarrow> cold_start \<times> WiseCloudScaler" where
  "coldStartLoop pod_coldStart ws =
     (let ws1 = ws\<lparr>ws_trigger := False\<rparr>
      in if \<not> ws_hasRuntimeInfo ws1 \<or> ws_totalInsThdNum ws1 \<noteq> 0 then (\<lparr>cs_made = False, cs_reports = [], cs_later = []\<rparr>, ws1)
         else case pod_coldStart of
                Some err \<Rightarrow>
                  (\<lparr>cs_made = True, cs_reports = [Some (SNError 161915 (''cold start failed, err: '' @ err))], cs_later = [None]\<rparr>, ws1)
              | None \<Rightarrow> (\<lparr>cs_made = True, cs_reports = [None], cs_later = []\<rparr>, ws1))"

definition ws_Destroy :: "WiseCloudScaler \<Rightarrow> WiseCloudScaler" where
  "ws_Destroy ws = ws\<lparr>ws_stopped := True\<rparr>"

end
