(* ===== verification/AutoScaler.thy ===== *)
theory AutoScaler
  imports GoFloat ReplicaScaler
begin

text \<open>
  The scaler that follows demand (\<^verbatim>\<open>functionscaler/scaler/autoscaler.go\<close>): it decides how many instances to
  create from the waiting requests, the declared demand of scale hints and measured rates, and how many to
  remove when threads are idle. Shown: a decision never asks for more than one instance beyond the demand
  that pending creations leave open, covers that demand when nothing is measured, and never removes busy threads
  then; and runs in which its loop loses a trigger or its declared demand.
\<close>

section \<open>Data and operations\<close>

text \<open>The one-place channels are booleans: whether a token is in them.\<close>

record AutoScaler =
  as_enable :: bool
  as_scaleUpWindow :: duration
  as_scaleDownWindow :: duration
  as_coldStartTime :: duration
  as_concurrentNum :: int
  as_pendingInsThdNum :: int
  as_inUseInsThdNum :: int
  as_totalInsThdNum :: int
  as_remainedInsThdReqNum :: int
  as_minScaleDemand :: int
  as_autoScaleUpFlag :: bool
  as_autoScaleDownFlag :: bool
  as_scaleUpTriggerCh :: bool
  as_scaleDownTriggerCh :: bool
  as_stopped :: bool

abbreviation (input) minSLATime :: duration where "minSLATime \<equiv> 500 * millisecond"

definition NewAutoScaler :: "int \<Rightarrow> int \<Rightarrow> AutoScaler" where
  "NewAutoScaler slaQuota scaleDownTime =
     (let scaleUpWindow = (if slaQuota * millisecond < minSLATime then minSLATime else slaQuota * millisecond);
          scaleDownWindow = (if scaleDownTime * millisecond < scaleUpWindow then scaleUpWindow else scaleDownTime * millisecond)
      in \<lparr>as_enable = False, as_scaleUpWindow = scaleUpWindow, as_scaleDownWindow = scaleDownWindow, as_coldStartTime = 0,
          as_concurrentNum = 0, as_pendingInsThdNum = 0, as_inUseInsThdNum = 0, as_totalInsThdNum = 0,
          as_remainedInsThdReqNum = 0, as_minScaleDemand = 0, as_autoScaleUpFlag = False, as_autoScaleDownFlag = False,
          as_scaleUpTriggerCh = False, as_scaleDownTriggerCh = False, as_stopped = False\<rparr>)"

definition as_SetEnable :: "bool \<Rightarrow> AutoScaler \<Rightarrow> AutoScaler" where
  "as_SetEnable enable sc = sc\<lparr>as_enable := enable\<rparr>"

text \<open>\<^verbatim>\<open>TriggerScale\<close> sends on the trigger channel while it holds the lock; \<^verbatim>\<open>None\<close>: the channel is full and it blocks.\<close>

definition as_TriggerScale :: "int \<Rightarrow> AutoScaler \<Rightarrow> AutoScaler option" where
  "as_TriggerScale minConcurrency sc =
     (let sc1 = (if minConcurrency > as_minScaleDemand sc then sc\<lparr>as_minScaleDemand := minConcurrency\<rparr> else sc)
      in if as_autoScaleUpFlag sc1 then Some sc1
         else if as_scaleUpTriggerCh sc1 then None
         else Some (sc1\<lparr>as_autoScaleUpFlag := True, as_scaleUpTriggerCh := True\<rparr>))"

definition as_CheckScaling :: "AutoScaler \<Rightarrow> bool" where
  "as_CheckScaling sc \<longleftrightarrow> as_autoScaleUpFlag sc \<or> as_autoScaleDownFlag sc"

text \<open>\<^verbatim>\<open>None\<close>: the division by \<^verbatim>\<open>concurrentNum\<close> panics before the first \<^verbatim>\<open>HandleFuncSpecUpdate\<close>.\<close>

definition as_GetExpectInstanceNumber :: "AutoScaler \<Rightarrow> int option" where
  "as_GetExpectInstanceNumber sc =
     (if as_concurrentNum sc = 0 then None
      else Some (godiv (as_totalInsThdNum sc + as_pendingInsThdNum sc) (as_concurrentNum sc)))"

definition as_UpdateCreateMetrics :: "duration \<Rightarrow> AutoScaler \<Rightarrow> AutoScaler" where
  "as_UpdateCreateMetrics coldStartTime sc =
     (if coldStartTime > as_coldStartTime sc then sc\<lparr>as_coldStartTime := coldStartTime\<rparr> else sc)"

definition as_HandleInsThdUpdate :: "int \<Rightarrow> int \<Rightarrow> AutoScaler \<Rightarrow> AutoScaler" where
  "as_HandleInsThdUpdate inUseInsThdDiff totalInsThdDiff sc =
     (let sc1 = sc\<lparr>as_inUseInsThdNum := as_inUseInsThdNum sc + inUseInsThdDiff,
                   as_totalInsThdNum := as_totalInsThdNum sc + totalInsThdDiff\<rparr>
      in if as_totalInsThdNum sc1 - as_inUseInsThdNum sc1 \<ge> as_concurrentNum sc1 then sc1\<lparr>as_scaleDownTriggerCh := True\<rparr> else sc1)"

definition as_HandleFuncSpecUpdate :: "int \<Rightarrow> AutoScaler \<Rightarrow> AutoScaler" where
  "as_HandleFuncSpecUpdate concurrentNum sc = sc\<lparr>as_concurrentNum := (if concurrentNum = 0 then 1 else concurrentNum)\<rparr>"

definition as_Destroy :: "AutoScaler \<Rightarrow> AutoScaler" where
  "as_Destroy sc = sc\<lparr>as_stopped := True\<rparr>"

definition as_handlePendingInsNumIncrease :: "int \<Rightarrow> AutoScaler \<Rightarrow> AutoScaler" where
  "as_handlePendingInsNumIncrease insDiff sc = sc\<lparr>as_pendingInsThdNum := as_pendingInsThdNum sc + insDiff * as_concurrentNum sc\<rparr>"

definition as_handlePendingInsNumDecrease :: "int \<Rightarrow> AutoScaler \<Rightarrow> AutoScaler" where
  "as_handlePendingInsNumDecrease insDiff sc = sc\<lparr>as_pendingInsThdNum := as_pendingInsThdNum sc - insDiff * as_concurrentNum sc\<rparr>"

section \<open>Decisions\<close>

text \<open>
  What the metrics collector has measured, \<^verbatim>\<open>None\<close> before the first invocation was measured: the time of an
  invocation, the invocations a thread makes per second, and the requests per second.
\<close>

type_synonym invoke_metrics = "(rat \<times> rat \<times> rat) option"

text \<open>The number of threads wanted from the measured rates, before the pending ones are taken off.\<close>

definition threads_wanted :: "rat \<Rightarrow> rat \<times> rat \<times> rat \<Rightarrow> AutoScaler \<Rightarrow> rat" where
  "threads_wanted pendingInsThdReqNum m sc =
     (case m of (avgProcTime, insThdProcNumPS, insThdReqNumPS) \<Rightarrow>
        let window = seconds (as_scaleUpWindow sc);
            procNumToDo = fadd pendingInsThdReqNum (fmul insThdReqNumPS window);
            procCapAvail = fmul (fmul insThdProcNumPS (f64_of (as_inUseInsThdNum sc))) (max (fsub window avgProcTime) 0);
            procNumToDo = max (fsub procNumToDo procCapAvail) 0;
            procWindow = fsub window (seconds (as_coldStartTime sc));
            scaleInsThdNum = (if procWindow > 0 then max (of_int \<lceil>fdiv (fdiv procNumToDo insThdProcNumPS) procWindow\<rceil>) 0
                              else max (of_int \<lceil>procNumToDo\<rceil>) 0);
            scaleInsThdNum = min scaleInsThdNum pendingInsThdReqNum
        in if f64_of (as_remainedInsThdReqNum sc) < pendingInsThdReqNum
           then max scaleInsThdNum (f64_of (as_remainedInsThdReqNum sc)) else scaleInsThdNum)"

definition scaleUpInstances :: "int \<Rightarrow> invoke_metrics \<Rightarrow> AutoScaler \<Rightarrow> scale_call list \<times> AutoScaler" where
  "scaleUpInstances reqNum metrics sc =
     (let pendingInsThdReqNum = max (f64_of reqNum) (f64_of (as_minScaleDemand sc));
          sc1 = sc\<lparr>as_minScaleDemand := 0\<rparr>
      in case metrics of
           None \<Rightarrow>
             let scaleInsThdNum = max (fsub pendingInsThdReqNum (f64_of (as_pendingInsThdNum sc))) 0;
                 scaleInsNum = \<lceil>fdiv scaleInsThdNum (f64_of (as_concurrentNum sc))\<rceil>
             in ([ScaleUp scaleInsNum],
                 sc1\<lparr>as_pendingInsThdNum := as_pendingInsThdNum sc + scaleInsNum * as_concurrentNum sc\<rparr>)
         | Some m \<Rightarrow>
             if fst (snd m) = 0 then ([], sc1)
             else let scaleInsThdNum = max (fsub (threads_wanted pendingInsThdReqNum m sc1) (f64_of (as_pendingInsThdNum sc))) 0;
                      sc2 = sc1\<lparr>as_remainedInsThdReqNum := \<lfloor>max (fsub pendingInsThdReqNum scaleInsThdNum) 0\<rfloor>\<rparr>;
                      scaleInsNum = \<lceil>fdiv scaleInsThdNum (f64_of (as_concurrentNum sc))\<rceil>
                  in if scaleInsNum > 0
                     then ([ScaleUp scaleInsNum],
                           sc2\<lparr>as_pendingInsThdNum := as_pendingInsThdNum sc + scaleInsNum * as_concurrentNum sc\<rparr>)
                     else ([], sc2))"

definition threads_excess :: "rat \<times> rat \<times> rat \<Rightarrow> AutoScaler \<Rightarrow> rat" where
  "threads_excess m sc =
     (case m of (avgProcTime, insThdProcNumPS, insThdReqNumPS) \<Rightarrow>
        let window = seconds (as_scaleDownWindow sc);
            procNumToDo = fmul insThdReqNumPS window;
            procCapAvail =
              fmul insThdProcNumPS
                (fadd (fmul (max (f64_of (as_totalInsThdNum sc - as_inUseInsThdNum sc)) 0) window)
                      (fmul (f64_of (as_inUseInsThdNum sc)) (max (fsub (seconds (as_scaleUpWindow sc)) avgProcTime) 0)));
            procCapExcess = max (fsub procCapAvail procNumToDo) 0
        in of_int \<lceil>fdiv (fdiv procCapExcess insThdProcNumPS) window\<rceil>)"

definition scaleDownInstances :: "invoke_metrics \<Rightarrow> AutoScaler \<Rightarrow> scale_call list \<times> AutoScaler" where
  "scaleDownInstances metrics sc =
     (let down = (\<lambda>scaleInsThdNum. \<lfloor>fdiv (- min (fsub (- scaleInsThdNum) (f64_of (as_pendingInsThdNum sc))) 0) (f64_of (as_concurrentNum sc))\<rfloor>);
          less = (\<lambda>n. sc\<lparr>as_pendingInsThdNum := as_pendingInsThdNum sc - n * as_concurrentNum sc\<rparr>)
      in case metrics of
           None \<Rightarrow>
             let scaleInsNum = down (max (f64_of (as_totalInsThdNum sc - as_inUseInsThdNum sc)) 0)
             in ([ScaleDown scaleInsNum], less scaleInsNum)
         | Some m \<Rightarrow>
             if fst (snd m) = 0 then ([], sc)
             else let scaleInsNum = down (threads_excess m sc)
                  in if scaleInsNum > 0 then ([ScaleDown scaleInsNum], less scaleInsNum) else ([], sc))"

section \<open>The loop\<close>

text \<open>
  \<^verbatim>\<open>scaleUpLoop\<close> with its local variables: the token in \<^verbatim>\<open>scaleUpChan\<close>, whether the ticker runs, a tick that has not
  been received, and whether it has seen no demand and is about to pause. \<open>ul_stuck\<close>: it sends to its own full
  channel.
\<close>

record scale_up_loop =
  ul_scaler :: AutoScaler
  ul_scaleUpChan :: bool
  ul_ticking :: bool
  ul_tick :: bool
  ul_pausing :: bool
  ul_stuck :: bool

definition loop_send :: "scale_up_loop \<Rightarrow> scale_up_loop" where
  "loop_send l = (if ul_scaleUpChan l then l\<lparr>ul_stuck := True\<rparr> else l\<lparr>ul_scaleUpChan := True\<rparr>)"

definition loop_on_scaleUp :: "int \<Rightarrow> invoke_metrics \<Rightarrow> scale_up_loop \<Rightarrow> scale_call list \<times> scale_up_loop" where
  "loop_on_scaleUp reqNum metrics l =
     (let l1 = l\<lparr>ul_scaleUpChan := False\<rparr>
      in if reqNum = 0 \<and> as_minScaleDemand (ul_scaler l) = 0 then ([], l1\<lparr>ul_pausing := True\<rparr>)
         else case scaleUpInstances reqNum metrics (ul_scaler l) of (calls, sc) \<Rightarrow> (calls, l1\<lparr>ul_scaler := sc\<rparr>))"

definition loop_on_triggerCh :: "scale_up_loop \<Rightarrow> scale_up_loop" where
  "loop_on_triggerCh l =
     (loop_send (l\<lparr>ul_scaler := (ul_scaler l)\<lparr>as_scaleUpTriggerCh := False\<rparr>\<rparr>))\<lparr>ul_ticking := True, ul_tick := False\<rparr>"

definition loop_on_tick :: "scale_up_loop \<Rightarrow> scale_up_loop" where
  "loop_on_tick l = loop_send (l\<lparr>ul_tick := False\<rparr>)"

definition ticker_fires :: "scale_up_loop \<Rightarrow> scale_up_loop" where
  "ticker_fires l = (if ul_ticking l then l\<lparr>ul_tick := True\<rparr> else l)"

definition pauseScale :: "scale_up_loop \<Rightarrow> scale_up_loop" where
  "pauseScale l =
     l\<lparr>ul_pausing := False, ul_ticking := False, ul_scaler := (ul_scaler l)\<lparr>as_autoScaleUpFlag := False\<rparr>\<rparr>"

text \<open>The scale-down loop: a token starts or restarts the timer, the timer runs the decision.\<close>

definition down_on_trigger :: "AutoScaler \<Rightarrow> AutoScaler" where
  "down_on_trigger sc = sc\<lparr>as_scaleDownTriggerCh := False, as_autoScaleDownFlag := True\<rparr>"

definition down_on_timer :: "invoke_metrics \<Rightarrow> AutoScaler \<Rightarrow> scale_call list \<times> AutoScaler" where
  "down_on_timer metrics sc =
     (case scaleDownInstances metrics sc of (calls, sc1) \<Rightarrow> (calls, sc1\<lparr>as_autoScaleDownFlag := False\<rparr>))"


section \<open>Decisions and demand\<close>

definition small :: "int \<Rightarrow> bool" where
  "small n \<longleftrightarrow> \<bar>n\<bar> \<le> 2 ^ 51"

lemma small_f64: "small n \<Longrightarrow> f64_of n = of_int n"
  by (rule f64_of_int) (simp add: small_def)

lemma fsub_small: "small a \<Longrightarrow> small b \<Longrightarrow> fsub (of_int a) (of_int b) = of_int (a - b)"
  unfolding fsub_def of_int_diff [symmetric] by (rule f64_int) (simp add: small_def)

lemma max_of_int: "max (of_int a) (of_int b :: rat) = of_int (max a b)" "max (of_int a) (0 :: rat) = of_int (max a 0)"
  "min (of_int a) (of_int b :: rat) = of_int (min a b)" "max (of_int a - of_int b) (0 :: rat) = of_int (max (a - b) 0)"
  by (simp_all add: max_def min_def)

lemma ceil_covers:
  assumes "0 < c"
  shows "a \<le> \<lceil>(of_int a / of_int c :: rat)\<rceil> * c" "(\<lceil>(of_int a / of_int c :: rat)\<rceil> - 1) * c < a"
proof -
  let ?n = "\<lceil>(of_int a / of_int c :: rat)\<rceil>"
  have c: "0 < (of_int c :: rat)" using assms by simp
  have up: "of_int a / of_int c \<le> (of_int ?n :: rat)" and low: "of_int (?n - 1) < (of_int a / of_int c :: rat)" by linarith+
  have "(of_int a :: rat) \<le> of_int (?n * c)" using up unfolding pos_divide_le_eq [OF c] of_int_mult .
  moreover have "of_int ((?n - 1) * c) < (of_int a :: rat)" using low unfolding pos_less_divide_eq [OF c] of_int_mult .
  ultimately have "(of_int a :: rat) \<le> of_int (?n * c)" "of_int ((?n - 1) * c) < (of_int a :: rat)" .
  then show "a \<le> ?n * c" "(?n - 1) * c < a" by (simp_all only: of_int_le_iff of_int_less_iff)
qed

text \<open>Whatever the measured rates are, the wanted threads are a whole number within the demand.\<close>

lemma threads_wanted_int:
  assumes "0 \<le> d" and "small (as_remainedInsThdReqNum sc)"
  shows "\<exists>k. threads_wanted (of_int d) m sc = of_int k \<and> 0 \<le> k \<and> k \<le> d"
proof -
  obtain avg ps rps where m: "m = (avg, ps, rps)" by (metis prod_cases3)
  have whole: "\<exists>k. (if b then max (of_int \<lceil>x\<rceil>) 0 else max (of_int \<lceil>y\<rceil>) 0 :: rat) = of_int k \<and> 0 \<le> k" for b x y
    by (cases b) (auto simp: max_of_int)
  have within: "\<exists>j. (if f64_of (as_remainedInsThdReqNum sc) < of_int d then max (min x (of_int d)) (f64_of (as_remainedInsThdReqNum sc))
      else min x (of_int d) :: rat) = of_int j \<and> 0 \<le> j \<and> j \<le> d" if x: "\<exists>k. x = of_int k \<and> 0 \<le> k" for x
  proof -
    obtain k where k: "x = of_int k" "0 \<le> k" using x by blast
    show ?thesis
    proof (cases "as_remainedInsThdReqNum sc < d")
      case True
      then have "(if f64_of (as_remainedInsThdReqNum sc) < of_int d then max (min x (of_int d)) (f64_of (as_remainedInsThdReqNum sc))
          else min x (of_int d) :: rat) = of_int (max (min k d) (as_remainedInsThdReqNum sc))"
        using assms(2) k by (simp add: small_f64 max_of_int)
      with True k(2) assms(1) show ?thesis by (intro exI [of _ "max (min k d) (as_remainedInsThdReqNum sc)"]) auto
    next
      case False
      with assms k show ?thesis by (intro exI [of _ "min k d"]) (simp add: small_f64 max_of_int)
    qed
  qed
  show ?thesis unfolding threads_wanted_def m prod.case Let_def by (rule within, rule whole)
qed

lemma up_decision:
  assumes "0 < c" "small c" "0 \<le> k" "k \<le> d" "small d" "small p"
    and n: "n = \<lceil>fdiv (max (fsub (of_int k) (f64_of p)) 0) (f64_of c)\<rceil>"
  shows "0 \<le> n" "0 < n \<Longrightarrow> (n - 1) * c < d - p" "k - p \<le> n * c"
proof -
  define a where "a = max (k - p) 0"
  have "small k" using assms(3-5) by (simp add: small_def)
  then have "n = \<lceil>fdiv (of_int a) (of_int c)\<rceil>" using n assms(2,6) by (simp add: small_f64 fsub_small max_of_int a_def)
  moreover have "0 \<le> a" "a < 2 ^ 53" using assms(3-6) by (auto simp: a_def small_def)
  ultimately have n': "n = \<lceil>(of_int a / of_int c :: rat)\<rceil>" using ceil_fdiv assms(1) by simp
  note cover = ceil_covers [OF assms(1), of a, folded n']
  have "0 \<le> n * c" using cover(1) \<open>0 \<le> a\<close> by linarith
  then show n0: "0 \<le> n" using assms(1) by (simp add: zero_le_mult_iff)
  show "k - p \<le> n * c" using cover(1) by (simp add: a_def)
  show "(n - 1) * c < d - p" if "0 < n"
  proof -
    have "0 \<le> (n - 1) * c" using that assms(1) by simp
    then have "0 < a" using cover(2) by linarith
    then show ?thesis using cover(2) assms(4) by (simp add: a_def)
  qed
qed

text \<open>
  C29: A scale-up decision is bounded by the demand: with waiting requests or a declared demand of \<open>d\<close> threads and \<open>p\<close>
  threads pending, it asks for at most the instances it takes to cover \<open>d - p\<close> threads, whatever was measured; it
  adds exactly the threads it asks for to the pending ones; and when nothing was measured it covers
  \<open>d - p\<close> threads. The declared demand is used up.
\<close>

theorem scale_up_within_demand:
  assumes "0 < as_concurrentNum sc" "small (as_concurrentNum sc)" and "0 \<le> reqNum" "small reqNum"
    and "0 \<le> as_minScaleDemand sc" "small (as_minScaleDemand sc)" and "small (as_pendingInsThdNum sc)" "small (as_remainedInsThdReqNum sc)"
    and "scaleUpInstances reqNum metrics sc = (calls, sc')"
    and "d = max reqNum (as_minScaleDemand sc)" and "n = sum_list (map call_sum calls)"
  shows "0 \<le> n \<and> (0 < n \<longrightarrow> (n - 1) * as_concurrentNum sc < d - as_pendingInsThdNum sc) \<and>
    as_pendingInsThdNum sc' = as_pendingInsThdNum sc + n * as_concurrentNum sc \<and>
    (metrics = None \<longrightarrow> d - as_pendingInsThdNum sc \<le> n * as_concurrentNum sc) \<and> as_minScaleDemand sc' = 0"
proof -
  let ?c = "as_concurrentNum sc" and ?p = "as_pendingInsThdNum sc"
  have d: "0 \<le> d" "small d" "max (f64_of reqNum) (f64_of (as_minScaleDemand sc)) = of_int d"
    using assms(3-6,10) by (simp_all add: small_f64 max_of_int max_def small_def)
  show ?thesis
  proof (cases metrics)
    case None
    let ?n = "\<lceil>fdiv (max (fsub (of_int d) (f64_of ?p)) 0) (f64_of ?c)\<rceil>"
    have "calls = [ScaleUp ?n]" "sc' = sc\<lparr>as_minScaleDemand := 0, as_pendingInsThdNum := ?p + ?n * ?c\<rparr>"
      using assms(9) unfolding scaleUpInstances_def None Let_def d(3) by auto
    with up_decision [OF assms(1,2) d(1) order_refl d(2) assms(7) refl] assms(11) show ?thesis by auto
  next
    case (Some m)
    let ?sc1 = "sc\<lparr>as_minScaleDemand := 0\<rparr>"
    obtain k where k: "threads_wanted (of_int d) m ?sc1 = of_int k" "0 \<le> k" "k \<le> d"
      using threads_wanted_int [OF d(1), of ?sc1 m] assms(8) by auto
    let ?n = "\<lceil>fdiv (max (fsub (of_int k) (f64_of ?p)) 0) (f64_of ?c)\<rceil>"
    note u = up_decision [OF assms(1,2) k(2,3) d(2) assms(7) refl]
    have "calls = [] \<and> as_pendingInsThdNum sc' = ?p \<and> as_minScaleDemand sc' = 0 \<or>
        calls = [ScaleUp ?n] \<and> 0 < ?n \<and> as_pendingInsThdNum sc' = ?p + ?n * ?c \<and> as_minScaleDemand sc' = 0"
      using assms(9) unfolding scaleUpInstances_def Some Let_def d(3) by (auto simp: k(1) split: if_splits)
    with u assms(11) Some show ?thesis by auto
  qed
qed

text \<open>
  Without measurements a scale-down decision takes only idle threads: the instances it removes have together at most
  the threads that are not in use, corrected by the pending ones.
\<close>

theorem scale_down_takes_idle:
  assumes "0 < as_concurrentNum sc" "small (as_concurrentNum sc)" "small (as_pendingInsThdNum sc)"
    and "small (as_totalInsThdNum sc - as_inUseInsThdNum sc)"
    and "scaleDownInstances None sc = (calls, sc')" and "n = - sum_list (map call_sum calls)"
  shows "0 \<le> n \<and> n * as_concurrentNum sc \<le> max 0 (max 0 (as_totalInsThdNum sc - as_inUseInsThdNum sc) + as_pendingInsThdNum sc) \<and>
    as_pendingInsThdNum sc' = as_pendingInsThdNum sc - n * as_concurrentNum sc"
proof -
  let ?c = "as_concurrentNum sc" and ?p = "as_pendingInsThdNum sc"
  define idle where "idle = max (as_totalInsThdNum sc - as_inUseInsThdNum sc) 0"
  define a where "a = max (idle + ?p) 0"
  have si: "small idle" "small (- idle)" using assms(4) by (auto simp: small_def idle_def)
  have "- min (fsub (- max (f64_of (as_totalInsThdNum sc - as_inUseInsThdNum sc)) 0) (f64_of ?p)) 0 = of_int a"
  proof -
    have "fsub (- max (f64_of (as_totalInsThdNum sc - as_inUseInsThdNum sc)) 0) (f64_of ?p) = fsub (of_int (- idle)) (of_int ?p)"
      using assms(3,4) by (simp add: small_f64 max_of_int idle_def)
    also have "\<dots> = of_int (- idle - ?p)" using si assms(3) by (simp only: fsub_small)
    finally show ?thesis by (simp add: a_def min_def max_def)
  qed
  then have "calls = [ScaleDown (a div ?c)]" "sc' = sc\<lparr>as_pendingInsThdNum := ?p - a div ?c * ?c\<rparr>"
    using assms(1-3,5) si floor_fdiv [of a ?c] by (auto simp: scaleDownInstances_def small_f64 a_def small_def Let_def)
  moreover have "0 \<le> a div ?c" "a div ?c * ?c \<le> a"
    using assms(1) by (simp_all add: a_def pos_imp_zdiv_nonneg_iff) (metis a_def mult.commute pos_mod_sign minus_mult_div_eq_mod diff_ge_0_iff_ge)
  ultimately show ?thesis using assms(6) by (simp add: a_def idle_def max.commute)
qed


section \<open>Witnesses\<close>

definition scaler4 :: AutoScaler where
  "scaler4 = as_HandleFuncSpecUpdate 4 (NewAutoScaler 1000 60000)"

theorem scale_up_within_demand_witness:
  "fst (scaleUpInstances 9 None scaler4) = [ScaleUp 3]"
proof -
  obtain calls sc' where u: "scaleUpInstances 9 None scaler4 = (calls, sc')" by fastforce
  have f: "as_concurrentNum scaler4 = 4" "as_minScaleDemand scaler4 = 0" "as_pendingInsThdNum scaler4 = 0" "as_remainedInsThdReqNum scaler4 = 0"
    by code_simp+
  have "\<exists>n. calls = [ScaleUp n]" using u by (auto simp: scaleUpInstances_def Let_def)
  then obtain n where n: "calls = [ScaleUp n]" by blast
  have "0 \<le> n \<and> (0 < n \<longrightarrow> (n - 1) * 4 < 9) \<and> 9 \<le> n * 4"
    using scale_up_within_demand [OF _ _ _ _ _ _ _ _ u refl refl] f n by (simp add: small_def)
  then have "n = 3" by presburger
  with n u show ?thesis by simp
qed

definition idle4 :: AutoScaler where
  "idle4 = as_HandleInsThdUpdate 2 12 scaler4"

theorem scale_down_takes_idle_witness:
  "fst (scaleDownInstances None idle4) = [ScaleDown 2] \<and> (2 :: int) * 4 \<le> 10"
proof -
  obtain calls sc' where d: "scaleDownInstances None idle4 = (calls, sc')" by fastforce
  have f: "as_concurrentNum idle4 = 4" "as_pendingInsThdNum idle4 = 0" "as_totalInsThdNum idle4 = 12" "as_inUseInsThdNum idle4 = 2" by code_simp+
  have "fst (scaleDownInstances None idle4) = [ScaleDown 2]" by code_simp
  then have "calls = [ScaleDown 2]" using d by simp
  with scale_down_takes_idle [OF _ _ _ _ d refl] f d show ?thesis by (simp add: small_def)
qed

section \<open>Demand that is lost\<close>

text \<open>
  The declared demand of a scale hint is cleared before the measured rate is looked at. When the rate is zero the
  decision is given up, and with it the demand: no instance is asked for and nothing is remembered.
\<close>

theorem hint_lost_without_rate:
  "(let r = scaleUpInstances 0 (Some (0, 0, 0)) (scaler4\<lparr>as_minScaleDemand := 5\<rparr>)
    in (fst r, as_minScaleDemand (snd r), as_remainedInsThdReqNum (snd r), as_pendingInsThdNum (snd r))) = ([], 0, 0, 0)"
  by code_simp

text \<open>
  The loop decides to pause when it sees no demand, and clears its flag in a later lock section. A request that
  comes in between finds the flag set and sends no token; then the loop pauses. No token, no ticker and no tick is left: the
  demand waits until somebody else triggers.
\<close>

definition running_loop :: scale_up_loop where
  "running_loop =
     \<lparr>ul_scaler = scaler4\<lparr>as_autoScaleUpFlag := True\<rparr>, ul_scaleUpChan = True, ul_ticking = True, ul_tick = False, ul_pausing = False,
      ul_stuck = False\<rparr>"

theorem trigger_lost_in_pause:
  "(let l1 = snd (loop_on_scaleUp 0 None running_loop);
        l2 = (case as_TriggerScale 3 (ul_scaler l1) of None \<Rightarrow> l1 | Some sc \<Rightarrow> l1\<lparr>ul_scaler := sc\<rparr>);
        l3 = pauseScale l2
    in (as_minScaleDemand (ul_scaler l3), as_autoScaleUpFlag (ul_scaler l3), as_scaleUpTriggerCh (ul_scaler l3), ul_scaleUpChan l3,
        ul_ticking l3, ul_tick l3)) = (3, False, False, False, False, False)"
  by code_simp

text \<open>
  A tick that arrived before the ticker was stopped is still received after the pause. When a trigger follows, the loop
  sends to its own channel twice before it receives: it blocks for ever.
\<close>

theorem loop_blocks_on_itself:
  "(let l1 = ticker_fires (snd (loop_on_scaleUp 0 None running_loop));
        l2 = pauseScale l1;
        l3 = (case as_TriggerScale 0 (ul_scaler l2) of None \<Rightarrow> l2 | Some sc \<Rightarrow> l2\<lparr>ul_scaler := sc\<rparr>);
        l4 = loop_on_triggerCh (loop_on_tick l3)
    in ul_stuck l4)"
  by code_simp

end
