(* ===== verification/TenantQuota.thy ===== *)
theory TenantQuota
  imports GoPrelude
begin

text \<open>
  The limit on the instances of a tenant (\<^verbatim>\<open>functionscaler/tenantquota\<close>): every scheduler keeps the counts of a
  tenant in a cache of its own, and the shared counts are kept in etcd under a lock. Shown: an instance on demand is
  granted only within the quota; one scheduler counts exactly; several schedulers count too many.
\<close>

section \<open>Data and operations\<close>

text \<open>A pair of counts or limits: on demand, reserved.\<close>

record tenantQuota =
  maxOnDemandInstance :: int
  maxReversedInstance :: int

record TenantInsInfo =
  OnDemandInsNum :: int
  ReversedInsNum :: int

record tenantCache =
  tenantQuotaList :: "(string, tenantQuota) gomap"
  tenantInstanceList :: "(string, TenantInsInfo) gomap"
  defaultQuota :: tenantQuota

abbreviation (input) no_instances :: TenantInsInfo where
  "no_instances \<equiv> \<lparr>OnDemandInsNum = 0, ReversedInsNum = 0\<rparr>"

definition getOrCreateTenantInstance :: "string \<Rightarrow> tenantCache \<Rightarrow> TenantInsInfo \<times> tenantCache" where
  "getOrCreateTenantInstance tenantID tc =
     (case fmlookup (tenantInstanceList tc) tenantID of
        Some i \<Rightarrow> (i, tc)
      | None \<Rightarrow> (no_instances, tc\<lparr>tenantInstanceList := fmupd tenantID no_instances (tenantInstanceList tc)\<rparr>))"

definition getTenantInstanceNum :: "string \<Rightarrow> tenantCache \<Rightarrow> TenantInsInfo \<times> tenantCache" where
  "getTenantInstanceNum tenantID tc = getOrCreateTenantInstance tenantID tc"

definition cache_updateTenantInstance :: "string \<Rightarrow> TenantInsInfo \<Rightarrow> tenantCache \<Rightarrow> tenantCache" where
  "cache_updateTenantInstance tenantID i tc =
     (if ReversedInsNum i = 0 \<and> OnDemandInsNum i = 0 then tc\<lparr>tenantInstanceList := fmdrop tenantID (tenantInstanceList tc)\<rparr>
      else (snd (getOrCreateTenantInstance tenantID tc))
             \<lparr>tenantInstanceList := fmupd tenantID i (tenantInstanceList (snd (getOrCreateTenantInstance tenantID tc)))\<rparr>)"

definition GetTenantQuotaNum :: "string \<Rightarrow> tenantCache \<Rightarrow> tenantQuota" where
  "GetTenantQuotaNum tenantID tc = (case fmlookup (tenantQuotaList tc) tenantID of None \<Rightarrow> defaultQuota tc | Some q \<Rightarrow> q)"

definition DeleteTenantQuota :: "string \<Rightarrow> tenantCache \<Rightarrow> tenantCache" where
  "DeleteTenantQuota tenantID tc = tc\<lparr>tenantQuotaList := fmdrop tenantID (tenantQuotaList tc)\<rparr>"

definition UpdateOrAddTenantQuota :: "string \<Rightarrow> tenantQuota \<Rightarrow> tenantCache \<Rightarrow> tenantCache" where
  "UpdateOrAddTenantQuota tenantID meta tc = tc\<lparr>tenantQuotaList := fmupd tenantID meta (tenantQuotaList tc)\<rparr>"

definition UpdateDefaultQuota :: "tenantQuota \<Rightarrow> tenantCache \<Rightarrow> tenantCache" where
  "UpdateDefaultQuota meta tc = tc\<lparr>defaultQuota := meta\<rparr>"

text \<open>
  The counts in etcd, by tenant; a value that cannot be read or decoded counts as none, and a write that fails is
  only logged: \<open>readable\<close> and \<open>writable\<close> say whether the read and the write of this call work. \<open>session\<close> is
  whether the etcd session for the lock could be made; with it the rest of the call runs under the lock. A call is one
  step: the calls of one scheduler for a tenant do not overlap.
\<close>

type_synonym etcd_counts = "(string, TenantInsInfo) gomap"

record etcd_call =
  ec_session :: bool
  ec_readable :: bool
  ec_writable :: bool

definition getTenantInsInfoFromETCD :: "etcd_call \<Rightarrow> string \<Rightarrow> etcd_counts \<Rightarrow> TenantInsInfo" where
  "getTenantInsInfoFromETCD ec tenantID db =
     (if ec_readable ec then (case fmlookup db tenantID of None \<Rightarrow> no_instances | Some i \<Rightarrow> i) else no_instances)"

definition etcd_updateTenantInstance :: "etcd_call \<Rightarrow> string \<Rightarrow> TenantInsInfo \<Rightarrow> etcd_counts \<Rightarrow> etcd_counts" where
  "etcd_updateTenantInstance ec tenantID i db = (if ec_writable ec then fmupd tenantID i db else db)"

definition merge_counts :: "TenantInsInfo \<Rightarrow> TenantInsInfo \<Rightarrow> TenantInsInfo" where
  "merge_counts stored cached =
     \<lparr>OnDemandInsNum = max (OnDemandInsNum stored) (OnDemandInsNum cached),
      ReversedInsNum = max (ReversedInsNum stored) (ReversedInsNum cached)\<rparr>"

definition add_count :: "bool \<Rightarrow> int \<Rightarrow> TenantInsInfo \<Rightarrow> TenantInsInfo" where
  "add_count isReserved n i =
     (if isReserved then i\<lparr>ReversedInsNum := ReversedInsNum i + n\<rparr> else i\<lparr>OnDemandInsNum := OnDemandInsNum i + n\<rparr>)"

text \<open>The result: whether the limit on demand, and whether the limit of reserved instances, is reached.\<close>

definition IncreaseTenantInstanceNum ::
  "etcd_call \<Rightarrow> string \<Rightarrow> bool \<Rightarrow> tenantCache \<times> etcd_counts \<Rightarrow> (bool \<times> bool) \<times> tenantCache \<times> etcd_counts" where
  "IncreaseTenantInstanceNum ec tenantID isReserved st =
     (case st of (tc, db) \<Rightarrow>
        let quota = GetTenantQuotaNum tenantID tc
        in if maxOnDemandInstance quota = -1 \<or> maxReversedInstance quota = -1 then ((False, False), tc, db)
           else case getTenantInstanceNum tenantID tc of (cached, tc1) \<Rightarrow>
             if \<not> ec_session ec then
               let reach = (\<not> isReserved \<and> maxOnDemandInstance quota < OnDemandInsNum cached + 1);
                   i = (if reach then cached else add_count isReserved 1 cached)
               in ((reach, maxReversedInstance quota < ReversedInsNum i), cache_updateTenantInstance tenantID i tc1, db)
             else
               let info = merge_counts (getTenantInsInfoFromETCD ec tenantID db) cached
               in if \<not> isReserved \<and> maxOnDemandInstance quota < OnDemandInsNum info + 1 then
                    ((True, maxReversedInstance quota < ReversedInsNum info), cache_updateTenantInstance tenantID info tc1, db)
                  else let i = add_count isReserved 1 info
                       in ((False, maxReversedInstance quota < ReversedInsNum i),
                           cache_updateTenantInstance tenantID i tc1, etcd_updateTenantInstance ec tenantID i db))"

definition DecreaseTenantInstance ::
  "etcd_call \<Rightarrow> string \<Rightarrow> bool \<Rightarrow> tenantCache \<times> etcd_counts \<Rightarrow> tenantCache \<times> etcd_counts" where
  "DecreaseTenantInstance ec tenantID isReserved st =
     (case st of (tc, db) \<Rightarrow>
        case getTenantInstanceNum tenantID tc of (cached, tc1) \<Rightarrow>
          if \<not> ec_session ec then (cache_updateTenantInstance tenantID (add_count isReserved (-1) cached) tc1, db)
          else let i = add_count isReserved (-1) (merge_counts (getTenantInsInfoFromETCD ec tenantID db) cached)
               in (cache_updateTenantInstance tenantID i tc1, etcd_updateTenantInstance ec tenantID i db))"

section \<open>Counts\<close>

text \<open>The counts a cache and etcd have for a tenant; a missing entry counts as none.\<close>

definition counted :: "string \<Rightarrow> (string, TenantInsInfo) gomap \<Rightarrow> TenantInsInfo" where
  "counted tenantID m = (case fmlookup m tenantID of None \<Rightarrow> no_instances | Some i \<Rightarrow> i)"

lemma getTenantInstanceNum_counted:
  assumes "getTenantInstanceNum tenantID tc = (cached, tc1)"
  shows "cached = counted tenantID (tenantInstanceList tc)" "counted t (tenantInstanceList tc1) = counted t (tenantInstanceList tc)"
    "tenantQuotaList tc1 = tenantQuotaList tc" "defaultQuota tc1 = defaultQuota tc"
  using assms by (auto simp: getTenantInstanceNum_def getOrCreateTenantInstance_def counted_def split: option.splits if_splits)

lemma cache_update_counted:
  "counted t (tenantInstanceList (cache_updateTenantInstance tenantID i tc)) = (if t = tenantID then i else counted t (tenantInstanceList tc))"
  "tenantQuotaList (cache_updateTenantInstance tenantID i tc) = tenantQuotaList tc"
  "defaultQuota (cache_updateTenantInstance tenantID i tc) = defaultQuota tc"
  by (auto simp: cache_updateTenantInstance_def getOrCreateTenantInstance_def counted_def split: option.splits)

lemma merge_same [simp]: "merge_counts i i = i"
  by (simp add: merge_counts_def)

abbreviation works :: etcd_call where
  "works \<equiv> \<lparr>ec_session = True, ec_readable = True, ec_writable = True\<rparr>"

lemma etcd_counted: "getTenantInsInfoFromETCD works tenantID db = counted tenantID db"
  "counted t (etcd_updateTenantInstance works tenantID i db) = (if t = tenantID then i else counted t db)"
  by (simp_all add: getTenantInsInfoFromETCD_def counted_def etcd_updateTenantInstance_def)

section \<open>Properties\<close>

text \<open>
  C30: For a tenant that has both limits, and while etcd answers every call, the recorded count of instances on demand stays within the quota:
  when a request does not report the limit as reached, the count it leaves in etcd and in the cache is one more than the larger of the
  two before, and at most the limit; when it reports the limit, the count in etcd is not raised and the limit is what the cache has
  recorded. Nothing is said of instances that were not recorded: an etcd that fails counts as one without records, and a tenant
  without a limit is counted differently (\<open>unlimited_tenant_counted_below_zero\<close> below).
\<close>

theorem quota_enforced:
  assumes "GetTenantQuotaNum tenantID tc = q" and "maxOnDemandInstance q \<noteq> -1" "maxReversedInstance q \<noteq> -1"
    and "IncreaseTenantInstanceNum works tenantID False (tc, db) = ((reach, r), tc', db')"
  shows "(\<not> reach \<longrightarrow> OnDemandInsNum (counted tenantID db') \<le> maxOnDemandInstance q \<and>
      OnDemandInsNum (counted tenantID db') = max (OnDemandInsNum (counted tenantID db)) (OnDemandInsNum (counted tenantID (tenantInstanceList tc))) + 1 \<and>
      counted tenantID (tenantInstanceList tc') = counted tenantID db') \<and>
    (reach \<longrightarrow> db' = db \<and> maxOnDemandInstance q \<le> OnDemandInsNum (counted tenantID (tenantInstanceList tc')))"
proof -
  obtain cached tc1 where g: "getTenantInstanceNum tenantID tc = (cached, tc1)" by fastforce
  note c = getTenantInstanceNum_counted [OF g]
  show ?thesis using assms g
    by (auto simp: IncreaseTenantInstanceNum_def Let_def c(1) etcd_counted cache_update_counted add_count_def merge_counts_def
        split: if_splits)
qed

text \<open>
  With one scheduler and an etcd that works, the counts are exact: the cache and etcd agree, and change by exactly one
  with every instance that is granted and every one that is given back.
\<close>

theorem single_scheduler_exact:
  assumes "counted tenantID (tenantInstanceList tc) = counted tenantID db" and "GetTenantQuotaNum tenantID tc = q"
    and "maxOnDemandInstance q \<noteq> -1" "maxReversedInstance q \<noteq> -1"
  shows "case IncreaseTenantInstanceNum works tenantID isReserved (tc, db) of ((reach, _), tc', db') \<Rightarrow>
      counted tenantID db' = (if reach then counted tenantID db else add_count isReserved 1 (counted tenantID db)) \<and>
      counted tenantID (tenantInstanceList tc') = counted tenantID db'"
    "case DecreaseTenantInstance works tenantID isReserved (tc, db) of (tc', db') \<Rightarrow>
      counted tenantID db' = add_count isReserved (-1) (counted tenantID db) \<and>
      counted tenantID (tenantInstanceList tc') = counted tenantID db'"
proof -
  obtain cached tc1 where g: "getTenantInstanceNum tenantID tc = (cached, tc1)" by fastforce
  note c = getTenantInstanceNum_counted [OF g]
  show "case IncreaseTenantInstanceNum works tenantID isReserved (tc, db) of ((reach, _), tc', db') \<Rightarrow>
      counted tenantID db' = (if reach then counted tenantID db else add_count isReserved 1 (counted tenantID db)) \<and>
      counted tenantID (tenantInstanceList tc') = counted tenantID db'"
    using assms g by (auto simp: IncreaseTenantInstanceNum_def Let_def c(1) etcd_counted cache_update_counted)
  show "case DecreaseTenantInstance works tenantID isReserved (tc, db) of (tc', db') \<Rightarrow>
      counted tenantID db' = add_count isReserved (-1) (counted tenantID db) \<and>
      counted tenantID (tenantInstanceList tc') = counted tenantID db'"
    using assms g by (simp add: DecreaseTenantInstance_def Let_def c(1) etcd_counted cache_update_counted)
qed

section \<open>Witnesses\<close>

definition cache2 :: tenantCache where
  "cache2 = \<lparr>tenantQuotaList = fmempty, tenantInstanceList = fmempty,
             defaultQuota = \<lparr>maxOnDemandInstance = 2, maxReversedInstance = 5\<rparr>\<rparr>"

theorem quota_enforced_witness:
  "OnDemandInsNum (counted ''t'' (snd (snd (IncreaseTenantInstanceNum works ''t'' False (cache2, fmempty))))) \<le> 2"
proof -
  obtain reach r tc' db' where i: "IncreaseTenantInstanceNum works ''t'' False (cache2, fmempty) = ((reach, r), tc', db')"
    by (metis prod_cases4 surj_pair)
  have "fst (fst (IncreaseTenantInstanceNum works ''t'' False (cache2, fmempty))) = False" by code_simp
  with quota_enforced [OF refl _ _ i] i show ?thesis by (simp add: cache2_def GetTenantQuotaNum_def)
qed

theorem single_scheduler_exact_witness:
  "OnDemandInsNum (counted ''t'' (snd (DecreaseTenantInstance works ''t'' False (cache2, fmempty)))) = -1"
  using single_scheduler_exact(2) [of "''t''" cache2 fmempty "defaultQuota cache2" False]
  by (auto simp: cache2_def GetTenantQuotaNum_def counted_def add_count_def split: prod.splits)

section \<open>Two schedulers\<close>

text \<open>
  Scheduler A counts one instance, which scheduler B then removes: B writes none to etcd. When A asks again it takes the larger
  one of etcd and its own stale cache. The tenant has one instance and two are counted, which is its limit: the
  next request is refused.
\<close>

theorem stale_cache_overcounts:
  "(let s1 = snd (IncreaseTenantInstanceNum works ''t'' False (cache2, fmempty));
        b1 = (cache_updateTenantInstance ''t'' \<lparr>OnDemandInsNum = 1, ReversedInsNum = 0\<rparr> cache2, snd s1);
        b2 = DecreaseTenantInstance works ''t'' False b1;
        s2 = snd (IncreaseTenantInstanceNum works ''t'' False (fst s1, snd b2));
        s3 = IncreaseTenantInstanceNum works ''t'' False s2
    in (OnDemandInsNum (counted ''t'' (snd b2)), OnDemandInsNum (counted ''t'' (snd s2)), fst (fst s3))) = (0, 2, True)"
  by code_simp

text \<open>
  A tenant without a limit is not counted when its instances are made, but each one that is removed is counted off: after
  one instance has come and gone the count is below zero, and once the tenant has the limit two it gets three
  instances.
\<close>

definition grants :: "nat \<Rightarrow> tenantCache \<times> etcd_counts \<Rightarrow> bool list" where
  "grants n st = map (\<lambda>i. \<not> fst (fst (IncreaseTenantInstanceNum works ''t'' False
     (((\<lambda>s. snd (IncreaseTenantInstanceNum works ''t'' False s)) ^^ i) st)))) [0..<n]"

theorem unlimited_tenant_counted_below_zero:
  "(let unlimited = UpdateOrAddTenantQuota ''t'' \<lparr>maxOnDemandInstance = -1, maxReversedInstance = -1\<rparr> cache2;
        made = snd (IncreaseTenantInstanceNum works ''t'' False (unlimited, fmempty));
        gone = DecreaseTenantInstance works ''t'' False made;
        limited = (DeleteTenantQuota ''t'' (fst gone), snd gone)
    in (OnDemandInsNum (counted ''t'' (snd gone)), maxOnDemandInstance (GetTenantQuotaNum ''t'' (fst limited)), grants 4 limited)) =
   (-1, 2, [True, True, True, False])"
  by code_simp

end
