(* ===== verification/CreateQueue.thy ===== *)
theory CreateQueue
  imports GoPrelude
begin

text \<open>
  The queue of instance creations (\<^verbatim>\<open>functionscaler/instancequeue/create_request_queue.go\<close>): a worker takes
  creations from the front, a scale-down cancels them from the back. The code keeps pointers to both ends of a
  linked list beside the list; shown is that the pointers always are the ends, so that the queue behaves as a
  plain double-ended list.
\<close>

section \<open>Data and operations\<close>

text \<open>
  \<^verbatim>\<open>container/list\<close> as a list of elements, an element being an address and its value. \<^verbatim>\<open>Next\<close> and \<^verbatim>\<open>Prev\<close> of an element
  give its neighbours, and nil at the ends and for an element that is not in the list.
\<close>

record 'r InstanceCreateQueue =
  cq_queue :: "(nat \<times> 'r) list"
  cq_createHead :: "nat option"
  cq_cancelHead :: "nat option"
  cq_stopped :: bool
  cq_fresh :: nat

fun list_Next :: "(nat \<times> 'r) list \<Rightarrow> nat \<Rightarrow> nat option" where
  "list_Next [] e = None"
| "list_Next [x] e = None"
| "list_Next (x # y # zs) e = (if fst x = e then Some (fst y) else list_Next (y # zs) e)"

fun list_Prev :: "(nat \<times> 'r) list \<Rightarrow> nat \<Rightarrow> nat option" where
  "list_Prev [] e = None"
| "list_Prev [x] e = None"
| "list_Prev (x # y # zs) e = (if fst y = e then Some (fst x) else list_Prev (y # zs) e)"

definition NewInstanceCreateQueue :: "'r InstanceCreateQueue" where
  "NewInstanceCreateQueue = \<lparr>cq_queue = [], cq_createHead = None, cq_cancelHead = None, cq_stopped = False, cq_fresh = 0\<rparr>"

definition cq_push :: "'r \<Rightarrow> 'r InstanceCreateQueue \<Rightarrow> 'r InstanceCreateQueue" where
  "cq_push request iq =
     (let newElem = cq_fresh iq
      in iq\<lparr>cq_queue := cq_queue iq @ [(newElem, request)],
            cq_createHead := (if cq_createHead iq = None then Some newElem else cq_createHead iq),
            cq_cancelHead := Some newElem, cq_fresh := Suc newElem\<rparr>)"

text \<open>Taking the element at an address out, the pointers moving off it first.\<close>

definition cq_take :: "nat \<Rightarrow> 'r InstanceCreateQueue \<Rightarrow> 'r option \<times> 'r InstanceCreateQueue" where
  "cq_take curElem iq =
     (map_of (cq_queue iq) curElem,
      iq\<lparr>cq_createHead := (if cq_createHead iq = Some curElem then list_Next (cq_queue iq) curElem else cq_createHead iq),
         cq_cancelHead := (if cq_cancelHead iq = Some curElem then list_Prev (cq_queue iq) curElem else cq_cancelHead iq),
         cq_queue := filter (\<lambda>e. fst e \<noteq> curElem) (cq_queue iq)\<rparr>)"

text \<open>
  \<^verbatim>\<open>getForCreate\<close> waits once while the queue is empty; this is what it does when it goes on, with the queue it
  finds then.
\<close>

definition getForCreate :: "'r InstanceCreateQueue \<Rightarrow> 'r option \<times> 'r InstanceCreateQueue" where
  "getForCreate iq =
     (if cq_stopped iq then (None, iq)
      else case cq_createHead iq of None \<Rightarrow> (None, iq) | Some curElem \<Rightarrow> cq_take curElem iq)"

definition getForCancel :: "'r InstanceCreateQueue \<Rightarrow> 'r option \<times> 'r InstanceCreateQueue" where
  "getForCancel iq =
     (if cq_stopped iq then (None, iq)
      else case cq_cancelHead iq of None \<Rightarrow> (None, iq) | Some curElem \<Rightarrow> cq_take curElem iq)"

definition getQueLen :: "'r InstanceCreateQueue \<Rightarrow> nat" where
  "getQueLen iq = length (cq_queue iq)"

definition cq_destroy :: "'r InstanceCreateQueue \<Rightarrow> 'r InstanceCreateQueue" where
  "cq_destroy iq = iq\<lparr>cq_stopped := True\<rparr>"

section \<open>The pointers are the ends\<close>

definition cq_ok :: "'r InstanceCreateQueue \<Rightarrow> bool" where
  "cq_ok iq \<longleftrightarrow> distinct (map fst (cq_queue iq)) \<and> (\<forall>e\<in>set (cq_queue iq). fst e < cq_fresh iq) \<and>
     cq_createHead iq = (if cq_queue iq = [] then None else Some (fst (hd (cq_queue iq)))) \<and>
     cq_cancelHead iq = (if cq_queue iq = [] then None else Some (fst (last (cq_queue iq))))"

definition requests :: "'r InstanceCreateQueue \<Rightarrow> 'r list" where
  "requests iq = map snd (cq_queue iq)"

lemma cq_ok_new: "cq_ok NewInstanceCreateQueue" "requests NewInstanceCreateQueue = []"
  by (simp_all add: cq_ok_def requests_def NewInstanceCreateQueue_def)

lemma cq_push_effect:
  assumes "cq_ok iq"
  shows "cq_ok (cq_push r iq)" "requests (cq_push r iq) = requests iq @ [r]" "cq_stopped (cq_push r iq) = cq_stopped iq"
  using assms by (auto simp: cq_ok_def cq_push_def requests_def Let_def)

lemma list_Prev_last: "distinct (map fst (xs @ [x, y])) \<Longrightarrow> list_Prev (xs @ [x, y]) (fst y) = Some (fst x)"
proof (induction xs)
  case (Cons z zs)
  then show ?case by (cases zs) auto
qed simp

lemma list_Prev_single: "list_Prev [x] e = None" "list_Next [x] e = None" by simp_all

text \<open>The two takes are a pop of the front and of the back.\<close>

lemma getForCreate_effect:
  assumes "cq_ok iq" and "\<not> cq_stopped iq"
  shows "cq_ok (snd (getForCreate iq)) \<and> cq_stopped (snd (getForCreate iq)) = cq_stopped iq \<and>
    (case requests iq of
       [] \<Rightarrow> getForCreate iq = (None, iq)
     | r # rs \<Rightarrow> fst (getForCreate iq) = Some r \<and> requests (snd (getForCreate iq)) = rs)"
proof (cases "cq_queue iq")
  case Nil
  with assms show ?thesis by (simp add: getForCreate_def cq_ok_def requests_def)
next
  case (Cons e es)
  obtain p r where e: "e = (p, r)" by fastforce
  have "filter (\<lambda>e. fst e \<noteq> p) es = es" using assms(1) Cons e by (auto simp: cq_ok_def filter_id_conv)
  moreover have "cq_createHead iq = Some p" "cq_cancelHead iq = Some (fst (last (e # es)))" "p \<notin> fst ` set es"
    using assms(1) Cons e by (simp_all add: cq_ok_def)
  ultimately show ?thesis using assms Cons e
    by (cases es) (auto simp: getForCreate_def cq_take_def cq_ok_def requests_def)
qed

lemma getForCancel_effect:
  assumes "cq_ok iq" and "\<not> cq_stopped iq"
  shows "cq_ok (snd (getForCancel iq)) \<and> cq_stopped (snd (getForCancel iq)) = cq_stopped iq \<and>
    (if requests iq = [] then getForCancel iq = (None, iq)
     else fst (getForCancel iq) = Some (last (requests iq)) \<and> requests (snd (getForCancel iq)) = butlast (requests iq))"
proof (cases "cq_queue iq" rule: rev_cases)
  case Nil
  with assms show ?thesis by (simp add: getForCancel_def cq_ok_def requests_def)
next
  case (snoc es e)
  obtain p r where e: "e = (p, r)" by fastforce
  have p: "p \<notin> fst ` set es" using assms(1) snoc e by (auto simp: cq_ok_def)
  then have f: "filter (\<lambda>e. fst e \<noteq> p) es = es" by (auto simp: filter_id_conv)
  have m: "map_of (es @ [(p, r)]) p = Some r" using p by (simp add: map_add_def map_of_eq_None_iff [THEN iffD2])
  have head: "cq_cancelHead iq = Some p" using assms(1) snoc e by (simp add: cq_ok_def)
  show ?thesis
  proof (cases es rule: rev_cases)
    case Nil
    with assms snoc e head show ?thesis by (auto simp: getForCancel_def cq_take_def cq_ok_def requests_def)
  next
    case (snoc es' e')
    have prev: "list_Prev (es @ [e]) p = Some (fst e')"
      using list_Prev_last [of es' e' e] assms(1) snoc e \<open>cq_queue iq = es @ [e]\<close> by (simp add: cq_ok_def)
    show ?thesis using assms head prev f m e \<open>cq_queue iq = es @ [e]\<close> snoc
      by (cases es') (auto simp: getForCancel_def cq_take_def cq_ok_def requests_def butlast_append)
  qed
qed

lemma cq_destroy_effect: "cq_ok iq \<Longrightarrow> cq_ok (cq_destroy iq)" "requests (cq_destroy iq) = requests iq"
  by (simp_all add: cq_ok_def cq_destroy_def requests_def)

end
