(* ===== verification/ScaleLoop.thy ===== *)
theory ScaleLoop
  imports ReplicaScaler CreateQueue "HOL-Library.Sublist"
begin

text \<open>
  The replica scaler at work: its decisions become creations in the create queue and scale-down goroutines
  (\<^verbatim>\<open>functionscaler/instancequeue/scaled_instance_queue.go\<close>), whose ends are reported back. Shown: the pending
  number of the scaler is the work under way, plus one for every creation that was cancelled, plus what was
  left without a report after the function was deleted; while none was cancelled and the function exists the
  scaler rests only at its target; an instance that is created is added or deleted.
\<close>

section \<open>Creating an instance\<close>

text \<open>
  \<^verbatim>\<open>createInstance\<close>: \<open>made\<close> is what the create function returned, \<open>deleted\<close> whether the function is deleted by
  now, \<open>sigBefore\<close> and \<open>sigAfter\<close> the signature before and after. The result is the instance and the
  error it returns, and whether the instance is killed.
\<close>

abbreviation (input) ErrFunctionDeleted :: go_error where "ErrFunctionDeleted \<equiv> GoError ''function is deleted''"
abbreviation (input) ErrFuncSigMismatch :: go_error where "ErrFuncSigMismatch \<equiv> GoError ''function signature mismatch''"

definition createInstance ::
  "'i option \<times> go_error option \<Rightarrow> bool \<Rightarrow> string \<Rightarrow> string \<Rightarrow> ('i option \<times> go_error option) \<times> bool" where
  "createInstance made deleted sigBefore sigAfter =
     (let createErr = (if deleted then Some ErrFunctionDeleted
                       else if sigBefore \<noteq> sigAfter then Some ErrFuncSigMismatch else snd made)
      in ((fst made, createErr), createErr \<noteq> None \<and> fst made \<noteq> None))"

text \<open>
  \<^verbatim>\<open>scaleUpInstanceWithRetry\<close>: the delays of the loop, and the loop over them. The delay starts at
  \<^verbatim>\<open>initialErrorDelay\<close> and is multiplied by \<^verbatim>\<open>retryDelayFactor\<close>, which is two, up to \<^verbatim>\<open>retryDelayLimit\<close>. Before
  each attempt the context of the function is checked; the result also has the delays slept.
\<close>

function retry_delays :: "nat \<Rightarrow> nat \<Rightarrow> nat list" where
  "retry_delays retryDelay retryDelayLimit =
     (if 0 < retryDelay \<and> retryDelay \<le> retryDelayLimit then retryDelay # retry_delays (retryDelay * 2) retryDelayLimit else [])"
  by pat_completeness auto
termination
  by (relation "measure (\<lambda>(d, l). Suc l - d)") auto

declare retry_delays.simps [simp del]

datatype 'i create_end = FuncDeleted | Created 'i | CreateFailed "go_error option"

fun scaleUpInstanceWithRetry ::
  "bool \<Rightarrow> (nat \<Rightarrow> bool) \<Rightarrow> (nat \<Rightarrow> 'i option \<times> go_error option) \<Rightarrow> go_error option \<Rightarrow> nat list \<Rightarrow> nat \<Rightarrow> nat list \<times> 'i create_end" where
  "scaleUpInstanceWithRetry alwaysRetry deleted attempt lastErr [] k = ([], CreateFailed lastErr)"
| "scaleUpInstanceWithRetry alwaysRetry deleted attempt lastErr (d # ds) k =
     (if deleted k then ([], FuncDeleted)
      else case attempt k of
        (Some i, None) \<Rightarrow> ([], Created i)
      | (_, err) \<Rightarrow>
          if alwaysRetry then scaleUpInstanceWithRetry alwaysRetry deleted attempt err ds (Suc k)
          else if (case err of None \<Rightarrow> False | Some e \<Rightarrow> IsUnrecoverableError e) then ([], CreateFailed err)
          else (case scaleUpInstanceWithRetry alwaysRetry deleted attempt err ds (Suc k) of
                  (slept, res) \<Rightarrow> (d # slept, res)))"

section \<open>The loop of decisions and work\<close>

text \<open>
  \<open>sl_creating\<close> counts the goroutines between taking a creation and their callback, \<open>sl_downs\<close> those of a
  scale-down before their callback; \<open>sl_reads\<close> are the differences that calls of \<^verbatim>\<open>handleScale\<close> have computed but
  not acted on. \<open>sl_cancelled\<close> counts the creations that were cancelled. \<open>sl_deleted\<close> says that the context of
  the function is done; \<open>sl_lost_ups\<close> and \<open>sl_lost_downs\<close> count the goroutines that found it so and returned
  without their callback.
\<close>

record scale_loop =
  sl_rep :: ReplicaScaler
  sl_queue :: "unit InstanceCreateQueue"
  sl_creating :: nat
  sl_downs :: nat
  sl_reads :: "int list"
  sl_cancelled :: nat
  sl_deleted :: bool
  sl_lost_ups :: nat
  sl_lost_downs :: nat

text \<open>The handlers: a creation per instance, a goroutine per instance to remove.\<close>

definition ScaleUpHandler :: "int \<Rightarrow> unit InstanceCreateQueue \<Rightarrow> unit InstanceCreateQueue" where
  "ScaleUpHandler insNum q = (cq_push () ^^ nat insNum) q"

definition run_call :: "scale_call \<Rightarrow> scale_loop \<Rightarrow> scale_loop" where
  "run_call c s =
     (case c of
        ScaleUp n \<Rightarrow> s\<lparr>sl_queue := ScaleUpHandler n (sl_queue s)\<rparr>
      | ScaleDown n \<Rightarrow> s\<lparr>sl_downs := sl_downs s + nat n\<rparr>)"

definition act_step :: "int \<Rightarrow> scale_loop \<Rightarrow> scale_loop" where
  "act_step n s =
     (case scale_act n (sl_rep s) of
        (calls, rep) \<Rightarrow> fold run_call calls (s\<lparr>sl_rep := rep, sl_reads := remove1 n (sl_reads s)\<rparr>))"

text \<open>
  The end of a creation: the function was found deleted before an attempt, and the goroutine returns at once, or
  the callback runs, whatever the result. Then \<^verbatim>\<open>scaleDownInstance\<close>, where \<open>deleted\<close> is what its look at the
  context of the function says.
\<close>

definition create_done :: "'i create_end \<Rightarrow> scale_loop \<Rightarrow> scale_loop" where
  "create_done res s =
     (case res of
        FuncDeleted \<Rightarrow> s\<lparr>sl_creating := sl_creating s - 1, sl_lost_ups := Suc (sl_lost_ups s)\<rparr>
      | _ \<Rightarrow> s\<lparr>sl_creating := sl_creating s - 1, sl_rep := rep_handlePendingInsNumDecrease 1 (sl_rep s)\<rparr>)"

definition scaleDownInstance :: "bool \<Rightarrow> scale_loop \<Rightarrow> scale_loop" where
  "scaleDownInstance deleted s =
     (if deleted then s\<lparr>sl_downs := sl_downs s - 1, sl_lost_downs := Suc (sl_lost_downs s)\<rparr>
      else
      let s1 = s\<lparr>sl_downs := sl_downs s - 1, sl_rep := rep_handlePendingInsNumIncrease 1 (sl_rep s)\<rparr>
      in case getForCancel (sl_queue s) of
           (Some _, q) \<Rightarrow> s1\<lparr>sl_queue := q, sl_cancelled := Suc (sl_cancelled s)\<rparr>
         | (None, q) \<Rightarrow> s1\<lparr>sl_queue := q\<rparr>)"

datatype rep_event =
  Ev_enable bool | Ev_trigger | Ev_threads int | Ev_spec int | Ev_config int | Ev_error "go_error option" | Ev_destroy

fun rep_apply :: "rep_event \<Rightarrow> ReplicaScaler \<Rightarrow> ReplicaScaler" where
  "rep_apply (Ev_enable b) rs = snd (rep_SetEnable b rs)"
| "rep_apply Ev_trigger rs = snd (rep_TriggerScale rs)"
| "rep_apply (Ev_threads d) rs = (case rep_HandleInsThdUpdate d rs of None \<Rightarrow> rs | Some r \<Rightarrow> snd r)"
| "rep_apply (Ev_spec n) rs = snd (rep_HandleFuncSpecUpdate n rs)"
| "rep_apply (Ev_config n) rs = snd (rep_HandleInsConfigUpdate n rs)"
| "rep_apply (Ev_error e) rs = snd (rep_HandleCreateError e rs)"
| "rep_apply Ev_destroy rs = rep_Destroy rs"

inductive scale_step :: "bool \<Rightarrow> scale_loop \<Rightarrow> scale_loop \<Rightarrow> bool" for disable :: bool where
  event: "scale_step disable s (s\<lparr>sl_rep := rep_apply ev (sl_rep s)\<rparr>)"
| read: "scale_read disable (sl_rep s) = Some n \<Longrightarrow> scale_step disable s (s\<lparr>sl_reads := n # sl_reads s\<rparr>)"
| act: "n \<in> set (sl_reads s) \<Longrightarrow> scale_step disable s (act_step n s)"
| create_take: "getForCreate (sl_queue s) = (Some r, q) \<Longrightarrow>
    scale_step disable s (s\<lparr>sl_queue := q, sl_creating := Suc (sl_creating s)\<rparr>)"
| create_end: "0 < sl_creating s \<Longrightarrow> (res = FuncDeleted \<Longrightarrow> sl_deleted s) \<Longrightarrow>
    scale_step disable s (create_done (res :: unit create_end) s)"
| down: "0 < sl_downs s \<Longrightarrow> (deleted \<Longrightarrow> sl_deleted s) \<Longrightarrow> scale_step disable s (scaleDownInstance deleted s)"
| delete: "scale_step disable s (s\<lparr>sl_deleted := True\<rparr>)"
| destroy: "scale_step disable s (s\<lparr>sl_queue := cq_destroy (sl_queue s)\<rparr>)"

definition loop_start :: scale_loop where
  "loop_start = \<lparr>sl_rep = NewReplicaScaler, sl_queue = NewInstanceCreateQueue, sl_creating = 0, sl_downs = 0, sl_reads = [], sl_cancelled = 0,
     sl_deleted = False, sl_lost_ups = 0, sl_lost_downs = 0\<rparr>"

abbreviation scale_reach :: "bool \<Rightarrow> scale_loop \<Rightarrow> bool" where
  "scale_reach disable s \<equiv> (scale_step disable)\<^sup>*\<^sup>* loop_start s"

section \<open>Accounting\<close>

definition loop_inv :: "scale_loop \<Rightarrow> bool" where
  "loop_inv s \<longleftrightarrow> cq_ok (sl_queue s) \<and> (sl_deleted s \<or> sl_lost_ups s = 0 \<and> sl_lost_downs s = 0) \<and>
     rep_pendingRsvInsNum (sl_rep s) =
       int (length (requests (sl_queue s))) + int (sl_creating s) - int (sl_downs s) + int (sl_cancelled s) +
       int (sl_lost_ups s) - int (sl_lost_downs s)"

lemma push_many:
  "cq_ok q \<Longrightarrow> cq_ok ((cq_push () ^^ n) q) \<and> cq_stopped ((cq_push () ^^ n) q) = cq_stopped q \<and>
     length (requests ((cq_push () ^^ n) q)) = length (requests q) + n"
  by (induction n) (auto simp: cq_push_effect)

lemma rep_apply_pending [simp]: "rep_pendingRsvInsNum (rep_apply ev rs) = rep_pendingRsvInsNum rs"
  by (cases ev)
    (auto simp: rep_SetEnable_def rep_TriggerScale_def rep_HandleInsThdUpdate_def rep_HandleFuncSpecUpdate_def
      rep_HandleInsConfigUpdate_def rep_HandleCreateError_def rep_Destroy_def)

lemma act_inv:
  assumes "loop_inv s"
  shows "loop_inv (act_step n s)"
proof -
  obtain calls rep where a: "scale_act n (sl_rep s) = (calls, rep)" by fastforce
  note p = scale_act_pending [OF a]
  from scale_act_calls [OF a] consider "calls = []" | k where "calls = [ScaleUp k]" "0 < k" | k where "calls = [ScaleDown k]" "0 < k"
    by blast
  then show ?thesis using assms p push_many [of "sl_queue s"]
    by cases (auto simp: loop_inv_def act_step_def a run_call_def ScaleUpHandler_def)
qed

lemma down_inv:
  assumes "loop_inv s" and "0 < sl_downs s" and "deleted \<Longrightarrow> sl_deleted s"
  shows "loop_inv (scaleDownInstance deleted s)"
proof (cases "deleted \<or> cq_stopped (sl_queue s)")
  case True
  with assms show ?thesis
    by (auto simp: loop_inv_def scaleDownInstance_def getForCancel_def rep_handlePendingInsNumIncrease_def)
next
  case go: False
  have q: "cq_ok (sl_queue s)" using assms(1) by (simp add: loop_inv_def)
  note e = getForCancel_effect [OF q]
  show ?thesis
  proof (cases "requests (sl_queue s) = []")
    case True
    with e go assms show ?thesis
      by (auto simp: loop_inv_def scaleDownInstance_def rep_handlePendingInsNumIncrease_def)
  next
    case False
    obtain r q' where g: "getForCancel (sl_queue s) = (Some r, q')" using e go False by (cases "getForCancel (sl_queue s)") auto
    then have "length (requests (sl_queue s)) = Suc (length (requests q'))" "cq_ok q'"
      using e go False q by (auto simp: Suc_diff_1 length_greater_0_conv simp flip: length_greater_0_conv)
    with assms g go show ?thesis
      by (auto simp: loop_inv_def scaleDownInstance_def rep_handlePendingInsNumIncrease_def)
  qed
qed

lemma scale_step_inv: "scale_step disable s s' \<Longrightarrow> loop_inv s \<Longrightarrow> loop_inv s'"
proof (induction rule: scale_step.induct)
  case (create_take s r q)
  then have "cq_ok (sl_queue s)" "\<not> cq_stopped (sl_queue s)" by (auto simp: loop_inv_def getForCreate_def)
  from getForCreate_effect [OF this] create_take(1) show ?case using create_take(2)
    by (auto simp: loop_inv_def split: list.splits)
next
  case (create_end s res)
  then show ?case
    by (cases res) (auto simp: loop_inv_def create_done_def rep_handlePendingInsNumDecrease_def)
next
  case (down s deleted)
  then show ?case by (intro down_inv) auto
next
  case (destroy s)
  then show ?case by (simp add: loop_inv_def cq_destroy_effect)
qed (auto simp: loop_inv_def act_inv act_inv [unfolded loop_inv_def])

lemma scale_reach_inv: "scale_reach disable s \<Longrightarrow> loop_inv s"
proof (induction rule: rtranclp_induct)
  case base
  show ?case by (simp add: loop_inv_def loop_start_def cq_ok_new NewReplicaScaler_def)
qed (rule scale_step_inv)

section \<open>Properties\<close>

text \<open>
  C27: The pending number of the scaler is exact, in every interleaving of its calls with the goroutines, with
  the deletion of the function and with the destruction of the queue: it is the creations queued or being made,
  less the scale-downs under way, plus the creations that have been cancelled, plus the creations less the
  scale-downs that returned without their callback because the function was deleted. There is none of the latter
  as long as the function exists. The part of the cancelled ones should not be there: a scale-down that cancels
  a creation reports only itself.
\<close>

theorem pending_accounts_for_work:
  assumes "scale_reach disable s"
  shows "rep_pendingRsvInsNum (sl_rep s) =
      int (length (requests (sl_queue s))) + int (sl_creating s) - int (sl_downs s) + int (sl_cancelled s) +
      int (sl_lost_ups s) - int (sl_lost_downs s) \<and>
    (sl_deleted s \<or> sl_lost_ups s = 0 \<and> sl_lost_downs s = 0)"
  using scale_reach_inv [OF assms] by (simp add: loop_inv_def)

text \<open>
  As long as no creation was cancelled and the function exists, an enabled scaler with nothing under way rests exactly at its target, and
  otherwise asks for exactly the difference.
\<close>

theorem rests_only_at_target:
  assumes "scale_reach False s" and "sl_cancelled s = 0" "\<not> sl_deleted s" and "requests (sl_queue s) = []" "sl_creating s = 0" "sl_downs s = 0"
    and "rep_enable (sl_rep s)" and "d = rep_targetRsvInsNum (sl_rep s) - rep_currentRsvInsNum (sl_rep s)"
  shows "fst (rep_handleScale False (sl_rep s)) = (if d = 0 then [] else if 0 < d then [ScaleUp d] else [ScaleDown (- d)])"
proof -
  have "rep_pendingRsvInsNum (sl_rep s) = 0" using scale_reach_inv [OF assms(1)] assms(2-6) by (simp add: loop_inv_def)
  with assms(7,8) show ?thesis by (auto simp: rep_handleScale_def scale_read_def scale_act_def Let_def)
qed

lemma delays_default: "retry_delays 1 16 = [1, 2, 4, 8, 16]"
  by (simp add: retry_delays.simps)

lemma retry_slept:
  "scaleUpInstanceWithRetry alwaysRetry deleted attempt e ds k = (slept, res) \<Longrightarrow>
     prefix slept ds \<and> (alwaysRetry \<longrightarrow> slept = []) \<and> (\<forall>i. res = Created i \<longrightarrow> (\<exists>j<length ds. attempt (k + j) = (Some i, None)))"
proof (induction ds arbitrary: e k slept res)
  case (Cons d ds)
  obtain ins err where a: "attempt k = (ins, err)" by fastforce
  show ?case
  proof (cases "deleted k")
    case True
    with Cons.prems show ?thesis by auto
  next
    case False
    obtain slept' res' where r: "scaleUpInstanceWithRetry alwaysRetry deleted attempt err ds (Suc k) = (slept', res')" by fastforce
    note IH = Cons.IH [OF r]
    have ih: "prefix slept' ds" "alwaysRetry \<longrightarrow> slept' = []" using IH by blast+
    have later: "\<exists>j<Suc (length ds). attempt (k + j) = (Some i, None)" if "res' = Created i" for i
      using IH that by (metis Suc_less_eq add_Suc_right add_Suc)
    show ?thesis
    proof (cases "ins \<noteq> None \<and> err = None")
      case True
      with Cons.prems False a show ?thesis by (auto intro!: exI [of _ 0])
    next
      case bad: False
      with Cons.prems False a r ih later show ?thesis
        by (auto split: if_splits option.splits prod.splits)
    qed
  qed
qed auto

text \<open>
  C28: A creation ends: with the delays of the code there are at most five attempts and at most thirty-one seconds of
  waiting, and what is reported as created was made by an attempt without an error. With the option to
  always retry there is no waiting at all between the attempts.
\<close>

theorem creation_ends:
  assumes "scaleUpInstanceWithRetry alwaysRetry deleted attempt None (retry_delays 1 16) 0 = (slept, res)"
  shows "length slept \<le> 5 \<and> sum_list slept \<le> 31 \<and> (alwaysRetry \<longrightarrow> slept = []) \<and>
    (\<forall>i. res = Created i \<longrightarrow> (\<exists>j<5. attempt j = (Some i, None)))"
proof -
  note s = retry_slept [OF assms [unfolded delays_default]]
  obtain rest where rest: "[1, 2, 4, 8, 16] = slept @ rest" using s by (auto elim: prefixE)
  have "length slept + length rest = length [1, 2, 4, 8, 16 :: nat]" "sum_list slept + sum_list rest = sum_list [1, 2, 4, 8, 16 :: nat]"
    unfolding rest by simp_all
  moreover have "\<exists>j<5. attempt j = (Some i, None)" if "res = Created i" for i using s that by (auto simp: numeral_eq_Suc)
  ultimately show ?thesis using s by auto
qed

text \<open>
  An instance that the create function has made is never lost: it is returned without an error, or it is killed.
\<close>

theorem made_instance_returned_or_killed:
  assumes "createInstance (Some i, err) deleted sigBefore sigAfter = ((ins, err'), killed)"
  shows "ins = Some i \<and> (killed \<longleftrightarrow> err' \<noteq> None) \<and> (\<not> killed \<longrightarrow> \<not> deleted \<and> sigBefore = sigAfter \<and> err = None)"
  using assms by (auto simp: createInstance_def Let_def split: if_splits)

theorem made_instance_returned_or_killed_witness:
  "createInstance (Some ''i'', None) False ''s1'' ''s2'' = ((Some ''i'', Some ErrFuncSigMismatch), True)"
proof -
  obtain ins err' killed where c: "createInstance (Some ''i'', None) False ''s1'' ''s2'' = ((ins, err'), killed)" by (metis prod_cases3 surj_pair)
  have "err' = Some ErrFuncSigMismatch" using c by (simp add: createInstance_def Let_def)
  with made_instance_returned_or_killed [OF c] c show ?thesis by simp
qed

section \<open>Witnesses\<close>

text \<open>A scaler that is enabled and has one instance to create.\<close>

definition one_wanted :: scale_loop where
  "one_wanted = loop_start\<lparr>sl_rep := rep_apply (Ev_enable True) (rep_apply (Ev_config 1) (rep_apply (Ev_spec 2) (sl_rep loop_start)))\<rparr>"

lemma one_wanted_reach: "scale_reach False one_wanted"
proof -
  let ?s1 = "loop_start\<lparr>sl_rep := rep_apply (Ev_spec 2) (sl_rep loop_start)\<rparr>"
  let ?s2 = "?s1\<lparr>sl_rep := rep_apply (Ev_config 1) (sl_rep ?s1)\<rparr>"
  have "scale_step False loop_start ?s1" "scale_step False ?s1 ?s2" "scale_step False ?s2 (?s2\<lparr>sl_rep := rep_apply (Ev_enable True) (sl_rep ?s2)\<rparr>)"
    by (rule scale_step.event)+
  moreover have "?s2\<lparr>sl_rep := rep_apply (Ev_enable True) (sl_rep ?s2)\<rparr> = one_wanted" by (simp add: one_wanted_def)
  ultimately show ?thesis by (metis (no_types, lifting) rtranclp.rtrancl_refl rtranclp.rtrancl_into_rtrancl)
qed

definition one_queued :: scale_loop where
  "one_queued = act_step 1 (one_wanted\<lparr>sl_reads := [1]\<rparr>)"

lemma one_queued_reach: "scale_reach False one_queued"
proof -
  have r: "scale_read False (sl_rep one_wanted) = Some 1" "sl_reads one_wanted = []" by code_simp+
  have "scale_step False one_wanted (one_wanted\<lparr>sl_reads := [1]\<rparr>)" using scale_step.read [OF r(1)] r(2) by simp
  moreover have "scale_step False (one_wanted\<lparr>sl_reads := [1]\<rparr>) one_queued" unfolding one_queued_def by (rule scale_step.act) simp
  ultimately show ?thesis using one_wanted_reach by (meson rtranclp.rtrancl_into_rtrancl)
qed

theorem pending_accounts_for_work_witness:
  "rep_pendingRsvInsNum (sl_rep one_queued) = 1 \<and> requests (sl_queue one_queued) = [()]"
proof -
  have "requests (sl_queue one_queued) = [()]" "sl_creating one_queued = 0" "sl_downs one_queued = 0" "sl_cancelled one_queued = 0"
    "\<not> sl_deleted one_queued" by code_simp+
  with pending_accounts_for_work [OF one_queued_reach] show ?thesis by simp
qed

theorem rests_only_at_target_witness:
  "fst (rep_handleScale False (sl_rep one_wanted)) = [ScaleUp 1]"
proof -
  have "sl_cancelled one_wanted = 0" "requests (sl_queue one_wanted) = []" "sl_creating one_wanted = 0" "sl_downs one_wanted = 0"
    "\<not> sl_deleted one_wanted" "rep_enable (sl_rep one_wanted)" "rep_targetRsvInsNum (sl_rep one_wanted) - rep_currentRsvInsNum (sl_rep one_wanted) = 1" by code_simp+
  with rests_only_at_target [OF one_wanted_reach, of 1] show ?thesis by simp
qed

theorem creation_ends_witness:
  "scaleUpInstanceWithRetry False (\<lambda>_. False) (\<lambda>k. if k = 1 then (Some ''i'', None) else (None, Some (GoError ''e''))) None
     (retry_delays 1 16) 0 = ([1], Created ''i'')"
proof -
  let ?attempt = "\<lambda>k. if k = 1 then (Some ''i'', None) else (None, Some (GoError ''e''))"
  obtain slept res where r: "scaleUpInstanceWithRetry False (\<lambda>_. False) ?attempt None (retry_delays 1 16) 0 = (slept, res)" by fastforce
  have "slept = [1]" "res = Created ''i''" using r unfolding delays_default by (simp_all add: IsUnrecoverableError_def)
  with r creation_ends [OF r] show ?thesis by simp
qed

section \<open>A cancelled creation\<close>

text \<open>
  One reserved instance is wanted; before the worker has taken the creation an instance of an earlier run shows up and
  none is wanted any more; later that instance is gone and one is wanted again. The
  scale-down cancels the creation and adds to the pending number what the decision had taken off; nobody takes off
  the creation itself. In the end nothing is under way, the pending number is one, and the scaler asks for nothing.
\<close>

definition cancelled_once :: scale_loop where
  "cancelled_once =
     (let s1 = one_queued\<lparr>sl_rep := rep_apply (Ev_threads 2) (sl_rep one_queued)\<rparr>;
          s2 = s1\<lparr>sl_rep := rep_apply (Ev_config 0) (sl_rep s1)\<rparr>;
          s3 = scaleDownInstance False (act_step (- 1) (s2\<lparr>sl_reads := [- 1]\<rparr>));
          s4 = s3\<lparr>sl_rep := rep_apply (Ev_threads (- 2)) (sl_rep s3)\<rparr>
      in s4\<lparr>sl_rep := rep_apply (Ev_config 1) (sl_rep s4)\<rparr>)"

theorem cancelled_creation_blocks:
  "(let s = cancelled_once
    in (requests (sl_queue s), sl_creating s, sl_downs s, rep_pendingRsvInsNum (sl_rep s),
        rep_targetRsvInsNum (sl_rep s) - rep_currentRsvInsNum (sl_rep s), rep_enable (sl_rep s), fst (rep_handleScale False (sl_rep s)))) =
   ([], 0, 0, 1, 1, True, [])"
  by code_simp

end
