(* ===== verification/RoundRobinSched.thy ===== *)
theory RoundRobinSched
  imports ConcurrencyScheduler
begin

text \<open>
  The round-robin scheduler (\<^verbatim>\<open>scheduler/roundrobinscheduler/roundrobin_scheduler.go\<close>): healthy instances in a
  list that is gone through in turns, those of the preferred zone first, and sub-healthy ones in a map. Shown: turns are fair;
  the counters of the preferred zone and the threads told to the scaler are exact; only healthy instances
  are given out; the wait for a first instance ends. An update and a removal that overlap leave
  a removed instance in the list.
\<close>

section \<open>State\<close>

text \<open>\<open>rb_totals\<close> and \<open>rb_triggers\<close> are what the observers of the scaler were told.\<close>

record RoundRobinScheduler =
  rb_instanceQueue :: "SchedInstance list"
  rb_subHealthInstance :: "(string, SchedInstance) gomap"
  rb_coldStartTraceQueue :: "(string \<times> string) list"
  rb_priorityAZ :: string
  rb_priorityHealthyCount :: int
  rb_prioritySubHealthCnt :: int
  rb_curIndex :: nat
  rb_isReserve :: bool
  rb_checkScalingTimeout :: duration
  rb_totals :: "int list"
  rb_triggers :: "int list"

definition NewRoundRobinScheduler :: "bool \<Rightarrow> duration \<Rightarrow> RoundRobinScheduler" where
  "NewRoundRobinScheduler isReserve requestTimeout =
     \<lparr>rb_instanceQueue = [], rb_subHealthInstance = fmempty, rb_coldStartTraceQueue = [], rb_priorityAZ = [],
      rb_priorityHealthyCount = 0, rb_prioritySubHealthCnt = 0, rb_curIndex = 0, rb_isReserve = isReserve,
      rb_checkScalingTimeout = requestTimeout, rb_totals = [], rb_triggers = []\<rparr>"

definition isPriorityAZInstance :: "RoundRobinScheduler \<Rightarrow> SchedInstance \<Rightarrow> bool" where
  "isPriorityAZInstance rs instance \<longleftrightarrow> rb_priorityAZ rs \<noteq> [] \<and> in_AZ instance = rb_priorityAZ rs"

section \<open>Healthy and sub-healthy instances\<close>

definition getHealthyInstance :: "string \<Rightarrow> RoundRobinScheduler \<Rightarrow> SchedInstance option" where
  "getHealthyInstance targetID rs = find (\<lambda>i. in_InstanceID i = targetID) (rb_instanceQueue rs)"

definition addHealthyInstance :: "SchedInstance \<Rightarrow> RoundRobinScheduler \<Rightarrow> RoundRobinScheduler" where
  "addHealthyInstance instance rs =
     rs\<lparr>rb_instanceQueue := rb_instanceQueue rs @ [instance],
        rb_priorityHealthyCount := rb_priorityHealthyCount rs + (if isPriorityAZInstance rs instance then 1 else 0)\<rparr>"

fun remove_id :: "string \<Rightarrow> SchedInstance list \<Rightarrow> SchedInstance list" where
  "remove_id targetID [] = []"
| "remove_id targetID (i # is) = (if in_InstanceID i = targetID then is else i # remove_id targetID is)"

definition delHealthyInstance :: "string \<Rightarrow> RoundRobinScheduler \<Rightarrow> RoundRobinScheduler" where
  "delHealthyInstance targetID rs =
     (case getHealthyInstance targetID rs of
        None \<Rightarrow> rs
      | Some instance \<Rightarrow>
          rs\<lparr>rb_instanceQueue := remove_id targetID (rb_instanceQueue rs),
             rb_priorityHealthyCount := rb_priorityHealthyCount rs - (if isPriorityAZInstance rs instance then 1 else 0)\<rparr>)"

definition getSubHealthyInstance :: "string \<Rightarrow> RoundRobinScheduler \<Rightarrow> SchedInstance option" where
  "getSubHealthyInstance targetID rs = fmlookup (rb_subHealthInstance rs) targetID"

definition addSubHealthyInstance :: "SchedInstance \<Rightarrow> RoundRobinScheduler \<Rightarrow> RoundRobinScheduler" where
  "addSubHealthyInstance instance rs =
     rs\<lparr>rb_subHealthInstance := fmupd (in_InstanceID instance) instance (rb_subHealthInstance rs),
        rb_prioritySubHealthCnt := rb_prioritySubHealthCnt rs + (if isPriorityAZInstance rs instance then 1 else 0)\<rparr>"

definition delSubHealthyInstance :: "string \<Rightarrow> RoundRobinScheduler \<Rightarrow> RoundRobinScheduler" where
  "delSubHealthyInstance targetID rs =
     (case getSubHealthyInstance targetID rs of
        None \<Rightarrow> rs
      | Some instance \<Rightarrow>
          rs\<lparr>rb_subHealthInstance := fmdrop targetID (rb_subHealthInstance rs),
             rb_prioritySubHealthCnt := rb_prioritySubHealthCnt rs - (if isPriorityAZInstance rs instance then 1 else 0)\<rparr>)"

text \<open>
  \<^verbatim>\<open>popHealthyInstanceByPriority\<close> walks the list from its end. \<^verbatim>\<open>popSubHealthyInstance\<close> takes the first hit of a
  map iteration; \<open>ord\<close> is its order.
\<close>

fun pop_last :: "(SchedInstance \<Rightarrow> bool) \<Rightarrow> SchedInstance list \<Rightarrow> (SchedInstance \<times> SchedInstance list) option" where
  "pop_last P [] = None"
| "pop_last P (i # is) =
     (case pop_last P is of
        Some (x, rest) \<Rightarrow> Some (x, i # rest)
      | None \<Rightarrow> if P i then Some (i, is) else None)"

definition popHealthyInstanceByPriority :: "bool \<Rightarrow> RoundRobinScheduler \<Rightarrow> SchedInstance option \<times> RoundRobinScheduler" where
  "popHealthyInstanceByPriority priority rs =
     (case pop_last (\<lambda>i. isPriorityAZInstance rs i = priority) (rb_instanceQueue rs) of
        None \<Rightarrow> (None, rs)
      | Some (instance, rest) \<Rightarrow>
          (Some instance, rs\<lparr>rb_instanceQueue := rest,
             rb_priorityHealthyCount := rb_priorityHealthyCount rs - (if priority then 1 else 0)\<rparr>))"

definition popHealthyInstance :: "RoundRobinScheduler \<Rightarrow> SchedInstance option \<times> RoundRobinScheduler" where
  "popHealthyInstance rs =
     (case popHealthyInstanceByPriority False rs of
        (Some instance, rs') \<Rightarrow> (Some instance, rs')
      | (None, rs') \<Rightarrow> popHealthyInstanceByPriority True rs')"

type_synonym sub_order = "(string, SchedInstance) gomap \<Rightarrow> string list"

definition first_sub :: "sub_order \<Rightarrow> (SchedInstance \<Rightarrow> bool) \<Rightarrow> RoundRobinScheduler \<Rightarrow> (string \<times> SchedInstance) option" where
  "first_sub ord P rs =
     find (\<lambda>(_, i). P i) (List.map_filter (\<lambda>k. map_option (Pair k) (fmlookup (rb_subHealthInstance rs) k)) (ord (rb_subHealthInstance rs)))"

definition popSubHealthyInstance :: "sub_order \<Rightarrow> RoundRobinScheduler \<Rightarrow> SchedInstance option \<times> RoundRobinScheduler" where
  "popSubHealthyInstance ord rs =
     (case first_sub ord (\<lambda>i. \<not> isPriorityAZInstance rs i) rs of
        Some (instanceID, instance) \<Rightarrow>
          (Some instance, rs\<lparr>rb_subHealthInstance := fmdrop instanceID (rb_subHealthInstance rs)\<rparr>)
      | None \<Rightarrow>
          if rb_prioritySubHealthCnt rs = 0 then (None, rs)
          else case first_sub ord (isPriorityAZInstance rs) rs of
            None \<Rightarrow> (None, rs)
          | Some (instanceID, instance) \<Rightarrow>
              (Some instance, rs\<lparr>rb_subHealthInstance := fmdrop instanceID (rb_subHealthInstance rs),
                 rb_prioritySubHealthCnt := rb_prioritySubHealthCnt rs - 1\<rparr>))"

definition refreshPriorityCountersLocked :: "RoundRobinScheduler \<Rightarrow> RoundRobinScheduler" where
  "refreshPriorityCountersLocked rs =
     rs\<lparr>rb_priorityHealthyCount := int (length (filter (isPriorityAZInstance rs) (rb_instanceQueue rs))),
        rb_prioritySubHealthCnt := fmsum (\<lambda>_ i. if isPriorityAZInstance rs i then 1 else 0) (rb_subHealthInstance rs)\<rparr>"

section \<open>Choosing an instance\<close>

definition selectHealthyInstance :: "RoundRobinScheduler \<Rightarrow> SchedInstance option \<times> RoundRobinScheduler" where
  "selectHealthyInstance rs =
     (let q = rb_instanceQueue rs; queLen = length q
      in if queLen = 0 then (None, rs)
         else
           let startIndex = (if rb_curIndex rs \<ge> queLen then rb_curIndex rs mod queLen else rb_curIndex rs);
               index = (if rb_priorityAZ rs \<noteq> [] \<and> rb_priorityHealthyCount rs > 0
                        then case find (\<lambda>offset. isPriorityAZInstance rs (q ! ((startIndex + offset) mod queLen))) [0..<queLen] of
                               None \<Rightarrow> startIndex
                             | Some offset \<Rightarrow> (startIndex + offset) mod queLen
                        else startIndex)
           in (Some (q ! index), rs\<lparr>rb_curIndex := (index + 1) mod queLen\<rparr>))"

section \<open>Requests\<close>

definition rb_recordColdStartTrace :: "string \<Rightarrow> string \<Rightarrow> RoundRobinScheduler \<Rightarrow> RoundRobinScheduler" where
  "rb_recordColdStartTrace traceID traceParent rs =
     (if traceID = [] \<and> traceParent = [] then rs
      else rs\<lparr>rb_coldStartTraceQueue := rb_coldStartTraceQueue rs @ [(traceID, traceParent)]\<rparr>)"

definition rb_PopColdStartTrace :: "RoundRobinScheduler \<Rightarrow> (string \<times> string) option \<times> RoundRobinScheduler" where
  "rb_PopColdStartTrace rs =
     (case rb_coldStartTraceQueue rs of
        [] \<Rightarrow> (None, rs)
      | t # ts \<Rightarrow> (Some t, rs\<lparr>rb_coldStartTraceQueue := ts\<rparr>))"

text \<open>The instant in milliseconds and the UUID of a new allocation are parameters.\<close>

definition rb_allocation :: "int \<Rightarrow> string \<Rightarrow> SchedInstance \<Rightarrow> InstanceAllocation" where
  "rb_allocation ms uuid instance =
     \<lparr>ia_Instance = instance, ia_AllocationID = in_InstanceID instance @ ''-'' @ showInt ms @ ''-'' @ uuid,
      ia_SessionID = [], ia_SessionCtx = None\<rparr>"

definition acquireInstanceDesignateInstanceID ::
  "int \<Rightarrow> string \<Rightarrow> InstanceAcquireRequest \<Rightarrow> RoundRobinScheduler \<Rightarrow> sched_error + InstanceAllocation" where
  "acquireInstanceDesignateInstanceID ms uuid insAcqReq rs =
     (case getSubHealthyInstance (aq_DesignateInstanceID insAcqReq) rs of
        Some _ \<Rightarrow> Inl ErrInsSubHealthy
      | None \<Rightarrow>
          (case getHealthyInstance (aq_DesignateInstanceID insAcqReq) rs of
             Some instance \<Rightarrow> Inr (rb_allocation ms uuid instance)
           | None \<Rightarrow> Inl ErrInsNotExist))"

text \<open>
  \<^verbatim>\<open>AcquireInstance\<close> in three parts. Up to the wait: a designated instance is looked up; otherwise, when the scaler
  expects no instance, the trace is recorded and the scaler triggered; \<open>wiseCloud\<close> is the scenario of the
  configuration. \<open>None\<close> goes on to the wait.
\<close>

definition rb_acquire_start ::
  "bool \<Rightarrow> int \<Rightarrow> string \<Rightarrow> int \<Rightarrow> InstanceAcquireRequest \<Rightarrow> RoundRobinScheduler \<Rightarrow>
   (sched_error + InstanceAllocation) option \<times> RoundRobinScheduler" where
  "rb_acquire_start wiseCloud ms uuid expected insAcqReq rs =
     (if aq_DesignateInstanceID insAcqReq \<noteq> [] then (Some (acquireInstanceDesignateInstanceID ms uuid insAcqReq rs), rs)
      else
        let rs1 = (if expected \<le> 0
                   then (rb_recordColdStartTrace (aq_TraceID insAcqReq) (aq_TraceParent insAcqReq) rs)
                          \<lparr>rb_triggers := rb_triggers rs @ [0]\<rparr>
                   else rs)
        in if wiseCloud \<and> \<not> rb_isReserve rs then (Some (Inl ErrNoInsAvailable), rs1) else (None, rs1))"

text \<open>
  The wait: at poll \<open>i\<close> the scheduler has \<open>fst (seen i)\<close> instances and the scaler expects \<open>snd (seen i)\<close>. The result is
  the number of sleeps.
\<close>

abbreviation (input) checkScalingInterval :: duration where "checkScalingInterval \<equiv> 50 * millisecond"

function rb_wait :: "duration \<Rightarrow> (nat \<Rightarrow> int \<times> int) \<Rightarrow> duration \<Rightarrow> nat \<Rightarrow> nat" where
  "rb_wait timeout seen checkTime i =
     (if checkTime > timeout then i
      else if fst (seen i) > 0 \<or> fst (seen i) \<ge> snd (seen i) then i
      else rb_wait timeout seen (checkTime + checkScalingInterval) (Suc i))"
  by auto
termination by (relation "measure (\<lambda>(timeout, seen, checkTime, i). nat (timeout - checkTime + 1))") auto

declare rb_wait.simps [simp del]

definition rb_acquire_end ::
  "int \<Rightarrow> string \<Rightarrow> RoundRobinScheduler \<Rightarrow> (sched_error + InstanceAllocation) \<times> RoundRobinScheduler" where
  "rb_acquire_end ms uuid rs =
     (case selectHealthyInstance rs of
        (None, rs') \<Rightarrow> (Inl ErrNoInsAvailable, rs')
      | (Some instance, rs') \<Rightarrow> (Inr (rb_allocation ms uuid instance), rs'))"

section \<open>Instances\<close>

definition rb_GetInstanceNumber :: "RoundRobinScheduler \<Rightarrow> nat" where
  "rb_GetInstanceNumber rs = length (rb_instanceQueue rs) + fcard (fmdom (rb_subHealthInstance rs))"

definition rb_CheckInstanceExist :: "SchedInstance \<Rightarrow> RoundRobinScheduler \<Rightarrow> bool" where
  "rb_CheckInstanceExist instance rs \<longleftrightarrow>
     getSubHealthyInstance (in_InstanceID instance) rs \<noteq> None \<or> getHealthyInstance (in_InstanceID instance) rs \<noteq> None"

definition publish_total :: "int \<Rightarrow> RoundRobinScheduler \<Rightarrow> RoundRobinScheduler" where
  "publish_total n rs = rs\<lparr>rb_totals := rb_totals rs @ [n]\<rparr>"

definition rb_AddInstance :: "SchedInstance \<Rightarrow> RoundRobinScheduler \<Rightarrow> sched_error option \<times> RoundRobinScheduler" where
  "rb_AddInstance instance rs =
     (if rb_CheckInstanceExist instance rs then (Some ErrInsAlreadyExist, rs)
      else if in_Code instance = statusSubHealth
      then (None, publish_total (in_ConcurrentNum instance) (addSubHealthyInstance instance rs))
      else if in_Code instance = statusRunning
      then (None, publish_total (in_ConcurrentNum instance) (addHealthyInstance instance rs))
      else (Some ErrInternal, rs))"

definition rb_PopInstance :: "sub_order \<Rightarrow> RoundRobinScheduler \<Rightarrow> SchedInstance option \<times> RoundRobinScheduler" where
  "rb_PopInstance ord rs =
     (case (case popSubHealthyInstance ord rs of (Some i, rs1) \<Rightarrow> (Some i, rs1) | (None, rs1) \<Rightarrow> popHealthyInstance rs1) of
        (None, rs') \<Rightarrow> (None, rs')
      | (Some instance, rs') \<Rightarrow> (Some instance, publish_total (- in_ConcurrentNum instance) rs'))"

definition rb_DelInstance :: "SchedInstance \<Rightarrow> RoundRobinScheduler \<Rightarrow> sched_error option \<times> RoundRobinScheduler" where
  "rb_DelInstance instance rs =
     (case getSubHealthyInstance (in_InstanceID instance) rs of
        Some inQueIns \<Rightarrow>
          (None, publish_total (- in_ConcurrentNum inQueIns) (delSubHealthyInstance (in_InstanceID instance) rs))
      | None \<Rightarrow>
          (case getHealthyInstance (in_InstanceID instance) rs of
             None \<Rightarrow> (Some ErrInsNotExist, rs)
           | Some inQueIns \<Rightarrow>
               (None, publish_total (- in_ConcurrentNum inQueIns) (delHealthyInstance (in_InstanceID instance) rs))))"

definition rb_HandleFuncSpecUpdate :: "SchedFuncSpec option \<Rightarrow> RoundRobinScheduler \<Rightarrow> RoundRobinScheduler" where
  "rb_HandleFuncSpecUpdate funcSpec rs =
     (let priorityAZ = (case funcSpec of None \<Rightarrow> [] | Some fs \<Rightarrow> fs_PriorityAZ fs)
      in if rb_priorityAZ rs = priorityAZ then rs
         else refreshPriorityCountersLocked (rs\<lparr>rb_priorityAZ := priorityAZ\<rparr>))"

text \<open>
  \<^verbatim>\<open>HandleInstanceUpdate\<close> looks in one lock section whether it has the instance, healthy or sub-healthy, and acts
  in another one. The signals to a new instance are not modelled.
\<close>

definition rb_update_look :: "SchedInstance \<Rightarrow> RoundRobinScheduler \<Rightarrow> bool \<times> bool" where
  "rb_update_look instance rs =
     (getHealthyInstance (in_InstanceID instance) rs \<noteq> None, getSubHealthyInstance (in_InstanceID instance) rs \<noteq> None)"

definition rb_update_act :: "bool \<times> bool \<Rightarrow> SchedInstance \<Rightarrow> RoundRobinScheduler \<Rightarrow> RoundRobinScheduler" where
  "rb_update_act seen instance rs =
     (if in_Code instance = statusSubHealth then
        if seen = (True, False) then addSubHealthyInstance instance (delHealthyInstance (in_InstanceID instance) rs)
        else if seen = (False, False) then snd (rb_AddInstance instance rs)
        else rs
      else if in_Code instance = statusRunning then
        if seen = (False, True) then addHealthyInstance instance (delSubHealthyInstance (in_InstanceID instance) rs)
        else if seen = (False, False) then snd (rb_AddInstance instance rs)
        else rs
      else rs)"

definition rb_HandleInstanceUpdate :: "SchedInstance \<Rightarrow> RoundRobinScheduler \<Rightarrow> RoundRobinScheduler" where
  "rb_HandleInstanceUpdate instance rs = rb_update_act (rb_update_look instance rs) instance rs"

definition rb_TriggerScale :: "int \<Rightarrow> RoundRobinScheduler \<Rightarrow> RoundRobinScheduler" where
  "rb_TriggerScale minConcurrency rs = rs\<lparr>rb_triggers := rb_triggers rs @ [minConcurrency]\<rparr>"


section \<open>What the operations keep\<close>

text \<open>
  Instances are listed once, with their own ID, healthy or sub-healthy but not both; the counters count the
  instances of the preferred zone; the totals told to the scaler add up to the threads of the instances.
\<close>

definition zone_weight :: "RoundRobinScheduler \<Rightarrow> string \<Rightarrow> SchedInstance \<Rightarrow> int" where
  "zone_weight rs = (\<lambda>_ i. if isPriorityAZInstance rs i then 1 else 0)"

definition rb_ok :: "RoundRobinScheduler \<Rightarrow> bool" where
  "rb_ok rs \<longleftrightarrow>
     distinct (map in_InstanceID (rb_instanceQueue rs)) \<and>
     (\<forall>i \<in> set (rb_instanceQueue rs). fmlookup (rb_subHealthInstance rs) (in_InstanceID i) = None) \<and>
     (\<forall>k i. fmlookup (rb_subHealthInstance rs) k = Some i \<longrightarrow> in_InstanceID i = k) \<and>
     rb_priorityHealthyCount rs = int (length (filter (isPriorityAZInstance rs) (rb_instanceQueue rs))) \<and>
     rb_prioritySubHealthCnt rs = fmsum (zone_weight rs) (rb_subHealthInstance rs) \<and>
     sum_list (rb_totals rs) = (\<Sum>i\<leftarrow>rb_instanceQueue rs. in_ConcurrentNum i) + fmsum (\<lambda>_. in_ConcurrentNum) (rb_subHealthInstance rs)"

lemma getHealthy_None: "getHealthyInstance k rs = None \<longleftrightarrow> k \<notin> in_InstanceID ` set (rb_instanceQueue rs)"
  by (auto simp: getHealthyInstance_def find_None_iff)

lemma getHealthy_Some: "getHealthyInstance k rs = Some i \<Longrightarrow> i \<in> set (rb_instanceQueue rs) \<and> in_InstanceID i = k"
  by (auto simp: getHealthyInstance_def find_Some_iff)

lemma remove_id_split:
  assumes "distinct (map in_InstanceID q)" and "i \<in> set q" and "in_InstanceID i = k"
  shows "\<exists>us vs. q = us @ i # vs \<and> remove_id k q = us @ vs"
  using assms
proof (induction q)
  case (Cons x q)
  show ?case
  proof (cases "in_InstanceID x = k")
    case True
    then have "x = i" using Cons.prems by (auto simp: rev_image_eqI)
    then show ?thesis using True by (intro exI [of _ "[]"] exI [of _ q]) simp
  next
    case False
    then obtain us vs where "q = us @ i # vs" "remove_id k q = us @ vs" using Cons by auto
    then show ?thesis using False by (intro exI [of _ "x # us"] exI [of _ vs]) simp
  qed
qed simp

lemma pop_last_split: "pop_last P q = Some (x, rest) \<Longrightarrow> P x \<and> (\<exists>us vs. q = us @ x # vs \<and> rest = us @ vs)"
proof (induction q arbitrary: rest)
  case (Cons i q)
  show ?case
  proof (cases "pop_last P q")
    case None
    then show ?thesis using Cons.prems by (auto split: if_splits intro: exI [of _ "[]"])
  next
    case (Some yr)
    obtain y r where yr: "yr = (y, r)" by fastforce
    then have "y = x" "rest = i # r" using Cons.prems Some by simp_all
    with Cons.IH [of r] Some yr obtain us vs where "P x" "q = us @ x # vs" "r = us @ vs" by auto
    then show ?thesis using \<open>rest = i # r\<close> by (intro conjI exI [of _ "i # us"] exI [of _ vs]) simp_all
  qed
qed simp

text \<open>Taking an instance out of the list, adding one, and the same for the map.\<close>

lemma zone_eq: "isPriorityAZInstance rs = (\<lambda>i. rb_priorityAZ rs \<noteq> [] \<and> in_AZ i = rb_priorityAZ rs)"
  by (rule ext) (simp add: isPriorityAZInstance_def)

lemmas rb_defs = rb_ok_def publish_total_def zone_eq zone_weight_def getHealthy_None getSubHealthyInstance_def

lemma rb_ok_take:
  assumes "rb_ok rs" and "rb_instanceQueue rs = us @ x # vs"
  shows "rb_ok (publish_total (- in_ConcurrentNum x) (rs\<lparr>rb_instanceQueue := us @ vs,
    rb_priorityHealthyCount := rb_priorityHealthyCount rs - (if isPriorityAZInstance rs x then 1 else 0)\<rparr>))"
  using assms by (auto simp: rb_defs)

lemma rb_ok_put:
  assumes "rb_ok rs" and "\<not> rb_CheckInstanceExist x rs"
  shows "rb_ok (publish_total (in_ConcurrentNum x) (addHealthyInstance x rs))"
  using assms
  by (auto simp: rb_defs addHealthyInstance_def rb_CheckInstanceExist_def)

lemma rb_ok_take_sub:
  assumes "rb_ok rs" and "fmlookup (rb_subHealthInstance rs) k = Some x"
  shows "rb_ok (publish_total (- in_ConcurrentNum x) (rs\<lparr>rb_subHealthInstance := fmdrop k (rb_subHealthInstance rs),
    rb_prioritySubHealthCnt := rb_prioritySubHealthCnt rs - (if isPriorityAZInstance rs x then 1 else 0)\<rparr>))"
  using assms
  by (auto simp: rb_defs fmsum_simps)

lemma rb_ok_put_sub:
  assumes "rb_ok rs" and "\<not> rb_CheckInstanceExist x rs"
  shows "rb_ok (publish_total (in_ConcurrentNum x) (addSubHealthyInstance x rs))"
  using assms
  by (auto simp: rb_defs addSubHealthyInstance_def rb_CheckInstanceExist_def fmsum_simps split: if_splits)


section \<open>Reachable states\<close>

text \<open>
  A step is one operation. \<^verbatim>\<open>HandleInstanceUpdate\<close> is one step here, and an update keeps the concurrency of an instance it
  knows.
\<close>

definition update_keeps :: "SchedInstance \<Rightarrow> RoundRobinScheduler \<Rightarrow> bool" where
  "update_keeps instance rs \<longleftrightarrow>
     (\<forall>i. getHealthyInstance (in_InstanceID instance) rs = Some i \<or> getSubHealthyInstance (in_InstanceID instance) rs = Some i \<longrightarrow>
        in_ConcurrentNum i = in_ConcurrentNum instance)"

inductive rb_step :: "RoundRobinScheduler \<Rightarrow> RoundRobinScheduler \<Rightarrow> bool" where
  acquire_start: "rb_acquire_start wiseCloud ms uuid expected req rs = (r, rs') \<Longrightarrow> rb_step rs rs'"
| acquire_end: "rb_acquire_end ms uuid rs = (r, rs') \<Longrightarrow> rb_step rs rs'"
| pop_trace: "rb_step rs (snd (rb_PopColdStartTrace rs))"
| add: "rb_step rs (snd (rb_AddInstance instance rs))"
| del: "rb_step rs (snd (rb_DelInstance instance rs))"
| pop: "range_order ord \<Longrightarrow> rb_step rs (snd (rb_PopInstance ord rs))"
| update: "update_keeps instance rs \<Longrightarrow> rb_step rs (rb_HandleInstanceUpdate instance rs)"
| spec: "rb_step rs (rb_HandleFuncSpecUpdate funcSpec rs)"
| trigger: "rb_step rs (rb_TriggerScale n rs)"

abbreviation rb_reach :: "bool \<Rightarrow> duration \<Rightarrow> RoundRobinScheduler \<Rightarrow> bool" where
  "rb_reach isReserve timeout \<equiv> rb_step\<^sup>*\<^sup>* (NewRoundRobinScheduler isReserve timeout)"

text \<open>Fields that no invariant reads.\<close>

lemma rb_ok_frame [simp]:
  "rb_ok (rs\<lparr>rb_curIndex := n\<rparr>) = rb_ok rs" "rb_ok (rs\<lparr>rb_triggers := ts\<rparr>) = rb_ok rs"
  "rb_ok (rs\<lparr>rb_coldStartTraceQueue := cs\<rparr>) = rb_ok rs"
  by (auto simp: rb_defs)

lemma rb_ok_add: "rb_ok rs \<Longrightarrow> rb_ok (snd (rb_AddInstance instance rs))"
  by (auto simp: rb_AddInstance_def intro: rb_ok_put rb_ok_put_sub)

lemma delHealthy_split:
  assumes "rb_ok rs" and "getHealthyInstance k rs = Some i"
  obtains us vs where "rb_instanceQueue rs = us @ i # vs"
    "delHealthyInstance k rs = rs\<lparr>rb_instanceQueue := us @ vs,
       rb_priorityHealthyCount := rb_priorityHealthyCount rs - (if isPriorityAZInstance rs i then 1 else 0)\<rparr>"
proof -
  have "i \<in> set (rb_instanceQueue rs)" "in_InstanceID i = k" using getHealthy_Some [OF assms(2)] by simp_all
  with remove_id_split [of "rb_instanceQueue rs" i k] assms(1) obtain us vs where
    "rb_instanceQueue rs = us @ i # vs" "remove_id k (rb_instanceQueue rs) = us @ vs" by (auto simp: rb_ok_def)
  then show thesis using assms(2) by (intro that [of us vs]) (simp_all add: delHealthyInstance_def)
qed

lemma rb_ok_del: "rb_ok rs \<Longrightarrow> rb_ok (snd (rb_DelInstance instance rs))"
proof (cases "getSubHealthyInstance (in_InstanceID instance) rs")
  case (Some i)
  assume "rb_ok rs"
  then show ?thesis using Some rb_ok_take_sub [of rs "in_InstanceID instance" i]
    by (simp add: rb_DelInstance_def delSubHealthyInstance_def getSubHealthyInstance_def)
next
  case None
  assume ok: "rb_ok rs"
  show ?thesis
  proof (cases "getHealthyInstance (in_InstanceID instance) rs")
    case (Some i)
    obtain us vs where "rb_instanceQueue rs = us @ i # vs"
      "delHealthyInstance (in_InstanceID instance) rs = rs\<lparr>rb_instanceQueue := us @ vs,
         rb_priorityHealthyCount := rb_priorityHealthyCount rs - (if isPriorityAZInstance rs i then 1 else 0)\<rparr>"
      by (rule delHealthy_split [OF ok Some])
    then show ?thesis using None Some rb_ok_take [OF ok, of us i vs] by (simp add: rb_DelInstance_def)
  qed (use ok None in \<open>simp add: rb_DelInstance_def\<close>)
qed

lemma first_sub_Some:
  assumes "first_sub ord P rs = Some (k, i)"
  shows "fmlookup (rb_subHealthInstance rs) k = Some i \<and> P i"
  using assms by (auto simp: first_sub_def find_Some_iff dest!: nth_mem) (auto simp: List.map_filter_def)

lemma rb_ok_pop_sub:
  assumes "rb_ok rs" and "popSubHealthyInstance ord rs = (Some i, rs')"
  shows "rb_ok (publish_total (- in_ConcurrentNum i) rs')"
proof -
  obtain k where k: "fmlookup (rb_subHealthInstance rs) k = Some i"
      "rs' = rs\<lparr>rb_subHealthInstance := fmdrop k (rb_subHealthInstance rs),
        rb_prioritySubHealthCnt := rb_prioritySubHealthCnt rs - (if isPriorityAZInstance rs i then 1 else 0)\<rparr>"
    using assms(2) by (auto simp: popSubHealthyInstance_def dest!: first_sub_Some split: option.splits if_splits)
  then show ?thesis using rb_ok_take_sub [OF assms(1) k(1)] by simp
qed

lemma pop_sub_None: "popSubHealthyInstance ord rs = (None, rs') \<Longrightarrow> rs' = rs"
  by (auto simp: popSubHealthyInstance_def split: option.splits if_splits)

lemma rb_ok_pop_priority:
  assumes "rb_ok rs" and "popHealthyInstanceByPriority b rs = (Some i, rs')"
  shows "rb_ok (publish_total (- in_ConcurrentNum i) rs')"
proof -
  obtain rest where p: "pop_last (\<lambda>i. isPriorityAZInstance rs i = b) (rb_instanceQueue rs) = Some (i, rest)"
      "rs' = rs\<lparr>rb_instanceQueue := rest, rb_priorityHealthyCount := rb_priorityHealthyCount rs - (if b then 1 else 0)\<rparr>"
    using assms(2) by (auto simp: popHealthyInstanceByPriority_def split: option.splits)
  from pop_last_split [OF p(1)] obtain us vs where
    "isPriorityAZInstance rs i = b" "rb_instanceQueue rs = us @ i # vs" "rest = us @ vs" by blast
  then show ?thesis using rb_ok_take [OF assms(1), of us i vs] p(2) by simp
qed

lemma pop_priority_None: "popHealthyInstanceByPriority b rs = (None, rs') \<Longrightarrow> rs' = rs"
  by (auto simp: popHealthyInstanceByPriority_def split: option.splits)

lemma rb_ok_pop:
  assumes "rb_ok rs"
  shows "rb_ok (snd (rb_PopInstance ord rs))"
  using assms
  by (auto simp: rb_PopInstance_def popHealthyInstance_def split: prod.splits option.splits
      dest: pop_sub_None pop_priority_None intro: rb_ok_pop_sub rb_ok_pop_priority)


lemma rb_ok_totals: "rb_ok (rs\<lparr>rb_totals := xs\<rparr>) \<longleftrightarrow> rb_ok rs"
  if "sum_list xs = sum_list (rb_totals rs)"
  using that by (auto simp: rb_defs)

text \<open>A change between healthy and sub-healthy is a removal and an insertion that together publish nothing.\<close>

lemma rb_ok_move:
  assumes "rb_ok (publish_total (- n) rs)" and "rb_ok (publish_total (- n) rs) \<Longrightarrow> rb_ok (publish_total n (f (publish_total (- n) rs)))"
    and "\<And>xs. f (rs\<lparr>rb_totals := xs\<rparr>) = (f rs)\<lparr>rb_totals := xs\<rparr>" and "rb_totals (f rs) = rb_totals rs"
  shows "rb_ok (f rs)"
proof -
  have "publish_total n (f (publish_total (- n) rs)) = (f rs)\<lparr>rb_totals := rb_totals rs @ [- n, n]\<rparr>"
    using assms(3) [of "rb_totals rs @ [- n]"] by (simp add: publish_total_def)
  then show ?thesis using assms rb_ok_totals [of "rb_totals rs @ [- n, n]" "f rs"] by simp
qed

lemma add_frame:
  "addHealthyInstance i (rs\<lparr>rb_totals := xs\<rparr>) = (addHealthyInstance i rs)\<lparr>rb_totals := xs\<rparr>"
  "addSubHealthyInstance i (rs\<lparr>rb_totals := xs\<rparr>) = (addSubHealthyInstance i rs)\<lparr>rb_totals := xs\<rparr>"
  "rb_totals (addHealthyInstance i rs) = rb_totals rs" "rb_totals (addSubHealthyInstance i rs) = rb_totals rs"
  by (simp_all add: addHealthyInstance_def addSubHealthyInstance_def zone_eq)

lemma rb_ok_to_sub:
  assumes ok: "rb_ok rs" and h: "getHealthyInstance (in_InstanceID x) rs = Some i" and n: "in_ConcurrentNum i = in_ConcurrentNum x"
  shows "rb_ok (addSubHealthyInstance x (delHealthyInstance (in_InstanceID x) rs))"
proof -
  obtain us vs where s: "rb_instanceQueue rs = us @ i # vs"
      "delHealthyInstance (in_InstanceID x) rs = rs\<lparr>rb_instanceQueue := us @ vs,
         rb_priorityHealthyCount := rb_priorityHealthyCount rs - (if isPriorityAZInstance rs i then 1 else 0)\<rparr>"
    by (rule delHealthy_split [OF ok h])
  let ?d = "delHealthyInstance (in_InstanceID x) rs"
  have "in_InstanceID i = in_InstanceID x" using getHealthy_Some [OF h] by simp
  then have "\<not> rb_CheckInstanceExist x (publish_total k ?d)" for k
    using ok s by (auto simp: rb_CheckInstanceExist_def rb_defs)
  moreover have "rb_ok (publish_total (- in_ConcurrentNum x) ?d)" using rb_ok_take [OF ok s(1)] s(2) n by simp
  ultimately show ?thesis by (intro rb_ok_move [where n = "in_ConcurrentNum x" and f = "addSubHealthyInstance x"]) (simp_all add: add_frame rb_ok_put_sub)
qed

lemma rb_ok_to_healthy:
  assumes ok: "rb_ok rs" and h: "getSubHealthyInstance (in_InstanceID x) rs = Some i" and n: "in_ConcurrentNum i = in_ConcurrentNum x"
  shows "rb_ok (addHealthyInstance x (delSubHealthyInstance (in_InstanceID x) rs))"
proof -
  let ?d = "delSubHealthyInstance (in_InstanceID x) rs"
  have d: "?d = rs\<lparr>rb_subHealthInstance := fmdrop (in_InstanceID x) (rb_subHealthInstance rs),
      rb_prioritySubHealthCnt := rb_prioritySubHealthCnt rs - (if isPriorityAZInstance rs i then 1 else 0)\<rparr>"
    using h by (simp add: delSubHealthyInstance_def)
  have "\<not> rb_CheckInstanceExist x (publish_total k ?d)" for k
    using ok h unfolding d by (auto simp: rb_CheckInstanceExist_def rb_defs)
  moreover have "rb_ok (publish_total (- in_ConcurrentNum x) ?d)"
    using rb_ok_take_sub [OF ok, of "in_InstanceID x" i] h d n by (simp add: getSubHealthyInstance_def)
  ultimately show ?thesis by (intro rb_ok_move [where n = "in_ConcurrentNum x" and f = "addHealthyInstance x"]) (simp_all add: add_frame rb_ok_put)
qed

lemma rb_ok_update: "rb_ok rs \<Longrightarrow> update_keeps x rs \<Longrightarrow> rb_ok (rb_HandleInstanceUpdate x rs)"
  by (auto simp: rb_HandleInstanceUpdate_def rb_update_act_def rb_update_look_def update_keeps_def
      intro!: rb_ok_add rb_ok_to_sub rb_ok_to_healthy)

lemma rb_ok_spec: "rb_ok rs \<Longrightarrow> rb_ok (rb_HandleFuncSpecUpdate fs rs)"
  by (auto simp: rb_HandleFuncSpecUpdate_def refreshPriorityCountersLocked_def rb_defs Let_def)

lemma select_frame: "snd (selectHealthyInstance rs) = rs\<lparr>rb_curIndex := rb_curIndex (snd (selectHealthyInstance rs))\<rparr>"
  by (simp add: selectHealthyInstance_def Let_def)

lemma rb_ok_step: "rb_step rs rs' \<Longrightarrow> rb_ok rs \<Longrightarrow> rb_ok rs'"
proof (induction rule: rb_step.induct)
  case (acquire_end ms uuid rs r rs')
  then have "rs' = snd (selectHealthyInstance rs)" by (auto simp: rb_acquire_end_def split: prod.splits option.splits)
  then show ?case using acquire_end select_frame [of rs] by (metis rb_ok_frame(1))
qed (auto simp: rb_acquire_start_def rb_recordColdStartTrace_def rb_PopColdStartTrace_def rb_TriggerScale_def Let_def
    split: if_splits list.split intro: rb_ok_add rb_ok_del rb_ok_pop rb_ok_update rb_ok_spec)

lemma rb_ok_New: "rb_ok (NewRoundRobinScheduler isReserve timeout)"
  by (simp add: NewRoundRobinScheduler_def rb_defs)

lemma rb_reach_ok: "rb_reach isReserve timeout rs \<Longrightarrow> rb_ok rs"
  by (induction rule: rtranclp_induct) (auto intro: rb_ok_step rb_ok_New)


section \<open>Properties\<close>

text \<open>
  In every reachable state no instance is listed twice, the counters of the preferred zone are exact, and what the scaler
  was told adds up to the threads of all instances, healthy and sub-healthy.
\<close>

theorem round_robin_accounts:
  assumes "rb_reach isReserve timeout rs"
  shows "distinct (map in_InstanceID (rb_instanceQueue rs)) \<and>
    rb_priorityHealthyCount rs = int (length (filter (isPriorityAZInstance rs) (rb_instanceQueue rs))) \<and>
    sum_list (rb_totals rs) = (\<Sum>i\<leftarrow>rb_instanceQueue rs. in_ConcurrentNum i) + fmsum (\<lambda>_. in_ConcurrentNum) (rb_subHealthInstance rs)"
  using rb_reach_ok [OF assms] by (simp add: rb_ok_def)

text \<open>The turn that is due: the list from the current index on, restricted to the preferred zone when it has a healthy instance.\<close>

definition preferred :: "RoundRobinScheduler \<Rightarrow> SchedInstance \<Rightarrow> bool" where
  "preferred rs i \<longleftrightarrow> (\<exists>j \<in> set (rb_instanceQueue rs). isPriorityAZInstance rs j) \<longrightarrow> isPriorityAZInstance rs i"

definition due :: "RoundRobinScheduler \<Rightarrow> SchedInstance list" where
  "due rs = filter (preferred rs) (rotate (rb_curIndex rs) (rb_instanceQueue rs))"

fun selects :: "nat \<Rightarrow> RoundRobinScheduler \<Rightarrow> SchedInstance option list" where
  "selects 0 rs = []"
| "selects (Suc n) rs = (case selectHealthyInstance rs of (r, rs') \<Rightarrow> r # selects n rs')"

lemma find_first:
  assumes "xs = us @ x # vs" and "P x" and "\<And>u. u \<in> set us \<Longrightarrow> \<not> P u"
  shows "find (\<lambda>j. P (xs ! j)) [0..<length xs] = Some (length us)"
proof -
  have "\<not> P (xs ! j)" if "j < length us" for j using assms that by (simp add: nth_append)
  moreover have "P (xs ! length us)" using assms by simp
  moreover have "length us < length xs" using assms(1) by simp
  ultimately show ?thesis by (auto simp: find_Some_iff intro!: exI [of _ "length us"])
qed

lemma select_turn:
  assumes ok: "rb_ok rs" and ne: "rb_instanceQueue rs \<noteq> []"
  shows "\<exists>x rest. due rs = x # rest \<and> fst (selectHealthyInstance rs) = Some x \<and> due (snd (selectHealthyInstance rs)) = rest @ [x]"
proof -
  let ?q = "rb_instanceQueue rs" and ?c = "rb_curIndex rs"
  let ?n = "length ?q" and ?r = "rotate ?c ?q" and ?P = "preferred rs"
  have "\<exists>x \<in> set ?r. ?P x" using ne by (cases ?q) (auto simp: preferred_def)
  then obtain us x vs where sp: "?r = us @ x # vs" "?P x" "\<And>u. u \<in> set us \<Longrightarrow> \<not> ?P u"
    by (metis split_list_first_prop)
  have len: "?n = length us + 1 + length vs" using arg_cong [OF sp(1), of length] by simp
  have at: "?r ! j = ?q ! ((?c mod ?n + j) mod ?n)" if "j < ?n" for j
    using that by (simp add: nth_rotate mod_add_left_eq)
  let ?i = "(?c mod ?n + length us) mod ?n"
  have x: "?q ! ?i = x" using at [of "length us"] sp(1) len by (simp add: nth_append)
  have st: "(if ?c \<ge> ?n then ?c mod ?n else ?c) = ?c mod ?n" by simp
  have index: "selectHealthyInstance rs = (Some (?q ! ?i), rs\<lparr>rb_curIndex := (?i + 1) mod ?n\<rparr>)"
  proof (cases "\<exists>j \<in> set ?q. isPriorityAZInstance rs j")
    case True
    then have eq: "?P = isPriorityAZInstance rs" by (auto simp: preferred_def fun_eq_iff)
    have "rb_priorityHealthyCount rs > 0" "rb_priorityAZ rs \<noteq> []"
      using True ok by (auto simp: rb_ok_def isPriorityAZInstance_def filter_empty_conv)
    moreover have "find (\<lambda>j. ?P (?q ! ((?c mod ?n + j) mod ?n))) [0..<?n] = find (\<lambda>j. ?P (?r ! j)) [0..<length ?r]"
      by (rule find_cong) (simp_all add: at)
    then have "find (\<lambda>j. isPriorityAZInstance rs (?q ! ((?c mod ?n + j) mod ?n))) [0..<?n] = Some (length us)"
      using find_first [of ?r us x vs ?P] sp unfolding eq by simp
    ultimately show ?thesis using ne unfolding selectHealthyInstance_def Let_def st by simp
  next
    case False
    then have all: "?P u" for u by (simp add: preferred_def)
    then have "us = []" using sp(3) by (cases us) auto
    moreover have "\<not> (rb_priorityAZ rs \<noteq> [] \<and> rb_priorityHealthyCount rs > 0)"
      using False ok by (simp add: rb_ok_def filter_empty_conv)
    ultimately show ?thesis using ne by (auto simp: selectHealthyInstance_def Let_def)
  qed
  have "rotate ((?i + 1) mod ?n) ?q = rotate (?c + (length us + 1)) ?q"
    by (subst (1 2) rotate_conv_mod) (simp add: mod_simps add.assoc)
  also have "\<dots> = rotate (length (us @ [x])) ((us @ [x]) @ vs)"
    using sp(1) by (simp add: rotate_rotate [symmetric] add.commute del: rotate_rotate)
  also have "\<dots> = vs @ us @ [x]" using rotate_append [of "us @ [x]" vs] by simp
  finally have rot: "rotate ((?i + 1) mod ?n) ?q = vs @ us @ [x]" .
  have pr: "preferred (rs\<lparr>rb_curIndex := m\<rparr>) = ?P" for m by (auto simp: preferred_def zone_eq fun_eq_iff)
  have none: "filter ?P us = []" using sp(3) by (simp add: filter_empty_conv)
  have "due rs = x # filter ?P vs" using sp none by (simp add: due_def)
  moreover have "due (snd (selectHealthyInstance rs)) = filter ?P vs @ [x]"
    using index rot pr none sp(2) by (simp add: due_def)
  ultimately show ?thesis using index x by (intro exI [of _ x] exI [of _ "filter ?P vs"]) simp
qed


text \<open>
  C33: Turns are fair: as long as the instances stay the same, a round of requests is given each due instance exactly
  once, in the order of the list from the current position; with healthy instances in the preferred zone, these and no others.
\<close>

theorem round_robin_fair:
  assumes "rb_reach isReserve timeout rs"
  shows "selects (length (due rs)) rs = map Some (due rs) \<and> distinct (due rs) \<and>
    set (due rs) = {i \<in> set (rb_instanceQueue rs). (\<exists>j \<in> set (rb_instanceQueue rs). isPriorityAZInstance rs j) \<longrightarrow> isPriorityAZInstance rs i}"
proof -
  have ok: "rb_ok rs" by (rule rb_reach_ok [OF assms])
  have turns: "due rs' = xs @ ys \<Longrightarrow> rb_ok rs' \<Longrightarrow> selects (length xs) rs' = map Some xs" for rs' xs ys
  proof (induction xs arbitrary: rs' ys)
    case (Cons x xs)
    then have "rb_instanceQueue rs' \<noteq> []" by (auto simp: due_def)
    from select_turn [OF Cons.prems(2) this] Cons.prems(1) have
      "fst (selectHealthyInstance rs') = Some x" "due (snd (selectHealthyInstance rs')) = xs @ (ys @ [x])" by auto
    moreover have "rb_ok (snd (selectHealthyInstance rs'))" using Cons.prems(2) select_frame [of rs'] by (metis rb_ok_frame(1))
    ultimately show ?case using Cons.IH by (simp add: case_prod_unfold)
  qed simp
  have "distinct (rb_instanceQueue rs)" using ok by (auto simp: rb_ok_def distinct_map)
  then have "distinct (due rs)" by (simp add: due_def)
  moreover have "selects (length (due rs)) rs = map Some (due rs)" using turns [of rs "due rs" "[]"] ok by simp
  ultimately show ?thesis by (auto simp: due_def preferred_def)
qed

text \<open>
  The wait for a first instance ends: after at most \<open>timeout / 50ms + 1\<close> sleeps, and before that as soon as a poll sees an
  instance or no more instances expected than there are.
\<close>

lemma rb_wait_spec:
  assumes "0 \<le> timeout - checkTime + checkScalingInterval"
  shows "i \<le> rb_wait timeout seen checkTime i \<and>
    int (rb_wait timeout seen checkTime i - i) * checkScalingInterval \<le> timeout - checkTime + checkScalingInterval \<and>
    (\<forall>j. i \<le> j \<and> j < rb_wait timeout seen checkTime i \<longrightarrow> fst (seen j) \<le> 0 \<and> fst (seen j) < snd (seen j))"
  using assms
proof (induction timeout seen checkTime i rule: rb_wait.induct)
  case (1 timeout seen checkTime i)
  show ?case
  proof (cases "checkTime > timeout \<or> fst (seen i) > 0 \<or> fst (seen i) \<ge> snd (seen i)")
    case True
    then have "rb_wait timeout seen checkTime i = i" by (subst rb_wait.simps) auto
    then show ?thesis using 1(2) by auto
  next
    case False
    then have w: "rb_wait timeout seen checkTime i = rb_wait timeout seen (checkTime + checkScalingInterval) (Suc i)"
      by (subst rb_wait.simps) auto
    have "0 \<le> timeout - (checkTime + checkScalingInterval) + checkScalingInterval" using False by simp
    note ih = 1(1) [rotated 2, OF this]
    let ?w = "rb_wait timeout seen (checkTime + checkScalingInterval) (Suc i)"
    have "\<not> checkTime > timeout" "\<not> (fst (seen i) > 0 \<or> fst (seen i) \<ge> snd (seen i))" using False by simp_all
    note ih = ih [OF this]
    have h: "Suc i \<le> ?w"
      "\<And>j. Suc i \<le> j \<Longrightarrow> j < ?w \<Longrightarrow> fst (seen j) \<le> 0 \<and> fst (seen j) < snd (seen j)"
      using ih by blast+
    have "int (?w - i) = int (?w - Suc i) + 1" using h(1) by simp
    with ih have "int (?w - i) * checkScalingInterval \<le> timeout - checkTime + checkScalingInterval" by linarith
    moreover have "fst (seen j) \<le> 0 \<and> fst (seen j) < snd (seen j)" if "i \<le> j" "j < ?w" for j
      using that h(2) [of j] False by (cases "j = i") (simp_all add: not_less)
    ultimately show ?thesis unfolding w using h(1) by simp
  qed
qed

theorem round_robin_wait_ends:
  assumes "0 \<le> timeout"
  shows "int (rb_wait timeout seen 0 0) * checkScalingInterval \<le> timeout + checkScalingInterval \<and>
    (\<forall>j < rb_wait timeout seen 0 0. fst (seen j) \<le> 0 \<and> fst (seen j) < snd (seen j))"
  using rb_wait_spec [of timeout 0 0 seen] assms by simp


section \<open>Witnesses\<close>

definition rb_ins :: "string \<Rightarrow> string \<Rightarrow> int \<Rightarrow> SchedInstance" where
  "rb_ins instanceID az code =
     \<lparr>in_InstanceID = instanceID, in_FuncKey = ''f'', in_ConcurrentNum = 2, in_Code = code, in_InstanceIP = [], in_InstancePort = [],
      in_NodeIP = [], in_NodePort = [], in_FuncSig = [], in_FunctionProxyID = [], in_RouteAddress = [], in_AZ = az,
      in_SessionCtxID = None, in_CreateSchedulerID = [], in_Permanent = False\<rparr>"

definition rb_two :: RoundRobinScheduler where
  "rb_two = snd (rb_AddInstance (rb_ins ''b'' ''z2'' statusRunning)
     (snd (rb_AddInstance (rb_ins ''a'' ''z1'' statusRunning) (NewRoundRobinScheduler True 0))))"

lemma rb_two_reach: "rb_reach True 0 rb_two"
  unfolding rb_two_def by (meson rb_step.add rtranclp.rtrancl_into_rtrancl rtranclp.rtrancl_refl)

theorem round_robin_accounts_witness: "sum_list (rb_totals rb_two) = 4"
proof -
  have "map in_ConcurrentNum (rb_instanceQueue rb_two) = [2, 2]" "rb_subHealthInstance rb_two = fmempty" by code_simp+
  with round_robin_accounts [OF rb_two_reach] show ?thesis by simp
qed

theorem round_robin_fair_witness:
  "map (map_option in_InstanceID) (selects 2 rb_two) = [Some ''a'', Some ''b'']"
proof -
  have "map in_InstanceID (due rb_two) = [''a'', ''b'']" by code_simp
  moreover from this have "length (due rb_two) = 2" by (metis length_map length_Cons list.size(3) numeral_2_eq_2)
  ultimately show ?thesis using round_robin_fair [OF rb_two_reach] by (auto simp: map_eq_Cons_conv)
qed

theorem round_robin_wait_ends_witness: "rb_wait (100 * millisecond) (\<lambda>_. (0, 1)) 0 0 \<le> 3"
  using round_robin_wait_ends [of "100 * millisecond" "\<lambda>_. (0, 1)"] by simp

section \<open>An update and a removal that overlap\<close>

text \<open>
  A sub-healthy instance has recovered: the update looks and finds it sub-healthy. A scale-down takes it, and the
  scheduler has no instance left. Then the update acts on what it saw: the removed instance is healthy in the list and
  is given to the next request, while the scaler was told that there are no threads.
\<close>

theorem removed_instance_comes_back:
  "(let rs = snd (rb_AddInstance (rb_ins ''a'' [] statusSubHealth) (NewRoundRobinScheduler True 0));
        seen = rb_update_look (rb_ins ''a'' [] statusRunning) rs;
        popped = rb_PopInstance (\<lambda>_. [''a'']) rs;
        rs' = rb_update_act seen (rb_ins ''a'' [] statusRunning) (snd popped)
    in (map_option in_InstanceID (fst popped), sum_list (rb_totals rs'), map_option in_InstanceID (fst (selectHealthyInstance rs')))) =
   (Some ''a'', 0, Some ''a'')"
  by code_simp

end
