(* ===== verification/MicroServiceSched.thy ===== *)
theory MicroServiceSched
  imports ConcurrencyScheduler
begin

text \<open>
  The scheduler of micro services (\<^verbatim>\<open>scheduler/microservicescheduler/microservice_scheduler.go\<close>): a list of instances,
  chosen in turns or by the least number of open requests. Shown: requests are spread evenly, and the open requests are
  counted exactly.
\<close>

section \<open>State and operations\<close>

record microElement =
  me_instance :: SchedInstance
  me_requestCount :: int

record MicroServiceScheduler =
  ms_instanceQueue :: "microElement list"
  ms_SchedulePolicy :: string
  ms_curIndex :: nat

abbreviation (input) LeastConnections :: string where "LeastConnections \<equiv> ''LC''"
abbreviation (input) RoundRobin :: string where "RoundRobin \<equiv> ''RR''"

abbreviation me_ID :: "microElement \<Rightarrow> string" where "me_ID e \<equiv> in_InstanceID (me_instance e)"

definition NewMicroServiceScheduler :: "string \<Rightarrow> MicroServiceScheduler" where
  "NewMicroServiceScheduler schedulePolicy = \<lparr>ms_instanceQueue = [], ms_SchedulePolicy = schedulePolicy, ms_curIndex = 0\<rparr>"

definition ms_GetInstanceNumber :: "MicroServiceScheduler \<Rightarrow> nat" where
  "ms_GetInstanceNumber ms = length (ms_instanceQueue ms)"

definition ms_getInstance :: "string \<Rightarrow> MicroServiceScheduler \<Rightarrow> SchedInstance option" where
  "ms_getInstance targetID ms = map_option me_instance (find (\<lambda>e. me_ID e = targetID) (ms_instanceQueue ms))"

definition ms_CheckInstanceExist :: "SchedInstance \<Rightarrow> MicroServiceScheduler \<Rightarrow> bool" where
  "ms_CheckInstanceExist instance ms \<longleftrightarrow> ms_getInstance (in_InstanceID instance) ms \<noteq> None"

definition ms_addInstance :: "SchedInstance \<Rightarrow> MicroServiceScheduler \<Rightarrow> MicroServiceScheduler" where
  "ms_addInstance instance ms = ms\<lparr>ms_instanceQueue := ms_instanceQueue ms @ [\<lparr>me_instance = instance, me_requestCount = 0\<rparr>]\<rparr>"

fun remove_element :: "string \<Rightarrow> microElement list \<Rightarrow> microElement list" where
  "remove_element targetID [] = []"
| "remove_element targetID (e # es) = (if me_ID e = targetID then es else e # remove_element targetID es)"

definition ms_delInstance :: "string \<Rightarrow> MicroServiceScheduler \<Rightarrow> MicroServiceScheduler" where
  "ms_delInstance targetID ms = ms\<lparr>ms_instanceQueue := remove_element targetID (ms_instanceQueue ms)\<rparr>"

text \<open>
  \<^verbatim>\<open>selectInstanceWithLC\<close>: the first element with the least count below \<^verbatim>\<open>math.MaxInt32\<close>, by its index. The loop keeps the
  best count so far and where it was.
\<close>

fun lc_scan :: "nat \<Rightarrow> int \<Rightarrow> nat option \<Rightarrow> microElement list \<Rightarrow> nat option" where
  "lc_scan i chosenReqNum chosenIns [] = chosenIns"
| "lc_scan i chosenReqNum chosenIns (element # es) =
     (if me_requestCount element < chosenReqNum then lc_scan (Suc i) (me_requestCount element) (Some i) es
      else lc_scan (Suc i) chosenReqNum chosenIns es)"

definition selectInstanceWithLC :: "MicroServiceScheduler \<Rightarrow> (sched_error + SchedInstance) \<times> MicroServiceScheduler" where
  "selectInstanceWithLC ms =
     (let q = ms_instanceQueue ms
      in case lc_scan 0 (2 ^ 31 - 1) None q of
           None \<Rightarrow> (Inl ErrNoInsAvailable, ms)
         | Some i \<Rightarrow> (Inr (me_instance (q ! i)),
                      ms\<lparr>ms_instanceQueue := q[i := (q ! i)\<lparr>me_requestCount := me_requestCount (q ! i) + 1\<rparr>]\<rparr>))"

definition selectInstanceWithRR :: "MicroServiceScheduler \<Rightarrow> (sched_error + SchedInstance) \<times> MicroServiceScheduler" where
  "selectInstanceWithRR ms =
     (let n = length (ms_instanceQueue ms);
          curIndex = (if ms_curIndex ms \<ge> n then ms_curIndex ms mod n else ms_curIndex ms)
      in (Inr (me_instance (ms_instanceQueue ms ! curIndex)), ms\<lparr>ms_curIndex := curIndex + 1\<rparr>))"

text \<open>The random part of the allocation ID is a parameter.\<close>

definition ms_AcquireInstance :: "string \<Rightarrow> MicroServiceScheduler \<Rightarrow> (sched_error + InstanceAllocation) \<times> MicroServiceScheduler" where
  "ms_AcquireInstance random ms =
     (if ms_instanceQueue ms = [] then (Inl ErrNoInsAvailable, ms)
      else case (if ms_SchedulePolicy ms = LeastConnections then selectInstanceWithLC ms else selectInstanceWithRR ms) of
        (Inl err, ms') \<Rightarrow> (Inl err, ms')
      | (Inr instance, ms') \<Rightarrow>
          (Inr \<lparr>ia_Instance = instance, ia_AllocationID = in_InstanceID instance @ ''-'' @ random, ia_SessionID = [], ia_SessionCtx = None\<rparr>,
           ms'))"

fun release_first :: "string \<Rightarrow> microElement list \<Rightarrow> microElement list" where
  "release_first targetID [] = []"
| "release_first targetID (e # es) =
     (if me_ID e = targetID then (if me_requestCount e > 0 then e\<lparr>me_requestCount := me_requestCount e - 1\<rparr> else e) # es
      else e # release_first targetID es)"

definition ms_ReleaseInstance :: "InstanceAllocation \<Rightarrow> MicroServiceScheduler \<Rightarrow> MicroServiceScheduler" where
  "ms_ReleaseInstance thread ms =
     (if ms_SchedulePolicy ms = LeastConnections
      then ms\<lparr>ms_instanceQueue := release_first (in_InstanceID (ia_Instance thread)) (ms_instanceQueue ms)\<rparr> else ms)"

definition ms_AddInstance :: "SchedInstance \<Rightarrow> MicroServiceScheduler \<Rightarrow> sched_error option \<times> MicroServiceScheduler" where
  "ms_AddInstance instance ms =
     (if ms_CheckInstanceExist instance ms then (Some ErrInsAlreadyExist, ms)
      else if in_Code instance = statusRunning then (None, ms_addInstance instance ms)
      else (Some ErrInternal, ms))"

definition ms_PopInstance :: "MicroServiceScheduler \<Rightarrow> SchedInstance option \<times> MicroServiceScheduler" where
  "ms_PopInstance ms =
     (if ms_instanceQueue ms = [] then (None, ms)
      else (Some (me_instance (last (ms_instanceQueue ms))), ms\<lparr>ms_instanceQueue := butlast (ms_instanceQueue ms)\<rparr>))"

definition ms_DelInstance :: "SchedInstance \<Rightarrow> MicroServiceScheduler \<Rightarrow> sched_error option \<times> MicroServiceScheduler" where
  "ms_DelInstance instance ms =
     (if ms_CheckInstanceExist instance ms then (None, ms_delInstance (in_InstanceID instance) ms) else (Some ErrInsNotExist, ms))"

definition ms_HandleInstanceUpdate :: "SchedInstance \<Rightarrow> MicroServiceScheduler \<Rightarrow> MicroServiceScheduler" where
  "ms_HandleInstanceUpdate instance ms =
     (if in_Code instance = statusRunning then
        (if ms_CheckInstanceExist instance ms then ms else snd (ms_AddInstance instance ms))
      else if in_Code instance = statusEvicting then
        (if ms_CheckInstanceExist instance ms then snd (ms_DelInstance instance ms) else ms)
      else ms)"

section \<open>Least connections\<close>

lemma lc_scan_min:
  assumes "lc_scan (length us) best chosen vs = r" and "best = (case chosen of None \<Rightarrow> m | Some j \<Rightarrow> me_requestCount ((us @ vs) ! j))"
    and "\<And>j. chosen = Some j \<Longrightarrow> j < length us" and "\<And>u. u \<in> set us \<Longrightarrow> best \<le> me_requestCount u" and "best \<le> m"
  shows "case r of None \<Rightarrow> chosen = None \<and> (\<forall>e \<in> set vs. m \<le> me_requestCount e)
    | Some i \<Rightarrow> i < length (us @ vs) \<and> (\<forall>e \<in> set (us @ vs). me_requestCount ((us @ vs) ! i) \<le> me_requestCount e)"
  using assms
proof (induction vs arbitrary: us best chosen)
  case Nil
  then show ?case by (auto split: option.splits)
next
  case (Cons e vs)
  show ?case
  proof (cases "me_requestCount e < best")
    case True
    have "case r of None \<Rightarrow> Some (length us) = None \<and> (\<forall>e \<in> set vs. m \<le> me_requestCount e)
      | Some i \<Rightarrow> i < length ((us @ [e]) @ vs) \<and> (\<forall>x \<in> set ((us @ [e]) @ vs). me_requestCount (((us @ [e]) @ vs) ! i) \<le> me_requestCount x)"
      using Cons.prems True by (intro Cons.IH [of "us @ [e]" "me_requestCount e" "Some (length us)"]) (auto simp: nth_append intro: order.trans less_imp_le)
    then show ?thesis by (auto split: option.splits)
  next
    case False
    have "case r of None \<Rightarrow> chosen = None \<and> (\<forall>e \<in> set vs. m \<le> me_requestCount e)
      | Some i \<Rightarrow> i < length ((us @ [e]) @ vs) \<and> (\<forall>x \<in> set ((us @ [e]) @ vs). me_requestCount (((us @ [e]) @ vs) ! i) \<le> me_requestCount x)"
      using Cons.prems False by (intro Cons.IH [of "us @ [e]" best chosen]) (auto simp: nth_append split: option.splits)
    moreover have "chosen = None \<Longrightarrow> m \<le> me_requestCount e" using Cons.prems False by simp
    ultimately show ?thesis by (auto split: option.splits)
  qed
qed

text \<open>How far the open requests of two instances differ.\<close>

definition spread :: "MicroServiceScheduler \<Rightarrow> int \<Rightarrow> bool" where
  "spread ms d \<longleftrightarrow> (\<forall>a \<in> set (ms_instanceQueue ms). \<forall>b \<in> set (ms_instanceQueue ms). me_requestCount a \<le> me_requestCount b + d)"

definition open_requests :: "MicroServiceScheduler \<Rightarrow> int" where
  "open_requests ms = (\<Sum>e\<leftarrow>ms_instanceQueue ms. me_requestCount e)"

lemma selectLC:
  assumes "selectInstanceWithLC ms = (Inr x, ms')"
  obtains i where "i < length (ms_instanceQueue ms)" "x = me_instance (ms_instanceQueue ms ! i)"
    "\<And>e. e \<in> set (ms_instanceQueue ms) \<Longrightarrow> me_requestCount (ms_instanceQueue ms ! i) \<le> me_requestCount e"
    "ms' = ms\<lparr>ms_instanceQueue := (ms_instanceQueue ms)[i := (ms_instanceQueue ms ! i)\<lparr>me_requestCount := me_requestCount (ms_instanceQueue ms ! i) + 1\<rparr>]\<rparr>"
proof -
  obtain i where i: "lc_scan 0 (2 ^ 31 - 1) None (ms_instanceQueue ms) = Some i" using assms
    by (auto simp: selectInstanceWithLC_def Let_def split: option.splits)
  with lc_scan_min [of "[]" "2 ^ 31 - 1" None "ms_instanceQueue ms" "Some i" "2 ^ 31 - 1"]
  have "i < length (ms_instanceQueue ms)" "\<forall>e \<in> set (ms_instanceQueue ms). me_requestCount (ms_instanceQueue ms ! i) \<le> me_requestCount e"
    by simp_all
  then show thesis using assms i by (intro that [of i]) (auto simp: selectInstanceWithLC_def Let_def)
qed

lemma sum_list_set: "i < length xs \<Longrightarrow> sum_list (xs[i := y]) = sum_list xs - xs ! i + y" for xs :: "int list"
  by (induction xs arbitrary: i) (auto split: nat.split)

section \<open>Properties\<close>

text \<open>
  Least connections: a request goes to an instance with the fewest open requests, is counted there and nowhere else, and
  keeps the instances even: counts that differ by at most \<open>d \<ge> 1\<close> still do. A request is refused only when there is no
  instance or every one has as many requests as can be counted.
\<close>

theorem least_connections_even:
  assumes "ms_SchedulePolicy ms = LeastConnections" and "ms_AcquireInstance random ms = (res, ms')"
  shows "(case res of
      Inl err \<Rightarrow> err = ErrNoInsAvailable \<and> ms' = ms \<and> (\<forall>e \<in> set (ms_instanceQueue ms). 2 ^ 31 - 1 \<le> me_requestCount e)
    | Inr al \<Rightarrow> (\<exists>e \<in> set (ms_instanceQueue ms). me_instance e = ia_Instance al \<and> (\<forall>e' \<in> set (ms_instanceQueue ms). me_requestCount e \<le> me_requestCount e')) \<and>
        open_requests ms' = open_requests ms + 1 \<and> map me_instance (ms_instanceQueue ms') = map me_instance (ms_instanceQueue ms) \<and>
        (\<forall>d \<ge> 1. spread ms d \<longrightarrow> spread ms' d))"
proof (cases res)
  case (Inl err)
  have "lc_scan 0 (2 ^ 31 - 1) None (ms_instanceQueue ms) = None \<Longrightarrow> e \<in> set (ms_instanceQueue ms) \<Longrightarrow> 2 ^ 31 - 1 \<le> me_requestCount e" for e
    using lc_scan_min [of "[]" "2 ^ 31 - 1" None "ms_instanceQueue ms" None "2 ^ 31 - 1"] by simp
  then show ?thesis using assms Inl
    by (auto simp: ms_AcquireInstance_def selectInstanceWithLC_def Let_def split: if_splits option.splits)
next
  case (Inr al)
  then have "selectInstanceWithLC ms = (Inr (ia_Instance al), ms')" using assms
    by (auto simp: ms_AcquireInstance_def split: if_splits prod.splits sum.splits)
  then obtain i where i: "i < length (ms_instanceQueue ms)" "ia_Instance al = me_instance (ms_instanceQueue ms ! i)"
    "\<And>e. e \<in> set (ms_instanceQueue ms) \<Longrightarrow> me_requestCount (ms_instanceQueue ms ! i) \<le> me_requestCount e"
    "ms' = ms\<lparr>ms_instanceQueue := (ms_instanceQueue ms)[i := (ms_instanceQueue ms ! i)\<lparr>me_requestCount := me_requestCount (ms_instanceQueue ms ! i) + 1\<rparr>]\<rparr>"
    by (rule selectLC) blast
  have "open_requests ms' = open_requests ms + 1"
    using i(1) by (simp add: i(4) open_requests_def map_update sum_list_set)
  moreover have "map me_instance (ms_instanceQueue ms') = map me_instance (ms_instanceQueue ms)"
    using i(1) by (simp add: i(4) map_update list_update_same_conv)
  moreover have "spread ms' d" if "1 \<le> d" "spread ms d" for d
    unfolding spread_def
  proof (intro ballI)
    fix a b assume "a \<in> set (ms_instanceQueue ms')" "b \<in> set (ms_instanceQueue ms')"
    then have "a \<in> set (ms_instanceQueue ms) \<or> me_requestCount a = me_requestCount (ms_instanceQueue ms ! i) + 1"
      and "b \<in> set (ms_instanceQueue ms) \<or> me_requestCount b = me_requestCount (ms_instanceQueue ms ! i) + 1"
      by (auto simp: i(4) dest!: set_update_subset_insert [THEN subsetD])
    moreover have "ms_instanceQueue ms ! i \<in> set (ms_instanceQueue ms)" using i(1) by simp
    ultimately show "me_requestCount a \<le> me_requestCount b + d"
      using that i(3) by (fastforce simp: spread_def)
  qed
  ultimately show ?thesis using Inr i(1,2,3) by (auto intro!: bexI [of _ "ms_instanceQueue ms ! i"])
qed


section \<open>Witness\<close>

definition ms_ins :: "string \<Rightarrow> SchedInstance" where
  "ms_ins instanceID =
     \<lparr>in_InstanceID = instanceID, in_FuncKey = ''f'', in_ConcurrentNum = 2, in_Code = statusRunning, in_InstanceIP = [], in_InstancePort = [],
      in_NodeIP = [], in_NodePort = [], in_FuncSig = [], in_FunctionProxyID = [], in_RouteAddress = [], in_AZ = [],
      in_SessionCtxID = None, in_CreateSchedulerID = [], in_Permanent = False\<rparr>"

definition ms_two :: MicroServiceScheduler where
  "ms_two = snd (ms_AddInstance (ms_ins ''b'') (snd (ms_AddInstance (ms_ins ''a'') (NewMicroServiceScheduler LeastConnections))))"

theorem least_connections_even_witness: "open_requests (snd (ms_AcquireInstance ''r'' ms_two)) = 1"
proof -
  obtain res ms' where a: "ms_AcquireInstance ''r'' ms_two = (res, ms')" by fastforce
  have "ms_SchedulePolicy ms_two = LeastConnections" "open_requests ms_two = 0" "isl (fst (ms_AcquireInstance ''r'' ms_two)) = False"
    by code_simp+
  with least_connections_even [OF _ a] a show ?thesis by (cases res) auto
qed

end
