(* ===== verification/OnDemandQueue.thy ===== *)
theory OnDemandQueue
  imports ScaleLoop RoundRobinSched MicroServiceSched
begin

text \<open>
  The queue of instances that are created on request (\<^verbatim>\<open>functionscaler/instancequeue/ondemand_instance_queue.go\<close>), and the
  cleaning of a queue with a scheduler (\<^verbatim>\<open>cleanInstances\<close> of \<^verbatim>\<open>scaled_instance_queue.go\<close>). Shown: what is found by name is known
  by ID; cleaning ends and leaves the scheduler empty, for every scheduler whose pops make progress.
  Updates of the function are not remembered.
\<close>

section \<open>The on-demand queue\<close>

record NamedInstance = SchedInstance +
  in_InstanceName :: string

record OnDemandInstanceQueue =
  oi_instanceMap :: "(string, NamedInstance) gomap"
  oi_insNameMap :: "(string, NamedInstance) gomap"
  oi_funcSig :: string

definition NewOnDemandInstanceQueue :: "string \<Rightarrow> OnDemandInstanceQueue" where
  "NewOnDemandInstanceQueue funcSig = \<lparr>oi_instanceMap = fmempty, oi_insNameMap = fmempty, oi_funcSig = funcSig\<rparr>"

text \<open>\<open>deleted\<close> is whether the context of the function is done.\<close>

abbreviation (input) FuncMetaNotFoundErr :: go_error where "FuncMetaNotFoundErr \<equiv> SNError 150424 ''function metadata not found''"
abbreviation (input) InstanceNotFoundErr :: go_error where "InstanceNotFoundErr \<equiv> SNError 150425 ''instance not exist''"

definition od_AcquireInstance :: "bool \<Rightarrow> string \<Rightarrow> string \<Rightarrow> OnDemandInstanceQueue \<Rightarrow> go_error + NamedInstance" where
  "od_AcquireInstance deleted instanceName designateInstanceID oi =
     (if deleted then Inl FuncMetaNotFoundErr
      else case fmlookup (oi_insNameMap oi) instanceName of
        Some instance \<Rightarrow> Inr instance
      | None \<Rightarrow> (case fmlookup (oi_instanceMap oi) designateInstanceID of Some instance \<Rightarrow> Inr instance | None \<Rightarrow> Inl InstanceNotFoundErr))"

text \<open>
  \<^verbatim>\<open>buildSnError\<close>: errors of the schedulers get a status code, other plain errors are internal ones; \<open>message\<close> is their
  \<^verbatim>\<open>Error()\<close>.
\<close>

definition buildSnError :: "(sched_error \<Rightarrow> string) \<Rightarrow> (go_error + sched_error) option \<Rightarrow> go_error option" where
  "buildSnError message err =
     (case err of
        None \<Rightarrow> None
      | Some (Inl (SNError code msg)) \<Rightarrow> Some (SNError code msg)
      | Some (Inl (GoError msg)) \<Rightarrow> Some (SNError 150500 msg)
      | Some (Inr e) \<Rightarrow>
          Some (SNError
            (if e = ErrNoInsAvailable \<or> e = ErrOverAcqLimitExceeded then 150431
             else if e = ErrInsNotExist \<or> e = ErrInsSubHealthy then 150425
             else if e = ErrInsReqTimeout then 150430
             else if e = ErrInvalidSession then 4037
             else 150500) (message e)))"

text \<open>
  \<^verbatim>\<open>CreateInstance\<close>: the signature is read, the instance is created without a lock, and then the result is handled. No error and no
  instance is a nil dereference, \<open>None\<close>. The second part of the result is the instance that a goroutine passes to
  \<^verbatim>\<open>DeleteInstance\<close>.
\<close>

definition od_create_end ::
  "NamedInstance option \<times> go_error option \<Rightarrow> bool \<Rightarrow> string \<Rightarrow> string \<Rightarrow> OnDemandInstanceQueue \<Rightarrow>
   (go_error + NamedInstance) option \<times> NamedInstance option \<times> OnDemandInstanceQueue" where
  "od_create_end made deleted sigBefore instanceName oi =
     (case createInstance made deleted sigBefore (oi_funcSig oi) of
        ((instance, Some err), killed) \<Rightarrow>
          (map_option Inl (buildSnError (\<lambda>_. []) (Some (Inl err))), if killed then instance else None, oi)
      | ((None, None), _) \<Rightarrow> (None, None, oi)
      | ((Some i, None), _) \<Rightarrow>
          (Some (Inr i), None,
           oi\<lparr>oi_instanceMap := fmupd (in_InstanceID i) i (oi_instanceMap oi),
              oi_insNameMap := (if instanceName \<noteq> [] then fmupd instanceName i (oi_insNameMap oi) else oi_insNameMap oi)\<rparr>))"

definition od_DeleteInstance :: "NamedInstance \<Rightarrow> OnDemandInstanceQueue \<Rightarrow> OnDemandInstanceQueue" where
  "od_DeleteInstance instance oi =
     oi\<lparr>oi_instanceMap := fmdrop (in_InstanceID instance) (oi_instanceMap oi),
        oi_insNameMap := (if in_InstanceName instance \<noteq> [] then fmdrop (in_InstanceName instance) (oi_insNameMap oi) else oi_insNameMap oi)\<rparr>"

definition od_HandleInstanceDelete :: "NamedInstance \<Rightarrow> OnDemandInstanceQueue \<Rightarrow> OnDemandInstanceQueue" where
  "od_HandleInstanceDelete instance oi =
     oi\<lparr>oi_instanceMap := fmdrop (in_InstanceID instance) (oi_instanceMap oi),
        oi_insNameMap := fmdrop (in_InstanceName instance) (oi_insNameMap oi)\<rparr>"

text \<open>
  \<^verbatim>\<open>HandleFuncSpecUpdate\<close>: the calls of the delete function it starts, \<open>None\<close> for a nil instance. The list of instances
  is made with the length of the name map and then appended to.
\<close>

definition od_HandleFuncSpecUpdate ::
  "((string, NamedInstance) gomap \<Rightarrow> string list) \<Rightarrow> string \<Rightarrow> OnDemandInstanceQueue \<Rightarrow> NamedInstance option list \<times> OnDemandInstanceQueue" where
  "od_HandleFuncSpecUpdate ord signature oi =
     (if oi_funcSig oi \<noteq> signature
      then (replicate (fcard (fmdom (oi_insNameMap oi))) None @ map (fmlookup (oi_instanceMap oi)) (ord (oi_instanceMap oi)),
            oi\<lparr>oi_instanceMap := fmempty, oi_insNameMap := fmempty\<rparr>)
      else ([], oi))"

definition od_GetInstanceNumber :: "OnDemandInstanceQueue \<Rightarrow> nat" where
  "od_GetInstanceNumber oi = fcard (fmdom (oi_insNameMap oi))"

section \<open>Names and IDs\<close>

text \<open>
  The instances that are made have the name that was asked for and an ID that is not in use, and what is deleted is the instance as it was
  made.
\<close>

inductive od_step :: "OnDemandInstanceQueue \<Rightarrow> OnDemandInstanceQueue \<Rightarrow> bool" where
  create: "od_create_end made deleted sigBefore instanceName oi = (r, killed, oi') \<Longrightarrow>
    (\<And>i. fst made = Some i \<Longrightarrow> in_InstanceName i = instanceName \<and> fmlookup (oi_instanceMap oi) (in_InstanceID i) = None) \<Longrightarrow> od_step oi oi'"
| delete: "(\<And>i. fmlookup (oi_instanceMap oi) (in_InstanceID instance) = Some i \<Longrightarrow> i = instance) \<Longrightarrow> od_step oi (od_DeleteInstance instance oi)"
| handle_delete: "(\<And>i. fmlookup (oi_instanceMap oi) (in_InstanceID instance) = Some i \<Longrightarrow> i = instance) \<Longrightarrow>
    od_step oi (od_HandleInstanceDelete instance oi)"
| spec: "range_order ord \<Longrightarrow> od_step oi (snd (od_HandleFuncSpecUpdate ord signature oi))"

definition od_ok :: "OnDemandInstanceQueue \<Rightarrow> bool" where
  "od_ok oi \<longleftrightarrow>
     (\<forall>n i. fmlookup (oi_insNameMap oi) n = Some i \<longrightarrow> n \<noteq> [] \<and> in_InstanceName i = n \<and> fmlookup (oi_instanceMap oi) (in_InstanceID i) = Some i) \<and>
     (\<forall>k i. fmlookup (oi_instanceMap oi) k = Some i \<longrightarrow> in_InstanceID i = k)"

lemma od_ok_drop:
  assumes "od_ok oi" and "\<And>i. fmlookup (oi_instanceMap oi) (in_InstanceID ins) = Some i \<Longrightarrow> i = ins"
  shows "od_ok (oi\<lparr>oi_instanceMap := fmdrop (in_InstanceID ins) (oi_instanceMap oi),
    oi_insNameMap := fmdrop (in_InstanceName ins) (oi_insNameMap oi)\<rparr>)"
    and "in_InstanceName ins = [] \<Longrightarrow> od_ok (oi\<lparr>oi_instanceMap := fmdrop (in_InstanceID ins) (oi_instanceMap oi)\<rparr>)"
proof -
  have "in_InstanceID j \<noteq> in_InstanceID ins \<and> n \<noteq> []"
    if "fmlookup (oi_insNameMap oi) n = Some j" and "n \<noteq> in_InstanceName ins \<or> in_InstanceName ins = []" for n j
    using assms that unfolding od_ok_def by metis
  then show "od_ok (oi\<lparr>oi_instanceMap := fmdrop (in_InstanceID ins) (oi_instanceMap oi),
      oi_insNameMap := fmdrop (in_InstanceName ins) (oi_insNameMap oi)\<rparr>)"
    and "in_InstanceName ins = [] \<Longrightarrow> od_ok (oi\<lparr>oi_instanceMap := fmdrop (in_InstanceID ins) (oi_instanceMap oi)\<rparr>)"
    using assms(1) by (simp_all add: od_ok_def)
qed

lemma od_ok_step: "od_step oi oi' \<Longrightarrow> od_ok oi \<Longrightarrow> od_ok oi'"
proof (induction rule: od_step.induct)
  case (create made deleted sigBefore instanceName oi r killed oi')
  show ?case
  proof (cases "oi' = oi")
    case False
    then obtain i where i: "fst made = Some i" "oi' = oi\<lparr>oi_instanceMap := fmupd (in_InstanceID i) i (oi_instanceMap oi),
              oi_insNameMap := (if instanceName \<noteq> [] then fmupd instanceName i (oi_insNameMap oi) else oi_insNameMap oi)\<rparr>"
      using create(1) by (auto simp: od_create_end_def createInstance_def Let_def split: option.splits if_splits)
    have new: "fmlookup (oi_instanceMap oi) (in_InstanceID i) = None" "in_InstanceName i = instanceName" using create(2) i(1) by simp_all
    have neq: "in_InstanceID j \<noteq> in_InstanceID i" if "fmlookup (oi_insNameMap oi) n = Some j" for n j
      using create(3) that new(1) unfolding od_ok_def by (metis option.distinct(1))
    have "n \<noteq> [] \<and> in_InstanceName j = n \<and> fmlookup (oi_instanceMap oi') (in_InstanceID j) = Some j"
      if "fmlookup (oi_insNameMap oi') n = Some j" for n j
    proof (cases "instanceName \<noteq> [] \<and> n = instanceName")
      case False
      then have "fmlookup (oi_insNameMap oi) n = Some j" using that by (simp add: i(2) split: if_splits)
      moreover from this have "in_InstanceID i \<noteq> in_InstanceID j" using neq by metis
      ultimately show ?thesis using create(3) by (simp add: i(2) od_ok_def)
    qed (use that new in \<open>simp add: i(2)\<close>)
    moreover have "in_InstanceID j = k" if "fmlookup (oi_instanceMap oi') k = Some j" for k j
      using that create(3) by (simp add: i(2) od_ok_def split: if_splits)
    ultimately show ?thesis by (simp add: od_ok_def)
  qed (use create(3) in simp)
next
  case (delete oi ins)
  then show ?case using od_ok_drop [of oi ins] by (cases "in_InstanceName ins = []") (simp_all add: od_DeleteInstance_def)
next
  case (handle_delete oi ins)
  then show ?case using od_ok_drop [of oi ins] by (simp add: od_HandleInstanceDelete_def)
qed (auto simp: od_HandleFuncSpecUpdate_def od_ok_def)

text \<open>
  In every reachable state an instance that is found by its name has that name and is the one known under its ID, so that acquiring
  by name and by ID agree.
\<close>

theorem name_and_ID_agree:
  assumes "od_step\<^sup>*\<^sup>* (NewOnDemandInstanceQueue sig) oi" and "n \<noteq> []" and "fmlookup (oi_insNameMap oi) n \<noteq> None"
    and "od_AcquireInstance False n d oi = Inr i"
  shows "in_InstanceName i = n \<and> od_AcquireInstance False [] (in_InstanceID i) oi = Inr i"
proof -
  have "od_ok (NewOnDemandInstanceQueue sig)" by (simp add: NewOnDemandInstanceQueue_def od_ok_def)
  with assms(1) have "od_ok oi" by (induction rule: rtranclp_induct) (blast intro: od_ok_step)+
  moreover have "fmlookup (oi_insNameMap oi) n = Some i" using assms(3,4) by (auto simp: od_AcquireInstance_def)
  moreover from calculation have "fmlookup (oi_insNameMap oi) [] = None" by (cases "fmlookup (oi_insNameMap oi) []") (auto simp: od_ok_def)
  ultimately show ?thesis by (auto simp: od_AcquireInstance_def od_ok_def)
qed

section \<open>Cleaning a queue\<close>

text \<open>
  \<^verbatim>\<open>cleanInstances\<close> pops instances until there is none; \<open>fuel\<close> bounds the number of pops. The result is what was popped, and
  \<open>None\<close> if the fuel did not suffice.
\<close>

fun cleanInstances :: "('s \<Rightarrow> 'i option \<times> 's) \<Rightarrow> nat \<Rightarrow> 's \<Rightarrow> ('i list \<times> 's) option" where
  "cleanInstances pop 0 s = None"
| "cleanInstances pop (Suc fuel) s =
     (case pop s of
        (None, s') \<Rightarrow> Some ([], s')
      | (Some i, s') \<Rightarrow> map_option (\<lambda>(is, s''). (i # is, s'')) (cleanInstances pop fuel s'))"

text \<open>What cleaning needs of a scheduler: a pop takes one instance, or there is none.\<close>

locale popping =
  fixes pop :: "'s \<Rightarrow> 'i option \<times> 's" and number :: "'s \<Rightarrow> nat" and ok :: "'s \<Rightarrow> bool"
  assumes pop_some: "ok s \<Longrightarrow> pop s = (Some i, s') \<Longrightarrow> ok s' \<and> number s = Suc (number s')"
    and pop_none: "ok s \<Longrightarrow> pop s = (None, s') \<Longrightarrow> number s' = 0 \<and> number s = 0"
begin

lemma clean_empties:
  assumes "ok s" and "number s < fuel"
  shows "\<exists>is s'. cleanInstances pop fuel s = Some (is, s') \<and> length is = number s \<and> number s' = 0"
  using assms
proof (induction fuel arbitrary: s)
  case (Suc fuel)
  obtain r s1 where p: "pop s = (r, s1)" by fastforce
  show ?case
  proof (cases r)
    case None
    then show ?thesis using pop_none [OF Suc.prems(1)] p by auto
  next
    case (Some i)
    then have s1: "ok s1" "number s = Suc (number s1)" using pop_some [OF Suc.prems(1)] p by auto
    then obtain "is" s' where "cleanInstances pop fuel s1 = Some (is, s')" "length is = number s1" "number s' = 0"
      using Suc.IH [of s1] Suc.prems(2) by auto
    then show ?thesis using p Some s1(2) by auto
  qed
qed simp

end

lemma pop_last_None: "pop_last P q = None \<Longrightarrow> \<forall>i \<in> set q. \<not> P i"
  by (induction q) (auto split: option.splits if_splits)

lemma first_sub_None:
  assumes "range_order ord" and "first_sub ord P rs = None" and "fmlookup (rb_subHealthInstance rs) k = Some i"
  shows "\<not> P i"
proof -
  have "k \<in> set (ord (rb_subHealthInstance rs))" using assms(1,3) by (simp add: range_order_def fmdom'I)
  then have "(k, i) \<in> set (List.map_filter (\<lambda>k. map_option (Pair k) (fmlookup (rb_subHealthInstance rs) k)) (ord (rb_subHealthInstance rs)))"
    using assms(3) by (force simp: List.map_filter_def)
  then show ?thesis using assms(2) by (auto simp: first_sub_def find_None_iff)
qed


lemma pop_sub_number:
  assumes "popSubHealthyInstance ord rs = (Some j, rs1)"
  shows "rb_GetInstanceNumber rs = Suc (rb_GetInstanceNumber rs1)"
proof -
  obtain k where "fmlookup (rb_subHealthInstance rs) k = Some j" "rb_instanceQueue rs1 = rb_instanceQueue rs"
      "rb_subHealthInstance rs1 = fmdrop k (rb_subHealthInstance rs)"
    using assms by (auto simp: popSubHealthyInstance_def dest!: first_sub_Some split: option.splits if_splits)
  moreover from this have "k |\<in>| fmdom (rb_subHealthInstance rs)" by (simp add: fmdomI)
  ultimately show ?thesis using fcard_Suc_fminus1 [of k "fmdom (rb_subHealthInstance rs)"] by (simp add: rb_GetInstanceNumber_def)
qed

lemma pop_priority_number:
  "popHealthyInstanceByPriority b rs = (Some j, rs1) \<Longrightarrow> rb_GetInstanceNumber rs = Suc (rb_GetInstanceNumber rs1)"
  by (auto simp: popHealthyInstanceByPriority_def rb_GetInstanceNumber_def dest!: pop_last_split split: option.splits)

lemma publish_number [simp]: "rb_GetInstanceNumber (publish_total n rs) = rb_GetInstanceNumber rs"
  by (simp add: publish_total_def rb_GetInstanceNumber_def)

lemma rb_pop_some:
  assumes "rb_PopInstance ord rs = (Some i, rs')"
  shows "rb_GetInstanceNumber rs = Suc (rb_GetInstanceNumber rs')"
proof (cases "popSubHealthyInstance ord rs")
  case (Pair r rs1)
  show ?thesis
  proof (cases r)
    case (Some j)
    then show ?thesis using assms Pair pop_sub_number [of ord rs] by (auto simp: rb_PopInstance_def)
  next
    case None
    then have "rs1 = rs" using Pair pop_sub_None by simp
    then show ?thesis using assms Pair None pop_priority_number
      by (auto simp: rb_PopInstance_def popHealthyInstance_def split: prod.splits option.splits dest: pop_priority_None)
  qed
qed

text \<open>With the counters right, a pop that finds nothing has looked at every instance.\<close>

lemma pop_sub_empty:
  assumes "range_order ord" and "rb_ok rs" and "popSubHealthyInstance ord rs = (None, rs')"
  shows "fmdom (rb_subHealthInstance rs) = {||}"
proof -
  have cnt: "rb_prioritySubHealthCnt rs = fmsum (zone_weight rs) (rb_subHealthInstance rs)" using assms(2) by (simp add: rb_ok_def)
  have nonneg: "\<And>k v. 0 \<le> zone_weight rs k v" by (simp add: zone_weight_def)
  have "fmlookup (rb_subHealthInstance rs) k = None" for k
  proof (cases "fmlookup (rb_subHealthInstance rs) k")
    case (Some i)
    have pr: "isPriorityAZInstance rs i"
      using first_sub_None [OF assms(1) _ Some] assms(3) by (auto simp: popSubHealthyInstance_def split: option.splits if_splits)
    have "zone_weight rs k i \<le> fmsum (zone_weight rs) (rb_subHealthInstance rs)"
      using fmsum_ge_weight [of "rb_subHealthInstance rs" "zone_weight rs" k] Some nonneg by (simp add: weight_at_def)
    then have "rb_prioritySubHealthCnt rs \<noteq> 0" using cnt pr by (simp add: zone_weight_def)
    then show ?thesis
      using first_sub_None [OF assms(1) _ Some, of "isPriorityAZInstance rs"] pr assms(3)
      by (auto simp: popSubHealthyInstance_def split: option.splits if_splits)
  qed
  then show ?thesis by (metis fmdom_notI fequalityI fsubsetI fempty_iff)
qed

lemma rb_pop_none:
  assumes "range_order ord" and "rb_ok rs" and "rb_PopInstance ord rs = (None, rs')"
  shows "rs' = rs \<and> rb_GetInstanceNumber rs = 0"
proof -
  obtain rs1 where p: "popSubHealthyInstance ord rs = (None, rs1)" "popHealthyInstance rs1 = (None, rs')"
    using assms(3) by (auto simp: rb_PopInstance_def split: prod.splits option.splits)
  then have rs1: "rs1 = rs" using pop_sub_None by simp
  obtain r1 r2 where r: "popHealthyInstanceByPriority False rs = (r1, r2)" by fastforce
  have "r1 = None" using p(2) rs1 r by (cases r1) (simp_all add: popHealthyInstance_def)
  moreover from this have "r2 = rs" using r pop_priority_None by simp
  ultimately have hF: "popHealthyInstanceByPriority False rs = (None, rs)" and hT: "popHealthyInstanceByPriority True rs = (None, rs')"
    using r p(2) rs1 by (simp_all add: popHealthyInstance_def)
  then have h: "popHealthyInstanceByPriority b rs = (None, rs)" for b using pop_priority_None by (cases b) fastforce+
  have "pop_last (\<lambda>i. isPriorityAZInstance rs i = b) (rb_instanceQueue rs) = None" for b
    using h [of b] by (auto simp: popHealthyInstanceByPriority_def split: option.splits)
  then have "i \<notin> set (rb_instanceQueue rs)" for i using pop_last_None [of "\<lambda>j. isPriorityAZInstance rs j = isPriorityAZInstance rs i"] by blast
  then have "rb_instanceQueue rs = []" by (cases "rb_instanceQueue rs") auto
  then show ?thesis
    using pop_sub_empty [OF assms(1,2) p(1)] pop_priority_None [OF hT] by (simp add: rb_GetInstanceNumber_def)
qed

interpretation ms_pops: popping ms_PopInstance ms_GetInstanceNumber "\<lambda>_. True"
  by unfold_locales (auto simp: ms_PopInstance_def ms_GetInstanceNumber_def split: if_splits)

lemma rb_popping: "range_order ord \<Longrightarrow> popping (rb_PopInstance ord) rb_GetInstanceNumber rb_ok"
proof
  fix rs i rs'
  assume "rb_ok rs" and "rb_PopInstance ord rs = (Some i, rs')"
  then show "rb_ok rs' \<and> rb_GetInstanceNumber rs = Suc (rb_GetInstanceNumber rs')"
    using rb_ok_pop [of rs ord] rb_pop_some [of ord rs i rs'] by simp
next
  fix rs rs'
  assume "range_order ord" and "rb_ok rs" and "rb_PopInstance ord rs = (None, rs')"
  from rb_pop_none [OF this] show "rb_GetInstanceNumber rs' = 0 \<and> rb_GetInstanceNumber rs = 0" by simp
qed

text \<open>
  Cleaning a round-robin scheduler ends after as many pops as it has instances, healthy and sub-healthy, of whatever zone, and leaves
  none; and so does cleaning a scheduler of micro services.
\<close>

theorem cleaning_empties:
  assumes "rb_reach isReserve timeout rs" and "range_order ord" and "rb_GetInstanceNumber rs < fuel"
  shows "\<exists>is rs'. cleanInstances (rb_PopInstance ord) fuel rs = Some (is, rs') \<and>
    length is = rb_GetInstanceNumber rs \<and> rb_GetInstanceNumber rs' = 0"
  using popping.clean_empties [OF rb_popping [OF assms(2)] rb_reach_ok [OF assms(1)] assms(3)] .

theorem micro_cleaning_empties:
  assumes "ms_GetInstanceNumber ms < fuel"
  shows "\<exists>is ms'. cleanInstances ms_PopInstance fuel ms = Some (is, ms') \<and> length is = ms_GetInstanceNumber ms \<and> ms_GetInstanceNumber ms' = 0"
  using ms_pops.clean_empties assms by simp

section \<open>Updates that are not remembered\<close>

text \<open>
  \<^verbatim>\<open>HandleFuncSpecUpdate\<close> compares with the signature of the queue and does not store the new one. So a second event with
  the new signature deletes the instances that were made in between, and a creation that was under way during
  the first event finds the signature unchanged and keeps its old instance.
\<close>

theorem update_not_remembered:
  assumes "range_order ord" and "oi_funcSig oi \<noteq> sig" and "fmlookup (oi_instanceMap oi) k = Some i"
  shows "Some i \<in> set (fst (od_HandleFuncSpecUpdate ord sig oi)) \<and> oi_funcSig (snd (od_HandleFuncSpecUpdate ord sig oi)) \<noteq> sig \<and>
    snd (snd (od_create_end (Some i, None) False (oi_funcSig oi) [] (snd (od_HandleFuncSpecUpdate ord sig oi)))) =
      \<lparr>oi_instanceMap = fmupd (in_InstanceID i) i fmempty, oi_insNameMap = fmempty, oi_funcSig = oi_funcSig oi\<rparr>"
proof -
  have "k \<in> set (ord (oi_instanceMap oi))" using assms(1,3) by (simp add: range_orderD fmdom'I)
  then have "Some i \<in> fmlookup (oi_instanceMap oi) ` set (ord (oi_instanceMap oi))" using assms(3) by force
  then show ?thesis using assms(2) by (cases oi) (simp add: od_HandleFuncSpecUpdate_def od_create_end_def createInstance_def)
qed

text \<open>With a named instance, the delete function is also called with a nil instance.\<close>

theorem nil_instance_deleted:
  assumes "oi_funcSig oi \<noteq> sig" and "fmlookup (oi_insNameMap oi) n = Some i"
  shows "None \<in> set (fst (od_HandleFuncSpecUpdate ord sig oi))"
proof -
  have "n |\<in>| fmdom (oi_insNameMap oi)" using assms(2) by (rule fmdomI)
  then show ?thesis using assms(1) by (auto simp: od_HandleFuncSpecUpdate_def)
qed

section \<open>Witnesses\<close>

definition od_ins :: "string \<Rightarrow> string \<Rightarrow> NamedInstance" where
  "od_ins instanceID n =
     \<lparr>in_InstanceID = instanceID, in_FuncKey = ''f'', in_ConcurrentNum = 1, in_Code = statusRunning, in_InstanceIP = [], in_InstancePort = [],
      in_NodeIP = [], in_NodePort = [], in_FuncSig = [], in_FunctionProxyID = [], in_RouteAddress = [], in_AZ = [],
      in_SessionCtxID = None, in_CreateSchedulerID = [], in_Permanent = False, in_InstanceName = n\<rparr>"

definition od_one :: OnDemandInstanceQueue where
  "od_one = snd (snd (od_create_end (Some (od_ins ''i1'' ''n1''), None) False ''s1'' ''n1'' (NewOnDemandInstanceQueue ''s1'')))"

lemma od_one_eq:
  "od_one = \<lparr>oi_instanceMap = fmupd ''i1'' (od_ins ''i1'' ''n1'') fmempty, oi_insNameMap = fmupd ''n1'' (od_ins ''i1'' ''n1'') fmempty,
     oi_funcSig = ''s1''\<rparr>"
  by (simp add: od_one_def od_create_end_def createInstance_def NewOnDemandInstanceQueue_def od_ins_def)

theorem name_and_ID_agree_witness: "od_AcquireInstance False [] ''i1'' od_one = Inr (od_ins ''i1'' ''n1'')"
proof -
  let ?m = "(Some (od_ins ''i1'' ''n1''), None)"
  have "\<exists>r k. od_create_end ?m False ''s1'' ''n1'' (NewOnDemandInstanceQueue ''s1'') = (r, k, od_one)"
    unfolding od_one_def by (metis prod.collapse)
  then have "od_step (NewOnDemandInstanceQueue ''s1'') od_one"
    by (elim exE) (rule od_step.create, assumption, auto simp: od_ins_def NewOnDemandInstanceQueue_def)
  then have "od_step\<^sup>*\<^sup>* (NewOnDemandInstanceQueue ''s1'') od_one" by blast
  from name_and_ID_agree [OF this, of "''n1''" "''x''" "od_ins ''i1'' ''n1''"] show ?thesis
    by (simp add: od_one_eq od_AcquireInstance_def od_ins_def)
qed

theorem cleaning_empties_witness:
  "\<exists>is rs'. cleanInstances (rb_PopInstance (\<lambda>m. sorted_list_of_set (fmdom' m))) 3 rb_two = Some (is, rs') \<and> length is = 2"
proof -
  have "rb_GetInstanceNumber rb_two = 2" by code_simp
  with cleaning_empties [OF rb_two_reach range_order_sorted, of 3] show ?thesis by auto
qed

theorem micro_cleaning_empties_witness:
  "\<exists>is ms'. cleanInstances ms_PopInstance 1 (NewMicroServiceScheduler RoundRobin) = Some (is, ms') \<and> length is = 0"
  using micro_cleaning_empties [of "NewMicroServiceScheduler RoundRobin" 1] by (auto simp: ms_GetInstanceNumber_def NewMicroServiceScheduler_def)

theorem update_not_remembered_witness:
  "oi_funcSig (snd (od_HandleFuncSpecUpdate (\<lambda>m. sorted_list_of_set (fmdom' m)) ''s2'' od_one)) \<noteq> ''s2''"
  using update_not_remembered [OF range_order_sorted, of od_one "''s2''" "''i1''" "od_ins ''i1'' ''n1''"] by (simp add: od_one_eq)

theorem nil_instance_deleted_witness:
  "None \<in> set (fst (od_HandleFuncSpecUpdate (\<lambda>m. sorted_list_of_set (fmdom' m)) ''s2'' od_one))"
  using nil_instance_deleted [of od_one "''s2''" "''n1''" "od_ins ''i1'' ''n1''"] by (simp add: od_one_eq)

end
