(* ===== verification/ContextStore.thy ===== *)
theory ContextStore
  imports LiteAlloc
begin

text \<open>
  The data of session contexts in the data system (\<^verbatim>\<open>functionscaler/sessioncontextmanager/{key,model,store}.go\<close> and
  \<^verbatim>\<open>functionscaler/sessioncontextregistry/registry.go\<close>): the keys, the records, reading and writing them when any
  access may fail, and the registry of the contexts of a function. A small calculus of weakest preconditions
  for programs that stop at the first error carries the proofs about them.
\<close>

section \<open>Keys\<close>

text \<open>
  \<^verbatim>\<open>encoding/json\<close> of a list of strings, with \<^verbatim>\<open>SetEscapeHTML(false)\<close>: \<open>utf8_size\<close> is the length of the rune at the front
  as \<^verbatim>\<open>utf8.DecodeRune\<close> accepts it, 0 for an invalid byte, which is written as the escape of U+FFFD.
\<close>

abbreviation (input) cont_byte :: "nat \<Rightarrow> bool" where "cont_byte b \<equiv> 0x80 \<le> b \<and> b \<le> 0xBF"

fun utf8_size :: "nat list \<Rightarrow> nat" where
  "utf8_size [] = 0"
| "utf8_size (a # bs) =
     (if a < 0x80 then 1
      else if 0xC2 \<le> a \<and> a \<le> 0xDF then (case bs of b # _ \<Rightarrow> if cont_byte b then 2 else 0 | [] \<Rightarrow> 0)
      else if 0xE0 \<le> a \<and> a \<le> 0xEF then
        (case bs of b # c # _ \<Rightarrow>
           if cont_byte b \<and> cont_byte c \<and> (a = 0xE0 \<longrightarrow> 0xA0 \<le> b) \<and> (a = 0xED \<longrightarrow> b \<le> 0x9F) then 3 else 0
         | _ \<Rightarrow> 0)
      else if 0xF0 \<le> a \<and> a \<le> 0xF4 then
        (case bs of b # c # d # _ \<Rightarrow>
           if cont_byte b \<and> cont_byte c \<and> cont_byte d \<and> (a = 0xF0 \<longrightarrow> 0x90 \<le> b) \<and> (a = 0xF4 \<longrightarrow> b \<le> 0x8F) then 4 else 0
         | _ \<Rightarrow> 0)
      else 0)"

definition ascii_escape :: "nat \<Rightarrow> nat list" where
  "ascii_escape b =
     (if b = 0x22 \<or> b = 0x5C then [0x5C, b]
      else if b = 8 then [0x5C, 0x62] else if b = 9 then [0x5C, 0x74] else if b = 10 then [0x5C, 0x6E]
      else if b = 12 then [0x5C, 0x66] else if b = 13 then [0x5C, 0x72]
      else if b < 0x20 then [0x5C, 0x75, 0x30, 0x30, of_char (hexDigit (b div 16)), of_char (hexDigit (b mod 16))]
      else [b])"

function json_escape :: "nat list \<Rightarrow> nat list" where
  "json_escape [] = []"
| "json_escape (b # bs) =
     (if b < 0x80 then ascii_escape b @ json_escape bs
      else let n = utf8_size (b # bs)
           in if n \<le> 1 then 0x5C # map of_char ''ufffd'' @ json_escape bs
              else if take 3 (b # bs) = [0xE2, 0x80, 0xA8] then 0x5C # map of_char ''u2028'' @ json_escape (drop n (b # bs))
              else if take 3 (b # bs) = [0xE2, 0x80, 0xA9] then 0x5C # map of_char ''u2029'' @ json_escape (drop n (b # bs))
              else take n (b # bs) @ json_escape (drop n (b # bs)))"
  by pat_completeness auto
termination by (relation "measure length") auto

definition json_string :: "string \<Rightarrow> nat list" where
  "json_string s = 0x22 # json_escape (map of_char s) @ [0x22]"

fun json_commas :: "nat list list \<Rightarrow> nat list" where
  "json_commas [] = []"
| "json_commas [x] = x"
| "json_commas (x # xs) = x @ [0x2C] @ json_commas xs"

definition hashParts :: "string list \<Rightarrow> string" where
  "hashParts parts = take 32 (hexEncode (sha256 (map of_nat ([0x5B] @ json_commas (map json_string parts) @ [0x5D]))))"

text \<open>\<^verbatim>\<open>strings.LastIndex\<close> for a single byte: what follows the last one.\<close>

definition runtimeFunctionName :: "string \<Rightarrow> string" where
  "runtimeFunctionName registeredName =
     (if CHR ''@'' \<in> set registeredName then rev (takeWhile (\<lambda>c. c \<noteq> CHR ''@'') (rev registeredName)) else registeredName)"

definition sessionPrefix :: "string \<Rightarrow> string \<Rightarrow> string \<Rightarrow> string \<Rightarrow> string" where
  "sessionPrefix tenantID registeredName version sessionCtxID =
     ''ar:s:'' @ hashParts [tenantID, runtimeFunctionName registeredName, version] @ '':'' @ hashParts [sessionCtxID]"

text \<open>The keys of a context, by its prefix.\<close>

definition TurnKey :: "string \<Rightarrow> nat \<Rightarrow> string" where
  "TurnKey prefix index = prefix @ '':t'' @ showNat index"

definition EventKey :: "string \<Rightarrow> nat \<Rightarrow> string" where
  "EventKey prefix seq = prefix @ '':e'' @ showNat seq"

definition ControlKey :: "string \<Rightarrow> string" where
  "ControlKey prefix = prefix @ '':c''"

definition registry_Key :: "string \<Rightarrow> string" where
  "registry_Key registeredName = ''ar:i:'' @ hashParts [registeredName]"

lemma length_hashParts [simp]: "length (hashParts parts) = 32"
  by (simp add: hashParts_def)

lemma showNat_inject: "showNat m = showNat n \<longleftrightarrow> m = n"
  by (metis option.inject readNat_showNat)

text \<open>
  What the proofs use of the prefixes of two contexts and the key of the registry: they differ, the prefixes have
  the same length, and the registry has its own name space. For the keys of the code all of this holds unless two hashes collide.
\<close>

definition keys_ok :: "string \<Rightarrow> string \<Rightarrow> string \<Rightarrow> bool" where
  "keys_ok p q rk \<longleftrightarrow> length p = length q \<and> p \<noteq> q \<and> take 5 p \<noteq> take 5 rk \<and> take 5 q \<noteq> take 5 rk \<and> 5 \<le> length p"

lemma keys_ok_code:
  assumes "sessionPrefix t n v a \<noteq> sessionPrefix t n v b"
  shows "keys_ok (sessionPrefix t n v a) (sessionPrefix t n v b) (registry_Key n)"
  using assms by (simp add: keys_ok_def sessionPrefix_def registry_Key_def)

lemma same_prefix_keys [simp]:
  "TurnKey p i = TurnKey p j \<longleftrightarrow> i = j" "EventKey p i = EventKey p j \<longleftrightarrow> i = j"
  "TurnKey p i \<noteq> EventKey p j" "EventKey p j \<noteq> TurnKey p i" "TurnKey p i \<noteq> ControlKey p" "ControlKey p \<noteq> TurnKey p i"
  "EventKey p i \<noteq> ControlKey p" "ControlKey p \<noteq> EventKey p i"
  by (simp_all add: TurnKey_def EventKey_def ControlKey_def showNat_inject)

lemma prefix_keys:
  assumes "length p = length q" "p \<noteq> q"
  shows "TurnKey p i \<noteq> TurnKey q j" "TurnKey p i \<noteq> EventKey q j" "TurnKey p i \<noteq> ControlKey q"
    "EventKey p i \<noteq> TurnKey q j" "EventKey p i \<noteq> EventKey q j" "EventKey p i \<noteq> ControlKey q"
    "ControlKey p \<noteq> TurnKey q j" "ControlKey p \<noteq> EventKey q j" "ControlKey p \<noteq> ControlKey q"
  using assms by (simp_all add: TurnKey_def EventKey_def ControlKey_def)

lemma registry_keys:
  assumes "take 5 p \<noteq> take 5 rk" "5 \<le> length p"
  shows "TurnKey p i \<noteq> rk" "EventKey p i \<noteq> rk" "ControlKey p \<noteq> rk" "rk \<noteq> TurnKey p i" "rk \<noteq> EventKey p i" "rk \<noteq> ControlKey p"
  using assms by (auto simp: TurnKey_def EventKey_def ControlKey_def)

section \<open>Records\<close>

datatype ctx_state = StateCreating | StateReady | StateDeleting | OtherState string

record ControlRecord =
  cr_SchemaVersion :: int
  cr_State :: ctx_state
  cr_ForkedFrom :: string
  cr_ForkTurnID :: string
  cr_ForkTurnIndex :: nat
  cr_ForkSeq :: nat
  cr_CopiedTurn :: nat
  cr_CopiedSeq :: nat
  cr_DeleteTurnUpperBound :: nat
  cr_DeleteSeqUpperBound :: nat
  cr_CreatedAt :: string
  cr_UpdatedAt :: string

record TurnRecord =
  tr_SessionContextID :: string
  tr_TurnIndex :: nat
  tr_TurnID :: string
  tr_StartSeq :: nat
  tr_CreatedAt :: string
  tr_SchemaVersion :: int

record Event =
  ev_SessionContextID :: string
  ev_TurnID :: string
  ev_Seq :: nat
  ev_EventID :: string
  ev_Source :: string
  ev_Type :: string
  ev_Data :: string
  ev_SchemaVersion :: int
  ev_CreatedAt :: string

record Entry =
  en_FunctionVersion :: string
  en_SessionContextID :: string
  en_CreatedAt :: string

record Registry =
  rg_SchemaVersion :: int
  rg_SessionContexts :: "Entry list"

text \<open>
  The JSON codec of the records is a parameter, and so is the type of what it writes. A control record and a
  registry that were written are read back as they were.
\<close>

record 'raw codec =
  enc_turn :: "TurnRecord \<Rightarrow> 'raw"
  dec_turn :: "'raw \<Rightarrow> TurnRecord option"
  enc_event :: "Event \<Rightarrow> 'raw"
  dec_event :: "'raw \<Rightarrow> Event option"
  enc_control :: "ControlRecord \<Rightarrow> 'raw"
  dec_control :: "'raw \<Rightarrow> ControlRecord option"
  enc_registry :: "Registry \<Rightarrow> 'raw"
  dec_registry :: "'raw \<Rightarrow> Registry option"

definition codec_ok :: "'raw codec \<Rightarrow> bool" where
  "codec_ok cd \<longleftrightarrow> (\<forall>c. dec_control cd (enc_control cd c) = Some c) \<and> (\<forall>r. dec_registry cd (enc_registry cd r) = Some r)"

section \<open>Programs that stop at the first error\<close>

text \<open>
  The store of a tenant. \<open>kw_left\<close> is the number of accesses that still succeed (\<open>None\<close>: all of them); the one
  after them fails, and \<open>kw_torn\<close> says whether it is a write that was carried out all the same.
\<close>

datatype ctx_error =
    CtxError string
  | StoreError
  | DecodeError
  | ScopeIncomplete
  | UnsupportedSchema
  | PoolError

record 'raw kv_world =
  kw_store :: "(string, 'raw) gomap"
  kw_left :: "nat option"
  kw_torn :: bool

type_synonym ('raw, 'a) act = "'raw kv_world \<Rightarrow> (ctx_error + 'a) \<times> 'raw kv_world"

definition ret :: "'a \<Rightarrow> ('raw, 'a) act" where
  "ret x = (\<lambda>w. (Inr x, w))"

definition throw :: "ctx_error \<Rightarrow> ('raw, 'a) act" where
  "throw e = (\<lambda>w. (Inl e, w))"

definition bind_act :: "('raw, 'a) act \<Rightarrow> ('a \<Rightarrow> ('raw, 'b) act) \<Rightarrow> ('raw, 'b) act" where
  "bind_act m f = (\<lambda>w. case m w of (Inl e, w') \<Rightarrow> (Inl e, w') | (Inr x, w') \<Rightarrow> f x w')"

definition spend :: "'raw kv_world \<Rightarrow> 'raw kv_world option" where
  "spend w = (case kw_left w of None \<Rightarrow> Some w | Some 0 \<Rightarrow> None | Some (Suc n) \<Rightarrow> Some (w\<lparr>kw_left := Some n\<rparr>))"

definition ds_get :: "string \<Rightarrow> ('raw, 'raw option) act" where
  "ds_get key = (\<lambda>w. case spend w of None \<Rightarrow> (Inl StoreError, w) | Some w' \<Rightarrow> (Inr (fmlookup (kw_store w') key), w'))"

definition ds_change :: "((string, 'raw) gomap \<Rightarrow> (string, 'raw) gomap) \<Rightarrow> ('raw, unit) act" where
  "ds_change f =
     (\<lambda>w. case spend w of
        None \<Rightarrow> (Inl StoreError, if kw_torn w then w\<lparr>kw_store := f (kw_store w)\<rparr> else w)
      | Some w' \<Rightarrow> (Inr (), w'\<lparr>kw_store := f (kw_store w')\<rparr>))"

definition ds_put :: "string \<Rightarrow> 'raw \<Rightarrow> ('raw, unit) act" where
  "ds_put key value = ds_change (fmupd key value)"

definition ds_delete :: "string \<Rightarrow> ('raw, unit) act" where
  "ds_delete key = ds_change (fmdrop key)"

definition decode :: "('raw \<Rightarrow> 'a option) \<Rightarrow> 'raw \<Rightarrow> ('raw, 'a) act" where
  "decode dec raw = (case dec raw of None \<Rightarrow> throw DecodeError | Some x \<Rightarrow> ret x)"

section \<open>Weakest preconditions\<close>

text \<open>
  \<open>wp m Q E s\<close>: from a store \<open>s\<close>, a run of \<open>m\<close> that returns \<open>x\<close> ends in a store with \<open>Q x\<close>, and one that stops with the error
  \<open>e\<close> in a store with \<open>E e\<close>; it fails at the store only if accesses can fail.
\<close>

definition ends_with :: "('raw, 'a) act \<Rightarrow> ('a \<Rightarrow> (string, 'raw) gomap \<Rightarrow> bool) \<Rightarrow> (ctx_error \<Rightarrow> (string, 'raw) gomap \<Rightarrow> bool) \<Rightarrow>
  'raw kv_world \<Rightarrow> bool" where
  "ends_with m Q E w \<longleftrightarrow>
     (case m w of
        (Inl e, w') \<Rightarrow> E e (kw_store w') \<and> (e = StoreError \<longrightarrow> kw_left w \<noteq> None)
      | (Inr x, w') \<Rightarrow> Q x (kw_store w') \<and> (kw_left w = None \<longrightarrow> kw_left w' = None))"

definition wp :: "('raw, 'a) act \<Rightarrow> ('a \<Rightarrow> (string, 'raw) gomap \<Rightarrow> bool) \<Rightarrow> (ctx_error \<Rightarrow> (string, 'raw) gomap \<Rightarrow> bool) \<Rightarrow>
  (string, 'raw) gomap \<Rightarrow> bool" where
  "wp m Q E s \<longleftrightarrow> (\<forall>w. kw_store w = s \<longrightarrow> ends_with m Q E w)"

lemma wpI: "(\<And>w. kw_store w = s \<Longrightarrow> ends_with m Q E w) \<Longrightarrow> wp m Q E s"
  by (simp add: wp_def)

lemma wp_ends: "wp m Q E (kw_store w) \<Longrightarrow> ends_with m Q E w"
  by (simp add: wp_def)

lemma wpD:
  assumes "wp m Q E (kw_store w)" and "m w = (r, w')"
  shows "case r of Inl e \<Rightarrow> E e (kw_store w') \<and> (e = StoreError \<longrightarrow> kw_left w \<noteq> None) | Inr x \<Rightarrow> Q x (kw_store w')"
  using wp_ends [OF assms(1)] assms(2) by (simp add: ends_with_def split: sum.splits)

lemma wp_ret: "Q x s \<Longrightarrow> wp (ret x) Q E s"
  by (simp add: wp_def ends_with_def ret_def)

lemma wp_throw: "E e s \<Longrightarrow> e \<noteq> StoreError \<Longrightarrow> wp (throw e) Q E s"
  by (simp add: wp_def ends_with_def throw_def)

lemma wp_bind:
  fixes m :: "('raw, 'a) act" and f :: "'a \<Rightarrow> ('raw, 'b) act"
  assumes "wp m (\<lambda>x. wp (f x) Q E) E s"
  shows "wp (bind_act m f) Q E s"
proof (rule wpI)
  fix w :: "'raw kv_world" assume "kw_store w = s"
  then have a: "ends_with m (\<lambda>x. wp (f x) Q E) E w" using assms by (simp add: wp_def)
  obtain r w' where m: "m w = (r, w')" by fastforce
  show "ends_with (bind_act m f) Q E w"
  proof (cases r)
    case (Inr x)
    then have b: "wp (f x) Q E (kw_store w')" "kw_left w = None \<longrightarrow> kw_left w' = None" using a m by (simp_all add: ends_with_def)
    have "ends_with (f x) Q E w'" by (rule wp_ends [OF b(1)])
    then show ?thesis using b(2) Inr m by (auto simp: ends_with_def bind_act_def split: prod.splits sum.splits)
  qed (use a m in \<open>simp add: ends_with_def bind_act_def\<close>)
qed

lemma wp_get: "Q (fmlookup s key) s \<Longrightarrow> E StoreError s \<Longrightarrow> wp (ds_get key) Q E s"
  by (auto simp: wp_def ends_with_def ds_get_def spend_def split: option.splits nat.splits)

lemma wp_change: "Q () (f s) \<Longrightarrow> E StoreError s \<Longrightarrow> E StoreError (f s) \<Longrightarrow> wp (ds_change f) Q E s"
  by (auto simp: wp_def ends_with_def ds_change_def spend_def split: option.splits nat.splits)

lemma wp_put: "Q () (fmupd key v s) \<Longrightarrow> E StoreError s \<Longrightarrow> E StoreError (fmupd key v s) \<Longrightarrow> wp (ds_put key v) Q E s"
  unfolding ds_put_def by (rule wp_change)

lemma wp_delete: "Q () (fmdrop key s) \<Longrightarrow> E StoreError s \<Longrightarrow> E StoreError (fmdrop key s) \<Longrightarrow> wp (ds_delete key) Q E s"
  unfolding ds_delete_def by (rule wp_change)

lemma wp_decode: "dec raw = Some x \<Longrightarrow> Q x s \<Longrightarrow> wp (decode dec raw) Q E s"
  by (simp add: decode_def wp_ret)

lemma wp_weaken:
  assumes "wp m Q E s" and "\<And>x s. Q x s \<Longrightarrow> Q' x s" and "\<And>e s. E e s \<Longrightarrow> E' e s"
  shows "wp m Q' E' s"
  using assms by (fastforce simp: wp_def ends_with_def split: prod.splits sum.splits)

lemmas wp_intros = wp_bind wp_ret wp_get wp_put wp_delete


section \<open>Reading and writing the records\<close>

definition readControl :: "'raw codec \<Rightarrow> string \<Rightarrow> ('raw, ControlRecord option) act" where
  "readControl cd prefix =
     bind_act (ds_get (ControlKey prefix))
       (\<lambda>raw. case raw of None \<Rightarrow> ret None | Some r \<Rightarrow> bind_act (decode (dec_control cd) r) (\<lambda>c. ret (Some c)))"

definition writeControl :: "'raw codec \<Rightarrow> string \<Rightarrow> ControlRecord \<Rightarrow> ('raw, unit) act" where
  "writeControl cd prefix control = ds_put (ControlKey prefix) (enc_control cd control)"

text \<open>The loops of \<^verbatim>\<open>readHistory\<close>: from index \<open>i\<close> on until a key is missing. They end because the store is finite.\<close>

definition stored_from :: "(nat \<Rightarrow> string) \<Rightarrow> nat \<Rightarrow> 'raw kv_world \<Rightarrow> nat set" where
  "stored_from key i w = {j. i \<le> j \<and> key j \<in> fmdom' (kw_store w)}"

definition item_key :: "bool \<Rightarrow> string \<Rightarrow> nat \<Rightarrow> string" where
  "item_key turns prefix = (if turns then TurnKey prefix else EventKey prefix)"

lemma item_key_inj: "inj (item_key turns prefix)"
  by (auto simp: inj_def item_key_def)

lemma finite_stored: "finite (stored_from (item_key t p) i w)"
proof -
  have "finite (item_key t p ` stored_from (item_key t p) i w)"
    by (rule finite_subset [of _ "fmdom' (kw_store w)"]) (auto simp: stored_from_def)
  then show ?thesis using item_key_inj [of t p] by (metis finite_imageD inj_on_subset subset_UNIV)
qed

lemma stored_step:
  assumes "ds_get (item_key t p i) w = (Inr (Some raw), w')"
  shows "card (stored_from (item_key t p) (Suc i) w') < card (stored_from (item_key t p) i w)"
proof (rule psubset_card_mono [OF finite_stored])
  have s: "kw_store w' = kw_store w" "fmlookup (kw_store w) (item_key t p i) = Some raw"
    using assms by (auto simp: ds_get_def spend_def split: option.splits nat.splits)
  then have "i \<in> stored_from (item_key t p) i w" by (simp add: stored_from_def fmdom'I)
  moreover have "i \<notin> stored_from (item_key t p) (Suc i) w'" by (simp add: stored_from_def)
  moreover have "stored_from (item_key t p) (Suc i) w' \<subseteq> stored_from (item_key t p) i w"
    using s(1) by (auto simp: stored_from_def)
  ultimately show "stored_from (item_key t p) (Suc i) w' \<subset> stored_from (item_key t p) i w" by blast
qed

function read_items :: "bool \<Rightarrow> string \<Rightarrow> ('raw \<Rightarrow> 'x option) \<Rightarrow> nat \<Rightarrow> ('raw, 'x list) act" where
  "read_items turns prefix dec i w =
     (case ds_get (item_key turns prefix i) w of
        (Inl e, w') \<Rightarrow> (Inl e, w')
      | (Inr None, w') \<Rightarrow> (Inr [], w')
      | (Inr (Some raw), w') \<Rightarrow>
          (case dec raw of
             None \<Rightarrow> (Inl DecodeError, w')
           | Some x \<Rightarrow> (case read_items turns prefix dec (Suc i) w' of (Inl e, w'') \<Rightarrow> (Inl e, w'') | (Inr xs, w'') \<Rightarrow> (Inr (x # xs), w''))))"
  by pat_completeness auto
termination
  by (relation "measure (\<lambda>(turns, prefix, dec, i, w). card (stored_from (item_key turns prefix) i w))")
    (auto intro: stored_step [OF sym])

declare read_items.simps [simp del]

definition readHistory :: "'raw codec \<Rightarrow> string \<Rightarrow> ('raw, TurnRecord list \<times> Event list) act" where
  "readHistory cd prefix =
     bind_act (read_items True prefix (dec_turn cd) 1) (\<lambda>turns. bind_act (read_items False prefix (dec_event cd) 1) (\<lambda>events. ret (turns, events)))"

definition historyExists :: "string \<Rightarrow> ('raw, bool) act" where
  "historyExists prefix =
     bind_act (ds_get (TurnKey prefix 1)) (\<lambda>raw. if raw \<noteq> None then ret True
       else bind_act (ds_get (EventKey prefix 1)) (\<lambda>raw. ret (raw \<noteq> None)))"

section \<open>The registry\<close>

definition scope_complete :: "string \<Rightarrow> string \<Rightarrow> string \<Rightarrow> string \<Rightarrow> bool" where
  "scope_complete tenantID registeredName version sessionCtxID \<longleftrightarrow>
     tenantID \<noteq> [] \<and> registeredName \<noteq> [] \<and> version \<noteq> [] \<and> sessionCtxID \<noteq> []"

definition is_entry :: "string \<Rightarrow> string \<Rightarrow> Entry \<Rightarrow> bool" where
  "is_entry version sessionCtxID entry \<longleftrightarrow> en_FunctionVersion entry = version \<and> en_SessionContextID entry = sessionCtxID"

text \<open>\<open>rk\<close> is the key of the registry; the lock of its shard makes a call one step.\<close>

definition reg_Register :: "'raw codec \<Rightarrow> string \<Rightarrow> bool \<Rightarrow> string \<Rightarrow> string \<Rightarrow> string \<Rightarrow> ('raw, unit) act" where
  "reg_Register cd rk scoped version sessionCtxID now =
     (if \<not> scoped then throw ScopeIncomplete
      else bind_act (ds_get rk) (\<lambda>raw.
        bind_act
          (case raw of
             None \<Rightarrow> ret \<lparr>rg_SchemaVersion = 1, rg_SessionContexts = []\<rparr>
           | Some r \<Rightarrow> bind_act (decode (dec_registry cd) r) (\<lambda>registry.
               if rg_SchemaVersion registry \<noteq> 1 then throw UnsupportedSchema else ret registry))
          (\<lambda>registry.
             if \<exists>entry \<in> set (rg_SessionContexts registry). is_entry version sessionCtxID entry then ret ()
             else ds_put rk (enc_registry cd (registry\<lparr>rg_SessionContexts := rg_SessionContexts registry @
               [\<lparr>en_FunctionVersion = version, en_SessionContextID = sessionCtxID, en_CreatedAt = now\<rparr>]\<rparr>)))))"

definition reg_Unregister :: "'raw codec \<Rightarrow> string \<Rightarrow> bool \<Rightarrow> string \<Rightarrow> string \<Rightarrow> ('raw, unit) act" where
  "reg_Unregister cd rk scoped version sessionCtxID =
     (if \<not> scoped then throw ScopeIncomplete
      else bind_act (ds_get rk) (\<lambda>raw.
        case raw of
          None \<Rightarrow> ret ()
        | Some r \<Rightarrow> bind_act (decode (dec_registry cd) r) (\<lambda>registry.
            let entries = filter (\<lambda>entry. \<not> is_entry version sessionCtxID entry) (rg_SessionContexts registry)
            in if length entries = length (rg_SessionContexts registry) then ret ()
               else ds_put rk (enc_registry cd (registry\<lparr>rg_SessionContexts := entries\<rparr>)))))"

definition reg_Exists :: "'raw codec \<Rightarrow> string \<Rightarrow> bool \<Rightarrow> string \<Rightarrow> string \<Rightarrow> ('raw, bool) act" where
  "reg_Exists cd rk scoped version sessionCtxID =
     (if \<not> scoped then throw ScopeIncomplete
      else bind_act (ds_get rk) (\<lambda>raw.
        case raw of
          None \<Rightarrow> ret False
        | Some r \<Rightarrow> bind_act (decode (dec_registry cd) r) (\<lambda>registry.
            ret (\<exists>entry \<in> set (rg_SessionContexts registry). is_entry version sessionCtxID entry))))"

section \<open>What they do\<close>

text \<open>The registry of a store, when it has one that can be read.\<close>

definition entries_of :: "'raw codec \<Rightarrow> string \<Rightarrow> (string, 'raw) gomap \<Rightarrow> Entry list option" where
  "entries_of cd rk s =
     (case fmlookup s rk of
        None \<Rightarrow> Some []
      | Some raw \<Rightarrow> (case dec_registry cd raw of
          None \<Rightarrow> None
        | Some r \<Rightarrow> if rg_SchemaVersion r = 1 then Some (rg_SessionContexts r) else None))"

definition registered :: "'raw codec \<Rightarrow> string \<Rightarrow> string \<Rightarrow> string \<Rightarrow> (string, 'raw) gomap \<Rightarrow> bool" where
  "registered cd rk version sessionCtxID s \<longleftrightarrow>
     (\<exists>es. entries_of cd rk s = Some es \<and> (\<exists>entry \<in> set es. is_entry version sessionCtxID entry))"

lemma wp_readControl_None:
  "fmlookup s (ControlKey p) = None \<Longrightarrow> Q None s \<Longrightarrow> E StoreError s \<Longrightarrow> wp (readControl cd p) Q E s"
  unfolding readControl_def by (rule wp_bind, rule wp_get) (simp_all add: wp_ret)

lemma wp_readControl_Some:
  "fmlookup s (ControlKey p) = Some raw \<Longrightarrow> dec_control cd raw = Some c \<Longrightarrow> Q (Some c) s \<Longrightarrow> E StoreError s \<Longrightarrow>
   wp (readControl cd p) Q E s"
  unfolding readControl_def by (rule wp_bind, rule wp_get) (auto intro!: wp_bind wp_decode wp_ret)

lemma wp_writeControl:
  "Q () (fmupd (ControlKey p) (enc_control cd c) s) \<Longrightarrow> E StoreError s \<Longrightarrow> E StoreError (fmupd (ControlKey p) (enc_control cd c) s) \<Longrightarrow>
   wp (writeControl cd p c) Q E s"
  unfolding writeControl_def by (rule wp_put)

text \<open>A list of records under consecutive keys.\<close>

definition listed :: "(nat \<Rightarrow> string) \<Rightarrow> ('raw \<Rightarrow> 'x option) \<Rightarrow> nat \<Rightarrow> 'x list \<Rightarrow> (string, 'raw) gomap \<Rightarrow> bool" where
  "listed key dec i xs s \<longleftrightarrow>
     (\<forall>j < length xs. \<exists>raw. fmlookup s (key (i + j)) = Some raw \<and> dec raw = Some (xs ! j)) \<and> fmlookup s (key (i + length xs)) = None"

lemma listed_Nil: "listed key dec i [] s \<longleftrightarrow> fmlookup s (key i) = None"
  by (simp add: listed_def)

lemma listed_Cons:
  "listed key dec i (x # xs) s \<longleftrightarrow> (\<exists>raw. fmlookup s (key i) = Some raw \<and> dec raw = Some x) \<and> listed key dec (Suc i) xs s"
  unfolding listed_def by (auto simp: nth_Cons less_Suc_eq_0_disj split: nat.splits)

lemma wp_read_items:
  assumes "listed (item_key t p) dec i xs s" and "E StoreError s"
  shows "wp (read_items t p dec i) (\<lambda>ys s'. ys = xs \<and> s' = s) E s"
  using assms
proof (induction xs arbitrary: i)
  case Nil
  then show ?case
    by (auto simp: listed_Nil wp_def ends_with_def read_items.simps [of t p dec i] ds_get_def spend_def split: option.splits nat.splits)
next
  case (Cons x xs)
  then obtain raw where raw: "fmlookup s (item_key t p i) = Some raw" "dec raw = Some x"
    and rest: "listed (item_key t p) dec (Suc i) xs s" by (auto simp: listed_Cons)
  have eq: "read_items t p dec i = bind_act (ds_get (item_key t p i)) (\<lambda>r. case r of None \<Rightarrow> ret []
      | Some raw \<Rightarrow> bind_act (decode dec raw) (\<lambda>x. bind_act (read_items t p dec (Suc i)) (\<lambda>xs. ret (x # xs))))"
    by (rule ext, subst read_items.simps)
      (auto simp: bind_act_def ret_def decode_def throw_def split: prod.splits sum.splits option.splits)
  have "wp (read_items t p dec (Suc i)) (\<lambda>ys. wp (ret (x # ys)) (\<lambda>ys s'. ys = x # xs \<and> s' = s) E) E s"
    by (rule wp_weaken [OF Cons.IH [OF rest Cons.prems(2)]]) (auto intro: wp_ret)
  then show ?case unfolding eq using raw Cons.prems(2) by (intro wp_bind wp_get) (auto intro!: wp_bind wp_decode)
qed


lemma wp_readHistory:
  assumes "listed (TurnKey p) (dec_turn cd) 1 ts s" and "listed (EventKey p) (dec_event cd) 1 es s" and "Q (ts, es) s" and "E StoreError s"
  shows "wp (readHistory cd p) Q E s"
proof -
  have k: "item_key True p = TurnKey p" "item_key False p = EventKey p" by (simp_all add: item_key_def)
  have "wp (read_items False p (dec_event cd) 1) (\<lambda>es s'. wp (ret (ts, es)) Q E s') E s"
    by (rule wp_weaken [OF wp_read_items [where xs = es and E = E]]) (use assms k in \<open>auto intro: wp_ret\<close>)
  then show ?thesis unfolding readHistory_def
    by (intro wp_bind, intro wp_weaken [OF wp_read_items [where xs = ts and E = E]]) (use assms k in \<open>auto intro: wp_bind\<close>)
qed

lemma wp_historyExists_no:
  assumes "fmlookup s (TurnKey p 1) = None" and "fmlookup s (EventKey p 1) = None" and "Q False s" and "E StoreError s"
  shows "wp (historyExists p) Q E s"
  unfolding historyExists_def
  by (rule wp_bind, rule wp_get) (use assms in \<open>auto intro!: wp_bind wp_get wp_ret\<close>)

lemma wp_Register:
  assumes "codec_ok cd" and "entries_of cd rk s = Some es" and "scoped" and "E StoreError s"
    and step: "\<And>s'. (\<And>k. k \<noteq> rk \<Longrightarrow> fmlookup s' k = fmlookup s k) \<Longrightarrow> registered cd rk v c s' \<Longrightarrow>
      (\<exists>es'. entries_of cd rk s' = Some es' \<and> (\<forall>e \<in> set es'. e \<in> set es \<or> is_entry v c e) \<and> set es \<subseteq> set es') \<Longrightarrow> Q () s' \<and> E StoreError s'"
  shows "wp (reg_Register cd rk scoped v c now) Q E s"
proof -
  let ?new = "\<lambda>r. r\<lparr>rg_SessionContexts := rg_SessionContexts r @ [\<lparr>en_FunctionVersion = v, en_SessionContextID = c, en_CreatedAt = now\<rparr>]\<rparr>"
  have put: "Q () (fmupd rk (enc_registry cd (?new r)) s)" "E StoreError (fmupd rk (enc_registry cd (?new r)) s)"
    if "rg_SchemaVersion r = 1" "rg_SessionContexts r = es" for r
    using step [of "fmupd rk (enc_registry cd (?new r)) s"] assms(1) that
    by (auto simp: registered_def entries_of_def codec_ok_def is_entry_def)
  have same: "Q () s" if "\<exists>e \<in> set es. is_entry v c e" using step [of s] assms(2) that by (auto simp: registered_def)
  let ?act = "\<lambda>registry. if \<exists>e \<in> set (rg_SessionContexts registry). is_entry v c e then ret ()
      else ds_put rk (enc_registry cd (?new registry))"
  have act: "wp (?act r) Q E s" if "rg_SchemaVersion r = 1" "rg_SessionContexts r = es" for r
    using put [OF that] same assms(4) that by (auto intro!: wp_ret wp_put)
  have "wp (case fmlookup s rk of
             None \<Rightarrow> ret \<lparr>rg_SchemaVersion = 1, rg_SessionContexts = []\<rparr>
           | Some r \<Rightarrow> bind_act (decode (dec_registry cd) r) (\<lambda>registry.
               if rg_SchemaVersion registry \<noteq> 1 then throw UnsupportedSchema else ret registry)) (\<lambda>r. wp (?act r) Q E) E s"
  proof (cases "fmlookup s rk")
    case None
    then show ?thesis using act [of "\<lparr>rg_SchemaVersion = 1, rg_SessionContexts = []\<rparr>"] assms(2)
      by (simp add: entries_of_def wp_ret)
  next
    case (Some raw)
    then obtain r where r: "dec_registry cd raw = Some r" "rg_SchemaVersion r = 1" "rg_SessionContexts r = es"
      using assms(2) by (auto simp: entries_of_def split: option.splits if_splits)
    then show ?thesis using Some act [of r] by (auto intro!: wp_bind wp_decode wp_ret)
  qed
  then show ?thesis unfolding reg_Register_def using assms(3,4) by (auto intro!: wp_bind wp_get)
qed

lemma wp_Unregister:
  assumes "codec_ok cd" and "entries_of cd rk s = Some es" and "scoped" and "E StoreError s"
    and step: "\<And>s'. (\<And>k. k \<noteq> rk \<Longrightarrow> fmlookup s' k = fmlookup s k) \<Longrightarrow> \<not> registered cd rk v c s' \<Longrightarrow>
      entries_of cd rk s' = Some (filter (\<lambda>e. \<not> is_entry v c e) es) \<Longrightarrow> Q () s' \<and> E StoreError s'"
  shows "wp (reg_Unregister cd rk scoped v c) Q E s"
proof -
  let ?new = "\<lambda>r. r\<lparr>rg_SessionContexts := filter (\<lambda>e. \<not> is_entry v c e) (rg_SessionContexts r)\<rparr>"
  have put: "Q () (fmupd rk (enc_registry cd (?new r)) s)" "E StoreError (fmupd rk (enc_registry cd (?new r)) s)"
    if "rg_SchemaVersion r = 1" "rg_SessionContexts r = es" for r
  proof -
    let ?s = "fmupd rk (enc_registry cd (?new r)) s"
    have e: "entries_of cd rk ?s = Some (filter (\<lambda>e. \<not> is_entry v c e) es)" using assms(1) that by (simp add: entries_of_def codec_ok_def)
    then have n: "\<not> registered cd rk v c ?s" by (simp add: registered_def)
    show "Q () ?s" "E StoreError ?s" using step [OF _ n e] by simp_all
  qed
  have same: "Q () s" if "length (filter (\<lambda>e. \<not> is_entry v c e) es) = length es"
  proof -
    have "\<forall>e \<in> set es. \<not> is_entry v c e" using that by (metis filter_id_conv length_filter_less less_irrefl)
    then show ?thesis using step [of s] assms(2) by (auto simp: registered_def filter_id_conv)
  qed
  show ?thesis
  proof (cases "fmlookup s rk")
    case None
    then have "es = []" using assms(2) by (simp add: entries_of_def)
    then show ?thesis unfolding reg_Unregister_def using None same assms(3,4) by (auto intro!: wp_bind wp_get wp_ret)
  next
    case (Some raw)
    then obtain r where r: "dec_registry cd raw = Some r" "rg_SchemaVersion r = 1" "rg_SessionContexts r = es"
      using assms(2) by (auto simp: entries_of_def split: option.splits if_splits)
    have "wp (let entries = filter (\<lambda>e. \<not> is_entry v c e) (rg_SessionContexts r)
      in if length entries = length (rg_SessionContexts r) then ret ()
         else ds_put rk (enc_registry cd (r\<lparr>rg_SessionContexts := entries\<rparr>))) Q E s"
      using put [OF r(2,3)] same r(3) assms(4) by (auto simp: Let_def intro!: wp_ret wp_put)
    then show ?thesis unfolding reg_Unregister_def using Some r(1) assms(3,4) by (auto intro!: wp_bind wp_get wp_decode)
  qed
qed

lemma wp_Exists:
  assumes "entries_of cd rk s = Some es" and "scoped" and "E StoreError s" and "Q (registered cd rk v c s) s"
  shows "wp (reg_Exists cd rk scoped v c) Q E s"
  unfolding reg_Exists_def using assms(2,3)
  by (auto simp: intro!: wp_bind wp_get)
    (use assms(1,4) in \<open>auto simp: registered_def entries_of_def intro!: wp_ret wp_bind wp_decode split: option.splits if_splits\<close>)

end
