(* ===== verification/SessionContext.thy ===== *)
theory SessionContext
  imports ContextStore LitePool "HOL-Library.List_Lexorder" "HOL-Library.Char_ord"
begin

text \<open>
  The manager of session contexts (\<^verbatim>\<open>functionscaler/sessioncontextmanager/manager.go\<close>): a context is a conversation whose
  turns and events are records in the data system. It can be forked at a completed turn, which copies its history, and
  deleted; scale hints make an instance for it. All operations on a context hold its lock, and a fork holds the
  locks of both contexts, so each operation is one program over the store.

  \<open>px\<close> gives the prefix of the keys of a context and \<open>rk\<close> is the key of the registry; the operations of the code are
  the ones with \<open>sessionPrefix\<close> and \<open>registry_Key\<close>. The clock is read several times in a call; only the texts
  \<^verbatim>\<open>CreatedAt\<close> and \<^verbatim>\<open>UpdatedAt\<close> depend on it, and they are all \<open>now\<close> here.
\<close>

section \<open>Fork\<close>

record ForkRequest =
  fk_TenantID :: string
  fk_FuncKey :: string
  fk_SourceSessionCtxID :: string
  fk_TargetSessionCtxID :: string
  fk_TurnID :: string

text \<open>The name and version of a function, from \<^verbatim>\<open>FuncMetaData\<close>.\<close>

record ctx_spec =
  xs_Name :: string
  xs_Version :: string

abbreviation (input) copyBatchSize :: nat where "copyBatchSize \<equiv> 100"

text \<open>
  One loop of \<^verbatim>\<open>copyHistory\<close>, for items with an index: items up to the one the control record has as copied and those
  after the fork are skipped; progress is written to the store after every hundredth item. The loop over the
  turns and the one over the events are the same but for the fields they use.
\<close>

fun copy_items ::
  "('x \<Rightarrow> nat) \<Rightarrow> ('x \<Rightarrow> ('raw, unit) act) \<Rightarrow> (ControlRecord \<Rightarrow> nat) \<Rightarrow> (nat \<Rightarrow> ControlRecord \<Rightarrow> ControlRecord) \<Rightarrow> (ControlRecord \<Rightarrow> nat) \<Rightarrow>
   (ControlRecord \<Rightarrow> ('raw, unit) act) \<Rightarrow> string \<Rightarrow> 'x list \<Rightarrow> ControlRecord \<Rightarrow> ('raw, ControlRecord) act" where
  "copy_items index put_item copied set_copied last_item checkpoint now [] control = ret control"
| "copy_items index put_item copied set_copied last_item checkpoint now (item # items) control =
     (if index item \<le> copied control \<or> index item > last_item control
      then copy_items index put_item copied set_copied last_item checkpoint now items control
      else bind_act (put_item item) (\<lambda>_.
        let control1 = set_copied (index item) control
        in if index item mod copyBatchSize = 0
           then let control2 = control1\<lparr>cr_UpdatedAt := now\<rparr>
                in bind_act (checkpoint control2) (\<lambda>_.
                     copy_items index put_item copied set_copied last_item checkpoint now items control2)
           else copy_items index put_item copied set_copied last_item checkpoint now items control1))"

abbreviation set_CopiedTurn :: "nat \<Rightarrow> ControlRecord \<Rightarrow> ControlRecord" where
  "set_CopiedTurn n c \<equiv> c\<lparr>cr_CopiedTurn := n\<rparr>"

abbreviation set_CopiedSeq :: "nat \<Rightarrow> ControlRecord \<Rightarrow> ControlRecord" where
  "set_CopiedSeq n c \<equiv> c\<lparr>cr_CopiedSeq := n\<rparr>"

definition copy_turns :: "'raw codec \<Rightarrow> string \<Rightarrow> string \<Rightarrow> string \<Rightarrow> TurnRecord list \<Rightarrow> ControlRecord \<Rightarrow> ('raw, ControlRecord) act" where
  "copy_turns cd pfx target now =
     copy_items tr_TurnIndex (\<lambda>turn. ds_put (TurnKey pfx (tr_TurnIndex turn)) (enc_turn cd (turn\<lparr>tr_SessionContextID := target\<rparr>)))
       cr_CopiedTurn set_CopiedTurn cr_ForkTurnIndex (writeControl cd pfx) now"

definition copy_events :: "'raw codec \<Rightarrow> string \<Rightarrow> string \<Rightarrow> string \<Rightarrow> Event list \<Rightarrow> ControlRecord \<Rightarrow> ('raw, ControlRecord) act" where
  "copy_events cd pfx target now =
     copy_items ev_Seq (\<lambda>event. ds_put (EventKey pfx (ev_Seq event)) (enc_event cd (event\<lparr>ev_SessionContextID := target\<rparr>)))
       cr_CopiedSeq set_CopiedSeq cr_ForkSeq (writeControl cd pfx) now"

definition copyHistory ::
  "'raw codec \<Rightarrow> string \<Rightarrow> string \<Rightarrow> string \<Rightarrow> TurnRecord list \<Rightarrow> Event list \<Rightarrow> ControlRecord \<Rightarrow> ('raw, ControlRecord) act" where
  "copyHistory cd pfx target now turns events control =
     bind_act (copy_turns cd pfx target now turns control) (\<lambda>control1.
       bind_act (copy_events cd pfx target now events control1) (\<lambda>control2.
         let control3 = control2\<lparr>cr_UpdatedAt := now\<rparr>
         in bind_act (writeControl cd pfx control3) (\<lambda>_. ret control3)))"

text \<open>The sequence number of the last completion event of a turn, 0 if there is none.\<close>

definition fork_seq :: "string \<Rightarrow> Event list \<Rightarrow> nat" where
  "fork_seq turnID events =
     fold (\<lambda>event forkSeq. if ev_TurnID event = turnID \<and> ev_Type event = ''turn.completed'' then ev_Seq event else forkSeq) events 0"

definition fork_finish ::
  "'raw codec \<Rightarrow> string \<Rightarrow> string \<Rightarrow> bool \<Rightarrow> string \<Rightarrow> string \<Rightarrow> string \<Rightarrow> TurnRecord list \<Rightarrow> Event list \<Rightarrow> ControlRecord \<Rightarrow> ('raw, bool) act" where
  "fork_finish cd pfx rk scoped version target now turns events control =
     bind_act (copyHistory cd pfx target now turns events control) (\<lambda>control1.
       bind_act (writeControl cd pfx (control1\<lparr>cr_State := StateReady, cr_UpdatedAt := now\<rparr>)) (\<lambda>_.
         bind_act (reg_Register cd rk scoped version target now) (\<lambda>_. ret False)))"

text \<open>
  The second half of \<^verbatim>\<open>Fork\<close>, once the turn and its completion are found: the target must be new or a fork of the same
  turn. The result says whether an earlier call had already made it ready.
\<close>

definition fork_target ::
  "'raw codec \<Rightarrow> string \<Rightarrow> string \<Rightarrow> bool \<Rightarrow> string \<Rightarrow> string \<Rightarrow> ForkRequest \<Rightarrow> TurnRecord list \<Rightarrow> Event list \<Rightarrow> nat \<Rightarrow> nat \<Rightarrow> ('raw, bool) act" where
  "fork_target cd pfx rk scoped version now req turns events forkTurnIndex forkSeq =
     (let finish = fork_finish cd pfx rk scoped version (fk_TargetSessionCtxID req) now turns events
      in bind_act (readControl cd pfx) (\<lambda>targetControl.
        case targetControl of
          Some control \<Rightarrow>
            if \<not> (cr_ForkedFrom control = fk_SourceSessionCtxID req \<and> cr_ForkTurnID control = fk_TurnID req)
            then throw (CtxError ''TARGET_SESSION_CTX_EXISTS'')
            else if cr_State control = StateReady then ret True
            else finish control
        | None \<Rightarrow>
            bind_act (reg_Exists cd rk scoped version (fk_TargetSessionCtxID req)) (\<lambda>exists.
              if exists then throw (CtxError ''TARGET_SESSION_CTX_EXISTS'')
              else bind_act (historyExists pfx) (\<lambda>exists.
                if exists then throw (CtxError ''TARGET_SESSION_CTX_EXISTS'')
                else
                  let control = \<lparr>cr_SchemaVersion = 1, cr_State = StateCreating, cr_ForkedFrom = fk_SourceSessionCtxID req,
                        cr_ForkTurnID = fk_TurnID req, cr_ForkTurnIndex = forkTurnIndex, cr_ForkSeq = forkSeq, cr_CopiedTurn = 0, cr_CopiedSeq = 0,
                        cr_DeleteTurnUpperBound = 0, cr_DeleteSeqUpperBound = 0, cr_CreatedAt = now, cr_UpdatedAt = now\<rparr>
                  in bind_act (writeControl cd pfx control) (\<lambda>_. finish control)))))"

definition fork_act :: "'raw codec \<Rightarrow> (string \<Rightarrow> string) \<Rightarrow> string \<Rightarrow> ctx_spec \<Rightarrow> string \<Rightarrow> ForkRequest \<Rightarrow> ('raw, bool) act" where
  "fork_act cd px rk spec now req =
     bind_act (readControl cd (px (fk_SourceSessionCtxID req))) (\<lambda>sourceControl.
       if map_option cr_State sourceControl = Some StateDeleting then throw (CtxError ''SOURCE_SESSION_CTX_DELETING'')
       else bind_act (readHistory cd (px (fk_SourceSessionCtxID req))) (\<lambda>(turns, events).
         case find (\<lambda>t. tr_TurnID t = fk_TurnID req) turns of
           None \<Rightarrow> throw (CtxError ''TURN_NOT_FOUND'')
         | Some forkTurn \<Rightarrow>
             if fork_seq (fk_TurnID req) events = 0 then throw (CtxError ''TURN_NOT_COMPLETED'')
             else fork_target cd (px (fk_TargetSessionCtxID req)) rk
                    (scope_complete (fk_TenantID req) (xs_Name spec) (xs_Version spec) (fk_TargetSessionCtxID req)) (xs_Version spec) now req
                    turns events (tr_TurnIndex forkTurn) (fork_seq (fk_TurnID req) events)))"

section \<open>The manager\<close>

text \<open>What is under way for a context; the channel \<^verbatim>\<open>CreateDone\<close> has no reader and is left out.\<close>

record runtimeOperation =
  op_Creating :: bool
  op_PendingScale :: bool
  op_LastError :: "ctx_error option"

type_synonym operations = "(string, runtimeOperation) gomap"

definition operationKey :: "string \<Rightarrow> string \<Rightarrow> string" where
  "operationKey funcKey sessionCtxID = JoinKey [funcKey, sessionCtxID]"

definition get_operation :: "string \<Rightarrow> operations \<Rightarrow> runtimeOperation" where
  "get_operation key ops =
     (case fmlookup ops key of None \<Rightarrow> \<lparr>op_Creating = False, op_PendingScale = False, op_LastError = None\<rparr> | Some op \<Rightarrow> op)"

text \<open>The locks of a fork, in the order in which it takes them.\<close>

definition fork_locks :: "ForkRequest \<Rightarrow> string list" where
  "fork_locks req =
     (let first = operationKey (fk_FuncKey req) (fk_SourceSessionCtxID req);
          second = operationKey (fk_FuncKey req) (fk_TargetSessionCtxID req)
      in if first = second then [first] else if first > second then [second, first] else [first, second])"

text \<open>
  The result of \<^verbatim>\<open>Fork\<close>; \<open>fr_launch\<close> is whether a goroutine is started for a scale hint that came while the
  target was being created.
\<close>

record 'raw fork_result =
  fr_error :: "ctx_error option"
  fr_launch :: bool
  fr_operations :: operations
  fr_world :: "'raw kv_world"

definition fork_with ::
  "'raw codec \<Rightarrow> (string \<Rightarrow> string) \<Rightarrow> string \<Rightarrow> ctx_spec option \<Rightarrow> string \<Rightarrow> ForkRequest \<Rightarrow> operations \<Rightarrow> 'raw kv_world \<Rightarrow> 'raw fork_result" where
  "fork_with cd px rk spec now req ops w =
     (case spec of
        None \<Rightarrow> \<lparr>fr_error = Some (CtxError ''FUNCTION_NOT_FOUND''), fr_launch = False, fr_operations = ops, fr_world = w\<rparr>
      | Some sp \<Rightarrow>
          (case fork_act cd px rk sp now req w of
             (Inl e, w') \<Rightarrow> \<lparr>fr_error = Some e, fr_launch = False, fr_operations = ops, fr_world = w'\<rparr>
           | (Inr True, w') \<Rightarrow> \<lparr>fr_error = None, fr_launch = False, fr_operations = ops, fr_world = w'\<rparr>
           | (Inr False, w') \<Rightarrow>
               let key = operationKey (fk_FuncKey req) (fk_TargetSessionCtxID req)
               in (case fmlookup ops key of
                     None \<Rightarrow> \<lparr>fr_error = None, fr_launch = False, fr_operations = ops, fr_world = w'\<rparr>
                   | Some op \<Rightarrow> \<lparr>fr_error = None, fr_launch = op_PendingScale op,
                       fr_operations = fmupd key (op\<lparr>op_PendingScale := False\<rparr>) ops, fr_world = w'\<rparr>)))"

definition Fork :: "'raw codec \<Rightarrow> ctx_spec option \<Rightarrow> string \<Rightarrow> ForkRequest \<Rightarrow> operations \<Rightarrow> 'raw kv_world \<Rightarrow> 'raw fork_result" where
  "Fork cd spec now req ops w =
     (case spec of
        None \<Rightarrow> fork_with cd id [] None now req ops w
      | Some sp \<Rightarrow> fork_with cd (sessionPrefix (fk_TenantID req) (xs_Name sp) (xs_Version sp)) (registry_Key (xs_Name sp)) spec now req ops w)"

section \<open>Delete\<close>

record DeleteRequest =
  dr_TenantID :: string
  dr_FuncKey :: string
  dr_SessionCtxID :: string

text \<open>Up to the mark: nothing to do, or the control record with which the context is being deleted.\<close>

definition delete_prepare ::
  "'raw codec \<Rightarrow> string \<Rightarrow> string \<Rightarrow> bool \<Rightarrow> string \<Rightarrow> string \<Rightarrow> string \<Rightarrow> ('raw, ControlRecord option) act" where
  "delete_prepare cd pfx rk scoped version sessionCtxID now =
     bind_act (readControl cd pfx) (\<lambda>control.
       bind_act (readHistory cd pfx) (\<lambda>(turns, events).
         bind_act (reg_Exists cd rk scoped version sessionCtxID) (\<lambda>known.
           if control = None \<and> turns = [] \<and> events = [] \<and> \<not> known then ret None
           else if map_option cr_State control = Some StateDeleting then ret control
           else
             let createdAt = (case control of None \<Rightarrow> now | Some c \<Rightarrow> if cr_CreatedAt c \<noteq> [] then cr_CreatedAt c else now);
                 control' = \<lparr>cr_SchemaVersion = 1, cr_State = StateDeleting, cr_ForkedFrom = [], cr_ForkTurnID = [], cr_ForkTurnIndex = 0,
                   cr_ForkSeq = 0, cr_CopiedTurn = 0, cr_CopiedSeq = 0,
                   cr_DeleteTurnUpperBound = (if turns \<noteq> [] then tr_TurnIndex (last turns) else length turns),
                   cr_DeleteSeqUpperBound = (if events \<noteq> [] then ev_Seq (last events) else length events),
                   cr_CreatedAt = createdAt, cr_UpdatedAt = now\<rparr>
             in bind_act (writeControl cd pfx control') (\<lambda>_. ret (Some control')))))"

fun delete_items :: "(nat \<Rightarrow> string) \<Rightarrow> nat list \<Rightarrow> ('raw, unit) act" where
  "delete_items key [] = ret ()"
| "delete_items key (i # is) = bind_act (ds_delete (key i)) (\<lambda>_. delete_items key is)"

definition delete_finish :: "'raw codec \<Rightarrow> string \<Rightarrow> string \<Rightarrow> bool \<Rightarrow> string \<Rightarrow> string \<Rightarrow> ControlRecord \<Rightarrow> ('raw, unit) act" where
  "delete_finish cd pfx rk scoped version sessionCtxID control =
     bind_act (delete_items (TurnKey pfx) [1..<Suc (cr_DeleteTurnUpperBound control)]) (\<lambda>_.
       bind_act (delete_items (EventKey pfx) [1..<Suc (cr_DeleteSeqUpperBound control)]) (\<lambda>_.
         bind_act (reg_Unregister cd rk scoped version sessionCtxID) (\<lambda>_. ds_delete (ControlKey pfx))))"

text \<open>
  The instances of the context: they are deleted, up to the first error, and then the manager polls until the pool lists none;
  \<open>polls\<close> are the polls with their instants, whether an instance was still listed.
\<close>

definition sameContext :: "Instance \<Rightarrow> string \<Rightarrow> bool" where
  "sameContext instance sessionCtxID \<longleftrightarrow> in_SessionCtxID instance = Some sessionCtxID"

fun delete_instances :: "(Instance \<Rightarrow> bool) \<Rightarrow> Instance list \<Rightarrow> Instance list \<times> ctx_error option" where
  "delete_instances fails [] = ([], None)"
| "delete_instances fails (i # is) =
     (if fails i then ([], Some PoolError)
      else case delete_instances fails is of (deleted, err) \<Rightarrow> (i # deleted, err))"

fun wait_gone :: "time \<Rightarrow> (time \<times> bool) list \<Rightarrow> ctx_error option option" where
  "wait_gone deadline [] = None"
| "wait_gone deadline ((t, present) # polls) =
     (if \<not> present then Some None
      else if t > deadline then Some (Some (CtxError ''INSTANCE_STOP_TIMEOUT''))
      else wait_gone deadline polls)"

abbreviation (input) instanceStopWait :: duration where "instanceStopWait \<equiv> 30 * second"

text \<open>
  \<open>None\<close>: the manager still polls. The instances of the context are live until they are deleted: \<open>others\<close> is what they
  and everybody else do to the store between the preparation and the removal of the items.
\<close>

definition delete_with ::
  "'raw codec \<Rightarrow> (string \<Rightarrow> string) \<Rightarrow> string \<Rightarrow> ctx_spec option \<Rightarrow> string \<Rightarrow> DeleteRequest \<Rightarrow> Instance list \<Rightarrow> (Instance \<Rightarrow> bool) \<Rightarrow> time \<Rightarrow>
   (time \<times> bool) list \<Rightarrow> ('raw kv_world \<Rightarrow> 'raw kv_world) \<Rightarrow> 'raw kv_world \<Rightarrow> (ctx_error option \<times> 'raw kv_world) option" where
  "delete_with cd px rk spec now req instances fails start polls others w =
     (case spec of
        None \<Rightarrow> Some (Some (CtxError ''FUNCTION_NOT_FOUND''), w)
      | Some sp \<Rightarrow>
          (let ctx = dr_SessionCtxID req;
               scoped = scope_complete (dr_TenantID req) (xs_Name sp) (xs_Version sp) ctx
           in case delete_prepare cd (px ctx) rk scoped (xs_Version sp) ctx now w of
                (Inl e, w') \<Rightarrow> Some (Some e, w')
              | (Inr None, w') \<Rightarrow> Some (None, w')
              | (Inr (Some control), w') \<Rightarrow>
                  (case delete_instances fails (filter (\<lambda>i. sameContext i ctx) instances) of
                     (_, Some e) \<Rightarrow> Some (Some e, others w')
                   | (_, None) \<Rightarrow>
                       (case wait_gone (start + instanceStopWait) polls of
                          None \<Rightarrow> None
                        | Some (Some e) \<Rightarrow> Some (Some e, others w')
                        | Some None \<Rightarrow>
                            (case delete_finish cd (px ctx) rk scoped (xs_Version sp) ctx control (others w') of
                               (Inl e, w'') \<Rightarrow> Some (Some e, w'')
                             | (Inr _, w'') \<Rightarrow> Some (None, w''))))))"

definition manager_Delete ::
  "'raw codec \<Rightarrow> ctx_spec option \<Rightarrow> string \<Rightarrow> DeleteRequest \<Rightarrow> Instance list \<Rightarrow> (Instance \<Rightarrow> bool) \<Rightarrow> time \<Rightarrow> (time \<times> bool) list \<Rightarrow>
   ('raw kv_world \<Rightarrow> 'raw kv_world) \<Rightarrow> 'raw kv_world \<Rightarrow> (ctx_error option \<times> 'raw kv_world) option" where
  "manager_Delete cd spec now req instances fails start polls others w =
     (case spec of
        None \<Rightarrow> delete_with cd id [] None now req instances fails start polls others w
      | Some sp \<Rightarrow> delete_with cd (sessionPrefix (dr_TenantID req) (xs_Name sp) (xs_Version sp)) (registry_Key (xs_Name sp)) spec now req
          instances fails start polls others w)"

section \<open>Scale hints and idle reports\<close>

definition isExiting :: "Instance \<Rightarrow> bool" where
  "isExiting instance \<longleftrightarrow> in_Code instance \<notin> {3, 11, 2, 1, 0}"

record 'raw hint_result =
  hr_error :: "ctx_error option"
  hr_created :: bool
  hr_operations :: operations
  hr_world :: "'raw kv_world"

text \<open>
  \<^verbatim>\<open>HandleScaleHint\<close>: \<open>instances\<close> is what the pool lists for the function, \<open>createErr\<close> the answer of the pool if an instance is
  created.
\<close>

definition hint_with ::
  "'raw codec \<Rightarrow> (string \<Rightarrow> string) \<Rightarrow> string \<Rightarrow> ctx_spec option \<Rightarrow> string \<Rightarrow> string \<Rightarrow> string \<Rightarrow> string \<Rightarrow> Instance list \<Rightarrow> ctx_error option \<Rightarrow>
   operations \<Rightarrow> 'raw kv_world \<Rightarrow> 'raw hint_result" where
  "hint_with cd px rk spec now tenantID funcKey ctx instances createErr ops w =
     (if funcKey = [] \<or> ctx = [] then
        \<lparr>hr_error = Some (CtxError ''INVALID_SESSION_CONTEXT''), hr_created = False, hr_operations = ops, hr_world = w\<rparr>
      else case spec of
        None \<Rightarrow> \<lparr>hr_error = Some (CtxError ''FUNCTION_NOT_FOUND''), hr_created = False, hr_operations = ops, hr_world = w\<rparr>
      | Some sp \<Rightarrow>
          (let key = operationKey funcKey ctx;
               scoped = scope_complete tenantID (xs_Name sp) (xs_Version sp) ctx;
               register = reg_Register cd rk scoped (xs_Version sp) ctx now
           in case readControl cd (px ctx) w of
                (Inl e, w') \<Rightarrow> \<lparr>hr_error = Some e, hr_created = False, hr_operations = ops, hr_world = w'\<rparr>
              | (Inr control, w') \<Rightarrow>
                  if map_option cr_State control = Some StateDeleting then
                    \<lparr>hr_error = Some (CtxError ''SESSION_CTX_DELETING''), hr_created = False, hr_operations = ops, hr_world = w'\<rparr>
                  else if map_option cr_State control = Some StateCreating then
                    \<lparr>hr_error = None, hr_created = False,
                     hr_operations = fmupd key ((get_operation key ops)\<lparr>op_PendingScale := True\<rparr>) ops, hr_world = w'\<rparr>
                  else if \<exists>i \<in> set instances. sameContext i ctx \<and> \<not> isExiting i then
                    (case register w' of
                       (Inl e, w'') \<Rightarrow> \<lparr>hr_error = Some e, hr_created = False, hr_operations = ops, hr_world = w''\<rparr>
                     | (Inr _, w'') \<Rightarrow> \<lparr>hr_error = None, hr_created = False, hr_operations = ops, hr_world = w''\<rparr>)
                  else
                    let (err, w'') = (case createErr of
                           Some e \<Rightarrow> (Some e, w')
                         | None \<Rightarrow> (case register w' of (Inl e, w'') \<Rightarrow> (Some e, w'') | (Inr _, w'') \<Rightarrow> (None, w'')))
                    in \<lparr>hr_error = err, hr_created = (createErr = None),
                        hr_operations = fmupd key ((get_operation key ops)\<lparr>op_Creating := False, op_LastError := err\<rparr>) ops, hr_world = w''\<rparr>))"

definition HandleScaleHint ::
  "'raw codec \<Rightarrow> ctx_spec option \<Rightarrow> string \<Rightarrow> string \<Rightarrow> string \<Rightarrow> string \<Rightarrow> Instance list \<Rightarrow> ctx_error option \<Rightarrow>
   operations \<Rightarrow> 'raw kv_world \<Rightarrow> 'raw hint_result" where
  "HandleScaleHint cd spec now tenantID funcKey ctx instances createErr ops w =
     (case spec of
        None \<Rightarrow> hint_with cd id [] None now tenantID funcKey ctx instances createErr ops w
      | Some sp \<Rightarrow> hint_with cd (sessionPrefix tenantID (xs_Name sp) (xs_Version sp)) (registry_Key (xs_Name sp)) spec now tenantID funcKey ctx
          instances createErr ops w)"

record IdleItem =
  ii_FuncKey :: string
  ii_SessionCtxID :: string
  ii_ItemInstanceID :: string

text \<open>The instances \<^verbatim>\<open>HandleIdle\<close> deletes, and the error it stops with.\<close>

fun HandleIdle :: "(string \<Rightarrow> Instance list) \<Rightarrow> (Instance \<Rightarrow> bool) \<Rightarrow> IdleItem list \<Rightarrow> Instance list \<times> ctx_error option" where
  "HandleIdle list_of fails [] = ([], None)"
| "HandleIdle list_of fails (item # items) =
     (case find (\<lambda>i. in_InstanceID i = ii_ItemInstanceID item \<and> sameContext i (ii_SessionCtxID item)) (list_of (ii_FuncKey item)) of
        None \<Rightarrow> HandleIdle list_of fails items
      | Some i \<Rightarrow>
          if isExiting i then HandleIdle list_of fails items
          else if fails i then ([], Some PoolError)
          else case HandleIdle list_of fails items of (deleted, err) \<Rightarrow> (i # deleted, err))"

end
