(* ===== verification/ContextProps.thy ===== *)
theory ContextProps
  imports SessionContext
begin

text \<open>
  Forking and deleting session contexts when any access to the store may fail: both can be repeated until they succeed,
  and then have done exactly what they should.
\<close>

section \<open>The copying loop\<close>

text \<open>The field of a control record that keeps the progress of a loop, and the index of its last item.\<close>

locale progress =
  fixes copied :: "ControlRecord \<Rightarrow> nat" and set_copied :: "nat \<Rightarrow> ControlRecord \<Rightarrow> ControlRecord" and last_item :: "ControlRecord \<Rightarrow> nat"
  assumes copied_set: "copied (set_copied n c) = n"
    and last_set: "last_item (set_copied n c) = last_item c"
    and stamp: "copied (c\<lparr>cr_UpdatedAt := t\<rparr>) = copied c" "last_item (c\<lparr>cr_UpdatedAt := t\<rparr>) = last_item c"
begin

text \<open>
  \<open>I\<close> holds of the control record in memory and the store, \<open>R\<close> of the store at every moment. The loop copies
  item after item and ends with all items up to the last one copied.
\<close>

lemma wp_copy_items:
  assumes index: "\<And>j. j < length xs \<Longrightarrow> index (xs ! j) = Suc j"
    and put: "\<And>c s k. k < length xs \<Longrightarrow> I c s \<Longrightarrow> R s \<Longrightarrow> copied c = k \<Longrightarrow> k < last_item c \<Longrightarrow>
      wp (put_item (xs ! k)) (\<lambda>_ s'. I (set_copied (Suc k) c) s' \<and> R s') (\<lambda>e s'. e = StoreError \<and> R s') s"
    and check: "\<And>c s. I c s \<Longrightarrow> R s \<Longrightarrow>
      wp (checkpoint (c\<lparr>cr_UpdatedAt := now\<rparr>)) (\<lambda>_ s'. I (c\<lparr>cr_UpdatedAt := now\<rparr>) s' \<and> R s') (\<lambda>e s'. e = StoreError \<and> R s') s"
    and "I c s" "R s" "min k (last_item c) \<le> copied c" "k \<le> length xs"
  shows "wp (copy_items index put_item copied set_copied last_item checkpoint now (drop k xs) c)
    (\<lambda>c' s'. I c' s' \<and> R s' \<and> last_item c' = last_item c \<and> min (length xs) (last_item c) \<le> copied c') (\<lambda>e s'. e = StoreError \<and> R s') s"
  using assms(4-7)
proof (induction "length xs - k" arbitrary: k c s)
  case 0
  then show ?case by (simp add: wp_ret)
next
  case (Suc n)
  then have k: "k < length xs" and n: "n = length xs - Suc k" by simp_all
  have d: "drop k xs = xs ! k # drop (Suc k) xs" by (rule Cons_nth_drop_Suc [OF k, symmetric])
  note ih = Suc.hyps(1) [OF n]
  let ?E = "\<lambda>e s'. e = StoreError \<and> R s'" and ?go = "copy_items index put_item copied set_copied last_item checkpoint now (drop (Suc k) xs)"
  let ?Q = "\<lambda>c' s'. I c' s' \<and> R s' \<and> last_item c' = last_item c \<and> min (length xs) (last_item c) \<le> copied c'"
  show ?case
  proof (cases "Suc k \<le> copied c \<or> Suc k > last_item c")
    case True
    then have "min (Suc k) (last_item c) \<le> copied c" using Suc.prems(3) by auto
    then show ?thesis using ih [of c s] Suc.prems k True by (simp add: d index)
  next
    case False
    then have c: "copied c = k" "k < last_item c" using Suc.prems(3) by auto
    have step: "wp (?go c1) ?Q ?E s1"
      if "I c1 s1" "R s1" "copied c1 = Suc k" "last_item c1 = last_item c" for c1 s1
      using ih [of c1 s1] that k by simp
    let ?c1 = "set_copied (Suc k) c"
    have chk: "wp (bind_act (checkpoint (?c1\<lparr>cr_UpdatedAt := now\<rparr>)) (\<lambda>_. ?go (?c1\<lparr>cr_UpdatedAt := now\<rparr>))) ?Q ?E s1"
      if "I ?c1 s1" "R s1" for s1
      by (rule wp_bind, rule wp_weaken [OF check [OF that]]) (auto intro: step simp: stamp copied_set last_set)
    have "wp (put_item (xs ! k)) (\<lambda>_. wp (let control1 = ?c1 in if Suc k mod copyBatchSize = 0
        then let control2 = control1\<lparr>cr_UpdatedAt := now\<rparr> in bind_act (checkpoint control2) (\<lambda>_. ?go control2) else ?go control1) ?Q ?E) ?E s"
      by (rule wp_weaken [OF put [OF k Suc.prems(1,2) c]]) (auto simp: Let_def copied_set last_set intro: step chk)
    then show ?thesis using False by (simp add: d index [OF k] wp_bind)
  qed
qed

end

interpretation turns: progress cr_CopiedTurn set_CopiedTurn cr_ForkTurnIndex
  by unfold_locales simp_all

interpretation events: progress cr_CopiedSeq set_CopiedSeq cr_ForkSeq
  by unfold_locales simp_all


section \<open>States of a fork\<close>

text \<open>The history of a context, as it is stored: consecutive turns and events with their own indexes.\<close>

definition history :: "'raw codec \<Rightarrow> string \<Rightarrow> TurnRecord list \<Rightarrow> Event list \<Rightarrow> (string, 'raw) gomap \<Rightarrow> bool" where
  "history cd p ts es s \<longleftrightarrow>
     listed (TurnKey p) (dec_turn cd) 1 ts s \<and> listed (EventKey p) (dec_event cd) 1 es s \<and>
     (\<forall>i < length ts. tr_TurnIndex (ts ! i) = Suc i) \<and> (\<forall>i < length es. ev_Seq (es ! i) = Suc i)"

definition turn_copy :: "'raw codec \<Rightarrow> string \<Rightarrow> TurnRecord list \<Rightarrow> nat \<Rightarrow> 'raw" where
  "turn_copy cd target ts i = enc_turn cd ((ts ! (i - 1))\<lparr>tr_SessionContextID := target\<rparr>)"

definition event_copy :: "'raw codec \<Rightarrow> string \<Rightarrow> Event list \<Rightarrow> nat \<Rightarrow> 'raw" where
  "event_copy cd target es i = enc_event cd ((es ! (i - 1))\<lparr>ev_SessionContextID := target\<rparr>)"

text \<open>Items up to \<open>a\<close> are copied, none beyond \<open>n\<close>, and in between each one is missing or copied.\<close>

definition copied_upto :: "(nat \<Rightarrow> string) \<Rightarrow> (nat \<Rightarrow> 'raw) \<Rightarrow> nat \<Rightarrow> nat \<Rightarrow> (string, 'raw) gomap \<Rightarrow> bool" where
  "copied_upto key copy a n s \<longleftrightarrow>
     (\<forall>i. (1 \<le> i \<and> i \<le> a \<longrightarrow> fmlookup s (key i) = Some (copy i)) \<and> (i = 0 \<or> n < i \<longrightarrow> fmlookup s (key i) = None) \<and>
       (fmlookup s (key i) = None \<or> fmlookup s (key i) = Some (copy i)))"

lemma copied_upto_le: "copied_upto key copy a n s \<Longrightarrow> a \<le> n"
proof (rule ccontr)
  assume c: "copied_upto key copy a n s" and "\<not> a \<le> n"
  then have "1 \<le> a" "n < a" by simp_all
  with c show False unfolding copied_upto_def by (metis option.distinct(1) order_refl)
qed

lemma copied_upto_mono: "copied_upto key copy a n s \<Longrightarrow> b \<le> a \<Longrightarrow> copied_upto key copy b n s"
  by (auto simp: copied_upto_def)

lemma copied_upto_cong: "(\<And>i. fmlookup s' (key i) = fmlookup s (key i)) \<Longrightarrow> copied_upto key copy a n s' = copied_upto key copy a n s"
  by (simp only: copied_upto_def)

lemma copied_upto_other: "(\<And>i. key i \<noteq> k) \<Longrightarrow> copied_upto key copy a n (fmupd k v s) = copied_upto key copy a n s"
  by (rule copied_upto_cong) (metis fmupd_lookup)

lemma copied_upto_put:
  assumes "copied_upto key copy a n s" and "inj key" and "a < n"
  shows "copied_upto key copy a n (fmupd (key (Suc a)) (copy (Suc a)) s)" "copied_upto key copy (Suc a) n (fmupd (key (Suc a)) (copy (Suc a)) s)"
  using assms by (auto simp: copied_upto_def inj_eq le_Suc_eq)

lemma copied_upto_put_le:
  assumes "copied_upto key copy a n s" and "inj key" and "1 \<le> i" "i \<le> n"
  shows "copied_upto key copy a n (fmupd (key i) (copy i) s)"
  using assms by (auto simp: copied_upto_def inj_eq)

record fork_case =
  fc_source :: string
  fc_target :: string
  fc_turnID :: string
  fc_turns :: "TurnRecord list"
  fc_events :: "Event list"
  fc_lastTurn :: nat
  fc_lastSeq :: nat

definition turns_copied :: "'raw codec \<Rightarrow> string \<Rightarrow> fork_case \<Rightarrow> nat \<Rightarrow> (string, 'raw) gomap \<Rightarrow> bool" where
  "turns_copied cd q fc a = copied_upto (TurnKey q) (turn_copy cd (fc_target fc) (fc_turns fc)) a (fc_lastTurn fc)"

definition events_copied :: "'raw codec \<Rightarrow> string \<Rightarrow> fork_case \<Rightarrow> nat \<Rightarrow> (string, 'raw) gomap \<Rightarrow> bool" where
  "events_copied cd q fc a = copied_upto (EventKey q) (event_copy cd (fc_target fc) (fc_events fc)) a (fc_lastSeq fc)"

definition fork_control :: "fork_case \<Rightarrow> ControlRecord \<Rightarrow> bool" where
  "fork_control fc c \<longleftrightarrow> cr_ForkedFrom c = fc_source fc \<and> cr_ForkTurnID c = fc_turnID fc \<and>
     cr_ForkTurnIndex c = fc_lastTurn fc \<and> cr_ForkSeq c = fc_lastSeq fc"

definition has_control :: "'raw codec \<Rightarrow> string \<Rightarrow> ControlRecord \<Rightarrow> (string, 'raw) gomap \<Rightarrow> bool" where
  "has_control cd q c s \<longleftrightarrow> (\<exists>raw. fmlookup s (ControlKey q) = Some raw \<and> dec_control cd raw = Some c)"

definition in_copy :: "'raw codec \<Rightarrow> string \<Rightarrow> fork_case \<Rightarrow> ControlRecord \<Rightarrow> (string, 'raw) gomap \<Rightarrow> bool" where
  "in_copy cd q fc c s \<longleftrightarrow> fork_control fc c \<and> cr_State c = StateCreating \<and>
     turns_copied cd q fc (cr_CopiedTurn c) s \<and> events_copied cd q fc (cr_CopiedSeq c) s"

text \<open>The states of the target: untouched, being copied, and ready with an exact copy.\<close>

definition target_fresh :: "'raw codec \<Rightarrow> string \<Rightarrow> string \<Rightarrow> string \<Rightarrow> fork_case \<Rightarrow> (string, 'raw) gomap \<Rightarrow> bool" where
  "target_fresh cd q rk v fc s \<longleftrightarrow> fmlookup s (ControlKey q) = None \<and> (\<forall>i. fmlookup s (TurnKey q i) = None \<and> fmlookup s (EventKey q i) = None) \<and>
     \<not> registered cd rk v (fc_target fc) s"

definition target_creating :: "'raw codec \<Rightarrow> string \<Rightarrow> fork_case \<Rightarrow> (string, 'raw) gomap \<Rightarrow> bool" where
  "target_creating cd q fc s \<longleftrightarrow> (\<exists>c. has_control cd q c s \<and> in_copy cd q fc c s)"

definition target_ready :: "'raw codec \<Rightarrow> string \<Rightarrow> fork_case \<Rightarrow> (string, 'raw) gomap \<Rightarrow> bool" where
  "target_ready cd q fc s \<longleftrightarrow> (\<exists>c. has_control cd q c s \<and> fork_control fc c \<and> cr_State c = StateReady) \<and>
     turns_copied cd q fc (fc_lastTurn fc) s \<and> events_copied cd q fc (fc_lastSeq fc) s"

text \<open>Only keys of the target and the registry differ, and the registry can be read.\<close>

definition only_target :: "'raw codec \<Rightarrow> string \<Rightarrow> string \<Rightarrow> (string, 'raw) gomap \<Rightarrow> (string, 'raw) gomap \<Rightarrow> bool" where
  "only_target cd q rk s0 s \<longleftrightarrow>
     (\<forall>k. k \<notin> range (TurnKey q) \<union> range (EventKey q) \<union> {ControlKey q, rk} \<longrightarrow> fmlookup s k = fmlookup s0 k) \<and> entries_of cd rk s \<noteq> None"

definition fork_resumable :: "'raw codec \<Rightarrow> string \<Rightarrow> string \<Rightarrow> string \<Rightarrow> fork_case \<Rightarrow> (string, 'raw) gomap \<Rightarrow> (string, 'raw) gomap \<Rightarrow> bool" where
  "fork_resumable cd q rk v fc s0 s \<longleftrightarrow>
     only_target cd q rk s0 s \<and> (target_fresh cd q rk v fc s \<or> target_creating cd q fc s \<or> target_ready cd q fc s)"

lemma inj_keys: "inj (TurnKey q)" "inj (EventKey q)"
  by (auto simp: inj_def)

lemma entries_of_other: "k \<noteq> rk \<Longrightarrow> entries_of cd rk (fmupd k x s) = entries_of cd rk s"
  by (simp add: entries_of_def)

lemma only_target_upd:
  assumes "only_target cd q rk s0 s" and "k \<in> range (TurnKey q) \<union> range (EventKey q) \<union> {ControlKey q}" and "k \<noteq> rk"
  shows "only_target cd q rk s0 (fmupd k x s)"
  using assms by (auto simp: only_target_def entries_of_other)

lemma in_copy_fields:
  "in_copy cd q fc c s \<Longrightarrow> cr_ForkTurnIndex c = fc_lastTurn fc \<and> cr_ForkSeq c = fc_lastSeq fc \<and>
     cr_CopiedTurn c \<le> fc_lastTurn fc \<and> cr_CopiedSeq c \<le> fc_lastSeq fc"
  by (auto simp: in_copy_def fork_control_def turns_copied_def events_copied_def dest: copied_upto_le)

text \<open>What writing a copy or a control record does to the state.\<close>

lemma in_copy_put_turn:
  assumes "in_copy cd q fc c s" and "cr_CopiedTurn c < fc_lastTurn fc"
  shows "in_copy cd q fc (set_CopiedTurn (Suc (cr_CopiedTurn c)) c)
    (fmupd (TurnKey q (Suc (cr_CopiedTurn c))) (turn_copy cd (fc_target fc) (fc_turns fc) (Suc (cr_CopiedTurn c))) s)"
  using assms
  by (auto simp: in_copy_def fork_control_def turns_copied_def events_copied_def copied_upto_other intro: copied_upto_put inj_keys)

lemma in_copy_put_event:
  assumes "in_copy cd q fc c s" and "cr_CopiedSeq c < fc_lastSeq fc"
  shows "in_copy cd q fc (set_CopiedSeq (Suc (cr_CopiedSeq c)) c)
    (fmupd (EventKey q (Suc (cr_CopiedSeq c))) (event_copy cd (fc_target fc) (fc_events fc) (Suc (cr_CopiedSeq c))) s)"
  using assms
  by (auto simp: in_copy_def fork_control_def turns_copied_def events_copied_def copied_upto_other intro: copied_upto_put inj_keys)

lemma creating_put_turn:
  assumes "target_creating cd q fc s" and "1 \<le> i" "i \<le> fc_lastTurn fc"
  shows "target_creating cd q fc (fmupd (TurnKey q i) (turn_copy cd (fc_target fc) (fc_turns fc) i) s)"
  using assms
  by (auto simp: target_creating_def has_control_def in_copy_def turns_copied_def events_copied_def copied_upto_other
      intro!: copied_upto_put_le inj_keys)

lemma creating_put_event:
  assumes "target_creating cd q fc s" and "1 \<le> i" "i \<le> fc_lastSeq fc"
  shows "target_creating cd q fc (fmupd (EventKey q i) (event_copy cd (fc_target fc) (fc_events fc) i) s)"
  using assms
  by (auto simp: target_creating_def has_control_def in_copy_def turns_copied_def events_copied_def copied_upto_other
      intro!: copied_upto_put_le inj_keys)

lemma in_copy_write_control:
  assumes "codec_ok cd" and "in_copy cd q fc c s"
  shows "in_copy cd q fc c (fmupd (ControlKey q) x s)" "target_creating cd q fc (fmupd (ControlKey q) (enc_control cd c) s)"
proof -
  show "in_copy cd q fc c (fmupd (ControlKey q) x s)" for x
    using assms by (auto simp: in_copy_def turns_copied_def events_copied_def copied_upto_other)
  then show "target_creating cd q fc (fmupd (ControlKey q) (enc_control cd c) s)"
    using assms(1) by (auto simp: target_creating_def has_control_def codec_ok_def)
qed


section \<open>A fork can be repeated\<close>

definition copying :: "'raw codec \<Rightarrow> string \<Rightarrow> string \<Rightarrow> fork_case \<Rightarrow> (string, 'raw) gomap \<Rightarrow> (string, 'raw) gomap \<Rightarrow> bool" where
  "copying cd q rk fc s0 s \<longleftrightarrow> only_target cd q rk s0 s \<and> target_creating cd q fc s"

lemma copying_control:
  assumes "codec_ok cd" and "ControlKey q \<noteq> rk" and "in_copy cd q fc c s" and "copying cd q rk fc s0 s"
  shows "wp (writeControl cd q (c\<lparr>cr_UpdatedAt := now\<rparr>)) (\<lambda>_ s'. in_copy cd q fc (c\<lparr>cr_UpdatedAt := now\<rparr>) s' \<and> copying cd q rk fc s0 s')
    (\<lambda>e s'. e = StoreError \<and> copying cd q rk fc s0 s') s"
proof -
  have "in_copy cd q fc (c\<lparr>cr_UpdatedAt := now\<rparr>) s" using assms(3) by (simp add: in_copy_def fork_control_def)
  then show ?thesis using assms
    by (intro wp_writeControl) (auto simp: copying_def intro: in_copy_write_control only_target_upd)
qed

lemma wp_copyHistory:
  assumes cd: "codec_ok cd" and rk: "\<And>i. TurnKey q i \<noteq> rk" "\<And>i. EventKey q i \<noteq> rk" "ControlKey q \<noteq> rk"
    and ts: "\<forall>i < length (fc_turns fc). tr_TurnIndex (fc_turns fc ! i) = Suc i" "fc_lastTurn fc \<le> length (fc_turns fc)"
    and es: "\<forall>i < length (fc_events fc). ev_Seq (fc_events fc ! i) = Suc i" "fc_lastSeq fc \<le> length (fc_events fc)"
    and start: "in_copy cd q fc c s" "copying cd q rk fc s0 s"
  shows "wp (copyHistory cd q (fc_target fc) now (fc_turns fc) (fc_events fc) c)
    (\<lambda>c' s'. in_copy cd q fc c' s' \<and> cr_CopiedTurn c' = fc_lastTurn fc \<and> cr_CopiedSeq c' = fc_lastSeq fc \<and> copying cd q rk fc s0 s')
    (\<lambda>e s'. e = StoreError \<and> copying cd q rk fc s0 s') s"
proof -
  let ?I = "in_copy cd q fc" and ?R = "copying cd q rk fc s0" and ?E = "\<lambda>e s'. e = StoreError \<and> copying cd q rk fc s0 s'"
  note ctl = copying_control [OF cd rk(3)]
  have put_turn: "wp (ds_put (TurnKey q (tr_TurnIndex (fc_turns fc ! k))) (enc_turn cd ((fc_turns fc ! k)\<lparr>tr_SessionContextID := fc_target fc\<rparr>)))
      (\<lambda>_ s'. ?I (set_CopiedTurn (Suc k) c) s' \<and> ?R s') ?E s"
    if "k < length (fc_turns fc)" "?I c s" "?R s" "cr_CopiedTurn c = k" "k < cr_ForkTurnIndex c" for k c s
  proof -
    have k: "k < fc_lastTurn fc" using that by (simp add: in_copy_def fork_control_def)
    have "ds_put (TurnKey q (tr_TurnIndex (fc_turns fc ! k))) (enc_turn cd ((fc_turns fc ! k)\<lparr>tr_SessionContextID := fc_target fc\<rparr>)) =
        ds_put (TurnKey q (Suc k)) (turn_copy cd (fc_target fc) (fc_turns fc) (Suc k))"
      using ts(1) that(1) by (simp add: turn_copy_def)
    then show ?thesis using in_copy_put_turn [OF that(2)] that(3,4) k rk
      by (auto simp: copying_def intro!: wp_put creating_put_turn only_target_upd)
  qed
  have put_event: "wp (ds_put (EventKey q (ev_Seq (fc_events fc ! k))) (enc_event cd ((fc_events fc ! k)\<lparr>ev_SessionContextID := fc_target fc\<rparr>)))
      (\<lambda>_ s'. (?I (set_CopiedSeq (Suc k) c) s' \<and> cr_CopiedTurn (set_CopiedSeq (Suc k) c) = fc_lastTurn fc) \<and> ?R s') ?E s"
    if "k < length (fc_events fc)" "?I c s \<and> cr_CopiedTurn c = fc_lastTurn fc" "?R s" "cr_CopiedSeq c = k" "k < cr_ForkSeq c" for k c s
  proof -
    have k: "k < fc_lastSeq fc" using that by (simp add: in_copy_def fork_control_def)
    have "ds_put (EventKey q (ev_Seq (fc_events fc ! k))) (enc_event cd ((fc_events fc ! k)\<lparr>ev_SessionContextID := fc_target fc\<rparr>)) =
        ds_put (EventKey q (Suc k)) (event_copy cd (fc_target fc) (fc_events fc) (Suc k))"
      using es(1) that(1) by (simp add: event_copy_def)
    then show ?thesis using in_copy_put_event [of cd q fc c s] that(2,3,4) k rk
      by (auto simp: copying_def intro!: wp_put creating_put_event only_target_upd)
  qed
  have a: "wp (copy_turns cd q (fc_target fc) now (fc_turns fc) c) (\<lambda>c' s'. (?I c' s' \<and> cr_CopiedTurn c' = fc_lastTurn fc) \<and> ?R s') ?E s"
    unfolding copy_turns_def
    by (rule wp_weaken [OF turns.wp_copy_items [where k = 0 and I = ?I and R = ?R and xs = "fc_turns fc", simplified]])
      (use start ts put_turn ctl in \<open>auto dest: in_copy_fields\<close>)
  have ctl2: "wp (writeControl cd q (c\<lparr>cr_UpdatedAt := now\<rparr>))
      (\<lambda>_ s'. (?I (c\<lparr>cr_UpdatedAt := now\<rparr>) s' \<and> cr_CopiedTurn (c\<lparr>cr_UpdatedAt := now\<rparr>) = fc_lastTurn fc) \<and> ?R s') ?E s"
    if "?I c s \<and> cr_CopiedTurn c = fc_lastTurn fc" "?R s" for c s
    by (rule wp_weaken [OF ctl]) (use that in auto)
  have b: "wp (copy_events cd q (fc_target fc) now (fc_events fc) c')
      (\<lambda>c' s'. ((?I c' s' \<and> cr_CopiedTurn c' = fc_lastTurn fc) \<and> cr_CopiedSeq c' = fc_lastSeq fc) \<and> ?R s') ?E s'"
    if "(?I c' s' \<and> cr_CopiedTurn c' = fc_lastTurn fc) \<and> ?R s'" for c' s'
    unfolding copy_events_def
    by (rule wp_weaken [OF events.wp_copy_items [where k = 0 and I = "\<lambda>c s. ?I c s \<and> cr_CopiedTurn c = fc_lastTurn fc" and R = ?R and xs = "fc_events fc", simplified]])
      (use that es put_event ctl2 in \<open>auto dest: in_copy_fields\<close>)
  have c: "wp (let control3 = c'\<lparr>cr_UpdatedAt := now\<rparr> in bind_act (writeControl cd q control3) (\<lambda>_. ret control3))
      (\<lambda>c' s'. ?I c' s' \<and> cr_CopiedTurn c' = fc_lastTurn fc \<and> cr_CopiedSeq c' = fc_lastSeq fc \<and> ?R s') ?E s'"
    if "((?I c' s' \<and> cr_CopiedTurn c' = fc_lastTurn fc) \<and> cr_CopiedSeq c' = fc_lastSeq fc) \<and> ?R s'" for c' s'
    unfolding Let_def by (rule wp_bind, rule wp_weaken [OF ctl]) (use that in \<open>auto intro: wp_ret\<close>)
  show ?thesis unfolding copyHistory_def
    by (rule wp_bind, rule wp_weaken [OF a], rule wp_bind, rule wp_weaken [OF b]) (auto intro: c)
qed


lemma ready_cong:
  assumes "target_ready cd q fc s" and "\<And>k. k \<noteq> rk \<Longrightarrow> fmlookup s' k = fmlookup s k"
    and "\<And>i. TurnKey q i \<noteq> rk" "\<And>i. EventKey q i \<noteq> rk" "ControlKey q \<noteq> rk"
  shows "target_ready cd q fc s'"
  using assms copied_upto_cong [of s' "TurnKey q" s] copied_upto_cong [of s' "EventKey q" s]
  by (auto simp: target_ready_def has_control_def turns_copied_def events_copied_def)

lemma wp_fork_finish:
  assumes cd: "codec_ok cd" and rk: "\<And>i. TurnKey q i \<noteq> rk" "\<And>i. EventKey q i \<noteq> rk" "ControlKey q \<noteq> rk"
    and ts: "\<forall>i < length (fc_turns fc). tr_TurnIndex (fc_turns fc ! i) = Suc i" "fc_lastTurn fc \<le> length (fc_turns fc)"
    and es: "\<forall>i < length (fc_events fc). ev_Seq (fc_events fc ! i) = Suc i" "fc_lastSeq fc \<le> length (fc_events fc)"
    and start: "in_copy cd q fc c s" "copying cd q rk fc s0 s"
  shows "wp (fork_finish cd q rk True v (fc_target fc) now (fc_turns fc) (fc_events fc) c)
    (\<lambda>r s'. r = False \<and> only_target cd q rk s0 s' \<and> target_ready cd q fc s' \<and> registered cd rk v (fc_target fc) s')
    (\<lambda>e s'. e = StoreError \<and> fork_resumable cd q rk v fc s0 s') s"
proof -
  let ?E = "\<lambda>e s'. e = StoreError \<and> fork_resumable cd q rk v fc s0 s'"
  let ?Q = "\<lambda>r s'. r = False \<and> only_target cd q rk s0 s' \<and> target_ready cd q fc s' \<and> registered cd rk v (fc_target fc) s'"
  have reg: "wp (bind_act (reg_Register cd rk True v (fc_target fc) now) (\<lambda>_. ret False)) ?Q ?E s'"
    if r: "target_ready cd q fc s'" "only_target cd q rk s0 s'" for s'
  proof -
    obtain ents where ents: "entries_of cd rk s' = Some ents" using r(2) by (auto simp: only_target_def)
    show ?thesis
      by (rule wp_bind, rule wp_Register [OF cd ents]) (use r ready_cong [OF r(1) _ rk] in \<open>auto intro!: wp_ret simp: fork_resumable_def only_target_def\<close>)
  qed
  have wr: "wp (writeControl cd q (c'\<lparr>cr_State := StateReady, cr_UpdatedAt := now\<rparr>)) (\<lambda>_. wp (bind_act (reg_Register cd rk True v (fc_target fc) now) (\<lambda>_. ret False)) ?Q ?E) ?E s'"
    if c: "in_copy cd q fc c' s' \<and> cr_CopiedTurn c' = fc_lastTurn fc \<and> cr_CopiedSeq c' = fc_lastSeq fc \<and> copying cd q rk fc s0 s'" for c' s'
  proof -
    let ?s = "fmupd (ControlKey q) (enc_control cd (c'\<lparr>cr_State := StateReady, cr_UpdatedAt := now\<rparr>)) s'"
    have "target_ready cd q fc ?s" using c cd
      by (auto simp: target_ready_def has_control_def in_copy_def fork_control_def codec_ok_def turns_copied_def events_copied_def copied_upto_other)
    moreover have "only_target cd q rk s0 ?s" using c rk(3) by (auto simp: copying_def intro: only_target_upd)
    ultimately show ?thesis using c reg [of ?s] by (intro wp_writeControl) (auto simp: fork_resumable_def copying_def)
  qed
  show ?thesis unfolding fork_finish_def
    by (rule wp_bind, rule wp_weaken [OF wp_copyHistory [OF cd rk ts es start]], rule wp_bind, erule wr) (simp add: fork_resumable_def copying_def)
qed

text \<open>What can be forked: a readable history whose context is not being deleted, and a completed turn in it.\<close>

definition fork_input :: "'raw codec \<Rightarrow> string \<Rightarrow> fork_case \<Rightarrow> (string, 'raw) gomap \<Rightarrow> bool" where
  "fork_input cd p fc s \<longleftrightarrow>
     history cd p (fc_turns fc) (fc_events fc) s \<and>
     (case fmlookup s (ControlKey p) of None \<Rightarrow> True | Some raw \<Rightarrow> \<exists>c. dec_control cd raw = Some c \<and> cr_State c \<noteq> StateDeleting) \<and>
     (\<exists>t. find (\<lambda>t. tr_TurnID t = fc_turnID fc) (fc_turns fc) = Some t \<and> tr_TurnIndex t = fc_lastTurn fc) \<and>
     fork_seq (fc_turnID fc) (fc_events fc) = fc_lastSeq fc \<and> fc_lastSeq fc \<noteq> 0"

lemma fork_seq_mem: "fork_seq t es = 0 \<or> fork_seq t es \<in> ev_Seq ` set es"
  unfolding fork_seq_def by (rule fold_invariant [where Q = "\<lambda>e. e \<in> set es"]) auto

lemma fork_input_bounds:
  assumes "fork_input cd p fc s"
  shows "fc_lastTurn fc \<le> length (fc_turns fc)" "fc_lastSeq fc \<le> length (fc_events fc)"
proof -
  obtain t where "find (\<lambda>t. tr_TurnID t = fc_turnID fc) (fc_turns fc) = Some t" "tr_TurnIndex t = fc_lastTurn fc"
    using assms by (auto simp: fork_input_def)
  then obtain i where "i < length (fc_turns fc)" "tr_TurnIndex (fc_turns fc ! i) = fc_lastTurn fc" by (auto simp: find_Some_iff)
  then show "fc_lastTurn fc \<le> length (fc_turns fc)" using assms by (auto simp: fork_input_def history_def)
  have "fc_lastSeq fc \<in> ev_Seq ` set (fc_events fc)" using assms fork_seq_mem [of "fc_turnID fc" "fc_events fc"] by (auto simp: fork_input_def)
  then show "fc_lastSeq fc \<le> length (fc_events fc)" using assms by (fastforce simp: fork_input_def history_def in_set_conv_nth)
qed

lemma fork_input_kept:
  assumes "fork_input cd p fc s" and "only_target cd q rk s s'" and "keys_ok p q rk"
  shows "fork_input cd p fc s'"
proof -
  have "fmlookup s' k = fmlookup s k" if "k \<in> range (TurnKey p) \<union> range (EventKey p) \<union> {ControlKey p}" for k
  proof -
    have "k \<notin> range (TurnKey q) \<union> range (EventKey q) \<union> {ControlKey q, rk}"
      using that assms(3) by (auto simp: keys_ok_def TurnKey_def EventKey_def ControlKey_def)
    then show ?thesis using assms(2) by (simp add: only_target_def)
  qed
  then show ?thesis using assms(1) by (simp add: fork_input_def history_def listed_def)
qed

lemma wp_fork_target:
  assumes cd: "codec_ok cd" and rk: "\<And>i. TurnKey q i \<noteq> rk" "\<And>i. EventKey q i \<noteq> rk" "ControlKey q \<noteq> rk"
    and ts: "\<forall>i < length (fc_turns fc). tr_TurnIndex (fc_turns fc ! i) = Suc i" "fc_lastTurn fc \<le> length (fc_turns fc)"
    and es: "\<forall>i < length (fc_events fc). ev_Seq (fc_events fc ! i) = Suc i" "fc_lastSeq fc \<le> length (fc_events fc)"
    and req: "fk_SourceSessionCtxID req = fc_source fc" "fk_TargetSessionCtxID req = fc_target fc" "fk_TurnID req = fc_turnID fc"
    and state: "fork_resumable cd q rk v fc s s"
  shows "wp (fork_target cd q rk True v now req (fc_turns fc) (fc_events fc) (fc_lastTurn fc) (fc_lastSeq fc))
    (\<lambda>already s'. only_target cd q rk s s' \<and> target_ready cd q fc s' \<and> (\<not> already \<longrightarrow> registered cd rk v (fc_target fc) s'))
    (\<lambda>e s'. e = StoreError \<and> fork_resumable cd q rk v fc s s') s"
proof -
  let ?E = "\<lambda>e s'. e = StoreError \<and> fork_resumable cd q rk v fc s s'"
  let ?Q = "\<lambda>already s'. only_target cd q rk s s' \<and> target_ready cd q fc s' \<and> (\<not> already \<longrightarrow> registered cd rk v (fc_target fc) s')"
  have only: "only_target cd q rk s s" using state by (simp add: fork_resumable_def)
  have finish: "wp (fork_finish cd q rk True v (fc_target fc) now (fc_turns fc) (fc_events fc) c) ?Q ?E s'"
    if "in_copy cd q fc c s'" "copying cd q rk fc s s'" for c s'
    by (rule wp_weaken [OF wp_fork_finish [OF cd rk ts es that]]) auto
  consider "target_fresh cd q rk v fc s" | "target_creating cd q fc s" | "target_ready cd q fc s"
    using state by (auto simp: fork_resumable_def)
  then show ?thesis
  proof cases
    case 1
    then have n: "fmlookup s (ControlKey q) = None" "\<And>i. fmlookup s (TurnKey q i) = None" "\<And>i. fmlookup s (EventKey q i) = None"
      "\<not> registered cd rk v (fc_target fc) s" by (simp_all add: target_fresh_def)
    obtain ents where ents: "entries_of cd rk s = Some ents" using only by (auto simp: only_target_def)
    let ?c = "\<lparr>cr_SchemaVersion = 1, cr_State = StateCreating, cr_ForkedFrom = fc_source fc, cr_ForkTurnID = fc_turnID fc,
      cr_ForkTurnIndex = fc_lastTurn fc, cr_ForkSeq = fc_lastSeq fc, cr_CopiedTurn = 0, cr_CopiedSeq = 0, cr_DeleteTurnUpperBound = 0,
      cr_DeleteSeqUpperBound = 0, cr_CreatedAt = now, cr_UpdatedAt = now\<rparr>"
    let ?s = "fmupd (ControlKey q) (enc_control cd ?c) s"
    have ic: "in_copy cd q fc ?c s" using n
      by (simp add: in_copy_def fork_control_def turns_copied_def events_copied_def copied_upto_def)
    have cp: "copying cd q rk fc s ?s" using in_copy_write_control(2) [OF cd ic] only rk(3) by (auto simp: copying_def intro: only_target_upd)
    have "wp (bind_act (writeControl cd q ?c) (\<lambda>_. fork_finish cd q rk True v (fc_target fc) now (fc_turns fc) (fc_events fc) ?c)) ?Q ?E s"
      using finish [OF in_copy_write_control(1) [OF cd ic] cp] cp state
      by (intro wp_bind wp_writeControl) (simp_all add: copying_def fork_resumable_def)
    then show ?thesis unfolding fork_target_def Let_def req using n state
      by (intro wp_bind wp_readControl_None) (auto intro!: wp_bind wp_Exists [OF ents] wp_historyExists_no)
  next
    case 2
    then obtain c raw where c: "fmlookup s (ControlKey q) = Some raw" "dec_control cd raw = Some c" "in_copy cd q fc c s"
      by (auto simp: target_creating_def has_control_def)
    then have "cr_ForkedFrom c = fc_source fc" "cr_ForkTurnID c = fc_turnID fc" "cr_State c = StateCreating"
      by (auto simp: in_copy_def fork_control_def)
    then show ?thesis unfolding fork_target_def Let_def req using finish [OF c(3)] 2 only state
      by (intro wp_bind wp_readControl_Some [OF c(1,2)]) (simp_all add: copying_def)
  next
    case 3
    then obtain c raw where c: "fmlookup s (ControlKey q) = Some raw" "dec_control cd raw = Some c" "fork_control fc c" "cr_State c = StateReady"
      by (auto simp: target_ready_def has_control_def)
    then show ?thesis unfolding fork_target_def Let_def req using 3 only state
      by (intro wp_bind wp_readControl_Some [OF c(1,2)]) (simp_all add: fork_control_def wp_ret)
  qed
qed

lemma wp_fork_act:
  assumes cd: "codec_ok cd" and keys: "keys_ok (px (fc_source fc)) (px (fc_target fc)) rk"
    and scope: "scope_complete (fk_TenantID req) (xs_Name spec) (xs_Version spec) (fc_target fc)"
    and req: "fk_SourceSessionCtxID req = fc_source fc" "fk_TargetSessionCtxID req = fc_target fc" "fk_TurnID req = fc_turnID fc"
    and input: "fork_input cd (px (fc_source fc)) fc s" and state: "fork_resumable cd (px (fc_target fc)) rk (xs_Version spec) fc s s"
  shows "wp (fork_act cd px rk spec now req)
    (\<lambda>already s'. only_target cd (px (fc_target fc)) rk s s' \<and> target_ready cd (px (fc_target fc)) fc s' \<and>
       (\<not> already \<longrightarrow> registered cd rk (xs_Version spec) (fc_target fc) s'))
    (\<lambda>e s'. e = StoreError \<and> fork_resumable cd (px (fc_target fc)) rk (xs_Version spec) fc s s') s"
proof -
  let ?p = "px (fc_source fc)" and ?q = "px (fc_target fc)"
  let ?E = "\<lambda>e s'. e = StoreError \<and> fork_resumable cd ?q rk (xs_Version spec) fc s s'"
  have rk: "\<And>i. TurnKey ?q i \<noteq> rk" "\<And>i. EventKey ?q i \<noteq> rk" "ControlKey ?q \<noteq> rk"
    using keys by (auto simp: keys_ok_def registry_keys)
  have h: "listed (TurnKey ?p) (dec_turn cd) 1 (fc_turns fc) s" "listed (EventKey ?p) (dec_event cd) 1 (fc_events fc) s"
    "\<forall>i < length (fc_turns fc). tr_TurnIndex (fc_turns fc ! i) = Suc i" "\<forall>i < length (fc_events fc). ev_Seq (fc_events fc ! i) = Suc i"
    using input by (auto simp: fork_input_def history_def)
  note bounds = fork_input_bounds [OF input]
  note target = wp_fork_target [OF cd rk h(3) bounds(1) h(4) bounds(2) req state]
  obtain t where t: "find (\<lambda>t. tr_TurnID t = fc_turnID fc) (fc_turns fc) = Some t" "tr_TurnIndex t = fc_lastTurn fc"
    and sq: "fork_seq (fc_turnID fc) (fc_events fc) = fc_lastSeq fc" "fc_lastSeq fc \<noteq> 0" using input by (auto simp: fork_input_def)
  let ?rest = "bind_act (readHistory cd ?p) (\<lambda>(turns, events).
         case find (\<lambda>t. tr_TurnID t = fc_turnID fc) turns of
           None \<Rightarrow> throw (CtxError ''TURN_NOT_FOUND'')
         | Some forkTurn \<Rightarrow>
             if fork_seq (fc_turnID fc) events = 0 then throw (CtxError ''TURN_NOT_COMPLETED'')
             else fork_target cd ?q rk
                    (scope_complete (fk_TenantID req) (xs_Name spec) (xs_Version spec) (fc_target fc)) (xs_Version spec) now req
                    turns events (tr_TurnIndex forkTurn) (fork_seq (fc_turnID fc) events))"
  have rest: "wp ?rest (\<lambda>already s'. only_target cd ?q rk s s' \<and> target_ready cd ?q fc s' \<and>
       (\<not> already \<longrightarrow> registered cd rk (xs_Version spec) (fc_target fc) s')) ?E s"
    by (rule wp_bind, rule wp_readHistory [OF h(1,2)]) (use t sq scope target state in simp_all)
  show ?thesis
  proof (cases "fmlookup s (ControlKey ?p)")
    case None
    show ?thesis unfolding fork_act_def req
      by (rule wp_bind, rule wp_readControl_None [OF None]) (use rest state in simp_all)
  next
    case (Some raw)
    then obtain c where c: "dec_control cd raw = Some c" "cr_State c \<noteq> StateDeleting" using input by (auto simp: fork_input_def)
    show ?thesis unfolding fork_act_def req
      by (rule wp_bind, rule wp_readControl_Some [OF Some c(1)]) (use rest state c(2) in simp_all)
  qed
qed


text \<open>
  C31: A fork can be repeated until it succeeds. Whatever earlier attempts left behind, and wherever this one fails, the source is
  untouched, nothing but the target and the registry changes, and the state is again one from which the fork can be
  repeated; the only error is that of the store, and without one the fork succeeds. Then the target is ready and its turns
  and events are exactly those of the source up to the completion of the turn, under the new name.
\<close>

theorem fork_repeatable:
  assumes "codec_ok cd" and "keys_ok (px (fc_source fc)) (px (fc_target fc)) rk"
    and "scope_complete (fk_TenantID req) (xs_Name spec) (xs_Version spec) (fc_target fc)"
    and "fk_SourceSessionCtxID req = fc_source fc" "fk_TargetSessionCtxID req = fc_target fc" "fk_TurnID req = fc_turnID fc"
    and "fork_input cd (px (fc_source fc)) fc (kw_store w)"
    and "fork_resumable cd (px (fc_target fc)) rk (xs_Version spec) fc (kw_store w) (kw_store w)"
    and "fork_with cd px rk (Some spec) now req ops w = fr"
  shows "(case fr_error fr of
        None \<Rightarrow> target_ready cd (px (fc_target fc)) fc (kw_store (fr_world fr))
      | Some e \<Rightarrow> e = StoreError \<and> kw_left w \<noteq> None) \<and>
    fork_resumable cd (px (fc_target fc)) rk (xs_Version spec) fc (kw_store w) (kw_store (fr_world fr)) \<and>
    fork_input cd (px (fc_source fc)) fc (kw_store (fr_world fr))"
proof -
  obtain r w' where r: "fork_act cd px rk spec now req w = (r, w')" by fastforce
  have f: "fr_world fr = w'" "fr_error fr = (case r of Inl e \<Rightarrow> Some e | Inr _ \<Rightarrow> None)"
    using assms(9) r by (auto simp: fork_with_def Let_def split: sum.splits bool.splits option.splits)
  from wpD [OF wp_fork_act [OF assms(1-8)] r]
  have p: "case r of Inl e \<Rightarrow> (e = StoreError \<and> fork_resumable cd (px (fc_target fc)) rk (xs_Version spec) fc (kw_store w) (kw_store w')) \<and>
        (e = StoreError \<longrightarrow> kw_left w \<noteq> None)
      | Inr already \<Rightarrow> only_target cd (px (fc_target fc)) rk (kw_store w) (kw_store w') \<and> target_ready cd (px (fc_target fc)) fc (kw_store w') \<and>
        (\<not> already \<longrightarrow> registered cd rk (xs_Version spec) (fc_target fc) (kw_store w'))" .
  then have "fork_resumable cd (px (fc_target fc)) rk (xs_Version spec) fc (kw_store w) (kw_store w')"
    by (auto simp: fork_resumable_def split: sum.splits)
  moreover from this have "fork_input cd (px (fc_source fc)) fc (kw_store w')"
    using fork_input_kept [OF assms(7) _ assms(2)] by (simp add: fork_resumable_def)
  ultimately show ?thesis using p f by (auto split: sum.splits)
qed

section \<open>A deletion can be repeated\<close>

definition items_wf :: "(nat \<Rightarrow> string) \<Rightarrow> ('raw \<Rightarrow> 'x option) \<Rightarrow> ('x \<Rightarrow> nat) \<Rightarrow> (string, 'raw) gomap \<Rightarrow> bool" where
  "items_wf key dec index s \<longleftrightarrow> (\<forall>i raw. fmlookup s (key i) = Some raw \<longrightarrow> 1 \<le> i \<and> (\<exists>x. dec raw = Some x \<and> index x = i))"

definition contiguous :: "(nat \<Rightarrow> string) \<Rightarrow> (string, 'raw) gomap \<Rightarrow> bool" where
  "contiguous key s \<longleftrightarrow> (\<forall>i j. fmlookup s (key i) \<noteq> None \<and> 1 \<le> j \<and> j \<le> i \<longrightarrow> fmlookup s (key j) \<noteq> None)"

definition bounded_by :: "(nat \<Rightarrow> string) \<Rightarrow> nat \<Rightarrow> (string, 'raw) gomap \<Rightarrow> bool" where
  "bounded_by key n s \<longleftrightarrow> (\<forall>i. n < i \<longrightarrow> fmlookup s (key i) = None)"

lemma ex_missing:
  fixes key :: "nat \<Rightarrow> string"
  assumes "inj key"
  shows "\<exists>i \<ge> 1. fmlookup s (key i) = None"
proof (rule ccontr)
  assume "\<not> ?thesis"
  then have "key ` {1..} \<subseteq> fmdom' s" by (auto simp: fmdom'I)
  then have "finite (key ` {1..})" by (rule finite_subset) simp
  moreover have "inj_on key {1..}" using assms by (rule inj_on_subset) simp
  ultimately have "finite {1::nat..}" by (rule finite_imageD)
  then show False by (simp add: infinite_Ici)
qed

lemma ex_listed:
  assumes "items_wf key dec index s" and "inj key"
  obtains xs where "listed key dec 1 xs s" "\<And>i. i < length xs \<Longrightarrow> index (xs ! i) = Suc i"
proof -
  define n where "n = (LEAST i. 1 \<le> i \<and> fmlookup s (key i) = None)"
  have n: "1 \<le> n \<and> fmlookup s (key n) = None" unfolding n_def using ex_missing [OF assms(2), of s] by (metis (mono_tags, lifting) LeastI)
  have below: "\<exists>x raw. fmlookup s (key i) = Some raw \<and> dec raw = Some x \<and> index x = i" if "1 \<le> i" "i < n" for i
  proof -
    have "fmlookup s (key i) \<noteq> None" using not_less_Least [of i "\<lambda>i. 1 \<le> i \<and> fmlookup s (key i) = None"] that by (simp add: n_def)
    then show ?thesis using assms(1) by (auto simp: items_wf_def)
  qed
  define xs where "xs = map (\<lambda>i. the (dec (the (fmlookup s (key (Suc i)))))) [0..<n - 1]"
  have "length xs = n - 1" by (simp add: xs_def)
  have at: "\<exists>raw. fmlookup s (key (Suc i)) = Some raw \<and> dec raw = Some (xs ! i) \<and> index (xs ! i) = Suc i" if "i < length xs" for i
  proof -
    have "Suc i < n" using that by (simp add: xs_def)
    with below [of "Suc i"] show ?thesis by (auto simp: xs_def)
  qed
  have "listed key dec 1 xs s" unfolding listed_def using at n \<open>length xs = n - 1\<close> by auto
  with at show thesis by (intro that) blast+
qed

lemma listed_bounded:
  assumes "listed key dec 1 xs s" and "contiguous key s"
  shows "bounded_by key (length xs) s"
  unfolding bounded_by_def
proof (intro allI impI)
  fix i assume "length xs < i"
  then show "fmlookup s (key i) = None"
    using assms unfolding listed_def contiguous_def by (metis Suc_leI le_add1 plus_1_eq_Suc)
qed

text \<open>A context that can be deleted: its items are whole, or it is being deleted and what is left is within the bounds.\<close>

definition being_deleted :: "'raw codec \<Rightarrow> string \<Rightarrow> ControlRecord \<Rightarrow> (string, 'raw) gomap \<Rightarrow> bool" where
  "being_deleted cd p c s \<longleftrightarrow> has_control cd p c s \<and> cr_State c = StateDeleting \<and>
     bounded_by (TurnKey p) (cr_DeleteTurnUpperBound c) s \<and> bounded_by (EventKey p) (cr_DeleteSeqUpperBound c) s"

definition deletable :: "'raw codec \<Rightarrow> string \<Rightarrow> string \<Rightarrow> (string, 'raw) gomap \<Rightarrow> (string, 'raw) gomap \<Rightarrow> bool" where
  "deletable cd p rk s0 s \<longleftrightarrow>
     only_target cd p rk s0 s \<and> items_wf (TurnKey p) (dec_turn cd) tr_TurnIndex s \<and> items_wf (EventKey p) (dec_event cd) ev_Seq s \<and>
     ((\<exists>c. being_deleted cd p c s) \<or>
      contiguous (TurnKey p) s \<and> contiguous (EventKey p) s \<and>
      (case fmlookup s (ControlKey p) of None \<Rightarrow> True | Some raw \<Rightarrow> \<exists>c. dec_control cd raw = Some c \<and> cr_State c \<noteq> StateDeleting))"

definition erased :: "'raw codec \<Rightarrow> string \<Rightarrow> string \<Rightarrow> string \<Rightarrow> string \<Rightarrow> (string, 'raw) gomap \<Rightarrow> bool" where
  "erased cd p rk v ctx s \<longleftrightarrow> fmlookup s (ControlKey p) = None \<and> (\<forall>i. fmlookup s (TurnKey p i) = None \<and> fmlookup s (EventKey p i) = None) \<and>
     \<not> registered cd rk v ctx s"

lemma wp_delete_items:
  assumes "R s" and "\<And>i s. i \<in> set is \<Longrightarrow> R s \<Longrightarrow> R (fmdrop (key i) s)"
  shows "wp (delete_items key is) (\<lambda>_ s'. R s' \<and> (\<forall>i \<in> set is. fmlookup s' (key i) = None) \<and> (\<forall>k. fmlookup s k = None \<longrightarrow> fmlookup s' k = None))
    (\<lambda>e s'. e = StoreError \<and> R s') s"
  using assms
proof (induction "is" arbitrary: s)
  case (Cons i "is")
  have "wp (delete_items key is) (\<lambda>_ s'. R s' \<and> (\<forall>i \<in> set is. fmlookup s' (key i) = None) \<and> (\<forall>k. fmlookup (fmdrop (key i) s) k = None \<longrightarrow> fmlookup s' k = None))
      (\<lambda>e s'. e = StoreError \<and> R s') (fmdrop (key i) s)"
    using Cons.prems by (intro Cons.IH) auto
  then show ?case using Cons.prems
    by (auto intro!: wp_bind wp_delete elim: wp_weaken)
qed (simp add: wp_ret)


lemma items_wf_drop: "items_wf key dec index s \<Longrightarrow> items_wf key dec index (fmdrop k s)"
  by (auto simp: items_wf_def split: if_splits)

lemma bounded_drop: "bounded_by key n s \<Longrightarrow> bounded_by key n (fmdrop k s)"
  by (auto simp: bounded_by_def)

lemma only_target_drop:
  assumes "only_target cd q rk s0 s" and "k \<in> range (TurnKey q) \<union> range (EventKey q) \<union> {ControlKey q}" and "k \<noteq> rk"
  shows "only_target cd q rk s0 (fmdrop k s)"
  using assms by (auto simp: only_target_def entries_of_def)

definition deleting :: "'raw codec \<Rightarrow> string \<Rightarrow> string \<Rightarrow> ControlRecord \<Rightarrow> (string, 'raw) gomap \<Rightarrow> (string, 'raw) gomap \<Rightarrow> bool" where
  "deleting cd p rk c s0 s \<longleftrightarrow> only_target cd p rk s0 s \<and> items_wf (TurnKey p) (dec_turn cd) tr_TurnIndex s \<and>
     items_wf (EventKey p) (dec_event cd) ev_Seq s \<and> being_deleted cd p c s"

lemma deleting_drop:
  assumes "deleting cd p rk c s0 s" and "k \<in> range (TurnKey p) \<union> range (EventKey p)" and "k \<noteq> rk"
  shows "deleting cd p rk c s0 (fmdrop k s)"
proof -
  have "k \<noteq> ControlKey p" using assms(2) by auto
  then have "has_control cd p c (fmdrop k s)" using assms(1) by (simp add: deleting_def being_deleted_def has_control_def)
  then show ?thesis using assms by (auto simp: deleting_def being_deleted_def intro: items_wf_drop bounded_drop only_target_drop)
qed

lemma deleting_cong:
  assumes "deleting cd p rk c s0 s" and "\<And>k. k \<noteq> rk \<Longrightarrow> fmlookup s' k = fmlookup s k" and "entries_of cd rk s' \<noteq> None"
    and "\<And>i. TurnKey p i \<noteq> rk" "\<And>i. EventKey p i \<noteq> rk" "ControlKey p \<noteq> rk"
  shows "deleting cd p rk c s0 s'"
proof -
  have "fmlookup s' (TurnKey p i) = fmlookup s (TurnKey p i)" "fmlookup s' (EventKey p i) = fmlookup s (EventKey p i)"
    "fmlookup s' (ControlKey p) = fmlookup s (ControlKey p)" for i using assms(2,4,5,6) by blast+
  then show ?thesis using assms(1,2,3)
    by (simp add: deleting_def being_deleted_def has_control_def items_wf_def bounded_by_def only_target_def)
qed

lemma deleting_deletable: "deleting cd p rk c s0 s \<Longrightarrow> deletable cd p rk s0 s"
  by (auto simp: deleting_def deletable_def)

lemma erased_deletable:
  assumes "erased cd p rk v ctx s" and "only_target cd p rk s0 s"
  shows "deletable cd p rk s0 s"
  using assms by (simp add: erased_def deletable_def items_wf_def contiguous_def)

lemma all_gone:
  assumes "\<forall>i \<in> set [1..<Suc n]. fmlookup s (key i) = None" and "bounded_by key n s" and "items_wf key dec index s"
  shows "\<forall>i. fmlookup s (key i) = None"
proof
  fix i
  consider "i = 0" | "i \<in> set [1..<Suc n]" | "n < i" by fastforce
  then show "fmlookup s (key i) = None"
  proof cases
    case 1
    then show ?thesis using assms(3) by (cases "fmlookup s (key i)") (auto simp: items_wf_def)
  qed (use assms(1,2) in \<open>auto simp: bounded_by_def\<close>)
qed

lemma wp_delete_finish:
  assumes cd: "codec_ok cd" and rk: "\<And>i. TurnKey p i \<noteq> rk" "\<And>i. EventKey p i \<noteq> rk" "ControlKey p \<noteq> rk"
    and start: "deleting cd p rk c s0 s"
  shows "wp (delete_finish cd p rk True v ctx c) (\<lambda>_ s'. only_target cd p rk s0 s' \<and> erased cd p rk v ctx s')
    (\<lambda>e s'. e = StoreError \<and> deletable cd p rk s0 s') s"
proof -
  let ?E = "\<lambda>e s'. e = StoreError \<and> deletable cd p rk s0 s'" and ?Q = "\<lambda>_ s'. only_target cd p rk s0 s' \<and> erased cd p rk v ctx s'"
  let ?R = "deleting cd p rk c s0" and ?none = "\<lambda>key s. \<forall>i. fmlookup s (key i) = None"
  have control: "wp (ds_delete (ControlKey p)) ?Q ?E s'"
    if "?R s'" "?none (TurnKey p) s'" "?none (EventKey p) s'" "\<not> registered cd rk v ctx s'" for s'
  proof -
    have "erased cd p rk v ctx (fmdrop (ControlKey p) s')" using that rk(3) by (auto simp: erased_def registered_def entries_of_def)
    moreover have "only_target cd p rk s0 (fmdrop (ControlKey p) s')" using that(1) rk(3) by (auto simp: deleting_def intro: only_target_drop)
    ultimately show ?thesis using that(1) by (intro wp_delete) (auto intro: deleting_deletable erased_deletable)
  qed
  have unreg: "wp (bind_act (reg_Unregister cd rk True v ctx) (\<lambda>_. ds_delete (ControlKey p))) ?Q ?E s'"
    if h: "?R s'" "?none (TurnKey p) s'" "?none (EventKey p) s'" for s'
  proof -
    obtain ents where ents: "entries_of cd rk s' = Some ents" using h(1) by (auto simp: deleting_def only_target_def)
    show ?thesis
    proof (rule wp_bind, rule wp_Unregister [OF cd ents])
      fix s'' assume same: "\<And>k. k \<noteq> rk \<Longrightarrow> fmlookup s'' k = fmlookup s' k" and n: "\<not> registered cd rk v ctx s''"
        and e: "entries_of cd rk s'' = Some (filter (\<lambda>e. \<not> is_entry v ctx e) ents)"
      have d: "?R s''" by (rule deleting_cong [OF h(1) same _ rk]) (use e in simp_all)
      then show "wp (ds_delete (ControlKey p)) ?Q ?E s'' \<and> ?E StoreError s''"
        using control [OF d _ _ n] same rk h(2,3) by (simp add: deleting_deletable)
    qed (use h deleting_deletable in auto)
  qed
  have events: "wp (bind_act (delete_items (EventKey p) [1..<Suc (cr_DeleteSeqUpperBound c)]) (\<lambda>_. bind_act (reg_Unregister cd rk True v ctx) (\<lambda>_. ds_delete (ControlKey p)))) ?Q ?E s'"
    if t: "?R s'" "?none (TurnKey p) s'" for s'
  proof (rule wp_bind, rule wp_weaken [OF wp_delete_items [where R = ?R]])
    fix x s'' assume a: "?R s'' \<and> (\<forall>i \<in> set [1..<Suc (cr_DeleteSeqUpperBound c)]. fmlookup s'' (EventKey p i) = None) \<and>
      (\<forall>k. fmlookup s' k = None \<longrightarrow> fmlookup s'' k = None)"
    then have "?none (EventKey p) s''"
      by (intro all_gone [where n = "cr_DeleteSeqUpperBound c" and dec = "dec_event cd" and index = ev_Seq]) (simp_all add: deleting_def being_deleted_def)
    with a t show "wp (bind_act (reg_Unregister cd rk True v ctx) (\<lambda>_. ds_delete (ControlKey p))) ?Q ?E s''" by (intro unreg) blast+
  qed (use t rk in \<open>auto intro: deleting_drop deleting_deletable\<close>)
  show ?thesis unfolding delete_finish_def
  proof (rule wp_bind, rule wp_weaken [OF wp_delete_items [where R = ?R]])
    fix x s'' assume a: "?R s'' \<and> (\<forall>i \<in> set [1..<Suc (cr_DeleteTurnUpperBound c)]. fmlookup s'' (TurnKey p i) = None) \<and>
      (\<forall>k. fmlookup s k = None \<longrightarrow> fmlookup s'' k = None)"
    then have "?none (TurnKey p) s''"
      by (intro all_gone [where n = "cr_DeleteTurnUpperBound c" and dec = "dec_turn cd" and index = tr_TurnIndex]) (simp_all add: deleting_def being_deleted_def)
    with a show "wp (bind_act (delete_items (EventKey p) [1..<Suc (cr_DeleteSeqUpperBound c)])
        (\<lambda>_. bind_act (reg_Unregister cd rk True v ctx) (\<lambda>_. ds_delete (ControlKey p)))) ?Q ?E s''" by (intro events) blast+
  qed (use start rk in \<open>auto intro: deleting_drop deleting_deletable\<close>)
qed


lemma wp_delete_prepare:
  assumes cd: "codec_ok cd" and rk: "\<And>i. TurnKey p i \<noteq> rk" "\<And>i. EventKey p i \<noteq> rk" "ControlKey p \<noteq> rk"
    and state: "deletable cd p rk s s"
  shows "wp (delete_prepare cd p rk True v ctx now)
    (\<lambda>r s'. case r of None \<Rightarrow> only_target cd p rk s s' \<and> erased cd p rk v ctx s' | Some c \<Rightarrow> deleting cd p rk c s s')
    (\<lambda>e s'. e = StoreError \<and> deletable cd p rk s s') s"
proof -
  let ?E = "\<lambda>e s'. e = StoreError \<and> deletable cd p rk s s'"
  let ?Q = "\<lambda>r s'. case r of None \<Rightarrow> only_target cd p rk s s' \<and> erased cd p rk v ctx s' | Some c \<Rightarrow> deleting cd p rk c s s'"
  have wf: "items_wf (TurnKey p) (dec_turn cd) tr_TurnIndex s" "items_wf (EventKey p) (dec_event cd) ev_Seq s" "only_target cd p rk s s"
    using state by (auto simp: deletable_def)
  obtain ts where ts: "listed (TurnKey p) (dec_turn cd) 1 ts s" "\<And>i. i < length ts \<Longrightarrow> tr_TurnIndex (ts ! i) = Suc i"
    by (rule ex_listed [OF wf(1) inj_keys(1)]) blast
  obtain es where es: "listed (EventKey p) (dec_event cd) 1 es s" "\<And>i. i < length es \<Longrightarrow> ev_Seq (es ! i) = Suc i"
    by (rule ex_listed [OF wf(2) inj_keys(2)]) blast
  have lasts: "(if ts \<noteq> [] then tr_TurnIndex (last ts) else length ts) = length ts" "(if es \<noteq> [] then ev_Seq (last es) else length es) = length es"
    using ts(2) [of "length ts - 1"] es(2) [of "length es - 1"] by (simp_all add: last_conv_nth)
  obtain ents where ents: "entries_of cd rk s = Some ents" using wf(3) by (auto simp: only_target_def)
  let ?go = "\<lambda>control. bind_act (readHistory cd p) (\<lambda>(turns, events). bind_act (reg_Exists cd rk True v ctx) (\<lambda>known.
           if control = None \<and> turns = [] \<and> events = [] \<and> \<not> known then ret None
           else if map_option cr_State control = Some StateDeleting then ret control
           else
             let createdAt = (case control of None \<Rightarrow> now | Some c \<Rightarrow> if cr_CreatedAt c \<noteq> [] then cr_CreatedAt c else now);
                 control' = \<lparr>cr_SchemaVersion = 1, cr_State = StateDeleting, cr_ForkedFrom = [], cr_ForkTurnID = [], cr_ForkTurnIndex = 0,
                   cr_ForkSeq = 0, cr_CopiedTurn = 0, cr_CopiedSeq = 0,
                   cr_DeleteTurnUpperBound = (if turns \<noteq> [] then tr_TurnIndex (last turns) else length turns),
                   cr_DeleteSeqUpperBound = (if events \<noteq> [] then ev_Seq (last events) else length events),
                   cr_CreatedAt = createdAt, cr_UpdatedAt = now\<rparr>
             in bind_act (writeControl cd p control') (\<lambda>_. ret (Some control'))))"
  have go: "wp (?go control) ?Q ?E s"
    if h: "control = None \<Longrightarrow> fmlookup s (ControlKey p) = None" "\<And>c. control = Some c \<Longrightarrow> has_control cd p c s" for control
  proof -
    have plain: "contiguous (TurnKey p) s \<and> contiguous (EventKey p) s" if "map_option cr_State control \<noteq> Some StateDeleting"
      using state that h by (cases control) (auto simp: deletable_def being_deleted_def has_control_def)
    have none: "erased cd p rk v ctx s" if "control = None" "ts = []" "es = []" "\<not> registered cd rk v ctx s"
    proof -
      have "bounded_by (TurnKey p) 0 s" "bounded_by (EventKey p) 0 s"
        using listed_bounded [OF ts(1)] listed_bounded [OF es(1)] plain that by auto
      then have "\<forall>i. fmlookup s (TurnKey p i) = None" "\<forall>i. fmlookup s (EventKey p i) = None"
        using all_gone [OF _ _ wf(1), of 0] all_gone [OF _ _ wf(2), of 0] by simp_all
      then show ?thesis using that h by (simp add: erased_def)
    qed
    have del: "deleting cd p rk c s s" if "control = Some c" "cr_State c = StateDeleting" for c
    proof -
      have "has_control cd p c s" using h that by simp
      then have "being_deleted cd p c s" using state that by (auto simp: deletable_def being_deleted_def has_control_def)
      then show ?thesis using wf by (simp add: deleting_def)
    qed
    have mark: "deleting cd p rk c s (fmupd (ControlKey p) (enc_control cd c) s)"
      if "map_option cr_State control \<noteq> Some StateDeleting" "cr_State c = StateDeleting" "cr_DeleteTurnUpperBound c = length ts"
        "cr_DeleteSeqUpperBound c = length es" for c
    proof -
      have "bounded_by (TurnKey p) (length ts) s" "bounded_by (EventKey p) (length es) s"
        using listed_bounded [OF ts(1)] listed_bounded [OF es(1)] plain [OF that(1)] by simp_all
      then show ?thesis using that wf cd rk(3)
        by (auto simp: deleting_def being_deleted_def has_control_def codec_ok_def bounded_by_def items_wf_def intro: only_target_upd)
    qed
    have marked: "wp (bind_act (writeControl cd p c) (\<lambda>_. ret (Some c))) ?Q ?E s"
      if "map_option cr_State control \<noteq> Some StateDeleting" "cr_State c = StateDeleting" "cr_DeleteTurnUpperBound c = length ts"
        "cr_DeleteSeqUpperBound c = length es" for c
      using mark [OF that] state by (intro wp_bind wp_writeControl) (auto intro: wp_ret deleting_deletable)
    show ?thesis
      by (rule wp_bind, rule wp_readHistory [OF ts(1) es(1)], simp only: prod.case, rule wp_bind, rule wp_Exists [OF ents])
        (use none del marked lasts wf state in \<open>auto simp: Let_def intro!: wp_ret marked\<close>)
  qed
  show ?thesis
  proof (cases "fmlookup s (ControlKey p)")
    case None
    show ?thesis unfolding delete_prepare_def
      by (rule wp_bind, rule wp_readControl_None [OF None]) (use go [of None] None state in simp_all)
  next
    case (Some raw)
    then obtain c where c: "dec_control cd raw = Some c" using state by (auto simp: deletable_def being_deleted_def has_control_def)
    show ?thesis unfolding delete_prepare_def
      by (rule wp_bind, rule wp_readControl_Some [OF Some c]) (use go [of "Some c"] Some c state in \<open>simp_all add: has_control_def\<close>)
  qed
qed


text \<open>
  C32: As long as nobody else writes to the store while the deletion runs, a deletion can be repeated until it succeeds: wherever it
  stops, at the store, at the pool or at the timeout, the context is in a state from which it can be repeated, and nothing but the
  context and the registry has changed. When it reports success nothing of the context is left: no turn, no event, no control
  record, no entry in the registry. A turn that an instance of the context still writes meanwhile does survive a reported success:
  \<open>late_turn_survives\<close>.
\<close>

theorem delete_repeatable:
  assumes cd: "codec_ok cd" and keys: "take 5 (px (dr_SessionCtxID req)) \<noteq> take 5 rk" "5 \<le> length (px (dr_SessionCtxID req))"
    and scope: "scope_complete (dr_TenantID req) (xs_Name spec) (xs_Version spec) (dr_SessionCtxID req)"
    and state: "deletable cd (px (dr_SessionCtxID req)) rk (kw_store w) (kw_store w)"
    and quiet: "\<And>v. kw_store (others v) = kw_store v"
    and run: "delete_with cd px rk (Some spec) now req instances fails start polls others w = Some (res, w')"
  shows "deletable cd (px (dr_SessionCtxID req)) rk (kw_store w) (kw_store w') \<and>
    (res = None \<longrightarrow> erased cd (px (dr_SessionCtxID req)) rk (xs_Version spec) (dr_SessionCtxID req) (kw_store w'))"
proof -
  let ?p = "px (dr_SessionCtxID req)" and ?ctx = "dr_SessionCtxID req" and ?v = "xs_Version spec"
  have rk: "\<And>i. TurnKey ?p i \<noteq> rk" "\<And>i. EventKey ?p i \<noteq> rk" "ControlKey ?p \<noteq> rk" using keys by (auto simp: registry_keys)
  obtain r w1 where r: "delete_prepare cd ?p rk True ?v ?ctx now w = (r, w1)" by fastforce
  from wpD [OF wp_delete_prepare [OF cd rk state] r]
  have p: "case r of Inl e \<Rightarrow> (e = StoreError \<and> deletable cd ?p rk (kw_store w) (kw_store w1)) \<and> (e = StoreError \<longrightarrow> kw_left w \<noteq> None)
    | Inr x \<Rightarrow> (case x of None \<Rightarrow> only_target cd ?p rk (kw_store w) (kw_store w1) \<and> erased cd ?p rk ?v ?ctx (kw_store w1)
        | Some c \<Rightarrow> deleting cd ?p rk c (kw_store w) (kw_store w1))" .
  show ?thesis
  proof (cases r)
    case (Inl e)
    then show ?thesis using run r p scope by (auto simp: delete_with_def Let_def)
  next
    case (Inr x)
    show ?thesis
    proof (cases x)
      case None
      then show ?thesis using run r p Inr scope by (auto simp: delete_with_def Let_def intro: erased_deletable)
    next
      case (Some c)
      then have d: "deleting cd ?p rk c (kw_store w) (kw_store (others w1))" using p Inr by (simp add: quiet)
      obtain r2 w2 where r2: "delete_finish cd ?p rk True ?v ?ctx c (others w1) = (r2, w2)" by fastforce
      from wpD [OF wp_delete_finish [OF cd rk d] r2]
      have q: "case r2 of Inl e \<Rightarrow> (e = StoreError \<and> deletable cd ?p rk (kw_store w) (kw_store w2)) \<and> (e = StoreError \<longrightarrow> kw_left (others w1) \<noteq> None)
        | Inr _ \<Rightarrow> only_target cd ?p rk (kw_store w) (kw_store w2) \<and> erased cd ?p rk ?v ?ctx (kw_store w2)" .
      have "(res \<noteq> None \<and> w' = others w1) \<or> (w' = w2 \<and> res = (case r2 of Inl e \<Rightarrow> Some e | Inr _ \<Rightarrow> None))"
        using run r r2 Inr Some scope by (auto simp: delete_with_def Let_def split: prod.splits option.splits sum.splits)
      then show ?thesis using q deleting_deletable [OF d] by (auto intro: erased_deletable split: sum.splits)
    qed
  qed
qed

text \<open>Polling for the end of the instances stops at the latest with the first poll after the deadline.\<close>

lemma wait_gone_ends: "(t, present) \<in> set polls \<Longrightarrow> \<not> present \<or> deadline < t \<Longrightarrow> \<exists>r. wait_gone deadline polls = Some r"
  by (induction polls) auto

text \<open>
  An instance is created for a context only if the pool lists no live one for it and the context is neither being deleted nor
  being created; in the latter case the hint is remembered.
\<close>

theorem hint_creates_only_first:
  assumes "hint_with cd px rk (Some spec) now tenantID funcKey ctx instances createErr ops w = hr" and "hr_created hr"
  shows "(\<forall>i \<in> set instances. sameContext i ctx \<longrightarrow> isExiting i) \<and>
    (\<forall>c. has_control cd (px ctx) c (kw_store w) \<longrightarrow> cr_State c \<noteq> StateDeleting \<and> cr_State c \<noteq> StateCreating)"
proof -
  obtain r w' where r: "readControl cd (px ctx) w = (r, w')" by fastforce
  have some: "r = Inr (Some c)" if "has_control cd (px ctx) c (kw_store w)" "r = Inr x" for c x
    using r that by (auto simp: readControl_def bind_act_def ds_get_def spend_def has_control_def decode_def ret_def
        split: option.splits nat.splits)
  obtain x where x: "r = Inr x" "map_option cr_State x \<noteq> Some StateDeleting" "map_option cr_State x \<noteq> Some StateCreating"
      "\<not> (\<exists>i \<in> set instances. sameContext i ctx \<and> \<not> isExiting i)"
    using assms r by (auto simp: hint_with_def Let_def split: if_splits sum.splits prod.splits)
  then show ?thesis using some by auto
qed

end
