(* ===== verification/ContextRuns.thy ===== *)
theory ContextRuns
  imports ContextProps
begin

text \<open>
  Runs of the session context manager on a small store: witnesses for the properties, and what a fork and a deletion do not
  do. The codec keeps the records as they are, and the prefix of a context is its name.
\<close>

datatype doc = TurnDoc TurnRecord | EventDoc Event | ControlDoc ControlRecord | RegistryDoc Registry

definition docs :: "doc codec" where
  "docs =
     \<lparr>enc_turn = TurnDoc, dec_turn = (\<lambda>d. case d of TurnDoc t \<Rightarrow> Some t | _ \<Rightarrow> None),
      enc_event = EventDoc, dec_event = (\<lambda>d. case d of EventDoc e \<Rightarrow> Some e | _ \<Rightarrow> None),
      enc_control = ControlDoc, dec_control = (\<lambda>d. case d of ControlDoc c \<Rightarrow> Some c | _ \<Rightarrow> None),
      enc_registry = RegistryDoc, dec_registry = (\<lambda>d. case d of RegistryDoc r \<Rightarrow> Some r | _ \<Rightarrow> None)\<rparr>"

lemma docs_ok: "codec_ok docs"
  by (simp add: codec_ok_def docs_def)

definition plain_px :: "string \<Rightarrow> string" where "plain_px ctx = ''ar:s:'' @ ctx"

abbreviation (input) plain_rk :: string where "plain_rk \<equiv> ''ar:i:f''"

definition turn_rec :: "nat \<Rightarrow> string \<Rightarrow> TurnRecord" where
  "turn_rec i turnID = \<lparr>tr_SessionContextID = ''a'', tr_TurnIndex = i, tr_TurnID = turnID, tr_StartSeq = 1, tr_CreatedAt = [], tr_SchemaVersion = 1\<rparr>"

definition done_event :: "nat \<Rightarrow> string \<Rightarrow> Event" where
  "done_event i turnID = \<lparr>ev_SessionContextID = ''a'', ev_TurnID = turnID, ev_Seq = i, ev_EventID = [], ev_Source = [], ev_Type = ''turn.completed'',
     ev_Data = [], ev_SchemaVersion = 1, ev_CreatedAt = []\<rparr>"

definition talk :: "(string, doc) gomap" where
  "talk = fmupd (TurnKey (plain_px ''a'') 1) (TurnDoc (turn_rec 1 ''T''))
     (fmupd (EventKey (plain_px ''a'') 1) (EventDoc (done_event 1 ''T'')) fmempty)"

definition talk_req :: ForkRequest where
  "talk_req = \<lparr>fk_TenantID = ''t'', fk_FuncKey = ''k'', fk_SourceSessionCtxID = ''a'', fk_TargetSessionCtxID = ''b'', fk_TurnID = ''T''\<rparr>"

definition talk_case :: fork_case where
  "talk_case = \<lparr>fc_source = ''a'', fc_target = ''b'', fc_turnID = ''T'', fc_turns = [turn_rec 1 ''T''], fc_events = [done_event 1 ''T''],
     fc_lastTurn = 1, fc_lastSeq = 1\<rparr>"

definition talk_spec :: ctx_spec where "talk_spec = \<lparr>xs_Name = ''f'', xs_Version = ''v''\<rparr>"

definition world_of :: "(string, doc) gomap \<Rightarrow> nat option \<Rightarrow> doc kv_world" where
  "world_of s n = \<lparr>kw_store = s, kw_left = n, kw_torn = False\<rparr>"

lemma plain_keys:
  "keys_ok (plain_px ''a'') (plain_px ''b'') plain_rk" "TurnKey (plain_px ''a'') i \<noteq> plain_rk" "EventKey (plain_px ''a'') i \<noteq> plain_rk"
  "plain_rk \<noteq> TurnKey (plain_px ''a'') i" "plain_rk \<noteq> EventKey (plain_px ''a'') i"
  "TurnKey (plain_px ''a'') i \<noteq> TurnKey (plain_px ''b'') j" "TurnKey (plain_px ''a'') i \<noteq> EventKey (plain_px ''b'') j" "TurnKey (plain_px ''a'') i \<noteq> ControlKey (plain_px ''b'')"
  "EventKey (plain_px ''a'') i \<noteq> TurnKey (plain_px ''b'') j" "EventKey (plain_px ''a'') i \<noteq> EventKey (plain_px ''b'') j" "EventKey (plain_px ''a'') i \<noteq> ControlKey (plain_px ''b'')"
  by (simp_all add: keys_ok_def plain_px_def TurnKey_def EventKey_def ControlKey_def)

lemma talk_input: "fork_input docs (plain_px ''a'') talk_case talk"
  by (simp add: fork_input_def history_def listed_def talk_def talk_case_def docs_def turn_rec_def done_event_def fork_seq_def)

lemma talk_resumable: "fork_resumable docs (plain_px ''b'') plain_rk ''v'' talk_case talk talk"
  by (simp add: fork_resumable_def only_target_def target_fresh_def registered_def entries_of_def talk_def plain_keys)

theorem fork_repeatable_witness:
  "target_ready docs (plain_px ''b'') talk_case
     (kw_store (fr_world (fork_with docs plain_px plain_rk (Some talk_spec) ''now'' talk_req fmempty (world_of talk None))))"
proof -
  let ?fr = "fork_with docs plain_px plain_rk (Some talk_spec) ''now'' talk_req fmempty (world_of talk None)"
  have "kw_store (world_of talk None) = talk" "kw_left (world_of talk None) = None" by (simp_all add: world_of_def)
  then show ?thesis
    using fork_repeatable [of docs plain_px talk_case plain_rk talk_req talk_spec "world_of talk None" "''now''" fmempty ?fr]
      docs_ok plain_keys(1) talk_input talk_resumable
    by (auto simp: talk_case_def talk_req_def talk_spec_def scope_complete_def split: option.splits)
qed

definition talk_delete :: DeleteRequest where
  "talk_delete = \<lparr>dr_TenantID = ''t'', dr_FuncKey = ''k'', dr_SessionCtxID = ''a''\<rparr>"

lemma talk_deletable: "deletable docs (plain_px ''a'') plain_rk talk talk"
  by (auto simp: deletable_def only_target_def items_wf_def contiguous_def entries_of_def talk_def plain_keys docs_def turn_rec_def done_event_def
      split: if_splits)

theorem delete_repeatable_witness:
  "map_option (\<lambda>(res, w). (res, fmlookup (kw_store w) (TurnKey (plain_px ''a'') 1)))
     (delete_with docs plain_px plain_rk (Some talk_spec) ''now'' talk_delete [] (\<lambda>_. False) 0 [(0, False)] id (world_of talk None)) = Some (None, None)"
proof -
  let ?run = "delete_with docs plain_px plain_rk (Some talk_spec) ''now'' talk_delete [] (\<lambda>_. False) 0 [(0, False)] id (world_of talk None)"
  have "map_option fst ?run = Some None" by code_simp
  then obtain w' where w': "?run = Some (None, w')" by auto
  then have "erased docs (plain_px ''a'') plain_rk ''v'' ''a'' (kw_store w')"
    using delete_repeatable [of docs plain_px talk_delete plain_rk talk_spec "world_of talk None" id "''now''" "[]" "\<lambda>_. False" 0 "[(0, False)]" None w']
      docs_ok talk_deletable
    by (simp add: talk_delete_def talk_spec_def scope_complete_def world_of_def plain_px_def)
  then show ?thesis using w' by (simp add: erased_def)
qed

definition leaving :: Instance where
  "leaving =
     \<lparr>in_InstanceID = ''i'', in_FuncKey = ''k'', in_ConcurrentNum = 1, in_Code = 5, in_InstanceIP = [], in_InstancePort = [], in_NodeIP = [],
      in_NodePort = [], in_FuncSig = [], in_FunctionProxyID = [], in_RouteAddress = [], in_AZ = [], in_SessionCtxID = Some ''a''\<rparr>"

theorem hint_creates_only_first_witness: "isExiting leaving"
proof -
  have "hr_created (hint_with docs plain_px plain_rk (Some talk_spec) ''now'' ''t'' ''k'' ''a'' [leaving] None fmempty (world_of talk None))"
    by code_simp
  from hint_creates_only_first [OF refl this] show ?thesis by (simp add: sameContext_def leaving_def)
qed

section \<open>What is lost\<close>

text \<open>
  The registration of a fork fails: the store answers fourteen accesses and not the next. The caller repeats the fork and is told
  that it succeeded, because the target is ready, but nobody registers it any more.
\<close>

theorem fork_retry_skips_registration:
  "(let first = fork_with docs plain_px plain_rk (Some talk_spec) ''now'' talk_req fmempty (world_of talk (Some 14));
        second = fork_with docs plain_px plain_rk (Some talk_spec) ''now'' talk_req fmempty (world_of (kw_store (fr_world first)) None)
    in (fr_error first, fr_error second, fmlookup (kw_store (fr_world second)) plain_rk)) = (Some StoreError, None, None)"
  by code_simp

text \<open>
  A deletion reads the history before it stops the instances. A turn that an instance still writes in between is beyond the bound of
  the deletion and stays: it is part of the next context of that name as soon as that has one turn.
\<close>

definition late_turn :: "doc kv_world \<Rightarrow> doc kv_world" where
  "late_turn w = w\<lparr>kw_store := fmupd (TurnKey (plain_px ''a'') 2) (TurnDoc (turn_rec 2 ''U'')) (kw_store w)\<rparr>"

theorem late_turn_survives:
  "(let deleted = delete_with docs plain_px plain_rk (Some talk_spec) ''now'' talk_delete [] (\<lambda>_. False) 0 [(0, False)] late_turn (world_of talk None)
    in case deleted of
         Some (res, w) \<Rightarrow>
           let next_turn = world_of (fmupd (TurnKey (plain_px ''a'') 1) (TurnDoc (turn_rec 1 ''V'')) (kw_store w)) None
           in (res, case fst (readHistory docs (plain_px ''a'') next_turn) of Inr (ts, _) \<Rightarrow> map tr_TurnID ts | Inl _ \<Rightarrow> [])
       | None \<Rightarrow> (None, [])) =
   (None, [''V'', ''U''])"
  by code_simp

text \<open>The locks of a fork are taken in one order for all forks, so that two forks never wait for each other.\<close>

lemma fork_locks_sorted: "sorted_wrt (<) (fork_locks req)"
  by (auto simp: fork_locks_def Let_def not_less le_less)

end
