(* ===== verification/StateLease.thy ===== *)
theory StateLease
  imports RequestQueue
begin

text \<open>
  The leases of an instance that serves a state (\<^verbatim>\<open>functionscaler/stateinstance/lease.go\<close>), with the timers they
  arm. Timers are named by numbers; which of the armed ones fires next is left open. Shown: a
  leaser never has more leases than it may, and its scale-down timer is armed only while it has none.
\<close>

section \<open>Timers\<close>

text \<open>\<^verbatim>\<open>time.AfterFunc\<close> and \<^verbatim>\<open>Stop\<close>. A timer that has fired is not armed any more, and its action runs in a goroutine.\<close>

record 'a timers =
  ts_armed :: "(nat, 'a) gomap"
  ts_next :: nat

definition AfterFunc :: "'a \<Rightarrow> 'a timers \<Rightarrow> nat \<times> 'a timers" where
  "AfterFunc f ts = (ts_next ts, ts\<lparr>ts_armed := fmupd (ts_next ts) f (ts_armed ts), ts_next := Suc (ts_next ts)\<rparr>)"

definition timer_Stop :: "nat \<Rightarrow> 'a timers \<Rightarrow> 'a timers" where
  "timer_Stop t ts = ts\<lparr>ts_armed := fmdrop t (ts_armed ts)\<rparr>"

definition stop_some :: "nat option \<Rightarrow> 'a timers \<Rightarrow> 'a timers" where
  "stop_some t ts = (case t of None \<Rightarrow> ts | Some t \<Rightarrow> timer_Stop t ts)"

section \<open>The leaser\<close>

datatype lease_action =
    Expire string nat  \<comment> \<open>\<^verbatim>\<open>l.ReleaseLease(lease.ID)\<close> of the leaser of an instance\<close>
  | ScaleDown string string  \<comment> \<open>\<^verbatim>\<open>l.deleteStateInstance(l.stateID, l.instanceID)\<close>\<close>

record Leaser =
  le_Leases :: "(nat, nat) gomap"
  le_nextID :: nat
  le_maxLeases :: int
  le_timer :: "nat option"
  le_stateID :: string
  le_instanceID :: string

definition NewLeaser :: "int \<Rightarrow> string \<Rightarrow> string \<Rightarrow> Leaser" where
  "NewLeaser maxLeases stateID instanceID =
     \<lparr>le_Leases = fmempty, le_nextID = 0, le_maxLeases = maxLeases, le_timer = None, le_stateID = stateID, le_instanceID = instanceID\<rparr>"

definition arm_scale_down :: "Leaser \<Rightarrow> lease_action timers \<Rightarrow> Leaser \<times> lease_action timers" where
  "arm_scale_down l ts =
     (let (t, ts1) = AfterFunc (ScaleDown (le_stateID l) (le_instanceID l)) (stop_some (le_timer l) ts)
      in (l\<lparr>le_timer := Some t\<rparr>, ts1))"

definition le_Recover :: "Leaser \<Rightarrow> lease_action timers \<Rightarrow> Leaser \<times> lease_action timers" where
  "le_Recover l ts = arm_scale_down l ts"

definition le_Terminate :: "Leaser \<Rightarrow> lease_action timers \<Rightarrow> Leaser \<times> lease_action timers" where
  "le_Terminate l ts = (l\<lparr>le_timer := None\<rparr>, stop_some (le_timer l) ts)"

abbreviation (input) NoLeaseErr :: go_error where "NoLeaseErr \<equiv> SNError 4025 ''maximum number of leases reached''"

definition AcquireLease :: "Leaser \<Rightarrow> lease_action timers \<Rightarrow> (go_error + nat) \<times> Leaser \<times> lease_action timers" where
  "AcquireLease l ts =
     (if int (fcard (fmdom (le_Leases l))) \<ge> le_maxLeases l then (Inl NoLeaseErr, l, ts)
      else
        let (t, ts1) = AfterFunc (Expire (le_instanceID l) (le_nextID l)) ts
        in (Inr (le_nextID l),
            l\<lparr>le_Leases := fmupd (le_nextID l) t (le_Leases l), le_nextID := Suc (le_nextID l), le_timer := None\<rparr>,
            stop_some (le_timer l) ts1))"

definition ReleaseLease :: "nat \<Rightarrow> Leaser \<Rightarrow> lease_action timers \<Rightarrow> Leaser \<times> lease_action timers" where
  "ReleaseLease lid l ts =
     (let l1 = l\<lparr>le_Leases := fmdrop lid (le_Leases l)\<rparr>; ts1 = stop_some (fmlookup (le_Leases l) lid) ts
      in if fmdom (le_Leases l1) = {||} then arm_scale_down l1 ts1 else (l1, ts1))"

definition RetainLease :: "nat \<Rightarrow> Leaser \<Rightarrow> lease_action timers \<Rightarrow> go_error option \<times> Leaser \<times> lease_action timers" where
  "RetainLease lid l ts =
     (case fmlookup (le_Leases l) lid of
        None \<Rightarrow> (Some (GoError (''lease'' @ showNat lid @ '' not found'')), l, ts)
      | Some t \<Rightarrow>
          let (t', ts1) = AfterFunc (Expire (le_instanceID l) lid) (timer_Stop t ts)
          in (None, l\<lparr>le_Leases := fmupd lid t' (le_Leases l)\<rparr>, ts1))"

section \<open>What a leaser keeps\<close>

text \<open>
  The timers of a leaser, armed or not, are known to the timer set; an armed timer of its instance is the one its lease or the
  leaser itself refers to.
\<close>

fun about :: "lease_action \<Rightarrow> string" where
  "about (Expire i _) = i"
| "about (ScaleDown _ i) = i"

definition timers_ok :: "'a timers \<Rightarrow> bool" where
  "timers_ok ts \<longleftrightarrow> (\<forall>t a. fmlookup (ts_armed ts) t = Some a \<longrightarrow> t < ts_next ts)"

definition leaser_ok :: "lease_action timers \<Rightarrow> Leaser \<Rightarrow> bool" where
  "leaser_ok ts l \<longleftrightarrow>
     int (fcard (fmdom (le_Leases l))) \<le> max 0 (le_maxLeases l) \<and>
     (\<forall>lid t. fmlookup (le_Leases l) lid = Some t \<longrightarrow> lid < le_nextID l \<and> t < ts_next ts) \<and>
     (\<forall>t. le_timer l = Some t \<longrightarrow> le_Leases l = fmempty \<and> t < ts_next ts) \<and>
     (\<forall>t lid. fmlookup (ts_armed ts) t = Some (Expire (le_instanceID l) lid) \<longrightarrow> fmlookup (le_Leases l) lid = Some t) \<and>
     (\<forall>t s. fmlookup (ts_armed ts) t = Some (ScaleDown s (le_instanceID l)) \<longrightarrow> le_timer l = Some t \<and> s = le_stateID l)"

lemma timers_ok_simps [simp]:
  "timers_ok ts \<Longrightarrow> timers_ok (timer_Stop t ts)" "timers_ok ts \<Longrightarrow> timers_ok (stop_some o1 ts)"
  "timers_ok ts \<Longrightarrow> timers_ok (snd (AfterFunc a ts))"
  by (auto simp: timers_ok_def timer_Stop_def stop_some_def AfterFunc_def less_SucI split: option.splits if_splits)

lemma stop_some_simps [simp]:
  "ts_next (stop_some o1 ts) = ts_next ts" "fmlookup (ts_armed (stop_some o1 ts)) t = (if o1 = Some t then None else fmlookup (ts_armed ts) t)"
  by (auto simp: stop_some_def timer_Stop_def split: option.splits)

lemma timer_Stop_some: "timer_Stop t = stop_some (Some t)"
  by (simp add: stop_some_def fun_eq_iff)

text \<open>Arming timers for another instance and stopping timers do not matter to a leaser.\<close>

definition timers_extend :: "string \<Rightarrow> lease_action timers \<Rightarrow> lease_action timers \<Rightarrow> bool" where
  "timers_extend i ts ts' \<longleftrightarrow> ts_next ts \<le> ts_next ts' \<and>
     (\<forall>t a. fmlookup (ts_armed ts') t = Some a \<longrightarrow> fmlookup (ts_armed ts) t = Some a \<or> about a = i)"

lemma leaser_ok_extend: "leaser_ok ts l \<Longrightarrow> timers_extend i ts ts' \<Longrightarrow> le_instanceID l \<noteq> i \<Longrightarrow> leaser_ok ts' l"
  unfolding leaser_ok_def timers_extend_def by (fastforce dest: order.strict_trans2)

lemma NewLeaser_ok:
  assumes "\<And>t a. fmlookup (ts_armed ts) t = Some a \<Longrightarrow> about a \<noteq> instanceID"
  shows "leaser_ok ts (NewLeaser m stateID instanceID)"
proof -
  have "fmlookup (ts_armed ts) t \<noteq> Some (Expire instanceID lid)" "fmlookup (ts_armed ts) t \<noteq> Some (ScaleDown s instanceID)" for t lid s
    using assms [of t "Expire instanceID lid"] assms [of t "ScaleDown s instanceID"] by auto
  then show ?thesis by (simp add: leaser_ok_def NewLeaser_def fcard_fempty)
qed

lemma arm_scale_down_ok:
  assumes "leaser_ok ts l" and "timers_ok ts" and "le_Leases l = fmempty"
  shows "leaser_ok (snd (arm_scale_down l ts)) (fst (arm_scale_down l ts))"
  using assms by (auto simp: leaser_ok_def arm_scale_down_def AfterFunc_def Let_def)

lemma arm_scale_down_extend: "timers_extend (le_instanceID l) ts (snd (arm_scale_down l ts))"
  by (auto simp: timers_extend_def arm_scale_down_def AfterFunc_def Let_def split: if_splits)

lemma AcquireLease_ok:
  assumes "leaser_ok ts l" and "timers_ok ts" and "AcquireLease l ts = (r, l', ts')"
  shows "leaser_ok ts' l' \<and> timers_ok ts' \<and> timers_extend (le_instanceID l) ts ts' \<and> le_instanceID l' = le_instanceID l"
proof (cases "int (fcard (fmdom (le_Leases l))) \<ge> le_maxLeases l")
  case False
  have new: "le_nextID l |\<notin>| fmdom (le_Leases l)" using assms(1) by (fastforce simp: leaser_ok_def fmlookup_dom_iff)
  have card: "fcard (fmdom (fmupd (le_nextID l) t (le_Leases l))) = Suc (fcard (fmdom (le_Leases l)))" for t
    using fcard_finsert_disjoint [OF new] by simp
  have "l' = l\<lparr>le_Leases := fmupd (le_nextID l) (ts_next ts) (le_Leases l), le_nextID := Suc (le_nextID l), le_timer := None\<rparr>"
    "ts' = stop_some (le_timer l) (snd (AfterFunc (Expire (le_instanceID l) (le_nextID l)) ts))"
    using assms(3) False by (auto simp: AcquireLease_def AfterFunc_def Let_def)
  then show ?thesis using assms(1,2) False new card
    by (auto simp: leaser_ok_def timers_extend_def AfterFunc_def timers_ok_def less_SucI split: if_splits)
qed (use assms in \<open>auto simp: AcquireLease_def timers_extend_def\<close>)

lemma drop_lease_ok:
  assumes "leaser_ok ts l"
  shows "leaser_ok (stop_some (fmlookup (le_Leases l) lid) ts) (l\<lparr>le_Leases := fmdrop lid (le_Leases l)\<rparr>)"
proof -
  have "fcard (fmdom (fmdrop lid (le_Leases l))) \<le> fcard (fmdom (le_Leases l))" by (intro fcard_mono) auto
  then show ?thesis using assms by (auto simp: leaser_ok_def)
qed

lemma ReleaseLease_ok:
  assumes "leaser_ok ts l" and "timers_ok ts"
  shows "leaser_ok (snd (ReleaseLease lid l ts)) (fst (ReleaseLease lid l ts)) \<and> timers_ok (snd (ReleaseLease lid l ts))
    \<and> timers_extend (le_instanceID l) ts (snd (ReleaseLease lid l ts)) \<and> le_instanceID (fst (ReleaseLease lid l ts)) = le_instanceID l"
proof -
  let ?l1 = "l\<lparr>le_Leases := fmdrop lid (le_Leases l)\<rparr>" and ?ts1 = "stop_some (fmlookup (le_Leases l) lid) ts"
  have ok1: "leaser_ok ?ts1 ?l1" by (rule drop_lease_ok [OF assms(1)])
  have arm: "timers_ok (snd (arm_scale_down ?l1 ?ts1))" "le_instanceID (fst (arm_scale_down ?l1 ?ts1)) = le_instanceID l"
    using assms(2) by (auto simp: arm_scale_down_def AfterFunc_def Let_def timers_ok_def less_SucI split: if_splits)
  have "timers_extend (le_instanceID l) ts (snd (arm_scale_down ?l1 ?ts1))"
    using arm_scale_down_extend [of ?l1 ?ts1] by (force simp: timers_extend_def split: if_splits)
  moreover have "timers_extend (le_instanceID l) ts ?ts1" by (auto simp: timers_extend_def split: if_splits)
  moreover have "fmdom (le_Leases ?l1) = {||} \<Longrightarrow> le_Leases ?l1 = fmempty" by (metis fmap_ext fmdom_notD fmempty_lookup fempty_iff)
  ultimately show ?thesis using ok1 arm assms(2) arm_scale_down_ok [OF ok1] by (auto simp: ReleaseLease_def Let_def)
qed

lemma RetainLease_ok:
  assumes "leaser_ok ts l" and "timers_ok ts" and "RetainLease lid l ts = (r, l', ts')"
  shows "leaser_ok ts' l' \<and> timers_ok ts' \<and> timers_extend (le_instanceID l) ts ts' \<and> le_instanceID l' = le_instanceID l"
proof (cases "fmlookup (le_Leases l) lid")
  case (Some t)
  have "finsert lid (fmdom (le_Leases l)) = fmdom (le_Leases l)" using Some by (simp add: finsert_absorb fmdomI)
  moreover have "le_Leases l \<noteq> fmempty" using Some by auto
  moreover have "l' = l\<lparr>le_Leases := fmupd lid (ts_next ts) (le_Leases l)\<rparr>"
    "ts' = snd (AfterFunc (Expire (le_instanceID l) lid) (stop_some (Some t) ts))"
    using assms(3) Some by (auto simp: RetainLease_def AfterFunc_def Let_def timer_Stop_some)
  ultimately show ?thesis using assms(1,2) Some
    by (auto simp: leaser_ok_def timers_extend_def AfterFunc_def timers_ok_def less_SucI split: if_splits)
qed (use assms in \<open>auto simp: RetainLease_def timers_extend_def\<close>)

lemma Terminate_ok: "leaser_ok ts l \<Longrightarrow> leaser_ok (snd (le_Terminate l ts)) (fst (le_Terminate l ts))"
  by (auto simp: leaser_ok_def le_Terminate_def)

text \<open>A timer that fires is not armed any more.\<close>

lemma fire_ok: "leaser_ok ts l \<Longrightarrow> leaser_ok (timer_Stop t ts) l"
  by (auto simp: leaser_ok_def timer_Stop_some)

end
