(* ===== verification/StateRoute.thy ===== *)
theory StateRoute
  imports StateLease InstanceQueue
begin

text \<open>
  Which instance serves a state (\<^verbatim>\<open>functionscaler/instancepool/stateroute.go\<close>), and the leases of state instances in the pool manager
  (\<^verbatim>\<open>poolmanager.go\<close>). A state is bound to one instance, which is made for it on the first request
  and removed when it had no lease for a while. Theory \<open>StateSystem\<close> shows what holds in the runs of these operations, and when.
\<close>

section \<open>Data\<close>

record ResSpecKey =
  rk_CPU :: int
  rk_Memory :: int
  rk_EphemeralStorage :: int
  rk_CustomResources :: string
  rk_CustomResourcesSpec :: string
  rk_InvokeLabel :: string

record PoolInstance = SchedInstance +
  in_InstanceType :: string
  in_ResKey :: ResSpecKey

abbreviation (input) InstanceTypeState :: string where "InstanceTypeState \<equiv> ''state''"
abbreviation (input) ConsistentWithState :: string where "ConsistentWithState \<equiv> ''ConsistentWithInstance''"

abbreviation (input) InstanceOk :: int where "InstanceOk \<equiv> 0"
abbreviation (input) InstanceAbnormal :: int where "InstanceAbnormal \<equiv> 1"
abbreviation (input) InstanceExit :: int where "InstanceExit \<equiv> 2"

record StateInstance =
  sx_StateID :: string
  sx_status :: int
  sx_instance :: "PoolInstance option"

text \<open>
  The locks of the states are named by numbers; \<open>ro_deleted\<close> are the instances that were passed to the delete function.
\<close>

record StateRoute =
  ro_stateRoute :: "(string, StateInstance) gomap"
  ro_stateLeaseManager :: "(string, Leaser) gomap"
  ro_LifeCycle :: string
  ro_ConcurrentNum :: int
  ro_stateLocks :: "(string, nat) gomap"
  ro_nextLock :: nat
  ro_timers :: "lease_action timers"
  ro_deleted :: "PoolInstance list"

section \<open>Operations\<close>

text \<open>\<^verbatim>\<open>stateLocks.LoadOrStore\<close>.\<close>

definition LoadOrStore :: "string \<Rightarrow> StateRoute \<Rightarrow> nat \<times> StateRoute" where
  "LoadOrStore stateID sr =
     (case fmlookup (ro_stateLocks sr) stateID of
        Some lock \<Rightarrow> (lock, sr)
      | None \<Rightarrow> (ro_nextLock sr, sr\<lparr>ro_stateLocks := fmupd stateID (ro_nextLock sr) (ro_stateLocks sr), ro_nextLock := Suc (ro_nextLock sr)\<rparr>))"

datatype op_type = stateUpdate | stateDelete | stateInstanceDelete

definition setStateInstance :: "string \<Rightarrow> StateInstance \<Rightarrow> StateRoute \<Rightarrow> StateRoute" where
  "setStateInstance stateID stateInstance sr = sr\<lparr>ro_stateRoute := fmupd stateID stateInstance (ro_stateRoute sr)\<rparr>"

definition deleteStateInstance :: "string \<Rightarrow> StateRoute \<Rightarrow> StateRoute" where
  "deleteStateInstance stateID sr = sr\<lparr>ro_stateRoute := fmdrop stateID (ro_stateRoute sr)\<rparr>"

text \<open>
  \<^verbatim>\<open>processStateRoute\<close>. The copy that it sends to the recovery queue (\<^verbatim>\<open>state.Update\<close>) is left out; what a restart reads back from that queue is
  an argument of \<^verbatim>\<open>recover\<close> below.
\<close>

definition processStateRoute :: "StateInstance \<Rightarrow> string \<Rightarrow> op_type \<Rightarrow> StateRoute \<Rightarrow> StateRoute" where
  "processStateRoute stateInstance stateID opType sr =
     (case opType of
        stateUpdate \<Rightarrow> setStateInstance stateID stateInstance sr
      | stateDelete \<Rightarrow> (deleteStateInstance stateID sr)\<lparr>ro_stateLocks := fmdrop stateID (ro_stateLocks sr)\<rparr>
      | stateInstanceDelete \<Rightarrow>
          if ro_LifeCycle sr = ConsistentWithState
          then setStateInstance stateID (stateInstance\<lparr>sx_status := InstanceExit, sx_instance := None\<rparr>) sr
          else deleteStateInstance stateID sr)"

text \<open>
  \<^verbatim>\<open>generateStateLease\<close>, for an instance that is not nil: the leaser of the instance is made when it is first needed.
\<close>

definition put_leaser :: "Leaser \<Rightarrow> lease_action timers \<Rightarrow> StateRoute \<Rightarrow> StateRoute" where
  "put_leaser l ts sr =
     sr\<lparr>ro_stateLeaseManager := fmupd (le_instanceID l) l (ro_stateLeaseManager sr), ro_timers := ts\<rparr>"

definition generateStateLease :: "string \<Rightarrow> PoolInstance \<Rightarrow> StateRoute \<Rightarrow> (go_error + nat) \<times> StateRoute" where
  "generateStateLease stateID i sr =
     (let leaser = (case fmlookup (ro_stateLeaseManager sr) (in_InstanceID i) of
                      Some l \<Rightarrow> l | None \<Rightarrow> NewLeaser (ro_ConcurrentNum sr) stateID (in_InstanceID i));
          (res, l', ts') = AcquireLease leaser (ro_timers sr)
      in (res, put_leaser l' ts' sr))"

type_synonym state_alloc = "PoolInstance \<times> string"

definition state_allocation :: "PoolInstance \<Rightarrow> go_error + nat \<Rightarrow> go_error + state_alloc" where
  "state_allocation i res = map_sum id (\<lambda>lid. (i, in_InstanceID i @ ''-stateThread'' @ showNat lid)) res"

text \<open>
  \<^verbatim>\<open>acquireStateInstanceThread\<close> holds the lock of the state from the look at the route to the end of the creation, if there is one.
\<close>

datatype look_result = Panics | Answers "go_error + state_alloc" | MustCreate

definition acquire_look :: "string \<Rightarrow> StateRoute \<Rightarrow> look_result \<times> StateRoute" where
  "acquire_look stateID sr =
     (case fmlookup (ro_stateRoute sr) stateID of
        None \<Rightarrow> (MustCreate, sr)
      | Some si \<Rightarrow>
          if sx_status si = InstanceOk then
            case sx_instance si of
              None \<Rightarrow> (Panics, sr)
            | Some i \<Rightarrow> (let (res, sr') = generateStateLease (sx_StateID si) i sr in (Answers (state_allocation i res), sr'))
          else if sx_status si = InstanceAbnormal then (Answers (Inl (SNError 150427 ''instance status is abnormal'')), sr)
          else if ro_LifeCycle sr = ConsistentWithState then (Answers (Inl (SNError 4028 ''state instance not existed'')), sr)
          else (MustCreate, sr))"

definition acquire_made :: "string \<Rightarrow> string + PoolInstance \<Rightarrow> StateRoute \<Rightarrow> (go_error + state_alloc) \<times> StateRoute" where
  "acquire_made stateID made sr =
     (case made of
        Inl message \<Rightarrow> (Inl (SNError 150431 message), sr)
      | Inr i \<Rightarrow>
          let sr1 = processStateRoute \<lparr>sx_StateID = stateID, sx_status = InstanceOk, sx_instance = Some i\<rparr> stateID stateUpdate sr;
              (res, sr2) = generateStateLease stateID i sr1
          in (state_allocation i res, sr2))"

text \<open>\<^verbatim>\<open>GetAndDeleteState\<close> and \<^verbatim>\<open>DeleteStateInstance\<close>, under the lock of the state; \<open>None\<close> is a nil dereference.\<close>

definition add_deleted :: "PoolInstance \<Rightarrow> StateRoute \<Rightarrow> StateRoute" where
  "add_deleted i sr = sr\<lparr>ro_deleted := ro_deleted sr @ [i]\<rparr>"

definition GetAndDeleteState :: "string \<Rightarrow> StateRoute \<Rightarrow> (bool \<times> StateRoute) option" where
  "GetAndDeleteState stateID sr =
     (let sr1 = snd (LoadOrStore stateID sr)
      in case fmlookup (ro_stateRoute sr1) stateID of
           None \<Rightarrow> Some (False, sr1)
         | Some si \<Rightarrow>
             let sr2 = processStateRoute si stateID stateDelete sr1
             in if sx_status si \<noteq> InstanceExit
                then map_option (\<lambda>i. (True, add_deleted i sr2)) (sx_instance si)
                else Some (True, sr2))"

definition DeleteStateInstance :: "string \<Rightarrow> string \<Rightarrow> StateRoute \<Rightarrow> StateRoute option" where
  "DeleteStateInstance stateID instanceID sr =
     (let sr1 = snd (LoadOrStore stateID sr)
      in case fmlookup (ro_stateRoute sr1) stateID of
           None \<Rightarrow> Some sr1
         | Some si \<Rightarrow>
             map_option (\<lambda>i.
               if in_InstanceID i = instanceID then add_deleted i (processStateRoute si stateID stateInstanceDelete sr1) else sr1)
               (sx_instance si))"

text \<open>\<^verbatim>\<open>getStateIDByInstanceID\<close>; the order in which the route is searched is a parameter.\<close>

definition has_instance :: "string \<Rightarrow> StateInstance \<Rightarrow> bool" where
  "has_instance instanceID si \<longleftrightarrow> (\<exists>i. sx_instance si = Some i \<and> in_InstanceID i = instanceID)"

type_synonym route_order = "(string, StateInstance) gomap \<Rightarrow> string list"

definition getStateIDByInstanceID :: "route_order \<Rightarrow> string \<Rightarrow> StateRoute \<Rightarrow> string option" where
  "getStateIDByInstanceID ord instanceID sr =
     find (\<lambda>stateID. case fmlookup (ro_stateRoute sr) stateID of None \<Rightarrow> False | Some si \<Rightarrow> has_instance instanceID si)
       (ord (ro_stateRoute sr))"

definition DeleteStateInstanceByInstanceID :: "route_order \<Rightarrow> string \<Rightarrow> StateRoute \<Rightarrow> StateRoute" where
  "DeleteStateInstanceByInstanceID ord instanceID sr =
     (case getStateIDByInstanceID ord instanceID sr of
        None \<Rightarrow> sr
      | Some stateID \<Rightarrow>
          (case fmlookup (ro_stateRoute sr) stateID of
             None \<Rightarrow> sr
           | Some si \<Rightarrow> processStateRoute si stateID stateInstanceDelete sr))"

text \<open>
  \<^verbatim>\<open>HandleInstanceUpdate\<close>: in one lock section the entry of the instance is looked up and changed in place, in another one it is
  put into the route.
\<close>

definition status_of :: "int \<Rightarrow> int" where
  "status_of code = (if code = statusRunning then InstanceOk else InstanceAbnormal)"

definition update_look :: "route_order \<Rightarrow> PoolInstance \<Rightarrow> StateRoute \<Rightarrow> (string \<times> StateInstance) option \<times> StateRoute" where
  "update_look ord i sr =
     (if in_InstanceType i \<noteq> InstanceTypeState then (None, sr)
      else case getStateIDByInstanceID ord (in_InstanceID i) sr of
        None \<Rightarrow> (None, sr)
      | Some stateID \<Rightarrow>
          (case fmlookup (ro_stateRoute sr) stateID of
             None \<Rightarrow> (None, sr)
           | Some si \<Rightarrow>
               let si' = si\<lparr>sx_instance := Some i, sx_status := status_of (in_Code i)\<rparr>
               in (Some (stateID, si'), setStateInstance stateID si' sr)))"

definition st_HandleInstanceUpdate :: "route_order \<Rightarrow> PoolInstance \<Rightarrow> StateRoute \<Rightarrow> StateRoute" where
  "st_HandleInstanceUpdate ord i sr =
     (case update_look ord i sr of
        (None, sr1) \<Rightarrow> sr1
      | (Some (stateID, si), sr1) \<Rightarrow> processStateRoute si stateID stateUpdate sr1)"

text \<open>\<^verbatim>\<open>recover\<close>, one entry of the recovered map at a time, and \<^verbatim>\<open>Destroy\<close>.\<close>

definition recover_status :: "int \<Rightarrow> int" where
  "recover_status code = (if code = -1 then InstanceExit else status_of code)"

definition recover_entry :: "string \<times> PoolInstance \<Rightarrow> StateRoute \<Rightarrow> StateRoute" where
  "recover_entry = (\<lambda>(stateID, i).
     setStateInstance stateID \<lparr>sx_StateID = stateID, sx_status = recover_status (in_Code i), sx_instance = Some i\<rparr>)"

definition st_recover :: "(string \<times> PoolInstance) list \<Rightarrow> StateRoute \<Rightarrow> StateRoute" where
  "st_recover instanceMap sr = fold recover_entry instanceMap sr"

definition st_Destroy :: "route_order \<Rightarrow> StateRoute \<Rightarrow> StateRoute" where
  "st_Destroy ord sr =
     sr\<lparr>ro_stateRoute := fmempty,
        ro_deleted := ro_deleted sr @ List.map_filter sx_instance
          (filter (\<lambda>si. sx_status si \<noteq> InstanceExit) (List.map_filter (fmlookup (ro_stateRoute sr)) (ord (ro_stateRoute sr))))\<rparr>"

section \<open>Leases in the pool manager\<close>

fun replaceFirst :: "string \<Rightarrow> string \<Rightarrow> string" where
  "replaceFirst old [] = []"
| "replaceFirst old (c # s) = (if hasPrefix (c # s) old then drop (length old) (c # s) else c # replaceFirst old s)"

definition getLeaseIdFromAllocationId :: "string \<Rightarrow> go_error + int" where
  "getLeaseIdFromAllocationId allocationId =
     (let numStr = replaceFirst ''stateThread'' (last (splitAll CHR ''-'' allocationId))
      in case atoi numStr of
           None \<Rightarrow> Inl (GoError (''thread.AllocationID: '' @ allocationId @ '' invalid''))
         | Some leaseID \<Rightarrow> Inr leaseID)"

text \<open>
  \<^verbatim>\<open>ReleaseStateThread\<close> and \<^verbatim>\<open>RetainStateThread\<close> look for the leaser in a map of the pool manager, with its own timers; a
  negative number names no lease.
\<close>

type_synonym lease_manager = "(string, Leaser) gomap \<times> lease_action timers"

definition ReleaseStateThread :: "state_alloc \<Rightarrow> lease_manager \<Rightarrow> go_error option \<times> lease_manager" where
  "ReleaseStateThread thread pm =
     (case fmlookup (fst pm) (in_InstanceID (fst thread)) of
        None \<Rightarrow> (Some (GoError ''leaser is nil''), pm)
      | Some l \<Rightarrow>
          (case getLeaseIdFromAllocationId (snd thread) of
             Inl err \<Rightarrow> (Some err, pm)
           | Inr leaseID \<Rightarrow>
               (let (l', ts') = (if leaseID < 0
                                 then if fmdom (le_Leases l) = {||} then arm_scale_down l (snd pm) else (l, snd pm)
                                 else ReleaseLease (nat leaseID) l (snd pm))
                in (None, fmupd (in_InstanceID (fst thread)) l' (fst pm), ts'))))"

definition RetainStateThread :: "state_alloc \<Rightarrow> lease_manager \<Rightarrow> go_error option \<times> lease_manager" where
  "RetainStateThread thread pm =
     (case fmlookup (fst pm) (in_InstanceID (fst thread)) of
        None \<Rightarrow> (Some (GoError ''leaser is nil''), pm)
      | Some l \<Rightarrow>
          (case getLeaseIdFromAllocationId (snd thread) of
             Inl err \<Rightarrow> (Some err, pm)
           | Inr leaseID \<Rightarrow>
               if leaseID < 0 then (Some (GoError (''lease'' @ showInt leaseID @ '' not found'')), pm)
               else (let (err, l', ts') = RetainLease (nat leaseID) l (snd pm)
                     in (err, fmupd (in_InstanceID (fst thread)) l' (fst pm), ts'))))"

definition recoverStateLeaser :: "int \<Rightarrow> string \<times> PoolInstance \<Rightarrow> lease_manager \<Rightarrow> lease_manager" where
  "recoverStateLeaser concurrentNum = (\<lambda>(stateID, i) pm.
     if in_Code i = -1 then pm
     else let (l, ts) = le_Recover (NewLeaser concurrentNum stateID (in_InstanceID i)) (snd pm)
          in (fmupd (in_InstanceID i) l (fst pm), ts))"

definition updateStateLeaseMgrForHandleInstanceEvent :: "bool \<Rightarrow> PoolInstance \<Rightarrow> lease_manager \<Rightarrow> lease_manager" where
  "updateStateLeaseMgrForHandleInstanceEvent deleted i pm =
     (if deleted \<or> in_Code i = 6 then
        case fmlookup (fst pm) (in_InstanceID i) of
          None \<Rightarrow> pm
        | Some l \<Rightarrow> (fmdrop (in_InstanceID i) (fst pm), snd (le_Terminate l (snd pm)))
      else pm)"

end
