(* ===== verification/StateSystem.thy ===== *)
theory StateSystem
  imports StateRoute
begin

text \<open>
  The runs of a state route (\<^verbatim>\<open>functionscaler/instancepool/stateroute.go\<close>): requests that wait for the lock of their state or create an
  instance under it, reports about instances that are handled in several lock sections, timers that fire, callbacks that run, and the
  second leasers that the pool manager makes after a restart (\<^verbatim>\<open>poolmanager.go\<close>). Shown: what holds in every run, and what holds in the runs
  in which no two of these operations clash.
\<close>

section \<open>Steps\<close>

text \<open>
  \<open>ys_waiting\<close>: requests that have the lock object of their state and wait for it; \<open>ys_creating\<close>: requests that hold it while they create an
  instance; \<open>ys_pending\<close>: actions of fired timers that have not run yet; \<open>ys_updating\<close>: updates between their two lock sections, with the
  entry they changed; \<open>ys_finding\<close> and \<open>ys_removing\<close>: removal reports that have found the state of their instance, and those that have its
  entry too. \<open>ys_manager\<close> and \<open>ys_mpending\<close>: the leasers of the pool manager, their timers and the actions of those that fired. The rest is
  history: the instances made or recovered, those reported as gone, those for which the manager made a leaser, and the values the
  concurrency of the function had.
\<close>

record state_sys =
  ys_route :: StateRoute
  ys_waiting :: "(string \<times> nat) list"
  ys_creating :: "(string \<times> nat) list"
  ys_pending :: "lease_action list"
  ys_updating :: "(string \<times> StateInstance) list"
  ys_finding :: "string list"
  ys_removing :: "(string \<times> StateInstance) list"
  ys_manager :: lease_manager
  ys_mpending :: "lease_action list"
  ys_made :: "string set"
  ys_gone :: "string set"
  ys_recovered :: "string set"
  ys_concs :: "int set"

definition no_timers :: "lease_action timers" where
  "no_timers = \<lparr>ts_armed = fmempty, ts_next = 0\<rparr>"

definition state_start :: "string \<Rightarrow> int \<Rightarrow> state_sys" where
  "state_start lifeCycle concurrentNum =
     \<lparr>ys_route = \<lparr>ro_stateRoute = fmempty, ro_stateLeaseManager = fmempty, ro_LifeCycle = lifeCycle, ro_ConcurrentNum = concurrentNum,
        ro_stateLocks = fmempty, ro_nextLock = 0, ro_timers = no_timers, ro_deleted = []\<rparr>,
      ys_waiting = [], ys_creating = [], ys_pending = [], ys_updating = [], ys_finding = [], ys_removing = [],
      ys_manager = (fmempty, no_timers), ys_mpending = [], ys_made = {}, ys_gone = {}, ys_recovered = {}, ys_concs = {concurrentNum}\<rparr>"

definition lock_free :: "string \<Rightarrow> state_sys \<Rightarrow> bool" where
  "lock_free stateID s \<longleftrightarrow> fst (LoadOrStore stateID (ys_route s)) \<notin> snd ` set (ys_creating s)"

definition expire_state_lease :: "string \<Rightarrow> nat \<Rightarrow> StateRoute \<Rightarrow> StateRoute" where
  "expire_state_lease instanceID lid sr =
     (case fmlookup (ro_stateLeaseManager sr) instanceID of
        None \<Rightarrow> sr
      | Some l \<Rightarrow> (let (l', ts') = ReleaseLease lid l (ro_timers sr) in put_leaser l' ts' sr))"

definition expire_manager_lease :: "string \<Rightarrow> nat \<Rightarrow> lease_manager \<Rightarrow> lease_manager" where
  "expire_manager_lease instanceID lid pm =
     (case fmlookup (fst pm) instanceID of
        None \<Rightarrow> pm
      | Some l \<Rightarrow> (let (l', ts') = ReleaseLease lid l (snd pm) in (fmupd instanceID l' (fst pm), ts')))"

definition fire_timer :: "nat \<Rightarrow> StateRoute \<Rightarrow> StateRoute" where
  "fire_timer t sr = sr\<lparr>ro_timers := timer_Stop t (ro_timers sr)\<rparr>"

text \<open>
  An update changes the entry in place: the other updates under way for the same instance hold the same object and see the change.
\<close>

definition refresh :: "string \<Rightarrow> StateInstance \<Rightarrow> (string \<times> StateInstance) list \<Rightarrow> (string \<times> StateInstance) list" where
  "refresh stateID si = map (\<lambda>(k, u). if k = stateID \<and> map_option in_InstanceID (sx_instance u) = map_option in_InstanceID (sx_instance si)
     then (k, si) else (k, u))"

definition bound_to :: "StateRoute \<Rightarrow> string \<Rightarrow> string \<Rightarrow> bool" where
  "bound_to r stateID instanceID \<longleftrightarrow> (\<exists>si. fmlookup (ro_stateRoute r) stateID = Some si \<and> has_instance instanceID si)"

text \<open>
  Three ways in which operations clash. An update comes to its second section when the state has lost the instance of the update; a removal
  comes to its end when the state has got an instance that was not reported gone, or has no entry left where entries outlive their
  instances; a recovered entry meets a state that is in use, an instance that is known or one that has exited.
\<close>

definition stale_update :: "string \<Rightarrow> StateInstance \<Rightarrow> state_sys \<Rightarrow> bool" where
  "stale_update stateID si s \<longleftrightarrow> (case sx_instance si of None \<Rightarrow> True | Some i \<Rightarrow> \<not> bound_to (ys_route s) stateID (in_InstanceID i))"

definition stale_removal :: "string \<Rightarrow> state_sys \<Rightarrow> bool" where
  "stale_removal stateID s \<longleftrightarrow>
     (case fmlookup (ro_stateRoute (ys_route s)) stateID of
        None \<Rightarrow> ro_LifeCycle (ys_route s) = ConsistentWithState
      | Some si \<Rightarrow> (case sx_instance si of None \<Rightarrow> False | Some i \<Rightarrow> in_InstanceID i \<notin> ys_gone s))"

definition odd_recovery :: "string \<Rightarrow> PoolInstance \<Rightarrow> state_sys \<Rightarrow> bool" where
  "odd_recovery stateID i s \<longleftrightarrow> fmlookup (ro_stateRoute (ys_route s)) stateID \<noteq> None \<or> stateID \<in> fst ` set (ys_creating s) \<or>
     in_InstanceID i \<in> ys_made s \<or> in_Code i = -1"

text \<open>
  The flag says whether operations may clash, a state that is deleted while others use it included: with \<open>True\<close> every step is possible at any
  time. The kernel gives a new instance a new ID.
\<close>

inductive state_step :: "bool \<Rightarrow> state_sys \<Rightarrow> state_sys \<Rightarrow> bool" for clash where
  load: "LoadOrStore stateID (ys_route s) = (lock, r) \<Longrightarrow>
    state_step clash s (s\<lparr>ys_route := r, ys_waiting := ys_waiting s @ [(stateID, lock)]\<rparr>)"
| answer: "(stateID, lock) \<in> set (ys_waiting s) \<Longrightarrow> lock \<notin> snd ` set (ys_creating s) \<Longrightarrow>
    acquire_look stateID (ys_route s) = (Answers res, r) \<Longrightarrow>
    state_step clash s (s\<lparr>ys_route := r, ys_waiting := remove1 (stateID, lock) (ys_waiting s)\<rparr>)"
| create: "(stateID, lock) \<in> set (ys_waiting s) \<Longrightarrow> lock \<notin> snd ` set (ys_creating s) \<Longrightarrow>
    acquire_look stateID (ys_route s) = (MustCreate, r) \<Longrightarrow>
    state_step clash s (s\<lparr>ys_route := r, ys_waiting := remove1 (stateID, lock) (ys_waiting s), ys_creating := (stateID, lock) # ys_creating s\<rparr>)"
| made: "(stateID, lock) \<in> set (ys_creating s) \<Longrightarrow> in_InstanceID i \<notin> ys_made s \<Longrightarrow>
    acquire_made stateID (Inr i) (ys_route s) = (res, r) \<Longrightarrow>
    state_step clash s (s\<lparr>ys_route := r, ys_creating := remove1 (stateID, lock) (ys_creating s), ys_made := insert (in_InstanceID i) (ys_made s)\<rparr>)"
| failed: "(stateID, lock) \<in> set (ys_creating s) \<Longrightarrow> acquire_made stateID (Inl message) (ys_route s) = (res, r) \<Longrightarrow>
    state_step clash s (s\<lparr>ys_route := r, ys_creating := remove1 (stateID, lock) (ys_creating s)\<rparr>)"
| update_begin: "range_order ord \<Longrightarrow> update_look ord i (ys_route s) = (Some (stateID, si), r) \<Longrightarrow>
    state_step clash s (s\<lparr>ys_route := r, ys_updating := refresh stateID si (ys_updating s) @ [(stateID, si)]\<rparr>)"
| update_end: "(stateID, si) \<in> set (ys_updating s) \<Longrightarrow> stale_update stateID si s \<longrightarrow> clash \<Longrightarrow>
    state_step clash s (s\<lparr>ys_route := processStateRoute si stateID stateUpdate (ys_route s), ys_updating := remove1 (stateID, si) (ys_updating s)\<rparr>)"
| gone_find: "range_order ord \<Longrightarrow>
    state_step clash s (s\<lparr>ys_gone := insert instanceID (ys_gone s),
      ys_finding := ys_finding s @ (case getStateIDByInstanceID ord instanceID (ys_route s) of None \<Rightarrow> [] | Some stateID \<Rightarrow> [stateID])\<rparr>)"
| gone_get: "stateID \<in> set (ys_finding s) \<Longrightarrow>
    state_step clash s (s\<lparr>ys_finding := remove1 stateID (ys_finding s),
      ys_removing := ys_removing s @ (case fmlookup (ro_stateRoute (ys_route s)) stateID of None \<Rightarrow> [] | Some si \<Rightarrow> [(stateID, si)])\<rparr>)"
| gone_end: "(stateID, si) \<in> set (ys_removing s) \<Longrightarrow> stale_removal stateID s \<longrightarrow> clash \<Longrightarrow>
    state_step clash s (s\<lparr>ys_route := processStateRoute si stateID stateInstanceDelete (ys_route s), ys_removing := remove1 (stateID, si) (ys_removing s)\<rparr>)"
| fire: "fmlookup (ts_armed (ro_timers (ys_route s))) t = Some a \<Longrightarrow>
    state_step clash s (s\<lparr>ys_route := fire_timer t (ys_route s), ys_pending := ys_pending s @ [a]\<rparr>)"
| expire: "Expire instanceID lid \<in> set (ys_pending s) \<Longrightarrow>
    state_step clash s (s\<lparr>ys_route := expire_state_lease instanceID lid (ys_route s), ys_pending := remove1 (Expire instanceID lid) (ys_pending s)\<rparr>)"
| scale_down: "ScaleDown stateID instanceID \<in> set (ys_pending s) \<Longrightarrow> lock_free stateID s \<Longrightarrow>
    DeleteStateInstance stateID instanceID (ys_route s) = Some r \<Longrightarrow>
    state_step clash s (s\<lparr>ys_route := r, ys_pending := remove1 (ScaleDown stateID instanceID) (ys_pending s)\<rparr>)"
| delete_state: "clash \<Longrightarrow> lock_free stateID s \<Longrightarrow> GetAndDeleteState stateID (ys_route s) = Some (found, r) \<Longrightarrow>
    state_step clash s (s\<lparr>ys_route := r\<rparr>)"
| destroy: "range_order ord \<Longrightarrow> state_step clash s (s\<lparr>ys_route := st_Destroy ord (ys_route s)\<rparr>)"
| spec_update: "state_step clash s (s\<lparr>ys_route := (ys_route s)\<lparr>ro_ConcurrentNum := m\<rparr>, ys_concs := insert m (ys_concs s)\<rparr>)"
| recover_route: "odd_recovery stateID i s \<longrightarrow> clash \<Longrightarrow>
    state_step clash s (s\<lparr>ys_route := recover_entry (stateID, i) (ys_route s), ys_made := insert (in_InstanceID i) (ys_made s)\<rparr>)"
| recover_leaser:
    "state_step clash s (s\<lparr>ys_manager := recoverStateLeaser (ro_ConcurrentNum (ys_route s)) (stateID, i) (ys_manager s),
      ys_recovered := insert (in_InstanceID i) (ys_recovered s)\<rparr>)"
| manager_release: "ReleaseStateThread thread (ys_manager s) = (err, pm) \<Longrightarrow> state_step clash s (s\<lparr>ys_manager := pm\<rparr>)"
| manager_retain: "RetainStateThread thread (ys_manager s) = (err, pm) \<Longrightarrow> state_step clash s (s\<lparr>ys_manager := pm\<rparr>)"
| manager_event: "state_step clash s (s\<lparr>ys_manager := updateStateLeaseMgrForHandleInstanceEvent deleted i (ys_manager s)\<rparr>)"
| manager_fire: "fmlookup (ts_armed (snd (ys_manager s))) t = Some a \<Longrightarrow>
    state_step clash s (s\<lparr>ys_manager := apsnd (timer_Stop t) (ys_manager s), ys_mpending := ys_mpending s @ [a]\<rparr>)"
| manager_expire: "Expire instanceID lid \<in> set (ys_mpending s) \<Longrightarrow>
    state_step clash s (s\<lparr>ys_manager := expire_manager_lease instanceID lid (ys_manager s),
      ys_mpending := remove1 (Expire instanceID lid) (ys_mpending s)\<rparr>)"
| manager_scale_down: "ScaleDown stateID instanceID \<in> set (ys_mpending s) \<Longrightarrow> lock_free stateID s \<Longrightarrow>
    DeleteStateInstance stateID instanceID (ys_route s) = Some r \<Longrightarrow>
    state_step clash s (s\<lparr>ys_route := r, ys_mpending := remove1 (ScaleDown stateID instanceID) (ys_mpending s)\<rparr>)"

abbreviation state_reach :: "bool \<Rightarrow> string \<Rightarrow> int \<Rightarrow> state_sys \<Rightarrow> bool" where
  "state_reach clash lifeCycle concurrentNum \<equiv> (state_step clash)\<^sup>*\<^sup>* (state_start lifeCycle concurrentNum)"

section \<open>Leases\<close>

text \<open>\<open>C\<close> are the values that the concurrency had: a leaser has the one at the time it was made.\<close>

definition leases_ok :: "int set \<Rightarrow> StateRoute \<Rightarrow> bool" where
  "leases_ok C sr \<longleftrightarrow>
     timers_ok (ro_timers sr) \<and> ro_ConcurrentNum sr \<in> C \<and>
     (\<forall>k l. fmlookup (ro_stateLeaseManager sr) k = Some l \<longrightarrow> le_instanceID l = k \<and> le_maxLeases l \<in> C \<and> leaser_ok (ro_timers sr) l) \<and>
     (\<forall>t a. fmlookup (ts_armed (ro_timers sr)) t = Some a \<longrightarrow> fmlookup (ro_stateLeaseManager sr) (about a) \<noteq> None)"

text \<open>The operations on the route leave the leases alone.\<close>

definition same_leases :: "StateRoute \<Rightarrow> StateRoute \<Rightarrow> bool" where
  "same_leases sr sr' \<longleftrightarrow> ro_stateLeaseManager sr' = ro_stateLeaseManager sr \<and> ro_timers sr' = ro_timers sr \<and> ro_ConcurrentNum sr' = ro_ConcurrentNum sr"

lemma leases_ok_same: "leases_ok C sr \<Longrightarrow> same_leases sr sr' \<Longrightarrow> leases_ok C sr'"
  by (simp add: leases_ok_def same_leases_def)

lemmas route_defs = setStateInstance_def deleteStateInstance_def add_deleted_def

lemma process_same: "same_leases sr (processStateRoute si stateID op sr)"
  by (simp add: same_leases_def processStateRoute_def route_defs split: op_type.split)

lemma LoadOrStore_same: "same_leases sr (snd (LoadOrStore stateID sr))"
  by (simp add: same_leases_def LoadOrStore_def split: option.split)

lemma Delete_same: "DeleteStateInstance stateID instanceID sr = Some r \<Longrightarrow> same_leases sr r"
  using LoadOrStore_same [of sr stateID] process_same [of "snd (LoadOrStore stateID sr)"]
  by (auto simp: DeleteStateInstance_def Let_def same_leases_def add_deleted_def split: option.splits if_splits)

lemma GetAndDelete_same: "GetAndDeleteState stateID sr = Some (b, r) \<Longrightarrow> same_leases sr r"
  using LoadOrStore_same [of sr stateID] process_same [of "snd (LoadOrStore stateID sr)"]
  by (auto simp: GetAndDeleteState_def Let_def same_leases_def add_deleted_def split: option.splits if_splits)

lemma look_same: "update_look ord i sr = (seen, r) \<Longrightarrow> same_leases sr r"
  by (auto simp: update_look_def same_leases_def route_defs Let_def split: option.splits if_splits)

lemma recover_same: "same_leases sr (recover_entry e sr)"
  by (simp add: recover_entry_def same_leases_def route_defs split: prod.split)

lemma Destroy_same: "same_leases sr (st_Destroy ord sr)"
  by (simp add: st_Destroy_def same_leases_def)

text \<open>One leaser changes, with timers of its own instance.\<close>

lemma leases_ok_put:
  assumes "leases_ok C sr" and "leaser_ok ts l" and "timers_ok ts" and "timers_extend (le_instanceID l) (ro_timers sr) ts" and "le_maxLeases l \<in> C"
  shows "leases_ok C (put_leaser l ts sr)"
proof -
  have "le_instanceID l' = k \<and> leaser_ok ts l'" if "fmlookup (ro_stateLeaseManager sr) k = Some l'" "k \<noteq> le_instanceID l" for k l'
    using assms(1,4) that leaser_ok_extend [of "ro_timers sr" l' "le_instanceID l" ts] by (auto simp: leases_ok_def)
  moreover have "fmlookup (ro_stateLeaseManager sr) (about a) \<noteq> None" if "fmlookup (ts_armed ts) t = Some a" "about a \<noteq> le_instanceID l" for t a
    using assms(1,4) that unfolding leases_ok_def timers_extend_def by blast
  ultimately show ?thesis using assms(1,2,3,5) by (auto simp: leases_ok_def put_leaser_def)
qed

lemma lease_ops_max:
  "AcquireLease l ts = (r, l', ts') \<Longrightarrow> le_maxLeases l' = le_maxLeases l" "le_maxLeases (fst (ReleaseLease lid l ts)) = le_maxLeases l"
  by (auto simp: AcquireLease_def ReleaseLease_def arm_scale_down_def Let_def split: if_splits prod.splits)

lemma generate_leases_ok:
  assumes ok: "leases_ok C sr" and g: "generateStateLease stateID i sr = (res, sr')"
  shows "leases_ok C sr'"
proof -
  define l where "l = (case fmlookup (ro_stateLeaseManager sr) (in_InstanceID i) of
      Some l \<Rightarrow> l | None \<Rightarrow> NewLeaser (ro_ConcurrentNum sr) stateID (in_InstanceID i))"
  have l: "leaser_ok (ro_timers sr) l \<and> le_instanceID l = in_InstanceID i \<and> le_maxLeases l \<in> C"
  proof (cases "fmlookup (ro_stateLeaseManager sr) (in_InstanceID i)")
    case None
    then have "about a \<noteq> in_InstanceID i" if "fmlookup (ts_armed (ro_timers sr)) t = Some a" for t a
      using ok that unfolding leases_ok_def by metis
    then have "leaser_ok (ro_timers sr) l" using None by (simp add: l_def NewLeaser_ok)
    then show ?thesis using None ok by (simp add: l_def NewLeaser_def leases_ok_def)
  qed (use ok in \<open>auto simp: l_def leases_ok_def\<close>)
  obtain r l' ts' where a: "AcquireLease l (ro_timers sr) = (r, l', ts')" by (metis prod_cases3)
  have "sr' = put_leaser l' ts' sr" using g a by (simp add: generateStateLease_def l_def [symmetric])
  moreover have "timers_ok (ro_timers sr)" using ok by (simp add: leases_ok_def)
  ultimately show ?thesis using AcquireLease_ok [OF l [THEN conjunct1] _ a] lease_ops_max(1) [OF a] ok l by (auto intro: leases_ok_put)
qed

lemma expire_leases_ok:
  assumes "leases_ok C sr"
  shows "leases_ok C (expire_state_lease instanceID lid sr)"
proof (cases "fmlookup (ro_stateLeaseManager sr) instanceID")
  case (Some l)
  then have l: "leaser_ok (ro_timers sr) l" "timers_ok (ro_timers sr)" "le_maxLeases l \<in> C" using assms by (auto simp: leases_ok_def)
  have "expire_state_lease instanceID lid sr = put_leaser (fst (ReleaseLease lid l (ro_timers sr))) (snd (ReleaseLease lid l (ro_timers sr))) sr"
    using Some by (simp add: expire_state_lease_def split_beta)
  then show ?thesis using ReleaseLease_ok [OF l(1,2), of lid] l(3) assms by (simp add: leases_ok_put lease_ops_max(2))
qed (use assms in \<open>simp add: expire_state_lease_def\<close>)

lemma fire_leases_ok: "leases_ok C sr \<Longrightarrow> leases_ok C (fire_timer t sr)"
  by (auto simp: leases_ok_def fire_timer_def fire_ok [unfolded timer_Stop_some] timer_Stop_some split: if_splits)

lemma leases_ok_step: "state_step clash s s' \<Longrightarrow> leases_ok (ys_concs s) (ys_route s) \<Longrightarrow> leases_ok (ys_concs s') (ys_route s')"
proof (induction rule: state_step.induct)
  case (load stateID s lock r)
  then show ?case using LoadOrStore_same [of "ys_route s" stateID] leases_ok_same by simp
next
  case (answer stateID lock s res r)
  then show ?case by (auto simp: acquire_look_def split: option.splits if_splits prod.splits dest: generate_leases_ok)
next
  case (create stateID lock s r)
  then show ?case by (auto simp: acquire_look_def split: option.splits if_splits prod.splits)
next
  case (made stateID lock s i res r)
  then show ?case
    by (auto simp: acquire_made_def Let_def split: prod.splits intro: generate_leases_ok leases_ok_same [OF _ process_same])
next
  case (update_begin ord i s stateID si r)
  then show ?case using look_same leases_ok_same by simp
next
  case (scale_down stateID instanceID s r)
  then show ?case using Delete_same leases_ok_same by simp
next
  case (manager_scale_down stateID instanceID s r)
  then show ?case using Delete_same leases_ok_same by simp
next
  case (delete_state stateID s found r)
  then show ?case using GetAndDelete_same leases_ok_same by simp
next
  case (spec_update s m)
  then show ?case by (auto simp: leases_ok_def)
qed (simp_all add: acquire_made_def leases_ok_same [OF _ process_same] leases_ok_same [OF _ recover_same] leases_ok_same [OF _ Destroy_same]
    fire_leases_ok expire_leases_ok)

lemma reach_leases_ok: "state_reach clash lifeCycle n s \<Longrightarrow> leases_ok (ys_concs s) (ys_route s)"
proof (induction rule: rtranclp_induct)
  case base
  show ?case by (simp add: leases_ok_def state_start_def timers_ok_def no_timers_def)
qed (rule leases_ok_step)

section \<open>The leasers of the pool manager\<close>

text \<open>They and their timers are about instances that were recovered.\<close>

definition manager_ok :: "string set \<Rightarrow> lease_manager \<Rightarrow> bool" where
  "manager_ok R pm \<longleftrightarrow> (\<forall>x l. fmlookup (fst pm) x = Some l \<longrightarrow> le_instanceID l = x \<and> x \<in> R) \<and>
     (\<forall>t a. fmlookup (ts_armed (snd pm)) t = Some a \<longrightarrow> about a \<in> R)"

lemma manager_ok_put:
  assumes "manager_ok R pm" and "le_instanceID l = x" and "x \<in> R" and "timers_extend x (snd pm) ts"
  shows "manager_ok R (fmupd x l (fst pm), ts)"
  using assms by (fastforce simp: manager_ok_def timers_extend_def)

lemma manager_ok_stop: "manager_ok R pm \<Longrightarrow> manager_ok R (fmdrop x (fst pm), stop_some t (snd pm)) \<and> manager_ok R (fst pm, stop_some t (snd pm))"
  by (auto simp: manager_ok_def split: if_splits)

lemma lease_ops_extend:
  "timers_extend (le_instanceID l) ts (snd (arm_scale_down l ts)) \<and> le_instanceID (fst (arm_scale_down l ts)) = le_instanceID l"
  "timers_extend (le_instanceID l) ts (snd (ReleaseLease lid l ts)) \<and> le_instanceID (fst (ReleaseLease lid l ts)) = le_instanceID l"
  "RetainLease lid l ts = (err, l', ts') \<Longrightarrow> timers_extend (le_instanceID l) ts ts' \<and> le_instanceID l' = le_instanceID l"
  by (auto simp: timers_extend_def ReleaseLease_def RetainLease_def arm_scale_down_def AfterFunc_def timer_Stop_some Let_def
      split: if_splits option.splits)

lemma manager_ok_release:
  assumes "manager_ok R pm"
  shows "manager_ok R (snd (ReleaseStateThread thread pm))"
proof (cases "fmlookup (fst pm) (in_InstanceID (fst thread))")
  case (Some l)
  then have l: "le_instanceID l = in_InstanceID (fst thread)" "in_InstanceID (fst thread) \<in> R" using assms by (auto simp: manager_ok_def)
  have "timers_extend x (snd pm) (snd pm)" for x by (simp add: timers_extend_def)
  then show ?thesis using Some l lease_ops_extend(1) [of l "snd pm"] lease_ops_extend(2) [of l "snd pm"] assms
    by (auto simp: ReleaseStateThread_def split_beta split: sum.split intro!: manager_ok_put)
qed (use assms in \<open>simp add: ReleaseStateThread_def\<close>)

lemma manager_ok_retain:
  assumes "manager_ok R pm"
  shows "manager_ok R (snd (RetainStateThread thread pm))"
proof (cases "fmlookup (fst pm) (in_InstanceID (fst thread))")
  case (Some l)
  then have l: "le_instanceID l = in_InstanceID (fst thread)" "in_InstanceID (fst thread) \<in> R" using assms by (auto simp: manager_ok_def)
  then show ?thesis using Some lease_ops_extend(3) [of _ l "snd pm"] assms
    by (auto simp: RetainStateThread_def split: sum.split prod.splits intro!: manager_ok_put)
qed (use assms in \<open>simp add: RetainStateThread_def\<close>)

lemma manager_ok_expire: "manager_ok R pm \<Longrightarrow> manager_ok R (expire_manager_lease x lid pm)"
  using lease_ops_extend(2) [of _ "snd pm" lid]
  by (auto simp: expire_manager_lease_def manager_ok_def split_beta timers_extend_def split: option.split) metis+

lemma manager_ok_recover:
  assumes "manager_ok R pm"
  shows "manager_ok (insert (in_InstanceID i) R) (recoverStateLeaser n (k, i) pm)"
proof -
  have "manager_ok (insert (in_InstanceID i) R) pm" using assms by (auto simp: manager_ok_def)
  then show ?thesis using lease_ops_extend(1) [of "NewLeaser n k (in_InstanceID i)" "snd pm"]
    by (auto simp: recoverStateLeaser_def le_Recover_def split_beta NewLeaser_def intro!: manager_ok_put)
qed

lemma manager_ok_event: "manager_ok R pm \<Longrightarrow> manager_ok R (updateStateLeaseMgrForHandleInstanceEvent deleted i pm)"
  using manager_ok_stop by (auto simp: updateStateLeaseMgrForHandleInstanceEvent_def le_Terminate_def split: option.split)

lemma manager_ok_step: "state_step clash s s' \<Longrightarrow> manager_ok (ys_recovered s) (ys_manager s) \<Longrightarrow> manager_ok (ys_recovered s') (ys_manager s')"
proof (induction rule: state_step.induct)
  case (manager_release thread s err pm)
  then show ?case using manager_ok_release [of _ "ys_manager s" thread] by simp
next
  case (manager_retain thread s err pm)
  then show ?case using manager_ok_retain [of _ "ys_manager s" thread] by simp
next
  case (manager_fire s t a)
  then show ?case using manager_ok_stop [of _ "ys_manager s" _ "Some t"] by (simp add: timer_Stop_some apsnd_def map_prod_def split_beta)
qed (simp_all add: manager_ok_event manager_ok_recover manager_ok_expire)

lemma reach_manager_ok: "state_reach clash lifeCycle n s \<Longrightarrow> manager_ok (ys_recovered s) (ys_manager s)"
proof (induction rule: rtranclp_induct)
  case base
  show ?case by (simp add: manager_ok_def state_start_def no_timers_def)
qed (rule manager_ok_step)

text \<open>
  C40: In every run an instance never has more leases in the state route than a value that the concurrency of its function has had. While it has
  one, no timer of the route is armed that would scale it down, and none of the pool manager unless the manager made a second leaser
  for it when the scheduler recovered (the action of a timer that has already fired is stopped by neither). Every lease whose timer has not fired is known to the leaser.
\<close>

theorem leased_instance_not_timed:
  assumes "state_reach clash lifeCycle n s" and "fmlookup (ro_stateLeaseManager (ys_route s)) k = Some l"
  shows "(\<exists>m \<in> ys_concs s. int (fcard (fmdom (le_Leases l))) \<le> max 0 m) \<and>
    (le_Leases l \<noteq> fmempty \<longrightarrow>
      (\<forall>t stateID. fmlookup (ts_armed (ro_timers (ys_route s))) t \<noteq> Some (ScaleDown stateID k)) \<and>
      (k \<notin> ys_recovered s \<longrightarrow> (\<forall>t stateID. fmlookup (ts_armed (snd (ys_manager s))) t \<noteq> Some (ScaleDown stateID k)))) \<and>
    (\<forall>t lid. fmlookup (ts_armed (ro_timers (ys_route s))) t = Some (Expire k lid) \<longrightarrow> fmlookup (le_Leases l) lid = Some t)"
proof -
  have l: "leaser_ok (ro_timers (ys_route s)) l" "le_instanceID l = k" "le_maxLeases l \<in> ys_concs s"
    using reach_leases_ok [OF assms(1)] assms(2) by (auto simp: leases_ok_def)
  have "about a \<in> ys_recovered s" if "fmlookup (ts_armed (snd (ys_manager s))) t = Some a" for t a
    using reach_manager_ok [OF assms(1)] that by (auto simp: manager_ok_def)
  then have "fmlookup (ts_armed (snd (ys_manager s))) t \<noteq> Some (ScaleDown stateID k)" if "k \<notin> ys_recovered s" for t stateID
    using that by force
  then show ?thesis using l unfolding leaser_ok_def by (intro conjI) (blast, metis, metis)
qed

section \<open>The route\<close>

text \<open>
  While no operations clash: the lock of a state stays the same object, so at most one request creates an instance for
  it, and then the state has none. An entry of the route has the instance made for it, or, where the life of the state is that of its
  instance, says that the instance is gone.
\<close>

definition locks_ok :: "StateRoute \<Rightarrow> (string \<times> nat) list \<Rightarrow> (string \<times> nat) list \<Rightarrow> bool" where
  "locks_ok r w c \<longleftrightarrow>
     (\<forall>k lock. fmlookup (ro_stateLocks r) k = Some lock \<longrightarrow> lock < ro_nextLock r) \<and>
     (\<forall>k k' lock. fmlookup (ro_stateLocks r) k = Some lock \<longrightarrow> fmlookup (ro_stateLocks r) k' = Some lock \<longrightarrow> k = k') \<and>
     (\<forall>k lock. (k, lock) \<in> set w \<union> set c \<longrightarrow> fmlookup (ro_stateLocks r) k = Some lock) \<and>
     distinct (map fst c)"

definition entry_ok :: "string \<Rightarrow> string set \<Rightarrow> string \<Rightarrow> StateInstance \<Rightarrow> bool" where
  "entry_ok lifeCycle made stateID si \<longleftrightarrow> sx_StateID si = stateID \<and>
     (case sx_instance si of
        Some i \<Rightarrow> (sx_status si = InstanceOk \<or> sx_status si = InstanceAbnormal) \<and> in_InstanceID i \<in> made
      | None \<Rightarrow> sx_status si = InstanceExit \<and> lifeCycle = ConsistentWithState)"

definition route_ok :: "StateRoute \<Rightarrow> string set \<Rightarrow> string set \<Rightarrow> string set \<Rightarrow> bool" where
  "route_ok r creating made gone \<longleftrightarrow>
     (\<forall>k si. fmlookup (ro_stateRoute r) k = Some si \<longrightarrow> k \<notin> creating \<and> entry_ok (ro_LifeCycle r) made k si) \<and>
     (\<forall>k k' x. bound_to r k x \<longrightarrow> bound_to r k' x \<longrightarrow> k = k') \<and>
     (\<forall>x \<in> made. (\<exists>k. bound_to r k x) \<or> x \<in> in_InstanceID ` set (ro_deleted r) \<or> x \<in> gone)"

text \<open>What the updates and the removal reports under way hold.\<close>

definition works_ok :: "(string \<times> StateInstance) list \<Rightarrow> (string \<times> StateInstance) list \<Rightarrow> bool" where
  "works_ok u v \<longleftrightarrow>
     (\<forall>(k, si) \<in> set u. sx_StateID si = k \<and> (\<exists>i. sx_instance si = Some i) \<and> (sx_status si = InstanceOk \<or> sx_status si = InstanceAbnormal)) \<and>
     (\<forall>(k, si) \<in> set v. sx_StateID si = k)"

definition same_route :: "StateRoute \<Rightarrow> StateRoute \<Rightarrow> bool" where
  "same_route sr sr' \<longleftrightarrow> ro_stateRoute sr' = ro_stateRoute sr \<and> ro_LifeCycle sr' = ro_LifeCycle sr \<and> ro_deleted sr' = ro_deleted sr"

definition same_locks :: "StateRoute \<Rightarrow> StateRoute \<Rightarrow> bool" where
  "same_locks sr sr' \<longleftrightarrow> ro_stateLocks sr' = ro_stateLocks sr \<and> ro_nextLock sr' = ro_nextLock sr"

lemmas same_defs = same_route_def same_locks_def

lemma same_refl [simp]: "same_route sr sr" "same_locks sr sr"
  by (simp_all add: same_defs)

lemma generate_frame: "generateStateLease stateID i sr = (res, r) \<Longrightarrow> same_route sr r \<and> same_locks sr r"
  by (auto simp: generateStateLease_def put_leaser_def same_defs Let_def split: prod.splits)

lemma look_frame: "acquire_look stateID sr = (res, r) \<Longrightarrow> same_route sr r \<and> same_locks sr r"
  by (auto simp: acquire_look_def split: option.splits if_splits prod.splits dest: generate_frame)

lemma expire_frame: "same_route sr (expire_state_lease i lid sr) \<and> same_locks sr (expire_state_lease i lid sr)"
  by (auto simp: expire_state_lease_def put_leaser_def same_defs split: option.splits prod.splits)

lemma fire_frame: "same_route sr (fire_timer t sr) \<and> same_locks sr (fire_timer t sr)"
  by (simp add: fire_timer_def same_defs)

lemma LoadOrStore_route: "same_route sr (snd (LoadOrStore stateID sr))"
  by (simp add: LoadOrStore_def same_defs split: option.split)

lemma process_locks: "op \<noteq> stateDelete \<Longrightarrow> same_locks sr (processStateRoute si stateID op sr)"
  by (cases op) (simp_all add: processStateRoute_def route_defs same_defs)

lemma update_look_locks: "update_look ord i sr = (seen, r) \<Longrightarrow> same_locks sr r"
  by (auto simp: update_look_def same_defs route_defs Let_def split: option.splits if_splits)

lemma recover_locks: "same_locks sr (recover_entry e sr)"
  by (simp add: recover_entry_def same_defs route_defs split: prod.split)

lemma Destroy_locks: "same_locks sr (st_Destroy ord sr)"
  by (simp add: st_Destroy_def same_defs)

text \<open>Locks: a lock object is added or nothing changes, and the lists shrink or get a pair with the right lock.\<close>

lemma locks_ok_same: "locks_ok r w c \<Longrightarrow> same_locks r r' \<Longrightarrow> locks_ok r' w c"
  by (simp add: locks_ok_def same_locks_def)

lemma locks_ok_load:
  assumes "locks_ok r w c"
  shows "locks_ok (snd (LoadOrStore k r)) (w @ [(k, fst (LoadOrStore k r))]) c" "locks_ok (snd (LoadOrStore k r)) w c"
proof -
  have "locks_ok (snd (LoadOrStore k r)) (w @ [(k, fst (LoadOrStore k r))]) c"
  proof (cases "fmlookup (ro_stateLocks r) k")
    case None
    have "fmlookup (ro_stateLocks r) k' \<noteq> Some (ro_nextLock r)" for k' using assms unfolding locks_ok_def by blast
    moreover have "(k, lock) \<notin> set w \<union> set c" for lock using assms None by (auto simp: locks_ok_def)
    ultimately show ?thesis using assms None by (auto simp: locks_ok_def LoadOrStore_def less_SucI split: if_splits)
  qed (use assms in \<open>auto simp: locks_ok_def LoadOrStore_def\<close>)
  then show "locks_ok (snd (LoadOrStore k r)) (w @ [(k, fst (LoadOrStore k r))]) c" "locks_ok (snd (LoadOrStore k r)) w c"
    by (auto simp: locks_ok_def)
qed

lemma locks_ok_sub: "locks_ok r w c \<Longrightarrow> set w' \<subseteq> set w \<Longrightarrow> set c' \<subseteq> set c \<Longrightarrow> distinct (map fst c') \<Longrightarrow> locks_ok r w' c'"
  by (auto simp: locks_ok_def)

lemma distinct_remove1_fst:
  assumes "distinct (map fst xs)" and "(k, v) \<in> set xs"
  shows "distinct (map fst (remove1 (k, v) xs)) \<and> k \<notin> fst ` set (remove1 (k, v) xs)"
  using assms by (induction xs) (force dest: notin_set_remove1)+

lemma locks_ok_enter:
  assumes "locks_ok r w c" and "(k, lock) \<in> set w" and "lock \<notin> snd ` set c"
  shows "locks_ok r (remove1 (k, lock) w) ((k, lock) # c)"
proof -
  have "k \<notin> fst ` set c"
  proof
    assume "k \<in> fst ` set c"
    then obtain lock' where c: "(k, lock') \<in> set c" by auto
    have "fmlookup (ro_stateLocks r) k = Some lock'" "fmlookup (ro_stateLocks r) k = Some lock"
      using assms(1,2) c unfolding locks_ok_def by blast+
    then show False using c assms(3) by force
  qed
  then have d: "distinct (map fst ((k, lock) # c))" using assms(1) by (simp add: locks_ok_def)
  have "set (remove1 (k, lock) w) \<union> set ((k, lock) # c) \<subseteq> set w \<union> set c" using assms(2) set_remove1_subset [of "(k, lock)" w] by auto
  then show ?thesis using assms(1) d unfolding locks_ok_def by (meson subsetD)
qed

lemma locks_ok_leave: "locks_ok r w c \<Longrightarrow> (k, lock) \<in> set c \<Longrightarrow> locks_ok r w (remove1 (k, lock) c)"
  using distinct_remove1_fst [of c k lock] set_remove1_subset [of "(k, lock)" c] by (auto simp: locks_ok_def)

lemma Delete_locks: "DeleteStateInstance stateID i sr = Some r \<Longrightarrow> same_locks (snd (LoadOrStore stateID sr)) r"
  using process_locks [of stateInstanceDelete]
  by (auto simp: DeleteStateInstance_def Let_def add_deleted_def same_locks_def split: option.splits if_splits)

lemma made_frame:
  assumes "acquire_made stateID (Inr i) sr = (res, r)"
  shows "same_locks sr r \<and> same_route (setStateInstance stateID \<lparr>sx_StateID = stateID, sx_status = InstanceOk, sx_instance = Some i\<rparr> sr) r"
  using assms by (auto simp: acquire_made_def processStateRoute_def setStateInstance_def same_defs Let_def split: prod.splits
      dest!: generate_frame)

lemma locks_ok_step:
  "state_step clash s s' \<Longrightarrow> \<not> clash \<Longrightarrow> locks_ok (ys_route s) (ys_waiting s) (ys_creating s) \<Longrightarrow> locks_ok (ys_route s') (ys_waiting s') (ys_creating s')"
proof (induction rule: state_step.induct)
  case (load stateID s lock r)
  then show ?case using locks_ok_load(1) [of "ys_route s" "ys_waiting s" "ys_creating s" stateID] by simp
next
  case (answer stateID lock s res r)
  then have "locks_ok r (ys_waiting s) (ys_creating s)" using look_frame locks_ok_same by simp
  moreover from this have "distinct (map fst (ys_creating s))" by (simp add: locks_ok_def)
  ultimately show ?case using locks_ok_sub [OF _ set_remove1_subset order_refl] by simp
next
  case (create stateID lock s r)
  then show ?case using look_frame locks_ok_same locks_ok_enter by simp
next
  case (made stateID lock s i res r)
  then show ?case using made_frame locks_ok_same locks_ok_leave by simp
next
  case (update_begin ord i s stateID si r)
  then show ?case using update_look_locks locks_ok_same by simp
next
  case (scale_down stateID instanceID s r)
  then have "same_locks (snd (LoadOrStore stateID (ys_route s))) r" using Delete_locks by simp
  then show ?case using scale_down locks_ok_same [OF locks_ok_load(2)] by simp
next
  case (manager_scale_down stateID instanceID s r)
  then have "same_locks (snd (LoadOrStore stateID (ys_route s))) r" using Delete_locks by simp
  then show ?case using manager_scale_down locks_ok_same [OF locks_ok_load(2)] by simp
next
  case (spec_update s m)
  then show ?case by (simp add: locks_ok_def)
qed (simp_all add: acquire_made_def locks_ok_leave locks_ok_same [OF _ process_locks] locks_ok_same [OF _ recover_locks] locks_ok_same [OF _ Destroy_locks]
    locks_ok_same [OF _ fire_frame [THEN conjunct2]] locks_ok_same [OF _ expire_frame [THEN conjunct2]])

text \<open>The route: nothing changes, an entry is added for a new instance, an instance is seen again, or an entry loses its instance.\<close>

lemma route_ok_frame:
  assumes "route_ok r c m g" and "same_route r r'" and "\<And>k. k \<in> c' \<Longrightarrow> k \<in> c \<or> fmlookup (ro_stateRoute r) k = None"
  shows "route_ok r' c' m g"
proof -
  have "bound_to r' = bound_to r" using assms(2) by (simp add: bound_to_def same_route_def fun_eq_iff)
  moreover have "k \<notin> c'" if "fmlookup (ro_stateRoute r) k = Some si" for k si using assms(1,3) that by (force simp: route_ok_def)
  ultimately show ?thesis using assms(1,2) by (simp add: route_ok_def same_route_def)
qed

lemma route_ok_add:
  assumes "route_ok r c m g" and "fmlookup (ro_stateRoute r) k = None" and "in_InstanceID i \<notin> m" and "c' \<subseteq> c" and "k \<notin> c'"
    and "st = InstanceOk \<or> st = InstanceAbnormal"
  shows "route_ok (setStateInstance k \<lparr>sx_StateID = k, sx_status = st, sx_instance = Some i\<rparr> r) c' (insert (in_InstanceID i) m) g"
    (is "route_ok ?r _ _ _")
proof -
  have bound: "bound_to ?r k' x \<longleftrightarrow> (if k' = k then x = in_InstanceID i else bound_to r k' x)" for k' x
    by (auto simp: bound_to_def setStateInstance_def has_instance_def)
  have "x \<in> m" if "bound_to r k' x" for k' x
    using assms(1) that by (auto simp: bound_to_def has_instance_def route_ok_def entry_ok_def split: option.splits)
  moreover have "entry_ok lc (insert x m) k' si" if "entry_ok lc m k' si" for lc x k' si
    using that by (auto simp: entry_ok_def split: option.splits)
  ultimately show ?thesis using assms(1,3,4,5,6) unfolding route_ok_def bound
    by (auto simp: setStateInstance_def entry_ok_def [of _ _ k] split: if_splits)
       (metis assms(2) bound_to_def option.distinct(1))+
qed

lemma route_ok_again:
  assumes "route_ok r c m g" and "bound_to r k x" and "has_instance x si" and "sx_StateID si = k"
    and "sx_status si = InstanceOk \<or> sx_status si = InstanceAbnormal"
  shows "route_ok (setStateInstance k si r) c m g" (is "route_ok ?r _ _ _")
proof -
  have "bound_to ?r = bound_to r"
    using assms(2,3) by (auto simp: bound_to_def setStateInstance_def has_instance_def fun_eq_iff)
  moreover obtain si0 where si0: "fmlookup (ro_stateRoute r) k = Some si0" "has_instance x si0" using assms(2) by (auto simp: bound_to_def)
  then have "k \<notin> c" "entry_ok (ro_LifeCycle r) m k si0" using assms(1) by (simp_all add: route_ok_def)
  moreover from this have "entry_ok (ro_LifeCycle r) m k si" using si0(2) assms(3-5) by (auto simp: entry_ok_def has_instance_def)
  ultimately show ?thesis using assms(1) by (auto simp: route_ok_def setStateInstance_def split: if_splits)
qed

lemma route_ok_drop:
  assumes "route_ok r c m g" and "sx_StateID si = k" and "fmlookup (ro_stateRoute r) k = None \<Longrightarrow> ro_LifeCycle r \<noteq> ConsistentWithState"
    and "g \<subseteq> g'" and "set (ro_deleted r) \<subseteq> set d" and "\<And>x. bound_to r k x \<Longrightarrow> x \<in> g' \<union> in_InstanceID ` set d"
  shows "route_ok ((processStateRoute si k stateInstanceDelete r)\<lparr>ro_deleted := d\<rparr>) c m g'" (is "route_ok ?r _ _ _")
proof -
  have r: "ro_LifeCycle ?r = ro_LifeCycle r" "ro_deleted ?r = d" by (simp_all add: processStateRoute_def route_defs)
  have look: "fmlookup (ro_stateRoute ?r) k' = (if k' \<noteq> k then fmlookup (ro_stateRoute r) k'
      else if ro_LifeCycle r = ConsistentWithState then Some (si\<lparr>sx_status := InstanceExit, sx_instance := None\<rparr>) else None)" for k'
    by (simp add: processStateRoute_def route_defs)
  have bound: "bound_to ?r k' x \<longleftrightarrow> k' \<noteq> k \<and> bound_to r k' x" for k' x
    unfolding bound_to_def look by (auto simp: has_instance_def)
  have "k \<notin> c" if "ro_LifeCycle r = ConsistentWithState" using assms(1,3) that by (auto simp: route_ok_def)
  then have A: "k' \<notin> c \<and> entry_ok (ro_LifeCycle r) m k' si'" if "fmlookup (ro_stateRoute ?r) k' = Some si'" for k' si'
    using that assms(1,2) unfolding look by (auto simp: route_ok_def entry_ok_def split: if_splits)
  have C: "(\<exists>k'. bound_to ?r k' x) \<or> x \<in> in_InstanceID ` set d \<or> x \<in> g'" if "x \<in> m" for x
  proof -
    have "(\<exists>k'. bound_to r k' x) \<or> x \<in> in_InstanceID ` set (ro_deleted r) \<or> x \<in> g" using assms(1) that by (simp add: route_ok_def)
    then consider (b) k' where "bound_to r k' x" | (d) "x \<in> in_InstanceID ` set d \<or> x \<in> g'" using assms(4,5) by auto
    then show ?thesis
    proof cases
      case b
      then show ?thesis using assms(6) [of x] bound [of k' x] by (cases "k' = k") auto
    qed blast
  qed
  have B: "k1 = k2" if "bound_to ?r k1 x" "bound_to ?r k2 x" for k1 k2 x using assms(1) that unfolding bound route_ok_def by blast
  show ?thesis unfolding route_ok_def r by (intro conjI allI impI ballI) (rule A [THEN conjunct1], assumption, rule A [THEN conjunct2], assumption, rule B, assumption, assumption, rule C)
qed

lemma getStateID_Some:
  "getStateIDByInstanceID ord instanceID r = Some k \<Longrightarrow> \<exists>si. fmlookup (ro_stateRoute r) k = Some si \<and> has_instance instanceID si"
  by (auto simp: getStateIDByInstanceID_def find_Some_iff split: option.splits)

lemma update_look_Some:
  assumes "update_look ord i r = (Some (k, si), r')"
  shows "\<exists>si0. fmlookup (ro_stateRoute r) k = Some si0 \<and> has_instance (in_InstanceID i) si0 \<and>
    si = si0\<lparr>sx_instance := Some i, sx_status := status_of (in_Code i)\<rparr> \<and> r' = setStateInstance k si r"
  using assms getStateID_Some [of ord "in_InstanceID i" r] by (auto simp: update_look_def Let_def split: if_splits option.splits)

lemma route_ok_look:
  assumes "route_ok r c m g" and "update_look ord i r = (Some (k, si), r')"
  shows "route_ok r' c m g"
proof -
  obtain si0 where "fmlookup (ro_stateRoute r) k = Some si0" "has_instance (in_InstanceID i) si0"
      "si = si0\<lparr>sx_instance := Some i, sx_status := status_of (in_Code i)\<rparr>" "r' = setStateInstance k si r"
    using update_look_Some [OF assms(2)] by blast
  moreover from this have "bound_to r k (in_InstanceID i)" "sx_StateID si = k" using assms(1) by (auto simp: bound_to_def route_ok_def entry_ok_def)
  ultimately show ?thesis using route_ok_again [OF assms(1), of k "in_InstanceID i" si] by (simp add: has_instance_def status_of_def)
qed

lemma route_ok_removal:
  assumes "route_ok (ys_route s) c m (ys_gone s)" and "\<not> stale_removal k s" and "sx_StateID si = k"
  shows "route_ok (processStateRoute si k stateInstanceDelete (ys_route s)) c m (ys_gone s)"
proof -
  have same: "(processStateRoute si k stateInstanceDelete r)\<lparr>ro_deleted := ro_deleted r\<rparr> = processStateRoute si k stateInstanceDelete r" for r
    by (simp add: processStateRoute_def route_defs)
  show ?thesis using assms route_ok_drop [OF assms(1,3), of "ys_gone s" "ro_deleted (ys_route s)"]
    by (auto simp: same stale_removal_def bound_to_def has_instance_def split: option.splits)
qed

lemma route_ok_destroy:
  assumes "route_ok r c m g" and "range_order ord"
  shows "route_ok (st_Destroy ord r) c m g"
proof -
  let ?d = "List.map_filter sx_instance (filter (\<lambda>si. sx_status si \<noteq> InstanceExit) (List.map_filter (fmlookup (ro_stateRoute r)) (ord (ro_stateRoute r))))"
  have d: "x \<in> in_InstanceID ` set ?d" if b: "bound_to r k x" for k x
  proof -
    obtain si i where si: "fmlookup (ro_stateRoute r) k = Some si" "sx_instance si = Some i" "in_InstanceID i = x"
      using b unfolding bound_to_def has_instance_def by blast
    moreover from this have "entry_ok (ro_LifeCycle r) m k si" using assms(1) by (simp add: route_ok_def)
    ultimately have "sx_status si \<noteq> InstanceExit" by (auto simp: entry_ok_def)
    moreover have "k \<in> set (ord (ro_stateRoute r))" using si(1) assms(2) by (simp add: range_orderD fmdom'I)
    ultimately have "i \<in> set ?d" using si by (auto simp: List.map_filter_def image_iff) (metis option.sel option.distinct(1))
    then show ?thesis using si(3) by blast
  qed
  have "\<not> bound_to (st_Destroy ord r) k x" for k x by (simp add: st_Destroy_def bound_to_def)
  moreover have "set (ro_deleted (st_Destroy ord r)) = set (ro_deleted r) \<union> set ?d" "ro_stateRoute (st_Destroy ord r) = fmempty"
    by (simp_all add: st_Destroy_def)
  ultimately show ?thesis using assms(1) d unfolding route_ok_def image_Un by (metis UnI1 UnI2 fmempty_lookup image_Un option.distinct(1))
qed

lemma route_ok_delete:
  assumes "route_ok r c m g" and "DeleteStateInstance stateID instanceID r = Some r'"
  shows "route_ok r' c m g"
proof -
  let ?r1 = "snd (LoadOrStore stateID r)"
  have ok1: "route_ok ?r1 c m g" using route_ok_frame [OF assms(1) LoadOrStore_route] by blast
  show ?thesis
  proof (cases "fmlookup (ro_stateRoute ?r1) stateID")
    case (Some si)
    then obtain i where i: "sx_instance si = Some i"
        "r' = (if in_InstanceID i = instanceID then add_deleted i (processStateRoute si stateID stateInstanceDelete ?r1) else ?r1)"
      using assms(2) by (auto simp: DeleteStateInstance_def Let_def)
    have "add_deleted i (processStateRoute si stateID stateInstanceDelete ?r1)
      = (processStateRoute si stateID stateInstanceDelete ?r1)\<lparr>ro_deleted := ro_deleted ?r1 @ [i]\<rparr>"
      by (simp add: processStateRoute_def route_defs)
    moreover have "sx_StateID si = stateID" using ok1 Some by (auto simp: route_ok_def entry_ok_def)
    moreover have "x = in_InstanceID i" if "bound_to ?r1 stateID x" for x using that Some i(1) by (auto simp: bound_to_def has_instance_def)
    ultimately show ?thesis using route_ok_drop [OF ok1, of si stateID g "ro_deleted ?r1 @ [i]"] ok1 i(2) Some by auto
  qed (use ok1 assms(2) in \<open>auto simp: DeleteStateInstance_def Let_def\<close>)
qed

lemma route_ok_step:
  "state_step clash s s' \<Longrightarrow> \<not> clash \<Longrightarrow> locks_ok (ys_route s) (ys_waiting s) (ys_creating s) \<Longrightarrow>
    route_ok (ys_route s) (fst ` set (ys_creating s)) (ys_made s) (ys_gone s) \<Longrightarrow> works_ok (ys_updating s) (ys_removing s) \<Longrightarrow>
    route_ok (ys_route s') (fst ` set (ys_creating s')) (ys_made s') (ys_gone s')"
proof (induction rule: state_step.induct)
  case (load stateID s lock r)
  then show ?case using route_ok_frame [OF _ LoadOrStore_route [of "ys_route s" stateID]] by simp
next
  case (answer stateID lock s res r)
  then show ?case using look_frame route_ok_frame by simp
next
  case (create stateID lock s r)
  have "fmlookup (ro_stateRoute (ys_route s)) stateID = None"
    using create.hyps(3) create.prems(3)
    by (auto simp: acquire_look_def route_ok_def entry_ok_def split: option.splits if_splits prod.splits)
  then have "route_ok r (insert stateID (fst ` set (ys_creating s))) (ys_made s) (ys_gone s)"
    using look_frame [OF create.hyps(3)] by (intro route_ok_frame [OF create.prems(3)]) auto
  then show ?case by simp
next
  case (made stateID lock s i res r)
  let ?c = "remove1 (stateID, lock) (ys_creating s)"
  have c: "fst ` set ?c \<subseteq> fst ` set (ys_creating s)" "stateID \<notin> fst ` set ?c"
    using made.prems(2) made.hyps(1) distinct_remove1_fst [of "ys_creating s" stateID lock] set_remove1_subset [of "(stateID, lock)" "ys_creating s"]
    by (auto simp: locks_ok_def)
  have "fmlookup (ro_stateRoute (ys_route s)) stateID = None"
    using made.prems(3) made.hyps(1) by (cases "fmlookup (ro_stateRoute (ys_route s)) stateID") (force simp: route_ok_def)+
  from route_ok_frame [OF route_ok_add [OF made.prems(3) this made.hyps(2) c disjI1 [OF refl]] made_frame [OF made.hyps(3), THEN conjunct2]]
  show ?case by simp
next
  case (failed stateID lock s message res r)
  have "fst ` set (remove1 (stateID, lock) (ys_creating s)) \<subseteq> fst ` set (ys_creating s)" using set_remove1_subset by (rule image_mono)
  then have "route_ok (ys_route s) (fst ` set (remove1 (stateID, lock) (ys_creating s))) (ys_made s) (ys_gone s)"
    by (intro route_ok_frame [OF failed.prems(3)]) auto
  then show ?case using failed.hyps(2) by (simp add: acquire_made_def)
next
  case (update_begin ord i s stateID si r)
  then show ?case using route_ok_look by simp
next
  case (update_end stateID si s)
  then obtain i where i: "sx_instance si = Some i" "sx_StateID si = stateID" "sx_status si = InstanceOk \<or> sx_status si = InstanceAbnormal"
    by (auto simp: works_ok_def)
  have "bound_to (ys_route s) stateID (in_InstanceID i)" using update_end i(1) by (simp add: stale_update_def)
  from route_ok_again [OF update_end.prems(3) this _ i(2,3)] i(1) show ?case by (simp add: processStateRoute_def has_instance_def)
next
  case (gone_find ord s instanceID)
  then show ?case by (auto simp: route_ok_def)
next
  case (gone_end stateID si s)
  then have "sx_StateID si = stateID" by (auto simp: works_ok_def)
  then show ?case using gone_end route_ok_removal [of s _ _ stateID si] by simp
next
  case (destroy ord s)
  then show ?case using route_ok_destroy by simp
next
  case (spec_update s m)
  then show ?case by (simp add: route_ok_def bound_to_def)
next
  case (recover_route stateID i s)
  then have "recover_status (in_Code i) = InstanceOk \<or> recover_status (in_Code i) = InstanceAbnormal"
    by (simp add: odd_recovery_def recover_status_def status_of_def)
  from route_ok_add [OF recover_route.prems(3) _ _ order_refl _ this, of stateID] recover_route show ?case
    by (simp add: odd_recovery_def recover_entry_def)
next
  case (manager_scale_down stateID instanceID s r)
  then show ?case using route_ok_delete by simp
next
  case (fire s t a)
  then show ?case using route_ok_frame [OF fire.prems(3) fire_frame [THEN conjunct1]] by simp
next
  case (expire instanceID lid s)
  then show ?case using route_ok_frame [OF expire.prems(3) expire_frame [THEN conjunct1]] by simp
next
  case (scale_down stateID instanceID s r)
  then show ?case using route_ok_delete by simp
qed simp_all

lemma works_ok_begin:
  assumes "works_ok u v" and "sx_StateID si = k" and "sx_instance si = Some i" and "sx_status si = InstanceOk \<or> sx_status si = InstanceAbnormal"
  shows "works_ok (refresh k si u @ [(k, si)]) v"
  using assms by (fastforce simp: works_ok_def refresh_def split: if_splits)

lemma works_ok_step:
  "state_step clash s s' \<Longrightarrow> route_ok (ys_route s) (fst ` set (ys_creating s)) (ys_made s) (ys_gone s) \<Longrightarrow>
    works_ok (ys_updating s) (ys_removing s) \<Longrightarrow> works_ok (ys_updating s') (ys_removing s')"
proof (induction rule: state_step.induct)
  case (update_begin ord i s stateID si r)
  obtain si0 where "fmlookup (ro_stateRoute (ys_route s)) stateID = Some si0" "si = si0\<lparr>sx_instance := Some i, sx_status := status_of (in_Code i)\<rparr>"
    using update_look_Some [OF update_begin.hyps(2)] by blast
  moreover from this have "sx_StateID si = stateID" using update_begin.prems(1) by (auto simp: route_ok_def entry_ok_def)
  ultimately show ?case using works_ok_begin [OF update_begin.prems(2)] by (simp add: status_of_def)
next
  case (update_end stateID si s)
  then show ?case using set_remove1_subset [of "(stateID, si)" "ys_updating s"] by (auto simp: works_ok_def)
next
  case (gone_get stateID s)
  have "sx_StateID si = stateID" if "fmlookup (ro_stateRoute (ys_route s)) stateID = Some si" for si
    using gone_get.prems(1) that by (simp add: route_ok_def entry_ok_def)
  then show ?case using gone_get.prems(2) by (auto simp: works_ok_def split: option.splits)
next
  case (gone_end stateID si s)
  then show ?case using set_remove1_subset [of "(stateID, si)" "ys_removing s"] by (auto simp: works_ok_def)
qed simp_all

lemma reach_route_ok:
  assumes "state_reach False lifeCycle n s"
  shows "locks_ok (ys_route s) (ys_waiting s) (ys_creating s) \<and>
    route_ok (ys_route s) (fst ` set (ys_creating s)) (ys_made s) (ys_gone s) \<and> works_ok (ys_updating s) (ys_removing s)"
  using assms
proof (induction rule: rtranclp_induct)
  case base
  show ?case by (simp add: state_start_def locks_ok_def route_ok_def bound_to_def works_ok_def)
next
  case (step s s')
  then show ?case using locks_ok_step [of False s s'] route_ok_step [of False s s'] works_ok_step [of False s s'] by simp
qed

text \<open>
  The handling of an update and of a removal report is these steps, when nothing comes in between.
\<close>

lemma update_uninterrupted:
  assumes "range_order ord" and "ys_updating s = []"
  shows "(state_step False)\<^sup>*\<^sup>* s (s\<lparr>ys_route := st_HandleInstanceUpdate ord i (ys_route s)\<rparr>)"
proof (cases "update_look ord i (ys_route s)")
  case (Pair seen r)
  show ?thesis
  proof (cases seen)
    case None
    then have "r = ys_route s" using Pair by (auto simp: update_look_def Let_def split: if_splits option.splits)
    then show ?thesis using Pair None by (simp add: st_HandleInstanceUpdate_def)
  next
    case (Some ks)
    obtain k si where ks: "ks = (k, si)" by fastforce
    let ?s1 = "s\<lparr>ys_route := r, ys_updating := [(k, si)]\<rparr>"
    have "state_step False s ?s1" using state_step.update_begin [OF assms(1), of i s k si r False] Pair Some ks assms(2) by (simp add: refresh_def)
    moreover have "\<not> stale_update k si ?s1"
      using update_look_Some [of ord i "ys_route s" k si r] Pair Some ks
      by (auto simp: stale_update_def bound_to_def setStateInstance_def has_instance_def)
    then have "state_step False ?s1 (?s1\<lparr>ys_route := processStateRoute si k stateUpdate r, ys_updating := []\<rparr>)"
      using state_step.update_end [of k si ?s1 False] by simp
    moreover have "s\<lparr>ys_route := x\<rparr> = s\<lparr>ys_route := x, ys_updating := []\<rparr>" for x using assms(2) by (cases s) simp
    ultimately show ?thesis using Pair Some ks by (simp add: st_HandleInstanceUpdate_def converse_rtranclp_into_rtranclp)
  qed
qed

lemma removal_uninterrupted:
  assumes "range_order ord" and "ys_finding s = []" and "ys_removing s = []"
  shows "(state_step False)\<^sup>*\<^sup>* s
    (s\<lparr>ys_route := DeleteStateInstanceByInstanceID ord instanceID (ys_route s), ys_gone := insert instanceID (ys_gone s)\<rparr>)"
proof (cases "getStateIDByInstanceID ord instanceID (ys_route s)")
  case None
  let ?g = "insert instanceID (ys_gone s)"
  have "state_step False s (s\<lparr>ys_gone := ?g, ys_finding := []\<rparr>)"
    using state_step.gone_find [OF assms(1), of False s instanceID] assms(2) None by simp
  also have "s\<lparr>ys_gone := ?g, ys_finding := []\<rparr> = s\<lparr>ys_gone := ?g\<rparr>" using assms(2) by (cases s) simp
  finally show ?thesis using None by (simp add: DeleteStateInstanceByInstanceID_def r_into_rtranclp)
next
  case (Some k)
  obtain si where si: "fmlookup (ro_stateRoute (ys_route s)) k = Some si" "has_instance instanceID si" using getStateID_Some [OF Some] by blast
  let ?g = "insert instanceID (ys_gone s)"
  let ?s1 = "s\<lparr>ys_gone := ?g, ys_finding := [k]\<rparr>" and ?s2 = "s\<lparr>ys_gone := ?g, ys_finding := [], ys_removing := [(k, si)]\<rparr>"
  have "state_step False s ?s1" using state_step.gone_find [OF assms(1), of False s instanceID] assms(2) Some by simp
  moreover have "state_step False ?s1 ?s2" using state_step.gone_get [of k ?s1 False] assms(3) si(1) by simp
  moreover have "\<not> stale_removal k ?s2" using si by (auto simp: stale_removal_def has_instance_def)
  then have "state_step False ?s2 (?s2\<lparr>ys_route := processStateRoute si k stateInstanceDelete (ys_route s), ys_removing := []\<rparr>)" (is "state_step _ _ ?s3")
    using state_step.gone_end [of k si ?s2 False] by simp
  moreover have "?s3 = s\<lparr>ys_route := DeleteStateInstanceByInstanceID ord instanceID (ys_route s), ys_gone := ?g\<rparr>"
    using si(1) Some assms(2,3) by (cases s) (simp add: DeleteStateInstanceByInstanceID_def)
  ultimately show ?thesis by (metis converse_rtranclp_into_rtranclp rtranclp.rtrancl_refl)
qed

text \<open>
  C39: Take any run in which no state is deleted, no update is overtaken by the loss of its instance, no removal report by a new instance of its
  state, and recovery meets no state in use and no exited or known instance. Then a state has at most one creation under way, and none
  when it has an entry; an instance serves one state only; and no instance is lost: one that was made or recovered serves a
  state, or was passed to the delete function, or was reported as gone.
\<close>

theorem one_instance_per_state:
  assumes "state_reach False lifeCycle n s"
  shows "distinct (map fst (ys_creating s)) \<and>
    (\<forall>k \<in> fst ` set (ys_creating s). fmlookup (ro_stateRoute (ys_route s)) k = None) \<and>
    (\<forall>k k' x. bound_to (ys_route s) k x \<longrightarrow> bound_to (ys_route s) k' x \<longrightarrow> k = k') \<and>
    (\<forall>x \<in> ys_made s. (\<exists>k. bound_to (ys_route s) k x) \<or> x \<in> in_InstanceID ` set (ro_deleted (ys_route s)) \<or> x \<in> ys_gone s)"
proof -
  have "fmlookup (ro_stateRoute (ys_route s)) k = None" if "k \<in> fst ` set (ys_creating s)" for k
    using reach_route_ok [OF assms] that by (cases "fmlookup (ro_stateRoute (ys_route s)) k") (auto simp: route_ok_def)
  then show ?thesis using reach_route_ok [OF assms] unfolding locks_ok_def route_ok_def by blast
qed

end
