(* ===== verification/GoStrings.thy ===== *)
theory GoStrings
  imports GoPrelude
begin

text \<open>
  Further string functions of the Go library: laws of \<^verbatim>\<open>strings.Split\<close>, and \<^verbatim>\<open>strings.TrimSpace\<close>.
\<close>

section \<open>Splitting\<close>

lemma splitAll_nonempty [simp]: "splitAll c s \<noteq> []"
  by (induction s) (auto split: list.splits)

lemma splitAll_none: "c \<notin> set s \<Longrightarrow> splitAll c s = [s]"
  by (induction s) auto

lemma splitAll_snoc: "c \<notin> set s \<Longrightarrow> \<exists>q qs. splitAll c (p @ c # s) = q # qs @ [s]"
  by (induction p) (auto simp: splitAll_none)

lemma splitAll_last: "c \<notin> set s \<Longrightarrow> last (splitAll c (p @ c # s)) = s"
  using splitAll_snoc [of c s p] by auto

lemma splitAll_cut: "c \<notin> set p \<Longrightarrow> splitAll c (p @ c # s) = p # splitAll c s"
  by (induction p) auto

section \<open>Trimming\<close>

text \<open>
  Go trims runes. The white space of two and three bytes in UTF-8; such a sequence begins with a byte that cannot
  continue another one, so it is found from either end.
\<close>

definition space2 :: "nat \<Rightarrow> nat \<Rightarrow> bool" where
  "space2 a b \<longleftrightarrow> a = 0xC2 \<and> b \<in> {0x85, 0xA0}"

definition space3 :: "nat \<Rightarrow> nat \<Rightarrow> nat \<Rightarrow> bool" where
  "space3 a b c \<longleftrightarrow>
     a = 0xE1 \<and> b = 0x9A \<and> c = 0x80 \<or> a = 0xE2 \<and> b = 0x80 \<and> (0x80 \<le> c \<and> c \<le> 0x8A \<or> c \<in> {0xA8, 0xA9, 0xAF}) \<or>
     a = 0xE2 \<and> b = 0x81 \<and> c = 0x9F \<or> a = 0xE3 \<and> b = 0x80 \<and> c = 0x80"

abbreviation (input) byte :: "char \<Rightarrow> nat" where "byte \<equiv> of_char"

fun trimLeft :: "string \<Rightarrow> string" where
  "trimLeft (a # s) =
     (if byte a \<in> {9, 10, 11, 12, 13, 32} then trimLeft s
      else case s of
        b # c # t \<Rightarrow> if space2 (byte a) (byte b) then trimLeft (c # t) else if space3 (byte a) (byte b) (byte c) then trimLeft t else a # s
      | [b] \<Rightarrow> if space2 (byte a) (byte b) then [] else a # s
      | [] \<Rightarrow> a # s)"
| "trimLeft [] = []"

text \<open>The same from the other end, on the reversed string.\<close>

fun trimRight :: "string \<Rightarrow> string" where
  "trimRight (a # s) =
     (if byte a \<in> {9, 10, 11, 12, 13, 32} then trimRight s
      else case s of
        b # c # t \<Rightarrow> if space2 (byte b) (byte a) then trimRight (c # t) else if space3 (byte c) (byte b) (byte a) then trimRight t else a # s
      | [b] \<Rightarrow> if space2 (byte b) (byte a) then [] else a # s
      | [] \<Rightarrow> a # s)"
| "trimRight [] = []"

definition trimSpace :: "string \<Rightarrow> string" where
  "trimSpace s = rev (trimRight (rev (trimLeft s)))"

end
