(* ===== verification/StateRuns.thy ===== *)
theory StateRuns
  imports StateSystem GoStrings "HOL-Library.List_Lexorder" "HOL-Library.Char_ord"
begin

text \<open>
  Runs of the state route: the number of a lease read back from its allocation, witnesses, and runs in which instances are removed while
  they are leased, lost, or in which the scheduler panics.
\<close>

section \<open>The number in an allocation\<close>

lemma replaceFirst_prefix: "old \<noteq> [] \<Longrightarrow> replaceFirst old (old @ s) = s"
  using hasPrefix_append [of old s] append_eq_conv_conj [of old s "old @ s"] by (cases "old @ s") auto

lemma atoi_showNat: "int n < 2 ^ 63 \<Longrightarrow> atoi (showNat n) = Some (int n)"
proof -
  assume n: "int n < 2 ^ 63"
  have "hd (showNat n) \<noteq> CHR ''-''" "hd (showNat n) \<noteq> CHR ''+''"
    using showNat_avoids [of "CHR ''-''" n] showNat_avoids [of "CHR ''+''" n] hd_in_set [OF showNat_nonempty [of n]] by force+
  then show ?thesis using n readNat_showNat [of n] by (cases "showNat n") (auto simp: atoi_def range_int64_def)
qed

text \<open>
  An allocation of a state names its lease: the pool manager reads back the number under which the lease was given, whatever
  the ID of the instance looks like.
\<close>

theorem lease_number_roundtrip:
  assumes "generateStateLease stateID i sr = (Inr lid, sr')" and "int lid < 2 ^ 63"
  shows "state_allocation i (Inr lid) = Inr (i, in_InstanceID i @ ''-stateThread'' @ showNat lid) \<and>
    getLeaseIdFromAllocationId (in_InstanceID i @ ''-stateThread'' @ showNat lid) = Inr (int lid)"
proof -
  have "CHR ''-'' \<notin> set (''stateThread'' @ showNat lid)" using showNat_avoids [of "CHR ''-''" lid] by auto
  from splitAll_last [OF this, of "in_InstanceID i"]
  have "last (splitAll CHR ''-'' (in_InstanceID i @ ''-stateThread'' @ showNat lid)) = ''stateThread'' @ showNat lid" by simp
  then show ?thesis using replaceFirst_prefix [of "''stateThread''" "showNat lid"] atoi_showNat [OF assms(2)]
    by (simp add: getLeaseIdFromAllocationId_def state_allocation_def)
qed

section \<open>Executing runs\<close>

datatype sys_action =
    Load string | Enter string nat | Made string nat PoolInstance | Fire nat | RunExpire string nat | RunScaleDown string string
  | DeleteState string | UpdateBegin PoolInstance | UpdateEnd nat | RecoverRoute string PoolInstance | RecoverLeaser string PoolInstance
  | ManagerFire nat | ManagerScaleDown string string

definition route_keys :: route_order where
  "route_keys m = sorted_list_of_set (fmdom' m)"

definition state_exec :: "bool \<Rightarrow> sys_action \<Rightarrow> state_sys \<Rightarrow> state_sys option" where
  "state_exec clash a s =
     (case a of
        Load k \<Rightarrow> (case LoadOrStore k (ys_route s) of (lock, r) \<Rightarrow> Some (s\<lparr>ys_route := r, ys_waiting := ys_waiting s @ [(k, lock)]\<rparr>))
      | Enter k lock \<Rightarrow>
          if (k, lock) \<in> set (ys_waiting s) \<and> lock \<notin> snd ` set (ys_creating s) then
            case acquire_look k (ys_route s) of
              (Answers _, r) \<Rightarrow> Some (s\<lparr>ys_route := r, ys_waiting := remove1 (k, lock) (ys_waiting s)\<rparr>)
            | (MustCreate, r) \<Rightarrow>
                Some (s\<lparr>ys_route := r, ys_waiting := remove1 (k, lock) (ys_waiting s), ys_creating := (k, lock) # ys_creating s\<rparr>)
            | (Panics, _) \<Rightarrow> None
          else None
      | Made k lock i \<Rightarrow>
          if (k, lock) \<in> set (ys_creating s) \<and> in_InstanceID i \<notin> ys_made s then
            (case acquire_made k (Inr i) (ys_route s) of (_, r) \<Rightarrow>
               Some (s\<lparr>ys_route := r, ys_creating := remove1 (k, lock) (ys_creating s), ys_made := insert (in_InstanceID i) (ys_made s)\<rparr>))
          else None
      | Fire t \<Rightarrow>
          map_option (\<lambda>a. s\<lparr>ys_route := fire_timer t (ys_route s), ys_pending := ys_pending s @ [a]\<rparr>)
            (fmlookup (ts_armed (ro_timers (ys_route s))) t)
      | RunExpire i lid \<Rightarrow>
          if Expire i lid \<in> set (ys_pending s)
          then Some (s\<lparr>ys_route := expire_state_lease i lid (ys_route s), ys_pending := remove1 (Expire i lid) (ys_pending s)\<rparr>) else None
      | RunScaleDown k i \<Rightarrow>
          if ScaleDown k i \<in> set (ys_pending s) \<and> lock_free k s then
            map_option (\<lambda>r. s\<lparr>ys_route := r, ys_pending := remove1 (ScaleDown k i) (ys_pending s)\<rparr>) (DeleteStateInstance k i (ys_route s))
          else None
      | DeleteState k \<Rightarrow>
          if clash \<and> lock_free k s then map_option (\<lambda>(_, r). s\<lparr>ys_route := r\<rparr>) (GetAndDeleteState k (ys_route s)) else None
      | UpdateBegin i \<Rightarrow>
          (case update_look route_keys i (ys_route s) of
             (Some (k, si), r) \<Rightarrow> Some (s\<lparr>ys_route := r, ys_updating := refresh k si (ys_updating s) @ [(k, si)]\<rparr>)
           | (None, _) \<Rightarrow> None)
      | UpdateEnd j \<Rightarrow>
          if j < length (ys_updating s) then
            (case ys_updating s ! j of (k, si) \<Rightarrow>
               if stale_update k si s \<longrightarrow> clash
               then Some (s\<lparr>ys_route := processStateRoute si k stateUpdate (ys_route s), ys_updating := remove1 (k, si) (ys_updating s)\<rparr>) else None)
          else None
      | RecoverRoute k i \<Rightarrow>
          if odd_recovery k i s \<longrightarrow> clash
          then Some (s\<lparr>ys_route := recover_entry (k, i) (ys_route s), ys_made := insert (in_InstanceID i) (ys_made s)\<rparr>) else None
      | RecoverLeaser k i \<Rightarrow>
          Some (s\<lparr>ys_manager := recoverStateLeaser (ro_ConcurrentNum (ys_route s)) (k, i) (ys_manager s),
            ys_recovered := insert (in_InstanceID i) (ys_recovered s)\<rparr>)
      | ManagerFire t \<Rightarrow>
          map_option (\<lambda>a. s\<lparr>ys_manager := apsnd (timer_Stop t) (ys_manager s), ys_mpending := ys_mpending s @ [a]\<rparr>)
            (fmlookup (ts_armed (snd (ys_manager s))) t)
      | ManagerScaleDown k i \<Rightarrow>
          if ScaleDown k i \<in> set (ys_mpending s) \<and> lock_free k s then
            map_option (\<lambda>r. s\<lparr>ys_route := r, ys_mpending := remove1 (ScaleDown k i) (ys_mpending s)\<rparr>) (DeleteStateInstance k i (ys_route s))
          else None)"

lemma bound_to_code [code]:
  "bound_to r stateID instanceID \<longleftrightarrow> (case fmlookup (ro_stateRoute r) stateID of None \<Rightarrow> False | Some si \<Rightarrow> has_instance instanceID si)"
  by (auto simp: bound_to_def split: option.split)

lemma has_instance_code [code]:
  "has_instance instanceID si \<longleftrightarrow> (case sx_instance si of None \<Rightarrow> False | Some i \<Rightarrow> in_InstanceID i = instanceID)"
  by (auto simp: has_instance_def split: option.split)

lemma route_keys_order: "range_order route_keys"
  using range_order_sorted by (simp add: route_keys_def [abs_def])

lemma state_exec_step: "state_exec clash a s = Some s' \<Longrightarrow> state_step clash s s'"
proof (cases a)
  case (UpdateEnd j)
  assume e: "state_exec clash a s = Some s'"
  obtain k si where "ys_updating s ! j = (k, si)" by fastforce
  then show ?thesis using e UpdateEnd state_step.update_end [of k si s clash] nth_mem [of j "ys_updating s"]
    by (auto simp: state_exec_def split: if_splits)
qed (auto simp: state_exec_def split: prod.splits if_splits look_result.splits option.splits
      intro: state_step.load state_step.answer state_step.create state_step.made state_step.fire state_step.expire state_step.scale_down
        state_step.delete_state state_step.update_begin [OF route_keys_order] state_step.recover_route
        state_step.recover_leaser state_step.manager_fire state_step.manager_scale_down)

fun exec_run :: "bool \<Rightarrow> sys_action list \<Rightarrow> state_sys \<Rightarrow> state_sys option" where
  "exec_run clash [] s = Some s"
| "exec_run clash (a # as) s = Option.bind (state_exec clash a s) (exec_run clash as)"

lemma exec_run_steps: "exec_run clash as s = Some s' \<Longrightarrow> (state_step clash)\<^sup>*\<^sup>* s s'"
proof (induction as arbitrary: s)
  case (Cons a as)
  then show ?case by (auto split: bind_splits intro: converse_rtranclp_into_rtranclp dest: state_exec_step)
qed simp

lemma exec_run_reach:
  assumes "map_option P (exec_run clash as (state_start lifeCycle n)) = Some True"
  shows "\<exists>s. state_reach clash lifeCycle n s \<and> P s"
  using assms exec_run_steps [of clash as "state_start lifeCycle n"] by auto

definition state_ins :: "string \<Rightarrow> PoolInstance" where
  "state_ins instanceID =
     \<lparr>in_InstanceID = instanceID, in_FuncKey = ''f'', in_ConcurrentNum = 1, in_Code = statusRunning, in_InstanceIP = [], in_InstancePort = [],
      in_NodeIP = [], in_NodePort = [], in_FuncSig = [], in_FunctionProxyID = [], in_RouteAddress = [], in_AZ = [],
      in_SessionCtxID = None, in_CreateSchedulerID = [], in_Permanent = False, in_InstanceType = InstanceTypeState,
      in_ResKey = \<lparr>rk_CPU = 0, rk_Memory = 0, rk_EphemeralStorage = 0, rk_CustomResources = [], rk_CustomResourcesSpec = [], rk_InvokeLabel = []\<rparr>\<rparr>"

definition first_lease :: "sys_action list" where
  "first_lease = [Load ''s'', Enter ''s'' 0, Made ''s'' 0 (state_ins ''i1'')]"

section \<open>A scale-down that comes too late\<close>

text \<open>
  The only lease of an instance has expired and the scale-down timer has fired. Before its action runs, the state is acquired again:
  stopping the timer has no effect any more, and the instance is removed while it is leased.
\<close>

definition late_scale_down :: "sys_action list" where
  "late_scale_down = first_lease @ [Fire 0, RunExpire ''i1'' 0, Fire 1, Load ''s'', Enter ''s'' 0, RunScaleDown ''s'' ''i1'']"

theorem leased_instance_removed:
  "\<exists>s. state_reach False ConsistentWithState 1 s \<and>
     map in_InstanceID (ro_deleted (ys_route s)) = [''i1''] \<and>
     map_option (\<lambda>l. fmlookup (le_Leases l) 1) (fmlookup (ro_stateLeaseManager (ys_route s)) ''i1'') = Some (Some 2)"
  by (rule exec_run_reach [where as = late_scale_down]) code_simp

text \<open>
  Where the life of a state is that of its instance, the entry of the state is left without an instance. When the lease has
  expired as well, the timer fires once more, and its action dereferences nil: the scheduler ends.
\<close>

theorem late_scale_down_panics:
  "\<exists>s. state_reach False ConsistentWithState 1 s \<and>
     ScaleDown ''s'' ''i1'' \<in> set (ys_pending s) \<and> lock_free ''s'' s \<and> DeleteStateInstance ''s'' ''i1'' (ys_route s) = None"
  by (rule exec_run_reach [where as = "late_scale_down @ [Fire 2, RunExpire ''i1'' 1, Fire 3]"]) code_simp

section \<open>Deleting a state\<close>

text \<open>
  The deletion of a state also deletes its lock. A request that waited for the old lock and one that has made a new lock both find no
  instance and create one; the instance that is made first is in no route and is never removed.
\<close>

theorem deleted_state_loses_instance:
  "\<exists>s. state_reach True [] 1 s \<and>
     ''i2'' \<in> ys_made s \<and> map in_InstanceID (ro_deleted (ys_route s)) = [''i1''] \<and> fmdom' (ro_stateRoute (ys_route s)) = {''s''} \<and>
     map_option (\<lambda>si. map_option in_InstanceID (sx_instance si)) (fmlookup (ro_stateRoute (ys_route s)) ''s'') = Some (Some ''i3'')"
  by (rule exec_run_reach [where as = "[Load ''s'', Load ''s'', Enter ''s'' 0, Made ''s'' 0 (state_ins ''i1''), DeleteState ''s'', Enter ''s'' 0,
      Load ''s'', Enter ''s'' 1, Made ''s'' 0 (state_ins ''i2''), Made ''s'' 1 (state_ins ''i3'')]"]) code_simp

section \<open>An update and a removal that overlap\<close>

text \<open>
  An update has changed the entry of an instance and has not yet put it into the route. The instance is scaled down, and the
  next request makes a new one. Then the update puts the removed instance back: the new one is lost, and the state is bound to an
  instance that was deleted.
\<close>

theorem stale_update_loses_instance:
  "\<exists>s. state_reach True [] 1 s \<and>
     ''i2'' \<in> ys_made s \<and> ys_gone s = {} \<and> map in_InstanceID (ro_deleted (ys_route s)) = [''i1''] \<and> fmdom' (ro_stateRoute (ys_route s)) = {''s''} \<and>
     map_option (\<lambda>si. map_option in_InstanceID (sx_instance si)) (fmlookup (ro_stateRoute (ys_route s)) ''s'') = Some (Some ''i1'')"
  by (rule exec_run_reach [where as = "first_lease @ [UpdateBegin (state_ins ''i1''), Fire 0, RunExpire ''i1'' 0, Fire 1, RunScaleDown ''s'' ''i1'',
      Load ''s'', Enter ''s'' 0, Made ''s'' 0 (state_ins ''i2''), UpdateEnd 0]"]) code_simp

section \<open>The second leaser after a restart\<close>

text \<open>
  After a restart the pool manager makes a leaser of its own for a recovered instance and arms its scale-down timer. A
  request then gets a lease from the leaser of the route, which does not know of that timer: the instance is removed while it is leased.
\<close>

theorem recovered_leaser_removes_leased:
  "\<exists>s. state_reach False ConsistentWithState 1 s \<and>
     map in_InstanceID (ro_deleted (ys_route s)) = [''i1''] \<and>
     map_option (\<lambda>l. fmlookup (le_Leases l) 0) (fmlookup (ro_stateLeaseManager (ys_route s)) ''i1'') = Some (Some 0)"
  by (rule exec_run_reach [where as = "[RecoverRoute ''s'' (state_ins ''i1''), RecoverLeaser ''s'' (state_ins ''i1''), Load ''s'', Enter ''s'' 0,
      ManagerFire 0, ManagerScaleDown ''s'' ''i1'']"]) code_simp

section \<open>Witnesses\<close>

text \<open>
  A run in which a lease is given, and one in which an instance is made, an update is handled while its lease expires, and the instance is scaled
  down.
\<close>

lemma first_lease_reach:
  "\<exists>s. state_reach False ConsistentWithState 1 s \<and> (ys_concs s = {1} \<and> ''i1'' \<notin> ys_recovered s \<and>
     map_option (\<lambda>l. fmlookup (le_Leases l) 0) (fmlookup (ro_stateLeaseManager (ys_route s)) ''i1'') = Some (Some 0))"
  by (rule exec_run_reach [where as = first_lease]) code_simp

theorem leased_instance_not_timed_witness:
  "\<exists>s l. state_reach False ConsistentWithState 1 s \<and> fmlookup (ro_stateLeaseManager (ys_route s)) ''i1'' = Some l \<and>
     le_Leases l \<noteq> fmempty \<and> int (fcard (fmdom (le_Leases l))) \<le> 1 \<and>
     (\<forall>t k. fmlookup (ts_armed (ro_timers (ys_route s))) t \<noteq> Some (ScaleDown k ''i1'')) \<and>
     (\<forall>t k. fmlookup (ts_armed (snd (ys_manager s))) t \<noteq> Some (ScaleDown k ''i1''))"
proof -
  obtain s l where s: "state_reach False ConsistentWithState 1 s" "fmlookup (ro_stateLeaseManager (ys_route s)) ''i1'' = Some l"
      "fmlookup (le_Leases l) 0 = Some 0" "ys_concs s = {1}" "''i1'' \<notin> ys_recovered s"
    using first_lease_reach by auto
  then have "le_Leases l \<noteq> fmempty" by auto
  then show ?thesis using leased_instance_not_timed [OF s(1,2)] s by auto
qed

definition updated_run :: "sys_action list" where
  "updated_run = first_lease @ [UpdateBegin (state_ins ''i1''), Fire 0, RunExpire ''i1'' 0, UpdateEnd 0, Fire 1, RunScaleDown ''s'' ''i1'',
     Load ''s'', Enter ''s'' 0, Made ''s'' 0 (state_ins ''i2'')]"

lemma updated_run_reach:
  "\<exists>s. state_reach False [] 1 s \<and> (ys_made s = {''i1'', ''i2''} \<and> \<not> bound_to (ys_route s) ''s'' ''i1'' \<and> ys_gone s = {} \<and>
     fmdom' (ro_stateRoute (ys_route s)) = {''s''})"
  by (rule exec_run_reach [where as = updated_run]) code_simp

theorem one_instance_per_state_witness:
  "\<exists>s. state_reach False [] 1 s \<and> ''i1'' \<in> in_InstanceID ` set (ro_deleted (ys_route s)) \<and>
     (bound_to (ys_route s) ''s'' ''i2'' \<or> ''i2'' \<in> in_InstanceID ` set (ro_deleted (ys_route s)))"
proof -
  obtain s where s: "state_reach False [] 1 s" "ys_made s = {''i1'', ''i2''}" "\<not> bound_to (ys_route s) ''s'' ''i1''" "ys_gone s = {}"
      "fmdom' (ro_stateRoute (ys_route s)) = {''s''}"
    using updated_run_reach by blast
  have "k = ''s''" if "bound_to (ys_route s) k x" for k x using that s(5) by (auto simp: bound_to_def dest: fmdom'I)
  then show ?thesis using one_instance_per_state [OF s(1)] s by (metis empty_iff insertI1 insertI2)
qed

theorem lease_number_roundtrip_witness:
  "getLeaseIdFromAllocationId (''a-1'' @ ''-stateThread'' @ showNat 0) = Inr 0"
proof -
  have "fst (generateStateLease ''s'' (state_ins ''a-1'') (ys_route (state_start [] 1))) = Inr 0" by code_simp
  then obtain r where g: "generateStateLease ''s'' (state_ins ''a-1'') (ys_route (state_start [] 1)) = (Inr 0, r)" by (metis prod.collapse)
  have "in_InstanceID (state_ins ''a-1'') = ''a-1''" by (simp add: state_ins_def)
  with lease_number_roundtrip [OF g] show ?thesis by simp
qed

end
