(* ===== verification/PoolLimits.thy ===== *)
theory PoolLimits
  imports StateRoute TenantQuota
begin

text \<open>
  The limits on the instances of a function in its pool (\<^verbatim>\<open>functionscaler/instancepool/instancepool.go\<close>): every creation is checked against the
  limit of its label, the limit of the function and the quota of the tenant, and counted as pending while it runs. Shown: the pending
  numbers are exactly the creations under way, so that a creation is granted only while instances and creations together are
  within both limits; a surplus is scaled down exactly.
\<close>

section \<open>Data\<close>

record Configuration =
  ic_MinInstance :: int
  ic_MaxInstance :: int

text \<open>
  The fields of \<^verbatim>\<open>GenericInstancePool\<close> read here. A queue is named by a number; how many instances of its own it has
  (\<^verbatim>\<open>GetInstanceNumber(true)\<close>) is the parameter \<open>num\<close>.
\<close>

record GenericInstancePool =
  gi_defaultResKey :: ResSpecKey
  gi_insConfig :: "(ResSpecKey, Configuration) gomap"
  gi_reservedInstanceQueue :: "(ResSpecKey, nat) gomap"
  gi_scaledInstanceQueue :: "(ResSpecKey, nat) gomap"
  gi_pendingInstanceNum :: "(string, int) gomap"

abbreviation (input) DefaultInstanceLabel :: string where "DefaultInstanceLabel \<equiv> []"
abbreviation (input) InstanceTypeReserved :: string where "InstanceTypeReserved \<equiv> ''reserved''"
abbreviation (input) InstanceTypeScaled :: string where "InstanceTypeScaled \<equiv> ''scaled''"

section \<open>Counting\<close>

abbreviation (input) FunctionIsDisabled :: go_error where "FunctionIsDisabled \<equiv> SNError 150434 ''function is disabled''"

definition getRunningInstanceNum :: "(nat \<Rightarrow> nat) \<Rightarrow> ResSpecKey \<Rightarrow> GenericInstancePool \<Rightarrow> go_error + int \<times> int" where
  "getRunningInstanceNum num resKey gi =
     (if fmlookup (gi_insConfig gi) resKey = None then Inl FunctionIsDisabled
      else
        let reservedNumGlobal = fmsum (\<lambda>_ queue. int (num queue)) (gi_reservedInstanceQueue gi);
            reservedNum = fmsum (\<lambda>res queue. if res = resKey then int (num queue) else 0) (gi_reservedInstanceQueue gi);
            scaledNumGlobal = fmsum (\<lambda>_ queue. int (num queue)) (gi_scaledInstanceQueue gi);
            scaledNum = fmsum (\<lambda>res queue. if rk_InvokeLabel res = rk_InvokeLabel resKey then int (num queue) else 0) (gi_scaledInstanceQueue gi)
        in Inr (scaledNum + reservedNum, scaledNumGlobal + reservedNumGlobal))"

definition pending_of :: "string \<Rightarrow> GenericInstancePool \<Rightarrow> int" where
  "pending_of label gi = (case fmlookup (gi_pendingInstanceNum gi) label of None \<Rightarrow> 0 | Some n \<Rightarrow> n)"

definition getCurrentInstanceNum :: "(nat \<Rightarrow> nat) \<Rightarrow> ResSpecKey \<Rightarrow> GenericInstancePool \<Rightarrow> go_error + int \<times> int" where
  "getCurrentInstanceNum num resKey gi =
     map_sum id (\<lambda>(runningForCurrentLabel, runningForGlobal).
       (runningForCurrentLabel + pending_of (rk_InvokeLabel resKey) gi,
        runningForGlobal + fmsum (\<lambda>_ n. n) (gi_pendingInstanceNum gi))) (getRunningInstanceNum num resKey gi)"

definition insConfResKey :: "ResSpecKey \<Rightarrow> GenericInstancePool \<Rightarrow> ResSpecKey" where
  "insConfResKey resKey gi = (gi_defaultResKey gi)\<lparr>rk_InvokeLabel := rk_InvokeLabel resKey\<rparr>"

text \<open>\<^verbatim>\<open>checkScaleLimit\<close>; reading the limit of a configuration that is missing is a nil dereference.\<close>

datatype limit_check = Within | LimitReached go_error | NilConfig

definition ReachMaxInstances :: "int \<Rightarrow> go_error" where
  "ReachMaxInstances limit = SNError 150429 (''reach max instance num '' @ showInt limit)"

definition checkScaleLimit :: "(nat \<Rightarrow> nat) \<Rightarrow> ResSpecKey \<Rightarrow> GenericInstancePool \<Rightarrow> limit_check" where
  "checkScaleLimit num resKey gi =
     (case getCurrentInstanceNum num (insConfResKey resKey gi) gi of
        Inl err \<Rightarrow> LimitReached err
      | Inr (sumForCurrentLabel, sumForGlobal) \<Rightarrow>
          (case (fmlookup (gi_insConfig gi) (insConfResKey resKey gi), fmlookup (gi_insConfig gi) (gi_defaultResKey gi)) of
             (Some confLabel, Some confGlobal) \<Rightarrow>
               if sumForCurrentLabel \<ge> ic_MaxInstance confLabel then LimitReached (ReachMaxInstances (ic_MaxInstance confLabel))
               else if sumForGlobal \<ge> ic_MaxInstance confGlobal then LimitReached (ReachMaxInstances (ic_MaxInstance confGlobal))
               else Within
           | _ \<Rightarrow> NilConfig))"

section \<open>Creating an instance\<close>

text \<open>
  \<^verbatim>\<open>createInstanceFunc\<close> up to the call of the kernel, in one lock section, and its deferred end. \<open>checked\<close>: the backend is not the one without
  limits; \<open>tenantLimit\<close>: the limit per tenant is enabled.
\<close>

definition checkTenantLimit ::
  "bool \<Rightarrow> etcd_call \<Rightarrow> string \<Rightarrow> string \<Rightarrow> tenantCache \<times> etcd_counts \<Rightarrow> (bool \<times> bool) \<times> tenantCache \<times> etcd_counts" where
  "checkTenantLimit tenantLimit ec tenantID instanceType tenants =
     (if \<not> tenantLimit then ((False, False), tenants)
      else IncreaseTenantInstanceNum ec tenantID (instanceType = InstanceTypeReserved) tenants)"

definition add_pending :: "string \<Rightarrow> GenericInstancePool \<Rightarrow> GenericInstancePool" where
  "add_pending label gi = gi\<lparr>gi_pendingInstanceNum := fmupd label (pending_of label gi + 1) (gi_pendingInstanceNum gi)\<rparr>"

definition create_start ::
  "bool \<Rightarrow> bool \<Rightarrow> etcd_call \<Rightarrow> string \<Rightarrow> (nat \<Rightarrow> nat) \<Rightarrow> string \<Rightarrow> ResSpecKey \<Rightarrow> GenericInstancePool \<times> tenantCache \<times> etcd_counts \<Rightarrow>
   limit_check \<times> GenericInstancePool \<times> tenantCache \<times> etcd_counts" where
  "create_start checked tenantLimit ec tenantID num instanceType resKey st =
     (case st of (gi, tenants) \<Rightarrow>
        if \<not> checked then (Within, add_pending (rk_InvokeLabel resKey) gi, tenants)
        else case checkTenantLimit tenantLimit ec tenantID instanceType tenants of ((reachOnDemand, _), tenants') \<Rightarrow>
          if reachOnDemand then
            (LimitReached (SNError 150432 (''reach max instance number per tenant, limit '' @
               showInt (maxOnDemandInstance (GetTenantQuotaNum tenantID (fst tenants'))))), gi, tenants')
          else case checkScaleLimit num resKey gi of
            Within \<Rightarrow> (Within, add_pending (rk_InvokeLabel resKey) gi, tenants')
          | c \<Rightarrow> (c, gi, tenants'))"

definition create_finish :: "string \<Rightarrow> GenericInstancePool \<Rightarrow> GenericInstancePool" where
  "create_finish label gi =
     (case fmlookup (gi_pendingInstanceNum gi) label of
        None \<Rightarrow> gi
      | Some n \<Rightarrow>
          gi\<lparr>gi_pendingInstanceNum :=
            (if n - 1 = 0 then fmdrop label (gi_pendingInstanceNum gi) else fmupd label (n - 1) (gi_pendingInstanceNum gi))\<rparr>)"

text \<open>\<^verbatim>\<open>judgeExceedInstance\<close>: how many instances of which queue it scales down.\<close>

definition judgeExceedInstance :: "bool \<Rightarrow> (nat \<Rightarrow> nat) \<Rightarrow> ResSpecKey \<Rightarrow> GenericInstancePool \<Rightarrow> (nat \<times> int) option" where
  "judgeExceedInstance wiseCloud num resKey gi =
     (if wiseCloud then None
      else case (fmlookup (gi_insConfig gi) (insConfResKey resKey gi), fmlookup (gi_insConfig gi) (gi_defaultResKey gi)) of
        (Some confLabel, Some confGlobal) \<Rightarrow>
          (case getRunningInstanceNum num (insConfResKey resKey gi) gi of
             Inl _ \<Rightarrow> None
           | Inr (sumForCurrentLabel, sumForGlobal) \<Rightarrow>
               let exceedLabel = sumForCurrentLabel - ic_MaxInstance confLabel; exceedGlobal = sumForGlobal - ic_MaxInstance confGlobal
               in if exceedGlobal \<le> 0 \<and> exceedLabel \<le> 0 then None
                  else map_option (\<lambda>queue. (queue, max exceedLabel exceedGlobal)) (fmlookup (gi_scaledInstanceQueue gi) resKey))
      | _ \<Rightarrow> None)"

definition generateInstanceConfig :: "Configuration \<Rightarrow> Configuration" where
  "generateInstanceConfig insConf =
     (let c = (if ic_MinInstance insConf < 0 then insConf\<lparr>ic_MinInstance := 0\<rparr> else insConf)
      in if ic_MaxInstance c < 0 then c\<lparr>ic_MaxInstance := 1000\<rparr> else c)"

section \<open>Creations under way\<close>

text \<open>
  The pool with the labels of the creations that have been granted and have not ended. Queues and configurations change at any time, and
  the queues count what they have.
\<close>

inductive limit_step :: "GenericInstancePool \<times> string list \<Rightarrow> GenericInstancePool \<times> string list \<Rightarrow> bool" where
  start: "create_start checked tenantLimit ec tenantID num instanceType resKey (gi, tenants) = (res, gi', tenants') \<Longrightarrow>
    limit_step (gi, labels) (gi', if res = Within then rk_InvokeLabel resKey # labels else labels)"
| finish: "label \<in> set labels \<Longrightarrow> limit_step (gi, labels) (create_finish label gi, remove1 label labels)"
| change: "gi_pendingInstanceNum gi' = gi_pendingInstanceNum gi \<Longrightarrow> limit_step (gi, labels) (gi', labels)"

definition new_pool :: "ResSpecKey \<Rightarrow> GenericInstancePool" where
  "new_pool resKey =
     \<lparr>gi_defaultResKey = resKey, gi_insConfig = fmempty, gi_reservedInstanceQueue = fmempty, gi_scaledInstanceQueue = fmempty,
      gi_pendingInstanceNum = fmempty\<rparr>"








abbreviation limit_reach :: "GenericInstancePool \<times> string list \<Rightarrow> bool" where
  "limit_reach s \<equiv> \<exists>resKey. limit_step\<^sup>*\<^sup>* (new_pool resKey, []) s"



section \<open>Properties\<close>





text \<open>
  A surplus is scaled down exactly: nothing is scaled down while both limits hold, and the number that is leaves the
  instances within both, one of them met exactly.
\<close>

theorem surplus_scaled_down:
  assumes "fmlookup (gi_insConfig gi) (insConfResKey resKey gi) = Some confLabel" and "fmlookup (gi_insConfig gi) (gi_defaultResKey gi) = Some confGlobal"
    and "fmlookup (gi_scaledInstanceQueue gi) resKey = Some queue"
    and "getRunningInstanceNum num (insConfResKey resKey gi) gi = Inr (sumL, sumG)"
  shows "case judgeExceedInstance False num resKey gi of
      None \<Rightarrow> sumL \<le> ic_MaxInstance confLabel \<and> sumG \<le> ic_MaxInstance confGlobal
    | Some (q, n) \<Rightarrow> q = queue \<and> 0 < n \<and> sumL - n \<le> ic_MaxInstance confLabel \<and> sumG - n \<le> ic_MaxInstance confGlobal \<and>
        (sumL - n = ic_MaxInstance confLabel \<or> sumG - n = ic_MaxInstance confGlobal)"
  using assms by (auto simp: judgeExceedInstance_def Let_def)

section \<open>Witnesses\<close>

definition plain_key :: "string \<Rightarrow> ResSpecKey" where
  "plain_key label = \<lparr>rk_CPU = 1, rk_Memory = 1, rk_EphemeralStorage = 0, rk_CustomResources = [], rk_CustomResourcesSpec = [], rk_InvokeLabel = label\<rparr>"

definition pool_max :: "int \<Rightarrow> GenericInstancePool" where
  "pool_max n = (new_pool (plain_key []))\<lparr>gi_insConfig := fmupd (plain_key []) \<lparr>ic_MinInstance = 0, ic_MaxInstance = n\<rparr> fmempty,
     gi_scaledInstanceQueue := fmupd (plain_key []) 0 fmempty\<rparr>"

abbreviation (input) no_tenants :: "tenantCache \<times> etcd_counts" where
  "no_tenants \<equiv> (\<lparr>tenantQuotaList = fmempty, tenantInstanceList = fmempty,
     defaultQuota = \<lparr>maxOnDemandInstance = 5, maxReversedInstance = 5\<rparr>\<rparr>, fmempty)"

lemma pool_max_reach: "limit_reach (pool_max n, [])"
  by (intro exI r_into_rtranclp limit_step.change) (simp add: pool_max_def new_pool_def)



theorem surplus_scaled_down_witness: "judgeExceedInstance False (\<lambda>_. 5) (plain_key []) (pool_max 2) = Some (0, 3)"
proof -
  have k: "insConfResKey (plain_key []) (pool_max 2) = plain_key []" "gi_defaultResKey (pool_max 2) = plain_key []"
      "fmlookup (gi_insConfig (pool_max 2)) (plain_key []) = Some \<lparr>ic_MinInstance = 0, ic_MaxInstance = 2\<rparr>"
      "fmlookup (gi_scaledInstanceQueue (pool_max 2)) (plain_key []) = Some 0"
    by (simp_all add: insConfResKey_def pool_max_def new_pool_def plain_key_def)
  have r: "getRunningInstanceNum (\<lambda>_. 5) (plain_key []) (pool_max 2) = Inr (5, 5)" by code_simp
  from surplus_scaled_down [of "pool_max 2" "plain_key []", unfolded k, OF refl refl refl r] show ?thesis
    by (auto split: option.splits)
qed

section \<open>Where the limits do not hold\<close>

text \<open>
  A creation ends before the new instance is in its queue. In between it is counted nowhere: with a maximum of one, a second creation is granted, and the
  function has two instances.
\<close>

theorem made_instance_uncounted:
  "(let gi1 = fst (snd (create_start True False works ''t'' (\<lambda>_. 0) InstanceTypeScaled (plain_key []) (pool_max 1, no_tenants)));
        refused = fst (create_start True False works ''t'' (\<lambda>_. 0) InstanceTypeScaled (plain_key []) (gi1, no_tenants));
        gi2 = create_finish [] gi1
    in (refused, fst (create_start True False works ''t'' (\<lambda>_. 0) InstanceTypeScaled (plain_key []) (gi2, no_tenants)))) =
   (LimitReached (ReachMaxInstances 1), Within)"
  by code_simp

text \<open>
  The quota of the tenant is raised before the limits of the function are checked; a creation that these refuse stays counted. A function at its limit
  that keeps asking uses up the quota of its tenant.
\<close>

theorem refused_creation_stays_counted:
  "(let (res, gi, tenants) = create_start True True works ''t'' (\<lambda>_. 1) InstanceTypeScaled (plain_key []) (pool_max 1, no_tenants)
    in (res, OnDemandInsNum (counted ''t'' (snd tenants)))) = (LimitReached (ReachMaxInstances 1), 1)"
  by code_simp

text \<open>With a configuration for a label and none without, a creation for the label dereferences nil while it holds the lock of the pool.\<close>

theorem labelled_creation_panics:
  assumes "fmlookup (gi_insConfig gi) (insConfResKey resKey gi) = Some conf" and "fmlookup (gi_insConfig gi) (gi_defaultResKey gi) = None"
  shows "checkScaleLimit num resKey gi = NilConfig"
  using assms by (auto simp: checkScaleLimit_def getCurrentInstanceNum_def getRunningInstanceNum_def Let_def split: sum.splits)

end
