(* ===== verification/PoolQueues.thy ===== *)
theory PoolQueues
  imports PoolLimits
begin

text \<open>
  The queues of a pool (\<^verbatim>\<open>functionscaler/instancepool/instancepool.go\<close>): a reserved, a scaled and an on-demand queue per resource key, made when they are first
  needed, configured and destroyed with the configurations; how a request finds its queue.
  Shown: a request is refused only when every queue that could serve it has refused it, and is served by a queue of its
  label; a queue that is destroyed is not used any more, as long as labels do not have queues for several resources.
\<close>

section \<open>Queues\<close>

text \<open>The calls of queue methods, in order.\<close>

datatype queue_call = InsConfigUpdate nat Configuration | EnableScale nat | DestroyQueue nat

record QueuePool = GenericInstancePool +
  gi_onDemandInstanceQueue :: "(ResSpecKey, nat) gomap"
  gi_nextQueue :: nat
  gi_synced :: bool
  gi_calls :: "queue_call list"

definition call_pool_queue :: "queue_call list \<Rightarrow> QueuePool \<Rightarrow> QueuePool" where
  "call_pool_queue cs gi = gi\<lparr>gi_calls := gi_calls gi @ cs\<rparr>"

text \<open>\<^verbatim>\<open>createInstanceQueue\<close>; \<open>ok\<close> is whether the builder succeeds.\<close>

definition createInstanceQueue :: "bool \<Rightarrow> QueuePool \<Rightarrow> nat option \<times> QueuePool" where
  "createInstanceQueue ok gi = (if ok then (Some (gi_nextQueue gi), gi\<lparr>gi_nextQueue := Suc (gi_nextQueue gi)\<rparr>) else (None, gi))"

definition config_new :: "ResSpecKey \<Rightarrow> nat \<Rightarrow> QueuePool \<Rightarrow> QueuePool" where
  "config_new resKey queue gi =
     (case fmlookup (gi_insConfig gi) resKey of None \<Rightarrow> gi | Some c \<Rightarrow> call_pool_queue [InsConfigUpdate queue c] gi)"

definition acquireReservedInstanceQueue :: "bool \<Rightarrow> ResSpecKey \<Rightarrow> QueuePool \<Rightarrow> nat option \<times> QueuePool" where
  "acquireReservedInstanceQueue ok resKey gi =
     (case fmlookup (gi_reservedInstanceQueue gi) resKey of
        Some queue \<Rightarrow> (Some queue, gi)
      | None \<Rightarrow>
          (case createInstanceQueue ok gi of
             (None, gi1) \<Rightarrow> (None, gi1)
           | (Some queue, gi1) \<Rightarrow>
               (Some queue, config_new resKey queue (gi1\<lparr>gi_reservedInstanceQueue := fmupd resKey queue (gi_reservedInstanceQueue gi1)\<rparr>))))"

definition acquireScaleInstanceQueue :: "bool \<Rightarrow> ResSpecKey \<Rightarrow> QueuePool \<Rightarrow> nat option \<times> QueuePool" where
  "acquireScaleInstanceQueue ok resKey gi =
     (case fmlookup (gi_scaledInstanceQueue gi) resKey of
        Some queue \<Rightarrow> (Some queue, gi)
      | None \<Rightarrow>
          (case createInstanceQueue ok gi of
             (None, gi1) \<Rightarrow> (None, gi1)
           | (Some queue, gi1) \<Rightarrow>
               (Some queue, config_new resKey queue (gi1\<lparr>gi_scaledInstanceQueue := fmupd resKey queue (gi_scaledInstanceQueue gi1)\<rparr>))))"

definition acquireOnDemandInstanceQueue :: "bool \<Rightarrow> ResSpecKey \<Rightarrow> QueuePool \<Rightarrow> nat option \<times> QueuePool" where
  "acquireOnDemandInstanceQueue ok resKey gi =
     (case fmlookup (gi_onDemandInstanceQueue gi) resKey of
        Some queue \<Rightarrow> (Some queue, gi)
      | None \<Rightarrow>
          (case createInstanceQueue ok gi of
             (None, gi1) \<Rightarrow> (None, gi1)
           | (Some queue, gi1) \<Rightarrow> (Some queue, gi1\<lparr>gi_onDemandInstanceQueue := fmupd resKey queue (gi_onDemandInstanceQueue gi1)\<rparr>)))"

section \<open>Configurations\<close>

type_synonym queue_order = "(ResSpecKey, nat) gomap \<Rightarrow> ResSpecKey list"

definition handleInstanceConfigUpdate :: "bool \<Rightarrow> queue_order \<Rightarrow> Configuration \<Rightarrow> ResSpecKey \<Rightarrow> QueuePool \<Rightarrow> QueuePool" where
  "handleInstanceConfigUpdate ok ord insConfig resKey gi =
     (case acquireReservedInstanceQueue ok resKey gi of
        (queue, gi1) \<Rightarrow>
          let gi2 = (case queue of None \<Rightarrow> gi1 | Some q \<Rightarrow> call_pool_queue [InsConfigUpdate q insConfig, EnableScale q] gi1);
              told = filter (\<lambda>k. rk_InvokeLabel k = rk_InvokeLabel resKey) (ord (gi_scaledInstanceQueue gi2))
          in call_pool_queue (concat (map (\<lambda>k. case fmlookup (gi_scaledInstanceQueue gi2) k of
               None \<Rightarrow> [] | Some q \<Rightarrow> [InsConfigUpdate q insConfig, EnableScale q]) told)) gi2)"

text \<open>
  \<^verbatim>\<open>handleInstanceConfigDelete\<close>. The loop over the scaled queues destroys the queues of the label, and deletes the entry of \<open>resKey\<close> for each.
\<close>

definition delete_scaled :: "ResSpecKey \<Rightarrow> ResSpecKey \<Rightarrow> QueuePool \<Rightarrow> QueuePool" where
  "delete_scaled resKey res gi =
     (case fmlookup (gi_scaledInstanceQueue gi) res of
        None \<Rightarrow> gi
      | Some queue \<Rightarrow>
          if rk_InvokeLabel res \<noteq> DefaultInstanceLabel \<and> rk_InvokeLabel res = rk_InvokeLabel resKey
          then call_pool_queue [DestroyQueue queue] (gi\<lparr>gi_scaledInstanceQueue := fmdrop resKey (gi_scaledInstanceQueue gi)\<rparr>)
          else gi)"

definition delete_reserved :: "Configuration \<Rightarrow> ResSpecKey \<Rightarrow> QueuePool \<Rightarrow> QueuePool" where
  "delete_reserved insConfig resKey gi =
     (case fmlookup (gi_reservedInstanceQueue gi) resKey of
        None \<Rightarrow> gi
      | Some queue \<Rightarrow>
          if rk_InvokeLabel resKey \<noteq> DefaultInstanceLabel
          then call_pool_queue [DestroyQueue queue] (gi\<lparr>gi_reservedInstanceQueue := fmdrop resKey (gi_reservedInstanceQueue gi)\<rparr>)
          else call_pool_queue [InsConfigUpdate queue (insConfig\<lparr>ic_MinInstance := 0, ic_MaxInstance := 0\<rparr>), EnableScale queue] gi)"

definition handleInstanceConfigDelete :: "queue_order \<Rightarrow> Configuration \<Rightarrow> ResSpecKey \<Rightarrow> QueuePool \<Rightarrow> QueuePool" where
  "handleInstanceConfigDelete ord insConfig resKey gi =
     (let gi1 = delete_reserved insConfig resKey gi in fold (delete_scaled resKey) (ord (gi_scaledInstanceQueue gi1)) gi1)"

definition config_key :: "string \<Rightarrow> QueuePool \<Rightarrow> ResSpecKey" where
  "config_key label gi = (gi_defaultResKey gi)\<lparr>rk_InvokeLabel := label\<rparr>"

text \<open>
  \<^verbatim>\<open>HandleInstanceConfigEvent\<close> for an update and a deletion; \<^verbatim>\<open>judgeExceedInstance\<close> after an update changes no field of the pool.
\<close>

definition config_updated :: "bool \<Rightarrow> queue_order \<Rightarrow> string \<Rightarrow> Configuration \<Rightarrow> QueuePool \<Rightarrow> QueuePool" where
  "config_updated ok ord label insConfig gi =
     (let resKey = config_key label gi; c = generateInstanceConfig insConfig
      in handleInstanceConfigUpdate ok ord c resKey (gi\<lparr>gi_insConfig := fmupd resKey c (gi_insConfig gi)\<rparr>))"

definition config_deleted :: "queue_order \<Rightarrow> string \<Rightarrow> Configuration \<Rightarrow> QueuePool \<Rightarrow> QueuePool" where
  "config_deleted ord label insConfig gi =
     (let resKey = config_key label gi
      in handleInstanceConfigDelete ord insConfig resKey (gi\<lparr>gi_insConfig := fmdrop resKey (gi_insConfig gi)\<rparr>))"

text \<open>
  \<^verbatim>\<open>CleanOrphansInstanceQueue\<close>; \<^verbatim>\<open>Destroy\<close> of an on-demand queue does nothing.
\<close>

definition orphan_reserved :: "QueuePool \<Rightarrow> ResSpecKey \<Rightarrow> bool" where
  "orphan_reserved gi resKey \<longleftrightarrow> fmlookup (gi_insConfig gi) resKey = None \<and> rk_InvokeLabel resKey \<noteq> DefaultInstanceLabel"

definition orphan_scaled :: "QueuePool \<Rightarrow> ResSpecKey \<Rightarrow> bool" where
  "orphan_scaled gi key \<longleftrightarrow> fmlookup (gi_insConfig gi) (config_key (rk_InvokeLabel key) gi) = None"

definition CleanOrphansInstanceQueue :: "queue_order \<Rightarrow> QueuePool \<Rightarrow> QueuePool" where
  "CleanOrphansInstanceQueue ord gi =
     (let destroyed = List.map_filter (fmlookup (gi_reservedInstanceQueue gi)) (filter (orphan_reserved gi) (ord (gi_reservedInstanceQueue gi))) @
            List.map_filter (fmlookup (gi_scaledInstanceQueue gi)) (filter (orphan_scaled gi) (ord (gi_scaledInstanceQueue gi)))
      in call_pool_queue (map DestroyQueue destroyed)
           (gi\<lparr>gi_reservedInstanceQueue := fmfilter (\<lambda>k. \<not> orphan_reserved gi k) (gi_reservedInstanceQueue gi),
               gi_scaledInstanceQueue := fmfilter (\<lambda>k. \<not> orphan_scaled gi k) (gi_scaledInstanceQueue gi),
               gi_onDemandInstanceQueue := fmfilter (\<lambda>k. \<not> orphan_scaled gi k) (gi_onDemandInstanceQueue gi),
               gi_synced := True\<rparr>))"

text \<open>
  \<^verbatim>\<open>HandleFunctionUpdateEvent\<close>, first lock section: with another default resource the reserved queues are made anew for every configuration, and a scaled
  queue for the new default. \<open>same\<close> is whether the default resource
  specification is deeply equal to the old one, \<open>confs\<close> is the order in which the configurations are visited, with, for each, whether the queue could be made. The
  second section tells the queues of the new specification.
\<close>

definition renew_reserved ::
  "ResSpecKey \<times> bool \<Rightarrow> QueuePool \<times> (ResSpecKey, nat) gomap \<Rightarrow> QueuePool \<times> (ResSpecKey, nat) gomap" where
  "renew_reserved = (\<lambda>(resKey, ok) (gi, new).
     case fmlookup (gi_insConfig gi) resKey of
       None \<Rightarrow> (gi, new)
     | Some conf \<Rightarrow>
         let newResKey = config_key (rk_InvokeLabel resKey) gi
         in case createInstanceQueue ok gi of
              (None, gi1) \<Rightarrow> (gi1, new)
            | (Some queue, gi1) \<Rightarrow>
                (call_pool_queue ((case fmlookup (gi_reservedInstanceQueue gi1) resKey of None \<Rightarrow> [] | Some old \<Rightarrow> [DestroyQueue old]) @
                   [InsConfigUpdate queue conf, EnableScale queue]) gi1,
                 fmupd newResKey queue new))"

definition function_updated :: "bool \<Rightarrow> bool \<Rightarrow> (ResSpecKey \<times> bool) list \<Rightarrow> bool \<Rightarrow> ResSpecKey \<Rightarrow> QueuePool \<Rightarrow> QueuePool" where
  "function_updated same wiseCloud confs ok defaultResKey gi =
     (let gi1 = gi\<lparr>gi_defaultResKey := defaultResKey\<rparr>
      in if same \<or> wiseCloud then gi1
         else case fold renew_reserved confs (gi1, fmempty) of
           (gi2, new) \<Rightarrow>
             (case createInstanceQueue ok (gi2\<lparr>gi_reservedInstanceQueue := new\<rparr>) of
                (None, gi3) \<Rightarrow> gi3
              | (Some queue, gi3) \<Rightarrow> gi3\<lparr>gi_scaledInstanceQueue := fmupd defaultResKey queue (gi_scaledInstanceQueue gi3)\<rparr>))"

definition HandleFunctionDeleteEvent :: "queue_order \<Rightarrow> QueuePool \<Rightarrow> QueuePool" where
  "HandleFunctionDeleteEvent ord gi =
     call_pool_queue (map DestroyQueue (List.map_filter (fmlookup (gi_reservedInstanceQueue gi)) (ord (gi_reservedInstanceQueue gi)) @
       List.map_filter (fmlookup (gi_scaledInstanceQueue gi)) (ord (gi_scaledInstanceQueue gi)))) gi"

section \<open>Destroyed queues\<close>

text \<open>
  Queues are named once, and those in the maps have not been destroyed. A configuration is deleted for a label whose scaled queues are all for the
  resource of the configuration.
\<close>

definition destroyed :: "QueuePool \<Rightarrow> nat \<Rightarrow> bool" where
  "destroyed gi queue \<longleftrightarrow> DestroyQueue queue \<in> set (gi_calls gi)"

definition queues_live :: "(ResSpecKey, nat) gomap \<Rightarrow> (ResSpecKey, nat) gomap \<Rightarrow> nat \<Rightarrow> (nat \<Rightarrow> bool) \<Rightarrow> bool" where
  "queues_live res sca n gone \<longleftrightarrow>
     (\<forall>k q. fmlookup res k = Some q \<or> fmlookup sca k = Some q \<longrightarrow> q < n \<and> \<not> gone q) \<and>
     (\<forall>k k' q. fmlookup res k = Some q \<longrightarrow> fmlookup res k' = Some q \<longrightarrow> k = k') \<and>
     (\<forall>k k' q. fmlookup sca k = Some q \<longrightarrow> fmlookup sca k' = Some q \<longrightarrow> k = k') \<and>
     (\<forall>k k' q. fmlookup res k = Some q \<longrightarrow> fmlookup sca k' \<noteq> Some q) \<and>
     (\<forall>q. gone q \<longrightarrow> q < n)"

definition pool_live :: "QueuePool \<Rightarrow> bool" where
  "pool_live gi \<longleftrightarrow> queues_live (gi_reservedInstanceQueue gi) (gi_scaledInstanceQueue gi) (gi_nextQueue gi) (destroyed gi)"

definition label_uniform :: "string \<Rightarrow> QueuePool \<Rightarrow> bool" where
  "label_uniform label gi \<longleftrightarrow>
     (\<forall>k \<in> fmdom' (gi_scaledInstanceQueue gi). rk_InvokeLabel k = label \<longrightarrow> label \<noteq> DefaultInstanceLabel \<longrightarrow> k = config_key label gi)"

inductive pool_queue_step :: "QueuePool \<Rightarrow> QueuePool \<Rightarrow> bool" where
  reserved: "acquireReservedInstanceQueue ok resKey gi = (r, gi') \<Longrightarrow> pool_queue_step gi gi'"
| scaled: "acquireScaleInstanceQueue ok resKey gi = (r, gi') \<Longrightarrow> pool_queue_step gi gi'"
| on_demand: "acquireOnDemandInstanceQueue ok resKey gi = (r, gi') \<Longrightarrow> pool_queue_step gi gi'"
| config_update: "range_order ord \<Longrightarrow> pool_queue_step gi (config_updated ok ord label c gi)"
| config_delete: "range_order ord \<Longrightarrow> label_uniform label gi \<Longrightarrow> pool_queue_step gi (config_deleted ord label c gi)"
| clean: "range_order ord \<Longrightarrow> pool_queue_step gi (CleanOrphansInstanceQueue ord gi)"
| function_update: "pool_queue_step gi (function_updated same wiseCloud confs ok resKey gi)"

lemma destroyed_call [simp]: "destroyed (call_pool_queue cs gi) q \<longleftrightarrow> destroyed gi q \<or> DestroyQueue q \<in> set cs"
  by (auto simp: destroyed_def call_pool_queue_def)

lemma call_pool_queue_sel [simp]:
  "gi_reservedInstanceQueue (call_pool_queue cs gi) = gi_reservedInstanceQueue gi" "gi_scaledInstanceQueue (call_pool_queue cs gi) = gi_scaledInstanceQueue gi"
  "gi_nextQueue (call_pool_queue cs gi) = gi_nextQueue gi" "gi_insConfig (call_pool_queue cs gi) = gi_insConfig gi"
  "gi_defaultResKey (call_pool_queue cs gi) = gi_defaultResKey gi"
  by (simp_all add: call_pool_queue_def)

lemma destroyed_upd [simp]:
  "destroyed (gi\<lparr>gi_reservedInstanceQueue := m\<rparr>) = destroyed gi" "destroyed (gi\<lparr>gi_scaledInstanceQueue := m\<rparr>) = destroyed gi"
  "destroyed (gi\<lparr>gi_insConfig := c\<rparr>) = destroyed gi" "destroyed (gi\<lparr>gi_nextQueue := n\<rparr>) = destroyed gi"
  "destroyed (gi\<lparr>gi_defaultResKey := d\<rparr>) = destroyed gi" "destroyed (gi\<lparr>gi_onDemandInstanceQueue := m\<rparr>) = destroyed gi"
  "destroyed (gi\<lparr>gi_synced := b\<rparr>) = destroyed gi"
  by (simp_all add: destroyed_def fun_eq_iff)

lemma config_new_sel [simp]:
  "gi_reservedInstanceQueue (config_new k q gi) = gi_reservedInstanceQueue gi" "gi_scaledInstanceQueue (config_new k q gi) = gi_scaledInstanceQueue gi"
  "gi_nextQueue (config_new k q gi) = gi_nextQueue gi" "destroyed (config_new k q gi) = destroyed gi"
  by (auto simp: config_new_def fun_eq_iff split: option.split)

text \<open>A new queue is put under a key, a queue is taken out and destroyed.\<close>

lemma live_new:
  assumes "queues_live res sca n gone"
  shows "queues_live (fmupd k n res) sca (Suc n) gone" "queues_live res (fmupd k n sca) (Suc n) gone" "queues_live res sca (Suc n) gone"
  using assms unfolding queues_live_def by (auto simp: less_SucI dest: less_SucI)

lemma live_destroy:
  assumes "queues_live res sca n gone"
  shows "fmlookup res k = Some q \<Longrightarrow> queues_live (fmdrop k res) sca n (\<lambda>x. gone x \<or> x = q)"
    "fmlookup sca k = Some q \<Longrightarrow> queues_live res (fmdrop k sca) n (\<lambda>x. gone x \<or> x = q)"
  using assms unfolding queues_live_def by (auto split: if_splits)

lemma live_reserved: "acquireReservedInstanceQueue ok resKey gi = (r, gi') \<Longrightarrow> pool_live gi \<Longrightarrow> pool_live gi'"
  by (auto simp: acquireReservedInstanceQueue_def createInstanceQueue_def pool_live_def live_new split: option.splits if_splits)

lemma live_scaled: "acquireScaleInstanceQueue ok resKey gi = (r, gi') \<Longrightarrow> pool_live gi \<Longrightarrow> pool_live gi'"
  by (auto simp: acquireScaleInstanceQueue_def createInstanceQueue_def pool_live_def live_new split: option.splits if_splits)

lemma live_on_demand: "acquireOnDemandInstanceQueue ok resKey gi = (r, gi') \<Longrightarrow> pool_live gi \<Longrightarrow> pool_live gi'"
  by (auto simp: acquireOnDemandInstanceQueue_def createInstanceQueue_def pool_live_def live_new split: option.splits if_splits)

text \<open>Calls that destroy nothing.\<close>

lemma live_calls: "pool_live gi \<Longrightarrow> (\<And>q. DestroyQueue q \<notin> set cs) \<Longrightarrow> pool_live (call_pool_queue cs gi)"
proof -
  assume "pool_live gi" and "\<And>q. DestroyQueue q \<notin> set cs"
  moreover from this(2) have "destroyed (call_pool_queue cs gi) = destroyed gi" by (simp add: fun_eq_iff)
  ultimately show ?thesis by (simp add: pool_live_def)
qed

lemma live_config [simp]: "pool_live (gi\<lparr>gi_insConfig := c\<rparr>) = pool_live gi"
  by (simp add: pool_live_def)

lemma live_config_update: "pool_live gi \<Longrightarrow> pool_live (config_updated ok ord label c gi)"
proof -
  assume live: "pool_live gi"
  have "pool_live (handleInstanceConfigUpdate ok ord c' resKey gi')" if "pool_live gi'" for c' resKey gi'
  proof -
    obtain q gi1 where a: "acquireReservedInstanceQueue ok resKey gi' = (q, gi1)" by fastforce
    have "pool_live gi1" by (rule live_reserved [OF a that])
    then show ?thesis using a
      by (auto simp: handleInstanceConfigUpdate_def Let_def intro!: live_calls split: option.splits)
  qed
  then show ?thesis using live by (simp add: config_updated_def Let_def)
qed

lemma live_destroy_pool:
  assumes "pool_live gi"
  shows "fmlookup (gi_reservedInstanceQueue gi) k = Some q \<Longrightarrow>
      pool_live (call_pool_queue [DestroyQueue q] (gi\<lparr>gi_reservedInstanceQueue := fmdrop k (gi_reservedInstanceQueue gi)\<rparr>))"
    and "fmlookup (gi_scaledInstanceQueue gi) k = Some q \<Longrightarrow>
      pool_live (call_pool_queue [DestroyQueue q] (gi\<lparr>gi_scaledInstanceQueue := fmdrop k (gi_scaledInstanceQueue gi)\<rparr>))"
proof -
  have "destroyed (call_pool_queue [DestroyQueue q] gi') = (\<lambda>x. destroyed gi' x \<or> x = q)" for gi' by (auto simp: fun_eq_iff)
  then show "fmlookup (gi_reservedInstanceQueue gi) k = Some q \<Longrightarrow>
      pool_live (call_pool_queue [DestroyQueue q] (gi\<lparr>gi_reservedInstanceQueue := fmdrop k (gi_reservedInstanceQueue gi)\<rparr>))"
    and "fmlookup (gi_scaledInstanceQueue gi) k = Some q \<Longrightarrow>
      pool_live (call_pool_queue [DestroyQueue q] (gi\<lparr>gi_scaledInstanceQueue := fmdrop k (gi_scaledInstanceQueue gi)\<rparr>))"
    using assms live_destroy by (simp_all add: pool_live_def)
qed

lemma live_delete_reserved:
  "pool_live gi \<Longrightarrow> pool_live (delete_reserved c resKey gi) \<and> gi_scaledInstanceQueue (delete_reserved c resKey gi) = gi_scaledInstanceQueue gi"
  by (auto simp: delete_reserved_def live_destroy_pool live_calls split: option.splits)

lemma live_delete_scaled:
  assumes "pool_live gi"
    and "\<And>k. k \<in> fmdom' (gi_scaledInstanceQueue gi) \<Longrightarrow> rk_InvokeLabel k = rk_InvokeLabel resKey \<Longrightarrow> rk_InvokeLabel resKey \<noteq> DefaultInstanceLabel \<Longrightarrow> k = resKey"
  shows "pool_live (fold (delete_scaled resKey) ks gi)"
  using assms
proof (induction ks arbitrary: gi)
  case (Cons k ks)
  have "pool_live (delete_scaled resKey k gi) \<and> fmdom' (gi_scaledInstanceQueue (delete_scaled resKey k gi)) \<subseteq> fmdom' (gi_scaledInstanceQueue gi)"
  proof (cases "fmlookup (gi_scaledInstanceQueue gi) k")
    case (Some q)
    have "k = resKey" if "rk_InvokeLabel k = rk_InvokeLabel resKey" "rk_InvokeLabel k \<noteq> DefaultInstanceLabel"
      using Cons.prems(2) [OF fmdom'I [OF Some]] that by simp
    then show ?thesis using Some Cons.prems(1) live_destroy_pool(2) [OF Cons.prems(1) Some] by (auto simp: delete_scaled_def)
  qed (use Cons.prems(1) in \<open>simp add: delete_scaled_def\<close>)
  then show ?case using Cons.IH [of "delete_scaled resKey k gi"] Cons.prems(2) by auto
qed simp

lemma live_config_delete:
  assumes "pool_live gi" and "label_uniform label gi"
  shows "pool_live (config_deleted ord label c gi)"
proof -
  let ?k = "config_key label gi"
  let ?g = "delete_reserved c ?k (gi\<lparr>gi_insConfig := fmdrop ?k (gi_insConfig gi)\<rparr>)"
  have g: "pool_live ?g" "gi_scaledInstanceQueue ?g = gi_scaledInstanceQueue gi" using live_delete_reserved assms(1) by simp_all
  have "rk_InvokeLabel ?k = label" by (simp add: config_key_def)
  then have "pool_live (fold (delete_scaled ?k) ks ?g)" for ks
    using live_delete_scaled [OF g(1), of ?k ks] g(2) assms(2) unfolding label_uniform_def by auto
  then show ?thesis by (simp add: config_deleted_def handleInstanceConfigDelete_def Let_def)
qed

lemma live_clean:
  assumes ord: "range_order ord" and live: "pool_live gi"
  shows "pool_live (CleanOrphansInstanceQueue ord gi)"
proof -
  let ?r = "gi_reservedInstanceQueue gi" and ?s = "gi_scaledInstanceQueue gi" and ?g = "CleanOrphansInstanceQueue ord gi"
  have in_filter: "x \<in> set (List.map_filter (fmlookup m) (filter P (ord m))) \<longleftrightarrow> (\<exists>k. P k \<and> fmlookup m k = Some x)" for P m x
    using ord by (auto simp: List.map_filter_def range_orderD fmdom'I image_iff) (metis fmdom'I option.sel)
  have gone: "destroyed ?g x \<longleftrightarrow> destroyed gi x \<or> (\<exists>k. orphan_reserved gi k \<and> fmlookup ?r k = Some x) \<or> (\<exists>k. orphan_scaled gi k \<and> fmlookup ?s k = Some x)" for x
    unfolding CleanOrphansInstanceQueue_def Let_def destroyed_call
    by (simp add: destroyed_def image_iff) (use in_filter in blast)
  have sel: "gi_reservedInstanceQueue ?g = fmfilter (\<lambda>k. \<not> orphan_reserved gi k) ?r" "gi_scaledInstanceQueue ?g = fmfilter (\<lambda>k. \<not> orphan_scaled gi k) ?s"
    "gi_nextQueue ?g = gi_nextQueue gi" by (simp_all add: CleanOrphansInstanceQueue_def Let_def)
  show ?thesis using live unfolding pool_live_def queues_live_def sel gone fmlookup_filter by (auto split: if_splits) metis+
qed

text \<open>While the reserved queues are made anew, the new ones are above every old one, and only old reserved ones are destroyed.\<close>

definition renewing :: "QueuePool \<Rightarrow> QueuePool \<times> (ResSpecKey, nat) gomap \<Rightarrow> bool" where
  "renewing gi0 = (\<lambda>(gi, new).
     gi_reservedInstanceQueue gi = gi_reservedInstanceQueue gi0 \<and> gi_scaledInstanceQueue gi = gi_scaledInstanceQueue gi0 \<and>
     gi_nextQueue gi0 \<le> gi_nextQueue gi \<and>
     (\<forall>k q. fmlookup new k = Some q \<longrightarrow> gi_nextQueue gi0 \<le> q \<and> q < gi_nextQueue gi) \<and>
     (\<forall>k k' q. fmlookup new k = Some q \<longrightarrow> fmlookup new k' = Some q \<longrightarrow> k = k') \<and>
     (\<forall>q. destroyed gi q \<longrightarrow> destroyed gi0 q \<or> (\<exists>k. fmlookup (gi_reservedInstanceQueue gi0) k = Some q)))"

lemma renewing_step: "renewing gi0 s \<Longrightarrow> renewing gi0 (renew_reserved p s)"
proof (cases s, cases p)
  fix gi new resKey ok
  assume r: "renewing gi0 s" and sp: "s = (gi, new)" "p = (resKey, ok)"
  show ?thesis
  proof (cases "ok \<and> fmlookup (gi_insConfig gi) resKey \<noteq> None")
    case True
    then obtain conf where c: "fmlookup (gi_insConfig gi) resKey = Some conf" by auto
    have new: "fmlookup new k \<noteq> Some (gi_nextQueue gi)" for k using r sp by (auto simp: renewing_def)
    show ?thesis using r True c new unfolding sp renewing_def renew_reserved_def
      by (auto simp: createInstanceQueue_def Let_def less_SucI le_SucI split: option.splits if_splits)
  qed (use r sp in \<open>auto simp: renew_reserved_def createInstanceQueue_def Let_def split: option.splits\<close>)
qed

lemma renewing_fold: "renewing gi0 s \<Longrightarrow> renewing gi0 (fold renew_reserved confs s)"
  by (induction confs arbitrary: s) (auto simp: renewing_step)

lemma live_function_update:
  assumes live: "pool_live gi"
  shows "pool_live (function_updated same wiseCloud confs ok resKey gi)"
proof -
  let ?g1 = "gi\<lparr>gi_defaultResKey := resKey\<rparr>"
  obtain gi2 new where f: "fold renew_reserved confs (?g1, fmempty) = (gi2, new)" by fastforce
  have "renewing ?g1 (?g1, fmempty)" by (simp add: renewing_def)
  from renewing_fold [OF this, of confs] f have r: "renewing ?g1 (gi2, new)" by simp
  have l1: "pool_live ?g1" using live by (simp add: pool_live_def)
  have old: "q < gi_nextQueue gi" if "destroyed gi2 q" for q
    using that r l1 unfolding renewing_def pool_live_def queues_live_def by auto
  have kept: "\<not> destroyed gi2 q" if "fmlookup (gi_scaledInstanceQueue gi) k = Some q" for k q
    using that r l1 unfolding renewing_def pool_live_def queues_live_def by auto
  have "queues_live new (gi_scaledInstanceQueue gi2) (gi_nextQueue gi2) (destroyed gi2)"
    unfolding queues_live_def
  proof (intro conjI allI impI)
    fix k q
    assume in_map: "fmlookup new k = Some q \<or> fmlookup (gi_scaledInstanceQueue gi2) k = Some q"
    then show "q < gi_nextQueue gi2"
      using r l1 unfolding renewing_def pool_live_def queues_live_def by (auto dest: order.strict_trans2)
    show "\<not> destroyed gi2 q"
    proof (cases "fmlookup new k = Some q")
      case True
      then have "gi_nextQueue gi \<le> q" using r by (auto simp: renewing_def)
      then show ?thesis using old [of q] by linarith
    qed (use in_map kept [of k q] r in \<open>auto simp: renewing_def\<close>)
  next
    fix k k' q
    assume "fmlookup new k = Some q"
    then have "gi_nextQueue gi \<le> q" using r by (auto simp: renewing_def)
    moreover have "q < gi_nextQueue gi" if "fmlookup (gi_scaledInstanceQueue gi2) k' = Some q"
      using that r l1 unfolding renewing_def pool_live_def queues_live_def by auto
    ultimately show "fmlookup (gi_scaledInstanceQueue gi2) k' \<noteq> Some q" by fastforce
  next
    fix k k' q
    assume "fmlookup (gi_scaledInstanceQueue gi2) k = Some q" "fmlookup (gi_scaledInstanceQueue gi2) k' = Some q"
    then show "k = k'" using r l1 unfolding renewing_def pool_live_def queues_live_def by auto
  qed (use r old in \<open>auto simp: renewing_def dest: order.strict_trans2\<close>)
  then show ?thesis using f l1
    by (auto simp: function_updated_def createInstanceQueue_def pool_live_def live_new Let_def split: option.splits)
qed

lemma live_step: "pool_queue_step gi gi' \<Longrightarrow> pool_live gi \<Longrightarrow> pool_live gi'"
  by (induction rule: pool_queue_step.induct)
    (auto intro: live_reserved live_scaled live_on_demand live_config_update live_config_delete live_clean live_function_update)

definition new_queue_pool :: "ResSpecKey \<Rightarrow> QueuePool" where
  "new_queue_pool resKey =
     \<lparr>gi_defaultResKey = resKey, gi_insConfig = fmempty, gi_reservedInstanceQueue = fmupd resKey 0 fmempty,
      gi_scaledInstanceQueue = fmupd resKey 1 fmempty, gi_pendingInstanceNum = fmempty,
      gi_onDemandInstanceQueue = fmupd resKey 2 fmempty, gi_nextQueue = 3, gi_synced = False, gi_calls = []\<rparr>"

text \<open>
  A queue that was destroyed is in neither map of the pool and is therefore given to no request and no event, and a queue serves one
  resource key, as long as configurations are deleted only for labels that have scaled queues of one resource.
\<close>

theorem destroyed_queue_unused:
  assumes "pool_queue_step\<^sup>*\<^sup>* (new_queue_pool resKey) gi"
  shows "(\<forall>k q. fmlookup (gi_reservedInstanceQueue gi) k = Some q \<or> fmlookup (gi_scaledInstanceQueue gi) k = Some q \<longrightarrow> \<not> destroyed gi q) \<and>
    (\<forall>k k' q. fmlookup (gi_scaledInstanceQueue gi) k = Some q \<longrightarrow> fmlookup (gi_scaledInstanceQueue gi) k' = Some q \<longrightarrow> k = k')"
proof -
  have "pool_live (new_queue_pool resKey)" by (auto simp: pool_live_def queues_live_def new_queue_pool_def destroyed_def split: if_splits)
  with assms have "pool_live gi" by (induction rule: rtranclp_induct) (blast intro: live_step)+
  then show ?thesis unfolding pool_live_def queues_live_def by blast
qed

section \<open>Finding a queue for a request\<close>

record PoolRequest =
  pa_StateID :: string
  pa_resEmpty :: bool
  pa_resKey :: ResSpecKey
  pa_InstanceName :: string
  pa_TrafficLimited :: bool

datatype queue_ref = OnDemandQ nat | ReservedQ nat | ScaledQ nat

abbreviation (input) NoInstanceAvailableErrCode :: int where "NoInstanceAvailableErrCode \<equiv> 150431"
abbreviation (input) InstanceNotFoundErrCode :: int where "InstanceNotFoundErrCode \<equiv> 150425"
abbreviation (input) QueueError :: go_error where "QueueError \<equiv> SNError 150500 ''instance queue''"

fun error_code :: "go_error \<Rightarrow> int" where
  "error_code (SNError code _) = code"
| "error_code (GoError _) = 0"

text \<open>
  \<open>acq\<close> is what a queue answers to this request, which it is asked at most once; the flag says whether it may wait for a cold start. \<open>num\<close> is
  the number of instances of a queue. \<^verbatim>\<open>QueueError\<close> stands for the error of the builder.
\<close>

definition backup_queues :: "queue_order \<Rightarrow> (nat \<Rightarrow> nat) \<Rightarrow> ResSpecKey \<Rightarrow> QueuePool \<Rightarrow> queue_ref list" where
  "backup_queues ord num resKey gi =
     (let usable = (\<lambda>m k. case fmlookup m k of None \<Rightarrow> None
                     | Some q \<Rightarrow> if resKey \<noteq> k \<and> rk_InvokeLabel resKey = rk_InvokeLabel k \<and> 0 < num q then Some q else None)
      in map ReservedQ (List.map_filter (usable (gi_reservedInstanceQueue gi)) (ord (gi_reservedInstanceQueue gi))) @
         map ScaledQ (List.map_filter (usable (gi_scaledInstanceQueue gi)) (ord (gi_scaledInstanceQueue gi))))"

fun try_backups :: "(queue_ref \<Rightarrow> bool \<Rightarrow> go_error + 'a) \<Rightarrow> go_error \<Rightarrow> queue_ref list \<Rightarrow> go_error + 'a" where
  "try_backups acq err [] = Inl err"
| "try_backups acq err (q # qs) = (case acq q True of Inr a \<Rightarrow> Inr a | Inl err' \<Rightarrow> try_backups acq err' qs)"

definition acquireInstanceFromScaleQueueWithBackup ::
  "bool \<Rightarrow> queue_order \<Rightarrow> (nat \<Rightarrow> nat) \<Rightarrow> (queue_ref \<Rightarrow> bool \<Rightarrow> go_error + 'a) \<Rightarrow> ResSpecKey \<Rightarrow> QueuePool \<Rightarrow> (go_error + 'a) \<times> QueuePool" where
  "acquireInstanceFromScaleQueueWithBackup ok ord num acq resKey gi =
     (let backupQueue = backup_queues ord num resKey gi; skip = (backupQueue \<noteq> [])
      in case acquireScaleInstanceQueue ok resKey gi of
           (None, gi1) \<Rightarrow> (Inl QueueError, gi1)
         | (Some queue, gi1) \<Rightarrow>
             (case acq (ScaledQ queue) skip of
                Inr a \<Rightarrow> (Inr a, gi1)
              | Inl err \<Rightarrow> (try_backups acq err backupQueue, gi1)))"

text \<open>
  \<^verbatim>\<open>AcquireInstance\<close>; \<open>deleted\<close>: the context of the function is done, \<open>stateful\<close>: what the state route answers, if the function has states.
  The session of a request is dealt with before and after, by the operations of \<^verbatim>\<open>PoolSessions\<close>.
\<close>

definition pool_AcquireInstance ::
  "bool \<Rightarrow> (go_error + 'a) option \<Rightarrow> bool \<Rightarrow> queue_order \<Rightarrow> (nat \<Rightarrow> nat) \<Rightarrow> (queue_ref \<Rightarrow> bool \<Rightarrow> go_error + 'a) \<Rightarrow> PoolRequest \<Rightarrow> QueuePool \<Rightarrow>
   (go_error + 'a) \<times> QueuePool" where
  "pool_AcquireInstance deleted stateful ok ord num acq req gi =
     (if deleted then (Inl (SNError 150424 ''function metadata not found''), gi)
      else if pa_StateID req \<noteq> [] then
        (case stateful of
           None \<Rightarrow> (Inl (SNError 4006 ''invoke state id and function stateful flag are not matched''), gi)
         | Some answer \<Rightarrow> (answer, gi))
      else if pa_resEmpty req then (Inl (SNError 330404 ''internal system error''), gi)
      else if rk_InvokeLabel (pa_resKey req) \<noteq> DefaultInstanceLabel \<and> fmlookup (gi_insConfig gi) (pa_resKey req) = None
      then (Inl (SNError 150444 ''instance label not found''), gi)
      else if pa_InstanceName req \<noteq> [] then
        (case acquireOnDemandInstanceQueue ok (pa_resKey req) gi of
           (None, gi1) \<Rightarrow> (Inl QueueError, gi1)
         | (Some q, gi1) \<Rightarrow> (acq (OnDemandQ q) False, gi1))
      else if pa_TrafficLimited req then acquireInstanceFromScaleQueueWithBackup ok ord num acq (pa_resKey req) gi
      else
        (case acquireReservedInstanceQueue ok (pa_resKey req) gi of
           (None, gi1) \<Rightarrow> (Inl QueueError, gi1)
         | (Some q, gi1) \<Rightarrow>
             (case acq (ReservedQ q) False of
                Inr a \<Rightarrow> (Inr a, gi1)
              | Inl err \<Rightarrow>
                  if error_code err \<noteq> NoInstanceAvailableErrCode \<and> error_code err \<noteq> InstanceNotFoundErrCode then (Inl err, gi1)
                  else acquireInstanceFromScaleQueueWithBackup ok ord num acq (pa_resKey req) gi1)))"

text \<open>The queues that may serve a resource key.\<close>

definition serves_key :: "QueuePool \<Rightarrow> ResSpecKey \<Rightarrow> queue_ref \<Rightarrow> bool" where
  "serves_key gi resKey q =
     (case q of
        OnDemandQ x \<Rightarrow> fmlookup (gi_onDemandInstanceQueue gi) resKey = Some x
      | ReservedQ x \<Rightarrow> \<exists>k. fmlookup (gi_reservedInstanceQueue gi) k = Some x \<and> rk_InvokeLabel k = rk_InvokeLabel resKey
      | ScaledQ x \<Rightarrow> \<exists>k. fmlookup (gi_scaledInstanceQueue gi) k = Some x \<and> rk_InvokeLabel k = rk_InvokeLabel resKey)"

lemma try_backups_Inr: "try_backups acq err qs = Inr a \<Longrightarrow> \<exists>q \<in> set qs. acq q True = Inr a"
  by (induction qs arbitrary: err) (auto split: sum.splits)

lemma try_backups_Inl: "try_backups acq err qs = Inl e \<Longrightarrow> q \<in> set qs \<Longrightarrow> isl (acq q True)"
  by (induction qs arbitrary: err) (auto split: sum.splits)

lemma backup_in:
  assumes "range_order ord"
  shows "ReservedQ x \<in> set (backup_queues ord num resKey gi) \<longleftrightarrow>
      (\<exists>k. fmlookup (gi_reservedInstanceQueue gi) k = Some x \<and> k \<noteq> resKey \<and> rk_InvokeLabel k = rk_InvokeLabel resKey \<and> 0 < num x)"
    and "ScaledQ x \<in> set (backup_queues ord num resKey gi) \<longleftrightarrow>
      (\<exists>k. fmlookup (gi_scaledInstanceQueue gi) k = Some x \<and> k \<noteq> resKey \<and> rk_InvokeLabel k = rk_InvokeLabel resKey \<and> 0 < num x)"
    and "OnDemandQ x \<notin> set (backup_queues ord num resKey gi)"
proof -
  have key: "x \<in> set (List.map_filter (\<lambda>k. case fmlookup m k of None \<Rightarrow> None
        | Some q \<Rightarrow> if resKey \<noteq> k \<and> rk_InvokeLabel resKey = rk_InvokeLabel k \<and> 0 < num q then Some q else None) (ord m)) \<longleftrightarrow>
      (\<exists>k. fmlookup m k = Some x \<and> k \<noteq> resKey \<and> rk_InvokeLabel k = rk_InvokeLabel resKey \<and> 0 < num x)" for m x
    using range_orderD(2) [OF assms, of m] by (force simp: List.map_filter_def fmlookup_dom'_iff image_iff split: option.splits if_splits)
  show "ReservedQ x \<in> set (backup_queues ord num resKey gi) \<longleftrightarrow>
      (\<exists>k. fmlookup (gi_reservedInstanceQueue gi) k = Some x \<and> k \<noteq> resKey \<and> rk_InvokeLabel k = rk_InvokeLabel resKey \<and> 0 < num x)"
    and "ScaledQ x \<in> set (backup_queues ord num resKey gi) \<longleftrightarrow>
      (\<exists>k. fmlookup (gi_scaledInstanceQueue gi) k = Some x \<and> k \<noteq> resKey \<and> rk_InvokeLabel k = rk_InvokeLabel resKey \<and> 0 < num x)"
    and "OnDemandQ x \<notin> set (backup_queues ord num resKey gi)"
    unfolding backup_queues_def Let_def set_append set_map image_Un Un_iff using key by auto
qed

lemma acquire_queue_keeps:
  "acquireReservedInstanceQueue ok resKey gi = (Some q, gi') \<Longrightarrow>
     fmlookup (gi_reservedInstanceQueue gi') resKey = Some q \<and> gi_scaledInstanceQueue gi' = gi_scaledInstanceQueue gi \<and>
     (\<forall>k. k \<noteq> resKey \<longrightarrow> fmlookup (gi_reservedInstanceQueue gi') k = fmlookup (gi_reservedInstanceQueue gi) k)"
  "acquireScaleInstanceQueue ok resKey gi = (Some q, gi') \<Longrightarrow>
     fmlookup (gi_scaledInstanceQueue gi') resKey = Some q \<and> gi_reservedInstanceQueue gi' = gi_reservedInstanceQueue gi \<and>
     (\<forall>k. k \<noteq> resKey \<longrightarrow> fmlookup (gi_scaledInstanceQueue gi') k = fmlookup (gi_scaledInstanceQueue gi) k)"
  by (auto simp: acquireReservedInstanceQueue_def acquireScaleInstanceQueue_def createInstanceQueue_def split: option.splits if_splits)

lemma acquire_queue_made:
  "\<exists>q gi'. acquireReservedInstanceQueue True resKey gi = (Some q, gi')" "\<exists>q gi'. acquireScaleInstanceQueue True resKey gi = (Some q, gi')"
  by (auto simp: acquireReservedInstanceQueue_def acquireScaleInstanceQueue_def createInstanceQueue_def split: option.splits)

text \<open>The queues with instances that a request for a resource key falls back on.\<close>

definition fallback_queue :: "(nat \<Rightarrow> nat) \<Rightarrow> ResSpecKey \<Rightarrow> QueuePool \<Rightarrow> queue_ref \<Rightarrow> bool" where
  "fallback_queue num resKey gi q \<longleftrightarrow>
     (case q of
        OnDemandQ x \<Rightarrow> False
      | ReservedQ x \<Rightarrow> \<exists>k. fmlookup (gi_reservedInstanceQueue gi) k = Some x \<and> k \<noteq> resKey \<and> rk_InvokeLabel k = rk_InvokeLabel resKey \<and> 0 < num x
      | ScaledQ x \<Rightarrow> \<exists>k. fmlookup (gi_scaledInstanceQueue gi) k = Some x \<and> k \<noteq> resKey \<and> rk_InvokeLabel k = rk_InvokeLabel resKey \<and> 0 < num x)"

lemma backup_iff: "range_order ord \<Longrightarrow> q \<in> set (backup_queues ord num resKey gi) \<longleftrightarrow> fallback_queue num resKey gi q"
  by (cases q) (simp_all add: fallback_queue_def backup_in)

lemma with_backup_served:
  assumes "range_order ord" and "acquireInstanceFromScaleQueueWithBackup ok ord num acq resKey gi = (Inr a, gi')"
  shows "\<exists>q skip. serves_key gi' resKey q \<and> acq q skip = Inr a"
proof -
  obtain x where x: "acquireScaleInstanceQueue ok resKey gi = (Some x, gi')"
    using assms(2) by (auto simp: acquireInstanceFromScaleQueueWithBackup_def Let_def split: prod.splits option.splits sum.splits)
  note keeps = acquire_queue_keeps(2) [OF x]
  consider skip where "acq (ScaledQ x) skip = Inr a" | e where "try_backups acq e (backup_queues ord num resKey gi) = Inr a"
    using assms(2) x by (auto simp: acquireInstanceFromScaleQueueWithBackup_def Let_def split: sum.splits)
  then show ?thesis
  proof cases
    case 1
    then show ?thesis using keeps unfolding serves_key_def by (intro exI [of _ "ScaledQ x"]) auto
  next
    case 2
    from try_backups_Inr [OF this] obtain q where q: "fallback_queue num resKey gi q" "acq q True = Inr a"
      using backup_iff [OF assms(1)] by blast
    have "serves_key gi' resKey q" using q(1) keeps unfolding fallback_queue_def serves_key_def by (cases q) force+
    with q(2) show ?thesis by blast
  qed
qed

lemma with_backup_refused:
  assumes "range_order ord" and "acquireInstanceFromScaleQueueWithBackup True ord num acq resKey gi = (Inl e, gi')"
  shows "(\<exists>x skip. fmlookup (gi_scaledInstanceQueue gi') resKey = Some x \<and> isl (acq (ScaledQ x) skip)) \<and>
    (\<forall>q. fallback_queue num resKey gi q \<longrightarrow> isl (acq q True))"
proof -
  obtain x gi1 where x: "acquireScaleInstanceQueue True resKey gi = (Some x, gi1)" using acquire_queue_made(2) by blast
  then obtain err where err: "acq (ScaledQ x) (backup_queues ord num resKey gi \<noteq> []) = Inl err" "gi1 = gi'"
    "try_backups acq err (backup_queues ord num resKey gi) = Inl e"
    using assms(2) by (auto simp: acquireInstanceFromScaleQueueWithBackup_def Let_def split: sum.splits)
  have "isl (acq q True)" if "fallback_queue num resKey gi q" for q
    using try_backups_Inl [OF err(3), of q] backup_iff [OF assms(1)] that by blast
  moreover have "isl (acq (ScaledQ x) (backup_queues ord num resKey gi \<noteq> []))" using err(1) by simp
  ultimately show ?thesis using acquire_queue_keeps(2) [OF x] err(2) by blast
qed

text \<open>What is known of an answer of the scaled queue and its fallbacks.\<close>

definition exhausted :: "(nat \<Rightarrow> nat) \<Rightarrow> (queue_ref \<Rightarrow> bool \<Rightarrow> go_error + 'a) \<Rightarrow> ResSpecKey \<Rightarrow> QueuePool \<Rightarrow> QueuePool \<Rightarrow> bool" where
  "exhausted num acq resKey gi gi' \<longleftrightarrow>
     (\<exists>x skip. fmlookup (gi_scaledInstanceQueue gi') resKey = Some x \<and> isl (acq (ScaledQ x) skip)) \<and>
     (\<forall>q. fallback_queue num resKey gi q \<longrightarrow> isl (acq q True))"

definition answered_by :: "(queue_ref \<Rightarrow> bool \<Rightarrow> go_error + 'a) \<Rightarrow> ResSpecKey \<Rightarrow> QueuePool \<Rightarrow> 'a \<Rightarrow> bool" where
  "answered_by acq resKey gi' a \<longleftrightarrow> (\<exists>q skip. serves_key gi' resKey q \<and> acq q skip = Inr a)"

lemma with_backup:
  assumes "range_order ord" and "acquireInstanceFromScaleQueueWithBackup True ord num acq resKey gi = (r, gi')"
  shows "case r of Inr a \<Rightarrow> answered_by acq resKey gi' a | Inl e \<Rightarrow> exhausted num acq resKey gi gi'"
  using with_backup_served [OF assms(1), of True num acq resKey gi _ gi'] with_backup_refused [OF assms(1), of num acq resKey gi _ gi'] assms(2)
  by (cases r) (auto simp: answered_by_def exhausted_def)

lemma fallback_after_reserved:
  assumes "acquireReservedInstanceQueue ok resKey gi = (Some x, gi1)"
  shows "fallback_queue num resKey gi1 q = fallback_queue num resKey gi q"
  using acquire_queue_keeps(1) [OF assms] unfolding fallback_queue_def by (cases q) (auto, metis)

text \<open>First the reserved queue, then the others.\<close>

lemma reserved_then_backup:
  assumes ord: "range_order ord" and x: "acquireReservedInstanceQueue True resKey gi = (Some x, gi1)"
    and go: "(case acq (ReservedQ x) False of
          Inr a \<Rightarrow> (Inr a, gi1)
        | Inl err \<Rightarrow>
            if error_code err \<noteq> NoInstanceAvailableErrCode \<and> error_code err \<noteq> InstanceNotFoundErrCode then (Inl err, gi1)
            else acquireInstanceFromScaleQueueWithBackup True ord num acq resKey gi1) = (r, gi')"
  shows "case r of
      Inr a \<Rightarrow> answered_by acq resKey gi' a
    | Inl e \<Rightarrow>
        error_code e \<noteq> NoInstanceAvailableErrCode \<and> error_code e \<noteq> InstanceNotFoundErrCode \<and>
          (\<exists>x. fmlookup (gi_reservedInstanceQueue gi') resKey = Some x \<and> acq (ReservedQ x) False = Inl e) \<or>
        exhausted num acq resKey gi gi'"
proof (cases "acq (ReservedQ x) False")
  case (Inr a)
  then have "r = Inr a" "gi' = gi1" using go by simp_all
  moreover have "serves_key gi1 resKey (ReservedQ x)" using acquire_queue_keeps(1) [OF x] unfolding serves_key_def by auto
  ultimately show ?thesis using Inr by (auto simp: answered_by_def)
next
  case (Inl err)
  show ?thesis
  proof (cases "error_code err \<noteq> NoInstanceAvailableErrCode \<and> error_code err \<noteq> InstanceNotFoundErrCode")
    case True
    then have "r = Inl err" "gi' = gi1" using go Inl by simp_all
    with True acquire_queue_keeps(1) [OF x] Inl show ?thesis by simp
  next
    case False
    then have "acquireInstanceFromScaleQueueWithBackup True ord num acq resKey gi1 = (r, gi')" using go Inl by (simp split: if_splits)
    from with_backup [OF ord this] show ?thesis by (cases r) (simp_all add: exhausted_def fallback_after_reserved [OF x])
  qed
qed

lemma on_demand_made:
  "\<exists>x gi1. acquireOnDemandInstanceQueue True resKey gi = (Some x, gi1) \<and> fmlookup (gi_onDemandInstanceQueue gi1) resKey = Some x"
  by (auto simp: acquireOnDemandInstanceQueue_def createInstanceQueue_def split: option.split)

lemma plain_acquire:
  assumes ord: "range_order ord" and req: "pa_StateID req = []" "\<not> pa_resEmpty req" "pa_InstanceName req = []"
    and run: "pool_AcquireInstance False stateful True ord num acq req gi = (r, gi')"
  shows "case r of
      Inr a \<Rightarrow> \<exists>q skip. serves_key gi' (pa_resKey req) q \<and> acq q skip = Inr a
    | Inl e \<Rightarrow>
        rk_InvokeLabel (pa_resKey req) \<noteq> DefaultInstanceLabel \<and> fmlookup (gi_insConfig gi) (pa_resKey req) = None \<or>
        \<not> pa_TrafficLimited req \<and> error_code e \<noteq> NoInstanceAvailableErrCode \<and> error_code e \<noteq> InstanceNotFoundErrCode \<and>
          (\<exists>x. fmlookup (gi_reservedInstanceQueue gi') (pa_resKey req) = Some x \<and> acq (ReservedQ x) False = Inl e) \<or>
        (\<exists>x skip. fmlookup (gi_scaledInstanceQueue gi') (pa_resKey req) = Some x \<and> isl (acq (ScaledQ x) skip)) \<and>
          (\<forall>q. fallback_queue num (pa_resKey req) gi q \<longrightarrow> isl (acq q True))"
proof (cases "rk_InvokeLabel (pa_resKey req) \<noteq> DefaultInstanceLabel \<and> fmlookup (gi_insConfig gi) (pa_resKey req) = None")
  case True
  then have "r = Inl (SNError 150444 ''instance label not found'')" using run req by (simp add: pool_AcquireInstance_def)
  with True show ?thesis by simp
next
  let ?k = "pa_resKey req"
  case label: False
  obtain x gi1 where x: "acquireReservedInstanceQueue True ?k gi = (Some x, gi1)" using acquire_queue_made(1) by blast
  show ?thesis
  proof (cases "pa_TrafficLimited req")
    case True
    then have "acquireInstanceFromScaleQueueWithBackup True ord num acq ?k gi = (r, gi')"
      using run unfolding pool_AcquireInstance_def if_not_P [OF label] by (simp add: req)
    from with_backup [OF ord this] show ?thesis by (cases r) (simp_all add: answered_by_def exhausted_def)
  next
    case False
    with run have "(case acq (ReservedQ x) False of
          Inr a \<Rightarrow> (Inr a, gi1)
        | Inl err \<Rightarrow>
            if error_code err \<noteq> NoInstanceAvailableErrCode \<and> error_code err \<noteq> InstanceNotFoundErrCode then (Inl err, gi1)
            else acquireInstanceFromScaleQueueWithBackup True ord num acq ?k gi1) = (r, gi')"
      unfolding pool_AcquireInstance_def if_not_P [OF label] by (simp add: req x)
    from reserved_then_backup [OF ord x this] False show ?thesis by (cases r) (simp_all add: answered_by_def exhausted_def)
  qed
qed

text \<open>
  C36: The outcomes of an acquire of a function whose queues can be made. It is served by the state route when it names a state, by
  the on-demand queue of its resources when it names an instance, and otherwise by a reserved or scaled queue of its label. It is refused
  only because the function is deleted; because it names a state and the function has none, or its state route refuses; because it gives no
  resources; because its label is unknown; because it names an instance and the on-demand queue refuses; because the reserved queue
  refuses with an error that is not one of a missing instance; or because its scaled queue and every reserved and scaled queue of its
  label with instances refused it.
\<close>

theorem acquire_exhausts_queues:
  assumes ord: "range_order ord" and run: "pool_AcquireInstance deleted stateful True ord num acq req gi = (r, gi')"
  shows "case r of
      Inr a \<Rightarrow>
        \<not> deleted \<and>
        (pa_StateID req \<noteq> [] \<and> stateful = Some (Inr a) \<or>
         pa_StateID req = [] \<and> pa_InstanceName req \<noteq> [] \<and>
           (\<exists>x. fmlookup (gi_onDemandInstanceQueue gi') (pa_resKey req) = Some x \<and> acq (OnDemandQ x) False = Inr a) \<or>
         pa_StateID req = [] \<and> pa_InstanceName req = [] \<and> (\<exists>q skip. serves_key gi' (pa_resKey req) q \<and> acq q skip = Inr a))
    | Inl e \<Rightarrow>
        deleted \<or>
        pa_StateID req \<noteq> [] \<and> (stateful = None \<or> stateful = Some (Inl e)) \<or>
        pa_StateID req = [] \<and> pa_resEmpty req \<or>
        rk_InvokeLabel (pa_resKey req) \<noteq> DefaultInstanceLabel \<and> fmlookup (gi_insConfig gi) (pa_resKey req) = None \<or>
        pa_InstanceName req \<noteq> [] \<and>
          (\<exists>x. fmlookup (gi_onDemandInstanceQueue gi') (pa_resKey req) = Some x \<and> acq (OnDemandQ x) False = Inl e) \<or>
        \<not> pa_TrafficLimited req \<and> error_code e \<noteq> NoInstanceAvailableErrCode \<and> error_code e \<noteq> InstanceNotFoundErrCode \<and>
          (\<exists>x. fmlookup (gi_reservedInstanceQueue gi') (pa_resKey req) = Some x \<and> acq (ReservedQ x) False = Inl e) \<or>
        (\<exists>x skip. fmlookup (gi_scaledInstanceQueue gi') (pa_resKey req) = Some x \<and> isl (acq (ScaledQ x) skip)) \<and>
          (\<forall>q. fallback_queue num (pa_resKey req) gi q \<longrightarrow> isl (acq q True))"
proof (cases "deleted \<or> pa_StateID req \<noteq> [] \<or> pa_resEmpty req \<or> pa_InstanceName req \<noteq> []")
  case True
  obtain x gi1 where x: "acquireOnDemandInstanceQueue True (pa_resKey req) gi = (Some x, gi1)"
      "fmlookup (gi_onDemandInstanceQueue gi1) (pa_resKey req) = Some x"
    using on_demand_made by metis
  with True run show ?thesis
    by (cases r) (auto simp: pool_AcquireInstance_def x(1) split: if_splits option.splits)
next
  case False
  then have "pa_StateID req = []" "\<not> pa_resEmpty req" "pa_InstanceName req = []"
      "pool_AcquireInstance False stateful True ord num acq req gi = (r, gi')" using run by simp_all
  from plain_acquire [OF ord this] False show ?thesis by (cases r) simp_all
qed

section \<open>Scenarios\<close>

definition res_key :: "int \<Rightarrow> string \<Rightarrow> ResSpecKey" where
  "res_key cpu label =
     \<lparr>rk_CPU = cpu, rk_Memory = 256, rk_EphemeralStorage = 0, rk_CustomResources = [], rk_CustomResourcesSpec = [], rk_InvokeLabel = label\<rparr>"

text \<open>The map is visited in the order of a list of keys.\<close>

definition in_order :: "ResSpecKey list \<Rightarrow> queue_order" where
  "in_order ks m = filter (\<lambda>k. fmlookup m k \<noteq> None) ks"

definition plain_request :: "ResSpecKey \<Rightarrow> PoolRequest" where
  "plain_request resKey = \<lparr>pa_StateID = [], pa_resEmpty = False, pa_resKey = resKey, pa_InstanceName = [], pa_TrafficLimited = False\<rparr>"

abbreviation (input) conf03 :: Configuration where "conf03 \<equiv> \<lparr>ic_MinInstance = 0, ic_MaxInstance = 3\<rparr>"

text \<open>A configuration of a label, and its scaled queue.\<close>

definition labelled_pool :: QueuePool where
  "labelled_pool =
     snd (acquireScaleInstanceQueue True (res_key 500 ''gray'') (config_updated True (in_order []) ''gray'' conf03 (new_queue_pool (res_key 500 []))))"

text \<open>
  The resources of the function change, the pool manager sends the configuration of the label again, and then it is deleted. The deletion looks for the
  configuration under the new resources and leaves the one stored under the old; it destroys the scaled queues of the label and deletes the entry
  of the new resources only. A request for the label with the old resources is then still given to the destroyed queue.
\<close>

definition stale_pool :: QueuePool where
  "stale_pool =
     (let ord = in_order [res_key 500 [], res_key 500 ''gray'', res_key 600 []]
      in config_deleted ord ''gray'' conf03
           (config_updated True ord ''gray'' conf03 (function_updated False False [(res_key 500 ''gray'', True)] True (res_key 600 []) labelled_pool)))"

theorem destroyed_queue_answers:
  "fmlookup (gi_scaledInstanceQueue stale_pool) (res_key 500 ''gray'') = Some 4"
  "destroyed stale_pool 4"
  "fst (pool_AcquireInstance False None True (in_order []) (\<lambda>_. 0)
     (\<lambda>q _. if q = ScaledQ 4 then Inr q else Inl (SNError 150431 [])) (plain_request (res_key 500 ''gray'')) stale_pool) = Inr (ScaledQ 4)"
  unfolding destroyed_def by code_simp+

text \<open>
  The configuration that was deleted takes effect again when the function gets its old resources back.
\<close>

theorem deleted_configuration_returns:
  "(let gi = function_updated False False [] True (res_key 500 []) stale_pool
    in fmlookup (gi_insConfig gi) (config_key ''gray'' gi)) = Some conf03"
  by code_simp

text \<open>
  When the resources of a function change and change back, its scaled queue is replaced by a new one and is never destroyed.
\<close>

theorem replaced_queue_not_destroyed:
  "(let gi = function_updated False False [] True (res_key 500 [])
        (function_updated False False [] True (res_key 600 []) (new_queue_pool (res_key 500 [])))
    in (fmlookup (gi_scaledInstanceQueue (new_queue_pool (res_key 500 []))) (res_key 500 []), fmlookup (gi_scaledInstanceQueue gi) (res_key 500 []),
        gi_calls gi)) = (Some 1, Some 4, [])"
  by code_simp

section \<open>Witnesses\<close>

lemma range_order_exists: "\<exists>ord :: ('k, 'v) fmap \<Rightarrow> 'k list. range_order ord"
  unfolding range_order_def using finite_distinct_list [OF finite_fmdom'] by metis

text \<open>The reserved queue has no instance and the scaled queue has one.\<close>

theorem acquire_exhausts_queues_witness:
  "\<exists>ord :: queue_order. range_order ord \<and>
     pool_AcquireInstance False None True ord (\<lambda>_. 0) (\<lambda>q _. if q = ScaledQ 1 then Inr (7 :: int) else Inl (SNError 150431 []))
       (plain_request (res_key 500 [])) (new_queue_pool (res_key 500 [])) = (Inr 7, new_queue_pool (res_key 500 [])) \<and>
     (\<exists>q. serves_key (new_queue_pool (res_key 500 [])) (res_key 500 []) q \<and> q = ScaledQ 1)"
proof -
  obtain ord :: queue_order where ord: "range_order ord" using range_order_exists by blast
  let ?acq = "\<lambda>q (skip :: bool). if q = ScaledQ 1 then Inr (7 :: int) else Inl (SNError 150431 [])"
  have run: "pool_AcquireInstance False None True ord (\<lambda>_. 0) ?acq (plain_request (res_key 500 [])) (new_queue_pool (res_key 500 [])) =
      (Inr 7, new_queue_pool (res_key 500 []))"
    by (simp add: pool_AcquireInstance_def plain_request_def new_queue_pool_def res_key_def acquireReservedInstanceQueue_def
      acquireInstanceFromScaleQueueWithBackup_def acquireScaleInstanceQueue_def Let_def)
  from acquire_exhausts_queues [OF ord run] obtain q skip where
    "serves_key (new_queue_pool (res_key 500 [])) (res_key 500 []) q" "?acq q skip = Inr 7"
    by (auto simp: plain_request_def)
  then have "\<exists>q. serves_key (new_queue_pool (res_key 500 [])) (res_key 500 []) q \<and> q = ScaledQ 1" by (metis sum.distinct(1))
  with ord run show ?thesis by blast
qed

theorem destroyed_queue_unused_witness:
  "\<not> destroyed (snd (acquireReservedInstanceQueue True (res_key 500 ''gray'') (new_queue_pool (res_key 500 [])))) 3"
proof -
  let ?gi = "new_queue_pool (res_key 500 [])"
  obtain r gi' where a: "acquireReservedInstanceQueue True (res_key 500 ''gray'') ?gi = (r, gi')" by fastforce
  have q: "fmlookup (gi_reservedInstanceQueue gi') (res_key 500 ''gray'') = Some 3"
    using a by (auto simp: acquireReservedInstanceQueue_def new_queue_pool_def res_key_def createInstanceQueue_def)
  have "pool_queue_step\<^sup>*\<^sup>* ?gi gi'" using pool_queue_step.reserved [OF a] by blast
  from destroyed_queue_unused [OF this] q a show ?thesis by auto
qed

end
