(* ===== verification/PoolSessions.thy ===== *)
theory PoolSessions
  imports StateRoute
begin

text \<open>
  The sessions a pool remembers (\<^verbatim>\<open>functionscaler/instancepool/instancepool.go\<close>): which instance a session was given, so that its next request is sent
  there, and which sessions an instance has, so that they are forgotten with it. Shown: the two maps agree, so that a removed instance
  is named by no session, and the reaper removes exactly the sessions that have ended.
\<close>

section \<open>State and operations\<close>

text \<open>The context of a session is named by a number; which contexts are done is the parameter \<open>ended\<close>.\<close>

record poolSessionRecord =
  xr_instance :: PoolInstance
  xr_sessionCtx :: nat

record pool_sessions =
  pz_sessionRecordMap :: "(string, poolSessionRecord) gomap"
  pz_instanceSessionMap :: "(string, string fset) gomap"

abbreviation xr_ID :: "poolSessionRecord \<Rightarrow> string" where "xr_ID r \<equiv> in_InstanceID (xr_instance r)"

definition sessions_of :: "string \<Rightarrow> pool_sessions \<Rightarrow> string fset" where
  "sessions_of instanceID ps = (case fmlookup (pz_instanceSessionMap ps) instanceID of None \<Rightarrow> {||} | Some sessions \<Rightarrow> sessions)"

definition recordInstanceSession :: "PoolInstance \<Rightarrow> string \<Rightarrow> nat \<Rightarrow> pool_sessions \<Rightarrow> pool_sessions" where
  "recordInstanceSession i sessionID sessionCtx ps =
     ps\<lparr>pz_instanceSessionMap := fmupd (in_InstanceID i) (finsert sessionID (sessions_of (in_InstanceID i) ps)) (pz_instanceSessionMap ps),
        pz_sessionRecordMap := fmupd sessionID \<lparr>xr_instance = i, xr_sessionCtx = sessionCtx\<rparr> (pz_sessionRecordMap ps)\<rparr>"

definition cleanInstanceSession :: "string \<Rightarrow> pool_sessions \<Rightarrow> pool_sessions" where
  "cleanInstanceSession instanceID ps =
     (case fmlookup (pz_instanceSessionMap ps) instanceID of
        None \<Rightarrow> ps
      | Some sessions \<Rightarrow>
          ps\<lparr>pz_instanceSessionMap := fmdrop instanceID (pz_instanceSessionMap ps),
             pz_sessionRecordMap := fmdrop_fset sessions (pz_sessionRecordMap ps)\<rparr>)"

text \<open>A session is removed from the records, and from the list of the instance of a given record.\<close>

definition forget_session :: "string \<Rightarrow> poolSessionRecord \<Rightarrow> pool_sessions \<Rightarrow> pool_sessions" where
  "forget_session sessionID r ps =
     ps\<lparr>pz_sessionRecordMap := fmdrop sessionID (pz_sessionRecordMap ps),
        pz_instanceSessionMap :=
          (case fmlookup (pz_instanceSessionMap ps) (xr_ID r) of
             None \<Rightarrow> pz_instanceSessionMap ps
           | Some sessions \<Rightarrow> fmupd (xr_ID r) (sessions |-| {|sessionID|}) (pz_instanceSessionMap ps))\<rparr>"

text \<open>
  \<^verbatim>\<open>processInstanceSession\<close> reads the record in one lock section and, if its session has ended, forgets it in another. The result is the instance the
  request is sent to.
\<close>

definition process_read :: "string \<Rightarrow> pool_sessions \<Rightarrow> poolSessionRecord option" where
  "process_read sessionID ps = fmlookup (pz_sessionRecordMap ps) sessionID"

definition process_act :: "(nat \<Rightarrow> bool) \<Rightarrow> string \<Rightarrow> poolSessionRecord option \<Rightarrow> pool_sessions \<Rightarrow> string option \<times> pool_sessions" where
  "process_act ended sessionID seen ps =
     (case seen of
        None \<Rightarrow> (None, ps)
      | Some r \<Rightarrow> if ended (xr_sessionCtx r) then (None, forget_session sessionID r ps) else (Some (xr_ID r), ps))"

definition processInstanceSession :: "(nat \<Rightarrow> bool) \<Rightarrow> string \<Rightarrow> pool_sessions \<Rightarrow> string option \<times> pool_sessions" where
  "processInstanceSession ended sessionID ps = process_act ended sessionID (process_read sessionID ps) ps"

text \<open>One round of \<^verbatim>\<open>instanceSessionReaper\<close>, over the sessions in the order \<open>sessionIDs\<close>.\<close>

definition reap_one :: "(nat \<Rightarrow> bool) \<Rightarrow> string \<Rightarrow> pool_sessions \<Rightarrow> pool_sessions" where
  "reap_one ended sessionID ps =
     (case fmlookup (pz_sessionRecordMap ps) sessionID of
        None \<Rightarrow> ps
      | Some r \<Rightarrow> if ended (xr_sessionCtx r) then forget_session sessionID r ps else ps)"

definition instanceSessionReaper :: "(nat \<Rightarrow> bool) \<Rightarrow> string list \<Rightarrow> pool_sessions \<Rightarrow> pool_sessions" where
  "instanceSessionReaper ended sessionIDs ps = fold (reap_one ended) sessionIDs ps"

definition QuerySession :: "string \<Rightarrow> pool_sessions \<Rightarrow> go_error + string" where
  "QuerySession sessionID ps =
     (case fmlookup (pz_sessionRecordMap ps) sessionID of
        None \<Rightarrow> Inl (GoError (''session '' @ sessionID @ '' not found''))
      | Some r \<Rightarrow> Inr (xr_ID r))"

section \<open>The two maps agree\<close>

text \<open>Steps are lock sections: the second section of a request may act on a record that was read long ago.\<close>

inductive session_step :: "pool_sessions \<Rightarrow> pool_sessions \<Rightarrow> bool" where
  record_session: "session_step ps (recordInstanceSession i sessionID sessionCtx ps)"
| clean: "session_step ps (cleanInstanceSession instanceID ps)"
| act: "session_step ps (snd (process_act ended sessionID seen ps))"
| reap: "session_step ps (instanceSessionReaper ended sessionIDs ps)"

abbreviation sessions_reach :: "pool_sessions \<Rightarrow> bool" where
  "sessions_reach \<equiv> session_step\<^sup>*\<^sup>* \<lparr>pz_sessionRecordMap = fmempty, pz_instanceSessionMap = fmempty\<rparr>"

definition sessions_listed :: "pool_sessions \<Rightarrow> bool" where
  "sessions_listed ps \<longleftrightarrow> (\<forall>s r. fmlookup (pz_sessionRecordMap ps) s = Some r \<longrightarrow> s |\<in>| sessions_of (xr_ID r) ps)"

lemma sessions_of_record:
  "sessions_of k (recordInstanceSession i s c ps) = (if k = in_InstanceID i then finsert s (sessions_of k ps) else sessions_of k ps)"
  by (simp add: sessions_of_def recordInstanceSession_def)

lemma sessions_of_forget:
  "sessions_of k (forget_session s r ps) = (if k = xr_ID r then sessions_of k ps |-| {|s|} else sessions_of k ps)"
  by (auto simp: sessions_of_def forget_session_def split: option.splits)

lemma forget_records [simp]: "pz_sessionRecordMap (forget_session s r ps) = fmdrop s (pz_sessionRecordMap ps)"
  by (simp add: forget_session_def)

lemma listed_record: "sessions_listed ps \<Longrightarrow> sessions_listed (recordInstanceSession i s c ps)"
  unfolding sessions_listed_def sessions_of_record by (auto simp: recordInstanceSession_def) metis

lemma listed_forget: "sessions_listed ps \<Longrightarrow> sessions_listed (forget_session s r ps)"
  unfolding sessions_listed_def sessions_of_forget by auto metis

lemma listed_clean:
  assumes "sessions_listed ps"
  shows "sessions_listed (cleanInstanceSession instanceID ps)"
proof (cases "fmlookup (pz_instanceSessionMap ps) instanceID")
  case (Some sessions)
  have "s |\<in>| sessions_of (xr_ID r) (cleanInstanceSession instanceID ps)"
    if "fmlookup (pz_sessionRecordMap ps) s = Some r" "s |\<notin>| sessions" for s r
    using assms that Some unfolding sessions_listed_def by (fastforce simp: sessions_of_def cleanInstanceSession_def)
  then show ?thesis using Some by (auto simp: sessions_listed_def cleanInstanceSession_def split: if_splits)
qed (use assms in \<open>simp add: cleanInstanceSession_def\<close>)

lemma listed_reap: "sessions_listed ps \<Longrightarrow> sessions_listed (instanceSessionReaper ended xs ps)"
  unfolding instanceSessionReaper_def
  by (induction xs arbitrary: ps) (auto simp: reap_one_def listed_forget split: option.splits)

lemma listed_step: "session_step ps ps' \<Longrightarrow> sessions_listed ps \<Longrightarrow> sessions_listed ps'"
  by (induction rule: session_step.induct)
    (auto simp: process_act_def listed_record listed_clean listed_forget listed_reap split: option.splits)

lemma reach_listed: "sessions_reach ps \<Longrightarrow> sessions_listed ps"
proof (induction rule: rtranclp_induct)
  case base
  show ?case by (simp add: sessions_listed_def)
qed (rule listed_step)

section \<open>Properties\<close>

text \<open>
  When an instance is removed, no session is sent to it any more: whatever the requests before have done, after cleaning no record names the
  instance, and the records of sessions it did not have are kept.
\<close>

theorem removed_instance_unnamed:
  assumes "sessions_reach ps"
  shows "QuerySession s (cleanInstanceSession instanceID ps) \<noteq> Inr instanceID \<and>
    (s |\<notin>| sessions_of instanceID ps \<longrightarrow> QuerySession s (cleanInstanceSession instanceID ps) = QuerySession s ps)"
proof -
  have listed: "s |\<in>| sessions_of (xr_ID r) ps" if "fmlookup (pz_sessionRecordMap ps) s = Some r" for r
    using reach_listed [OF assms] that by (simp add: sessions_listed_def)
  show ?thesis
    by (cases "fmlookup (pz_instanceSessionMap ps) instanceID"; cases "fmlookup (pz_sessionRecordMap ps) s")
      (use listed in \<open>auto simp: QuerySession_def cleanInstanceSession_def sessions_of_def\<close>)
qed

text \<open>A round of the reaper that sees every session removes exactly the sessions that have ended.\<close>

theorem reaper_exact:
  assumes "fmdom' (pz_sessionRecordMap ps) \<subseteq> set sessionIDs"
  shows "fmlookup (pz_sessionRecordMap (instanceSessionReaper ended sessionIDs ps)) s =
    (case fmlookup (pz_sessionRecordMap ps) s of Some r \<Rightarrow> if ended (xr_sessionCtx r) then None else Some r | None \<Rightarrow> None)"
proof -
  have "fmlookup (pz_sessionRecordMap (instanceSessionReaper ended xs ps)) s =
      (case fmlookup (pz_sessionRecordMap ps) s of Some r \<Rightarrow> if s \<in> set xs \<and> ended (xr_sessionCtx r) then None else Some r | None \<Rightarrow> None)" for xs ps
    unfolding instanceSessionReaper_def
    by (induction xs arbitrary: ps) (auto simp: reap_one_def split: option.splits)
  moreover have "s \<in> set sessionIDs" if "fmlookup (pz_sessionRecordMap ps) s = Some r" for r using assms that by (auto intro: fmdom'I)
  ultimately show ?thesis by (auto split: option.splits)
qed

section \<open>Records that are lost\<close>

text \<open>
  A request has read the record of a session that has ended. The session is started again and recorded; then the request forgets the session, and with it
  the new record: the next request of the session is sent anywhere.
\<close>

theorem fresh_record_forgotten:
  assumes "process_read s ps = Some r" and "ended (xr_sessionCtx r)"
  shows "isl (QuerySession s (snd (process_act ended s (process_read s ps) (recordInstanceSession i s c ps))))"
  using assms by (simp add: process_act_def QuerySession_def)

text \<open>
  A session that is recorded on another instance stays on the list of the first one. When that is removed, the record of the session on the
  second instance goes too.
\<close>

theorem moved_session_forgotten:
  assumes "in_InstanceID i \<noteq> in_InstanceID j"
  shows "QuerySession s (recordInstanceSession j s c' (recordInstanceSession i s c ps)) = Inr (in_InstanceID j)"
    and "isl (QuerySession s (cleanInstanceSession (in_InstanceID i) (recordInstanceSession j s c' (recordInstanceSession i s c ps))))"
  using assms by (simp_all add: recordInstanceSession_def cleanInstanceSession_def QuerySession_def)

section \<open>Witnesses\<close>

theorem removed_instance_unnamed_witness:
  "\<forall>s i c. QuerySession s (cleanInstanceSession (in_InstanceID i)
    (recordInstanceSession i s c \<lparr>pz_sessionRecordMap = fmempty, pz_instanceSessionMap = fmempty\<rparr>)) \<noteq> Inr (in_InstanceID i)"
  by (intro allI removed_instance_unnamed [THEN conjunct1]) (blast intro: session_step.record_session)

theorem reaper_exact_witness:
  "pz_sessionRecordMap (instanceSessionReaper (\<lambda>_. True) [] \<lparr>pz_sessionRecordMap = fmempty, pz_instanceSessionMap = fmempty\<rparr>) = fmempty"
  by (rule fmap_ext) (subst reaper_exact, simp_all)

end
