(* ===== verification/PoolEvents.thy ===== *)
theory PoolEvents
  imports PoolQueues PoolSessions
begin

text \<open>
  Events of instances in a pool and the requests for named instances (\<^verbatim>\<open>functionscaler/instancepool/instancepool.go\<close>): which queue is told what
  when an instance changes, is deleted or is found faulty. Shown: an event concerns only the queue of the type and the resources of its instance,
  which is told at most once; a faulty reserved or scaled instance is always given up.
\<close>

section \<open>Operations\<close>

abbreviation (input) InstanceTypeOnDemand :: string where "InstanceTypeOnDemand \<equiv> ''onDemand''"

text \<open>What the handlers call, in order. \<open>DeleteUnexpected\<close> is started in a goroutine of its own.\<close>

datatype pool_action =
    InstanceUpdate queue_ref string
  | InstanceDelete queue_ref string
  | FaultyInstance queue_ref string
  | StateUpdate string
  | StateForget string
  | SignalRemove string
  | CleanSession string
  | DeleteUnexpected string
  | JudgeExceed ResSpecKey

datatype instance_event = EventUpdate | EventDelete | EventRemove | EventSynced | EventOther

definition getNeedProcessInstanceCodeMap :: "string \<Rightarrow> int set" where
  "getNeedProcessInstanceCodeMap instanceType =
     (if instanceType = InstanceTypeReserved \<or> instanceType = InstanceTypeScaled then {3, 11, 9} else {3, 11})"

definition getFaultyInstanceStatusMap :: "string \<Rightarrow> int set" where
  "getFaultyInstanceStatusMap instanceType =
     (if instanceType = InstanceTypeReserved \<or> instanceType = InstanceTypeScaled then {6, 7, 10, 5} else {6, 7, 10, 9, 5})"

definition removeInstance :: "PoolInstance \<Rightarrow> QueuePool \<Rightarrow> pool_action list" where
  "removeInstance i gi =
     SignalRemove (in_InstanceID i) #
     (if in_InstanceType i = InstanceTypeReserved then
        (case fmlookup (gi_reservedInstanceQueue gi) (in_ResKey i) of
           None \<Rightarrow> [DeleteUnexpected (in_InstanceID i)]
         | Some q \<Rightarrow> [FaultyInstance (ReservedQ q) (in_InstanceID i)])
      else if in_InstanceType i = InstanceTypeScaled then
        (case fmlookup (gi_scaledInstanceQueue gi) (in_ResKey i) of
           None \<Rightarrow> [DeleteUnexpected (in_InstanceID i)]
         | Some q \<Rightarrow> [FaultyInstance (ScaledQ q) (in_InstanceID i), StateForget (in_InstanceID i)])
      else [])"

definition pool_handleInstanceDelete :: "PoolInstance \<Rightarrow> QueuePool \<Rightarrow> pool_action list" where
  "pool_handleInstanceDelete i gi =
     [SignalRemove (in_InstanceID i), CleanSession (in_InstanceID i)] @
     (if in_InstanceType i = InstanceTypeOnDemand then
        (case fmlookup (gi_onDemandInstanceQueue gi) (in_ResKey i) of None \<Rightarrow> [] | Some q \<Rightarrow> [InstanceDelete (OnDemandQ q) (in_InstanceID i)])
      else if in_InstanceType i = InstanceTypeReserved then
        (case fmlookup (gi_reservedInstanceQueue gi) (in_ResKey i) of None \<Rightarrow> [] | Some q \<Rightarrow> [InstanceDelete (ReservedQ q) (in_InstanceID i)])
      else if in_InstanceType i = InstanceTypeScaled then
        (case fmlookup (gi_scaledInstanceQueue gi) (in_ResKey i) of None \<Rightarrow> [] | Some q \<Rightarrow> [InstanceDelete (ScaledQ q) (in_InstanceID i)])
      else [])"

text \<open>The switch over the types in \<^verbatim>\<open>handleInstanceUpdate\<close>; a queue is made when there is none.\<close>

definition update_queue :: "bool \<Rightarrow> PoolInstance \<Rightarrow> QueuePool \<Rightarrow> pool_action list \<times> QueuePool" where
  "update_queue ok i gi =
     (let told = (\<lambda>ref (q, gi1). (case q of None \<Rightarrow> [] | Some x \<Rightarrow> [InstanceUpdate (ref x) (in_InstanceID i)], gi1))
      in if in_InstanceType i = InstanceTypeOnDemand then told OnDemandQ (acquireOnDemandInstanceQueue ok (in_ResKey i) gi)
         else if in_InstanceType i = InstanceTypeReserved then told ReservedQ (acquireReservedInstanceQueue ok (in_ResKey i) gi)
         else if in_InstanceType i = InstanceTypeScaled then told ScaledQ (acquireScaleInstanceQueue ok (in_ResKey i) gi)
         else if in_InstanceType i = InstanceTypeState then ([StateUpdate (in_InstanceID i)], gi)
         else ([], gi))"

definition pool_handleInstanceUpdate :: "bool \<Rightarrow> string \<Rightarrow> bool \<Rightarrow> PoolInstance \<Rightarrow> QueuePool \<Rightarrow> pool_action list \<times> QueuePool" where
  "pool_handleInstanceUpdate wiseCloud funcSig ok i gi =
     (let process = (in_Code i \<in> getNeedProcessInstanceCodeMap (in_InstanceType i))
      in if process \<and> \<not> wiseCloud \<and> in_FuncSig i \<noteq> funcSig then (removeInstance i gi, gi)
         else
           let (acts, gi1) = (if process then (case update_queue ok i gi of (as, gi1) \<Rightarrow> (as @ [JudgeExceed (in_ResKey i)], gi1)) else ([], gi))
           in (acts @ (if in_Code i \<in> getFaultyInstanceStatusMap (in_InstanceType i) then removeInstance i gi1 else []), gi1))"

definition HandleInstanceEvent ::
  "bool \<Rightarrow> string \<Rightarrow> bool \<Rightarrow> instance_event \<Rightarrow> PoolInstance \<Rightarrow> QueuePool \<Rightarrow> pool_action list \<times> QueuePool" where
  "HandleInstanceEvent wiseCloud funcSig ok event i gi =
     (if event = EventSynced then ([], gi)
      else if gi_synced gi \<and> in_InstanceType i = InstanceTypeReserved \<and>
          fmlookup (gi_insConfig gi) (config_key (rk_InvokeLabel (in_ResKey i)) gi) = None
      then ([DeleteUnexpected (in_InstanceID i)], gi)
      else case event of
        EventUpdate \<Rightarrow> pool_handleInstanceUpdate wiseCloud funcSig ok i gi
      | EventDelete \<Rightarrow> (pool_handleInstanceDelete i gi, gi)
      | EventRemove \<Rightarrow> (removeInstance i gi, gi)
      | _ \<Rightarrow> ([], gi))"

text \<open>
  \<^verbatim>\<open>CreateInstance\<close> and \<^verbatim>\<open>DeleteInstance\<close> are for on-demand instances: the result is the queue that is asked.
\<close>

definition pool_CreateInstance :: "bool \<Rightarrow> bool \<Rightarrow> ResSpecKey option \<Rightarrow> QueuePool \<Rightarrow> (go_error + nat) \<times> QueuePool" where
  "pool_CreateInstance deleted ok resSpec gi =
     (if deleted then (Inl (SNError 150424 ''function metadata not found''), gi)
      else case acquireOnDemandInstanceQueue ok (case resSpec of None \<Rightarrow> gi_defaultResKey gi | Some k \<Rightarrow> k) gi of
        (None, gi1) \<Rightarrow> (Inl QueueError, gi1)
      | (Some q, gi1) \<Rightarrow> (Inr q, gi1))"

definition pool_DeleteInstance :: "bool \<Rightarrow> PoolInstance \<Rightarrow> QueuePool \<Rightarrow> go_error + nat" where
  "pool_DeleteInstance deleted i gi =
     (if deleted then Inl (SNError 150424 ''function metadata not found'')
      else case fmlookup (gi_onDemandInstanceQueue gi) (in_ResKey i) of
        None \<Rightarrow> Inl (SNError 150500 ''on-demand instance queue not exist'')
      | Some q \<Rightarrow> Inr q)"

text \<open>
  \<^verbatim>\<open>ReleaseInstance\<close>: \<open>release\<close> is the answer of a queue, which forgets its lease. A queue that does not know the instance makes the pool forget the
  sessions of the instance.
\<close>

definition release_error :: "(queue_ref \<Rightarrow> go_error option) \<Rightarrow> PoolInstance \<Rightarrow> QueuePool \<Rightarrow> go_error option" where
  "release_error release i gi =
     (if in_InstanceType i = InstanceTypeReserved then
        (case fmlookup (gi_reservedInstanceQueue gi) (in_ResKey i) of None \<Rightarrow> None | Some q \<Rightarrow> release (ReservedQ q))
      else if in_InstanceType i = InstanceTypeScaled then
        (case fmlookup (gi_scaledInstanceQueue gi) (in_ResKey i) of
           None \<Rightarrow> Some (SNError 150500 ''instance queue with this resource doesn't exist'')
         | Some q \<Rightarrow> release (ScaledQ q))
      else None)"

definition pool_ReleaseInstance :: "(queue_ref \<Rightarrow> go_error option) \<Rightarrow> PoolInstance \<Rightarrow> QueuePool \<Rightarrow> pool_sessions \<Rightarrow> pool_sessions" where
  "pool_ReleaseInstance release i gi ps =
     (case release_error release i gi of
        Some err \<Rightarrow> if error_code err = InstanceNotFoundErrCode then cleanInstanceSession (in_InstanceID i) ps else ps
      | None \<Rightarrow> ps)"

text \<open>\<^verbatim>\<open>getScaleTriggerQueue\<close> and \<^verbatim>\<open>TriggerScale\<close>: the queue whose scheduler is asked to scale.\<close>

definition getScaleTriggerQueue :: "bool \<Rightarrow> QueuePool \<Rightarrow> nat option \<times> string" where
  "getScaleTriggerQueue static gi =
     (if static then (fmlookup (gi_reservedInstanceQueue gi) (gi_defaultResKey gi), InstanceTypeReserved)
      else (fmlookup (gi_scaledInstanceQueue gi) (gi_defaultResKey gi), InstanceTypeScaled))"

definition pool_TriggerScale :: "bool \<Rightarrow> (nat \<Rightarrow> bool) \<Rightarrow> QueuePool \<Rightarrow> go_error + nat" where
  "pool_TriggerScale static scheduled gi =
     (case getScaleTriggerQueue static gi of
        (None, queueType) \<Rightarrow> Inl (GoError (queueType @ '' instance queue of default resKey not found''))
      | (Some q, queueType) \<Rightarrow>
          if scheduled q then Inr q else Inl (GoError (''instance scheduler of default resKey '' @ queueType @ '' queue is nil'')))"

section \<open>Events reach the right queue\<close>

definition told_queue :: "pool_action \<Rightarrow> queue_ref option" where
  "told_queue a = (case a of InstanceUpdate q _ \<Rightarrow> Some q | InstanceDelete q _ \<Rightarrow> Some q | FaultyInstance q _ \<Rightarrow> Some q | _ \<Rightarrow> None)"

definition told :: "pool_action list \<Rightarrow> queue_ref list" where
  "told acts = List.map_filter told_queue acts"

definition own_queue :: "PoolInstance \<Rightarrow> QueuePool \<Rightarrow> queue_ref \<Rightarrow> bool" where
  "own_queue i gi q =
     (case q of
        OnDemandQ x \<Rightarrow> in_InstanceType i = InstanceTypeOnDemand \<and> fmlookup (gi_onDemandInstanceQueue gi) (in_ResKey i) = Some x
      | ReservedQ x \<Rightarrow> in_InstanceType i = InstanceTypeReserved \<and> fmlookup (gi_reservedInstanceQueue gi) (in_ResKey i) = Some x
      | ScaledQ x \<Rightarrow> in_InstanceType i = InstanceTypeScaled \<and> fmlookup (gi_scaledInstanceQueue gi) (in_ResKey i) = Some x)"

lemma told_simps [simp]:
  "told [] = []" "told (a # acts) = (case told_queue a of None \<Rightarrow> told acts | Some q \<Rightarrow> q # told acts)" "told (acts @ acts') = told acts @ told acts'"
  by (simp_all add: told_def List.map_filter_def split: option.split)

definition told_once :: "PoolInstance \<Rightarrow> QueuePool \<Rightarrow> pool_action list \<Rightarrow> bool" where
  "told_once i gi acts \<longleftrightarrow> told acts = [] \<or> (\<exists>q. told acts = [q] \<and> own_queue i gi q)"

lemma told_once_remove: "told_once i gi (removeInstance i gi)"
  by (auto simp: told_once_def removeInstance_def told_queue_def own_queue_def split: option.splits)

lemma told_once_delete: "told_once i gi (pool_handleInstanceDelete i gi)"
  by (auto simp: told_once_def pool_handleInstanceDelete_def told_queue_def own_queue_def split: option.splits)

lemma told_once_update: "update_queue ok i gi = (acts, gi') \<Longrightarrow> told_once i gi' acts"
  by (auto simp: told_once_def update_queue_def told_queue_def own_queue_def acquireOnDemandInstanceQueue_def acquireReservedInstanceQueue_def
      acquireScaleInstanceQueue_def createInstanceQueue_def config_new_def split: option.splits if_splits)

lemma codes_disjoint: "code \<in> getNeedProcessInstanceCodeMap t \<Longrightarrow> code \<notin> getFaultyInstanceStatusMap t"
  by (auto simp: getNeedProcessInstanceCodeMap_def getFaultyInstanceStatusMap_def split: if_splits)

text \<open>
  An event of an instance tells at most one queue, and that is the queue of the type and the resources of the instance.
\<close>

theorem event_tells_own_queue:
  "HandleInstanceEvent wiseCloud funcSig ok event i gi = (acts, gi') \<Longrightarrow> told acts = [] \<or> (\<exists>q. told acts = [q] \<and> own_queue i gi' q)"
proof -
  assume run: "HandleInstanceEvent wiseCloud funcSig ok event i gi = (acts, gi')"
  have add: "told_once i g (as @ [JudgeExceed k])" if "told_once i g as" for g as k using that by (simp add: told_once_def told_queue_def)
  have none: "told_once i g []" "told_once i g [DeleteUnexpected id]" for g id by (simp_all add: told_once_def told_queue_def)
  have upd: "told_once i gi' acts" if h: "pool_handleInstanceUpdate wiseCloud funcSig ok i gi = (acts, gi')"
  proof (cases "in_Code i \<in> getNeedProcessInstanceCodeMap (in_InstanceType i)")
    case True
    then show ?thesis using h codes_disjoint [OF True] told_once_remove
      by (auto simp: pool_handleInstanceUpdate_def Let_def intro: add told_once_update split: if_splits prod.splits)
  qed (use h told_once_remove none in \<open>auto simp: pool_handleInstanceUpdate_def split: if_splits\<close>)
  have "told_once i gi' acts"
    using run by (cases event) (auto simp: HandleInstanceEvent_def told_once_remove told_once_delete none upd split: if_splits)
  then show ?thesis by (simp add: told_once_def)
qed

text \<open>
  A reserved or scaled instance whose status is one of the faulty ones is handed to its queue as faulty, or deleted when there is no such queue or no configuration for it.
\<close>

theorem faulty_instance_given_up:
  assumes "in_InstanceType i \<in> {InstanceTypeReserved, InstanceTypeScaled}" and "in_Code i \<in> getFaultyInstanceStatusMap (in_InstanceType i)"
    and "event = EventUpdate \<or> event = EventRemove"
  shows "(\<exists>q. own_queue i gi q \<and> FaultyInstance q (in_InstanceID i) \<in> set (fst (HandleInstanceEvent wiseCloud funcSig ok event i gi))) \<or>
    DeleteUnexpected (in_InstanceID i) \<in> set (fst (HandleInstanceEvent wiseCloud funcSig ok event i gi))"
proof -
  let ?up = "\<lambda>acts. (\<exists>q. own_queue i gi q \<and> FaultyInstance q (in_InstanceID i) \<in> set acts) \<or> DeleteUnexpected (in_InstanceID i) \<in> set acts"
  have rm: "?up (removeInstance i gi)"
    using assms(1) by (auto simp: removeInstance_def own_queue_def split: option.splits)
  have "in_Code i \<notin> getNeedProcessInstanceCodeMap (in_InstanceType i)" using codes_disjoint assms(2) by blast
  then have "pool_handleInstanceUpdate wiseCloud funcSig ok i gi = (removeInstance i gi, gi)" using assms(2) by (simp add: pool_handleInstanceUpdate_def)
  then show ?thesis using assms(3) rm by (auto simp: HandleInstanceEvent_def)
qed

section \<open>Where events are lost\<close>

text \<open>
  A faulty on-demand instance is not taken out of its queue, nor is one whose function was changed, although the log says that it is killed.
\<close>

theorem on_demand_fault_ignored:
  "in_InstanceType i = InstanceTypeOnDemand \<Longrightarrow> removeInstance i gi = [SignalRemove (in_InstanceID i)]"
  "in_InstanceType i = InstanceTypeOnDemand \<Longrightarrow> in_Code i = 3 \<Longrightarrow> in_FuncSig i \<noteq> funcSig \<Longrightarrow>
     HandleInstanceEvent False funcSig ok EventUpdate i gi = ([SignalRemove (in_InstanceID i)], gi)"
  by (simp_all add: removeInstance_def HandleInstanceEvent_def pool_handleInstanceUpdate_def getNeedProcessInstanceCodeMap_def)

text \<open>The status of a faulty instance of a state does not reach the route of states, nor does its deletion.\<close>

theorem state_fault_ignored:
  "in_InstanceType i = InstanceTypeState \<Longrightarrow> in_Code i \<in> {5, 6, 7, 9, 10} \<Longrightarrow>
     HandleInstanceEvent wiseCloud funcSig ok EventUpdate i gi = ([SignalRemove (in_InstanceID i)], gi)"
  "in_InstanceType i = InstanceTypeState \<Longrightarrow>
     HandleInstanceEvent wiseCloud funcSig ok EventDelete i gi = ([SignalRemove (in_InstanceID i), CleanSession (in_InstanceID i)], gi)"
  by (auto simp: removeInstance_def pool_handleInstanceDelete_def HandleInstanceEvent_def pool_handleInstanceUpdate_def getNeedProcessInstanceCodeMap_def
      getFaultyInstanceStatusMap_def)

end
