(* ===== verification/OneShotPool.thy ===== *)
theory OneShotPool
  imports GoPrelude
begin

text \<open>
  The pool of a function whose instances serve one request each (\<^verbatim>\<open>functionscaler/instancepool/oneshot_instance_pool.go\<close>): an acquire
  creates an instance, a release or the end of its time deletes it. Shown, for all interleavings of requests, timers and events: no two
  requests get the same instance, and none is left behind.
\<close>

section \<open>The pool\<close>

text \<open>
  Instances are named by their ID. \<open>op_ctxDone\<close>: the context of the function has ended, which is how its deletion is seen. The timeout of the function
  counts seconds. What the pool tells the outside is a list of effects: timers by allocation ID, and the deletions it asks for.
\<close>

record oneShotInstanceRecord =
  or_instance :: string
  or_allocationID :: string
  or_createTime :: time

record OneShotInstancePool =
  op_functionSignature :: string
  op_timeout :: int
  op_currentPoolLabel :: string
  op_ctxDone :: bool
  op_activeInstances :: "(string, oneShotInstanceRecord) gomap"

datatype one_shot_effect = StartCleanup string time | StopCleanup string | DeleteInstanceCall string

datatype one_shot_error = FuncMetaNotFound | CreationFailed

definition NewOneShotInstancePool :: "string \<Rightarrow> int \<Rightarrow> string \<Rightarrow> OneShotInstancePool" where
  "NewOneShotInstancePool signature timeout poolLabel =
     \<lparr>op_functionSignature = signature, op_timeout = timeout, op_currentPoolLabel = poolLabel, op_ctxDone = False, op_activeInstances = fmempty\<rparr>"

text \<open>
  \<^verbatim>\<open>AcquireInstance\<close> before it asks the kernel for an instance (\<^verbatim>\<open>None\<close>: it goes on), when the kernel has answered, and when there is an
  instance. The last part answers the instance, its allocation ID and the interval of its lease.
\<close>

definition acquire_begin :: "OneShotInstancePool \<Rightarrow> one_shot_error option" where
  "acquire_begin op = (if op_ctxDone op then Some FuncMetaNotFound else None)"

definition acquire_created :: "string option \<Rightarrow> one_shot_error + string" where
  "acquire_created created = (case created of None \<Rightarrow> Inl CreationFailed | Some i \<Rightarrow> Inr i)"

definition cleanupTime :: "OneShotInstancePool \<Rightarrow> duration" where
  "cleanupTime op = op_timeout op * second + 30 * second"

definition acquire_track :: "time \<Rightarrow> string \<Rightarrow> OneShotInstancePool \<Rightarrow> (string \<times> string \<times> duration) \<times> one_shot_effect list \<times> OneShotInstancePool" where
  "acquire_track now i op =
     ((i, i, cleanupTime op), [StartCleanup i (now + cleanupTime op)],
      op\<lparr>op_activeInstances := fmupd i \<lparr>or_instance = i, or_allocationID = i, or_createTime = now\<rparr> (op_activeInstances op)\<rparr>)"

text \<open>A release without an instance is ignored; one that is not known is deleted all the same.\<close>

definition one_shot_ReleaseInstance :: "(string \<times> string option) option \<Rightarrow> OneShotInstancePool \<Rightarrow> one_shot_effect list \<times> OneShotInstancePool" where
  "one_shot_ReleaseInstance insAlloc op =
     (case insAlloc of
        Some (allocationID, Some i) \<Rightarrow>
          (case fmlookup (op_activeInstances op) allocationID of
             None \<Rightarrow> ([DeleteInstanceCall i], op)
           | Some r \<Rightarrow>
               ([StopCleanup allocationID, DeleteInstanceCall i], op\<lparr>op_activeInstances := fmdrop allocationID (op_activeInstances op)\<rparr>))
      | _ \<Rightarrow> ([], op))"

definition autoCleanupInstance :: "string \<Rightarrow> OneShotInstancePool \<Rightarrow> one_shot_effect list \<times> OneShotInstancePool" where
  "autoCleanupInstance allocationID op =
     (case fmlookup (op_activeInstances op) allocationID of
        None \<Rightarrow> ([], op)
      | Some r \<Rightarrow> ([DeleteInstanceCall (or_instance r)], op\<lparr>op_activeInstances := fmdrop allocationID (op_activeInstances op)\<rparr>))"

text \<open>\<open>ord\<close> lists the entries of the map in the order they are visited. A changed function comes with a context of its own.\<close>

definition cleanupAllInstances ::
  "((string, oneShotInstanceRecord) gomap \<Rightarrow> string list) \<Rightarrow> OneShotInstancePool \<Rightarrow> one_shot_effect list \<times> OneShotInstancePool" where
  "cleanupAllInstances ord op =
     (let as = ord (op_activeInstances op)
      in (map StopCleanup as @ map (\<lambda>a. DeleteInstanceCall (or_instance (the (fmlookup (op_activeInstances op) a)))) as,
          op\<lparr>op_activeInstances := fmempty\<rparr>))"

definition one_shot_handleFunctionUpdate ::
  "((string, oneShotInstanceRecord) gomap \<Rightarrow> string list) \<Rightarrow> string \<Rightarrow> int \<Rightarrow> string \<Rightarrow> OneShotInstancePool \<Rightarrow>
    one_shot_effect list \<times> OneShotInstancePool" where
  "one_shot_handleFunctionUpdate ord signature timeout poolLabel op =
     (let op1 = op\<lparr>op_functionSignature := signature, op_timeout := timeout, op_currentPoolLabel := poolLabel, op_ctxDone := False\<rparr>
      in if op_functionSignature op \<noteq> signature then cleanupAllInstances ord op1 else ([], op1))"

definition one_shot_handleFunctionDelete ::
  "((string, oneShotInstanceRecord) gomap \<Rightarrow> string list) \<Rightarrow> OneShotInstancePool \<Rightarrow> one_shot_effect list \<times> OneShotInstancePool" where
  "one_shot_handleFunctionDelete ord op = cleanupAllInstances ord op"

text \<open>\<^verbatim>\<open>HandleInstanceEvent\<close> for a deletion takes the first record with the instance it meets; other events do nothing.\<close>

definition one_shot_instance_deleted ::
  "((string, oneShotInstanceRecord) gomap \<Rightarrow> string list) \<Rightarrow> string \<Rightarrow> OneShotInstancePool \<Rightarrow> one_shot_effect list \<times> OneShotInstancePool" where
  "one_shot_instance_deleted ord i op =
     (case find (\<lambda>a. map_option or_instance (fmlookup (op_activeInstances op) a) = Some i) (ord (op_activeInstances op)) of
        None \<Rightarrow> ([], op)
      | Some a \<Rightarrow> ([StopCleanup a], op\<lparr>op_activeInstances := fmdrop a (op_activeInstances op)\<rparr>))"

definition one_shot_DeleteInstance :: "string \<Rightarrow> OneShotInstancePool \<Rightarrow> one_shot_error + one_shot_effect list" where
  "one_shot_DeleteInstance i op = (if op_ctxDone op then Inl FuncMetaNotFound else Inr [DeleteInstanceCall i])"

section \<open>The transition system\<close>

text \<open>
  Requests, timers and events around a pool. \<open>oy_asked\<close>: acquires that wait for the kernel, which gives every instance a new ID. \<open>oy_making\<close>: instances the kernel has made for an acquire that has not tracked them yet.
  \<open>oy_timers\<close>: the armed timers with the time they are due. \<open>oy_fired\<close>: timers whose callback has not run yet. \<open>oy_deletes\<close>:
  the deletions asked for. \<open>oy_given\<close>: the instances given to requests, the last one first. \<open>oy_gone\<close>: instances
  reported as deleted by an event. \<open>oy_made\<close>: all instances made for acquires.
\<close>

record one_shot_system =
  oy_pool :: OneShotInstancePool
  oy_asked :: nat
  oy_making :: "string list"
  oy_timers :: "(string, time) gomap"
  oy_fired :: "string list"
  oy_deletes :: "string list"
  oy_given :: "string list"
  oy_gone :: "string list"
  oy_made :: "string list"

fun run_effect :: "one_shot_effect \<Rightarrow> one_shot_system \<Rightarrow> one_shot_system" where
  "run_effect (StartCleanup a t) y = y\<lparr>oy_timers := fmupd a t (oy_timers y)\<rparr>"
| "run_effect (StopCleanup a) y = y\<lparr>oy_timers := fmdrop a (oy_timers y)\<rparr>"
| "run_effect (DeleteInstanceCall i) y = y\<lparr>oy_deletes := i # oy_deletes y\<rparr>"

definition pool_acts :: "one_shot_effect list \<times> OneShotInstancePool \<Rightarrow> one_shot_system \<Rightarrow> one_shot_system" where
  "pool_acts r y = fold run_effect (fst r) (y\<lparr>oy_pool := snd r\<rparr>)"

inductive one_shot_step :: "one_shot_system \<Rightarrow> one_shot_system \<Rightarrow> bool" where
  acquire: "acquire_begin (oy_pool y) = None \<Longrightarrow> one_shot_step y (y\<lparr>oy_asked := Suc (oy_asked y)\<rparr>)"
| not_made: "oy_asked y = Suc n \<Longrightarrow> acquire_created created = Inl e \<Longrightarrow> one_shot_step y (y\<lparr>oy_asked := n\<rparr>)"
| made: "oy_asked y = Suc n \<Longrightarrow> acquire_created created = Inr i \<Longrightarrow> i \<notin> set (oy_made y) \<Longrightarrow>
    one_shot_step y (y\<lparr>oy_asked := n, oy_making := i # oy_making y, oy_made := i # oy_made y\<rparr>)"
| track: "i \<in> set (oy_making y) \<Longrightarrow> acquire_track now i (oy_pool y) = (answer, r) \<Longrightarrow>
    one_shot_step y (pool_acts r (y\<lparr>oy_making := remove1 i (oy_making y), oy_given := i # oy_given y\<rparr>))"
| release: "i \<in> set (oy_given y) \<Longrightarrow> one_shot_step y (pool_acts (one_shot_ReleaseInstance (Some (i, Some i)) (oy_pool y)) y)"
| due: "fmlookup (oy_timers y) a = Some t \<Longrightarrow> one_shot_step y (y\<lparr>oy_timers := fmdrop a (oy_timers y), oy_fired := a # oy_fired y\<rparr>)"
| cleanup: "a \<in> set (oy_fired y) \<Longrightarrow>
    one_shot_step y (pool_acts (autoCleanupInstance a (oy_pool y)) (y\<lparr>oy_fired := remove1 a (oy_fired y)\<rparr>))"
| func_update: "range_order ord \<Longrightarrow> one_shot_step y (pool_acts (one_shot_handleFunctionUpdate ord s t l (oy_pool y)) y)"
| func_delete: "range_order ord \<Longrightarrow> one_shot_step y (pool_acts (one_shot_handleFunctionDelete ord (oy_pool y)) y)"
| ctx_done: "one_shot_step y (y\<lparr>oy_pool := (oy_pool y)\<lparr>op_ctxDone := True\<rparr>\<rparr>)"
| instance_gone: "range_order ord \<Longrightarrow>
    one_shot_step y (pool_acts (one_shot_instance_deleted ord i (oy_pool y)) (y\<lparr>oy_gone := i # oy_gone y\<rparr>))"
| delete: "one_shot_DeleteInstance i (oy_pool y) = Inr e \<Longrightarrow> one_shot_step y (pool_acts (e, oy_pool y) y)"

definition one_shot_start :: "string \<Rightarrow> int \<Rightarrow> string \<Rightarrow> one_shot_system" where
  "one_shot_start signature timeout poolLabel =
     \<lparr>oy_pool = NewOneShotInstancePool signature timeout poolLabel, oy_asked = 0, oy_making = [], oy_timers = fmempty, oy_fired = [], oy_deletes = [],
      oy_given = [], oy_gone = [], oy_made = []\<rparr>"

section \<open>Invariant\<close>

definition one_shot_inv :: "one_shot_system \<Rightarrow> bool" where
  "one_shot_inv y \<longleftrightarrow>
     distinct (oy_making y) \<and> set (oy_making y) \<subseteq> set (oy_made y) \<and> distinct (oy_given y) \<and>
     set (oy_given y) \<union> set (oy_making y) = set (oy_made y) \<and> set (oy_given y) \<inter> set (oy_making y) = {} \<and>
     fmdom' (oy_timers y) \<subseteq> fmdom' (op_activeInstances (oy_pool y)) \<and> fmdom' (oy_timers y) \<inter> set (oy_fired y) = {} \<and>
     set (oy_fired y) \<subseteq> set (oy_given y) \<and> distinct (oy_fired y) \<and>
     (\<forall>a r. fmlookup (op_activeInstances (oy_pool y)) a = Some r \<longrightarrow>
        or_instance r = a \<and> a \<in> set (oy_given y) \<and> (fmlookup (oy_timers y) a \<noteq> None \<or> a \<in> set (oy_fired y))) \<and>
     (\<forall>a\<in>set (oy_given y). fmlookup (op_activeInstances (oy_pool y)) a \<noteq> None \<or> a \<in> set (oy_deletes y) \<union> set (oy_gone y))"

lemma one_shot_inv_start: "one_shot_inv (one_shot_start s t l)"
  by (simp add: one_shot_inv_def one_shot_start_def NewOneShotInstancePool_def)

text \<open>What the effects of stopping and deleting many instances add up to.\<close>

lemma run_stops: "fold run_effect (map StopCleanup as) y = y\<lparr>oy_timers := fmdrop_set (set as) (oy_timers y)\<rparr>"
proof (induction as arbitrary: y)
  case (Cons a as)
  have "fmdrop_set (set as) (fmdrop a m) = fmdrop_set (insert a (set as)) m" for m :: "(string, time) gomap"
    by (rule fmap_ext) auto
  with Cons show ?case by simp
qed simp

lemma run_deletes: "fold run_effect (map (\<lambda>a. DeleteInstanceCall (f a)) as) y = y\<lparr>oy_deletes := rev (map f as) @ oy_deletes y\<rparr>"
  by (induction as arbitrary: y) simp_all

lemma one_shot_inv_cleanup:
  assumes "range_order ord" "one_shot_inv y" "op_activeInstances op = op_activeInstances (oy_pool y)"
  shows "one_shot_inv (pool_acts (cleanupAllInstances ord op) y)"
proof -
  let ?m = "op_activeInstances (oy_pool y)"
  have as: "set (ord ?m) = fmdom' ?m" using assms(1) by (rule range_orderD)
  have id: "or_instance (the (fmlookup ?m a)) = a" if "a \<in> fmdom' ?m" for a
    using that assms(2) by (auto simp: one_shot_inv_def fmlookup_dom'_iff)
  then have ids: "map (\<lambda>a. or_instance (the (fmlookup ?m a))) (ord ?m) = ord ?m" using as by (intro map_idI) simp
  have "pool_acts (cleanupAllInstances ord op) y =
      y\<lparr>oy_pool := op\<lparr>op_activeInstances := fmempty\<rparr>, oy_timers := fmdrop_set (fmdom' ?m) (oy_timers y), oy_deletes := rev (ord ?m) @ oy_deletes y\<rparr>"
    by (simp add: pool_acts_def cleanupAllInstances_def Let_def assms(3) run_stops run_deletes as ids)
  moreover have "fmdrop_set (fmdom' ?m) (oy_timers y) = fmempty"
    using assms(2) by (intro fmap_ext) (auto simp: one_shot_inv_def fmlookup_dom'_iff)
  ultimately show ?thesis using assms(2) as by (auto simp: one_shot_inv_def fmlookup_dom'_iff)
qed

lemma one_shot_inv_gone:
  assumes "range_order ord" "one_shot_inv y"
  shows "one_shot_inv (pool_acts (one_shot_instance_deleted ord i (oy_pool y)) (y\<lparr>oy_gone := i # oy_gone y\<rparr>))"
proof (cases "find (\<lambda>a. map_option or_instance (fmlookup (op_activeInstances (oy_pool y)) a) = Some i) (ord (op_activeInstances (oy_pool y)))")
  case None
  with assms(2) show ?thesis by (auto simp: one_shot_instance_deleted_def pool_acts_def one_shot_inv_def)
next
  case (Some a)
  then have "map_option or_instance (fmlookup (op_activeInstances (oy_pool y)) a) = Some i" by (auto simp: find_Some_iff)
  then have "a = i" using assms(2) by (auto simp: one_shot_inv_def)
  with assms(2) Some show ?thesis by (auto simp: one_shot_instance_deleted_def pool_acts_def one_shot_inv_def split: if_splits)
qed

lemma one_shot_inv_step: "one_shot_step y y' \<Longrightarrow> one_shot_inv y \<Longrightarrow> one_shot_inv y'"
proof (induction rule: one_shot_step.induct)
  case (track i y now answer r)
  have r: "pool_acts r z = z\<lparr>oy_pool := (oy_pool y)\<lparr>op_activeInstances :=
        fmupd i \<lparr>or_instance = i, or_allocationID = i, or_createTime = now\<rparr> (op_activeInstances (oy_pool y))\<rparr>,
      oy_timers := fmupd i (now + cleanupTime (oy_pool y)) (oy_timers z)\<rparr>" for z
    using track(2) by (auto simp: pool_acts_def acquire_track_def)
  from track(3) have d: "distinct (oy_making y)" by (simp add: one_shot_inv_def)
  show ?case unfolding r using track(1,3) by (auto simp: one_shot_inv_def set_remove1_eq [OF d])
next
  case (func_update ord y s t l)
  then show ?case
    by (cases "op_functionSignature (oy_pool y) = s")
      (auto simp: one_shot_handleFunctionUpdate_def Let_def intro!: one_shot_inv_cleanup, auto simp: pool_acts_def one_shot_inv_def)
next
  case (func_delete ord y)
  then show ?case unfolding one_shot_handleFunctionDelete_def by (intro one_shot_inv_cleanup) auto
next
  case (instance_gone ord y i)
  then show ?case by (rule one_shot_inv_gone)
next
  case (release i y)
  then show ?case
    by (cases "fmlookup (op_activeInstances (oy_pool y)) i") (auto simp: one_shot_ReleaseInstance_def pool_acts_def one_shot_inv_def split: if_splits)
next
  case (cleanup a y)
  from cleanup(2) have d: "distinct (oy_fired y)" by (simp add: one_shot_inv_def)
  show ?case using cleanup
    by (cases "fmlookup (op_activeInstances (oy_pool y)) a")
      (auto simp: autoCleanupInstance_def pool_acts_def one_shot_inv_def set_remove1_eq [OF d] split: if_splits)
next
  case (acquire y)
  then show ?case by (simp add: one_shot_inv_def)
next
  case (not_made y n created e)
  then show ?case by (simp add: one_shot_inv_def)
next
  case (made y n created i)
  then show ?case unfolding one_shot_inv_def by (simp; blast)
next
  case (due y a t)
  then have a: "a \<in> fmdom' (oy_timers y)" by (simp add: fmdom'I)
  then have "a \<in> fmdom' (op_activeInstances (oy_pool y))" using due(2) unfolding one_shot_inv_def by blast
  then obtain r where "fmlookup (op_activeInstances (oy_pool y)) a = Some r" by (auto simp: fmlookup_dom'_iff)
  then have "a \<in> set (oy_given y)" using due(2) unfolding one_shot_inv_def by blast
  moreover have "a \<notin> set (oy_fired y)" using a due(2) unfolding one_shot_inv_def by blast
  ultimately show ?case using due unfolding one_shot_inv_def by (auto simp: fmlookup_dom'_iff)
next
  case (ctx_done y)
  then show ?case by (simp add: one_shot_inv_def)
next
  case (delete i y e)
  then have "pool_acts (e, oy_pool y) y = y\<lparr>oy_deletes := i # oy_deletes y\<rparr>" by (auto simp: pool_acts_def one_shot_DeleteInstance_def split: if_splits)
  with delete show ?case unfolding one_shot_inv_def by (simp; blast)
qed

section \<open>Properties\<close>

lemma one_shot_inv_reach: "one_shot_step\<^sup>*\<^sup>* (one_shot_start s t l) y \<Longrightarrow> one_shot_inv y"
  by (induction rule: rtranclp_induct) (auto intro: one_shot_inv_start one_shot_inv_step)

text \<open>
  C21: In every interleaving no instance is given to two requests, and every instance that was made for a request is about to be given to it,
  or is tracked with a timer that will remove it, or its deletion was asked for, or it was reported gone.
\<close>

theorem one_shot_isolated_and_reclaimed:
  assumes "one_shot_step\<^sup>*\<^sup>* (one_shot_start s t l) y"
  shows "distinct (oy_given y) \<and>
    (\<forall>i\<in>set (oy_made y). i \<in> set (oy_making y) \<or> i \<in> set (oy_deletes y) \<or> i \<in> set (oy_gone y) \<or>
       fmlookup (op_activeInstances (oy_pool y)) i \<noteq> None \<and> (fmlookup (oy_timers y) i \<noteq> None \<or> i \<in> set (oy_fired y)))"
proof -
  have inv: "one_shot_inv y" using assms by (rule one_shot_inv_reach)
  have "i \<in> set (oy_making y) \<or> i \<in> set (oy_deletes y) \<or> i \<in> set (oy_gone y) \<or>
       fmlookup (op_activeInstances (oy_pool y)) i \<noteq> None \<and> (fmlookup (oy_timers y) i \<noteq> None \<or> i \<in> set (oy_fired y))" if "i \<in> set (oy_made y)" for i
  proof (cases "fmlookup (op_activeInstances (oy_pool y)) i")
    case None
    with inv that show ?thesis unfolding one_shot_inv_def by blast
  next
    case (Some r)
    with inv show ?thesis unfolding one_shot_inv_def by blast
  qed
  with inv show ?thesis by (auto simp: one_shot_inv_def)
qed

text \<open>The deletion of the function leaves nothing tracked and no timer, and asks for the deletion of everything that was.\<close>

theorem one_shot_function_deleted:
  assumes "one_shot_step\<^sup>*\<^sup>* (one_shot_start s t l) y" and "range_order ord"
    and "y' = pool_acts (one_shot_handleFunctionDelete ord (oy_pool y)) y"
  shows "op_activeInstances (oy_pool y') = fmempty \<and> oy_timers y' = fmempty \<and> fmdom' (op_activeInstances (oy_pool y)) \<subseteq> set (oy_deletes y')"
proof -
  have inv: "one_shot_inv y" using assms(1) by (rule one_shot_inv_reach)
  have inv': "one_shot_inv y'" using one_shot_inv_cleanup [OF assms(2) inv refl] unfolding assms(3) one_shot_handleFunctionDelete_def .
  let ?m = "op_activeInstances (oy_pool y)"
  have as: "set (ord ?m) = fmdom' ?m" using assms(2) by (rule range_orderD)
  have y': "op_activeInstances (oy_pool y') = fmempty" "oy_deletes y' = rev (map (\<lambda>a. or_instance (the (fmlookup ?m a))) (ord ?m)) @ oy_deletes y"
    unfolding assms(3) one_shot_handleFunctionDelete_def by (simp_all add: pool_acts_def cleanupAllInstances_def Let_def run_stops run_deletes)
  have "oy_timers y' = fmempty" using inv' y'(1) by (intro fmap_ext) (auto simp: one_shot_inv_def fmdom'_notD)
  moreover have "a \<in> set (oy_deletes y')" if "a \<in> fmdom' ?m" for a
  proof -
    have "or_instance (the (fmlookup ?m a)) = a" using that inv by (auto simp: one_shot_inv_def fmlookup_dom'_iff)
    then show ?thesis using that as y'(2) by (force simp: image_iff)
  qed
  ultimately show ?thesis using y'(1) by blast
qed

section \<open>Witnesses and runs\<close>

definition one_shot0 :: one_shot_system where
  "one_shot0 = one_shot_start ''s'' 3 []"

definition one_shot1 :: one_shot_system where
  "one_shot1 = pool_acts (snd (acquire_track 0 ''i'' (oy_pool one_shot0))) (one_shot0\<lparr>oy_given := [''i''], oy_made := [''i'']\<rparr>)"

lemma one_shot1_reached: "one_shot_step\<^sup>*\<^sup>* one_shot0 one_shot1"
proof -
  let ?a = "one_shot0\<lparr>oy_asked := 1\<rparr>" and ?b = "one_shot0\<lparr>oy_making := [''i''], oy_made := [''i'']\<rparr>"
  have p: "oy_pool one_shot0 = NewOneShotInstancePool ''s'' 3 []" "oy_asked one_shot0 = 0" "oy_making one_shot0 = []" "oy_made one_shot0 = []"
    "oy_given one_shot0 = []" by (simp_all add: one_shot0_def one_shot_start_def)
  have "one_shot_step one_shot0 ?a" using acquire [of one_shot0] p by (simp add: acquire_begin_def NewOneShotInstancePool_def)
  moreover have "one_shot_step ?a ?b" using made [of ?a 0 "Some ''i''" "''i''"] p by (simp add: acquire_created_def one_shot0_def one_shot_start_def)
  moreover have "one_shot_step ?b one_shot1"
  proof -
    obtain answer r where r: "acquire_track 0 ''i'' (oy_pool ?b) = (answer, r)" by (metis surj_pair)
    then have "snd (acquire_track 0 ''i'' (oy_pool one_shot0)) = r" by simp
    then show ?thesis using track [of "''i''" ?b 0 answer r] r p by (simp add: one_shot1_def one_shot0_def one_shot_start_def)
  qed
  ultimately show ?thesis by (meson converse_rtranclp_into_rtranclp r_into_rtranclp)
qed

theorem one_shot_isolated_and_reclaimed_witness:
  "distinct (oy_given one_shot1) \<and> fmlookup (oy_timers one_shot1) ''i'' = Some (33 * second)"
proof -
  have "distinct (oy_given one_shot1)"
    using one_shot_isolated_and_reclaimed [OF one_shot1_reached [unfolded one_shot0_def]] by blast
  moreover have "fmlookup (oy_timers one_shot1) ''i'' = Some (33 * second)" by code_simp
  ultimately show ?thesis ..
qed

text \<open>A request that is released after its time has ended has its instance deleted a second time.\<close>

theorem late_release_deletes_again:
  "oy_deletes (pool_acts (one_shot_ReleaseInstance (Some (''i'', Some ''i'')) (oy_pool y)) y) = [''i'', ''i'']"
  if "y = pool_acts (autoCleanupInstance ''i'' (oy_pool one_shot1)) (one_shot1\<lparr>oy_timers := fmempty\<rparr>)"
  unfolding that by code_simp

end
