(* ===== verification/ManagerConfigs.thy ===== *)
theory ManagerConfigs
  imports PoolEvents ScaleHints OneShotPool
begin

text \<open>
  The pool manager (\<^verbatim>\<open>functionscaler/instancepool/poolmanager.go\<close>): a pool per function, which is a one-shot pool when the scale policy of the
  function says so and a generic one otherwise, and the configurations it has seen, which it sends to a pool when the pool is made and when
  its function changes. Shown: with events handled one after the other a generic pool has every recorded configuration under its own default
  resources, and an instance reported as abnormal again and again is removed once a minute at most.
\<close>

section \<open>State and events\<close>

text \<open>
  The recorded configuration and the one of the pool are the same object, which the pool normalises; the record keeps it here
  as it came, and normalising it again changes nothing. \<open>pm_effects\<close> collects what the one-shot pools ask for.
\<close>

datatype instance_pool = Generic QueuePool | OneShot OneShotInstancePool

record PoolManager =
  pm_instancePool :: "(string, instance_pool) gomap"
  pm_instanceConfigRecord :: "(string, (string, Configuration) gomap) gomap"
  pm_effects :: "one_shot_effect list"

text \<open>
  What an event depends on beside the manager: the policy, signature, timeout and pool label of the function; whether queues can be made, how
  maps are visited, whether the resources of the function are the same as before.
\<close>

record manager_env =
  me_oneshot :: bool
  me_signature :: string
  me_timeout :: int
  me_poolLabel :: string
  me_wiseCloud :: bool
  me_same :: bool
  me_confs :: "(ResSpecKey \<times> bool) list"
  me_ok :: bool
  me_ord :: queue_order
  me_labels :: "(string, Configuration) gomap \<Rightarrow> string list"
  me_active :: "(string, oneShotInstanceRecord) gomap \<Rightarrow> string list"

definition env_orders :: "manager_env \<Rightarrow> bool" where
  "env_orders env \<longleftrightarrow> range_order (me_ord env) \<and> range_order (me_labels env)"

definition config_records :: "string \<Rightarrow> PoolManager \<Rightarrow> (string, Configuration) gomap" where
  "config_records funcKey pm = (case fmlookup (pm_instanceConfigRecord pm) funcKey of None \<Rightarrow> fmempty | Some m \<Rightarrow> m)"

definition store_pool :: "string \<Rightarrow> instance_pool \<Rightarrow> PoolManager \<Rightarrow> PoolManager" where
  "store_pool funcKey pool pm = pm\<lparr>pm_instancePool := fmupd funcKey pool (pm_instancePool pm)\<rparr>"

definition note_effects :: "one_shot_effect list \<Rightarrow> PoolManager \<Rightarrow> PoolManager" where
  "note_effects es pm = pm\<lparr>pm_effects := pm_effects pm @ es\<rparr>"

text \<open>Making a one-shot pool does not fail.\<close>

definition processInstancePoolCreate :: "manager_env \<Rightarrow> ResSpecKey \<Rightarrow> instance_pool option" where
  "processInstancePoolCreate env resKey =
     (if me_oneshot env then Some (OneShot (NewOneShotInstancePool (me_signature env) (me_timeout env) (me_poolLabel env)))
      else if me_ok env then Some (Generic (new_queue_pool resKey)) else None)"

text \<open>What the two kinds of pool do with the events of the manager; a one-shot pool ignores configurations.\<close>

fun pool_function_update :: "manager_env \<Rightarrow> ResSpecKey \<Rightarrow> instance_pool \<Rightarrow> one_shot_effect list \<times> instance_pool" where
  "pool_function_update env resKey (Generic gi) =
     ([], Generic (function_updated (me_same env) (me_wiseCloud env) (me_confs env) (me_ok env) resKey gi))"
| "pool_function_update env resKey (OneShot op) =
     map_prod id OneShot (one_shot_handleFunctionUpdate (me_active env) (me_signature env) (me_timeout env) (me_poolLabel env) op)"

fun pool_function_delete :: "manager_env \<Rightarrow> instance_pool \<Rightarrow> one_shot_effect list \<times> instance_pool" where
  "pool_function_delete env (Generic gi) = ([], Generic (HandleFunctionDeleteEvent (me_ord env) gi))"
| "pool_function_delete env (OneShot op) = map_prod id OneShot (one_shot_handleFunctionDelete (me_active env) op)"

fun pool_config_update :: "manager_env \<Rightarrow> string \<Rightarrow> Configuration \<Rightarrow> instance_pool \<Rightarrow> instance_pool" where
  "pool_config_update env label c (Generic gi) = Generic (config_updated (me_ok env) (me_ord env) label c gi)"
| "pool_config_update env label c (OneShot op) = OneShot op"

fun pool_config_delete :: "manager_env \<Rightarrow> string \<Rightarrow> Configuration \<Rightarrow> instance_pool \<Rightarrow> instance_pool" where
  "pool_config_delete env label c (Generic gi) = Generic (config_deleted (me_ord env) label c gi)"
| "pool_config_delete env label c (OneShot op) = OneShot op"

fun pool_clean_orphans :: "manager_env \<Rightarrow> instance_pool \<Rightarrow> instance_pool" where
  "pool_clean_orphans env (Generic gi) = Generic (CleanOrphansInstanceQueue (me_ord env) gi)"
| "pool_clean_orphans env (OneShot op) = OneShot op"

definition send_configs :: "manager_env \<Rightarrow> (string, Configuration) gomap \<Rightarrow> instance_pool \<Rightarrow> instance_pool" where
  "send_configs env records pool =
     fold (\<lambda>label pool. case fmlookup records label of None \<Rightarrow> pool | Some c \<Rightarrow> pool_config_update env label c pool)
       (me_labels env records) pool"

definition function_update_event :: "manager_env \<Rightarrow> string \<Rightarrow> ResSpecKey \<Rightarrow> PoolManager \<Rightarrow> PoolManager" where
  "function_update_event env funcKey resKey pm =
     (case (case fmlookup (pm_instancePool pm) funcKey of
              None \<Rightarrow> map_option (Pair []) (processInstancePoolCreate env resKey)
            | Some pool \<Rightarrow> Some (pool_function_update env resKey pool)) of
        None \<Rightarrow> pm
      | Some (es, pool) \<Rightarrow> store_pool funcKey (send_configs env (config_records funcKey pm) pool) (note_effects es pm))"

definition processInstancePoolDelete :: "string \<Rightarrow> PoolManager \<Rightarrow> PoolManager" where
  "processInstancePoolDelete funcKey pm =
     pm\<lparr>pm_instancePool := fmdrop funcKey (pm_instancePool pm), pm_instanceConfigRecord := fmdrop funcKey (pm_instanceConfigRecord pm)\<rparr>"

text \<open>The pool leaves the manager and handles the deletion itself.\<close>

definition function_delete_event :: "manager_env \<Rightarrow> string \<Rightarrow> PoolManager \<Rightarrow> instance_pool option \<times> PoolManager" where
  "function_delete_event env funcKey pm =
     (case fmlookup (pm_instancePool pm) funcKey of
        None \<Rightarrow> (None, pm)
      | Some pool \<Rightarrow>
          (case pool_function_delete env pool of
             (es, pool') \<Rightarrow> (Some pool', note_effects es (processInstancePoolDelete funcKey pm))))"

text \<open>
  \<^verbatim>\<open>HandleInstanceConfigEvent\<close> looks for the pool in one lock section, records the configuration in another and then tells the pool it has found, if any.
\<close>

definition config_update_rest :: "manager_env \<Rightarrow> bool \<Rightarrow> string \<Rightarrow> string \<Rightarrow> Configuration \<Rightarrow> PoolManager \<Rightarrow> PoolManager" where
  "config_update_rest env exist funcKey label c pm =
     (let pm1 = pm\<lparr>pm_instanceConfigRecord := fmupd funcKey (fmupd label c (config_records funcKey pm)) (pm_instanceConfigRecord pm)\<rparr>
      in if exist then
           (case fmlookup (pm_instancePool pm1) funcKey of
              None \<Rightarrow> pm1
            | Some pool \<Rightarrow> store_pool funcKey (pool_config_update env label c pool) pm1)
         else pm1)"

definition config_update_event :: "manager_env \<Rightarrow> string \<Rightarrow> string \<Rightarrow> Configuration \<Rightarrow> PoolManager \<Rightarrow> PoolManager" where
  "config_update_event env funcKey label c pm = config_update_rest env (fmlookup (pm_instancePool pm) funcKey \<noteq> None) funcKey label c pm"

definition config_delete_event :: "manager_env \<Rightarrow> string \<Rightarrow> string \<Rightarrow> Configuration \<Rightarrow> PoolManager \<Rightarrow> PoolManager" where
  "config_delete_event env funcKey label c pm =
     (case fmlookup (pm_instanceConfigRecord pm) funcKey of
        None \<Rightarrow> pm
      | Some records \<Rightarrow>
          let pm1 = pm\<lparr>pm_instanceConfigRecord := fmupd funcKey (fmdrop label records) (pm_instanceConfigRecord pm)\<rparr>
          in case fmlookup (pm_instancePool pm1) funcKey of
               None \<Rightarrow> pm1
             | Some pool \<Rightarrow> store_pool funcKey (pool_config_delete env label c pool) pm1)"

text \<open>For a synced event the queues without configuration are cleaned in the pools it is about.\<close>

definition config_synced_event :: "manager_env \<Rightarrow> (string \<Rightarrow> bool) \<Rightarrow> PoolManager \<Rightarrow> PoolManager" where
  "config_synced_event env meant pm =
     pm\<lparr>pm_instancePool := fmmap_keys (\<lambda>k pool. if meant k then pool_clean_orphans env pool else pool) (pm_instancePool pm)\<rparr>"

text \<open>
  \<^verbatim>\<open>AcquireInstanceThread\<close>: the answer of a queue of a generic pool, or the instance, allocation ID and interval of a one-shot pool, for which the kernel
  answers \<open>created\<close> at the time \<open>now\<close>.
\<close>

definition AcquireInstanceThread ::
  "manager_env \<Rightarrow> bool \<Rightarrow> (go_error + 'a) option \<Rightarrow> (nat \<Rightarrow> nat) \<Rightarrow> (queue_ref \<Rightarrow> bool \<Rightarrow> go_error + 'a) \<Rightarrow> time \<Rightarrow> string + string \<Rightarrow>
   string \<Rightarrow> PoolRequest \<Rightarrow> PoolManager \<Rightarrow> (go_error + 'a + string \<times> string \<times> duration) \<times> PoolManager" where
  "AcquireInstanceThread env deleted stateful num acq now created funcKey req pm =
     (case fmlookup (pm_instancePool pm) funcKey of
        None \<Rightarrow> (Inl (SNError 150424 ''pool not exist''), pm)
      | Some (Generic gi) \<Rightarrow>
          (case pool_AcquireInstance deleted stateful (me_ok env) (me_ord env) num acq req gi of
             (r, gi') \<Rightarrow> (map_sum id Inl r, store_pool funcKey (Generic gi') pm))
      | Some (OneShot op) \<Rightarrow>
          (case acquire_begin op of
             Some _ \<Rightarrow> (Inl (SNError 150424 ''function metadata not found''), pm)
           | None \<Rightarrow>
               (case created of
                  Inl msg \<Rightarrow> (Inl (SNError 150500 msg), pm)
                | Inr i \<Rightarrow>
                    (case acquire_track now i op of
                       (answer, es, op') \<Rightarrow> (Inr (Inr answer), store_pool funcKey (OneShot op') (note_effects es pm))))))"

text \<open>An instance event for the pool of a function.\<close>

definition pool_instance_event :: "manager_env \<Rightarrow> string \<Rightarrow> instance_event \<Rightarrow> PoolInstance \<Rightarrow> PoolManager \<Rightarrow> PoolManager" where
  "pool_instance_event env funcKey event i pm =
     (case fmlookup (pm_instancePool pm) funcKey of
        None \<Rightarrow> pm
      | Some (Generic gi) \<Rightarrow>
          store_pool funcKey (Generic (snd (HandleInstanceEvent (me_wiseCloud env) (me_signature env) (me_ok env) event i gi))) pm
      | Some (OneShot op) \<Rightarrow>
          (case if event = EventDelete then one_shot_instance_deleted (me_active env) (in_InstanceID i) op else ([], op) of
             (es, op') \<Rightarrow> store_pool funcKey (OneShot op') (note_effects es pm)))"

text \<open>\<^verbatim>\<open>GetAndDeleteState\<close> of the manager makes a pool when there is none, and sends it no configurations; so does the recovery.\<close>

definition pool_for_state :: "manager_env \<Rightarrow> string \<Rightarrow> ResSpecKey \<Rightarrow> PoolManager \<Rightarrow> PoolManager" where
  "pool_for_state env funcKey resKey pm =
     (case fmlookup (pm_instancePool pm) funcKey of
        Some _ \<Rightarrow> pm
      | None \<Rightarrow>
          (case processInstancePoolCreate env resKey of None \<Rightarrow> pm | Some pool \<Rightarrow> store_pool funcKey pool pm))"

section \<open>Recorded configurations\<close>

definition configs_known :: "PoolManager \<Rightarrow> bool" where
  "configs_known pm \<longleftrightarrow>
     (\<forall>funcKey gi label c. fmlookup (pm_instancePool pm) funcKey = Some (Generic gi) \<longrightarrow> fmlookup (config_records funcKey pm) label = Some c \<longrightarrow>
        fmlookup (gi_insConfig gi) (config_key label gi) = Some (generateInstanceConfig c))"

text \<open>
  The events one after the other, labelled with whether a pool may miss a configuration: a pool is made for a state, or an event records a configuration
  and acts on an earlier look for the pool.
\<close>

inductive manager_step :: "bool \<Rightarrow> PoolManager \<Rightarrow> PoolManager \<Rightarrow> bool" where
  function_update: "env_orders env \<Longrightarrow> manager_step False pm (function_update_event env funcKey resKey pm)"
| function_delete: "manager_step False pm (snd (function_delete_event env funcKey pm))"
| config_update: "env_orders env \<Longrightarrow> manager_step False pm (config_update_event env funcKey label c pm)"
| config_delete: "env_orders env \<Longrightarrow> manager_step False pm (config_delete_event env funcKey label c pm)"
| config_synced: "manager_step False pm (config_synced_event env meant pm)"
| acquire: "AcquireInstanceThread env deleted stateful num (acq :: queue_ref \<Rightarrow> bool \<Rightarrow> go_error + string) now created funcKey req pm = (r, pm') \<Longrightarrow>
    manager_step False pm pm'"
| instance_event: "manager_step False pm (pool_instance_event env funcKey event i pm)"
| state_pool: "manager_step (fmlookup (pm_instancePool pm) funcKey = None) pm (pool_for_state env funcKey resKey pm)"
| stale_look: "env_orders env \<Longrightarrow> manager_step (exist \<noteq> (fmlookup (pm_instancePool pm) funcKey \<noteq> None)) pm
    (config_update_rest env exist funcKey label c pm)"

inductive manager_run :: "bool list \<Rightarrow> PoolManager \<Rightarrow> bool" where
  manager_start: "manager_run [] \<lparr>pm_instancePool = fmempty, pm_instanceConfigRecord = fmempty, pm_effects = []\<rparr>"
| manager_next: "manager_run bs pm \<Longrightarrow> manager_step b pm pm' \<Longrightarrow> manager_run (b # bs) pm'"

text \<open>Operations that leave the configurations of a pool alone.\<close>

definition same_configs :: "QueuePool \<Rightarrow> QueuePool \<Rightarrow> bool" where
  "same_configs gi gi' \<longleftrightarrow> gi_insConfig gi' = gi_insConfig gi \<and> gi_defaultResKey gi' = gi_defaultResKey gi"

lemma same_configs_refl [simp]: "same_configs gi gi" by (simp add: same_configs_def)

lemma same_configs_trans: "same_configs gi gi' \<Longrightarrow> same_configs gi' gi'' \<Longrightarrow> same_configs gi gi''" by (simp add: same_configs_def)

lemma same_configs_call [simp]: "same_configs gi (call_pool_queue cs gi') = same_configs gi gi'"
  by (simp add: same_configs_def)

text \<open>A generic pool has the configurations of a record; a one-shot pool needs none.\<close>

lemma config_new_configs [simp]:
  "gi_insConfig (config_new k q gi) = gi_insConfig gi" "gi_defaultResKey (config_new k q gi) = gi_defaultResKey gi"
  by (simp_all add: config_new_def split: option.split)

lemma acquire_same_configs:
  "acquireReservedInstanceQueue ok resKey gi = (r, gi') \<Longrightarrow> same_configs gi gi'"
  "acquireScaleInstanceQueue ok resKey gi = (r, gi') \<Longrightarrow> same_configs gi gi'"
  "acquireOnDemandInstanceQueue ok resKey gi = (r, gi') \<Longrightarrow> same_configs gi gi'"
  by (auto simp: acquireReservedInstanceQueue_def acquireScaleInstanceQueue_def acquireOnDemandInstanceQueue_def createInstanceQueue_def same_configs_def
      split: option.splits if_splits)

lemma handle_update_same_configs: "same_configs gi (handleInstanceConfigUpdate ok ord c resKey gi)"
proof -
  obtain q gi1 where a: "acquireReservedInstanceQueue ok resKey gi = (q, gi1)" by fastforce
  from acquire_same_configs(1) [OF this] show ?thesis using a by (simp add: handleInstanceConfigUpdate_def Let_def split: option.split)
qed

lemma delete_same_configs: "same_configs gi (handleInstanceConfigDelete ord c resKey gi)"
proof -
  have one: "same_configs g (delete_scaled resKey k g)" for g k
    by (simp add: delete_scaled_def split: option.split) (simp add: same_configs_def)
  have "same_configs g (fold (delete_scaled resKey) ks g)" for g ks
    by (induction ks arbitrary: g) (auto intro: same_configs_trans one)
  moreover have "same_configs gi (delete_reserved c resKey gi)"
    by (simp add: delete_reserved_def split: option.split) (simp add: same_configs_def)
  ultimately show ?thesis by (auto simp: handleInstanceConfigDelete_def Let_def intro: same_configs_trans)
qed

lemma backup_same_configs: "acquireInstanceFromScaleQueueWithBackup ok ord num acq resKey gi = (r, gi') \<Longrightarrow> same_configs gi gi'"
  by (auto simp: acquireInstanceFromScaleQueueWithBackup_def Let_def dest: acquire_same_configs(2) split: prod.splits option.splits sum.splits)

lemma pool_acquire_same_configs: "pool_AcquireInstance deleted stateful ok ord num acq req gi = (r, gi') \<Longrightarrow> same_configs gi gi'"
  unfolding pool_AcquireInstance_def
  by (auto dest: acquire_same_configs backup_same_configs intro: same_configs_trans split: if_splits prod.splits option.splits sum.splits)

lemma event_same_configs: "HandleInstanceEvent wiseCloud funcSig ok event i gi = (acts, gi') \<Longrightarrow> same_configs gi gi'"
  by (cases event) (auto simp: HandleInstanceEvent_def pool_handleInstanceUpdate_def update_queue_def Let_def dest: acquire_same_configs
      split: if_splits prod.splits option.splits)

lemma config_key_inj [simp]: "config_key label gi = config_key label' gi \<longleftrightarrow> label = label'"
  by (auto simp: config_key_def ResSpecKey.splits dest: arg_cong [where f = rk_InvokeLabel])

text \<open>A pool has the configurations of a record under its default resources.\<close>

definition knows :: "(string, Configuration) gomap \<Rightarrow> QueuePool \<Rightarrow> bool" where
  "knows m gi \<longleftrightarrow> (\<forall>label c. fmlookup m label = Some c \<longrightarrow> fmlookup (gi_insConfig gi) (config_key label gi) = Some (generateInstanceConfig c))"

lemma knows_same: "same_configs gi gi' \<Longrightarrow> knows m gi \<Longrightarrow> knows m gi'"
  by (simp add: knows_def same_configs_def config_key_def)

lemma knows_empty [simp]: "knows fmempty gi" by (simp add: knows_def)

lemma config_updated_configs:
  "gi_insConfig (config_updated ok ord label c gi) = fmupd (config_key label gi) (generateInstanceConfig c) (gi_insConfig gi)"
  "gi_defaultResKey (config_updated ok ord label c gi) = gi_defaultResKey gi"
  using handle_update_same_configs by (simp_all add: config_updated_def Let_def same_configs_def)

lemma config_key_updated [simp]: "config_key label (config_updated ok ord label' c gi) = config_key label gi"
  by (simp add: config_key_def config_updated_configs)

lemma knows_updated: "knows m gi \<Longrightarrow> knows (fmupd label c m) (config_updated ok ord label c gi)"
  by (auto simp: knows_def config_updated_configs)

lemma knows_deleted: "knows m gi \<Longrightarrow> knows (fmdrop label m) (config_deleted ord label c gi)"
proof -
  assume known: "knows m gi"
  let ?k = "config_key label gi"
  have "knows (fmdrop label m) (gi\<lparr>gi_insConfig := fmdrop ?k (gi_insConfig gi)\<rparr>)"
    using known unfolding knows_def by (auto simp: config_key_def split: if_splits dest: arg_cong [where f = rk_InvokeLabel])
  then show ?thesis using knows_same [OF delete_same_configs] by (simp add: config_deleted_def Let_def)
qed

definition pool_knows :: "(string, Configuration) gomap \<Rightarrow> instance_pool \<Rightarrow> bool" where
  "pool_knows m pool \<longleftrightarrow> (case pool of Generic gi \<Rightarrow> knows m gi | OneShot _ \<Rightarrow> True)"

lemma pool_knows_simps [simp]: "pool_knows m (Generic gi) = knows m gi" "pool_knows m (OneShot op)"
  by (simp_all add: pool_knows_def)

lemma send_kinds:
  "send_configs env m (Generic gi) =
     Generic (fold (\<lambda>label gi. case fmlookup m label of None \<Rightarrow> gi | Some c \<Rightarrow> config_updated (me_ok env) (me_ord env) label c gi) (me_labels env m) gi)"
  "send_configs env m (OneShot op) = OneShot op"
proof -
  let ?f = "\<lambda>label pool. case fmlookup m label of None \<Rightarrow> pool | Some c \<Rightarrow> pool_config_update env label c pool"
  let ?g = "\<lambda>label gi. case fmlookup m label of None \<Rightarrow> gi | Some c \<Rightarrow> config_updated (me_ok env) (me_ord env) label c gi"
  have "fold ?f ls (Generic gi) = Generic (fold ?g ls gi)" for ls
    by (induction ls arbitrary: gi) (auto split: option.splits)
  then show "send_configs env m (Generic gi) = Generic (fold ?g (me_labels env m) gi)" by (simp add: send_configs_def)
  have "fold ?f ls (OneShot op) = OneShot op" for ls by (induction ls) (auto split: option.splits)
  then show "send_configs env m (OneShot op) = OneShot op" by (simp add: send_configs_def)
qed

lemma knows_sent_generic:
  assumes "range_order (me_labels env)" and "send_configs env m (Generic gi) = Generic gi'"
  shows "knows m gi'"
proof -
  let ?send = "\<lambda>label gi. case fmlookup m label of None \<Rightarrow> gi | Some c \<Rightarrow> config_updated (me_ok env) (me_ord env) label c gi"
  have "knows (fmfilter (\<lambda>l. l \<in> A \<union> set ls) m) (fold ?send ls g)" if "knows (fmfilter (\<lambda>l. l \<in> A) m) g" for A ls g
    using that
  proof (induction ls arbitrary: A g)
    case (Cons l ls)
    have "knows (fmfilter (\<lambda>x. x \<in> insert l A) m) (?send l g)"
      using Cons.prems unfolding knows_def by (auto simp: config_updated_configs split: option.split)
    from Cons.IH [OF this] show ?case by simp
  qed simp
  from this [of "{}" gi "me_labels env m"] have "knows (fmfilter (\<lambda>l. l \<in> fmdom' m) m) gi'"
    using range_orderD(2) [OF assms(1)] assms(2) by (simp add: send_kinds knows_def)
  then show ?thesis by (auto simp: knows_def fmdom'I)
qed

lemma knows_sent: "range_order (me_labels env) \<Longrightarrow> pool_knows m (send_configs env m pool)"
  by (cases pool) (auto simp: send_kinds intro: knows_sent_generic [OF _ send_kinds(1)])

lemma configs_known_iff:
  "configs_known pm \<longleftrightarrow> (\<forall>funcKey pool. fmlookup (pm_instancePool pm) funcKey = Some pool \<longrightarrow> pool_knows (config_records funcKey pm) pool)"
  unfolding configs_known_def pool_knows_def knows_def by (fastforce split: instance_pool.splits)

lemma store_pool_sel [simp]:
  "fmlookup (pm_instancePool (store_pool funcKey pool pm)) k = (if k = funcKey then Some pool else fmlookup (pm_instancePool pm) k)"
  "config_records k (store_pool funcKey pool pm) = config_records k pm"
  by (simp_all add: store_pool_def config_records_def)

lemma note_effects_sel [simp]:
  "pm_instancePool (note_effects es pm) = pm_instancePool pm" "config_records k (note_effects es pm) = config_records k pm"
  by (simp_all add: note_effects_def config_records_def)

lemma config_records_upd [simp]:
  "config_records k (pm\<lparr>pm_instanceConfigRecord := fmupd funcKey m (pm_instanceConfigRecord pm)\<rparr>) = (if k = funcKey then m else config_records k pm)"
  by (simp add: config_records_def)

lemma known_put: "configs_known pm \<Longrightarrow> pool_knows (config_records funcKey pm) pool \<Longrightarrow> configs_known (store_pool funcKey pool pm)"
  by (simp add: configs_known_iff)

lemma known_note [simp]: "configs_known (note_effects es pm) = configs_known pm"
  by (simp add: configs_known_iff)

lemma known_function_update: "env_orders env \<Longrightarrow> configs_known pm \<Longrightarrow> configs_known (function_update_event env funcKey resKey pm)"
  by (auto simp: function_update_event_def env_orders_def intro!: known_put knows_sent split: option.split)

lemma known_function_delete: "configs_known pm \<Longrightarrow> configs_known (snd (function_delete_event env funcKey pm))"
proof -
  assume "configs_known pm"
  then have "configs_known (processInstancePoolDelete funcKey pm)"
    by (auto simp: processInstancePoolDelete_def configs_known_iff config_records_def split: option.splits if_splits)
  with \<open>configs_known pm\<close> show ?thesis by (auto simp: function_delete_event_def split: option.split prod.split)
qed

lemma pool_knows_updated: "pool_knows m pool \<Longrightarrow> pool_knows (fmupd label c m) (pool_config_update env label c pool)"
  by (cases pool) (simp_all add: knows_updated)

lemma pool_knows_deleted: "pool_knows m pool \<Longrightarrow> pool_knows (fmdrop label m) (pool_config_delete env label c pool)"
  by (cases pool) (simp_all add: knows_deleted)

lemma known_config_update: "configs_known pm \<Longrightarrow> configs_known (config_update_event env funcKey label c pm)"
  by (auto simp: config_update_event_def config_update_rest_def Let_def configs_known_iff intro!: pool_knows_updated split: option.splits)

lemma known_config_delete: "configs_known pm \<Longrightarrow> configs_known (config_delete_event env funcKey label c pm)"
proof -
  assume known: "configs_known pm"
  show ?thesis
  proof (cases "fmlookup (pm_instanceConfigRecord pm) funcKey")
    case (Some m)
    then have m: "config_records funcKey pm = m" by (simp add: config_records_def)
    have "pool_knows (fmdrop label m) (pool_config_delete env label c pool)" if "fmlookup (pm_instancePool pm) funcKey = Some pool" for pool
      using known that m pool_knows_deleted unfolding configs_known_iff by blast
    then show ?thesis using Some known by (auto simp: config_delete_event_def Let_def configs_known_iff split: option.split)
  qed (use known in \<open>simp add: config_delete_event_def\<close>)
qed

lemma clean_same_configs: "same_configs gi (CleanOrphansInstanceQueue ord gi)"
  by (simp add: CleanOrphansInstanceQueue_def Let_def) (simp add: same_configs_def)

lemma pool_knows_clean: "pool_knows m pool \<Longrightarrow> pool_knows m (pool_clean_orphans env pool)"
  by (cases pool) (auto intro: knows_same [OF clean_same_configs])

lemma known_generic:
  assumes "configs_known pm" and "fmlookup (pm_instancePool pm) funcKey = Some (Generic gi)" and "same_configs gi gi'"
  shows "configs_known (store_pool funcKey (Generic gi') pm)"
proof (rule known_put [OF assms(1)])
  have "pool_knows (config_records funcKey pm) (Generic gi)" using assms(1,2) unfolding configs_known_iff by blast
  then show "pool_knows (config_records funcKey pm) (Generic gi')" using knows_same [OF assms(3)] by simp
qed

lemma known_oneshot: "configs_known pm \<Longrightarrow> configs_known (store_pool funcKey (OneShot op) (note_effects es pm))"
  by (intro known_put) simp_all

lemma known_acquire:
  assumes "AcquireInstanceThread env deleted stateful num acq now created funcKey req pm = (r, pm')" and "configs_known pm"
  shows "configs_known pm'"
  using assms
  by (auto simp: AcquireInstanceThread_def acquire_track_def intro: known_generic [OF _ _ pool_acquire_same_configs] known_oneshot
      split: option.splits instance_pool.splits prod.splits sum.splits)

lemma known_instance_event: "configs_known pm \<Longrightarrow> configs_known (pool_instance_event env funcKey event i pm)"
  using event_same_configs [OF prod.collapse [symmetric]]
  by (auto simp: pool_instance_event_def intro: known_generic known_oneshot split: option.split instance_pool.split prod.split)

lemma known_step: "manager_step b pm pm' \<Longrightarrow> \<not> b \<Longrightarrow> configs_known pm \<Longrightarrow> configs_known pm'"
proof (induction rule: manager_step.induct)
  case (config_synced pm env meant)
  then show ?case
    by (auto simp: config_synced_event_def configs_known_iff config_records_def intro: pool_knows_clean split: if_splits)
next
  case (state_pool pm funcKey env resKey)
  then show ?case by (auto simp: pool_for_state_def)
next
  case (stale_look env exist pm funcKey label c)
  then have "config_update_rest env exist funcKey label c pm = config_update_event env funcKey label c pm"
    by (simp add: config_update_event_def)
  with stale_look show ?case by (simp add: known_config_update)
qed (simp_all add: known_function_update known_function_delete known_config_update known_config_delete known_acquire known_instance_event)

text \<open>
  C37: In runs of function, configuration, instance and acquire events, one after the other, in which no pool is made for the deletion of a state or by the recovery
  and no configuration is recorded after an earlier look for its pool, a generic pool has every configuration the manager has recorded for its function, under the
  resources the function has now: also when the function came after the configuration and when its resources have changed. One-shot pools
  keep no configurations. \<open>new_pool_misses_config\<close> and \<open>state_pool_misses_config\<close> show what happens otherwise.
\<close>

theorem recorded_configs_known:
  assumes "manager_run bs pm" and "True \<notin> set bs"
    and "fmlookup (pm_instancePool pm) funcKey = Some (Generic gi)" and "fmlookup (config_records funcKey pm) label = Some c"
  shows "fmlookup (gi_insConfig gi) (config_key label gi) = Some (generateInstanceConfig c)"
proof -
  have "configs_known pm" using assms(1,2)
  proof (induction rule: manager_run.induct)
    case manager_start
    show ?case by (simp add: configs_known_def)
  next
    case (manager_next bs pm b pm')
    then show ?case using known_step by auto
  qed
  with assms(3,4) show ?thesis unfolding configs_known_def by blast
qed

section \<open>Scenarios\<close>

definition plain_env :: manager_env where
  "plain_env = \<lparr>me_oneshot = False, me_signature = [], me_timeout = 3, me_poolLabel = [], me_wiseCloud = False, me_same = False, me_confs = [], me_ok = True, me_ord = in_order [], me_labels = (\<lambda>m. if fmlookup m ''gray'' = None then [] else [''gray'']), me_active = (\<lambda>_. [])\<rparr>"

abbreviation (input) empty_manager :: PoolManager where
  "empty_manager \<equiv> \<lparr>pm_instancePool = fmempty, pm_instanceConfigRecord = fmempty, pm_effects = []\<rparr>"

fun generic_of :: "instance_pool \<Rightarrow> QueuePool option" where
  "generic_of (Generic gi) = Some gi"
| "generic_of (OneShot op) = None"

text \<open>
  The pool is looked for before the configuration is recorded. When the function is made in between, the pool is not told: it asks for the recorded
  configurations too early, and the event does not know it yet.
\<close>

theorem new_pool_misses_config:
  "(let exist = fmlookup (pm_instancePool empty_manager) ''f'' \<noteq> None;
        pm1 = function_update_event plain_env ''f'' (res_key 500 []) empty_manager;
        pm2 = config_update_rest plain_env exist ''f'' ''gray'' conf03 pm1
    in (fmlookup (config_records ''f'' pm2) ''gray'',
        map_option (\<lambda>gi. fmlookup (gi_insConfig gi) (config_key ''gray'' gi)) (Option.bind (fmlookup (pm_instancePool pm2) ''f'') generic_of))) =
   (Some conf03, Some None)"
  by code_simp

text \<open>A configuration is recorded; the deletion of a state then makes the pool of the function, which is not told.\<close>

theorem state_pool_misses_config:
  "(let pm = pool_for_state plain_env ''f'' (res_key 500 []) (config_update_event plain_env ''f'' ''gray'' conf03 empty_manager)
    in (fmlookup (config_records ''f'' pm) ''gray'',
        map_option (\<lambda>gi. fmlookup (gi_insConfig gi) (config_key ''gray'' gi)) (Option.bind (fmlookup (pm_instancePool pm) ''f'') generic_of))) =
   (Some conf03, Some None)"
  by code_simp

theorem recorded_configs_known_witness:
  "\<exists>bs pm gi. manager_run bs pm \<and> True \<notin> set bs \<and> fmlookup (pm_instancePool pm) ''f'' = Some (Generic gi) \<and>
     fmlookup (config_records ''f'' pm) ''gray'' = Some conf03 \<and>
     fmlookup (gi_insConfig gi) (config_key ''gray'' gi) = Some (generateInstanceConfig conf03)"
proof -
  obtain qo :: queue_order where qo: "range_order qo" using range_order_exists by blast
  obtain lo :: "(string, Configuration) gomap \<Rightarrow> string list" where lo: "range_order lo" using range_order_exists by blast
  define env where "env = plain_env\<lparr>me_ord := qo, me_labels := lo\<rparr>"
  have env: "env_orders env" using qo lo by (simp add: env_def env_orders_def)
  define pm1 where "pm1 = config_update_event env ''f'' ''gray'' conf03 empty_manager"
  define pm2 where "pm2 = function_update_event env ''f'' (res_key 500 []) pm1"
  have pm1: "pm_instancePool pm1 = fmempty" "fmlookup (config_records ''f'' pm1) ''gray'' = Some conf03"
    by (simp_all add: pm1_def config_update_event_def config_update_rest_def config_records_def Let_def)
  have run: "manager_run [False, False] pm2"
    unfolding pm2_def pm1_def
    by (rule manager_next [OF manager_next [OF manager_start manager_step.config_update [OF env]] manager_step.function_update [OF env]])
  have "me_ok env" "\<not> me_oneshot env" by (simp_all add: env_def plain_env_def)
  then obtain gi where gi: "fmlookup (pm_instancePool pm2) ''f'' = Some (Generic gi)" "config_records ''f'' pm2 = config_records ''f'' pm1"
    using pm1(1) by (simp add: pm2_def function_update_event_def processInstancePoolCreate_def send_kinds)
  have rec: "fmlookup (config_records ''f'' pm2) ''gray'' = Some conf03" using gi(2) pm1(2) by simp
  from recorded_configs_known [OF run _ gi(1) rec]
  have "fmlookup (gi_insConfig gi) (config_key ''gray'' gi) = Some (generateInstanceConfig conf03)" by simp
  with run gi(1) rec show ?thesis by (intro exI [of _ "[False, False]"] exI [of _ pm2] exI [of _ gi]) simp
qed

section \<open>Abnormal instances\<close>

text \<open>\<^verbatim>\<open>ReleaseAbnormalInstance\<close>: whether the instance is removed. The map with expiring entries remembers the removals of the last minute.\<close>

abbreviation (input) minute :: duration where "minute \<equiv> 60 * second"

definition ReleaseAbnormalInstance :: "time \<Rightarrow> bool \<Rightarrow> string \<Rightarrow> unit TimeoutMap \<Rightarrow> bool \<times> unit TimeoutMap" where
  "ReleaseAbnormalInstance now exist instanceID m =
     (if \<not> exist then (False, m)
      else case tm_Get now instanceID m of (Some _, m1) \<Rightarrow> (False, m1) | (None, m1) \<Rightarrow> (True, tm_Set now instanceID () minute m1))"

datatype abnormal_event = Report bool string | Cleanup

text \<open>The removals a sequence of events leads to, with their times.\<close>

fun removals :: "(time \<times> abnormal_event) list \<Rightarrow> unit TimeoutMap \<Rightarrow> (time \<times> string) list" where
  "removals [] m = []"
| "removals ((now, Cleanup) # es) m = removals es (tm_cleanup now m)"
| "removals ((now, Report exist instanceID) # es) m =
     (case ReleaseAbnormalInstance now exist instanceID m of (b, m1) \<Rightarrow> (if b then [(now, instanceID)] else []) @ removals es m1)"

lemma release_cases:
  assumes "ReleaseAbnormalInstance now exist instanceID m = (b, m1)" and "now \<le> t"
  shows "alive t k m1 = (if b \<and> k = instanceID then (if t > now + minute then None else Some ()) else alive t k m)"
    and "b \<Longrightarrow> alive now instanceID m = None"
  using assms Get_alive [of now instanceID m] alive_Get [OF assms(2), of k instanceID m]
  by (auto simp: ReleaseAbnormalInstance_def alive_Set split: if_splits prod.splits option.splits)

text \<open>While the map remembers an instance it is not removed.\<close>

lemma removals_after:
  assumes "sorted (start # map fst es)" and "\<And>t. start \<le> t \<Longrightarrow> t \<le> limit \<Longrightarrow> alive t i m \<noteq> None" and "(t, i) \<in> set (removals es m)"
  shows "limit < t"
  using assms
proof (induction es m arbitrary: start rule: removals.induct)
  case (2 now es m)
  have "alive t i (tm_cleanup now m) \<noteq> None" if "now \<le> t" "t \<le> limit" for t
    using "2.prems"(1,2) that by (simp add: alive_cleanup)
  then show ?case using "2.IH" [of now] "2.prems" by simp
next
  case (3 now exist instanceID es m)
  obtain b m1 where r: "ReleaseAbnormalInstance now exist instanceID m = (b, m1)" by fastforce
  have now: "start \<le> now" "sorted (now # map fst es)" using "3.prems"(1) by simp_all
  have gone: "limit < now" if "b" "instanceID = i"
    using release_cases(2) [OF r order_refl that(1)] "3.prems"(2) [of now] now(1) that(2) by fastforce
  have late: "limit < t" if mem: "(t, i) \<in> set (removals es m1)"
  proof (rule "3.IH" [OF r [symmetric] now(2) _ mem])
    show "alive t i m1 \<noteq> None" if "now \<le> t" "t \<le> limit" for t
      using release_cases(1) [OF r that(1), of i] "3.prems"(2) [of t] now(1) that gone by (auto split: if_splits)
  qed
  show ?case using "3.prems"(3) r late gone by (auto split: if_splits)
qed simp

text \<open>
  Reports of an abnormal instance, however many, lead to removals that are more than a minute apart.
\<close>

theorem abnormal_removed_once_a_minute:
  assumes "sorted (map fst es)"
  shows "sorted_wrt (\<lambda>(t, i) (t', i'). i = i' \<longrightarrow> t + minute < t') (removals es m)"
  using assms
proof (induction es m rule: removals.induct)
  case (3 now exist instanceID es m)
  obtain b m1 where r: "ReleaseAbnormalInstance now exist instanceID m = (b, m1)" by fastforce
  have srt: "sorted (now # map fst es)" using "3.prems" by simp
  have "now + minute < t" if "b" "(t, instanceID) \<in> set (removals es m1)" for t
    using removals_after [OF srt _ that(2), of "now + minute"] release_cases(1) [OF r, of _ instanceID] that(1) by simp
  then show ?case using "3.IH" [OF r [symmetric]] srt r by auto
qed simp_all

theorem abnormal_removed_once_a_minute_witness:
  "sorted_wrt (\<lambda>(t, i) (t', i'). i = i' \<longrightarrow> t + minute < t')
     (removals [(0, Report True ''i''), (5, Report True ''i''), (minute, Cleanup), (minute + 1, Report True ''i'')] NewTimeoutMap) \<and>
   removals [(0, Report True ''i''), (5, Report True ''i''), (minute, Cleanup), (minute + 1, Report True ''i'')] NewTimeoutMap = [(0, ''i''), (minute + 1, ''i'')]"
proof
  show "removals [(0, Report True ''i''), (5, Report True ''i''), (minute, Cleanup), (minute + 1, Report True ''i'')] NewTimeoutMap =
      [(0, ''i''), (minute + 1, ''i'')]" by code_simp
qed (rule abnormal_removed_once_a_minute, simp)

end
