(* ===== verification/WeightedRoundRobin.thy ===== *)
theory WeightedRoundRobin
  imports GoPrelude
begin

text \<open>
  The weighted round robin of \<^verbatim>\<open>common/faas_common/loadbalance/roundrobin.go\<close>, which shares the requests for an alias between the versions of a
  function. Shown: as many requests as the weights add up to give every node exactly its weight, and leave the balancer as it was.
\<close>

section \<open>Data and operations\<close>

record 'a WeightNginx =
  wn_Node :: 'a
  wn_Weight :: int
  wn_CurrentWeight :: int
  wn_EffectiveWeight :: int

record 'a WNGINX =
  wx_nodes :: "'a WeightNginx list"

definition wx_Add :: "'a \<Rightarrow> int \<Rightarrow> 'a WNGINX \<Rightarrow> 'a WNGINX" where
  "wx_Add node weight w =
     w\<lparr>wx_nodes := wx_nodes w @ [\<lparr>wn_Node = node, wn_Weight = weight, wn_CurrentWeight = 0, wn_EffectiveWeight = weight\<rparr>]\<rparr>"

fun remove_node :: "'a \<Rightarrow> 'a WeightNginx list \<Rightarrow> 'a WeightNginx list" where
  "remove_node node [] = []"
| "remove_node node (n # ns) = (if wn_Node n = node then ns else n # remove_node node ns)"

definition wx_Remove :: "'a \<Rightarrow> 'a WNGINX \<Rightarrow> 'a WNGINX" where
  "wx_Remove node w = w\<lparr>wx_nodes := remove_node node (wx_nodes w)\<rparr>"

definition wx_RemoveAll :: "'a WNGINX \<Rightarrow> 'a WNGINX" where
  "wx_RemoveAll w = w\<lparr>wx_nodes := []\<rparr>"

definition wx_Reset :: "'a WNGINX \<Rightarrow> 'a WNGINX" where
  "wx_Reset w = w\<lparr>wx_nodes := map (\<lambda>s. s\<lparr>wn_EffectiveWeight := wn_Weight s, wn_CurrentWeight := 0\<rparr>) (wx_nodes w)\<rparr>"

text \<open>
  \<^verbatim>\<open>nextWeightedNode\<close>: one pass raises every node and remembers the first one with the greatest weight, which is then lowered. The result is its
  position.
\<close>

definition raise_node :: "'a WeightNginx \<Rightarrow> 'a WeightNginx" where
  "raise_node w = w\<lparr>wn_CurrentWeight := wn_CurrentWeight w + wn_EffectiveWeight w\<rparr>"

definition weight_pass :: "nat \<Rightarrow> 'a WeightNginx list \<times> int \<times> nat \<Rightarrow> 'a WeightNginx list \<times> int \<times> nat" where
  "weight_pass i = (\<lambda>(ns, whole, best).
     let ns' = ns[i := raise_node (ns ! i)]
     in (ns', whole + wn_EffectiveWeight (ns ! i), if wn_CurrentWeight (ns' ! i) > wn_CurrentWeight (ns' ! best) then i else best))"

definition nextWeightedNode :: "'a WeightNginx list \<Rightarrow> (nat \<times> 'a WeightNginx list) option" where
  "nextWeightedNode nodes =
     (if nodes = [] then None
      else case fold weight_pass [0..<length nodes] (nodes, 0, 0) of
        (ns, whole, best) \<Rightarrow> Some (best, ns[best := (ns ! best)\<lparr>wn_CurrentWeight := wn_CurrentWeight (ns ! best) - whole\<rparr>]))"

definition wx_Next :: "'a WNGINX \<Rightarrow> 'a option \<times> 'a WNGINX" where
  "wx_Next w =
     (case wx_nodes w of
        [] \<Rightarrow> (None, w)
      | [n] \<Rightarrow> (Some (wn_Node n), w)
      | _ \<Rightarrow>
          (case nextWeightedNode (wx_nodes w) of
             None \<Rightarrow> (None, w)
           | Some (best, ns) \<Rightarrow> (Some (wn_Node (ns ! best)), w\<lparr>wx_nodes := ns\<rparr>)))"

text \<open>The answers to a number of requests.\<close>

fun wx_requests :: "nat \<Rightarrow> 'a WNGINX \<Rightarrow> 'a option list \<times> 'a WNGINX" where
  "wx_requests 0 w = ([], w)"
| "wx_requests (Suc n) w = (case wx_Next w of (a, w1) \<Rightarrow> case wx_requests n w1 of (as, w2) \<Rightarrow> (a # as, w2))"

section \<open>One request\<close>

definition total_weight :: "'a WeightNginx list \<Rightarrow> int" where
  "total_weight ns = (\<Sum>n\<leftarrow>ns. wn_EffectiveWeight n)"

lemma weight_pass_prefix:
  assumes "nodes \<noteq> []" and "k \<le> length nodes"
  shows "\<exists>best. fold weight_pass [0..<k] (nodes, 0, 0) =
      (map raise_node (take k nodes) @ drop k nodes, total_weight (take k nodes), best) \<and> best < length nodes \<and> (0 < k \<longrightarrow> best < k) \<and>
      (\<forall>i < k. wn_CurrentWeight (raise_node (nodes ! i)) \<le> wn_CurrentWeight (raise_node (nodes ! best)))"
  using assms(2)
proof (induction k)
  case (Suc k)
  let ?ns = "map raise_node (take k nodes) @ drop k nodes" and ?ns' = "map raise_node (take (Suc k) nodes) @ drop (Suc k) nodes"
  from Suc obtain best where b: "fold weight_pass [0..<k] (nodes, 0, 0) = (?ns, total_weight (take k nodes), best)" "best < length nodes"
    "0 < k \<longrightarrow> best < k" "\<forall>i < k. wn_CurrentWeight (raise_node (nodes ! i)) \<le> wn_CurrentWeight (raise_node (nodes ! best))" by auto
  have k: "k < length nodes" using Suc.prems by simp
  have at: "?ns ! k = nodes ! k" using k by (simp add: nth_append)
  have upd: "?ns[k := raise_node (nodes ! k)] = ?ns'"
    using k by (simp add: list_update_append take_Suc_conv_app_nth Cons_nth_drop_Suc [symmetric])
  have tot: "total_weight (take k nodes) + wn_EffectiveWeight (nodes ! k) = total_weight (take (Suc k) nodes)"
    using k by (simp add: total_weight_def take_Suc_conv_app_nth)
  have raised: "?ns' ! i = raise_node (nodes ! i)" if "i \<le> k" for i using that k by (simp add: nth_append)
  have "best = 0" if "k = 0" using b(1) that by simp
  then have best: "best \<le> k" using b(3) by (cases k) auto
  define best' where "best' = (if wn_CurrentWeight (raise_node (nodes ! k)) > wn_CurrentWeight (raise_node (nodes ! best)) then k else best)"
  have "fold weight_pass [0..<Suc k] (nodes, 0, 0) = (?ns', total_weight (take (Suc k) nodes), best')"
    using b(1) at upd tot raised [of k] raised [of best] best by (simp add: weight_pass_def Let_def best'_def del: map_append)
  moreover have "wn_CurrentWeight (raise_node (nodes ! i)) \<le> wn_CurrentWeight (raise_node (nodes ! best'))" if "i < Suc k" for i
    using that b(4) by (cases "i = k") (auto simp: best'_def less_Suc_eq intro: order_trans [OF _ less_imp_le])
  moreover have "best' < length nodes" "best' < Suc k" using best k by (auto simp: best'_def)
  ultimately show ?case by blast
qed (use assms(1) in \<open>simp add: total_weight_def\<close>)

lemma nextWeightedNode_some:
  assumes "nodes \<noteq> []"
  shows "\<exists>best. best < length nodes \<and>
      (\<forall>i < length nodes. wn_CurrentWeight (nodes ! i) + wn_EffectiveWeight (nodes ! i) \<le> wn_CurrentWeight (nodes ! best) + wn_EffectiveWeight (nodes ! best)) \<and>
      nextWeightedNode nodes = Some (best, (map raise_node nodes)[best :=
        (raise_node (nodes ! best))\<lparr>wn_CurrentWeight := wn_CurrentWeight (nodes ! best) + wn_EffectiveWeight (nodes ! best) - total_weight nodes\<rparr>])"
proof -
  from weight_pass_prefix [OF assms order_refl] obtain best where
    b: "fold weight_pass [0..<length nodes] (nodes, 0, 0) = (map raise_node nodes, total_weight nodes, best)" "best < length nodes"
    "\<forall>i < length nodes. wn_CurrentWeight (raise_node (nodes ! i)) \<le> wn_CurrentWeight (raise_node (nodes ! best))" by auto
  then show ?thesis using assms by (auto simp: nextWeightedNode_def raise_node_def)
qed

lemma nextWeightedNode_nodes:
  assumes "nextWeightedNode nodes = Some (best, ns)"
  shows "best < length nodes \<and> map wn_Node ns = map wn_Node nodes"
proof -
  have "nodes \<noteq> []" using assms by (auto simp: nextWeightedNode_def)
  from nextWeightedNode_some [OF this] assms show ?thesis by (auto intro!: nth_equalityI simp: nth_list_update raise_node_def)
qed

section \<open>A round of requests\<close>

text \<open>
  After requests that were answered by the nodes at the positions \<open>cs\<close>: the weight of a node is what it has been raised by less what it has been
  lowered by, and no node is below the total.
\<close>

definition shared_out :: "int list \<Rightarrow> nat list \<Rightarrow> 'a WeightNginx list \<Rightarrow> bool" where
  "shared_out es cs ns \<longleftrightarrow>
     map wn_EffectiveWeight ns = es \<and>
     (\<forall>i < length es. wn_CurrentWeight (ns ! i) = int (length cs) * es ! i - sum_list es * int (count_list cs i)) \<and>
     (\<forall>i < length es. - sum_list es < wn_CurrentWeight (ns ! i)) \<and> set cs \<subseteq> {..<length es}"

lemma sum_count_list: "set cs \<subseteq> {..<n :: nat} \<Longrightarrow> (\<Sum>i<n. int (count_list cs i)) = int (length cs)"
  using sum_count_set [of cs "{..<n}", OF _ finite_lessThan] by (simp flip: of_nat_sum)

lemma shared_out_sum:
  assumes "shared_out es cs ns"
  shows "(\<Sum>i<length es. wn_CurrentWeight (ns ! i)) = 0"
proof -
  have "(\<Sum>i<length es. wn_CurrentWeight (ns ! i)) = (\<Sum>i<length es. int (length cs) * es ! i) - (\<Sum>i<length es. sum_list es * int (count_list cs i))"
    using assms by (simp add: shared_out_def sum_subtractf [symmetric])
  also have "\<dots> = int (length cs) * sum_list es - sum_list es * int (length cs)"
    using assms sum_count_list [of cs "length es"] by (auto simp: shared_out_def sum_distrib_left [symmetric] sum_list_sum_nth atLeast0LessThan)
  finally show ?thesis by simp
qed

lemma shared_out_next:
  assumes "shared_out es cs ns" and "\<forall>e \<in> set es. 0 \<le> e" and "0 < sum_list es"
  shows "\<exists>best ns'. nextWeightedNode ns = Some (best, ns') \<and> best < length es \<and> map wn_Node ns' = map wn_Node ns \<and> shared_out es (cs @ [best]) ns'"
proof -
  have len: "length ns = length es" and eff: "\<And>i. i < length es \<Longrightarrow> wn_EffectiveWeight (ns ! i) = es ! i"
    using assms(1) unfolding shared_out_def by (metis length_map, metis length_map nth_map)
  have "ns \<noteq> []" using assms(3) len by auto
  have tot: "total_weight ns = sum_list es" using assms(1) by (simp add: total_weight_def shared_out_def)
  from nextWeightedNode_some [OF \<open>ns \<noteq> []\<close>] len obtain best where best: "best < length es"
    and max: "\<And>i. i < length es \<Longrightarrow> wn_CurrentWeight (ns ! i) + es ! i \<le> wn_CurrentWeight (ns ! best) + es ! best"
    and nxt: "nextWeightedNode ns = Some (best, (map raise_node ns)[best :=
        (raise_node (ns ! best))\<lparr>wn_CurrentWeight := wn_CurrentWeight (ns ! best) + es ! best - sum_list es\<rparr>])"
    using eff tot by auto
  let ?top = "wn_CurrentWeight (ns ! best) + es ! best"
  have "sum_list es = (\<Sum>i<length es. wn_CurrentWeight (ns ! i) + es ! i)"
    using shared_out_sum [OF assms(1)] by (simp add: sum.distrib sum_list_sum_nth atLeast0LessThan)
  also have "\<dots> \<le> (\<Sum>i<length es. ?top)" using max by (intro sum_mono) auto
  finally have "0 < int (length es) * ?top" using assms(3) by simp
  then have top: "0 < ?top" by (simp add: zero_less_mult_iff)
  let ?ns' = "(map raise_node ns)[best := (raise_node (ns ! best))\<lparr>wn_CurrentWeight := ?top - sum_list es\<rparr>]"
  have cur: "wn_CurrentWeight (?ns' ! i) = wn_CurrentWeight (ns ! i) + es ! i - (if i = best then sum_list es else 0)" if "i < length es" for i
    using that len best eff by (auto simp: nth_list_update raise_node_def)
  have "map wn_EffectiveWeight ?ns' = es"
    using best len eff by (intro nth_equalityI) (simp_all add: nth_list_update raise_node_def)
  moreover have "map wn_Node ?ns' = map wn_Node ns" using best len by (intro nth_equalityI) (auto simp: nth_list_update raise_node_def)
  moreover have "- sum_list es < wn_CurrentWeight (?ns' ! i)" if "i < length es" for i
  proof -
    have "- sum_list es < wn_CurrentWeight (ns ! i)" using that assms(1) unfolding shared_out_def by blast
    moreover have "0 \<le> es ! i" using that assms(2) by simp
    ultimately show ?thesis using cur [OF that] top by (cases "i = best") simp_all
  qed
  moreover have "wn_CurrentWeight (?ns' ! i) = int (length (cs @ [best])) * es ! i - sum_list es * int (count_list (cs @ [best]) i)" if "i < length es" for i
    using cur [OF that] that assms(1) by (auto simp: shared_out_def algebra_simps)
  ultimately have "shared_out es (cs @ [best]) ?ns'" "map wn_Node ?ns' = map wn_Node ns" using assms(1) best by (auto simp: shared_out_def)
  then show ?thesis using nxt best by blast
qed

lemma shared_out_requests:
  assumes "shared_out es cs (wx_nodes w)" and "\<forall>e \<in> set es. 0 \<le> e" and "0 < sum_list es" and "2 \<le> length es"
  shows "\<exists>picks. fst (wx_requests n w) = map (\<lambda>i. Some (map wn_Node (wx_nodes w) ! i)) picks \<and> length picks = n \<and>
      shared_out es (cs @ picks) (wx_nodes (snd (wx_requests n w))) \<and> map wn_Node (wx_nodes (snd (wx_requests n w))) = map wn_Node (wx_nodes w)"
  using assms(1)
proof (induction n arbitrary: w cs)
  case (Suc n)
  obtain best ns' where b: "nextWeightedNode (wx_nodes w) = Some (best, ns')" "best < length es" "map wn_Node ns' = map wn_Node (wx_nodes w)"
    "shared_out es (cs @ [best]) ns'" using shared_out_next [OF Suc.prems assms(2,3)] by blast
  have len: "length (wx_nodes w) = length es" using Suc.prems unfolding shared_out_def by (metis length_map)
  then have two: "\<exists>a b rest. wx_nodes w = a # b # rest" using assms(4) by (metis Suc_le_length_iff numeral_2_eq_2)
  have "wn_Node (ns' ! best) = map wn_Node (wx_nodes w) ! best"
    using b(2,3) len by (metis length_map nth_map)
  then have nx: "wx_Next w = (Some (map wn_Node (wx_nodes w) ! best), w\<lparr>wx_nodes := ns'\<rparr>)" using two b(1) by (auto simp: wx_Next_def)
  from Suc.IH [of "cs @ [best]" "w\<lparr>wx_nodes := ns'\<rparr>"] b(3,4) obtain picks where
    "fst (wx_requests n (w\<lparr>wx_nodes := ns'\<rparr>)) = map (\<lambda>i. Some (map wn_Node (wx_nodes w) ! i)) picks" "length picks = n"
    "shared_out es (cs @ best # picks) (wx_nodes (snd (wx_requests n (w\<lparr>wx_nodes := ns'\<rparr>))))"
    "map wn_Node (wx_nodes (snd (wx_requests n (w\<lparr>wx_nodes := ns'\<rparr>)))) = map wn_Node (wx_nodes w)" by auto
  then show ?case using nx by (intro exI [of _ "best # picks"]) (auto split: prod.splits)
qed auto

lemma full_round_exact:
  assumes "shared_out es cs ns" and "length cs = nat (sum_list es)" and "0 < sum_list es" and "i < length es"
  shows "int (count_list cs i) = es ! i \<and> wn_CurrentWeight (ns ! i) = 0"
proof -
  let ?T = "sum_list es"
  have cur: "wn_CurrentWeight (ns ! j) = ?T * (es ! j - int (count_list cs j))" "- ?T < wn_CurrentWeight (ns ! j)" if "j < length es" for j
    using assms(1,2,3) that unfolding shared_out_def by (auto simp: algebra_simps)
  have le: "int (count_list cs j) \<le> es ! j" if "j < length es" for j
  proof -
    have "?T * (- 1) < ?T * (es ! j - int (count_list cs j))" using cur [OF that] by simp
    then have "- 1 < es ! j - int (count_list cs j)" using assms(3) by (simp only: mult_less_cancel_left_pos)
    then show ?thesis by simp
  qed
  have "(\<Sum>j<length es. int (count_list cs j)) = (\<Sum>j<length es. es ! j)"
    using sum_count_list [of cs "length es"] assms(1,2,3) by (simp add: shared_out_def sum_list_sum_nth atLeast0LessThan)
  then have "int (count_list cs i) = es ! i"
    using sum_mono_inv [of "\<lambda>j. int (count_list cs j)" "{..<length es}" "\<lambda>j. es ! j"] le assms(4) by auto
  then show ?thesis using cur(1) [OF assms(4)] by simp
qed

text \<open>
  From a balancer whose nodes have been added or reset, with weights that are not negative and not all zero, as many requests as the weights add up to are answered
  with every node exactly as often as its weight says, and the balancer is then as it was.
\<close>

theorem weighted_shares_exact:
  assumes "2 \<le> length (wx_nodes w)" and "distinct (map wn_Node (wx_nodes w))"
    and "\<forall>n \<in> set (wx_nodes w). 0 \<le> wn_EffectiveWeight n \<and> wn_CurrentWeight n = 0" and "0 < total_weight (wx_nodes w)"
  shows "case wx_requests (nat (total_weight (wx_nodes w))) w of
    (answers, w') \<Rightarrow> None \<notin> set answers \<and>
      (\<forall>n \<in> set (wx_nodes w). int (count_list answers (Some (wn_Node n))) = wn_EffectiveWeight n) \<and>
      map wn_Node (wx_nodes w') = map wn_Node (wx_nodes w) \<and> map wn_EffectiveWeight (wx_nodes w') = map wn_EffectiveWeight (wx_nodes w) \<and>
      (\<forall>n \<in> set (wx_nodes w'). wn_CurrentWeight n = 0)"
proof -
  let ?es = "map wn_EffectiveWeight (wx_nodes w)" and ?T = "total_weight (wx_nodes w)"
  have T: "sum_list ?es = ?T" by (simp add: total_weight_def)
  have start: "shared_out ?es [] (wx_nodes w)" using assms(3,4) T by (auto simp: shared_out_def)
  obtain answers w' where r: "wx_requests (nat ?T) w = (answers, w')" by fastforce
  from shared_out_requests [OF start, of "nat ?T"] assms T r obtain picks where p: "answers = map (\<lambda>i. Some (map wn_Node (wx_nodes w) ! i)) picks"
    "length picks = nat ?T" "shared_out ?es picks (wx_nodes w')" "map wn_Node (wx_nodes w') = map wn_Node (wx_nodes w)" by auto
  have exact: "int (count_list picks i) = ?es ! i \<and> wn_CurrentWeight (wx_nodes w' ! i) = 0" if "i < length ?es" for i
    using full_round_exact [OF p(3) _ _ that] p(2) T assms(4) by simp
  have len: "length (wx_nodes w') = length (wx_nodes w)" using p(4) by (metis length_map)
  have inj: "inj_on (\<lambda>i. Some (map wn_Node (wx_nodes w) ! i)) {..<length (wx_nodes w)}"
    using assms(2) by (simp add: inj_on_def distinct_conv_nth) blast
  have "set picks \<subseteq> {..<length (wx_nodes w)}" using p(3) by (simp add: shared_out_def)
  then have "count_list answers (Some (map wn_Node (wx_nodes w) ! i)) = count_list picks i" if "i < length (wx_nodes w)" for i
    unfolding p(1) using that inj by (induction picks) (auto simp: inj_on_def)
  then have "int (count_list answers (Some (wn_Node n))) = wn_EffectiveWeight n" if "n \<in> set (wx_nodes w)" for n
    using that exact by (auto simp: in_set_conv_nth)
  moreover have "wn_CurrentWeight n = 0" if "n \<in> set (wx_nodes w')" for n using that exact len by (auto simp: in_set_conv_nth)
  moreover have "map wn_EffectiveWeight (wx_nodes w') = ?es" using p(3) by (simp add: shared_out_def)
  moreover have "None \<notin> set answers" using p(1) by auto
  ultimately show ?thesis using r p(4) by simp
qed

theorem weighted_shares_exact_witness:
  "map (count_list (fst (wx_requests 10 (wx_Add ''c'' 2 (wx_Add ''b'' 3 (wx_Add ''a'' 5 \<lparr>wx_nodes = []\<rparr>)))))) [Some ''a'', Some ''b'', Some ''c''] = [5, 3, 2]"
proof -
  let ?w = "wx_Add ''c'' 2 (wx_Add ''b'' 3 (wx_Add ''a'' 5 \<lparr>wx_nodes = []\<rparr>))"
  have "nat (total_weight (wx_nodes ?w)) = 10" by (simp add: wx_Add_def total_weight_def)
  moreover have "case wx_requests (nat (total_weight (wx_nodes ?w))) ?w of
    (answers, w') \<Rightarrow> None \<notin> set answers \<and> (\<forall>n \<in> set (wx_nodes ?w). int (count_list answers (Some (wn_Node n))) = wn_EffectiveWeight n) \<and>
      map wn_Node (wx_nodes w') = map wn_Node (wx_nodes ?w) \<and> map wn_EffectiveWeight (wx_nodes w') = map wn_EffectiveWeight (wx_nodes ?w) \<and>
      (\<forall>n \<in> set (wx_nodes w'). wn_CurrentWeight n = 0)"
    by (rule weighted_shares_exact) (simp_all add: wx_Add_def total_weight_def)
  ultimately show ?thesis by (auto simp: wx_Add_def split: prod.splits)
qed

section \<open>Where the shares are not exact\<close>

text \<open>When no node has a weight every request goes to the first one.\<close>

theorem zero_weights_go_first:
  "fst (wx_requests 3 (wx_Add ''b'' 0 (wx_Add ''a'' 0 \<lparr>wx_nodes = []\<rparr>))) = [Some ''a'', Some ''a'', Some ''a'']"
  by code_simp

end
