(* ===== verification/LoadBalance.thy ===== *)
theory LoadBalance
  imports HashRing WeightedRoundRobin
begin

text \<open>
  The interface \<^verbatim>\<open>LoadBalance\<close> of \<^verbatim>\<open>common/faas_common/loadbalance/loadbalance.go\<close>, with the two balancers of \<^verbatim>\<open>LBFactory\<close> that the program
  asks for: nodes are added and removed, and a balancer answers with one of its nodes, if it has any.
\<close>

locale load_balance =
  fixes good :: "'b \<Rightarrow> bool"
    and nodes :: "'b \<Rightarrow> 'n set"
    and add :: "'n \<Rightarrow> int \<Rightarrow> 'b \<Rightarrow> 'b"
    and remove :: "'n \<Rightarrow> 'b \<Rightarrow> 'b"
    and remove_all :: "'b \<Rightarrow> 'b"
    and pick :: "string \<Rightarrow> 'b \<Rightarrow> 'n option \<times> 'b"
  assumes add_good: "good b \<Longrightarrow> good (add n w b) \<and> nodes (add n w b) = insert n (nodes b)"
    and remove_good: "good b \<Longrightarrow> good (remove n b) \<and> nodes b - {n} \<subseteq> nodes (remove n b) \<and> nodes (remove n b) \<subseteq> nodes b"
    and remove_all_good: "good b \<Longrightarrow> good (remove_all b) \<and> nodes (remove_all b) = {}"
    and pick_good: "good b \<Longrightarrow> good (snd (pick name b)) \<and> nodes (snd (pick name b)) = nodes b"
    and pick_some: "good b \<Longrightarrow> fst (pick name b) = Some n \<Longrightarrow> n \<in> nodes b"
    and pick_none: "good b \<Longrightarrow> fst (pick name b) = None \<longleftrightarrow> nodes b = {}"
begin

text \<open>A balancer that is filled anew answers with what it was filled with, also after other answers.\<close>

definition refill :: "('n \<times> int) list \<Rightarrow> 'b \<Rightarrow> 'b" where
  "refill ws b = fold (\<lambda>(n, w). add n w) ws (remove_all b)"

lemma fold_add_good: "good b \<Longrightarrow> good (fold (\<lambda>(n, w). add n w) ws b) \<and> nodes (fold (\<lambda>(n, w). add n w) ws b) = nodes b \<union> fst ` set ws"
proof (induction ws arbitrary: b)
  case (Cons x ws)
  obtain n w where x: "x = (n, w)" by fastforce
  show ?case using Cons.IH [of "add n w b"] add_good [OF Cons.prems, of n w] x by auto
qed simp

lemma refill_good: "good b \<Longrightarrow> good (refill ws b) \<and> nodes (refill ws b) = fst ` set ws"
  using fold_add_good remove_all_good by (simp add: refill_def)

fun picks :: "string list \<Rightarrow> 'b \<Rightarrow> 'n option list \<times> 'b" where
  "picks [] b = ([], b)"
| "picks (name # names) b = (case pick name b of (r, b') \<Rightarrow> case picks names b' of (rs, b'') \<Rightarrow> (r # rs, b''))"

lemma picks_good:
  assumes "good b"
  shows "good (snd (picks names b)) \<and> nodes (snd (picks names b)) = nodes b \<and>
    (\<forall>r \<in> set (fst (picks names b)). case r of None \<Rightarrow> nodes b = {} | Some n \<Rightarrow> n \<in> nodes b)"
  using assms
proof (induction names arbitrary: b)
  case (Cons name names)
  obtain r b' where p: "pick name b = (r, b')" by fastforce
  have b': "good b'" "nodes b' = nodes b" using pick_good [OF Cons.prems, of name] p by simp_all
  have "case r of None \<Rightarrow> nodes b = {} | Some n \<Rightarrow> n \<in> nodes b"
    using pick_some [OF Cons.prems, of name] pick_none [OF Cons.prems, of name] p by (auto split: option.split)
  then show ?case using Cons.IH [OF b'(1)] p unfolding b'(2) by (auto split: prod.splits)
qed simp

lemma refilled_picks:
  assumes "good b" and "ws \<noteq> []" and "r \<in> set (fst (picks names (refill ws b)))"
  shows "\<exists>n \<in> fst ` set ws. r = Some n"
proof -
  have "good (refill ws b)" "nodes (refill ws b) = fst ` set ws" using refill_good [OF assms(1)] by simp_all
  with picks_good [of "refill ws b" names] assms(2,3) show ?thesis by (cases r) auto
qed

end

section \<open>Weighted round robin\<close>

definition wx_names :: "'a WNGINX \<Rightarrow> 'a set" where
  "wx_names w = wn_Node ` set (wx_nodes w)"

definition wx_pick :: "string \<Rightarrow> 'a WNGINX \<Rightarrow> 'a option \<times> 'a WNGINX" where
  "wx_pick name w = wx_Next w"

lemma wx_Next_names:
  "wx_names (snd (wx_Next w)) = wx_names w" "fst (wx_Next w) = Some n \<Longrightarrow> n \<in> wx_names w" "fst (wx_Next w) = None \<longleftrightarrow> wx_names w = {}"
proof -
  consider "wx_nodes w = []" | x where "wx_nodes w = [x]" | x y ys where "wx_nodes w = x # y # ys" by (metis list.exhaust)
  then have "wx_names (snd (wx_Next w)) = wx_names w \<and> (\<forall>n. fst (wx_Next w) = Some n \<longrightarrow> n \<in> wx_names w) \<and> (fst (wx_Next w) = None \<longleftrightarrow> wx_names w = {})"
  proof cases
    case 3
    obtain best ns where b: "nextWeightedNode (wx_nodes w) = Some (best, ns)" using nextWeightedNode_some [of "wx_nodes w"] 3 by auto
    note ns = nextWeightedNode_nodes [OF b]
    have nx: "wx_Next w = (Some (wn_Node (ns ! best)), w\<lparr>wx_nodes := ns\<rparr>)" using 3 b by (simp add: wx_Next_def)
    have names: "wn_Node ` set ns = wn_Node ` set (wx_nodes w)" using ns by (metis set_map)
    have "best < length ns" using ns by (metis length_map)
    then have "wn_Node (ns ! best) \<in> wn_Node ` set ns" by simp
    then show ?thesis using nx names 3 by (auto simp: wx_names_def)
  qed (simp_all add: wx_Next_def wx_names_def)
  then show "wx_names (snd (wx_Next w)) = wx_names w" "fst (wx_Next w) = Some n \<Longrightarrow> n \<in> wx_names w" "fst (wx_Next w) = None \<longleftrightarrow> wx_names w = {}"
    by blast+
qed

lemma remove_node_names: "wn_Node ` set ns - {n} \<subseteq> wn_Node ` set (remove_node n ns) \<and> wn_Node ` set (remove_node n ns) \<subseteq> wn_Node ` set ns"
  by (induction ns) auto

interpretation wnginx: load_balance "\<lambda>_. True" wx_names wx_Add wx_Remove wx_RemoveAll wx_pick
proof unfold_locales
  show "True \<and> wx_names w - {n} \<subseteq> wx_names (wx_Remove n w) \<and> wx_names (wx_Remove n w) \<subseteq> wx_names w" for n and w :: "'a WNGINX"
    using remove_node_names [of "wx_nodes w" n] by (simp add: wx_names_def wx_Remove_def)
qed (auto simp: wx_pick_def wx_Next_names, auto simp: wx_names_def wx_Add_def wx_RemoveAll_def)

section \<open>The hash ring\<close>

definition ring_pick :: "string \<Rightarrow> SimpleCHGeneric \<Rightarrow> string option \<times> SimpleCHGeneric" where
  "ring_pick name c = (if ch_nodes c = [] then None else Some (ch_Next c name), c)"

definition ring_add_weighted :: "string \<Rightarrow> int \<Rightarrow> SimpleCHGeneric \<Rightarrow> SimpleCHGeneric" where
  "ring_add_weighted name weight c = ch_Add c name"

lemma ring_pick_some:
  assumes "ring_wf c"
  shows "fst (ring_pick name c) = Some n \<Longrightarrow> n \<in> fmdom' (ch_owners c)" and "fst (ring_pick name c) = None \<longleftrightarrow> fmdom' (ch_owners c) = {}"
proof -
  have empty: "ch_nodes c = [] \<longleftrightarrow> fmdom' (ch_owners c) = {}"
    using ring_nonempty [OF assms] ring_owner [OF assms] by (metis all_not_in_conv list.set_intros(1) neq_Nil_conv)
  have "ch_owners c \<noteq> fmempty" if "ch_nodes c \<noteq> []" using that empty by auto
  then show "fst (ring_pick name c) = Some n \<Longrightarrow> n \<in> fmdom' (ch_owners c)"
    using ch_Next_owner [OF assms] by (auto simp: ring_pick_def split: if_splits)
  show "fst (ring_pick name c) = None \<longleftrightarrow> fmdom' (ch_owners c) = {}" using empty by (simp add: ring_pick_def)
qed

interpretation hash_ring: load_balance ring_wf "\<lambda>c. fmdom' (ch_owners c)" ring_add_weighted "\<lambda>n c. ch_Remove c n" ch_RemoveAll ring_pick
proof unfold_locales
  fix c n name and w :: int
  assume wf: "ring_wf c"
  show "ring_wf (ring_add_weighted n w c) \<and> fmdom' (ch_owners (ring_add_weighted n w c)) = insert n (fmdom' (ch_owners c))"
    using ch_Add_wf [OF wf] by (auto simp: ring_add_weighted_def ch_Add_def fmlookup_dom'_iff)
  show "ring_wf (ch_Remove c n) \<and> fmdom' (ch_owners c) - {n} \<subseteq> fmdom' (ch_owners (ch_Remove c n)) \<and> fmdom' (ch_owners (ch_Remove c n)) \<subseteq> fmdom' (ch_owners c)"
    using ch_Remove_wf [OF wf] by (auto simp: ch_Remove_def fmlookup_dom'_iff)
  show "ring_wf (ch_RemoveAll c) \<and> fmdom' (ch_owners (ch_RemoveAll c)) = {}"
    using NewSimpleCHGeneric_wf by (simp add: ch_RemoveAll_def NewSimpleCHGeneric_def)
  show "ring_wf (snd (ring_pick name c)) \<and> fmdom' (ch_owners (snd (ring_pick name c))) = fmdom' (ch_owners c)" using wf by (simp add: ring_pick_def)
qed (use ring_pick_some in blast)+

end
