(* ===== verification/AliasRoute.thy ===== *)
theory AliasRoute
  imports LoadBalance GoFloat GoStrings
begin

text \<open>
  Aliases of functions (\<^verbatim>\<open>common/faas_common/aliasroute\<close>): a request for an alias goes to one of the versions of the function, by weights or by rules over
  its parameters. Shown: by weights every version gets exactly its share; by rules the gray version is chosen exactly when the rules say so;
  the deletion of an alias removes what requests for it look up.
\<close>

section \<open>Data\<close>

record routingRules =
  ru_RuleLogic :: string
  ru_Rules :: "string list"
  ru_GrayVersion :: string

record routingConfig =
  rg_FunctionVersionURN :: string
  rg_Weight :: rat

record AliasElement =
  ae_lb :: "string WNGINX"
  ae_AliasURN :: string
  ae_FunctionURN :: string
  ae_FunctionVersionURN :: string
  ae_Name :: string
  ae_FunctionVersion :: string
  ae_RevisionID :: string
  ae_Description :: string
  ae_RoutingType :: string
  ae_RoutingRules :: routingRules
  ae_RoutingConfigs :: "routingConfig list"

type_synonym Aliases = "(string, AliasElement) gomap"

abbreviation (input) routingTypeRule :: string where "routingTypeRule \<equiv> ''rule''"

section \<open>Rules\<close>

record Expression =
  ex_leftVal :: string
  ex_operator :: string
  ex_rightVal :: string

definition compareIntegerStrings :: "string \<Rightarrow> string \<Rightarrow> int option" where
  "compareIntegerStrings a b =
     (case atoi a of
        None \<Rightarrow> None
      | Some numA \<Rightarrow>
          (case atoi b of
             None \<Rightarrow> None
           | Some numB \<Rightarrow> Some (if numA < numB then - 1 else if numA > numB then 1 else 0)))"

definition matchStr :: "string \<Rightarrow> string \<Rightarrow> bool" where
  "matchStr str targetStr = list_ex (\<lambda>tar. tar \<noteq> [] \<and> trimSpace str = trimSpace tar) (splitAll CHR '','' targetStr)"

definition exp_Execute :: "(string, string) gomap \<Rightarrow> Expression \<Rightarrow> bool" where
  "exp_Execute params e =
     (case fmlookup params (ex_leftVal e) of
        None \<Rightarrow> False
      | Some val \<Rightarrow>
          let ret = compareIntegerStrings val (ex_rightVal e)
          in if ex_operator e = ''='' then trimSpace val = trimSpace (ex_rightVal e)
             else if ex_operator e = ''!='' then trimSpace val \<noteq> trimSpace (ex_rightVal e)
             else if ex_operator e = ''>'' then ret = Some 1
             else if ex_operator e = ''<'' then ret = Some (- 1)
             else if ex_operator e = ''>='' then ret = Some 1 \<or> ret = Some 0
             else if ex_operator e = ''<='' then ret = Some (- 1) \<or> ret = Some 0
             else if ex_operator e = ''in'' then matchStr val (ex_rightVal e)
             else False)"

definition parse_rule :: "string \<Rightarrow> Expression option" where
  "parse_rule value =
     (case splitAll CHR '':'' value of
        [l, oper, r] \<Rightarrow> Some \<lparr>ex_leftVal = l, ex_operator = oper, ex_rightVal = r\<rparr>
      | _ \<Rightarrow> None)"

fun parse_rules :: "string list \<Rightarrow> Expression list option" where
  "parse_rules [] = Some []"
| "parse_rules (value # rules) =
     (case parse_rule value of None \<Rightarrow> None | Some e \<Rightarrow> map_option ((#) e) (parse_rules rules))"

definition parseRules :: "routingRules \<Rightarrow> Expression list option" where
  "parseRules r = parse_rules (ru_Rules r)"

definition isMatch :: "bool list \<Rightarrow> string \<Rightarrow> bool" where
  "isMatch matchResultList ruleLogic =
     (let matchResult = hd matchResultList
      in if length matchResultList > 1 then
           (if ruleLogic = ''or'' then fold (\<lambda>v m. m \<or> v) matchResultList matchResult
            else if ruleLogic = ''and'' then fold (\<lambda>v m. m \<and> v) matchResultList matchResult
            else False)
         else matchResult)"

definition matchRule :: "(string, string) gomap \<Rightarrow> Expression list \<Rightarrow> string \<Rightarrow> bool" where
  "matchRule params expressions ruleLogic =
     (let matchResultList = map (exp_Execute params) expressions
      in if length matchResultList > 0 then isMatch matchResultList ruleLogic else False)"

section \<open>Aliases\<close>

text \<open>\<^verbatim>\<open>int(v.Weight*weightRatio)\<close>: the product is rounded to a double, and cut off towards zero.\<close>

definition truncate_float :: "rat \<Rightarrow> int" where
  "truncate_float x = (if x < 0 then - \<lfloor>- x\<rfloor> else \<lfloor>x\<rfloor>)"

definition config_weight :: "routingConfig \<Rightarrow> int" where
  "config_weight v = truncate_float (fmul (rg_Weight v) 100)"

definition resetRR :: "AliasElement \<Rightarrow> AliasElement" where
  "resetRR a = a\<lparr>ae_lb := fold (\<lambda>v lb. wx_Add (rg_FunctionVersionURN v) (config_weight v) lb) (ae_RoutingConfigs a) (wx_RemoveAll (ae_lb a))\<rparr>"

definition getFuncVersionURN :: "AliasElement \<Rightarrow> string \<times> AliasElement" where
  "getFuncVersionURN a =
     (case wx_Next (ae_lb a) of (funcVersion, lb) \<Rightarrow> (case funcVersion of None \<Rightarrow> [] | Some res \<Rightarrow> res, a\<lparr>ae_lb := lb\<rparr>))"

definition getFuncVersionURNByRule :: "(string, string) gomap \<Rightarrow> AliasElement \<Rightarrow> string" where
  "getFuncVersionURNByRule params a =
     (if params = fmempty then ae_FunctionVersionURN a
      else if ru_Rules (ae_RoutingRules a) = [] then ae_FunctionVersionURN a
      else case parseRules (ae_RoutingRules a) of
        None \<Rightarrow> ae_FunctionVersionURN a
      | Some matchRules \<Rightarrow>
          if matchRule params matchRules (ru_RuleLogic (ae_RoutingRules a)) then ru_GrayVersion (ae_RoutingRules a) else ae_FunctionVersionURN a)"

definition ae_GetFuncVersionURNWithParams :: "(string, string) gomap \<Rightarrow> AliasElement \<Rightarrow> string \<times> AliasElement" where
  "ae_GetFuncVersionURNWithParams params a =
     (if ae_RoutingType a = routingTypeRule then (getFuncVersionURNByRule params a, a) else getFuncVersionURN a)"

text \<open>\<open>alias\<close> is the decoded event, whose balancer is not set.\<close>

definition aliasUpdate :: "AliasElement \<Rightarrow> AliasElement \<Rightarrow> AliasElement" where
  "aliasUpdate destAlias srcAlias = srcAlias\<lparr>ae_lb := ae_lb destAlias\<rparr>"

definition AddAlias :: "AliasElement \<Rightarrow> Aliases \<Rightarrow> Aliases" where
  "AddAlias alias a =
     (case fmlookup a (ae_AliasURN alias) of
        None \<Rightarrow> fmupd (ae_AliasURN alias) (resetRR (alias\<lparr>ae_lb := \<lparr>wx_nodes = []\<rparr>\<rparr>)) a
      | Some existAlias \<Rightarrow> fmupd (ae_AliasURN alias) (resetRR (aliasUpdate existAlias alias)) a)"

definition RemoveAlias :: "string \<Rightarrow> Aliases \<Rightarrow> Aliases" where
  "RemoveAlias aliasURN a = fmdrop aliasURN a"

definition GetFuncURNFromAlias :: "string \<Rightarrow> Aliases \<Rightarrow> string \<times> Aliases" where
  "GetFuncURNFromAlias urn a =
     (case fmlookup a urn of
        None \<Rightarrow> (urn, a)
      | Some existAlias \<Rightarrow> (case getFuncVersionURN existAlias of (r, e) \<Rightarrow> (r, fmupd urn e a)))"

definition GetFuncVersionURNWithParams :: "(string, string) gomap \<Rightarrow> string \<Rightarrow> Aliases \<Rightarrow> string \<times> Aliases" where
  "GetFuncVersionURNWithParams params aliasURN a =
     (case fmlookup a aliasURN of
        None \<Rightarrow> (aliasURN, a)
      | Some existAlias \<Rightarrow> (case ae_GetFuncVersionURNWithParams params existAlias of (r, e) \<Rightarrow> (r, fmupd aliasURN e a)))"

definition CheckAliasRoutingChange :: "string \<Rightarrow> string \<Rightarrow> (string, string) gomap \<Rightarrow> Aliases \<Rightarrow> bool" where
  "CheckAliasRoutingChange aliasURN oldURN params a =
     (case fmlookup a aliasURN of
        None \<Rightarrow> True
      | Some existAlias \<Rightarrow>
          if ae_RoutingType existAlias = routingTypeRule then oldURN \<noteq> getFuncVersionURNByRule params existAlias
          else \<not> list_ex (\<lambda>c. rg_FunctionVersionURN c = oldURN \<and> rg_Weight c > 0) (ae_RoutingConfigs existAlias))"

definition GetAliasRoutingType :: "string \<Rightarrow> Aliases \<Rightarrow> string" where
  "GetAliasRoutingType aliasURN a = (case fmlookup a aliasURN of None \<Rightarrow> [] | Some existAlias \<Rightarrow> ae_RoutingType existAlias)"

section \<open>Names\<close>

record AliasKey =
  ak_ProductID :: string
  ak_AliasSign :: string
  ak_BusinessSign :: string
  ak_BusinessID :: string
  ak_TenantSign :: string
  ak_TenantID :: string
  ak_FunctionSign :: string
  ak_FunctionID :: string
  ak_AliasName :: string

definition alias_ParseFrom :: "string \<Rightarrow> AliasKey option" where
  "alias_ParseFrom aliasKeyStr =
     (case splitAll CHR ''/'' aliasKeyStr of
        [_, p, s, bs, b, ts, t, fs, f, n] \<Rightarrow>
          Some \<lparr>ak_ProductID = p, ak_AliasSign = s, ak_BusinessSign = bs, ak_BusinessID = b, ak_TenantSign = ts, ak_TenantID = t,
            ak_FunctionSign = fs, ak_FunctionID = f, ak_AliasName = n\<rparr>
      | _ \<Rightarrow> None)"

definition FetchInfoFromAliasKey :: "string \<Rightarrow> AliasKey" where
  "FetchInfoFromAliasKey aliasKeyStr =
     (case alias_ParseFrom aliasKeyStr of
        Some k \<Rightarrow> k
      | None \<Rightarrow> \<lparr>ak_ProductID = [], ak_AliasSign = [], ak_BusinessSign = [], ak_BusinessID = [], ak_TenantSign = [], ak_TenantID = [],
          ak_FunctionSign = [], ak_FunctionID = [], ak_AliasName = []\<rparr>)"

record FunctionURN =
  fu_ProductID :: string
  fu_RegionID :: string
  fu_BusinessID :: string
  fu_TenantID :: string
  fu_TypeSign :: string
  fu_FuncName :: string
  fu_FuncVersion :: string

definition urn_String :: "FunctionURN \<Rightarrow> string" where
  "urn_String p =
     (let urn = joinStrings [fu_ProductID p, fu_RegionID p, fu_BusinessID p, fu_TenantID p, fu_TypeSign p, fu_FuncName p] '':''
      in if fu_FuncVersion p \<noteq> [] then urn @ '':'' @ fu_FuncVersion p else urn)"

definition BuildURNFromAliasKey :: "string \<Rightarrow> string" where
  "BuildURNFromAliasKey aliasKeyStr =
     (let aliasKey = FetchInfoFromAliasKey aliasKeyStr
      in urn_String \<lparr>fu_ProductID = ''sn'', fu_RegionID = ''cn'', fu_BusinessID = ak_BusinessID aliasKey, fu_TenantID = ak_TenantID aliasKey,
           fu_TypeSign = ''function'', fu_FuncName = ak_FunctionID aliasKey, fu_FuncVersion = ak_AliasName aliasKey\<rparr>)"

definition BuildURNOrAliasURNTemp :: "string \<Rightarrow> string \<Rightarrow> string \<Rightarrow> string \<Rightarrow> string" where
  "BuildURNOrAliasURNTemp business tenant funcName versionOrAlias =
     (if business = [] \<or> tenant = [] \<or> funcName = [] \<or> versionOrAlias = [] then []
      else joinStrings [''sn'', ''cn'', business, tenant, ''function'', funcName, versionOrAlias] '':'')"

definition BuildStandardFunctionName :: "string \<Rightarrow> string" where
  "BuildStandardFunctionName functionName =
     (let splits = splitAll CHR ''@'' functionName
      in if length splits \<noteq> 1 \<and> length splits \<noteq> 3 then []
         else if length splits = 1 then ''0@default@'' @ functionName else functionName)"

definition ProcessDelete :: "string \<Rightarrow> Aliases \<Rightarrow> string \<times> Aliases" where
  "ProcessDelete key a = (let aliasURN = BuildURNFromAliasKey key in (aliasURN, RemoveAlias aliasURN a))"

definition ResolveAliasedFunctionNameToURN :: "string \<Rightarrow> string \<Rightarrow> (string, string) gomap \<Rightarrow> Aliases \<Rightarrow> string \<times> Aliases" where
  "ResolveAliasedFunctionNameToURN functionNameWithAlias tenantID params a =
     (case splitAll CHR '':'' functionNameWithAlias of
        [_] \<Rightarrow> (BuildURNOrAliasURNTemp ''yrk'' tenantID (BuildStandardFunctionName functionNameWithAlias) ''latest'', a)
      | [f, versionOrAlias] \<Rightarrow>
          let urn = BuildURNOrAliasURNTemp ''yrk'' tenantID (BuildStandardFunctionName f) versionOrAlias
          in if atoi versionOrAlias = None \<and> versionOrAlias \<noteq> ''latest'' then GetFuncVersionURNWithParams params urn a else (urn, a)
      | _ \<Rightarrow> ([], a))"

section \<open>Weights\<close>

definition config_node :: "routingConfig \<Rightarrow> string WeightNginx" where
  "config_node v = \<lparr>wn_Node = rg_FunctionVersionURN v, wn_Weight = config_weight v, wn_CurrentWeight = 0, wn_EffectiveWeight = config_weight v\<rparr>"

lemma resetRR_nodes: "wx_nodes (ae_lb (resetRR a)) = map config_node (ae_RoutingConfigs a)"
proof -
  have "wx_nodes (fold (\<lambda>v lb. wx_Add (rg_FunctionVersionURN v) (config_weight v) lb) vs w) = wx_nodes w @ map config_node vs" for vs w
    by (induction vs arbitrary: w) (auto simp: wx_Add_def config_node_def)
  then show ?thesis by (simp add: resetRR_def wx_RemoveAll_def)
qed

lemma added_alias:
  "\<exists>e. fmlookup (AddAlias alias a) (ae_AliasURN alias) = Some e \<and> wx_nodes (ae_lb e) = map config_node (ae_RoutingConfigs alias) \<and>
     ae_RoutingType e = ae_RoutingType alias"
proof -
  have "ae_RoutingConfigs (aliasUpdate d alias) = ae_RoutingConfigs alias" "ae_RoutingType (resetRR (aliasUpdate d alias)) = ae_RoutingType alias" for d
    by (simp_all add: aliasUpdate_def resetRR_def)
  then show ?thesis by (cases "fmlookup a (ae_AliasURN alias)") (auto simp: AddAlias_def resetRR_nodes, auto simp: resetRR_def)
qed

text \<open>The answers to a number of requests for an alias.\<close>

fun alias_requests :: "nat \<Rightarrow> (string, string) gomap \<Rightarrow> string \<Rightarrow> Aliases \<Rightarrow> string list" where
  "alias_requests 0 params urn a = []"
| "alias_requests (Suc n) params urn a = (case GetFuncVersionURNWithParams params urn a of (r, a') \<Rightarrow> r # alias_requests n params urn a')"

lemma alias_requests_weighted:
  assumes "fmlookup a urn = Some e" and "ae_RoutingType e \<noteq> routingTypeRule"
  shows "alias_requests n params urn a = map (\<lambda>r. case r of None \<Rightarrow> [] | Some res \<Rightarrow> res) (fst (wx_requests n (ae_lb e)))"
  using assms
proof (induction n arbitrary: a e)
  case (Suc n)
  obtain r lb where nx: "wx_Next (ae_lb e) = (r, lb)" by fastforce
  have "GetFuncVersionURNWithParams params urn a = (case r of None \<Rightarrow> [] | Some res \<Rightarrow> res, fmupd urn (e\<lparr>ae_lb := lb\<rparr>) a)"
    using Suc.prems nx by (simp add: GetFuncVersionURNWithParams_def ae_GetFuncVersionURNWithParams_def getFuncVersionURN_def)
  then show ?case using Suc.IH [of "fmupd urn (e\<lparr>ae_lb := lb\<rparr>) a" "e\<lparr>ae_lb := lb\<rparr>"] Suc.prems nx by (auto split: prod.splits)
qed simp

text \<open>
  C38: After an alias has been added or updated, as many requests as its weights add up to go to every version exactly as often as its weight says,
  whatever the alias was before.
\<close>

theorem alias_shares_exact:
  assumes "ae_RoutingType alias \<noteq> routingTypeRule" and "2 \<le> length (ae_RoutingConfigs alias)"
    and "distinct (map rg_FunctionVersionURN (ae_RoutingConfigs alias))" and "\<forall>v \<in> set (ae_RoutingConfigs alias). 0 \<le> config_weight v"
    and "0 < (\<Sum>v\<leftarrow>ae_RoutingConfigs alias. config_weight v)" and "v \<in> set (ae_RoutingConfigs alias)"
  shows "int (count_list (alias_requests (nat (\<Sum>v\<leftarrow>ae_RoutingConfigs alias. config_weight v)) params (ae_AliasURN alias) (AddAlias alias a))
      (rg_FunctionVersionURN v)) = config_weight v"
proof -
  obtain e where e: "fmlookup (AddAlias alias a) (ae_AliasURN alias) = Some e" "wx_nodes (ae_lb e) = map config_node (ae_RoutingConfigs alias)"
    "ae_RoutingType e = ae_RoutingType alias" using added_alias by blast
  have T: "total_weight (wx_nodes (ae_lb e)) = (\<Sum>v\<leftarrow>ae_RoutingConfigs alias. config_weight v)"
    by (simp add: e(2) total_weight_def config_node_def comp_def)
  obtain answers w' where r: "wx_requests (nat (total_weight (wx_nodes (ae_lb e)))) (ae_lb e) = (answers, w')" by fastforce
  have "distinct (map wn_Node (wx_nodes (ae_lb e)))" using assms(3) by (simp add: e(2) config_node_def comp_def)
  moreover have "\<forall>n \<in> set (wx_nodes (ae_lb e)). 0 \<le> wn_EffectiveWeight n \<and> wn_CurrentWeight n = 0" using assms(4) by (auto simp: e(2) config_node_def)
  ultimately have w: "None \<notin> set answers" "int (count_list answers (Some (rg_FunctionVersionURN v))) = config_weight v"
    using weighted_shares_exact [of "ae_lb e"] assms(2,5,6) r T by (auto simp: e(2) config_node_def)
  have "count_list (map (\<lambda>r. case r of None \<Rightarrow> [] | Some res \<Rightarrow> res) answers) u = count_list answers (Some u)" for u
    using w(1) by (induction answers) (auto split: option.splits)
  then show ?thesis using alias_requests_weighted [OF e(1), of "nat (total_weight (wx_nodes (ae_lb e)))" params] assms(1) e(3) r w(2) T by simp
qed

text \<open>By the contract of the balancer alone: answers are versions of the alias, also when the weights give no shares.\<close>

lemma wx_requests_picks: "wx_requests n w = wnginx.picks (replicate n []) w"
  by (induction n arbitrary: w) (auto simp: wx_pick_def split: prod.splits)

lemma filled_balancer:
  assumes "wx_nodes w = map config_node vs"
  shows "w = wnginx.refill (map (\<lambda>v. (rg_FunctionVersionURN v, config_weight v)) vs) w"
proof -
  have "wx_nodes (fold (\<lambda>(n, k). wx_Add n k) (map (\<lambda>v. (rg_FunctionVersionURN v, config_weight v)) vs) u) = wx_nodes u @ map config_node vs" for u
    by (induction vs arbitrary: u) (auto simp: wx_Add_def config_node_def)
  then show ?thesis using assms by (simp add: wnginx.refill_def wx_RemoveAll_def)
qed

theorem alias_answers_configured:
  assumes "ae_RoutingType alias \<noteq> routingTypeRule" and "ae_RoutingConfigs alias \<noteq> []"
  shows "set (alias_requests n params (ae_AliasURN alias) (AddAlias alias a)) \<subseteq> rg_FunctionVersionURN ` set (ae_RoutingConfigs alias)"
proof -
  obtain e where e: "fmlookup (AddAlias alias a) (ae_AliasURN alias) = Some e" "wx_nodes (ae_lb e) = map config_node (ae_RoutingConfigs alias)"
    "ae_RoutingType e = ae_RoutingType alias" using added_alias by blast
  let ?ws = "map (\<lambda>v. (rg_FunctionVersionURN v, config_weight v)) (ae_RoutingConfigs alias)"
  have "\<exists>u \<in> rg_FunctionVersionURN ` set (ae_RoutingConfigs alias). r = Some u" if "r \<in> set (fst (wx_requests n (ae_lb e)))" for r
  proof -
    have "r \<in> set (fst (wnginx.picks (replicate n []) (wnginx.refill ?ws (ae_lb e))))"
      using that filled_balancer [OF e(2)] by (simp add: wx_requests_picks)
    from wnginx.refilled_picks [OF TrueI _ this] assms(2) show ?thesis by force
  qed
  then show ?thesis using alias_requests_weighted [OF e(1), of n params] assms(1) e(3) by fastforce
qed

section \<open>What the rules decide\<close>

lemma fold_or: "fold (\<lambda>v m. m \<or> v) vs b \<longleftrightarrow> b \<or> (\<exists>v \<in> set vs. v)"
  by (induction vs arbitrary: b) auto

lemma fold_and: "fold (\<lambda>v m. m \<and> v) vs b \<longleftrightarrow> b \<and> (\<forall>v \<in> set vs. v)"
  by (induction vs arbitrary: b) auto

definition rules_hold :: "(string, string) gomap \<Rightarrow> string \<Rightarrow> Expression list \<Rightarrow> bool" where
  "rules_hold params logic es \<longleftrightarrow>
     (case es of
        [] \<Rightarrow> False
      | [e] \<Rightarrow> exp_Execute params e
      | _ \<Rightarrow> logic = ''or'' \<and> (\<exists>e \<in> set es. exp_Execute params e) \<or> logic = ''and'' \<and> (\<forall>e \<in> set es. exp_Execute params e))"

lemma matchRule_iff: "matchRule params es logic \<longleftrightarrow> rules_hold params logic es"
  by (auto simp: matchRule_def isMatch_def rules_hold_def fold_or fold_and Let_def split: list.splits)

lemma parse_rules_iff: "parse_rules rs = Some es \<longleftrightarrow> map parse_rule rs = map Some es"
  by (induction rs arbitrary: es) (auto split: option.splits simp: Cons_eq_map_conv)

text \<open>
  By rules the gray version is chosen exactly when there are parameters, every rule has three parts, and the rules hold: the only rule, or all of them
  with \<^verbatim>\<open>and\<close>, or one of them with \<^verbatim>\<open>or\<close>.
\<close>

theorem rule_routing_exact:
  "getFuncVersionURNByRule params a =
     (if params \<noteq> fmempty \<and>
         (\<exists>es. map parse_rule (ru_Rules (ae_RoutingRules a)) = map Some es \<and> rules_hold params (ru_RuleLogic (ae_RoutingRules a)) es)
      then ru_GrayVersion (ae_RoutingRules a) else ae_FunctionVersionURN a)"
proof -
  have none: "\<not> rules_hold params logic []" for logic by (simp add: rules_hold_def)
  show ?thesis
  proof (cases "parse_rules (ru_Rules (ae_RoutingRules a))")
    case None
    then have "\<nexists>es. map parse_rule (ru_Rules (ae_RoutingRules a)) = map Some es" using parse_rules_iff by (metis option.distinct(1))
    then show ?thesis using None by (simp add: getFuncVersionURNByRule_def parseRules_def)
  next
    case (Some es)
    then have "map parse_rule (ru_Rules (ae_RoutingRules a)) = map Some es" by (simp add: parse_rules_iff)
    moreover have "es' = es" if "map Some es = map Some es'" for es' using that inj_map_eq_map [of Some] by (auto simp: inj_def)
    ultimately show ?thesis using Some none by (auto simp: getFuncVersionURNByRule_def parseRules_def matchRule_iff)
  qed
qed

section \<open>Deleting an alias\<close>

definition alias_key :: "string \<Rightarrow> string \<Rightarrow> string \<Rightarrow> string \<Rightarrow> string" where
  "alias_key business tenant f name =
     ''/sn/aliases/business/'' @ business @ ''/tenant/'' @ tenant @ ''/function/'' @ f @ ''/'' @ name"

lemma split_alias_key:
  assumes "CHR ''/'' \<notin> set business" "CHR ''/'' \<notin> set tenant" "CHR ''/'' \<notin> set f" "CHR ''/'' \<notin> set name"
  shows "splitAll CHR ''/'' (alias_key business tenant f name) =
    [[], ''sn'', ''aliases'', ''business'', business, ''tenant'', tenant, ''function'', f, name]"
  using assms splitAll_cut [of "CHR ''/''"] by (simp add: alias_key_def splitAll_none)

lemma built_urn:
  assumes "CHR ''/'' \<notin> set business" "CHR ''/'' \<notin> set tenant" "CHR ''/'' \<notin> set f" "CHR ''/'' \<notin> set name"
    and "business \<noteq> []" "tenant \<noteq> []" "f \<noteq> []" "name \<noteq> []"
  shows "BuildURNFromAliasKey (alias_key business tenant f name) = BuildURNOrAliasURNTemp business tenant f name"
  using assms by (simp add: BuildURNFromAliasKey_def FetchInfoFromAliasKey_def alias_ParseFrom_def split_alias_key urn_String_def BuildURNOrAliasURNTemp_def)

text \<open>
  When the key of an alias is deleted from etcd, requests for the alias by name are no longer routed by it: the key is turned into the same URN that a request
  looks up, if the parts have no separator in them.
\<close>

theorem deleted_alias_unresolved:
  assumes f: "f = BuildStandardFunctionName fname"
    and colon: "CHR '':'' \<notin> set fname" "CHR '':'' \<notin> set name" and slash: "CHR ''/'' \<notin> set tenant" "CHR ''/'' \<notin> set f" "CHR ''/'' \<notin> set name"
    and "tenant \<noteq> []" "f \<noteq> []" "name \<noteq> []" and "atoi name = None" "name \<noteq> ''latest''"
  shows "ResolveAliasedFunctionNameToURN (fname @ '':'' @ name) tenant params (snd (ProcessDelete (alias_key ''yrk'' tenant f name) a)) =
    (BuildURNOrAliasURNTemp ''yrk'' tenant f name, snd (ProcessDelete (alias_key ''yrk'' tenant f name) a))"
proof -
  have "splitAll CHR '':'' (fname @ '':'' @ name) = [fname, name]" using colon splitAll_cut [of "CHR '':''" fname name] by (simp add: splitAll_none)
  moreover have "BuildURNFromAliasKey (alias_key ''yrk'' tenant f name) = BuildURNOrAliasURNTemp ''yrk'' tenant f name"
    using assms by (intro built_urn) simp_all
  ultimately show ?thesis using assms
    by (simp add: ResolveAliasedFunctionNameToURN_def ProcessDelete_def RemoveAlias_def Let_def GetFuncVersionURNWithParams_def)
qed

section \<open>Witnesses, and shares that are lost\<close>

definition weighted_alias :: "routingConfig list \<Rightarrow> AliasElement" where
  "weighted_alias configs =
     \<lparr>ae_lb = \<lparr>wx_nodes = []\<rparr>, ae_AliasURN = ''alias'', ae_FunctionURN = [], ae_FunctionVersionURN = ''v1'', ae_Name = [], ae_FunctionVersion = [],
      ae_RevisionID = [], ae_Description = [], ae_RoutingType = ''weight'',
      ae_RoutingRules = \<lparr>ru_RuleLogic = [], ru_Rules = [], ru_GrayVersion = []\<rparr>, ae_RoutingConfigs = configs\<rparr>"

lemma half_weight: "config_weight \<lparr>rg_FunctionVersionURN = u, rg_Weight = 1 / 2\<rparr> = 50"
proof -
  have "f64 (of_int 50) = of_int 50" by (rule f64_int) simp
  then show ?thesis by (simp add: config_weight_def truncate_float_def fmul_def)
qed

theorem alias_shares_exact_witness:
  "count_list (alias_requests 100 fmempty ''alias''
     (AddAlias (weighted_alias [\<lparr>rg_FunctionVersionURN = ''v1'', rg_Weight = 1 / 2\<rparr>, \<lparr>rg_FunctionVersionURN = ''v2'', rg_Weight = 1 / 2\<rparr>]) fmempty)) ''v2'' = 50"
  using alias_shares_exact [of "weighted_alias [\<lparr>rg_FunctionVersionURN = ''v1'', rg_Weight = 1 / 2\<rparr>, \<lparr>rg_FunctionVersionURN = ''v2'', rg_Weight = 1 / 2\<rparr>]"
      "\<lparr>rg_FunctionVersionURN = ''v2'', rg_Weight = 1 / 2\<rparr>" fmempty fmempty]
  by (simp add: weighted_alias_def half_weight)

theorem deleted_alias_unresolved_witness:
  "fst (ResolveAliasedFunctionNameToURN ''hello:gray'' ''t1'' fmempty (snd (ProcessDelete (alias_key ''yrk'' ''t1'' ''0@default@hello'' ''gray'') fmempty))) =
     ''sn:cn:yrk:t1:function:0@default@hello:gray''"
proof -
  have "BuildStandardFunctionName ''hello'' = ''0@default@hello''" "atoi ''gray'' = None" by code_simp+
  then show ?thesis using deleted_alias_unresolved [of "''0@default@hello''" "''hello''" "''gray''" "''t1''" fmempty fmempty]
    by (simp add: BuildURNOrAliasURNTemp_def)
qed

text \<open>
  The product of a weight and 100 is rounded and then cut off: with a weight of 0.29 the share of a version is 28.
\<close>

theorem weight_cut_off: "config_weight \<lparr>rg_FunctionVersionURN = u, rg_Weight = f64 (29 / 100)\<rparr> = 28"
  by code_simp

end
