(* ===== verification/AnchorRing.thy ===== *)
theory AnchorRing
  imports HashRing
begin

text \<open>
  The other balancers of \<^verbatim>\<open>common/faas_common/loadbalance\<close>: a hash ring that remembers for every name where it stands (\<^verbatim>\<open>CHGeneric\<close>), the same
  with nodes that are avoided for a while (\<^verbatim>\<open>LimiterCHGeneric\<close>), and a ring without locks with a cache of hashes (\<^verbatim>\<open>ConsistentHash\<close>).
  Shown: moves go round the ring and visit every node once, the limiter finds a node that is not to be avoided whenever there is one, and
  the cache is never seen.
\<close>

section \<open>A ring with anchors\<close>

record anchorInfo =
  an_instanceHash :: word32
  an_instanceKey :: string

record CHGeneric =
  cg_anchorPoint :: "(string, anchorInfo) gomap"
  cg_instanceMap :: "(word32, string) gomap"
  cg_hashPool :: "word32 list"

definition NewCHGeneric :: CHGeneric where
  "NewCHGeneric = \<lparr>cg_anchorPoint = fmempty, cg_instanceMap = fmempty, cg_hashPool = []\<rparr>"

definition key_at :: "CHGeneric \<Rightarrow> word32 \<Rightarrow> string" where
  "key_at c h = (case fmlookup (cg_instanceMap c) h of None \<Rightarrow> [] | Some k \<Rightarrow> k)"

definition getNextHashKey :: "CHGeneric \<Rightarrow> word32 \<Rightarrow> word32" where
  "getNextHashKey c hashKey =
     (case cg_hashPool c of
        [] \<Rightarrow> 0
      | first # _ \<Rightarrow> (case find (\<lambda>v. v > hashKey) (cg_hashPool c) of None \<Rightarrow> first | Some v \<Rightarrow> v))"

definition getPreviousHashKey :: "CHGeneric \<Rightarrow> word32 \<Rightarrow> word32" where
  "getPreviousHashKey c hashKey =
     (if cg_hashPool c = [] then 0
      else case find (\<lambda>v. v < hashKey) (rev (cg_hashPool c)) of None \<Rightarrow> last (cg_hashPool c) | Some v \<Rightarrow> v)"

definition anchor_at :: "string \<Rightarrow> word32 \<Rightarrow> CHGeneric \<Rightarrow> CHGeneric" where
  "anchor_at name h c = c\<lparr>cg_anchorPoint := fmupd name \<lparr>an_instanceHash = h, an_instanceKey = key_at c h\<rparr> (cg_anchorPoint c)\<rparr>"

definition addAnchorPoint :: "string \<Rightarrow> CHGeneric \<Rightarrow> CHGeneric" where
  "addAnchorPoint name c = anchor_at name (getNextHashKey c (getHashKeyCRC32 name)) c"

definition moveAnchorPoint :: "string \<Rightarrow> word32 \<Rightarrow> CHGeneric \<Rightarrow> CHGeneric" where
  "moveAnchorPoint name curHash c = anchor_at name (getNextHashKey c curHash) c"

definition anchor_of :: "string \<Rightarrow> CHGeneric \<Rightarrow> anchorInfo" where
  "anchor_of name c = (case fmlookup (cg_anchorPoint c) name of None \<Rightarrow> \<lparr>an_instanceHash = 0, an_instanceKey = []\<rparr> | Some a \<Rightarrow> a)"

definition cg_Next :: "string \<Rightarrow> bool \<Rightarrow> CHGeneric \<Rightarrow> string \<times> CHGeneric" where
  "cg_Next name move c =
     (let c' = (case fmlookup (cg_anchorPoint c) name of
          None \<Rightarrow> addAnchorPoint name c
        | Some anchor \<Rightarrow>
            let c1 = (if move then moveAnchorPoint name (an_instanceHash anchor) c else c);
                h = an_instanceHash (anchor_of name c1)
            in if fmlookup (cg_instanceMap c1) h = None then moveAnchorPoint name h c1 else c1)
      in (an_instanceKey (anchor_of name c'), c'))"

definition cg_Previous :: "string \<Rightarrow> bool \<Rightarrow> CHGeneric \<Rightarrow> string" where
  "cg_Previous name move c =
     (let previous = getPreviousHashKey c (getHashKeyCRC32 name);
          previous1 = (if move then getPreviousHashKey c previous else previous);
          previous2 = (if fmlookup (cg_instanceMap c) previous1 = None then getPreviousHashKey c previous1 else previous1)
      in key_at c previous2)"

definition cg_Add :: "string \<Rightarrow> CHGeneric \<Rightarrow> CHGeneric" where
  "cg_Add name c =
     (let hashKey = getHashKeyCRC32 name
      in if fmlookup (cg_instanceMap c) hashKey \<noteq> None then c
         else c\<lparr>cg_instanceMap := fmupd hashKey name (cg_instanceMap c), cg_hashPool := sort (cg_hashPool c @ [hashKey])\<rparr>)"

definition cg_Remove :: "string \<Rightarrow> CHGeneric \<Rightarrow> CHGeneric" where
  "cg_Remove name c =
     (let hashKey = getHashKeyCRC32 name
      in c\<lparr>cg_instanceMap := fmdrop hashKey (cg_instanceMap c), cg_hashPool := remove1 hashKey (cg_hashPool c)\<rparr>)"

definition cg_RemoveAll :: "CHGeneric \<Rightarrow> CHGeneric" where
  "cg_RemoveAll c = c\<lparr>cg_hashPool := [], cg_instanceMap := fmempty\<rparr>"

definition cg_Reset :: "CHGeneric \<Rightarrow> CHGeneric" where
  "cg_Reset c = c\<lparr>cg_anchorPoint := fmempty\<rparr>"

definition cg_DeleteBalancer :: "string \<Rightarrow> CHGeneric \<Rightarrow> CHGeneric" where
  "cg_DeleteBalancer name c = c\<lparr>cg_anchorPoint := fmdrop name (cg_anchorPoint c)\<rparr>"

section \<open>Avoiding nodes\<close>

text \<open>
  The list of a name, without the empty head node; a time of \<open>None\<close> is the zero time. One time is used for all comparisons of a call.
\<close>

type_synonym concurrentLimiter = "(string \<times> time option) list"

record LimiterCHGeneric =
  lm_ring :: CHGeneric
  lm_limiter :: "(string, concurrentLimiter) gomap"
  lm_nodeCount :: int
  lm_limiterTime :: duration

definition NewLimiterCHGeneric :: "duration \<Rightarrow> LimiterCHGeneric" where
  "NewLimiterCHGeneric limiterTime = \<lparr>lm_ring = NewCHGeneric, lm_limiter = fmempty, lm_nodeCount = 0, lm_limiterTime = limiterTime\<rparr>"

definition stained :: "time \<Rightarrow> duration \<Rightarrow> concurrentLimiter \<Rightarrow> string \<Rightarrow> bool" where
  "stained now limit ns instanceKey = (case map_of ns instanceKey of Some (Some lastTime) \<Rightarrow> now - lastTime < limit | _ \<Rightarrow> False)"

text \<open>The loop of \<^verbatim>\<open>Next\<close>, at most \<open>n\<close> times.\<close>

fun limiter_loop :: "nat \<Rightarrow> time \<Rightarrow> string \<Rightarrow> bool \<Rightarrow> concurrentLimiter \<Rightarrow> duration \<Rightarrow> CHGeneric \<Rightarrow> (string \<times> concurrentLimiter) option \<times> CHGeneric" where
  "limiter_loop 0 now name move ns limit c = (None, c)"
| "limiter_loop (Suc n) now name move ns limit c =
     (case cg_Next name move c of (instanceKey, c1) \<Rightarrow>
        if stained now limit ns instanceKey then limiter_loop n now name True ns limit c1
        else (Some (instanceKey, if map_of ns instanceKey = None then (instanceKey, None) # ns else ns), c1))"

definition lm_list :: "string \<Rightarrow> LimiterCHGeneric \<Rightarrow> concurrentLimiter" where
  "lm_list name c = (case fmlookup (lm_limiter c) name of None \<Rightarrow> [] | Some ns \<Rightarrow> ns)"

definition lm_Next :: "time \<Rightarrow> string \<Rightarrow> bool \<Rightarrow> LimiterCHGeneric \<Rightarrow> string option \<times> LimiterCHGeneric" where
  "lm_Next now name move c =
     (case limiter_loop (nat (lm_nodeCount c + 1)) now name move (lm_list name c) (lm_limiterTime c) (lm_ring c) of
        (None, ring) \<Rightarrow> (None, c\<lparr>lm_ring := ring, lm_limiter := fmupd name (lm_list name c) (lm_limiter c)\<rparr>)
      | (Some (instanceKey, ns), ring) \<Rightarrow> (Some instanceKey, c\<lparr>lm_ring := ring, lm_limiter := fmupd name ns (lm_limiter c)\<rparr>))"

definition lm_Add :: "string \<Rightarrow> LimiterCHGeneric \<Rightarrow> LimiterCHGeneric" where
  "lm_Add node c = c\<lparr>lm_nodeCount := lm_nodeCount c + 1, lm_ring := cg_Add node (lm_ring c)\<rparr>"

definition lm_Remove :: "string \<Rightarrow> LimiterCHGeneric \<Rightarrow> LimiterCHGeneric" where
  "lm_Remove node c = c\<lparr>lm_nodeCount := lm_nodeCount c - 1, lm_ring := cg_Remove node (lm_ring c)\<rparr>"

definition lm_RemoveAll :: "LimiterCHGeneric \<Rightarrow> LimiterCHGeneric" where
  "lm_RemoveAll c = c\<lparr>lm_nodeCount := 0, lm_ring := cg_RemoveAll (lm_ring c)\<rparr>"

definition lm_Reset :: "LimiterCHGeneric \<Rightarrow> LimiterCHGeneric" where
  "lm_Reset c = c\<lparr>lm_limiter := fmempty, lm_ring := cg_Reset (lm_ring c)\<rparr>"

definition lm_DeleteBalancer :: "string \<Rightarrow> LimiterCHGeneric \<Rightarrow> LimiterCHGeneric" where
  "lm_DeleteBalancer name c = c\<lparr>lm_ring := cg_DeleteBalancer name (lm_ring c), lm_limiter := fmdrop name (lm_limiter c)\<rparr>"

fun set_stain :: "time \<Rightarrow> string \<Rightarrow> concurrentLimiter \<Rightarrow> concurrentLimiter" where
  "set_stain now node [] = []"
| "set_stain now node ((k, t) # ns) = (if k = node then (k, Some now) # ns else (k, t) # set_stain now node ns)"

definition lm_SetStain :: "time \<Rightarrow> string \<Rightarrow> string \<Rightarrow> LimiterCHGeneric \<Rightarrow> LimiterCHGeneric" where
  "lm_SetStain now funcName node c =
     (case fmlookup (lm_limiter c) funcName of
        None \<Rightarrow> c
      | Some ns \<Rightarrow> c\<lparr>lm_limiter := fmupd funcName (set_stain now node ns) (lm_limiter c)\<rparr>)"

section \<open>A ring without locks\<close>

record nl_Node =
  nd_Key :: string
  nd_hash :: word32

record ConsistentHash =
  cs_cache :: "(string, word32) gomap"
  cs_nodes :: "nl_Node list"

definition getHash :: "string \<Rightarrow> (string, word32) gomap \<Rightarrow> word32 \<times> (string, word32) gomap" where
  "getHash key cache =
     (case fmlookup cache key of
        Some h \<Rightarrow> (h, cache)
      | None \<Rightarrow> (getHashKeyCRC32 key, fmupd key (getHashKeyCRC32 key) cache))"

definition cs_Add :: "string \<Rightarrow> ConsistentHash \<Rightarrow> string + ConsistentHash" where
  "cs_Add key c =
     (let newNode = \<lparr>nd_Key = key, nd_hash = getHashKeyCRC32 key\<rparr>
      in case find (\<lambda>n. nd_Key n = nd_Key newNode \<or> nd_hash n = nd_hash newNode) (cs_nodes c) of
           Some n \<Rightarrow> Inl (if nd_Key n = nd_Key newNode then ''node already exist'' else ''node hash already exist'')
         | None \<Rightarrow> Inr (c\<lparr>cs_nodes := sort_key nd_hash (cs_nodes c @ [newNode])\<rparr>))"

definition cs_search :: "word32 \<Rightarrow> ConsistentHash \<Rightarrow> nat" where
  "cs_search keyHash c =
     (let n = length (cs_nodes c); index = sortSearch (\<lambda>x. if x \<ge> n then False else nd_hash (cs_nodes c ! x) > keyHash) 0 n
      in if index \<ge> n then 0 else index)"

definition cs_Next :: "string \<Rightarrow> ConsistentHash \<Rightarrow> nl_Node option \<times> ConsistentHash" where
  "cs_Next key c =
     (if cs_nodes c = [] then (None, c)
      else case getHash key (cs_cache c) of (keyHash, cache) \<Rightarrow> (Some (cs_nodes c ! cs_search keyHash c), c\<lparr>cs_cache := cache\<rparr>))"

fun delete_node :: "string \<Rightarrow> nl_Node list \<Rightarrow> nl_Node option \<times> nl_Node list" where
  "delete_node nodeKey [] = (None, [])"
| "delete_node nodeKey (n # ns) =
     (if nd_Key n = nodeKey then (Some n, ns) else case delete_node nodeKey ns of (r, ns') \<Rightarrow> (r, n # ns'))"

definition cs_Delete :: "string \<Rightarrow> ConsistentHash \<Rightarrow> nl_Node option \<times> ConsistentHash" where
  "cs_Delete nodeKey c = (case delete_node nodeKey (cs_nodes c) of (r, ns) \<Rightarrow> (r, c\<lparr>cs_nodes := ns\<rparr>))"

section \<open>Moves go round\<close>

definition cg_wf :: "CHGeneric \<Rightarrow> bool" where
  "cg_wf c \<longleftrightarrow> sorted (cg_hashPool c) \<and> distinct (cg_hashPool c) \<and> set (cg_hashPool c) = fmdom' (cg_instanceMap c)"

lemma wf_New: "cg_wf NewCHGeneric" by (simp add: cg_wf_def NewCHGeneric_def)

lemma wf_Add: "cg_wf c \<Longrightarrow> cg_wf (cg_Add name c)"
  by (auto simp: cg_wf_def cg_Add_def Let_def fmlookup_dom'_iff)

lemma wf_Remove: "cg_wf c \<Longrightarrow> cg_wf (cg_Remove name c)"
  by (auto simp: cg_wf_def cg_Remove_def Let_def sorted_remove1)

lemma next_in_ring: "cg_hashPool c \<noteq> [] \<Longrightarrow> getNextHashKey c h \<in> set (cg_hashPool c)"
  by (auto simp: getNextHashKey_def find_Some_iff split: list.splits option.splits)

lemma next_on_ring:
  assumes "cg_wf c" and "i < length (cg_hashPool c)"
  shows "getNextHashKey c (cg_hashPool c ! i) = cg_hashPool c ! (Suc i mod length (cg_hashPool c))"
proof -
  let ?p = "cg_hashPool c"
  have less: "?p ! j < ?p ! k \<longleftrightarrow> j < k" if "j < length ?p" "k < length ?p" for j k
    using assms(1) that unfolding cg_wf_def by (metis nth_eq_iff_index_eq linorder_neq_iff sorted_nth_mono leD less_imp_le)
  show ?thesis
  proof (cases "Suc i = length ?p")
    case True
    have "find (\<lambda>v. ?p ! i < v) ?p = None" using less True assms(2) by (fastforce simp: find_None_iff in_set_conv_nth)
    then show ?thesis using True assms(2) unfolding getNextHashKey_def by (cases ?p) (simp_all del: find.simps)
  next
    case False
    then have lt: "Suc i < length ?p" using assms(2) by simp
    have "find (\<lambda>v. ?p ! i < v) ?p = Some (?p ! Suc i)"
      using less lt by (auto simp: find_Some_iff intro!: exI [of _ "Suc i"])
    then show ?thesis using lt unfolding getNextHashKey_def by (cases ?p) (simp_all del: find.simps)
  qed
qed

text \<open>A name stands at a position of the ring.\<close>

definition stands_at :: "string \<Rightarrow> nat \<Rightarrow> CHGeneric \<Rightarrow> bool" where
  "stands_at name i c \<longleftrightarrow> i < length (cg_hashPool c) \<and>
     fmlookup (cg_anchorPoint c) name = Some \<lparr>an_instanceHash = cg_hashPool c ! i, an_instanceKey = key_at c (cg_hashPool c ! i)\<rparr>"

abbreviation same_ring :: "CHGeneric \<Rightarrow> CHGeneric \<Rightarrow> bool" where
  "same_ring c c' \<equiv> cg_hashPool c' = cg_hashPool c \<and> cg_instanceMap c' = cg_instanceMap c"

lemma anchor_at_sel [simp]:
  "cg_hashPool (anchor_at name h c) = cg_hashPool c" "cg_instanceMap (anchor_at name h c) = cg_instanceMap c"
  "anchor_of name (anchor_at name h c) = \<lparr>an_instanceHash = h, an_instanceKey = key_at c h\<rparr>"
  "fmlookup (cg_anchorPoint (anchor_at name h c)) name = Some \<lparr>an_instanceHash = h, an_instanceKey = key_at c h\<rparr>"
  "key_at (anchor_at name h c) = key_at c"
  by (simp_all add: anchor_at_def anchor_of_def key_at_def fun_eq_iff)

lemma stands_anchor_at: "i < length (cg_hashPool c) \<Longrightarrow> h = cg_hashPool c ! i \<Longrightarrow> stands_at name i (anchor_at name h c)"
  by (simp add: stands_at_def)

lemma move_step:
  assumes "cg_wf c" and "stands_at name i c"
  shows "\<exists>c'. cg_Next name True c = (key_at c (cg_hashPool c ! (Suc i mod length (cg_hashPool c))), c') \<and>
    stands_at name (Suc i mod length (cg_hashPool c)) c' \<and> same_ring c c' \<and> cg_wf c'"
proof -
  let ?n = "length (cg_hashPool c)" and ?h = "cg_hashPool c ! (Suc i mod length (cg_hashPool c))"
  have i: "i < ?n" using assms(2) by (simp add: stands_at_def)
  then have i': "Suc i mod ?n < ?n" by (intro mod_less_divisor) linarith
  then have "fmlookup (cg_instanceMap c) ?h \<noteq> None" using assms(1) nth_mem [OF i'] by (auto simp: cg_wf_def fmlookup_dom'_iff)
  then have "cg_Next name True c = (key_at c ?h, anchor_at name ?h c)"
    using assms(2) next_on_ring [OF assms(1) i] by (auto simp: cg_Next_def moveAnchorPoint_def stands_at_def Let_def)
  then show ?thesis using assms(1) i' stands_anchor_at by (auto simp: cg_wf_def)
qed

fun cg_moves :: "nat \<Rightarrow> string \<Rightarrow> CHGeneric \<Rightarrow> string list" where
  "cg_moves 0 name c = []"
| "cg_moves (Suc n) name c = (case cg_Next name True c of (k, c') \<Rightarrow> k # cg_moves n name c')"

lemma cg_moves_nth:
  assumes "cg_wf c" and "stands_at name i c"
  shows "cg_moves m name c = map (\<lambda>j. key_at c (cg_hashPool c ! ((Suc i + j) mod length (cg_hashPool c)))) [0..<m]"
  using assms
proof (induction m arbitrary: i c)
  case (Suc m)
  let ?n = "length (cg_hashPool c)"
  obtain c' where c': "cg_Next name True c = (key_at c (cg_hashPool c ! (Suc i mod ?n)), c')" "stands_at name (Suc i mod ?n) c'" "same_ring c c'" "cg_wf c'"
    using move_step [OF Suc.prems] by blast
  have eq: "(Suc (Suc i mod ?n) + j) mod ?n = (Suc i + Suc j) mod ?n" for j by (metis add_Suc add_Suc_right mod_add_left_eq)
  have "key_at c' = key_at c" using c'(3) by (simp add: key_at_def fun_eq_iff)
  then have "cg_moves m name c' = map (\<lambda>j. key_at c (cg_hashPool c ! ((Suc i + Suc j) mod ?n))) [0..<m]"
    using Suc.IH [OF c'(4,2)] c'(3) by (simp only: eq)
  then show ?case using c'(1) by (simp add: upt_rec [of 0 "Suc m"] map_Suc_upt [symmetric] del: upt_Suc)
qed simp

text \<open>
  As many moves as there are nodes visit every node once, in the order of the ring, and come back to the first.
\<close>

theorem moves_visit_all:
  assumes "cg_wf c" and "stands_at name i c"
  shows "cg_moves (length (cg_hashPool c)) name c = map (key_at c) (rotate (Suc i) (cg_hashPool c))"
  unfolding cg_moves_nth [OF assms] by (rule nth_equalityI) (simp_all add: nth_rotate del: rotate_Suc)

section \<open>Avoiding nodes, and finding one\<close>

text \<open>
  What an anchor remembers is still right, if its node is there: it fails only for two nodes with the same hash.
\<close>

definition anchors_ok :: "CHGeneric \<Rightarrow> bool" where
  "anchors_ok c \<longleftrightarrow> (\<forall>name a. fmlookup (cg_anchorPoint c) name = Some a \<longrightarrow> an_instanceHash a \<in> set (cg_hashPool c) \<longrightarrow>
     an_instanceKey a = key_at c (an_instanceHash a))"

text \<open>The first answer stands somewhere on the ring, wherever the name was before.\<close>

lemma first_step:
  assumes wf: "cg_wf c" and ok: "anchors_ok c" and some: "cg_hashPool c \<noteq> []"
  shows "\<exists>i c'. cg_Next name move c = (key_at c (cg_hashPool c ! i), c') \<and> stands_at name i c' \<and> same_ring c c' \<and> cg_wf c'"
proof -
  have at: "\<exists>i. (key_at c h, anchor_at name h c) = (key_at c (cg_hashPool c ! i), anchor_at name h c) \<and> stands_at name i (anchor_at name h c)"
    if "h \<in> set (cg_hashPool c)" for h
    using that stands_anchor_at by (auto simp: in_set_conv_nth)
  have dom: "fmlookup (cg_instanceMap c) h \<noteq> None \<longleftrightarrow> h \<in> set (cg_hashPool c)" for h using wf by (auto simp: cg_wf_def fmlookup_dom'_iff)
  have wf': "cg_wf (anchor_at name h c)" for h using wf by (simp add: cg_wf_def)
  show ?thesis
  proof (cases "fmlookup (cg_anchorPoint c) name")
    case None
    then show ?thesis using at [OF next_in_ring [OF some]] wf' by (force simp: cg_Next_def addAnchorPoint_def)
  next
    case (Some a)
    let ?h = "getNextHashKey c (an_instanceHash a)"
    show ?thesis
    proof (cases "move \<or> an_instanceHash a \<notin> set (cg_hashPool c)")
      case True
      have "fmlookup (cg_instanceMap c) ?h \<noteq> None" using next_in_ring [OF some] dom by blast
      then have "cg_Next name move c = (key_at c ?h, anchor_at name ?h c)"
        using True Some dom [of "an_instanceHash a"] by (auto simp: cg_Next_def moveAnchorPoint_def anchor_of_def Let_def)
      then show ?thesis using at [OF next_in_ring [OF some]] wf' by force
    next
      case False
      then have h: "an_instanceHash a \<in> set (cg_hashPool c)" and key: "an_instanceKey a = key_at c (an_instanceHash a)"
        using ok Some by (auto simp: anchors_ok_def)
      have "cg_Next name move c = (key_at c (an_instanceHash a), c)"
        using False Some key dom [of "an_instanceHash a"] by (auto simp: cg_Next_def anchor_of_def Let_def)
      moreover obtain i where "i < length (cg_hashPool c)" "cg_hashPool c ! i = an_instanceHash a" using h by (auto simp: in_set_conv_nth)
      ultimately show ?thesis using Some key wf by (intro exI [of _ i] exI [of _ c]) (auto simp: stands_at_def)
    qed
  qed
qed

lemma limiter_unstained: "limiter_loop n now name move ns limit c = (Some (k, ns'), c') \<Longrightarrow> \<not> stained now limit ns k"
  by (induction n arbitrary: move c) (auto split: prod.splits if_splits)

lemma limiter_moves:
  assumes "cg_wf c" and "stands_at name i c" and "j < m"
    and "\<not> stained now limit ns (key_at c (cg_hashPool c ! ((Suc i + j) mod length (cg_hashPool c))))"
  shows "\<exists>k ns' c'. limiter_loop m now name True ns limit c = (Some (k, ns'), c')"
  using assms
proof (induction m arbitrary: i c j)
  case (Suc m)
  let ?n = "length (cg_hashPool c)"
  obtain c' where c': "cg_Next name True c = (key_at c (cg_hashPool c ! (Suc i mod ?n)), c')" "stands_at name (Suc i mod ?n) c'" "same_ring c c'" "cg_wf c'"
    using move_step [OF Suc.prems(1,2)] by blast
  show ?case
  proof (cases "stained now limit ns (key_at c (cg_hashPool c ! (Suc i mod ?n)))")
    case True
    then obtain j' where j: "j = Suc j'" using Suc.prems(4) by (cases j) auto
    have "(Suc (Suc i mod ?n) + j') mod ?n = (Suc i + j) mod ?n" unfolding j by (metis add_Suc add_Suc_right mod_add_left_eq)
    moreover have "key_at c' = key_at c" using c'(3) by (simp add: key_at_def fun_eq_iff)
    ultimately show ?thesis using Suc.IH [OF c'(4,2), of j'] Suc.prems(3,4) c'(1,3) True j by auto
  qed (use c'(1) in auto)
qed simp

text \<open>
  The limiter answers with a node that is not to be avoided, whenever the ring has one and the counter is not below the number of nodes.
\<close>

theorem limiter_finds_node:
  assumes wf: "cg_wf (lm_ring c)" and ok: "anchors_ok (lm_ring c)" and count: "int (length (cg_hashPool (lm_ring c))) \<le> lm_nodeCount c"
    and free: "h \<in> set (cg_hashPool (lm_ring c))" "\<not> stained now (lm_limiterTime c) (lm_list name c) (key_at (lm_ring c) h)"
  shows "\<exists>k. fst (lm_Next now name move c) = Some k \<and> \<not> stained now (lm_limiterTime c) (lm_list name c) k"
proof -
  let ?r = "lm_ring c" and ?p = "cg_hashPool (lm_ring c)" and ?ns = "lm_list name c" and ?limit = "lm_limiterTime c"
  let ?n = "length ?p" and ?m = "nat (lm_nodeCount c)"
  have some: "?p \<noteq> []" using free(1) by auto
  obtain i r' where r': "cg_Next name move ?r = (key_at ?r (?p ! i), r')" "stands_at name i r'" "same_ring ?r r'" "cg_wf r'"
    using first_step [OF wf ok some] by blast
  have i: "i < ?n" using r'(2,3) by (simp add: stands_at_def)
  obtain t where t: "t < ?n" "?p ! t = h" using free(1) by (auto simp: in_set_conv_nth)
  let ?j = "if i < t then t - Suc i else t + ?n - Suc i"
  have j: "(Suc i + ?j) mod ?n = t \<and> ?j < ?n"
  proof (cases "i < t")
    case False
    then have "Suc i + ?j = t + ?n" using i by simp
    then show ?thesis using False t(1) i by simp
  qed (use t(1) in simp)
  have keys: "key_at r' = key_at ?r" using r'(3) by (simp add: key_at_def fun_eq_iff)
  have "\<exists>k ns' c'. limiter_loop ?m now name True ?ns ?limit r' = (Some (k, ns'), c')"
  proof (rule limiter_moves [OF r'(4,2)])
    show "?j < ?m" using j count by linarith
    show "\<not> stained now ?limit ?ns (key_at r' (cg_hashPool r' ! ((Suc i + ?j) mod length (cg_hashPool r'))))"
      using r'(3) keys j t(2) free(2) by metis
  qed
  then have "\<exists>k ns' c'. limiter_loop (Suc ?m) now name move ?ns ?limit ?r = (Some (k, ns'), c')" using r'(1) by auto
  moreover have "Suc ?m = nat (lm_nodeCount c + 1)" using count by simp
  ultimately obtain k ns' c' where "limiter_loop (nat (lm_nodeCount c + 1)) now name move ?ns ?limit ?r = (Some (k, ns'), c')" by metis
  then show ?thesis using limiter_unstained by (auto simp: lm_Next_def)
qed

section \<open>The cache is not seen\<close>

definition cache_ok :: "ConsistentHash \<Rightarrow> bool" where
  "cache_ok c \<longleftrightarrow> (\<forall>k h. fmlookup (cs_cache c) k = Some h \<longrightarrow> h = getHashKeyCRC32 k) \<and> sorted (map nd_hash (cs_nodes c))"

lemma cache_ok_Add: "cache_ok c \<Longrightarrow> cs_Add key c = Inr c' \<Longrightarrow> cache_ok c'"
  by (auto simp: cache_ok_def cs_Add_def Let_def split: option.splits)

lemma delete_node_subseq: "delete_node k ns = (r, ns') \<Longrightarrow> sorted (map nd_hash ns) \<Longrightarrow> sorted (map nd_hash ns') \<and> set ns' \<subseteq> set ns"
  by (induction ns arbitrary: r ns') (auto split: if_splits prod.splits, blast)

lemma cache_ok_Delete: "cache_ok c \<Longrightarrow> cache_ok (snd (cs_Delete key c))"
  using delete_node_subseq by (auto simp: cache_ok_def cs_Delete_def split: prod.splits)

text \<open>
  A key belongs to the first node with a greater hash, or to the first node of all, whatever the cache holds; and a lookup keeps the cache right.
\<close>

theorem cs_Next_reference:
  assumes "cache_ok c"
  shows "fst (cs_Next key c) =
      (case cs_nodes c of
         [] \<Rightarrow> None
       | n # _ \<Rightarrow> Some (case find (\<lambda>x. nd_hash x > getHashKeyCRC32 key) (cs_nodes c) of None \<Rightarrow> n | Some x \<Rightarrow> x)) \<and>
    cache_ok (snd (cs_Next key c))"
proof (cases "cs_nodes c")
  case (Cons n ns)
  let ?h = "getHashKeyCRC32 key" and ?ns = "cs_nodes c"
  have cache: "h = getHashKeyCRC32 k" if "fmlookup (cs_cache c) k = Some h" for k h using that assms by (simp add: cache_ok_def)
  have hash: "fst (getHash key (cs_cache c)) = ?h" by (cases "fmlookup (cs_cache c) key") (simp_all add: getHash_def cache [symmetric])
  have kept: "\<forall>k h. fmlookup (snd (getHash key (cs_cache c))) k = Some h \<longrightarrow> h = getHashKeyCRC32 k"
    using cache by (cases "fmlookup (cs_cache c) key") (simp_all add: getHash_def)
  obtain cache' where g: "getHash key (cs_cache c) = (?h, cache')" "\<forall>k h. fmlookup cache' k = Some h \<longrightarrow> h = getHashKeyCRC32 k"
    using hash kept by (cases "getHash key (cs_cache c)") auto
  define f where "f = (\<lambda>x. if x \<ge> length ?ns then False else nd_hash (?ns ! x) > ?h)"
  define i where "i = sortSearch f 0 (length ?ns)"
  have "f b" if "a \<le> b" "b < length ?ns" "f a" for a b
    using that assms sorted_nth_mono [of "map nd_hash ?ns" a b] by (auto simp: f_def cache_ok_def)
  with sortSearch_spec [of 0 "length ?ns" f] have i: "i \<le> length ?ns" "\<And>k. k < i \<Longrightarrow> \<not> f k" "\<And>k. i \<le> k \<Longrightarrow> k < length ?ns \<Longrightarrow> f k"
    by (auto simp: i_def)
  have search: "cs_search ?h c = (if i \<ge> length ?ns then 0 else i)" by (simp add: cs_search_def i_def f_def Let_def)
  have "?ns ! cs_search ?h c = (case find (\<lambda>x. nd_hash x > ?h) ?ns of None \<Rightarrow> n | Some x \<Rightarrow> x)"
  proof (cases "i < length ?ns")
    case True
    have "find (\<lambda>x. nd_hash x > ?h) ?ns = Some (?ns ! i)"
      using True i(2) i(3) [of i] by (auto simp: find_Some_iff f_def intro!: exI [of _ i])
    then show ?thesis using True search by simp
  next
    case False
    have "\<not> nd_hash (?ns ! k) > ?h" if "k < length ?ns" for k using False i(2) [of k] that by (simp add: f_def)
    then have "find (\<lambda>x. nd_hash x > ?h) ?ns = None" by (auto simp: find_None_iff in_set_conv_nth)
    then show ?thesis using False search Cons by simp
  qed
  moreover have "cs_Next key c = (Some (?ns ! cs_search ?h c), c\<lparr>cs_cache := cache'\<rparr>)" using g(1) Cons by (simp add: cs_Next_def)
  ultimately show ?thesis using g(2) assms Cons by (simp add: cache_ok_def)
qed (use assms in \<open>simp add: cs_Next_def\<close>)

section \<open>Where the balancers go wrong\<close>

text \<open>
  The counter of the limiter is lowered for a node that is not there: the limiter then answers nothing although the ring has a node.
\<close>

theorem limiter_count_drifts:
  "fst (lm_Next 0 ''f'' False (lm_Remove ''b'' (lm_Remove ''c'' (lm_Add ''a'' (NewLimiterCHGeneric second))))) = None"
  "cg_hashPool (lm_ring (lm_Remove ''b'' (lm_Remove ''c'' (lm_Add ''a'' (NewLimiterCHGeneric second))))) \<noteq> []"
  by code_simp+

text \<open>Of two nodes with the same hash only the first is on the ring, and the removal of the second takes it off.\<close>

theorem colliding_node_removed:
  "getHashKeyCRC32 a = getHashKeyCRC32 b \<Longrightarrow> cg_hashPool (cg_Remove b (cg_Add b (cg_Add a NewCHGeneric))) = []"
  by (simp add: cg_Remove_def cg_Add_def NewCHGeneric_def Let_def)

end
