(* ===== verification/PredictProps.thy ===== *)
theory PredictProps
  imports PredictScaler
begin

text \<open>
  The transition system of the scaler that follows forecasts and its properties: what a forecast and a hint ask for, the
  accounting of the pending threads in every interleaving, and what goes wrong.
\<close>

section \<open>Grouping the forecast\<close>

definition group_avg :: "int \<Rightarrow> rat list \<Rightarrow> int \<Rightarrow> rat" where
  "group_avg step QPSNums i = fdiv (group_total step QPSNums i) (f64_of step)"

lemma group_loop_groups:
  assumes "0 < step"
  shows "n = nat ((int (length Q) - i + step - 1) div step) \<Longrightarrow>
    group_loop step Q i acc = Some (acc @ map (\<lambda>k. group_avg step Q (i + int k * step)) [0..<n])"
proof (induction n arbitrary: i acc)
  case 0
  then have "(int (length Q) - i + step - 1) div step \<le> 0" by simp
  then have "int (length Q) - i + step - 1 < step"
    using assms pos_imp_zdiv_pos_iff [of step "int (length Q) - i + step - 1"] by linarith
  then show ?case by (subst group_loop.simps) simp
next
  case (Suc n)
  let ?a = "int (length Q) - i + step - 1"
  have pos: "0 < ?a div step" using Suc.prems by linarith
  then have i: "i < int (length Q)" using assms pos_imp_zdiv_pos_iff [of step ?a] by linarith
  have "(int (length Q) - (i + step) + step - 1) div step = ?a div step - 1"
    using assms div_add_self2 [of step "?a - step"] by (simp add: algebra_simps)
  then have n: "n = nat ((int (length Q) - (i + step) + step - 1) div step)" using Suc.prems pos by simp
  have "group_loop step Q i acc = group_loop step Q (i + step) (acc @ [group_avg step Q i])"
    using i by (subst group_loop.simps) (simp add: group_avg_def)
  also have "\<dots> = Some (acc @ group_avg step Q i # map (\<lambda>k. group_avg step Q (i + step + int k * step)) [0..<n])"
    using Suc.IH [OF n] by simp
  also have "group_avg step Q i # map (\<lambda>k. group_avg step Q (i + step + int k * step)) [0..<n] =
      map (\<lambda>k. group_avg step Q (i + int k * step)) [0..<Suc n]"
    unfolding map_upt_Suc by (simp add: algebra_simps)
  finally show ?case .
qed

lemma group_loop_stuck: "group_loop step Q i acc = Some r \<Longrightarrow> step \<le> 0 \<longrightarrow> int (length Q) \<le> i"
proof (rule group_loop.raw_induct [where P = "\<lambda>step Q i acc r. step \<le> 0 \<longrightarrow> int (length Q) \<le> i"])
  fix f step Q i acc r
  assume IH: "\<And>step Q i acc r. f step Q i acc = Some r \<Longrightarrow> step \<le> 0 \<longrightarrow> int (length Q) \<le> i"
    and body: "(if i < int (length Q) then f step Q (i + step) (acc @ [fdiv (group_total step Q i) (f64_of step)]) else Some acc) = Some r"
  show "step \<le> 0 \<longrightarrow> int (length Q) \<le> i"
  proof (cases "i < int (length Q)")
    case True
    with IH body show ?thesis by fastforce
  qed simp
qed

text \<open>A group does not look at its first minute.\<close>

lemma group_total_first: "0 < step \<Longrightarrow> 0 \<le> i \<Longrightarrow> step dvd i \<Longrightarrow> step dvd int m \<Longrightarrow> group_total step (Q[m := x]) i = group_total step Q i"
proof -
  assume a: "0 < step" "0 \<le> i" "step dvd i" "step dvd int m"
  have "int m \<noteq> j" if "i + 1 \<le> j" "j < i + step" for j
  proof
    assume "int m = j"
    then have "step dvd j - i" using a by simp
    then show False using that a(1) zdvd_imp_le [of step "j - i"] by linarith
  qed
  then have "nat j \<noteq> m" if "j \<in> set [i + 1..min (i + step) (int (length Q)) - 1]" for j
    using that a(2) by (metis atLeastAtMost_iff set_upto int_nat_eq min_less_iff_conj zle_diff1_eq le_less_trans less_imp_le zless_add1_eq not_less)
  then have "map (\<lambda>j. Q[m := x] ! nat j) [i + 1..min (i + step) (int (length Q)) - 1] = map (\<lambda>j. Q ! nat j) [i + 1..min (i + step) (int (length Q)) - 1]"
    by (intro map_cong refl) (metis nth_list_update_neq)
  then show ?thesis by (simp only: group_total_def length_list_update)
qed

text \<open>
  The forecast of whole windows is grouped into as many windows as it reaches into, and an empty one into none; but the first
  minute of every window is not counted, whatever the forecast says of it, while the sum is divided by all
  minutes.
\<close>

theorem first_minute_not_counted:
  assumes "60000 \<le> window" and "window div 60000 dvd int m"
  shows "groupQPSNumByPredictWindow (Q[m := x]) window = groupQPSNumByPredictWindow Q window \<and>
    (\<exists>gs. groupQPSNumByPredictWindow Q window = Some gs \<and>
      int (length gs) = (int (length Q) + window div 60000 - 1) div (window div 60000))"
proof -
  let ?s = "window div 60000"
  have s: "0 < ?s" using assms(1) by (simp add: pos_imp_zdiv_pos_iff)
  have g: "groupQPSNumByPredictWindow R window =
      Some (map (\<lambda>k. group_avg ?s R (int k * ?s)) [0..<nat ((int (length R) + ?s - 1) div ?s)])" for R
    using group_loop_groups [OF s refl, of R 0 "[]"] assms(1) by (simp add: groupQPSNumByPredictWindow_def)
  have "0 \<le> (int (length Q) + ?s - 1) div ?s" using s by (simp add: pos_imp_zdiv_nonneg_iff)
  moreover have "groupQPSNumByPredictWindow (Q[m := x]) window = groupQPSNumByPredictWindow Q window"
    unfolding g using s assms(2) by (simp add: group_avg_def group_total_first)
  ultimately show ?thesis unfolding g by simp
qed

theorem first_minute_not_counted_witness:
  "groupQPSNumByPredictWindow [9, 4] 120000 = groupQPSNumByPredictWindow [0, 4] 120000"
  using first_minute_not_counted [of 120000 0 "[0, 4]" 9] by simp

text \<open>With a window below a minute the grouping of any forecast does not end.\<close>

theorem short_window_never_groups:
  assumes "0 < window" "window < 60000" "Q \<noteq> []"
  shows "groupQPSNumByPredictWindow Q window = None"
  using assms group_loop_stuck [of 0 Q 0 "[]"] by (cases "group_loop 0 Q 0 []") (auto simp: groupQPSNumByPredictWindow_def)

theorem short_window_never_groups_witness: "groupQPSNumByPredictWindow [1] 30000 = None"
  by (rule short_window_never_groups) simp_all

section \<open>What a forecast asks for\<close>

lemma gomod_cong: "0 \<le> a \<Longrightarrow> 0 < b \<Longrightarrow> gomod a b = a mod b" by simp

text \<open>
  A forecast that is accepted is acted on in time: the watcher sleeps for a time that is not negative, and the
  moment it wakes up is a cold start before the window after the one the forecast begins with.
\<close>

theorem next_window_prepared:
  assumes "checkPredictResultValid window now r (cold * millisecond)" and "pr_DataSetTimeWindow r = [from, to]"
    and "0 < window" "window dvd from" "0 \<le> from" "0 < cold"
  shows "0 \<le> CalSleepTime window now (cold * millisecond) \<and>
    now * millisecond + CalSleepTime window now (cold * millisecond) + cold * millisecond = (from + window) * millisecond"
proof -
  have c: "godiv (cold * millisecond) millisecond = cold" using assms(6) by simp
  have v: "from \<le> now" "now \<le> from + window - cold" using assms(1,2) unfolding checkPredictResultValid_def c by auto
  have "now mod window = (now - from) mod window" using assms(4) by (metis mod_diff_right_eq dvd_imp_mod_0 diff_zero)
  also have "\<dots> = now - from" using v assms(6) by simp
  finally have m: "gomod now window = now - from" using v(1) assms(3,5) by simp
  show ?thesis using v unfolding CalSleepTime_def m by (simp add: algebra_simps)
qed

theorem next_window_prepared_witness:
  "(0 :: int) \<le> CalSleepTime 900000 1800500 (20000 * millisecond) \<and>
   (1800500 :: int) * millisecond + CalSleepTime 900000 1800500 (20000 * millisecond) + 20000 * millisecond = (1800000 + 900000) * millisecond"
  using next_window_prepared [of 900000 1800500 "\<lparr>pr_DataSetTimeWindow = [1800000, 2700000], pr_QPSResult = fmempty\<rparr>" 20000 1800000 2700000]
  by (simp add: checkPredictResultValid_def godiv_def)

lemma floor_max_small: "small a \<Longrightarrow> small b \<Longrightarrow> \<lfloor>max (f64_of a) (f64_of b)\<rfloor> = max a b"
  by (simp add: small_f64 max_of_int)

text \<open>
  A forecast that is below the instances there are takes the surplus off, and no more than the scaler has beyond the
  reserved instances; the forecast of the next window adds what is missing then.
\<close>

theorem forecast_meets_windows:
  assumes "predict_now funcKey groups metrics ps = PredictDone down n ps'" and "ps_GetExpectInstanceNumber ps = Some e"
    and "p = forecast_instances (hd groups) (case metrics of None \<Rightarrow> 3000 | Some m \<Rightarrow> fst m) (ps_concurrentNum ps)"
    and "small p" "small (ps_minRsvInsNum ps)"
  shows "e + ps_minRsvInsNum ps - ps_predictDownDiff ps' = min (e + ps_minRsvInsNum ps) (max p (ps_minRsvInsNum ps)) \<and>
    (down \<longrightarrow> 0 < ps_predictDownDiff ps' \<and> ps_predictDownDiff ps' \<le> e) \<and> ps_predictUpDiff ps' = 0"
  using assms by (auto simp: predict_now_def Let_def floor_max_small split: list.splits if_splits)

theorem missing_instances_forecast:
  assumes "predict_next n ps = PredictDone up n' ps'" and "ps_GetExpectInstanceNumber ps = Some e" and "ps_predictUpDiff ps = 0"
  shows "e + ps_minRsvInsNum ps + ps_predictUpDiff ps' = max n (e + ps_minRsvInsNum ps) \<and> (up \<longleftrightarrow> 0 < ps_predictUpDiff ps')"
  using assms by (auto simp: predict_next_def Let_def split: if_splits)

section \<open>What demand and idle threads ask for\<close>

lemma scale_up_exact:
  assumes "0 < ps_concurrentNum ps" "small (ps_concurrentNum ps)" "0 \<le> reqNum" "small reqNum" "0 \<le> ps_minScaleDemand ps"
    "small (ps_minScaleDemand ps)" "small (ps_pendingInsThdNum ps)" and "ps_getScaleUpInstancesNum reqNum ps = (n, ps')"
    and d: "d = max reqNum (ps_minScaleDemand ps)" and p: "p = max (ps_pendingInsThdNum ps) 0"
  shows "0 \<le> n" "0 < n \<Longrightarrow> (n - 1) * ps_concurrentNum ps < d - p" "d - p \<le> n * ps_concurrentNum ps" "ps' = ps\<lparr>ps_minScaleDemand := 0\<rparr>"
proof -
  have sd: "0 \<le> d" "small d" "max (f64_of reqNum) (f64_of (ps_minScaleDemand ps)) = of_int d"
    using assms(3-6) d by (simp_all add: small_f64 max_of_int max_def small_def)
  have sp: "small p" "max (f64_of (ps_pendingInsThdNum ps)) 0 = f64_of p"
    using assms(7) p by (auto simp: small_f64 max_of_int max_def small_def)
  let ?n = "\<lceil>fdiv (max (fsub (of_int d) (f64_of p)) 0) (f64_of (ps_concurrentNum ps))\<rceil>"
  note u = up_decision [OF assms(1,2) sd(1) order_refl sd(2) sp(1) refl]
  have "n = (if 0 < ?n then ?n else 0)" "ps' = ps\<lparr>ps_minScaleDemand := 0\<rparr>"
    using assms(8) unfolding ps_getScaleUpInstancesNum_def Let_def sd(3) sp(2) by (simp_all only: prod.inject)
  moreover have "0 \<le> k \<Longrightarrow> (if 0 < k then k else 0) = k" for k :: int by simp
  note this [OF u(1)]
  ultimately have "n = ?n" by (simp only:)
  with u \<open>ps' = _\<close> show "0 \<le> n" "0 < n \<Longrightarrow> (n - 1) * ps_concurrentNum ps < d - p" "d - p \<le> n * ps_concurrentNum ps" "ps' = ps\<lparr>ps_minScaleDemand := 0\<rparr>" by auto
qed

text \<open>
  An idle period takes no more instances than were computed, and leaves at least as many as the forecast of the
  two windows asks for.
\<close>

theorem idle_keeps_forecast:
  assumes "small k" "small (godiv (ps_totalInsThdNum ps) (ps_concurrentNum ps) + ps_minRsvInsNum ps - ps_predictInsNum ps)" and "0 < k"
    and "have_now = godiv (ps_totalInsThdNum ps) (ps_concurrentNum ps) + ps_minRsvInsNum ps"
  shows "0 \<le> down_limit k ps \<and> down_limit k ps \<le> k \<and> min have_now (ps_predictInsNum ps) \<le> have_now - down_limit k ps"
proof -
  have "down_limit k ps = min k (max (have_now - ps_predictInsNum ps) 0)"
    using assms(1,4) unfolding down_limit_def small_f64 [OF assms(1)] small_f64 [OF assms(2)] max_of_int(2) max_of_int(3) by simp
  with assms(3) show ?thesis by auto
qed

section \<open>The transition system\<close>

text \<open>
  The callers, the callbacks of the handlers, the watcher and the two loops. The guards on \<open>py_up\<close> and \<open>py_down\<close> in the rules of the
  watcher say that the watcher does not write the differences while a loop is about to read one for the second time
  (\<open>forecast_leaves_pending\<close> shows what happens otherwise); the guard of \<open>func_spec\<close> says that the concurrency
  stays as it is.
\<close>

inductive predict_step :: "predict_system \<Rightarrow> predict_system \<Rightarrow> bool" where
  trigger: "ps_TriggerScale k (py_scaler y) = Some ps \<Longrightarrow> predict_step y (y\<lparr>py_scaler := ps\<rparr>)"
| ins_thd: "predict_step y (on_scaler (ps_HandleInsThdUpdate a b) y)"
| func_spec: "(if c = 0 then 1 else c) = ps_concurrentNum (py_scaler y) \<Longrightarrow>
    predict_step y (on_scaler (ps_HandleFuncSpecUpdate funcKey resSpec c timeout) y)"
| ins_config: "predict_step y (on_scaler (ps_HandleInsConfigUpdate m) y)"
| destroy: "predict_step y (on_scaler ps_Destroy y)"
| created: "0 \<le> k \<Longrightarrow> k \<le> py_owedUp y \<Longrightarrow>
    predict_step y (on_scaler (ps_handlePendingInsNumDecrease k) (y\<lparr>py_owedUp := py_owedUp y - k\<rparr>))"
| removed: "0 \<le> k \<Longrightarrow> k \<le> py_owedDown y \<Longrightarrow>
    predict_step y (on_scaler (ps_handlePendingInsNumIncrease k) (y\<lparr>py_owedDown := py_owedDown y - k\<rparr>))"
| watch: "py_watch y = WatchIdle \<Longrightarrow> py_keys y = [] \<Longrightarrow> ps_registered (py_scaler y) \<Longrightarrow> range_order ord \<Longrightarrow>
    watcherHandler decode ord self sp window now event (py_scaler y) = WatchHandle ks \<Longrightarrow> predict_step y (y\<lparr>py_keys := ks\<rparr>)"
| watch_begin: "py_watch y = WatchIdle \<Longrightarrow> py_up y \<noteq> UpPredicted \<Longrightarrow> py_down y \<noteq> DownPredicted \<Longrightarrow>
    predict_step y (watch_begin window metrics y)"
| watch_send_down: "py_watch y = WatchSendDown n \<Longrightarrow> \<not> ps_scaleDownChan (py_scaler y) \<Longrightarrow> predict_step y (watch_send_down n y)"
| watch_wake: "py_watch y = WatchSleep n \<Longrightarrow> py_up y \<noteq> UpPredicted \<Longrightarrow> predict_step y (watch_wake n y)"
| watch_send_up: "py_watch y = WatchSendUp \<Longrightarrow> \<not> ps_scaleUpChan (py_scaler y) \<Longrightarrow> predict_step y (watch_send_up y)"
| up_predicted: "py_up y = UpSelect \<Longrightarrow> ps_scaleUpChan (py_scaler y) \<Longrightarrow> predict_step y (up_on_predicted y)"
| up_call: "py_up y = UpPredicted \<Longrightarrow> predict_step y (up_call_predicted y)"
| up_chan: "py_up y = UpSelect \<Longrightarrow> py_upChan y \<Longrightarrow> 0 \<le> r \<Longrightarrow> predict_step y (up_on_chan r y)"
| up_decide: "py_up y = UpDecide \<Longrightarrow> 0 \<le> r \<Longrightarrow> predict_step y (up_decide r y)"
| up_ask: "py_up y = UpAsk n \<Longrightarrow> predict_step y (up_ask n y)"
| up_pause: "py_up y = UpPausing \<Longrightarrow> predict_step y (stopScale y)"
| up_trigger: "py_up y = UpSelect \<Longrightarrow> ps_scaleUpTriggerCh (py_scaler y) \<Longrightarrow> predict_step y (up_on_trigger y)"
| up_window: "py_up y = UpWindow \<Longrightarrow> predict_step y (up_after_window y)"
| up_tick: "py_up y = UpSelect \<Longrightarrow> py_tick y \<Longrightarrow> predict_step y (up_on_tick y)"
| ticks: "py_ticking y \<Longrightarrow> predict_step y (y\<lparr>py_tick := True\<rparr>)"
| up_stop: "py_up y = UpSelect \<Longrightarrow> ps_stopped (py_scaler y) \<Longrightarrow> predict_step y (y\<lparr>py_up := UpExit\<rparr>)"
| down_predicted: "py_down y = DownSelect \<Longrightarrow> ps_scaleDownChan (py_scaler y) \<Longrightarrow> predict_step y (down_on_predicted y)"
| down_call: "py_down y = DownPredicted \<Longrightarrow> predict_step y (down_call_predicted y)"
| down_timer: "py_down y = DownSelect \<Longrightarrow> py_fired y \<Longrightarrow> predict_step y (predict_down_on_timer metrics y)"
| down_ask: "py_down y = DownDecided n \<Longrightarrow> predict_step y (down_ask n y)"
| down_trigger: "py_down y = DownSelect \<Longrightarrow> ps_scaleDownTriggerCh (py_scaler y) \<Longrightarrow> predict_step y (predict_down_on_trigger y)"
| fires: "py_armed y \<Longrightarrow> predict_step y (y\<lparr>py_armed := False, py_fired := True\<rparr>)"
| down_stop: "py_down y = DownSelect \<Longrightarrow> ps_stopped (py_scaler y) \<Longrightarrow> predict_step y (y\<lparr>py_down := DownExit\<rparr>)"

text \<open>A scaler as the queue of a function makes it.\<close>

definition predict_start :: "string \<Rightarrow> string \<Rightarrow> int \<Rightarrow> int \<Rightarrow> int \<Rightarrow> int \<Rightarrow> predict_system" where
  "predict_start funcKey resSpec c timeout slaQuota scaleDownTime =
     \<lparr>py_scaler = ps_HandleFuncSpecUpdate funcKey resSpec c timeout (NewPredictScaler (funcKey @ ''-'' @ resSpec) slaQuota scaleDownTime),
      py_up = UpSelect, py_upChan = False, py_ticking = False, py_tick = False, py_down = DownSelect, py_armed = False, py_fired = False,
      py_watch = WatchIdle, py_keys = [], py_calls = [], py_owedUp = 0, py_owedDown = 0\<rparr>"

lemmas predict_defs = on_scaler_def scale_up_call_def scale_down_call_def up_send_def up_on_predicted_def up_call_predicted_def up_on_chan_def
  up_decide_def up_ask_def stopScale_def up_on_trigger_def up_after_window_def up_on_tick_def down_on_predicted_def down_call_predicted_def
  predict_down_on_timer_def down_ask_def predict_down_on_trigger_def watch_begin_def watch_send_down_def watch_wake_def watch_send_up_def
  ps_TriggerScale_def ps_HandleInsThdUpdate_def ps_HandleFuncSpecUpdate_def ps_HandleInsConfigUpdate_def ps_Destroy_def
  ps_handlePendingInsNumDecrease_def ps_handlePendingInsNumIncrease_def ps_getScaleUpInstancesNum_def Let_def

section \<open>Accounting\<close>

definition under_way :: "predict_system \<Rightarrow> int" where
  "under_way y =
     py_owedUp y - py_owedDown y + (if py_up y = UpPredicted then ps_predictUpDiff (py_scaler y) else 0) -
     (if py_down y = DownPredicted then ps_predictDownDiff (py_scaler y) else 0)"

definition predict_inv :: "predict_system \<Rightarrow> bool" where
  "predict_inv y \<longleftrightarrow>
     ps_concurrentNum (py_scaler y) \<noteq> 0 \<and> \<not> ps_predictUpChanFlag (py_scaler y) \<and>
     ps_pendingInsThdNum (py_scaler y) = ps_concurrentNum (py_scaler y) * under_way y"

text \<open>What the watcher writes.\<close>

lemma predict_now_writes:
  assumes "predict_now f g m ps = PredictDone d n ps'"
  shows "ps_concurrentNum ps' = ps_concurrentNum ps" "ps_predictUpChanFlag ps' = ps_predictUpChanFlag ps"
    "ps_pendingInsThdNum ps' = ps_pendingInsThdNum ps" "ps_predictScaleUpFlag ps' = ps_predictScaleUpFlag ps"
    "ps_scaleUpTriggerCh ps' = ps_scaleUpTriggerCh ps"
  using assms by (auto simp: predict_now_def Let_def split: list.splits if_splits option.splits)

lemma predict_next_writes:
  assumes "predict_next n ps = PredictDone d k ps'"
  shows "ps_concurrentNum ps' = ps_concurrentNum ps" "ps_predictUpChanFlag ps' = ps_predictUpChanFlag ps"
    "ps_pendingInsThdNum ps' = ps_pendingInsThdNum ps" "ps_predictScaleUpFlag ps' = ps_predictScaleUpFlag ps"
    "ps_scaleUpTriggerCh ps' = ps_scaleUpTriggerCh ps" "ps_predictDownDiff ps' = ps_predictDownDiff ps"
  using assms by (auto simp: predict_next_def Let_def split: if_splits option.splits)

lemmas watcher_writes = predict_now_writes predict_next_writes

lemma predict_inv_start: "predict_inv (predict_start f r c t s d)"
  by (simp add: predict_inv_def predict_start_def under_way_def NewPredictScaler_def ps_HandleFuncSpecUpdate_def Let_def)

lemma predict_inv_step: "predict_step y y' \<Longrightarrow> predict_inv y \<Longrightarrow> predict_inv y'"
  by (induction rule: predict_step.induct)
    (auto simp: predict_inv_def under_way_def predict_defs algebra_simps watcher_writes
      split: if_splits list.splits option.splits predict_answer.splits dest: watcher_writes)

text \<open>
  In every interleaving the pending threads are those of the instances the handlers were asked to create or remove and have not
  called back for, but for a loop that is about to call its handler for a forecast; and the flag that is to suppress triggers while a
  forecast is scaled up is never set.
\<close>

theorem predict_pending_exact:
  assumes "predict_step\<^sup>*\<^sup>* (predict_start funcKey resSpec c timeout slaQuota scaleDownTime) y"
    and "py_up y \<noteq> UpPredicted" "py_down y \<noteq> DownPredicted"
  shows "ps_pendingInsThdNum (py_scaler y) = ps_concurrentNum (py_scaler y) * (py_owedUp y - py_owedDown y) \<and>
    \<not> ps_predictUpChanFlag (py_scaler y)"
proof -
  from assms(1) have "predict_inv y"
    by (induction rule: rtranclp_induct) (auto intro: predict_inv_start predict_inv_step)
  with assms(2,3) show ?thesis by (simp add: predict_inv_def under_way_def)
qed

section \<open>A hint is followed\<close>

text \<open>
  A scale hint whose trigger the loop receives is followed, whatever the cold start and whether or not a forecast is being
  handled: after the window the loop asks for the least number of instances that covers what the larger of the hint and
  the waiting requests leaves open beyond the pending threads, and for none when nothing is open.
\<close>

theorem hint_overrides_forecast:
  assumes "0 < ps_concurrentNum (py_scaler y)" "small (ps_concurrentNum (py_scaler y))" "0 \<le> r" "small r"
    and "0 < ps_minScaleDemand (py_scaler y)" "small (ps_minScaleDemand (py_scaler y))" "small (ps_pendingInsThdNum (py_scaler y))"
    and "\<not> py_upChan y"
    and "d = max r (ps_minScaleDemand (py_scaler y)) - max (ps_pendingInsThdNum (py_scaler y)) 0"
    and "y' = up_decide r (up_on_chan r' (up_after_window (up_on_trigger y)))"
  shows "\<exists>n \<ge> 0. d \<le> n * ps_concurrentNum (py_scaler y) \<and> (0 < n \<longrightarrow> (n - 1) * ps_concurrentNum (py_scaler y) < d) \<and>
    py_up y' = (if 0 < n then UpAsk n else UpSelect) \<and> ps_minScaleDemand (py_scaler y') = 0"
proof -
  define ps where "ps = (py_scaler y)\<lparr>ps_scaleUpTriggerCh := False\<rparr>"
  obtain n ps' where g: "ps_getScaleUpInstancesNum r ps = (n, ps')" by fastforce
  have "up_on_chan r' (up_after_window (up_on_trigger y)) =
      y\<lparr>py_scaler := ps, py_upChan := False, py_up := UpDecide, py_ticking := True, py_tick := False\<rparr>"
    using assms(5,8) by (simp add: up_on_trigger_def up_ignores_def up_after_window_def up_send_def up_on_chan_def on_scaler_def ps_def)
  then have y': "py_up y' = (if 0 < n then UpAsk n else UpSelect)" "py_scaler y' = ps'"
    unfolding assms(10) by (simp_all add: up_decide_def g)
  have "0 < ps_concurrentNum ps" "small (ps_concurrentNum ps)" "0 \<le> ps_minScaleDemand ps" "small (ps_minScaleDemand ps)" "small (ps_pendingInsThdNum ps)"
    using assms(1,2,5,6,7) by (simp_all add: ps_def)
  note e = scale_up_exact [OF this(1,2) assms(3,4) this(3,4,5) g refl refl]
  show ?thesis using e y' assms(9) by (intro exI [of _ n]) (simp add: ps_def)
qed

section \<open>A trigger that is ignored\<close>

text \<open>The loop has no token, no tick and no running ticker, while the flag says that it is at work.\<close>

definition deaf :: "predict_system \<Rightarrow> bool" where
  "deaf y \<longleftrightarrow>
     ps_predictScaleUpFlag (py_scaler y) \<and> \<not> ps_scaleUpTriggerCh (py_scaler y) \<and> \<not> py_upChan y \<and> \<not> py_ticking y \<and> \<not> py_tick y \<and>
     py_up y \<in> {UpSelect, UpPredicted, UpExit}"

definition demand_calls :: "predict_system \<Rightarrow> scale_call list" where
  "demand_calls y = [call. (passive, call) \<leftarrow> py_calls y, passive \<and> (\<exists>n. call = ScaleUp n)]"

lemma deaf_step: "predict_step y y' \<Longrightarrow> deaf y \<Longrightarrow> deaf y' \<and> demand_calls y' = demand_calls y"
  by (induction rule: predict_step.induct)
    (auto simp: deaf_def demand_calls_def predict_defs watcher_writes split: if_splits list.splits option.splits predict_answer.splits
      dest: watcher_writes)

text \<open>
  A trigger that comes while a predicted scale-down is under way, or for a function that starts slowly, is ignored; but the flag it
  has set stays set. From then on the scaler follows no demand any more: whatever triggers and hints come later, no instance is
  asked for on account of them.
\<close>

theorem ignored_trigger_is_last:
  assumes "py_up y = UpSelect" "up_ignores (py_scaler y)" "ps_predictScaleUpFlag (py_scaler y)"
    and "\<not> py_upChan y" "\<not> py_ticking y" "\<not> py_tick y" and "predict_step\<^sup>*\<^sup>* (up_on_trigger y) y'"
  shows "demand_calls y' = demand_calls y \<and> \<not> ps_scaleUpTriggerCh (py_scaler y')"
proof -
  have start: "deaf (up_on_trigger y)" "demand_calls (up_on_trigger y) = demand_calls y"
    using assms(1-6) by (simp_all add: deaf_def up_on_trigger_def on_scaler_def demand_calls_def)
  from assms(7) have "deaf y' \<and> demand_calls y' = demand_calls (up_on_trigger y)"
    by (induction rule: rtranclp_induct) (use start in \<open>auto dest: deaf_step\<close>)
  then show ?thesis using start by (simp add: deaf_def)
qed

section \<open>Witnesses and runs\<close>

text \<open>A function with concurrency 4 whose initializer may take four minutes, and a request that waits.\<close>

definition slow_start :: predict_system where
  "slow_start = predict_start ''f'' ''r'' 4 240 1000 60000"

definition slow_triggered :: predict_system where
  "slow_triggered = slow_start\<lparr>py_scaler := (py_scaler slow_start)\<lparr>ps_predictScaleUpFlag := True, ps_scaleUpTriggerCh := True\<rparr>\<rparr>"

lemma slow_trigger_step: "predict_step slow_start slow_triggered"
  using trigger [of 0 slow_start] unfolding slow_triggered_def
  by (simp add: slow_start_def predict_start_def ps_TriggerScale_def NewPredictScaler_def ps_HandleFuncSpecUpdate_def Let_def)

text \<open>A hint of nine threads comes after the ignored trigger: the demand is noted and not followed.\<close>

theorem ignored_trigger_is_last_witness:
  "\<exists>y'. predict_step\<^sup>*\<^sup>* (up_on_trigger slow_triggered) y' \<and> ps_minScaleDemand (py_scaler y') = 9 \<and> demand_calls y' = []"
proof -
  let ?y = "up_on_trigger slow_triggered"
  let ?y' = "?y\<lparr>py_scaler := (py_scaler ?y)\<lparr>ps_minScaleDemand := 9\<rparr>\<rparr>"
  have f: "py_up slow_triggered = UpSelect" "up_ignores (py_scaler slow_triggered)" "ps_predictScaleUpFlag (py_scaler slow_triggered)"
    "\<not> py_upChan slow_triggered" "\<not> py_ticking slow_triggered" "\<not> py_tick slow_triggered" "demand_calls slow_triggered = []"
    by (simp_all add: slow_triggered_def slow_start_def predict_start_def ps_HandleFuncSpecUpdate_def NewPredictScaler_def up_ignores_def Let_def
      demand_calls_def)
  have "ps_TriggerScale 9 (py_scaler ?y) = Some ((py_scaler ?y)\<lparr>ps_minScaleDemand := 9\<rparr>)"
    using f(1-3) by (simp add: slow_triggered_def slow_start_def predict_start_def ps_HandleFuncSpecUpdate_def NewPredictScaler_def up_ignores_def
      Let_def up_on_trigger_def on_scaler_def ps_TriggerScale_def)
  then have "predict_step\<^sup>*\<^sup>* ?y ?y'" by (intro r_into_rtranclp trigger)
  moreover from ignored_trigger_is_last [OF f(1-6) this] f(7) have "demand_calls ?y' = []" by simp
  ultimately show ?thesis by (intro exI [of _ ?y']) simp
qed

theorem predict_pending_exact_witness:
  "ps_pendingInsThdNum (py_scaler slow_triggered) = ps_concurrentNum (py_scaler slow_triggered) * (py_owedUp slow_triggered - py_owedDown slow_triggered) \<and>
   \<not> ps_predictUpChanFlag (py_scaler slow_triggered)"
  by (rule predict_pending_exact [of "''f''" "''r''" 4 240 1000 60000])
    (use slow_trigger_step in \<open>auto simp: slow_start_def slow_triggered_def predict_start_def\<close>)

text \<open>The same function gets the hint first: nine threads are three instances.\<close>

definition slow_hinted :: predict_system where
  "slow_hinted = slow_triggered\<lparr>py_scaler := (py_scaler slow_triggered)\<lparr>ps_minScaleDemand := 9\<rparr>\<rparr>"

theorem hint_overrides_forecast_witness:
  "py_up (up_decide 0 (up_on_chan 0 (up_after_window (up_on_trigger slow_hinted)))) = UpAsk 3"
proof -
  have f: "ps_concurrentNum (py_scaler slow_hinted) = 4" "ps_minScaleDemand (py_scaler slow_hinted) = 9" "ps_pendingInsThdNum (py_scaler slow_hinted) = 0"
    "\<not> py_upChan slow_hinted"
    by (simp_all add: slow_hinted_def slow_triggered_def slow_start_def predict_start_def ps_HandleFuncSpecUpdate_def NewPredictScaler_def Let_def)
  obtain n where n: "0 \<le> n" "9 \<le> n * 4" "0 < n \<longrightarrow> (n - 1) * 4 < (9 :: int)"
    "py_up (up_decide 0 (up_on_chan 0 (up_after_window (up_on_trigger slow_hinted)))) = (if 0 < n then UpAsk n else UpSelect)"
    using hint_overrides_forecast [of slow_hinted 0 _ _ 0, OF _ _ _ _ _ _ _ f(4) refl refl] f by (auto simp: small_def)
  from n(1-3) have "n = 3" by presburger
  with n(4) show ?thesis by simp
qed

text \<open>
  The scale-up loop reads the difference a forecast has written twice, once for the pending threads and once for the
  handler. When the next forecast comes in between, the handler is asked for nothing and the pending threads stay.
\<close>

definition raced :: predict_system where
  "raced = (on_scaler (\<lambda>ps. ps\<lparr>ps_predictUpDiff := 2, ps_scaleUpChan := True\<rparr>) slow_start)\<lparr>py_keys := [(''f'', [0, 0])]\<rparr>"

theorem forecast_leaves_pending:
  "(let y = up_call_predicted (watch_begin 60000 None (up_on_predicted raced))
    in (py_calls y, py_owedUp y, ps_pendingInsThdNum (py_scaler y))) = ([(False, ScaleUp 0)], 0, 8)"
  by code_simp

text \<open>The forecast for version 1 of a function is taken for that of version 10.\<close>

theorem forecast_of_another_version:
  "predict_now ''t/f/1'' [0, 0] None ((py_scaler slow_start)\<lparr>ps_funcKeyWithRes := ''t/f/10-r''\<rparr>) \<noteq> PredictIgnored"
  by code_simp

text \<open>A forecast without a time window makes the watcher panic when it reports that it is not valid.\<close>

theorem forecast_without_window_panics:
  "decode value = Some \<lparr>pr_DataSetTimeWindow = [], pr_QPSResult = m\<rparr> \<Longrightarrow> value \<noteq> [] \<Longrightarrow>
   watcherHandler decode ord self sp window now (PredictPut value) ps = WatchPanics"
  by (simp add: watcherHandler_def getPredictFromEtcdValue_def checkPredictResultValid_def)

end
