(* ===== verification/SignalManager.thy ===== *)
theory SignalManager
  imports GoStrings
begin

text \<open>
  The manager that tells instances of changed aliases and schedulers (\<^verbatim>\<open>functionscaler/signalmanager\<close>), and the ratio of a rollout
  (\<^verbatim>\<open>functionscaler/rollout\<close>). Every instance has a processor per kind of signal, and a goroutine per processor while there is
  something to deliver. Shown, for all interleavings: a processor has one goroutine at most, no signal is lost unless its data cannot be
  read, and an instance that was removed is not signalled any more.
\<close>

section \<open>The ratio of a rollout\<close>

record rollout_Config =
  rc_IsGaryUpdating :: bool
  rc_CurrentRatio :: int

definition SetUpdating :: "bool \<Rightarrow> rollout_Config \<Rightarrow> rollout_Config" where
  "SetUpdating isUpdating rc = rc\<lparr>rc_IsGaryUpdating := isUpdating\<rparr>"

definition trimSuffix :: "string \<Rightarrow> string \<Rightarrow> string" where
  "trimSuffix s suffix = (if hasPrefix (rev s) (rev suffix) then take (length s - length suffix) s else s)"

datatype rollout_error = RolloutDecode | RolloutParse | RolloutTooLarge

text \<open>\<open>decode\<close> reads the field \<^verbatim>\<open>blue-ratio\<close> of the JSON text.\<close>

definition ProcessRatioUpdate :: "(string \<Rightarrow> string option) \<Rightarrow> string \<Rightarrow> rollout_Config \<Rightarrow> rollout_error option \<times> rollout_Config" where
  "ProcessRatioUpdate decode ratioData rc =
     (case decode ratioData of
        None \<Rightarrow> (Some RolloutDecode, rc)
      | Some blueRatio \<Rightarrow>
          case atoi (trimSuffix blueRatio ''%'') of
            None \<Rightarrow> (Some RolloutParse, rc)
          | Some ratio \<Rightarrow>
              if ratio > 100 then (Some RolloutTooLarge, rc)
              else (None, rc\<lparr>rc_CurrentRatio := ratio, rc_IsGaryUpdating := (ratio \<noteq> 0 \<and> ratio \<noteq> 100)\<rparr>))"

definition ProcessRatioDelete :: "rollout_Config \<Rightarrow> rollout_Config" where
  "ProcessRatioDelete rc = rc\<lparr>rc_IsGaryUpdating := False, rc_CurrentRatio := 0\<rparr>"

definition rollout_inv :: "rollout_Config \<Rightarrow> bool" where
  "rollout_inv rc \<longleftrightarrow> rc_CurrentRatio rc \<le> 100 \<and> (rc_IsGaryUpdating rc \<longleftrightarrow> rc_CurrentRatio rc \<noteq> 0 \<and> rc_CurrentRatio rc \<noteq> 100)"

lemma trimSuffix_append [simp]: "trimSuffix (s @ p) p = s"
  by (simp add: trimSuffix_def)

text \<open>A ratio is at most 100 and a rollout is under way exactly when it is neither 0 nor 100; an update that fails changes nothing.\<close>

theorem rollout_inv_kept:
  assumes "rollout_inv rc"
  shows "rollout_inv (snd (ProcessRatioUpdate decode d rc)) \<and> rollout_inv (ProcessRatioDelete rc) \<and>
    (fst (ProcessRatioUpdate decode d rc) \<noteq> None \<longrightarrow> snd (ProcessRatioUpdate decode d rc) = rc)"
  using assms by (auto simp: ProcessRatioUpdate_def ProcessRatioDelete_def rollout_inv_def split: option.splits)

text \<open>A ratio below zero is accepted, and counts as a rollout that is under way.\<close>

theorem negative_ratio_accepted:
  "ProcessRatioUpdate Some ''-5%'' \<lparr>rc_IsGaryUpdating = False, rc_CurrentRatio = 0\<rparr> = (None, \<lparr>rc_IsGaryUpdating = True, rc_CurrentRatio = -5\<rparr>)"
  by code_simp

section \<open>Processors\<close>

abbreviation (input) KillSignalAliasUpdate :: int where "KillSignalAliasUpdate \<equiv> 64"
abbreviation (input) KillSignalFaaSSchedulerUpdate :: int where "KillSignalFaaSSchedulerUpdate \<equiv> 72"

text \<open>\<open>sg_stopped\<close>: the channel \<^verbatim>\<open>StopChan\<close> is closed.\<close>

record signalProcessor =
  sg_InstanceId :: string
  sg_HasSignal :: bool
  sg_IsRunning :: bool
  sg_stopped :: bool
  sg_SignalNo :: int
  sg_TenantId :: string

text \<open>Processors are shared between the manager and their goroutines, and live in a store.\<close>

record signal_manager =
  sm_instances :: "(string, (int, nat) gomap) gomap"
  sm_procs :: "(nat, signalProcessor) gomap"
  sm_next :: nat
  sm_killSet :: bool

definition GetSignalManager :: signal_manager where
  "GetSignalManager = \<lparr>sm_instances = fmempty, sm_procs = fmempty, sm_next = 0, sm_killSet = False\<rparr>"

definition SetKillFunc :: "signal_manager \<Rightarrow> signal_manager" where
  "SetKillFunc sm = sm\<lparr>sm_killSet := True\<rparr>"

definition GetTenantFromFuncKey :: "string \<Rightarrow> string" where
  "GetTenantFromFuncKey funcKey = (case splitAll CHR ''/'' funcKey of [t, f, v] \<Rightarrow> t | _ \<Rightarrow> [])"

definition new_processor :: "string \<Rightarrow> int \<Rightarrow> string \<Rightarrow> signalProcessor" where
  "new_processor instanceId signalNo tenantId =
     \<lparr>sg_InstanceId = instanceId, sg_HasSignal = False, sg_IsRunning = False, sg_stopped = False, sg_SignalNo = signalNo, sg_TenantId = tenantId\<rparr>"

definition new_signal_instance :: "string \<Rightarrow> string \<Rightarrow> signal_manager \<Rightarrow> (int, nat) gomap \<times> signal_manager" where
  "new_signal_instance instanceId tenantId sm =
     (let a = sm_next sm; b = Suc a;
          ps = fmupd KillSignalFaaSSchedulerUpdate b (fmupd KillSignalAliasUpdate a fmempty)
      in (ps, sm\<lparr>sm_procs := fmupd b (new_processor instanceId KillSignalFaaSSchedulerUpdate [])
                               (fmupd a (new_processor instanceId KillSignalAliasUpdate tenantId) (sm_procs sm)),
                 sm_next := Suc b, sm_instances := fmupd instanceId ps (sm_instances sm)\<rparr>))"

text \<open>\<open>signal_processor\<close>: the end of \<^verbatim>\<open>SignalInstance\<close>; it answers the processor and whether a goroutine is started for it.\<close>

definition signal_processor :: "int \<Rightarrow> (int, nat) gomap \<Rightarrow> signal_manager \<Rightarrow> (nat \<times> bool) option \<times> signal_manager" where
  "signal_processor signalNo processors sm =
     (case fmlookup processors signalNo of
        None \<Rightarrow> (None, sm)
      | Some a \<Rightarrow>
          case fmlookup (sm_procs sm) a of
            None \<Rightarrow> (None, sm)
          | Some p \<Rightarrow>
              (Some (a, \<not> sg_IsRunning p), sm\<lparr>sm_procs := fmupd a (p\<lparr>sg_HasSignal := True, sg_IsRunning := True\<rparr>) (sm_procs sm)\<rparr>))"

definition SignalInstance :: "bool \<Rightarrow> string \<Rightarrow> string \<Rightarrow> int \<Rightarrow> signal_manager \<Rightarrow> (nat \<times> bool) option \<times> signal_manager" where
  "SignalInstance backendFG instanceId funcKey signalNo sm =
     (if backendFG then (None, sm)
      else if signalNo \<notin> {KillSignalAliasUpdate, KillSignalFaaSSchedulerUpdate} then (None, sm)
      else if \<not> sm_killSet sm then (None, sm)
      else case fmlookup (sm_instances sm) instanceId of
        None \<Rightarrow>
          if GetTenantFromFuncKey funcKey = [] then (None, sm)
          else (case new_signal_instance instanceId (GetTenantFromFuncKey funcKey) sm of (processors, sm1) \<Rightarrow>
                  signal_processor signalNo processors sm1)
      | Some processors \<Rightarrow> signal_processor signalNo processors sm)"

definition close_stop :: "(int, nat) gomap \<Rightarrow> nat \<Rightarrow> signalProcessor \<Rightarrow> signalProcessor" where
  "close_stop processors a p = (if a \<in> fmran' processors then p\<lparr>sg_stopped := True\<rparr> else p)"

definition signal_RemoveInstance :: "string \<Rightarrow> signal_manager \<Rightarrow> signal_manager" where
  "signal_RemoveInstance instanceId sm =
     (case fmlookup (sm_instances sm) instanceId of
        None \<Rightarrow> sm
      | Some processors \<Rightarrow>
          sm\<lparr>sm_procs := fmmap_keys (close_stop processors) (sm_procs sm), sm_instances := fmdrop instanceId (sm_instances sm)\<rparr>)"

section \<open>The goroutine of a processor\<close>

text \<open>
  The places of \<^verbatim>\<open>signalProcessor.signalInstance\<close> with its variables \<^verbatim>\<open>isRetry\<close> and \<^verbatim>\<open>retryInterval\<close>: before the first lock
  section, before it looks at \<^verbatim>\<open>StopChan\<close>, before the call that signals the instance with the data read, after a call
  that found no instance, and asleep. \<open>'d\<close> is the type of the data.
\<close>

datatype 'd signal_pc = AtTop bool duration | AtSelect duration | AtKill duration 'd | AtRemove duration | AtSleep duration

datatype kill_answer = KillOk | KillNotFound | KillFailed

abbreviation (input) firstInterval :: duration where "firstInterval \<equiv> 100 * millisecond"
abbreviation (input) maxInterval :: duration where "maxInterval \<equiv> 5 * 60 * second"

text \<open>\<^verbatim>\<open>None\<close>: the goroutine returns.\<close>

definition signal_top :: "bool \<Rightarrow> duration \<Rightarrow> signalProcessor \<Rightarrow> 'd signal_pc option \<times> signalProcessor" where
  "signal_top isRetry retryInterval p =
     (if \<not> sg_HasSignal p \<and> \<not> isRetry then (None, p\<lparr>sg_IsRunning := False\<rparr>)
      else (Some (AtSelect retryInterval), p\<lparr>sg_HasSignal := False\<rparr>))"

definition signal_select :: "'d option \<Rightarrow> duration \<Rightarrow> signalProcessor \<Rightarrow> 'd signal_pc option \<times> signalProcessor" where
  "signal_select getData retryInterval p =
     (if sg_stopped p then (None, p\<lparr>sg_IsRunning := False, sg_HasSignal := False\<rparr>)
      else case getData of
        None \<Rightarrow> (Some (AtTop False retryInterval), p)
      | Some data \<Rightarrow> (Some (AtKill retryInterval data), p))"

definition signal_kill :: "kill_answer \<Rightarrow> duration \<Rightarrow> 'd signal_pc" where
  "signal_kill answer retryInterval =
     (case answer of
        KillOk \<Rightarrow> AtTop False firstInterval
      | KillNotFound \<Rightarrow> AtRemove retryInterval
      | KillFailed \<Rightarrow> AtSleep retryInterval)"

definition signal_woken :: "duration \<Rightarrow> 'd signal_pc" where
  "signal_woken retryInterval = AtTop True (if retryInterval * 2 \<ge> maxInterval then maxInterval else retryInterval * 2)"

section \<open>The transition system\<close>

text \<open>
  The goroutines by the address of their processor. The data of all processors has a version \<open>ss_ver\<close> that grows when an alias or
  a scheduler changes, and reading the data gives its version. For the statements only: the version at the last signal
  for a processor (\<open>ss_want\<close>), the version last delivered (\<open>ss_sent\<close>), and whether the data could not be read since the last signal
  (\<open>ss_lost\<close>).
\<close>

record signal_system =
  ss_mgr :: signal_manager
  ss_go :: "(nat, nat signal_pc) gomap"
  ss_ver :: nat
  ss_want :: "nat \<Rightarrow> nat"
  ss_sent :: "nat \<Rightarrow> nat"
  ss_lost :: "nat \<Rightarrow> bool"

abbreviation (input) proc :: "signal_system \<Rightarrow> nat \<Rightarrow> signalProcessor option" where
  "proc s a \<equiv> fmlookup (sm_procs (ss_mgr s)) a"

definition signal_start :: signal_system where
  "signal_start = \<lparr>ss_mgr = SetKillFunc GetSignalManager, ss_go = fmempty, ss_ver = 0, ss_want = (\<lambda>_. 0), ss_sent = (\<lambda>_. 0), ss_lost = (\<lambda>_. False)\<rparr>"

definition signalled :: "(nat \<times> bool) option \<times> signal_manager \<Rightarrow> signal_system \<Rightarrow> signal_system" where
  "signalled r s =
     (case r of
        (None, sm) \<Rightarrow> s\<lparr>ss_mgr := sm\<rparr>
      | (Some (a, new), sm) \<Rightarrow>
          s\<lparr>ss_mgr := sm, ss_go := (if new then fmupd a (AtTop False firstInterval) (ss_go s) else ss_go s),
            ss_want := (ss_want s)(a := ss_ver s), ss_lost := (ss_lost s)(a := False)\<rparr>)"

definition go_on :: "nat \<Rightarrow> nat signal_pc option \<times> signalProcessor \<Rightarrow> signal_system \<Rightarrow> signal_system" where
  "go_on a r s =
     (case r of (pc, p) \<Rightarrow>
        s\<lparr>ss_mgr := (ss_mgr s)\<lparr>sm_procs := fmupd a p (sm_procs (ss_mgr s))\<rparr>,
          ss_go := (case pc of None \<Rightarrow> fmdrop a (ss_go s) | Some c \<Rightarrow> fmupd a c (ss_go s))\<rparr>)"

definition pc_at :: "nat \<Rightarrow> nat signal_pc \<Rightarrow> signal_system \<Rightarrow> signal_system" where
  "pc_at a c s = s\<lparr>ss_go := fmupd a c (ss_go s)\<rparr>"

inductive signal_step :: "signal_system \<Rightarrow> signal_system \<Rightarrow> bool" where
  change: "signal_step s (s\<lparr>ss_ver := Suc (ss_ver s)\<rparr>)"
| signal: "signal_step s (signalled (SignalInstance fg i f n (ss_mgr s)) s)"
| remove: "signal_step s (s\<lparr>ss_mgr := signal_RemoveInstance i (ss_mgr s)\<rparr>)"
| top: "fmlookup (ss_go s) a = Some (AtTop isRetry t) \<Longrightarrow> proc s a = Some p \<Longrightarrow> signal_step s (go_on a (signal_top isRetry t p) s)"
| select: "fmlookup (ss_go s) a = Some (AtSelect t) \<Longrightarrow> proc s a = Some p \<Longrightarrow>
    signal_step s (go_on a (signal_select (Some (ss_ver s)) t p) s)"
| unreadable: "fmlookup (ss_go s) a = Some (AtSelect t) \<Longrightarrow> proc s a = Some p \<Longrightarrow>
    signal_step s ((go_on a (signal_select None t p) s)\<lparr>ss_lost := (ss_lost s)(a := True)\<rparr>)"
| delivered: "fmlookup (ss_go s) a = Some (AtKill t v) \<Longrightarrow>
    signal_step s ((pc_at a (signal_kill KillOk t) s)\<lparr>ss_sent := (ss_sent s)(a := v)\<rparr>)"
| failed: "fmlookup (ss_go s) a = Some (AtKill t v) \<Longrightarrow> r \<noteq> KillOk \<Longrightarrow> signal_step s (pc_at a (signal_kill r t) s)"
| not_found: "fmlookup (ss_go s) a = Some (AtRemove t) \<Longrightarrow> proc s a = Some p \<Longrightarrow>
    signal_step s (pc_at a (AtTop False t) (s\<lparr>ss_mgr := signal_RemoveInstance (sg_InstanceId p) (ss_mgr s)\<rparr>))"
| woken: "fmlookup (ss_go s) a = Some (AtSleep t) \<Longrightarrow> signal_step s (pc_at a (signal_woken t) s)"

section \<open>Invariant\<close>

text \<open>An address is listed when its processor belongs to an instance the manager knows.\<close>

definition listed :: "signal_manager \<Rightarrow> string \<Rightarrow> nat \<Rightarrow> bool" where
  "listed sm i a \<longleftrightarrow> (\<exists>ps n. fmlookup (sm_instances sm) i = Some ps \<and> fmlookup ps n = Some a)"

text \<open>The store holds the addresses that were given out, the listed ones with their instance, and every processor that was not stopped is listed.\<close>

definition store_inv :: "signal_manager \<Rightarrow> bool" where
  "store_inv sm \<longleftrightarrow>
     (\<forall>a p. fmlookup (sm_procs sm) a = Some p \<longrightarrow> a < sm_next sm \<and> (sg_stopped p \<or> listed sm (sg_InstanceId p) a)) \<and>
     (\<forall>i a. listed sm i a \<longrightarrow> (\<exists>p. fmlookup (sm_procs sm) a = Some p \<and> sg_InstanceId p = i))"

text \<open>What the goroutine at a place still does for the version \<open>w\<close> that is wanted.\<close>

fun will_send :: "nat \<Rightarrow> nat signal_pc \<Rightarrow> bool" where
  "will_send w (AtTop isRetry t) = isRetry"
| "will_send w (AtSelect t) = True"
| "will_send w (AtKill t v) = (w \<le> v)"
| "will_send w (AtRemove t) = False"
| "will_send w (AtSleep t) = True"

fun pc_interval :: "'d signal_pc \<Rightarrow> duration" where
  "pc_interval (AtTop isRetry t) = t"
| "pc_interval (AtSelect t) = t"
| "pc_interval (AtKill t v) = t"
| "pc_interval (AtRemove t) = t"
| "pc_interval (AtSleep t) = t"

definition proc_inv :: "signal_system \<Rightarrow> nat \<Rightarrow> signalProcessor \<Rightarrow> bool" where
  "proc_inv s a p \<longleftrightarrow>
     (sg_IsRunning p \<longleftrightarrow> fmlookup (ss_go s) a \<noteq> None) \<and> (sg_HasSignal p \<longrightarrow> sg_IsRunning p) \<and>
     (\<forall>t v. fmlookup (ss_go s) a = Some (AtKill t v) \<longrightarrow> ss_sent s a \<le> v \<and> v \<le> ss_ver s) \<and>
     (sg_stopped p \<or> ss_lost s a \<or> ss_want s a \<le> ss_sent s a \<or> sg_HasSignal p \<or>
      (\<exists>c. fmlookup (ss_go s) a = Some c \<and> (will_send (ss_want s a) c \<or> (\<exists>t. c = AtRemove t))))"

definition signal_inv :: "signal_system \<Rightarrow> bool" where
  "signal_inv s \<longleftrightarrow>
     store_inv (ss_mgr s) \<and> (\<forall>a p. proc s a = Some p \<longrightarrow> proc_inv s a p) \<and> (\<forall>a. ss_want s a \<le> ss_ver s \<and> ss_sent s a \<le> ss_ver s) \<and>
     (\<forall>a. sm_next (ss_mgr s) \<le> a \<longrightarrow> ss_want s a = 0) \<and>
     (\<forall>a c. fmlookup (ss_go s) a = Some c \<longrightarrow> proc s a \<noteq> None \<and> firstInterval \<le> pc_interval c \<and> pc_interval c \<le> maxInterval)"

text \<open>Only the store of processors changes, at one address, and the processor keeps its instance.\<close>

lemma store_inv_upd:
  assumes "store_inv sm" "fmlookup (sm_procs sm) a = Some p" "sg_InstanceId p' = sg_InstanceId p" "sg_stopped p' = sg_stopped p"
  shows "store_inv (sm\<lparr>sm_procs := fmupd a p' (sm_procs sm)\<rparr>)"
proof -
  have l: "listed (sm\<lparr>sm_procs := m\<rparr>) = listed sm" for m by (simp add: listed_def fun_eq_iff)
  have "\<exists>q. (if b = a then Some p' else fmlookup (sm_procs sm) b) = Some q \<and> sg_InstanceId q = i" if "listed sm i b" for i b
  proof -
    have "\<exists>q. fmlookup (sm_procs sm) b = Some q \<and> sg_InstanceId q = i" using that assms(1) by (simp add: store_inv_def)
    then show ?thesis using assms(2,3) by (cases "b = a") auto
  qed
  moreover have "b < sm_next sm \<and> (sg_stopped q \<or> listed sm (sg_InstanceId q) b)"
    if "(if b = a then Some p' else fmlookup (sm_procs sm) b) = Some q" for b q
    using that assms by (auto simp: store_inv_def split: if_splits)
  moreover have "fmlookup (sm_procs (sm\<lparr>sm_procs := fmupd a p' (sm_procs sm)\<rparr>)) b = (if b = a then Some p' else fmlookup (sm_procs sm) b)"
    "sm_next (sm\<lparr>sm_procs := fmupd a p' (sm_procs sm)\<rparr>) = sm_next sm" for b by simp_all
  ultimately show ?thesis unfolding store_inv_def l by (simp only:) blast
qed

lemma store_inv_remove:
  assumes "store_inv sm"
  shows "store_inv (signal_RemoveInstance i sm)"
proof (cases "fmlookup (sm_instances sm) i")
  case (Some ps)
  let ?sm = "signal_RemoveInstance i sm"
  have l: "listed ?sm j a \<longleftrightarrow> j \<noteq> i \<and> listed sm j a" for j a
    using Some by (auto simp: signal_RemoveInstance_def listed_def)
  have p: "fmlookup (sm_procs ?sm) a = map_option (close_stop ps a) (fmlookup (sm_procs sm) a)" "sm_next ?sm = sm_next sm" for a
    using Some by (simp_all add: signal_RemoveInstance_def)
  have c: "sg_InstanceId (close_stop ps a q) = sg_InstanceId q" for a q by (simp add: close_stop_def)
  have gone: "sg_stopped (close_stop ps a q)" if "listed sm i a" for a q
    using that Some by (auto simp: listed_def close_stop_def fmran'I)
  have kept: "sg_stopped q \<Longrightarrow> sg_stopped (close_stop ps a q)" for a q by (simp add: close_stop_def)
  show ?thesis unfolding store_inv_def p l
  proof (intro conjI allI impI)
    fix a q
    assume "map_option (close_stop ps a) (fmlookup (sm_procs sm) a) = Some q"
    then obtain r where r: "fmlookup (sm_procs sm) a = Some r" "q = close_stop ps a r" by auto
    then have "a < sm_next sm" "sg_stopped r \<or> listed sm (sg_InstanceId r) a" using assms by (auto simp: store_inv_def)
    then show "a < sm_next sm" "sg_stopped q \<or> sg_InstanceId q \<noteq> i \<and> listed sm (sg_InstanceId q) a"
      using gone kept r(2) c by metis+
  next
    fix j a
    assume "j \<noteq> i \<and> listed sm j a"
    then show "\<exists>q. map_option (close_stop ps a) (fmlookup (sm_procs sm) a) = Some q \<and> sg_InstanceId q = j"
      using assms c by (fastforce simp: store_inv_def)
  qed
qed (use assms in \<open>simp add: signal_RemoveInstance_def\<close>)

lemma two_processors: "(\<exists>n. fmlookup (fmupd KillSignalFaaSSchedulerUpdate b (fmupd KillSignalAliasUpdate a fmempty)) n = Some c) \<longleftrightarrow> c \<in> {a, b}"
proof
  assume "c \<in> {a, b}"
  then have "fmlookup (fmupd KillSignalFaaSSchedulerUpdate b (fmupd KillSignalAliasUpdate a fmempty)) (if c = b then 72 else 64) = Some c" by auto
  then show "\<exists>n. fmlookup (fmupd KillSignalFaaSSchedulerUpdate b (fmupd KillSignalAliasUpdate a fmempty)) n = Some c" by blast
qed (auto split: if_splits)

lemma store_inv_new:
  assumes "store_inv sm" "fmlookup (sm_instances sm) i = None" "new_signal_instance i t sm = (ps, sm')"
  shows "store_inv sm'"
proof -
  have l: "listed sm' j a \<longleftrightarrow> (if j = i then a \<in> {sm_next sm, Suc (sm_next sm)} else listed sm j a)" for j a
    using assms(3) two_processors [of "Suc (sm_next sm)" "sm_next sm" a] by (auto simp: new_signal_instance_def listed_def Let_def)
  have none: "\<not> listed sm i a" for a using assms(2) by (simp add: listed_def)
  have p: "sm_next sm' = Suc (Suc (sm_next sm))" "fmlookup (sm_procs sm') a =
      (if a = Suc (sm_next sm) then Some (new_processor i KillSignalFaaSSchedulerUpdate [])
       else if a = sm_next sm then Some (new_processor i KillSignalAliasUpdate t) else fmlookup (sm_procs sm) a)" for a
    using assms(3) by (auto simp: new_signal_instance_def Let_def)
  have old: "a < sm_next sm \<and> (sg_stopped q \<or> listed sm (sg_InstanceId q) a)" if "fmlookup (sm_procs sm) a = Some q" for a q
    using that assms(1) by (auto simp: store_inv_def)
  have named: "\<exists>q. fmlookup (sm_procs sm) a = Some q \<and> sg_InstanceId q = j" if "listed sm j a" for j a
    using that assms(1) by (auto simp: store_inv_def)
  then have fresh: "listed sm j a \<Longrightarrow> a < sm_next sm" for j a using old by blast
  show ?thesis unfolding store_inv_def p l
  proof (intro conjI allI impI)
    fix a q
    assume "(if a = Suc (sm_next sm) then Some (new_processor i KillSignalFaaSSchedulerUpdate [])
       else if a = sm_next sm then Some (new_processor i KillSignalAliasUpdate t) else fmlookup (sm_procs sm) a) = Some q"
    then show "a < Suc (Suc (sm_next sm))"
      "sg_stopped q \<or> (if sg_InstanceId q = i then a \<in> {sm_next sm, Suc (sm_next sm)} else listed sm (sg_InstanceId q) a)"
      using old [of a q] none by (auto simp: new_processor_def split: if_splits)
  next
    fix j a
    assume "if j = i then a \<in> {sm_next sm, Suc (sm_next sm)} else listed sm j a"
    then show "\<exists>q. (if a = Suc (sm_next sm) then Some (new_processor i KillSignalFaaSSchedulerUpdate [])
       else if a = sm_next sm then Some (new_processor i KillSignalAliasUpdate t) else fmlookup (sm_procs sm) a) = Some q \<and> sg_InstanceId q = j"
      using named [of j a] fresh [of j a] by (auto simp: new_processor_def split: if_splits)
  qed
qed

lemma signal_inv_start: "signal_inv signal_start"
  by (simp add: signal_inv_def signal_start_def store_inv_def listed_def GetSignalManager_def SetKillFunc_def)

text \<open>Removing an instance stops processors and changes nothing else of them.\<close>

lemma removed_proc:
  assumes "fmlookup (sm_procs (signal_RemoveInstance i sm)) a = Some q"
  obtains p where "fmlookup (sm_procs sm) a = Some p" "q = p \<or> q = p\<lparr>sg_stopped := True\<rparr>"
  using assms by (auto simp: signal_RemoveInstance_def close_stop_def split: option.splits if_splits)

lemma removed_dom: "fmlookup (sm_procs (signal_RemoveInstance i sm)) a \<noteq> None \<longleftrightarrow> fmlookup (sm_procs sm) a \<noteq> None"
  by (auto simp: signal_RemoveInstance_def split: option.splits)

lemma removed_next [simp]: "sm_next (signal_RemoveInstance i sm) = sm_next sm"
  by (simp add: signal_RemoveInstance_def split: option.splits)

lemma signal_inv_remove:
  assumes "signal_inv s"
  shows "signal_inv (s\<lparr>ss_mgr := signal_RemoveInstance i (ss_mgr s)\<rparr>)"
proof -
  have "proc_inv (s\<lparr>ss_mgr := signal_RemoveInstance i (ss_mgr s)\<rparr>) a q" if "fmlookup (sm_procs (signal_RemoveInstance i (ss_mgr s))) a = Some q" for a q
  proof -
    from that obtain p where p: "proc s a = Some p" "q = p \<or> q = p\<lparr>sg_stopped := True\<rparr>" by (rule removed_proc)
    then have "proc_inv s a p" using assms by (simp add: signal_inv_def)
    with p(2) show ?thesis by (auto simp: proc_inv_def)
  qed
  then show ?thesis using assms store_inv_remove removed_dom unfolding signal_inv_def by simp
qed

text \<open>A step of one goroutine concerns its own processor.\<close>

lemma signal_inv_at:
  assumes "signal_inv s" "proc s a = Some p" "sg_InstanceId p' = sg_InstanceId p" "sg_stopped p' = sg_stopped p"
    and "ss_mgr s' = (ss_mgr s)\<lparr>sm_procs := fmupd a p' (sm_procs (ss_mgr s))\<rparr>" "ss_ver s' = ss_ver s"
    and "\<And>b. b \<noteq> a \<Longrightarrow> fmlookup (ss_go s') b = fmlookup (ss_go s) b \<and> ss_want s' b = ss_want s b \<and> ss_sent s' b = ss_sent s b \<and> ss_lost s' b = ss_lost s b"
    and "proc_inv s' a p'" "ss_want s' a \<le> ss_ver s \<and> ss_sent s' a \<le> ss_ver s"
    and "\<And>c. fmlookup (ss_go s') a = Some c \<Longrightarrow> firstInterval \<le> pc_interval c \<and> pc_interval c \<le> maxInterval"
  shows "signal_inv s'"
proof -
  have st: "store_inv (ss_mgr s)" and pi: "\<And>b q. proc s b = Some q \<Longrightarrow> proc_inv s b q" and w: "\<And>b. ss_want s b \<le> ss_ver s \<and> ss_sent s b \<le> ss_ver s"
    "\<And>b. sm_next (ss_mgr s) \<le> b \<Longrightarrow> ss_want s b = 0"
    and go: "\<And>b c. fmlookup (ss_go s) b = Some c \<Longrightarrow> proc s b \<noteq> None \<and> firstInterval \<le> pc_interval c \<and> pc_interval c \<le> maxInterval"
    using assms(1) unfolding signal_inv_def by blast+
  have lt: "a < sm_next (ss_mgr s)" using st assms(2) by (simp add: store_inv_def)
  have procs: "proc s' b = (if b = a then Some p' else proc s b)" "sm_next (ss_mgr s') = sm_next (ss_mgr s)" for b using assms(5) by simp_all
  have "proc_inv s' b q" if "proc s' b = Some q" for b q
    using that pi [of b q] assms(7) [of b] assms(8) assms(6) by (cases "b = a") (auto simp add: procs proc_inv_def)
  moreover have "store_inv (ss_mgr s')" unfolding assms(5) by (rule store_inv_upd [OF st assms(2-4)])
  moreover have "ss_want s' b \<le> ss_ver s' \<and> ss_sent s' b \<le> ss_ver s'" "sm_next (ss_mgr s') \<le> b \<Longrightarrow> ss_want s' b = 0" for b
    using w assms(6,9) assms(7) [of b] lt procs(2) by (cases "b = a"; simp)+
  moreover have "proc s' b \<noteq> None \<and> firstInterval \<le> pc_interval c \<and> pc_interval c \<le> maxInterval" if "fmlookup (ss_go s') b = Some c" for b c
    using that go [of b c] assms(10) [of c] assms(7) [of b] by (cases "b = a") (simp_all add: procs)
  ultimately show ?thesis unfolding signal_inv_def by blast
qed

lemma signal_processor_proc:
  assumes "signal_processor n ps sm = (r, sm')"
  shows "r = None \<and> sm' = sm \<or>
    (\<exists>a p. fmlookup (sm_procs sm) a = Some p \<and> fmlookup ps n = Some a \<and> r = Some (a, \<not> sg_IsRunning p) \<and>
       sm' = sm\<lparr>sm_procs := fmupd a (p\<lparr>sg_HasSignal := True, sg_IsRunning := True\<rparr>) (sm_procs sm)\<rparr>)"
  using assms by (auto simp: signal_processor_def split: option.splits)

lemma signal_inv_processor:
  assumes "signal_inv s"
  shows "signal_inv (signalled (signal_processor n ps (ss_mgr s)) s)"
proof -
  obtain r sm' where r: "signal_processor n ps (ss_mgr s) = (r, sm')" by fastforce
  from signal_processor_proc [OF this] show ?thesis
  proof (elim disjE exE conjE)
    assume "r = None" "sm' = ss_mgr s"
    with r assms show ?thesis by (simp add: signalled_def)
  next
    fix a p
    let ?p = "p\<lparr>sg_HasSignal := True, sg_IsRunning := True\<rparr> :: signalProcessor"
    assume a: "proc s a = Some p" "r = Some (a, \<not> sg_IsRunning p)" "sm' = (ss_mgr s)\<lparr>sm_procs := fmupd a ?p (sm_procs (ss_mgr s))\<rparr>"
    let ?s = "signalled (r, sm') s"
    have "proc_inv s a p" using assms a(1) by (simp add: signal_inv_def)
    then have "proc_inv ?s a ?p" using a(2) by (auto simp: proc_inv_def signalled_def)
    moreover have "firstInterval \<le> pc_interval c \<and> pc_interval c \<le> maxInterval" if "fmlookup (ss_go ?s) a = Some c" for c
      using that assms a(2) by (auto simp: signal_inv_def signalled_def split: if_splits)
    moreover have "ss_sent s a \<le> ss_ver s" using assms by (simp add: signal_inv_def)
    ultimately show ?thesis unfolding r using assms a
      by (intro signal_inv_at [where p' = ?p, OF assms a(1)]) (auto simp: signalled_def)
  qed
qed

lemma signal_inv_new:
  assumes "signal_inv s" "fmlookup (sm_instances (ss_mgr s)) i = None" "new_signal_instance i t (ss_mgr s) = (ps, sm')"
  shows "signal_inv (s\<lparr>ss_mgr := sm'\<rparr>)"
proof -
  let ?n = "sm_next (ss_mgr s)"
  have p: "sm_next sm' = Suc (Suc ?n)" "fmlookup (sm_procs sm') a =
      (if a = Suc ?n then Some (new_processor i KillSignalFaaSSchedulerUpdate [])
       else if a = ?n then Some (new_processor i KillSignalAliasUpdate t) else proc s a)" for a
    using assms(3) by (auto simp: new_signal_instance_def Let_def)
  have "a < ?n" if "proc s a = Some q" for a q using that assms(1) unfolding signal_inv_def store_inv_def by blast
  then have fresh: "proc s a = None" if "?n \<le> a" for a using that by (metis not_le option.exhaust)
  then have idle: "fmlookup (ss_go s) a = None" if "?n \<le> a" for a
    using fresh [OF that] assms(1) unfolding signal_inv_def by (metis not_None_eq)
  have "proc_inv (s\<lparr>ss_mgr := sm'\<rparr>) a q" if "fmlookup (sm_procs sm') a = Some q" for a q
    using that assms(1) idle unfolding p by (auto simp: proc_inv_def signal_inv_def new_processor_def split: if_splits)
  then show ?thesis using assms(1) store_inv_new [OF _ assms(2,3)] p unfolding signal_inv_def by (auto split: if_splits)
qed

lemma signalled_mgr: "signalled r (s\<lparr>ss_mgr := sm\<rparr>) = signalled r s"
  by (simp add: signalled_def split: option.splits prod.splits)

lemma signal_inv_signal: "signal_inv s \<Longrightarrow> signal_inv (signalled (SignalInstance fg i f n (ss_mgr s)) s)"
proof -
  assume inv: "signal_inv s"
  have same: "signal_inv (signalled (None, ss_mgr s) s)" using inv by (simp add: signalled_def)
  have "signal_inv (signalled (signal_processor n ps sm') s)"
    if "fmlookup (sm_instances (ss_mgr s)) i = None" "new_signal_instance i t (ss_mgr s) = (ps, sm')" for t ps sm'
    using signal_inv_processor [OF signal_inv_new [OF inv that]] by (simp add: signalled_mgr)
  then show ?thesis using same signal_inv_processor [OF inv]
    by (auto simp: SignalInstance_def split: option.splits prod.splits)
qed

lemma signal_inv_goes:
  assumes "signal_inv s" "fmlookup (ss_go s) a = Some c"
  obtains p where "proc s a = Some p" "proc_inv s a p" "firstInterval \<le> pc_interval c" "pc_interval c \<le> maxInterval" "ss_want s a \<le> ss_ver s" "ss_sent s a \<le> ss_ver s"
  using assms unfolding signal_inv_def by blast

lemma signal_inv_goD:
  assumes "signal_inv s" "fmlookup (ss_go s) a = Some c" "proc s a = Some p"
  shows "proc_inv s a p" "firstInterval \<le> pc_interval c" "pc_interval c \<le> maxInterval" "ss_want s a \<le> ss_ver s" "ss_sent s a \<le> ss_ver s"
  using assms unfolding signal_inv_def by blast+

lemma fmupd_same: "fmlookup m a = Some p \<Longrightarrow> fmupd a p m = m"
  by (rule fmap_ext) auto

lemma store_same: "fmlookup (sm_procs sm) a = Some p \<Longrightarrow> sm\<lparr>sm_procs := fmupd a p (sm_procs sm)\<rparr> = sm"
  by (simp add: fmupd_same)

lemma removed_stopped:
  assumes "store_inv sm" "fmlookup (sm_procs sm) a = Some p" "fmlookup (sm_procs (signal_RemoveInstance (sg_InstanceId p) sm)) a = Some q"
  shows "sg_stopped q"
proof (cases "sg_stopped p")
  case True
  with removed_proc [OF assms(3)] assms(2) show ?thesis by fastforce
next
  case False
  with assms(1,2) have "listed sm (sg_InstanceId p) a" by (auto simp: store_inv_def)
  then show ?thesis using assms(2,3) by (auto simp: listed_def signal_RemoveInstance_def close_stop_def fmran'I)
qed

lemma signal_inv_step: "signal_step s s' \<Longrightarrow> signal_inv s \<Longrightarrow> signal_inv s'"
proof (induction rule: signal_step.induct)
  case (change s)
  then show ?case by (auto simp: signal_inv_def proc_inv_def le_SucI)
next
  case (signal s fg i f n)
  then show ?case by (rule signal_inv_signal)
next
  case (remove s i)
  then show ?case by (rule signal_inv_remove)
next
  case (top s a isRetry t p)
  note d = signal_inv_goD [OF top(3,1,2), simplified]
  show ?case
    by (rule signal_inv_at [where a = a and p = p and p' = "snd (signal_top isRetry t p)" and s = s])
      (use d top  in \<open>auto simp: go_on_def signal_top_def proc_inv_def split: if_splits\<close>)
next
  case (select s a t p)
  note d = signal_inv_goD [OF select(3,1,2), simplified]
  show ?case
    by (rule signal_inv_at [where a = a and p = p and p' = "snd (signal_select (Some (ss_ver s)) t p)" and s = s])
      (use d select  in \<open>auto simp: go_on_def signal_select_def proc_inv_def split: if_splits\<close>)
next
  case (unreadable s a t p)
  note d = signal_inv_goD [OF unreadable(3,1,2), simplified]
  show ?case
    by (rule signal_inv_at [where a = a and p = p and p' = "snd (signal_select (None :: nat option) t p)" and s = s])
      (use d unreadable  in \<open>auto simp: go_on_def signal_select_def proc_inv_def split: if_splits\<close>)
next
  case (delivered s a t v)
  from delivered(2,1) obtain p where p: "proc s a = Some p" by (rule signal_inv_goes)
  note d = signal_inv_goD [OF delivered(2,1) p, simplified]
  show ?case
    by (rule signal_inv_at [where a = a and p = p and p' = p and s = s])
      (use d delivered p in \<open>auto simp: store_same pc_at_def signal_kill_def proc_inv_def split: if_splits\<close>)
next
  case (failed s a t v r)
  from failed(3,1) obtain p where p: "proc s a = Some p" by (rule signal_inv_goes)
  note d = signal_inv_goD [OF failed(3,1) p, simplified]
  show ?case
    by (rule signal_inv_at [where a = a and p = p and p' = p and s = s])
      (use d failed p in \<open>auto simp: store_same pc_at_def signal_kill_def proc_inv_def split: if_splits kill_answer.splits\<close>)
next
  case (not_found s a t p)
  let ?s = "s\<lparr>ss_mgr := signal_RemoveInstance (sg_InstanceId p) (ss_mgr s)\<rparr>"
  have inv: "signal_inv ?s" using not_found(3) by (rule signal_inv_remove)
  have "fmlookup (ss_go ?s) a = Some (AtRemove t)" using not_found(1) by simp
  note go = this
  from inv go obtain q where q: "proc ?s a = Some q" by (rule signal_inv_goes)
  note d = signal_inv_goD [OF inv go q, simplified]
  have "sg_stopped q" using removed_stopped [of "ss_mgr s" a p q] not_found(2,3) q(1) by (simp add: signal_inv_def)
  note stopped = this
  show ?case
    by (rule signal_inv_at [where a = a and p = q and p' = q and s = ?s]) (use inv q d go stopped in \<open>auto simp: store_same pc_at_def proc_inv_def\<close>)
next
  case (woken s a t)
  from woken(2,1) obtain p where p: "proc s a = Some p" by (rule signal_inv_goes)
  note d = signal_inv_goD [OF woken(2,1) p, simplified]
  show ?case
    by (rule signal_inv_at [where a = a and p = p and p' = p and s = s])
      (use d woken p in \<open>auto simp: store_same pc_at_def signal_woken_def proc_inv_def split: if_splits\<close>)
qed

section \<open>Properties\<close>

lemma signal_inv_reach: "signal_step\<^sup>*\<^sup>* signal_start s \<Longrightarrow> signal_inv s"
  by (induction rule: rtranclp_induct) (auto intro: signal_inv_start signal_inv_step)

text \<open>
  C23: No signal is lost: in every interleaving, when the goroutine of a processor has ended, its instance was not removed and the data could be
  read since the last signal, the instance was given data at least as new as it was at that signal. Meanwhile the delay
  between two tries stays between a tenth of a second and five minutes.
\<close>

theorem signals_delivered:
  assumes "signal_step\<^sup>*\<^sup>* signal_start s" and "proc s a = Some p" "\<not> sg_stopped p" "\<not> ss_lost s a"
  shows "(fmlookup (ss_go s) a = None \<longrightarrow> ss_want s a \<le> ss_sent s a \<and> \<not> sg_HasSignal p) \<and>
    (\<forall>c. fmlookup (ss_go s) a = Some c \<longrightarrow> firstInterval \<le> pc_interval c \<and> pc_interval c \<le> maxInterval)"
proof -
  have inv: "signal_inv s" using assms(1) by (rule signal_inv_reach)
  then have "proc_inv s a p" using assms(2) by (simp add: signal_inv_def)
  moreover have "firstInterval \<le> pc_interval c \<and> pc_interval c \<le> maxInterval" if "fmlookup (ss_go s) a = Some c" for c
    using that inv unfolding signal_inv_def by blast
  ultimately show ?thesis using assms(3,4) by (auto simp: proc_inv_def)
qed

text \<open>A goroutine is started only for a processor that has none.\<close>

theorem one_goroutine_per_processor:
  assumes "signal_step\<^sup>*\<^sup>* signal_start s" and "SignalInstance fg i f n (ss_mgr s) = (Some (a, True), sm)"
  shows "fmlookup (ss_go s) a = None"
proof -
  have inv: "signal_inv s" using assms(1) by (rule signal_inv_reach)
  have idle: "fmlookup (ss_go s') a = None" if "signal_inv s'" "signal_processor n ps (ss_mgr s') = (Some (a, True), sm)" for s' ps
    using that signal_processor_proc [OF that(2)] by (auto simp: signal_inv_def proc_inv_def)
  show ?thesis
  proof (cases "fmlookup (sm_instances (ss_mgr s)) i")
    case None
    obtain ps sm1 where new: "new_signal_instance i (GetTenantFromFuncKey f) (ss_mgr s) = (ps, sm1)" by fastforce
    have "signal_processor n ps sm1 = (Some (a, True), sm)" using assms(2) None new by (auto simp: SignalInstance_def split: if_splits)
    with idle [of "s\<lparr>ss_mgr := sm1\<rparr>" ps] signal_inv_new [OF inv None new] show ?thesis by simp
  next
    case (Some ps)
    with assms(2) idle [OF inv, of ps] show ?thesis by (auto simp: SignalInstance_def split: if_splits)
  qed
qed

text \<open>What a step of the rest of the system keeps of a processor that was stopped.\<close>

definition silent :: "nat \<Rightarrow> signal_system \<Rightarrow> bool" where
  "silent a s \<longleftrightarrow> (\<exists>p. proc s a = Some p \<and> sg_stopped p) \<and> (\<forall>t v. fmlookup (ss_go s) a \<noteq> Some (AtKill t v))"

lemma silent_remove: "silent a s \<Longrightarrow> silent a (s\<lparr>ss_mgr := signal_RemoveInstance i (ss_mgr s)\<rparr>)"
proof -
  assume a: "silent a s"
  then obtain p where p: "proc s a = Some p" "sg_stopped p" by (auto simp: silent_def)
  have "\<exists>q. fmlookup (sm_procs (signal_RemoveInstance i (ss_mgr s))) a = Some q \<and> sg_stopped q"
    using p by (cases "fmlookup (sm_instances (ss_mgr s)) i") (auto simp: signal_RemoveInstance_def close_stop_def)
  with a show ?thesis by (simp add: silent_def)
qed

lemma silent_processor: "silent a s \<Longrightarrow> silent a (signalled (signal_processor n ps (ss_mgr s)) s)"
  by (auto simp: silent_def signalled_def signal_processor_def split: option.splits)

lemma silent_new:
  assumes "signal_inv s" "silent a s" "new_signal_instance i t (ss_mgr s) = (ps, sm')"
  shows "silent a (s\<lparr>ss_mgr := sm'\<rparr>)"
proof -
  obtain p where p: "proc s a = Some p" "sg_stopped p" using assms(2) by (auto simp: silent_def)
  then have "a < sm_next (ss_mgr s)" using assms(1) by (simp add: signal_inv_def store_inv_def)
  with p assms(2,3) show ?thesis by (auto simp: silent_def new_signal_instance_def Let_def)
qed

lemma silent_step: "signal_step s s' \<Longrightarrow> signal_inv s \<Longrightarrow> silent a s \<Longrightarrow> silent a s' \<and> ss_sent s' a = ss_sent s a"
proof (induction rule: signal_step.induct)
  case (signal s fg i f n)
  have same: "silent a (signalled (None, ss_mgr s) s)" using signal(2) by (simp add: signalled_def)
  have "silent a (signalled (signal_processor n ps sm') s)" if "new_signal_instance i t (ss_mgr s) = (ps, sm')" for t ps sm'
    using silent_processor [OF silent_new [OF signal that], of n ps] by (simp add: signalled_mgr)
  then have "silent a (signalled (SignalInstance fg i f n (ss_mgr s)) s)" using same silent_processor [OF signal(2)]
    by (auto simp: SignalInstance_def split: option.splits prod.splits)
  then show ?case by (simp add: signalled_def split: option.splits prod.splits)
next
  case (remove s i)
  then show ?case using silent_remove by simp
next
  case (not_found s b t p)
  then have "silent a (s\<lparr>ss_mgr := signal_RemoveInstance (sg_InstanceId p) (ss_mgr s)\<rparr>)" by (intro silent_remove)
  then show ?case by (auto simp: silent_def pc_at_def)
qed (auto simp: silent_def go_on_def pc_at_def signal_top_def signal_select_def signal_kill_def signal_woken_def
    split: if_splits option.splits kill_answer.splits)

text \<open>
  After its removal an instance is not signalled any more by a processor that was not already in the call: nothing is delivered, whatever
  signals come for an instance of the same ID.
\<close>

theorem removed_not_signalled:
  assumes "signal_step\<^sup>*\<^sup>* signal_start s" and "proc s a = Some p" "sg_stopped p" "\<forall>t v. fmlookup (ss_go s) a \<noteq> Some (AtKill t v)"
    and "signal_step\<^sup>*\<^sup>* s s'"
  shows "ss_sent s' a = ss_sent s a"
proof -
  have inv: "signal_inv s" using assms(1) by (rule signal_inv_reach)
  have start: "silent a s" using assms(2-4) by (auto simp: silent_def)
  from assms(5) have "signal_inv s' \<and> silent a s' \<and> ss_sent s' a = ss_sent s a"
  proof (induction rule: rtranclp_induct)
    case base
    show ?case using inv start by simp
  next
    case (step y z)
    then show ?case using signal_inv_step silent_step by metis
  qed
  then show ?thesis by simp
qed

section \<open>Witnesses\<close>

text \<open>A change, a signal for an instance of function version 1, and the goroutine to its end.\<close>

definition signalled1 :: signal_system where
  "signalled1 = (let s = signal_start\<lparr>ss_ver := 1\<rparr> in signalled (SignalInstance False ''i'' ''t/f/1'' 64 (ss_mgr s)) s)"

definition running1 :: signal_system where
  "running1 = go_on 0 (signal_top False firstInterval (the (proc signalled1 0))) signalled1"

definition killing1 :: signal_system where
  "killing1 = go_on 0 (signal_select (Some (ss_ver running1)) firstInterval (the (proc running1 0))) running1"

definition sent1 :: signal_system where
  "sent1 = (pc_at 0 (signal_kill KillOk firstInterval) killing1)\<lparr>ss_sent := (ss_sent killing1)(0 := 1)\<rparr>"

definition delivered1 :: signal_system where
  "delivered1 = go_on 0 (signal_top False firstInterval (the (proc sent1 0))) sent1"

lemma signalled1_reached: "signal_step\<^sup>*\<^sup>* signal_start signalled1"
proof -
  have "signal_step signal_start (signal_start\<lparr>ss_ver := 1\<rparr>)" using change [of signal_start] by (simp add: signal_start_def)
  moreover have "signal_step (signal_start\<lparr>ss_ver := 1\<rparr>) signalled1" unfolding signalled1_def Let_def by (rule signal)
  ultimately show ?thesis by (meson converse_rtranclp_into_rtranclp r_into_rtranclp)
qed

lemma run1_places:
  "fmlookup (ss_go signalled1) 0 = Some (AtTop False firstInterval)" "fmlookup (ss_go running1) 0 = Some (AtSelect firstInterval)"
  "fmlookup (ss_go killing1) 0 = Some (AtKill firstInterval 1)" "fmlookup (ss_go sent1) 0 = Some (AtTop False firstInterval)"
  "fmlookup (ss_go delivered1) 0 = None"
  by code_simp+

lemma run1_procs:
  "proc signalled1 0 = Some (the (proc signalled1 0))" "proc running1 0 = Some (the (proc running1 0))" "proc sent1 0 = Some (the (proc sent1 0))"
  "proc delivered1 0 = Some (new_processor ''i'' 64 ''t'')" "ss_want delivered1 0 = 1" "\<not> ss_lost delivered1 0"
  by code_simp+

lemma delivered1_reached: "signal_step\<^sup>*\<^sup>* signal_start delivered1"
proof -
  have "signal_step signalled1 running1" unfolding running1_def by (rule top [OF run1_places(1) run1_procs(1)])
  moreover have "signal_step running1 killing1" unfolding killing1_def by (rule select [OF run1_places(2) run1_procs(2)])
  moreover have "signal_step killing1 sent1" unfolding sent1_def by (rule delivered [OF run1_places(3)])
  moreover have "signal_step sent1 delivered1" unfolding delivered1_def by (rule top [OF run1_places(4) run1_procs(3)])
  ultimately show ?thesis using signalled1_reached by (meson rtranclp.rtrancl_into_rtrancl)
qed

theorem signals_delivered_witness: "1 \<le> ss_sent delivered1 0"
  using signals_delivered [OF delivered1_reached run1_procs(4)] run1_procs(5,6) run1_places(5) by (simp add: new_processor_def)

text \<open>The instance is removed before the goroutine looks: it ends without a delivery.\<close>

definition removed1 :: signal_system where
  "removed1 = signalled1\<lparr>ss_mgr := signal_RemoveInstance ''i'' (ss_mgr signalled1)\<rparr>"

theorem removed_not_signalled_witness:
  "\<exists>s'. signal_step removed1 s' \<and> fmlookup (ss_go s') 0 = Some (AtSelect firstInterval) \<and> ss_sent s' 0 = ss_sent removed1 0"
proof -
  let ?p = "the (proc removed1 0)"
  let ?s = "go_on 0 (signal_top False firstInterval ?p) removed1"
  have r: "signal_step\<^sup>*\<^sup>* signal_start removed1"
    using signalled1_reached remove [of signalled1 "''i''"] unfolding removed1_def by (meson rtranclp.rtrancl_into_rtrancl)
  have p: "proc removed1 0 = Some ?p" "sg_stopped ?p" "fmlookup (ss_go removed1) 0 = Some (AtTop False firstInterval)"
    "fmlookup (ss_go ?s) 0 = Some (AtSelect firstInterval)" by code_simp+
  have st: "signal_step removed1 ?s" by (rule top [OF p(3,1)])
  moreover have "ss_sent ?s 0 = ss_sent removed1 0"
    by (rule removed_not_signalled [OF r p(1,2)]) (use p(3) st in auto)
  ultimately show ?thesis using p(4) by blast
qed

end
