(* ===== verification/BucketCollector.thy ===== *)
theory BucketCollector
  imports AutoScaler
begin

text \<open>
  The collector of the rates the scalers decide on (\<^verbatim>\<open>functionscaler/metrics/bucket_collector.go\<close>): requests, threads in use
  and measured times are kept in a bucket per second, and averaged with those of the earlier buckets. Shown: the count of
  threads in use is exact across buckets, a new bucket changes no average, and a rate that has been measured never becomes zero again, so
  that the automatic scaler does not give up for want of a rate; and that the scaler takes the measured milliseconds for seconds.
\<close>

section \<open>Buckets\<close>

record Bucket =
  bk_inUseInsThdNum :: rat
  bk_maxInUseInsThdNum :: rat
  bk_insThdReqNum :: rat
  bk_prevInsThdReqNumPS :: rat
  bk_avgProcTime :: rat
  bk_prevAvgProcTime :: rat
  bk_insThdProcNumPS :: rat
  bk_prevInsThdProcNumPS :: rat
  bk_initialized :: bool
  bk_isFirst :: bool
  bk_recordTime :: time

record BucketCollector =
  bm_bucketBuffer :: "Bucket option list"
  bm_curIndex :: nat
  bm_rotatePace :: int
  bm_started :: bool
  bm_collected :: bool
  bm_stopped :: bool

definition NewBucketMetricsCollector :: BucketCollector where
  "NewBucketMetricsCollector =
     \<lparr>bm_bucketBuffer = replicate 100 None, bm_curIndex = 0, bm_rotatePace = 1, bm_started = False, bm_collected = False, bm_stopped = False\<rparr>"

definition first_bucket :: "bool \<Rightarrow> time \<Rightarrow> Bucket" where
  "first_bucket isFirst now =
     \<lparr>bk_inUseInsThdNum = 0, bk_maxInUseInsThdNum = 0, bk_insThdReqNum = 0, bk_prevInsThdReqNumPS = 0, bk_avgProcTime = 0,
      bk_prevAvgProcTime = 0, bk_insThdProcNumPS = 0, bk_prevInsThdProcNumPS = 0, bk_initialized = False, bk_isFirst = isFirst,
      bk_recordTime = now\<rparr>"

definition set_bucket :: "Bucket \<Rightarrow> BucketCollector \<Rightarrow> BucketCollector" where
  "set_bucket b bm = bm\<lparr>bm_bucketBuffer := (bm_bucketBuffer bm)[bm_curIndex bm := Some b]\<rparr>"

definition cur_bucket :: "BucketCollector \<Rightarrow> Bucket option" where
  "cur_bucket bm = bm_bucketBuffer bm ! bm_curIndex bm"

text \<open>The first update starts the goroutine that changes the bucket. \<^verbatim>\<open>UpdateInsThdMetrics\<close> does not mark its first bucket.\<close>

definition ensure_started :: "bool \<Rightarrow> time \<Rightarrow> BucketCollector \<Rightarrow> BucketCollector" where
  "ensure_started isFirst now bm =
     (if bm_started bm then bm else set_bucket (first_bucket isFirst now) (bm\<lparr>bm_started := True\<rparr>))"

definition on_bucket :: "(Bucket \<Rightarrow> Bucket) \<Rightarrow> BucketCollector \<Rightarrow> BucketCollector" where
  "on_bucket f bm = (case cur_bucket bm of None \<Rightarrow> bm | Some b \<Rightarrow> set_bucket (f b) bm)"

definition UpdateInvokeRequests :: "time \<Rightarrow> int \<Rightarrow> BucketCollector \<Rightarrow> BucketCollector" where
  "UpdateInvokeRequests now insThdReqNum bm =
     on_bucket (\<lambda>b. b\<lparr>bk_insThdReqNum := fadd (bk_insThdReqNum b) (f64_of insThdReqNum)\<rparr>) (ensure_started True now bm)"

text \<open>A value averaged with the report of one thread, and then with the other threads.\<close>

definition average_thread :: "rat \<Rightarrow> rat \<Rightarrow> rat \<Rightarrow> rat" where
  "average_thread value report threads =
     fdiv (fadd (fdiv (fadd value report) 2) (fmul value (fsub threads 1))) threads"

text \<open>
  \<^verbatim>\<open>UpdateInvokeMetrics\<close> with the number of requests processed and their average time in milliseconds; \<^verbatim>\<open>None\<close> for no metrics. A
  further report in a bucket in which no thread was ever in use divides by zero, and the averages are no numbers any more: the
  result is \<^verbatim>\<open>None\<close>.
\<close>

definition measure_bucket :: "int \<Rightarrow> Bucket \<Rightarrow> Bucket option" where
  "measure_bucket avgProcTime b =
     (let curThdProcNumPS = fdiv 1000 (f64_of avgProcTime)
      in if \<not> bk_initialized b
         then Some (b\<lparr>bk_initialized := True, bk_avgProcTime := f64_of avgProcTime, bk_insThdProcNumPS := curThdProcNumPS\<rparr>)
         else if bk_maxInUseInsThdNum b = 0 then None
         else Some (b\<lparr>bk_avgProcTime := average_thread (bk_avgProcTime b) (f64_of avgProcTime) (bk_maxInUseInsThdNum b),
                      bk_insThdProcNumPS := average_thread (bk_insThdProcNumPS b) curThdProcNumPS (bk_maxInUseInsThdNum b)\<rparr>))"

definition bc_UpdateInvokeMetrics :: "time \<Rightarrow> (int \<times> int) option \<Rightarrow> BucketCollector \<Rightarrow> BucketCollector option" where
  "bc_UpdateInvokeMetrics now insThdMetrics bm =
     (let bm1 = ensure_started True now bm
      in case insThdMetrics of
           None \<Rightarrow> Some bm1
         | Some (procReqNum, avgProcTime) \<Rightarrow>
             if procReqNum = 0 \<or> avgProcTime = 0 then Some bm1
             else let bm2 = bm1\<lparr>bm_collected := True\<rparr>
                  in case cur_bucket bm2 of
                       None \<Rightarrow> Some bm2
                     | Some b \<Rightarrow> map_option (\<lambda>b'. set_bucket b' bm2) (measure_bucket avgProcTime b))"

definition UpdateInsThdMetrics :: "time \<Rightarrow> int \<Rightarrow> BucketCollector \<Rightarrow> BucketCollector" where
  "UpdateInsThdMetrics now inUseInsThdDiff bm =
     (if inUseInsThdDiff = 0 then bm
      else on_bucket (\<lambda>b. let n = fadd (bk_inUseInsThdNum b) (f64_of inUseInsThdDiff)
                          in b\<lparr>bk_inUseInsThdNum := n, bk_maxInUseInsThdNum := max n (bk_maxInUseInsThdNum b)\<rparr>)
             (ensure_started False now bm))"

text \<open>The constants \<^verbatim>\<open>0.7\<close> and \<^verbatim>\<open>1-0.7\<close>, which Go computes exactly before it rounds.\<close>

definition factor :: rat where "factor = f64 (7 / 10)"
definition cofactor :: rat where "cofactor = f64 (3 / 10)"

definition averageWithPrev :: "rat \<Rightarrow> rat \<Rightarrow> rat" where
  "averageWithPrev value prevValue =
     (if value \<noteq> 0 \<and> prevValue \<noteq> 0 then fadd (fmul factor value) (fmul cofactor prevValue)
      else if value = 0 then prevValue else value)"

text \<open>\<^verbatim>\<open>None\<close>: there is no bucket yet, and reading it panics.\<close>

definition GetCalculatedInvokeMetrics :: "time \<Rightarrow> BucketCollector \<Rightarrow> (rat \<times> rat \<times> rat) option" where
  "GetCalculatedInvokeMetrics now bm =
     (case cur_bucket bm of
        None \<Rightarrow> None
      | Some b \<Rightarrow>
          Some (averageWithPrev (bk_avgProcTime b) (bk_prevAvgProcTime b),
                averageWithPrev (bk_insThdProcNumPS b) (bk_prevInsThdProcNumPS b),
                fadd (fmul factor (fdiv (bk_insThdReqNum b) (max (of_int \<lceil>seconds (now - bk_recordTime b)\<rceil>) 1)))
                     (fmul cofactor (bk_prevInsThdReqNumPS b))))"

definition rotateMetricsBucket :: "time \<Rightarrow> BucketCollector \<Rightarrow> Bucket \<Rightarrow> Bucket" where
  "rotateMetricsBucket now bm prevBucket =
     (let insThdReqNumPS = fdiv (bk_insThdReqNum prevBucket) (f64_of (bm_rotatePace bm))
      in (first_bucket False now)
           \<lparr>bk_inUseInsThdNum := bk_inUseInsThdNum prevBucket, bk_maxInUseInsThdNum := bk_maxInUseInsThdNum prevBucket,
            bk_prevAvgProcTime := averageWithPrev (bk_avgProcTime prevBucket) (bk_prevAvgProcTime prevBucket),
            bk_prevInsThdProcNumPS := averageWithPrev (bk_insThdProcNumPS prevBucket) (bk_prevInsThdProcNumPS prevBucket),
            bk_prevInsThdReqNumPS :=
              (if bk_isFirst prevBucket then insThdReqNumPS
               else fadd (fmul factor insThdReqNumPS) (fmul cofactor (bk_prevInsThdReqNumPS prevBucket)))\<rparr>)"

text \<open>A tick of \<^verbatim>\<open>StartRotateBucket\<close>.\<close>

definition rotate_tick :: "time \<Rightarrow> BucketCollector \<Rightarrow> BucketCollector" where
  "rotate_tick now bm =
     (case cur_bucket bm of
        None \<Rightarrow> bm
      | Some b \<Rightarrow> set_bucket (rotateMetricsBucket now bm b) (bm\<lparr>bm_curIndex := (bm_curIndex bm + 1) mod length (bm_bucketBuffer bm)\<rparr>))"

definition bc_Stop :: "BucketCollector \<Rightarrow> BucketCollector" where
  "bc_Stop bm = bm\<lparr>bm_stopped := True\<rparr>"

text \<open>What the scalers see: nothing before the first report.\<close>

definition collected_metrics :: "time \<Rightarrow> BucketCollector \<Rightarrow> invoke_metrics" where
  "collected_metrics now bm = (if bm_collected bm then GetCalculatedInvokeMetrics now bm else None)"

section \<open>Runs\<close>

text \<open>
  The operations in any order, with the threads in use and the most threads in use so far counted beside the collector. Measured times are
  not negative, and counts are below \<open>2 ^ 51\<close>.
\<close>

inductive bucket_step :: "BucketCollector \<times> int \<times> int \<Rightarrow> BucketCollector \<times> int \<times> int \<Rightarrow> bool" where
  requests: "bucket_step (bm, n, m) (UpdateInvokeRequests now k bm, n, m)"
| report: "(\<forall>r t. metrics = Some (r, t) \<longrightarrow> 0 \<le> t \<and> t \<le> 2 ^ 51) \<Longrightarrow> bc_UpdateInvokeMetrics now metrics bm = Some bm' \<Longrightarrow>
    bucket_step (bm, n, m) (bm', n, m)"
| threads: "small (n + d) \<Longrightarrow> bucket_step (bm, n, m) (UpdateInsThdMetrics now d bm, n + d, max (n + d) m)"
| rotate: "bm_started bm \<Longrightarrow> \<not> bm_stopped bm \<Longrightarrow> bucket_step (bm, n, m) (rotate_tick now bm, n, m)"
| stop: "bucket_step (bm, n, m) (bc_Stop bm, n, m)"

text \<open>What is known of a bucket: its counts, and that a rate that was measured is there, in the bucket or before it.\<close>

definition bucket_ok :: "bool \<Rightarrow> int \<Rightarrow> int \<Rightarrow> Bucket \<Rightarrow> bool" where
  "bucket_ok collected n m b \<longleftrightarrow>
     bk_inUseInsThdNum b = of_int n \<and> bk_maxInUseInsThdNum b = of_int m \<and>
     0 \<le> bk_avgProcTime b \<and> 0 \<le> bk_prevAvgProcTime b \<and> 0 \<le> bk_insThdProcNumPS b \<and> 0 \<le> bk_prevInsThdProcNumPS b \<and>
     (bk_initialized b \<longrightarrow> 0 < bk_avgProcTime b \<and> 0 < bk_insThdProcNumPS b) \<and>
     (collected \<longrightarrow> bk_initialized b \<or> 0 < bk_prevAvgProcTime b \<and> 0 < bk_prevInsThdProcNumPS b)"

definition bucket_inv :: "BucketCollector \<times> int \<times> int \<Rightarrow> bool" where
  "bucket_inv s =
     (case s of (bm, n, m) \<Rightarrow>
        length (bm_bucketBuffer bm) = 100 \<and> bm_curIndex bm < 100 \<and> small n \<and> 0 \<le> m \<and> n \<le> m \<and>
        (if bm_started bm then \<exists>b. cur_bucket bm = Some b \<and> bucket_ok (bm_collected bm) n m b
         else cur_bucket bm = None \<and> n = 0 \<and> m = 0 \<and> \<not> bm_collected bm))"

lemma f64_positive: "0 < x \<Longrightarrow> 0 < f64 x"
  by (simp add: f64_def f64_pos_positive)

lemma float_positive:
  "0 < x \<Longrightarrow> 0 < y \<Longrightarrow> 0 < fadd x y" "0 < x \<Longrightarrow> 0 \<le> y \<Longrightarrow> 0 < fadd x y" "0 < x \<Longrightarrow> 0 < y \<Longrightarrow> 0 < fmul x y" "0 < x \<Longrightarrow> 0 < y \<Longrightarrow> 0 < fdiv x y"
  "0 \<le> x \<Longrightarrow> 0 \<le> y \<Longrightarrow> 0 \<le> fmul x y"
  by (auto simp: fadd_def fmul_def fdiv_def intro: f64_positive f64_nonneg)

lemma factors_positive: "0 < factor" "0 < cofactor"
  by (simp_all add: factor_def cofactor_def f64_positive)

lemma averageWithPrev_positive:
  "0 \<le> v \<Longrightarrow> 0 \<le> p \<Longrightarrow> 0 < v \<or> 0 < p \<Longrightarrow> 0 < averageWithPrev v p" "0 \<le> v \<Longrightarrow> 0 \<le> p \<Longrightarrow> 0 \<le> averageWithPrev v p"
proof -
  show pos: "0 < averageWithPrev v p" if "0 \<le> v" "0 \<le> p" "0 < v \<or> 0 < p"
    using that factors_positive by (auto simp: averageWithPrev_def intro!: float_positive)
  then show "0 \<le> averageWithPrev v p" if "0 \<le> v" "0 \<le> p"
    using that by (cases "v = 0 \<and> p = 0") (auto simp: averageWithPrev_def less_eq_rat_def)
qed

lemma average_thread_positive:
  assumes "0 < v" "0 < r" "1 \<le> m"
  shows "0 < average_thread v r (of_int m)"
proof -
  have "0 \<le> fsub (of_int m) 1" using assms(3) by (simp add: fsub_def f64_nonneg)
  then show ?thesis unfolding average_thread_def using assms by (intro float_positive) auto
qed

lemma fadd_small: "small a \<Longrightarrow> small (a + b) \<Longrightarrow> fadd (of_int a) (f64_of b) = of_int (a + b)"
proof -
  assume a: "small a" "small (a + b)"
  then have "\<bar>b\<bar> \<le> 2 ^ 53" by (simp add: small_def)
  then have "f64_of b = of_int b" by (rule f64_of_int)
  then show ?thesis unfolding fadd_def using a(2) by (simp only: of_int_add [symmetric]) (rule f64_int, simp add: small_def)
qed

lemma cur_set_bucket [simp]: "bm_curIndex bm < length (bm_bucketBuffer bm) \<Longrightarrow> cur_bucket (set_bucket b bm) = Some b"
  by (simp add: cur_bucket_def set_bucket_def)

lemma set_bucket_simps [simp]:
  "length (bm_bucketBuffer (set_bucket b bm)) = length (bm_bucketBuffer bm)" "bm_curIndex (set_bucket b bm) = bm_curIndex bm"
  "bm_started (set_bucket b bm) = bm_started bm" "bm_collected (set_bucket b bm) = bm_collected bm"
  by (simp_all add: set_bucket_def)

lemma bucket_inv_start: "bucket_inv (NewBucketMetricsCollector, 0, 0)"
  by (simp add: bucket_inv_def NewBucketMetricsCollector_def cur_bucket_def small_def)

text \<open>After the first update there is a bucket.\<close>

lemma ensure_started_inv:
  assumes "bucket_inv (bm, n, m)"
  obtains b where "bm_started (ensure_started f now bm)" "cur_bucket (ensure_started f now bm) = Some b" "bucket_ok (bm_collected bm) n m b"
    "bm_collected (ensure_started f now bm) = bm_collected bm" "length (bm_bucketBuffer (ensure_started f now bm)) = 100"
    "bm_curIndex (ensure_started f now bm) < 100" "bm_stopped (ensure_started f now bm) = bm_stopped bm"
proof (cases "bm_started bm")
  case True
  then show thesis using assms that by (auto simp: bucket_inv_def ensure_started_def)
next
  case False
  have "bucket_ok (bm_collected bm) n m (first_bucket f now)" using assms False by (simp add: bucket_inv_def bucket_ok_def first_bucket_def)
  then show thesis using assms False that [of "first_bucket f now"]
    by (auto simp: bucket_inv_def ensure_started_def cur_bucket_def set_bucket_def)
qed

lemma measure_bucket_ok:
  assumes "bucket_ok c n m b" "0 \<le> m" "0 < t" "t \<le> 2 ^ 51" "measure_bucket t b = Some b'"
  shows "bucket_ok True n m b'"
proof -
  have t: "0 < f64_of t" using assms(3) by (simp add: f64_of_def f64_positive)
  have ps: "0 < fdiv 1000 (f64_of t)" using t by (intro float_positive) simp_all
  have "0 < m" if "bk_maxInUseInsThdNum b \<noteq> 0" using that assms(1,2) by (auto simp: bucket_ok_def less_le)
  then have avg: "0 < average_thread v r (bk_maxInUseInsThdNum b)" if "bk_maxInUseInsThdNum b \<noteq> 0" "0 < v" "0 < r" for v r
    using that assms(1) average_thread_positive [of v r m] by (auto simp: bucket_ok_def)
  show ?thesis using assms(1,5) t ps avg
    by (auto simp: bucket_ok_def measure_bucket_def Let_def less_imp_le split: if_splits)
qed

lemma rotate_bucket_ok: "bucket_ok c n m b \<Longrightarrow> bucket_ok c n m (rotateMetricsBucket now bm b)"
  unfolding bucket_ok_def rotateMetricsBucket_def first_bucket_def Let_def by (auto intro: averageWithPrev_positive)

lemma bucket_inv_step: "bucket_step s s' \<Longrightarrow> bucket_inv s \<Longrightarrow> bucket_inv s'"
proof (induction rule: bucket_step.induct)
  case (requests bm n m now k)
  then obtain b where "bm_started (ensure_started True now bm)" "cur_bucket (ensure_started True now bm) = Some b" "bucket_ok (bm_collected bm) n m b"
    "bm_collected (ensure_started True now bm) = bm_collected bm" "length (bm_bucketBuffer (ensure_started True now bm)) = 100"
    "bm_curIndex (ensure_started True now bm) < 100" by (rule ensure_started_inv)
  with requests show ?case by (auto simp: UpdateInvokeRequests_def on_bucket_def bucket_inv_def bucket_ok_def)
next
  case (report metrics now bm bm' n m)
  from report(3) obtain b where b: "bm_started (ensure_started True now bm)" "cur_bucket (ensure_started True now bm) = Some b"
    "bucket_ok (bm_collected bm) n m b" "bm_collected (ensure_started True now bm) = bm_collected bm"
    "length (bm_bucketBuffer (ensure_started True now bm)) = 100" "bm_curIndex (ensure_started True now bm) < 100" by (rule ensure_started_inv)
  have cur: "cur_bucket (ensure_started True now bm\<lparr>bm_collected := True\<rparr>) = Some b" using b(2) by (simp add: cur_bucket_def)
  consider "bm' = ensure_started True now bm"
    | r t b' where "metrics = Some (r, t)" "t \<noteq> 0" "measure_bucket t b = Some b'" "bm' = set_bucket b' (ensure_started True now bm\<lparr>bm_collected := True\<rparr>)"
    using report(2) cur by (auto simp: bc_UpdateInvokeMetrics_def Let_def split: option.splits if_splits)
  then show ?case
  proof cases
    case 1
    with b report(3) show ?thesis by (auto simp: bucket_inv_def)
  next
    case (2 r t b')
    then have "0 < t" "t \<le> 2 ^ 51" using report(1) by (auto simp: less_le)
    then have "bucket_ok True n m b'" using measure_bucket_ok [OF b(3) _ _ _ 2(3)] report(3) by (auto simp: bucket_inv_def)
    with b report(3) 2(4) show ?thesis by (auto simp: bucket_inv_def)
  qed
next
  case (threads n d bm m now)
  show ?case
  proof (cases "d = 0")
    case True
    with threads show ?thesis by (auto simp: UpdateInsThdMetrics_def bucket_inv_def max_def)
  next
    case False
    from threads(2) obtain b where b: "bm_started (ensure_started False now bm)" "cur_bucket (ensure_started False now bm) = Some b"
      "bucket_ok (bm_collected bm) n m b" "bm_collected (ensure_started False now bm) = bm_collected bm"
      "length (bm_bucketBuffer (ensure_started False now bm)) = 100" "bm_curIndex (ensure_started False now bm) < 100" by (rule ensure_started_inv)
    have s: "small n" "0 \<le> m" using threads(2) by (auto simp: bucket_inv_def)
    have n: "fadd (bk_inUseInsThdNum b) (f64_of d) = of_int (n + d)" using b(3) fadd_small [OF s(1) threads(1)] by (simp add: bucket_ok_def)
    have "max (of_int (n + d)) (bk_maxInUseInsThdNum b) = of_int (max (n + d) m)" using b(3) by (simp add: bucket_ok_def max_def)
    with n b s threads(1) False show ?thesis
      by (auto simp: UpdateInsThdMetrics_def on_bucket_def bucket_inv_def bucket_ok_def Let_def simp del: of_int_add)
  qed
next
  case (rotate bm n m now)
  then obtain b where b: "cur_bucket bm = Some b" "bucket_ok (bm_collected bm) n m b" by (auto simp: bucket_inv_def)
  with rotate rotate_bucket_ok [OF b(2), of now bm] show ?case by (auto simp: rotate_tick_def bucket_inv_def)
next
  case (stop bm n m)
  then show ?case by (auto simp: bc_Stop_def bucket_inv_def cur_bucket_def)
qed

lemma bucket_inv_reach: "bucket_step\<^sup>*\<^sup>* (NewBucketMetricsCollector, 0, 0) s \<Longrightarrow> bucket_inv s"
  by (induction rule: rtranclp_induct) (auto intro: bucket_inv_start bucket_inv_step)

section \<open>Properties\<close>

text \<open>The threads in use and the most threads ever in use are exact, however often the bucket has changed.\<close>

theorem bucket_threads_exact:
  assumes "bucket_step\<^sup>*\<^sup>* (NewBucketMetricsCollector, 0, 0) (bm, n, m)" and "cur_bucket bm = Some b"
  shows "bk_inUseInsThdNum b = of_int n \<and> bk_maxInUseInsThdNum b = of_int m"
  using bucket_inv_reach [OF assms(1)] assms(2) by (auto simp: bucket_inv_def bucket_ok_def split: if_splits)

text \<open>Once a report has been collected the time and the rate the scalers see are positive, for ever.\<close>

theorem collected_rate_positive:
  assumes "bucket_step\<^sup>*\<^sup>* (NewBucketMetricsCollector, 0, 0) (bm, n, m)" and "bm_collected bm"
  shows "\<exists>avgProcTime insThdProcNumPS insThdReqNumPS. collected_metrics now bm = Some (avgProcTime, insThdProcNumPS, insThdReqNumPS) \<and>
    0 < avgProcTime \<and> 0 < insThdProcNumPS"
proof -
  have inv: "bucket_inv (bm, n, m)" using assms(1) by (rule bucket_inv_reach)
  then have st: "bm_started bm" using assms(2) by (auto simp: bucket_inv_def split: if_splits)
  with inv obtain b where b: "cur_bucket bm = Some b" "bucket_ok True n m b" using assms(2) by (auto simp: bucket_inv_def)
  have "0 < averageWithPrev (bk_avgProcTime b) (bk_prevAvgProcTime b)" "0 < averageWithPrev (bk_insThdProcNumPS b) (bk_prevInsThdProcNumPS b)"
    using b(2) unfolding bucket_ok_def by (auto intro!: averageWithPrev_positive)
  with b(1) assms(2) show ?thesis by (simp add: collected_metrics_def GetCalculatedInvokeMetrics_def)
qed

text \<open>
  With this collector a decision of the automatic scaler is never given up for want of a rate: the demand of a hint is lost only if
  the rate a collector reports can be zero.
\<close>

theorem scaler_always_has_rate:
  assumes "bucket_step\<^sup>*\<^sup>* (NewBucketMetricsCollector, 0, 0) (bm, n, m)" and "collected_metrics now bm = Some r"
  shows "fst (snd r) \<noteq> 0"
proof -
  have "bm_collected bm" using assms(2) by (auto simp: collected_metrics_def split: if_splits)
  from collected_rate_positive [OF assms(1) this, of now] assms(2) show ?thesis by auto
qed

text \<open>A new bucket changes neither the average time nor the average rate.\<close>

theorem rotation_keeps_averages:
  assumes "bucket_inv (bm, n, m)" "bm_started bm" "GetCalculatedInvokeMetrics now bm = Some (a, p, r)"
  shows "\<exists>r'. GetCalculatedInvokeMetrics now' (rotate_tick now'' bm) = Some (a, p, r')"
proof -
  obtain b where b: "cur_bucket bm = Some b" "length (bm_bucketBuffer bm) = 100" using assms(1,2) by (auto simp: bucket_inv_def)
  then have "cur_bucket (rotate_tick now'' bm) = Some (rotateMetricsBucket now'' bm b)" by (simp add: rotate_tick_def)
  with b(1) assms(3) show ?thesis
    by (auto simp: GetCalculatedInvokeMetrics_def rotateMetricsBucket_def first_bucket_def averageWithPrev_def Let_def)
qed

section \<open>Witnesses and runs\<close>

definition reported100 :: BucketCollector where
  "reported100 = the (bc_UpdateInvokeMetrics 0 (Some (1, 100)) (UpdateInsThdMetrics 0 2 NewBucketMetricsCollector))"

text \<open>
  The collector measures milliseconds, and the automatic scaler subtracts the time of a request from a window in seconds: when the number of
  milliseconds is not below the number of seconds of the window, the threads in use count for nothing.
\<close>

theorem busy_threads_not_counted:
  assumes "seconds (as_scaleUpWindow sc) \<le> avgProcTime"
  shows "threads_wanted d (avgProcTime, p, r) (sc\<lparr>as_inUseInsThdNum := k\<rparr>) = threads_wanted d (avgProcTime, p, r) sc"
proof -
  have "fsub (seconds (as_scaleUpWindow sc)) avgProcTime \<le> 0"
    using assms f64_mono [of "seconds (as_scaleUpWindow sc) - avgProcTime" 0] by (simp add: fsub_def)
  then have "max (fsub (seconds (as_scaleUpWindow sc)) avgProcTime) 0 = 0" by simp
  then show ?thesis by (simp add: threads_wanted_def Let_def fmul_def)
qed

theorem busy_threads_not_counted_witness:
  "threads_wanted 5 (100, 10, 1) (scaler4\<lparr>as_inUseInsThdNum := 1000\<rparr>) = threads_wanted 5 (100, 10, 1) scaler4"
  by (rule busy_threads_not_counted) code_simp

theorem measured_in_milliseconds: "map_option fst (collected_metrics 0 reported100) = Some 100"
  by code_simp

text \<open>A second report in a bucket before any thread was in use divides by zero.\<close>

theorem report_without_thread_breaks:
  "Option.bind (bc_UpdateInvokeMetrics 0 (Some (1, 100)) NewBucketMetricsCollector) (bc_UpdateInvokeMetrics 0 (Some (1, 200))) = None"
  by code_simp

text \<open>
  The first rate is not to be averaged with the zero before it. When the collector is started by the threads in use it is: ten requests in
  the first second make a rate of seven.
\<close>

theorem first_rate_averaged_with_zero:
  "map_option bk_prevInsThdReqNumPS (cur_bucket (rotate_tick second (UpdateInvokeRequests 0 10 (UpdateInsThdMetrics 0 1 NewBucketMetricsCollector)))) = Some 7 \<and>
   map_option bk_prevInsThdReqNumPS (cur_bucket (rotate_tick second (UpdateInvokeRequests 0 10 NewBucketMetricsCollector))) = Some 10"
  by code_simp

end
