(* ===== verification/Spec2Isabelle.thy ===== *)
theory Spec2Isabelle
  imports TimeWheel HashRing SchedulerProxy SessionCoord LiteRequests ScaleHints ConcurrencyWaiting ConcurrencyFindings
    AutoScaler TenantQuota OnDemandQueue ContextRuns StateRuns ManagerConfigs
    AliasRoute AnchorRing PredictProps SignalManager OneShotPool BucketCollector
begin

text \<open>
  A verification development for the scheduling core of openYuanrong: the Go code under
  \<^verbatim>\<open>src/go/pkg/functionscaler\<close> that decides which instance of a function serves a request, for how long, and when
  instances are made or removed, with the shared libraries under \<^verbatim>\<open>src/go/pkg/common/faas_common\<close> it stands on.
  All paths below are relative to \<^verbatim>\<open>src/go/pkg\<close>.

  \<^bold>\<open>The program.\<close> Several schedulers run side by side. A consistent-hash ring decides which of them owns a
  function. The owner keeps a pool of instances per function; a client acquires a share of an instance (units of
  its capacity in the session scheduler, threads in the concurrency scheduler), gets a lease, extends
  it, and gives it back. A session is bound to one instance. Leases expire by a time wheel. When no instance has room
  the request waits in a queue and a scaler is triggered; the scaler decides how many instances to create
  or remove, and goroutines of the instance queue do it.

  \<^bold>\<open>Theories and sources.\<close>

  \<^item> \<open>GoPrelude\<close>, \<open>GoStrings\<close>, \<open>GoHash\<close>, \<open>GoFloat\<close>: what the sources use of Go and its library. Maps are finite maps, iteration
    over a map is an order given as a parameter, errors are values of a sum or option type, a panic is a value as well;
    SHA-256, CRC-32 and hexadecimal coding compute; a \<^verbatim>\<open>float64\<close> is a rational, and each operation rounds to 53
    bits, ties to even (infinities, NaN and underflow do not occur in the ranges of the theorems).
  \<^item> \<open>Contracts\<close>: the interfaces between components as locales (\<open>lease_timer\<close>, \<open>hash_router\<close>); further ones
    stand with their users (\<open>slot_selector\<close>, \<open>bag_queue\<close>, \<open>id_queue\<close>, \<open>popping\<close>, \<open>progress\<close>, \<open>load_balance\<close>). Each is interpreted on the
    definitions that model the code.
  \<^item> \<open>TimeWheel\<close> (\<^verbatim>\<open>timewheel/simpletimewheel.go\<close>), \<open>HashRing\<close> (\<^verbatim>\<open>loadbalance/hash.go\<close>, the type
    \<^verbatim>\<open>SimpleCHGeneric\<close>), \<open>SchedulerProxy\<close> (\<^verbatim>\<open>selfregister/proxy.go\<close>), \<open>PriorityQueue\<close> and \<open>FifoQueue\<close>
    (\<^verbatim>\<open>queue\<close>): the libraries.
  \<^item> \<open>WeightedRoundRobin\<close> and \<open>AnchorRing\<close> (\<^verbatim>\<open>loadbalance\<close>): the other balancers; \<open>LoadBalance\<close>: their common interface, of which weighted
    round robin and the hash ring are instances; \<open>AliasRoute\<close> (\<^verbatim>\<open>aliasroute\<close>): the aliases of functions, which
    share requests between versions by weights or by rules.
  \<^item> \<open>SessionCoord\<close> (\<^verbatim>\<open>session\<close>): the external store of sessions, the asynchronous queue of its writes with one worker, and
    de-duplicated reads.
  \<^item> \<open>LiteAlloc\<close>, \<open>LiteDispatch\<close>, \<open>LitePool\<close>, \<open>LiteSched\<close>, \<open>LiteEvents\<close>, \<open>ScaleHints\<close> (\<^verbatim>\<open>litescheduler\<close>): the session
    scheduler. \<open>Ledger\<close> is its abstract specification, \<open>LiteAccounting\<close> the refinement, \<open>LiteSystem\<close>
    the transition system, \<open>LiteSample\<close> a concrete run, \<open>LiteProps\<close> and \<open>LiteRequests\<close> the properties.
  \<^item> \<open>InstanceQueue\<close>, \<open>InstanceQueueLaws\<close>, \<open>SessionManager\<close>, \<open>ConcurrencyScheduler\<close>
    (\<^verbatim>\<open>scheduler/concurrencyscheduler\<close>): the older scheduler by threads; \<open>ConcurrencyInvariant\<close>,
    \<open>ConcurrencySteps\<close>, \<open>ConcurrencySystem\<close> its invariant and transition system, \<open>ConcurrencyProps\<close> and
    \<open>ConcurrencyFindings\<close> what it guarantees and what it does not. \<open>LeaseManager\<close> (\<^verbatim>\<open>lease\<close>): its leases.
  \<^item> \<open>RequestQueue\<close>, \<open>RequestSystem\<close>, \<open>RequestProps\<close> (\<^verbatim>\<open>requestqueue\<close>): the requests that wait, with the
    goroutines that schedule them and time them out. \<open>ConcurrencyWaiting\<close>: the reserved and the scaled scheduler on top of
    the scheduler and the queue.
  \<^item> \<open>ReplicaScaler\<close>, \<open>AutoScaler\<close>, \<open>PredictScaler\<close> with \<open>PredictProps\<close> (\<^verbatim>\<open>scaler\<close>), \<open>CreateQueue\<close> and \<open>ScaleLoop\<close> (\<^verbatim>\<open>instancequeue\<close>): the scalers, and the
    goroutines that create and remove instances for them. \<open>BucketCollector\<close> (\<^verbatim>\<open>metrics\<close>): the collector of the rates they decide on.
  \<^item> \<open>RoundRobinSched\<close> (\<^verbatim>\<open>scheduler/roundrobinscheduler\<close>), \<open>MicroServiceSched\<close> (\<^verbatim>\<open>scheduler/microservicescheduler\<close>): the schedulers
    that give out whole instances in turns. \<open>OnDemandQueue\<close> (\<^verbatim>\<open>instancequeue\<close>): the instances created on request, and the
    cleaning of a queue with a scheduler.
  \<^item> \<open>ContextStore\<close>, \<open>SessionContext\<close>, \<open>ContextProps\<close>, \<open>ContextRuns\<close> (\<^verbatim>\<open>sessioncontext\<close>): the records of session contexts in
    the key-value store, forking and deleting a context, and the hints of its use. An operation is a program over the store,
    with rules for weakest preconditions.
  \<^item> \<open>StateLease\<close>, \<open>StateRoute\<close>, \<open>StateSystem\<close>, \<open>StateRuns\<close> (\<^verbatim>\<open>stateinstance\<close>, \<^verbatim>\<open>instancepool/stateroute.go\<close>, the leases of
    \<^verbatim>\<open>instancepool/poolmanager.go\<close>): functions with states, the leases on the instance of a state with their timers, the route
    from states to instances, their transition system, and runs of it.
  \<^item> \<open>PoolLimits\<close>, \<open>PoolSessions\<close>, \<open>PoolQueues\<close>, \<open>PoolEvents\<close> (\<^verbatim>\<open>instancepool/instancepool.go\<close>): the pool of a function, with the
    limits of its creations, the sessions it remembers, its queues by resources and label, and the events of its instances;
    \<open>ManagerConfigs\<close> (\<^verbatim>\<open>instancepool/poolmanager.go\<close>): the pools of all functions, generic or one-shot, and their configurations; \<open>OneShotPool\<close>
    (\<^verbatim>\<open>instancepool/oneshot_instance_pool.go\<close>): the pool whose instances serve one request each.
  \<^item> \<open>TenantQuota\<close> (\<^verbatim>\<open>tenantquota\<close>): the limit on the instances of a tenant, shared by the schedulers through etcd.
  \<^item> \<open>SignalManager\<close> (\<^verbatim>\<open>signalmanager\<close>, \<^verbatim>\<open>rollout\<close>): the goroutines that tell instances of changes, and the ratio of a rollout.

  A Go struct is a record whose fields carry the source's names behind a prefix; a method is a definition of the same
  name, with the prefix of its type where several types have a method of that name. Objects the code shares by pointer (pools
  and instances of the schedulers, session records) live in a store and are named by an address.

  \<^bold>\<open>Steps and interleaving.\<close> The transition systems (\<open>lite_step\<close>, \<open>conc_step\<close>, \<open>req_step\<close>, \<open>lease_step\<close>, \<open>scale_step\<close>, \<open>rb_step\<close>, \<open>od_step\<close>,
  \<open>state_step\<close>, \<open>limit_step\<close>, \<open>session_step\<close>, \<open>pool_queue_step\<close>, \<open>manager_step\<close>, \<open>predict_step\<close>, \<open>signal_step\<close>, \<open>one_shot_step\<close>, \<open>bucket_step\<close> and the worker of \<open>SessionCoord\<close>) have one step per lock section, so that their runs are the interleavings of the
  goroutines, with these exceptions. In \<open>lite_step\<close> a handler that locks the allocation map and then the pool is
  one step; in \<open>rb_step\<close> an update of an instance is one step (\<open>removed_instance_comes_back\<close> shows what its two lock sections
  allow); in \<open>pool_queue_step\<close> and \<open>manager_step\<close> an event is one step, except for the two lock sections of a configuration event
  (\<open>new_pool_misses_config\<close>); in \<open>TenantQuota\<close> and in the session contexts a call is one step, since it holds a lock in etcd or the lock of the
  context, and what others write to the store while a context is deleted is an argument (\<open>late_turn_survives\<close>). The store of the contexts may fail at any call
  and may fail after it has written (\<open>kw_left\<close>, \<open>kw_torn\<close>); an operation of the session store may fail and is only logged (\<open>store_op\<close>).

  Where operations of the code get in each other's way, the steps carry a label that says so, and the properties that need it speak of the runs without
  such a label; nothing is ruled out silently. \<open>lite_move\<close> takes every request, poll and event of the session scheduler at any time, and its label is \<open>clash\<close>: a
  poll for a session that was bound meanwhile (\<open>poll_overwrites_binding\<close>), an allocation ID in use (\<open>reacquired_id_reused\<close>), a pool that is
  gone, a change of the context mode. \<open>conc_move\<close> does the same for the concurrency scheduler: an instance announced twice or with another concurrency
  (\<open>ring_change_duplicates_instance\<close>), a change of the concurrency of the function. \<open>lite_step\<close> and \<open>conc_step\<close> themselves have the regular steps only. The flag of \<open>state_step\<close> admits the deletion of states
  (\<open>deleted_state_loses_instance\<close>), updates and removal reports that come too late (\<open>stale_update_loses_instance\<close>), and recovery over states in use. The
  label of \<open>manager_step\<close> marks pools that are made without configurations (\<open>state_pool_misses_config\<close>). The deletion of the function and the destruction of
  its queue are steps of \<open>scale_step\<close>, after which callbacks do not come.

  Guards of the rules that are
  not conditions of the code say what the environment keeps: \<open>env_ok\<close> and \<open>env_lawful\<close>, that the given orders list
  every key of a map once; \<open>serves\<close>, that a request was parsed for the function of the pool; in the \<open>add\<close> rule of \<open>req_step\<close>, that a request object is added once; in \<open>od_step\<close>, that the kernel gives a new
  instance a new ID and the name that was asked for; \<open>keys_ok\<close>, that the hashed keys of two contexts differ;
  in \<open>state_step\<close>, that an instance has a new ID, while a timer that is armed may fire at any time; \<open>label_uniform\<close>, that a
  configuration is deleted while its label has scaled queues of one resource only (\<open>destroyed_queue_answers\<close>); in \<open>predict_step\<close>,
  that a forecast does not come while a loop handles the one before (\<open>forecast_leaves_pending\<close>).

  \<^bold>\<open>Parameters.\<close> Behind the boundary of the sources, and therefore arguments of the definitions: the clock,
  the order of map iteration, the answers of the key-value store, the states that a restart reads back from the recovery queue, etcd and HTTP calls, the JSON codec of
  records, UUIDs, the metrics collector (the measured rate and times), the creation of an instance by the kernel,
  the schedule function of the request queue and the configuration.

  \<^bold>\<open>Fuel and termination.\<close> All definitions are total. Loops over data are structural or have a measure (sifting
  in the heap, the retry delays); the loops that wait for the clock are recursions over the given instants
  (\<open>wait_loop\<close>, \<open>rcs_poll_loop\<close>), and \<open>waitForInstance_returns\<close> shows that they answer as soon as the instants pass the
  timeout; \<open>cleanInstances\<close> has fuel, and \<open>cleaning_empties\<close> shows that one more than the number of instances suffices; loops that block for ever are steps of a transition system. No bound on the number of instances, sessions or
  requests is assumed. Counters are unbounded integers, except where the code relies on a width: hashes are
  32-bit words, and \<open>scale_up_within_demand\<close> asks for numbers below \<open>2 ^ 52\<close>, which are exact in a \<^verbatim>\<open>float64\<close>.

  \<^bold>\<open>What is shown.\<close>

  \<^item> Session scheduler: after every run without clashes the used units of an instance are those its sessions and
    allocations hold, and every step without a clash refines the ledger; an acquire never exceeds a capacity, the dispatch of a bound session stays on its
    instance, release and retain do exactly what they say, a retained lease starts its countdown on the wheel again, removal and deletion leave nothing
    behind but what the store fails to delete, a waiting acquire is answered, only the owner of a function serves it.
  \<^item> Concurrency scheduler: threads offered stay within the concurrency of an instance, the observers are told
    exactly the changes in regular runs, sessions stick, leases end exactly once; every waiting request is at one place and answered
    at most once, and freed threads reach the front of the queue.
  \<^item> Ring and wheel: ownership depends on the members only and agrees with a reference definition, a change moves only
    the keys it must; tasks fire on time. Balancers: a round of weighted requests gives every version of an alias exactly its weight, moves on the
    ring with anchors visit every node, the limiter finds a node that is not to be avoided, a cache of hashes is not seen; rules choose
    the gray version exactly when they hold, and a deleted alias is not found.
  \<^item> Scaling: the pending number of the replica scaler accounts for the work under way, creations end, a
    decision of the automatic scaler is bounded by the demand; the recorded count of a tenant stays within its quota while etcd answers. Forecasts: the next window is prepared a cold start
    ahead, a scale-down stays above the forecast, a hint is followed by the least number of instances that covers it, the pending threads are exact. Rates: the count
    of threads in use is exact, a measured rate never becomes zero.
  \<^item> Signals: none is lost while its data can be read, a processor has one goroutine at most, a removed instance is not signalled.
  \<^item> Round-robin scheduler: the counters and what the scaler is told are exact in every reachable state, and as many requests as there
    are instances of the zone in turn get one each. Micro services: with least connections a request goes to an
    instance with the fewest open requests and keeps the counts even. On-demand queue: name and ID agree. Cleaning ends and leaves nothing.
  \<^item> Session contexts: a fork and, while nobody else writes, a deletion that failed anywhere can be repeated, and when they succeed the target has exactly the turns of
    the source, or nothing of the context is left; an instance is created for a context only when it has none.
  \<^item> Instances of states: in runs without clashes a state has at most one instance and none is lost; in all runs an instance has no more leases than its
    concurrency allows, and no timer of the route to scale it down is armed while it is leased (a second leaser made by recovery does not know of the
    leases: \<open>recovered_leaser_removes_leased\<close>). The number in an allocation ID is read back as it was written.
  \<^item> Pools: a creation is granted within the maxima of the label and the function; a surplus is scaled down; an instance that is removed
    is named by no session; the reasons for which a request is refused are listed, the last of them that every queue that might serve it did; a queue that was destroyed is not used
    any more; an event tells the queue of its instance and no other; a generic pool has every configuration the manager has recorded; an abnormal
    instance is removed once a minute at most. One-shot pool: no instance serves two requests, and the deletion of each is asked for.
  \<^item> Runs in which the code does not do what it means to are theorems as well, in the theory of the component.

  \<^bold>\<open>Not modelled.\<close> The facade \<^verbatim>\<open>faasscheduler.go\<close>, the creation and deletion of instances in \<^verbatim>\<open>instancepool\<close> (calls of the kernel and
  Kubernetes clients), and the conversion of instance events by the pool manager; owner changes, recovery and the builder of the scaled queue, and
  the wiring of observers to the scalers. The gray allocator is used by no other code. Registries and clients of external services, logging,
  metrics, alarms, credentials, command entry points, the dashboard and the parts in other languages have little
  logic of their own and are left out.
\<close>

end
